(* ===== verification/Prelude.thy ===== *)
theory Prelude
  imports Main "HOL-Library.Monad_Syntax" "HOL-Library.Sublist"
begin

text \<open>
  Shared material: panics as the value \<open>None\<close> of an option (the code's \<open>base::Check\<close>
  aborts the process), the collections of simplification rules the component theories extend, and
  generic facts on lists, prefixes cut at a predicate and lists sorted by a key.
\<close>

named_theorems panic_simps \<open>unfolding of checks and of the option monad\<close>
named_theorems series_simps \<open>facts about time-sorted runs of samples\<close>

section \<open>Checks\<close>

text \<open>
  \<open>base::Check (b)\<close> aborts when \<open>b\<close> is false; an operation that may abort returns an option,
  \<open>None\<close> standing for the abort.
\<close>

definition check :: "bool \<Rightarrow> unit option" where
  "check b = (if b then Some () else None)"

lemma check_simps [simp, panic_simps]:
  "check True = Some ()"
  "check False = None"
  "check b = Some u \<longleftrightarrow> b"
  "check b = None \<longleftrightarrow> \<not> b"
  "(check b \<bind> f = Some x) \<longleftrightarrow> b \<and> f () = Some x"
  "(check b \<bind> f = None) \<longleftrightarrow> (b \<longrightarrow> f () = None)"
  by (auto simp: check_def)

section \<open>Lists\<close>

lemma take_length_takeWhile [simp]: "take (length (takeWhile P xs)) xs = takeWhile P xs"
  by (induction xs) auto

lemma drop_length_takeWhile [simp]: "drop (length (takeWhile P xs)) xs = dropWhile P xs"
  by (induction xs) auto

lemma nth_length_takeWhile_not:
  "length (takeWhile P xs) < length xs \<Longrightarrow> \<not> P (xs ! length (takeWhile P xs))"
  by (rule nth_length_takeWhile)

section \<open>Runs sorted by a key\<close>

text \<open>A run is strictly sorted by a key, so each key occurs at most once.\<close>

abbreviation key_sorted :: "('a \<Rightarrow> 'k::linorder) \<Rightarrow> 'a list \<Rightarrow> bool" where
  "key_sorted f xs \<equiv> sorted_wrt (\<lambda>a b. f a < f b) xs"

lemma key_sorted_distinct: "key_sorted f xs \<Longrightarrow> distinct (map f xs)"
  by (induction xs) fastforce+

lemma key_sorted_imp_sorted: "key_sorted f xs \<Longrightarrow> sorted (map f xs)"
  by (induction xs) (auto simp: less_imp_le)

lemma key_sorted_inj:
  "key_sorted f xs \<Longrightarrow> a \<in> set xs \<Longrightarrow> b \<in> set xs \<Longrightarrow> f a = f b \<Longrightarrow> a = b"
  using key_sorted_distinct by (metis distinct_map inj_onD)

lemma key_sorted_filter: "key_sorted f xs \<Longrightarrow> key_sorted f (filter P xs)"
  by (simp add: sorted_wrt_filter)

lemma key_sorted_take: "key_sorted f xs \<Longrightarrow> key_sorted f (take n xs)"
  by (rule sorted_wrt_take)

lemma key_sorted_drop: "key_sorted f xs \<Longrightarrow> key_sorted f (drop n xs)"
  by (rule sorted_wrt_drop)

lemma key_sorted_le_last: "key_sorted f xs \<Longrightarrow> x \<in> set xs \<Longrightarrow> f x \<le> f (last xs)"
  by (induction xs) (auto simp: less_imp_le)

lemma in_set_drop_take: "x \<in> set (drop i (take j xs)) \<Longrightarrow> x \<in> set xs"
  by (meson in_set_dropD in_set_takeD)

text \<open>On a sorted run, cutting at a monotone bound is filtering.\<close>

lemma takeWhile_sorted_less:
  "sorted (map f xs) \<Longrightarrow> takeWhile (\<lambda>x. f x < t) xs = filter (\<lambda>x. f x < t) xs"
  by (induction xs) (auto intro!: sym [OF filter_False] dest: order.strict_trans1)

lemma dropWhile_sorted_less:
  "sorted (map f xs) \<Longrightarrow> dropWhile (\<lambda>x. f x < t) xs = filter (\<lambda>x. t \<le> f x) xs"
  by (induction xs) (auto simp: not_less intro!: sym [OF filter_True])

lemma takeWhile_sorted_le:
  "sorted (map f xs) \<Longrightarrow> takeWhile (\<lambda>x. \<not> t < f x) xs = filter (\<lambda>x. f x \<le> t) xs"
  by (induction xs) (auto simp: not_less intro!: sym [OF filter_False] dest: order_trans)

lemma dropWhile_sorted_le:
  "sorted (map f xs) \<Longrightarrow> dropWhile (\<lambda>x. \<not> t < f x) xs = filter (\<lambda>x. t < f x) xs"
  by (induction xs) (auto simp: not_less intro!: sym [OF filter_True])

end
