(* ===== verification/Time_Series.thy ===== *)
theory Time_Series
  imports Prelude "HOL-Library.Extended_Nat"
begin

text \<open>
  The algorithms on time-sorted runs of samples of \<open>common/timed_data_util.h\<close> and the
  non-owning view of \<open>timed_data/timed_data_view.h\<close>.

  The C++ is a set of templates over a sample type \<open>T\<close> with a traits class
  \<open>TimedDataTraits<T>\<close>; here the sample type is a type variable \<open>'v\<close> and the traits are the
  arguments \<open>ts\<close> (\<open>timestamp\<close>) and, where it is used, \<open>lesser\<close> (\<open>IsLesser\<close>).
  \<open>scada::DateTime\<close> is not part of the repository: a timestamp is any linear order with a least
  element \<open>bot\<close>, the null time (the code relies on a null timestamp sorting as the minimum), and,
  where the code uses it, a greatest element \<open>top\<close>, \<open>DateTime::Max ()\<close>.
  A span or a vector is a list; an index into it is a \<open>nat\<close>; a pointer to an element is its index.
\<close>

section \<open>Sample traits\<close>

text \<open>
  What the containers rely on of \<open>TimedDataTraits\<close>: \<open>IsLesser\<close> orders samples of one timestamp
  strictly, and a sample is not lesser than itself.
\<close>

locale sample_traits =
  fixes ts :: "'v \<Rightarrow> 't::linorder"
    and lesser :: "'v \<Rightarrow> 'v \<Rightarrow> bool"
  assumes lesser_irrefl: "\<not> lesser a a"
    and lesser_trans: "lesser a b \<Longrightarrow> lesser b c \<Longrightarrow> lesser a c"
    and lesser_ts: "lesser a b \<Longrightarrow> ts a \<le> ts b"
begin

lemma lesser_asym: "lesser a b \<Longrightarrow> \<not> lesser b a"
  using lesser_irrefl lesser_trans by blast

end

section \<open>\<open>common/timed_data_util.h\<close>\<close>

text \<open>\<open>IsTimeSorted\<close>: no two adjacent samples with \<open>>=\<close> timestamps.\<close>

fun is_time_sorted :: "('v \<Rightarrow> 't::linorder) \<Rightarrow> 'v list \<Rightarrow> bool" where
  "is_time_sorted ts [] = True"
| "is_time_sorted ts [x] = True"
| "is_time_sorted ts (x # y # xs) = (\<not> ts x \<ge> ts y \<and> is_time_sorted ts (y # xs))"

text \<open>\<open>IsReverseTimeSorted\<close>: the same over the reverse iterators.\<close>

definition is_reverse_time_sorted :: "('v \<Rightarrow> 't::linorder) \<Rightarrow> 'v list \<Rightarrow> bool" where
  "is_reverse_time_sorted ts xs = is_time_sorted ts (rev xs)"

text \<open>\<open>std::lower_bound\<close> and \<open>std::upper_bound\<close> by the timestamp, as indices.\<close>

definition lower_bound :: "('v \<Rightarrow> 't::linorder) \<Rightarrow> 'v list \<Rightarrow> 't \<Rightarrow> nat" where
  "lower_bound ts xs t = length (takeWhile (\<lambda>x. ts x < t) xs)"

definition upper_bound :: "('v \<Rightarrow> 't::linorder) \<Rightarrow> 'v list \<Rightarrow> 't \<Rightarrow> nat" where
  "upper_bound ts xs t = length (takeWhile (\<lambda>x. \<not> t < ts x) xs)"

text \<open>\<open>ReverseUpperBound\<close>: the upper bound of a descending run, under \<open>std::greater\<close>.\<close>

definition reverse_upper_bound :: "('v \<Rightarrow> 't::linorder) \<Rightarrow> 'v list \<Rightarrow> 't \<Rightarrow> nat" where
  "reverse_upper_bound ts xs t = length (takeWhile (\<lambda>x. \<not> t > ts x) xs)"

text \<open>\<open>GetValueAt\<close>: the index of the sample at \<open>time\<close>, else of the last one before it.\<close>

definition get_value_at :: "('v \<Rightarrow> 't::linorder) \<Rightarrow> 'v list \<Rightarrow> 't \<Rightarrow> nat option" where
  "get_value_at ts xs t =
     (let i = lower_bound ts xs t
      in if i \<noteq> length xs \<and> ts (xs ! i) = t then Some i
         else if i = 0 then None
         else Some (i - 1))"

text \<open>\<open>FindInsertPosition\<close>: the gap between samples that all of \<open>[from, to]\<close> falls into.\<close>

definition find_insert_position ::
    "('v \<Rightarrow> 't::linorder) \<Rightarrow> 'v list \<Rightarrow> 't \<Rightarrow> 't \<Rightarrow> nat option" where
  "find_insert_position ts xs from to =
     (let i = lower_bound ts xs from
      in if i \<noteq> length xs \<and> ts (xs ! i) = from then None
         else let j = lower_bound ts xs to
              in if j \<noteq> length xs \<and> ts (xs ! j) = to then None
                 else if i \<noteq> j then None
                 else Some i)"

text \<open>
  \<open>ReplaceSubrange\<close> with the comparison by timestamp. The samples in \<open>[first, last)\<close> are
  overwritten element-wise by the first updates; the remaining updates are inserted at \<open>last\<close>, or
  the remaining old samples are erased. The three checks are those of the code.
\<close>

definition replace_subrange ::
    "('v \<Rightarrow> 't::linorder) \<Rightarrow> 'v list \<Rightarrow> 'v list \<Rightarrow> 'v list option" where
  "replace_subrange ts values updates = do {
     check (sorted (map ts values));
     check (sorted (map ts updates));
     if updates = [] then Some values
     else do {
       let first = lower_bound ts values (ts (updates ! 0));
       let last = upper_bound ts values (ts (updates ! (length updates - 1)));
       let count = last - first;
       let copy_count = min count (length updates);
       let copied = take first values @ take copy_count updates @ drop (first + copy_count) values;
       let result =
         (if count < length updates
          then take last copied @ drop copy_count updates @ drop last copied
          else take (first + copy_count) copied @ drop last copied);
       check (sorted (map ts result));
       Some result
     }
   }"

section \<open>\<open>BasicTimedDataView\<close>\<close>

text \<open>A view is the run of samples it borrows.\<close>

definition view_from :: "('v \<Rightarrow> 't::{linorder,order_bot}) \<Rightarrow> 'v list \<Rightarrow> 't \<Rightarrow> 'v list" where
  "view_from ts xs start = (if start = bot then xs else drop (lower_bound ts xs start) xs)"

definition view_until :: "('v \<Rightarrow> 't::{linorder,order_bot}) \<Rightarrow> 'v list \<Rightarrow> 't \<Rightarrow> 'v list" where
  "view_until ts xs end_time =
     (if end_time = bot then xs else take (upper_bound ts xs end_time) xs)"

definition view_slice ::
    "('v \<Rightarrow> 't::{linorder,order_bot}) \<Rightarrow> 'v list \<Rightarrow> 't \<times> 't \<Rightarrow> 'v list" where
  "view_slice ts xs rng = view_until ts (view_from ts xs (fst rng)) (snd rng)"

definition view_value_at :: "('v \<Rightarrow> 't::linorder) \<Rightarrow> 'v list \<Rightarrow> 't \<Rightarrow> nat option" where
  "view_value_at ts xs t =
     (let i = lower_bound ts xs t
      in if i \<noteq> length xs \<and> ts (xs ! i) = t then Some i else None)"

definition view_sample_at_or_before :: "('v \<Rightarrow> 't::linorder) \<Rightarrow> 'v list \<Rightarrow> 't \<Rightarrow> nat option" where
  "view_sample_at_or_before ts xs t = get_value_at ts xs t"

definition view_time_span :: "('v \<Rightarrow> 't::{linorder,order_bot}) \<Rightarrow> 'v list \<Rightarrow> 't \<times> 't" where
  "view_time_span ts xs = (if xs = [] then (bot, bot) else (ts (hd xs), ts (last xs)))"

section \<open>Lemmas\<close>

lemma is_time_sorted_iff [series_simps]: "is_time_sorted ts xs \<longleftrightarrow> key_sorted ts xs"
  by (induction ts xs rule: is_time_sorted.induct) (auto simp: not_le dest: less_trans)

lemma lower_bound_le_length [simp]: "lower_bound ts xs t \<le> length xs"
  by (simp add: lower_bound_def length_takeWhile_le)

lemma upper_bound_le_length [simp]: "upper_bound ts xs t \<le> length xs"
  by (simp add: upper_bound_def length_takeWhile_le)

lemma take_lower_bound [series_simps]:
  "sorted (map ts xs) \<Longrightarrow> take (lower_bound ts xs t) xs = filter (\<lambda>x. ts x < t) xs"
  unfolding lower_bound_def take_length_takeWhile by (rule takeWhile_sorted_less)

lemma drop_lower_bound [series_simps]:
  "sorted (map ts xs) \<Longrightarrow> drop (lower_bound ts xs t) xs = filter (\<lambda>x. t \<le> ts x) xs"
  unfolding lower_bound_def drop_length_takeWhile by (rule dropWhile_sorted_less)

lemma take_upper_bound [series_simps]:
  "sorted (map ts xs) \<Longrightarrow> take (upper_bound ts xs t) xs = filter (\<lambda>x. ts x \<le> t) xs"
  unfolding upper_bound_def take_length_takeWhile by (rule takeWhile_sorted_le)

lemma drop_upper_bound [series_simps]:
  "sorted (map ts xs) \<Longrightarrow> drop (upper_bound ts xs t) xs = filter (\<lambda>x. t < ts x) xs"
  unfolding upper_bound_def drop_length_takeWhile by (rule dropWhile_sorted_le)

lemma lower_bound_count:
  "sorted (map ts xs) \<Longrightarrow> lower_bound ts xs t = length (filter (\<lambda>x. ts x < t) xs)"
  by (simp add: lower_bound_def takeWhile_sorted_less)

lemma upper_bound_count:
  "sorted (map ts xs) \<Longrightarrow> upper_bound ts xs t = length (filter (\<lambda>x. ts x \<le> t) xs)"
  by (simp add: upper_bound_def takeWhile_sorted_le)

lemma lower_le_upper_bound:
  "sorted (map ts xs) \<Longrightarrow> s \<le> t \<Longrightarrow> lower_bound ts xs s \<le> upper_bound ts xs t"
  unfolding lower_bound_count upper_bound_count
  by (induction xs) auto

lemma lower_bound_less_nth:
  "j < lower_bound ts xs t \<Longrightarrow> ts (xs ! j) < t"
  unfolding lower_bound_def by (metis nth_mem set_takeWhileD takeWhile_nth)

lemma lower_bound_nth:
  "lower_bound ts xs t < length xs \<Longrightarrow> t \<le> ts (xs ! lower_bound ts xs t)"
  unfolding lower_bound_def by (metis not_less nth_length_takeWhile)

lemma key_sorted_nth_mono:
  "key_sorted ts xs \<Longrightarrow> i < j \<Longrightarrow> j < length xs \<Longrightarrow> ts (xs ! i) < ts (xs ! j)"
  by (simp add: sorted_wrt_iff_nth_less)

lemma lower_bound_above:
  assumes "key_sorted ts xs" "lower_bound ts xs t \<le> j" "j < length xs"
  shows "t \<le> ts (xs ! j)"
proof -
  have "t \<le> ts (xs ! lower_bound ts xs t)" using assms by (intro lower_bound_nth) simp
  moreover have "ts (xs ! lower_bound ts xs t) \<le> ts (xs ! j)"
    using assms key_sorted_nth_mono [of ts xs "lower_bound ts xs t" j]
    by (cases "lower_bound ts xs t = j") auto
  ultimately show ?thesis by simp
qed

subsection \<open>\<open>GetValueAt\<close>\<close>

lemma get_value_at_Some:
  assumes srt: "key_sorted ts xs" and ret: "get_value_at ts xs t = Some i"
  shows "i < length xs \<and> ts (xs ! i) \<le> t \<and> (\<forall>j < length xs. i < j \<longrightarrow> t < ts (xs ! j))"
proof -
  let ?i = "lower_bound ts xs t"
  have le: "?i \<le> length xs" by simp
  show ?thesis
  proof (cases "?i \<noteq> length xs \<and> ts (xs ! ?i) = t")
    case True
    with ret have "i = ?i" by (simp add: get_value_at_def Let_def)
    with True le have "i < length xs" "ts (xs ! i) = t" by (auto simp: le_less)
    with srt show ?thesis by (auto dest: key_sorted_nth_mono)
  next
    case False
    with ret have pos: "?i \<noteq> 0" and i: "i = ?i - 1"
      by (auto simp: get_value_at_def Let_def split: if_splits)
    have below: "ts (xs ! i) < t" by (rule lower_bound_less_nth) (use pos i in simp)
    have above: "t < ts (xs ! j)" if "j < length xs" "i < j" for j
    proof -
      have j: "?i \<le> j" using that i pos by linarith
      have "t \<le> ts (xs ! ?i)" using that j by (intro lower_bound_nth) simp
      with False that j have "t < ts (xs ! ?i)" by auto
      also have "\<dots> \<le> ts (xs ! j)"
        using that j srt key_sorted_nth_mono [of ts xs ?i j] by (cases "?i = j") auto
      finally show ?thesis .
    qed
    have "i < length xs" using pos i le by linarith
    with below above show ?thesis by auto
  qed
qed

lemma get_value_at_None:
  assumes srt: "key_sorted ts xs" and ret: "get_value_at ts xs t = None"
  shows "\<forall>x \<in> set xs. t < ts x"
proof
  fix x assume "x \<in> set xs"
  then obtain j where j: "j < length xs" "xs ! j = x" by (auto simp: in_set_conv_nth)
  from ret have z: "lower_bound ts xs t = 0"
    and ne: "\<not> (0 \<noteq> length xs \<and> ts (xs ! 0) = t)"
    by (auto simp: get_value_at_def Let_def split: if_splits)
  have "0 < length xs" using j(1) by linarith
  then have "t \<le> ts (xs ! 0)" using z lower_bound_above [OF srt, of t 0] by simp
  with ne j have "t < ts (xs ! 0)" by auto
  also have "\<dots> \<le> ts x" using j srt key_sorted_nth_mono [of ts xs 0 j] by (cases "j = 0") auto
  finally show "t < ts x" .
qed

subsection \<open>\<open>FindInsertPosition\<close>\<close>

lemma find_insert_position_Some:
  assumes srt: "key_sorted ts xs" and ret: "find_insert_position ts xs a b = Some i"
  shows "take i xs = filter (\<lambda>x. ts x < a) xs \<and> drop i xs = filter (\<lambda>x. b < ts x) xs"
proof -
  have s: "sorted (map ts xs)" by (rule key_sorted_imp_sorted [OF srt])
  from ret have i: "i = lower_bound ts xs a" "i = lower_bound ts xs b"
    and nb: "\<not> (i \<noteq> length xs \<and> ts (xs ! i) = b)"
    by (auto simp: find_insert_position_def Let_def split: if_splits)
  have "b \<notin> ts ` set (drop i xs)"
  proof
    assume "b \<in> ts ` set (drop i xs)"
    then obtain j where j: "j < length (drop i xs)" "ts (drop i xs ! j) = b"
      by (auto simp: in_set_conv_nth)
    then have ij: "i + j < length xs" "ts (xs ! (i + j)) = b" by auto
    have "b \<le> ts (xs ! i)" using ij i(2) by (intro lower_bound_above [OF srt]) auto
    moreover have "j = 0 \<or> ts (xs ! i) < ts (xs ! (i + j))"
      using ij srt key_sorted_nth_mono [of ts xs i "i + j"] by auto
    ultimately show False using nb ij by auto
  qed
  moreover have "drop i xs = filter (\<lambda>x. b \<le> ts x) xs" by (simp add: i(2) drop_lower_bound s)
  ultimately have "drop i xs = filter (\<lambda>x. b < ts x) xs"
    by (auto intro!: filter_cong [OF refl] simp: less_le)
  then show ?thesis by (simp add: i(1) take_lower_bound s)
qed

lemma find_insert_position_free:
  assumes srt: "key_sorted ts xs" and ret: "find_insert_position ts xs a b = Some i"
    and "x \<in> set xs"
  shows "ts x < a \<or> b < ts x"
proof -
  have "x \<in> set (take i xs @ drop i xs)" using assms(3) by simp
  then have "x \<in> set (filter (\<lambda>x. ts x < a) xs) \<or> x \<in> set (filter (\<lambda>x. b < ts x) xs)"
    using find_insert_position_Some [OF srt ret] by (metis Un_iff set_append)
  then show ?thesis by auto
qed

subsection \<open>\<open>ReplaceSubrange\<close>\<close>

text \<open>The element-wise overwrite followed by the insert or erase is one splice.\<close>

lemma splice_eq:
  fixes vals updates :: "'v list" and f l :: nat
  assumes "f \<le> l" "l \<le> length vals"
  defines "cc \<equiv> min (l - f) (length updates)"
  defines "copied \<equiv> take f vals @ take cc updates @ drop (f + cc) vals"
  shows "(if l - f < length updates
          then take l copied @ drop cc updates @ drop l copied
          else take (f + cc) copied @ drop l copied)
       = take f vals @ updates @ drop l vals"
proof (cases "l - f < length updates")
  case True
  then have "cc = l - f" by (simp add: cc_def)
  with assms(1,2) True have "copied = (take f vals @ take cc updates) @ drop l vals"
    and "length (take f vals @ take cc updates) = l"
    by (simp_all add: copied_def)
  then have "take l copied = take f vals @ take cc updates"
    and "drop l copied = drop l vals" by (metis append_eq_conv_conj)+
  with True show ?thesis by simp
next
  case False
  then have cc: "cc = length updates" "f + length updates \<le> l" using assms(1) by (auto simp: cc_def)
  with assms(1,2) have c: "copied = (take f vals @ updates) @ drop (f + cc) vals"
    and len: "length (take f vals @ updates) = f + cc" by (simp_all add: copied_def)
  have "take (f + cc) copied = take f vals @ updates" using c len by simp
  moreover have "drop l copied = drop l vals"
    using c len cc by (simp add: drop_append)
  ultimately show ?thesis using False by simp
qed

lemma sorted_splice:
  assumes v: "sorted (map ts vals)" and u: "sorted (map ts updates)" and ne: "updates \<noteq> []"
  shows "sorted (map ts (filter (\<lambda>x. ts x < ts (hd updates)) vals @ updates
           @ filter (\<lambda>x. ts (last updates) < ts x) vals))"
proof -
  have hd_le: "ts (hd updates) \<le> ts x" if "x \<in> set updates" for x
    using u ne that by (cases updates) auto
  have le_last: "ts x \<le> ts (last updates)" if "x \<in> set updates" for x
  proof -
    have "updates = butlast updates @ [last updates]" using ne by simp
    then have "sorted (map ts (butlast updates) @ [ts (last updates)])"
      using u by (metis list.simps(8,9) map_append)
    then have "\<forall>y \<in> set (butlast updates). ts y \<le> ts (last updates)"
      by (simp add: sorted_append)
    moreover have "x \<in> set (butlast updates) \<or> x = last updates"
      using that ne by (metis \<open>updates = butlast updates @ [last updates]\<close> in_set_conv_decomp_first
          rotate1.simps(2) set_ConsD set_rotate1)
    ultimately show ?thesis by auto
  qed
  have hl: "ts (hd updates) \<le> ts (last updates)" using hd_le ne by simp
  show ?thesis
    using v u hd_le le_last hl
    by (auto simp: sorted_append sorted_map sorted_wrt_filter)
      (metis le_less_trans less_imp_le less_trans le_less)+
qed

lemma replace_subrange_eq:
  assumes v: "sorted (map ts vals)" and u: "sorted (map ts updates)" and ne: "updates \<noteq> []"
  shows "replace_subrange ts vals updates =
    Some (filter (\<lambda>x. ts x < ts (hd updates)) vals @ updates
           @ filter (\<lambda>x. ts (last updates) < ts x) vals)"
proof -
  have h: "updates ! 0 = hd updates" "updates ! (length updates - 1) = last updates"
    using ne by (simp_all add: hd_conv_nth last_conv_nth)
  have hl: "ts (hd updates) \<le> ts (last updates)"
    using u ne by (cases updates) auto
  let ?f = "lower_bound ts vals (ts (hd updates))"
  let ?l = "upper_bound ts vals (ts (last updates))"
  have fl: "?f \<le> ?l" by (rule lower_le_upper_bound [OF v hl])
  have eq: "take ?f vals @ updates @ drop ?l vals =
      filter (\<lambda>x. ts x < ts (hd updates)) vals @ updates
        @ filter (\<lambda>x. ts (last updates) < ts x) vals"
    by (simp add: take_lower_bound drop_upper_bound v)
  show ?thesis
    unfolding replace_subrange_def Let_def h
    using v u ne sorted_splice [OF v u ne] splice_eq [OF fl upper_bound_le_length, of updates] eq
    by simp
qed

lemma replace_subrange_Nil [simp]:
  "sorted (map ts vals) \<Longrightarrow> replace_subrange ts vals [] = Some vals"
  by (simp add: replace_subrange_def)

subsection \<open>The view\<close>

lemma view_from_eq [series_simps]:
  "sorted (map ts xs) \<Longrightarrow> view_from ts xs a = filter (\<lambda>x. a \<le> ts x) xs"
  by (simp add: view_from_def drop_lower_bound)

lemma view_until_eq [series_simps]:
  "sorted (map ts xs) \<Longrightarrow> view_until ts xs b = filter (\<lambda>x. b = bot \<or> ts x \<le> b) xs"
  by (simp add: view_until_def take_upper_bound)

lemma view_slice_eq [series_simps]:
  "sorted (map ts xs) \<Longrightarrow>
   view_slice ts xs (a, b) = filter (\<lambda>x. a \<le> ts x \<and> (b = bot \<or> ts x \<le> b)) xs"
  by (simp add: view_slice_def view_from_eq view_until_eq sorted_map sorted_wrt_filter conj_commute)

end
