(* ===== verification/Std_Map.thy ===== *)
theory Std_Map
  imports Prelude
begin

text \<open>
  \<open>std::map\<close> as the code uses it: key-value pairs in increasing key order, so that iterating is
  reading the list. The operations are the members the components call; the interface
  \<open>ordered_store\<close> states what the components rely on.
\<close>

type_synonym ('k, 'v) smap = "('k \<times> 'v) list"

fun smap_find :: "('k::linorder, 'v) smap \<Rightarrow> 'k \<Rightarrow> 'v option" where
  "smap_find [] k = None"
| "smap_find ((k', v) # m) k = (if k' = k then Some v else smap_find m k)"

text \<open>\<open>insert_or_assign\<close>, also \<open>m[k] = v\<close>.\<close>

fun smap_put :: "('k::linorder, 'v) smap \<Rightarrow> 'k \<Rightarrow> 'v \<Rightarrow> ('k, 'v) smap" where
  "smap_put [] k v = [(k, v)]"
| "smap_put ((k', v') # m) k v =
     (if k < k' then (k, v) # (k', v') # m
      else if k = k' then (k, v) # m
      else (k', v') # smap_put m k v)"

fun smap_erase :: "('k::linorder, 'v) smap \<Rightarrow> 'k \<Rightarrow> ('k, 'v) smap" where
  "smap_erase [] k = []"
| "smap_erase ((k', v') # m) k = (if k' = k then m else (k', v') # smap_erase m k)"

text \<open>\<open>try_emplace\<close>: inserts only when the key is absent; the flag says whether it did.\<close>

definition smap_try_emplace ::
    "('k::linorder, 'v) smap \<Rightarrow> 'k \<Rightarrow> 'v \<Rightarrow> ('k, 'v) smap \<times> bool" where
  "smap_try_emplace m k v =
     (case smap_find m k of Some _ \<Rightarrow> (m, False) | None \<Rightarrow> (smap_put m k v, True))"

abbreviation smap_ok :: "('k::linorder, 'v) smap \<Rightarrow> bool" where
  "smap_ok m \<equiv> key_sorted fst m"

abbreviation smap_keys :: "('k, 'v) smap \<Rightarrow> 'k set" where
  "smap_keys m \<equiv> fst ` set m"

section \<open>The interface\<close>

locale ordered_store =
  fixes find :: "'m \<Rightarrow> 'k \<Rightarrow> 'v option"
    and put :: "'m \<Rightarrow> 'k \<Rightarrow> 'v \<Rightarrow> 'm"
    and erase :: "'m \<Rightarrow> 'k \<Rightarrow> 'm"
    and ok :: "'m \<Rightarrow> bool"
  assumes find_put: "ok m \<Longrightarrow> find (put m k v) j = (if j = k then Some v else find m j)"
    and find_erase: "ok m \<Longrightarrow> find (erase m k) j = (if j = k then None else find m j)"
    and ok_put: "ok m \<Longrightarrow> ok (put m k v)"
    and ok_erase: "ok m \<Longrightarrow> ok (erase m k)"
begin

text \<open>Updating every entry of a key set leaves the others as they were.\<close>

lemma find_put_other: "ok m \<Longrightarrow> j \<noteq> k \<Longrightarrow> find (put m k v) j = find m j"
  by (simp add: find_put)

lemma ok_fold_put: "ok m \<Longrightarrow> ok (fold (\<lambda>(k, v) m. put m k v) kvs m)"
  by (induction kvs arbitrary: m) (auto simp: ok_put)

lemma find_fold_put:
  "ok m \<Longrightarrow> find (fold (\<lambda>(k, v) m. put m k v) kvs m) j =
     (case map_of (rev kvs) j of None \<Rightarrow> find m j | Some v \<Rightarrow> Some v)"
  by (induction kvs arbitrary: m)
     (auto simp: ok_put find_put map_add_def split: option.splits)

lemma find_fold_erase:
  "ok m \<Longrightarrow> find (fold (\<lambda>k m. erase m k) ks m) j = (if j \<in> set ks then None else find m j)"
  by (induction ks arbitrary: m) (auto simp: ok_erase find_erase)

end

section \<open>The laws of the model\<close>

lemma smap_find_None: "smap_find m k = None \<longleftrightarrow> k \<notin> smap_keys m"
  by (induction m k rule: smap_find.induct) auto

lemma smap_find_in: "smap_find m k = Some v \<Longrightarrow> (k, v) \<in> set m"
  by (induction m k rule: smap_find.induct) (auto split: if_splits)

lemma smap_find_iff: "smap_ok m \<Longrightarrow> smap_find m k = Some v \<longleftrightarrow> (k, v) \<in> set m"
  by (induction m k rule: smap_find.induct) (auto split: if_splits)

lemma smap_find_put: "smap_find (smap_put m k v) j = (if j = k then Some v else smap_find m j)"
  by (induction m k v rule: smap_put.induct) auto

lemma smap_keys_put: "smap_keys (smap_put m k v) = insert k (smap_keys m)"
  by (induction m k v rule: smap_put.induct) auto

lemma smap_keys_erase: "smap_ok m \<Longrightarrow> smap_keys (smap_erase m k) = smap_keys m - {k}"
  by (induction m k rule: smap_erase.induct) (auto simp: image_iff)

lemma smap_set_erase: "set (smap_erase m k) \<subseteq> set m"
  by (induction m k rule: smap_erase.induct) auto

lemma smap_ok_put: "smap_ok m \<Longrightarrow> smap_ok (smap_put m k v)"
proof (induction m k v rule: smap_put.induct)
  case (2 k' v' m k v)
  have "\<forall>p \<in> set (smap_put m k v). k' < fst p" if "k' < k"
  proof
    fix p assume "p \<in> set (smap_put m k v)"
    then have "fst p \<in> insert k (smap_keys m)" by (metis image_eqI smap_keys_put)
    with that 2 show "k' < fst p" by auto
  qed
  with 2 show ?case by fastforce
qed simp

lemma smap_ok_erase: "smap_ok m \<Longrightarrow> smap_ok (smap_erase m k)"
  by (induction m k rule: smap_erase.induct) (use smap_set_erase in fastforce)+

lemma smap_find_erase:
  "smap_ok m \<Longrightarrow> smap_find (smap_erase m k) j = (if j = k then None else smap_find m j)"
proof (induction m k rule: smap_erase.induct)
  case (2 k' v' m k)
  have "k' \<notin> smap_keys m" using "2.prems" by auto
  then have "smap_find m k' = None" by (simp add: smap_find_None)
  with 2 show ?case by auto
qed simp

lemma smap_put_same: "smap_ok m \<Longrightarrow> smap_find m k = Some v \<Longrightarrow> smap_put m k v = m"
  by (induction m k v rule: smap_put.induct) (fastforce dest: smap_find_in split: if_splits)+

interpretation sm: ordered_store smap_find smap_put smap_erase smap_ok
  by unfold_locales (simp_all add: smap_find_put smap_find_erase smap_ok_put smap_ok_erase)

lemmas smap_laws = sm.find_put sm.find_erase sm.ok_put sm.ok_erase smap_find_None

text \<open>Changing the value of a present key in place, as code holding a reference into the map does.\<close>

definition smap_adjust :: "('k::linorder, 'v) smap \<Rightarrow> 'k \<Rightarrow> ('v \<Rightarrow> 'v) \<Rightarrow> ('k, 'v) smap" where
  "smap_adjust m k f = (case smap_find m k of None \<Rightarrow> m | Some v \<Rightarrow> smap_put m k (f v))"

lemma smap_find_adjust:
  "smap_find (smap_adjust m k f) j = (if j = k then map_option f (smap_find m k) else smap_find m j)"
  by (simp add: smap_adjust_def smap_find_put split: option.splits)

lemma smap_ok_adjust: "smap_ok m \<Longrightarrow> smap_ok (smap_adjust m k f)"
  by (simp add: smap_adjust_def smap_ok_put split: option.splits)

lemma smap_keys_adjust: "smap_keys (smap_adjust m k f) = smap_keys m"
proof (intro set_eqI)
  fix j
  show "j \<in> smap_keys (smap_adjust m k f) \<longleftrightarrow> j \<in> smap_keys m"
    using smap_find_None [of "smap_adjust m k f" j] smap_find_None [of m j]
    by (simp only: smap_find_adjust) (auto split: if_splits)
qed

lemma smap_find_fold_adjust:
  "distinct ks \<Longrightarrow> smap_find (fold (\<lambda>k m. smap_adjust m k f) ks m) j
     = (if j \<in> set ks then map_option f (smap_find m j) else smap_find m j)"
  by (induction ks arbitrary: m) (auto simp: smap_find_adjust)

lemma smap_ok_fold_adjust: "smap_ok m \<Longrightarrow> smap_ok (fold (\<lambda>k m. smap_adjust m k f) ks m)"
  by (induction ks arbitrary: m) (auto simp: smap_ok_adjust)

lemma smap_length: "smap_ok m \<Longrightarrow> length m = card (smap_keys m)"
  by (metis distinct_card key_sorted_distinct length_map list.set_map)

lemma smap_find_map: "smap_find (map (\<lambda>(k, v). (k, f k v)) m) k = map_option (f k) (smap_find m k)"
  by (induction m k rule: smap_find.induct) auto

lemma smap_ok_map [simp]: "smap_ok (map (\<lambda>(k, v). (k, f k v)) m) = smap_ok m"
  by (simp add: sorted_wrt_map case_prod_beta)

lemma smap_find_filter:
  "smap_ok m \<Longrightarrow> smap_find (filter (\<lambda>(k, v). P k v) m) k =
     (case smap_find m k of None \<Rightarrow> None | Some v \<Rightarrow> if P k v then Some v else None)"
  by (induction m k rule: smap_find.induct) (auto simp: smap_find_None split: option.splits)

end
