(* ===== verification/Intervals.thy ===== *)
theory Intervals
  imports Time_Series
begin

text \<open>
  \<open>timed_data/timed_data_util.h\<close>: where the observed ranges have not been filled yet, and from
  when on a range is ready.

  The interval helpers of \<open>base/interval_util.h\<close> are outside the repository; they are the fields
  of a parameter \<open>L\<close>. An interval is a pair of times.
\<close>

type_synonym 't interval = "'t \<times> 't"

record 't interval_lib =
  iv_valid :: "'t interval \<Rightarrow> bool"             \<comment> \<open>\<open>IsValidInterval\<close>\<close>
  iv_empty :: "'t interval \<Rightarrow> bool"             \<comment> \<open>\<open>IsEmptyInterval\<close>\<close>
  iv_all_valid :: "'t interval list \<Rightarrow> bool"    \<comment> \<open>\<open>AreValidIntervals\<close>\<close>
  iv_union :: "'t interval list \<Rightarrow> 't interval \<Rightarrow> 't interval list"  \<comment> \<open>\<open>UnionIntervals\<close>\<close>
  iv_contains :: "'t interval \<Rightarrow> 't interval \<Rightarrow> bool"        \<comment> \<open>\<open>IntervalContains\<close>\<close>
  iv_list_contains :: "'t interval list \<Rightarrow> 't interval \<Rightarrow> bool"  \<comment> \<open>\<open>IntervalsContain\<close>\<close>

section \<open>Definitions\<close>

text \<open>
  \<open>GetReadyFrom\<close>: the lower bound by the first component, searched for \<open>range.second\<close>;
  \<open>top\<close> is \<open>kTimedDataCurrentOnly\<close>.
\<close>

definition get_ready_from ::
    "('t::{linorder,order_top}) interval list \<Rightarrow> 't interval \<Rightarrow> 't" where
  "get_ready_from ready rng =
     (let i = length (takeWhile (\<lambda>r. fst r < snd rng) ready)
      in if i = length ready then top
         else if snd (ready ! i) \<le> fst rng then top
         else max (fst rng) (fst (ready ! i)))"

text \<open>The loop of \<open>FindFirstGap\<close>; the second list is what is left from the iterator \<open>j\<close> on.\<close>

fun find_first_gap_loop ::
    "('t::linorder) interval list \<Rightarrow> 't interval list \<Rightarrow> 't interval option" where
  "find_first_gap_loop [] js = None"
| "find_first_gap_loop (i # is) js =
     (case dropWhile (\<lambda>j. snd j \<le> fst i) js of
        [] \<Rightarrow> Some i
      | j # js' \<Rightarrow>
          if fst j > fst i then Some (fst i, min (snd i) (fst j))
          else if snd j < snd i then
            (let gap_start = snd j;
                 gap_end = (case js' of [] \<Rightarrow> snd i
                            | j' # _ \<Rightarrow> if fst j' < snd i then fst j' else snd i)
             in Some (gap_start, gap_end))
          else find_first_gap_loop is (j # js'))"

definition find_first_gap ::
    "('t::linorder) interval_lib \<Rightarrow> 't interval list \<Rightarrow> 't interval list \<Rightarrow>
     't interval option option" where
  "find_first_gap L ranges ready = do {
     check (iv_all_valid L ranges);
     check (iv_all_valid L ready);
     Some (find_first_gap_loop ranges ready)
   }"

text \<open>\<open>FindLastGap\<close>: the loop over the reverse iterators.\<close>

fun find_last_gap_loop ::
    "('t::linorder) interval list \<Rightarrow> 't interval list \<Rightarrow> 't interval option" where
  "find_last_gap_loop [] js = None"
| "find_last_gap_loop (i # is) js =
     (case dropWhile (\<lambda>j. fst j \<ge> snd i) js of
        [] \<Rightarrow> Some i
      | j # js' \<Rightarrow>
          if snd j < snd i then Some (max (snd j) (fst i), snd i)
          else if fst j > fst i then
            (let gap_end = fst j;
                 gap_start = (case js' of [] \<Rightarrow> fst i
                              | j' # _ \<Rightarrow> if snd j' > fst i then snd j' else fst i)
             in Some (gap_start, gap_end))
          else find_last_gap_loop is (j # js'))"

definition find_last_gap ::
    "('t::linorder) interval_lib \<Rightarrow> 't interval list \<Rightarrow> 't interval list \<Rightarrow>
     't interval option option" where
  "find_last_gap L ranges ready = do {
     check (iv_all_valid L ranges);
     check (iv_all_valid L ready);
     Some (find_last_gap_loop (rev ranges) (rev ready))
   }"

section \<open>What a list of intervals covers\<close>

text \<open>Proper intervals in increasing order, no two of them touching.\<close>

definition separated :: "('t::linorder) interval list \<Rightarrow> bool" where
  "separated ivs \<longleftrightarrow> (\<forall>i \<in> set ivs. fst i < snd i) \<and> sorted_wrt (\<lambda>a b. snd a < fst b) ivs"

text \<open>An interval list covers a time when one of its intervals, closed on the left, holds it.\<close>

definition covers :: "('t::linorder) interval list \<Rightarrow> 't \<Rightarrow> bool" where
  "covers ivs x \<longleftrightarrow> (\<exists>i \<in> set ivs. fst i \<le> x \<and> x < snd i)"

lemma covers_Cons: "covers (i # ivs) x \<longleftrightarrow> (fst i \<le> x \<and> x < snd i) \<or> covers ivs x"
  by (auto simp: covers_def)

lemma covers_mono: "set a \<subseteq> set b \<Longrightarrow> covers a x \<Longrightarrow> covers b x"
  by (auto simp: covers_def)

lemma separated_Cons:
  "separated (i # ivs) \<longleftrightarrow>
     fst i < snd i \<and> (\<forall>j \<in> set ivs. snd i < fst j) \<and> separated ivs"
  by (auto simp: separated_def)

lemma separated_Nil [simp]: "separated []"
  by (simp add: separated_def)

lemma separated_dropWhile: "separated ivs \<Longrightarrow> separated (dropWhile P ivs)"
  by (metis separated_def sorted_wrt_drop dropWhile_eq_drop set_dropWhileD)

lemma separated_proper: "separated ivs \<Longrightarrow> j \<in> set ivs \<Longrightarrow> fst j < snd j"
  by (simp add: separated_def)

section \<open>The first gap\<close>

lemma find_first_gap_loop_props:
  assumes "separated ranges" "separated js"
  shows "(case find_first_gap_loop ranges js of
            Some (a, b) \<Rightarrow>
              a < b \<and> (\<exists>i \<in> set ranges. fst i \<le> a \<and> b \<le> snd i)
              \<and> (\<forall>j \<in> set js. b \<le> fst j \<or> snd j \<le> a)
              \<and> (\<forall>x. x < a \<and> covers ranges x \<longrightarrow> covers js x)
          | None \<Rightarrow> (\<forall>x. covers ranges x \<longrightarrow> covers js x))"
  using assms
proof (induction ranges arbitrary: js)
  case Nil
  then show ?case by (simp add: covers_def)
next
  case (Cons i ivs)
  let ?D = "dropWhile (\<lambda>j. snd j \<le> fst i) js"
  have i: "fst i < snd i" and after: "\<And>r. r \<in> set ivs \<Longrightarrow> snd i < fst r"
    and sep: "separated ivs"
    using Cons.prems(1) by (auto simp: separated_Cons)
  have dropped: "j \<in> set ?D \<or> snd j \<le> fst i" if "j \<in> set js" for j
    using that by (metis Un_iff set_append set_takeWhileD takeWhile_dropWhile_id)
  have sD: "separated ?D" by (rule separated_dropWhile [OF Cons.prems(2)])
  have sub: "set ?D \<subseteq> set js" by (metis set_dropWhileD subsetI)
  have later: "fst i \<le> x" if "covers (i # ivs) x" for x
    using that i after unfolding covers_def by fastforce
  show ?case
  proof (cases ?D)
    case Nil
    have "\<forall>j \<in> set js. snd j \<le> fst i" using dropped Nil by auto
    moreover have "\<not> (x < fst i \<and> covers (i # ivs) x)" for x
      using later [of x] by auto
    moreover have "find_first_gap_loop (i # ivs) js = Some i"
      unfolding find_first_gap_loop.simps Nil by simp
    ultimately show ?thesis using i by auto
  next
    case (Cons j js')
    then have jn: "fst i < snd j" by (metis dropWhile_eq_Cons_conv not_le)
    have jjs: "fst j < snd j" "\<And>k. k \<in> set js' \<Longrightarrow> snd j < fst k" "separated js'"
      using sD Cons by (auto simp: separated_Cons)
    have parts: "k = j \<or> k \<in> set js' \<or> snd k \<le> fst i" if "k \<in> set js" for k
      using dropped [OF that] Cons by auto
    consider (gt) "fst j > fst i" | (short) "fst j \<le> fst i" "snd j < snd i"
      | (cov) "fst j \<le> fst i" "snd i \<le> snd j" by fastforce
    then show ?thesis
    proof cases
      case gt
      have "min (snd i) (fst j) \<le> fst k \<or> snd k \<le> fst i" if "k \<in> set js" for k
      proof -
        have "fst j \<le> fst k" if "k \<in> set js'" using jjs(1) jjs(2) [OF that] by order
        then show ?thesis using parts [OF that] by (auto simp: min_le_iff_disj)
      qed
      moreover have "\<not> (x < fst i \<and> covers (i # ivs) x)" for x
        using later [of x] by auto
      ultimately show ?thesis using gt i Cons by auto
    next
      case short
      let ?e = "case js' of [] \<Rightarrow> snd i | j' # _ \<Rightarrow> if fst j' < snd i then fst j' else snd i"
      have e: "snd j < ?e" "?e \<le> snd i"
        using short jjs(1) jjs(2) [of "hd js'"] by (auto split: list.splits)
      have "?e \<le> fst k \<or> snd k \<le> snd j" if "k \<in> set js" for k
      proof -
        have "?e \<le> fst k" if "k \<in> set js'"
          using that jjs(3) by (cases js') (auto simp: separated_Cons dest: less_trans)
        then show ?thesis using parts [OF \<open>k \<in> set js\<close>] jn by auto
      qed
      moreover have "covers js x" if "x < snd j" "covers (i # ivs) x" for x
      proof -
        have "fst j \<le> x" using later [OF that(2)] short by simp
        with that(1) sub Cons show ?thesis by (auto simp: covers_def)
      qed
      ultimately show ?thesis using short e jn Cons
        by (auto simp: Let_def intro: less_imp_le)
    next
      case cov
      have IH: "(case find_first_gap_loop ivs (j # js') of
            Some (a, b) \<Rightarrow>
              a < b \<and> (\<exists>i \<in> set ivs. fst i \<le> a \<and> b \<le> snd i)
              \<and> (\<forall>k \<in> set (j # js'). b \<le> fst k \<or> snd k \<le> a)
              \<and> (\<forall>x. x < a \<and> covers ivs x \<longrightarrow> covers (j # js') x)
          | None \<Rightarrow> (\<forall>x. covers ivs x \<longrightarrow> covers (j # js') x))"
        using Cons.IH [OF sep, of "j # js'"] sD Cons by simp
      have step: "covers js x" if "covers (i # ivs) x" "covers ivs x \<Longrightarrow> covers (j # js') x" for x
      proof -
        have "covers (j # js') x" using that cov by (auto simp: covers_Cons dest: order_trans)
        then show ?thesis using covers_mono [of "j # js'" js] sub Cons by auto
      qed
      have eq: "find_first_gap_loop (i # ivs) js = find_first_gap_loop ivs (j # js')"
        using Cons cov by (simp add: leD)
      show ?thesis
      proof (cases "find_first_gap_loop ivs (j # js')")
        case None
        with IH step eq show ?thesis by simp
      next
        case (Some p)
        obtain a b where p: "p = (a, b)" by force
        from IH Some p obtain r where r: "r \<in> set ivs" "fst r \<le> a" "b \<le> snd r" by auto
        have "fst i \<le> a" using after [OF r(1)] r(2) i by order
        then have "\<forall>k \<in> set js. b \<le> fst k \<or> snd k \<le> a"
          using parts IH Some p by (auto dest: order_trans)
        with IH Some p step eq r show ?thesis by auto
      qed
    qed
  qed
qed

text \<open>
  The gap \<open>FindFirstGap\<close> returns is a proper part of one observed range, meets no ready range, and
  everything observed before it is ready; without a gap everything observed is ready.
\<close>

lemma find_first_gap_loop_Some:
  assumes "separated ranges" "separated ready" "find_first_gap_loop ranges ready = Some (a, b)"
  shows "a < b"
    and "\<exists>i \<in> set ranges. fst i \<le> a \<and> b \<le> snd i"
    and "j \<in> set ready \<Longrightarrow> b \<le> fst j \<or> snd j \<le> a"
    and "x < a \<Longrightarrow> covers ranges x \<Longrightarrow> covers ready x"
  using find_first_gap_loop_props [OF assms(1,2)] assms(3) by auto

lemma find_first_gap_loop_None:
  assumes "separated ranges" "separated ready" "find_first_gap_loop ranges ready = None"
  shows "covers ranges x \<Longrightarrow> covers ready x"
  using find_first_gap_loop_props [OF assms(1,2)] assms(3) by auto

lemma gap_not_covered:
  assumes "separated ranges" "separated ready" "find_first_gap_loop ranges ready = Some (a, b)"
    and "a \<le> x" "x < b"
  shows "covers ranges x \<and> \<not> covers ready x"
proof
  show "covers ranges x"
    using find_first_gap_loop_Some(2) [OF assms(1-3)] assms(4,5) unfolding covers_def
    by (meson order_trans less_le_trans)
  show "\<not> covers ready x"
    using find_first_gap_loop_Some(3) [OF assms(1-3)] assms(4,5) unfolding covers_def
    by (meson leD le_less_trans less_le_trans)
qed

section \<open>The last gap\<close>

text \<open>The two loops are mirror images; the reverse one works on lists in decreasing order.\<close>

lemma separated_rev:
  "separated (rev ivs) \<longleftrightarrow>
     (\<forall>i \<in> set ivs. fst i < snd i) \<and> sorted_wrt (\<lambda>a b. snd b < fst a) ivs"
  by (simp add: separated_def sorted_wrt_rev)

lemma separated_rev_Cons:
  "separated (rev (i # ivs)) \<longleftrightarrow>
     fst i < snd i \<and> (\<forall>j \<in> set ivs. snd j < fst i) \<and> separated (rev ivs)"
  by (auto simp: separated_rev simp del: rev.simps)

lemma covers_rev [simp]: "covers (rev ivs) x = covers ivs x"
  by (simp add: covers_def)

lemma find_last_gap_loop_props:
  assumes "separated (rev ranges)" "separated (rev js)"
  shows "(case find_last_gap_loop ranges js of
            Some (a, b) \<Rightarrow>
              a < b \<and> (\<exists>i \<in> set ranges. fst i \<le> a \<and> b \<le> snd i)
              \<and> (\<forall>j \<in> set js. b \<le> fst j \<or> snd j \<le> a)
              \<and> (\<forall>x. b \<le> x \<and> covers ranges x \<longrightarrow> covers js x)
          | None \<Rightarrow> (\<forall>x. covers ranges x \<longrightarrow> covers js x))"
  using assms
proof (induction ranges arbitrary: js)
  case Nil
  then show ?case by (simp add: covers_def)
next
  case (Cons i ivs)
  let ?D = "dropWhile (\<lambda>j. fst j \<ge> snd i) js"
  have i: "fst i < snd i" and after: "\<And>r. r \<in> set ivs \<Longrightarrow> snd r < fst i"
    and sep: "separated (rev ivs)"
    using Cons.prems(1) by (auto simp: separated_rev_Cons simp del: rev.simps)
  have dropped: "j \<in> set ?D \<or> snd i \<le> fst j" if "j \<in> set js" for j
    using that by (metis Un_iff set_append set_takeWhileD takeWhile_dropWhile_id)
  have sD: "separated (rev ?D)"
    using Cons.prems(2)
    by (metis dropWhile_eq_drop separated_rev sorted_wrt_drop set_dropWhileD)
  have sub: "set ?D \<subseteq> set js" by (metis set_dropWhileD subsetI)
  have later: "x < snd i" if "covers (i # ivs) x" for x
    using that i after unfolding covers_def by fastforce
  show ?case
  proof (cases ?D)
    case Nil
    have "\<forall>j \<in> set js. snd i \<le> fst j" using dropped Nil by auto
    moreover have "\<not> (snd i \<le> x \<and> covers (i # ivs) x)" for x
      using later [of x] by auto
    moreover have "find_last_gap_loop (i # ivs) js = Some i"
      unfolding find_last_gap_loop.simps Nil by simp
    ultimately show ?thesis using i by auto
  next
    case (Cons j js')
    then have jn: "fst j < snd i" by (metis dropWhile_eq_Cons_conv not_le)
    have jjs: "fst j < snd j" "\<And>k. k \<in> set js' \<Longrightarrow> snd k < fst j" "separated (rev js')"
      using sD Cons by (auto simp: separated_rev_Cons simp del: rev.simps)
    have parts: "k = j \<or> k \<in> set js' \<or> snd i \<le> fst k" if "k \<in> set js" for k
      using dropped [OF that] Cons by auto
    consider (gt) "snd j < snd i" | (short) "snd i \<le> snd j" "fst i < fst j"
      | (cov) "fst j \<le> fst i" "snd i \<le> snd j" by fastforce
    then show ?thesis
    proof cases
      case gt
      have "snd i \<le> fst k \<or> snd k \<le> max (snd j) (fst i)" if "k \<in> set js" for k
      proof -
        have "snd k \<le> snd j" if "k \<in> set js'" using jjs(1) jjs(2) [OF that] by order
        then show ?thesis using parts [OF that] by (auto simp: le_max_iff_disj)
      qed
      moreover have "\<not> (snd i \<le> x \<and> covers (i # ivs) x)" for x
        using later [of x] by auto
      ultimately show ?thesis using gt i Cons by auto
    next
      case short
      let ?s = "case js' of [] \<Rightarrow> fst i | j' # _ \<Rightarrow> if snd j' > fst i then snd j' else fst i"
      have s: "?s < fst j" "fst i \<le> ?s"
        using short jjs(1) jjs(2) [of "hd js'"] by (auto split: list.splits)
      have "fst j \<le> fst k \<or> snd k \<le> ?s" if "k \<in> set js" for k
      proof -
        have "snd k \<le> ?s" if "k \<in> set js'"
          using that jjs(3)
          by (cases js') (auto simp: separated_rev_Cons simp del: rev.simps
              dest: less_trans separated_proper)
        then show ?thesis using parts [OF \<open>k \<in> set js\<close>] jn by auto
      qed
      moreover have "covers js x" if "fst j \<le> x" "covers (i # ivs) x" for x
      proof -
        have "x < snd j" using later [OF that(2)] short by simp
        with that(1) sub Cons show ?thesis by (auto simp: covers_def)
      qed
      ultimately show ?thesis using short s jn Cons
        by (auto simp: Let_def intro: less_imp_le)
    next
      case cov
      have IH: "(case find_last_gap_loop ivs (j # js') of
            Some (a, b) \<Rightarrow>
              a < b \<and> (\<exists>i \<in> set ivs. fst i \<le> a \<and> b \<le> snd i)
              \<and> (\<forall>k \<in> set (j # js'). b \<le> fst k \<or> snd k \<le> a)
              \<and> (\<forall>x. b \<le> x \<and> covers ivs x \<longrightarrow> covers (j # js') x)
          | None \<Rightarrow> (\<forall>x. covers ivs x \<longrightarrow> covers (j # js') x))"
        using Cons.IH [OF sep, of "j # js'"] sD Cons by simp
      have step: "covers js x" if "covers (i # ivs) x" "covers ivs x \<Longrightarrow> covers (j # js') x" for x
      proof -
        have "covers (j # js') x" using that cov by (auto simp: covers_Cons dest: order_trans)
        then show ?thesis using covers_mono [of "j # js'" js] sub Cons by auto
      qed
      have eq: "find_last_gap_loop (i # ivs) js = find_last_gap_loop ivs (j # js')"
        using Cons cov by (simp add: leD)
      show ?thesis
      proof (cases "find_last_gap_loop ivs (j # js')")
        case None
        with IH step eq show ?thesis by simp
      next
        case (Some p)
        obtain a b where p: "p = (a, b)" by force
        from IH Some p obtain r where r: "r \<in> set ivs" "fst r \<le> a" "b \<le> snd r" by auto
        have "b \<le> snd i" using after [OF r(1)] r(3) i by order
        then have "\<forall>k \<in> set js. b \<le> fst k \<or> snd k \<le> a"
          using parts IH Some p by (auto dest: order_trans)
        with IH Some p step eq r show ?thesis by auto
      qed
    qed
  qed
qed

section \<open>\<open>GetReadyFrom\<close>\<close>

lemma get_ready_from_ge: "snd rng \<le> get_ready_from ready rng"
proof -
  let ?i = "length (takeWhile (\<lambda>r. fst r < snd rng) ready)"
  have le: "?i \<le> length ready" by (rule length_takeWhile_le)
  have "snd rng \<le> fst (ready ! ?i)" if "?i \<noteq> length ready"
    using that le nth_length_takeWhile [of "\<lambda>r. fst r < snd rng" ready] by (simp add: not_less)
  then show ?thesis by (auto simp: get_ready_from_def Let_def le_max_iff_disj)
qed

end
