(* ===== verification/Data_Value.thy ===== *)
theory Data_Value
  imports Time_Series
begin

text \<open>
  \<open>scada::DataValue\<close> with the fields the components read, and the traits
  \<open>TimedDataTraits<scada::DataValue>\<close> of \<open>common/data_value_traits.h\<close>. The variant type and the
  qualifier type are outside the repository; they are type parameters.
\<close>

record ('a, 'q, 't) data_value =
  dv_value :: 'a
  dv_qualifier :: 'q
  dv_source :: 't   \<comment> \<open>\<open>source_timestamp\<close>\<close>
  dv_server :: 't   \<comment> \<open>\<open>server_timestamp\<close>\<close>

text \<open>\<open>IsLesser\<close>: \<open>std::tie (source, server)\<close> compared lexicographically.\<close>

definition dv_lesser ::
    "('a, 'q, 't::linorder) data_value \<Rightarrow> ('a, 'q, 't) data_value \<Rightarrow> bool" where
  "dv_lesser a b \<longleftrightarrow>
     dv_source a < dv_source b \<or> (dv_source a = dv_source b \<and> dv_server a < dv_server b)"

interpretation dvt: sample_traits dv_source dv_lesser
  by unfold_locales (auto simp: dv_lesser_def)

lemma dv_lesser_same_source:
  "dv_source a = dv_source b \<Longrightarrow> dv_lesser a b \<longleftrightarrow> dv_server a < dv_server b"
  by (simp add: dv_lesser_def)

end
