(* ===== verification/Timed_Data_Buffer.thy ===== *)
theory Timed_Data_Buffer
  imports Intervals Std_Map Data_Value
begin

text \<open>
  \<open>timed_data/timed_data_buffer.h\<close>: the owning, sorted container of samples, its observers, the
  ranges they observe and the ranges already filled, the retention policy and the batches.

  Observers are identified by a value of a linear order (the addresses \<open>std::map\<close> sorts by);
  \<open>base::ObserverList\<close> is the list of the registered ones, notified in registration order. What
  an operation tells its observers is returned as a list of events. A panic, and an index outside
  the sample vector, is \<open>None\<close>. Capacities (\<open>reserve\<close>, \<open>shrink_to_fit\<close>) and logging have no
  counterpart.
\<close>

section \<open>State\<close>

record retention_policy =
  observed_window :: bool
  max_samples :: nat

definition default_retention :: retention_policy where
  "default_retention = \<lparr>observed_window = True, max_samples = 2 ^ 64 - 1\<rparr>"

record ('v, 't, 'o) tbuffer =
  tb_observers :: "'o list"
  tb_observer_ranges :: "('o, 't interval) smap"
  tb_observed :: "'t interval list"
  tb_ready :: "'t interval list"
  tb_has_handler :: bool     \<comment> \<open>\<open>observed_ranges_updated_handler_\<close> is set\<close>
  tb_retention :: retention_policy
  tb_batch_depth :: nat
  tb_dirty :: "'t interval option"
  tb_values :: "'v list"

datatype ('v, 'o) tb_event =
    Updates 'o "'v list"      \<comment> \<open>\<open>OnTimedDataUpdates\<close>\<close>
  | ReadyEvent 'o             \<comment> \<open>\<open>OnTimedDataReady\<close>\<close>
  | RangesUpdated bool        \<comment> \<open>the observed-ranges handler, with \<open>has_observers\<close>\<close>

definition empty_buffer :: "('v, 't, 'o) tbuffer" where
  "empty_buffer = \<lparr>tb_observers = [], tb_observer_ranges = [], tb_observed = [], tb_ready = [],
     tb_has_handler = False, tb_retention = default_retention, tb_batch_depth = 0,
     tb_dirty = None, tb_values = []\<rparr>"

section \<open>Ranges\<close>

definition clamp_ranges ::
    "('t::{linorder,order_bot}) interval list \<Rightarrow> 't \<Rightarrow> 't \<Rightarrow> 't interval list" where
  "clamp_ranges ranges lo hi =
     concat (map (\<lambda>r. let a = max (fst r) lo;
                         b = (if hi = bot then snd r else min (snd r) hi)
                     in if a < b then [(a, b)] else []) ranges)"

definition union_range ::
    "('t::{linorder,order_bot}) interval \<Rightarrow> 't interval \<Rightarrow> 't interval" where
  "union_range a b =
     (min (fst a) (fst b),
      if snd a = bot \<or> snd b = bot then bot else max (snd a) (snd b))"

section \<open>Notification\<close>

definition notify_range ::
    "('v \<Rightarrow> 't::{linorder,order_bot}) \<Rightarrow> 't interval \<Rightarrow> ('v, 't, 'o) tbuffer \<Rightarrow>
     ('v, 'o) tb_event list" where
  "notify_range ts rng b =
     (let slice = view_slice ts (tb_values b) rng
      in if slice = [] then [] else map (\<lambda>ob. Updates ob slice) (tb_observers b))"

definition mark_dirty ::
    "('v \<Rightarrow> 't::{linorder,order_bot}) \<Rightarrow> 't interval \<Rightarrow> ('v, 't, 'o) tbuffer \<Rightarrow>
     ('v, 't, 'o) tbuffer \<times> ('v, 'o) tb_event list" where
  "mark_dirty ts rng b =
     (if tb_batch_depth b > 0
      then (b\<lparr>tb_dirty := Some (case tb_dirty b of Some d \<Rightarrow> union_range d rng | None \<Rightarrow> rng)\<rparr>, [])
      else (b, notify_range ts rng b))"

definition begin_update :: "('v, 't, 'o) tbuffer \<Rightarrow> ('v, 't, 'o) tbuffer" where
  "begin_update b = b\<lparr>tb_batch_depth := tb_batch_depth b + 1\<rparr>"

definition end_batch ::
    "('v \<Rightarrow> 't::{linorder,order_bot}) \<Rightarrow> ('v, 't, 'o) tbuffer \<Rightarrow>
     (('v, 't, 'o) tbuffer \<times> ('v, 'o) tb_event list) option" where
  "end_batch ts b = do {
     check (tb_batch_depth b > 0);
     let b' = b\<lparr>tb_batch_depth := tb_batch_depth b - 1\<rparr>;
     Some (case tb_dirty b' of
             Some rng \<Rightarrow>
               if tb_batch_depth b' = 0
               then (let b'' = b'\<lparr>tb_dirty := None\<rparr> in (b'', notify_range ts rng b''))
               else (b', [])
           | None \<Rightarrow> (b', []))
   }"

section \<open>Eviction\<close>

text \<open>
  \<open>TrimToObservedRanges\<close>. The checks are the iterator ranges the code erases and the element it
  reads: \<open>keep_begin\<close> within the retained samples, \<open>values_[drop]\<close> within the vector.
\<close>

definition trim_window ::
    "('v \<Rightarrow> 't::{linorder,order_bot}) \<Rightarrow> ('v, 't, 'o) tbuffer \<Rightarrow> ('v, 't, 'o) tbuffer option" where
  "trim_window ts b =
     (let hull_first = fst (hd (tb_observed b));
          hull_last = snd (last (tb_observed b));
          keep_begin = lower_bound ts (tb_values b) hull_first;
          keep_end = (if hull_last = bot then length (tb_values b)
                      else upper_bound ts (tb_values b) hull_last);
          kept = (if keep_end < length (tb_values b) then take keep_end (tb_values b)
                  else tb_values b)
      in do {
        check (keep_begin \<le> length kept);
        Some (b\<lparr>tb_values := drop keep_begin kept,
                tb_ready := clamp_ranges (tb_ready b) hull_first hull_last\<rparr>)
      })"

definition trim_count ::
    "('v \<Rightarrow> 't::{linorder,order_bot}) \<Rightarrow> ('v, 't, 'o) tbuffer \<Rightarrow> ('v, 't, 'o) tbuffer option" where
  "trim_count ts b =
     (if length (tb_values b) > max_samples (tb_retention b)
      then (let dropped = length (tb_values b) - max_samples (tb_retention b) in do {
        check (dropped < length (tb_values b));
        let new_first = ts (tb_values b ! dropped);
        Some (b\<lparr>tb_values := drop dropped (tb_values b),
                tb_ready := clamp_ranges (tb_ready b) new_first bot\<rparr>)
      })
      else Some b)"

definition trim_to_observed_ranges ::
    "('v \<Rightarrow> 't::{linorder,order_bot}) \<Rightarrow> ('v, 't, 'o) tbuffer \<Rightarrow> ('v, 't, 'o) tbuffer option" where
  "trim_to_observed_ranges ts b =
     (if tb_values b = [] then Some b
      else if observed_window (tb_retention b)
      then (if tb_observed b = [] then Some (b\<lparr>tb_values := [], tb_ready := []\<rparr>)
            else trim_window ts b \<bind> trim_count ts)
      else trim_count ts b)"

definition set_retention ::
    "('v \<Rightarrow> 't::{linorder,order_bot}) \<Rightarrow> retention_policy \<Rightarrow> ('v, 't, 'o) tbuffer \<Rightarrow>
     ('v, 't, 'o) tbuffer option" where
  "set_retention ts r b = trim_to_observed_ranges ts (b\<lparr>tb_retention := r\<rparr>)"

section \<open>Observation\<close>

text \<open>The union of the ranges of all observers that want history, in the order of the map.\<close>

fun union_observed ::
    "('t::{linorder,order_bot,order_top}) interval_lib \<Rightarrow> ('o, 't interval) smap \<Rightarrow>
     't interval list \<Rightarrow> 't interval list option" where
  "union_observed L [] acc = Some acc"
| "union_observed L ((ob, rng) # m) acc =
     (if fst rng \<noteq> top
      then check (\<not> iv_empty L rng) \<bind> (\<lambda>_. union_observed L m (iv_union L acc rng))
      else union_observed L m acc)"

definition update_observed_ranges ::
    "('t::{linorder,order_bot,order_top}) interval_lib \<Rightarrow> ('v \<Rightarrow> 't) \<Rightarrow> ('v, 't, 'o) tbuffer \<Rightarrow>
     (('v, 't, 'o) tbuffer \<times> ('v, 'o) tb_event list) option" where
  "update_observed_ranges L ts b = do {
     observed \<leftarrow> union_observed L (tb_observer_ranges b) [];
     b' \<leftarrow> trim_to_observed_ranges ts (b\<lparr>tb_observed := observed\<rparr>);
     Some (b', if tb_has_handler b' then [RangesUpdated (tb_observed b' \<noteq> [])] else [])
   }"

definition add_observer ::
    "('t::{linorder,order_bot,order_top}) interval_lib \<Rightarrow> ('v \<Rightarrow> 't) \<Rightarrow> 'o::linorder \<Rightarrow>
     't interval \<Rightarrow> ('v, 't, 'o) tbuffer \<Rightarrow>
     (('v, 't, 'o) tbuffer \<times> ('v, 'o) tb_event list) option" where
  "add_observer L ts ob rng b = do {
     check (snd rng \<noteq> bot);
     check (iv_valid L rng);
     check (fst rng = top \<or> \<not> iv_empty L rng);
     let b1 = (if ob \<in> set (tb_observers b) then b
               else b\<lparr>tb_observers := tb_observers b @ [ob]\<rparr>);
     let b2 = b1\<lparr>tb_observer_ranges := smap_put (tb_observer_ranges b1) ob rng\<rparr>;
     update_observed_ranges L ts b2
   }"

definition remove_observer ::
    "('t::{linorder,order_bot,order_top}) interval_lib \<Rightarrow> ('v \<Rightarrow> 't) \<Rightarrow> 'o::linorder \<Rightarrow>
     ('v, 't, 'o) tbuffer \<Rightarrow> (('v, 't, 'o) tbuffer \<times> ('v, 'o) tb_event list) option" where
  "remove_observer L ts ob b =
     update_observed_ranges L ts
       (b\<lparr>tb_observers := removeAll ob (tb_observers b),
          tb_observer_ranges := smap_erase (tb_observer_ranges b) ob\<rparr>)"

section \<open>Readiness\<close>

definition find_next_gap ::
    "('t::linorder) interval_lib \<Rightarrow> ('v, 't, 'o) tbuffer \<Rightarrow> 't interval option option" where
  "find_next_gap L b = find_first_gap L (tb_observed b) (tb_ready b)"

definition add_ready_range ::
    "'t interval_lib \<Rightarrow> 't interval \<Rightarrow> ('v, 't, 'o) tbuffer \<Rightarrow>
     ('v, 't, 'o) tbuffer \<times> ('v, 'o) tb_event list" where
  "add_ready_range L rng b =
     (b\<lparr>tb_ready := iv_union L (tb_ready b) rng\<rparr>, map ReadyEvent (tb_observers b))"

section \<open>Mutation\<close>

definition insert_or_update ::
    "('v \<Rightarrow> 't::{linorder,order_bot}) \<Rightarrow> ('v \<Rightarrow> 'v \<Rightarrow> bool) \<Rightarrow> 'v \<Rightarrow> ('v, 't, 'o) tbuffer \<Rightarrow>
     ('v, 't, 'o) tbuffer \<times> bool \<times> ('v, 'o) tb_event list" where
  "insert_or_update ts lesser v b =
     (let vs = tb_values b;
          store = (\<lambda>vs'. case mark_dirty ts (ts v, ts v) (b\<lparr>tb_values := vs'\<rparr>) of
                          (b', es) \<Rightarrow> (b', True, es))
      in if ts v = bot then (b, False, [])
         else if vs = [] \<or> ts (last vs) < ts v then store (vs @ [v])
         else (let i = lower_bound ts vs (ts v)
               in if i \<noteq> length vs \<and> ts (vs ! i) = ts v
                  then (if lesser v (vs ! i) then (b, False, []) else store (vs[i := v]))
                  else store (take i vs @ v # drop i vs)))"

definition clear_range ::
    "('v \<Rightarrow> 't::{linorder,order_bot}) \<Rightarrow> 't interval \<Rightarrow> ('v, 't, 'o) tbuffer \<Rightarrow>
     (('v, 't, 'o) tbuffer \<times> ('v, 'o) tb_event list) option" where
  "clear_range ts rng b = do {
     check (fst rng \<noteq> bot);
     check (snd rng = bot \<or> fst rng \<le> snd rng);
     let vs = tb_values b;
     let i = lower_bound ts vs (fst rng);
     let j = (if snd rng = bot then length vs else upper_bound ts vs (snd rng));
     if i = j then Some (b, [])
     else Some (mark_dirty ts rng (b\<lparr>tb_values := take i vs @ drop j vs\<rparr>))
   }"

text \<open>\<open>std::ranges::unique\<close> by timestamp: the first of each run of equal keys stays.\<close>

fun unique_by :: "('v \<Rightarrow> 't) \<Rightarrow> 'v list \<Rightarrow> 'v list" where
  "unique_by ts [] = []"
| "unique_by ts [x] = [x]"
| "unique_by ts (x # y # xs) =
     (if ts x = ts y then unique_by ts (x # xs) else x # unique_by ts (y # xs))"

definition sanitize :: "('v \<Rightarrow> 't::{linorder,order_bot}) \<Rightarrow> 'v list \<Rightarrow> 'v list" where
  "sanitize ts vals =
     (let has_leading_null = vals \<noteq> [] \<and> ts (hd vals) = bot
      in if has_leading_null \<or> \<not> is_time_sorted ts vals
         then unique_by ts (sort_key ts (filter (\<lambda>v. ts v \<noteq> bot) vals))
         else vals)"

definition replace_range ::
    "('v \<Rightarrow> 't::{linorder,order_bot}) \<Rightarrow> 'v list \<Rightarrow> ('v, 't, 'o) tbuffer \<Rightarrow>
     (('v, 't, 'o) tbuffer \<times> ('v, 'o) tb_event list) option" where
  "replace_range ts vals b =
     (let new = sanitize ts vals; vs = tb_values b
      in if new = [] then Some (b, [])
         else do {
           let changed = (ts (hd new), ts (last new));
           vs' \<leftarrow> (case find_insert_position ts vs (ts (hd new)) (ts (last new)) of
                    Some i \<Rightarrow> Some (take i vs @ new @ drop i vs)
                  | None \<Rightarrow> replace_subrange ts vs new);
           check (is_time_sorted ts vs');
           b' \<leftarrow> trim_to_observed_ranges ts (b\<lparr>tb_values := vs'\<rparr>);
           Some (mark_dirty ts changed b')
         })"

end
