(* ===== verification/Timed_Data_Buffer_Facts.thy ===== *)
theory Timed_Data_Buffer_Facts
  imports Timed_Data_Buffer
begin

text \<open>
  The buffer's invariant and the effect of each operation, first on the sample vector as a list,
  then on the abstract series, the partial map from timestamps to samples.
\<close>

section \<open>The abstract series\<close>

definition series_at :: "('v \<Rightarrow> 't) \<Rightarrow> 'v list \<Rightarrow> 't \<Rightarrow> 'v option" where
  "series_at ts xs t = List.find (\<lambda>x. ts x = t) xs"

lemma series_at_Nil [simp]: "series_at ts [] t = None"
  by (simp add: series_at_def)

lemma series_at_Cons: "series_at ts (x # xs) t = (if ts x = t then Some x else series_at ts xs t)"
  by (simp add: series_at_def)

lemma series_at_append:
  "series_at ts (xs @ ys) t =
     (case series_at ts xs t of None \<Rightarrow> series_at ts ys t | Some x \<Rightarrow> Some x)"
  by (induction xs) (auto simp: series_at_Cons)

lemma series_at_None: "series_at ts xs t = None \<longleftrightarrow> (\<forall>x \<in> set xs. ts x \<noteq> t)"
  by (auto simp: series_at_def find_None_iff)

lemma series_at_Some: "series_at ts xs t = Some x \<Longrightarrow> x \<in> set xs \<and> ts x = t"
  by (auto simp: series_at_def find_Some_iff)

lemma series_at_iff:
  "key_sorted ts xs \<Longrightarrow> series_at ts xs t = Some x \<longleftrightarrow> x \<in> set xs \<and> ts x = t"
proof
  assume "series_at ts xs t = Some x"
  then show "x \<in> set xs \<and> ts x = t" by (rule series_at_Some)
next
  assume srt: "key_sorted ts xs" and x: "x \<in> set xs \<and> ts x = t"
  then obtain y where y: "series_at ts xs t = Some y"
    by (cases "series_at ts xs t") (auto simp: series_at_None)
  then have "y = x" using key_sorted_inj [OF srt, of y x] x series_at_Some [OF y] by simp
  with y show "series_at ts xs t = Some x" by simp
qed

lemma series_at_filter:
  "series_at ts (filter (\<lambda>x. P (ts x)) xs) t = (if P t then series_at ts xs t else None)"
  by (induction xs) (auto simp: series_at_Cons series_at_None)

lemma series_at_hd_filter:
  "series_at ts xs t = (case filter (\<lambda>x. ts x = t) xs of [] \<Rightarrow> None | x # _ \<Rightarrow> Some x)"
  by (induction xs) (auto simp: series_at_Cons)

section \<open>Sanitizing a batch\<close>

lemma set_unique_by: "set (unique_by ts xs) \<subseteq> set xs"
  by (induction ts xs rule: unique_by.induct) auto

lemma series_at_unique_by: "series_at ts (unique_by ts xs) t = series_at ts xs t"
  by (induction ts xs rule: unique_by.induct) (auto simp: series_at_Cons)

lemma key_sorted_unique_by: "sorted (map ts xs) \<Longrightarrow> key_sorted ts (unique_by ts xs)"
proof (induction ts xs rule: unique_by.induct)
  case (3 ts x y xs)
  show ?case
  proof (cases "ts x = ts y")
    case True
    with 3 show ?thesis by auto
  next
    case False
    have "ts x < ts z" if "z \<in> set (unique_by ts (y # xs))" for z
    proof -
      have "z = y \<or> z \<in> set xs" using that set_unique_by [of ts "y # xs"] by auto
      then have "ts y \<le> ts z" using "3.prems" by auto
      moreover have "ts x < ts y" using "3.prems" False by (simp add: less_le)
      ultimately show ?thesis by simp
    qed
    with False 3 show ?thesis by simp
  qed
qed simp_all

lemma series_at_sort_key: "series_at ts (sort_key ts xs) t = series_at ts xs t"
  by (simp add: series_at_hd_filter sort_key_stable)

lemma key_sorted_sanitize: "key_sorted ts (sanitize ts vals)"
  by (simp add: sanitize_def Let_def is_time_sorted_iff key_sorted_unique_by)

lemma key_sorted_no_bot:
  assumes "key_sorted ts xs" "xs \<noteq> []" "ts (hd xs) \<noteq> bot" "x \<in> set xs"
  shows "ts x \<noteq> (bot :: 't :: {linorder, order_bot})"
proof -
  obtain y ys where xs: "xs = y # ys" using assms(2) by (cases xs) auto
  then have "ts (hd xs) \<le> ts x" using assms(1,4) by auto
  with assms(3) show ?thesis by (metis bot.extremum_unique)
qed

lemma sanitize_no_bot: "v \<in> set (sanitize ts vals) \<Longrightarrow> ts v \<noteq> bot"
  using set_unique_by [of ts "sort_key ts (filter (\<lambda>v. ts v \<noteq> bot) vals)"]
    key_sorted_no_bot [of ts vals v]
  by (cases "vals = []") (auto simp: sanitize_def Let_def is_time_sorted_iff split: if_splits)

lemma sanitize_subset: "set (sanitize ts vals) \<subseteq> set vals"
  using set_unique_by [of ts "sort_key ts (filter (\<lambda>v. ts v \<noteq> bot) vals)"]
  by (auto simp: sanitize_def Let_def)

lemma series_at_sanitize:
  "series_at ts (sanitize ts vals) t = (if t = bot then None else series_at ts vals t)"
proof (cases "(vals \<noteq> [] \<and> ts (hd vals) = bot) \<or> \<not> is_time_sorted ts vals")
  case True
  then have "sanitize ts vals = unique_by ts (sort_key ts (filter (\<lambda>v. ts v \<noteq> bot) vals))"
    by (simp add: sanitize_def Let_def)
  then show ?thesis
    by (simp add: series_at_unique_by series_at_sort_key series_at_filter [of ts "\<lambda>t. t \<noteq> bot"])
next
  case False
  then have "sanitize ts vals = vals" by (auto simp: sanitize_def Let_def)
  moreover have "series_at ts vals bot = None"
    using False key_sorted_no_bot [of ts vals]
    by (cases "vals = []") (auto simp: series_at_None is_time_sorted_iff)
  ultimately show ?thesis by simp
qed

lemma sanitize_id:
  "key_sorted ts vals \<Longrightarrow> \<forall>v \<in> set vals. ts v \<noteq> bot \<Longrightarrow> sanitize ts vals = vals"
  by (auto simp: sanitize_def Let_def is_time_sorted_iff)

section \<open>The invariant\<close>

definition samples_ok :: "('v \<Rightarrow> 't::{linorder,order_bot}) \<Rightarrow> 'v list \<Rightarrow> bool" where
  "samples_ok ts xs \<longleftrightarrow> key_sorted ts xs \<and> (\<forall>x \<in> set xs. ts x \<noteq> bot)"

definition buffer_ok :: "('v \<Rightarrow> 't::{linorder,order_bot}) \<Rightarrow> ('v, 't, 'o::linorder) tbuffer \<Rightarrow> bool" where
  "buffer_ok ts b \<longleftrightarrow>
     samples_ok ts (tb_values b) \<and> smap_ok (tb_observer_ranges b) \<and> distinct (tb_observers b)
     \<and> (tb_batch_depth b = 0 \<longrightarrow> tb_dirty b = None)"

lemma samples_ok_filter: "samples_ok ts xs \<Longrightarrow> samples_ok ts (filter P xs)"
  by (auto simp: samples_ok_def key_sorted_filter)

lemma samples_ok_take: "samples_ok ts xs \<Longrightarrow> samples_ok ts (take n xs)"
  by (auto simp: samples_ok_def key_sorted_take dest: in_set_takeD)

lemma samples_ok_drop: "samples_ok ts xs \<Longrightarrow> samples_ok ts (drop n xs)"
  by (auto simp: samples_ok_def key_sorted_drop dest: in_set_dropD)

lemma samples_ok_Nil [simp]: "samples_ok ts []"
  by (simp add: samples_ok_def)

lemma samples_ok_sorted: "samples_ok ts xs \<Longrightarrow> sorted (map ts xs)"
  by (simp add: samples_ok_def key_sorted_imp_sorted)

lemma samples_ok_sanitize: "samples_ok ts (sanitize ts vals)"
  by (simp add: samples_ok_def key_sorted_sanitize sanitize_no_bot)

lemma key_sorted_middle:
  assumes "key_sorted ts xs" "key_sorted ts new" "new \<noteq> []"
  shows "key_sorted ts (filter (\<lambda>x. ts x < ts (hd new)) xs @ new
           @ filter (\<lambda>x. ts (last new) < ts x) xs)"
proof -
  have h: "ts (hd new) \<le> ts x" if "x \<in> set new" for x
    using that assms(2,3) by (cases new) auto
  have l: "ts x \<le> ts (last new)" if "x \<in> set new" for x
    using that assms(2,3) by (induction new) (auto simp: less_imp_le)
  have hl: "ts (hd new) \<le> ts (last new)" using h assms(3) by simp
  show ?thesis
    using assms(1,2) h l hl
    by (auto simp: sorted_wrt_append key_sorted_filter)
      (metis le_less_trans less_le_trans less_trans)+
qed

lemma samples_ok_middle:
  assumes "samples_ok ts xs" "samples_ok ts new" "new \<noteq> []"
  shows "samples_ok ts (filter (\<lambda>x. ts x < ts (hd new)) xs @ new
           @ filter (\<lambda>x. ts (last new) < ts x) xs)"
  using assms key_sorted_middle [of ts xs new] by (auto simp: samples_ok_def)

section \<open>Batches\<close>

lemma mark_dirty_fields [simp]:
  "tb_values (fst (mark_dirty ts rng b)) = tb_values b"
  "tb_observers (fst (mark_dirty ts rng b)) = tb_observers b"
  "tb_observer_ranges (fst (mark_dirty ts rng b)) = tb_observer_ranges b"
  "tb_observed (fst (mark_dirty ts rng b)) = tb_observed b"
  "tb_ready (fst (mark_dirty ts rng b)) = tb_ready b"
  "tb_has_handler (fst (mark_dirty ts rng b)) = tb_has_handler b"
  "tb_retention (fst (mark_dirty ts rng b)) = tb_retention b"
  "tb_batch_depth (fst (mark_dirty ts rng b)) = tb_batch_depth b"
  by (simp_all add: mark_dirty_def)

lemma mark_dirty_ok: "buffer_ok ts b \<Longrightarrow> buffer_ok ts (fst (mark_dirty ts rng b))"
  by (auto simp: buffer_ok_def mark_dirty_def)

lemma mark_dirty_quiet: "tb_batch_depth b > 0 \<Longrightarrow> snd (mark_dirty ts rng b) = []"
  by (simp add: mark_dirty_def)

text \<open>A time lies in a range whose null end means no upper bound.\<close>

definition in_range :: "('t::{linorder,order_bot}) interval \<Rightarrow> 't \<Rightarrow> bool" where
  "in_range rng t \<longleftrightarrow> fst rng \<le> t \<and> (snd rng = bot \<or> t \<le> snd rng)"

lemma in_union_range:
  "in_range a t \<or> in_range b t \<Longrightarrow> in_range (union_range a b) t"
  by (auto simp: in_range_def union_range_def min_le_iff_disj le_max_iff_disj bot_unique)

lemma notify_range_eq:
  "sorted (map ts (tb_values b)) \<Longrightarrow> notify_range ts rng b =
     (let slice = filter (\<lambda>x. in_range rng (ts x)) (tb_values b)
      in if slice = [] then [] else map (\<lambda>ob. Updates ob slice) (tb_observers b))"
  by (cases rng) (simp add: notify_range_def view_slice_eq in_range_def)

section \<open>Eviction\<close>

lemma covers_clamp_ranges:
  "covers (clamp_ranges rs lo hi) x \<longleftrightarrow> covers rs x \<and> lo \<le> x \<and> (hi = bot \<or> x < hi)"
proof -
  have "covers (clamp_ranges rs lo hi) x \<longleftrightarrow>
      (\<exists>r \<in> set rs. max (fst r) lo \<le> x \<and> x < (if hi = bot then snd r else min (snd r) hi))"
    unfolding covers_def clamp_ranges_def Let_def by (force split: if_splits)
  then show ?thesis by (auto simp: covers_def)
qed

lemma trim_window_eq:
  assumes ok: "samples_ok ts (tb_values b)"
    and hull: "snd (last (tb_observed b)) = bot
        \<or> fst (hd (tb_observed b)) \<le> snd (last (tb_observed b))"
  shows "trim_window ts b = Some (b\<lparr>
    tb_values := filter (\<lambda>x. in_range (fst (hd (tb_observed b)), snd (last (tb_observed b))) (ts x))
                   (tb_values b),
    tb_ready := clamp_ranges (tb_ready b) (fst (hd (tb_observed b))) (snd (last (tb_observed b)))\<rparr>)"
proof -
  let ?vs = "tb_values b" and ?f = "fst (hd (tb_observed b))" and ?l = "snd (last (tb_observed b))"
  have s: "sorted (map ts ?vs)" by (rule samples_ok_sorted [OF ok])
  have s': "sorted (map ts (filter P ?vs))" for P
    using s by (simp add: sorted_map sorted_wrt_filter)
  define ke where "ke = (if ?l = bot then length ?vs else upper_bound ts ?vs ?l)"
  have kept: "(if ke < length ?vs then take ke ?vs else ?vs) = filter (\<lambda>x. ?l = bot \<or> ts x \<le> ?l) ?vs"
    using take_upper_bound [OF s, of ?l] by (auto simp: ke_def)
  have le: "lower_bound ts ?vs ?f \<le> length (filter (\<lambda>x. ?l = bot \<or> ts x \<le> ?l) ?vs)"
  proof (cases "?l = bot")
    case False
    then have "?f \<le> ?l" using hull by simp
    from lower_le_upper_bound [OF s this] False show ?thesis by (simp add: upper_bound_count [OF s])
  qed simp
  have lb: "lower_bound ts (filter (\<lambda>x. ?l = bot \<or> ts x \<le> ?l) ?vs) ?f = lower_bound ts ?vs ?f"
  proof (cases "?l = bot")
    case False
    then have "?f \<le> ?l" using hull by simp
    then have "filter (\<lambda>x. ts x < ?f) (filter (\<lambda>x. ts x \<le> ?l) ?vs) = filter (\<lambda>x. ts x < ?f) ?vs"
      by (auto intro!: filter_cong)
    with False show ?thesis by (simp add: lower_bound_count [OF s] lower_bound_count [OF s'])
  qed simp
  have "drop (lower_bound ts ?vs ?f) (filter (\<lambda>x. ?l = bot \<or> ts x \<le> ?l) ?vs)
      = filter (\<lambda>x. in_range (?f, ?l) (ts x)) ?vs"
    unfolding lb [symmetric] drop_lower_bound [OF s'] in_range_def
    by (simp add: conj_commute)
  then show ?thesis
    unfolding trim_window_def Let_def ke_def [symmetric] kept using le by simp
qed

lemma trim_count_eq:
  assumes "0 < max_samples (tb_retention b) \<or> tb_values b = []"
  obtains r where "trim_count ts b = Some (b\<lparr>
    tb_values := drop (length (tb_values b) - max_samples (tb_retention b)) (tb_values b),
    tb_ready := r\<rparr>)"
    and "\<And>x. covers r x \<Longrightarrow> covers (tb_ready b) x"
proof (cases "length (tb_values b) > max_samples (tb_retention b)")
  case True
  with assms have "length (tb_values b) - max_samples (tb_retention b) < length (tb_values b)"
    by auto
  with True show ?thesis
    by (intro that [of "clamp_ranges (tb_ready b)
          (ts (tb_values b ! (length (tb_values b) - max_samples (tb_retention b)))) bot"])
       (simp_all add: trim_count_def Let_def covers_clamp_ranges)
next
  case False
  then show ?thesis by (intro that [of "tb_ready b"]) (simp_all add: trim_count_def)
qed

lemma trim_to_observed_ranges_eq:
  assumes ok: "samples_ok ts (tb_values b)"
    and hull: "tb_observed b = [] \<or> snd (last (tb_observed b)) = bot
        \<or> fst (hd (tb_observed b)) \<le> snd (last (tb_observed b))"
    and pos: "0 < max_samples (tb_retention b)"
  defines "hullf \<equiv> (\<lambda>t. \<not> observed_window (tb_retention b) \<or> (tb_observed b \<noteq> []
      \<and> in_range (fst (hd (tb_observed b)), snd (last (tb_observed b))) t))"
  defines "kept \<equiv> filter (\<lambda>x. hullf (ts x)) (tb_values b)"
  obtains r where "trim_to_observed_ranges ts b = Some (b\<lparr>
      tb_values := drop (length kept - max_samples (tb_retention b)) kept, tb_ready := r\<rparr>)"
    and "\<And>x. covers r x \<Longrightarrow> covers (tb_ready b) x"
proof (cases "tb_values b = []")
  case True
  then show ?thesis
    by (intro that [of "tb_ready b"]) (simp_all add: trim_to_observed_ranges_def kept_def)
next
  case nonempty: False
  let ?m = "max_samples (tb_retention b)"
  show ?thesis
  proof (cases "observed_window (tb_retention b)")
    case False
    then have "kept = tb_values b" by (simp add: kept_def hullf_def)
    moreover obtain r where "trim_count ts b = Some (b\<lparr>
        tb_values := drop (length (tb_values b) - ?m) (tb_values b), tb_ready := r\<rparr>)"
      "\<And>x. covers r x \<Longrightarrow> covers (tb_ready b) x" using trim_count_eq pos by blast
    ultimately show ?thesis using that [of r] nonempty False
      by (simp add: trim_to_observed_ranges_def)
  next
    case window: True
    show ?thesis
    proof (cases "tb_observed b = []")
      case True
      with window nonempty show ?thesis
        by (intro that [of "[]"])
          (simp_all add: trim_to_observed_ranges_def kept_def hullf_def covers_def)
    next
      case observed: False
      let ?r = "clamp_ranges (tb_ready b) (fst (hd (tb_observed b))) (snd (last (tb_observed b)))"
      let ?b = "b\<lparr>tb_values := kept, tb_ready := ?r\<rparr>"
      have w: "trim_window ts b = Some ?b"
        using trim_window_eq [OF ok] hull observed window by (simp add: kept_def hullf_def)
      obtain r where r: "trim_count ts ?b = Some (?b\<lparr>
          tb_values := drop (length (tb_values ?b) - max_samples (tb_retention ?b)) (tb_values ?b),
          tb_ready := r\<rparr>)" "\<And>x. covers r x \<Longrightarrow> covers (tb_ready ?b) x"
        using trim_count_eq [of ?b ts] pos by auto
      show ?thesis
        using r w nonempty window observed
        by (intro that [of r]) (auto simp: trim_to_observed_ranges_def covers_clamp_ranges)
    qed
  qed
qed

text \<open>Eviction writes the samples and the ready ranges only, and keeps the samples well-formed.\<close>

definition trimmed ::
    "('v \<Rightarrow> 't::{linorder,order_bot}) \<Rightarrow> ('v, 't, 'o) tbuffer \<Rightarrow> ('v, 't, 'o) tbuffer \<Rightarrow> bool" where
  "trimmed ts b b' \<longleftrightarrow> b' = b\<lparr>tb_values := tb_values b', tb_ready := tb_ready b'\<rparr>
     \<and> set (tb_values b') \<subseteq> set (tb_values b)
     \<and> (samples_ok ts (tb_values b) \<longrightarrow> samples_ok ts (tb_values b'))"

lemma trimmed_refl [simp]: "trimmed ts b b"
  by (simp add: trimmed_def)

lemma trimmed_trans: "trimmed ts b c \<Longrightarrow> trimmed ts c d \<Longrightarrow> trimmed ts b d"
  unfolding trimmed_def by (cases b; cases c; cases d) auto

lemma trim_count_trimmed: "trim_count ts b = Some b' \<Longrightarrow> trimmed ts b b'"
  by (auto simp: trim_count_def Let_def trimmed_def samples_ok_drop split: if_splits
      dest: in_set_dropD)

lemma trim_window_trimmed: "trim_window ts b = Some b' \<Longrightarrow> trimmed ts b b'"
  by (auto simp: trim_window_def Let_def trimmed_def samples_ok_drop samples_ok_take
      split: if_splits dest: in_set_drop_take in_set_dropD)

lemma trim_trimmed: "trim_to_observed_ranges ts b = Some b' \<Longrightarrow> trimmed ts b b'"
  by (auto simp: trim_to_observed_ranges_def bind_eq_Some_conv split: if_splits
      intro: trim_count_trimmed trim_window_trimmed trimmed_trans)
     (auto simp: trimmed_def)

lemma trimmed_fields:
  assumes "trimmed ts b b'"
  shows "tb_observers b' = tb_observers b" "tb_observer_ranges b' = tb_observer_ranges b"
    "tb_observed b' = tb_observed b" "tb_has_handler b' = tb_has_handler b"
    "tb_retention b' = tb_retention b" "tb_batch_depth b' = tb_batch_depth b"
    "tb_dirty b' = tb_dirty b"
  using assms unfolding trimmed_def by (cases b; cases b'; auto)+

lemma trimmed_samples:
  "trimmed ts b b' \<Longrightarrow> samples_ok ts (tb_values b) \<Longrightarrow> samples_ok ts (tb_values b')"
  unfolding trimmed_def by blast

lemma trimmed_ok: "trimmed ts b b' \<Longrightarrow> buffer_ok ts b \<Longrightarrow> buffer_ok ts b'"
  by (auto simp: buffer_ok_def trimmed_fields trimmed_samples)

section \<open>\<open>InsertOrUpdate\<close>\<close>

definition insert_accepted ::
    "('v \<Rightarrow> 't::{linorder,order_bot}) \<Rightarrow> ('v \<Rightarrow> 'v \<Rightarrow> bool) \<Rightarrow> 'v \<Rightarrow> 'v list \<Rightarrow> bool" where
  "insert_accepted ts lesser v xs \<longleftrightarrow>
     ts v \<noteq> bot \<and> (\<forall>x \<in> set xs. ts x = ts v \<longrightarrow> \<not> lesser v x)"

definition insert_sample :: "('v \<Rightarrow> 't::linorder) \<Rightarrow> 'v \<Rightarrow> 'v list \<Rightarrow> 'v list" where
  "insert_sample ts v xs =
     filter (\<lambda>x. ts x < ts v) xs @ v # filter (\<lambda>x. ts v < ts x) xs"

lemma key_sorted_drop_at:
  fixes t :: "'t::linorder" and ts :: "'v \<Rightarrow> 't" and xs :: "'v list"
  assumes srt: "key_sorted ts xs"
  defines "i \<equiv> lower_bound ts xs t"
  shows "i \<noteq> length xs \<Longrightarrow> ts (xs ! i) = t \<Longrightarrow> drop (Suc i) xs = filter (\<lambda>x. t < ts x) xs"
    and "\<not> (i \<noteq> length xs \<and> ts (xs ! i) = t) \<Longrightarrow> drop i xs = filter (\<lambda>x. t < ts x) xs"
proof -
  have d: "drop i xs = filter (\<lambda>x. t \<le> ts x) xs"
    unfolding i_def by (rule drop_lower_bound) (rule key_sorted_imp_sorted [OF srt])
  have le: "i \<le> length xs" by (simp add: i_def)
  have gt: "filter (\<lambda>x. t < ts x) (drop i xs) = filter (\<lambda>x. t < ts x) xs"
    unfolding d by (auto intro!: filter_cong)
  have ks: "key_sorted ts (drop i xs)" using srt by (rule key_sorted_drop)
  show "drop (Suc i) xs = filter (\<lambda>x. t < ts x) xs" if "i \<noteq> length xs" "ts (xs ! i) = t"
  proof -
    have c: "drop i xs = xs ! i # drop (Suc i) xs" using that(1) le by (simp add: Cons_nth_drop_Suc)
    from ks have "\<forall>x \<in> set (drop (Suc i) xs). t < ts x" unfolding c using that(2) by simp
    then have "filter (\<lambda>x. t < ts x) (drop (Suc i) xs) = drop (Suc i) xs" by (rule filter_True)
    moreover have "filter (\<lambda>x. t < ts x) (drop i xs) = filter (\<lambda>x. t < ts x) (drop (Suc i) xs)"
      unfolding c using that(2) by simp
    ultimately show ?thesis using gt by argo
  qed
  show "drop i xs = filter (\<lambda>x. t < ts x) xs" if n: "\<not> (i \<noteq> length xs \<and> ts (xs ! i) = t)"
  proof (cases "i = length xs")
    case True
    then show ?thesis using gt by simp
  next
    case False
    then have c: "drop i xs = xs ! i # drop (Suc i) xs" using le by (simp add: Cons_nth_drop_Suc)
    have "t \<le> ts (xs ! i)" using le_neq_implies_less [OF le False] unfolding i_def
      by (rule lower_bound_nth)
    then have "t < ts (xs ! i)" using n False by auto
    moreover have "\<forall>x \<in> set (drop (Suc i) xs). ts (xs ! i) < ts x" using ks unfolding c by simp
    ultimately have "\<forall>x \<in> set (drop i xs). t < ts x" unfolding c by (auto dest: less_trans)
    then have "filter (\<lambda>x. t < ts x) (drop i xs) = drop i xs" by (rule filter_True)
    then show ?thesis using gt by (rule subst)
  qed
qed

lemma insert_or_update_eq:
  assumes ok: "samples_ok ts (tb_values b)"
  shows "insert_or_update ts lesser v b =
    (if insert_accepted ts lesser v (tb_values b)
     then (case mark_dirty ts (ts v, ts v) (b\<lparr>tb_values := insert_sample ts v (tb_values b)\<rparr>) of
             (b', es) \<Rightarrow> (b', True, es))
     else (b, False, []))"
proof -
  let ?vs = "tb_values b" and ?t = "ts v"
  have srt: "key_sorted ts ?vs" using ok by (simp add: samples_ok_def)
  have s: "sorted (map ts ?vs)" by (rule key_sorted_imp_sorted [OF srt])
  define i where "i = lower_bound ts ?vs ?t"
  have tk: "take i ?vs = filter (\<lambda>x. ts x < ?t) ?vs" unfolding i_def by (rule take_lower_bound [OF s])
  show ?thesis
  proof (cases "?t = bot \<or> \<not> (?vs = [] \<or> ts (last ?vs) < ?t)")
    case False
    then have nb: "?t \<noteq> bot" and tail: "?vs = [] \<or> ts (last ?vs) < ?t" by auto
    have lt: "\<forall>x \<in> set ?vs. ts x < ?t"
    proof
      fix x assume x: "x \<in> set ?vs"
      then have "ts x \<le> ts (last ?vs)" by (rule key_sorted_le_last [OF srt])
      with tail x show "ts x < ?t" by auto
    qed
    then have "insert_sample ts v ?vs = ?vs @ [v]"
      by (auto simp: insert_sample_def filter_empty_conv dest: less_asym)
    moreover have "insert_accepted ts lesser v ?vs" using lt nb by (auto simp: insert_accepted_def)
    ultimately show ?thesis using nb tail by (simp add: insert_or_update_def Let_def)
  next
    case outer: True
    show ?thesis
    proof (cases "?t = bot")
      case True
      then show ?thesis by (simp add: insert_or_update_def insert_accepted_def)
    next
      case nb: False
      show ?thesis
      proof (cases "i \<noteq> length ?vs \<and> ts (?vs ! i) = ?t")
        case True
        then have il: "i < length ?vs" by (simp add: i_def le_neq_implies_less)
        have "insert_accepted ts lesser v ?vs \<longleftrightarrow> \<not> lesser v (?vs ! i)"
          using nb il True key_sorted_inj [OF srt, of "?vs ! i"]
          by (auto simp: insert_accepted_def)
        moreover have "?vs[i := v] = insert_sample ts v ?vs"
          using key_sorted_drop_at(1) [OF srt, of ?t] True il tk
          by (simp add: insert_sample_def upd_conv_take_nth_drop i_def)
        ultimately show ?thesis using nb outer True
          by (auto simp: insert_or_update_def Let_def i_def)
      next
        case False
        have dr: "drop i ?vs = filter (\<lambda>x. ?t < ts x) ?vs"
          using key_sorted_drop_at(2) [OF srt, of ?t] False by (simp add: i_def)
        have "ts x \<noteq> ?t" if "x \<in> set ?vs" for x
        proof -
          have "x \<in> set (take i ?vs @ drop i ?vs)" using that by simp
          then show ?thesis unfolding set_append tk dr by auto
        qed
        then have "insert_accepted ts lesser v ?vs" using nb by (auto simp: insert_accepted_def)
        moreover have "take i ?vs @ v # drop i ?vs = insert_sample ts v ?vs"
          by (simp only: insert_sample_def tk dr)
        ultimately show ?thesis using nb outer False
          by (auto simp: insert_or_update_def Let_def i_def)
      qed
    qed
  qed
qed

lemma samples_ok_insert:
  "samples_ok ts xs \<Longrightarrow> ts v \<noteq> bot \<Longrightarrow> samples_ok ts (insert_sample ts v xs)"
  using samples_ok_middle [of ts xs "[v]"] by (simp add: insert_sample_def samples_ok_def)

lemma series_at_insert:
  "series_at ts (insert_sample ts v xs) t = (if t = ts v then Some v else series_at ts xs t)"
  by (auto simp: insert_sample_def series_at_append series_at_Cons split: option.splits
      simp: series_at_filter [of ts "\<lambda>t. t < ts v"] series_at_filter [of ts "\<lambda>t. ts v < t"])

lemma insert_or_update_ok:
  "buffer_ok ts b \<Longrightarrow> buffer_ok ts (fst (insert_or_update ts lesser v b))"
  by (auto simp: insert_or_update_eq buffer_ok_def insert_accepted_def samples_ok_insert
      mark_dirty_def split: prod.splits if_splits)

lemma insert_or_update_fields:
  assumes "samples_ok ts (tb_values b)"
  shows "fst (snd (insert_or_update ts lesser v b)) = insert_accepted ts lesser v (tb_values b)"
    and "tb_values (fst (insert_or_update ts lesser v b)) =
      (if insert_accepted ts lesser v (tb_values b) then insert_sample ts v (tb_values b)
       else tb_values b)"
    and "tb_observed (fst (insert_or_update ts lesser v b)) = tb_observed b"
    and "tb_ready (fst (insert_or_update ts lesser v b)) = tb_ready b"
    and "tb_observers (fst (insert_or_update ts lesser v b)) = tb_observers b"
    and "tb_batch_depth (fst (insert_or_update ts lesser v b)) = tb_batch_depth b"
  by (auto simp: insert_or_update_eq [OF assms] mark_dirty_def)

section \<open>\<open>ClearRange\<close>\<close>

lemma clear_range_eq:
  assumes ok: "samples_ok ts (tb_values b)" and lo: "fst rng \<noteq> bot"
    and hi: "snd rng = bot \<or> fst rng \<le> snd rng"
  shows "clear_range ts rng b =
    Some (if \<exists>x \<in> set (tb_values b). in_range rng (ts x)
          then mark_dirty ts rng
                 (b\<lparr>tb_values := filter (\<lambda>x. \<not> in_range rng (ts x)) (tb_values b)\<rparr>)
          else (b, []))"
proof -
  let ?vs = "tb_values b"
  have s: "sorted (map ts ?vs)" by (rule samples_ok_sorted [OF ok])
  define i where "i = lower_bound ts ?vs (fst rng)"
  define j where "j = (if snd rng = bot then length ?vs else upper_bound ts ?vs (snd rng))"
  have ij: "i \<le> j" unfolding i_def j_def using hi lower_le_upper_bound [OF s] by auto
  have tk: "take i ?vs = filter (\<lambda>x. ts x < fst rng) ?vs" by (simp add: i_def take_lower_bound s)
  have di: "drop i ?vs = filter (\<lambda>x. fst rng \<le> ts x) ?vs" by (simp add: i_def drop_lower_bound s)
  have dj: "drop j ?vs = filter (\<lambda>x. snd rng \<noteq> bot \<and> snd rng < ts x) ?vs"
    by (simp add: j_def drop_upper_bound s)
  have mid: "take (j - i) (drop i ?vs) = filter (\<lambda>x. in_range rng (ts x)) ?vs"
  proof -
    have "take (j - i) (drop i ?vs) = drop i (take j ?vs)" by (simp add: drop_take)
    also have "take j ?vs = filter (\<lambda>x. snd rng = bot \<or> ts x \<le> snd rng) ?vs"
      by (simp add: j_def take_upper_bound s)
    also have "drop i \<dots> = filter (\<lambda>x. fst rng \<le> ts x) \<dots>"
    proof -
      have "i = lower_bound ts (filter (\<lambda>x. snd rng = bot \<or> ts x \<le> snd rng) ?vs) (fst rng)"
        using hi s unfolding i_def
        by (auto simp: lower_bound_count sorted_map sorted_wrt_filter
            intro!: arg_cong [where f = length] filter_cong)
      then show ?thesis using s by (simp add: drop_lower_bound sorted_map sorted_wrt_filter)
    qed
    finally show ?thesis by (simp add: in_range_def conj_commute)
  qed
  have split: "?vs = take i ?vs @ take (j - i) (drop i ?vs) @ drop j ?vs"
    by (metis append_take_drop_id drop_drop ij le_add_diff_inverse2)
  have empty: "i = j \<longleftrightarrow> \<not> (\<exists>x \<in> set ?vs. in_range rng (ts x))"
  proof -
    have "j \<le> length ?vs" by (simp add: j_def)
    then have "i = j \<longleftrightarrow> take (j - i) (drop i ?vs) = []" using ij by auto
    also have "\<dots> \<longleftrightarrow> \<not> (\<exists>x \<in> set ?vs. in_range rng (ts x))" unfolding mid
      by (auto simp: filter_empty_conv)
    finally show ?thesis .
  qed
  have "filter (\<lambda>x. \<not> in_range rng (ts x)) ?vs = take i ?vs @ drop j ?vs"
  proof -
    have "filter (\<lambda>x. \<not> in_range rng (ts x)) ?vs
        = filter (\<lambda>x. \<not> in_range rng (ts x)) (take i ?vs)
          @ filter (\<lambda>x. \<not> in_range rng (ts x)) (take (j - i) (drop i ?vs))
          @ filter (\<lambda>x. \<not> in_range rng (ts x)) (drop j ?vs)"
      by (subst split) simp
    also have "filter (\<lambda>x. \<not> in_range rng (ts x)) (take (j - i) (drop i ?vs)) = []"
      unfolding mid by (auto simp: filter_empty_conv)
    also have "filter (\<lambda>x. \<not> in_range rng (ts x)) (take i ?vs) = take i ?vs"
      unfolding tk by (auto simp: in_range_def intro!: filter_cong)
    also have "filter (\<lambda>x. \<not> in_range rng (ts x)) (drop j ?vs) = drop j ?vs"
      unfolding dj by (auto simp: in_range_def intro!: filter_cong)
    finally show ?thesis by simp
  qed
  then show ?thesis using lo hi empty by (simp add: clear_range_def Let_def i_def j_def)
qed

lemma clear_range_ok:
  assumes ok: "buffer_ok ts b" and ret: "clear_range ts rng b = Some (b', es)"
  shows "buffer_ok ts b'"
proof -
  have s: "samples_ok ts (tb_values b)" using ok by (simp add: buffer_ok_def)
  have "fst rng \<noteq> bot" "snd rng = bot \<or> fst rng \<le> snd rng"
    using ret by (auto simp: clear_range_def)
  note eq = trans [OF sym [OF clear_range_eq [OF s this]] ret]
  show ?thesis
  proof (cases "\<exists>x \<in> set (tb_values b). in_range rng (ts x)")
    case True
    let ?c = "b\<lparr>tb_values := filter (\<lambda>x. \<not> in_range rng (ts x)) (tb_values b)\<rparr>"
    have "buffer_ok ts ?c" using ok by (simp add: buffer_ok_def samples_ok_filter)
    moreover have "b' = fst (mark_dirty ts rng ?c)" using eq True by simp
    ultimately show ?thesis by (simp add: mark_dirty_ok)
  next
    case False
    then have "b' = b" using eq by simp
    then show ?thesis using ok by simp
  qed
qed

section \<open>\<open>ReplaceRange\<close>\<close>

definition replaced_samples ::
    "('v \<Rightarrow> 't::linorder) \<Rightarrow> 'v list \<Rightarrow> 'v list \<Rightarrow> 'v list" where
  "replaced_samples ts new xs =
     filter (\<lambda>x. ts x < ts (hd new)) xs @ new @ filter (\<lambda>x. ts (last new) < ts x) xs"

lemma replace_range_eq:
  assumes ok: "samples_ok ts (tb_values b)" and ne: "sanitize ts vals \<noteq> []"
  shows "replace_range ts vals b =
    trim_to_observed_ranges ts
        (b\<lparr>tb_values := replaced_samples ts (sanitize ts vals) (tb_values b)\<rparr>)
      \<bind> (\<lambda>b'. Some (mark_dirty ts (ts (hd (sanitize ts vals)), ts (last (sanitize ts vals))) b'))"
proof -
  let ?new = "sanitize ts vals" and ?vs = "tb_values b"
  have srt: "key_sorted ts ?vs" using ok by (simp add: samples_ok_def)
  have new: "key_sorted ts ?new" by (rule key_sorted_sanitize)
  have "(case find_insert_position ts ?vs (ts (hd ?new)) (ts (last ?new)) of
           Some i \<Rightarrow> Some (take i ?vs @ ?new @ drop i ?vs)
         | None \<Rightarrow> replace_subrange ts ?vs ?new) = Some (replaced_samples ts ?new ?vs)"
    using find_insert_position_Some [OF srt, of "ts (hd ?new)" "ts (last ?new)"]
      replace_subrange_eq [of ts ?vs ?new] ne srt new
    by (auto simp: replaced_samples_def key_sorted_imp_sorted split: option.splits)
  moreover have "is_time_sorted ts (replaced_samples ts ?new ?vs)"
    unfolding is_time_sorted_iff replaced_samples_def by (rule key_sorted_middle [OF srt new ne])
  ultimately show ?thesis using ne by (simp add: replace_range_def Let_def)
qed

lemma series_at_replaced:
  assumes "key_sorted ts new" "new \<noteq> []"
  shows "series_at ts (replaced_samples ts new xs) t =
    (if ts (hd new) \<le> t \<and> t \<le> ts (last new) then series_at ts new t else series_at ts xs t)"
proof -
  have out: "series_at ts new t = None" if "\<not> (ts (hd new) \<le> t \<and> t \<le> ts (last new))"
  proof -
    have "ts (hd new) \<le> ts x" if "x \<in> set new" for x
      using that assms by (cases new) (auto simp: less_imp_le)
    then show ?thesis using that key_sorted_le_last [OF assms(1)] by (auto simp: series_at_None)
  qed
  have "ts (hd new) \<le> ts (last new)"
    using assms by (cases new) (auto simp: less_imp_le)
  then show ?thesis using out
    by (auto simp: replaced_samples_def series_at_append not_le not_less
        series_at_filter [of ts "\<lambda>t. t < ts (hd new)"] series_at_filter [of ts "\<lambda>t. ts (last new) < t"]
        split: option.splits)
qed

lemma samples_ok_replaced:
  "samples_ok ts xs \<Longrightarrow> samples_ok ts new \<Longrightarrow> new \<noteq> [] \<Longrightarrow> samples_ok ts (replaced_samples ts new xs)"
  unfolding replaced_samples_def by (rule samples_ok_middle)

lemma replace_range_ok:
  assumes ok: "buffer_ok ts b" and ret: "replace_range ts vals b = Some (b', es)"
  shows "buffer_ok ts b'"
proof (cases "sanitize ts vals = []")
  case True
  with ret ok show ?thesis by (simp add: replace_range_def)
next
  case False
  let ?c = "b\<lparr>tb_values := replaced_samples ts (sanitize ts vals) (tb_values b)\<rparr>"
  have s: "samples_ok ts (tb_values b)" using ok by (simp add: buffer_ok_def)
  obtain c' where c': "trim_to_observed_ranges ts ?c = Some c'"
    and b': "(b', es) = mark_dirty ts (ts (hd (sanitize ts vals)), ts (last (sanitize ts vals))) c'"
    using ret unfolding replace_range_eq [OF s False] by (auto simp: bind_eq_Some_conv)
  have "buffer_ok ts ?c"
    using ok samples_ok_replaced [OF s samples_ok_sanitize False] by (simp add: buffer_ok_def)
  then have "buffer_ok ts c'" by (rule trimmed_ok [OF trim_trimmed [OF c']])
  then show ?thesis using mark_dirty_ok b' by (metis fst_conv)
qed

section \<open>Observers\<close>

lemma update_observed_ranges_ok:
  assumes "buffer_ok ts b" "update_observed_ranges L ts b = Some (b', es)"
  shows "buffer_ok ts b'"
proof -
  obtain observed where "trim_to_observed_ranges ts (b\<lparr>tb_observed := observed\<rparr>) = Some b'"
    using assms(2) by (auto simp: update_observed_ranges_def bind_eq_Some_conv)
  then have "trimmed ts (b\<lparr>tb_observed := observed\<rparr>) b'" by (rule trim_trimmed)
  moreover have "buffer_ok ts (b\<lparr>tb_observed := observed\<rparr>)"
    using assms(1) by (simp add: buffer_ok_def)
  ultimately show ?thesis by (rule trimmed_ok)
qed

lemma add_observer_ok:
  assumes ok: "buffer_ok ts b" and ret: "add_observer L ts ob rng b = Some (b', es)"
  shows "buffer_ok ts b'"
proof -
  let ?b1 = "if ob \<in> set (tb_observers b) then b
             else b\<lparr>tb_observers := tb_observers b @ [ob]\<rparr>"
  let ?b2 = "?b1\<lparr>tb_observer_ranges := smap_put (tb_observer_ranges ?b1) ob rng\<rparr>"
  have "update_observed_ranges L ts ?b2 = Some (b', es)"
    using ret by (simp add: add_observer_def Let_def)
  moreover have "buffer_ok ts ?b2" using ok by (simp add: buffer_ok_def smap_ok_put)
  ultimately show ?thesis by (metis update_observed_ranges_ok)
qed

lemma remove_observer_ok:
  assumes ok: "buffer_ok ts b" and ret: "remove_observer L ts ob b = Some (b', es)"
  shows "buffer_ok ts b'"
proof -
  have "buffer_ok ts (b\<lparr>tb_observers := removeAll ob (tb_observers b),
      tb_observer_ranges := smap_erase (tb_observer_ranges b) ob\<rparr>)"
    using ok by (simp add: buffer_ok_def smap_ok_erase distinct_removeAll)
  then show ?thesis using ret unfolding remove_observer_def by (rule update_observed_ranges_ok)
qed

lemma end_batch_ok: "buffer_ok ts b \<Longrightarrow> end_batch ts b = Some (b', es) \<Longrightarrow> buffer_ok ts b'"
  by (auto simp: end_batch_def buffer_ok_def Let_def split: option.splits if_splits)

end
