(* ===== verification/Buffer_Claims.thy ===== *)
theory Buffer_Claims
  imports Timed_Data_Buffer_Facts
begin

text \<open>
  The properties of the time-series algorithms, of gap finding and of the sample buffer, with
  concrete instances. In the instances a time is an \<open>enat\<close> (\<open>0\<close> the null time, \<open>\<infinity>\<close> the
  greatest one) and a sample is a pair of a time and a value.
\<close>

section \<open>Runs of operations on the buffer\<close>

inductive buffer_step ::
    "('t::{linorder,order_bot,order_top}) interval_lib \<Rightarrow> ('v \<Rightarrow> 't) \<Rightarrow> ('v \<Rightarrow> 'v \<Rightarrow> bool) \<Rightarrow>
     ('v, 't, 'o::linorder) tbuffer \<Rightarrow> ('v, 't, 'o) tbuffer \<Rightarrow> bool"
  for L ts lesser where
  step_add: "add_observer L ts ob rng b = Some (b', es) \<Longrightarrow> buffer_step L ts lesser b b'"
| step_remove: "remove_observer L ts ob b = Some (b', es) \<Longrightarrow> buffer_step L ts lesser b b'"
| step_ready: "add_ready_range L rng b = (b', es) \<Longrightarrow> buffer_step L ts lesser b b'"
| step_insert: "insert_or_update ts lesser v b = (b', ins, es) \<Longrightarrow> buffer_step L ts lesser b b'"
| step_replace: "replace_range ts vals b = Some (b', es) \<Longrightarrow> buffer_step L ts lesser b b'"
| step_clear: "clear_range ts rng b = Some (b', es) \<Longrightarrow> buffer_step L ts lesser b b'"
| step_begin: "buffer_step L ts lesser b (begin_update b)"
| step_end: "end_batch ts b = Some (b', es) \<Longrightarrow> buffer_step L ts lesser b b'"
| step_retention: "set_retention ts r b = Some b' \<Longrightarrow> buffer_step L ts lesser b b'"
| step_handler: "buffer_step L ts lesser b (b\<lparr>tb_has_handler := h\<rparr>)"

inductive buffer_reachable ::
    "('t::{linorder,order_bot,order_top}) interval_lib \<Rightarrow> ('v \<Rightarrow> 't) \<Rightarrow> ('v \<Rightarrow> 'v \<Rightarrow> bool) \<Rightarrow>
     ('v, 't, 'o::linorder) tbuffer \<Rightarrow> bool"
  for L ts lesser where
  reach_init: "buffer_reachable L ts lesser empty_buffer"
| reach_step: "buffer_reachable L ts lesser b \<Longrightarrow> buffer_step L ts lesser b b' \<Longrightarrow>
    buffer_reachable L ts lesser b'"

inductive_cases buffer_stepE: "buffer_step L ts lesser b b'"

lemma set_retention_ok:
  assumes "buffer_ok ts b" "set_retention ts r b = Some b'"
  shows "buffer_ok ts b'"
proof -
  have "buffer_ok ts (b\<lparr>tb_retention := r\<rparr>)" using assms(1) by (simp add: buffer_ok_def)
  then show ?thesis using assms(2) trimmed_ok trim_trimmed unfolding set_retention_def by blast
qed

lemma add_ready_range_ok:
  "buffer_ok ts b \<Longrightarrow> add_ready_range L rng b = (b', es) \<Longrightarrow> buffer_ok ts b'"
  by (auto simp: add_ready_range_def buffer_ok_def)

lemma begin_update_ok: "buffer_ok ts b \<Longrightarrow> buffer_ok ts (begin_update b)"
  by (auto simp: begin_update_def buffer_ok_def)

lemma set_handler_ok: "buffer_ok ts b \<Longrightarrow> buffer_ok ts (b\<lparr>tb_has_handler := h\<rparr>)"
  by (auto simp: buffer_ok_def)

lemma buffer_step_ok:
  assumes "buffer_step L ts lesser b b'" "buffer_ok ts b"
  shows "buffer_ok ts b'"
  using assms
proof (induction rule: buffer_step.induct)
  case (step_insert v b b' ins es)
  then have "b' = fst (insert_or_update ts lesser v b)" by simp
  with step_insert show ?case by (simp add: insert_or_update_ok)
qed (blast dest: add_observer_ok remove_observer_ok add_ready_range_ok replace_range_ok
      clear_range_ok begin_update_ok end_batch_ok set_retention_ok set_handler_ok)+

text \<open>C1: Whatever sequence of operations is applied to a fresh buffer (observing, readiness, inserts,
  batch replacements, clears, retention changes, nested batches), the samples stay strictly sorted by
  timestamp without null timestamps, the observer map stays a map and no coalesced range survives the
  outermost batch.\<close>

theorem buffer_reachable_ok:
  assumes "buffer_reachable L ts lesser b"
  shows "buffer_ok ts b"
  using assms
  by (induction rule: buffer_reachable.induct)
     (auto simp: buffer_ok_def empty_buffer_def default_retention_def dest: buffer_step_ok)

section \<open>Instances\<close>

type_synonym sample = "enat \<times> nat"

definition ex_lib :: "enat interval_lib" where
  "ex_lib = \<lparr>iv_valid = (\<lambda>r. fst r \<le> snd r), iv_empty = (\<lambda>r. fst r = snd r),
     iv_all_valid = separated, iv_union = (\<lambda>rs r. rs @ [r]),
     iv_contains = (\<lambda>a b. fst a \<le> fst b \<and> snd b \<le> snd a),
     iv_list_contains = (\<lambda>rs r. \<exists>a \<in> set rs. fst a \<le> fst r \<and> snd r \<le> snd a)\<rparr>"

definition ex_buffer :: "(sample, enat, nat) tbuffer" where
  "ex_buffer = empty_buffer\<lparr>tb_observers := [7], tb_observer_ranges := [(7, (1, \<infinity>))],
     tb_observed := [(1, \<infinity>)], tb_values := [(2, 20), (4, 40), (6, 60)]\<rparr>"

lemma ex_buffer_ok: "samples_ok fst (tb_values ex_buffer)"
  by (simp add: ex_buffer_def samples_ok_def bot_enat_def)

theorem buffer_reachable_ok_witness:
  "buffer_ok fst (fst (insert_or_update fst (\<lambda>a b. False) (3, 30)
     (empty_buffer :: (sample, enat, nat) tbuffer)))"
proof (rule buffer_reachable_ok)
  let ?b = "empty_buffer :: (sample, enat, nat) tbuffer"
  obtain b' ins es where s: "insert_or_update fst (\<lambda>a b. False) (3, 30) ?b = (b', ins, es)"
    by (metis prod_cases3)
  have "buffer_reachable ex_lib fst (\<lambda>a b. False) b'"
    by (rule reach_step [OF reach_init step_insert [OF s]])
  then show "buffer_reachable ex_lib fst (\<lambda>a b. False)
      (fst (insert_or_update fst (\<lambda>a b. False) (3, 30) ?b))" by (simp add: s)
qed

section \<open>Searching a run\<close>

text \<open>On a time-sorted run \<open>GetValueAt\<close> returns the last sample at or before the given time, and
  nothing exactly when the time precedes every sample.\<close>

theorem get_value_at_correct:
  assumes "key_sorted ts xs"
  shows "(case get_value_at ts xs t of
            Some i \<Rightarrow> i < length xs \<and> ts (xs ! i) \<le> t
              \<and> (\<forall>j < length xs. ts (xs ! j) \<le> t \<longrightarrow> j \<le> i)
          | None \<Rightarrow> \<forall>x \<in> set xs. t < ts x)"
proof (cases "get_value_at ts xs t")
  case None
  then show ?thesis using get_value_at_None [OF assms] by simp
next
  case (Some i)
  then show ?thesis using get_value_at_Some [OF assms Some] by (auto simp: not_le dest: leD)
qed

theorem get_value_at_correct_witness:
  "get_value_at fst [(2::enat, 20::nat), (4, 40), (6, 60)] 5 = Some 1 \<and>
   fst ([(2::enat, 20::nat), (4, 40), (6, 60)] ! 1) \<le> 5"
proof -
  let ?xs = "[(2::enat, 20::nat), (4, 40), (6, 60)]"
  have e: "get_value_at fst ?xs 5 = Some 1" by (simp add: get_value_at_def lower_bound_def)
  have "key_sorted fst ?xs" by simp
  from get_value_at_correct [OF this, of 5] e show ?thesis by auto
qed

text \<open>\<open>ReplaceSubrange\<close> never fails one of its checks on a sorted run and a sorted non-empty batch,
  and its element-wise overwrite with the following insert or erase yields exactly the old samples
  before the batch, the batch, and the old samples after it.\<close>

theorem replace_subrange_correct:
  assumes "sorted (map ts vals)" "sorted (map ts updates)" "updates \<noteq> []"
  shows "replace_subrange ts vals updates =
    Some (filter (\<lambda>x. ts x < ts (hd updates)) vals @ updates
           @ filter (\<lambda>x. ts (last updates) < ts x) vals)"
  using assms by (rule replace_subrange_eq)

theorem replace_subrange_correct_witness:
  "replace_subrange fst [(2::enat, 20::nat), (4, 40), (6, 60)] [(3, 1), (5, 2)]
     = Some [(2, 20), (3, 1), (5, 2), (6, 60)]"
  using replace_subrange_correct [of fst "[(2::enat, 20::nat), (4, 40), (6, 60)]" "[(3, 1), (5, 2)]"]
  by simp

section \<open>Gaps\<close>

text \<open>A gap ends where its observed range ends or where a ready range begins.\<close>

lemma find_first_gap_loop_end:
  "find_first_gap_loop ranges js = Some (a, b) \<Longrightarrow> separated ranges \<Longrightarrow> separated js \<Longrightarrow>
   \<exists>i \<in> set ranges. fst i \<le> a \<and> b \<le> snd i \<and> (b = snd i \<or> (\<exists>j \<in> set js. fst j = b))"
proof (induction ranges js rule: find_first_gap_loop.induct)
  case (2 i ivs js)
  let ?D = "dropWhile (\<lambda>j. snd j \<le> fst i) js"
  have sub: "set ?D \<subseteq> set js" by (metis set_dropWhileD subsetI)
  note step = "2.prems"(1) [unfolded find_first_gap_loop.simps]
  show ?case
  proof (cases ?D)
    case Nil
    then have "i = (a, b)" using step by (simp only: list.simps option.inject)
    then show ?thesis by simp
  next
    case (Cons j js')
    note step = step [unfolded Cons list.simps]
    have j: "fst i < snd j" using Cons by (metis dropWhile_eq_Cons_conv not_le)
    have js: "j \<in> set js" "set js' \<subseteq> set js" using sub Cons by auto
    consider "fst j > fst i" | "\<not> fst j > fst i" "snd j < snd i" | "\<not> fst j > fst i" "\<not> snd j < snd i" by blast
    then show ?thesis
    proof cases
      case 1
      then have "a = fst i" "b = min (snd i) (fst j)" using step by simp_all
      then show ?thesis using js by (auto simp: min_def)
    next
      case 2
      then have "a = snd j" "b = (case js' of [] \<Rightarrow> snd i | j' # _ \<Rightarrow> if fst j' < snd i then fst j' else snd i)"
        using step by (simp_all add: Let_def)
      then show ?thesis using js j by (cases js') auto
    next
      case 3
      then have rest: "find_first_gap_loop ivs (j # js') = Some (a, b)" using step by simp
      have "separated ivs" "separated (j # js')"
        using "2.prems"(2,3) separated_dropWhile [of js "\<lambda>j. snd j \<le> fst i"] Cons by (simp_all add: separated_Cons)
      from "2.IH" [OF Cons 3 rest this] show ?thesis using js by fastforce
    qed
  qed
qed simp

text \<open>C32: \<open>FindFirstGap\<close> over separated observed and ready ranges returns the first maximal piece of an observed range
  that is not ready: it is not empty, meets no ready range, everything observed before it is ready, and it ends with its
  observed range or where a ready range begins. It returns nothing only when everything observed is ready.\<close>

theorem find_first_gap_correct:
  assumes "iv_all_valid L ranges" "iv_all_valid L ready" "separated ranges" "separated ready"
  shows "\<exists>gap. find_first_gap L ranges ready = Some gap \<and>
    (case gap of
       Some (a, b) \<Rightarrow> a < b \<and> (\<exists>i \<in> set ranges. fst i \<le> a \<and> b \<le> snd i \<and> (b = snd i \<or> covers ready b))
         \<and> (\<forall>x. a \<le> x \<and> x < b \<longrightarrow> \<not> covers ready x)
         \<and> (\<forall>x. x < a \<and> covers ranges x \<longrightarrow> covers ready x)
     | None \<Rightarrow> \<forall>x. covers ranges x \<longrightarrow> covers ready x)"
proof (cases "find_first_gap_loop ranges ready")
  case None
  then show ?thesis using assms find_first_gap_loop_None [OF assms(3,4) None]
    by (simp add: find_first_gap_def)
next
  case (Some p)
  obtain a b where p: "p = (a, b)" by force
  note g = find_first_gap_loop_Some [OF assms(3,4) Some [unfolded p]]
  have "\<not> covers ready x" if "a \<le> x" "x < b" for x
    using gap_not_covered [OF assms(3,4) Some [unfolded p] that] by simp
  moreover have "covers ready b" if "j \<in> set ready" "fst j = b" for j
    using that separated_proper [OF assms(4) that(1)] by (auto simp: covers_def)
  ultimately show ?thesis
    using assms(1,2) Some p g(1,4) find_first_gap_loop_end [OF Some [unfolded p] assms(3,4)]
    by (auto simp: find_first_gap_def)
qed

theorem find_first_gap_correct_witness:
  "find_first_gap ex_lib [(1, 5), (7, 20)] [(1, 3), (4, 9)] = Some (Some (3, 4))
   \<and> \<not> covers [(1, 3), (4, 9)] (3 :: enat)"
proof -
  let ?o = "[(1, 5), (7, 20)] :: enat interval list" and ?r = "[(1, 3), (4, 9)] :: enat interval list"
  have s: "separated ?o" "separated ?r" by (simp_all add: separated_def)
  have e: "find_first_gap ex_lib ?o ?r = Some (Some (3, 4))"
    using s by (simp add: find_first_gap_def ex_lib_def)
  have "iv_all_valid ex_lib ?o" "iv_all_valid ex_lib ?r" using s by (simp_all add: ex_lib_def)
  from find_first_gap_correct [OF this s] e show ?thesis by auto
qed

text \<open>\<open>FindLastGap\<close> is the mirror image: the gap it returns is a non-empty part of one observed range
  that meets no ready range and from whose end on everything observed is ready.\<close>

theorem find_last_gap_correct:
  assumes "iv_all_valid L ranges" "iv_all_valid L ready" "separated ranges" "separated ready"
  shows "\<exists>gap. find_last_gap L ranges ready = Some gap \<and>
    (case gap of
       Some (a, b) \<Rightarrow> a < b \<and> (\<exists>i \<in> set ranges. fst i \<le> a \<and> b \<le> snd i)
         \<and> (\<forall>j \<in> set ready. b \<le> fst j \<or> snd j \<le> a)
         \<and> (\<forall>x. b \<le> x \<and> covers ranges x \<longrightarrow> covers ready x)
     | None \<Rightarrow> \<forall>x. covers ranges x \<longrightarrow> covers ready x)"
  using find_last_gap_loop_props [of "rev ranges" "rev ready"] assms
  by (auto simp: find_last_gap_def split: option.splits)

theorem find_last_gap_correct_witness:
  "find_last_gap ex_lib [(1, 5), (7, 20)] [(1, 3), (4, 9)] = Some (Some (9, 20))
   \<and> (9 :: enat) < 20"
proof -
  let ?o = "[(1, 5), (7, 20)] :: enat interval list" and ?r = "[(1, 3), (4, 9)] :: enat interval list"
  have s: "separated ?o" "separated ?r" by (simp_all add: separated_def)
  have e: "find_last_gap ex_lib ?o ?r = Some (Some (9, 20))"
    using s by (simp add: find_last_gap_def ex_lib_def)
  have "iv_all_valid ex_lib ?o" "iv_all_valid ex_lib ?r" using s by (simp_all add: ex_lib_def)
  from find_last_gap_correct [OF this s] e show ?thesis by auto
qed

text \<open>\<open>GetReadyFrom\<close> never answers with a time before the end of the range it is asked about: the
  search starts at the first ready range that begins at or after \<open>range.second\<close>. For the ranges
  \<open>{from, kTimedDataCurrentOnly}\<close> the callers pass it always answers \<open>kTimedDataCurrentOnly\<close>, even
  when a ready range covers all of them.\<close>

theorem get_ready_from_never_ready:
  "snd rng \<le> get_ready_from ready rng \<and> get_ready_from ready (a, top) = top"
  using get_ready_from_ge [of rng ready] get_ready_from_ge [of "(a, top)" ready]
  by (simp add: top_unique)

section \<open>Mutating the buffer\<close>

lemma insert_or_update_series:
  assumes "samples_ok ts (tb_values b)"
    and "insert_or_update ts lesser v b = (b', inserted, es)"
  shows "inserted = (ts v \<noteq> bot \<and>
      (case series_at ts (tb_values b) (ts v) of None \<Rightarrow> True | Some x \<Rightarrow> \<not> lesser v x))"
    and "series_at ts (tb_values b') =
      (if inserted then (series_at ts (tb_values b))(ts v \<mapsto> v) else series_at ts (tb_values b))"
    and "samples_ok ts (tb_values b')"
proof -
  note f = insert_or_update_fields [OF assms(1), of lesser v]
  have srt: "key_sorted ts (tb_values b)" using assms(1) by (simp add: samples_ok_def)
  have i: "inserted = insert_accepted ts lesser v (tb_values b)" using f(1) assms(2) by simp
  show "inserted = (ts v \<noteq> bot \<and>
      (case series_at ts (tb_values b) (ts v) of None \<Rightarrow> True | Some x \<Rightarrow> \<not> lesser v x))"
  proof (cases "series_at ts (tb_values b) (ts v)")
    case None
    then have "\<forall>x \<in> set (tb_values b). ts x \<noteq> ts v" by (simp only: series_at_None)
    then show ?thesis unfolding i insert_accepted_def None by auto
  next
    case (Some y)
    then have "y \<in> set (tb_values b)" "ts y = ts v" by (auto dest: series_at_Some)
    then show ?thesis unfolding i insert_accepted_def Some
      using key_sorted_inj [OF srt] by fastforce
  qed
  show "series_at ts (tb_values b') =
      (if inserted then (series_at ts (tb_values b))(ts v \<mapsto> v) else series_at ts (tb_values b))"
    using f(2) assms(2) i by (auto simp: series_at_insert fun_eq_iff)
  show "samples_ok ts (tb_values b')"
    using f(2) assms i by (auto simp: samples_ok_insert insert_accepted_def)
qed

text \<open>C6: \<open>InsertOrUpdate\<close> implements an update of the abstract series: it stores the sample under its
  timestamp, unless the timestamp is null or the stored sample sorts later, leaves every other
  timestamp alone, reports whether it stored, and keeps the run sorted.\<close>

theorem insert_or_update_refines:
  assumes "samples_ok ts (tb_values b)"
    and "insert_or_update ts lesser v b = (b', inserted, es)"
  shows "inserted = (ts v \<noteq> bot \<and>
      (case series_at ts (tb_values b) (ts v) of None \<Rightarrow> True | Some x \<Rightarrow> \<not> lesser v x))
    \<and> series_at ts (tb_values b') =
      (if inserted then (series_at ts (tb_values b))(ts v \<mapsto> v) else series_at ts (tb_values b))
    \<and> samples_ok ts (tb_values b')"
  using insert_or_update_series [OF assms] by blast

theorem insert_or_update_refines_witness:
  "series_at fst (tb_values (fst (insert_or_update fst (\<lambda>a b. False) (4, 41) ex_buffer))) 4
     = Some (4, 41)"
proof -
  obtain b' i es where e: "insert_or_update fst (\<lambda>a b. False) (4, 41) ex_buffer = (b', i, es)"
    by (metis prod_cases3)
  note r = insert_or_update_refines [OF ex_buffer_ok e]
  have "i" using r by (simp add: bot_enat_def split: option.splits)
  then show ?thesis using r e by simp
qed

lemma replace_range_parts:
  assumes "samples_ok ts (tb_values b)" "sanitize ts vals \<noteq> []"
    and "0 < max_samples (tb_retention b)" "observed_window (tb_retention b)"
    and "tb_observed b \<noteq> []"
    and "snd (last (tb_observed b)) = bot \<or> fst (hd (tb_observed b)) \<le> snd (last (tb_observed b))"
  defines "all \<equiv> replaced_samples ts (sanitize ts vals) (tb_values b)"
  defines "kept \<equiv> filter (\<lambda>x. in_range (fst (hd (tb_observed b)), snd (last (tb_observed b))) (ts x)) all"
  shows "\<exists>b' es. replace_range ts vals b = Some (b', es)
      \<and> tb_values b' = drop (length kept - max_samples (tb_retention b)) kept"
    and "series_at ts all t =
      (if ts (hd (sanitize ts vals)) \<le> t \<and> t \<le> ts (last (sanitize ts vals))
       then (if t = bot then None else series_at ts vals t)
       else series_at ts (tb_values b) t)"
proof -
  let ?c = "b\<lparr>tb_values := all\<rparr>"
  have ok: "samples_ok ts (tb_values ?c)"
    using samples_ok_replaced [OF assms(1) samples_ok_sanitize assms(2)] by (simp add: all_def)
  have "\<exists>c'. trim_to_observed_ranges ts ?c = Some c'
      \<and> tb_values c' = drop (length kept - max_samples (tb_retention b)) kept"
  proof (rule trim_to_observed_ranges_eq [OF ok])
    show "tb_observed ?c = [] \<or> snd (last (tb_observed ?c)) = bot
        \<or> fst (hd (tb_observed ?c)) \<le> snd (last (tb_observed ?c))" using assms(6) by simp
    show "0 < max_samples (tb_retention ?c)" using assms(3) by simp
  qed (use assms(4,5) in \<open>auto simp: kept_def\<close>)
  then obtain c' where c': "trim_to_observed_ranges ts ?c = Some c'"
    and v: "tb_values c' = drop (length kept - max_samples (tb_retention b)) kept" by blast
  let ?r = "mark_dirty ts (ts (hd (sanitize ts vals)), ts (last (sanitize ts vals))) c'"
  have "replace_range ts vals b = Some (fst ?r, snd ?r)"
    using replace_range_eq [OF assms(1,2)] c' by (simp add: all_def)
  then show "\<exists>b' es. replace_range ts vals b = Some (b', es)
      \<and> tb_values b' = drop (length kept - max_samples (tb_retention b)) kept"
    using v by (intro exI conjI) (assumption, simp)
  show "series_at ts all t =
      (if ts (hd (sanitize ts vals)) \<le> t \<and> t \<le> ts (last (sanitize ts vals))
       then (if t = bot then None else series_at ts vals t)
       else series_at ts (tb_values b) t)"
    unfolding all_def series_at_replaced [OF key_sorted_sanitize assms(2)] series_at_sanitize ..
qed

text \<open>C12: \<open>ReplaceRange\<close> with a raw batch whose samples have some timestamp: the batch is sanitized to a
  strictly sorted run in which the first sample of each timestamp wins, everything the run spans is
  replaced by it, and the result is cut to the observed hull and to the newest samples the cap
  allows; none of the checks fails.\<close>

theorem replace_range_correct:
  assumes "samples_ok ts (tb_values b)" "sanitize ts vals \<noteq> []"
    and "0 < max_samples (tb_retention b)" "observed_window (tb_retention b)"
    and "tb_observed b \<noteq> []"
    and "snd (last (tb_observed b)) = bot \<or> fst (hd (tb_observed b)) \<le> snd (last (tb_observed b))"
  shows "let new = sanitize ts vals; all = replaced_samples ts new (tb_values b);
      window = (fst (hd (tb_observed b)), snd (last (tb_observed b)));
      kept = filter (\<lambda>x. in_range window (ts x)) all in
    (\<exists>b' es. replace_range ts vals b = Some (b', es)
      \<and> tb_values b' = drop (length kept - max_samples (tb_retention b)) kept)
    \<and> (\<forall>t. series_at ts all t =
        (if ts (hd new) \<le> t \<and> t \<le> ts (last new)
         then (if t = bot then None else series_at ts vals t)
         else series_at ts (tb_values b) t))"
  using replace_range_parts [OF assms] unfolding Let_def by blast

theorem replace_range_correct_witness:
  "\<exists>b' es. replace_range fst [(5, 51), (3, 31), (5, 52)] ex_buffer = Some (b', es)
     \<and> tb_values b' = [(2, 20), (3, 31), (5, 51), (6, 60)]"
proof -
  let ?vals = "[(5, 51), (3, 31), (5, 52)] :: sample list"
  have s: "sanitize fst ?vals = [(3, 31), (5, 51)]"
    by (simp add: sanitize_def bot_enat_def)
  have ne: "sanitize fst ?vals \<noteq> []" by (simp add: s)
  have h: "0 < max_samples (tb_retention ex_buffer)" "observed_window (tb_retention ex_buffer)"
    "tb_observed ex_buffer \<noteq> []"
    "snd (last (tb_observed ex_buffer)) = bot
      \<or> fst (hd (tb_observed ex_buffer)) \<le> snd (last (tb_observed ex_buffer))"
    by (simp_all add: ex_buffer_def empty_buffer_def default_retention_def)
  show ?thesis using replace_range_correct [OF ex_buffer_ok ne h] unfolding s Let_def
    by (simp add: replaced_samples_def ex_buffer_def empty_buffer_def default_retention_def
        in_range_def)
qed

text \<open>\<open>ClearRange\<close> on an ordered range removes exactly the samples whose timestamp lies in it (a null
  end means to the end of the series) and passes its checks.\<close>

theorem clear_range_correct:
  assumes "samples_ok ts (tb_values b)" "fst rng \<noteq> bot" "snd rng = bot \<or> fst rng \<le> snd rng"
  shows "\<exists>b' es. clear_range ts rng b = Some (b', es) \<and> series_at ts (tb_values b') t =
    (if in_range rng t then None else series_at ts (tb_values b) t)"
proof (cases "\<exists>x \<in> set (tb_values b). in_range rng (ts x)")
  case True
  let ?r = "mark_dirty ts rng (b\<lparr>tb_values := filter (\<lambda>x. \<not> in_range rng (ts x)) (tb_values b)\<rparr>)"
  have "clear_range ts rng b = Some (fst ?r, snd ?r)"
    using clear_range_eq [OF assms] True by simp
  moreover have "series_at ts (tb_values (fst ?r)) t =
    (if in_range rng t then None else series_at ts (tb_values b) t)"
    using series_at_filter [of ts "\<lambda>t. \<not> in_range rng t"] by simp
  ultimately show ?thesis by blast
next
  case False
  then have "clear_range ts rng b = Some (b, [])" using clear_range_eq [OF assms] by simp
  moreover have "series_at ts (tb_values b) t = None" if "in_range rng t"
    using False that by (auto simp: series_at_None)
  ultimately show ?thesis by auto
qed

theorem clear_range_correct_witness:
  "\<exists>b' es. clear_range fst (3, 5) ex_buffer = Some (b', es) \<and> series_at fst (tb_values b') 4 = None"
proof -
  have h: "fst (3 :: enat, 5 :: enat) \<noteq> bot" "snd (3 :: enat, 5 :: enat) = bot
      \<or> fst (3 :: enat, 5 :: enat) \<le> snd (3, 5)" by (simp_all add: bot_enat_def)
  show ?thesis using clear_range_correct [OF ex_buffer_ok h, of 4] by (simp add: in_range_def)
qed

section \<open>Batches\<close>

text \<open>A time is inside the range a batch will report.\<close>

definition dirty_at :: "('v, 't::{linorder,order_bot}, 'o) tbuffer \<Rightarrow> 't \<Rightarrow> bool" where
  "dirty_at b t \<longleftrightarrow> (\<exists>d. tb_dirty b = Some d \<and> in_range d t)"

fun insert_all ::
    "('v \<Rightarrow> 't::{linorder,order_bot}) \<Rightarrow> ('v \<Rightarrow> 'v \<Rightarrow> bool) \<Rightarrow> 'v list \<Rightarrow> ('v, 't, 'o) tbuffer \<Rightarrow>
     ('v, 't, 'o) tbuffer \<times> ('v, 'o) tb_event list" where
  "insert_all ts lesser [] b = (b, [])"
| "insert_all ts lesser (v # vs) b =
     (case insert_or_update ts lesser v b of
        (b', _, es) \<Rightarrow> case insert_all ts lesser vs b' of (b'', es') \<Rightarrow> (b'', es @ es'))"

lemma insert_in_batch:
  assumes ok: "samples_ok ts (tb_values b)" and depth: "0 < tb_batch_depth b"
    and ret: "insert_or_update ts lesser v b = (b', i, es)"
  shows "es = [] \<and> tb_batch_depth b' = tb_batch_depth b \<and> tb_observers b' = tb_observers b
    \<and> samples_ok ts (tb_values b') \<and> (\<forall>t. dirty_at b t \<longrightarrow> dirty_at b' t)
    \<and> (\<forall>x \<in> set (tb_values b') - set (tb_values b). dirty_at b' (ts x))"
proof (cases "insert_accepted ts lesser v (tb_values b)")
  case True
  let ?d = "case tb_dirty b of Some d \<Rightarrow> union_range d (ts v, ts v) | None \<Rightarrow> (ts v, ts v)"
  have b': "b' = b\<lparr>tb_values := insert_sample ts v (tb_values b), tb_dirty := Some ?d\<rparr>" and e: "es = []"
    using ret depth unfolding insert_or_update_eq [OF ok]
    by (auto simp: True mark_dirty_def split: option.splits)
  have "in_range (ts v, ts v) (ts v)" by (simp add: in_range_def)
  then have d: "in_range ?d (ts v)" by (auto simp: in_union_range split: option.splits)
  have keep: "in_range ?d t" if "dirty_at b t" for t
    using that by (auto simp: dirty_at_def in_union_range split: option.splits)
  have "samples_ok ts (insert_sample ts v (tb_values b))"
    using True ok by (auto simp: insert_accepted_def intro: samples_ok_insert)
  then show ?thesis using b' e d keep
    by (auto simp: dirty_at_def insert_sample_def)
next
  case False
  then have "b' = b \<and> es = []" using ret unfolding insert_or_update_eq [OF ok] by simp
  then show ?thesis using ok by simp
qed

lemma insert_all_in_batch:
  assumes "samples_ok ts (tb_values b)" "0 < tb_batch_depth b"
    and "insert_all ts lesser vs b = (b', es)"
  shows "es = [] \<and> tb_batch_depth b' = tb_batch_depth b \<and> tb_observers b' = tb_observers b
    \<and> samples_ok ts (tb_values b') \<and> (\<forall>t. dirty_at b t \<longrightarrow> dirty_at b' t)
    \<and> (\<forall>x \<in> set (tb_values b') - set (tb_values b). dirty_at b' (ts x))"
  using assms
proof (induction vs arbitrary: b es)
  case (Cons v vs)
  obtain c i es1 where c: "insert_or_update ts lesser v b = (c, i, es1)" by (metis prod_cases3)
  obtain es2 where d: "insert_all ts lesser vs c = (b', es2)" and es: "es = es1 @ es2"
    using Cons.prems(3) c by (auto split: prod.splits)
  note step = insert_in_batch [OF Cons.prems(1,2) c]
  have "samples_ok ts (tb_values c)" "0 < tb_batch_depth c" using step Cons.prems(2) by auto
  from Cons.IH [OF this d] step es show ?case by auto
qed simp

text \<open>C39: Any number of inserts made inside one \<open>BeginUpdate\<close> scope stay silent, and closing the
  outermost scope notifies every observer at most once, with one slice that holds every sample the
  inserts left in the buffer.\<close>

theorem batch_coalesces:
  assumes "buffer_ok ts b" "tb_batch_depth b = 0"
    and "insert_all ts lesser vs (begin_update b) = (b1, es1)"
  shows "es1 = [] \<and> (\<exists>b2 es2. end_batch ts b1 = Some (b2, es2) \<and> tb_batch_depth b2 = 0
    \<and> (es2 = [] \<and> set (tb_values b1) \<subseteq> set (tb_values b)
       \<or> (\<exists>slice. es2 = map (\<lambda>ob. Updates ob slice) (tb_observers b)
            \<and> set (tb_values b1) - set (tb_values b) \<subseteq> set slice)))"
proof -
  have ok: "samples_ok ts (tb_values (begin_update b))" "0 < tb_batch_depth (begin_update b)"
    using assms(1) by (auto simp: buffer_ok_def begin_update_def)
  note r = insert_all_in_batch [OF ok assms(3)]
  have depth: "tb_batch_depth b1 = 1" using r assms(2) by (simp add: begin_update_def)
  have new: "dirty_at b1 (ts x)" if "x \<in> set (tb_values b1)" "x \<notin> set (tb_values b)" for x
    using r that by (auto simp: begin_update_def)
  have obs: "tb_observers b1 = tb_observers b" using r by (simp add: begin_update_def)
  show ?thesis
  proof (cases "tb_dirty b1")
    case None
    then have "set (tb_values b1) \<subseteq> set (tb_values b)" using new by (auto simp: dirty_at_def)
    then show ?thesis using r None depth by (auto simp: end_batch_def)
  next
    case (Some d)
    let ?b = "b1\<lparr>tb_batch_depth := 0, tb_dirty := None\<rparr>"
    let ?slice = "filter (\<lambda>x. in_range d (ts x)) (tb_values b1)"
    have e: "end_batch ts b1 = Some (?b, notify_range ts d ?b)"
      using Some depth by (simp add: end_batch_def Let_def)
    have "sorted (map ts (tb_values ?b))" using r by (simp add: samples_ok_sorted)
    from notify_range_eq [OF this, of d] have n: "notify_range ts d ?b =
        (if ?slice = [] then [] else map (\<lambda>ob. Updates ob ?slice) (tb_observers b))"
      by (simp add: obs Let_def)
    have "set (tb_values b1) - set (tb_values b) \<subseteq> set ?slice"
      using new Some by (auto simp: dirty_at_def)
    then have "notify_range ts d ?b = [] \<and> set (tb_values b1) \<subseteq> set (tb_values b)
       \<or> (\<exists>slice. notify_range ts d ?b = map (\<lambda>ob. Updates ob slice) (tb_observers b)
            \<and> set (tb_values b1) - set (tb_values b) \<subseteq> set slice)"
      using n by (cases "?slice = []") (auto simp del: set_filter)
    moreover have "es1 = []" using r by simp
    ultimately show ?thesis using e by simp
  qed
qed

theorem batch_coalesces_witness:
  "\<exists>b1 b2 es2. insert_all fst (\<lambda>a b. False) [(3, 30), (5, 50)] (begin_update ex_buffer) = (b1, [])
     \<and> end_batch fst b1 = Some (b2, es2)"
proof -
  have ok: "buffer_ok fst ex_buffer" "tb_batch_depth ex_buffer = 0"
    using ex_buffer_ok by (simp_all add: buffer_ok_def ex_buffer_def empty_buffer_def)
  obtain b1 es1 where "insert_all fst (\<lambda>a b. False) [(3, 30), (5, 50)] (begin_update ex_buffer)
      = (b1, es1)" by force
  from batch_coalesces [OF ok this] this show ?thesis by auto
qed

section \<open>Eviction\<close>

text \<open>C25: With a positive sample cap, a window of observed ranges and an observed hull that is in order, as ranges that the
  buffer accepts make it, \<open>TrimToObservedRanges\<close> passes its checks and keeps exactly the newest samples, up to the
  cap, of those inside the hull of the observed ranges (none when nothing is observed), and never
  reports more as ready than was ready.\<close>

theorem trim_to_observed_ranges_correct:
  assumes "samples_ok ts (tb_values b)" "0 < max_samples (tb_retention b)"
    and "observed_window (tb_retention b)"
    and "tb_observed b = [] \<or> snd (last (tb_observed b)) = bot
        \<or> fst (hd (tb_observed b)) \<le> snd (last (tb_observed b))"
  defines "kept \<equiv> filter (\<lambda>x. tb_observed b \<noteq> []
      \<and> in_range (fst (hd (tb_observed b)), snd (last (tb_observed b))) (ts x)) (tb_values b)"
  shows "\<exists>b'. trim_to_observed_ranges ts b = Some b'
    \<and> tb_values b' = drop (length kept - max_samples (tb_retention b)) kept
    \<and> length (tb_values b') \<le> max_samples (tb_retention b)
    \<and> (\<forall>x. covers (tb_ready b') x \<longrightarrow> covers (tb_ready b) x)"
proof (rule trim_to_observed_ranges_eq [OF assms(1,4,2)])
  fix r
  assume "trim_to_observed_ranges ts b = Some (b\<lparr>tb_values :=
      drop (length (filter (\<lambda>x. \<not> observed_window (tb_retention b) \<or> tb_observed b \<noteq> []
          \<and> in_range (fst (hd (tb_observed b)), snd (last (tb_observed b))) (ts x)) (tb_values b))
        - max_samples (tb_retention b))
       (filter (\<lambda>x. \<not> observed_window (tb_retention b) \<or> tb_observed b \<noteq> []
          \<and> in_range (fst (hd (tb_observed b)), snd (last (tb_observed b))) (ts x)) (tb_values b)),
      tb_ready := r\<rparr>)"
    and "\<And>x. covers r x \<Longrightarrow> covers (tb_ready b) x"
  then show ?thesis using assms(3) by (simp add: kept_def)
qed

theorem trim_to_observed_ranges_correct_witness:
  "\<exists>b'. trim_to_observed_ranges fst (ex_buffer\<lparr>tb_observed := [(3, 5)]\<rparr>) = Some b'
     \<and> tb_values b' = [(4, 40)]"
proof -
  let ?b = "ex_buffer\<lparr>tb_observed := [(3, 5)]\<rparr>"
  have h: "samples_ok fst (tb_values ?b)" "0 < max_samples (tb_retention ?b)"
    "observed_window (tb_retention ?b)"
    "tb_observed ?b = [] \<or> snd (last (tb_observed ?b)) = bot
        \<or> fst (hd (tb_observed ?b)) \<le> snd (last (tb_observed ?b))"
    using ex_buffer_ok by (simp_all add: ex_buffer_def empty_buffer_def default_retention_def)
  show ?thesis using trim_to_observed_ranges_correct [OF h]
    by (auto simp: ex_buffer_def empty_buffer_def default_retention_def in_range_def bot_enat_def)
qed

end
