(* ===== verification/Event_Ack_Queue.thy ===== *)
theory Event_Ack_Queue
  imports Prelude
begin

text \<open>
  \<open>events/event_ack_queue.cpp\<close>: acknowledgements wait in a queue and at most
  \<open>kMaxParallelAcks\<close> of them run at a time. \<open>PostAckPendingEvents\<close> dispatches a task on the
  executor; the task is the separate step \<open>RunTask\<close>, which may come at any later point. The flag
  \<open>ack_pending_\<close> is set exactly when the task is dispatched and cleared by the task, so the task is
  in flight exactly while the flag is set. The set of running identifiers is a set, the service
  context captured when the channel opens a value of any type. Outputs are the dispatches and the
  acknowledge calls on the method service, in order; a failed check is \<open>None\<close>.
\<close>

record ('i, 'c) ack_queue =
  aq_pending :: "'i list"
  aq_running :: "'i set"
  aq_ack_pending :: bool
  aq_context :: 'c

datatype ('i, 'c) aq_out = DispatchTask | CallAcknowledge "'i list" 'c

definition max_parallel_acks :: nat where
  "max_parallel_acks = 5"

definition empty_queue :: "'c \<Rightarrow> ('i, 'c) ack_queue" where
  "empty_queue c = \<lparr>aq_pending = [], aq_running = {}, aq_ack_pending = False, aq_context = c\<rparr>"

definition is_acking :: "('i, 'c) ack_queue \<Rightarrow> bool" where
  "is_acking q \<longleftrightarrow> aq_pending q \<noteq> [] \<or> aq_running q \<noteq> {}"

definition on_channel_opened :: "'c \<Rightarrow> ('i, 'c) ack_queue \<Rightarrow> ('i, 'c) ack_queue" where
  "on_channel_opened c q = q\<lparr>aq_context := c\<rparr>"

definition queue_reset :: "('i, 'c) ack_queue \<Rightarrow> ('i, 'c) ack_queue" where
  "queue_reset q = q\<lparr>aq_running := {}, aq_pending := []\<rparr>"

definition post_ack_pending_events ::
    "('i, 'c) ack_queue \<Rightarrow> (('i, 'c) ack_queue \<times> ('i, 'c) aq_out list) option" where
  "post_ack_pending_events q =
     (if card (aq_running q) \<ge> max_parallel_acks \<or> aq_pending q = []
      then check (\<not> aq_ack_pending q) \<bind> (\<lambda>_. Some (q, []))
      else if \<not> aq_ack_pending q then Some (q\<lparr>aq_ack_pending := True\<rparr>, [DispatchTask])
      else Some (q, []))"

text \<open>The loop of \<open>AckPendingEvents\<close>: the rest of the queue, the running set, the ids taken.\<close>

fun take_acks :: "'i list \<Rightarrow> 'i set \<Rightarrow> 'i list \<Rightarrow> 'i list \<times> 'i set \<times> 'i list" where
  "take_acks [] running ids = ([], running, ids)"
| "take_acks (i # pending) running ids =
     (if card running < max_parallel_acks
      then take_acks pending (insert i running) (ids @ [i])
      else (i # pending, running, ids))"

definition ack_pending_events ::
    "('i, 'c) ack_queue \<Rightarrow> (('i, 'c) ack_queue \<times> ('i, 'c) aq_out list) option" where
  "ack_pending_events q = do {
     check (aq_ack_pending q);
     let (pending, running, ids) = take_acks (aq_pending q) (aq_running q) [];
     let q' = q\<lparr>aq_ack_pending := False, aq_pending := pending, aq_running := running\<rparr>;
     (q'', outs) \<leftarrow> post_ack_pending_events q';
     Some (q'', (if ids = [] then [] else [CallAcknowledge ids (aq_context q')]) @ outs)
   }"

definition queue_ack ::
    "'i \<Rightarrow> ('i, 'c) ack_queue \<Rightarrow> (('i, 'c) ack_queue \<times> ('i, 'c) aq_out list) option" where
  "queue_ack i q =
     (if i \<in> aq_running q \<or> i \<in> set (aq_pending q) then Some (q, [])
      else post_ack_pending_events (q\<lparr>aq_pending := aq_pending q @ [i]\<rparr>))"

definition on_acked ::
    "'i \<Rightarrow> ('i, 'c) ack_queue \<Rightarrow> (('i, 'c) ack_queue \<times> ('i, 'c) aq_out list) option" where
  "on_acked i q =
     (if i \<in> aq_running q
      then post_ack_pending_events (q\<lparr>aq_running := aq_running q - {i}\<rparr>)
      else Some (q, []))"

section \<open>Runs\<close>

datatype ('i, 'c) aq_event = Ack 'i | Acked 'i | RunTask | ResetQueue | Opened 'c

definition aq_handle ::
    "('i, 'c) aq_event \<Rightarrow> ('i, 'c) ack_queue \<Rightarrow>
     (('i, 'c) ack_queue \<times> ('i, 'c) aq_out list) option" where
  "aq_handle e q =
     (case e of
        Ack i \<Rightarrow> queue_ack i q
      | Acked i \<Rightarrow> on_acked i q
      | RunTask \<Rightarrow> if aq_ack_pending q then ack_pending_events q else Some (q, [])
      | ResetQueue \<Rightarrow> Some (queue_reset q, [])
      | Opened c \<Rightarrow> Some (on_channel_opened c q, []))"

fun aq_run ::
    "('i, 'c) aq_event list \<Rightarrow> ('i, 'c) ack_queue \<Rightarrow>
     (('i, 'c) ack_queue \<times> ('i, 'c) aq_out list) option" where
  "aq_run [] q = Some (q, [])"
| "aq_run (e # es) q = do {
     (q', outs) \<leftarrow> aq_handle e q;
     (q'', outs') \<leftarrow> aq_run es q';
     Some (q'', outs @ outs')
   }"

section \<open>The invariant\<close>

text \<open>
  Besides the bound and the absence of duplicates: while the task is in flight it has a free slot and
  work to do (or the queue was reset); while it is not, nothing that could run is left waiting.
\<close>

definition aq_inv :: "('i, 'c) ack_queue \<Rightarrow> bool" where
  "aq_inv q \<longleftrightarrow> finite (aq_running q) \<and> card (aq_running q) \<le> max_parallel_acks
     \<and> distinct (aq_pending q) \<and> aq_running q \<inter> set (aq_pending q) = {}
     \<and> (aq_ack_pending q \<longrightarrow> card (aq_running q) < max_parallel_acks
          \<and> (aq_pending q \<noteq> [] \<or> aq_running q = {}))
     \<and> (\<not> aq_ack_pending q \<longrightarrow> aq_pending q = [] \<or> card (aq_running q) = max_parallel_acks)"

lemma max_parallel_acks_pos [simp]: "0 < max_parallel_acks"
  by (simp add: max_parallel_acks_def)

lemma aq_inv_empty: "aq_inv (empty_queue c)"
  by (simp add: aq_inv_def empty_queue_def)

lemma take_acks_props:
  assumes "take_acks pending running ids = (p', r', ids')" "finite running"
    "card running \<le> max_parallel_acks" "distinct pending" "running \<inter> set pending = {}"
  shows "ids' @ p' = ids @ pending \<and> finite r' \<and> card r' \<le> max_parallel_acks \<and> distinct p' \<and> r' \<inter> set p' = {}
    \<and> running \<subseteq> r' \<and> r' \<subseteq> running \<union> set pending
    \<and> (p' = [] \<or> card r' = max_parallel_acks)
    \<and> (\<exists>new. ids' = ids @ new \<and> r' = running \<union> set new)"
  using assms
proof (induction pending running ids rule: take_acks.induct)
  case (1 running ids)
  then show ?case by auto
next
  case (2 i pending running ids)
  show ?case
  proof (cases "card running < max_parallel_acks")
    case True
    have "card (insert i running) \<le> max_parallel_acks"
      using True "2.prems" by (simp add: card_insert_if)
    then have IH: "ids' @ p' = (ids @ [i]) @ pending \<and> finite r' \<and> card r' \<le> max_parallel_acks
        \<and> distinct p' \<and> r' \<inter> set p' = {} \<and> insert i running \<subseteq> r'
        \<and> r' \<subseteq> insert i running \<union> set pending
        \<and> (p' = [] \<or> card r' = max_parallel_acks)
        \<and> (\<exists>new. ids' = (ids @ [i]) @ new \<and> r' = insert i running \<union> set new)"
      using "2.IH" True "2.prems" by auto
    then obtain new where new: "ids' = ids @ i # new" "r' = insert i running \<union> set new" by auto
    have "\<exists>new. ids' = ids @ new \<and> r' = running \<union> set new"
      using new by (intro exI [of _ "i # new"]) auto
    with IH new show ?thesis by auto
  next
    case False
    with "2.prems" show ?thesis by auto
  qed
qed

lemma post_ok:
  assumes "finite (aq_running q)" "card (aq_running q) \<le> max_parallel_acks"
    "distinct (aq_pending q)" "aq_running q \<inter> set (aq_pending q) = {}"
    "aq_ack_pending q \<Longrightarrow> card (aq_running q) < max_parallel_acks \<and> aq_pending q \<noteq> []"
  shows "\<exists>outs b. post_ack_pending_events q = Some (q\<lparr>aq_ack_pending := b\<rparr>, outs)
    \<and> aq_inv (q\<lparr>aq_ack_pending := b\<rparr>) \<and> (\<forall>ids c. CallAcknowledge ids c \<notin> set outs)"
proof (cases "card (aq_running q) \<ge> max_parallel_acks \<or> aq_pending q = []")
  case True
  then have "\<not> aq_ack_pending q" using assms(5) by auto
  then show ?thesis using True assms
    by (intro exI [of _ "[]"] exI [of _ False])
       (auto simp: post_ack_pending_events_def aq_inv_def)
next
  case False
  then show ?thesis using assms
    by (intro exI [of _ "if aq_ack_pending q then [] else [DispatchTask]"] exI [of _ True])
       (auto simp: post_ack_pending_events_def aq_inv_def)
qed

lemma aq_handle_ok:
  assumes inv: "aq_inv q"
  shows "\<exists>q' outs. aq_handle e q = Some (q', outs) \<and> aq_inv q'"
proof (cases e)
  case (Ack i)
  show ?thesis
  proof (cases "i \<in> aq_running q \<or> i \<in> set (aq_pending q)")
    case True
    then show ?thesis using Ack inv by (simp add: aq_handle_def queue_ack_def)
  next
    case False
    let ?q = "q\<lparr>aq_pending := aq_pending q @ [i]\<rparr>"
    have "\<exists>outs b. post_ack_pending_events ?q = Some (?q\<lparr>aq_ack_pending := b\<rparr>, outs)
      \<and> aq_inv (?q\<lparr>aq_ack_pending := b\<rparr>) \<and> (\<forall>ids c. CallAcknowledge ids c \<notin> set outs)"
      by (rule post_ok) (use False inv in \<open>simp_all add: aq_inv_def\<close>)
    then show ?thesis using Ack False by (auto simp: aq_handle_def queue_ack_def)
  qed
next
  case (Acked i)
  show ?thesis
  proof (cases "i \<in> aq_running q")
    case True
    have lt: "card (aq_running q - {i}) < max_parallel_acks"
      using inv True by (metis aq_inv_def card_Diff1_less less_le_trans)
    let ?q = "q\<lparr>aq_running := aq_running q - {i}\<rparr>"
    have "\<exists>outs b. post_ack_pending_events ?q = Some (?q\<lparr>aq_ack_pending := b\<rparr>, outs)
      \<and> aq_inv (?q\<lparr>aq_ack_pending := b\<rparr>) \<and> (\<forall>ids c. CallAcknowledge ids c \<notin> set outs)"
      by (rule post_ok) (use lt True inv in \<open>auto simp: aq_inv_def\<close>)
    then show ?thesis using Acked True by (auto simp: aq_handle_def on_acked_def)
  next
    case False
    then show ?thesis using Acked inv by (simp add: aq_handle_def on_acked_def)
  qed
next
  case RunTask
  show ?thesis
  proof (cases "aq_ack_pending q")
    case True
    obtain p r ids where t: "take_acks (aq_pending q) (aq_running q) [] = (p, r, ids)"
      by (metis prod_cases3)
    let ?q = "q\<lparr>aq_ack_pending := False, aq_pending := p, aq_running := r\<rparr>"
    have h: "finite (aq_running q)" "card (aq_running q) \<le> max_parallel_acks"
      "distinct (aq_pending q)" "aq_running q \<inter> set (aq_pending q) = {}"
      using inv by (auto simp: aq_inv_def)
    have "\<exists>outs b. post_ack_pending_events ?q = Some (?q\<lparr>aq_ack_pending := b\<rparr>, outs)
      \<and> aq_inv (?q\<lparr>aq_ack_pending := b\<rparr>) \<and> (\<forall>ids c. CallAcknowledge ids c \<notin> set outs)"
      by (rule post_ok) (use take_acks_props [OF t h] in auto)
    then show ?thesis using RunTask True t
      by (auto simp: aq_handle_def ack_pending_events_def)
  next
    case False
    then show ?thesis using RunTask inv by (simp add: aq_handle_def)
  qed
next
  case ResetQueue
  then show ?thesis using inv by (simp add: aq_handle_def queue_reset_def aq_inv_def)
next
  case (Opened c)
  then show ?thesis using inv by (simp add: aq_handle_def on_channel_opened_def aq_inv_def)
qed

lemma aq_run_ok: "aq_inv q \<Longrightarrow> \<exists>q' outs. aq_run es q = Some (q', outs) \<and> aq_inv q'"
proof (induction es arbitrary: q)
  case (Cons e es)
  from aq_handle_ok [OF Cons.prems] obtain q' outs where
    h: "aq_handle e q = Some (q', outs)" "aq_inv q'" by blast
  from Cons.IH [OF h(2)] obtain q'' outs' where "aq_run es q' = Some (q'', outs')" "aq_inv q''"
    by blast
  with h show ?case by simp
qed simp


text \<open>The identifiers sent to the service by a list of outputs, in order.\<close>

fun issued :: "('i, 'c) aq_out list \<Rightarrow> 'i list" where
  "issued [] = []"
| "issued (DispatchTask # outs) = issued outs"
| "issued (CallAcknowledge ids c # outs) = ids @ issued outs"

lemma issued_append [simp]: "issued (xs @ ys) = issued xs @ issued ys"
  by (induction xs rule: issued.induct) auto

text \<open>The identifiers \<open>Ack\<close> accepts: those neither waiting nor running at that moment.\<close>

fun accepted :: "('i, 'c) aq_event list \<Rightarrow> ('i, 'c) ack_queue \<Rightarrow> 'i list" where
  "accepted [] q = []"
| "accepted (e # es) q =
     (case e of Ack i \<Rightarrow> (if i \<in> aq_running q \<or> i \<in> set (aq_pending q) then [] else [i]) | _ \<Rightarrow> [])
     @ (case aq_handle e q of None \<Rightarrow> [] | Some (q', outs) \<Rightarrow> accepted es q')"

lemma post_pending:
  "post_ack_pending_events q = Some (q', outs) \<Longrightarrow>
   aq_pending q' = aq_pending q \<and> aq_running q' = aq_running q \<and> issued outs = []"
  by (auto simp: post_ack_pending_events_def split: if_splits)

lemma take_acks_append:
  "take_acks pending running ids = (p', r', ids') \<Longrightarrow> ids' @ p' = ids @ pending"
  by (induction pending running ids rule: take_acks.induct) (auto split: if_splits)

lemma aq_handle_order:
  assumes h: "aq_handle e q = Some (q', outs)" and e: "e \<noteq> ResetQueue"
  shows "issued outs @ aq_pending q' = aq_pending q @
    (case e of Ack i \<Rightarrow> (if i \<in> aq_running q \<or> i \<in> set (aq_pending q) then [] else [i]) | _ \<Rightarrow> [])"
proof (cases e)
  case RunTask
  show ?thesis
  proof (cases "aq_ack_pending q")
    case True
    obtain p r ids where t: "take_acks (aq_pending q) (aq_running q) [] = (p, r, ids)"
      by (metis prod_cases3)
    obtain outs' where
      o: "post_ack_pending_events
            (q\<lparr>aq_ack_pending := False, aq_pending := p, aq_running := r\<rparr>) = Some (q', outs')"
      "outs = (if ids = [] then [] else [CallAcknowledge ids (aq_context q)]) @ outs'"
      using h RunTask True t
      by (auto simp: aq_handle_def ack_pending_events_def Let_def bind_eq_Some_conv split: prod.splits)
    show ?thesis using post_pending [OF o(1)] o(2) take_acks_append [OF t] RunTask by auto
  next
    case False
    then show ?thesis using h RunTask by (simp add: aq_handle_def)
  qed
qed (use h e post_pending in \<open>fastforce simp: aq_handle_def queue_ack_def on_acked_def
       on_channel_opened_def split: if_splits\<close>)+

lemma aq_run_order:
  "aq_run es q = Some (q', outs) \<Longrightarrow> ResetQueue \<notin> set es \<Longrightarrow>
   issued outs @ aq_pending q' = aq_pending q @ accepted es q"
proof (induction es arbitrary: q outs)
  case (Cons e es)
  from Cons.prems(1) obtain q1 o1 o2 where
    h: "aq_handle e q = Some (q1, o1)" "aq_run es q1 = Some (q', o2)" "outs = o1 @ o2"
    by (auto simp: bind_eq_Some_conv)
  let ?a = "case e of Ack i \<Rightarrow> (if i \<in> aq_running q \<or> i \<in> set (aq_pending q) then [] else [i]) | _ \<Rightarrow> []"
  have "issued outs @ aq_pending q' = issued o1 @ aq_pending q1 @ accepted es q1"
    using Cons.IH [OF h(2)] Cons.prems(2) h(3) by simp
  also have "\<dots> = (issued o1 @ aq_pending q1) @ accepted es q1" by simp
  also have "issued o1 @ aq_pending q1 = aq_pending q @ ?a"
    by (rule aq_handle_order [OF h(1)]) (use Cons.prems(2) in auto)
  finally show ?case using h(1) by simp
qed simp

section \<open>Properties\<close>

text \<open>C17: Whatever sequence of acknowledge requests, confirmations, task runs, resets and channel
  openings a fresh \<open>EventAckQueue\<close> goes through, none of its checks fails, at most five
  acknowledgements run at a time, nothing waits twice or waits while it runs, and whenever something
  waits either five are running or the task that will take it is in flight.\<close>

theorem ack_queue_reachable_ok:
  "\<exists>q outs. aq_run es (empty_queue c) = Some (q, outs)
     \<and> card (aq_running q) \<le> 5 \<and> distinct (aq_pending q)
     \<and> aq_running q \<inter> set (aq_pending q) = {}
     \<and> \<not> (aq_pending q \<noteq> [] \<and> card (aq_running q) < 5 \<and> \<not> aq_ack_pending q)"
proof -
  obtain q outs where "aq_run es (empty_queue c) = Some (q, outs)" "aq_inv q"
    using aq_run_ok [OF aq_inv_empty [of c], of es] by blast
  then show ?thesis by (intro exI [of _ q]) (auto simp: aq_inv_def max_parallel_acks_def)
qed

text \<open>C24: Without a reset in between, acknowledgements are sent in the order they were accepted and
  none is lost: what was sent so far followed by what still waits is exactly what \<open>Ack\<close> accepted.\<close>

theorem ack_queue_fifo:
  assumes "ResetQueue \<notin> set es"
  shows "\<exists>q outs. aq_run es (empty_queue c) = Some (q, outs)
    \<and> issued outs @ aq_pending q = accepted es (empty_queue c)"
proof -
  obtain q outs where r: "aq_run es (empty_queue c) = Some (q, outs)"
    using aq_run_ok [OF aq_inv_empty [of c], of es] by blast
  then show ?thesis
    using aq_run_order [OF r assms] by (intro exI [of _ q] exI [of _ outs]) (simp add: empty_queue_def)
qed

theorem ack_queue_fifo_witness:
  "\<exists>q outs. aq_run [Ack 7, Ack 8, Ack 7, RunTask, Ack 9, Acked 7] (empty_queue (0::nat)) = Some (q, outs)
    \<and> issued outs @ aq_pending q
      = accepted [Ack 7, Ack 8, Ack 7, RunTask, Ack 9, Acked (7::nat)] (empty_queue (0::nat))"
  by (rule ack_queue_fifo) simp

text \<open>A run of the task moves waiting identifiers to the running set, sends exactly those in
  one call with the context captured at the last channel opening, and stops only when the queue is
  empty or five are running.\<close>

theorem ack_pending_events_correct:
  assumes "aq_inv q" "aq_ack_pending q" "aq_pending q \<noteq> []"
  shows "\<exists>ids q' outs. ack_pending_events q = Some (q', CallAcknowledge ids (aq_context q) # outs)
    \<and> ids \<noteq> [] \<and> ids @ aq_pending q' = aq_pending q \<and> aq_running q' = aq_running q \<union> set ids
    \<and> (aq_pending q' = [] \<or> card (aq_running q') = 5) \<and> issued outs = []"
proof -
  obtain p r ids where t: "take_acks (aq_pending q) (aq_running q) [] = (p, r, ids)"
    by (metis prod_cases3)
  let ?q = "q\<lparr>aq_ack_pending := False, aq_pending := p, aq_running := r\<rparr>"
  have h: "finite (aq_running q)" "card (aq_running q) \<le> max_parallel_acks"
    "distinct (aq_pending q)" "aq_running q \<inter> set (aq_pending q) = {}"
    using assms by (auto simp: aq_inv_def)
  note tp = take_acks_props [OF t h]
  have "\<exists>outs b. post_ack_pending_events ?q = Some (?q\<lparr>aq_ack_pending := b\<rparr>, outs)
      \<and> aq_inv (?q\<lparr>aq_ack_pending := b\<rparr>) \<and> (\<forall>ids c. CallAcknowledge ids c \<notin> set outs)"
    by (rule post_ok) (use tp in auto)
  then obtain outs b where
    p: "post_ack_pending_events ?q = Some (?q\<lparr>aq_ack_pending := b\<rparr>, outs)" by blast
  have ne: "ids \<noteq> []"
  proof
    assume "ids = []"
    then have "p \<noteq> []" "r = aq_running q" using tp assms(3) by auto
    then show False using tp assms(1,2) by (auto simp: aq_inv_def)
  qed
  show ?thesis
    using p t tp ne assms(2) post_pending [OF p]
    by (intro exI [of _ ids] exI [of _ "?q\<lparr>aq_ack_pending := b\<rparr>"] exI [of _ outs])
       (auto simp: ack_pending_events_def max_parallel_acks_def)
qed

theorem ack_pending_events_correct_witness:
  "\<exists>ids q' outs. ack_pending_events \<lparr>aq_pending = [7::nat, 8], aq_running = {4}, aq_ack_pending = True,
        aq_context = ()\<rparr> = Some (q', CallAcknowledge ids () # outs)
    \<and> ids \<noteq> [] \<and> ids @ aq_pending q' = [7, 8] \<and> aq_running q' = {4} \<union> set ids
    \<and> (aq_pending q' = [] \<or> card (aq_running q') = 5) \<and> issued outs = []"
  using ack_pending_events_correct [of "\<lparr>aq_pending = [7::nat, 8], aq_running = {4},
      aq_ack_pending = True, aq_context = ()\<rparr>"]
  by (simp add: aq_inv_def max_parallel_acks_def)

end
