(* ===== verification/Event_Storage.thy ===== *)
theory Event_Storage
  imports Std_Map "HOL-Library.Product_Lexorder"
begin

text \<open>
  \<open>events/event_storage.cpp\<close> and \<open>event_set.h\<close>: the unacknowledged events, indexed by event id and
  by source node. The storage hands out pointers to the events in its map, so events live in a heap:
  an address is the serial number of an allocation, \<open>rank\<close> is the unspecified order of pointers, and
  an extracted node stays in the heap until the update that extracted it ends. Dereferencing an
  address that is no longer in the heap, which is undefined, is \<open>None\<close>, like a failed check. A null
  node id is \<open>None\<close>. Observers are pointers in a sorted set; outputs are the observer calls in order.
\<close>

record ('i, 'n, 't, 'b) event =
  ev_id :: 'i
  ev_time :: 't
  ev_node :: "'n option"
  ev_severity :: nat
  ev_acked :: bool
  ev_body :: 'b

type_synonym ('i, 'n, 't, 'b) heap = "nat \<rightharpoonup> ('i, 'n, 't, 'b) event"

record 'o node_entry =
  ne_events :: "nat list"
  ne_observers :: "'o list"

record ('i, 'n, 't, 'b, 'o) event_storage =
  es_events :: "('i, nat) smap"
  es_heap :: "('i, 'n, 't, 'b) heap"
  es_next :: nat
  es_nodes :: "('n, 'o node_entry) smap"
  es_observers :: "'o list"
  es_alerting :: bool

datatype ('i, 'n, 't, 'b, 'o) es_out =
  OnEvents 'o "('i, 'n, 't, 'b) event list"
| OnAllEventsAcknowledged 'o
| OnItemEventsChanged 'o 'n "nat list"

definition empty_storage :: "('i, 'n, 't, 'b, 'o) event_storage" where
  "empty_storage = \<lparr>es_events = [], es_heap = Map.empty, es_next = 0, es_nodes = [],
     es_observers = [], es_alerting = False\<rparr>"

section \<open>Event sets\<close>

text \<open>\<open>EventComparer\<close>: by time, then by address.\<close>

definition event_comparer ::
    "(nat \<Rightarrow> 'r::linorder) \<Rightarrow> ('i, 'n, 't::linorder, 'b) heap \<Rightarrow> nat \<Rightarrow> nat \<Rightarrow> bool" where
  "event_comparer rank h left right =
     (if ev_time (the (h left)) < ev_time (the (h right)) then True
      else if ev_time (the (h right)) < ev_time (the (h left)) then False
      else rank left < rank right)"

fun set_insert :: "('a \<Rightarrow> 'a \<Rightarrow> bool) \<Rightarrow> 'a \<Rightarrow> 'a list \<Rightarrow> 'a list" where
  "set_insert lt a [] = [a]"
| "set_insert lt a (b # xs) =
     (if lt a b then a # b # xs else if lt b a then b # set_insert lt a xs else b # xs)"

text \<open>\<open>find\<close>: the position of an equivalent element.\<close>

definition set_find :: "('a \<Rightarrow> 'a \<Rightarrow> bool) \<Rightarrow> 'a \<Rightarrow> 'a list \<Rightarrow> nat option" where
  "set_find lt a xs =
     (let i = length (takeWhile (\<lambda>b. lt b a) xs)
      in if i < length xs \<and> \<not> lt a (xs ! i) then Some i else None)"

definition set_erase_at :: "nat \<Rightarrow> 'a list \<Rightarrow> 'a list" where
  "set_erase_at i xs = take i xs @ drop (Suc i) xs"

text \<open>A lookup or insertion compares with elements of the set, so they must not dangle.\<close>

definition no_dangling :: "('i, 'n, 't, 'b) heap \<Rightarrow> nat list \<Rightarrow> bool" where
  "no_dangling h xs \<longleftrightarrow> list_all (\<lambda>a. h a \<noteq> None) xs"

section \<open>Operations\<close>

definition node_events_changed ::
    "'o list \<Rightarrow> 'n \<Rightarrow> nat list \<Rightarrow> ('i, 'n, 't, 'b, 'o) es_out list" where
  "node_events_changed observers n events = map (\<lambda>ob. OnItemEventsChanged ob n events) observers"

definition update_alerting ::
    "('i, 'n, 't, 'b, 'o) event_storage \<Rightarrow>
     ('i, 'n, 't, 'b, 'o) event_storage \<times> ('i, 'n, 't, 'b, 'o) es_out list" where
  "update_alerting s =
     (let alerting = es_events s \<noteq> []
      in if es_alerting s = alerting then (s, [])
         else (s\<lparr>es_alerting := alerting\<rparr>, map OnAllEventsAcknowledged (es_observers s)))"

definition es_entry :: "'n::linorder \<Rightarrow> ('n, 'o node_entry) smap \<Rightarrow> 'o node_entry" where
  "es_entry n m = (case smap_find m n of Some ne \<Rightarrow> ne | None \<Rightarrow> \<lparr>ne_events = [], ne_observers = []\<rparr>)"

definition get_node_events :: "'n::linorder \<Rightarrow> ('i, 'n, 't, 'b, 'o) event_storage \<Rightarrow> nat list option" where
  "get_node_events n s = map_option ne_events (smap_find (es_nodes s) n)"

definition es_add_observer :: "'o::linorder \<Rightarrow> ('i, 'n, 't, 'b, 'o) event_storage \<Rightarrow> ('i, 'n, 't, 'b, 'o) event_storage" where
  "es_add_observer ob s = s\<lparr>es_observers := set_insert (<) ob (es_observers s)\<rparr>"

definition es_remove_observer :: "'o \<Rightarrow> ('i, 'n, 't, 'b, 'o) event_storage \<Rightarrow> ('i, 'n, 't, 'b, 'o) event_storage" where
  "es_remove_observer ob s = s\<lparr>es_observers := removeAll ob (es_observers s)\<rparr>"

definition es_add_node_observer ::
    "'n::linorder \<Rightarrow> 'o::linorder \<Rightarrow> ('i, 'n, 't, 'b, 'o) event_storage \<Rightarrow> ('i, 'n, 't, 'b, 'o) event_storage" where
  "es_add_node_observer n ob s =
     (let ne = es_entry n (es_nodes s)
      in s\<lparr>es_nodes := smap_put (es_nodes s) n
             (ne\<lparr>ne_observers := set_insert (<) ob (ne_observers ne)\<rparr>)\<rparr>)"

definition es_remove_node_observer ::
    "'n::linorder \<Rightarrow> 'o \<Rightarrow> ('i, 'n, 't, 'b, 'o) event_storage \<Rightarrow> ('i, 'n, 't, 'b, 'o) event_storage" where
  "es_remove_node_observer n ob s =
     (let ne = es_entry n (es_nodes s)
      in s\<lparr>es_nodes := smap_put (es_nodes s) n
             (ne\<lparr>ne_observers := removeAll ob (ne_observers ne)\<rparr>)\<rparr>)"

text \<open>\<open>Add\<close> returns the pointer to the stored event.\<close>

definition es_add ::
    "(nat \<Rightarrow> 'r::linorder) \<Rightarrow> ('i::linorder, 'n::linorder, 't::linorder, 'b) event \<Rightarrow>
     ('i, 'n, 't, 'b, 'o) event_storage \<Rightarrow>
     (('i, 'n, 't, 'b, 'o) event_storage \<times> nat \<times> ('i, 'n, 't, 'b, 'o) es_out list) option" where
  "es_add rank event s =
     (case smap_find (es_events s) (ev_id event) of
        Some a \<Rightarrow>
          let (s', outs) = update_alerting (s\<lparr>es_heap := (es_heap s)(a \<mapsto> event)\<rparr>)
          in Some (s', a, outs)
      | None \<Rightarrow>
          let a = es_next s;
              h = (es_heap s)(a \<mapsto> event);
              s1 = s\<lparr>es_events := smap_put (es_events s) (ev_id event) a, es_heap := h,
                     es_next := Suc a\<rparr>
          in (case ev_node event of
                None \<Rightarrow> let (s', outs) = update_alerting s1 in Some (s', a, outs)
              | Some n \<Rightarrow> do {
                  let ne = es_entry n (es_nodes s1);
                  check (no_dangling h (ne_events ne));
                  let events = set_insert (event_comparer rank h) a (ne_events ne);
                  let s2 = s1\<lparr>es_nodes := smap_put (es_nodes s1) n (ne\<lparr>ne_events := events\<rparr>)\<rparr>;
                  let outs = node_events_changed (es_observers s2) n events
                             @ node_events_changed (ne_observers ne) n events;
                  let (s', outs') = update_alerting s2;
                  Some (s', a, outs @ outs')
                }))"

text \<open>\<open>Remove\<close> returns the extracted map node, or nothing when the id is not stored.\<close>

definition es_remove ::
    "(nat \<Rightarrow> 'r::linorder) \<Rightarrow> ('i::linorder, 'n::linorder, 't::linorder, 'b) event \<Rightarrow>
     ('i, 'n, 't, 'b, 'o) event_storage \<Rightarrow>
     (('i, 'n, 't, 'b, 'o) event_storage \<times> nat option \<times> ('i, 'n, 't, 'b, 'o) es_out list) option" where
  "es_remove rank event s =
     (case smap_find (es_events s) (ev_id event) of
        None \<Rightarrow> Some (s, None, [])
      | Some a \<Rightarrow> do {
          let h = (es_heap s)(a \<mapsto> event);
          let s1 = s\<lparr>es_heap := h\<rparr>;
          (s2, outs) \<leftarrow>
            (case Option.bind (ev_node event) (smap_find (es_nodes s1)) of
               None \<Rightarrow> Some (s1, [])
             | Some ne \<Rightarrow> do {
                 let n = the (ev_node event);
                 check (no_dangling h (ne_events ne));
                 let j = set_find (event_comparer rank h) a (ne_events ne);
                 check (j \<noteq> None);
                 let events = set_erase_at (the j) (ne_events ne);
                 let outs = node_events_changed (es_observers s1) n events
                            @ node_events_changed (ne_observers ne) n events;
                 Some (s1\<lparr>es_nodes :=
                             (if events = [] \<and> ne_observers ne = [] then smap_erase (es_nodes s1) n
                              else smap_put (es_nodes s1) n (ne\<lparr>ne_events := events\<rparr>))\<rparr>,
                       outs)
               });
          let (s', outs') = update_alerting (s2\<lparr>es_events := smap_erase (es_events s2) (ev_id event)\<rparr>);
          Some (s', Some a, outs @ outs')
        })"

text \<open>The loop of \<open>Clear\<close> over the nodes.\<close>

fun clear_nodes ::
    "'o list \<Rightarrow> ('n, 'o node_entry) smap \<Rightarrow>
     ('n, 'o node_entry) smap \<times> ('i, 'n, 't, 'b, 'o) es_out list" where
  "clear_nodes obs [] = ([], [])"
| "clear_nodes obs ((n, ne) # m) =
     (let (m', outs) = clear_nodes obs m
      in if ne_observers ne = [] then (m', outs)
         else ((n, ne\<lparr>ne_events := []\<rparr>) # m',
               node_events_changed obs n [] @ node_events_changed (ne_observers ne) n [] @ outs))"

definition es_clear ::
    "('i, 'n, 't, 'b, 'o) event_storage \<Rightarrow>
     ('i, 'n, 't, 'b, 'o) event_storage \<times> ('i, 'n, 't, 'b, 'o) es_out list" where
  "es_clear s =
     (let (m, outs) = clear_nodes (es_observers s) (es_nodes s);
          (s', outs') = update_alerting
            (s\<lparr>es_nodes := m, es_heap := es_heap s |` (- (snd ` set (es_events s))), es_events := []\<rparr>)
      in (s', outs @ outs'))"

text \<open>The loop of \<open>Update\<close>: the pointers to notify and the extracted nodes, in order.\<close>

fun update_loop ::
    "(nat \<Rightarrow> 'r::linorder) \<Rightarrow> ('i::linorder, 'n::linorder, 't::linorder, 'b) event list \<Rightarrow>
     ('i, 'n, 't, 'b, 'o) event_storage \<Rightarrow> nat list \<Rightarrow> nat list \<Rightarrow>
     (('i, 'n, 't, 'b, 'o) event_storage \<times> nat list \<times> nat list \<times> ('i, 'n, 't, 'b, 'o) es_out list) option" where
  "update_loop rank [] s notify deleted = Some (s, notify, deleted, [])"
| "update_loop rank (event # events) s notify deleted =
     (if ev_acked event
      then do {
        (s1, node, outs) \<leftarrow> es_remove rank event s;
        (s2, notify', deleted', outs') \<leftarrow>
          (case node of
             Some a \<Rightarrow> update_loop rank events (s1\<lparr>es_heap := (es_heap s1)(a \<mapsto> event)\<rparr>)
                        (notify @ [a]) (deleted @ [a])
           | None \<Rightarrow> update_loop rank events s1 notify deleted);
        Some (s2, notify', deleted', outs @ outs')
      }
      else do {
        (s1, a, outs) \<leftarrow> es_add rank event s;
        (s2, notify', deleted', outs') \<leftarrow> update_loop rank events s1 (notify @ [a]) deleted;
        Some (s2, notify', deleted', outs @ outs')
      })"

definition es_update ::
    "(nat \<Rightarrow> 'r::linorder) \<Rightarrow> ('i::linorder, 'n::linorder, 't::linorder, 'b) event list \<Rightarrow>
     ('i, 'n, 't, 'b, 'o) event_storage \<Rightarrow>
     (('i, 'n, 't, 'b, 'o) event_storage \<times> ('i, 'n, 't, 'b, 'o) es_out list) option" where
  "es_update rank events s = do {
     (s1, notify, deleted, outs) \<leftarrow> update_loop rank events s [] [];
     let outs' = (if notify = [] then []
                  else map (\<lambda>ob. OnEvents ob (map (\<lambda>a. the (es_heap s1 a)) notify)) (es_observers s1));
     Some (s1\<lparr>es_heap := es_heap s1 |` (- set deleted)\<rparr>, outs @ outs')
   }"

end
