(* ===== verification/Event_Storage_Facts.thy ===== *)
theory Event_Storage_Facts
  imports Event_Storage
begin

text \<open>
  The invariant of the event storage and the step lemmas of its operations. A server's events are
  consistent when every event with one id carries one source node and one time, given by \<open>sp\<close>.
\<close>

section \<open>Sets ordered by a comparer\<close>

abbreviation ev_key :: "(nat \<Rightarrow> 'r::linorder) \<Rightarrow> ('i, 'n, 't::linorder, 'b) heap \<Rightarrow> nat \<Rightarrow> 't \<times> 'r" where
  "ev_key rank h a \<equiv> (ev_time (the (h a)), rank a)"

lemma event_comparer_key: "event_comparer rank h = (\<lambda>a b. ev_key rank h a < ev_key rank h b)"
  by (intro ext) (auto simp: event_comparer_def less_prod_def')

lemma set_set_insert:
  "inj k \<Longrightarrow> set (set_insert (\<lambda>a b. k a < (k b :: 'k::linorder)) a xs) = insert a (set xs)"
  by (induction xs) (auto dest: injD)

lemma key_sorted_set_insert:
  assumes "inj k" "key_sorted k xs"
  shows "key_sorted k (set_insert (\<lambda>a b. k a < (k b :: 'k::linorder)) a xs)"
  using assms(2)
proof (induction xs)
  case (Cons b xs)
  have "set (set_insert (\<lambda>a b. k a < k b) a xs) = insert a (set xs)"
    by (rule set_set_insert [OF assms(1)])
  with Cons show ?case by (auto intro: order.strict_trans)
qed simp

lemma set_find_member:
  assumes "key_sorted k xs" "a \<in> set xs"
  shows "set_find (\<lambda>a b. k a < (k b :: 'k::linorder)) a xs \<noteq> None
    \<and> set_erase_at (the (set_find (\<lambda>a b. k a < k b) a xs)) xs = filter (\<lambda>b. b \<noteq> a) xs"
  using assms
proof (induction xs)
  case (Cons b xs)
  show ?case
  proof (cases "b = a")
    case True
    then have "a \<notin> set xs" using Cons.prems(1) by auto
    then have "filter (\<lambda>b. b \<noteq> a) xs = xs" by (auto intro: filter_True)
    with True show ?thesis by (simp add: set_find_def set_erase_at_def)
  next
    case False
    with Cons show ?thesis by (auto simp: set_find_def set_erase_at_def Let_def split: if_splits)
  qed
qed simp

section \<open>The invariant\<close>

definition node_ptrs :: "('i, 'n::linorder, 't, 'b, 'o) event_storage \<Rightarrow> 'n \<Rightarrow> nat list" where
  "node_ptrs s n = ne_events (es_entry n (es_nodes s))"

definition consistent ::
    "('i \<Rightarrow> 'n option \<times> 't) \<Rightarrow> ('i, 'n, 't, 'b) event \<Rightarrow> bool" where
  "consistent sp e \<longleftrightarrow> (ev_node e, ev_time e) = sp (ev_id e)"

text \<open>The stored events as a map from ids.\<close>

definition stored :: "('i::linorder, 'n, 't, 'b, 'o) event_storage \<Rightarrow> 'i \<Rightarrow> ('i, 'n, 't, 'b) event option" where
  "stored s i = Option.bind (smap_find (es_events s) i) (es_heap s)"

definition heap_ok :: "('i \<Rightarrow> 'n option \<times> 't) \<Rightarrow> ('i::linorder, 'n, 't, 'b, 'o) event_storage \<Rightarrow> bool" where
  "heap_ok sp s \<longleftrightarrow> smap_ok (es_events s)
     \<and> (\<forall>i a. smap_find (es_events s) i = Some a \<longrightarrow>
          a < es_next s \<and> (\<exists>e. es_heap s a = Some e \<and> ev_id e = i \<and> consistent sp e))
     \<and> (\<forall>i j a. smap_find (es_events s) i = Some a \<longrightarrow> smap_find (es_events s) j = Some a \<longrightarrow> i = j)"

definition nodes_ok ::
    "(nat \<Rightarrow> 'r::linorder) \<Rightarrow> ('i \<Rightarrow> 'n option \<times> 't) \<Rightarrow>
     ('i::linorder, 'n::linorder, 't::linorder, 'b, 'o) event_storage \<Rightarrow> bool" where
  "nodes_ok rank sp s \<longleftrightarrow> smap_ok (es_nodes s)
     \<and> (\<forall>n. set (node_ptrs s n) = {a. \<exists>i. smap_find (es_events s) i = Some a \<and> fst (sp i) = Some n}
          \<and> key_sorted (ev_key rank (es_heap s)) (node_ptrs s n))"

definition es_ok ::
    "(nat \<Rightarrow> 'r::linorder) \<Rightarrow> ('i \<Rightarrow> 'n option \<times> 't) \<Rightarrow>
     ('i::linorder, 'n::linorder, 't::linorder, 'b, 'o) event_storage \<Rightarrow> bool" where
  "es_ok rank sp s \<longleftrightarrow> heap_ok sp s \<and> nodes_ok rank sp s
     \<and> (es_alerting s \<longleftrightarrow> es_events s \<noteq> [])"

text \<open>Everything but the alerting flag.\<close>

abbreviation es_core ::
    "(nat \<Rightarrow> 'r::linorder) \<Rightarrow> ('i \<Rightarrow> 'n option \<times> 't) \<Rightarrow>
     ('i::linorder, 'n::linorder, 't::linorder, 'b, 'o) event_storage \<Rightarrow> bool" where
  "es_core rank sp s \<equiv> heap_ok sp s \<and> nodes_ok rank sp s"

lemma heap_okD:
  "heap_ok sp s \<Longrightarrow> smap_find (es_events s) i = Some a \<Longrightarrow>
   \<exists>e. es_heap s a = Some e \<and> ev_id e = i \<and> consistent sp e"
  by (auto simp: heap_ok_def)

lemma nodes_okD:
  assumes "nodes_ok rank sp s"
  shows "set (node_ptrs s n) = {a. \<exists>i. smap_find (es_events s) i = Some a \<and> fst (sp i) = Some n}"
    "key_sorted (ev_key rank (es_heap s)) (node_ptrs s n)"
  using assms unfolding nodes_ok_def by blast+

lemma es_ok_empty: "es_ok rank sp empty_storage"
  by (simp add: es_ok_def heap_ok_def nodes_ok_def empty_storage_def node_ptrs_def es_entry_def)

lemma update_alerting_ok:
  assumes "es_core rank sp s" "update_alerting s = (s', outs)"
  shows "es_ok rank sp s'" "stored s' = stored s" "es_observers s' = es_observers s"
    "es_heap s' = es_heap s" "es_next s' = es_next s" "node_ptrs s' = node_ptrs s"
    "es_events s' = es_events s"
proof -
  have "s' = s\<lparr>es_alerting := (es_events s \<noteq> [])\<rparr>"
    using assms(2) by (auto simp: update_alerting_def Let_def split: if_splits)
  then show "es_ok rank sp s'" "stored s' = stored s" "es_observers s' = es_observers s"
    "es_heap s' = es_heap s" "es_next s' = es_next s" "node_ptrs s' = node_ptrs s"
    "es_events s' = es_events s"
    using assms(1)
    by (auto simp: es_ok_def heap_ok_def nodes_ok_def node_ptrs_def stored_def fun_eq_iff)
qed

lemma node_ptrs_put:
  "es_nodes s' = smap_put (es_nodes s) n ne \<Longrightarrow>
   node_ptrs s' m = (if m = n then ne_events ne else node_ptrs s m)"
  by (simp add: node_ptrs_def es_entry_def smap_find_put)

lemma node_ptrs_erase:
  "smap_ok (es_nodes s) \<Longrightarrow> es_nodes s' = smap_erase (es_nodes s) n \<Longrightarrow>
   node_ptrs s' m = (if m = n then [] else node_ptrs s m)"
  by (simp add: node_ptrs_def es_entry_def smap_find_erase)

lemma node_ptrs_cong: "es_nodes s' = es_nodes s \<Longrightarrow> node_ptrs s' = node_ptrs s"
  by (simp add: node_ptrs_def fun_eq_iff)

lemma inj_ev_key: "inj rank \<Longrightarrow> inj (ev_key rank h)"
  by (auto simp: inj_def)

lemma set_insert_comparer:
  "inj rank \<Longrightarrow> set (set_insert (event_comparer rank h) a xs) = insert a (set xs)"
  unfolding event_comparer_key by (rule set_set_insert [OF inj_ev_key])

lemma sorted_insert_comparer:
  "inj rank \<Longrightarrow> key_sorted (ev_key rank h) xs \<Longrightarrow>
   key_sorted (ev_key rank h) (set_insert (event_comparer rank h) a xs)"
  unfolding event_comparer_key by (rule key_sorted_set_insert [OF inj_ev_key])

lemma find_comparer:
  assumes "key_sorted (ev_key rank h) xs" "a \<in> set xs"
  shows "\<exists>j. set_find (event_comparer rank h) a xs = Some j
    \<and> set_erase_at j xs = filter (\<lambda>b. b \<noteq> a) xs"
proof -
  have "set_find (event_comparer rank h) a xs \<noteq> None"
    "set_erase_at (the (set_find (event_comparer rank h) a xs)) xs = filter (\<lambda>b. b \<noteq> a) xs"
    using set_find_member [OF assms] unfolding event_comparer_key by blast+
  then show ?thesis by (auto simp del: not_None_eq dest: option.collapse)
qed

lemma key_sorted_heap_cong:
  assumes "key_sorted (ev_key rank h) xs" "\<forall>a \<in> set xs. ev_time (the (h' a)) = ev_time (the (h a))"
  shows "key_sorted (ev_key rank h') xs"
  using assms by (induction xs) auto

text \<open>Allocation only grows, and no operation writes another event's id into an allocated node.\<close>

definition heap_ext ::
    "('i, 'n, 't, 'b, 'o) event_storage \<Rightarrow> ('i, 'n, 't, 'b, 'o) event_storage \<Rightarrow> bool" where
  "heap_ext s s' \<longleftrightarrow> es_next s \<le> es_next s'
     \<and> (\<forall>b e0. b < es_next s \<longrightarrow> es_heap s b = Some e0 \<longrightarrow>
          (\<exists>e1. es_heap s' b = Some e1 \<and> ev_id e1 = ev_id e0))"

lemma heap_ext_refl [simp]: "heap_ext s s"
  by (simp add: heap_ext_def)

section \<open>Adding\<close>

lemma add_existing_core:
  assumes ok: "es_core rank sp s" and con: "consistent sp e"
    and f: "smap_find (es_events s) (ev_id e) = Some a"
  defines "s' \<equiv> s\<lparr>es_heap := (es_heap s)(a \<mapsto> e)\<rparr>"
  shows "es_core rank sp s'" "stored s' = (stored s)(ev_id e \<mapsto> e)"
proof -
  have "heap_ok sp s'" using ok con f by (auto simp: heap_ok_def s'_def)
  moreover have "nodes_ok rank sp s'"
    unfolding nodes_ok_def
  proof (intro conjI allI)
    show "smap_ok (es_nodes s')" using ok by (simp add: nodes_ok_def s'_def)
    fix n
    have p: "node_ptrs s' = node_ptrs s" by (rule node_ptrs_cong) (simp add: s'_def)
    show "set (node_ptrs s' n) =
        {a. \<exists>i. smap_find (es_events s') i = Some a \<and> fst (sp i) = Some n}"
      using ok p by (simp add: nodes_ok_def s'_def)
    have "ev_time (the (es_heap s a)) = ev_time e"
    proof -
      obtain e0 where "es_heap s a = Some e0" "ev_id e0 = ev_id e" "consistent sp e0"
        using ok f heap_okD by blast
      then show ?thesis using con by (metis consistent_def option.sel prod.inject)
    qed
    then have t: "\<forall>b \<in> set (node_ptrs s n). ev_time (the (es_heap s' b)) = ev_time (the (es_heap s b))"
      by (simp add: s'_def)
    have "key_sorted (ev_key rank (es_heap s)) (node_ptrs s n)" using ok unfolding nodes_ok_def by blast
    from key_sorted_heap_cong [OF this t]
    show "key_sorted (ev_key rank (es_heap s')) (node_ptrs s' n)" unfolding p .
  qed
  ultimately show "es_core rank sp s'" by blast
  show "stored s' = (stored s)(ev_id e \<mapsto> e)"
  proof
    fix i
    show "stored s' i = ((stored s)(ev_id e \<mapsto> e)) i"
    proof (cases "i = ev_id e")
      case False
      then have "smap_find (es_events s) i \<noteq> Some a" using ok f by (auto simp: heap_ok_def)
      then show ?thesis using False by (auto simp: stored_def s'_def split: Option.bind_splits)
    qed (simp add: stored_def s'_def f)
  qed
qed

lemma add_new_heap:
  assumes ok: "heap_ok sp s" and con: "consistent sp e"
    and f: "smap_find (es_events s) (ev_id e) = None"
    and s': "es_events s' = smap_put (es_events s) (ev_id e) (es_next s)"
      "es_heap s' = (es_heap s)(es_next s \<mapsto> e)" "es_next s' = Suc (es_next s)"
  shows "heap_ok sp s'" "stored s' = (stored s)(ev_id e \<mapsto> e)"
proof -
  have lt: "smap_find (es_events s) i = Some a \<Longrightarrow> a < es_next s" for i a
    using ok by (auto simp: heap_ok_def)
  have ne: "smap_find (es_events s) i \<noteq> Some (es_next s)" for i
    using lt by blast
  show "heap_ok sp s'"
    using ok con s' ne lt
    by (auto simp: heap_ok_def smap_find_put smap_ok_put less_Suc_eq)
  show "stored s' = (stored s)(ev_id e \<mapsto> e)"
    using s' ne by (auto simp: stored_def fun_eq_iff smap_find_put split: Option.bind_splits)
qed

lemma node_ptrs_dom:
  assumes "es_core rank sp s" "a \<in> set (node_ptrs s n)"
  shows "a < es_next s" "es_heap s a \<noteq> None"
  using assms by (auto simp: nodes_ok_def heap_ok_def) blast+

lemma add_new_nodes:
  assumes ok: "es_core rank sp s" and inj: "inj rank" and con: "consistent sp e"
    and f: "smap_find (es_events s) (ev_id e) = None"
    and s': "es_events s' = smap_put (es_events s) (ev_id e) (es_next s)"
      "es_heap s' = (es_heap s)(es_next s \<mapsto> e)"
    and nodes: "es_nodes s' = (case ev_node e of None \<Rightarrow> es_nodes s
        | Some n \<Rightarrow> smap_put (es_nodes s) n ((es_entry n (es_nodes s))\<lparr>ne_events :=
            set_insert (event_comparer rank (es_heap s')) (es_next s) (node_ptrs s n)\<rparr>))"
  shows "nodes_ok rank sp s'"
  unfolding nodes_ok_def
proof (intro conjI allI)
  show "smap_ok (es_nodes s')"
    using ok nodes by (auto simp: nodes_ok_def smap_ok_put split: option.splits)
  fix n
  note dom = node_ptrs_dom [OF ok]
  have sp: "fst (sp (ev_id e)) = ev_node e" using con by (metis consistent_def fst_conv)
  have p: "node_ptrs s' n = (if ev_node e = Some n
      then set_insert (event_comparer rank (es_heap s')) (es_next s) (node_ptrs s n) else node_ptrs s n)"
    using nodes by (auto simp: node_ptrs_def es_entry_def smap_find_put split: option.splits)
  have old: "set (node_ptrs s n) = {a. \<exists>i. smap_find (es_events s) i = Some a \<and> fst (sp i) = Some n}"
    and sorted: "key_sorted (ev_key rank (es_heap s)) (node_ptrs s n)"
    using ok by (auto simp: nodes_ok_def)
  have sorted': "key_sorted (ev_key rank (es_heap s')) (node_ptrs s n)"
    by (rule key_sorted_heap_cong [OF sorted]) (use dom(1) s'(2) in fastforce)
  show "key_sorted (ev_key rank (es_heap s')) (node_ptrs s' n)"
    using sorted' sorted_insert_comparer [OF inj sorted'] unfolding p by presburger
  have "set (node_ptrs s' n) = (if ev_node e = Some n then insert (es_next s) else id) (set (node_ptrs s n))"
    by (simp add: p set_insert_comparer inj)
  also have "\<dots> = {a. \<exists>i. smap_find (es_events s') i = Some a \<and> fst (sp i) = Some n}"
    using f sp by (auto simp: old s'(1) smap_find_put) (metis option.distinct(1))+
  finally show "set (node_ptrs s' n) =
    {a. \<exists>i. smap_find (es_events s') i = Some a \<and> fst (sp i) = Some n}" .
qed

lemma es_add_ok:
  assumes ok: "es_ok rank sp s" and inj: "inj rank" and con: "consistent sp e"
  shows "\<exists>s' a outs. es_add rank e s = Some (s', a, outs) \<and> es_ok rank sp s'
    \<and> stored s' = (stored s)(ev_id e \<mapsto> e) \<and> smap_find (es_events s') (ev_id e) = Some a
    \<and> es_observers s' = es_observers s \<and> heap_ext s s'
    \<and> (\<forall>i b. smap_find (es_events s') i = Some b \<longrightarrow>
          smap_find (es_events s) i = Some b \<or> b = es_next s)"
proof (cases "smap_find (es_events s) (ev_id e)")
  case (Some a)
  let ?s = "s\<lparr>es_heap := (es_heap s)(a \<mapsto> e)\<rparr>"
  obtain s' outs where u: "update_alerting ?s = (s', outs)" by fastforce
  have core: "es_core rank sp s" using ok by (simp add: es_ok_def)
  note c = add_existing_core [OF core con Some]
  note u' = update_alerting_ok [OF c(1) u]
  obtain e0 where "es_heap s a = Some e0" "ev_id e0 = ev_id e"
    using core Some heap_okD by blast
  then have "heap_ext s ?s" by (auto simp: heap_ext_def)
  then have "heap_ext s s'" using u' by (simp add: heap_ext_def)
  then show ?thesis using Some u u' c(2) by (auto simp: es_add_def)
next
  case None
  have core: "es_core rank sp s" using ok by (simp add: es_ok_def)
  let ?s1 = "s\<lparr>es_events := smap_put (es_events s) (ev_id e) (es_next s),
     es_heap := (es_heap s)(es_next s \<mapsto> e), es_next := Suc (es_next s)\<rparr>"
  show ?thesis
  proof (cases "ev_node e")
    case en: None
    obtain s' outs where u: "update_alerting ?s1 = (s', outs)" by fastforce
    have h: "heap_ok sp ?s1" "stored ?s1 = (stored s)(ev_id e \<mapsto> e)"
      by (rule add_new_heap [OF _ con None]; use core in simp)+
    have "nodes_ok rank sp ?s1"
      by (rule add_new_nodes [OF core inj con None]) (simp_all add: en)
    with h have c: "es_core rank sp ?s1" by blast
    note u' = update_alerting_ok [OF c u]
    have "heap_ext s s'" using u' by (simp add: heap_ext_def)
    then show ?thesis using None en u u' h(2) by (auto simp: es_add_def Let_def smap_find_put)
  next
    case (Some n)
    let ?h = "(es_heap s)(es_next s \<mapsto> e)"
    let ?ne = "es_entry n (es_nodes s)"
    let ?ev = "set_insert (event_comparer rank ?h) (es_next s) (ne_events ?ne)"
    let ?s2 = "?s1\<lparr>es_nodes := smap_put (es_nodes s) n (?ne\<lparr>ne_events := ?ev\<rparr>)\<rparr>"
    obtain s' outs where u: "update_alerting ?s2 = (s', outs)" by fastforce
    have h: "heap_ok sp ?s2" "stored ?s2 = (stored s)(ev_id e \<mapsto> e)"
      by (rule add_new_heap [OF _ con None]; use core in simp)+
    have "nodes_ok rank sp ?s2"
      by (rule add_new_nodes [OF core inj con None]) (simp_all add: Some node_ptrs_def)
    with h have c: "es_core rank sp ?s2" by blast
    note u' = update_alerting_ok [OF c u]
    have d: "no_dangling ?h (ne_events ?ne)"
      using node_ptrs_dom(2) [OF core, of _ n] by (auto simp: no_dangling_def list_all_iff node_ptrs_def)
    have "heap_ext s s'" using u' by (simp add: heap_ext_def)
    then show ?thesis using None Some u u' h(2) d by (auto simp: es_add_def Let_def smap_find_put)
  qed
qed

section \<open>Removing\<close>

lemma remove_heap:
  assumes ok: "heap_ok sp s" and f: "smap_find (es_events s) (ev_id e) = Some a"
    and s': "es_events s' = smap_erase (es_events s) (ev_id e)"
      "es_heap s' = (es_heap s)(a \<mapsto> e)" "es_next s' = es_next s"
  shows "heap_ok sp s'" "stored s' = (stored s)(ev_id e := None)"
proof -
  have so: "smap_ok (es_events s)" using ok by (simp add: heap_ok_def)
  have ne: "smap_find (es_events s) i = Some a \<Longrightarrow> i = ev_id e" for i
    using ok f by (auto simp: heap_ok_def)
  show "heap_ok sp s'"
    using ok s' ne so by (auto simp: heap_ok_def smap_find_erase smap_ok_erase)
  show "stored s' = (stored s)(ev_id e := None)"
    using s' ne so by (auto simp: stored_def fun_eq_iff smap_find_erase split: Option.bind_splits)
qed

text \<open>After the node of the event leaves the set of its source, the other sets are unchanged.\<close>

lemma remove_nodes:
  assumes ok: "es_core rank sp s" and con: "consistent sp e"
    and f: "smap_find (es_events s) (ev_id e) = Some a"
    and s': "es_events s' = smap_erase (es_events s) (ev_id e)"
      "es_heap s' = (es_heap s)(a \<mapsto> e)" "smap_ok (es_nodes s')"
    and nodes: "\<And>n. node_ptrs s' n =
      (if ev_node e = Some n then filter (\<lambda>b. b \<noteq> a) (node_ptrs s n) else node_ptrs s n)"
  shows "nodes_ok rank sp s'"
  unfolding nodes_ok_def
proof (intro conjI allI)
  show "smap_ok (es_nodes s')" by (rule s'(3))
  fix n
  have so: "smap_ok (es_events s)" using ok by (simp add: heap_ok_def)
  have sp: "fst (sp (ev_id e)) = ev_node e" using con by (metis consistent_def fst_conv)
  have ne: "smap_find (es_events s) i = Some a \<Longrightarrow> i = ev_id e" for i
    using ok f by (auto simp: heap_ok_def)
  have old: "set (node_ptrs s n) = {a. \<exists>i. smap_find (es_events s) i = Some a \<and> fst (sp i) = Some n}"
    and sorted: "key_sorted (ev_key rank (es_heap s)) (node_ptrs s n)"
    using ok unfolding nodes_ok_def by blast+
  obtain e0 where "es_heap s a = Some e0" "ev_id e0 = ev_id e" "consistent sp e0"
    using ok f heap_okD by blast
  then have t: "ev_time (the (es_heap s a)) = ev_time e" using con
    by (metis consistent_def option.sel prod.inject)
  have t': "ev_time (the (es_heap s' b)) = ev_time (the (es_heap s b))" for b
    using t s'(2) by simp
  have srt: "key_sorted (ev_key rank (es_heap s')) (node_ptrs s n)"
    by (rule key_sorted_heap_cong [OF sorted]) (use t' in blast)
  from key_sorted_filter [OF srt, of "\<lambda>b. b \<noteq> a"] srt
  show "key_sorted (ev_key rank (es_heap s')) (node_ptrs s' n)"
    unfolding nodes by (cases "ev_node e = Some n") (simp_all only: simp_thms if_True if_False)
  have "b \<in> set (node_ptrs s' n) \<longleftrightarrow>
      (\<exists>i. smap_find (es_events s') i = Some b \<and> fst (sp i) = Some n)" for b
  proof -
    have "(\<exists>i. smap_find (es_events s') i = Some b \<and> fst (sp i) = Some n) \<longleftrightarrow>
        (\<exists>i. i \<noteq> ev_id e \<and> smap_find (es_events s) i = Some b \<and> fst (sp i) = Some n)"
      by (simp add: s'(1) smap_find_erase so) metis
    also have "\<dots> \<longleftrightarrow> b \<noteq> a \<and> (\<exists>i. smap_find (es_events s) i = Some b \<and> fst (sp i) = Some n)"
      using f ne by (metis option.inject)
    also have "\<dots> \<longleftrightarrow> b \<noteq> a \<and> b \<in> set (node_ptrs s n)" by (simp only: old mem_Collect_eq)
    also have "\<dots> \<longleftrightarrow> b \<in> set (node_ptrs s' n)"
    proof (cases "ev_node e = Some n")
      case False
      then have "a \<notin> set (node_ptrs s n)" using ne sp unfolding old by force
      with False show ?thesis by (simp only: nodes if_False) metis
    qed (simp add: nodes conj_commute)
    finally show ?thesis by blast
  qed
  then show "set (node_ptrs s' n) =
      {a. \<exists>i. smap_find (es_events s') i = Some a \<and> fst (sp i) = Some n}" by blast
qed

lemma es_remove_none:
  "smap_find (es_events s) (ev_id e) = None \<Longrightarrow> es_remove rank e s = Some (s, None, [])"
  by (simp add: es_remove_def)

lemma es_remove_ok:
  assumes ok: "es_ok rank sp s" and inj: "inj rank" and con: "consistent sp e"
    and f: "smap_find (es_events s) (ev_id e) = Some a"
  shows "\<exists>s' outs. es_remove rank e s = Some (s', Some a, outs) \<and> es_ok rank sp s'
    \<and> stored s' = (stored s)(ev_id e := None) \<and> smap_find (es_events s') (ev_id e) = None
    \<and> es_observers s' = es_observers s \<and> heap_ext s s' \<and> es_heap s' a = Some e
    \<and> (\<forall>i b. smap_find (es_events s') i = Some b \<longrightarrow> smap_find (es_events s) i = Some b \<and> b \<noteq> a)"
proof -
  have core: "es_core rank sp s" using ok by (simp add: es_ok_def)
  have so: "smap_ok (es_events s)" and no: "smap_ok (es_nodes s)"
    using core by (simp_all add: heap_ok_def nodes_ok_def)
  have ne: "smap_find (es_events s) i = Some a \<Longrightarrow> i = ev_id e" for i
    using core f by (auto simp: heap_ok_def)
  let ?h = "(es_heap s)(a \<mapsto> e)"
  let ?s1 = "s\<lparr>es_heap := ?h\<rparr>"
  have "\<exists>m outs. es_remove rank e s =
      Some (let (s', outs') = update_alerting (s\<lparr>es_heap := ?h, es_nodes := m,
              es_events := smap_erase (es_events s) (ev_id e)\<rparr>)
            in (s', Some a, outs @ outs'))
    \<and> smap_ok m
    \<and> (\<forall>n. ne_events (es_entry n m) =
         (if ev_node e = Some n then filter (\<lambda>b. b \<noteq> a) (node_ptrs s n) else node_ptrs s n))"
  proof (cases "Option.bind (ev_node e) (smap_find (es_nodes s))")
    case None
    have "n_ev \<noteq> Some n \<or> node_ptrs s n = []" if "n_ev = ev_node e" for n_ev n
      using None that by (cases "ev_node e") (auto simp: node_ptrs_def es_entry_def)
    then have "\<forall>n. ne_events (es_entry n (es_nodes s)) =
         (if ev_node e = Some n then filter (\<lambda>b. b \<noteq> a) (node_ptrs s n) else node_ptrs s n)"
      by (auto simp: node_ptrs_def)
    then show ?thesis using None f no
      by (intro exI [of _ "es_nodes s"] exI [of _ "[]"])
         (simp add: es_remove_def case_prod_beta Let_def)
  next
    case (Some ne)
    then obtain n where n: "ev_node e = Some n" "smap_find (es_nodes s) n = Some ne"
      by (auto simp: bind_eq_Some_conv)
    have p: "node_ptrs s n = ne_events ne" by (simp add: node_ptrs_def es_entry_def n)
    have sp: "fst (sp (ev_id e)) = Some n" using con n by (metis consistent_def fst_conv)
    have "set (ne_events ne) = {a. \<exists>i. smap_find (es_events s) i = Some a \<and> fst (sp i) = Some n}"
      unfolding p [symmetric] by (rule nodes_okD(1)) (use core in blast)
    then have mem: "a \<in> set (ne_events ne)" using f sp by blast
    have srt: "key_sorted (ev_key rank (es_heap s)) (ne_events ne)"
      unfolding p [symmetric] by (rule nodes_okD(2)) (use core in blast)
    obtain e0 where "es_heap s a = Some e0" "ev_id e0 = ev_id e" "consistent sp e0"
      using core f heap_okD by blast
    then have "ev_time (the (es_heap s a)) = ev_time e" using con
      by (metis consistent_def option.sel prod.inject)
    then have "\<forall>b \<in> set (ne_events ne). ev_time (the (?h b)) = ev_time (the (es_heap s b))" by simp
    then have "key_sorted (ev_key rank ?h) (ne_events ne)" by (rule key_sorted_heap_cong [OF srt])
    from find_comparer [OF this mem]
    obtain j where j: "set_find (event_comparer rank ?h) a (ne_events ne) = Some j"
      "set_erase_at j (ne_events ne) = filter (\<lambda>b. b \<noteq> a) (ne_events ne)" by blast
    have d: "no_dangling ?h (ne_events ne)"
      using node_ptrs_dom(2) [OF core, of _ n] by (auto simp: no_dangling_def list_all_iff p)
    define ev where "ev = filter (\<lambda>b. b \<noteq> a) (ne_events ne)"
    define m where "m = (if ev = [] \<and> ne_observers ne = [] then smap_erase (es_nodes s) n
      else smap_put (es_nodes s) n (ne\<lparr>ne_events := ev\<rparr>))"
    have "smap_ok m" using no by (simp add: m_def smap_ok_put smap_ok_erase)
    moreover have "\<forall>k. ne_events (es_entry k m) =
         (if ev_node e = Some k then filter (\<lambda>b. b \<noteq> a) (node_ptrs s k) else node_ptrs s k)"
      using no p n(1) by (auto simp: m_def ev_def es_entry_def smap_find_put smap_find_erase node_ptrs_def)
    moreover have "es_remove rank e s =
      Some (let (s', outs') = update_alerting (s\<lparr>es_heap := ?h, es_nodes := m,
              es_events := smap_erase (es_events s) (ev_id e)\<rparr>)
            in (s', Some a, (node_events_changed (es_observers s) n ev
            @ node_events_changed (ne_observers ne) n ev) @ outs'))"
      by (simp add: es_remove_def case_prod_beta Let_def f n j [folded ev_def] d m_def)
    ultimately show ?thesis by blast
  qed
  then obtain m outs where m: "es_remove rank e s =
      Some (let (s', outs') = update_alerting (s\<lparr>es_heap := ?h, es_nodes := m,
              es_events := smap_erase (es_events s) (ev_id e)\<rparr>)
            in (s', Some a, outs @ outs'))" "smap_ok m"
    "\<forall>n. ne_events (es_entry n m) =
         (if ev_node e = Some n then filter (\<lambda>b. b \<noteq> a) (node_ptrs s n) else node_ptrs s n)"
    by blast
  let ?s2 = "s\<lparr>es_heap := ?h, es_nodes := m, es_events := smap_erase (es_events s) (ev_id e)\<rparr>"
  obtain s' outs' where u: "update_alerting ?s2 = (s', outs')" by fastforce
  have h: "heap_ok sp ?s2" "stored ?s2 = (stored s)(ev_id e := None)"
    by (rule remove_heap [OF conjunct1 [OF core] f]; simp)+
  have "nodes_ok rank sp ?s2"
    by (rule remove_nodes [OF core con f]) (use m in \<open>simp_all add: node_ptrs_def\<close>)
  with h have c: "es_core rank sp ?s2" by blast
  note u' = update_alerting_ok [OF c u]
  obtain e0 where "es_heap s a = Some e0" "ev_id e0 = ev_id e"
    using core f heap_okD by blast
  then have "heap_ext s ?s2" by (auto simp: heap_ext_def)
  then have "heap_ext s s'" using u' by (simp add: heap_ext_def)
  then show ?thesis
    using m(1) u u' h(2) ne so by (auto simp: smap_find_erase Let_def)
qed

section \<open>Clearing\<close>

lemma clear_nodes_entries:
  "clear_nodes obs m = (m', outs) \<Longrightarrow>
   m' = map (\<lambda>(n, ne). (n, ne\<lparr>ne_events := []\<rparr>)) (filter (\<lambda>(n, ne). ne_observers ne \<noteq> []) m)"
  by (induction obs m arbitrary: m' outs rule: clear_nodes.induct)
     (auto simp: Let_def split: prod.splits if_splits)

lemma clear_nodes_ptrs:
  assumes "smap_ok m" "clear_nodes obs m = (m', outs)"
  shows "smap_ok m'" "ne_events (es_entry n m') = []"
proof -
  let ?f = "filter (\<lambda>(n, ne). ne_observers ne \<noteq> []) m"
  have m': "m' = map (\<lambda>(n, ne). (n, ne\<lparr>ne_events := []\<rparr>)) ?f"
    by (rule clear_nodes_entries [OF assms(2)])
  show "smap_ok m'" using key_sorted_filter [OF assms(1)] by (simp add: m' smap_ok_map)
  have "smap_find m' n = map_option (\<lambda>ne. ne\<lparr>ne_events := []\<rparr>) (smap_find ?f n)"
    unfolding m' by (rule smap_find_map)
  then show "ne_events (es_entry n m') = []" by (auto simp: es_entry_def split: option.splits)
qed

lemma es_clear_ok:
  assumes ok: "es_ok rank sp s" and cl: "es_clear s = (s', outs)"
  shows "es_ok rank sp s' \<and> stored s' = Map.empty \<and> es_observers s' = es_observers s"
proof -
  have no: "smap_ok (es_nodes s)" using ok by (simp add: es_ok_def nodes_ok_def)
  obtain m outs1 outs2 where m: "clear_nodes (es_observers s) (es_nodes s) = (m, outs1)"
    and u: "update_alerting (s\<lparr>es_nodes := m, es_heap := es_heap s |` (- (snd ` set (es_events s))),
        es_events := []\<rparr>) = (s', outs2)" and "outs = outs1 @ outs2"
    using cl by (auto simp: es_clear_def Let_def split: prod.splits)
  let ?s = "s\<lparr>es_nodes := m, es_heap := es_heap s |` (- (snd ` set (es_events s))), es_events := []\<rparr>"
  have "nodes_ok rank sp ?s"
    using clear_nodes_ptrs [OF no m] by (simp add: nodes_ok_def node_ptrs_def)
  then have c: "es_core rank sp ?s" by (simp add: heap_ok_def)
  have "stored ?s = Map.empty" by (simp add: stored_def fun_eq_iff)
  then show ?thesis using update_alerting_ok [OF c u] by simp
qed

section \<open>Updating\<close>

text \<open>What one event of a batch does to the map of unacknowledged events.\<close>

definition apply_event ::
    "('i, 'n, 't, 'b) event \<Rightarrow> ('i \<Rightarrow> ('i, 'n, 't, 'b) event option) \<Rightarrow> 'i \<Rightarrow> ('i, 'n, 't, 'b) event option" where
  "apply_event e m = (if ev_acked e then m(ev_id e := None) else m(ev_id e \<mapsto> e))"

text \<open>The ids observers hear about: new or updated events, and acknowledged ones that were stored.\<close>

fun notified_ids ::
    "('i, 'n, 't, 'b) event list \<Rightarrow> ('i \<Rightarrow> ('i, 'n, 't, 'b) event option) \<Rightarrow> 'i list" where
  "notified_ids [] m = []"
| "notified_ids (e # es) m =
     (if ev_acked e \<and> m (ev_id e) = None then [] else [ev_id e]) @ notified_ids es (apply_event e m)"

text \<open>Writing to nodes outside the storage's map changes nothing.\<close>

lemma es_ok_heap_cong:
  assumes ok: "es_ok rank sp s"
    and h: "\<forall>i a. smap_find (es_events s) i = Some a \<longrightarrow> h a = es_heap s a"
  shows "es_ok rank sp (s\<lparr>es_heap := h\<rparr>)" "stored (s\<lparr>es_heap := h\<rparr>) = stored s"
proof -
  let ?s = "s\<lparr>es_heap := h\<rparr>"
  have core: "es_core rank sp s" using ok by (simp add: es_ok_def)
  have p: "node_ptrs ?s = node_ptrs s" by (rule node_ptrs_cong) simp
  have "nodes_ok rank sp ?s"
    unfolding nodes_ok_def
  proof (intro conjI allI)
    show "smap_ok (es_nodes ?s)" using core by (simp add: nodes_ok_def)
    fix n
    have st: "set (node_ptrs s n) = {a. \<exists>i. smap_find (es_events s) i = Some a \<and> fst (sp i) = Some n}"
      by (rule nodes_okD(1)) (use core in blast)
    then show "set (node_ptrs ?s n) =
      {a. \<exists>i. smap_find (es_events ?s) i = Some a \<and> fst (sp i) = Some n}" by (simp add: p)
    have "\<forall>a \<in> set (node_ptrs s n). ev_time (the (h a)) = ev_time (the (es_heap s a))"
      using h unfolding st by auto
    moreover have "key_sorted (ev_key rank (es_heap s)) (node_ptrs s n)"
      by (rule nodes_okD(2)) (use core in blast)
    ultimately have "key_sorted (ev_key rank h) (node_ptrs s n)" by (rule key_sorted_heap_cong [rotated])
    then show "key_sorted (ev_key rank (es_heap ?s)) (node_ptrs ?s n)" unfolding p by simp
  qed
  moreover have "heap_ok sp ?s" using core h by (simp add: heap_ok_def)
  ultimately show "es_ok rank sp ?s" using ok by (simp add: es_ok_def)
  show "stored ?s = stored s"
    using h by (auto simp: stored_def fun_eq_iff split: Option.bind_splits)
qed

lemma stored_None:
  "heap_ok sp s \<Longrightarrow> stored s i = None \<longleftrightarrow> smap_find (es_events s) i = None"
  using heap_okD by (fastforce simp: stored_def split: Option.bind_splits)

text \<open>Nodes the update holds outside the map: still allocated, in the map under no id.\<close>

definition detached :: "nat list \<Rightarrow> ('i::linorder, 'n, 't, 'b, 'o) event_storage \<Rightarrow> bool" where
  "detached D s \<longleftrightarrow> (\<forall>a \<in> set D. a < es_next s \<and> (\<forall>i. smap_find (es_events s) i \<noteq> Some a))"

definition notify_ok :: "nat list \<Rightarrow> 'i list \<Rightarrow> ('i, 'n, 't, 'b, 'o) event_storage \<Rightarrow> bool" where
  "notify_ok N ids s \<longleftrightarrow>
     list_all2 (\<lambda>a i. a < es_next s \<and> (\<exists>e. es_heap s a = Some e \<and> ev_id e = i)) N ids"

lemma notify_ok_ext: "notify_ok N ids s \<Longrightarrow> heap_ext s s' \<Longrightarrow> notify_ok N ids s'"
  unfolding notify_ok_def heap_ext_def by (erule list_all2_mono) fastforce

lemma notify_ok_snoc:
  "notify_ok N ids s \<Longrightarrow> a < es_next s \<Longrightarrow> es_heap s a = Some e \<Longrightarrow> ev_id e = i \<Longrightarrow>
   notify_ok (N @ [a]) (ids @ [i]) s"
  by (simp add: notify_ok_def list_all2_appendI)

lemma notify_ok_ids: "notify_ok N ids s \<Longrightarrow> map (\<lambda>a. ev_id (the (es_heap s a))) N = ids"
  unfolding notify_ok_def by (induction rule: list_all2_induct) auto

lemma update_loop_ok:
  assumes "es_ok rank sp s" "inj rank" "\<forall>e \<in> set es. consistent sp e"
    "detached D s" "notify_ok N ids s"
  shows "\<exists>s' N' D' outs. update_loop rank es s N D = Some (s', N', D', outs)
    \<and> es_ok rank sp s' \<and> stored s' = fold apply_event es (stored s)
    \<and> es_observers s' = es_observers s \<and> detached D' s'
    \<and> notify_ok N' (ids @ notified_ids es (stored s)) s'"
  using assms
proof (induction es arbitrary: s N D ids)
  case Nil
  then show ?case by simp
next
  case (Cons e es)
  have con: "consistent sp e" "\<forall>e \<in> set es. consistent sp e" using Cons.prems(3) by auto
  have hok: "heap_ok sp s" using Cons.prems(1) by (simp add: es_ok_def)
  show ?case
  proof (cases "ev_acked e")
    case False
    obtain s1 a outs where a: "es_add rank e s = Some (s1, a, outs)" "es_ok rank sp s1"
      "stored s1 = (stored s)(ev_id e \<mapsto> e)" "smap_find (es_events s1) (ev_id e) = Some a"
      "es_observers s1 = es_observers s" "heap_ext s s1"
      "\<forall>i b. smap_find (es_events s1) i = Some b \<longrightarrow> smap_find (es_events s) i = Some b \<or> b = es_next s"
      using es_add_ok [OF Cons.prems(1,2) con(1)] by blast
    have hok1: "heap_ok sp s1" using a(2) by (simp add: es_ok_def)
    have "detached D s1" using Cons.prems(4) a(6,7) by (fastforce simp: detached_def heap_ext_def)
    moreover obtain e1 where e1: "es_heap s1 a = Some e1" "ev_id e1 = ev_id e"
      using heap_okD [OF hok1 a(4)] by blast
    have "a < es_next s1" using hok1 a(4) by (auto simp: heap_ok_def)
    from notify_ok_snoc [OF notify_ok_ext [OF Cons.prems(5) a(6)] this e1]
    have "notify_ok (N @ [a]) (ids @ [ev_id e]) s1" .
    moreover have "stored s1 = apply_event e (stored s)" using a(3) False by (simp add: apply_event_def)
    ultimately show ?thesis
      using Cons.IH [OF a(2) Cons.prems(2) con(2), of D "N @ [a]" "ids @ [ev_id e]"] a(1,5) False
      by auto
  next
    case True
    show ?thesis
    proof (cases "smap_find (es_events s) (ev_id e)")
      case None
      then have "stored s (ev_id e) = None" by (simp add: stored_None [OF hok])
      moreover from this have "apply_event e (stored s) = stored s"
        using True by (auto simp: apply_event_def)
      ultimately show ?thesis
        using Cons.IH [OF Cons.prems(1,2) con(2) Cons.prems(4,5)] True es_remove_none [OF None, of rank]
        by auto
    next
      case (Some a)
      have ns: "stored s (ev_id e) \<noteq> None" using Some by (simp add: stored_None [OF hok])
      obtain s1 outs where r: "es_remove rank e s = Some (s1, Some a, outs)" "es_ok rank sp s1"
        "stored s1 = (stored s)(ev_id e := None)" "es_observers s1 = es_observers s" "heap_ext s s1"
        "es_heap s1 a = Some e"
        "\<forall>i b. smap_find (es_events s1) i = Some b \<longrightarrow> smap_find (es_events s) i = Some b \<and> b \<noteq> a"
        using es_remove_ok [OF Cons.prems(1,2) con(1) Some] by blast
      have same: "s1\<lparr>es_heap := (es_heap s1)(a \<mapsto> e)\<rparr> = s1" using r(6) by (simp add: fun_upd_idem)
      have "a < es_next s" using hok Some by (auto simp: heap_ok_def)
      then have a: "a < es_next s1" using r(5) by (simp add: heap_ext_def)
      have "detached (D @ [a]) s1"
        using Cons.prems(4) r(5,7) a by (fastforce simp: detached_def heap_ext_def)
      moreover have "notify_ok (N @ [a]) (ids @ [ev_id e]) s1"
        by (rule notify_ok_snoc [OF notify_ok_ext [OF Cons.prems(5) r(5)] a r(6)]) simp
      moreover have "stored s1 = apply_event e (stored s)" using r(3) True by (simp add: apply_event_def)
      ultimately show ?thesis
        using Cons.IH [OF r(2) Cons.prems(2) con(2), of "D @ [a]" "N @ [a]" "ids @ [ev_id e]"] r(1,4)
          True ns same
        by auto
    qed
  qed
qed

section \<open>What observers hear of\<close>

text \<open>The observers of a node.\<close>

definition watchers :: "('i, 'n::linorder, 't, 'b, 'o) event_storage \<Rightarrow> 'n \<Rightarrow> 'o list" where
  "watchers s n = ne_observers (es_entry n (es_nodes s))"

text \<open>A notification without the pointers it carries.\<close>

definition bare :: "('i, 'n, 't, 'b, 'o) es_out \<Rightarrow> ('i, 'n, 't, 'b, 'o) es_out" where
  "bare x = (case x of OnItemEventsChanged ob n ptrs \<Rightarrow> OnItemEventsChanged ob n [] | _ \<Rightarrow> x)"

text \<open>
  The notifications during an update of the map \<open>m\<close> of events: when an event comes or goes, the observers of the storage
  and of its node hear of the node, and when the first one comes or the last one goes, those of the storage hear of that.
\<close>

definition event_notices ::
    "'o list \<Rightarrow> ('n \<Rightarrow> 'o list) \<Rightarrow> ('i, 'n, 't, 'b) event \<Rightarrow> ('i \<Rightarrow> ('i, 'n, 't, 'b) event option) \<Rightarrow>
     ('i, 'n, 't, 'b, 'o) es_out list" where
  "event_notices obs at e m =
     (let m' = apply_event e m in
      (if (m (ev_id e) = None) \<noteq> (m' (ev_id e) = None)
       then (case ev_node e of None \<Rightarrow> [] | Some n \<Rightarrow> node_events_changed (obs @ at n) n []) else [])
      @ (if (m = Map.empty) \<noteq> (m' = Map.empty) then map OnAllEventsAcknowledged obs else []))"

fun notices ::
    "'o list \<Rightarrow> ('n \<Rightarrow> 'o list) \<Rightarrow> ('i, 'n, 't, 'b) event list \<Rightarrow> ('i \<Rightarrow> ('i, 'n, 't, 'b) event option) \<Rightarrow>
     ('i, 'n, 't, 'b, 'o) es_out list" where
  "notices obs at [] m = []"
| "notices obs at (e # es) m = event_notices obs at e m @ notices obs at es (apply_event e m)"

lemma bare_node_events [simp]: "map bare (node_events_changed obs n ptrs) = node_events_changed obs n []"
  by (simp add: node_events_changed_def bare_def)

lemma node_events_append: "node_events_changed (a @ b) n ptrs = node_events_changed a n ptrs @ node_events_changed b n ptrs"
  by (simp add: node_events_changed_def)

lemma update_alerting_notices:
  assumes "update_alerting s = (s', outs)"
  shows "map bare outs = (if es_alerting s \<noteq> (es_events s \<noteq> []) then map OnAllEventsAcknowledged (es_observers s) else [])
    \<and> watchers s' = watchers s"
  using assms by (auto simp: update_alerting_def Let_def bare_def watchers_def fun_eq_iff split: if_splits)

lemma stored_empty: "heap_ok sp s \<Longrightarrow> stored s = Map.empty \<longleftrightarrow> es_events s = []"
proof
  assume ok: "heap_ok sp s" and e: "stored s = Map.empty"
  then have none: "smap_find (es_events s) i = None" for i using stored_None [OF ok, of i] by simp
  show "es_events s = []"
  proof (cases "es_events s")
    case (Cons p m)
    then show ?thesis using none [of "fst p"] by (cases p) simp
  qed simp
qed (simp add: stored_def fun_eq_iff)

lemma es_add_notices:
  assumes ok: "es_ok rank sp s" and acked: "\<not> ev_acked e" and ret: "es_add rank e s = Some (s', a, outs)"
  shows "map bare outs = event_notices (es_observers s) (watchers s) e (stored s) \<and> watchers s' = watchers s"
proof -
  have h: "heap_ok sp s" and al: "es_alerting s \<longleftrightarrow> es_events s \<noteq> []" using ok by (simp_all add: es_ok_def)
  have m': "apply_event e (stored s) = (stored s)(ev_id e \<mapsto> e)" using acked by (simp add: apply_event_def)
  have some: "apply_event e (stored s) \<noteq> Map.empty" by (auto simp: m' fun_eq_iff)
  have put: "smap_put (es_events s) i x \<noteq> []" for i x
    by (cases "es_events s") (auto split: if_splits)
  show ?thesis
  proof (cases "smap_find (es_events s) (ev_id e)")
    case (Some b)
    then have "es_events s \<noteq> []" "stored s (ev_id e) \<noteq> None" using stored_None [OF h] by auto
    moreover obtain outs' where u: "update_alerting (s\<lparr>es_heap := (es_heap s)(b \<mapsto> e)\<rparr>) = (s', outs')" "outs = outs'"
      using ret Some by (auto simp: es_add_def split: prod.splits)
    moreover have "watchers (s\<lparr>es_heap := x\<rparr>) = watchers s" for x by (simp add: watchers_def fun_eq_iff)
    ultimately show ?thesis
      using update_alerting_notices [OF u(1)] al some stored_empty [OF h] by (auto simp: event_notices_def m' Let_def)
  next
    case None
    then have new: "stored s (ev_id e) = None" using stored_None [OF h] by blast
    let ?s1 = "s\<lparr>es_events := smap_put (es_events s) (ev_id e) (es_next s), es_heap := (es_heap s)(es_next s \<mapsto> e),
        es_next := Suc (es_next s)\<rparr>"
    have list: "event_notices (es_observers s) (watchers s) e (stored s) =
        (case ev_node e of None \<Rightarrow> [] | Some n \<Rightarrow> node_events_changed (es_observers s @ watchers s n) n [])
        @ (if es_alerting s then [] else map OnAllEventsAcknowledged (es_observers s))"
      using new some stored_empty [OF h] al by (simp add: event_notices_def m')
    show ?thesis
    proof (cases "ev_node e")
      case en: None
      obtain outs' where u: "update_alerting ?s1 = (s', outs')" "outs = outs'"
        using ret None en by (auto simp: es_add_def Let_def split: prod.splits)
      have w: "watchers ?s1 = watchers s" by (simp add: watchers_def fun_eq_iff)
      show ?thesis using update_alerting_notices [OF u(1)] u(2) put list w by (simp add: en)
    next
      case (Some n)
      let ?ne = "es_entry n (es_nodes s)"
      let ?ev = "set_insert (event_comparer rank ((es_heap s)(es_next s \<mapsto> e))) (es_next s) (ne_events ?ne)"
      let ?s2 = "?s1\<lparr>es_nodes := smap_put (es_nodes s) n (?ne\<lparr>ne_events := ?ev\<rparr>)\<rparr>"
      obtain outs' where u: "update_alerting ?s2 = (s', outs')"
        "outs = node_events_changed (es_observers s) n ?ev @ node_events_changed (ne_observers ?ne) n ?ev @ outs'"
        using ret None Some by (auto simp: es_add_def Let_def bind_eq_Some_conv split: prod.splits)
      have w: "watchers ?s2 = watchers s" by (auto simp: watchers_def fun_eq_iff es_entry_def smap_find_put split: option.splits)
      show ?thesis
        using update_alerting_notices [OF u(1)] u(2) put list w by (simp add: Some node_events_append watchers_def)
    qed
  qed
qed

lemma es_remove_notices:
  assumes ok: "es_ok rank sp s" "inj rank" and con: "consistent sp e" and acked: "ev_acked e"
    and f: "smap_find (es_events s) (ev_id e) = Some a" and ret: "es_remove rank e s = Some (s', r, outs)"
  shows "map bare outs = event_notices (es_observers s) (watchers s) e (stored s) \<and> watchers s' = watchers s"
proof -
  have h: "heap_ok sp s" and nk: "nodes_ok rank sp s" and al: "es_alerting s \<longleftrightarrow> es_events s \<noteq> []"
    using ok(1) by (simp_all add: es_ok_def)
  have m': "apply_event e (stored s) = (stored s)(ev_id e := None)" using acked by (simp add: apply_event_def)
  have old: "stored s (ev_id e) \<noteq> None" "stored s \<noteq> Map.empty" "es_alerting s"
    using f stored_None [OF h] stored_empty [OF h] al by auto
  have fin: "stored s' = (stored s)(ev_id e := None)" "es_ok rank sp s'"
    using es_remove_ok [OF ok con f] ret by auto
  then have gone: "(stored s)(ev_id e := None) = Map.empty \<longleftrightarrow> es_events s' = []"
    using stored_empty [of sp s'] by (auto simp: es_ok_def)
  have list: "event_notices (es_observers s) (watchers s) e (stored s) =
      (case ev_node e of None \<Rightarrow> [] | Some n \<Rightarrow> node_events_changed (es_observers s @ watchers s n) n [])
      @ (if es_events s' = [] then map OnAllEventsAcknowledged (es_observers s) else [])"
    using old gone by (simp add: event_notices_def m')
  have same: "es_events s' = smap_erase (es_events s) (ev_id e)"
    if "update_alerting (x\<lparr>es_events := smap_erase (es_events s) (ev_id e)\<rparr>) = (s', y)" for x y
    using that by (auto simp: update_alerting_def Let_def split: if_splits)
  show ?thesis
  proof (cases "ev_node e")
    case None
    let ?s2 = "s\<lparr>es_heap := (es_heap s)(a \<mapsto> e), es_events := smap_erase (es_events s) (ev_id e)\<rparr>"
    have u: "update_alerting ?s2 = (s', outs)"
      using ret f None by (simp add: es_remove_def case_prod_beta Let_def prod_eq_iff)
    have w: "watchers ?s2 = watchers s" by (simp add: watchers_def fun_eq_iff)
    show ?thesis using update_alerting_notices [OF u] list w old same [OF u] by (simp add: None)
  next
    case (Some n)
    have "fst (sp (ev_id e)) = Some n" using con Some by (metis consistent_def fst_conv)
    then have "a \<in> set (node_ptrs s n)" using f unfolding nodes_okD(1) [OF nk] by blast
    then obtain ne where ne: "smap_find (es_nodes s) n = Some ne"
      by (auto simp: node_ptrs_def es_entry_def split: option.splits)
    have so: "smap_ok (es_nodes s)" using nk by (simp add: nodes_ok_def)
    let ?h = "(es_heap s)(a \<mapsto> e)"
    obtain j where j: "set_find (event_comparer rank ?h) a (ne_events ne) = Some j" and d: "no_dangling ?h (ne_events ne)"
      using ret f Some ne by (auto simp: es_remove_def Let_def bind_eq_Some_conv)
    define ev where "ev = set_erase_at j (ne_events ne)"
    define m where "m = (if ev = [] \<and> ne_observers ne = [] then smap_erase (es_nodes s) n
      else smap_put (es_nodes s) n (ne\<lparr>ne_events := ev\<rparr>))"
    let ?s2 = "s\<lparr>es_heap := ?h, es_nodes := m, es_events := smap_erase (es_events s) (ev_id e)\<rparr>"
    have "es_remove rank e s = Some (let (s', outs') = update_alerting ?s2 in (s', Some a,
        (node_events_changed (es_observers s) n ev @ node_events_changed (ne_observers ne) n ev) @ outs'))"
      by (simp add: es_remove_def case_prod_beta Let_def f Some ne j [folded ev_def] ev_def [symmetric] d m_def)
    then obtain outs' where u: "update_alerting ?s2 = (s', outs')"
      "outs = node_events_changed (es_observers s) n ev @ node_events_changed (ne_observers ne) n ev @ outs'"
      using ret by (auto simp: Let_def split: prod.splits)
    have w: "watchers ?s2 = watchers s"
      using so ne by (auto simp: watchers_def fun_eq_iff es_entry_def smap_find_put smap_find_erase m_def split: option.splits)
    have "ne_observers ne = watchers s n" by (simp add: watchers_def es_entry_def ne)
    then show ?thesis
      using update_alerting_notices [OF u(1)] u(2) list w old same [OF u(1)] by (simp add: Some node_events_append)
  qed
qed

lemma update_loop_notices:
  assumes "es_ok rank sp s" "inj rank" "\<forall>e \<in> set es. consistent sp e" "update_loop rank es s N D = Some (s', N', D', outs)"
  shows "map bare outs = notices (es_observers s) (watchers s) es (stored s)"
  using assms
proof (induction es arbitrary: s N D outs)
  case (Cons e es)
  have con: "consistent sp e" "\<forall>e \<in> set es. consistent sp e" using Cons.prems(3) by auto
  have hok: "heap_ok sp s" using Cons.prems(1) by (simp add: es_ok_def)
  show ?case
  proof (cases "ev_acked e")
    case False
    obtain s1 a o1 o2 where a: "es_add rank e s = Some (s1, a, o1)" and rest: "update_loop rank es s1 (N @ [a]) D = Some (s', N', D', o2)"
      and outs: "outs = o1 @ o2" using Cons.prems(4) False by (auto simp: bind_eq_Some_conv)
    have s1: "es_ok rank sp s1" "stored s1 = apply_event e (stored s)" "es_observers s1 = es_observers s"
      using es_add_ok [OF Cons.prems(1,2) con(1)] a False by (auto simp: apply_event_def)
    show ?thesis
      using es_add_notices [OF Cons.prems(1) False a] Cons.IH [OF s1(1) Cons.prems(2) con(2) rest] by (simp add: outs s1(2,3))
  next
    case True
    show ?thesis
    proof (cases "smap_find (es_events s) (ev_id e)")
      case None
      then have "stored s (ev_id e) = None" by (simp add: stored_None [OF hok])
      then have "apply_event e (stored s) = stored s" using True by (auto simp: apply_event_def)
      then show ?thesis
        using Cons.IH [OF Cons.prems(1,2) con(2)] Cons.prems(4) True es_remove_none [OF None, of rank]
        by (auto simp: event_notices_def bind_eq_Some_conv Let_def)
    next
      case (Some a)
      obtain s1 o1 where r: "es_remove rank e s = Some (s1, Some a, o1)" "es_ok rank sp s1"
        "stored s1 = apply_event e (stored s)" "es_observers s1 = es_observers s" "es_heap s1 a = Some e"
        using es_remove_ok [OF Cons.prems(1,2) con(1) Some] True by (auto simp: apply_event_def)
      have same: "s1\<lparr>es_heap := (es_heap s1)(a \<mapsto> e)\<rparr> = s1" using r(5) by (simp add: fun_upd_idem)
      obtain o2 where rest: "update_loop rank es s1 (N @ [a]) (D @ [a]) = Some (s', N', D', o2)" and outs: "outs = o1 @ o2"
        using Cons.prems(4) True r(1) same by (auto simp: bind_eq_Some_conv)
      show ?thesis
        using es_remove_notices [OF Cons.prems(1,2) con(1) True Some r(1)] Cons.IH [OF r(2) Cons.prems(2) con(2) rest]
        by (simp add: outs r(3,4))
    qed
  qed
qed simp

lemma es_update_ok:
  assumes ok: "es_ok rank sp s" "inj rank" "\<forall>e \<in> set es. consistent sp e"
  shows "\<exists>s' outs told. es_update rank es s = Some (s', outs @
      (if told = [] then [] else map (\<lambda>ob. OnEvents ob told) (es_observers s)))
    \<and> es_ok rank sp s' \<and> stored s' = fold apply_event es (stored s)
    \<and> es_observers s' = es_observers s \<and> map ev_id told = notified_ids es (stored s)
    \<and> map bare outs = notices (es_observers s) (watchers s) es (stored s)"
proof -
  have "detached [] s" "notify_ok [] [] s" by (simp_all add: detached_def notify_ok_def)
  from update_loop_ok [OF ok this] obtain s1 N D outs where
    u: "update_loop rank es s [] [] = Some (s1, N, D, outs)" "es_ok rank sp s1"
      "stored s1 = fold apply_event es (stored s)" "es_observers s1 = es_observers s" "detached D s1"
      "notify_ok N (notified_ids es (stored s)) s1" by auto
  let ?s = "s1\<lparr>es_heap := es_heap s1 |` (- set D)\<rparr>"
  let ?told = "map (\<lambda>a. the (es_heap s1 a)) N"
  have "\<forall>i a. smap_find (es_events s1) i = Some a \<longrightarrow> (es_heap s1 |` (- set D)) a = es_heap s1 a"
    using u(5) by (auto simp: detached_def restrict_map_def)
  note c = es_ok_heap_cong [OF u(2) this]
  have "map ev_id ?told = notified_ids es (stored s)"
    using notify_ok_ids [OF u(6)] by (simp add: comp_def)
  then show ?thesis
    using u(1,3,4) c update_loop_notices [OF ok u(1)] by (intro exI [of _ ?s] exI [of _ outs] exI [of _ ?told]) (simp add: es_update_def)
qed

end
