(* ===== verification/Event_Fetcher.thy ===== *)
theory Event_Fetcher
  imports Event_Ack_Queue Event_Storage_Facts
begin

text \<open>
  \<open>events/event_fetcher.cpp\<close>: the unacknowledged events of a server, kept in the event storage, and
  their acknowledgement through the queue. \<open>kSeverityMin\<close> and \<open>kSeverityMax\<close> are constants of the
  SCADA core library and so arguments here. The history request \<open>Update\<close> issues is an output; its
  answer, like an event of the subscription, arrives as a later \<open>OnSystemEvents\<close>.
\<close>

record ('i, 'n, 't, 'b, 'o, 'c) event_fetcher =
  ef_connected :: bool
  ef_severity_min :: nat
  ef_storage :: "('i, 'n, 't, 'b, 'o) event_storage"
  ef_queue :: "('i, 'c) ack_queue"

datatype ('i, 'n, 't, 'b, 'o, 'c) ef_out =
  EfStorage "('i, 'n, 't, 'b, 'o) es_out"
| EfQueue "('i, 'c) aq_out"
| HistoryReadEvents

definition ef_unacked_events :: "('i, 'n, 't, 'b, 'o, 'c) event_fetcher \<Rightarrow> ('i, nat) smap" where
  "ef_unacked_events f = es_events (ef_storage f)"

definition get_item_unacked_events ::
    "'n::linorder \<Rightarrow> ('i, 'n, 't, 'b, 'o, 'c) event_fetcher \<Rightarrow> nat list option" where
  "get_item_unacked_events n f = get_node_events n (ef_storage f)"

definition is_alerting :: "'n::linorder \<Rightarrow> ('i, 'n, 't, 'b, 'o, 'c) event_fetcher \<Rightarrow> bool" where
  "is_alerting n f = (case get_item_unacked_events n f of None \<Rightarrow> False | Some events \<Rightarrow> events \<noteq> [])"

definition ef_is_acking :: "('i, 'n, 't, 'b, 'o, 'c) event_fetcher \<Rightarrow> bool" where
  "ef_is_acking f = is_acking (ef_queue f)"

definition acknowledge_event ::
    "'i \<Rightarrow> ('i, 'n, 't, 'b, 'o, 'c) event_fetcher \<Rightarrow>
     (('i, 'n, 't, 'b, 'o, 'c) event_fetcher \<times> ('i, 'n, 't, 'b, 'o, 'c) ef_out list) option" where
  "acknowledge_event i f = do {
     (q, outs) \<leftarrow> queue_ack i (ef_queue f);
     Some (f\<lparr>ef_queue := q\<rparr>, map EfQueue outs)
   }"

fun acknowledge_events ::
    "'i list \<Rightarrow> ('i, 'n, 't, 'b, 'o, 'c) event_fetcher \<Rightarrow>
     (('i, 'n, 't, 'b, 'o, 'c) event_fetcher \<times> ('i, 'n, 't, 'b, 'o, 'c) ef_out list) option" where
  "acknowledge_events [] f = Some (f, [])"
| "acknowledge_events (i # ids) f = do {
     (f', outs) \<leftarrow> acknowledge_event i f;
     (f'', outs') \<leftarrow> acknowledge_events ids f';
     Some (f'', outs @ outs')
   }"

definition acknowledge_item_events ::
    "'n::linorder \<Rightarrow> ('i, 'n, 't, 'b, 'o, 'c) event_fetcher \<Rightarrow>
     (('i, 'n, 't, 'b, 'o, 'c) event_fetcher \<times> ('i, 'n, 't, 'b, 'o, 'c) ef_out list) option" where
  "acknowledge_item_events n f =
     (case get_item_unacked_events n f of
        None \<Rightarrow> Some (f, [])
      | Some events \<Rightarrow> do {
          check (no_dangling (es_heap (ef_storage f)) events);
          acknowledge_events (map (\<lambda>a. ev_id (the (es_heap (ef_storage f) a))) events) f
        })"

definition acknowledge_all_events ::
    "('i, 'n, 't, 'b, 'o, 'c) event_fetcher \<Rightarrow>
     (('i, 'n, 't, 'b, 'o, 'c) event_fetcher \<times> ('i, 'n, 't, 'b, 'o, 'c) ef_out list) option" where
  "acknowledge_all_events f = do {
     check (no_dangling (es_heap (ef_storage f)) (map snd (ef_unacked_events f)));
     acknowledge_events (map (\<lambda>(i, a). ev_id (the (es_heap (ef_storage f) a))) (ef_unacked_events f)) f
   }"

text \<open>\<open>SetSeverityMin\<close>: a new threshold in range drops everything and asks the history again.\<close>

definition set_severity_min ::
    "nat \<Rightarrow> nat \<Rightarrow> nat \<Rightarrow> ('i, 'n, 't, 'b, 'o, 'c) event_fetcher \<Rightarrow>
     ('i, 'n, 't, 'b, 'o, 'c) event_fetcher \<times> ('i, 'n, 't, 'b, 'o, 'c) ef_out list" where
  "set_severity_min smin smax severity f =
     (if severity < smin \<or> severity > smax then (f, [])
      else if ef_severity_min f = severity then (f, [])
      else let (storage, outs) = es_clear (ef_storage f)
           in (f\<lparr>ef_severity_min := severity, ef_queue := queue_reset (ef_queue f),
                 ef_storage := storage\<rparr>,
               map EfStorage outs @ [HistoryReadEvents]))"

text \<open>The first loop of \<open>OnSystemEvents\<close>: confirmations reach the queue whatever the severity.\<close>

fun ack_confirmations ::
    "('i, 'n, 't, 'b) event list \<Rightarrow> ('i, 'c) ack_queue \<Rightarrow>
     (('i, 'c) ack_queue \<times> ('i, 'c) aq_out list) option" where
  "ack_confirmations [] q = Some (q, [])"
| "ack_confirmations (e # es) q = do {
     (q', outs) \<leftarrow> (if ev_acked e then on_acked (ev_id e) q else Some (q, []));
     (q'', outs') \<leftarrow> ack_confirmations es q';
     Some (q'', outs @ outs')
   }"

definition on_system_events ::
    "(nat \<Rightarrow> 'r::linorder) \<Rightarrow> ('i::linorder, 'n::linorder, 't::linorder, 'b) event list \<Rightarrow>
     ('i, 'n, 't, 'b, 'o, 'c) event_fetcher \<Rightarrow>
     (('i, 'n, 't, 'b, 'o, 'c) event_fetcher \<times> ('i, 'n, 't, 'b, 'o, 'c) ef_out list) option" where
  "on_system_events rank events f = do {
     (q, outs) \<leftarrow> ack_confirmations events (ef_queue f);
     let filtered_events = filter (\<lambda>e. ev_severity e \<ge> ef_severity_min f) events;
     (storage, outs') \<leftarrow> (if filtered_events \<noteq> [] then es_update rank filtered_events (ef_storage f)
                          else Some (ef_storage f, []));
     Some (f\<lparr>ef_queue := q, ef_storage := storage\<rparr>, map EfQueue outs @ map EfStorage outs')
   }"

definition ef_on_channel_opened ::
    "'c \<Rightarrow> ('i, 'n, 't, 'b, 'o, 'c) event_fetcher \<Rightarrow>
     ('i, 'n, 't, 'b, 'o, 'c) event_fetcher \<times> ('i, 'n, 't, 'b, 'o, 'c) ef_out list" where
  "ef_on_channel_opened c f =
     (f\<lparr>ef_connected := True, ef_queue := on_channel_opened c (ef_queue f)\<rparr>, [HistoryReadEvents])"

definition ef_on_channel_closed ::
    "('i, 'n, 't, 'b, 'o, 'c) event_fetcher \<Rightarrow> ('i, 'n, 't, 'b, 'o, 'c) event_fetcher" where
  "ef_on_channel_closed f = f\<lparr>ef_connected := False\<rparr>"

definition new_fetcher :: "nat \<Rightarrow> 'c \<Rightarrow> ('i, 'n, 't, 'b, 'o, 'c) event_fetcher" where
  "new_fetcher smin c = \<lparr>ef_connected = False, ef_severity_min = smin, ef_storage = empty_storage,
     ef_queue = empty_queue c\<rparr>"

section \<open>Runs\<close>

datatype ('i, 'n, 't, 'b, 'o, 'c) ef_event =
  SystemEvents "('i, 'n, 't, 'b) event list"
| SetSeverityMin nat
| AcknowledgeEvent 'i
| AcknowledgeItem 'n
| AcknowledgeAll
| RunAckTask
| ChannelOpened 'c
| ChannelClosed
| AddObserver 'o
| RemoveObserver 'o
| AddItemObserver 'n 'o
| RemoveItemObserver 'n 'o

definition ef_handle ::
    "(nat \<Rightarrow> 'r::linorder) \<Rightarrow> nat \<Rightarrow> nat \<Rightarrow>
     ('i::linorder, 'n::linorder, 't::linorder, 'b, 'o::linorder, 'c) ef_event \<Rightarrow>
     ('i, 'n, 't, 'b, 'o, 'c) event_fetcher \<Rightarrow>
     (('i, 'n, 't, 'b, 'o, 'c) event_fetcher \<times> ('i, 'n, 't, 'b, 'o, 'c) ef_out list) option" where
  "ef_handle rank smin smax e f =
     (case e of
        SystemEvents es \<Rightarrow> on_system_events rank es f
      | SetSeverityMin s \<Rightarrow> Some (set_severity_min smin smax s f)
      | AcknowledgeEvent i \<Rightarrow> acknowledge_event i f
      | AcknowledgeItem n \<Rightarrow> acknowledge_item_events n f
      | AcknowledgeAll \<Rightarrow> acknowledge_all_events f
      | RunAckTask \<Rightarrow> do {
          (q, outs) \<leftarrow> aq_handle RunTask (ef_queue f);
          Some (f\<lparr>ef_queue := q\<rparr>, map EfQueue outs)
        }
      | ChannelOpened c \<Rightarrow> Some (ef_on_channel_opened c f)
      | ChannelClosed \<Rightarrow> Some (ef_on_channel_closed f, [])
      | AddObserver ob \<Rightarrow> Some (f\<lparr>ef_storage := es_add_observer ob (ef_storage f)\<rparr>, [])
      | RemoveObserver ob \<Rightarrow> Some (f\<lparr>ef_storage := es_remove_observer ob (ef_storage f)\<rparr>, [])
      | AddItemObserver n ob \<Rightarrow> Some (f\<lparr>ef_storage := es_add_node_observer n ob (ef_storage f)\<rparr>, [])
      | RemoveItemObserver n ob \<Rightarrow>
          Some (f\<lparr>ef_storage := es_remove_node_observer n ob (ef_storage f)\<rparr>, []))"

fun ef_run ::
    "(nat \<Rightarrow> 'r::linorder) \<Rightarrow> nat \<Rightarrow> nat \<Rightarrow>
     ('i::linorder, 'n::linorder, 't::linorder, 'b, 'o::linorder, 'c) ef_event list \<Rightarrow>
     ('i, 'n, 't, 'b, 'o, 'c) event_fetcher \<Rightarrow> ('i, 'n, 't, 'b, 'o, 'c) event_fetcher option" where
  "ef_run rank smin smax [] f = Some f"
| "ef_run rank smin smax (e # es) f = do {
     (f', outs) \<leftarrow> ef_handle rank smin smax e f;
     ef_run rank smin smax es f'
   }"

section \<open>The invariant\<close>

definition ef_ok ::
    "(nat \<Rightarrow> 'r::linorder) \<Rightarrow> ('i \<Rightarrow> 'n option \<times> 't) \<Rightarrow>
     ('i::linorder, 'n::linorder, 't::linorder, 'b, 'o, 'c) event_fetcher \<Rightarrow> bool" where
  "ef_ok rank sp f \<longleftrightarrow> es_ok rank sp (ef_storage f) \<and> aq_inv (ef_queue f)
     \<and> (\<forall>i e. stored (ef_storage f) i = Some e \<longrightarrow>
          \<not> ev_acked e \<and> ef_severity_min f \<le> ev_severity e)"

lemma ef_ok_new: "ef_ok rank sp (new_fetcher smin c)"
  by (simp add: ef_ok_def new_fetcher_def es_ok_empty aq_inv_empty)
     (simp add: stored_def empty_storage_def)

lemma queue_ack_ok: "aq_inv q \<Longrightarrow> \<exists>q' outs. queue_ack i q = Some (q', outs) \<and> aq_inv q'"
  using aq_handle_ok [of q "Ack i"] by (simp add: aq_handle_def)

lemma on_acked_ok: "aq_inv q \<Longrightarrow> \<exists>q' outs. on_acked i q = Some (q', outs) \<and> aq_inv q'"
  using aq_handle_ok [of q "Acked i"] by (simp add: aq_handle_def)

lemma ack_confirmations_ok:
  "aq_inv q \<Longrightarrow> \<exists>q' outs. ack_confirmations es q = Some (q', outs) \<and> aq_inv q'"
proof (induction es arbitrary: q)
  case (Cons e es)
  obtain q1 outs where h: "(if ev_acked e then on_acked (ev_id e) q else Some (q, [])) = Some (q1, outs)"
    "aq_inv q1"
    using on_acked_ok [OF Cons.prems, of "ev_id e"] Cons.prems by (cases "ev_acked e") auto
  from Cons.IH [OF h(2)] h show ?case by auto
qed simp

lemma acknowledge_events_ok:
  "aq_inv (ef_queue f) \<Longrightarrow>
   \<exists>q outs. acknowledge_events ids f = Some (f\<lparr>ef_queue := q\<rparr>, outs) \<and> aq_inv q"
proof (induction ids arbitrary: f)
  case Nil
  then show ?case by (intro exI [of _ "ef_queue f"] exI [of _ "[]"]) simp
next
  case (Cons i ids)
  obtain q outs where h: "queue_ack i (ef_queue f) = Some (q, outs)" "aq_inv q"
    using queue_ack_ok [OF Cons.prems] by blast
  from Cons.IH [of "f\<lparr>ef_queue := q\<rparr>"] h show ?case by (auto simp: acknowledge_event_def)
qed

lemma fold_apply_event:
  "fold apply_event es m i = Some e \<Longrightarrow> m i = Some e \<or> (e \<in> set es \<and> \<not> ev_acked e)"
  by (induction es arbitrary: m) (fastforce simp: apply_event_def split: if_splits)+

lemma on_system_events_ok:
  assumes ok: "ef_ok rank sp f" and inj: "inj rank" and con: "\<forall>e \<in> set es. consistent sp e"
  shows "\<exists>f' outs. on_system_events rank es f = Some (f', outs) \<and> ef_ok rank sp f'
    \<and> stored (ef_storage f')
      = fold apply_event (filter (\<lambda>e. ef_severity_min f \<le> ev_severity e) es) (stored (ef_storage f))
    \<and> ef_severity_min f' = ef_severity_min f"
proof -
  obtain q outs where q: "ack_confirmations es (ef_queue f) = Some (q, outs)" "aq_inv q"
    using ack_confirmations_ok ok unfolding ef_ok_def by blast
  let ?fl = "filter (\<lambda>e. ef_severity_min f \<le> ev_severity e) es"
  have so: "es_ok rank sp (ef_storage f)" using ok by (simp add: ef_ok_def)
  obtain st outs' where st: "(if ?fl \<noteq> [] then es_update rank ?fl (ef_storage f)
      else Some (ef_storage f, [])) = Some (st, outs')" "es_ok rank sp st"
    "stored st = fold apply_event ?fl (stored (ef_storage f))"
  proof (cases "?fl = []")
    case False
    have "\<forall>e \<in> set ?fl. consistent sp e" using con by simp
    from es_update_ok [OF so inj this] False that show ?thesis by auto
  qed (use so that in auto)
  have "\<not> ev_acked e \<and> ef_severity_min f \<le> ev_severity e" if "stored st i = Some e" for i e
  proof -
    have "fold apply_event ?fl (stored (ef_storage f)) i = Some e" using that st(3) by simp
    from fold_apply_event [OF this] show ?thesis using ok unfolding ef_ok_def by auto
  qed
  then have "ef_ok rank sp (f\<lparr>ef_queue := q, ef_storage := st\<rparr>)"
    using q(2) st(2) by (simp add: ef_ok_def)
  moreover have "on_system_events rank es f =
      Some (f\<lparr>ef_queue := q, ef_storage := st\<rparr>, map EfQueue outs @ map EfStorage outs')"
    by (simp only: on_system_events_def Let_def q(1) Option.bind_lunit st(1) prod.case)
  ultimately show ?thesis using st(3)
    by (intro exI [of _ "f\<lparr>ef_queue := q, ef_storage := st\<rparr>"] exI conjI) (assumption | simp)+
qed

lemma es_ok_node_observers:
  assumes "es_ok rank sp s" "smap_ok (es_nodes s)"
    "es_nodes s' = smap_put (es_nodes s) n ((es_entry n (es_nodes s))\<lparr>ne_observers := obs\<rparr>)"
    "es_events s' = es_events s" "es_heap s' = es_heap s" "es_next s' = es_next s"
    "es_alerting s' = es_alerting s"
  shows "es_ok rank sp s' \<and> stored s' = stored s"
proof -
  have "node_ptrs s' m = node_ptrs s m" for m
    unfolding node_ptrs_put [OF assms(3)] by (simp add: node_ptrs_def)
  then show ?thesis using assms
    by (auto simp add: es_ok_def heap_ok_def nodes_ok_def stored_def [abs_def] smap_ok_put)
qed

lemma es_ok_observers:
  assumes "es_ok rank sp s"
  shows "es_ok rank sp (s\<lparr>es_observers := obs\<rparr>) \<and> stored (s\<lparr>es_observers := obs\<rparr>) = stored s"
  using assms by (simp add: es_ok_def heap_ok_def nodes_ok_def stored_def fun_eq_iff node_ptrs_def)

lemma set_severity_min_ok:
  assumes "ef_ok rank sp f" "set_severity_min smin smax sev f = (f', outs)"
  shows "ef_ok rank sp f'"
proof (cases "(sev < smin \<or> sev > smax) \<or> ef_severity_min f = sev")
  case True
  then show ?thesis using assms by (auto simp: set_severity_min_def split: if_splits)
next
  case False
  obtain st outs' where c: "es_clear (ef_storage f) = (st, outs')" by fastforce
  have "es_ok rank sp st \<and> stored st = Map.empty"
    using es_clear_ok [OF _ c] assms(1) by (auto simp: ef_ok_def)
  moreover have "aq_inv (queue_reset (ef_queue f))"
    using assms(1) by (simp add: ef_ok_def aq_inv_def queue_reset_def)
  ultimately show ?thesis using assms(2) False c by (auto simp: set_severity_min_def ef_ok_def)
qed

end
