(* ===== verification/Event_Claims.thy ===== *)
theory Event_Claims
  imports Event_Fetcher
begin

text \<open>The properties of the event storage and of the event fetcher.\<close>

definition ex_rank :: "nat \<Rightarrow> nat" where
  "ex_rank a = a"

lemma inj_ex_rank [simp]: "inj ex_rank"
  by (simp add: ex_rank_def [abs_def])

abbreviation ex_event :: "nat \<Rightarrow> bool \<Rightarrow> (nat, nat, nat, unit) event" where
  "ex_event i acked \<equiv> \<lparr>ev_id = i, ev_time = 20, ev_node = Some 4, ev_severity = 50,
     ev_acked = acked, ev_body = ()\<rparr>"

abbreviation ex_sp :: "nat \<Rightarrow> nat option \<times> nat" where
  "ex_sp i \<equiv> (Some 4, 20)"

text \<open>C13: On consistent events \<open>EventStorage::Update\<close> never fails a check or touches a dangling
  pointer; it implements an update of the map of unacknowledged events, unacknowledged events being
  put and acknowledged ones removed in order, and keeps the index by node exact and the alerting flag
  equal to having events. It notifies of exactly this and in this order: for each event that comes or goes the observers
  of the storage and of its node hear of the node (with the pointers of its events, which the statement leaves out), when
  the first event comes or the last one goes the observers of the storage hear of that, and at the end each observer of
  the storage hears once of the events that were put or whose acknowledgement removed something, if there are any. An
  event is consistent if its id always comes with the same node and time.\<close>

theorem update_refines:
  assumes "es_ok rank sp s" "inj rank" "\<forall>e \<in> set es. consistent sp e"
  shows "\<exists>s' outs told. es_update rank es s = Some (s', outs @
      (if told = [] then [] else map (\<lambda>ob. OnEvents ob told) (es_observers s)))
    \<and> es_ok rank sp s' \<and> stored s' = fold apply_event es (stored s)
    \<and> es_observers s' = es_observers s \<and> map ev_id told = notified_ids es (stored s)
    \<and> map bare outs = notices (es_observers s) (watchers s) es (stored s)"
  using assms by (rule es_update_ok)

abbreviation ex_events :: "(nat, nat, nat, unit) event list" where
  "ex_events \<equiv> [ex_event 7 False, ex_event 8 False, ex_event 7 True]"

abbreviation ex_observed :: "(nat, nat, nat, unit, nat) event_storage" where
  "ex_observed \<equiv> es_add_node_observer 4 3 (es_add_observer 2 empty_storage)"

theorem update_refines_witness:
  "\<exists>s' outs told. es_update ex_rank ex_events ex_observed
      = Some (s', outs @ (if told = [] then [] else map (\<lambda>ob. OnEvents ob told) (es_observers ex_observed)))
    \<and> es_ok ex_rank ex_sp s' \<and> stored s' = fold apply_event ex_events (stored ex_observed)
    \<and> es_observers s' = es_observers ex_observed \<and> map ev_id told = notified_ids ex_events (stored ex_observed)
    \<and> map bare outs = notices (es_observers ex_observed) (watchers ex_observed) ex_events (stored ex_observed)"
proof (rule update_refines [of ex_rank ex_sp])
  show "es_ok ex_rank ex_sp ex_observed"
    by (simp add: es_ok_def heap_ok_def nodes_ok_def empty_storage_def node_ptrs_def es_entry_def es_add_node_observer_def
        es_add_observer_def Let_def)
qed (simp_all add: consistent_def)

text \<open>\<open>GetNodeEvents\<close> returns, for a node with stored events, pointers to exactly the stored
  events of that node, without duplicates and by increasing time.\<close>

theorem get_node_events_correct:
  assumes "es_ok rank sp s" "stored s i = Some e" "ev_node e = Some n"
  shows "\<exists>ptrs. get_node_events n s = Some ptrs
    \<and> sorted (map (\<lambda>a. ev_time (the (es_heap s a))) ptrs) \<and> distinct ptrs
    \<and> (\<lambda>a. es_heap s a) ` set ptrs
      = {Some e' | e'. stored s (ev_id e') = Some e' \<and> ev_node e' = Some n}"
proof -
  have hok: "heap_ok sp s" and nok: "nodes_ok rank sp s" using assms(1) by (auto simp: es_ok_def)
  obtain a where a: "smap_find (es_events s) i = Some a" "es_heap s a = Some e"
    using assms(2) by (auto simp: stored_def bind_eq_Some_conv)
  have con: "fst (sp (ev_id e')) = ev_node e'" if "smap_find (es_events s) j = Some b" "es_heap s b = Some e'" for j b e'
    using heap_okD [OF hok that(1)] that(2) by (metis consistent_def fst_conv option.inject)
  have ide: "ev_id e' = j" if "smap_find (es_events s) j = Some b" "es_heap s b = Some e'" for j b e'
    using heap_okD [OF hok that(1)] that(2) by (metis option.inject)
  note st = nodes_okD(1) [OF nok, of n] and srt = nodes_okD(2) [OF nok, of n]
  have "a \<in> set (node_ptrs s n)" using a assms(3) con [OF a] ide [OF a] unfolding st by auto
  then have g: "get_node_events n s = Some (node_ptrs s n)"
    by (auto simp: get_node_events_def node_ptrs_def es_entry_def split: option.splits)
  have "sorted_wrt (\<lambda>a b. ev_time (the (es_heap s a)) \<le> ev_time (the (es_heap s b))) (node_ptrs s n)"
    using srt by (rule sorted_wrt_mono_rel [rotated]) auto
  then have 1: "sorted (map (\<lambda>a. ev_time (the (es_heap s a))) (node_ptrs s n))"
    by (simp add: sorted_map)
  have 2: "distinct (node_ptrs s n)" using key_sorted_distinct [OF srt] by (simp add: distinct_map)
  have 3: "(\<lambda>a. es_heap s a) ` set (node_ptrs s n)
      = {Some e' | e'. stored s (ev_id e') = Some e' \<and> ev_node e' = Some n}" (is "?l = ?r")
  proof (intro equalityI subsetI)
    fix x assume "x \<in> ?l"
    then obtain b j where b: "smap_find (es_events s) j = Some b" "fst (sp j) = Some n" "x = es_heap s b"
      unfolding st by auto
    obtain e' where e': "es_heap s b = Some e'" "ev_id e' = j" using heap_okD [OF hok b(1)] by blast
    then have "stored s (ev_id e') = Some e'" using b by (simp add: stored_def)
    moreover have "ev_node e' = Some n" using con [OF b(1) e'(1)] b(2) e'(2) by simp
    ultimately show "x \<in> ?r" using b(3) e'(1) by auto
  next
    fix x assume "x \<in> ?r"
    then obtain e' where e': "x = Some e'" "stored s (ev_id e') = Some e'" "ev_node e' = Some n" by blast
    obtain b where b: "smap_find (es_events s) (ev_id e') = Some b" "es_heap s b = Some e'"
      using e'(2) by (auto simp: stored_def bind_eq_Some_conv)
    then have "b \<in> set (node_ptrs s n)" using con [OF b] e'(3) unfolding st by auto
    then show "x \<in> ?l" using b(2) e'(1) by (intro image_eqI [of _ _ b]) simp_all
  qed
  show ?thesis using g 1 2 3 by blast
qed

abbreviation ex_storage :: "(nat, nat, nat, unit, nat) event_storage" where
  "ex_storage \<equiv> \<lparr>es_events = [(7, 0)], es_heap = [0 \<mapsto> ex_event 7 False], es_next = 3,
     es_nodes = [(4, \<lparr>ne_events = [0], ne_observers = []\<rparr>)], es_observers = [], es_alerting = True\<rparr>"

lemma ex_storage_ok: "es_ok ex_rank ex_sp ex_storage"
  by (auto simp: es_ok_def heap_ok_def nodes_ok_def node_ptrs_def es_entry_def consistent_def
      split: if_splits)

theorem get_node_events_correct_witness:
  "\<exists>ptrs. get_node_events 4 ex_storage = Some ptrs
    \<and> sorted (map (\<lambda>a. ev_time (the (es_heap ex_storage a))) ptrs) \<and> distinct ptrs
    \<and> (\<lambda>a. es_heap ex_storage a) ` set ptrs
      = {Some e' | e'. stored ex_storage (ev_id e') = Some e' \<and> ev_node e' = Some 4}"
  by (rule get_node_events_correct [OF ex_storage_ok, of 7 "ex_event 7 False"])
     (simp_all add: stored_def)

text \<open>\<open>Clear\<close> leaves no stored event, an alerting flag that is off and every observer of the
  storage registered, and its result is again a consistent storage.\<close>

theorem clear_correct:
  assumes "es_ok rank sp s"
  shows "\<exists>s' outs. es_clear s = (s', outs) \<and> es_ok rank sp s' \<and> stored s' = Map.empty
    \<and> \<not> es_alerting s' \<and> es_observers s' = es_observers s
    \<and> map_option ne_observers (smap_find (es_nodes s') n)
      = map_option ne_observers (Option.bind (smap_find (es_nodes s) n)
          (\<lambda>ne. if ne_observers ne = [] then None else Some ne))"
proof -
  obtain s' outs where c: "es_clear s = (s', outs)" by fastforce
  have ok: "es_ok rank sp s'" "stored s' = Map.empty" "es_observers s' = es_observers s"
    using es_clear_ok [OF assms c] by blast+
  obtain m o1 o2 where m: "clear_nodes (es_observers s) (es_nodes s) = (m, o1)" "outs = o1 @ o2"
    and u: "update_alerting (s\<lparr>es_nodes := m, es_heap := es_heap s |` (- (snd ` set (es_events s))),
        es_events := []\<rparr>) = (s', o2)"
    using c by (auto simp: es_clear_def Let_def split: prod.splits)
  have s': "es_nodes s' = m" "\<not> es_alerting s'"
    using u by (auto simp: update_alerting_def Let_def split: if_splits)
  have "smap_ok (es_nodes s)" using assms by (simp add: es_ok_def nodes_ok_def)
  then have "smap_find m n = map_option (\<lambda>ne. ne\<lparr>ne_events := []\<rparr>)
      (case smap_find (es_nodes s) n of None \<Rightarrow> None
       | Some ne \<Rightarrow> if ne_observers ne \<noteq> [] then Some ne else None)"
    using clear_nodes_entries [OF m(1)]
      smap_find_map [of "\<lambda>n ne. ne\<lparr>ne_events := []\<rparr>" "filter (\<lambda>(n, ne). ne_observers ne \<noteq> []) (es_nodes s)" n]
    by (simp add: smap_find_filter)
  then have "map_option ne_observers (smap_find (es_nodes s') n)
      = map_option ne_observers (Option.bind (smap_find (es_nodes s) n)
          (\<lambda>ne. if ne_observers ne = [] then None else Some ne))"
    unfolding s' by (auto split: option.splits)
  then show ?thesis using c ok s'(2) by blast
qed

theorem clear_correct_witness:
  "\<exists>s' outs. es_clear ex_storage = (s', outs) \<and> es_ok ex_rank ex_sp s' \<and> stored s' = Map.empty
    \<and> \<not> es_alerting s' \<and> es_observers s' = es_observers ex_storage
    \<and> map_option ne_observers (smap_find (es_nodes s') 4)
      = map_option ne_observers (Option.bind (smap_find (es_nodes ex_storage) 4)
          (\<lambda>ne. if ne_observers ne = [] then None else Some ne))"
  by (rule clear_correct [OF ex_storage_ok])

text \<open>An update that moves a stored event to another node is not tolerated, although the comment
  in \<open>Add\<close> says so: when the event is acknowledged later, the set of its first node keeps the pointer
  to the deleted event (so \<open>GetNodeEvents\<close> hands out a dangling pointer and the node stays alerting),
  and when the other node has an entry of its own, for example because it is observed, the check in
  \<open>Remove\<close> fails.\<close>

theorem node_change_not_tolerated:
  "(\<exists>s outs. es_update ex_rank
        [ex_event 7 False, (ex_event 7 False)\<lparr>ev_node := Some 5\<rparr>, (ex_event 7 True)\<lparr>ev_node := Some 5\<rparr>]
        (empty_storage :: (nat, nat, nat, unit, nat) event_storage) = Some (s, outs)
      \<and> stored s = Map.empty \<and> get_node_events 4 s = Some [0] \<and> es_heap s 0 = None)
   \<and> es_update ex_rank
        [ex_event 7 False, (ex_event 7 False)\<lparr>ev_node := Some 5\<rparr>, (ex_event 7 True)\<lparr>ev_node := Some 5\<rparr>]
        (es_add_node_observer 5 2 (empty_storage :: (nat, nat, nat, unit, nat) event_storage)) = None"
  by (simp add: es_update_def es_add_def es_remove_def empty_storage_def update_alerting_def
      Let_def es_entry_def no_dangling_def es_add_node_observer_def set_find_def event_comparer_def
      stored_def get_node_events_def fun_eq_iff)

section \<open>The event fetcher\<close>

lemma ef_handle_ok:
  assumes ok: "ef_ok rank sp f" and inj: "inj rank"
    and con: "\<forall>es. e = SystemEvents es \<longrightarrow> (\<forall>x \<in> set es. consistent sp x)"
  shows "\<exists>f' outs. ef_handle rank smin smax e f = Some (f', outs) \<and> ef_ok rank sp f'"
proof -
  have so: "es_ok rank sp (ef_storage f)" and q: "aq_inv (ef_queue f)"
    and no: "smap_ok (es_nodes (ef_storage f))" and hok: "heap_ok sp (ef_storage f)"
    and nok: "nodes_ok rank sp (ef_storage f)"
    using ok by (auto simp: ef_ok_def es_ok_def nodes_ok_def)
  have qu: "ef_ok rank sp (f\<lparr>ef_queue := q'\<rparr>)" if "aq_inv q'" for q'
    using ok that by (simp add: ef_ok_def)
  have su: "ef_ok rank sp (f\<lparr>ef_storage := s'\<rparr>)"
    if "es_ok rank sp s' \<and> stored s' = stored (ef_storage f)" for s'
    using ok that by (simp add: ef_ok_def)
  have acks: "\<exists>f' outs. acknowledge_events ids f = Some (f', outs) \<and> ef_ok rank sp f'" for ids
    using acknowledge_events_ok [OF q, of ids] qu by blast
  show ?thesis
  proof (cases e)
    case (SystemEvents es)
    then show ?thesis using on_system_events_ok [OF ok inj, of es] con by (auto simp: ef_handle_def)
  next
    case (SetSeverityMin s)
    obtain f' outs where "set_severity_min smin smax s f = (f', outs)" by fastforce
    then show ?thesis using SetSeverityMin set_severity_min_ok [OF ok] by (auto simp: ef_handle_def)
  next
    case (AcknowledgeEvent i)
    then show ?thesis using queue_ack_ok [OF q, of i] qu
      by (auto simp: ef_handle_def acknowledge_event_def)
  next
    case (AcknowledgeItem n)
    have "no_dangling (es_heap (ef_storage f)) ptrs" if "get_item_unacked_events n f = Some ptrs" for ptrs
    proof -
      have "ptrs = node_ptrs (ef_storage f) n"
        using that by (auto simp: get_item_unacked_events_def get_node_events_def node_ptrs_def es_entry_def)
      then show ?thesis using node_ptrs_dom(2) [OF conjI [OF hok nok]]
        by (auto simp: no_dangling_def list_all_iff)
    qed
    then show ?thesis using AcknowledgeItem acks ok
      by (cases "get_item_unacked_events n f") (auto simp: ef_handle_def acknowledge_item_events_def)
  next
    case AcknowledgeAll
    have "no_dangling (es_heap (ef_storage f)) (map snd (ef_unacked_events f))"
      using hok by (fastforce simp: no_dangling_def list_all_iff ef_unacked_events_def heap_ok_def
          smap_find_iff)
    then show ?thesis using AcknowledgeAll acks by (simp add: ef_handle_def acknowledge_all_events_def)
  next
    case RunAckTask
    then show ?thesis using aq_handle_ok [OF q, of RunTask] qu by (auto simp: ef_handle_def)
  next
    case (ChannelOpened c)
    then show ?thesis using ok
      by (simp add: ef_handle_def ef_on_channel_opened_def ef_ok_def aq_inv_def on_channel_opened_def)
  next
    case ChannelClosed
    then show ?thesis using ok by (simp add: ef_handle_def ef_on_channel_closed_def ef_ok_def)
  next
    case (AddObserver ob)
    then show ?thesis using es_ok_observers [OF so] su by (simp add: ef_handle_def es_add_observer_def)
  next
    case (RemoveObserver ob)
    then show ?thesis using es_ok_observers [OF so] su
      by (simp add: ef_handle_def es_remove_observer_def)
  next
    case (AddItemObserver n ob)
    then show ?thesis using su [OF es_ok_node_observers [OF so no]]
      by (simp add: ef_handle_def es_add_node_observer_def Let_def)
  next
    case (RemoveItemObserver n ob)
    then show ?thesis using su [OF es_ok_node_observers [OF so no]]
      by (simp add: ef_handle_def es_remove_node_observer_def Let_def)
  qed
qed

lemma ef_run_ok:
  assumes "ef_ok rank sp f" "inj rank"
    "\<forall>es xs. SystemEvents es \<in> set evs \<longrightarrow> (\<forall>x \<in> set es. consistent sp x)"
  shows "\<exists>f'. ef_run rank smin smax evs f = Some f' \<and> ef_ok rank sp f'"
  using assms
proof (induction evs arbitrary: f)
  case (Cons e evs)
  obtain f' outs where "ef_handle rank smin smax e f = Some (f', outs)" "ef_ok rank sp f'"
    using ef_handle_ok [OF Cons.prems(1,2), of e smin smax] Cons.prems(3) by fastforce
  with Cons show ?case by fastforce
qed simp

text \<open>C7: Whatever a new \<open>EventFetcher\<close> goes through (events from the server, whose ids keep their
  node and time, thresholds, acknowledgements of events, of items and of everything, task runs, channel
  changes, observers), no check of the fetcher, the storage or the queue fails, and afterwards only
  unacknowledged events at or above the threshold are stored and at most five acknowledgements run.\<close>

theorem event_fetcher_reachable_ok:
  assumes "inj rank" "\<forall>es. SystemEvents es \<in> set evs \<longrightarrow> (\<forall>x \<in> set es. consistent sp x)"
  shows "\<exists>f. ef_run rank smin smax evs (new_fetcher smin c) = Some f
    \<and> \<not> (\<exists>i e. stored (ef_storage f) i = Some e \<and> (ev_acked e \<or> ev_severity e < ef_severity_min f))
    \<and> card (aq_running (ef_queue f)) \<le> 5
    \<and> (es_alerting (ef_storage f) = (ef_unacked_events f \<noteq> []))"
proof -
  obtain f where f: "ef_run rank smin smax evs (new_fetcher smin c) = Some f" "ef_ok rank sp f"
    using ef_run_ok [OF ef_ok_new assms(1), of evs sp] assms(2) by blast
  then have "es_alerting (ef_storage f) = (ef_unacked_events f \<noteq> [])"
    "card (aq_running (ef_queue f)) \<le> 5"
    by (simp_all add: ef_ok_def es_ok_def ef_unacked_events_def aq_inv_def max_parallel_acks_def)
  moreover have "\<not> (\<exists>i e. stored (ef_storage f) i = Some e \<and> (ev_acked e \<or> ev_severity e < ef_severity_min f))"
    using f(2) unfolding ef_ok_def by (metis not_le)
  ultimately show ?thesis using f(1) by blast
qed

theorem event_fetcher_reachable_ok_witness:
  "\<exists>f. ef_run ex_rank 10 900 [AddObserver 3, ChannelOpened (), SystemEvents [ex_event 7 False],
        AcknowledgeAll, RunAckTask, SetSeverityMin 60, SystemEvents [ex_event 7 True :: (nat, nat, nat, unit) event]]
      (new_fetcher 10 () :: (nat, nat, nat, unit, nat, unit) event_fetcher) = Some f
    \<and> \<not> (\<exists>i e. stored (ef_storage f) i = Some e \<and> (ev_acked e \<or> ev_severity e < ef_severity_min f))
    \<and> card (aq_running (ef_queue f)) \<le> 5
    \<and> (es_alerting (ef_storage f) = (ef_unacked_events f \<noteq> []))"
  by (rule event_fetcher_reachable_ok [of ex_rank _ ex_sp]) (simp_all add: consistent_def)

text \<open>A node alerts exactly when some stored event has it as its source.\<close>

theorem is_alerting_correct:
  assumes "ef_ok rank sp f"
  shows "is_alerting n f = (\<exists>i e. stored (ef_storage f) i = Some e \<and> ev_node e = Some n)"
proof -
  let ?s = "ef_storage f"
  have hok: "heap_ok sp ?s" and nok: "nodes_ok rank sp ?s"
    using assms by (auto simp: ef_ok_def es_ok_def)
  have "is_alerting n f = (node_ptrs ?s n \<noteq> [])"
    by (simp add: is_alerting_def get_item_unacked_events_def get_node_events_def node_ptrs_def
        es_entry_def split: option.splits)
  also have "\<dots> = (set (node_ptrs ?s n) \<noteq> {})" by simp
  also have "\<dots> = (\<exists>a i. smap_find (es_events ?s) i = Some a \<and> fst (sp i) = Some n)"
    unfolding nodes_okD(1) [OF nok] by blast
  also have "\<dots> = (\<exists>i e. stored ?s i = Some e \<and> ev_node e = Some n)"
  proof
    assume "\<exists>a i. smap_find (es_events ?s) i = Some a \<and> fst (sp i) = Some n"
    then obtain a i where a: "smap_find (es_events ?s) i = Some a" "fst (sp i) = Some n" by blast
    obtain e where "es_heap ?s a = Some e" "ev_id e = i" "consistent sp e"
      using heap_okD [OF hok a(1)] by blast
    then show "\<exists>i e. stored ?s i = Some e \<and> ev_node e = Some n"
      using a by (intro exI [of _ i] exI [of _ e]) (auto simp: stored_def consistent_def dest: sym)
  next
    assume "\<exists>i e. stored ?s i = Some e \<and> ev_node e = Some n"
    then obtain i e a where "smap_find (es_events ?s) i = Some a" "es_heap ?s a = Some e" "ev_node e = Some n"
      by (auto simp: stored_def bind_eq_Some_conv)
    then show "\<exists>a i. smap_find (es_events ?s) i = Some a \<and> fst (sp i) = Some n"
      using heap_okD [OF hok, of i a] by (intro exI [of _ a] exI [of _ i]) (auto simp: consistent_def dest: sym)
  qed
  finally show ?thesis .
qed

abbreviation ex_fetcher :: "(nat, nat, nat, unit, nat, unit) event_fetcher" where
  "ex_fetcher \<equiv> \<lparr>ef_connected = True, ef_severity_min = 10, ef_storage = ex_storage,
     ef_queue = empty_queue ()\<rparr>"

lemma ex_fetcher_ok: "ef_ok ex_rank ex_sp ex_fetcher"
  using ex_storage_ok by (simp add: ef_ok_def aq_inv_empty) (simp add: stored_def)

theorem is_alerting_correct_witness:
  "is_alerting 4 ex_fetcher = (\<exists>i e. stored (ef_storage ex_fetcher) i = Some e \<and> ev_node e = Some 4)"
  by (rule is_alerting_correct [OF ex_fetcher_ok])

text \<open>A threshold outside the allowed range, or the present one, changes nothing; any other
  empties the storage and the queue, in flight acknowledgements included, and reads the history again.\<close>

theorem set_severity_min_correct:
  assumes "ef_ok rank sp f"
  shows "\<exists>f' outs. set_severity_min smin smax sev f = (f', outs) \<and>
    (if sev < smin \<or> smax < sev \<or> sev = ef_severity_min f then f' = f \<and> outs = []
     else ef_severity_min f' = sev \<and> stored (ef_storage f') = Map.empty \<and> \<not> ef_is_acking f'
       \<and> last outs = HistoryReadEvents \<and> ef_ok rank sp f')"
proof -
  obtain f' outs where c: "set_severity_min smin smax sev f = (f', outs)" by fastforce
  obtain st o2 where st: "es_clear (ef_storage f) = (st, o2)" by fastforce
  have "stored st = Map.empty" using es_clear_ok [OF _ st] assms by (auto simp: ef_ok_def)
  then show ?thesis using c set_severity_min_ok [OF assms c] st
    by (cases "sev < smin \<or> smax < sev \<or> sev = ef_severity_min f")
       (auto simp: set_severity_min_def ef_is_acking_def is_acking_def queue_reset_def split: if_splits)
qed

theorem set_severity_min_correct_witness:
  "\<exists>f' outs. set_severity_min 10 900 60 ex_fetcher = (f', outs) \<and>
    (if (60::nat) < 10 \<or> (900::nat) < 60 \<or> 60 = ef_severity_min ex_fetcher then f' = ex_fetcher \<and> outs = []
     else ef_severity_min f' = 60 \<and> stored (ef_storage f') = Map.empty \<and> \<not> ef_is_acking f'
       \<and> last outs = HistoryReadEvents \<and> ef_ok ex_rank ex_sp f')"
  by (rule set_severity_min_correct [OF ex_fetcher_ok])

end
