(* ===== verification/Node_State.thy ===== *)
theory Node_State
  imports Prelude
begin

text \<open>
  \<open>common/node_state.h\<close> and \<open>node_state.cpp\<close>: the state of a node as the services exchange it, and
  the updates of its properties and references. Node ids and variants belong to the SCADA core
  library: they are values of any type, with the null id, or the test for the null variant, as an
  argument. The children of a node state are again node states; their type is a parameter here.
\<close>

datatype node_class =
  ObjectClass | VariableClass | MethodClass | ObjectTypeClass | VariableTypeClass | ReferenceTypeClass | DataTypeClass | ViewClass

text \<open>
  A reference description: the edge it names and what a browse may tell of the target. The latter is \<open>None\<close> in a
  description that the code builds itself. Descriptions are compared with all their fields.
\<close>

record 'n browse_details =
  bt_node_class :: "node_class option"
  bt_browse_name :: string
  bt_display_name :: string
  bt_type_definition :: 'n

record 'n reference_description =
  rd_reference_type_id :: 'n
  rd_forward :: bool
  rd_node_id :: 'n
  rd_details :: "'n browse_details option"

definition edge :: "'n reference_description \<Rightarrow> 'n \<times> bool \<times> 'n" where
  "edge r = (rd_reference_type_id r, rd_forward r, rd_node_id r)"

datatype browse_direction = Forward | Inverse | Both

record 'n browse_description =
  bd_node_id :: 'n
  bd_direction :: browse_direction
  bd_reference_type_id :: 'n
  bd_include_subtypes :: bool

record ('n, 's) browse_result =
  br_status_code :: 's
  br_references :: "'n reference_description list"

datatype attribute_id =
  NodeIdAttr | NodeClassAttr | BrowseName | DisplayName | DataType | ValueAttr | InverseName | ValueRank | AccessLevel
| UserAccessLevel | Historizing | MinimumSamplingInterval | Executable | UserExecutable | RolePermissions
| UserRolePermissions | OtherAttr nat

record ('n, 'v, 'c) node_state =
  ns_node_id :: 'n
  ns_node_class :: int
  ns_type_definition_id :: 'n
  ns_parent_id :: 'n
  ns_reference_type_id :: 'n
  ns_browse_name :: "'v option"
  ns_display_name :: "'v option"
  ns_data_type :: 'n
  ns_value :: "'v option"
  ns_properties :: "('n \<times> 'v) list"
  ns_references :: "'n reference_description list"
  ns_children :: "'c list"
  ns_supertype_id :: 'n

text \<open>\<open>GetAttribute\<close>: two attributes are fields of the state, the others are looked up in the
  attribute structure of the core library (\<open>attributes_get\<close>).\<close>

definition get_attribute ::
    "('n \<Rightarrow> 'v) \<Rightarrow> (int \<Rightarrow> 'v) \<Rightarrow> (('n, 'v, 'c) node_state \<Rightarrow> attribute_id \<Rightarrow> 'v option) \<Rightarrow>
     attribute_id \<Rightarrow> ('n, 'v, 'c) node_state \<Rightarrow> 'v option" where
  "get_attribute of_node_id of_int32 attributes_get a ns =
     (case a of
        NodeIdAttr \<Rightarrow> Some (of_node_id (ns_node_id ns))
      | NodeClassAttr \<Rightarrow> Some (of_int32 (ns_node_class ns))
      | _ \<Rightarrow> attributes_get ns a)"

section \<open>References\<close>

definition matches_ref :: "'n \<Rightarrow> bool \<Rightarrow> 'n reference_description \<Rightarrow> bool" where
  "matches_ref t fwd r \<longleftrightarrow> rd_forward r = fwd \<and> rd_reference_type_id r = t"

definition find_reference ::
    "'n reference_description list \<Rightarrow> 'n \<Rightarrow> bool \<Rightarrow> 'n reference_description option" where
  "find_reference refs t fwd = List.find (matches_ref t fwd) refs"

definition find_reference_target :: "'n reference_description list \<Rightarrow> 'n \<Rightarrow> bool \<Rightarrow> 'n option" where
  "find_reference_target refs t fwd = map_option rd_node_id (find_reference refs t fwd)"

definition has_reference :: "'n reference_description \<Rightarrow> ('n, 'v, 'c) node_state \<Rightarrow> bool" where
  "has_reference r ns \<longleftrightarrow> List.member (ns_references ns) r"

text \<open>\<open>SetReference\<close> overwrites or erases the first reference of the same type and direction.\<close>

fun set_reference ::
    "'n \<Rightarrow> 'n reference_description \<Rightarrow> 'n reference_description list \<Rightarrow> 'n reference_description list" where
  "set_reference null u [] = (if rd_node_id u = null then [] else [u])"
| "set_reference null u (r # refs) =
     (if rd_forward r = rd_forward u \<and> rd_reference_type_id r = rd_reference_type_id u
      then if rd_node_id u = null then refs else r\<lparr>rd_node_id := rd_node_id u\<rparr> # refs
      else r # set_reference null u refs)"

definition set_references ::
    "'n \<Rightarrow> 'n reference_description list \<Rightarrow> 'n reference_description list \<Rightarrow> 'n reference_description list" where
  "set_references null updated refs = fold (set_reference null) updated refs"

section \<open>Properties\<close>

fun find_property :: "('n \<times> 'v) list \<Rightarrow> 'n \<Rightarrow> 'v option" where
  "find_property [] d = None"
| "find_property ((d', v) # props) d = (if d' = d then Some v else find_property props d)"

definition get_property :: "'v \<Rightarrow> ('n \<times> 'v) list \<Rightarrow> 'n \<Rightarrow> 'v" where
  "get_property null_variant props d = (case find_property props d of Some v \<Rightarrow> v | None \<Rightarrow> null_variant)"

fun set_property :: "'n \<Rightarrow> 'v \<Rightarrow> ('n \<times> 'v) list \<Rightarrow> ('n \<times> 'v) list \<times> bool" where
  "set_property d v [] = ([], False)"
| "set_property d v ((d', v') # props) =
     (if d' = d then ((d', v) # props, True)
      else let (props', b) = set_property d v props in ((d', v') # props', b))"

text \<open>An absent property is added, a present one overwritten, or erased by a null value.\<close>

fun set_or_add_or_delete_property ::
    "('v \<Rightarrow> bool) \<Rightarrow> 'n \<Rightarrow> 'v \<Rightarrow> ('n \<times> 'v) list \<Rightarrow> ('n \<times> 'v) list" where
  "set_or_add_or_delete_property is_null d v [] = (if is_null v then [] else [(d, v)])"
| "set_or_add_or_delete_property is_null d v ((d', v') # props) =
     (if d' = d then if is_null v then props else (d', v) # props
      else (d', v') # set_or_add_or_delete_property is_null d v props)"

definition set_properties ::
    "('v \<Rightarrow> bool) \<Rightarrow> ('n \<times> 'v) list \<Rightarrow> ('n \<times> 'v) list \<Rightarrow> ('n \<times> 'v) list" where
  "set_properties is_null updated props =
     fold (\<lambda>(d, v). set_or_add_or_delete_property is_null d v) updated props"

definition ns_set_property ::
    "('v \<Rightarrow> bool) \<Rightarrow> 'n \<Rightarrow> 'v \<Rightarrow> ('n, 'v, 'c) node_state \<Rightarrow> ('n, 'v, 'c) node_state" where
  "ns_set_property is_null d v ns =
     ns\<lparr>ns_properties := set_or_add_or_delete_property is_null d v (ns_properties ns)\<rparr>"

section \<open>Laws\<close>

lemma find_property_None: "find_property props d = None \<longleftrightarrow> d \<notin> fst ` set props"
  by (induction props d rule: find_property.induct) auto

lemma set_or_add_keys:
  "distinct (map fst props) \<Longrightarrow>
   fst ` set (set_or_add_or_delete_property is_null d v props)
     = (if is_null v then fst ` set props - {d} else insert d (fst ` set props))
   \<and> distinct (map fst (set_or_add_or_delete_property is_null d v props))"
proof (induction is_null d v props rule: set_or_add_or_delete_property.induct)
  case (2 is_null d v d' v' props)
  then have IH: "d' \<noteq> d \<Longrightarrow>
     fst ` set (set_or_add_or_delete_property is_null d v props)
       = (if is_null v then fst ` set props - {d} else insert d (fst ` set props))
     \<and> distinct (map fst (set_or_add_or_delete_property is_null d v props))" by simp
  show ?case
  proof (cases "d' = d")
    case True
    with "2.prems" show ?thesis by auto
  next
    case False
    with IH "2.prems" show ?thesis by (auto simp: image_iff split: if_splits)
  qed
qed simp

lemma find_set_or_add:
  "distinct (map fst props) \<Longrightarrow>
   find_property (set_or_add_or_delete_property is_null d v props) d'
     = (if d' = d then (if is_null v then None else Some v) else find_property props d')"
proof (induction is_null d v props rule: set_or_add_or_delete_property.induct)
  case (2 is_null d v d0 v0 props)
  show ?case
  proof (cases "d0 = d")
    case True
    then have "find_property props d = None" using "2.prems" by (simp add: find_property_None)
    then show ?thesis using True by auto
  next
    case False
    then show ?thesis using 2 by auto
  qed
qed simp

lemma distinct_set_properties:
  "distinct (map fst props) \<Longrightarrow> distinct (map fst (set_properties is_null updated props))"
  unfolding set_properties_def
  by (induction updated arbitrary: props) (auto simp: set_or_add_keys)

lemma find_set_properties:
  assumes "distinct (map fst props)"
  shows "find_property (set_properties is_null updated props) d
      = (case find_property (rev updated) d of
           None \<Rightarrow> find_property props d
         | Some v \<Rightarrow> if is_null v then None else Some v)"
  using assms
proof (induction updated arbitrary: props)
  case Nil
  then show ?case by (simp add: set_properties_def)
next
  case (Cons u updated)
  have app: "find_property (xs @ ys) d = (case find_property xs d of None \<Rightarrow> find_property ys d | Some v \<Rightarrow> Some v)"
    for xs ys :: "('a \<times> 'b) list"
    by (induction xs d rule: find_property.induct) auto
  obtain d' v where u: "u = (d', v)" by fastforce
  have "set_properties is_null (u # updated) props
      = set_properties is_null updated (set_or_add_or_delete_property is_null d' v props)"
    by (simp add: set_properties_def u)
  moreover have "distinct (map fst (set_or_add_or_delete_property is_null d' v props))"
    using set_or_add_keys [OF Cons.prems] by blast
  ultimately show ?case using Cons.IH
    by (auto simp: u app find_set_or_add [OF Cons.prems] split: option.splits)
qed

text \<open>References are properties keyed by type and direction.\<close>

abbreviation ref_key :: "'n reference_description \<Rightarrow> 'n \<times> bool" where
  "ref_key r \<equiv> (rd_reference_type_id r, rd_forward r)"

definition ref_pair :: "'n reference_description \<Rightarrow> ('n \<times> bool) \<times> 'n" where
  "ref_pair r = (ref_key r, rd_node_id r)"

lemma map_fst_ref_pair: "map fst (map ref_pair refs) = map ref_key refs"
  by (simp add: ref_pair_def)

lemma find_reference_target_pairs:
  "find_reference_target refs t fwd = find_property (map ref_pair refs) (t, fwd)"
  by (induction refs) (auto simp: find_reference_target_def find_reference_def matches_ref_def ref_pair_def)

lemma set_reference_pairs:
  "map ref_pair (set_reference null u refs)
     = set_or_add_or_delete_property (\<lambda>n. n = null) (ref_key u) (rd_node_id u) (map ref_pair refs)"
  by (induction null u refs rule: set_reference.induct) (auto simp: ref_pair_def)

lemma set_references_pairs:
  "map ref_pair (set_references null updated refs)
     = set_properties (\<lambda>n. n = null) (map ref_pair updated) (map ref_pair refs)"
  by (induction updated arbitrary: refs)
     (simp_all add: set_references_def set_properties_def set_reference_pairs, simp add: ref_pair_def)

section \<open>Properties\<close>

text \<open>Applying a batch of property updates to a node state whose properties are distinct keeps
  them distinct and makes each declaration's value the last one the batch gives it, absent when that
  value is null, and the old one for declarations the batch does not name.\<close>

theorem set_properties_correct:
  assumes "distinct (map fst props)"
  shows "distinct (map fst (set_properties is_null updated props))
    \<and> find_property (set_properties is_null updated props) d
      = (case find_property (rev updated) d of
           None \<Rightarrow> find_property props d
         | Some v \<Rightarrow> if is_null v then None else Some v)"
  using distinct_set_properties [OF assms] find_set_properties [OF assms] by blast

abbreviation ex_props :: "(nat \<times> nat) list" where
  "ex_props \<equiv> [(3, 5), (4, 7)]"

abbreviation ex_updates :: "(nat \<times> nat) list" where
  "ex_updates \<equiv> [(4, 0), (6, 9), (6, 8)]"

theorem set_properties_correct_witness:
  "distinct (map fst (set_properties (\<lambda>v. v = 0) ex_updates ex_props))
    \<and> find_property (set_properties (\<lambda>v. v = 0) ex_updates ex_props) 6
      = (case find_property (rev ex_updates) 6 of
           None \<Rightarrow> find_property ex_props 6
         | Some v \<Rightarrow> if v = 0 then None else Some v)"
  by (rule set_properties_correct) simp

text \<open>Updating references keeps at most one per type and direction when there was at most one,
  and makes the target of each updated type and direction the last non-null target given, or none.\<close>

theorem set_references_correct:
  assumes "distinct (map ref_key refs)"
  shows "distinct (map ref_key (set_references null updated refs))
    \<and> find_reference_target (set_references null updated refs) t fwd
      = (case find_reference_target (rev updated) t fwd of
           None \<Rightarrow> find_reference_target refs t fwd
         | Some n \<Rightarrow> if n = null then None else Some n)"
proof -
  have d: "distinct (map fst (map ref_pair refs))" using assms by (simp add: map_fst_ref_pair del: map_map)
  show ?thesis
    using distinct_set_properties [OF d, of "\<lambda>n. n = null" "map ref_pair updated"]
      find_set_properties [OF d, of "\<lambda>n. n = null" "map ref_pair updated" "(t, fwd)"]
    unfolding set_references_pairs [symmetric] rev_map find_reference_target_pairs [symmetric]
      map_fst_ref_pair by blast
qed

abbreviation ex_ref :: "nat \<Rightarrow> bool \<Rightarrow> nat \<Rightarrow> nat reference_description" where
  "ex_ref t fwd n \<equiv> \<lparr>rd_reference_type_id = t, rd_forward = fwd, rd_node_id = n, rd_details = None\<rparr>"

theorem set_references_correct_witness:
  "distinct (map ref_key (set_references 0 [ex_ref 4 True 9] [ex_ref 4 True 7, ex_ref 4 False 8]))
    \<and> find_reference_target (set_references 0 [ex_ref 4 True 9] [ex_ref 4 True 7, ex_ref 4 False 8]) 4 True
      = (case find_reference_target (rev [ex_ref 4 True 9]) 4 True of
           None \<Rightarrow> find_reference_target [ex_ref 4 True 7, ex_ref 4 False 8] 4 True
         | Some n \<Rightarrow> if n = 0 then None else Some n)"
  by (rule set_references_correct) simp

end
