(* ===== verification/Children_Fetcher.thy ===== *)
theory Children_Fetcher
  imports Node_State Std_Map
begin

text \<open>
  \<open>node_service/node_children_fetcher.cpp\<close>: nodes wait in a queue for their children to be browsed,
  one request of at most \<open>kMaxFetchChildCount\<close> nodes at a time. The request runs on the executor, so
  its answer is a later step; \<open>cf_in_flight\<close> lists the requests whose answer has not come. The
  reference validator is a callback that may ask for further nodes while it runs: \<open>wants n r\<close> are the
  nodes it fetches when called for node \<open>n\<close> with result \<open>r\<close>. Status codes belong to the core library:
  \<open>bad\<close> is its \<open>IsBad\<close> and \<open>generic_bad\<close> the code \<open>Bad\<close>; \<open>organizes\<close> and \<open>has_subtype\<close> are standard ids.
\<close>

record 'n children_fetcher =
  cf_request_count :: nat
  cf_pending :: "'n list"
  cf_pending_set :: "'n set"
  cf_in_flight :: "'n browse_description list list"

record ('n, 's) cf_env =
  ce_bad :: "'s \<Rightarrow> bool"
  ce_generic_bad :: 's
  ce_organizes :: 'n
  ce_has_subtype :: 'n
  ce_wants :: "'n \<Rightarrow> ('n, 's) browse_result \<Rightarrow> 'n list"

datatype ('n, 's) cf_out =
  BrowseRequest "'n browse_description list"
| ValidateReferences 'n "('n, 's) browse_result"

definition new_children_fetcher :: "'n children_fetcher" where
  "new_children_fetcher = \<lparr>cf_request_count = 0, cf_pending = [], cf_pending_set = {}, cf_in_flight = []\<rparr>"

definition max_fetch_child_count :: nat where
  "max_fetch_child_count = 100"

text \<open>\<open>MergeResult\<close>: the references of several results for one node are concatenated; a bad status is
  replaced by the status of the next result.\<close>

definition merge_result ::
    "('n, 's) cf_env \<Rightarrow> ('n::linorder, ('n, 's) browse_result) smap \<Rightarrow> 'n \<Rightarrow> ('n, 's) browse_result \<Rightarrow>
     ('n, ('n, 's) browse_result) smap" where
  "merge_result env results n r =
     (case smap_find results n of
        None \<Rightarrow> smap_put results n r
      | Some old \<Rightarrow>
          let merged = old\<lparr>br_references := br_references old @ br_references r\<rparr>
          in smap_put results n
               (if ce_bad env (br_status_code merged) then merged\<lparr>br_status_code := br_status_code r\<rparr>
                else merged))"

definition child_descriptions :: "('n, 's) cf_env \<Rightarrow> 'n \<Rightarrow> 'n browse_description list" where
  "child_descriptions env n =
     [\<lparr>bd_node_id = n, bd_direction = Forward, bd_reference_type_id = ce_organizes env,
        bd_include_subtypes = True\<rparr>,
      \<lparr>bd_node_id = n, bd_direction = Forward, bd_reference_type_id = ce_has_subtype env,
        bd_include_subtypes = True\<rparr>]"

definition fetch_children ::
    "('n, 's) cf_env \<Rightarrow> 'n list \<Rightarrow> 'n children_fetcher \<Rightarrow> ('n children_fetcher \<times> ('n, 's) cf_out list) option" where
  "fetch_children env node_ids f = do {
     check (node_ids \<noteq> []);
     let descriptions = concat (map (child_descriptions env) node_ids);
     Some (f\<lparr>cf_request_count := Suc (cf_request_count f), cf_in_flight := cf_in_flight f @ [descriptions]\<rparr>,
           [BrowseRequest descriptions])
   }"

text \<open>The loop of \<open>FetchPendingNodes\<close>: what it takes, what stays, the set that stays.\<close>

fun take_pending :: "nat \<Rightarrow> 'n list \<Rightarrow> 'n set \<Rightarrow> 'n list \<times> 'n list \<times> 'n set" where
  "take_pending 0 pending pending_set = ([], pending, pending_set)"
| "take_pending (Suc k) [] pending_set = ([], [], pending_set)"
| "take_pending (Suc k) (n # pending) pending_set =
     (let (taken, rest, rest_set) = take_pending k pending (pending_set - {n})
      in (n # taken, rest, rest_set))"

definition cf_fetch_pending_nodes ::
    "('n, 's) cf_env \<Rightarrow> 'n children_fetcher \<Rightarrow> ('n children_fetcher \<times> ('n, 's) cf_out list) option" where
  "cf_fetch_pending_nodes env f =
     (if cf_request_count f = 0 \<and> cf_pending f \<noteq> []
      then let (node_ids, rest, rest_set) =
             take_pending max_fetch_child_count (cf_pending f) (cf_pending_set f)
           in fetch_children env node_ids (f\<lparr>cf_pending := rest, cf_pending_set := rest_set\<rparr>)
      else Some (f, []))"

definition cf_fetch ::
    "('n, 's) cf_env \<Rightarrow> 'n \<Rightarrow> 'n children_fetcher \<Rightarrow> ('n children_fetcher \<times> ('n, 's) cf_out list) option" where
  "cf_fetch env n f =
     (if n \<in> cf_pending_set f then Some (f, [])
      else cf_fetch_pending_nodes env
             (f\<lparr>cf_pending_set := insert n (cf_pending_set f), cf_pending := cf_pending f @ [n]\<rparr>))"

fun cf_fetch_all ::
    "('n, 's) cf_env \<Rightarrow> 'n list \<Rightarrow> 'n children_fetcher \<Rightarrow> ('n children_fetcher \<times> ('n, 's) cf_out list) option" where
  "cf_fetch_all env [] f = Some (f, [])"
| "cf_fetch_all env (n # ns) f = do {
     (f', outs) \<leftarrow> cf_fetch env n f;
     (f'', outs') \<leftarrow> cf_fetch_all env ns f';
     Some (f'', outs @ outs')
   }"

definition cf_cancel :: "'n \<Rightarrow> 'n children_fetcher \<Rightarrow> 'n children_fetcher option" where
  "cf_cancel n f =
     (if n \<notin> cf_pending_set f then Some f
      else do {
        check (n \<in> set (cf_pending f));
        Some (f\<lparr>cf_pending_set := cf_pending_set f - {n}, cf_pending := remove1 n (cf_pending f)\<rparr>)
      })"

definition cf_get_pending_node_count :: "'n children_fetcher \<Rightarrow> nat" where
  "cf_get_pending_node_count f = length (cf_pending f) + cf_request_count f"

text \<open>The loop of \<open>OnBrowseChildrenResult\<close>: an answer with too few or too many results counts as a
  bad one; a bad answer gives each description an empty result with its status.\<close>

definition merge_results ::
    "('n::linorder, 's) cf_env \<Rightarrow> 's \<Rightarrow> 'n browse_description list \<Rightarrow> ('n, 's) browse_result list \<Rightarrow>
     ('n, ('n, 's) browse_result) smap" where
  "merge_results env status descriptions results =
     (let status' = (if \<not> ce_bad env status \<and> length results \<noteq> length descriptions
                     then ce_generic_bad env else status);
          inputs = (if ce_bad env status'
                    then map (\<lambda>d. (d, \<lparr>br_status_code = status', br_references = []\<rparr>)) descriptions
                    else zip descriptions results)
      in fold (\<lambda>(d, r) m. merge_result env m (bd_node_id d) r) inputs [])"

fun validate_all ::
    "('n, 's) cf_env \<Rightarrow> ('n \<times> ('n, 's) browse_result) list \<Rightarrow> 'n children_fetcher \<Rightarrow>
     ('n children_fetcher \<times> ('n, 's) cf_out list) option" where
  "validate_all env [] f = Some (f, [])"
| "validate_all env ((n, r) # rs) f = do {
     (f', outs) \<leftarrow> cf_fetch_all env (ce_wants env n r) f;
     (f'', outs') \<leftarrow> validate_all env rs f';
     Some (f'', ValidateReferences n r # outs @ outs')
   }"

definition on_browse_children_result ::
    "('n::linorder, 's) cf_env \<Rightarrow> 's \<Rightarrow> 'n browse_description list \<Rightarrow> ('n, 's) browse_result list \<Rightarrow>
     'n children_fetcher \<Rightarrow> ('n children_fetcher \<times> ('n, 's) cf_out list) option" where
  "on_browse_children_result env status descriptions results f = do {
     check (descriptions \<noteq> []);
     (f1, outs) \<leftarrow> validate_all env (merge_results env status descriptions results) f;
     check (cf_request_count f1 > 0);
     (f2, outs') \<leftarrow> cf_fetch_pending_nodes env (f1\<lparr>cf_request_count := cf_request_count f1 - 1\<rparr>);
     Some (f2, outs @ outs')
   }"

section \<open>Runs\<close>

datatype ('n, 's) cf_event =
  CfFetch 'n
| CfCancel 'n
| CfAnswer 's "('n, 's) browse_result list"

text \<open>An answer is to the oldest request in flight.\<close>

definition cf_handle ::
    "('n::linorder, 's) cf_env \<Rightarrow> ('n, 's) cf_event \<Rightarrow> 'n children_fetcher \<Rightarrow>
     ('n children_fetcher \<times> ('n, 's) cf_out list) option" where
  "cf_handle env e f =
     (case e of
        CfFetch n \<Rightarrow> cf_fetch env n f
      | CfCancel n \<Rightarrow> map_option (\<lambda>f'. (f', [])) (cf_cancel n f)
      | CfAnswer status results \<Rightarrow>
          (case cf_in_flight f of
             [] \<Rightarrow> Some (f, [])
           | d # ds \<Rightarrow> on_browse_children_result env status d results (f\<lparr>cf_in_flight := ds\<rparr>)))"

fun cf_run ::
    "('n::linorder, 's) cf_env \<Rightarrow> ('n, 's) cf_event list \<Rightarrow> 'n children_fetcher \<Rightarrow>
     ('n children_fetcher \<times> ('n, 's) cf_out list) option" where
  "cf_run env [] f = Some (f, [])"
| "cf_run env (e # es) f = do {
     (f', outs) \<leftarrow> cf_handle env e f;
     (f'', outs') \<leftarrow> cf_run env es f';
     Some (f'', outs @ outs')
   }"

section \<open>The invariant\<close>

definition cf_queue_ok :: "'n children_fetcher \<Rightarrow> bool" where
  "cf_queue_ok f \<longleftrightarrow> distinct (cf_pending f) \<and> cf_pending_set f = set (cf_pending f)"

definition cf_ok :: "'n children_fetcher \<Rightarrow> bool" where
  "cf_ok f \<longleftrightarrow> cf_queue_ok f \<and> cf_request_count f = length (cf_in_flight f)
     \<and> length (cf_in_flight f) \<le> 1 \<and> [] \<notin> set (cf_in_flight f)
     \<and> (cf_pending f \<noteq> [] \<longrightarrow> cf_request_count f = 1)"

text \<open>A request browses at most a hundred nodes, each once, for both reference types.\<close>

definition good_batch :: "('n, 's) cf_env \<Rightarrow> 'n browse_description list \<Rightarrow> bool" where
  "good_batch env ds \<longleftrightarrow> (\<exists>ids. ds = concat (map (child_descriptions env) ids)
     \<and> ids \<noteq> [] \<and> distinct ids \<and> length ids \<le> 100)"

lemma take_pending_split:
  "take_pending k pending pending_set = (take k pending, drop k pending, pending_set - set (take k pending))"
  by (induction k pending pending_set rule: take_pending.induct) auto

lemma cf_fetch_pending_ok:
  assumes q: "cf_queue_ok f" and c: "cf_request_count f = length (cf_in_flight f)"
    "length (cf_in_flight f) \<le> 1" "[] \<notin> set (cf_in_flight f)"
  shows "\<exists>f' outs. cf_fetch_pending_nodes env f = Some (f', outs) \<and> cf_ok f'
    \<and> (outs = [] \<or> (\<exists>ds. outs = [BrowseRequest ds] \<and> good_batch env ds))"
proof (cases "cf_request_count f = 0 \<and> cf_pending f \<noteq> []")
  case True
  let ?ids = "take 100 (cf_pending f)"
  have d: "distinct (cf_pending f)" and s: "cf_pending_set f = set (cf_pending f)"
    using q by (auto simp: cf_queue_ok_def)
  have "set (cf_pending f) - set ?ids = set (drop 100 (cf_pending f))"
  proof -
    have "set ?ids \<inter> set (drop 100 (cf_pending f)) = {}"
      using d by (metis append_take_drop_id distinct_append)
    moreover have "set (cf_pending f) = set ?ids \<union> set (drop 100 (cf_pending f))"
      by (metis append_take_drop_id set_append)
    ultimately show ?thesis by blast
  qed
  moreover have "?ids \<noteq> []" using True by simp
  moreover define ds where "ds = concat (map (child_descriptions env) ?ids)"
  have "ds \<noteq> []"
    using True by (cases "cf_pending f") (simp_all add: child_descriptions_def ds_def)
  moreover have "good_batch env ds"
    unfolding good_batch_def ds_def using True d by (intro exI [of _ ?ids]) simp
  ultimately show ?thesis using True d s c
    by (auto simp: cf_fetch_pending_nodes_def take_pending_split max_fetch_child_count_def
        fetch_children_def cf_ok_def cf_queue_ok_def Let_def ds_def [symmetric])
next
  case False
  then show ?thesis using q c by (auto simp: cf_fetch_pending_nodes_def cf_ok_def le_Suc_eq)
qed

lemma cf_fetch_ok:
  assumes "cf_ok f"
  shows "\<exists>f' outs. cf_fetch env n f = Some (f', outs) \<and> cf_ok f'
    \<and> (outs = [] \<or> (\<exists>ds. outs = [BrowseRequest ds] \<and> good_batch env ds))"
proof (cases "n \<in> cf_pending_set f")
  case True
  then show ?thesis using assms by (simp add: cf_fetch_def)
next
  case False
  let ?f = "f\<lparr>cf_pending_set := insert n (cf_pending_set f), cf_pending := cf_pending f @ [n]\<rparr>"
  have "cf_queue_ok ?f" using assms False by (auto simp: cf_ok_def cf_queue_ok_def)
  from cf_fetch_pending_ok [OF this] show ?thesis using assms False by (simp add: cf_fetch_def cf_ok_def)
qed

text \<open>While the answer is processed its request still counts, so nothing starts.\<close>

lemma cf_fetch_all_busy:
  "cf_queue_ok f \<Longrightarrow> cf_request_count f \<noteq> 0 \<Longrightarrow>
   \<exists>f'. cf_fetch_all env ns f = Some (f', []) \<and> cf_queue_ok f'
     \<and> cf_request_count f' = cf_request_count f \<and> cf_in_flight f' = cf_in_flight f"
proof (induction ns arbitrary: f)
  case (Cons n ns)
  show ?case
  proof (cases "n \<in> cf_pending_set f")
    case True
    then show ?thesis using Cons by (simp add: cf_fetch_def)
  next
    case False
    let ?f = "f\<lparr>cf_pending_set := insert n (cf_pending_set f), cf_pending := cf_pending f @ [n]\<rparr>"
    have "cf_queue_ok ?f" using Cons.prems False by (auto simp: cf_queue_ok_def)
    from Cons.IH [OF this] show ?thesis
      using Cons.prems False by (auto simp: cf_fetch_def cf_fetch_pending_nodes_def)
  qed
qed simp

lemma validate_all_busy:
  "cf_queue_ok f \<Longrightarrow> cf_request_count f \<noteq> 0 \<Longrightarrow>
   \<exists>f'. validate_all env rs f = Some (f', map (\<lambda>(n, r). ValidateReferences n r) rs) \<and> cf_queue_ok f'
     \<and> cf_request_count f' = cf_request_count f \<and> cf_in_flight f' = cf_in_flight f"
proof (induction rs arbitrary: f)
  case (Cons p rs)
  obtain n r where p: "p = (n, r)" by fastforce
  obtain f1 where "cf_fetch_all env (ce_wants env n r) f = Some (f1, [])" "cf_queue_ok f1"
    "cf_request_count f1 = cf_request_count f" "cf_in_flight f1 = cf_in_flight f"
    using cf_fetch_all_busy [OF Cons.prems] by blast
  with Cons.IH [of f1] Cons.prems(2) show ?case by (auto simp: p)
qed simp

lemma on_browse_children_result_ok:
  assumes "cf_ok f" "cf_in_flight f = d # ds"
  shows "\<exists>f' outs. on_browse_children_result env status d results (f\<lparr>cf_in_flight := ds\<rparr>)
      = Some (f', map (\<lambda>(n, r). ValidateReferences n r) (merge_results env status d results) @ outs)
    \<and> cf_ok f'
    \<and> (outs = [] \<or> (\<exists>ds. outs = [BrowseRequest ds] \<and> good_batch env ds))"
proof -
  have ds: "ds = []" "cf_request_count f = 1" "d \<noteq> []" using assms by (auto simp: cf_ok_def)
  let ?f = "f\<lparr>cf_in_flight := ds\<rparr>"
  have "cf_queue_ok ?f" "cf_request_count ?f \<noteq> 0" using assms ds by (auto simp: cf_ok_def cf_queue_ok_def)
  from validate_all_busy [OF this, of env "merge_results env status d results"] obtain f1 where
    v: "validate_all env (merge_results env status d results) ?f
          = Some (f1, map (\<lambda>(n, r). ValidateReferences n r) (merge_results env status d results))"
      "cf_queue_ok f1" "cf_request_count f1 = 1" "cf_in_flight f1 = []"
    using ds by auto
  let ?f1 = "f1\<lparr>cf_request_count := cf_request_count f1 - 1\<rparr>"
  have "cf_queue_ok ?f1" using v(2) by (simp add: cf_queue_ok_def)
  from cf_fetch_pending_ok [OF this, of env] v(3,4) obtain f' outs where
    "cf_fetch_pending_nodes env ?f1 = Some (f', outs)" "cf_ok f'"
    "outs = [] \<or> (\<exists>ds. outs = [BrowseRequest ds] \<and> good_batch env ds)" by auto
  then show ?thesis using v ds(3) by (auto simp: on_browse_children_result_def)
qed

lemma cf_handle_ok:
  assumes "cf_ok f"
  shows "\<exists>f' outs. cf_handle env e f = Some (f', outs) \<and> cf_ok f'
    \<and> (\<forall>ds. BrowseRequest ds \<in> set outs \<longrightarrow> good_batch env ds)"
proof (cases e)
  case (CfFetch n)
  then show ?thesis using cf_fetch_ok [OF assms, of env n] by (auto simp: cf_handle_def)
next
  case (CfCancel n)
  have "cf_pending_set f = set (cf_pending f)" "distinct (cf_pending f)"
    using assms by (auto simp: cf_ok_def cf_queue_ok_def)
  then show ?thesis using CfCancel assms
    by (auto simp: cf_handle_def cf_cancel_def cf_ok_def cf_queue_ok_def)
next
  case (CfAnswer status results)
  show ?thesis
  proof (cases "cf_in_flight f")
    case Nil
    then show ?thesis using CfAnswer assms by (simp add: cf_handle_def)
  next
    case (Cons d ds)
    from on_browse_children_result_ok [OF assms this, of env status results]
    show ?thesis using CfAnswer Cons by (auto simp: cf_handle_def)
  qed
qed

lemma cf_run_ok:
  "cf_ok f \<Longrightarrow> \<exists>f' outs. cf_run env es f = Some (f', outs) \<and> cf_ok f'
    \<and> (\<forall>ds. BrowseRequest ds \<in> set outs \<longrightarrow> good_batch env ds)"
proof (induction es arbitrary: f)
  case (Cons e es)
  obtain f1 o1 where h: "cf_handle env e f = Some (f1, o1)" "cf_ok f1"
    "\<forall>ds. BrowseRequest ds \<in> set o1 \<longrightarrow> good_batch env ds"
    using cf_handle_ok [OF Cons.prems] by blast
  obtain f2 o2 where "cf_run env es f1 = Some (f2, o2)" "cf_ok f2"
    "\<forall>ds. BrowseRequest ds \<in> set o2 \<longrightarrow> good_batch env ds"
    using Cons.IH [OF h(2)] by blast
  with h show ?case by auto
qed simp

section \<open>Merging\<close>

lemma find_merge_result:
  "smap_find (merge_result env m n r) k =
     (if k \<noteq> n then smap_find m k
      else case smap_find m n of
        None \<Rightarrow> Some r
      | Some old \<Rightarrow> Some \<lparr>br_status_code = (if ce_bad env (br_status_code old) then br_status_code r
                             else br_status_code old),
                        br_references = br_references old @ br_references r\<rparr>)"
  by (auto simp: merge_result_def Let_def smap_find_put split: option.splits)

lemma smap_keys_merge: "smap_keys (merge_result env m n r) = insert n (smap_keys m)"
  by (simp add: merge_result_def Let_def smap_keys_put split: option.splits)

lemma smap_ok_merge_result: "smap_ok m \<Longrightarrow> smap_ok (merge_result env m n r)"
  by (auto simp: merge_result_def Let_def smap_ok_put split: option.splits)

text \<open>All results of one node, merged in the order of the answer.\<close>

definition merge_two ::
    "('n, 's) cf_env \<Rightarrow> ('n, 's) browse_result \<Rightarrow> ('n, 's) browse_result \<Rightarrow> ('n, 's) browse_result" where
  "merge_two env a b = \<lparr>br_status_code = (if ce_bad env (br_status_code a) then br_status_code b
      else br_status_code a), br_references = br_references a @ br_references b\<rparr>"

fun pair_up :: "'a list \<Rightarrow> ('a \<times> 'a) list" where
  "pair_up (a # b # rs) = (a, b) # pair_up rs"
| "pair_up rs = []"

lemma length_pair_up: "length (pair_up rs) = length rs div 2"
  by (induction rs rule: pair_up.induct) auto

lemma nth_pair_up: "2 * i + 1 < length rs \<Longrightarrow> pair_up rs ! i = (rs ! (2 * i), rs ! (2 * i + 1))"
proof (induction rs arbitrary: i rule: pair_up.induct)
  case (1 a b rs)
  then show ?case by (cases i) auto
qed auto

abbreviation merge_step ::
    "('n::linorder, 's) cf_env \<Rightarrow> 'n browse_description \<times> ('n, 's) browse_result \<Rightarrow>
     ('n, ('n, 's) browse_result) smap \<Rightarrow> ('n, ('n, 's) browse_result) smap" where
  "merge_step env \<equiv> \<lambda>(d, r) m. merge_result env m (bd_node_id d) r"

lemma find_merge_twice:
  assumes "n \<notin> smap_keys m"
  shows "smap_find (merge_result env (merge_result env m n a) n b) k
    = (if k = n then Some (merge_two env a b) else smap_find m k)"
  using assms by (simp add: find_merge_result merge_two_def flip: smap_find_None)

lemma fold_merge_pairs:
  "distinct ids \<Longrightarrow> length rs = 2 * length ids \<Longrightarrow> set ids \<inter> smap_keys m = {} \<Longrightarrow>
   smap_find (fold (merge_step env) (zip (concat (map (child_descriptions env) ids)) rs) m) n
     = (case map_of (zip ids (pair_up rs)) n of
          None \<Rightarrow> smap_find m n | Some (a, b) \<Rightarrow> Some (merge_two env a b))"
proof (induction ids arbitrary: rs m)
  case (Cons i ids)
  obtain a b rs' where rs: "rs = a # b # rs'" "length rs' = 2 * length ids"
    using Cons.prems(2) by (cases rs rule: pair_up.cases) auto
  let ?m = "merge_result env (merge_result env m i a) i b"
  have i: "i \<notin> smap_keys m" using Cons.prems(3) by simp
  note f = find_merge_twice [OF i, of env a b]
  have "smap_keys ?m = insert i (smap_keys m)" by (simp only: smap_keys_merge insert_absorb2)
  then have "set ids \<inter> smap_keys ?m = {}" using Cons.prems(1,3) by auto
  from Cons.IH [OF _ rs(2) this] Cons.prems(1) f
  show ?case by (auto simp: rs child_descriptions_def split: option.splits dest!: map_of_SomeD set_zip_leftD)
qed simp

lemma fold_merge_same:
  assumes "ce_bad env st"
  shows "distinct ids \<Longrightarrow> set ids \<inter> smap_keys m = {} \<Longrightarrow>
   smap_find (fold (merge_step env) (map (\<lambda>d. (d, \<lparr>br_status_code = st, br_references = []\<rparr>))
      (concat (map (child_descriptions env) ids))) m) n
     = (if n \<in> set ids then Some \<lparr>br_status_code = st, br_references = []\<rparr> else smap_find m n)"
proof (induction ids arbitrary: m)
  case (Cons i ids)
  let ?r = "\<lparr>br_status_code = st, br_references = []\<rparr>"
  let ?m = "merge_result env (merge_result env m i ?r) i ?r"
  have i: "i \<notin> smap_keys m" using Cons.prems(2) by simp
  note f = find_merge_twice [OF i, of env ?r ?r]
  have "smap_keys ?m = insert i (smap_keys m)" by (simp only: smap_keys_merge insert_absorb2)
  then have "set ids \<inter> smap_keys ?m = {}" using Cons.prems(1,2) by auto
  from Cons.IH [OF _ this] Cons.prems(1) f
  show ?case by (auto simp: child_descriptions_def merge_two_def)
qed simp

lemma smap_ok_fold_merge: "smap_ok m \<Longrightarrow> smap_ok (fold (merge_step env) xs m)"
  by (induction xs arbitrary: m) (auto simp: smap_ok_merge_result)

section \<open>Properties\<close>

text \<open>C23: Whatever a fetcher is asked (fetches, cancels, answers of any status with any number of
  results, and the fetches the validator makes while an answer is processed), no check fails, at most
  one request is in flight, nodes wait only while one is, and each request browses between one and a
  hundred distinct nodes for their organized children and their subtypes.\<close>

theorem children_fetcher_reachable_ok:
  "\<exists>f outs. cf_run env es new_children_fetcher = Some (f, outs)
     \<and> cf_request_count f \<le> 1 \<and> \<not> (cf_pending f \<noteq> [] \<and> cf_request_count f = 0)
     \<and> distinct (cf_pending f) \<and> \<not> (\<exists>ds. BrowseRequest ds \<in> set outs \<and> \<not> good_batch env ds)"
proof -
  have "cf_ok new_children_fetcher" by (simp add: cf_ok_def cf_queue_ok_def new_children_fetcher_def)
  from cf_run_ok [OF this, of env es] show ?thesis by (auto simp: cf_ok_def cf_queue_ok_def)
qed

text \<open>C34: An answer to a request for distinct nodes yields exactly one result for each of them: the
  references of its two results in order, with the first status that is good, or the second; when the
  answer is bad or has the wrong number of results, no references and that bad status.\<close>

theorem merge_results_correct:
  assumes "distinct ids" "ce_bad env (ce_generic_bad env)"
  shows "smap_ok (merge_results env st (concat (map (child_descriptions env) ids)) rs)
    \<and> smap_keys (merge_results env st (concat (map (child_descriptions env) ids)) rs) = set ids
    \<and> (\<forall>i < length ids.
        smap_find (merge_results env st (concat (map (child_descriptions env) ids)) rs) (ids ! i)
        = Some (if ce_bad env st \<or> length rs \<noteq> 2 * length ids
                then \<lparr>br_status_code = (if ce_bad env st then st else ce_generic_bad env), br_references = []\<rparr>
                else merge_two env (rs ! (2 * i)) (rs ! (2 * i + 1))))"
proof -
  let ?ds = "concat (map (child_descriptions env) ids)"
  let ?m = "merge_results env st ?ds rs"
  have ld: "length ?ds = 2 * length ids" by (induction ids) (auto simp: child_descriptions_def)
  have so: "smap_ok ?m" unfolding merge_results_def Let_def by (rule smap_ok_fold_merge) simp
  have "smap_find ?m n = (if n \<notin> set ids then None else
      if ce_bad env st \<or> length rs \<noteq> 2 * length ids
      then Some \<lparr>br_status_code = (if ce_bad env st then st else ce_generic_bad env), br_references = []\<rparr>
      else map_option (\<lambda>(a, b). merge_two env a b) (map_of (zip ids (pair_up rs)) n))" for n
  proof (cases "ce_bad env st \<or> length rs \<noteq> 2 * length ids")
    case True
    let ?st = "if ce_bad env st then st else ce_generic_bad env"
    have "?m = fold (merge_step env) (map (\<lambda>d. (d, \<lparr>br_status_code = ?st, br_references = []\<rparr>)) ?ds) []"
      using True assms(2) by (auto simp: merge_results_def Let_def ld)
    then show ?thesis using True fold_merge_same [of env ?st ids "[]" n] assms by simp
  next
    case False
    then have "?m = fold (merge_step env) (zip ?ds rs) []" by (simp add: merge_results_def Let_def ld)
    moreover have "map_of (zip ids (pair_up rs)) n = None \<longleftrightarrow> n \<notin> set ids"
      using False by (simp add: map_of_zip_is_None length_pair_up)
    ultimately show ?thesis using False fold_merge_pairs [OF assms(1), of rs "[]" env n]
      by (auto split: option.splits)
  qed
  note f = this
  have "smap_keys ?m = set ids"
  proof (intro set_eqI)
    fix n
    have "map_of (zip ids (pair_up rs)) n \<noteq> None" if "n \<in> set ids" "length rs = 2 * length ids"
      using that by (simp add: map_of_zip_is_None length_pair_up)
    then show "n \<in> smap_keys ?m \<longleftrightarrow> n \<in> set ids"
      using f [of n] smap_find_None [of ?m n] by (auto split: if_splits)
  qed
  moreover have "smap_find ?m (ids ! i)
        = Some (if ce_bad env st \<or> length rs \<noteq> 2 * length ids
                then \<lparr>br_status_code = (if ce_bad env st then st else ce_generic_bad env), br_references = []\<rparr>
                else merge_two env (rs ! (2 * i)) (rs ! (2 * i + 1)))" if i: "i < length ids" for i
  proof (cases "length rs = 2 * length ids")
    case True
    then have "map_of (zip ids (pair_up rs)) (ids ! i) = Some (rs ! (2 * i), rs ! (2 * i + 1))"
      using i assms(1) nth_pair_up [of i rs] by (simp add: map_of_zip_nth length_pair_up)
    then show ?thesis using f [of "ids ! i"] i True by simp
  next
    case False
    then show ?thesis using f [of "ids ! i"] i by simp
  qed
  ultimately show ?thesis using so by blast
qed

abbreviation ex_cf_env :: "(nat, nat) cf_env" where
  "ex_cf_env \<equiv> \<lparr>ce_bad = (\<lambda>s. s \<ge> 100), ce_generic_bad = 100, ce_organizes = 35, ce_has_subtype = 45,
     ce_wants = (\<lambda>n r. [])\<rparr>"

abbreviation ex_answer :: "nat \<Rightarrow> nat \<Rightarrow> (nat, nat) browse_result" where
  "ex_answer s n \<equiv> \<lparr>br_status_code = s, br_references =
     [\<lparr>rd_reference_type_id = 35, rd_forward = True, rd_node_id = n, rd_details = None\<rparr>]\<rparr>"

theorem merge_results_correct_witness:
  "smap_find (merge_results ex_cf_env 0 (concat (map (child_descriptions ex_cf_env) [8, 6]))
      [ex_answer 0 11, ex_answer 0 12, ex_answer 200 13, ex_answer 0 14]) 6
   = Some (merge_two ex_cf_env (ex_answer 200 13) (ex_answer 0 14))"
  using merge_results_correct [of "[8, 6]" ex_cf_env 0
      "[ex_answer 0 11, ex_answer 0 12, ex_answer 200 13, ex_answer 0 14]"]
  by (simp add: All_less_Suc numeral_2_eq_2)

end
