(* ===== verification/Fetching_Graph.thy ===== *)
theory Fetching_Graph
  imports Node_State Std_Map "HOL-Library.Word"
begin

text \<open>
  \<open>node_service/node_fetch_status.h\<close>, \<open>fetching_node.{h,cpp}\<close> and \<open>fetching_node_graph.cpp\<close>: the nodes
  being fetched and what each waits for. The graph is a \<open>std::map\<close>, whose entries do not move, so a
  pointer to a node is its key; following a pointer to a key that is gone is \<open>None\<close>. The status
  sets are the bit sets of the code.
\<close>

section \<open>Status sets\<close>

type_synonym fetch_status = "32 word"

unbundle bit_operations_syntax

definition status_none :: fetch_status where "status_none = 0"
definition node_only :: fetch_status where "node_only = push_bit 0 1"
definition children_only :: fetch_status where "children_only = push_bit 1 1"
definition non_hierarchical_inverse :: fetch_status where "non_hierarchical_inverse = push_bit 2 1"

definition status_union :: "fetch_status \<Rightarrow> fetch_status \<Rightarrow> fetch_status" where
  "status_union a b = a OR b"

definition status_is_empty :: "fetch_status \<Rightarrow> bool" where
  "status_is_empty s \<longleftrightarrow> s = status_none"

definition status_includes :: "fetch_status \<Rightarrow> fetch_status \<Rightarrow> bool" where
  "status_includes have_s want \<longleftrightarrow> have_s AND want = want"

lemma includes_iff: "status_includes a c \<longleftrightarrow> (\<forall>i. bit c i \<longrightarrow> bit a i)"
proof -
  have "status_includes a c \<longleftrightarrow> (\<forall>i. bit (a AND c) i = bit c i)"
    unfolding status_includes_def by (metis bit_eqI)
  then show ?thesis by (auto simp: bit_and_iff)
qed

lemma includes_union:
  "status_includes a c \<or> status_includes b c \<Longrightarrow> status_includes (status_union a b) c"
  by (auto simp: includes_iff status_union_def bit_or_iff)

lemma includes_not_empty: "status_includes s node_only \<Longrightarrow> \<not> status_is_empty s"
  by (auto simp: status_includes_def node_only_def status_is_empty_def status_none_def)

section \<open>The nodes\<close>

record ('n, 'v, 'c, 's) fetching_node =
  fn_state :: "('n, 'v, 'c) node_state"
  fn_pending :: bool
  fn_pending_status :: fetch_status
  fn_pending_sequence :: "32 word"
  fn_fetch_started :: fetch_status
  fn_request_id :: "32 word"
  fn_depends_of :: "'n list"
  fn_dependent_nodes :: "'n list"
  fn_attributes_fetched :: bool
  fn_references_fetched :: bool
  fn_status :: 's
  fn_force :: bool
  fn_is_property :: bool
  fn_is_declaration :: bool
  fn_cache_iteration :: int
  fn_cache_state :: bool

type_synonym ('n, 'v, 'c, 's) fnodes = "('n, ('n, 'v, 'c, 's) fetching_node) smap"

record ('n, 'v, 'c, 's) fetching_graph =
  fg_nodes :: "('n, 'v, 'c, 's) fnodes"
  fg_cache_iteration :: int

definition fetched :: "('n, 'v, 'c, 's) fetching_node \<Rightarrow> bool" where
  "fetched node \<longleftrightarrow> fn_attributes_fetched node \<and> fn_references_fetched node"

text \<open>A fresh entry; \<open>object_class\<close> is the node class a node state starts with.\<close>

definition new_fetching_node :: "'n \<Rightarrow> 's \<Rightarrow> int \<Rightarrow> 'n \<Rightarrow> ('n, 'v, 'c, 's) fetching_node" where
  "new_fetching_node null good object_class n =
     \<lparr>fn_state = \<lparr>ns_node_id = n, ns_node_class = object_class, ns_type_definition_id = null,
        ns_parent_id = null, ns_reference_type_id = null, ns_browse_name = None,
        ns_display_name = None, ns_data_type = null, ns_value = None, ns_properties = [],
        ns_references = [], ns_children = [], ns_supertype_id = null\<rparr>,
      fn_pending = False, fn_pending_status = status_none, fn_pending_sequence = 0,
      fn_fetch_started = status_none, fn_request_id = 0, fn_depends_of = [], fn_dependent_nodes = [],
      fn_attributes_fetched = False, fn_references_fetched = False, fn_status = good,
      fn_force = False, fn_is_property = False, fn_is_declaration = False, fn_cache_iteration = 0,
      fn_cache_state = False\<rparr>"

definition find_node ::
    "'n::linorder \<Rightarrow> 'n \<Rightarrow> ('n, 'v, 'c, 's) fnodes \<Rightarrow> ('n, 'v, 'c, 's) fetching_node option option" where
  "find_node null n m = do { check (n \<noteq> null); Some (smap_find m n) }"

definition add_node ::
    "'n::linorder \<Rightarrow> 's \<Rightarrow> int \<Rightarrow> 'n \<Rightarrow> ('n, 'v, 'c, 's) fnodes \<Rightarrow> ('n, 'v, 'c, 's) fnodes option" where
  "add_node null good object_class n m = do {
     check (n \<noteq> null);
     Some (fst (smap_try_emplace m n (new_fetching_node null good object_class n)))
   }"

text \<open>\<open>Erase\<close> and \<open>Insert\<close> of the two files: by value, the first occurrence, once.\<close>

definition vec_insert :: "'a \<Rightarrow> 'a list \<Rightarrow> 'a list" where
  "vec_insert v c = (if v \<in> set c then c else c @ [v])"

definition no_dangling_nodes :: "('n::linorder, 'v, 'c, 's) fnodes \<Rightarrow> 'n list \<Rightarrow> bool" where
  "no_dangling_nodes m ns \<longleftrightarrow> list_all (\<lambda>n. smap_find m n \<noteq> None) ns"

definition clear_depends_of ::
    "'n::linorder \<Rightarrow> ('n, 'v, 'c, 's) fnodes \<Rightarrow> ('n, 'v, 'c, 's) fnodes option" where
  "clear_depends_of n m = do {
     node \<leftarrow> smap_find m n;
     check (no_dangling_nodes m (fn_depends_of node));
     let m' = fold (\<lambda>d m. smap_adjust m d
                 (\<lambda>dn. dn\<lparr>fn_dependent_nodes := remove1 n (fn_dependent_nodes dn)\<rparr>)) (fn_depends_of node) m;
     Some (smap_adjust m' n (\<lambda>dn. dn\<lparr>fn_depends_of := []\<rparr>))
   }"

definition clear_dependent_nodes ::
    "'n::linorder \<Rightarrow> ('n, 'v, 'c, 's) fnodes \<Rightarrow> ('n, 'v, 'c, 's) fnodes option" where
  "clear_dependent_nodes n m = do {
     node \<leftarrow> smap_find m n;
     check (no_dangling_nodes m (fn_dependent_nodes node));
     let m' = fold (\<lambda>d m. smap_adjust m d
                 (\<lambda>dn. dn\<lparr>fn_depends_of := remove1 n (fn_depends_of dn)\<rparr>)) (fn_dependent_nodes node) m;
     Some (smap_adjust m' n (\<lambda>dn. dn\<lparr>fn_dependent_nodes := []\<rparr>))
   }"

text \<open>The end of \<open>RemoveNode\<close> and of a collected node: unlink, then erase.\<close>

definition unlink_erase ::
    "'n::linorder \<Rightarrow> ('n, 'v, 'c, 's) fnodes \<Rightarrow> ('n, 'v, 'c, 's) fnodes option" where
  "unlink_erase n m = do {
     m1 \<leftarrow> clear_depends_of n m;
     m2 \<leftarrow> clear_dependent_nodes n m1;
     Some (smap_erase m2 n)
   }"

definition remove_node ::
    "'n::linorder \<Rightarrow> ('n, 'v, 'c, 's) fnodes \<Rightarrow> ('n, 'v, 'c, 's) fnodes option" where
  "remove_node n m = (if smap_find m n = None then Some m else unlink_erase n m)"

definition add_dependency ::
    "'n::linorder \<Rightarrow> 'n \<Rightarrow> ('n, 'v, 'c, 's) fnodes \<Rightarrow> ('n, 'v, 'c, 's) fnodes option" where
  "add_dependency n from m = do {
     check (n \<noteq> from);
     let m' = smap_adjust m from (\<lambda>dn. dn\<lparr>fn_dependent_nodes := vec_insert n (fn_dependent_nodes dn)\<rparr>);
     Some (smap_adjust m' n (\<lambda>dn. dn\<lparr>fn_depends_of := vec_insert from (fn_depends_of dn)\<rparr>))
   }"

section \<open>Collecting fetched nodes\<close>

text \<open>
  \<open>IsFetchedRecursively\<close>: the nodes carry the number of the search that visited them and its answer.
  The recursion is bounded by the nodes not yet visited; running out of fuel is \<open>None\<close>, and one more
  than the number of nodes is enough.
\<close>

fun is_fetched_recursively ::
      "nat \<Rightarrow> int \<Rightarrow> 'n::linorder \<Rightarrow> ('n, 'v, 'c, 's) fnodes \<Rightarrow> (('n, 'v, 'c, 's) fnodes \<times> bool) option"
  and all_fetched_recursively ::
      "nat \<Rightarrow> int \<Rightarrow> 'n list \<Rightarrow> ('n, 'v, 'c, 's) fnodes \<Rightarrow> (('n, 'v, 'c, 's) fnodes \<times> bool) option" where
  "is_fetched_recursively 0 it n m = None"
| "is_fetched_recursively (Suc k) it n m =
     (case smap_find m n of
        None \<Rightarrow> None
      | Some node \<Rightarrow>
          if \<not> fetched node then Some (m, False)
          else if fn_cache_iteration node = it then Some (m, fn_cache_state node)
          else do {
            let m1 = smap_put m n (node\<lparr>fn_cache_iteration := it, fn_cache_state := True\<rparr>);
            (m2, b) \<leftarrow> all_fetched_recursively k it (fn_depends_of node) m1;
            Some (smap_adjust m2 n (\<lambda>node. node\<lparr>fn_cache_state := b\<rparr>), b)
          })"
| "all_fetched_recursively k it [] m = Some (m, True)"
| "all_fetched_recursively k it (d # ds) m = do {
     (m1, b) \<leftarrow> is_fetched_recursively k it d m;
     if b then all_fetched_recursively k it ds m1 else Some (m1, False)
   }"

record ('n, 'v, 'c, 's) fetch_completed =
  fc_nodes :: "('n, 'v, 'c) node_state list"
  fc_errors :: "('n \<times> 's) list"

text \<open>The loop of \<open>GetFetchedNodes\<close> over the keys of the map; \<open>bad\<close> is the status test of the core
  library.\<close>

fun collect_fetched ::
    "('s \<Rightarrow> bool) \<Rightarrow> 'n::linorder list \<Rightarrow> ('n, 'v, 'c, 's) fetching_graph \<Rightarrow>
     ('n, 'v, 'c, 's) fetch_completed \<Rightarrow>
     (('n, 'v, 'c, 's) fetching_graph \<times> ('n, 'v, 'c, 's) fetch_completed) option" where
  "collect_fetched bad [] g result = Some (g, result)"
| "collect_fetched bad (n # ns) g result = do {
     (m, b) \<leftarrow> is_fetched_recursively (Suc (length (fg_nodes g))) (fg_cache_iteration g) n (fg_nodes g);
     let g' = g\<lparr>fg_nodes := m, fg_cache_iteration := fg_cache_iteration g + 1\<rparr>;
     if \<not> b then collect_fetched bad ns g' result
     else do {
       node \<leftarrow> smap_find m n;
       check (\<not> status_is_empty (fn_fetch_started node));
       let result' = (if \<not> bad (fn_status node)
                      then result\<lparr>fc_nodes := fc_nodes result @ [fn_state node]\<rparr>
                      else result\<lparr>fc_errors := fc_errors result
                             @ [(ns_node_id (fn_state node), fn_status node)]\<rparr>);
       m' \<leftarrow> unlink_erase n m;
       collect_fetched bad ns (g'\<lparr>fg_nodes := m'\<rparr>) result'
     }
   }"

definition get_fetched_nodes ::
    "('s \<Rightarrow> bool) \<Rightarrow> ('n::linorder, 'v, 'c, 's) fetching_graph \<Rightarrow>
     (('n, 'v, 'c, 's) fetching_graph \<times> ('n, 'v, 'c, 's) fetch_completed) option" where
  "get_fetched_nodes bad g =
     collect_fetched bad (map fst (fg_nodes g)) g \<lparr>fc_nodes = [], fc_errors = []\<rparr>"

end
