(* ===== verification/Fetching_Graph_Facts.thy ===== *)
theory Fetching_Graph_Facts
  imports Fetching_Graph
begin

text \<open>
  The dependency graph as a relation, its invariant, and the meaning of the collection of fetched
  nodes: a node is collected exactly when everything it reaches is fetched.
\<close>

section \<open>Views\<close>

definition deps :: "('n::linorder, 'v, 'c, 's) fnodes \<Rightarrow> 'n \<Rightarrow> 'n list" where
  "deps m n = (case smap_find m n of None \<Rightarrow> [] | Some node \<Rightarrow> fn_depends_of node)"

definition rdeps :: "('n::linorder, 'v, 'c, 's) fnodes \<Rightarrow> 'n \<Rightarrow> 'n list" where
  "rdeps m n = (case smap_find m n of None \<Rightarrow> [] | Some node \<Rightarrow> fn_dependent_nodes node)"

definition is_fetched :: "('n::linorder, 'v, 'c, 's) fnodes \<Rightarrow> 'n \<Rightarrow> bool" where
  "is_fetched m n \<longleftrightarrow> (case smap_find m n of None \<Rightarrow> False | Some node \<Rightarrow> fetched node)"

abbreviation reach :: "('n::linorder, 'v, 'c, 's) fnodes \<Rightarrow> 'n \<Rightarrow> 'n \<Rightarrow> bool" where
  "reach m \<equiv> (\<lambda>a b. b \<in> set (deps m a))\<^sup>*\<^sup>*"

text \<open>A node is complete when everything it waits for, directly or not, is fetched.\<close>

definition complete :: "('n::linorder, 'v, 'c, 's) fnodes \<Rightarrow> 'n \<Rightarrow> bool" where
  "complete m n \<longleftrightarrow> n \<in> smap_keys m \<and> (\<forall>r. reach m n r \<longrightarrow> is_fetched m r)"

text \<open>A node without its place in the graph and its search marks.\<close>

definition core :: "('n, 'v, 'c, 's) fetching_node \<Rightarrow> ('n, 'v, 'c, 's) fetching_node" where
  "core node = node\<lparr>fn_depends_of := [], fn_dependent_nodes := [], fn_cache_iteration := 0,
     fn_cache_state := False\<rparr>"

definition graph_ok :: "('n::linorder, 'v, 'c, 's) fnodes \<Rightarrow> bool" where
  "graph_ok m \<longleftrightarrow> smap_ok m \<and> (\<forall>a b. b \<in> set (deps m a) \<longleftrightarrow> a \<in> set (rdeps m b))
     \<and> (\<forall>a. distinct (deps m a) \<and> distinct (rdeps m a) \<and> a \<notin> set (deps m a))"

lemma key_iff: "n \<in> smap_keys m \<longleftrightarrow> (\<exists>node. smap_find m n = Some node)"
  using smap_find_None [of m n] by (cases "smap_find m n") auto

lemma keyI: "smap_find m n = Some node \<Longrightarrow> n \<in> smap_keys m"
  by (auto simp: key_iff)

lemma deps_key: "b \<in> set (deps m a) \<Longrightarrow> a \<in> smap_keys m"
  unfolding key_iff by (cases "smap_find m a") (auto simp: deps_def)

lemma rdeps_key: "b \<in> set (rdeps m a) \<Longrightarrow> a \<in> smap_keys m"
  unfolding key_iff by (cases "smap_find m a") (auto simp: rdeps_def)

lemma graph_ok_closed:
  assumes "graph_ok m" "b \<in> set (deps m a)"
  shows "b \<in> smap_keys m"
  using assms rdeps_key unfolding graph_ok_def by blast

lemma core_simps [simp]:
  "core (node\<lparr>fn_depends_of := ds\<rparr>) = core node"
  "core (node\<lparr>fn_dependent_nodes := ds\<rparr>) = core node"
  "core (node\<lparr>fn_cache_iteration := i\<rparr>) = core node"
  "core (node\<lparr>fn_cache_state := b\<rparr>) = core node"
  by (simp_all add: core_def)

lemma core_fetched: "core a = core b \<Longrightarrow> fetched a = fetched b"
proof -
  assume "core a = core b"
  then have "fetched (core a) = fetched (core b)" by simp
  then show ?thesis by (simp add: core_def fetched_def)
qed

definition same_core :: "('n::linorder, 'v, 'c, 's) fnodes \<Rightarrow> ('n, 'v, 'c, 's) fnodes \<Rightarrow> 'n \<Rightarrow> bool" where
  "same_core m m' x \<longleftrightarrow> map_option core (smap_find m' x) = map_option core (smap_find m x)"

lemma same_core_refl [simp]: "same_core m m x"
  by (simp add: same_core_def)

lemma same_core_trans: "same_core m m' x \<Longrightarrow> same_core m' m'' x \<Longrightarrow> same_core m m'' x"
  by (simp add: same_core_def)

lemma same_core_fetched: "same_core m m' x \<Longrightarrow> is_fetched m' x = is_fetched m x"
  unfolding same_core_def is_fetched_def
  by (cases "smap_find m x"; cases "smap_find m' x") (auto dest: core_fetched)

lemma same_core_key: "same_core m m' x \<Longrightarrow> x \<in> smap_keys m' \<longleftrightarrow> x \<in> smap_keys m"
  unfolding same_core_def key_iff by (cases "smap_find m x"; cases "smap_find m' x") auto

text \<open>A search changes marks only.\<close>

definition marks_only :: "('n::linorder, 'v, 'c, 's) fnodes \<Rightarrow> ('n, 'v, 'c, 's) fnodes \<Rightarrow> bool" where
  "marks_only m m' \<longleftrightarrow> (\<forall>x. same_core m m' x) \<and> deps m' = deps m \<and> rdeps m' = rdeps m
     \<and> (smap_ok m \<longrightarrow> smap_ok m')"

lemma marks_only_refl [simp]: "marks_only m m"
  by (simp add: marks_only_def)

lemma marks_only_trans: "marks_only m m' \<Longrightarrow> marks_only m' m'' \<Longrightarrow> marks_only m m''"
  unfolding marks_only_def by (auto intro: same_core_trans)

lemma marks_only_keys: "marks_only m m' \<Longrightarrow> smap_keys m' = smap_keys m"
  unfolding marks_only_def using same_core_key by blast

lemma marks_only_fetched: "marks_only m m' \<Longrightarrow> is_fetched m' = is_fetched m"
  unfolding marks_only_def using same_core_fetched by blast

lemma graph_ok_marks:
  assumes "graph_ok m" "marks_only m m'"
  shows "graph_ok m'"
proof -
  have "deps m' = deps m" "rdeps m' = rdeps m" "smap_ok m'"
    using assms by (auto simp: graph_ok_def marks_only_def)
  note eqs = this
  show ?thesis using assms(1) eqs(3) unfolding graph_ok_def eqs(1,2) by blast
qed

lemma marks_only_put:
  assumes "smap_find m n = Some node"
  shows "marks_only m (smap_put m n (node\<lparr>fn_cache_iteration := i, fn_cache_state := b\<rparr>))"
  using assms by (auto simp: marks_only_def same_core_def deps_def rdeps_def fun_eq_iff smap_find_put smap_ok_put)

lemma marks_only_adjust: "marks_only m (smap_adjust m n (\<lambda>node. node\<lparr>fn_cache_state := b\<rparr>))"
  by (auto simp: marks_only_def same_core_def deps_def rdeps_def fun_eq_iff smap_find_adjust smap_ok_adjust
      option.map_comp comp_def split: option.splits)

section \<open>The search\<close>

definition marked :: "int \<Rightarrow> ('n::linorder, 'v, 'c, 's) fnodes \<Rightarrow> 'n set" where
  "marked it m = {x. \<exists>node. smap_find m x = Some node \<and> fn_cache_iteration node = it}"

definition marked_true :: "int \<Rightarrow> ('n::linorder, 'v, 'c, 's) fnodes \<Rightarrow> bool" where
  "marked_true it m \<longleftrightarrow>
     (\<forall>x node. smap_find m x = Some node \<longrightarrow> fn_cache_iteration node = it \<longrightarrow> fn_cache_state node)"

definition search_ok :: "int \<Rightarrow> ('n::linorder, 'v, 'c, 's) fnodes \<Rightarrow> ('n, 'v, 'c, 's) fnodes \<Rightarrow> bool" where
  "search_ok it m m' \<longleftrightarrow> marked it m \<subseteq> marked it m' \<and> marked_true it m'
     \<and> (\<forall>x \<in> marked it m' - marked it m. is_fetched m x \<and> set (deps m x) \<subseteq> marked it m')"

lemma marked_keys: "marked it m \<subseteq> smap_keys m"
  by (auto simp: marked_def key_iff)

lemma search_ok_trans:
  assumes "search_ok it m m1" "search_ok it m1 m2" "marks_only m m1"
  shows "search_ok it m m2"
proof -
  have "deps m1 = deps m" "is_fetched m1 = is_fetched m"
    using assms(3) marks_only_fetched by (auto simp: marks_only_def)
  then show ?thesis using assms(1,2) unfolding search_ok_def by (metis DiffE DiffI subset_trans)
qed

lemma is_fetched_recursively_correct:
  "graph_ok m \<Longrightarrow> n \<in> smap_keys m \<Longrightarrow> marked_true it m \<Longrightarrow> card (smap_keys m - marked it m) < k \<Longrightarrow>
   \<exists>m' b. is_fetched_recursively k it n m = Some (m', b) \<and> marks_only m m'
     \<and> (b \<longrightarrow> n \<in> marked it m' \<and> search_ok it m m')
     \<and> (\<not> b \<longrightarrow> (\<exists>r. reach m n r \<and> \<not> is_fetched m r))"
  "graph_ok m \<Longrightarrow> set ns \<subseteq> smap_keys m \<Longrightarrow> marked_true it m \<Longrightarrow> card (smap_keys m - marked it m) < k \<Longrightarrow>
   \<exists>m' b. all_fetched_recursively k it ns m = Some (m', b) \<and> marks_only m m'
     \<and> (b \<longrightarrow> set ns \<subseteq> marked it m' \<and> search_ok it m m')
     \<and> (\<not> b \<longrightarrow> (\<exists>n \<in> set ns. \<exists>r. reach m n r \<and> \<not> is_fetched m r))"
proof (induction k it n m and k it ns m rule: is_fetched_recursively_all_fetched_recursively.induct)
  case (1 it n m)
  then show ?case by simp
next
  case (2 k it n m)
  obtain node where node: "smap_find m n = Some node" using 2(3) by (auto simp: key_iff)
  show ?case
  proof (cases "fetched node")
    case False
    then have "\<not> is_fetched m n" by (simp add: is_fetched_def node)
    then show ?thesis using False node by auto
  next
    case True
    show ?thesis
    proof (cases "fn_cache_iteration node = it")
      case cached: True
      then have "fn_cache_state node" "n \<in> marked it m" using 2(4) node by (auto simp: marked_true_def marked_def)
      moreover have "search_ok it m m" using 2(4) by (simp add: search_ok_def)
      ultimately show ?thesis using True cached node
        by (intro exI [of _ m] exI [of _ True]) simp
    next
      case new: False
      let ?m1 = "smap_put m n (node\<lparr>fn_cache_iteration := it, fn_cache_state := True\<rparr>)"
      have mo1: "marks_only m ?m1" by (rule marks_only_put [OF node])
      have M1: "marked it ?m1 = insert n (marked it m)" by (auto simp: marked_def smap_find_put)
      have nM: "n \<notin> marked it m" using new node by (simp add: marked_def)
      have ok1: "graph_ok ?m1" by (rule graph_ok_marks [OF 2(2) mo1])
      have t1: "marked_true it ?m1" using 2(4) by (auto simp: marked_true_def smap_find_put)
      have k1: "smap_keys ?m1 = smap_keys m" by (rule marks_only_keys [OF mo1])
      have ds: "fn_depends_of node = deps m n" by (simp add: deps_def node)
      have sub: "set (deps m n) \<subseteq> smap_keys ?m1" using graph_ok_closed [OF 2(2)] k1 by blast
      have "smap_keys m - marked it m = insert n (smap_keys ?m1 - marked it ?m1)"
        using 2(3) nM by (auto simp: k1 M1)
      moreover have "finite (smap_keys ?m1 - marked it ?m1)" by simp
      ultimately have c1: "card (smap_keys ?m1 - marked it ?m1) < k"
        using 2(5) by (simp add: M1)
      obtain m2 b where r: "all_fetched_recursively k it (deps m n) ?m1 = Some (m2, b)" "marks_only ?m1 m2"
        "b \<longrightarrow> set (deps m n) \<subseteq> marked it m2 \<and> search_ok it ?m1 m2"
        "\<not> b \<longrightarrow> (\<exists>d \<in> set (deps m n). \<exists>r. reach ?m1 d r \<and> \<not> is_fetched ?m1 r)"
        using "2.IH" [OF node _ new refl, unfolded ds, OF _ ok1 sub t1 c1] True by blast
      let ?m' = "smap_adjust m2 n (\<lambda>node. node\<lparr>fn_cache_state := b\<rparr>)"
      have d1: "deps ?m1 = deps m" and f1: "is_fetched ?m1 = is_fetched m"
        using mo1 marks_only_fetched [OF mo1] by (auto simp: marks_only_def)
      have mo: "marks_only m ?m'"
        using marks_only_trans [OF mo1 marks_only_trans [OF r(2) marks_only_adjust]] .
      have M': "marked it ?m' = marked it m2"
        by (auto simp: marked_def smap_find_adjust)
      have "n \<in> marked it ?m' \<and> search_ok it m ?m'" if b
      proof -
        have s: "search_ok it ?m1 m2" and dm: "set (deps m n) \<subseteq> marked it m2" using r(3) that by auto
        have n: "n \<in> marked it m2" using s M1 by (auto simp: search_ok_def)
        have "marked_true it ?m'" using s that
          by (auto simp: search_ok_def marked_true_def smap_find_adjust split: if_splits)
        moreover have "is_fetched m n" using True by (simp add: is_fetched_def node)
        ultimately show ?thesis using s dm n unfolding search_ok_def M' M1 d1 f1 by blast
      qed
      moreover have "\<exists>r. reach m n r \<and> \<not> is_fetched m r" if "\<not> b"
        using r(4) that unfolding d1 f1 by (meson converse_rtranclp_into_rtranclp)
      ultimately show ?thesis using r(1) mo True new node ds by auto
    qed
  qed
next
  case (3 k it m)
  then show ?case by (intro exI [of _ m] exI [of _ True]) (simp add: search_ok_def)
next
  case (4 k it d ds m)
  obtain m1 b where r1: "is_fetched_recursively k it d m = Some (m1, b)" "marks_only m m1"
    "b \<longrightarrow> d \<in> marked it m1 \<and> search_ok it m m1"
    "\<not> b \<longrightarrow> (\<exists>r. reach m d r \<and> \<not> is_fetched m r)"
    using "4.IH"(1) 4(3-6) by auto
  show ?case
  proof (cases b)
    case False
    then show ?thesis using r1 by auto
  next
    case True
    have d1: "deps m1 = deps m" and f1: "is_fetched m1 = is_fetched m" and k1: "smap_keys m1 = smap_keys m"
      using r1(2) marks_only_fetched [OF r1(2)] marks_only_keys [OF r1(2)] by (auto simp: marks_only_def)
    have ok1: "graph_ok m1" by (rule graph_ok_marks [OF 4(3) r1(2)])
    have t1: "marked_true it m1" and sub: "marked it m \<subseteq> marked it m1"
      using r1(3) True by (auto simp: search_ok_def)
    have "card (smap_keys m1 - marked it m1) \<le> card (smap_keys m - marked it m)"
      by (rule card_mono) (use sub k1 in auto)
    then have c1: "card (smap_keys m1 - marked it m1) < k" using 4(6) by simp
    obtain m2 b2 where r2: "all_fetched_recursively k it ds m1 = Some (m2, b2)" "marks_only m1 m2"
      "b2 \<longrightarrow> set ds \<subseteq> marked it m2 \<and> search_ok it m1 m2"
      "\<not> b2 \<longrightarrow> (\<exists>n \<in> set ds. \<exists>r. reach m1 n r \<and> \<not> is_fetched m1 r)"
      using "4.IH"(2) [OF r1(1) refl True ok1 _ t1 c1] 4(4) k1 by auto
    have "set (d # ds) \<subseteq> marked it m2 \<and> search_ok it m m2" if b2
    proof -
      have "search_ok it m m1" "d \<in> marked it m1" "search_ok it m1 m2" "set ds \<subseteq> marked it m2"
        using r1(3) r2(3) True that by blast+
      moreover have "marked it m1 \<subseteq> marked it m2" using calculation(3) by (simp add: search_ok_def)
      ultimately show ?thesis using search_ok_trans [OF _ _ r1(2)] by auto
    qed
    moreover have "\<exists>n \<in> set (d # ds). \<exists>r. reach m n r \<and> \<not> is_fetched m r" if "\<not> b2"
      using r2(4) that unfolding d1 f1 by auto
    moreover have "all_fetched_recursively k it (d # ds) m = Some (m2, b2)" using r1(1) r2(1) True by simp
    ultimately show ?thesis using marks_only_trans [OF r1(2) r2(2)] by blast
  qed
qed

text \<open>A search with a fresh number decides completeness.\<close>

lemma search_decides:
  assumes ok: "graph_ok m" and n: "n \<in> smap_keys m" and fresh: "marked it m = {}"
  shows "\<exists>m' b. is_fetched_recursively (Suc (length m)) it n m = Some (m', b) \<and> marks_only m m'
    \<and> (b \<longleftrightarrow> complete m n)"
proof -
  have t: "marked_true it m" using fresh by (auto simp: marked_true_def marked_def)
  have "card (smap_keys m - marked it m) < Suc (length m)"
    using ok fresh by (simp add: graph_ok_def smap_length)
  from is_fetched_recursively_correct(1) [OF ok n t this] obtain m' b where
    r: "is_fetched_recursively (Suc (length m)) it n m = Some (m', b)" "marks_only m m'"
      "b \<longrightarrow> n \<in> marked it m' \<and> search_ok it m m'"
      "\<not> b \<longrightarrow> (\<exists>r. reach m n r \<and> \<not> is_fetched m r)" by blast
  have "complete m n" if b
  proof -
    have nm: "n \<in> marked it m'" and s: "search_ok it m m'" using r(3) that by auto
    have cl: "is_fetched m x \<and> set (deps m x) \<subseteq> marked it m'" if "x \<in> marked it m'" for x
      using s that fresh by (auto simp: search_ok_def)
    have "r \<in> marked it m'" if "reach m n r" for r
      using that by induction (use nm cl in auto)
    then show ?thesis using cl n by (auto simp: complete_def)
  qed
  moreover have "\<not> complete m n" if "\<not> b" using r(4) that by (auto simp: complete_def)
  ultimately show ?thesis using r(1,2) by blast
qed

section \<open>Numbers of searches\<close>

definition iter_below :: "int \<Rightarrow> ('n::linorder, 'v, 'c, 's) fnodes \<Rightarrow> bool" where
  "iter_below it m \<longleftrightarrow> (\<forall>x node. smap_find m x = Some node \<longrightarrow> fn_cache_iteration node < it)"

lemma iter_below_marked: "iter_below it m \<Longrightarrow> marked it m = {}"
  by (force simp: iter_below_def marked_def)

lemma search_iter_below:
  "iter_below (it + 1) m \<Longrightarrow> is_fetched_recursively k it n m = Some (m', b) \<Longrightarrow> iter_below (it + 1) m'"
  "iter_below (it + 1) m \<Longrightarrow> all_fetched_recursively k it ns m = Some (m', b) \<Longrightarrow> iter_below (it + 1) m'"
proof (induction k it n m and k it ns m arbitrary: m' b and m' b
    rule: is_fetched_recursively_all_fetched_recursively.induct)
  case (2 k it n m)
  show ?case
  proof (cases "smap_find m n")
    case None
    then show ?thesis using "2.prems" by simp
  next
    case (Some node)
    let ?m1 = "smap_put m n (node\<lparr>fn_cache_iteration := it, fn_cache_state := True\<rparr>)"
    show ?thesis
    proof (cases "\<not> fetched node \<or> fn_cache_iteration node = it")
      case True
      then show ?thesis using "2.prems" Some by (auto split: if_splits)
    next
      case False
      then obtain m2 where m2: "all_fetched_recursively k it (fn_depends_of node) ?m1 = Some (m2, b)"
        "m' = smap_adjust m2 n (\<lambda>node. node\<lparr>fn_cache_state := b\<rparr>)"
        using "2.prems"(2) Some by (auto simp: bind_eq_Some_conv)
      have "iter_below (it + 1) ?m1" using "2.prems"(1) by (auto simp: iter_below_def smap_find_put)
      then have "iter_below (it + 1) m2" using "2.IH" [OF Some _ _ refl _ m2(1)] False by blast
      then show ?thesis unfolding m2(2) by (auto simp: iter_below_def smap_find_adjust split: if_splits)
    qed
  qed
next
  case (4 k it d ds m)
  then obtain m1 b1 where 1: "is_fetched_recursively k it d m = Some (m1, b1)"
    "(if b1 then all_fetched_recursively k it ds m1 else Some (m1, False)) = Some (m', b)"
    by (auto simp: bind_eq_Some_conv)
  have "iter_below (it + 1) m1" using "4.IH"(1) "4.prems"(1) 1(1) by blast
  then show ?case using "4.IH"(2) [OF 1(1) refl] 1(2) by (cases b1) auto
qed auto

section \<open>Unlinking\<close>

lemma find_clear_depends_of:
  assumes "graph_ok m" "n \<in> smap_keys m"
  shows "\<exists>m'. clear_depends_of n m = Some m' \<and> smap_ok m' \<and> (\<forall>x. smap_find m' x =
    (if x = n then map_option (\<lambda>dn. dn\<lparr>fn_depends_of := []\<rparr>) (smap_find m n)
     else map_option (\<lambda>dn. dn\<lparr>fn_dependent_nodes := remove1 n (fn_dependent_nodes dn)\<rparr>) (smap_find m x)))"
proof -
  obtain node where node: "smap_find m n = Some node" using assms(2) by (auto simp: key_iff)
  have ds: "fn_depends_of node = deps m n" by (simp add: deps_def node)
  have d: "distinct (deps m n)" "n \<notin> set (deps m n)" "smap_ok m"
    and sym: "\<And>x. x \<in> set (deps m n) \<longleftrightarrow> n \<in> set (rdeps m x)"
    using assms(1) by (auto simp: graph_ok_def)
  have nd: "no_dangling_nodes m (deps m n)"
    using graph_ok_closed [OF assms(1), of _ n]
    by (auto simp: no_dangling_nodes_def list_all_iff key_iff simp flip: smap_find_None)
  have noop: "map_option (\<lambda>dn. dn\<lparr>fn_dependent_nodes := remove1 n (fn_dependent_nodes dn)\<rparr>) (smap_find m x)
      = smap_find m x" if "x \<notin> set (deps m n)" for x
    using that unfolding sym by (cases "smap_find m x") (auto simp: rdeps_def remove1_idem)
  show ?thesis
    using d nd noop node
    by (auto simp: clear_depends_of_def ds smap_find_adjust smap_find_fold_adjust smap_ok_adjust
        smap_ok_fold_adjust)
qed

lemma find_clear_dependent_nodes:
  assumes "smap_ok m" "smap_find m n = Some node" "distinct (fn_dependent_nodes node)"
    "n \<notin> set (fn_dependent_nodes node)" "\<forall>x \<in> set (fn_dependent_nodes node). x \<in> smap_keys m"
    "\<forall>x. x \<noteq> n \<longrightarrow> n \<in> set (deps m x) \<longrightarrow> x \<in> set (fn_dependent_nodes node)"
  shows "\<exists>m'. clear_dependent_nodes n m = Some m' \<and> smap_ok m' \<and> (\<forall>x. smap_find m' x =
    (if x = n then map_option (\<lambda>dn. dn\<lparr>fn_dependent_nodes := []\<rparr>) (smap_find m n)
     else map_option (\<lambda>dn. dn\<lparr>fn_depends_of := remove1 n (fn_depends_of dn)\<rparr>) (smap_find m x)))"
proof -
  have nd: "no_dangling_nodes m (fn_dependent_nodes node)"
    using assms(5) by (auto simp: no_dangling_nodes_def list_all_iff key_iff simp flip: smap_find_None)
  have noop: "map_option (\<lambda>dn. dn\<lparr>fn_depends_of := remove1 n (fn_depends_of dn)\<rparr>) (smap_find m x)
      = smap_find m x" if "x \<notin> set (fn_dependent_nodes node)" "x \<noteq> n" for x
    using assms(6) that by (cases "smap_find m x") (auto simp: deps_def remove1_idem)
  show ?thesis
    using assms(1-4) nd noop
    by (auto simp: clear_dependent_nodes_def smap_find_adjust smap_find_fold_adjust smap_ok_adjust
        smap_ok_fold_adjust)
qed

lemma unlink_erase_correct:
  assumes ok: "graph_ok m" and n: "n \<in> smap_keys m"
  shows "\<exists>m'. unlink_erase n m = Some m' \<and> graph_ok m' \<and> smap_keys m' = smap_keys m - {n}
    \<and> (\<forall>x. x \<noteq> n \<longrightarrow> same_core m m' x)
    \<and> (\<forall>x. x \<noteq> n \<longrightarrow> deps m' x = remove1 n (deps m x) \<and> rdeps m' x = remove1 n (rdeps m x))
    \<and> (\<forall>it. iter_below it m \<longrightarrow> iter_below it m')"
proof -
  have sym: "\<And>a b. b \<in> set (deps m a) \<longleftrightarrow> a \<in> set (rdeps m b)"
    and dis: "\<And>a. distinct (deps m a) \<and> distinct (rdeps m a) \<and> a \<notin> set (deps m a)"
    using ok unfolding graph_ok_def by blast+
  obtain node where node: "smap_find m n = Some node" using n by (auto simp: key_iff)
  obtain m1 where m1: "clear_depends_of n m = Some m1" "smap_ok m1"
    "\<forall>x. smap_find m1 x =
      (if x = n then map_option (\<lambda>dn. dn\<lparr>fn_depends_of := []\<rparr>) (smap_find m n)
       else map_option (\<lambda>dn. dn\<lparr>fn_dependent_nodes := remove1 n (fn_dependent_nodes dn)\<rparr>) (smap_find m x))"
    using find_clear_depends_of [OF ok n] by blast
  let ?node = "node\<lparr>fn_depends_of := []\<rparr>"
  have n1: "smap_find m1 n = Some ?node" using m1(3) node by simp
  have rd: "fn_dependent_nodes ?node = rdeps m n" by (simp add: rdeps_def node)
  have k1: "smap_keys m1 = smap_keys m" by (intro set_eqI) (simp only: key_iff m1(3), auto)
  have d1: "deps m1 x = deps m x" if "x \<noteq> n" for x
    using that by (simp add: deps_def m1(3) split: option.splits)
  obtain m2 where m2: "clear_dependent_nodes n m1 = Some m2" "smap_ok m2"
    "\<forall>x. smap_find m2 x =
      (if x = n then map_option (\<lambda>dn. dn\<lparr>fn_dependent_nodes := []\<rparr>) (smap_find m1 n)
       else map_option (\<lambda>dn. dn\<lparr>fn_depends_of := remove1 n (fn_depends_of dn)\<rparr>) (smap_find m1 x))"
  proof -
    have "distinct (rdeps m n)" "n \<notin> set (rdeps m n)" using dis sym by blast+
    moreover have "\<forall>x \<in> set (rdeps m n). x \<in> smap_keys m1" using sym deps_key k1 by blast
    moreover have "\<forall>x. x \<noteq> n \<longrightarrow> n \<in> set (deps m1 x) \<longrightarrow> x \<in> set (rdeps m n)"
      using d1 sym by auto
    ultimately show ?thesis
      using find_clear_dependent_nodes [OF m1(2) n1, unfolded rd] that by blast
  qed
  let ?m' = "smap_erase m2 n"
  have f: "smap_find ?m' x = (if x = n then None else
      map_option (\<lambda>dn. dn\<lparr>fn_dependent_nodes := remove1 n (fn_dependent_nodes dn),
                          fn_depends_of := remove1 n (fn_depends_of dn)\<rparr>) (smap_find m x))" for x
    by (simp add: smap_find_erase m2 m1(3) option.map_comp comp_def)
  have d': "deps ?m' x = (if x = n then [] else remove1 n (deps m x))"
    and r': "rdeps ?m' x = (if x = n then [] else remove1 n (rdeps m x))" for x
    by (simp_all add: deps_def rdeps_def f split: option.splits)
  have "graph_ok ?m'"
    unfolding graph_ok_def
  proof (intro conjI allI)
    show "smap_ok ?m'" by (rule smap_ok_erase [OF m2(2)])
    fix a b
    show "b \<in> set (deps ?m' a) \<longleftrightarrow> a \<in> set (rdeps ?m' b)"
      using sym dis by (auto simp: d' r')
    show "distinct (deps ?m' a)" "distinct (rdeps ?m' a)" "a \<notin> set (deps ?m' a)"
      using dis by (auto simp: d' r')
  qed
  moreover have "smap_keys ?m' = smap_keys m - {n}"
    by (intro set_eqI) (simp only: key_iff f Diff_iff, auto)
  moreover have "same_core m ?m' x" if "x \<noteq> n" for x
    using that by (cases "smap_find m x") (simp_all add: same_core_def f core_def)
  moreover have "unlink_erase n m = Some ?m'" using m1(1) m2(1) by (simp add: unlink_erase_def)
  moreover have "iter_below it ?m'" if "iter_below it m" for it
    using that by (auto simp: iter_below_def f split: if_splits)
  ultimately show ?thesis using d' r' by (intro exI [of _ ?m']) simp
qed

text \<open>Removing a complete node does not change which other nodes are complete.\<close>

lemma complete_unlink:
  assumes ok: "graph_ok m" and c: "complete m n"
    and k: "smap_keys m' = smap_keys m - {n}"
    and sc: "\<forall>x. x \<noteq> n \<longrightarrow> same_core m m' x" and d: "\<forall>x. x \<noteq> n \<longrightarrow> deps m' x = remove1 n (deps m x)"
    and x: "x \<noteq> n"
  shows "complete m' x \<longleftrightarrow> complete m x"
proof -
  have dn: "deps m' n = []" using k smap_find_None [of m' n] by (auto simp: deps_def)
  have dis: "distinct (deps m a)" for a using ok by (simp add: graph_ok_def)
  have step_iff: "b \<in> set (deps m' a) \<longleftrightarrow> b \<in> set (deps m a) \<and> a \<noteq> n \<and> b \<noteq> n" for a b
    using d dn dis by (cases "a = n") auto
  have sub: "reach m' a r \<Longrightarrow> reach m a r" for a r
    by (induction rule: rtranclp.induct) (auto simp: step_iff intro: rtranclp.rtrancl_into_rtrancl)
  have "reach m' a r \<Longrightarrow> a \<noteq> n \<Longrightarrow> r \<noteq> n" for a r
    by (induction rule: rtranclp.induct) (auto simp: step_iff)
  then have nn: "reach m' x r \<Longrightarrow> r \<noteq> n" for r using x by blast
  have fe: "r \<noteq> n \<Longrightarrow> is_fetched m' r = is_fetched m r" for r using sc same_core_fetched by blast
  have split: "reach m x r \<Longrightarrow> reach m' x r \<or> reach m n r" for r
  proof (induction rule: rtranclp_induct)
    case (step b c)
    from step.IH show ?case
    proof
      assume r: "reach m' x b"
      show ?thesis
      proof (cases "c = n")
        case False
        with r nn [OF r] step.hyps(2) have "c \<in> set (deps m' b)" by (simp add: step_iff)
        with r show ?thesis by (blast intro: rtranclp.rtrancl_into_rtrancl)
      qed simp
    next
      assume "reach m n b"
      with step.hyps(2) show ?thesis by (blast intro: rtranclp.rtrancl_into_rtrancl)
    qed
  qed simp
  show ?thesis
  proof
    assume "complete m' x"
    then show "complete m x"
      using split c fe nn k x unfolding complete_def by (metis DiffD1)
  next
    assume "complete m x"
    then show "complete m' x"
      using sub fe nn k x unfolding complete_def by (metis DiffI singletonD)
  qed
qed

section \<open>Collecting\<close>

definition started_ok :: "('n::linorder, 'v, 'c, 's) fnodes \<Rightarrow> bool" where
  "started_ok m \<longleftrightarrow> (\<forall>x node. smap_find m x = Some node \<longrightarrow>
     fn_attributes_fetched node \<or> fn_references_fetched node \<longrightarrow> \<not> status_is_empty (fn_fetch_started node))"

text \<open>The node stored under a key, its data and its answer.\<close>

definition node_at :: "('n::linorder, 'v, 'c, 's) fnodes \<Rightarrow> 'n \<Rightarrow> ('n, 'v, 'c, 's) fetching_node" where
  "node_at m n = the (smap_find m n)"

lemma same_core_node_at:
  assumes "same_core m m' x" "x \<in> smap_keys m"
  shows "fn_state (node_at m' x) = fn_state (node_at m x)" "fn_status (node_at m' x) = fn_status (node_at m x)"
    "fn_fetch_started (node_at m' x) = fn_fetch_started (node_at m x)"
proof -
  obtain a where a: "smap_find m x = Some a" using assms(2) by (auto simp: key_iff)
  then obtain b where b: "smap_find m' x = Some b" "core b = core a"
    using assms(1) by (auto simp: same_core_def)
  then have "fn_state (core b) = fn_state (core a)" "fn_status (core b) = fn_status (core a)"
    "fn_fetch_started (core b) = fn_fetch_started (core a)" by simp_all
  then show "fn_state (node_at m' x) = fn_state (node_at m x)" "fn_status (node_at m' x) = fn_status (node_at m x)"
    "fn_fetch_started (node_at m' x) = fn_fetch_started (node_at m x)"
    by (simp_all add: node_at_def a b core_def)
qed

lemma started_same_core:
  assumes "started_ok m" "\<forall>x \<in> smap_keys m'. same_core m m' x"
  shows "started_ok m'"
  unfolding started_ok_def
proof (intro allI impI)
  fix x b assume b: "smap_find m' x = Some b" "fn_attributes_fetched b \<or> fn_references_fetched b"
  then have "same_core m m' x" using assms(2) keyI [OF b(1)] by blast
  then obtain a where a: "smap_find m x = Some a" "core b = core a"
    using b(1) by (cases "smap_find m x") (auto simp: same_core_def)
  then have "fn_attributes_fetched (core b) = fn_attributes_fetched (core a)"
    "fn_references_fetched (core b) = fn_references_fetched (core a)"
    "fn_fetch_started (core b) = fn_fetch_started (core a)" by simp_all
  then show "\<not> status_is_empty (fn_fetch_started b)"
    using assms(1) a(1) b(2) by (auto simp: core_def started_ok_def)
qed

lemma complete_marks: "marks_only m m' \<Longrightarrow> complete m' x = complete m x"
proof -
  assume m: "marks_only m m'"
  then have "deps m' = deps m" by (simp add: marks_only_def)
  then show ?thesis using marks_only_keys [OF m] marks_only_fetched [OF m] by (simp add: complete_def)
qed

lemma deps_marks: "marks_only m m' \<Longrightarrow> deps m' = deps m"
  by (simp add: marks_only_def)

definition collected ::
    "('s \<Rightarrow> bool) \<Rightarrow> ('n::linorder, 'v, 'c, 's) fnodes \<Rightarrow> 'n list \<Rightarrow>
     ('n, 'v, 'c, 's) fetch_completed \<Rightarrow> ('n, 'v, 'c, 's) fetch_completed" where
  "collected bad m ns result =
     \<lparr>fc_nodes = fc_nodes result
        @ map (\<lambda>n. fn_state (node_at m n)) (filter (\<lambda>n. complete m n \<and> \<not> bad (fn_status (node_at m n))) ns),
      fc_errors = fc_errors result
        @ map (\<lambda>n. (ns_node_id (fn_state (node_at m n)), fn_status (node_at m n)))
            (filter (\<lambda>n. complete m n \<and> bad (fn_status (node_at m n))) ns)\<rparr>"

lemma collected_cong:
  assumes "\<forall>x \<in> set ns. complete m' x = complete m x" "\<forall>x \<in> set ns. same_core m m' x"
  shows "collected bad m' ns result = collected bad m ns result"
proof -
  have "fn_state (node_at m' x) = fn_state (node_at m x)" "fn_status (node_at m' x) = fn_status (node_at m x)"
    if "x \<in> set ns" "complete m x" for x
    using same_core_node_at [of m m' x] that assms(2) by (auto simp: complete_def)
  note e = this
  have f: "filter (\<lambda>n. complete m' n \<and> P (fn_status (node_at m' n))) ns
      = filter (\<lambda>n. complete m n \<and> P (fn_status (node_at m n))) ns" for P
    by (rule filter_cong [OF refl]) (use assms(1) e in auto)
  show ?thesis
    unfolding collected_def f [of "\<lambda>s. \<not> bad s"] f [of bad] using e by (simp cong: map_cong)
qed

text \<open>What a collection over \<open>ns\<close> leaves of the graph.\<close>

definition collect_rel ::
    "'n::linorder list \<Rightarrow> ('n, 'v, 'c, 's) fnodes \<Rightarrow> ('n, 'v, 'c, 's) fnodes \<Rightarrow> bool" where
  "collect_rel ns m m' \<longleftrightarrow> graph_ok m' \<and> smap_keys m' = smap_keys m - {n \<in> set ns. complete m n}
     \<and> (\<forall>x \<in> smap_keys m'. same_core m m' x \<and> complete m' x = complete m x
          \<and> set (deps m' x) = set (deps m x) \<inter> smap_keys m')"

lemma collect_fetched_correct:
  "graph_ok (fg_nodes g) \<Longrightarrow> started_ok (fg_nodes g) \<Longrightarrow> iter_below (fg_cache_iteration g) (fg_nodes g) \<Longrightarrow>
   distinct ns \<Longrightarrow> set ns \<subseteq> smap_keys (fg_nodes g) \<Longrightarrow>
   \<exists>g'. collect_fetched bad ns g result = Some (g', collected bad (fg_nodes g) ns result)
     \<and> collect_rel ns (fg_nodes g) (fg_nodes g') \<and> iter_below (fg_cache_iteration g') (fg_nodes g')"
proof (induction ns arbitrary: g result)
  case Nil
  have "set (deps (fg_nodes g) x) = set (deps (fg_nodes g) x) \<inter> smap_keys (fg_nodes g)" for x
    using graph_ok_closed [OF Nil.prems(1)] by blast
  then have "collect_rel [] (fg_nodes g) (fg_nodes g)" using Nil.prems(1) by (simp add: collect_rel_def)
  then show ?case using Nil.prems(3) by (simp add: collected_def)
next
  case (Cons n ns)
  let ?m = "fg_nodes g" and ?it = "fg_cache_iteration g"
  have n: "n \<in> smap_keys ?m" "n \<notin> set ns" "distinct ns" "set ns \<subseteq> smap_keys ?m"
    using Cons.prems(4,5) by auto
  obtain m b where s: "is_fetched_recursively (Suc (length ?m)) ?it n ?m = Some (m, b)" "marks_only ?m m"
    "b = complete ?m n"
    using search_decides [OF Cons.prems(1) n(1) iter_below_marked [OF Cons.prems(3)]] by blast
  have ok: "graph_ok m" by (rule graph_ok_marks [OF Cons.prems(1) s(2)])
  have sc: "\<forall>x. same_core ?m m x" using s(2) by (simp add: marks_only_def)
  have st: "started_ok m" by (rule started_same_core [OF Cons.prems(2)]) (use sc in blast)
  have km: "smap_keys m = smap_keys ?m" by (rule marks_only_keys [OF s(2)])
  have cm: "complete m x = complete ?m x" for x by (rule complete_marks [OF s(2)])
  have "iter_below (?it + 1) ?m" using Cons.prems(3) by (force simp: iter_below_def)
  then have ib: "iter_below (?it + 1) m" by (rule search_iter_below(1) [OF _ s(1)])
  let ?g = "g\<lparr>fg_nodes := m, fg_cache_iteration := ?it + 1\<rparr>"
  show ?case
  proof (cases b)
    case False
    obtain g' where g': "collect_fetched bad ns ?g result = Some (g', collected bad m ns result)"
      "collect_rel ns m (fg_nodes g')" "iter_below (fg_cache_iteration g') (fg_nodes g')"
      using Cons.IH [of ?g result] ok st ib n km by auto
    have "collected bad m ns result = collected bad ?m ns result"
      by (rule collected_cong) (use cm sc in blast)+
    also have "\<dots> = collected bad ?m (n # ns) result" using False s(3) by (simp add: collected_def)
    finally have 1: "collect_fetched bad (n # ns) g result = Some (g', collected bad ?m (n # ns) result)"
      using g'(1) s(1) False by simp
    have "collect_rel (n # ns) ?m (fg_nodes g')"
      unfolding collect_rel_def
    proof (intro conjI ballI)
      show "graph_ok (fg_nodes g')" using g'(2) by (simp add: collect_rel_def)
      show "smap_keys (fg_nodes g') = smap_keys ?m - {x \<in> set (n # ns). complete ?m x}"
        using g'(2) False s(3) by (auto simp: collect_rel_def km cm)
      fix x assume x: "x \<in> smap_keys (fg_nodes g')"
      have r: "same_core m (fg_nodes g') x" "complete (fg_nodes g') x = complete m x"
        "set (deps (fg_nodes g') x) = set (deps m x) \<inter> smap_keys (fg_nodes g')"
        using g'(2) x unfolding collect_rel_def by blast+
      show "same_core ?m (fg_nodes g') x" using same_core_trans [OF _ r(1)] sc by blast
      show "complete (fg_nodes g') x = complete ?m x" using r(2) cm by simp
      show "set (deps (fg_nodes g') x) = set (deps ?m x) \<inter> smap_keys (fg_nodes g')"
        using r(3) deps_marks [OF s(2)] by simp
    qed
    then show ?thesis using 1 g'(3) by blast
  next
    case True
    then have cn: "complete ?m n" "complete m n" using s(3) cm by auto
    have nk: "n \<in> smap_keys m" using n(1) km by simp
    obtain node where node: "smap_find m n = Some node" using nk by (auto simp: key_iff)
    have nd: "node = node_at m n" by (simp add: node_at_def node)
    have "is_fetched m n" using cn(2) by (auto simp: complete_def)
    then have fs: "\<not> status_is_empty (fn_fetch_started node)"
      using st node by (auto simp: is_fetched_def fetched_def started_ok_def)
    obtain m' where u: "unlink_erase n m = Some m'" "graph_ok m'" "smap_keys m' = smap_keys m - {n}"
      "\<forall>x. x \<noteq> n \<longrightarrow> same_core m m' x"
      "\<forall>x. x \<noteq> n \<longrightarrow> deps m' x = remove1 n (deps m x) \<and> rdeps m' x = remove1 n (rdeps m x)"
      "\<forall>it. iter_below it m \<longrightarrow> iter_below it m'"
      using unlink_erase_correct [OF ok nk] by blast
    have cm': "complete m' x = complete m x" if "x \<noteq> n" for x
      using complete_unlink [OF ok cn(2) u(3,4) _ that] u(5) by blast
    have st': "started_ok m'" by (rule started_same_core [OF st]) (use u(3,4) in auto)
    let ?r = "if \<not> bad (fn_status node) then result\<lparr>fc_nodes := fc_nodes result @ [fn_state node]\<rparr>
      else result\<lparr>fc_errors := fc_errors result @ [(ns_node_id (fn_state node), fn_status node)]\<rparr>"
    let ?g' = "?g\<lparr>fg_nodes := m'\<rparr>"
    obtain g' where g': "collect_fetched bad ns ?g' ?r = Some (g', collected bad m' ns ?r)"
      "collect_rel ns m' (fg_nodes g')" "iter_below (fg_cache_iteration g') (fg_nodes g')"
    proof -
      have "graph_ok (fg_nodes ?g')" "started_ok (fg_nodes ?g')" using u(2) st' by simp_all
      moreover have "iter_below (fg_cache_iteration ?g') (fg_nodes ?g')" using u(6) ib by simp
      moreover have "set ns \<subseteq> smap_keys (fg_nodes ?g')" using u(3) n km by auto
      ultimately show ?thesis using Cons.IH [of ?g' ?r] n(3) that by auto
    qed
    have "collected bad m' ns ?r = collected bad m ns ?r"
    proof (rule collected_cong)
      show "\<forall>x \<in> set ns. complete m' x = complete m x" using cm' n(2) by metis
      show "\<forall>x \<in> set ns. same_core m m' x" using u(4) n(2) by metis
    qed
    also have "\<dots> = collected bad m (n # ns) result"
      using cn(2) nd by (auto simp: collected_def)
    also have "\<dots> = collected bad ?m (n # ns) result"
      by (rule collected_cong) (use cm sc in blast)+
    finally have e: "collected bad m' ns ?r = collected bad ?m (n # ns) result" .
    have 1: "collect_fetched bad (n # ns) g result = Some (g', collected bad ?m (n # ns) result)"
      using g'(1) s(1) True node fs u(1) by (simp add: e [symmetric])
    have dis: "distinct (deps m x)" for x using ok by (simp add: graph_ok_def)
    have "collect_rel (n # ns) ?m (fg_nodes g')"
      unfolding collect_rel_def
    proof (intro conjI ballI)
      show "graph_ok (fg_nodes g')" using g'(2) by (simp add: collect_rel_def)
      have "smap_keys (fg_nodes g') = smap_keys m' - {x \<in> set ns. complete m' x}"
        using g'(2) by (simp add: collect_rel_def)
      moreover have "{x \<in> set ns. complete m' x} = {x \<in> set ns. complete ?m x}"
      proof (rule Collect_cong, rule conj_cong [OF refl])
        fix x assume "x \<in> set ns"
        then have "x \<noteq> n" using n(2) by auto
        then show "complete m' x = complete ?m x" using cm' cm by simp
      qed
      ultimately show k: "smap_keys (fg_nodes g') = smap_keys ?m - {x \<in> set (n # ns). complete ?m x}"
        using u(3) km cn(1) by auto
      fix x assume x: "x \<in> smap_keys (fg_nodes g')"
      have xn: "x \<noteq> n" using x k cn(1) by auto
      have r: "same_core m' (fg_nodes g') x" "complete (fg_nodes g') x = complete m' x"
        "set (deps (fg_nodes g') x) = set (deps m' x) \<inter> smap_keys (fg_nodes g')"
        using g'(2) x unfolding collect_rel_def by blast+
      show "same_core ?m (fg_nodes g') x"
      proof (rule same_core_trans [OF same_core_trans r(1)])
        show "same_core ?m m x" "same_core m m' x" using sc u(4) xn by simp_all
      qed
      show "complete (fg_nodes g') x = complete ?m x" using r(2) cm' cm xn by simp
      have "set (deps m' x) = set (deps ?m x) - {n}"
        using u(5) xn dis deps_marks [OF s(2)] by simp
      moreover have "n \<notin> smap_keys (fg_nodes g')" using k cn(1) by auto
      ultimately show "set (deps (fg_nodes g') x) = set (deps ?m x) \<inter> smap_keys (fg_nodes g')"
        using r(3) by blast
    qed
    then show ?thesis using 1 g'(3) by blast
  qed
qed

text \<open>C14: \<open>GetFetchedNodes\<close> takes out of the graph exactly the nodes all of whose direct and indirect
  dependencies, cycles included, are fetched; the searches never run out of fuel, no check fails and no
  pointer dangles. The good ones are returned with their data and the bad ones with their status, each
  once and in key order; the other nodes keep their data, their dependencies on each other and their
  incompleteness.\<close>

theorem get_fetched_nodes_correct:
  assumes "graph_ok (fg_nodes g)" "started_ok (fg_nodes g)" "iter_below (fg_cache_iteration g) (fg_nodes g)"
  shows "\<exists>g'. get_fetched_nodes bad g
      = Some (g', collected bad (fg_nodes g) (map fst (fg_nodes g)) \<lparr>fc_nodes = [], fc_errors = []\<rparr>)
    \<and> collect_rel (map fst (fg_nodes g)) (fg_nodes g) (fg_nodes g')
    \<and> smap_keys (fg_nodes g') = {n \<in> smap_keys (fg_nodes g). \<not> complete (fg_nodes g) n}
    \<and> \<not> (\<exists>n. complete (fg_nodes g') n)"
proof -
  have d: "distinct (map fst (fg_nodes g))" using assms(1) key_sorted_distinct by (auto simp: graph_ok_def)
  obtain g' where g': "get_fetched_nodes bad g
      = Some (g', collected bad (fg_nodes g) (map fst (fg_nodes g)) \<lparr>fc_nodes = [], fc_errors = []\<rparr>)"
    "collect_rel (map fst (fg_nodes g)) (fg_nodes g) (fg_nodes g')"
    using collect_fetched_correct [OF assms d] unfolding get_fetched_nodes_def by auto
  have k: "smap_keys (fg_nodes g') = {n \<in> smap_keys (fg_nodes g). \<not> complete (fg_nodes g) n}"
    using g'(2) by (auto simp: collect_rel_def)
  moreover have "\<not> complete (fg_nodes g') n" for n
  proof
    assume c: "complete (fg_nodes g') n"
    then have n: "n \<in> smap_keys (fg_nodes g')" by (simp add: complete_def)
    then have "complete (fg_nodes g) n" using c g'(2) unfolding collect_rel_def by blast
    then show False using n k by blast
  qed
  ultimately show ?thesis using g' by blast
qed

definition ex_fnode :: "nat \<Rightarrow> nat list \<Rightarrow> nat list \<Rightarrow> bool \<Rightarrow> (nat, nat, unit, nat) fetching_node" where
  "ex_fnode n ds rds b = (new_fetching_node 0 0 1 n)\<lparr>fn_depends_of := ds, fn_dependent_nodes := rds,
     fn_attributes_fetched := b, fn_references_fetched := b, fn_fetch_started := node_only\<rparr>"

text \<open>Nodes 4 and 6 wait for each other and are fetched; 8 is fetched but waits for 9, which is not.\<close>

definition ex_graph :: "(nat, nat, unit, nat) fetching_graph" where
  "ex_graph = \<lparr>fg_nodes = [(4, ex_fnode 4 [6] [6] True), (6, ex_fnode 6 [4] [4] True),
      (8, ex_fnode 8 [9] [] True), (9, ex_fnode 9 [] [8] False)], fg_cache_iteration = 1\<rparr>"

theorem get_fetched_nodes_correct_witness:
  "\<exists>g'. get_fetched_nodes (\<lambda>s. s > 0) ex_graph
      = Some (g', collected (\<lambda>s. s > 0) (fg_nodes ex_graph) (map fst (fg_nodes ex_graph))
          \<lparr>fc_nodes = [], fc_errors = []\<rparr>)
    \<and> collect_rel (map fst (fg_nodes ex_graph)) (fg_nodes ex_graph) (fg_nodes g')
    \<and> smap_keys (fg_nodes g') = {n \<in> smap_keys (fg_nodes ex_graph). \<not> complete (fg_nodes ex_graph) n}
    \<and> \<not> (\<exists>n. complete (fg_nodes g') n)"
proof (rule get_fetched_nodes_correct)
  show "graph_ok (fg_nodes ex_graph)"
    by (auto simp: graph_ok_def ex_graph_def deps_def rdeps_def ex_fnode_def split: if_splits)
  show "started_ok (fg_nodes ex_graph)"
    by (auto simp: started_ok_def ex_graph_def ex_fnode_def status_is_empty_def status_none_def
        node_only_def split: if_splits)
  show "iter_below (fg_cache_iteration ex_graph) (fg_nodes ex_graph)"
    by (auto simp: iter_below_def ex_graph_def ex_fnode_def new_fetching_node_def split: if_splits)
qed

end
