(* ===== verification/Fetch_Queue.thy ===== *)
theory Fetch_Queue
  imports Fetching_Graph_Facts "HOL-Library.Product_Lexorder"
begin

text \<open>
  \<open>node_service/fetch_queue.{h,cpp}\<close>: a binary heap of pointers to the nodes waiting for a request,
  ordered by the node's \<open>pending_sequence\<close> and then by arrival. The nodes' pending flags are in the
  graph. Of the heap algorithms of the standard library only what the standard promises can be
  relied on: given a heap they return a heap with the same elements, whose front is a least key. The
  list sorted by key is such a heap, and the algorithms below keep it sorted; \<open>is_heap\<close> is the
  precondition the standard puts on \<open>push_heap\<close> and \<open>pop_heap\<close>.
\<close>

record 'n fetch_queue =
  fq_queue :: "(32 word \<times> 'n) list"
  fq_next_sequence :: "32 word"

definition empty_fetch_queue :: "'n fetch_queue" where
  "empty_fetch_queue = \<lparr>fq_queue = [], fq_next_sequence = 0\<rparr>"

text \<open>\<open>Node::key\<close>; the entry points at the node, so the key follows the node's sequence.\<close>

definition fq_key :: "('n::linorder, 'v, 'c, 's) fnodes \<Rightarrow> 32 word \<times> 'n \<Rightarrow> 32 word \<times> 32 word" where
  "fq_key m p = (fn_pending_sequence (node_at m (snd p)), fst p)"

definition is_heap :: "('a \<Rightarrow> 'k::linorder) \<Rightarrow> 'a list \<Rightarrow> bool" where
  "is_heap key xs \<longleftrightarrow> (\<forall>i \<in> {1..<length xs}. key (xs ! ((i - 1) div 2)) \<le> key (xs ! i))"

definition push_heap :: "('a \<Rightarrow> 'k::linorder) \<Rightarrow> 'a list \<Rightarrow> 'a list" where
  "push_heap key xs = (if xs = [] then [] else insort_key key (last xs) (butlast xs))"

definition pop_heap :: "'a list \<Rightarrow> 'a list" where
  "pop_heap xs = (if xs = [] then [] else tl xs @ [hd xs])"

definition make_heap :: "('a \<Rightarrow> 'k::linorder) \<Rightarrow> 'a list \<Rightarrow> 'a list" where
  "make_heap key xs = sort_key key xs"

definition fq_contains :: "'n \<Rightarrow> 'n fetch_queue \<Rightarrow> bool" where
  "fq_contains n q \<longleftrightarrow> list_ex (\<lambda>p. snd p = n) (fq_queue q)"

definition fq_count :: "('n::linorder, 'v, 'c, 's) fnodes \<Rightarrow> 'n \<Rightarrow> 'n fetch_queue \<Rightarrow> nat option" where
  "fq_count m n q = do {
     node \<leftarrow> smap_find m n;
     check (fn_pending node = fq_contains n q);
     Some (if fn_pending node then 1 else 0)
   }"

definition fq_push ::
    "'n::linorder \<Rightarrow> ('n, 'v, 'c, 's) fnodes \<times> 'n fetch_queue \<Rightarrow>
     (('n, 'v, 'c, 's) fnodes \<times> 'n fetch_queue) option" where
  "fq_push n = (\<lambda>(m, q). do {
     node \<leftarrow> smap_find m n;
     if fn_pending node then do { check (fq_contains n q); Some (m, q) }
     else do {
       check (\<not> fq_contains n q);
       let m' = smap_adjust m n (\<lambda>node. node\<lparr>fn_pending := True\<rparr>);
       Some (m', q\<lparr>fq_next_sequence := fq_next_sequence q + 1,
                   fq_queue := push_heap (fq_key m') (fq_queue q @ [(fq_next_sequence q, n)])\<rparr>)
     }
   })"

definition fq_top :: "'n fetch_queue \<Rightarrow> 'n option" where
  "fq_top q = (case fq_queue q of [] \<Rightarrow> None | p # _ \<Rightarrow> Some (snd p))"

definition fq_pop ::
    "('n::linorder, 'v, 'c, 's) fnodes \<times> 'n fetch_queue \<Rightarrow>
     (('n, 'v, 'c, 's) fnodes \<times> 'n fetch_queue) option" where
  "fq_pop = (\<lambda>(m, q). do {
     n \<leftarrow> fq_top q;
     node \<leftarrow> smap_find m n;
     check (fn_pending node);
     Some (smap_adjust m n (\<lambda>node. node\<lparr>fn_pending := False\<rparr>),
           q\<lparr>fq_queue := butlast (pop_heap (fq_queue q))\<rparr>)
   })"

text \<open>\<open>erase\<close>: the entry changes places with the last one, which goes; the rest is made a heap again.\<close>

definition swap_out :: "nat \<Rightarrow> 'a list \<Rightarrow> 'a list" where
  "swap_out i xs = butlast (xs[i := last xs])"

definition fq_erase ::
    "'n::linorder \<Rightarrow> ('n, 'v, 'c, 's) fnodes \<times> 'n fetch_queue \<Rightarrow>
     (('n, 'v, 'c, 's) fnodes \<times> 'n fetch_queue) option" where
  "fq_erase n = (\<lambda>(m, q). do {
     node \<leftarrow> smap_find m n;
     if \<not> fn_pending node then do { check (\<not> fq_contains n q); Some (m, q) }
     else do {
       check (fq_contains n q);
       let i = length (takeWhile (\<lambda>p. snd p \<noteq> n) (fq_queue q));
       Some (smap_adjust m n (\<lambda>node. node\<lparr>fn_pending := False\<rparr>),
             q\<lparr>fq_queue := make_heap (fq_key m) (swap_out i (fq_queue q))\<rparr>)
     }
   })"

section \<open>The invariant\<close>

definition is_pending :: "('n::linorder, 'v, 'c, 's) fnodes \<Rightarrow> 'n \<Rightarrow> bool" where
  "is_pending m n \<longleftrightarrow> (\<exists>node. smap_find m n = Some node \<and> fn_pending node)"

definition queue_ok :: "('n::linorder, 'v, 'c, 's) fnodes \<Rightarrow> 'n fetch_queue \<Rightarrow> bool" where
  "queue_ok m q \<longleftrightarrow> distinct (map snd (fq_queue q)) \<and> (\<forall>n. n \<in> snd ` set (fq_queue q) \<longleftrightarrow> is_pending m n)"

lemma fq_contains_iff: "fq_contains n q \<longleftrightarrow> n \<in> snd ` set (fq_queue q)"
  by (auto simp: fq_contains_def list_ex_iff)

lemma is_pending_upd:
  "smap_find m' = (smap_find m)(n \<mapsto> node) \<Longrightarrow>
   is_pending m' x \<longleftrightarrow> (if x = n then fn_pending node else is_pending m x)"
  by (auto simp: is_pending_def)

lemma find_adjust_upd:
  "smap_find m n = Some node \<Longrightarrow> smap_find (smap_adjust m n f) = (smap_find m)(n \<mapsto> f node)"
  by (auto simp: fun_eq_iff smap_find_adjust)

lemma set_push_heap: "set (push_heap key (xs @ [x])) = insert x (set xs)"
  by (simp add: push_heap_def set_insort_key)

lemma distinct_push_heap:
  "distinct (map snd (push_heap key (xs @ [x]))) \<longleftrightarrow> snd x \<notin> snd ` set xs \<and> distinct (map snd xs)"
proof -
  have "distinct (map snd (insort_key key x xs)) \<longleftrightarrow> snd x \<notin> snd ` set xs \<and> distinct (map snd xs)"
    by (induction xs) (auto simp: set_insort_key)
  then show ?thesis by (simp add: push_heap_def)
qed

lemma length_push_heap: "length (push_heap key (xs @ [x])) = Suc (length xs)"
  by (simp add: push_heap_def)

lemma fq_push_correct:
  assumes "queue_ok m q" "smap_ok m" "smap_find m n = Some node"
  shows "\<exists>m' q'. fq_push n (m, q) = Some (m', q') \<and> smap_ok m'
    \<and> smap_find m' = (smap_find m)(n \<mapsto> node\<lparr>fn_pending := True\<rparr>) \<and> queue_ok m' q'"
proof (cases "fn_pending node")
  case True
  then have "smap_find m = (smap_find m)(n \<mapsto> node\<lparr>fn_pending := True\<rparr>)" using assms(3) by auto
  moreover have "fq_contains n q"
    using assms(1,3) True unfolding queue_ok_def fq_contains_iff is_pending_def by blast
  ultimately show ?thesis using True assms by (auto simp: fq_push_def)
next
  case False
  let ?m = "smap_adjust m n (\<lambda>node. node\<lparr>fn_pending := True\<rparr>)"
  let ?q = "q\<lparr>fq_next_sequence := fq_next_sequence q + 1,
              fq_queue := push_heap (fq_key ?m) (fq_queue q @ [(fq_next_sequence q, n)])\<rparr>"
  have m: "smap_find ?m = (smap_find m)(n \<mapsto> node\<lparr>fn_pending := True\<rparr>)"
    by (rule find_adjust_upd [OF assms(3)])
  have nq: "n \<notin> snd ` set (fq_queue q)"
    using assms(1,3) False unfolding queue_ok_def is_pending_def by auto
  have "queue_ok ?m ?q"
    using assms(1) nq unfolding queue_ok_def is_pending_upd [OF m]
    by (auto simp: distinct_push_heap set_push_heap)
  then show ?thesis using False assms m nq smap_ok_adjust
    by (auto simp: fq_push_def fq_contains_iff Let_def)
qed

lemma fq_pop_correct:
  assumes "queue_ok m q" "smap_ok m" "fq_queue q \<noteq> []"
  shows "\<exists>n node m' q'. fq_top q = Some n \<and> smap_find m n = Some node \<and> fn_pending node
    \<and> fq_pop (m, q) = Some (m', q') \<and> smap_ok m'
    \<and> smap_find m' = (smap_find m)(n \<mapsto> node\<lparr>fn_pending := False\<rparr>) \<and> queue_ok m' q'
    \<and> fq_queue q' = tl (fq_queue q)"
proof -
  obtain p ps where p: "fq_queue q = p # ps" using assms(3) by (cases "fq_queue q") auto
  obtain node where node: "smap_find m (snd p) = Some node" "fn_pending node"
    using assms(1) p unfolding queue_ok_def is_pending_def by (metis image_eqI list.set_intros(1))
  let ?m = "smap_adjust m (snd p) (\<lambda>node. node\<lparr>fn_pending := False\<rparr>)"
  have m: "smap_find ?m = (smap_find m)(snd p \<mapsto> node\<lparr>fn_pending := False\<rparr>)"
    by (rule find_adjust_upd [OF node(1)])
  have "queue_ok ?m (q\<lparr>fq_queue := ps\<rparr>)"
    using assms(1) p unfolding queue_ok_def is_pending_upd [OF m] by auto
  then show ?thesis using p node m assms(2) smap_ok_adjust
    by (intro exI [of _ "snd p"] exI [of _ node] exI [of _ ?m] exI [of _ "q\<lparr>fq_queue := ps\<rparr>"])
       (auto simp: fq_top_def fq_pop_def pop_heap_def)
qed

lemma set_swap_out:
  assumes "distinct xs" "i < length xs"
  shows "set (swap_out i xs) = set xs - {xs ! i}" "length (swap_out i xs) = length xs - 1"
    "distinct (swap_out i xs)"
proof -
  obtain ys z where xs: "xs = ys @ [z]" using assms(2) by (cases xs rule: rev_cases) auto
  have eq: "swap_out i xs = (if i = length ys then ys else ys[i := z])"
    using assms(2) by (auto simp: swap_out_def xs list_update_append butlast_append nth_append)
  have d: "distinct ys" "z \<notin> set ys" using assms(1) xs by auto
  have i: "i \<noteq> length ys \<Longrightarrow> i < length ys" using assms(2) xs by simp
  show "length (swap_out i xs) = length xs - 1" by (simp add: swap_out_def)
  show "distinct (swap_out i xs)" unfolding eq using d i by (auto simp: distinct_list_update)
  show "set (swap_out i xs) = set xs - {xs ! i}"
    unfolding eq using d i by (cases "i = length ys") (auto simp: xs nth_append set_update_distinct)
qed

lemma fq_erase_correct:
  assumes "queue_ok m q" "smap_ok m" "smap_find m n = Some node"
  shows "\<exists>m' q'. fq_erase n (m, q) = Some (m', q') \<and> smap_ok m'
    \<and> smap_find m' = (smap_find m)(n \<mapsto> node\<lparr>fn_pending := False\<rparr>) \<and> queue_ok m' q'"
proof (cases "fn_pending node")
  case False
  then have "smap_find m = (smap_find m)(n \<mapsto> node\<lparr>fn_pending := False\<rparr>)" using assms(3) by auto
  moreover have "\<not> fq_contains n q"
    using assms(1,3) False unfolding queue_ok_def fq_contains_iff is_pending_def by auto
  ultimately show ?thesis using False assms by (auto simp: fq_erase_def)
next
  case True
  let ?m = "smap_adjust m n (\<lambda>node. node\<lparr>fn_pending := False\<rparr>)"
  let ?i = "length (takeWhile (\<lambda>p. snd p \<noteq> n) (fq_queue q))"
  let ?q = "q\<lparr>fq_queue := make_heap (fq_key m) (swap_out ?i (fq_queue q))\<rparr>"
  have m: "smap_find ?m = (smap_find m)(n \<mapsto> node\<lparr>fn_pending := False\<rparr>)"
    by (rule find_adjust_upd [OF assms(3)])
  have nq: "n \<in> snd ` set (fq_queue q)"
    using assms(1,3) True unfolding queue_ok_def is_pending_def by auto
  have d: "distinct (map snd (fq_queue q))" using assms(1) by (simp add: queue_ok_def)
  then have dq: "distinct (fq_queue q)" and inj: "inj_on snd (set (fq_queue q))"
    by (simp_all add: distinct_map)
  have i: "?i < length (fq_queue q)"
    using nq by (metis (mono_tags, lifting) imageE length_takeWhile_le le_neq_implies_less
        set_takeWhileD takeWhile_eq_take take_all_iff)
  have at: "snd (fq_queue q ! ?i) = n" using nth_length_takeWhile [OF i] by blast
  have s: "set (swap_out ?i (fq_queue q)) = set (fq_queue q) - {fq_queue q ! ?i}"
    "distinct (swap_out ?i (fq_queue q))"
    using set_swap_out [OF dq i] by blast+
  have im: "snd ` set (swap_out ?i (fq_queue q)) = snd ` set (fq_queue q) - {n}"
    using inj_on_image_set_diff [OF inj, of "set (fq_queue q)" "{fq_queue q ! ?i}"] i at s(1) by auto
  have "distinct (map snd (swap_out ?i (fq_queue q)))"
    using s inj unfolding distinct_map by (auto intro: inj_on_subset)
  moreover have "distinct (map snd (sort_key key xs)) = distinct (map snd xs)" for key :: "32 word \<times> 'a \<Rightarrow> 32 word \<times> 32 word" and xs
    by (metis distinct_map distinct_sort set_sort)
  ultimately have "queue_ok ?m ?q"
    using assms(1) im unfolding queue_ok_def is_pending_upd [OF m] by (auto simp: make_heap_def)
  then show ?thesis using True assms m nq smap_ok_adjust
    by (auto simp: fq_erase_def fq_contains_iff)
qed

section \<open>The order\<close>

text \<open>A sorted queue is a heap in the sense of the standard.\<close>

lemma sorted_is_heap:
  assumes "sorted (map key xs)"
  shows "is_heap key xs"
  unfolding is_heap_def
proof
  fix i assume i: "i \<in> {1..<length xs}"
  then have "(i - 1) div 2 \<le> i" by simp
  then show "key (xs ! ((i - 1) div 2)) \<le> key (xs ! i)"
    using sorted_nth_mono [OF assms, of "(i - 1) div 2" i] i by simp
qed

lemma fq_key_upd:
  "smap_find m' = (smap_find m)(n \<mapsto> node') \<Longrightarrow> smap_find m n = Some node \<Longrightarrow>
   fn_pending_sequence node' = fn_pending_sequence node \<Longrightarrow> fq_key m' = fq_key m"
  by (auto simp: fq_key_def node_at_def fun_eq_iff)

text \<open>Pushing a node that does not wait yet onto a queue in order, then popping, hands out a node
  whose key, its pending sequence and then its arrival, is least among all that wait, the pushed one
  included; the queue stays a heap holding exactly the others, and the flags of the nodes say so.\<close>

theorem fetch_queue_priority:
  assumes "queue_ok m q" "smap_ok m" "sorted (map (fq_key m) (fq_queue q))"
    "smap_find m n = Some node" "\<not> fn_pending node"
  shows "\<exists>m' q' t m'' q''. fq_push n (m, q) = Some (m', q') \<and> fq_pop (m', q') = Some (m'', q'')
    \<and> hd (fq_queue q') = t \<and> fq_top q' = Some (snd t)
    \<and> set (fq_queue q') = insert (fq_next_sequence q, n) (set (fq_queue q))
    \<and> set (fq_queue q'') = set (fq_queue q') - {t}
    \<and> list_all (\<lambda>p. fq_key m t \<le> fq_key m p) (fq_queue q')
    \<and> is_heap (fq_key m'') (fq_queue q'') \<and> sorted (map (fq_key m'') (fq_queue q'')) \<and> queue_ok m'' q''"
proof -
  let ?x = "(fq_next_sequence q, n)"
  obtain m' q' where p: "fq_push n (m, q) = Some (m', q')" "smap_ok m'"
    "smap_find m' = (smap_find m)(n \<mapsto> node\<lparr>fn_pending := True\<rparr>)" "queue_ok m' q'"
    using fq_push_correct [OF assms(1,2,4)] by blast
  have k': "fq_key m' = fq_key m" by (rule fq_key_upd [OF p(3) assms(4)]) simp
  have "fq_queue q' = insort_key (fq_key m') ?x (fq_queue q)"
    using p(1) assms(4,5) by (auto simp: fq_push_def push_heap_def Let_def)
  then have q': "fq_queue q' = insort_key (fq_key m) ?x (fq_queue q)" unfolding k' .
  have s: "set (fq_queue q') = insert ?x (set (fq_queue q))" by (simp add: q' set_insort_key)
  have ne: "fq_queue q' \<noteq> []" using s by auto
  have srt: "sorted (map (fq_key m) (fq_queue q'))" unfolding q' by (rule sorted_insort_key [THEN iffD2, OF assms(3)])
  obtain t ts where t: "fq_queue q' = t # ts" using ne by (cases "fq_queue q'") auto
  obtain nt nodet m'' q'' where o: "fq_top q' = Some nt" "smap_find m' nt = Some nodet"
    "fq_pop (m', q') = Some (m'', q'')" "smap_find m'' = (smap_find m')(nt \<mapsto> nodet\<lparr>fn_pending := False\<rparr>)"
    "queue_ok m'' q''" "fq_queue q'' = tl (fq_queue q')"
    using fq_pop_correct [OF p(4,2) ne] by blast
  have k'': "fq_key m'' = fq_key m" using fq_key_upd [OF o(4,2)] k' by simp
  have srt'': "sorted (map (fq_key m'') (fq_queue q''))" using srt by (simp add: k'' o(6) t)
  have "distinct (map snd (fq_queue q'))" using p(4) by (simp add: queue_ok_def)
  then have "t \<notin> set ts" by (auto simp: t)
  then have s'': "set (fq_queue q'') = set (fq_queue q') - {t}" by (simp add: o(6) t)
  have "list_all (\<lambda>p. fq_key m t \<le> fq_key m p) (fq_queue q')" using srt by (auto simp: t list_all_iff)
  moreover have "hd (fq_queue q') = t" "fq_top q' = Some (snd t)" by (simp_all add: t fq_top_def)
  ultimately show ?thesis
    using p(1) o(3,5) s s'' srt'' sorted_is_heap [OF srt''] by blast
qed

definition ex_waiting :: "(nat, nat, unit, nat) fnodes" where
  "ex_waiting = [(4, (ex_fnode 4 [] [] False)\<lparr>fn_pending := True, fn_pending_sequence := 3\<rparr>),
     (6, (ex_fnode 6 [] [] False)\<lparr>fn_pending_sequence := 2\<rparr>)]"

abbreviation ex_fq :: "nat fetch_queue" where
  "ex_fq \<equiv> \<lparr>fq_queue = [(0, 4)], fq_next_sequence = 1\<rparr>"

theorem fetch_queue_priority_witness:
  "\<exists>m' q' t m'' q''. fq_push 6 (ex_waiting, ex_fq) = Some (m', q')
    \<and> fq_pop (m', q') = Some (m'', q'')
    \<and> hd (fq_queue q') = t \<and> fq_top q' = Some (snd t)
    \<and> set (fq_queue q') = insert (fq_next_sequence ex_fq, 6)
        (set (fq_queue ex_fq))
    \<and> set (fq_queue q'') = set (fq_queue q') - {t}
    \<and> list_all (\<lambda>p. fq_key ex_waiting t \<le> fq_key ex_waiting p) (fq_queue q')
    \<and> is_heap (fq_key m'') (fq_queue q'') \<and> sorted (map (fq_key m'') (fq_queue q'')) \<and> queue_ok m'' q''"
  by (rule fetch_queue_priority [where node = "(ex_fnode 6 [] [] False)\<lparr>fn_pending_sequence := 2\<rparr>"])
     (auto simp: ex_waiting_def queue_ok_def is_pending_def ex_fnode_def new_fetching_node_def split: if_splits)

end
