(* ===== verification/Node_Fetcher.thy ===== *)
theory Node_Fetcher
  imports Fetch_Queue
begin

text \<open>
  \<open>node_service/node_fetcher_impl.cpp\<close>: nodes wait in the queue, are requested in batches (one Read
  of their attributes and one Browse of their references), pull in the nodes their answers mention,
  and are delivered together with everything they depend on. A request runs on the executor, so its
  answer is a later step; \<open>nf_reads\<close> and \<open>nf_browses\<close> list the requests without an answer. The
  completion handler is an output, called back into the fetcher only by later steps. What belongs to
  the SCADA core library is in \<open>nf_env\<close>: the standard node ids, the conversions of variants, the status
  tests. A failed check or a loop that does not end is \<open>None\<close>.
\<close>

record ('n, 'v, 's) nf_env =
  ne_null :: 'n
  ne_root_folder :: 'n
  ne_aggregates :: 'n
  ne_hierarchical :: 'n
  ne_non_hierarchical :: 'n
  ne_has_subtype :: 'n
  ne_has_property :: 'n
  ne_has_type_definition :: 'n
  ne_property_type :: 'n
  ne_object_class :: int
  ne_variable_class :: int
  ne_is_type_definition :: "int \<Rightarrow> bool"
  ne_is_instance :: "int \<Rightarrow> bool"
  ne_good :: 's
  ne_generic_bad :: 's
  ne_wrong_type :: 's
  ne_bad :: "'s \<Rightarrow> bool"
  ne_null_variant :: 'v
  ne_get_int32 :: "'v \<Rightarrow> int option"
  ne_get_qualified_name :: "'v \<Rightarrow> 'v option"
  ne_empty_name :: "'v \<Rightarrow> bool"
  ne_get_localized_text :: "'v \<Rightarrow> 'v option"
  ne_get_node_id :: "'v \<Rightarrow> 'n option"
  ne_validator :: "'n \<Rightarrow> bool"

type_synonym 'n read_id = "'n \<times> attribute_id"

record ('n, 'v, 'c, 's) node_fetcher =
  nf_graph :: "('n, 'v, 'c, 's) fetching_graph"
  nf_queue :: "'n fetch_queue"
  nf_running :: nat
  nf_next_request_id :: "32 word"
  nf_next_pending_sequence :: "32 word"
  nf_processing :: bool
  nf_draining :: bool
  nf_reads :: "(32 word \<times> 'n read_id list) list"
  nf_browses :: "(32 word \<times> 'n browse_description list) list"

datatype ('n, 'v, 'c, 's) nf_out =
  ReadNodes "32 word" "'n read_id list"
| BrowseNodes "32 word" "'n browse_description list"
| FetchCompleted "('n, 'v, 'c, 's) fetch_completed"

type_synonym ('n, 'v, 'c, 's) nf_result =
  "(('n, 'v, 'c, 's) node_fetcher \<times> ('n, 'v, 'c, 's) nf_out list) option"

definition new_node_fetcher :: "('n, 'v, 'c, 's) node_fetcher" where
  "new_node_fetcher = \<lparr>nf_graph = \<lparr>fg_nodes = [], fg_cache_iteration = 1\<rparr>, nf_queue = empty_fetch_queue,
     nf_running = 0, nf_next_request_id = 1, nf_next_pending_sequence = 0, nf_processing = False,
     nf_draining = False, nf_reads = [], nf_browses = []\<rparr>"

definition max_request_node_count :: nat where "max_request_node_count = 100"
definition max_parallel_request_count :: nat where "max_parallel_request_count = 5"
definition primitive_request_count :: nat where "primitive_request_count = 2"

abbreviation nodes_of :: "('n, 'v, 'c, 's) node_fetcher \<Rightarrow> ('n, 'v, 'c, 's) fnodes" where
  "nodes_of nf \<equiv> fg_nodes (nf_graph nf)"

definition set_nodes ::
    "('n, 'v, 'c, 's) fnodes \<Rightarrow> ('n, 'v, 'c, 's) node_fetcher \<Rightarrow> ('n, 'v, 'c, 's) node_fetcher" where
  "set_nodes m nf = nf\<lparr>nf_graph := (nf_graph nf)\<lparr>fg_nodes := m\<rparr>\<rparr>"

definition update_node ::
    "'n::linorder \<Rightarrow> (('n, 'v, 'c, 's) fetching_node \<Rightarrow> ('n, 'v, 'c, 's) fetching_node) \<Rightarrow>
     ('n, 'v, 'c, 's) node_fetcher \<Rightarrow> ('n, 'v, 'c, 's) node_fetcher" where
  "update_node n f nf = set_nodes (smap_adjust (nodes_of nf) n f) nf"

definition get_pending_node_count :: "('n, 'v, 'c, 's) node_fetcher \<Rightarrow> nat" where
  "get_pending_node_count nf = length (nodes_of nf)"

section \<open>What is requested for a node\<close>

definition get_fetch_attributes :: "('n, 'v, 'c, 's) fetching_node \<Rightarrow> 'n read_id list" where
  "get_fetch_attributes node =
     (let n = ns_node_id (fn_state node)
      in [(n, BrowseName), (n, DisplayName)]
         @ (if \<not> fn_is_property node \<or> fn_is_declaration node then [(n, NodeClassAttr)] else [])
         @ [(n, DataType)]
         @ (if fn_is_property node then [(n, ValueAttr)] else []))"

definition get_fetch_references ::
    "('n, 'v, 's) nf_env \<Rightarrow> ('n, 'v, 'c, 's) fetching_node \<Rightarrow> 'n browse_description list" where
  "get_fetch_references env node =
     (let n = ns_node_id (fn_state node);
          descr = (\<lambda>d t. \<lparr>bd_node_id = n, bd_direction = d, bd_reference_type_id = t,
                         bd_include_subtypes = True\<rparr>)
      in (if \<not> fn_is_property node then [descr Forward (ne_aggregates env)] else [])
         @ (if \<not> fn_is_property node \<or> fn_is_declaration node
            then [descr Forward (ne_non_hierarchical env)] else [])
         @ (if status_includes (fn_fetch_started node) non_hierarchical_inverse
            then [descr Inverse (ne_non_hierarchical env)] else [])
         @ (if n \<noteq> ne_root_folder env \<and> ns_parent_id (fn_state node) = ne_null env
               \<and> ns_reference_type_id (fn_state node) = ne_null env
            then [descr Inverse (ne_hierarchical env)] else []))"

section \<open>Delivering\<close>

text \<open>
  The diagnostics of \<open>NotifyFetchedNodes\<close> only log, but walk the supertypes of each instance's type
  through the delivered type definitions, and the walk must end for the delivery to happen.
\<close>

partial_function (option) walk_supertypes ::
    "('n, 'v, 's) nf_env \<Rightarrow> ('n \<Rightarrow> ('n, 'v, 'c) node_state option) \<Rightarrow> 'n \<Rightarrow> unit option" where
  "walk_supertypes env types t =
     (if t = ne_null env then Some ()
      else if ne_validator env t then Some ()
      else case types t of
        None \<Rightarrow> Some ()
      | Some ty \<Rightarrow>
          if \<not> ne_is_type_definition env (ns_node_class ty) then Some ()
          else walk_supertypes env types (ns_supertype_id ty))"

declare walk_supertypes.simps [code]

text \<open>\<open>type_definition_map\<close>: \<open>emplace\<close> keeps the first of several states with one id.\<close>

definition type_definition_map ::
    "('n, 'v, 's) nf_env \<Rightarrow> ('n, 'v, 'c) node_state list \<Rightarrow> 'n \<Rightarrow> ('n, 'v, 'c) node_state option" where
  "type_definition_map env nodes t =
     List.find (\<lambda>ns. ne_is_type_definition env (ns_node_class ns) \<and> ns_node_id ns = t) nodes"

fun check_type_definitions ::
    "('n, 'v, 's) nf_env \<Rightarrow> ('n \<Rightarrow> ('n, 'v, 'c) node_state option) \<Rightarrow> ('n, 'v, 'c) node_state list \<Rightarrow> unit option" where
  "check_type_definitions env types [] = Some ()"
| "check_type_definitions env types (ns # nodes) =
     (if ne_is_instance env (ns_node_class ns) \<and> ns_type_definition_id ns \<noteq> ne_null env
      then do { walk_supertypes env types (ns_type_definition_id ns);
                check_type_definitions env types nodes }
      else check_type_definitions env types nodes)"

definition notify_fetched_nodes ::
    "('n::linorder, 'v, 's) nf_env \<Rightarrow> ('n, 'v, 'c, 's) node_fetcher \<Rightarrow> ('n, 'v, 'c, 's) nf_result" where
  "notify_fetched_nodes env nf = do {
     (g, result) \<leftarrow> get_fetched_nodes (ne_bad env) (nf_graph nf);
     let nf' = nf\<lparr>nf_graph := g\<rparr>;
     if fc_nodes result = [] \<and> fc_errors result = [] then Some (nf', [])
     else do {
       check_type_definitions env (type_definition_map env (fc_nodes result)) (fc_nodes result);
       Some (nf', [FetchCompleted result])
     }
   }"

section \<open>Requesting\<close>

definition make_request_id :: "('n, 'v, 'c, 's) node_fetcher \<Rightarrow> ('n, 'v, 'c, 's) node_fetcher \<times> 32 word" where
  "make_request_id nf =
     (let next_id = nf_next_request_id nf + 1
      in (nf\<lparr>nf_next_request_id := (if next_id = 0 then 1 else next_id)\<rparr>, nf_next_request_id nf))"

text \<open>The end of \<open>OnBrowseResult\<close> and \<open>OnReadResult\<close>, without the new requests that may follow.\<close>

definition finish_request ::
    "('n::linorder, 'v, 's) nf_env \<Rightarrow> ('n, 'v, 'c, 's) node_fetcher \<Rightarrow> ('n, 'v, 'c, 's) nf_result" where
  "finish_request env nf = do {
     check (nf_running nf > 0);
     notify_fetched_nodes env (nf\<lparr>nf_running := nf_running nf - 1\<rparr>)
   }"

text \<open>
  \<open>FetchPendingNodes (nodes)\<close>: one request id for a read and a browse. When there is nothing to
  browse, \<open>OnBrowseResult\<close> runs at once on an empty answer; its own \<open>FetchPendingNodes\<close> returns at once,
  as a drain is under way.
\<close>

definition request_nodes ::
    "('n::linorder, 'v, 's) nf_env \<Rightarrow> 'n list \<Rightarrow> ('n, 'v, 'c, 's) node_fetcher \<Rightarrow> ('n, 'v, 'c, 's) nf_result" where
  "request_nodes env nodes nf0 = do {
     let (nf1, rid) = make_request_id nf0;
     let nf2 = nf1\<lparr>nf_running := nf_running nf1 + primitive_request_count\<rparr>;
     let nf3 = fold (\<lambda>n nf. update_node n (\<lambda>node. node\<lparr>fn_request_id := rid\<rparr>) nf) nodes nf2;
     let read_ids = concat (map (\<lambda>n. get_fetch_attributes (node_at (nodes_of nf3) n)) nodes);
     let nf4 = fold (\<lambda>n nf. update_node n (\<lambda>node. node\<lparr>fn_attributes_fetched :=
                  (get_fetch_attributes node = [])\<rparr>) nf) nodes nf3;
     let nf5 = nf4\<lparr>nf_reads := nf_reads nf4 @ [(rid, read_ids)]\<rparr>;
     let descriptions = concat (map (\<lambda>n. get_fetch_references env (node_at (nodes_of nf5) n)) nodes);
     let nf6 = fold (\<lambda>n nf. update_node n (\<lambda>node. node\<lparr>fn_references_fetched :=
                  (get_fetch_references env node = [])\<rparr>) nf) nodes nf5;
     if descriptions = []
     then do {
       check (\<not> nf_processing nf6);
       (nf7, outs) \<leftarrow> finish_request env nf6;
       Some (nf7, ReadNodes rid read_ids # outs)
     }
     else Some (nf6\<lparr>nf_browses := nf_browses nf6 @ [(rid, descriptions)]\<rparr>,
                [ReadNodes rid read_ids, BrowseNodes rid descriptions])
   }"

text \<open>The inner loop of \<open>FetchPendingNodes\<close>: at most \<open>k\<close> nodes off the queue, marked as started.\<close>

fun take_batch ::
    "nat \<Rightarrow> ('n::linorder, 'v, 'c, 's) fnodes \<times> 'n fetch_queue \<Rightarrow>
     (('n, 'v, 'c, 's) fnodes \<times> 'n fetch_queue \<times> 'n list) option" where
  "take_batch 0 (m, q) = Some (m, q, [])"
| "take_batch (Suc k) (m, q) =
     (if fq_queue q = [] then Some (m, q, [])
      else do {
        n \<leftarrow> fq_top q;
        (m1, q1) \<leftarrow> fq_pop (m, q);
        node \<leftarrow> smap_find m1 n;
        check (status_is_empty (fn_fetch_started node));
        check (\<not> status_is_empty (fn_pending_status node));
        let m2 = smap_adjust m1 n (\<lambda>node. node\<lparr>fn_fetch_started := fn_pending_status node\<rparr>);
        (m3, q3, ns) \<leftarrow> take_batch k (m2, q1);
        Some (m3, q3, n # ns)
      })"

text \<open>The outer loop. Every round takes a node off the queue, so the length of the queue bounds it.\<close>

fun drain ::
    "nat \<Rightarrow> ('n::linorder, 'v, 's) nf_env \<Rightarrow> ('n, 'v, 'c, 's) node_fetcher \<Rightarrow> ('n, 'v, 'c, 's) nf_result" where
  "drain k env nf =
     (if fq_queue (nf_queue nf) \<noteq> []
         \<and> nf_running nf + primitive_request_count \<le> max_parallel_request_count
      then (case k of
          0 \<Rightarrow> None
        | Suc k \<Rightarrow> do {
            (m, q, nodes) \<leftarrow> take_batch max_request_node_count (nodes_of nf, nf_queue nf);
            (nf', outs) \<leftarrow> request_nodes env nodes (set_nodes m (nf\<lparr>nf_queue := q\<rparr>));
            (nf'', outs') \<leftarrow> drain k env nf';
            Some (nf'', outs @ outs')
          })
      else Some (nf, []))"

declare drain.simps [simp del]

definition fetch_pending_nodes ::
    "('n::linorder, 'v, 's) nf_env \<Rightarrow> ('n, 'v, 'c, 's) node_fetcher \<Rightarrow> ('n, 'v, 'c, 's) nf_result" where
  "fetch_pending_nodes env nf =
     (if nf_processing nf then Some (nf, [])
      else if nf_draining nf then Some (nf, [])
      else do {
        (nf', outs) \<leftarrow> drain (length (fq_queue (nf_queue nf))) env (nf\<lparr>nf_draining := True\<rparr>);
        Some (nf'\<lparr>nf_draining := False\<rparr>, outs)
      })"

text \<open>\<open>FetchNode\<close> up to its last line.\<close>

definition schedule_node ::
    "('n::linorder, 'v, 's) nf_env \<Rightarrow> 'n \<Rightarrow> 32 word \<Rightarrow> fetch_status \<Rightarrow> bool \<Rightarrow>
     ('n, 'v, 'c, 's) node_fetcher \<Rightarrow> ('n, 'v, 'c, 's) node_fetcher option" where
  "schedule_node env n pending_sequence status force nf = do {
     let nf1 = update_node n (\<lambda>node.
                 if \<not> status_is_empty (fn_fetch_started node)
                 then node\<lparr>fn_fetch_started := status_none, fn_request_id := 0,
                           fn_attributes_fetched := False, fn_references_fetched := False,
                           fn_status := ne_good env,
                           fn_state := (fn_state node)\<lparr>ns_references := []\<rparr>\<rparr>
                 else node) nf;
     let nf2 = update_node n (\<lambda>node. node\<lparr>fn_force := fn_force node \<or> force,
                 fn_pending_status := status_union (fn_pending_status node) status,
                 fn_pending_sequence := pending_sequence\<rparr>) nf1;
     (m, q) \<leftarrow> fq_push n (nodes_of nf2, nf_queue nf2);
     Some (set_nodes m (nf2\<lparr>nf_queue := q\<rparr>))
   }"

definition fetch_node ::
    "('n::linorder, 'v, 's) nf_env \<Rightarrow> 'n \<Rightarrow> 32 word \<Rightarrow> fetch_status \<Rightarrow> bool \<Rightarrow>
     ('n, 'v, 'c, 's) node_fetcher \<Rightarrow> ('n, 'v, 'c, 's) nf_result" where
  "fetch_node env n pending_sequence status force nf = do {
     check (status_includes status node_only);
     node \<leftarrow> smap_find (nodes_of nf) n;
     if \<not> status_is_empty (fn_fetch_started node) \<and> status_includes (fn_fetch_started node) status \<and> \<not> force
     then Some (nf, [])
     else do {
       nf' \<leftarrow> schedule_node env n pending_sequence status force nf;
       fetch_pending_nodes env nf'
     }
   }"

definition nf_add_node ::
    "('n::linorder, 'v, 's) nf_env \<Rightarrow> 'n \<Rightarrow> ('n, 'v, 'c, 's) node_fetcher \<Rightarrow> ('n, 'v, 'c, 's) node_fetcher option" where
  "nf_add_node env n nf = do {
     m \<leftarrow> add_node (ne_null env) (ne_good env) (ne_object_class env) n (nodes_of nf);
     Some (set_nodes m nf)
   }"

definition nf_add_dependency ::
    "'n::linorder \<Rightarrow> 'n \<Rightarrow> ('n, 'v, 'c, 's) node_fetcher \<Rightarrow> ('n, 'v, 'c, 's) node_fetcher option" where
  "nf_add_dependency n from nf = do {
     m \<leftarrow> add_dependency n from (nodes_of nf);
     Some (set_nodes m nf)
   }"

text \<open>\<open>Fetch\<close>, the entry point.\<close>

definition nf_fetch ::
    "('n::linorder, 'v, 's) nf_env \<Rightarrow> 'n \<Rightarrow> fetch_status \<Rightarrow> bool \<Rightarrow>
     ('n, 'v, 'c, 's) node_fetcher \<Rightarrow> ('n, 'v, 'c, 's) nf_result" where
  "nf_fetch env n status force nf = do {
     check (n \<noteq> ne_null env);
     check (status_includes status node_only);
     nf1 \<leftarrow> nf_add_node env n nf;
     let s = nf_next_pending_sequence nf1;
     fetch_node env n s status force (nf1\<lparr>nf_next_pending_sequence := s + 1\<rparr>)
   }"

definition nf_cancel ::
    "('n::linorder, 'v, 's) nf_env \<Rightarrow> 'n \<Rightarrow> ('n, 'v, 'c, 's) node_fetcher \<Rightarrow> ('n, 'v, 'c, 's) nf_result" where
  "nf_cancel env n nf = do {
     found \<leftarrow> find_node (ne_null env) n (nodes_of nf);
     if found = None then Some (nf, [])
     else do {
       (m, q) \<leftarrow> fq_erase n (nodes_of nf, nf_queue nf);
       m' \<leftarrow> remove_node n m;
       (nf1, outs) \<leftarrow> notify_fetched_nodes env (set_nodes m' (nf\<lparr>nf_queue := q\<rparr>));
       (nf2, outs') \<leftarrow> fetch_pending_nodes env nf1;
       Some (nf2, outs @ outs')
     }
   }"

section \<open>Answers\<close>

definition validate_dependency ::
    "('n::linorder, 'v, 's) nf_env \<Rightarrow> 'n \<Rightarrow> 'n \<Rightarrow> ('n, 'v, 'c, 's) node_fetcher \<Rightarrow> ('n, 'v, 'c, 's) nf_result" where
  "validate_dependency env n from nf =
     (if from = ne_null env \<or> n = from \<or> ne_validator env from then Some (nf, [])
      else do {
        nf1 \<leftarrow> nf_add_node env from nf;
        node \<leftarrow> smap_find (nodes_of nf1) n;
        let nf2 = update_node from (\<lambda>fr. fr\<lparr>fn_force := fn_force fr \<or> fn_force node\<rparr>) nf1;
        nf3 \<leftarrow> nf_add_dependency n from nf2;
        fetch_node env from (fn_pending_sequence (node_at (nodes_of nf3) from)) node_only False nf3
      })"

definition update_state ::
    "'n::linorder \<Rightarrow> (('n, 'v, 'c) node_state \<Rightarrow> ('n, 'v, 'c) node_state) \<Rightarrow>
     ('n, 'v, 'c, 's) node_fetcher \<Rightarrow> ('n, 'v, 'c, 's) node_fetcher" where
  "update_state n f nf = update_node n (\<lambda>node. node\<lparr>fn_state := f (fn_state node)\<rparr>) nf"

definition set_status :: "'n::linorder \<Rightarrow> 's \<Rightarrow> ('n, 'v, 'c, 's) node_fetcher \<Rightarrow> ('n, 'v, 'c, 's) node_fetcher" where
  "set_status n s nf = update_node n (\<lambda>node. node\<lparr>fn_status := s\<rparr>) nf"

definition set_fetched_attribute ::
    "('n::linorder, 'v, 's) nf_env \<Rightarrow> 'n \<Rightarrow> attribute_id \<Rightarrow> 'v \<Rightarrow>
     ('n, 'v, 'c, 's) node_fetcher \<Rightarrow> ('n, 'v, 'c, 's) nf_result" where
  "set_fetched_attribute env n a v nf =
     (case a of
        NodeClassAttr \<Rightarrow>
          (case ne_get_int32 env v of
             None \<Rightarrow> Some (set_status n (ne_wrong_type env) nf, [])
           | Some c \<Rightarrow> Some (update_state n (\<lambda>ns. ns\<lparr>ns_node_class := c\<rparr>) nf, []))
      | BrowseName \<Rightarrow>
          (case ne_get_qualified_name env v of
             None \<Rightarrow> Some (set_status n (ne_wrong_type env) nf, [])
           | Some b \<Rightarrow> if ne_empty_name env b then Some (set_status n (ne_wrong_type env) nf, [])
                      else Some (update_state n (\<lambda>ns. ns\<lparr>ns_browse_name := Some b\<rparr>) nf, []))
      | DisplayName \<Rightarrow>
          (case ne_get_localized_text env v of
             None \<Rightarrow> Some (set_status n (ne_wrong_type env) nf, [])
           | Some t \<Rightarrow> Some (update_state n (\<lambda>ns. ns\<lparr>ns_display_name := Some t\<rparr>) nf, []))
      | DataType \<Rightarrow>
          (case ne_get_node_id env v of
             None \<Rightarrow> Some (set_status n (ne_wrong_type env) nf, [])
           | Some d \<Rightarrow> if d = ne_null env then Some (set_status n (ne_wrong_type env) nf, [])
                      else validate_dependency env n d (update_state n (\<lambda>ns. ns\<lparr>ns_data_type := d\<rparr>) nf))
      | ValueAttr \<Rightarrow> Some (update_state n (\<lambda>ns. ns\<lparr>ns_value := Some v\<rparr>) nf, [])
      | _ \<Rightarrow> Some (nf, []))"

text \<open>A result applies to a node only while the node waits for this very request.\<close>

definition awaits :: "32 word \<Rightarrow> ('n, 'v, 'c, 's) fetching_node \<Rightarrow> bool" where
  "awaits rid node \<longleftrightarrow> \<not> status_is_empty (fn_fetch_started node) \<and> fn_request_id node = rid"

definition apply_read_result ::
    "('n::linorder, 'v, 's) nf_env \<Rightarrow> 32 word \<Rightarrow> 'n read_id \<Rightarrow> 's \<times> 'v \<Rightarrow>
     ('n, 'v, 'c, 's) node_fetcher \<Rightarrow> ('n, 'v, 'c, 's) nf_result" where
  "apply_read_result env rid read_id result nf = do {
     found \<leftarrow> find_node (ne_null env) (fst read_id) (nodes_of nf);
     (case found of
        None \<Rightarrow> Some (nf, [])
      | Some node \<Rightarrow>
          if \<not> awaits rid node then Some (nf, [])
          else let nf1 = update_node (fst read_id) (\<lambda>node. node\<lparr>fn_attributes_fetched := True\<rparr>) nf
               in if ne_bad env (fst result)
                  then Some (if snd read_id = BrowseName then set_status (fst read_id) (fst result) nf1 else nf1, [])
                  else set_fetched_attribute env (fst read_id) (snd read_id) (snd result) nf1)
   }"

text \<open>The child branch of \<open>AddFetchedReference\<close>: a component is added, linked both ways and scheduled.\<close>

definition add_child ::
    "('n::linorder, 'v, 's) nf_env \<Rightarrow> 'n \<Rightarrow> 'n \<Rightarrow> 'n \<Rightarrow> ('n, 'v, 'c, 's) node_fetcher \<Rightarrow> ('n, 'v, 'c, 's) nf_result" where
  "add_child env n target t nf1 = do {
     nf3 \<leftarrow> nf_add_node env target nf1;
     node \<leftarrow> smap_find (nodes_of nf3) n;
     let nf4 = update_node target (\<lambda>child. child\<lparr>
         fn_state := (fn_state child)\<lparr>ns_reference_type_id := t, ns_parent_id := n\<rparr>,
         fn_force := fn_force child \<or> fn_force node\<rparr>) nf3;
     (nf5, outs5) \<leftarrow>
       (if t = ne_has_property env
        then validate_dependency env n (ne_property_type env)
          (update_node target (\<lambda>child. child\<lparr>
             fn_state := (fn_state child)\<lparr>ns_node_class := ne_variable_class env,
                             ns_type_definition_id := ne_property_type env\<rparr>,
             fn_is_property := True,
             fn_is_declaration := ne_is_type_definition env
               (ns_node_class (fn_state (node_at (nodes_of nf4) n)))\<rparr>) nf4)
        else Some (nf4, []));
     nf6 \<leftarrow> nf_add_dependency target n nf5;
     nf7 \<leftarrow> nf_add_dependency n target nf6;
     (nf8, outs8) \<leftarrow> fetch_node env target
       (fn_pending_sequence (node_at (nodes_of nf7) n)) node_only False nf7;
     Some (nf8, outs5 @ outs8)
   }"

definition add_fetched_reference ::
    "('n::linorder, 'v, 's) nf_env \<Rightarrow> 'n browse_description \<Rightarrow> 'n reference_description \<Rightarrow>
     ('n, 'v, 'c, 's) node_fetcher \<Rightarrow> ('n, 'v, 'c, 's) nf_result" where
  "add_fetched_reference env description r nf =
     (let n = bd_node_id description; target = rd_node_id r; t = rd_reference_type_id r
      in if t = ne_null env \<or> target = ne_null env then Some (set_status n (ne_generic_bad env) nf, [])
      else do {
        (nf1, outs1) \<leftarrow> validate_dependency env n t nf;
        (nf2, outs2) \<leftarrow>
          (if bd_direction description = Inverse
           then do {
             check (bd_reference_type_id description = ne_hierarchical env
                    \<or> bd_reference_type_id description = ne_has_subtype env);
             if rd_forward r then Some (nf1, [])
             else validate_dependency env n target
                    (if t = ne_has_subtype env then update_state n (\<lambda>ns. ns\<lparr>ns_supertype_id := target\<rparr>) nf1
                     else update_state n (\<lambda>ns. ns\<lparr>ns_parent_id := target, ns_reference_type_id := t\<rparr>) nf1)
           }
           else if bd_reference_type_id description = ne_aggregates env
           then (if \<not> rd_forward r \<or> t = ne_has_subtype env then Some (nf1, [])
                 else add_child env n target t nf1)
           else do {
             check (bd_reference_type_id description = ne_non_hierarchical env);
             if \<not> rd_forward r then Some (nf1, [])
             else validate_dependency env n target
               (if t = ne_has_type_definition env
                then update_state n (\<lambda>ns. ns\<lparr>ns_type_definition_id := target\<rparr>) nf1
                else update_state n (\<lambda>ns. ns\<lparr>ns_references := vec_insert r (ns_references ns)\<rparr>) nf1)
           });
        Some (nf2, outs1 @ outs2)
      })"

fun add_fetched_references ::
    "('n::linorder, 'v, 's) nf_env \<Rightarrow> 'n browse_description \<Rightarrow> 'n reference_description list \<Rightarrow>
     ('n, 'v, 'c, 's) node_fetcher \<Rightarrow> ('n, 'v, 'c, 's) nf_result" where
  "add_fetched_references env description [] nf = Some (nf, [])"
| "add_fetched_references env description (r # rs) nf = do {
     (nf', outs) \<leftarrow> add_fetched_reference env description r nf;
     (nf'', outs') \<leftarrow> add_fetched_references env description rs nf';
     Some (nf'', outs @ outs')
   }"

definition apply_browse_result ::
    "('n::linorder, 'v, 's) nf_env \<Rightarrow> 32 word \<Rightarrow> 'n browse_description \<Rightarrow> ('n, 's) browse_result \<Rightarrow>
     ('n, 'v, 'c, 's) node_fetcher \<Rightarrow> ('n, 'v, 'c, 's) nf_result" where
  "apply_browse_result env rid description result nf = do {
     found \<leftarrow> find_node (ne_null env) (bd_node_id description) (nodes_of nf);
     (case found of
        None \<Rightarrow> Some (nf, [])
      | Some node \<Rightarrow>
          if \<not> awaits rid node then Some (nf, [])
          else let nf1 = update_node (bd_node_id description) (\<lambda>node. node\<lparr>fn_references_fetched := True\<rparr>) nf
               in if ne_bad env (br_status_code result)
                  then Some (set_status (bd_node_id description) (br_status_code result) nf1, [])
                  else add_fetched_references env description (br_references result) nf1)
   }"

fun apply_all ::
    "('a \<Rightarrow> ('n, 'v, 'c, 's) node_fetcher \<Rightarrow> ('n, 'v, 'c, 's) nf_result) \<Rightarrow> 'a list \<Rightarrow>
     ('n, 'v, 'c, 's) node_fetcher \<Rightarrow> ('n, 'v, 'c, 's) nf_result" where
  "apply_all f [] nf = Some (nf, [])"
| "apply_all f (x # xs) nf = do {
     (nf', outs) \<leftarrow> f x nf;
     (nf'', outs') \<leftarrow> apply_all f xs nf';
     Some (nf'', outs @ outs')
   }"

text \<open>\<open>OnReadResult\<close>; an answer with the wrong number of results counts as a bad one, and a bad answer
  gives every attribute an error value.\<close>

definition on_read_result ::
    "('n::linorder, 'v, 's) nf_env \<Rightarrow> 32 word \<Rightarrow> 's \<Rightarrow> 'n read_id list \<Rightarrow> ('s \<times> 'v) list \<Rightarrow>
     ('n, 'v, 'c, 's) node_fetcher \<Rightarrow> ('n, 'v, 'c, 's) nf_result" where
  "on_read_result env rid status read_ids results nf = do {
     let status' = (if \<not> ne_bad env status \<and> length results \<noteq> length read_ids
                    then ne_generic_bad env else status);
     let inputs = (if \<not> ne_bad env status' then zip read_ids results
                   else map (\<lambda>i. (i, (status', ne_null_variant env))) read_ids);
     check (\<not> nf_processing nf);
     (nf1, outs1) \<leftarrow> apply_all (\<lambda>(i, r). apply_read_result env rid i r) inputs (nf\<lparr>nf_processing := True\<rparr>);
     (nf2, outs2) \<leftarrow> finish_request env (nf1\<lparr>nf_processing := False\<rparr>);
     (nf3, outs3) \<leftarrow> fetch_pending_nodes env nf2;
     Some (nf3, outs1 @ outs2 @ outs3)
   }"

definition on_browse_result ::
    "('n::linorder, 'v, 's) nf_env \<Rightarrow> 32 word \<Rightarrow> 's \<Rightarrow> 'n browse_description list \<Rightarrow> ('n, 's) browse_result list \<Rightarrow>
     ('n, 'v, 'c, 's) node_fetcher \<Rightarrow> ('n, 'v, 'c, 's) nf_result" where
  "on_browse_result env rid status descriptions results nf = do {
     let status' = (if \<not> ne_bad env status \<and> length results \<noteq> length descriptions
                    then ne_generic_bad env else status);
     let inputs = (if \<not> ne_bad env status' then zip descriptions results
                   else map (\<lambda>d. (d, \<lparr>br_status_code = status', br_references = []\<rparr>)) descriptions);
     check (\<not> nf_processing nf);
     (nf1, outs1) \<leftarrow> apply_all (\<lambda>(d, r). apply_browse_result env rid d r) inputs (nf\<lparr>nf_processing := True\<rparr>);
     (nf2, outs2) \<leftarrow> finish_request env (nf1\<lparr>nf_processing := False\<rparr>);
     (nf3, outs3) \<leftarrow> fetch_pending_nodes env nf2;
     Some (nf3, outs1 @ outs2 @ outs3)
   }"

section \<open>Runs\<close>

datatype ('n, 'v, 's) nf_event =
  Fetch 'n fetch_status bool
| Cancel 'n
| ReadAnswer nat 's "('s \<times> 'v) list"
| BrowseAnswer nat 's "('n, 's) browse_result list"

text \<open>Answers may come in any order: the number picks one of the requests without an answer.\<close>

definition nf_handle ::
    "('n::linorder, 'v, 's) nf_env \<Rightarrow> ('n, 'v, 's) nf_event \<Rightarrow>
     ('n, 'v, 'c, 's) node_fetcher \<Rightarrow> ('n, 'v, 'c, 's) nf_result" where
  "nf_handle env e nf =
     (case e of
        Fetch n status force \<Rightarrow> nf_fetch env n status force nf
      | Cancel n \<Rightarrow> nf_cancel env n nf
      | ReadAnswer i status results \<Rightarrow>
          (if i < length (nf_reads nf)
           then case nf_reads nf ! i of (rid, read_ids) \<Rightarrow>
             on_read_result env rid status read_ids results
               (nf\<lparr>nf_reads := take i (nf_reads nf) @ drop (Suc i) (nf_reads nf)\<rparr>)
           else Some (nf, []))
      | BrowseAnswer i status results \<Rightarrow>
          (if i < length (nf_browses nf)
           then case nf_browses nf ! i of (rid, descriptions) \<Rightarrow>
             on_browse_result env rid status descriptions results
               (nf\<lparr>nf_browses := take i (nf_browses nf) @ drop (Suc i) (nf_browses nf)\<rparr>)
           else Some (nf, [])))"

fun nf_run ::
    "('n::linorder, 'v, 's) nf_env \<Rightarrow> ('n, 'v, 's) nf_event list \<Rightarrow>
     ('n, 'v, 'c, 's) node_fetcher \<Rightarrow> ('n, 'v, 'c, 's) nf_result" where
  "nf_run env [] nf = Some (nf, [])"
| "nf_run env (e # es) nf = do {
     (nf', outs) \<leftarrow> nf_handle env e nf;
     (nf'', outs') \<leftarrow> nf_run env es nf';
     Some (nf'', outs @ outs')
   }"

end
