(* ===== verification/Node_Fetcher_Facts.thy ===== *)
theory Node_Fetcher_Facts
  imports Node_Fetcher
begin

text \<open>
  The invariant of the node fetcher. The server's answers are only assumed not to make a node its own
  component and not to make the type hierarchy cyclic: \<open>hr\<close> is a rank that supertypes decrease.
\<close>

section \<open>Views of the nodes\<close>

lemma nodes_of_set_nodes [simp]: "nodes_of (set_nodes m nf) = m"
  by (simp add: set_nodes_def)

lemma set_nodes_frame [simp]:
  "nf_queue (set_nodes m nf) = nf_queue nf" "nf_running (set_nodes m nf) = nf_running nf"
  "nf_processing (set_nodes m nf) = nf_processing nf" "nf_draining (set_nodes m nf) = nf_draining nf"
  "nf_reads (set_nodes m nf) = nf_reads nf" "nf_browses (set_nodes m nf) = nf_browses nf"
  "fg_cache_iteration (nf_graph (set_nodes m nf)) = fg_cache_iteration (nf_graph nf)"
  by (simp_all add: set_nodes_def)

abbreviation node_in :: "('n::linorder, 'v, 'c, 's) node_fetcher \<Rightarrow> 'n \<Rightarrow> ('n, 'v, 'c, 's) fetching_node option" where
  "node_in nf \<equiv> smap_find (nodes_of nf)"

lemma update_node_frame [simp]:
  "nf_queue (update_node n f nf) = nf_queue nf" "nf_running (update_node n f nf) = nf_running nf"
  "nf_processing (update_node n f nf) = nf_processing nf" "nf_draining (update_node n f nf) = nf_draining nf"
  "nf_reads (update_node n f nf) = nf_reads nf" "nf_browses (update_node n f nf) = nf_browses nf"
  "fg_cache_iteration (nf_graph (update_node n f nf)) = fg_cache_iteration (nf_graph nf)"
  by (simp_all add: update_node_def)

lemma node_in_update:
  "node_in (update_node n f nf) x = (if x = n then map_option f (node_in nf n) else node_in nf x)"
  by (simp add: update_node_def smap_find_adjust)

definition frame :: "('n, 'v, 'c, 's) node_fetcher \<Rightarrow> ('n, 'v, 'c, 's) node_fetcher \<Rightarrow> bool" where
  "frame nf nf' \<longleftrightarrow> nf_running nf' = nf_running nf \<and> nf_processing nf' = nf_processing nf
     \<and> nf_draining nf' = nf_draining nf \<and> nf_reads nf' = nf_reads nf \<and> nf_browses nf' = nf_browses nf"

section \<open>The invariant of a node\<close>

abbreviation started :: "('n, 'v, 'c, 's) fetching_node \<Rightarrow> bool" where
  "started node \<equiv> \<not> status_is_empty (fn_fetch_started node)"

definition base_ok :: "('n, 'v, 's) nf_env \<Rightarrow> ('n \<Rightarrow> nat) \<Rightarrow> 'n \<Rightarrow> ('n, 'v, 'c, 's) fetching_node \<Rightarrow> bool" where
  "base_ok env hr n node \<longleftrightarrow>
     (fn_pending node \<longrightarrow> \<not> started node \<and> status_includes (fn_pending_status node) node_only)
     \<and> (started node \<longrightarrow> status_includes (fn_fetch_started node) node_only)
     \<and> \<not> status_includes (fn_pending_status node) non_hierarchical_inverse
     \<and> \<not> status_includes (fn_fetch_started node) non_hierarchical_inverse
     \<and> (\<not> started node \<longrightarrow> \<not> fn_attributes_fetched node \<and> \<not> fn_references_fetched node)
     \<and> ns_node_id (fn_state node) = n \<and> n \<noteq> ne_null env
     \<and> (ns_supertype_id (fn_state node) \<noteq> ne_null env \<longrightarrow> hr (ns_supertype_id (fn_state node)) < hr n)"

type_synonym 'n reads = "(32 word \<times> 'n read_id list) list"
type_synonym 'n browses = "(32 word \<times> 'n browse_description list) list"

definition awaits_read :: "'n reads \<Rightarrow> 32 word \<Rightarrow> 'n \<Rightarrow> bool" where
  "awaits_read R rid n \<longleftrightarrow> (\<exists>ids. (rid, ids) \<in> set R \<and> n \<in> fst ` set ids)"

definition awaits_browse :: "'n browses \<Rightarrow> 32 word \<Rightarrow> 'n \<Rightarrow> bool" where
  "awaits_browse B rid n \<longleftrightarrow> (\<exists>ds. (rid, ds) \<in> set B \<and> n \<in> bd_node_id ` set ds)"

text \<open>A node waits in the queue, or for the answers of its request.\<close>

definition live :: "'n reads \<Rightarrow> 'n browses \<Rightarrow> 'n \<Rightarrow> ('n, 'v, 'c, 's) fetching_node \<Rightarrow> bool" where
  "live R B n node \<longleftrightarrow> (fn_pending node \<or> started node)
     \<and> (started node \<longrightarrow> (fn_attributes_fetched node \<or> awaits_read R (fn_request_id node) n)
          \<and> (fn_references_fetched node \<or> awaits_browse B (fn_request_id node) n))"

text \<open>The nodes in \<open>E\<close> are being worked on.\<close>

definition core_ok ::
    "('n, 'v, 's) nf_env \<Rightarrow> ('n \<Rightarrow> nat) \<Rightarrow> 'n reads \<Rightarrow> 'n browses \<Rightarrow> 'n set \<Rightarrow>
     ('n::linorder, 'v, 'c, 's) node_fetcher \<Rightarrow> bool" where
  "core_ok env hr R B E nf \<longleftrightarrow> graph_ok (nodes_of nf)
     \<and> iter_below (fg_cache_iteration (nf_graph nf)) (nodes_of nf)
     \<and> fg_cache_iteration (nf_graph nf) > 0
     \<and> queue_ok (nodes_of nf) (nf_queue nf)
     \<and> (\<forall>n node. node_in nf n = Some node \<longrightarrow> base_ok env hr n node \<and> (n \<in> E \<or> live R B n node))"

lemma core_okD:
  assumes "core_ok env hr R B E nf"
  shows "graph_ok (nodes_of nf)" "iter_below (fg_cache_iteration (nf_graph nf)) (nodes_of nf)"
    "fg_cache_iteration (nf_graph nf) > 0" "queue_ok (nodes_of nf) (nf_queue nf)"
    "node_in nf n = Some node \<Longrightarrow> base_ok env hr n node"
    "node_in nf n = Some node \<Longrightarrow> n \<notin> E \<Longrightarrow> live R B n node"
    "smap_ok (nodes_of nf)"
  using assms by (auto simp: core_ok_def graph_ok_def)

lemma core_ok_mono: "core_ok env hr R B E nf \<Longrightarrow> E \<subseteq> F \<Longrightarrow> core_ok env hr R B F nf"
  unfolding core_ok_def by blast

lemma includes_non_hierarchical:
  "status_includes s non_hierarchical_inverse \<longleftrightarrow> bit s 2"
proof -
  have "bit non_hierarchical_inverse i \<longleftrightarrow> i = 2" for i
    by (simp only: non_hierarchical_inverse_def bit_push_bit_iff bit_1_iff possible_bit_word) auto
  then show ?thesis by (simp add: includes_iff)
qed

lemma union_non_hierarchical:
  "status_includes (status_union a b) non_hierarchical_inverse \<longleftrightarrow>
   status_includes a non_hierarchical_inverse \<or> status_includes b non_hierarchical_inverse"
  by (simp add: includes_non_hierarchical status_union_def bit_or_iff)

lemma node_only_simps [simp]:
  "status_includes node_only node_only" "\<not> status_includes node_only non_hierarchical_inverse"
  "\<not> status_includes status_none non_hierarchical_inverse" "status_is_empty status_none"
proof -
  show "\<not> status_includes node_only non_hierarchical_inverse"
    by (simp add: includes_non_hierarchical node_only_def bit_1_iff)
  show "\<not> status_includes status_none non_hierarchical_inverse"
    by (simp add: includes_non_hierarchical status_none_def)
qed (simp_all add: status_includes_def status_is_empty_def)

section \<open>Changing one node\<close>

text \<open>Changes that keep a node's place in the graph and in the queue.\<close>

definition same_links :: "('n, 'v, 'c, 's) fetching_node \<Rightarrow> ('n, 'v, 'c, 's) fetching_node \<Rightarrow> bool" where
  "same_links a b \<longleftrightarrow> fn_depends_of b = fn_depends_of a \<and> fn_dependent_nodes b = fn_dependent_nodes a
     \<and> fn_cache_iteration b = fn_cache_iteration a"

lemma links_upd:
  assumes "smap_find m' = (smap_find m)(n \<mapsto> b)" "smap_find m n = Some a" "same_links a b"
  shows "deps m' = deps m" "rdeps m' = rdeps m" "iter_below it m \<Longrightarrow> iter_below it m'"
  using assms by (auto simp: deps_def rdeps_def iter_below_def same_links_def fun_eq_iff)

lemma graph_ok_upd:
  assumes "graph_ok m" "smap_ok m'" "smap_find m' = (smap_find m)(n \<mapsto> b)" "smap_find m n = Some a"
    "same_links a b"
  shows "graph_ok m'"
proof -
  note l = links_upd(1,2) [OF assms(3-5)]
  show ?thesis using assms(1,2) unfolding graph_ok_def l by blast
qed

lemma queue_ok_upd:
  assumes "queue_ok m q" "smap_find m' = (smap_find m)(n \<mapsto> b)" "smap_find m n = Some a"
    "fn_pending b = fn_pending a"
  shows "queue_ok m' q"
  using assms by (auto simp: queue_ok_def is_pending_def)

lemma core_update:
  assumes ok: "core_ok env hr R B E nf" and n: "node_in nf n = Some a"
    and l: "same_links a (f a)" "fn_pending (f a) = fn_pending a"
    and b: "base_ok env hr n (f a)" and e: "n \<in> E \<or> live R B n (f a)"
  shows "core_ok env hr R B E (update_node n f nf)"
proof -
  let ?m = "nodes_of (update_node n f nf)"
  have m: "smap_find ?m = (node_in nf)(n \<mapsto> f a)" using n by (auto simp: fun_eq_iff node_in_update)
  have so: "smap_ok ?m" using core_okD(7) [OF ok] by (simp add: update_node_def smap_ok_adjust)
  show ?thesis
    unfolding core_ok_def update_node_frame
  proof (intro conjI allI impI)
    show "graph_ok ?m" by (rule graph_ok_upd [OF core_okD(1) [OF ok] so m n l(1)])
    show "iter_below (fg_cache_iteration (nf_graph nf)) ?m"
      by (rule links_upd(3) [OF m n l(1) core_okD(2) [OF ok]])
    show "fg_cache_iteration (nf_graph nf) > 0" by (rule core_okD(3) [OF ok])
    show "queue_ok ?m (nf_queue nf)" by (rule queue_ok_upd [OF core_okD(4) [OF ok] m n l(2)])
    fix x node assume "smap_find ?m x = Some node"
    then have x: "(x = n \<and> node = f a) \<or> (x \<noteq> n \<and> node_in nf x = Some node)" by (auto simp: m split: if_splits)
    then show "base_ok env hr x node" using b core_okD(5) [OF ok] by blast
    show "x \<in> E \<or> live R B x node" using x e core_okD(6) [OF ok] by blast
  qed
qed

text \<open>Updates of a node's data that keep everything the invariant speaks about.\<close>

definition same_life :: "('n, 'v, 'c, 's) fetching_node \<Rightarrow> ('n, 'v, 'c, 's) fetching_node \<Rightarrow> bool" where
  "same_life a b \<longleftrightarrow> same_links a b \<and> fn_pending b = fn_pending a
     \<and> fn_pending_status b = fn_pending_status a \<and> fn_fetch_started b = fn_fetch_started a
     \<and> fn_request_id b = fn_request_id a
     \<and> ns_node_id (fn_state b) = ns_node_id (fn_state a)
     \<and> (fn_attributes_fetched a \<longrightarrow> fn_attributes_fetched b) \<and> (fn_references_fetched a \<longrightarrow> fn_references_fetched b)
     \<and> (\<not> started a \<longrightarrow> fn_attributes_fetched b = fn_attributes_fetched a
          \<and> fn_references_fetched b = fn_references_fetched a)"

lemma core_update_life:
  assumes ok: "core_ok env hr R B E nf"
    and l: "\<And>a. node_in nf n = Some a \<Longrightarrow> same_life a (f a)
      \<and> (ns_supertype_id (fn_state (f a)) = ns_supertype_id (fn_state a)
         \<or> hr (ns_supertype_id (fn_state (f a))) < hr n)"
  shows "core_ok env hr R B E (update_node n f nf)"
proof (cases "node_in nf n")
  case None
  then have "update_node n f nf = nf" by (simp add: update_node_def smap_adjust_def set_nodes_def)
  then show ?thesis using ok by simp
next
  case (Some a)
  have b: "base_ok env hr n a" by (rule core_okD(5) [OF ok Some])
  show ?thesis
  proof (rule core_update [OF ok Some])
    show "base_ok env hr n (f a)" using b l [OF Some] by (auto simp: base_ok_def same_life_def)
    show "n \<in> E \<or> live R B n (f a)"
      using core_okD(6) [OF ok Some] l [OF Some] by (auto simp: live_def same_life_def)
  qed (use l [OF Some] in \<open>auto simp: same_life_def\<close>)
qed

section \<open>Growth while an answer is processed\<close>

definition grows ::
    "('n::linorder, 'v, 'c, 's) node_fetcher \<Rightarrow> ('n, 'v, 'c, 's) node_fetcher \<Rightarrow> bool" where
  "grows nf nf' \<longleftrightarrow> frame nf nf'
     \<and> (\<forall>n a. node_in nf n = Some a \<longrightarrow> (\<exists>b. node_in nf' n = Some b
          \<and> fn_fetch_started b = fn_fetch_started a \<and> fn_request_id b = fn_request_id a
          \<and> (fn_attributes_fetched a \<longrightarrow> fn_attributes_fetched b)
          \<and> (fn_references_fetched a \<longrightarrow> fn_references_fetched b)))
     \<and> (\<forall>n b. node_in nf n = None \<longrightarrow> node_in nf' n = Some b \<longrightarrow> \<not> started b)"

lemma grows_refl [simp]: "grows nf nf"
  by (simp add: grows_def frame_def)

lemma grows_trans:
  assumes "grows nf nf'" "grows nf' nf''"
  shows "grows nf nf''"
proof -
  have "\<exists>b. node_in nf'' n = Some b
          \<and> fn_fetch_started b = fn_fetch_started a \<and> fn_request_id b = fn_request_id a
          \<and> (fn_attributes_fetched a \<longrightarrow> fn_attributes_fetched b)
          \<and> (fn_references_fetched a \<longrightarrow> fn_references_fetched b)" if "node_in nf n = Some a" for n a
    using assms that unfolding grows_def by metis
  moreover have "\<not> started b" if "node_in nf n = None" "node_in nf'' n = Some b" for n b
  proof (cases "node_in nf' n")
    case None
    then show ?thesis using assms(2) that(2) unfolding grows_def by blast
  next
    case (Some c)
    then have "\<not> started c" using assms(1) that(1) unfolding grows_def by blast
    then show ?thesis using assms(2) Some that(2) unfolding grows_def by fastforce
  qed
  ultimately show ?thesis using assms unfolding grows_def frame_def by simp
qed

lemma grows_key: "grows nf nf' \<Longrightarrow> node_in nf n \<noteq> None \<Longrightarrow> node_in nf' n \<noteq> None"
  unfolding grows_def by fastforce

lemma grows_update:
  assumes "\<And>a. node_in nf n = Some a \<Longrightarrow> same_life a (f a)"
  shows "grows nf (update_node n f nf)"
  using assms unfolding grows_def frame_def
  by (auto simp: node_in_update same_life_def)

end
