(* ===== verification/Node_Fetcher_Steps.thy ===== *)
theory Node_Fetcher_Steps
  imports Node_Fetcher_Facts
begin

text \<open>
  Processing an answer: every step keeps the invariant and only grows the graph; new nodes enter
  the queue and nothing is sent.
\<close>

section \<open>Adding nodes and dependencies\<close>

lemma new_node_simps [simp]:
  "fn_depends_of (new_fetching_node null good oc n) = []"
  "fn_dependent_nodes (new_fetching_node null good oc n) = []"
  "\<not> fn_pending (new_fetching_node null good oc n)"
  "fn_cache_iteration (new_fetching_node null good oc n) = 0"
  "fn_fetch_started (new_fetching_node null good oc n) = status_none"
  "\<not> fetched (new_fetching_node null good oc n)"
  by (simp_all add: new_fetching_node_def fetched_def)

lemma core_base_live:
  fixes a b :: "('n, 'v, 'c, 's) fetching_node"
  assumes "core b = core a"
  shows "base_ok env hr n b = base_ok env hr n a" "live R B n b = live R B n a"
    "fn_pending b = fn_pending a" "fn_fetch_started b = fn_fetch_started a"
    "fn_request_id b = fn_request_id a" "fn_attributes_fetched b = fn_attributes_fetched a"
    "fn_references_fetched b = fn_references_fetched a" "fn_pending_sequence b = fn_pending_sequence a"
proof -
  have "base_ok env hr n (core x) = base_ok env hr n x" "live R B n (core x) = live R B n x"
    "fn_pending (core x) = fn_pending x" "fn_fetch_started (core x) = fn_fetch_started x"
    "fn_request_id (core x) = fn_request_id x" "fn_attributes_fetched (core x) = fn_attributes_fetched x"
    "fn_references_fetched (core x) = fn_references_fetched x" "fn_pending_sequence (core x) = fn_pending_sequence x"
    for x :: "('n, 'v, 'c, 's) fetching_node"
    by (simp_all add: core_def base_ok_def live_def)
  with assms show "base_ok env hr n b = base_ok env hr n a" "live R B n b = live R B n a"
    "fn_pending b = fn_pending a" "fn_fetch_started b = fn_fetch_started a"
    "fn_request_id b = fn_request_id a" "fn_attributes_fetched b = fn_attributes_fetched a"
    "fn_references_fetched b = fn_references_fetched a" "fn_pending_sequence b = fn_pending_sequence a"
    by metis+
qed

lemma base_ok_new:
  "n \<noteq> ne_null env \<Longrightarrow> base_ok env hr n (new_fetching_node (ne_null env) (ne_good env) oc n)"
  by (simp add: base_ok_def new_fetching_node_def)

lemma nf_add_node_ok:
  assumes ok: "core_ok env hr R B E nf" and n: "n \<noteq> ne_null env"
  shows "\<exists>nf'. nf_add_node env n nf = Some nf' \<and> core_ok env hr R B (insert n E) nf' \<and> grows nf nf'
    \<and> (n \<in> E \<or> node_in nf n \<noteq> None \<longrightarrow> core_ok env hr R B E nf')
    \<and> node_in nf' n \<noteq> None \<and> frame nf nf' \<and> nf_queue nf' = nf_queue nf
    \<and> nf_next_pending_sequence nf' = nf_next_pending_sequence nf
    \<and> deps (nodes_of nf') = deps (nodes_of nf) \<and> (\<forall>x. is_fetched (nodes_of nf') x \<longrightarrow> is_fetched (nodes_of nf) x)
    \<and> (\<forall>x. node_in nf' x = (if x = n \<and> node_in nf n = None
         then Some (new_fetching_node (ne_null env) (ne_good env) (ne_object_class env) n) else node_in nf x))"
proof (cases "node_in nf n")
  case (Some a)
  then have "nf_add_node env n nf = Some nf"
    using n by (simp add: nf_add_node_def add_node_def smap_try_emplace_def set_nodes_def)
  then show ?thesis using Some core_ok_mono [OF ok] ok by (auto simp: frame_def)
next
  case None
  let ?new = "new_fetching_node (ne_null env) (ne_good env) (ne_object_class env) n"
  let ?m = "smap_put (nodes_of nf) n ?new"
  have r: "nf_add_node env n nf = Some (set_nodes ?m nf)"
    using n None by (simp add: nf_add_node_def add_node_def smap_try_emplace_def)
  have m: "smap_find ?m = (node_in nf)(n \<mapsto> ?new)" by (auto simp: smap_find_put)
  have d: "deps ?m = deps (nodes_of nf)" "rdeps ?m = rdeps (nodes_of nf)"
    using None by (auto simp: deps_def rdeps_def fun_eq_iff m)
  have so: "smap_ok ?m" by (rule smap_ok_put [OF core_okD(7) [OF ok]])
  have g: "graph_ok ?m" using core_okD(1) [OF ok] so unfolding graph_ok_def d by blast
  have i: "iter_below (fg_cache_iteration (nf_graph nf)) ?m"
    using core_okD(2,3) [OF ok] by (auto simp: iter_below_def m)
  have "is_pending ?m x = is_pending (nodes_of nf) x" for x
    using None by (auto simp: is_pending_def m)
  then have q: "queue_ok ?m (nf_queue nf)" using core_okD(4) [OF ok] by (simp add: queue_ok_def)
  have fe: "is_fetched ?m x \<longrightarrow> is_fetched (nodes_of nf) x" for x
    by (auto simp: is_fetched_def m)
  have all: "base_ok env hr x node \<and> (x \<in> insert n E \<or> live R B x node)"
    if "smap_find ?m x = Some node" for x node
    using that base_ok_new [OF n] core_okD(5,6) [OF ok, of x] by (cases "x = n") (auto simp: m)
  then have c: "core_ok env hr R B (insert n E) (set_nodes ?m nf)"
    using g i q core_okD(3) [OF ok] by (simp add: core_ok_def)
  moreover have "core_ok env hr R B E (set_nodes ?m nf)" if "n \<in> E"
    using c that by (simp add: insert_absorb)
  moreover have "grows nf (set_nodes ?m nf)"
    using None by (auto simp: grows_def frame_def m)
  moreover have "nf_next_pending_sequence (set_nodes ?m nf) = nf_next_pending_sequence nf"
    by (simp add: set_nodes_def)
  ultimately show ?thesis using r None d(1) fe m by (auto simp: frame_def)
qed

lemma nf_add_dependency_ok:
  assumes ok: "core_ok env hr R B E nf" and ne: "n \<noteq> from" and n: "node_in nf n = Some a"
    and fr: "node_in nf from = Some b"
  shows "\<exists>nf'. nf_add_dependency n from nf = Some nf' \<and> core_ok env hr R B E nf' \<and> grows nf nf'
    \<and> (\<forall>x. map_option fn_pending_sequence (node_in nf' x) = map_option fn_pending_sequence (node_in nf x))
    \<and> (\<forall>x. (node_in nf' x = None) = (node_in nf x = None))"
proof -
  let ?m = "nodes_of nf"
  let ?m1 = "smap_adjust ?m from (\<lambda>dn. dn\<lparr>fn_dependent_nodes := vec_insert n (fn_dependent_nodes dn)\<rparr>)"
  let ?m2 = "smap_adjust ?m1 n (\<lambda>dn. dn\<lparr>fn_depends_of := vec_insert from (fn_depends_of dn)\<rparr>)"
  have r: "nf_add_dependency n from nf = Some (set_nodes ?m2 nf)"
    using ne by (simp add: nf_add_dependency_def add_dependency_def)
  have m2: "smap_find ?m2 x = (if x = n then Some (a\<lparr>fn_depends_of := vec_insert from (fn_depends_of a)\<rparr>)
      else if x = from then Some (b\<lparr>fn_dependent_nodes := vec_insert n (fn_dependent_nodes b)\<rparr>)
      else smap_find ?m x)" for x
    using ne n fr by (simp add: smap_find_adjust)
  have sc: "map_option core (smap_find ?m2 x) = map_option core (smap_find ?m x)" for x
    using n fr by (simp add: m2)
  then have cor: "\<exists>c. smap_find ?m x = Some c \<and> core node = core c" if "smap_find ?m2 x = Some node" for x node
    using that sc [of x] by (cases "smap_find ?m x") auto
  have d: "deps ?m2 x = (if x = n then vec_insert from (deps ?m n) else deps ?m x)"
    and rd: "rdeps ?m2 x = (if x = from then vec_insert n (rdeps ?m from) else rdeps ?m x)" for x
    using ne n fr by (auto simp: deps_def rdeps_def m2)
  have so: "smap_ok ?m2" by (intro smap_ok_adjust core_okD(7) [OF ok])
  have sym: "\<And>x y. y \<in> set (deps ?m x) \<longleftrightarrow> x \<in> set (rdeps ?m y)"
    and dis: "\<And>x. distinct (deps ?m x) \<and> distinct (rdeps ?m x) \<and> x \<notin> set (deps ?m x)"
    using core_okD(1) [OF ok] unfolding graph_ok_def by blast+
  have vi: "set (vec_insert x xs) = insert x (set xs)" "distinct xs \<Longrightarrow> distinct (vec_insert x xs)" for x :: 'a and xs
    by (auto simp: vec_insert_def)
  have "graph_ok ?m2"
    unfolding graph_ok_def
  proof (intro conjI allI)
    fix x y
    show "y \<in> set (deps ?m2 x) \<longleftrightarrow> x \<in> set (rdeps ?m2 y)"
      using sym by (auto simp: d rd vi)
    show "distinct (deps ?m2 x)" "distinct (rdeps ?m2 x)" "x \<notin> set (deps ?m2 x)"
      using dis ne by (auto simp: d rd vi)
  qed (rule so)
  moreover have "iter_below (fg_cache_iteration (nf_graph nf)) ?m2"
    using core_okD(2) [OF ok] n fr by (auto simp: iter_below_def m2)
  moreover have "queue_ok ?m2 (nf_queue nf)"
  proof -
    have "is_pending ?m2 x = is_pending ?m x" for x using n fr by (auto simp: is_pending_def m2)
    then show ?thesis using core_okD(4) [OF ok] by (simp add: queue_ok_def)
  qed
  moreover have "base_ok env hr x node \<and> (x \<in> E \<or> live R B x node)" if h: "smap_find ?m2 x = Some node" for x node
  proof -
    obtain c where c: "smap_find ?m x = Some c" "core node = core c" using cor [OF h] by blast
    show ?thesis
      unfolding core_base_live(1,2) [OF c(2)] using core_okD(5,6) [OF ok c(1)] by blast
  qed
  ultimately have "core_ok env hr R B E (set_nodes ?m2 nf)"
    using core_okD(3) [OF ok] by (simp add: core_ok_def)
  moreover have "grows nf (set_nodes ?m2 nf)"
    using n fr by (auto simp: grows_def frame_def m2)
  ultimately show ?thesis using r n fr by (intro exI [of _ "set_nodes ?m2 nf"]) (simp add: m2)
qed

section \<open>Scheduling\<close>

text \<open>Scheduling a node puts it into the queue, taking back a request that was started.\<close>

lemma schedule_node_ok:
  fixes nf :: "('n::linorder, 'v, 'c, 's) node_fetcher"
  assumes ok: "core_ok env hr R B (insert n E) nf" and nE: "n \<notin> E"
    and n: "node_in nf n = Some a"
    and st: "status_includes status node_only" "\<not> status_includes status non_hierarchical_inverse"
  shows "\<exists>nf' b. schedule_node env n sq status force nf = Some nf' \<and> core_ok env hr R B E nf' \<and> frame nf nf'
    \<and> node_in nf' = (node_in nf)(n \<mapsto> b) \<and> \<not> started b \<and> fn_pending b
    \<and> (\<not> started a \<longrightarrow> fn_request_id b = fn_request_id a)
    \<and> deps (nodes_of nf') = deps (nodes_of nf)"
proof -
  define f where "f = (\<lambda>node :: ('n, 'v, 'c, 's) fetching_node. if started node
                 then node\<lparr>fn_fetch_started := status_none, fn_request_id := 0,
                           fn_attributes_fetched := False, fn_references_fetched := False,
                           fn_status := ne_good env,
                           fn_state := (fn_state node)\<lparr>ns_references := []\<rparr>\<rparr>
                 else node)"
  define g where "g = (\<lambda>node :: ('n, 'v, 'c, 's) fetching_node. node\<lparr>fn_force := fn_force node \<or> force,
                 fn_pending_status := status_union (fn_pending_status node) status,
                 fn_pending_sequence := sq\<rparr>)"
  let ?nf1 = "update_node n f nf"
  let ?nf2 = "update_node n g ?nf1"
  have ba: "base_ok env hr n a" by (rule core_okD(5) [OF ok n])
  have bf: "base_ok env hr n (f a)" using ba by (auto simp: base_ok_def f_def)
  have ok1: "core_ok env hr R B (insert n E) ?nf1"
    by (rule core_update [where f = f, OF ok n _ _ bf]) (auto simp: f_def same_links_def)
  have n1: "node_in ?nf1 n = Some (f a)" by (simp add: node_in_update n)
  have bg: "base_ok env hr n (g (f a))"
    using bf st by (auto simp: base_ok_def g_def union_non_hierarchical includes_union)
  have ok2: "core_ok env hr R B (insert n E) ?nf2"
    by (rule core_update [where f = g, OF ok1 n1 _ _ bg]) (auto simp: g_def same_links_def)
  have n2: "node_in ?nf2 n = Some (g (f a))" by (simp add: node_in_update n)
  obtain m q where p: "fq_push n (nodes_of ?nf2, nf_queue ?nf2) = Some (m, q)" "smap_ok m"
    "smap_find m = (node_in ?nf2)(n \<mapsto> (g (f a))\<lparr>fn_pending := True\<rparr>)" "queue_ok m q"
    using fq_push_correct [OF core_okD(4,7) [OF ok2] n2] by blast
  let ?b = "(g (f a))\<lparr>fn_pending := True\<rparr>"
  let ?nf = "set_nodes m (?nf2\<lparr>nf_queue := q\<rparr>)"
  have sl: "same_links (g (f a)) ?b" by (simp add: same_links_def)
  have nst: "\<not> started ?b" by (simp add: g_def f_def)
  have bb: "base_ok env hr n ?b"
    using bg nst st by (auto simp: base_ok_def g_def includes_union f_def)
  have lb: "live R B n ?b" using nst by (simp add: live_def)
  have "graph_ok m" by (rule graph_ok_upd [OF core_okD(1) [OF ok2] p(2,3) n2 sl])
  moreover have "iter_below (fg_cache_iteration (nf_graph nf)) m"
    using links_upd(3) [OF p(3) n2 sl] core_okD(2) [OF ok2] by simp
  moreover have "base_ok env hr x node \<and> (x \<in> E \<or> live R B x node)" if "smap_find m x = Some node" for x node
    using that bb lb core_okD(5,6) [OF ok2, of x] by (auto simp: p(3) split: if_splits)
  ultimately have "core_ok env hr R B E ?nf"
    using p(4) core_okD(3) [OF ok] by (simp add: core_ok_def)
  moreover have "schedule_node env n sq status force nf = Some ?nf"
    using p(1) by (simp add: schedule_node_def Let_def f_def [symmetric] g_def [symmetric])
  moreover have "frame nf ?nf" by (simp add: frame_def)
  moreover have "node_in ?nf = (node_in nf)(n \<mapsto> ?b)" by (auto simp: fun_eq_iff p(3) node_in_update)
  moreover have "deps m = deps (nodes_of nf)"
    using n by (auto simp: deps_def fun_eq_iff p(3) node_in_update f_def g_def)
  moreover have "\<not> started a \<longrightarrow> fn_request_id ?b = fn_request_id a" by (simp add: f_def g_def)
  ultimately show ?thesis using nst by (intro exI [of _ ?nf] exI [of _ ?b]) simp
qed

text \<open>While an answer is processed, fetching a further node never disturbs a started one.\<close>

lemma fetch_node_processing:
  assumes ok: "core_ok env hr R B (insert n E) nf" and nE: "n \<notin> E"
    and n: "node_in nf n = Some a" and lv: "started a \<longrightarrow> live R B n a" and pr: "nf_processing nf"
  shows "\<exists>nf'. fetch_node env n sq node_only False nf = Some (nf', []) \<and> core_ok env hr R B E nf' \<and> grows nf nf'"
proof (cases "started a")
  case True
  then have "status_includes (fn_fetch_started a) node_only"
    using core_okD(5) [OF ok n] by (simp add: base_ok_def)
  then have "fetch_node env n sq node_only False nf = Some (nf, [])" using True n by (simp add: fetch_node_def)
  moreover have "core_ok env hr R B E nf"
    unfolding core_ok_def
  proof (intro conjI allI impI)
    fix x node assume x: "node_in nf x = Some node"
    show "base_ok env hr x node" by (rule core_okD(5) [OF ok x])
    show "x \<in> E \<or> live R B x node" using core_okD(6) [OF ok x] lv True n x by (cases "x = n") auto
  qed (use core_okD [OF ok] in blast)+
  ultimately show ?thesis by simp
next
  case False
  obtain nf' b where s: "schedule_node env n sq node_only False nf = Some nf'" "core_ok env hr R B E nf'"
    "frame nf nf'" "node_in nf' = (node_in nf)(n \<mapsto> b)" "\<not> started b" "fn_pending b"
    "\<not> started a \<longrightarrow> fn_request_id b = fn_request_id a"
    using schedule_node_ok [OF ok nE n node_only_simps(1,2), of sq False] by blast
  have ba: "base_ok env hr n a" by (rule core_okD(5) [OF ok n])
  have "grows nf nf'"
    unfolding grows_def
  proof (intro conjI allI impI)
    show "frame nf nf'" by (rule s(3))
    fix x c assume "node_in nf x = Some c"
    then show "\<exists>b. node_in nf' x = Some b \<and> fn_fetch_started b = fn_fetch_started c
        \<and> fn_request_id b = fn_request_id c \<and> (fn_attributes_fetched c \<longrightarrow> fn_attributes_fetched b)
        \<and> (fn_references_fetched c \<longrightarrow> fn_references_fetched b)"
      using s(4,5,7) n False ba by (cases "x = n") (auto simp: base_ok_def status_is_empty_def)
  next
    fix x c assume "node_in nf x = None" "node_in nf' x = Some c"
    then show "\<not> started c" using s(4) n by (auto split: if_splits)
  qed
  moreover have "fetch_pending_nodes env nf' = Some (nf', [])"
    using s(3) pr by (simp add: fetch_pending_nodes_def frame_def)
  ultimately show ?thesis using s(1,2) n False by (simp add: fetch_node_def)
qed

section \<open>Dependencies and attributes\<close>

text \<open>A state in the middle of an answer.\<close>

abbreviation mid_ok ::
    "('n, 'v, 's) nf_env \<Rightarrow> ('n \<Rightarrow> nat) \<Rightarrow> 'n reads \<Rightarrow> 'n browses \<Rightarrow>
     ('n::linorder, 'v, 'c, 's) node_fetcher \<Rightarrow> bool" where
  "mid_ok env hr R B nf \<equiv> core_ok env hr R B {} nf \<and> nf_processing nf"

definition step_ok ::
    "('n, 'v, 's) nf_env \<Rightarrow> ('n \<Rightarrow> nat) \<Rightarrow> 'n reads \<Rightarrow> 'n browses \<Rightarrow>
     ('n::linorder, 'v, 'c, 's) node_fetcher \<Rightarrow> ('n, 'v, 'c, 's) nf_result \<Rightarrow> bool" where
  "step_ok env hr R B nf res \<longleftrightarrow> (\<exists>nf'. res = Some (nf', []) \<and> mid_ok env hr R B nf' \<and> grows nf nf')"

lemma step_ok_refl: "mid_ok env hr R B nf \<Longrightarrow> step_ok env hr R B nf (Some (nf, []))"
  by (simp add: step_ok_def)

lemma grows_processing: "grows nf nf' \<Longrightarrow> nf_processing nf' = nf_processing nf"
  by (simp add: grows_def frame_def)

lemma step_ok_bind:
  assumes "step_ok env hr R B nf res"
    "\<And>nf'. mid_ok env hr R B nf' \<Longrightarrow> grows nf nf' \<Longrightarrow> step_ok env hr R B nf' (f nf')"
  shows "step_ok env hr R B nf
    (res \<bind> (\<lambda>(nf', outs). f nf' \<bind> (\<lambda>(nf'', outs'). Some (nf'', outs @ outs'))))"
proof -
  obtain nf' where 1: "res = Some (nf', [])" "mid_ok env hr R B nf'" "grows nf nf'"
    using assms(1) by (auto simp: step_ok_def)
  obtain nf'' where 2: "f nf' = Some (nf'', [])" "mid_ok env hr R B nf''" "grows nf' nf''"
    using assms(2) [OF 1(2,3)] by (auto simp: step_ok_def)
  show ?thesis using 1 2 grows_trans [OF 1(3) 2(3)] by (simp add: step_ok_def)
qed

lemma step_ok_grows:
  "grows nf nf1 \<Longrightarrow> step_ok env hr R B nf1 res \<Longrightarrow> step_ok env hr R B nf res"
  using grows_trans by (fastforce simp: step_ok_def)

lemma step_update:
  assumes "mid_ok env hr R B nf"
    "\<And>a. node_in nf n = Some a \<Longrightarrow> same_life a (f a)
      \<and> (ns_supertype_id (fn_state (f a)) = ns_supertype_id (fn_state a)
         \<or> hr (ns_supertype_id (fn_state (f a))) < hr n)"
  shows "mid_ok env hr R B (update_node n f nf)" "grows nf (update_node n f nf)"
  using assms core_update_life grows_update by (simp_all, blast+)

text \<open>Making \<open>target\<close> a node that the fetch of \<open>n\<close> waits for.\<close>

lemma validate_dependency_E:
  assumes ok: "core_ok env hr R B E nf" and pr: "nf_processing nf" and n: "node_in nf n \<noteq> None"
    and E: "\<forall>x \<in> E. \<forall>a. node_in nf x = Some a \<longrightarrow> \<not> started a"
  shows "\<exists>nf'. validate_dependency env n from nf = Some (nf', []) \<and> core_ok env hr R B E nf' \<and> grows nf nf'"
proof (cases "from = ne_null env \<or> n = from \<or> ne_validator env from")
  case True
  then have "validate_dependency env n from nf = Some (nf, [])" by (auto simp: validate_dependency_def)
  then show ?thesis using ok by simp
next
  case False
  then have nn: "from \<noteq> ne_null env" "n \<noteq> from" by auto
  obtain nf1 where 1: "nf_add_node env from nf = Some nf1" "core_ok env hr R B (insert from E) nf1" "grows nf nf1"
    "node_in nf1 from \<noteq> None"
    "from \<in> E \<or> node_in nf from \<noteq> None \<longrightarrow> core_ok env hr R B E nf1"
    "\<forall>x. node_in nf1 x = (if x = from \<and> node_in nf from = None
         then Some (new_fetching_node (ne_null env) (ne_good env) (ne_object_class env) from) else node_in nf x)"
    using nf_add_node_ok [OF ok nn(1)] by auto
  obtain a where a: "node_in nf1 n = Some a" using n nn(2) 1(6) by auto
  let ?f = "\<lambda>fr. fr\<lparr>fn_force := fn_force fr \<or> fn_force a\<rparr>"
  let ?nf2 = "update_node from ?f nf1"
  define F where "F = (if node_in nf from = None then insert from E else E)"
  have c1: "core_ok env hr R B F nf1" using 1(2,5) by (simp add: F_def)
  have sl: "same_life x (?f x)" for x
    by (simp add: same_life_def same_links_def)
  have c2: "core_ok env hr R B F ?nf2" by (rule core_update_life [OF c1]) (simp add: sl)
  have g2: "grows nf ?nf2" by (rule grows_trans [OF 1(3) grows_update]) (rule sl)
  obtain b where b: "node_in ?nf2 from = Some b" using 1(4) by (auto simp: node_in_update)
  obtain a2 where a2: "node_in ?nf2 n = Some a2" using a nn(2) by (auto simp: node_in_update)
  obtain nf3 where 3: "nf_add_dependency n from ?nf2 = Some nf3" "core_ok env hr R B F nf3" "grows ?nf2 nf3"
    "\<forall>x. (node_in nf3 x = None) = (node_in ?nf2 x = None)"
    using nf_add_dependency_ok [OF c2 nn(2) a2 b] by blast
  have g3: "grows nf nf3" by (rule grows_trans [OF g2 3(3)])
  obtain b3 where b3: "node_in nf3 from = Some b3" using 3(4) b by (cases "node_in nf3 from") auto
  have lv: "started b3 \<longrightarrow> live R B from b3"
  proof (cases "node_in nf from")
    case None
    then show ?thesis using g3 b3 unfolding grows_def by blast
  next
    case (Some c)
    then have "from \<in> E \<longrightarrow> \<not> started c" using E by blast
    then have "from \<in> E \<longrightarrow> \<not> started b3" using g3 b3 Some unfolding grows_def by force
    then show ?thesis using core_okD(6) [OF 3(2) b3] Some by (auto simp: F_def)
  qed
  have pr3: "nf_processing nf3" using pr grows_processing [OF g3] by simp
  have "core_ok env hr R B (insert from (E - {from})) nf3"
    by (rule core_ok_mono [OF 3(2)]) (auto simp: F_def)
  then obtain nf4 where 4: "fetch_node env from (fn_pending_sequence (node_at (nodes_of nf3) from)) node_only False nf3
      = Some (nf4, [])" "core_ok env hr R B (E - {from}) nf4" "grows nf3 nf4"
    using fetch_node_processing [OF _ _ b3 lv pr3] by blast
  have "validate_dependency env n from nf = Some (nf4, [])"
    using False 1(1) a 3(1) 4(1) by (simp add: validate_dependency_def)
  then show ?thesis
    using core_ok_mono [OF 4(2), of E] grows_trans [OF g3 4(3)] by auto
qed

lemma validate_dependency_ok:
  assumes ok: "mid_ok env hr R B nf" and n: "node_in nf n \<noteq> None"
  shows "step_ok env hr R B nf (validate_dependency env n from nf)"
proof -
  obtain nf' where r: "validate_dependency env n from nf = Some (nf', [])" "core_ok env hr R B {} nf'" "grows nf nf'"
    using validate_dependency_E [of env hr R B "{}" nf n] ok n by blast
  then show ?thesis using ok grows_processing [OF r(3)] by (simp add: step_ok_def)
qed

lemma set_status_ok: "mid_ok env hr R B nf \<Longrightarrow> step_ok env hr R B nf (Some (set_status n s nf, []))"
  unfolding step_ok_def set_status_def
  using step_update [of env hr R B nf n "\<lambda>node. node\<lparr>fn_status := s\<rparr>"]
  by (auto simp: same_life_def same_links_def)

lemma update_state_ok:
  assumes "mid_ok env hr R B nf"
    "\<And>a. node_in nf n = Some a \<Longrightarrow> ns_node_id (f (fn_state a)) = ns_node_id (fn_state a)
      \<and> (ns_supertype_id (f (fn_state a)) = ns_supertype_id (fn_state a)
         \<or> hr (ns_supertype_id (f (fn_state a))) < hr n)"
  shows "mid_ok env hr R B (update_state n f nf)" "grows nf (update_state n f nf)"
proof -
  have l: "same_life a (a\<lparr>fn_state := f (fn_state a)\<rparr>)
      \<and> (ns_supertype_id (fn_state (a\<lparr>fn_state := f (fn_state a)\<rparr>)) = ns_supertype_id (fn_state a)
         \<or> hr (ns_supertype_id (fn_state (a\<lparr>fn_state := f (fn_state a)\<rparr>))) < hr n)"
    if "node_in nf n = Some a" for a
    using assms(2) [OF that] by (simp add: same_life_def same_links_def)
  show "mid_ok env hr R B (update_state n f nf)" "grows nf (update_state n f nf)"
    unfolding update_state_def
    by (rule step_update [OF assms(1)], use l in blast)+
qed

lemma update_state_step:
  assumes "mid_ok env hr R B nf"
    "\<And>ns. ns_node_id (f ns) = ns_node_id ns" "\<And>ns. ns_supertype_id (f ns) = ns_supertype_id ns"
  shows "step_ok env hr R B nf (Some (update_state n f nf, []))"
  using update_state_ok [OF assms(1), of n f] assms(2,3) by (simp add: step_ok_def)

lemma set_fetched_attribute_ok:
  assumes ok: "mid_ok env hr R B nf" and n: "node_in nf n \<noteq> None"
  shows "step_ok env hr R B nf (set_fetched_attribute env n a v nf)"
proof (cases a)
  case DataType
  show ?thesis
  proof (cases "ne_get_node_id env v")
    case None
    then show ?thesis using DataType set_status_ok [OF ok] by (simp add: set_fetched_attribute_def)
  next
    case (Some d)
    let ?nf = "update_state n (\<lambda>ns. ns\<lparr>ns_data_type := d\<rparr>) nf"
    have u: "mid_ok env hr R B ?nf" "grows nf ?nf" by (rule update_state_ok [OF ok]; simp)+
    have "node_in ?nf n \<noteq> None" by (rule grows_key [OF u(2) n])
    then have "step_ok env hr R B nf (validate_dependency env n d ?nf)"
      using step_ok_grows [OF u(2)] validate_dependency_ok [OF u(1)] by blast
    then show ?thesis using DataType Some set_status_ok [OF ok] by (simp add: set_fetched_attribute_def)
  qed
qed (use ok in \<open>auto simp: set_fetched_attribute_def split: option.splits
      intro!: set_status_ok update_state_step step_ok_refl\<close>)

section \<open>Results\<close>

text \<open>The requests the fetcher makes for nodes without inverse non-hierarchical references.\<close>

definition wf_desc :: "('n, 'v, 's) nf_env \<Rightarrow> 'n browse_description \<Rightarrow> bool" where
  "wf_desc env d \<longleftrightarrow> (if bd_direction d = Inverse then bd_reference_type_id d = ne_hierarchical env
     else bd_reference_type_id d = ne_aggregates env \<or> bd_reference_type_id d = ne_non_hierarchical env)"

text \<open>What is assumed of a reference in an answer: supertypes decrease the rank, and no node is a
  component of itself.\<close>

definition good_ref ::
    "('n, 'v, 's) nf_env \<Rightarrow> ('n \<Rightarrow> nat) \<Rightarrow> 'n browse_description \<Rightarrow> 'n reference_description \<Rightarrow> bool" where
  "good_ref env hr d r \<longleftrightarrow>
     \<not> (bd_direction d = Inverse \<and> rd_reference_type_id r = ne_has_subtype env
        \<and> hr (rd_node_id r) \<ge> hr (bd_node_id d))
   \<and> \<not> (bd_direction d \<noteq> Inverse \<and> bd_reference_type_id d = ne_aggregates env \<and> rd_node_id r = bd_node_id d)"

lemma step_ok_SomeD:
  "step_ok env hr R B nf res \<Longrightarrow> \<exists>nf'. res = Some (nf', []) \<and> mid_ok env hr R B nf' \<and> grows nf nf'"
  by (simp add: step_ok_def)

lemma add_child_ok:
  assumes ok: "mid_ok env hr R B nf" and n: "node_in nf n \<noteq> None"
    and t: "target \<noteq> ne_null env" "target \<noteq> n"
  shows "step_ok env hr R B nf (add_child env n target t nf)"
proof -
  obtain nf3 where 3: "nf_add_node env target nf = Some nf3" "core_ok env hr R B {target} nf3" "grows nf nf3"
    "node_in nf3 target \<noteq> None"
    "node_in nf target \<noteq> None \<longrightarrow> core_ok env hr R B {} nf3"
    using nf_add_node_ok [OF conjunct1 [OF ok] t(1)] by auto
  define E where "E = (if node_in nf target = None then {target} else {})"
  have c3: "core_ok env hr R B E nf3" using 3(2,5) by (simp add: E_def)
  obtain node where node: "node_in nf3 n = Some node" using grows_key [OF 3(3) n] by blast
  let ?f4 = "\<lambda>child. child\<lparr>fn_state := (fn_state child)\<lparr>ns_reference_type_id := t, ns_parent_id := n\<rparr>,
         fn_force := fn_force child \<or> fn_force node\<rparr>"
  let ?nf4 = "update_node target ?f4 nf3"
  have l4: "same_life x (?f4 x)" for x by (simp add: same_life_def same_links_def)
  have c4: "core_ok env hr R B E ?nf4" by (rule core_update_life [OF c3]) (simp add: l4)
  have g4: "grows nf ?nf4" by (rule grows_trans [OF 3(3) grows_update]) (rule l4)
  let ?f5 = "\<lambda>child. child\<lparr>fn_state := (fn_state child)\<lparr>ns_node_class := ne_variable_class env,
                             ns_type_definition_id := ne_property_type env\<rparr>,
             fn_is_property := True,
             fn_is_declaration := ne_is_type_definition env
               (ns_node_class (fn_state (node_at (nodes_of ?nf4) n)))\<rparr>"
  let ?nf5 = "update_node target ?f5 ?nf4"
  have l5: "same_life x (?f5 x)" for x by (simp add: same_life_def same_links_def)
  have c5: "core_ok env hr R B E ?nf5" by (rule core_update_life [OF c4]) (simp add: l5)
  have g5: "grows nf ?nf5" by (rule grows_trans [OF g4 grows_update]) (rule l5)
  have E: "\<forall>x \<in> E. \<forall>a. node_in nf' x = Some a \<longrightarrow> \<not> started a" if "grows nf nf'" for nf'
    using that unfolding grows_def E_def by auto
  have pr: "nf_processing nf'" if "grows nf nf'" for nf' using grows_processing [OF that] ok by simp
  obtain nf5 where 5: "(if t = ne_has_property env then validate_dependency env n (ne_property_type env) ?nf5
      else Some (?nf4, [])) = Some (nf5, [])" "core_ok env hr R B E nf5" "grows nf nf5"
  proof (cases "t = ne_has_property env")
    case True
    obtain nf' where "validate_dependency env n (ne_property_type env) ?nf5 = Some (nf', [])"
      "core_ok env hr R B E nf'" "grows ?nf5 nf'"
      using validate_dependency_E [OF c5 pr [OF g5] grows_key [OF g5 n] E [OF g5]] by blast
    then show ?thesis using True grows_trans [OF g5] by (intro that [of nf']) simp_all
  next
    case False
    then show ?thesis using c4 g4 by (intro that [of ?nf4]) simp_all
  qed
  have tk: "node_in ?nf4 target \<noteq> None" using 3(4) by (simp add: node_in_update)
  have "grows ?nf4 nf5"
  proof (cases "t = ne_has_property env")
    case True
    then show ?thesis
      using 5(1) validate_dependency_E [OF c5 pr [OF g5] grows_key [OF g5 n] E [OF g5], of "ne_property_type env"]
        grows_trans [OF grows_update [of ?nf4 target ?f5]] l5 by auto
  qed (use 5(1) in simp)
  then obtain a5 b5 where ab: "node_in nf5 n = Some a5" "node_in nf5 target = Some b5"
    using grows_key [OF 5(3) n] grows_key [OF _ tk] by blast
  obtain nf6 where 6: "nf_add_dependency target n nf5 = Some nf6" "core_ok env hr R B E nf6" "grows nf5 nf6"
    using nf_add_dependency_ok [OF 5(2) t(2) ab(2,1)] by blast
  obtain a6 b6 where ab6: "node_in nf6 n = Some a6" "node_in nf6 target = Some b6"
    using grows_key [OF 6(3)] ab by (metis option.distinct(1) not_None_eq)
  obtain nf7 where 7: "nf_add_dependency n target nf6 = Some nf7" "core_ok env hr R B E nf7" "grows nf6 nf7"
    using nf_add_dependency_ok [OF 6(2) t(2) [symmetric] ab6] by blast
  obtain b7 where b7: "node_in nf7 target = Some b7"
    using grows_key [OF 7(3)] ab6(2) by (metis option.distinct(1) not_None_eq)
  have g7: "grows nf nf7" using grows_trans [OF grows_trans [OF 5(3) 6(3)] 7(3)] .
  have lv: "started b7 \<longrightarrow> live R B target b7"
  proof (cases "node_in nf target")
    case None
    then show ?thesis using g7 b7 unfolding grows_def by blast
  next
    case (Some c)
    then show ?thesis using core_okD(6) [OF 7(2) b7] by (simp add: E_def)
  qed
  have "core_ok env hr R B (insert target {}) nf7" by (rule core_ok_mono [OF 7(2)]) (simp add: E_def)
  then obtain nf8 where 8: "fetch_node env target (fn_pending_sequence (node_at (nodes_of nf7) n)) node_only False nf7
      = Some (nf8, [])" "core_ok env hr R B {} nf8" "grows nf7 nf8"
    using fetch_node_processing [OF _ _ b7 lv pr [OF g7]] by blast
  have "add_child env n target t nf = Some (nf8, [])"
    unfolding add_child_def Let_def 3(1) Option.bind_lunit node 5(1) prod.case 6(1) 7(1) 8(1) by simp
  then show ?thesis using 8(2) grows_trans [OF g7 8(3)] pr by (simp add: step_ok_def)
qed

lemma add_fetched_reference_ok:
  fixes nf :: "('n::linorder, 'v, 'c, 's) node_fetcher"
  assumes ok: "mid_ok env hr R B nf" and n: "node_in nf (bd_node_id d) \<noteq> None"
    and wf: "wf_desc env d" and good: "good_ref env hr d r"
  shows "step_ok env hr R B nf (add_fetched_reference env d r nf)"
proof (cases "rd_reference_type_id r = ne_null env \<or> rd_node_id r = ne_null env")
  case True
  then show ?thesis using set_status_ok [OF ok] by (simp add: add_fetched_reference_def Let_def)
next
  case False
  let ?n = "bd_node_id d" and ?t = "rd_reference_type_id r" and ?target = "rd_node_id r"
  define rest where "rest = (\<lambda>nf1 :: ('n, 'v, 'c, 's) node_fetcher.
     if bd_direction d = Inverse
     then do {
       check (bd_reference_type_id d = ne_hierarchical env \<or> bd_reference_type_id d = ne_has_subtype env);
       if rd_forward r then Some (nf1, [])
       else validate_dependency env ?n ?target
              (if ?t = ne_has_subtype env then update_state ?n (\<lambda>ns. ns\<lparr>ns_supertype_id := ?target\<rparr>) nf1
               else update_state ?n (\<lambda>ns. ns\<lparr>ns_parent_id := ?target, ns_reference_type_id := ?t\<rparr>) nf1)
     }
     else if bd_reference_type_id d = ne_aggregates env
     then (if \<not> rd_forward r \<or> ?t = ne_has_subtype env then Some (nf1, [])
           else add_child env ?n ?target ?t nf1)
     else do {
       check (bd_reference_type_id d = ne_non_hierarchical env);
       if \<not> rd_forward r then Some (nf1, [])
       else validate_dependency env ?n ?target
         (if ?t = ne_has_type_definition env
          then update_state ?n (\<lambda>ns. ns\<lparr>ns_type_definition_id := ?target\<rparr>) nf1
          else update_state ?n (\<lambda>ns. ns\<lparr>ns_references := vec_insert r (ns_references ns)\<rparr>) nf1)
     })"
  have eq: "add_fetched_reference env d r nf = validate_dependency env ?n ?t nf \<bind>
     (\<lambda>(nf', outs). rest nf' \<bind> (\<lambda>(nf'', outs'). Some (nf'', outs @ outs')))"
    using False unfolding add_fetched_reference_def Let_def rest_def by (simp only: if_False)
  have val: "step_ok env hr R B nf1 (validate_dependency env ?n ?target (update_state ?n f nf1))"
    if "mid_ok env hr R B nf1" "grows nf nf1" "\<And>ns. ns_node_id (f ns) = ns_node_id ns"
      "\<And>ns. ns_supertype_id (f ns) = ns_supertype_id ns \<or> hr (ns_supertype_id (f ns)) < hr ?n" for nf1 f
  proof -
    have u: "mid_ok env hr R B (update_state ?n f nf1)" "grows nf1 (update_state ?n f nf1)"
      by (rule update_state_ok [OF that(1)], use that(3,4) in blast)+
    show ?thesis
      by (rule step_ok_grows [OF u(2)], rule validate_dependency_ok [OF u(1)])
        (rule grows_key [OF u(2) grows_key [OF that(2) n]])
  qed
  show ?thesis
    unfolding eq
  proof (rule step_ok_bind)
    show "step_ok env hr R B nf (validate_dependency env ?n ?t nf)"
      by (rule validate_dependency_ok [OF ok n])
    fix nf1 assume m1: "mid_ok env hr R B nf1" and g1: "grows nf nf1"
    have n1: "node_in nf1 ?n \<noteq> None" by (rule grows_key [OF g1 n])
    show "step_ok env hr R B nf1 (rest nf1)"
    proof (cases "bd_direction d = Inverse")
      case True
      have hrlt: "?t = ne_has_subtype env \<Longrightarrow> hr ?target < hr ?n" using good True by (auto simp: good_ref_def)
      have "step_ok env hr R B nf1 (validate_dependency env ?n ?target
              (if ?t = ne_has_subtype env then update_state ?n (\<lambda>ns. ns\<lparr>ns_supertype_id := ?target\<rparr>) nf1
               else update_state ?n (\<lambda>ns. ns\<lparr>ns_parent_id := ?target, ns_reference_type_id := ?t\<rparr>) nf1))"
        using hrlt by (cases "?t = ne_has_subtype env") (simp_all add: val [OF m1 g1])
      then show ?thesis using True wf step_ok_refl [OF m1] by (simp add: rest_def wf_desc_def)
    next
      case fwd: False
      show ?thesis
      proof (cases "bd_reference_type_id d = ne_aggregates env")
        case True
        then have "?target \<noteq> ?n" using good fwd by (auto simp: good_ref_def)
        then show ?thesis using True fwd step_ok_refl [OF m1] add_child_ok [OF m1 n1] False
          by (simp add: rest_def)
      next
        case False
        have "step_ok env hr R B nf1 (validate_dependency env ?n ?target
         (if ?t = ne_has_type_definition env
          then update_state ?n (\<lambda>ns. ns\<lparr>ns_type_definition_id := ?target\<rparr>) nf1
          else update_state ?n (\<lambda>ns. ns\<lparr>ns_references := vec_insert r (ns_references ns)\<rparr>) nf1))"
          by (cases "?t = ne_has_type_definition env") (simp_all add: val [OF m1 g1])
        then show ?thesis using False fwd wf step_ok_refl [OF m1] by (simp add: rest_def wf_desc_def)
      qed
    qed
  qed
qed

section \<open>Whole answers\<close>

definition attributes_done :: "32 word \<Rightarrow> 'n::linorder \<Rightarrow> ('n, 'v, 'c, 's) node_fetcher \<Rightarrow> bool" where
  "attributes_done rid n nf \<longleftrightarrow> (\<forall>b. node_in nf n = Some b \<longrightarrow> awaits rid b \<longrightarrow> fn_attributes_fetched b)"

definition references_done :: "32 word \<Rightarrow> 'n::linorder \<Rightarrow> ('n, 'v, 'c, 's) node_fetcher \<Rightarrow> bool" where
  "references_done rid n nf \<longleftrightarrow> (\<forall>b. node_in nf n = Some b \<longrightarrow> awaits rid b \<longrightarrow> fn_references_fetched b)"

lemma done_grows:
  assumes "grows nf nf'"
  shows "attributes_done rid n nf \<Longrightarrow> attributes_done rid n nf'"
    "references_done rid n nf \<Longrightarrow> references_done rid n nf'"
proof -
  have "\<exists>a. node_in nf n = Some a \<and> awaits rid a
      \<and> (fn_attributes_fetched a \<longrightarrow> fn_attributes_fetched b) \<and> (fn_references_fetched a \<longrightarrow> fn_references_fetched b)"
    if "node_in nf' n = Some b" "awaits rid b" for b
  proof (cases "node_in nf n")
    case None
    then have "\<not> started b" using assms that(1) unfolding grows_def by blast
    then show ?thesis using that(2) by (simp add: awaits_def)
  next
    case (Some a)
    then show ?thesis using assms that unfolding grows_def awaits_def by fastforce
  qed
  then show "attributes_done rid n nf \<Longrightarrow> attributes_done rid n nf'"
    "references_done rid n nf \<Longrightarrow> references_done rid n nf'"
    unfolding attributes_done_def references_done_def by blast+
qed

lemma apply_read_result_ok:
  assumes ok: "mid_ok env hr R B nf" and n: "fst i \<noteq> ne_null env"
  shows "\<exists>nf'. apply_read_result env rid i r nf = Some (nf', []) \<and> mid_ok env hr R B nf' \<and> grows nf nf'
    \<and> attributes_done rid (fst i) nf'"
proof (cases "node_in nf (fst i)")
  case None
  then show ?thesis using ok n by (simp add: apply_read_result_def find_node_def attributes_done_def)
next
  case (Some node)
  show ?thesis
  proof (cases "awaits rid node")
    case False
    then show ?thesis using ok n Some by (simp add: apply_read_result_def find_node_def attributes_done_def)
  next
    case True
    let ?f = "\<lambda>node. node\<lparr>fn_attributes_fetched := True\<rparr>"
    let ?nf = "update_node (fst i) ?f nf"
    have l: "same_life a (?f a)
      \<and> (ns_supertype_id (fn_state (?f a)) = ns_supertype_id (fn_state a)
         \<or> hr (ns_supertype_id (fn_state (?f a))) < hr (fst i))" if "node_in nf (fst i) = Some a" for a
      using that Some True by (simp add: same_life_def same_links_def awaits_def)
    have u: "mid_ok env hr R B ?nf" "grows nf ?nf"
      by (rule step_update [OF ok], rule l, assumption)+
    have d: "attributes_done rid (fst i) ?nf" by (simp add: attributes_done_def node_in_update Some)
    have k: "node_in ?nf (fst i) \<noteq> None" by (rule grows_key [OF u(2)]) (simp add: Some)
    have "step_ok env hr R B ?nf (if ne_bad env (fst r)
        then Some (if snd i = BrowseName then set_status (fst i) (fst r) ?nf else ?nf, [])
        else set_fetched_attribute env (fst i) (snd i) (snd r) ?nf)"
      using set_status_ok [OF u(1)] step_ok_refl [OF u(1)] set_fetched_attribute_ok [OF u(1) k] by simp
    then obtain nf' where "(if ne_bad env (fst r)
        then Some (if snd i = BrowseName then set_status (fst i) (fst r) ?nf else ?nf, [])
        else set_fetched_attribute env (fst i) (snd i) (snd r) ?nf) = Some (nf', [])"
      "mid_ok env hr R B nf'" "grows ?nf nf'"
      using step_ok_SomeD by blast
    then show ?thesis using Some True n grows_trans [OF u(2)] done_grows(1) [OF _ d]
      by (simp add: apply_read_result_def find_node_def Let_def)
  qed
qed

lemma add_fetched_references_ok:
  assumes "mid_ok env hr R B nf" "node_in nf (bd_node_id d) \<noteq> None" "wf_desc env d"
    "\<forall>r \<in> set rs. good_ref env hr d r"
  shows "step_ok env hr R B nf (add_fetched_references env d rs nf)"
  using assms(1,2,4)
proof (induction rs arbitrary: nf)
  case Nil
  then show ?case by (simp add: step_ok_refl)
next
  case (Cons r rs)
  have 1: "step_ok env hr R B nf (add_fetched_reference env d r nf)"
    using add_fetched_reference_ok [OF Cons.prems(1,2) assms(3)] Cons.prems(3) by simp
  have "step_ok env hr R B nf' (add_fetched_references env d rs nf')"
    if "mid_ok env hr R B nf'" "grows nf nf'" for nf'
    using Cons.IH [OF that(1) grows_key [OF that(2) Cons.prems(2)]] Cons.prems(3) by simp
  from step_ok_bind [OF 1 this] show ?case by simp
qed

lemma apply_browse_result_ok:
  assumes ok: "mid_ok env hr R B nf" and n: "bd_node_id d \<noteq> ne_null env" and wf: "wf_desc env d"
    and good: "\<forall>r \<in> set (br_references res). good_ref env hr d r"
  shows "\<exists>nf'. apply_browse_result env rid d res nf = Some (nf', []) \<and> mid_ok env hr R B nf' \<and> grows nf nf'
    \<and> references_done rid (bd_node_id d) nf'"
proof (cases "node_in nf (bd_node_id d)")
  case None
  then show ?thesis using ok n by (simp add: apply_browse_result_def find_node_def references_done_def)
next
  case (Some node)
  let ?n = "bd_node_id d"
  show ?thesis
  proof (cases "awaits rid node")
    case False
    then show ?thesis using ok n Some by (simp add: apply_browse_result_def find_node_def references_done_def)
  next
    case True
    let ?f = "\<lambda>node. node\<lparr>fn_references_fetched := True\<rparr>"
    let ?nf = "update_node ?n ?f nf"
    have l: "same_life a (?f a)
      \<and> (ns_supertype_id (fn_state (?f a)) = ns_supertype_id (fn_state a)
         \<or> hr (ns_supertype_id (fn_state (?f a))) < hr ?n)" if "node_in nf ?n = Some a" for a
      using that Some True by (simp add: same_life_def same_links_def awaits_def)
    have u: "mid_ok env hr R B ?nf" "grows nf ?nf"
      by (rule step_update [OF ok], rule l, assumption)+
    have d: "references_done rid ?n ?nf" by (simp add: references_done_def node_in_update Some)
    have k: "node_in ?nf ?n \<noteq> None" by (rule grows_key [OF u(2)]) (simp add: Some)
    have "step_ok env hr R B ?nf (if ne_bad env (br_status_code res)
        then Some (set_status ?n (br_status_code res) ?nf, [])
        else add_fetched_references env d (br_references res) ?nf)"
      using set_status_ok [OF u(1)] add_fetched_references_ok [OF u(1) k wf good] by simp
    then obtain nf' where "(if ne_bad env (br_status_code res)
        then Some (set_status ?n (br_status_code res) ?nf, [])
        else add_fetched_references env d (br_references res) ?nf) = Some (nf', [])"
      "mid_ok env hr R B nf'" "grows ?nf nf'"
      using step_ok_SomeD by blast
    then show ?thesis using Some True n grows_trans [OF u(2)] done_grows(2) [OF _ d]
      by (simp add: apply_browse_result_def find_node_def Let_def)
  qed
qed

lemma apply_all_ok:
  assumes "\<And>x nf. x \<in> set xs \<Longrightarrow> mid_ok env hr R B nf \<Longrightarrow>
      \<exists>nf'. f x nf = Some (nf', []) \<and> mid_ok env hr R B nf' \<and> grows nf nf' \<and> P x nf'"
    and "\<And>x nf nf'. P x nf \<Longrightarrow> grows nf nf' \<Longrightarrow> P x nf'"
  shows "mid_ok env hr R B nf \<Longrightarrow> \<exists>nf'. apply_all f xs nf = Some (nf', []) \<and> mid_ok env hr R B nf'
    \<and> grows nf nf' \<and> (\<forall>x \<in> set xs. P x nf')"
  using assms(1)
proof (induction xs arbitrary: nf)
  case (Cons x xs)
  obtain nf1 where 1: "f x nf = Some (nf1, [])" "mid_ok env hr R B nf1" "grows nf nf1" "P x nf1"
    using Cons.prems(2) [of x nf] Cons.prems(1) by auto
  obtain nf2 where 2: "apply_all f xs nf1 = Some (nf2, [])" "mid_ok env hr R B nf2" "grows nf1 nf2"
    "\<forall>x \<in> set xs. P x nf2"
    using Cons.IH [OF 1(2)] Cons.prems(2) by (metis list.set_intros(2))
  show ?case using 1 2 grows_trans [OF 1(3) 2(3)] assms(2) [OF 1(4) 2(3)] by auto
qed simp

end
