(* ===== verification/Node_Fetcher_Runs.thy ===== *)
theory Node_Fetcher_Runs
  imports Node_Fetcher_Steps
begin

text \<open>
  Delivering, requesting, and whole runs of the node fetcher: between two steps every node waits in
  the queue or for an answer, nothing deliverable is held back, and the queue waits only while the
  bound on parallel requests is reached.
\<close>

section \<open>Delivering\<close>

lemma walk_supertypes_ends:
  assumes "\<And>t ty. types t = Some ty \<Longrightarrow> ns_supertype_id ty = ne_null env \<or> hr (ns_supertype_id ty) < (hr t :: nat)"
  shows "walk_supertypes env types t = Some ()"
proof (induction "hr t" arbitrary: t rule: less_induct)
  case less
  show ?case
  proof (cases "types t")
    case None
    then show ?thesis by (simp add: walk_supertypes.simps [of env types t])
  next
    case (Some ty)
    have null: "walk_supertypes env types (ne_null env) = Some ()"
      by (simp add: walk_supertypes.simps [of env types "ne_null env"])
    have "walk_supertypes env types (ns_supertype_id ty) = Some ()"
      using assms [OF Some] less null by metis
    then show ?thesis using Some by (simp add: walk_supertypes.simps [of env types t])
  qed
qed

lemma check_type_definitions_ends:
  assumes "\<And>t ty. types t = Some ty \<Longrightarrow> ns_supertype_id ty = ne_null env \<or> hr (ns_supertype_id ty) < (hr t :: nat)"
  shows "check_type_definitions env types nodes = Some ()"
  by (induction nodes) (simp_all add: walk_supertypes_ends [of types env hr, OF assms])

lemma collect_fetched_mono:
  "collect_fetched bad ns h r = Some (h', r') \<Longrightarrow> fg_cache_iteration h \<le> fg_cache_iteration h'"
proof (induction bad ns h r rule: collect_fetched.induct)
  case (2 bad n ns h r)
  then show ?case
    by (fastforce simp: bind_eq_Some_conv Let_def split: if_splits prod.splits)
qed simp

lemma notify_fetched_nodes_ok:
  assumes ok: "core_ok env hr R B {} nf"
  shows "\<exists>nf' outs. notify_fetched_nodes env nf = Some (nf', outs) \<and> core_ok env hr R B {} nf'
    \<and> frame nf nf' \<and> nf_queue nf' = nf_queue nf \<and> \<not> (\<exists>n. complete (nodes_of nf') n)"
proof -
  let ?m = "nodes_of nf"
  have base: "base_ok env hr n a" "live R B n a" if "node_in nf n = Some a" for n a
    using core_okD(5,6) [OF ok that] by auto
  have st: "started_ok ?m" using base(1) by (auto simp: started_ok_def base_ok_def)
  have d: "distinct (map fst ?m)" by (rule key_sorted_distinct [OF core_okD(7) [OF ok]])
  obtain g where g: "get_fetched_nodes (ne_bad env) (nf_graph nf)
      = Some (g, collected (ne_bad env) ?m (map fst ?m) \<lparr>fc_nodes = [], fc_errors = []\<rparr>)"
    "collect_rel (map fst ?m) ?m (fg_nodes g)" "iter_below (fg_cache_iteration g) (fg_nodes g)"
    using collect_fetched_correct [OF core_okD(1) [OF ok] st core_okD(2) [OF ok] d]
    unfolding get_fetched_nodes_def by auto
  let ?r = "collected (ne_bad env) ?m (map fst ?m) \<lparr>fc_nodes = [], fc_errors = []\<rparr>"
  let ?nf = "nf\<lparr>nf_graph := g\<rparr>"
  have k: "smap_keys (fg_nodes g) = {n \<in> smap_keys ?m. \<not> complete ?m n}"
    using g(2) by (auto simp: collect_rel_def)
  have nc: "\<not> complete (fg_nodes g) n" for n
  proof
    assume c: "complete (fg_nodes g) n"
    then have n: "n \<in> smap_keys (fg_nodes g)" by (simp add: complete_def)
    then have "complete ?m n" using c g(2) unfolding collect_rel_def by blast
    then show False using n k by blast
  qed
  have cor: "\<exists>a. node_in nf n = Some a \<and> core b = core a" if h: "smap_find (fg_nodes g) n = Some b" for n b
  proof -
    have "same_core ?m (fg_nodes g) n" using g(2) keyI [OF h] unfolding collect_rel_def by blast
    then show ?thesis using h by (cases "node_in nf n") (auto simp: same_core_def)
  qed
  have cit: "fg_cache_iteration g > 0"
    using collect_fetched_mono g(1) core_okD(3) [OF ok] unfolding get_fetched_nodes_def by fastforce
  have np: "n \<in> smap_keys (fg_nodes g)" if "is_pending ?m n" for n
  proof -
    obtain a where a: "node_in nf n = Some a" "fn_pending a" using \<open>is_pending ?m n\<close> by (auto simp: is_pending_def)
    then have "\<not> fetched a" using base(1) by (auto simp: base_ok_def fetched_def)
    then have "\<not> is_fetched ?m n" using a(1) by (simp add: is_fetched_def)
    then have "\<not> complete ?m n" by (auto simp: complete_def)
    then show ?thesis using keyI [OF a(1)] k by blast
  qed
  have "is_pending (fg_nodes g) n = is_pending ?m n" for n
  proof
    assume "is_pending (fg_nodes g) n"
    then obtain b where b: "smap_find (fg_nodes g) n = Some b" "fn_pending b" by (auto simp: is_pending_def)
    obtain a where a: "node_in nf n = Some a" "core b = core a" using cor [OF b(1)] by blast
    have "fn_pending a" using core_base_live(3) [OF a(2)] b(2) by simp
    then show "is_pending ?m n" using a(1) by (simp add: is_pending_def)
  next
    assume p: "is_pending ?m n"
    obtain b where b: "smap_find (fg_nodes g) n = Some b" using np [OF p] by (auto simp: key_iff)
    then obtain a where "node_in nf n = Some a" "core b = core a" using cor by blast
    then show "is_pending (fg_nodes g) n" using b p core_base_live(3) by (fastforce simp: is_pending_def)
  qed
  then have q: "queue_ok (fg_nodes g) (nf_queue nf)" using core_okD(4) [OF ok] by (simp add: queue_ok_def)
  have bl: "base_ok env hr n b \<and> live R B n b" if h: "smap_find (fg_nodes g) n = Some b" for n b
  proof -
    obtain a where a: "node_in nf n = Some a" "core b = core a" using cor [OF h] by blast
    then show ?thesis unfolding core_base_live(1,2) [OF a(2)] using base [OF a(1)] by simp
  qed
  have c: "core_ok env hr R B {} ?nf"
    using g(2,3) cit q bl by (simp add: core_ok_def collect_rel_def)
  have sup: "ns_supertype_id ty = ne_null env \<or> hr (ns_supertype_id ty) < hr t"
    if h: "type_definition_map env (fc_nodes ?r) t = Some ty" for t ty
  proof -
    have ty: "ty \<in> set (fc_nodes ?r)" "ns_node_id ty = t"
      using h by (auto simp: type_definition_map_def find_Some_iff)
    then obtain n where n: "n \<in> smap_keys ?m" "ty = fn_state (node_at ?m n)"
      by (auto simp: collected_def)
    then obtain a where a: "node_in nf n = Some a" by (auto simp: key_iff)
    have "base_ok env hr n a" by (rule base(1) [OF a])
    then show ?thesis using n(2) ty(2) a by (auto simp: base_ok_def node_at_def)
  qed
  have "check_type_definitions env (type_definition_map env (fc_nodes ?r)) (fc_nodes ?r) = Some ()"
    by (rule check_type_definitions_ends [of _ env hr]) (rule sup)
  then have "\<exists>outs. notify_fetched_nodes env nf = Some (?nf, outs)"
    by (simp add: notify_fetched_nodes_def g(1) Let_def)
  then show ?thesis using c nc by (auto simp: frame_def)
qed

section \<open>Batches\<close>

lemma core_ok_weaken:
  assumes "core_ok env hr R B E nf" "set R \<subseteq> set R'" "set B \<subseteq> set B'" "E \<subseteq> E'"
  shows "core_ok env hr R' B' E' nf"
proof -
  have "live R B n a \<Longrightarrow> live R' B' n a" for n a
    using assms(2,3) unfolding live_def awaits_read_def awaits_browse_def by blast
  then show ?thesis using assms(1,4) unfolding core_ok_def by blast
qed

lemma deps_eqI:
  assumes "\<And>x. (smap_find m' x = None) = (smap_find m x = None)"
    "\<And>x a b. smap_find m x = Some a \<Longrightarrow> smap_find m' x = Some b \<Longrightarrow> fn_depends_of b = fn_depends_of a"
  shows "deps m' = deps m"
proof
  fix x show "deps m' x = deps m x"
    using assms(1) [of x] assms(2) [of x]
    by (cases "smap_find m x"; cases "smap_find m' x") (auto simp: deps_def)
qed

text \<open>Fewer fetched nodes in an unchanged graph make no node deliverable.\<close>

lemma complete_antimono:
  assumes "deps m' = deps m" "\<And>x. is_fetched m' x \<Longrightarrow> is_fetched m x" "complete m' n"
  shows "complete m n"
proof -
  have "is_fetched m n" using assms(2,3) by (auto simp: complete_def)
  then have "n \<in> smap_keys m" using keyI by (auto simp: is_fetched_def split: option.splits)
  then show ?thesis using assms unfolding complete_def by auto
qed

lemma take_batch_ok:
  assumes "core_ok env hr R B E nf" "\<forall>n \<in> E. \<not> is_pending (nodes_of nf) n"
  shows "\<exists>m q ns. take_batch k (nodes_of nf, nf_queue nf) = Some (m, q, ns)
    \<and> core_ok env hr R B (E \<union> set ns) (set_nodes m (nf\<lparr>nf_queue := q\<rparr>))
    \<and> distinct ns \<and> set ns \<inter> E = {}
    \<and> (\<forall>n \<in> set ns. \<exists>a. smap_find m n = Some a \<and> started a \<and> \<not> fn_attributes_fetched a \<and> \<not> fn_references_fetched a)
    \<and> (\<forall>n. n \<notin> set ns \<longrightarrow> smap_find m n = node_in nf n)
    \<and> length (fq_queue q) + length ns = length (fq_queue (nf_queue nf))
    \<and> (fq_queue (nf_queue nf) \<noteq> [] \<longrightarrow> k > 0 \<longrightarrow> ns \<noteq> [])
    \<and> deps m = deps (nodes_of nf) \<and> (\<forall>x. is_fetched m x \<longrightarrow> is_fetched (nodes_of nf) x)"
  using assms
proof (induction k arbitrary: nf E)
  case 0
  have "set_nodes (nodes_of nf) (nf\<lparr>nf_queue := nf_queue nf\<rparr>) = nf" by (simp add: set_nodes_def)
  then show ?case using 0 by simp
next
  case (Suc k)
  note ok = Suc.prems(1)
  show ?case
  proof (cases "fq_queue (nf_queue nf) = []")
    case True
    have "set_nodes (nodes_of nf) (nf\<lparr>nf_queue := nf_queue nf\<rparr>) = nf" by (simp add: set_nodes_def)
    then show ?thesis using True Suc.prems by simp
  next
    case False
    obtain n a m1 q1 where p: "fq_top (nf_queue nf) = Some n" "node_in nf n = Some a" "fn_pending a"
      "fq_pop (nodes_of nf, nf_queue nf) = Some (m1, q1)" "smap_ok m1"
      "smap_find m1 = (node_in nf)(n \<mapsto> a\<lparr>fn_pending := False\<rparr>)" "queue_ok m1 q1"
      "fq_queue q1 = tl (fq_queue (nf_queue nf))"
      using fq_pop_correct [OF core_okD(4,7) [OF ok] False] by blast
    have ba: "base_ok env hr n a" by (rule core_okD(5) [OF ok p(2)])
    have nE: "n \<notin> E" using Suc.prems(2) p(2,3) by (auto simp: is_pending_def)
    let ?f = "\<lambda>node. node\<lparr>fn_fetch_started := fn_pending_status node\<rparr>"
    let ?m2 = "smap_adjust m1 n ?f"
    define b where "b = a\<lparr>fn_pending := False, fn_fetch_started := fn_pending_status a\<rparr>"
    have m2: "smap_find ?m2 = (node_in nf)(n \<mapsto> b)"
      by (auto simp: fun_eq_iff smap_find_adjust p(6) b_def)
    let ?nf2 = "set_nodes ?m2 (nf\<lparr>nf_queue := q1\<rparr>)"
    have st: "started b" using ba p(3) includes_not_empty by (auto simp: base_ok_def b_def)
    have bb: "base_ok env hr n b" using ba p(3) by (auto simp: base_ok_def b_def)
    have nf': "\<not> fn_attributes_fetched b" "\<not> fn_references_fetched b"
      using ba p(3) by (auto simp: base_ok_def b_def)
    have sl: "same_links a b" by (simp add: same_links_def b_def)
    have so: "smap_ok ?m2" by (rule smap_ok_adjust [OF p(5)])
    have "queue_ok ?m2 q1"
    proof -
      have "is_pending ?m2 x = is_pending m1 x" for x by (auto simp: is_pending_def m2 p(6) b_def)
      then show ?thesis using p(7) by (simp add: queue_ok_def)
    qed
    moreover have "base_ok env hr x node \<and> (x \<in> insert n E \<or> live R B x node)" if "smap_find ?m2 x = Some node" for x node
      using that bb core_okD(5,6) [OF ok, of x] by (auto simp: m2 split: if_splits)
    moreover have "graph_ok ?m2" by (rule graph_ok_upd [OF core_okD(1) [OF ok] so m2 p(2) sl])
    moreover have "iter_below (fg_cache_iteration (nf_graph nf)) ?m2"
      by (rule links_upd(3) [OF m2 p(2) sl core_okD(2) [OF ok]])
    ultimately have c2: "core_ok env hr R B (insert n E) ?nf2"
      using core_okD(3) [OF ok] by (simp add: core_ok_def)
    have np: "\<forall>x \<in> insert n E. \<not> is_pending (nodes_of ?nf2) x"
      using Suc.prems(2) by (auto simp: is_pending_def m2 b_def)
    obtain m q ns where r: "take_batch k (?m2, q1) = Some (m, q, ns)"
      "core_ok env hr R B (insert n E \<union> set ns) (set_nodes m (?nf2\<lparr>nf_queue := q\<rparr>))"
      "distinct ns" "set ns \<inter> insert n E = {}"
      "\<forall>x \<in> set ns. \<exists>a. smap_find m x = Some a \<and> started a \<and> \<not> fn_attributes_fetched a \<and> \<not> fn_references_fetched a"
      "\<forall>x. x \<notin> set ns \<longrightarrow> smap_find m x = smap_find ?m2 x"
      "length (fq_queue q) + length ns = length (fq_queue q1)"
      "deps m = deps ?m2" "\<forall>x. is_fetched m x \<longrightarrow> is_fetched ?m2 x"
      using Suc.IH [OF c2 np] by auto
    have "set_nodes m (?nf2\<lparr>nf_queue := q\<rparr>) = set_nodes m (nf\<lparr>nf_queue := q\<rparr>)"
      by (simp add: set_nodes_def)
    then have cc: "core_ok env hr R B (E \<union> set (n # ns)) (set_nodes m (nf\<lparr>nf_queue := q\<rparr>))"
      using r(2) by (simp add: insert_commute Un_commute)
    have mn: "smap_find m n = Some b" using r(4,6) m2 by auto
    have d2: "deps ?m2 = deps (nodes_of nf)" by (rule links_upd(1) [OF m2 p(2) sl])
    have f2: "is_fetched ?m2 x \<longrightarrow> is_fetched (nodes_of nf) x" for x
      using nf' by (auto simp: is_fetched_def m2 fetched_def)
    have tb: "take_batch (Suc k) (nodes_of nf, nf_queue nf) = Some (m, q, n # ns)"
      using False p(1,4) r(1) ba p(3) includes_not_empty
      by (simp add: p(6) Let_def base_ok_def)
    have len: "length (fq_queue q) + length (n # ns) = length (fq_queue (nf_queue nf))"
      using r(7) p(8) False by (cases "fq_queue (nf_queue nf)") auto
    have nodes: "\<forall>x \<in> set (n # ns). \<exists>a. smap_find m x = Some a \<and> started a \<and> \<not> fn_attributes_fetched a \<and> \<not> fn_references_fetched a"
      using r(5) mn st nf' by auto
    have others: "\<forall>x. x \<notin> set (n # ns) \<longrightarrow> smap_find m x = node_in nf x" using r(6) m2 by auto
    have dis: "distinct (n # ns)" "set (n # ns) \<inter> E = {}" using r(3,4) nE by auto
    have fe: "\<forall>x. is_fetched m x \<longrightarrow> is_fetched (nodes_of nf) x" using r(9) f2 by blast
    show ?thesis
      using tb cc dis nodes others len r(8) d2 fe by (intro exI [of _ m] exI [of _ q] exI [of _ "n # ns"]) simp
  qed
qed

section \<open>Requests\<close>

definition out_ok :: "('n, 'v, 's) nf_env \<Rightarrow> ('n::linorder, 'v, 'c, 's) node_fetcher \<Rightarrow> bool" where
  "out_ok env nf \<longleftrightarrow> nf_running nf = length (nf_reads nf) + length (nf_browses nf)
     \<and> nf_running nf \<le> max_parallel_request_count
     \<and> (\<forall>rid ids i. (rid, ids) \<in> set (nf_reads nf) \<longrightarrow> i \<in> set ids \<longrightarrow> fst i \<noteq> ne_null env)
     \<and> (\<forall>rid ds d. (rid, ds) \<in> set (nf_browses nf) \<longrightarrow> d \<in> set ds \<longrightarrow> bd_node_id d \<noteq> ne_null env \<and> wf_desc env d)"

abbreviation own_core :: "('n, 'v, 's) nf_env \<Rightarrow> ('n \<Rightarrow> nat) \<Rightarrow> 'n set \<Rightarrow> ('n::linorder, 'v, 'c, 's) node_fetcher \<Rightarrow> bool" where
  "own_core env hr E nf \<equiv> core_ok env hr (nf_reads nf) (nf_browses nf) E nf"

definition idle0 :: "('n, 'v, 's) nf_env \<Rightarrow> ('n \<Rightarrow> nat) \<Rightarrow> ('n::linorder, 'v, 'c, 's) node_fetcher \<Rightarrow> bool" where
  "idle0 env hr nf \<longleftrightarrow> own_core env hr {} nf \<and> out_ok env nf \<and> \<not> nf_processing nf
     \<and> \<not> (\<exists>n. complete (nodes_of nf) n)"

lemma node_in_fold:
  "distinct ns \<Longrightarrow> node_in (fold (\<lambda>n. update_node n f) ns nf) x
     = (if x \<in> set ns then map_option f (node_in nf x) else node_in nf x)"
  by (induction ns arbitrary: nf) (auto simp: node_in_update)

lemma fold_frame:
  "nf_queue (fold (\<lambda>n. update_node n f) ns nf) = nf_queue nf
   \<and> nf_running (fold (\<lambda>n. update_node n f) ns nf) = nf_running nf
   \<and> nf_processing (fold (\<lambda>n. update_node n f) ns nf) = nf_processing nf
   \<and> nf_draining (fold (\<lambda>n. update_node n f) ns nf) = nf_draining nf
   \<and> nf_reads (fold (\<lambda>n. update_node n f) ns nf) = nf_reads nf
   \<and> nf_browses (fold (\<lambda>n. update_node n f) ns nf) = nf_browses nf"
  by (induction ns arbitrary: nf) auto

lemma core_fold:
  assumes "core_ok env hr R B E nf" "distinct ns" "set ns \<subseteq> E"
    "\<And>n a. n \<in> set ns \<Longrightarrow> node_in nf n = Some a \<Longrightarrow>
      base_ok env hr n (f a) \<and> same_links a (f a) \<and> fn_pending (f a) = fn_pending a"
    "\<And>n. n \<in> set ns \<Longrightarrow> node_in nf n \<noteq> None"
  shows "core_ok env hr R B E (fold (\<lambda>n. update_node n f) ns nf)"
  using assms
proof (induction ns arbitrary: nf)
  case (Cons n ns)
  obtain a where a: "node_in nf n = Some a" using Cons.prems(5) [of n] by auto
  have fa: "base_ok env hr n (f a)" "same_links a (f a)" "fn_pending (f a) = fn_pending a"
    using Cons.prems(4) [of n a] a by auto
  have c: "core_ok env hr R B E (update_node n f nf)"
    by (rule core_update [where f = f, OF Cons.prems(1) a fa(2,3,1)]) (use Cons.prems(3) in simp)
  have "core_ok env hr R B E (fold (\<lambda>n. update_node n f) ns (update_node n f nf))"
  proof (rule Cons.IH [OF c])
    fix x b assume x: "x \<in> set ns" and b: "node_in (update_node n f nf) x = Some b"
    have "x \<noteq> n" using x Cons.prems(2) by auto
    then show "base_ok env hr x (f b) \<and> same_links b (f b) \<and> fn_pending (f b) = fn_pending b"
      using Cons.prems(4) [of x b] x b by (simp add: node_in_update)
  next
    fix x assume "x \<in> set ns"
    then show "node_in (update_node n f nf) x \<noteq> None"
      using Cons.prems(2) Cons.prems(5) [of x] by (auto simp: node_in_update)
  qed (use Cons.prems in auto)
  then show ?case by simp
qed simp

lemma get_fetch_attributes_nodes:
  "i \<in> set (get_fetch_attributes a) \<Longrightarrow> fst i = ns_node_id (fn_state a)"
  "(ns_node_id (fn_state a), BrowseName) \<in> set (get_fetch_attributes a)"
  "get_fetch_attributes a \<noteq> []"
  by (auto simp: get_fetch_attributes_def Let_def split: if_splits)

lemma get_fetch_references_wf:
  assumes "\<not> status_includes (fn_fetch_started a) non_hierarchical_inverse" "d \<in> set (get_fetch_references env a)"
  shows "bd_node_id d = ns_node_id (fn_state a)" "wf_desc env d"
  using assms by (auto simp: get_fetch_references_def Let_def wf_desc_def split: if_splits)


lemma request_nodes_ok:
  fixes nf :: "('n::linorder, 'v, 'c, 's) node_fetcher"
  assumes ok: "own_core env hr (set ns) nf" and dis: "distinct ns"
    and nodes: "\<forall>n \<in> set ns. \<exists>a. node_in nf n = Some a \<and> started a \<and> \<not> fn_attributes_fetched a \<and> \<not> fn_references_fetched a"
    and out: "out_ok env nf" and room: "nf_running nf + primitive_request_count \<le> max_parallel_request_count"
    and np: "\<not> nf_processing nf" and nc: "\<not> (\<exists>n. complete (nodes_of nf) n)"
  shows "\<exists>nf' outs. request_nodes env ns nf = Some (nf', outs) \<and> idle0 env hr nf'
    \<and> nf_queue nf' = nf_queue nf \<and> nf_draining nf' = nf_draining nf"
proof -
  let ?R = "nf_reads nf" and ?B = "nf_browses nf"
  obtain nf1 rid where mk: "make_request_id nf = (nf1, rid)" by (cases "make_request_id nf")
  have g1: "nf_graph nf1 = nf_graph nf" "nf_queue nf1 = nf_queue nf" "nf_running nf1 = nf_running nf"
    "nf_processing nf1 = nf_processing nf" "nf_draining nf1 = nf_draining nf" "nf_reads nf1 = ?R" "nf_browses nf1 = ?B"
    using mk by (auto simp: make_request_id_def Let_def)
  define nf2 where "nf2 = nf1\<lparr>nf_running := nf_running nf1 + primitive_request_count\<rparr>"
  define f3 where "f3 = (\<lambda>node :: ('n, 'v, 'c, 's) fetching_node. node\<lparr>fn_request_id := rid\<rparr>)"
  define f4 where "f4 = (\<lambda>node :: ('n, 'v, 'c, 's) fetching_node. node\<lparr>fn_attributes_fetched := (get_fetch_attributes node = [])\<rparr>)"
  define f6 where "f6 = (\<lambda>node :: ('n, 'v, 'c, 's) fetching_node. node\<lparr>fn_references_fetched := (get_fetch_references env node = [])\<rparr>)"
  define nf3 where "nf3 = fold (\<lambda>n. update_node n f3) ns nf2"
  define read_ids where "read_ids = concat (map (\<lambda>n. get_fetch_attributes (node_at (nodes_of nf3) n)) ns)"
  define nf4 where "nf4 = fold (\<lambda>n. update_node n f4) ns nf3"
  define nf5 where "nf5 = nf4\<lparr>nf_reads := nf_reads nf4 @ [(rid, read_ids)]\<rparr>"
  define ds where "ds = concat (map (\<lambda>n. get_fetch_references env (node_at (nodes_of nf5) n)) ns)"
  define nf6 where "nf6 = fold (\<lambda>n. update_node n f6) ns nf5"
  have eq: "request_nodes env ns nf =
     (if ds = [] then do {
       check (\<not> nf_processing nf6);
       (nf7, outs) \<leftarrow> finish_request env nf6;
       Some (nf7, ReadNodes rid read_ids # outs)
     } else Some (nf6\<lparr>nf_browses := nf_browses nf6 @ [(rid, ds)]\<rparr>, [ReadNodes rid read_ids, BrowseNodes rid ds]))"
    unfolding request_nodes_def mk Let_def prod.case nf6_def ds_def nf5_def nf4_def read_ids_def nf3_def nf2_def
      f3_def f4_def f6_def by (rule refl)

  have n3: "node_in nf3 x = (if x \<in> set ns then map_option f3 (node_in nf x) else node_in nf x)" for x
    using dis by (simp add: nf3_def node_in_fold nf2_def g1)
  have n4: "node_in nf4 x = (if x \<in> set ns then map_option f4 (node_in nf3 x) else node_in nf3 x)" for x
    using dis by (simp add: nf4_def node_in_fold)
  have n5: "node_in nf5 x = node_in nf4 x" for x by (simp add: nf5_def)
  have n6: "node_in nf6 x = (if x \<in> set ns then map_option f6 (node_in nf4 x) else node_in nf4 x)" for x
    using dis by (simp add: nf6_def node_in_fold n5)
  have fr6: "nf_queue nf6 = nf_queue nf" "nf_running nf6 = nf_running nf + primitive_request_count"
    "nf_processing nf6 = nf_processing nf" "nf_draining nf6 = nf_draining nf"
    "nf_reads nf6 = ?R @ [(rid, read_ids)]" "nf_browses nf6 = ?B"
    by (simp_all add: nf6_def nf5_def nf4_def nf3_def nf2_def fold_frame g1)
  have sim: "same_links a (f3 a)" "same_links a (f4 a)" "same_links a (f6 a)"
    "fn_pending (f3 a) = fn_pending a" "fn_pending (f4 a) = fn_pending a" "fn_pending (f6 a) = fn_pending a"
    "started (f3 a) = started a" "started (f4 a) = started a" for a
    by (simp_all add: same_links_def f3_def f4_def f6_def)
  have b3: "base_ok env hr n (f3 a)" "base_ok env hr n (f4 a)" if "base_ok env hr n a" for n a
    using that get_fetch_attributes_nodes(3) [of a] by (auto simp: base_ok_def f3_def f4_def)
  have b6: "base_ok env hr n (f6 a)" if "base_ok env hr n a" "started a" for n a
    using that by (auto simp: base_ok_def f6_def)
  have c2: "core_ok env hr ?R ?B (set ns) nf2" using ok by (simp add: core_ok_def nf2_def g1)
  have c3: "core_ok env hr ?R ?B (set ns) nf3"
    unfolding nf3_def
  proof (rule core_fold [OF c2 dis])
    fix n assume "n \<in> set ns"
    then show "node_in nf2 n \<noteq> None" using nodes by (auto simp: nf2_def g1)
  qed (use sim b3 core_okD(5) [OF c2] in \<open>auto\<close>)
  have c4: "core_ok env hr ?R ?B (set ns) nf4"
    unfolding nf4_def
  proof (rule core_fold [OF c3 dis])
    fix n assume "n \<in> set ns"
    then show "node_in nf3 n \<noteq> None" using nodes by (auto simp: n3)
  qed (use sim b3 core_okD(5) [OF c3] in \<open>auto\<close>)
  have c5: "core_ok env hr ?R ?B (set ns) nf5" using c4 by (simp add: core_ok_def nf5_def)
  have st5: "\<exists>a. node_in nf5 n = Some a \<and> started a \<and> \<not> fn_attributes_fetched a" if "n \<in> set ns" for n
    using nodes that get_fetch_attributes_nodes(3) by (force simp: n3 n4 n5 f3_def f4_def)
  have c6: "core_ok env hr ?R ?B (set ns) nf6"
    unfolding nf6_def
  proof (rule core_fold [OF c5 dis])
    fix n a assume "n \<in> set ns" "node_in nf5 n = Some a"
    then show "base_ok env hr n (f6 a) \<and> same_links a (f6 a) \<and> fn_pending (f6 a) = fn_pending a"
      using st5 [of n] core_okD(5) [OF c5, of n a] b6 sim by auto
  next
    fix n assume "n \<in> set ns"
    then show "node_in nf5 n \<noteq> None" using st5 by fastforce
  qed simp
  have k3: "\<exists>a. node_in nf3 n = Some a" if h: "n \<in> set ns" for n
  proof -
    obtain b where "node_in nf n = Some b" using nodes h by blast
    then show ?thesis using h by (simp add: n3)
  qed
  text \<open>Every node of the batch is named in the requests.\<close>
  have in_r: "n \<in> fst ` set read_ids" if h: "n \<in> set ns" for n
  proof -
    obtain a where a: "node_in nf3 n = Some a" using k3 [OF h] by blast
    have "ns_node_id (fn_state a) = n" using core_okD(5) [OF c3 a] by (simp add: base_ok_def)
    then have "(n, BrowseName) \<in> set (get_fetch_attributes (node_at (nodes_of nf3) n))"
      using get_fetch_attributes_nodes(2) [of a] a by (simp add: node_at_def)
    then have "(n, BrowseName) \<in> set read_ids" using h unfolding read_ids_def by fastforce
    then show ?thesis by force
  qed
  have wr: "fst i \<noteq> ne_null env" if "i \<in> set read_ids" for i
  proof -
    obtain n where n: "n \<in> set ns" "i \<in> set (get_fetch_attributes (node_at (nodes_of nf3) n))"
      using \<open>i \<in> set read_ids\<close> by (auto simp: read_ids_def)
    obtain a where a: "node_in nf3 n = Some a" using k3 [OF n(1)] by blast
    then show ?thesis using n(2) core_okD(5) [OF c3 a] get_fetch_attributes_nodes(1) [of i a]
      by (simp add: base_ok_def node_at_def)
  qed
  have desc: "bd_node_id d \<noteq> ne_null env \<and> wf_desc env d" if "d \<in> set ds" for d
  proof -
    obtain n where n: "n \<in> set ns" "d \<in> set (get_fetch_references env (node_at (nodes_of nf5) n))"
      using \<open>d \<in> set ds\<close> by (auto simp: ds_def)
    obtain a where a: "node_in nf5 n = Some a" using st5 [OF n(1)] by blast
    have "base_ok env hr n a" by (rule core_okD(5) [OF c5 a])
    then show ?thesis using n(2) a get_fetch_references_wf [of a d env] by (simp add: base_ok_def node_at_def)
  qed
  have in_b: "get_fetch_references env a = [] \<or> n \<in> bd_node_id ` set ds"
    if h: "n \<in> set ns" "node_in nf5 n = Some a" for n a
  proof (cases "get_fetch_references env a")
    case (Cons d rest)
    have b: "base_ok env hr n a" by (rule core_okD(5) [OF c5 h(2)])
    have "d \<in> set (get_fetch_references env a)" using Cons by simp
    moreover have "d \<in> set ds"
    proof -
      have "d \<in> set (get_fetch_references env (node_at (nodes_of nf5) n))" using Cons h(2) by (simp add: node_at_def)
      then show ?thesis using h(1) unfolding ds_def by fastforce
    qed
    moreover have "bd_node_id d = n"
      using b get_fetch_references_wf(1) [of a d env] \<open>d \<in> set (get_fetch_references env a)\<close> by (simp add: base_ok_def)
    ultimately show ?thesis by force
  qed simp
  let ?B' = "if ds = [] then ?B else ?B @ [(rid, ds)]"
  have lv: "live (?R @ [(rid, read_ids)]) ?B' n c" if h: "node_in nf6 n = Some c" for n c
  proof (cases "n \<in> set ns")
    case True
    obtain a where a: "node_in nf5 n = Some a" "started a" using st5 [OF True] by blast
    have c: "c = f6 a" using h True a(1) by (simp add: n6 n5)
    have rid: "fn_request_id a = rid" using a(1) True nodes by (auto simp: n5 n4 n3 f3_def f4_def)
    have "awaits_read (?R @ [(rid, read_ids)]) rid n" using in_r [OF True] by (force simp: awaits_read_def)
    moreover have "fn_references_fetched c \<or> awaits_browse ?B' rid n"
    proof (cases "get_fetch_references env a = []")
      case False
      then have n: "n \<in> bd_node_id ` set ds" using in_b [OF True a(1)] by blast
      then have "ds \<noteq> []" by auto
      then show ?thesis using n by (auto simp: awaits_browse_def)
    qed (simp add: c f6_def)
    ultimately show ?thesis using a(2) rid by (simp add: live_def c f6_def)
  next
    case False
    have "core_ok env hr (?R @ [(rid, read_ids)]) ?B' (set ns) nf6"
      by (rule core_ok_weaken [OF c6]) auto
    then show ?thesis using core_okD(6) h False by blast
  qed
  have c: "core_ok env hr (?R @ [(rid, read_ids)]) ?B' {} nf6"
    using c6 lv unfolding core_ok_def by simp
  show ?thesis
  proof (cases "ds = []")
    case True
    let ?nf = "nf6\<lparr>nf_running := nf_running nf6 - 1\<rparr>"
    have "core_ok env hr (?R @ [(rid, read_ids)]) ?B {} ?nf" using c True by (simp add: core_ok_def)
    then obtain nf' outs where n: "notify_fetched_nodes env ?nf = Some (nf', outs)"
      "core_ok env hr (?R @ [(rid, read_ids)]) ?B {} nf'" "frame ?nf nf'" "nf_queue nf' = nf_queue ?nf"
      "\<not> (\<exists>n. complete (nodes_of nf') n)"
      using notify_fetched_nodes_ok by blast
    have fr: "nf_reads nf' = ?R @ [(rid, read_ids)]" "nf_browses nf' = ?B" "nf_running nf' = nf_running nf + 1"
      "\<not> nf_processing nf'" "nf_draining nf' = nf_draining nf" "nf_queue nf' = nf_queue nf"
      using n(3,4) np by (auto simp: frame_def fr6 primitive_request_count_def)
    have "request_nodes env ns nf = Some (nf', ReadNodes rid read_ids # outs)"
      unfolding eq using True n(1) np by (simp add: finish_request_def fr6 primitive_request_count_def)
    moreover have "out_ok env nf'"
      using out room wr by (auto simp: out_ok_def fr primitive_request_count_def)
    ultimately show ?thesis using n(2,5) fr by (simp add: idle0_def)
  next
    case False
    let ?nf = "nf6\<lparr>nf_browses := nf_browses nf6 @ [(rid, ds)]\<rparr>"
    have d6: "deps (nodes_of nf6) = deps (nodes_of nf)"
    proof (rule deps_eqI)
      fix x show "(node_in nf6 x = None) = (node_in nf x = None)" by (simp add: n6 n4 n3)
      fix a b assume "node_in nf x = Some a" "node_in nf6 x = Some b"
      then show "fn_depends_of b = fn_depends_of a" by (auto simp: n6 n4 n3 f3_def f4_def f6_def split: if_splits)
    qed
    have f6: "is_fetched (nodes_of nf6) x \<Longrightarrow> is_fetched (nodes_of nf) x" for x
    proof (cases "x \<in> set ns")
      case True
      assume h: "is_fetched (nodes_of nf6) x"
      obtain a where a: "node_in nf5 x = Some a" "\<not> fn_attributes_fetched a" using st5 [OF True] by blast
      then have "node_in nf6 x = Some (f6 a)" using True by (simp add: n6 n5)
      then show ?thesis using h a(2) by (simp add: is_fetched_def fetched_def f6_def)
    qed (simp add: is_fetched_def n6 n4 n3)
    have nc': "\<not> (\<exists>n. complete (nodes_of nf6) n)"
      using complete_antimono [OF d6 f6] nc by blast
    have "out_ok env ?nf"
      using out room wr desc by (auto simp: out_ok_def fr6 primitive_request_count_def)
    moreover have "own_core env hr {} ?nf" using c False by (simp add: core_ok_def fr6)
    ultimately show ?thesis unfolding eq using False nc' np by (simp add: idle0_def fr6)
  qed
qed

section \<open>Draining the queue\<close>

definition idle :: "('n, 'v, 's) nf_env \<Rightarrow> ('n \<Rightarrow> nat) \<Rightarrow> ('n::linorder, 'v, 'c, 's) node_fetcher \<Rightarrow> bool" where
  "idle env hr nf \<longleftrightarrow> idle0 env hr nf \<and> \<not> nf_draining nf
     \<and> (fq_queue (nf_queue nf) \<noteq> [] \<longrightarrow> nf_running nf + primitive_request_count > max_parallel_request_count)"

lemma out_ok_frame: "out_ok env nf \<Longrightarrow> frame nf nf' \<Longrightarrow> out_ok env nf'"
  by (simp add: out_ok_def frame_def)

lemma drain_ok:
  fixes nf :: "('n::linorder, 'v, 'c, 's) node_fetcher"
  assumes "idle0 env hr nf" "length (fq_queue (nf_queue nf)) \<le> k"
  shows "\<exists>nf' outs. drain k env nf = Some (nf', outs) \<and> idle0 env hr nf' \<and> nf_draining nf' = nf_draining nf
    \<and> (fq_queue (nf_queue nf') \<noteq> [] \<longrightarrow> nf_running nf' + primitive_request_count > max_parallel_request_count)"
  using assms
proof (induction k arbitrary: nf)
  case 0
  then show ?case by (simp add: drain.simps)
next
  case (Suc k)
  show ?case
  proof (cases "fq_queue (nf_queue nf) \<noteq> [] \<and> nf_running nf + primitive_request_count \<le> max_parallel_request_count")
    case False
    then have "drain (Suc k) env nf = Some (nf, [])" by (auto simp add: drain.simps)
    then show ?thesis using Suc.prems(1) False by auto
  next
    case True
    have c: "own_core env hr {} nf" and o: "out_ok env nf" and np: "\<not> nf_processing nf"
      and nc: "\<not> (\<exists>n. complete (nodes_of nf) n)"
      using Suc.prems(1) by (auto simp: idle0_def)
    obtain m q ns where b: "take_batch max_request_node_count (nodes_of nf, nf_queue nf) = Some (m, q, ns)"
      "core_ok env hr (nf_reads nf) (nf_browses nf) (set ns) (set_nodes m (nf\<lparr>nf_queue := q\<rparr>))" "distinct ns"
      "\<forall>n \<in> set ns. \<exists>a. smap_find m n = Some a \<and> started a \<and> \<not> fn_attributes_fetched a \<and> \<not> fn_references_fetched a"
      "length (fq_queue q) + length ns = length (fq_queue (nf_queue nf))" "ns \<noteq> []"
      "deps m = deps (nodes_of nf)" "\<forall>x. is_fetched m x \<longrightarrow> is_fetched (nodes_of nf) x"
      using take_batch_ok [OF c, of max_request_node_count] True by (auto simp: max_request_node_count_def)
    let ?nf = "set_nodes m (nf\<lparr>nf_queue := q\<rparr>)"
    have nc': "\<not> (\<exists>n. complete (nodes_of ?nf) n)"
      using complete_antimono [of m "nodes_of nf"] b(7,8) nc by auto
    have o': "out_ok env ?nf" using o by (simp add: out_ok_def)
    have "\<exists>nf' outs. request_nodes env ns ?nf = Some (nf', outs) \<and> idle0 env hr nf'
        \<and> nf_queue nf' = nf_queue ?nf \<and> nf_draining nf' = nf_draining ?nf"
      by (rule request_nodes_ok [OF _ b(3) _ o' _ _ nc']) (use b(2,4) True np in simp_all)
    then obtain nf1 outs1 where 1: "request_nodes env ns ?nf = Some (nf1, outs1)" "idle0 env hr nf1"
      "nf_queue nf1 = q" "nf_draining nf1 = nf_draining nf"
      by auto
    have "length (fq_queue (nf_queue nf1)) \<le> k"
      using b(5,6) Suc.prems(2) 1(3) by (cases ns) auto
    then obtain nf2 outs2 where 2: "drain k env nf1 = Some (nf2, outs2)" "idle0 env hr nf2"
      "nf_draining nf2 = nf_draining nf1"
      "fq_queue (nf_queue nf2) \<noteq> [] \<longrightarrow> nf_running nf2 + primitive_request_count > max_parallel_request_count"
      using Suc.IH [OF 1(2)] by blast
    have "drain (Suc k) env nf = Some (nf2, outs1 @ outs2)"
      using True b(1) 1(1) 2(1) by (simp add: drain.simps [of "Suc k"])
    then show ?thesis using 2 1(4) by auto
  qed
qed

lemma idle0_draining: "idle0 env hr (nf\<lparr>nf_draining := b\<rparr>) = idle0 env hr nf"
  by (simp add: idle0_def core_ok_def out_ok_def)

lemma fetch_pending_nodes_ok:
  assumes "idle0 env hr nf" "\<not> nf_draining nf"
  shows "\<exists>nf' outs. fetch_pending_nodes env nf = Some (nf', outs) \<and> idle env hr nf'"
proof -
  let ?nf = "nf\<lparr>nf_draining := True\<rparr>"
  obtain nf' outs where d: "drain (length (fq_queue (nf_queue nf))) env ?nf = Some (nf', outs)" "idle0 env hr nf'"
    "fq_queue (nf_queue nf') \<noteq> [] \<longrightarrow> nf_running nf' + primitive_request_count > max_parallel_request_count"
    using drain_ok [of env hr ?nf "length (fq_queue (nf_queue nf))"] assms(1) by (auto simp: idle0_draining)
  have "\<not> nf_processing nf" using assms(1) by (simp add: idle0_def)
  then have "fetch_pending_nodes env nf = Some (nf'\<lparr>nf_draining := False\<rparr>, outs)"
    using assms(2) d(1) by (simp add: fetch_pending_nodes_def)
  then show ?thesis using d(2,3) by (simp add: idle_def idle0_draining)
qed

section \<open>Entry points\<close>

lemma nf_fetch_ok:
  fixes nf :: "('n::linorder, 'v, 'c, 's) node_fetcher"
  assumes idle: "idle env hr nf" and n: "n \<noteq> ne_null env"
    and st: "status_includes status node_only" "\<not> status_includes status non_hierarchical_inverse"
  shows "\<exists>nf' outs. nf_fetch env n status force nf = Some (nf', outs) \<and> idle env hr nf'"
proof -
  have c: "own_core env hr {} nf" and o: "out_ok env nf" and np: "\<not> nf_processing nf" and nd: "\<not> nf_draining nf"
    and nc: "\<not> (\<exists>n. complete (nodes_of nf) n)"
    using idle by (auto simp: idle_def idle0_def)
  obtain nf1 where a: "nf_add_node env n nf = Some nf1" "own_core env hr (insert n {}) nf1"
    "node_in nf n \<noteq> None \<longrightarrow> own_core env hr {} nf1"
    "node_in nf1 n \<noteq> None" "frame nf nf1" "nf_queue nf1 = nf_queue nf"
    "deps (nodes_of nf1) = deps (nodes_of nf)" "\<forall>x. is_fetched (nodes_of nf1) x \<longrightarrow> is_fetched (nodes_of nf) x"
    "\<forall>x. node_in nf1 x = (if x = n \<and> node_in nf n = None
         then Some (new_fetching_node (ne_null env) (ne_good env) (ne_object_class env) n) else node_in nf x)"
    using nf_add_node_ok [OF c n] by (auto simp: frame_def)
  let ?s = "nf_next_pending_sequence nf1"
  let ?nf = "nf1\<lparr>nf_next_pending_sequence := ?s + 1\<rparr>"
  have c1: "own_core env hr (insert n {}) ?nf" "node_in nf n \<noteq> None \<longrightarrow> own_core env hr {} ?nf"
    using a(2,3) by (simp_all add: core_ok_def)
  have f1: "frame nf ?nf" using a(5) by (simp add: frame_def)
  have nc1: "\<not> (\<exists>n. complete (nodes_of ?nf) n)"
    using complete_antimono [of "nodes_of ?nf" "nodes_of nf"] a(7,8) nc by auto
  obtain node where node: "node_in ?nf n = Some node" using a(4) by auto
  have eq: "nf_fetch env n status force nf = fetch_node env n ?s status force ?nf"
    using n st(1) a(1) by (simp add: nf_fetch_def Let_def)
  show ?thesis
  proof (cases "started node \<and> status_includes (fn_fetch_started node) status \<and> \<not> force")
    case True
    have "node_in nf n \<noteq> None" using a(9) node True by (auto split: if_splits)
    then have "own_core env hr {} ?nf" using c1 by blast
    moreover have "out_ok env ?nf" by (rule out_ok_frame [OF o f1])
    moreover have "fq_queue (nf_queue ?nf) = fq_queue (nf_queue nf)" "nf_running ?nf = nf_running nf"
      "\<not> nf_draining ?nf" "\<not> nf_processing ?nf"
      using a(6) f1 nd np by (auto simp: frame_def)
    ultimately have "idle env hr ?nf" using nc1 idle by (simp add: idle_def idle0_def)
    then show ?thesis using True st(1) node unfolding eq by (simp add: fetch_node_def)
  next
    case False
    obtain nf2 b where s: "schedule_node env n ?s status force ?nf = Some nf2" "own_core env hr {} nf2"
      "frame ?nf nf2" "node_in nf2 = (node_in ?nf)(n \<mapsto> b)" "\<not> started b"
      "deps (nodes_of nf2) = deps (nodes_of ?nf)"
      using schedule_node_ok [OF c1(1) _ node st, of ?s force] by (auto simp: frame_def)
    have "base_ok env hr n b" using core_okD(5) [OF s(2), of n b] s(4) by simp
    then have nb: "\<not> fetched b" using s(5) by (auto simp: base_ok_def fetched_def)
    have "is_fetched (nodes_of nf2) x \<Longrightarrow> is_fetched (nodes_of ?nf) x" for x
      using nb by (cases "x = n") (auto simp: is_fetched_def s(4))
    then have "\<not> (\<exists>n. complete (nodes_of nf2) n)"
      using complete_antimono [OF s(6)] nc1 by blast
    then have "idle0 env hr nf2"
      using s(2,3) f1 np out_ok_frame [OF o, of nf2] by (auto simp: idle0_def frame_def)
    moreover have "\<not> nf_draining nf2" using s(3) f1 nd by (simp add: frame_def)
    ultimately obtain nf3 outs where "fetch_pending_nodes env nf2 = Some (nf3, outs)" "idle env hr nf3"
      using fetch_pending_nodes_ok by blast
    then show ?thesis using False st(1) node s(1) unfolding eq by (auto simp: fetch_node_def)
  qed
qed

lemma deliver_then_fetch_ok:
  assumes c: "core_ok env hr R B {} nf" and rb: "nf_reads nf = R" "nf_browses nf = B"
    and o: "out_ok env nf" and np: "\<not> nf_processing nf" and nd: "\<not> nf_draining nf"
  shows "\<exists>nf1 outs1 nf2 outs2. notify_fetched_nodes env nf = Some (nf1, outs1)
    \<and> fetch_pending_nodes env nf1 = Some (nf2, outs2) \<and> idle env hr nf2"
proof -
  obtain nf1 outs1 where 1: "notify_fetched_nodes env nf = Some (nf1, outs1)" "core_ok env hr R B {} nf1"
    "frame nf nf1" "\<not> (\<exists>n. complete (nodes_of nf1) n)"
    using notify_fetched_nodes_ok [OF c] by blast
  have "idle0 env hr nf1" "\<not> nf_draining nf1"
    using 1 rb np nd out_ok_frame [OF o 1(3)] by (auto simp: idle0_def frame_def)
  then obtain nf2 outs2 where "fetch_pending_nodes env nf1 = Some (nf2, outs2)" "idle env hr nf2"
    using fetch_pending_nodes_ok by blast
  then show ?thesis using 1(1) by blast
qed

lemma nf_cancel_ok:
  fixes nf :: "('n::linorder, 'v, 'c, 's) node_fetcher"
  assumes idle: "idle env hr nf" and n: "n \<noteq> ne_null env"
  shows "\<exists>nf' outs. nf_cancel env n nf = Some (nf', outs) \<and> idle env hr nf'"
proof (cases "node_in nf n")
  case None
  then show ?thesis using idle n by (simp add: nf_cancel_def find_node_def)
next
  case (Some a)
  have c: "own_core env hr {} nf" and o: "out_ok env nf" and np: "\<not> nf_processing nf" and nd: "\<not> nf_draining nf"
    using idle by (auto simp: idle_def idle0_def)
  obtain m q where e: "fq_erase n (nodes_of nf, nf_queue nf) = Some (m, q)" "smap_ok m"
    "smap_find m = (node_in nf)(n \<mapsto> a\<lparr>fn_pending := False\<rparr>)" "queue_ok m q"
    using fq_erase_correct [OF core_okD(4,7) [OF c] Some] by blast
  have sl: "same_links a (a\<lparr>fn_pending := False\<rparr>)" by (simp add: same_links_def)
  have g: "graph_ok m" by (rule graph_ok_upd [OF core_okD(1) [OF c] e(2,3) Some sl])
  have k: "n \<in> smap_keys m" by (rule keyI [of _ _ "a\<lparr>fn_pending := False\<rparr>"]) (simp add: e(3))
  obtain m' where u: "unlink_erase n m = Some m'" "graph_ok m'" "smap_keys m' = smap_keys m - {n}"
    "\<forall>x. x \<noteq> n \<longrightarrow> same_core m m' x" "\<forall>it. iter_below it m \<longrightarrow> iter_below it m'"
    using unlink_erase_correct [OF g k] by blast
  let ?nf = "set_nodes m' (nf\<lparr>nf_queue := q\<rparr>)"
  have gone: "smap_find m' n = None" using u(3) smap_find_None [of m' n] by simp
  have cor: "\<exists>b. node_in nf x = Some b \<and> core node = core b" if h: "smap_find m' x = Some node" for x node
  proof -
    have "x \<noteq> n" using h gone by auto
    then have "same_core m m' x" "smap_find m x = node_in nf x" using u(4) by (simp_all add: e(3))
    then show ?thesis using h by (cases "node_in nf x") (auto simp: same_core_def)
  qed
  have pend: "is_pending m' x = is_pending m x" for x
  proof (cases "x = n")
    case True
    then show ?thesis using gone by (simp add: is_pending_def e(3))
  next
    case False
    then have "map_option core (smap_find m' x) = map_option core (smap_find m x)"
      using u(4) by (simp add: same_core_def)
    then have "map_option (fn_pending \<circ> core) (smap_find m' x) = map_option (fn_pending \<circ> core) (smap_find m x)"
      by (metis option.map_comp)
    then show ?thesis by (cases "smap_find m' x"; cases "smap_find m x") (auto simp: is_pending_def core_def)
  qed
  have "core_ok env hr (nf_reads nf) (nf_browses nf) {} ?nf"
    unfolding core_ok_def
  proof (intro conjI allI impI)
    have "iter_below (fg_cache_iteration (nf_graph nf)) m"
      by (rule links_upd(3) [OF e(3) Some sl core_okD(2) [OF c]])
    then show "iter_below (fg_cache_iteration (nf_graph ?nf)) (nodes_of ?nf)" using u(5) by simp
    show "queue_ok (nodes_of ?nf) (nf_queue ?nf)" using e(4) pend by (simp add: queue_ok_def)
    fix x node assume h: "node_in ?nf x = Some node"
    obtain b where b: "node_in nf x = Some b" "core node = core b" using cor h by auto
    show "base_ok env hr x node"
      using core_okD(5) [OF c b(1)] core_base_live(1) [OF b(2), of env hr x] by simp
    show "x \<in> {} \<or> live (nf_reads nf) (nf_browses nf) x node"
      using core_okD(6) [OF c b(1)] core_base_live(2) [OF b(2), of "nf_reads nf" "nf_browses nf" x] by simp
  qed (use u(2) core_okD(3) [OF c] in simp_all)
  moreover have "out_ok env ?nf" using o by (simp add: out_ok_def)
  ultimately obtain nf1 outs1 nf2 outs2 where r: "notify_fetched_nodes env ?nf = Some (nf1, outs1)"
    "fetch_pending_nodes env nf1 = Some (nf2, outs2)" "idle env hr nf2"
    using deliver_then_fetch_ok [of env hr "nf_reads nf" "nf_browses nf" ?nf] np nd by auto
  have "remove_node n m = Some m'" using u(1) by (simp add: remove_node_def e(3))
  then show ?thesis using Some n e(1) r by (simp add: nf_cancel_def find_node_def)
qed

section \<open>Answers\<close>

lemma finish_then_fetch_ok:
  assumes c: "core_ok env hr R B {} nf" and rb: "nf_reads nf = R" "nf_browses nf = B"
    and run: "nf_running nf = Suc (length R + length B)" and o: "out_ok env (nf\<lparr>nf_running := length R + length B\<rparr>)"
    and np: "\<not> nf_processing nf" and nd: "\<not> nf_draining nf"
  shows "\<exists>nf1 outs1 nf2 outs2. finish_request env nf = Some (nf1, outs1)
    \<and> fetch_pending_nodes env nf1 = Some (nf2, outs2) \<and> idle env hr nf2"
proof -
  let ?nf = "nf\<lparr>nf_running := length R + length B\<rparr>"
  have "core_ok env hr R B {} ?nf" using c by (simp add: core_ok_def)
  from deliver_then_fetch_ok [OF this _ _ o] show ?thesis
    using rb run np nd by (simp add: finish_request_def)
qed

lemma nth_split: "i < length xs \<Longrightarrow> set xs = insert (xs ! i) (set (take i xs @ drop (Suc i) xs))"
proof -
  assume "i < length xs"
  then have "xs = take i xs @ xs ! i # drop (Suc i) xs" by (rule id_take_nth_drop)
  then show ?thesis by (metis Un_insert_right list.simps(15) set_append)
qed

lemma core_ok_answered:
  assumes c: "core_ok env hr R B {} nf"
    and R: "set R \<subseteq> insert (rid, ids) (set R')" and B: "set B \<subseteq> set B'"
    and d: "\<forall>n \<in> fst ` set ids. attributes_done rid n nf"
  shows "core_ok env hr R' B' {} nf"
proof -
  have "live R' B' n a" if h: "node_in nf n = Some a" for n a
  proof -
    have l: "live R B n a" using core_okD(6) [OF c h] by simp
    have "fn_attributes_fetched a \<or> awaits_read R' (fn_request_id a) n" if s: "started a"
    proof (cases "awaits_read R' (fn_request_id a) n")
      case False
      have "fn_attributes_fetched a \<or> awaits_read R (fn_request_id a) n" using l s by (simp add: live_def)
      moreover have "fn_request_id a = rid \<and> n \<in> fst ` set ids" if "awaits_read R (fn_request_id a) n"
        using that R False by (fastforce simp: awaits_read_def)
      ultimately show ?thesis using d h s by (auto simp: attributes_done_def awaits_def)
    qed simp
    moreover have "awaits_browse B' r n" if "awaits_browse B r n" for r
      using that B unfolding awaits_browse_def by blast
    ultimately show ?thesis using l unfolding live_def by blast
  qed
  then show ?thesis using c unfolding core_ok_def by blast
qed

lemma core_ok_answered_browse:
  assumes c: "core_ok env hr R B {} nf"
    and R: "set R \<subseteq> set R'" and B: "set B \<subseteq> insert (rid, ds) (set B')"
    and d: "\<forall>n \<in> bd_node_id ` set ds. references_done rid n nf"
  shows "core_ok env hr R' B' {} nf"
proof -
  have "live R' B' n a" if h: "node_in nf n = Some a" for n a
  proof -
    have l: "live R B n a" using core_okD(6) [OF c h] by simp
    have "fn_references_fetched a \<or> awaits_browse B' (fn_request_id a) n" if s: "started a"
    proof (cases "awaits_browse B' (fn_request_id a) n")
      case False
      have "fn_references_fetched a \<or> awaits_browse B (fn_request_id a) n" using l s by (simp add: live_def)
      moreover have "fn_request_id a = rid \<and> n \<in> bd_node_id ` set ds" if "awaits_browse B (fn_request_id a) n"
        using that B False by (fastforce simp: awaits_browse_def)
      ultimately show ?thesis using d h s by (auto simp: references_done_def awaits_def)
    qed simp
    moreover have "awaits_read R' r n" if "awaits_read R r n" for r
      using that R unfolding awaits_read_def by blast
    ultimately show ?thesis using l unfolding live_def by blast
  qed
  then show ?thesis using c unfolding core_ok_def by blast
qed


lemma live_answer:
  assumes idle: "idle env hr nf" and fr: "nf_graph nf0 = nf_graph nf" "nf_queue nf0 = nf_queue nf" "nf_processing nf0"
  shows "mid_ok env hr (nf_reads nf) (nf_browses nf) nf0"
  using assms by (simp add: idle_def idle0_def core_ok_def)

lemma on_read_result_ok:
  fixes nf :: "('n::linorder, 'v, 'c, 's) node_fetcher"
  assumes idle: "idle env hr nf" and i: "i < length (nf_reads nf)" "nf_reads nf ! i = (rid, ids)"
  defines "R' \<equiv> take i (nf_reads nf) @ drop (Suc i) (nf_reads nf)"
  assumes good: "\<not> ne_bad env (ne_good env) \<and> ne_bad env (ne_generic_bad env)"
  shows "\<exists>nf' outs. on_read_result env rid status ids results (nf\<lparr>nf_reads := R'\<rparr>) = Some (nf', outs) \<and> idle env hr nf'"
proof -
  let ?nf = "nf\<lparr>nf_reads := R'\<rparr>"
  let ?st = "if \<not> ne_bad env status \<and> length results \<noteq> length ids then ne_generic_bad env else status"
  define inputs where "inputs = (if \<not> ne_bad env ?st then zip ids results
    else map (\<lambda>i. (i, (?st, ne_null_variant env))) ids)"
  have o: "out_ok env nf" and np: "\<not> nf_processing nf" and nd: "\<not> nf_draining nf"
    using idle by (auto simp: idle_def idle0_def)
  have R: "set (nf_reads nf) = insert (rid, ids) (set R')" unfolding R'_def using nth_split [OF i(1)] i(2) by simp
  have ids: "fst x \<noteq> ne_null env" if "x \<in> set ids" for x
    using o that R unfolding out_ok_def by blast
  have keys: "fst ` set inputs = set ids"
  proof -
    have "map fst inputs = ids"
    proof (cases "ne_bad env ?st")
      case True
      then show ?thesis by (simp only: inputs_def if_False if_True map_map o_def fst_conv not_True_eq_False) simp
    next
      case False
      then have "length results = length ids" using good by (auto split: if_splits)
      then show ?thesis using False by (simp only: inputs_def if_True not_False_eq_True map_fst_zip)
    qed
    then show ?thesis by (metis list.set_map)
  qed
  let ?f = "\<lambda>(i, r). apply_read_result env rid i r"
  let ?P = "\<lambda>x nf. attributes_done rid (fst (fst x)) nf"
  have m0: "mid_ok env hr (nf_reads nf) (nf_browses nf) (?nf\<lparr>nf_processing := True\<rparr>)"
    by (rule live_answer [OF idle]) simp_all
  have "\<exists>nf'. ?f x nf1 = Some (nf', []) \<and> mid_ok env hr (nf_reads nf) (nf_browses nf) nf' \<and> grows nf1 nf' \<and> ?P x nf'"
    if h: "x \<in> set inputs" "mid_ok env hr (nf_reads nf) (nf_browses nf) nf1" for x and nf1 :: "('n, 'v, 'c, 's) node_fetcher"
  proof -
    have "fst (fst x) \<noteq> ne_null env" using ids keys h(1) by blast
    from apply_read_result_ok [OF h(2) this, of rid "snd x"] show ?thesis by (simp add: case_prod_beta)
  qed
  note step = this
  have "\<exists>nf'. apply_all ?f inputs (?nf\<lparr>nf_processing := True\<rparr>) = Some (nf', [])
      \<and> mid_ok env hr (nf_reads nf) (nf_browses nf) nf' \<and> grows (?nf\<lparr>nf_processing := True\<rparr>) nf'
      \<and> (\<forall>x \<in> set inputs. ?P x nf')"
  proof (rule apply_all_ok [where P = ?P])
    fix x and nf1 :: "('n, 'v, 'c, 's) node_fetcher"
    assume "x \<in> set inputs" "mid_ok env hr (nf_reads nf) (nf_browses nf) nf1"
    then show "\<exists>nf'. ?f x nf1 = Some (nf', []) \<and> mid_ok env hr (nf_reads nf) (nf_browses nf) nf' \<and> grows nf1 nf' \<and> ?P x nf'"
      by (rule step)
  next
    fix x and nf1 nf' :: "('n, 'v, 'c, 's) node_fetcher"
    assume "?P x nf1" "grows nf1 nf'"
    then show "?P x nf'" using done_grows(1) by blast
  qed (rule m0)
  then obtain nf1 where
    1: "apply_all ?f inputs (?nf\<lparr>nf_processing := True\<rparr>) = Some (nf1, [])"
      "mid_ok env hr (nf_reads nf) (nf_browses nf) nf1" "grows (?nf\<lparr>nf_processing := True\<rparr>) nf1"
      "\<forall>x \<in> set inputs. attributes_done rid (fst (fst x)) nf1" by blast
  let ?nf1 = "nf1\<lparr>nf_processing := False\<rparr>"
  have fr: "nf_reads nf1 = R'" "nf_browses nf1 = nf_browses nf" "nf_running nf1 = nf_running nf" "nf_draining nf1 = nf_draining nf"
    using 1(3) by (simp_all add: grows_def frame_def)
  have "\<forall>n \<in> fst ` set ids. attributes_done rid n nf1" unfolding keys [symmetric] using 1(4) by simp
  then have "core_ok env hr R' (nf_browses nf) {} nf1"
    using core_ok_answered [of env hr "nf_reads nf" "nf_browses nf" nf1 rid ids R'] 1(2) R by blast
  then have c: "core_ok env hr R' (nf_browses nf) {} ?nf1" by (simp add: core_ok_def)
  have len: "length (nf_reads nf) = Suc (length R')" using i(1) by (simp add: R'_def)
  have sub: "set R' \<subseteq> set (nf_reads nf)" using R by blast
  have o': "out_ok env (?nf1\<lparr>nf_running := length R' + length (nf_browses nf)\<rparr>)"
    using o sub len unfolding out_ok_def by (simp add: fr) blast
  have rb: "nf_reads ?nf1 = R'" "nf_browses ?nf1 = nf_browses nf" by (simp_all add: fr)
  have run: "nf_running ?nf1 = Suc (length R' + length (nf_browses nf))" using o len by (simp add: fr out_ok_def)
  have nd': "\<not> nf_draining ?nf1" using nd by (simp add: fr)
  obtain nf2 outs2 nf3 outs3 where r: "finish_request env ?nf1 = Some (nf2, outs2)"
    "fetch_pending_nodes env nf2 = Some (nf3, outs3)" "idle env hr nf3"
    using finish_then_fetch_ok [OF c rb run o' _ nd'] by auto
  have "on_read_result env rid status ids results ?nf = Some (nf3, [] @ outs2 @ outs3)"
    unfolding on_read_result_def Let_def
    using np 1(1) r by (simp add: inputs_def)
  then show ?thesis using r(3) by blast
qed

lemma on_browse_result_ok:
  fixes nf :: "('n::linorder, 'v, 'c, 's) node_fetcher"
  assumes idle: "idle env hr nf" and i: "i < length (nf_browses nf)" "nf_browses nf ! i = (rid, ds)"
  defines "B' \<equiv> take i (nf_browses nf) @ drop (Suc i) (nf_browses nf)"
  assumes good: "\<not> ne_bad env (ne_good env) \<and> ne_bad env (ne_generic_bad env)"
    and refs: "\<forall>(d, res) \<in> set (zip ds results). \<forall>r \<in> set (br_references res). good_ref env hr d r"
  shows "\<exists>nf' outs. on_browse_result env rid status ds results (nf\<lparr>nf_browses := B'\<rparr>) = Some (nf', outs) \<and> idle env hr nf'"
proof -
  let ?nf = "nf\<lparr>nf_browses := B'\<rparr>"
  let ?st = "if \<not> ne_bad env status \<and> length results \<noteq> length ds then ne_generic_bad env else status"
  define inputs where "inputs = (if \<not> ne_bad env ?st then zip ds results
    else map (\<lambda>d. (d, \<lparr>br_status_code = ?st, br_references = []\<rparr>)) ds)"
  have o: "out_ok env nf" and np: "\<not> nf_processing nf" and nd: "\<not> nf_draining nf"
    using idle by (auto simp: idle_def idle0_def)
  have B: "set (nf_browses nf) = insert (rid, ds) (set B')" unfolding B'_def using nth_split [OF i(1)] i(2) by simp
  have wf: "bd_node_id d \<noteq> ne_null env" "wf_desc env d" if "d \<in> set ds" for d
    using o that B unfolding out_ok_def by blast+
  have keys: "fst ` set inputs = set ds"
  proof -
    have "map fst inputs = ds"
    proof (cases "ne_bad env ?st")
      case True
      then show ?thesis by (simp only: inputs_def if_False if_True map_map o_def fst_conv not_True_eq_False) simp
    next
      case False
      then have "length results = length ds" using good by (auto split: if_splits)
      then show ?thesis using False by (simp only: inputs_def if_True not_False_eq_True map_fst_zip)
    qed
    then show ?thesis by (metis list.set_map)
  qed
  have grefs: "\<forall>r \<in> set (br_references (snd x)). good_ref env hr (fst x) r" if "x \<in> set inputs" for x
    using refs that by (fastforce simp: inputs_def split: if_splits)
  let ?f = "\<lambda>(d, r). apply_browse_result env rid d r"
  let ?P = "\<lambda>x nf. references_done rid (bd_node_id (fst x)) nf"
  have m0: "mid_ok env hr (nf_reads nf) (nf_browses nf) (?nf\<lparr>nf_processing := True\<rparr>)"
    by (rule live_answer [OF idle]) simp_all
  have "\<exists>nf'. ?f x nf1 = Some (nf', []) \<and> mid_ok env hr (nf_reads nf) (nf_browses nf) nf' \<and> grows nf1 nf' \<and> ?P x nf'"
    if h: "x \<in> set inputs" "mid_ok env hr (nf_reads nf) (nf_browses nf) nf1" for x and nf1 :: "('n, 'v, 'c, 's) node_fetcher"
  proof -
    have "fst x \<in> set ds" using keys h(1) by blast
    from apply_browse_result_ok [OF h(2) wf(1) [OF this] wf(2) [OF this] grefs [OF h(1)], of rid]
    show ?thesis by (simp add: case_prod_beta)
  qed
  note step = this
  have "\<exists>nf'. apply_all ?f inputs (?nf\<lparr>nf_processing := True\<rparr>) = Some (nf', [])
      \<and> mid_ok env hr (nf_reads nf) (nf_browses nf) nf' \<and> grows (?nf\<lparr>nf_processing := True\<rparr>) nf'
      \<and> (\<forall>x \<in> set inputs. ?P x nf')"
  proof (rule apply_all_ok [where P = ?P])
    fix x and nf1 :: "('n, 'v, 'c, 's) node_fetcher"
    assume "x \<in> set inputs" "mid_ok env hr (nf_reads nf) (nf_browses nf) nf1"
    then show "\<exists>nf'. ?f x nf1 = Some (nf', []) \<and> mid_ok env hr (nf_reads nf) (nf_browses nf) nf' \<and> grows nf1 nf' \<and> ?P x nf'"
      by (rule step)
  next
    fix x and nf1 nf' :: "('n, 'v, 'c, 's) node_fetcher"
    assume "?P x nf1" "grows nf1 nf'"
    then show "?P x nf'" using done_grows(2) by blast
  qed (rule m0)
  then obtain nf1 where
    1: "apply_all ?f inputs (?nf\<lparr>nf_processing := True\<rparr>) = Some (nf1, [])"
      "mid_ok env hr (nf_reads nf) (nf_browses nf) nf1" "grows (?nf\<lparr>nf_processing := True\<rparr>) nf1"
      "\<forall>x \<in> set inputs. references_done rid (bd_node_id (fst x)) nf1" by blast
  let ?nf1 = "nf1\<lparr>nf_processing := False\<rparr>"
  have fr: "nf_reads nf1 = nf_reads nf" "nf_browses nf1 = B'" "nf_running nf1 = nf_running nf" "nf_draining nf1 = nf_draining nf"
    using 1(3) by (simp_all add: grows_def frame_def)
  have "\<forall>n \<in> bd_node_id ` set ds. references_done rid n nf1" unfolding keys [symmetric] using 1(4) by simp
  then have "core_ok env hr (nf_reads nf) B' {} nf1"
    using core_ok_answered_browse [of env hr "nf_reads nf" "nf_browses nf" nf1 "nf_reads nf" rid ds B'] 1(2) B by blast
  then have c: "core_ok env hr (nf_reads nf) B' {} ?nf1" by (simp add: core_ok_def)
  have len: "length (nf_browses nf) = Suc (length B')" using i(1) by (simp add: B'_def)
  have sub: "set B' \<subseteq> set (nf_browses nf)" using B by blast
  have o': "out_ok env (?nf1\<lparr>nf_running := length (nf_reads nf) + length B'\<rparr>)"
    using o sub len unfolding out_ok_def by (simp add: fr) blast
  have rb: "nf_reads ?nf1 = nf_reads nf" "nf_browses ?nf1 = B'" by (simp_all add: fr)
  have run: "nf_running ?nf1 = Suc (length (nf_reads nf) + length B')" using o len by (simp add: fr out_ok_def)
  have nd': "\<not> nf_draining ?nf1" using nd by (simp add: fr)
  obtain nf2 outs2 nf3 outs3 where r: "finish_request env ?nf1 = Some (nf2, outs2)"
    "fetch_pending_nodes env nf2 = Some (nf3, outs3)" "idle env hr nf3"
    using finish_then_fetch_ok [OF c rb run o' _ nd'] by auto
  have "on_browse_result env rid status ds results ?nf = Some (nf3, [] @ outs2 @ outs3)"
    unfolding on_browse_result_def Let_def
    using np 1(1) r by (simp add: inputs_def)
  then show ?thesis using r(3) by blast
qed

end
