(* ===== verification/Node_Fetcher_Claims.thy ===== *)
theory Node_Fetcher_Claims
  imports Node_Fetcher_Runs
begin

text \<open>
  Whole runs of the node fetcher, and the answers of a server that it does not survive.
\<close>

section \<open>Reachable states\<close>

definition good_env :: "('n, 'v, 's) nf_env \<Rightarrow> bool" where
  "good_env env \<longleftrightarrow> \<not> ne_bad env (ne_good env) \<and> ne_bad env (ne_generic_bad env)"

text \<open>Any answer in any order is good, with any status and any number of results; of the references
  in a browse answer only \<open>good_ref\<close> is asked.\<close>

definition good_event ::
    "('n, 'v, 's) nf_env \<Rightarrow> ('n \<Rightarrow> nat) \<Rightarrow> ('n, 'v, 'c, 's) node_fetcher \<Rightarrow> ('n, 'v, 's) nf_event \<Rightarrow> bool" where
  "good_event env hr nf e =
     (case e of
        Fetch n status force \<Rightarrow> n \<noteq> ne_null env \<and> status_includes status node_only
          \<and> \<not> status_includes status non_hierarchical_inverse
      | Cancel n \<Rightarrow> n \<noteq> ne_null env
      | ReadAnswer i status results \<Rightarrow> True
      | BrowseAnswer i status results \<Rightarrow> i < length (nf_browses nf) \<longrightarrow>
          list_all (\<lambda>(d, res). list_all (good_ref env hr d) (br_references res)) (zip (snd (nf_browses nf ! i)) results))"

inductive nf_reachable ::
    "('n::linorder, 'v, 's) nf_env \<Rightarrow> ('n \<Rightarrow> nat) \<Rightarrow> ('n, 'v, 'c, 's) node_fetcher \<Rightarrow> bool"
  for env hr where
  nf_start: "nf_reachable env hr new_node_fetcher"
| nf_step: "nf_reachable env hr nf \<Longrightarrow> good_event env hr nf e \<Longrightarrow> nf_handle env e nf = Some (nf', outs)
    \<Longrightarrow> nf_reachable env hr nf'"

inductive_cases nf_stepE: "nf_reachable env hr nf"

lemma nf_handle_ok:
  assumes "idle env hr nf" "good_env env" "good_event env hr nf e"
  shows "\<exists>nf' outs. nf_handle env e nf = Some (nf', outs) \<and> idle env hr nf'"
proof (cases e)
  case (Fetch n status force)
  then show ?thesis using nf_fetch_ok [OF assms(1)] assms(3) by (auto simp: good_event_def nf_handle_def)
next
  case (Cancel n)
  then show ?thesis using nf_cancel_ok [OF assms(1)] assms(3) by (auto simp: good_event_def nf_handle_def)
next
  case (ReadAnswer i status results)
  show ?thesis
  proof (cases "i < length (nf_reads nf)")
    case True
    obtain rid ids where r: "nf_reads nf ! i = (rid, ids)" by (cases "nf_reads nf ! i")
    show ?thesis
      using on_read_result_ok [OF assms(1) True r, of status results] assms(2) True r ReadAnswer
      by (simp add: good_env_def nf_handle_def)
  qed (use assms(1) ReadAnswer in \<open>simp add: nf_handle_def\<close>)
next
  case (BrowseAnswer i status results)
  show ?thesis
  proof (cases "i < length (nf_browses nf)")
    case True
    obtain rid ds where r: "nf_browses nf ! i = (rid, ds)" by (cases "nf_browses nf ! i")
    have "\<forall>(d, res) \<in> set (zip ds results). \<forall>r \<in> set (br_references res). good_ref env hr d r"
      using assms(3) BrowseAnswer True r by (auto simp: good_event_def list_all_iff)
    then show ?thesis
      using on_browse_result_ok [OF assms(1) True r, of results status] assms(2) True r BrowseAnswer
      by (simp add: good_env_def nf_handle_def)
  qed (use assms(1) BrowseAnswer in \<open>simp add: nf_handle_def\<close>)
qed

lemma idle_new: "idle env hr new_node_fetcher"
  by (simp add: idle_def idle0_def core_ok_def out_ok_def new_node_fetcher_def graph_ok_def deps_def rdeps_def
      iter_below_def queue_ok_def is_pending_def empty_fetch_queue_def max_parallel_request_count_def complete_def)

lemma nf_reachable_idle:
  assumes "nf_reachable env hr nf" "good_env env"
  shows "idle env hr nf"
  using assms(1)
proof induction
  case nf_start
  show ?case by (rule idle_new)
next
  case (nf_step nf e nf' outs)
  then show ?case using nf_handle_ok [OF nf_step.IH assms(2) nf_step.hyps(2)] by simp
qed

text \<open>With nothing in flight every node is fetched, so every node has been delivered.\<close>

lemma idle_at_rest:
  assumes "idle env hr nf" "nf_running nf = 0"
  shows "nodes_of nf = []" "fq_queue (nf_queue nf) = []"
proof -
  have c: "own_core env hr {} nf" and o: "out_ok env nf" and nc: "\<not> (\<exists>n. complete (nodes_of nf) n)"
    using assms(1) by (auto simp: idle_def idle0_def)
  show q: "fq_queue (nf_queue nf) = []"
    using assms by (auto simp: idle_def primitive_request_count_def max_parallel_request_count_def)
  have rb: "nf_reads nf = []" "nf_browses nf = []" using o assms(2) by (auto simp: out_ok_def)
  have f: "is_fetched (nodes_of nf) x" if k: "x \<in> smap_keys (nodes_of nf)" for x
  proof -
    obtain a where a: "node_in nf x = Some a" using k by (auto simp: key_iff)
    have "\<not> fn_pending a" using core_okD(4) [OF c] q a by (auto simp: queue_ok_def is_pending_def)
    then have "fetched a"
      using core_okD(6) [OF c a] rb by (auto simp: live_def fetched_def awaits_read_def awaits_browse_def)
    then show ?thesis using a by (simp add: is_fetched_def)
  qed
  show "nodes_of nf = []"
  proof (rule ccontr)
    assume "nodes_of nf \<noteq> []"
    then obtain x where x: "x \<in> smap_keys (nodes_of nf)" by (cases "nodes_of nf") auto
    have "r \<in> smap_keys (nodes_of nf)" if "reach (nodes_of nf) x r" for r
      using that x by induction (use graph_ok_closed [OF core_okD(1) [OF c]] in blast)+
    then have "complete (nodes_of nf) x" using x f by (simp add: complete_def)
    then show False using nc by blast
  qed
qed

text \<open>C2: Under any good sequence of Fetch and Cancel calls and of server answers in any order, the
  node fetcher handles the next event without failing a check, keeps at most five requests running,
  which are exactly those without an answer, keeps no node back that could be delivered, has every
  node either in the queue or waiting for the answers of its own request, and when no request is
  running it has delivered everything.\<close>

theorem node_fetcher_reachable_ok:
  assumes "good_env env" "nf_reachable env hr nf" "good_event env hr nf e"
  shows "(\<exists>nf' outs. nf_handle env e nf = Some (nf', outs))
    \<and> nf_running nf = length (nf_reads nf) + length (nf_browses nf)
    \<and> nf_running nf \<le> max_parallel_request_count
    \<and> \<not> (\<exists>n. complete (nodes_of nf) n)
    \<and> list_all (\<lambda>(n, node). live (nf_reads nf) (nf_browses nf) n node) (nodes_of nf)
    \<and> (nf_running nf = 0 \<longrightarrow> nodes_of nf = [] \<and> fq_queue (nf_queue nf) = [])"
proof -
  have i: "idle env hr nf" by (rule nf_reachable_idle [OF assms(2,1)])
  then have c: "own_core env hr {} nf" and o: "out_ok env nf" and nc: "\<not> (\<exists>n. complete (nodes_of nf) n)"
    by (auto simp: idle_def idle0_def)
  have "live (nf_reads nf) (nf_browses nf) n node" if "(n, node) \<in> set (nodes_of nf)" for n node
    using core_okD(6) [OF c] that by (simp add: smap_find_iff [OF core_okD(7) [OF c]])
  then have l: "list_all (\<lambda>(n, node). live (nf_reads nf) (nf_browses nf) n node) (nodes_of nf)"
    by (auto simp: list_all_iff)
  show ?thesis using nf_handle_ok [OF i assms(1,3)] o nc l idle_at_rest [OF i] by (auto simp: out_ok_def)
qed

definition ex_env :: "(nat, int, nat) nf_env" where
  "ex_env = \<lparr>ne_null = 0, ne_root_folder = 84, ne_aggregates = 44, ne_hierarchical = 33, ne_non_hierarchical = 32,
     ne_has_subtype = 45, ne_has_property = 46, ne_has_type_definition = 40, ne_property_type = 68,
     ne_object_class = 1, ne_variable_class = 2, ne_is_type_definition = (\<lambda>c. c \<ge> 8), ne_is_instance = (\<lambda>c. c < 8),
     ne_good = 0, ne_generic_bad = 1, ne_wrong_type = 2, ne_bad = (\<lambda>s. s > 0), ne_null_variant = -1,
     ne_get_int32 = (\<lambda>v. if v \<ge> 0 then Some v else None), ne_get_qualified_name = Some, ne_empty_name = (\<lambda>v. v = 0),
     ne_get_localized_text = Some, ne_get_node_id = (\<lambda>v. if v \<ge> 0 then Some (nat v) else None),
     ne_validator = (\<lambda>n. n < 100)\<rparr>"

abbreviation ex_start :: "(nat, int, unit, nat) node_fetcher" where
  "ex_start \<equiv> new_node_fetcher"

lemma ex_good_env: "good_env ex_env"
  by (simp add: good_env_def ex_env_def)

definition ex_leaf_run :: "(nat, int, nat) nf_event list" where
  "ex_leaf_run = [Fetch 200 node_only False, ReadAnswer 0 0 [(0, 5), (0, 6), (0, 2), (0, 12)],
     BrowseAnswer 0 0 (replicate 3 \<lparr>br_status_code = 0, br_references = []\<rparr>)]"

text \<open>A node without references is requested, answered and delivered.\<close>

lemma ex_leaf_run_delivers:
  "map_option (\<lambda>(nf, outs). (get_pending_node_count nf, nf_running nf, map (\<lambda>out. case out of
       FetchCompleted r \<Rightarrow> map (\<lambda>ns. (ns_node_id ns, ns_node_class ns, ns_data_type ns)) (fc_nodes r) | _ \<Rightarrow> []) outs))
     (nf_run ex_env ex_leaf_run ex_start) = Some (0, 0, [[], [], [(200, 2, 12)]])"
  by code_simp

theorem node_fetcher_reachable_ok_witness:
  "(\<exists>nf' outs. nf_handle ex_env (Fetch 200 node_only False) ex_start = Some (nf', outs))
    \<and> nf_running ex_start = length (nf_reads ex_start) + length (nf_browses ex_start)"
  using node_fetcher_reachable_ok [of ex_env "\<lambda>_. 0" ex_start "Fetch 200 node_only False",
      OF ex_good_env nf_start]
  by (simp add: good_event_def) (simp add: ex_env_def)

section \<open>Answers that bring the fetcher down\<close>

lemma validate_dependency_None_or_Some:
  "(\<And>nf' outs. validate_dependency env n t nf = Some (nf', outs) \<Longrightarrow> f nf' outs = None)
    \<Longrightarrow> validate_dependency env n t nf \<bind> (\<lambda>(nf', outs). f nf' outs) = None"
  by (cases "validate_dependency env n t nf") auto

text \<open>When the answer to the child browse of a node lists the node itself as its component, adding
  the reference fails the check of AddDependency that the two nodes differ, whatever the state.\<close>

theorem self_component_panics:
  assumes "bd_direction d = Forward" "bd_reference_type_id d = ne_aggregates env" "rd_forward r"
    "rd_reference_type_id r \<noteq> ne_null env" "rd_reference_type_id r \<noteq> ne_has_subtype env"
    "rd_node_id r = bd_node_id d" "bd_node_id d \<noteq> ne_null env"
  shows "add_fetched_reference env d r nf = None"
proof -
  have c: "add_child env n n t nf1 = None" for n t and nf1 :: "('a, 'b, 'd, 'c) node_fetcher"
    by (auto simp: add_child_def nf_add_dependency_def add_dependency_def check_def Let_def
        bind_eq_None_conv split: option.splits)
  show ?thesis
    unfolding add_fetched_reference_def Let_def using assms c
    by (simp add: validate_dependency_None_or_Some)
qed

theorem self_component_panics_witness:
  "nf_run ex_env [Fetch 200 node_only False, BrowseAnswer 0 0 [\<lparr>br_status_code = 0,
      br_references = [\<lparr>rd_reference_type_id = 47, rd_forward = True, rd_node_id = 200, rd_details = None\<rparr>]\<rparr>,
      \<lparr>br_status_code = 0, br_references = []\<rparr>, \<lparr>br_status_code = 0, br_references = []\<rparr>]] ex_start = None
   \<and> add_fetched_reference ex_env \<lparr>bd_node_id = 200, bd_direction = Forward, bd_reference_type_id = 44,
        bd_include_subtypes = True\<rparr> \<lparr>rd_reference_type_id = 47, rd_forward = True, rd_node_id = 200, rd_details = None\<rparr> ex_start = None"
proof
  show "add_fetched_reference ex_env \<lparr>bd_node_id = 200, bd_direction = Forward, bd_reference_type_id = 44,
        bd_include_subtypes = True\<rparr> \<lparr>rd_reference_type_id = 47, rd_forward = True, rd_node_id = 200, rd_details = None\<rparr> ex_start = None"
    by (rule self_component_panics) (simp_all add: ex_env_def)
qed code_simp

text \<open>A fetch that asks for the inverse non-hierarchical references browses for them, and every
  well-formed reference in the answer then fails the check of AddFetchedReference, which knows only the
  inverse browses for hierarchical references and subtypes.\<close>

theorem inverse_references_panic:
  assumes "status_includes (fn_fetch_started node) non_hierarchical_inverse"
    "ne_non_hierarchical env \<noteq> ne_hierarchical env" "ne_non_hierarchical env \<noteq> ne_has_subtype env"
    "rd_reference_type_id r \<noteq> ne_null env" "rd_node_id r \<noteq> ne_null env"
  shows "\<exists>d. d \<in> set (get_fetch_references env node) \<and> add_fetched_reference env d r nf = None"
proof (intro exI conjI)
  let ?d = "\<lparr>bd_node_id = ns_node_id (fn_state node), bd_direction = Inverse,
     bd_reference_type_id = ne_non_hierarchical env, bd_include_subtypes = True\<rparr>"
  show "?d \<in> set (get_fetch_references env node)"
    using assms(1) by (simp add: get_fetch_references_def Let_def)
  show "add_fetched_reference env ?d r nf = None"
    unfolding add_fetched_reference_def Let_def using assms(2-5)
    by (simp add: validate_dependency_None_or_Some check_def)
qed

theorem inverse_references_panic_witness:
  "nf_run ex_env [Fetch 200 (status_union node_only non_hierarchical_inverse) False,
      BrowseAnswer 0 0 [\<lparr>br_status_code = 0, br_references = []\<rparr>, \<lparr>br_status_code = 0, br_references = []\<rparr>,
        \<lparr>br_status_code = 0, br_references = [\<lparr>rd_reference_type_id = 35, rd_forward = False, rd_node_id = 201, rd_details = None\<rparr>]\<rparr>,
        \<lparr>br_status_code = 0, br_references = []\<rparr>]] ex_start = None
   \<and> (\<exists>d. d \<in> set (get_fetch_references ex_env
          ((new_fetching_node 0 0 1 200)\<lparr>fn_fetch_started := status_union node_only non_hierarchical_inverse\<rparr>))
        \<and> add_fetched_reference ex_env d \<lparr>rd_reference_type_id = 35, rd_forward = False, rd_node_id = 201, rd_details = None\<rparr> ex_start = None)"
proof
  show "\<exists>d. d \<in> set (get_fetch_references ex_env
          ((new_fetching_node 0 0 1 200)\<lparr>fn_fetch_started := status_union node_only non_hierarchical_inverse\<rparr>))
        \<and> add_fetched_reference ex_env d \<lparr>rd_reference_type_id = 35, rd_forward = False, rd_node_id = 201, rd_details = None\<rparr> ex_start = None"
    by (rule inverse_references_panic) (simp_all add: ex_env_def union_non_hierarchical,
        simp add: status_includes_def)
qed code_simp

text \<open>A set of type definitions that is closed under supertypes and that nothing ends.\<close>

definition endless ::
    "('n, 'v, 's) nf_env \<Rightarrow> ('n \<Rightarrow> ('n, 'v, 'c) node_state option) \<Rightarrow> 'n set \<Rightarrow> bool" where
  "endless env types T \<longleftrightarrow> (\<forall>t \<in> T. t \<noteq> ne_null env \<and> \<not> ne_validator env t
     \<and> (\<exists>ty. types t = Some ty \<and> ne_is_type_definition env (ns_node_class ty) \<and> ns_supertype_id ty \<in> T))"

lemma walk_supertypes_endless:
  assumes "endless env types T" "t \<in> T"
  shows "walk_supertypes env types t = None"
proof (rule ccontr)
  assume "walk_supertypes env types t \<noteq> None"
  then obtain u where ret: "walk_supertypes env types t = Some u" by blast
  have "\<forall>T. endless env types T \<longrightarrow> t \<notin> T"
  proof (rule walk_supertypes.raw_induct [where P = "\<lambda>env types t u. \<forall>T. endless env types T \<longrightarrow> t \<notin> T", OF _ ret])
    fix walk :: "('a, 'b, 'c) nf_env \<Rightarrow> ('a \<Rightarrow> ('a, 'b, 'd) node_state option) \<Rightarrow> 'a \<Rightarrow> unit option"
      and env types t u
    assume IH: "\<And>env types t u. walk env types t = Some u \<Longrightarrow> \<forall>T. endless env types T \<longrightarrow> t \<notin> T"
      and step: "(if t = ne_null env then Some ()
         else if ne_validator env t then Some ()
         else case types t of None \<Rightarrow> Some ()
           | Some ty \<Rightarrow> if \<not> ne_is_type_definition env (ns_node_class ty) then Some ()
                        else walk env types (ns_supertype_id ty)) = Some u"
    show "\<forall>T. endless env types T \<longrightarrow> t \<notin> T"
    proof (intro allI impI notI)
      fix T assume e: "endless env types T" and t: "t \<in> T"
      then obtain ty where ty: "t \<noteq> ne_null env" "\<not> ne_validator env t" "types t = Some ty"
        "ne_is_type_definition env (ns_node_class ty)" "ns_supertype_id ty \<in> T"
        unfolding endless_def by blast
      then have "walk env types (ns_supertype_id ty) = Some u" using step by simp
      then show False using IH e ty(5) by blast
    qed
  qed
  then show False using assms by blast
qed

lemma check_type_definitions_endless:
  assumes "endless env types T" "ns \<in> set nodes" "ne_is_instance env (ns_node_class ns)" "ns_type_definition_id ns \<in> T"
  shows "check_type_definitions env types nodes = None"
proof -
  have "ns_type_definition_id ns \<noteq> ne_null env" using assms(1,4) by (auto simp: endless_def)
  then show ?thesis
    using assms(2) walk_supertypes_endless [OF assms(1,4)] assms(3)
    by (induction nodes) (auto simp: bind_eq_None_conv)
qed

text \<open>When a delivered instance has a type from which the supertypes lead round a cycle of delivered
  type definitions, the diagnostics of NotifyFetchedNodes walk the cycle for ever: the delivery does not return.\<close>

theorem cyclic_supertypes_hang:
  assumes "get_fetched_nodes (ne_bad env) (nf_graph nf) = Some (g, result)"
    "endless env (type_definition_map env (fc_nodes result)) T"
    "ns \<in> set (fc_nodes result)" "ne_is_instance env (ns_node_class ns)" "ns_type_definition_id ns \<in> T"
  shows "notify_fetched_nodes env nf = None"
  using assms(1,3) check_type_definitions_endless [OF assms(2-5)]
  by (auto simp: notify_fetched_nodes_def Let_def)

abbreviation ex_blank :: "nat \<Rightarrow> (nat, int, unit, nat) fetching_node" where
  "ex_blank \<equiv> new_fetching_node 0 0 1"

abbreviation ex_typed :: "nat \<Rightarrow> int \<Rightarrow> nat \<Rightarrow> nat \<Rightarrow> (nat, int, unit, nat) fetching_node" where
  "ex_typed n c ty super \<equiv> (ex_blank n)\<lparr>fn_attributes_fetched := True, fn_references_fetched := True,
     fn_fetch_started := node_only, fn_state := (fn_state (ex_blank n))\<lparr>ns_node_class := c,
       ns_type_definition_id := ty, ns_supertype_id := super\<rparr>\<rparr>"

definition ex_type_loop :: "(nat, int, unit, nat) node_fetcher" where
  "ex_type_loop = new_node_fetcher\<lparr>nf_graph := \<lparr>fg_nodes = [(200, ex_typed 200 1 210 0), (210, ex_typed 210 8 0 211),
     (211, ex_typed 211 8 0 210)], fg_cache_iteration = 1\<rparr>\<rparr>"

lemma ex_type_loop_fetched:
  "map_option snd (get_fetched_nodes (ne_bad ex_env) (nf_graph ex_type_loop)) =
     Some \<lparr>fc_nodes = [fn_state (ex_typed 200 1 210 0), fn_state (ex_typed 210 8 0 211), fn_state (ex_typed 211 8 0 210)],
           fc_errors = []\<rparr>"
  by code_simp

theorem cyclic_supertypes_hang_witness: "notify_fetched_nodes ex_env ex_type_loop = None"
proof -
  obtain g result where r: "get_fetched_nodes (ne_bad ex_env) (nf_graph ex_type_loop) = Some (g, result)"
    "result = \<lparr>fc_nodes = [fn_state (ex_typed 200 1 210 0), fn_state (ex_typed 210 8 0 211), fn_state (ex_typed 211 8 0 210)],
           fc_errors = []\<rparr>"
    using ex_type_loop_fetched by auto
  show ?thesis
  proof (rule cyclic_supertypes_hang [OF r(1), where T = "{210, 211}" and ns = "fn_state (ex_typed 200 1 210 0)"])
    show "endless ex_env (type_definition_map ex_env (fc_nodes result)) {210, 211}"
      by (simp add: endless_def r(2) type_definition_map_def ex_env_def new_fetching_node_def)
  qed (simp_all add: r(2) ex_env_def new_fetching_node_def)
qed

section \<open>A node that waits and is fetched again\<close>

definition ex_two_waiting :: "(nat, int, unit, nat) node_fetcher option" where
  "ex_two_waiting = do {
     (nf, outs) \<leftarrow> nf_fetch ex_env 200 node_only False (ex_start\<lparr>nf_running := 5\<rparr>);
     (nf', outs') \<leftarrow> nf_fetch ex_env 201 node_only False nf;
     Some nf'
   }"

text \<open>Fetching a node again while it waits in the queue changes its key in place: with five requests
  running and the nodes 200 and 201 waiting in this order, a second Fetch of 200 leaves a queue that is no
  longer a heap, which is what the next push or pop relies on, and 200 at its top before 201.\<close>

theorem refetch_breaks_heap:
  "map_option (\<lambda>nf. (is_heap (fq_key (nodes_of nf)) (fq_queue (nf_queue nf)),
      map_option (\<lambda>(nf', outs). (is_heap (fq_key (nodes_of nf')) (fq_queue (nf_queue nf')), fq_top (nf_queue nf')))
        (nf_fetch ex_env 200 node_only False nf))) ex_two_waiting
   = Some (True, Some (False, Some 200))"
  by code_simp

end
