(* ===== verification/Node_Ids.thy ===== *)
theory Node_Ids
  imports Prelude "HOL-Library.Word"
begin

text \<open>
  \<open>model/node_id_util.cpp\<close>: the string forms of node ids and the ids of nested nodes, which name their
  parent before an exclamation mark. The node id type, the table of namespaces and the number parser
  belong to the SCADA core library: they are the fields of \<open>nid_lib\<close>, and \<open>nid_ok\<close> states what the code
  relies on. A string view is the string itself; a function that answers false is \<open>None\<close>.
\<close>

datatype nid_type = Numeric | String | Opaque

record 'n nid_lib =
  nl_null :: 'n
  nl_type :: "'n \<Rightarrow> nid_type"
  nl_ns :: "'n \<Rightarrow> 16 word"
  nl_numeric_id :: "'n \<Rightarrow> 32 word"
  nl_string_id :: "'n \<Rightarrow> string"
  nl_numeric :: "32 word \<Rightarrow> 16 word \<Rightarrow> 'n"
  nl_string :: "string \<Rightarrow> 16 word \<Rightarrow> 'n"
  nl_parse_id :: "string \<Rightarrow> 32 word option"
  nl_parse_int :: "string \<Rightarrow> int option"
  nl_find_ns :: "string \<Rightarrow> int"
  nl_ns_name :: "16 word \<Rightarrow> string"
  nl_total_cpu :: 'n
  nl_total_mem :: 'n
  nl_server_cpu :: 'n
  nl_server_mem :: 'n

text \<open>\<open>std::format\<close> of an unsigned number.\<close>

fun dec :: "nat \<Rightarrow> string" where
  "dec n = (if n < 10 then [char_of (48 + n)] else dec (n div 10) @ [char_of (48 + n mod 10)])"

declare dec.simps [simp del]

section \<open>Predefined strings\<close>

definition predefined_scada_strings :: "'n nid_lib \<Rightarrow> (string \<times> 'n) list" where
  "predefined_scada_strings L =
     [(''Server!CPU'', nl_total_cpu L), (''Server!Mem'', nl_total_mem L),
      (''Server!PCPU'', nl_server_cpu L), (''Server!PMem'', nl_server_mem L)]"

definition node_id_from_predefined :: "'n nid_lib \<Rightarrow> string \<Rightarrow> 'n" where
  "node_id_from_predefined L s =
     (case List.find (\<lambda>p. fst p = s) (predefined_scada_strings L) of
        Some p \<Rightarrow> snd p | None \<Rightarrow> nl_null L)"

definition node_id_to_predefined :: "'n nid_lib \<Rightarrow> 'n \<Rightarrow> string" where
  "node_id_to_predefined L n =
     (case List.find (\<lambda>p. snd p = n) (predefined_scada_strings L) of
        Some p \<Rightarrow> fst p | None \<Rightarrow> '''')"

section \<open>Nested ids\<close>

text \<open>\<open>find_last_of\<close> and the two halves around it.\<close>

definition split_last :: "char \<Rightarrow> string \<Rightarrow> (string \<times> string) option" where
  "split_last c s =
     (if c \<in> set s then Some (rev (tl (dropWhile (\<lambda>x. x \<noteq> c) (rev s))), rev (takeWhile (\<lambda>x. x \<noteq> c) (rev s)))
      else None)"

definition split_first :: "char \<Rightarrow> string \<Rightarrow> (string \<times> string) option" where
  "split_first c s =
     (if c \<in> set s then Some (takeWhile (\<lambda>x. x \<noteq> c) s, tl (dropWhile (\<lambda>x. x \<noteq> c) s)) else None)"

definition is_nested_node_id :: "'n nid_lib \<Rightarrow> 'n \<Rightarrow> ('n \<times> string) option" where
  "is_nested_node_id L n =
     (if nl_type L n \<noteq> String then None
      else do {
        (parent_string, nested_name) \<leftarrow> split_last (CHR ''!'') (nl_string_id L n);
        let is_topmost_parent = CHR ''!'' \<notin> set parent_string;
        (ns, parent_id) \<leftarrow>
          (case split_first (CHR '':'') parent_string of
             None \<Rightarrow> Some (nl_ns L n, parent_string)
           | Some (ns_name, rest) \<Rightarrow>
               if nl_find_ns L ns_name = -1 then None
               else Some (word_of_int (nl_find_ns L ns_name), rest));
        let parent = (if is_topmost_parent
                      then case nl_parse_id L parent_id of
                             Some i \<Rightarrow> nl_numeric L i ns
                           | None \<Rightarrow> nl_string L parent_id ns
                      else nl_string L parent_id ns);
        if nested_name = '''' then None else Some (parent, nested_name)
      })"

text \<open>\<open>GetRootNestedNodeId\<close>: the loop climbs until the id is not nested.\<close>

partial_function (option) climb_nested :: "'n nid_lib \<Rightarrow> 'n \<Rightarrow> string \<Rightarrow> ('n \<times> string) option" where
  "climb_nested L parent nested_name =
     (case is_nested_node_id L parent of
        None \<Rightarrow> Some (parent, nested_name)
      | Some (next_parent, next_name) \<Rightarrow> climb_nested L next_parent next_name)"

declare climb_nested.simps [code]

text \<open>The outer \<open>None\<close> is a loop without end, the inner one the answer false.\<close>

definition get_root_nested_node_id :: "'n nid_lib \<Rightarrow> 'n \<Rightarrow> ('n \<times> string) option option" where
  "get_root_nested_node_id L n =
     (case is_nested_node_id L n of
        None \<Rightarrow> Some None
      | Some (parent, nested_name) \<Rightarrow> map_option Some (climb_nested L parent nested_name))"

definition make_nested_node_id :: "'n nid_lib \<Rightarrow> 'n \<Rightarrow> string \<Rightarrow> 16 word \<Rightarrow> 'n option" where
  "make_nested_node_id L parent nested_name ns = do {
     check (parent \<noteq> nl_null L);
     check (nested_name \<noteq> '''');
     let parent_namespace = (if ns \<noteq> nl_ns L parent then dec (unat (nl_ns L parent)) @ '':'' else '''');
     let parent_identifier = (if nl_type L parent = Numeric then dec (unat (nl_numeric_id L parent))
                              else nl_string_id L parent);
     Some (nl_string L (parent_namespace @ parent_identifier @ ''!'' @ nested_name) ns)
   }"

definition get_nested_sub_name :: "'n nid_lib \<Rightarrow> 'n \<Rightarrow> 'n \<Rightarrow> string option" where
  "get_nested_sub_name L n nested =
     (if n = nested then Some ''''
      else do {
        (parent, nested_name) \<leftarrow> is_nested_node_id L n;
        if parent = nested then Some nested_name else None
      })"

section \<open>Scada strings\<close>

definition node_id_to_scada_string :: "'n nid_lib \<Rightarrow> 'n \<Rightarrow> string" where
  "node_id_to_scada_string L n =
     (if node_id_to_predefined L n \<noteq> '''' then node_id_to_predefined L n
      else let name = nl_ns_name L (nl_ns L n);
               namespace_name = (if name = '''' then ''NS'' @ dec (unat (nl_ns L n)) else name)
           in case nl_type L n of
                Numeric \<Rightarrow> namespace_name @ ''.'' @ dec (unat (nl_numeric_id L n))
              | String \<Rightarrow> namespace_name @ ''.'' @ nl_string_id L n
              | Opaque \<Rightarrow> '''')"

definition istarts_with_ns :: "string \<Rightarrow> bool" where
  "istarts_with_ns s = (case s of a # b # _ \<Rightarrow> a \<in> set ''Nn'' \<and> b \<in> set ''Ss'' | _ \<Rightarrow> False)"

definition node_id_from_scada_string :: "'n nid_lib \<Rightarrow> string \<Rightarrow> 'n" where
  "node_id_from_scada_string L s =
     (if node_id_from_predefined L s \<noteq> nl_null L then node_id_from_predefined L s
      else case split_first (CHR ''.'') s of
        None \<Rightarrow> nl_null L
      | Some (namespace_name, identifier) \<Rightarrow>
          (case (if nl_find_ns L namespace_name \<noteq> -1 then Some (nl_find_ns L namespace_name)
                 else if istarts_with_ns namespace_name then nl_parse_int L (drop 2 namespace_name)
                 else None) of
             None \<Rightarrow> nl_null L
           | Some ns \<Rightarrow>
               if CHR ''!'' \<in> set identifier then nl_string L identifier (word_of_int ns)
               else case nl_parse_id L identifier of
                      None \<Rightarrow> nl_string L identifier (word_of_int ns)
                    | Some i \<Rightarrow> nl_numeric L i (word_of_int ns)))"

section \<open>What is relied on\<close>

text \<open>Node ids are what they are made of, decimal numbers parse to their value, a namespace is found by
  its name and by its number, and a name of a namespace has no dot in it.\<close>

definition nid_ok :: "'n nid_lib \<Rightarrow> bool" where
  "nid_ok L \<longleftrightarrow>
     (\<forall>i ns. nl_type L (nl_numeric L i ns) = Numeric \<and> nl_numeric_id L (nl_numeric L i ns) = i
        \<and> nl_ns L (nl_numeric L i ns) = ns)
   \<and> (\<forall>s ns. nl_type L (nl_string L s ns) = String \<and> nl_string_id L (nl_string L s ns) = s
        \<and> nl_ns L (nl_string L s ns) = ns)
   \<and> (\<forall>n. nl_type L n = Numeric \<longrightarrow> nl_numeric L (nl_numeric_id L n) (nl_ns L n) = n)
   \<and> (\<forall>n. nl_type L n = String \<longrightarrow> nl_string L (nl_string_id L n) (nl_ns L n) = n)
   \<and> (\<forall>i. nl_parse_id L (dec (unat i)) = Some i)
   \<and> (\<forall>ns :: 16 word. nl_parse_int L (dec (unat ns)) = Some (int (unat ns)))
   \<and> (\<forall>ns :: 16 word. nl_find_ns L (dec (unat ns)) = int (unat ns))
   \<and> (\<forall>ns. nl_ns_name L ns \<noteq> '''' \<longrightarrow> CHR ''.'' \<notin> set (nl_ns_name L ns)
        \<and> nl_find_ns L (nl_ns_name L ns) = int (unat ns))
   \<and> (\<forall>ns. nl_ns_name L ns = '''' \<longrightarrow> nl_find_ns L (''NS'' @ dec (unat ns)) \<in> {-1, int (unat ns)})"

lemma nid_okD:
  assumes "nid_ok L"
  shows "nl_type L (nl_numeric L i ns) = Numeric" "nl_numeric_id L (nl_numeric L i ns) = i"
    "nl_ns L (nl_numeric L i ns) = ns"
    "nl_type L (nl_string L s ns) = String" "nl_string_id L (nl_string L s ns) = s"
    "nl_ns L (nl_string L s ns) = ns"
    "nl_type L n = Numeric \<Longrightarrow> nl_numeric L (nl_numeric_id L n) (nl_ns L n) = n"
    "nl_type L n = String \<Longrightarrow> nl_string L (nl_string_id L n) (nl_ns L n) = n"
    "nl_parse_id L (dec (unat i)) = Some i"
    "nl_parse_int L (dec (unat ns)) = Some (int (unat ns))"
    "nl_find_ns L (dec (unat ns)) = int (unat ns)"
    "nl_ns_name L ns \<noteq> '''' \<Longrightarrow> CHR ''.'' \<notin> set (nl_ns_name L ns)"
    "nl_ns_name L ns \<noteq> '''' \<Longrightarrow> nl_find_ns L (nl_ns_name L ns) = int (unat ns)"
    "nl_ns_name L ns = '''' \<Longrightarrow> nl_find_ns L (''NS'' @ dec (unat ns)) \<in> {-1, int (unat ns)}"
  using assms unfolding nid_ok_def by blast+

section \<open>Strings\<close>

lemma dec_digits: "c \<in> set (dec n) \<Longrightarrow> of_char c \<in> {48..<58::nat}"
proof (induction n rule: dec.induct)
  case (1 n)
  then show ?case by (subst (asm) (2) dec.simps) (auto split: if_splits)
qed

lemma dec_no:
  "CHR ''!'' \<notin> set (dec n)" "CHR '':'' \<notin> set (dec n)" "CHR ''.'' \<notin> set (dec n)"
  using dec_digits [of _ n] by fastforce+

lemma dec_not_empty: "dec n \<noteq> ''''"
  by (subst dec.simps) auto

lemma split_last_append: "c \<notin> set name \<Longrightarrow> split_last c (s @ c # name) = Some (s, name)"
proof -
  assume n: "c \<notin> set name"
  have "takeWhile (\<lambda>x. x \<noteq> c) (rev name @ c # rev s) = rev name"
    using n by (subst takeWhile_append2) auto
  moreover have "dropWhile (\<lambda>x. x \<noteq> c) (rev name @ c # rev s) = c # rev s"
    using n by (subst dropWhile_append2) auto
  ultimately show ?thesis by (simp add: split_last_def)
qed

lemma split_first_append: "c \<notin> set s \<Longrightarrow> split_first c (s @ c # rest) = Some (s, rest)"
proof -
  assume n: "c \<notin> set s"
  have "takeWhile (\<lambda>x. x \<noteq> c) (s @ c # rest) = s"
    using n by (subst takeWhile_append2) auto
  moreover have "dropWhile (\<lambda>x. x \<noteq> c) (s @ c # rest) = c # rest"
    using n by (subst dropWhile_append2) auto
  ultimately show ?thesis by (simp add: split_first_def)
qed

lemma split_first_None: "c \<notin> set s \<Longrightarrow> split_first c s = None"
  by (simp add: split_first_def)

lemma split_last_length: "split_last c s = Some (a, b) \<Longrightarrow> length a < length s"
proof -
  assume h: "split_last c s = Some (a, b)"
  then have c: "c \<in> set (rev s)" by (auto simp: split_last_def split: if_splits)
  then have "dropWhile (\<lambda>x. x \<noteq> c) (rev s) \<noteq> []" by (auto simp: dropWhile_eq_Nil_conv)
  moreover have "length (dropWhile (\<lambda>x. x \<noteq> c) (rev s)) \<le> length s" using length_dropWhile_le [of _ "rev s"] by simp
  ultimately show ?thesis using h by (cases "dropWhile (\<lambda>x. x \<noteq> c) (rev s)") (auto simp: split_last_def split: if_splits)
qed

lemma split_first_length: "split_first c s = Some (a, b) \<Longrightarrow> length b < length s"
proof -
  assume h: "split_first c s = Some (a, b)"
  then have "dropWhile (\<lambda>x. x \<noteq> c) s \<noteq> []" by (auto simp: split_first_def dropWhile_eq_Nil_conv split: if_splits)
  moreover have "length (dropWhile (\<lambda>x. x \<noteq> c) s) \<le> length s" using length_dropWhile_le [of _ s] by simp
  ultimately show ?thesis using h by (cases "dropWhile (\<lambda>x. x \<noteq> c) s") (auto simp: split_first_def split: if_splits)
qed

section \<open>Round trips\<close>

lemma word_of_ns [simp]: "word_of_int (int (unat (ns :: 16 word))) = ns"
  by (simp add: uint_nat [symmetric])

text \<open>C33: Making the id of a nested node and taking it apart again gives back the parent and the name,
  also when the nested node lives in another namespace than its parent, provided the name has no
  exclamation mark, a string id that is not nested itself does not read as a number, and a parent in the
  same namespace has no colon in its id.\<close>

theorem nested_node_id_round_trip:
  assumes ok: "nid_ok L" and parent: "parent \<noteq> nl_null L" "nl_type L parent \<noteq> Opaque"
    and name: "name \<noteq> ''''" "CHR ''!'' \<notin> set name"
    and str: "nl_type L parent = String \<Longrightarrow> CHR ''!'' \<in> set (nl_string_id L parent) \<or> nl_parse_id L (nl_string_id L parent) = None"
    and colon: "nl_type L parent = String \<Longrightarrow> ns = nl_ns L parent \<Longrightarrow> CHR '':'' \<notin> set (nl_string_id L parent)"
  shows "\<exists>n. make_nested_node_id L parent name ns = Some n \<and> nl_ns L n = ns
    \<and> is_nested_node_id L n = Some (parent, name) \<and> get_nested_sub_name L n parent = Some name"
proof -
  note D = nid_okD [OF ok]
  let ?pid = "if nl_type L parent = Numeric then dec (unat (nl_numeric_id L parent)) else nl_string_id L parent"
  let ?pre = "if ns \<noteq> nl_ns L parent then dec (unat (nl_ns L parent)) @ '':'' else ''''"
  let ?n = "nl_string L ((?pre @ ?pid) @ CHR ''!'' # name) ns"
  have mk: "make_nested_node_id L parent name ns = Some ?n"
    using parent(1) name(1) by (simp add: make_nested_node_id_def Let_def)
  have sl: "split_last (CHR ''!'') (nl_string_id L ?n) = Some (?pre @ ?pid, name)"
    unfolding D(5) by (rule split_last_append [OF name(2)])
  have colon': "ns = nl_ns L parent \<Longrightarrow> CHR '':'' \<notin> set ?pid"
    using colon parent(2) dec_no(2) by (cases "nl_type L parent") auto
  have sf: "(case split_first (CHR '':'') (?pre @ ?pid) of
             None \<Rightarrow> Some (nl_ns L ?n, ?pre @ ?pid)
           | Some (ns_name, rest) \<Rightarrow>
               if nl_find_ns L ns_name = -1 then None
               else Some (word_of_int (nl_find_ns L ns_name), rest)) = Some (nl_ns L parent, ?pid)"
  proof (cases "ns = nl_ns L parent")
    case True
    have "split_first (CHR '':'') (?pre @ ?pid) = None" using True colon' by (intro split_first_None) simp
    then show ?thesis using True by (simp only: option.case D(6)) simp
  next
    case False
    then have pre: "?pre @ ?pid = dec (unat (nl_ns L parent)) @ CHR '':'' # ?pid" by simp
    have "split_first (CHR '':'') (?pre @ ?pid) = Some (dec (unat (nl_ns L parent)), ?pid)"
      unfolding pre by (rule split_first_append [OF dec_no(2)])
    moreover have "uint (nl_ns L parent) \<noteq> -1" using uint_ge_0 [of "nl_ns L parent"] by linarith
    ultimately show ?thesis using D(11) [of "nl_ns L parent"] by (simp only: option.case prod.case) simp
  qed
  have top: "CHR ''!'' \<in> set (?pre @ ?pid) \<longleftrightarrow> CHR ''!'' \<in> set ?pid" using dec_no(1) by auto
  have par: "(if CHR ''!'' \<notin> set (?pre @ ?pid)
      then case nl_parse_id L ?pid of Some i \<Rightarrow> nl_numeric L i (nl_ns L parent) | None \<Rightarrow> nl_string L ?pid (nl_ns L parent)
      else nl_string L ?pid (nl_ns L parent)) = parent"
  proof (cases "nl_type L parent")
    case Numeric
    then show ?thesis unfolding top using D(7,9) dec_no(1) by simp
  next
    case String
    then show ?thesis unfolding top using D(8) [OF String] str [OF String] by auto
  qed (use parent(2) in simp)
  have nested: "is_nested_node_id L ?n = Some (parent, name)"
    unfolding is_nested_node_id_def D(4) sl
    using sf par name(1) by (simp only: Option.bind_lunit prod.case Let_def nid_type.distinct simp_thms if_False)
  have "?n \<noteq> parent"
  proof
    assume eq: "?n = parent"
    then have t: "nl_type L parent = String" using D(4) by metis
    have "nl_string_id L ?n = nl_string_id L parent" unfolding eq ..
    then have "length ((?pre @ ?pid) @ CHR ''!'' # name) = length (nl_string_id L parent)" unfolding D(5) by (rule arg_cong)
    then show False using t by simp
  qed
  then have "get_nested_sub_name L ?n parent = Some name" using nested by (simp add: get_nested_sub_name_def)
  then show ?thesis using mk nested D(6) by blast
qed

text \<open>The scada string of a node id, other than the null id and opaque ids, reads back as the same
  node id, unless the id is a string that is not nested and reads as a number.\<close>

theorem scada_string_round_trip:
  assumes ok: "nid_ok L" and n: "n \<noteq> nl_null L" "nl_type L n \<noteq> Opaque"
    and str: "nl_type L n = String \<Longrightarrow> CHR ''!'' \<in> set (nl_string_id L n) \<or> nl_parse_id L (nl_string_id L n) = None"
  shows "node_id_from_scada_string L (node_id_to_scada_string L n) = n"
proof (cases "node_id_to_predefined L n = ''''")
  case False
  then have "node_id_from_predefined L (node_id_to_predefined L n) = n"
    by (auto simp: node_id_to_predefined_def node_id_from_predefined_def predefined_scada_strings_def split: if_splits)
  then show ?thesis
    using False n(1) by (simp add: node_id_to_scada_string_def node_id_from_scada_string_def)
next
  case True
  note D = nid_okD [OF ok]
  let ?ns = "nl_ns L n"
  define name where "name = (if nl_ns_name L ?ns = '''' then ''NS'' @ dec (unat ?ns) else nl_ns_name L ?ns)"
  define ident where "ident = (if nl_type L n = Numeric then dec (unat (nl_numeric_id L n)) else nl_string_id L n)"
  have s: "node_id_to_scada_string L n = name @ CHR ''.'' # ident"
    using True n(2) by (cases "nl_type L n") (simp_all add: node_id_to_scada_string_def Let_def name_def ident_def)
  have pre: "node_id_from_predefined L (name @ CHR ''.'' # ident) = nl_null L"
  proof -
    have ne: "p \<noteq> name @ CHR ''.'' # ident" if "CHR ''.'' \<notin> set p" for p
      using that by auto
    note pn = ne [of "''Server!CPU''"] ne [of "''Server!Mem''"] ne [of "''Server!PCPU''"] ne [of "''Server!PMem''"]
    have "List.find (\<lambda>p. fst p = name @ CHR ''.'' # ident) (predefined_scada_strings L) = None"
      using pn by (simp add: predefined_scada_strings_def)
    then show ?thesis by (simp add: node_id_from_predefined_def)
  qed
  have dot: "CHR ''.'' \<notin> set name"
    using D(12) [of ?ns] dec_no(3) by (auto simp: name_def)
  have uns: "uint ?ns \<noteq> -1" using uint_ge_0 [of ?ns] by linarith
  have nsx: "(if nl_find_ns L name \<noteq> -1 then Some (nl_find_ns L name)
         else if istarts_with_ns name then nl_parse_int L (drop 2 name) else None) = Some (int (unat ?ns))"
  proof (cases "nl_ns_name L ?ns = ''''")
    case True
    then have "nl_find_ns L name = -1 \<or> nl_find_ns L name = int (unat ?ns)" using D(14) [of ?ns] by (simp add: name_def)
    moreover have "istarts_with_ns name" "drop 2 name = dec (unat ?ns)" using True by (simp_all add: name_def istarts_with_ns_def)
    ultimately show ?thesis using D(10) [of ?ns] by auto
  next
    case False
    then have "nl_find_ns L name = int (unat ?ns)" using D(13) by (simp add: name_def)
    then show ?thesis using uns by simp
  qed
  have "(if CHR ''!'' \<in> set ident then nl_string L ident ?ns
         else case nl_parse_id L ident of None \<Rightarrow> nl_string L ident ?ns | Some i \<Rightarrow> nl_numeric L i ?ns) = n"
  proof (cases "nl_type L n")
    case Numeric
    then show ?thesis using D(7,9) dec_no(1) by (simp add: ident_def)
  next
    case String
    then show ?thesis using D(8) str by (auto simp: ident_def)
  qed (use n(2) in simp)
  then show ?thesis
    unfolding s node_id_from_scada_string_def pre split_first_append [OF dot]
    by (simp only: option.case prod.case nsx word_of_ns simp_thms if_False)
qed

section \<open>Climbing to the root\<close>

lemma is_nested_shorter:
  assumes ok: "nid_ok L" and h: "is_nested_node_id L n = Some (parent, name)" and t: "nl_type L parent = String"
  shows "length (nl_string_id L parent) < length (nl_string_id L n)"
proof -
  note D = nid_okD [OF ok]
  obtain ps where ps: "split_last (CHR ''!'') (nl_string_id L n) = Some (ps, name)"
    using h by (auto simp: is_nested_node_id_def Let_def bind_eq_Some_conv split: if_splits)
  obtain ns pid where pid: "(case split_first (CHR '':'') ps of
             None \<Rightarrow> Some (nl_ns L n, ps)
           | Some (ns_name, rest) \<Rightarrow>
               if nl_find_ns L ns_name = -1 then None
               else Some (word_of_int (nl_find_ns L ns_name), rest)) = Some (ns, pid)"
    "parent = nl_string L pid ns \<or> (\<exists>i. parent = nl_numeric L i ns)"
    using h ps by (auto simp: is_nested_node_id_def Let_def bind_eq_Some_conv split: if_splits option.splits)
  have "length pid \<le> length ps"
    using pid(1) split_first_length [of "CHR '':''" ps] by (fastforce split: option.splits if_splits)
  moreover have "parent = nl_string L pid ns" using pid(2) t D(1) by auto
  ultimately show ?thesis using split_last_length [OF ps] D(5) by simp
qed

text \<open>GetRootNestedNodeId always returns: each step to the parent shortens the id. It answers false
  exactly for ids that are not nested, and otherwise gives an ancestor that is not nested itself.\<close>

theorem get_root_nested_node_id_returns:
  assumes ok: "nid_ok L"
  shows "\<exists>r. get_root_nested_node_id L n = Some r
    \<and> (r = None) = (is_nested_node_id L n = None)
    \<and> (case r of None \<Rightarrow> True | Some (root, name) \<Rightarrow> is_nested_node_id L root = None)"
proof -
  have climb: "\<exists>root name'. climb_nested L parent name = Some (root, name') \<and> is_nested_node_id L root = None" for parent name
  proof (induction "if nl_type L parent = String then Suc (length (nl_string_id L parent)) else 0"
      arbitrary: parent name rule: less_induct)
    case less
    show ?case
    proof (cases "is_nested_node_id L parent")
      case None
      then show ?thesis by (simp add: climb_nested.simps [of L parent])
    next
      case (Some p)
      obtain next_parent next_name where p: "p = (next_parent, next_name)" by (cases p)
      have "nl_type L parent = String" using Some by (auto simp: is_nested_node_id_def split: if_splits)
      then have "(if nl_type L next_parent = String then Suc (length (nl_string_id L next_parent)) else 0)
          < (if nl_type L parent = String then Suc (length (nl_string_id L parent)) else 0)"
        using is_nested_shorter [OF ok Some [unfolded p]] by simp
      from less [OF this, of next_name] show ?thesis using Some p by (simp add: climb_nested.simps [of L parent])
    qed
  qed
  show ?thesis
  proof (cases "is_nested_node_id L n")
    case None
    then show ?thesis by (simp add: get_root_nested_node_id_def)
  next
    case (Some p)
    then show ?thesis using climb [of "fst p" "snd p"] by (auto simp: get_root_nested_node_id_def split: prod.splits)
  qed
qed

section \<open>An instance\<close>

definition undec :: "string \<Rightarrow> nat option" where
  "undec s = (if s \<noteq> '''' \<and> list_all (\<lambda>c. of_char c \<in> {48..<58::nat}) s
     then Some (foldl (\<lambda>a c. a * 10 + (of_char c - 48)) 0 s) else None)"

lemma undec_dec: "undec (dec n) = Some n"
proof -
  have "foldl (\<lambda>a c. a * 10 + (of_char c - 48)) 0 (dec n) = n"
  proof (induction n rule: dec.induct)
    case (1 n)
    then show ?case by (subst dec.simps) (auto simp: of_char_of)
  qed
  moreover have "list_all (\<lambda>c. of_char c \<in> {48..<58::nat}) (dec n)" using dec_digits by (auto simp: list_all_iff)
  ultimately show ?thesis using dec_not_empty by (simp add: undec_def)
qed

type_synonym ex_nid = "(32 word + string) \<times> 16 word"

definition ex_nid_lib :: "ex_nid nid_lib" where
  "ex_nid_lib = \<lparr>nl_null = (Inl 0, 0), nl_type = (\<lambda>n. case fst n of Inl _ \<Rightarrow> Numeric | Inr _ \<Rightarrow> String),
     nl_ns = snd, nl_numeric_id = (\<lambda>n. case fst n of Inl i \<Rightarrow> i | Inr _ \<Rightarrow> 0),
     nl_string_id = (\<lambda>n. case fst n of Inl i \<Rightarrow> '''' | Inr s \<Rightarrow> s),
     nl_numeric = (\<lambda>i ns. (Inl i, ns)), nl_string = (\<lambda>s ns. (Inr s, ns)),
     nl_parse_id = (\<lambda>s. map_option of_nat (undec s)), nl_parse_int = (\<lambda>s. map_option int (undec s)),
     nl_find_ns = (\<lambda>s. case undec s of Some k \<Rightarrow> int k | None \<Rightarrow> if s = ''TS'' then 2 else -1),
     nl_ns_name = (\<lambda>ns. if ns = 2 then ''TS'' else ''''),
     nl_total_cpu = (Inl 1, 9), nl_total_mem = (Inl 2, 9), nl_server_cpu = (Inl 3, 9), nl_server_mem = (Inl 4, 9)\<rparr>"

lemma ex_nid_ok: "nid_ok ex_nid_lib"
proof -
  have "undec (''NS'' @ s) = None" "undec ''TS'' = None" for s by (simp_all add: undec_def)
  then show ?thesis by (simp add: nid_ok_def ex_nid_lib_def undec_dec split: sum.splits)
qed

theorem nested_node_id_round_trip_witness:
  "\<exists>n. make_nested_node_id ex_nid_lib (Inl 456, 3) ''ConnectCount'' 0 = Some n \<and> nl_ns ex_nid_lib n = 0
    \<and> is_nested_node_id ex_nid_lib n = Some ((Inl 456, 3), ''ConnectCount'')
    \<and> get_nested_sub_name ex_nid_lib n (Inl 456, 3) = Some ''ConnectCount''"
  by (rule nested_node_id_round_trip [OF ex_nid_ok]) (simp_all add: ex_nid_lib_def)

theorem scada_string_round_trip_witness:
  "node_id_from_scada_string ex_nid_lib (node_id_to_scada_string ex_nid_lib (Inr ''32!Online'', 2)) = (Inr ''32!Online'', 2)"
  by (rule scada_string_round_trip [OF ex_nid_ok]) (simp_all add: ex_nid_lib_def)

theorem get_root_nested_node_id_returns_witness:
  "\<exists>r. get_root_nested_node_id ex_nid_lib (Inr ''1!Model!X'', 2) = Some r
    \<and> (r = None) = (is_nested_node_id ex_nid_lib (Inr ''1!Model!X'', 2) = None)
    \<and> (case r of None \<Rightarrow> True | Some (root, name) \<Rightarrow> is_nested_node_id ex_nid_lib root = None)"
  by (rule get_root_nested_node_id_returns [OF ex_nid_ok])

end
