(* ===== verification/Aggregation.thy ===== *)
theory Aggregation
  imports Data_Value "HOL-Library.Signed_Division" "HOL-Library.Word"
begin

text \<open>
  \<open>common/aggregation.cpp\<close>: aggregates of history values over fixed intervals. Times and durations are
  whole numbers of the clock's ticks. A double is an element of any ordered field: rounding, infinities and
  not-a-number are left out. Variants and the null test of a data value belong to the SCADA core library:
  they are the fields of \<open>ag_lib\<close>. A failed check, a read past an empty span and a call of an empty
  function are \<open>None\<close>.
\<close>

type_synonym ('a, 'q) ag_value = "('a, 'q, int) data_value"

record ('n, 'a, 'q, 'd) ag_lib =
  al_get :: "'a \<Rightarrow> 'd option"
  al_double :: "'d \<Rightarrow> 'a"
  al_uint64 :: "64 word \<Rightarrow> 'a"
  al_is_null :: "('a, 'q) ag_value \<Rightarrow> bool"
  al_null :: "('a, 'q) ag_value"
  al_no_qualifier :: 'q
  al_null_time :: int
  al_max :: 'd   \<comment> \<open>\<open>numeric_limits<Double>::max ()\<close>\<close>
  al_min :: 'd   \<comment> \<open>\<open>numeric_limits<Double>::min ()\<close>, the least positive normal double\<close>
  al_total_id :: 'n
  al_average_id :: 'n
  al_count_id :: 'n
  al_minimum_id :: 'n
  al_maximum_id :: 'n
  al_start_id :: 'n
  al_end_id :: 'n

section \<open>Aggregators\<close>

definition calculate_total ::
    "('n, 'a, 'q, 'd::linordered_field) ag_lib \<Rightarrow> ('a, 'q) ag_value list \<Rightarrow> 'd" where
  "calculate_total L vs =
     foldl (\<lambda>sum v. case al_get L (dv_value v) of Some d \<Rightarrow> sum + d | None \<Rightarrow> sum) 0 vs"

text \<open>
  \<open>std::min_element\<close> and \<open>std::max_element\<close> with \<open>CompareDataValues\<close>, which compares the addresses of
  two values that are not both numbers: the value that stands earlier in the span is the lesser one.
\<close>

definition later_less_earlier ::
    "('n, 'a, 'q, 'd::linordered_field) ag_lib \<Rightarrow> ('a, 'q) ag_value \<Rightarrow> ('a, 'q) ag_value \<Rightarrow> bool" where
  "later_less_earlier L later earlier =
     (case (al_get L (dv_value later), al_get L (dv_value earlier)) of
        (Some x, Some y) \<Rightarrow> x < y | _ \<Rightarrow> False)"

definition earlier_less_later ::
    "('n, 'a, 'q, 'd::linordered_field) ag_lib \<Rightarrow> ('a, 'q) ag_value \<Rightarrow> ('a, 'q) ag_value \<Rightarrow> bool" where
  "earlier_less_later L earlier later =
     (case (al_get L (dv_value earlier), al_get L (dv_value later)) of
        (Some x, Some y) \<Rightarrow> x < y | _ \<Rightarrow> True)"

definition min_element ::
    "('n, 'a, 'q, 'd::linordered_field) ag_lib \<Rightarrow> ('a, 'q) ag_value list \<Rightarrow> ('a, 'q) ag_value" where
  "min_element L vs = foldl (\<lambda>best v. if later_less_earlier L v best then v else best) (hd vs) (tl vs)"

definition max_element ::
    "('n, 'a, 'q, 'd::linordered_field) ag_lib \<Rightarrow> ('a, 'q) ag_value list \<Rightarrow> ('a, 'q) ag_value" where
  "max_element L vs = foldl (\<lambda>best v. if earlier_less_later L best v then v else best) (hd vs) (tl vs)"

text \<open>The state a closure of \<open>BuildAggregatorFactoryMap\<close> keeps between its calls.\<close>

datatype ('a, 'q, 'd) aggregator =
  Total 'd
| Average 'd nat
| Count nat
| Minimum 'd
| Maximum 'd
| Front "('a, 'q) ag_value"
| Back

definition get_aggregator ::
    "('n, 'a, 'q, 'd::linordered_field) ag_lib \<Rightarrow> 'n \<Rightarrow> bool \<Rightarrow> ('a, 'q, 'd) aggregator option" where
  "get_aggregator L aggregate_type forward =
     map_of [(al_total_id L, Total 0), (al_average_id L, Average 0 0), (al_count_id L, Count 0),
             (al_minimum_id L, Minimum (al_max L)), (al_maximum_id L, Maximum (al_min L)),
             (al_start_id L, if forward then Front (al_null L) else Back),
             (al_end_id L, if forward then Back else Front (al_null L))] aggregate_type"

definition run_aggregator ::
    "('n, 'a, 'q, 'd::linordered_field) ag_lib \<Rightarrow> int \<times> int \<Rightarrow> ('a, 'q) ag_value list \<Rightarrow>
     ('a, 'q, 'd) aggregator \<Rightarrow> (('a, 'q) ag_value \<times> ('a, 'q, 'd) aggregator) option" where
  "run_aggregator L interval vs a = do {
     let result = (\<lambda>v q. \<lparr>dv_value = v, dv_qualifier = q, dv_source = fst interval, dv_server = snd interval\<rparr>);
     (case a of
        Total acc \<Rightarrow>
          let total' = acc + calculate_total L vs
          in Some (result (al_double L total') (al_no_qualifier L), Total total')
      | Average acc count \<Rightarrow>
          let total' = acc + calculate_total L vs; count' = count + length vs
          in do {
            check (count' \<noteq> 0);
            Some (result (al_double L (total' / of_nat count')) (al_no_qualifier L), Average total' count')
          }
      | Count count \<Rightarrow>
          let count' = count + length vs
          in Some (result (al_uint64 L (of_nat count')) (al_no_qualifier L), Count count')
      | Minimum m \<Rightarrow> do {
          check (vs \<noteq> []);
          let v = min_element L vs;
          let m' = (case al_get L (dv_value v) of Some d \<Rightarrow> min m d | None \<Rightarrow> m);
          Some (result (al_double L m') (dv_qualifier v), Minimum m')
        }
      | Maximum m \<Rightarrow> do {
          check (vs \<noteq> []);
          let v = max_element L vs;
          let m' = (case al_get L (dv_value v) of Some d \<Rightarrow> max m d | None \<Rightarrow> m);
          Some (result (al_double L m') (dv_qualifier v), Maximum m')
        }
      | Front start \<Rightarrow> do {
          check (al_is_null L start \<longrightarrow> vs \<noteq> []);
          let start' = (if al_is_null L start then hd vs else start);
          Some (result (dv_value start') (dv_qualifier start'), Front start')
        }
      | Back \<Rightarrow> do {
          check (vs \<noteq> []);
          let v = last vs;
          Some (result (dv_value v) (dv_qualifier v), Back)
        })
   }"

section \<open>Intervals\<close>

text \<open>The remainder of durations truncates towards zero.\<close>

definition get_aggregate_interval :: "int \<Rightarrow> int \<Rightarrow> int \<Rightarrow> int \<times> int" where
  "get_aggregate_interval time origin_time interval =
     (if interval = 0 then (time, time)
      else if time < origin_time then (origin_time, origin_time + interval)
      else let delta = time - origin_time;
               delta' = delta - delta smod interval
           in (origin_time + delta', origin_time + delta' + interval))"

section \<open>The state of an aggregation\<close>

record 'n aggregate_filter =
  af_start_time :: int
  af_interval :: int
  af_aggregate_type :: 'n

record ('a, 'q, 'd) aggregate_state =
  as_data_values :: "('a, 'q) ag_value list"
  as_aggregator :: "('a, 'q, 'd) aggregator option"
  as_interval :: "int \<times> int"
  as_aggregated_value :: "('a, 'q) ag_value"

definition new_aggregate_state ::
    "('n, 'a, 'q, 'd) ag_lib \<Rightarrow> ('a, 'q, 'd) aggregate_state" where
  "new_aggregate_state L = \<lparr>as_data_values = [], as_aggregator = None,
     as_interval = (al_null_time L, al_null_time L), as_aggregated_value = al_null L\<rparr>"

text \<open>A new interval: the value of the previous one is stored and a new aggregator is made.\<close>

definition start_interval ::
    "('n, 'a, 'q, 'd::linordered_field) ag_lib \<Rightarrow> 'n aggregate_filter \<Rightarrow> bool \<Rightarrow> int \<times> int \<Rightarrow>
     ('a, 'q, 'd) aggregate_state \<Rightarrow> ('a, 'q, 'd) aggregate_state" where
  "start_interval L filt forward interval s =
     (let s1 = (if \<not> al_is_null L (as_aggregated_value s)
                then s\<lparr>as_data_values := as_data_values s @ [as_aggregated_value s],
                       as_aggregated_value := al_null L\<rparr>
                else s)
      in s1\<lparr>as_interval := interval, as_aggregator := get_aggregator L (af_aggregate_type filt) forward\<rparr>)"

definition bucket_size :: "bool \<Rightarrow> int \<times> int \<Rightarrow> ('a, 'q) ag_value list \<Rightarrow> nat" where
  "bucket_size forward interval raw =
     (if forward then upper_bound dv_source raw (snd interval)
      else reverse_upper_bound dv_source raw (fst interval))"

function process ::
    "('n, 'a, 'q, 'd::linordered_field) ag_lib \<Rightarrow> 'n aggregate_filter \<Rightarrow> bool \<Rightarrow>
     ('a, 'q) ag_value list \<Rightarrow> ('a, 'q, 'd) aggregate_state \<Rightarrow> ('a, 'q, 'd) aggregate_state option" where
  "process L filt forward raw s =
     (if raw = [] then Some s
      else let interval = get_aggregate_interval (dv_source (hd raw)) (af_start_time filt) (af_interval filt);
               count = bucket_size forward interval raw
           in if count = 0 then None
              else let changed = as_interval s \<noteq> interval;
                       s1 = (if changed then start_interval L filt forward interval s else s)
                   in if changed \<and> as_aggregator s1 = None then Some s1
                      else case as_aggregator s1 of
                             None \<Rightarrow> None
                           | Some a \<Rightarrow>
                               (case run_aggregator L interval (take count raw) a of
                                  None \<Rightarrow> None
                                | Some (v, a') \<Rightarrow>
                                    process L filt forward (drop count raw)
                                      (s1\<lparr>as_aggregated_value := v, as_aggregator := Some a'\<rparr>)))"
  by pat_completeness auto
termination
  by (relation "measure (\<lambda>(L, filt, forward, raw, s). length raw)") auto

declare process.simps [simp del]

definition finish ::
    "('n, 'a, 'q, 'd) ag_lib \<Rightarrow> ('a, 'q, 'd) aggregate_state \<Rightarrow> ('a, 'q, 'd) aggregate_state" where
  "finish L s =
     (if \<not> al_is_null L (as_aggregated_value s)
      then s\<lparr>as_data_values := as_data_values s @ [as_aggregated_value s]\<rparr> else s)"

section \<open>Facts\<close>

lemma run_aggregator_total: "vs \<noteq> [] \<Longrightarrow> run_aggregator L iv vs a \<noteq> None"
  by (cases a) (simp_all add: run_aggregator_def Let_def)

lemma run_aggregator_times:
  "run_aggregator L iv vs a = Some (v, a') \<Longrightarrow> dv_source v = fst iv \<and> dv_server v = snd iv"
  by (cases a) (auto simp: run_aggregator_def Let_def)

lemma aggregate_interval_bounds:
  assumes "interval > 0" "origin_time \<le> time"
  shows "fst (get_aggregate_interval time origin_time interval) \<le> time"
    "time < snd (get_aggregate_interval time origin_time interval)"
    "snd (get_aggregate_interval time origin_time interval) = fst (get_aggregate_interval time origin_time interval) + interval"
    "(fst (get_aggregate_interval time origin_time interval) - origin_time) mod interval = 0"
    "origin_time \<le> fst (get_aggregate_interval time origin_time interval)"
proof -
  let ?d = "time - origin_time"
  have "?d smod interval = ?d mod interval" using assms by (simp add: smod_int_alt_def sgn_if)
  then have iv: "get_aggregate_interval time origin_time interval
      = (origin_time + (?d - ?d mod interval), origin_time + (?d - ?d mod interval) + interval)"
    using assms by (simp add: get_aggregate_interval_def Let_def)
  have m: "0 \<le> ?d mod interval" "?d mod interval < interval" "?d mod interval \<le> ?d"
    using assms by (auto simp: zmod_le_nonneg_dividend)
  show "fst (get_aggregate_interval time origin_time interval) \<le> time"
    "time < snd (get_aggregate_interval time origin_time interval)"
    "snd (get_aggregate_interval time origin_time interval) = fst (get_aggregate_interval time origin_time interval) + interval"
    "origin_time \<le> fst (get_aggregate_interval time origin_time interval)"
    unfolding iv using m by simp_all
  show "(fst (get_aggregate_interval time origin_time interval) - origin_time) mod interval = 0"
    unfolding iv by (simp add: minus_mod_eq_mult_div)
qed

section \<open>Buckets\<close>

text \<open>The buckets of a forward run: each starts with the first value left over and takes all values up to
  the end of its interval.\<close>

function buckets :: "int \<Rightarrow> int \<Rightarrow> ('a, 'q) ag_value list \<Rightarrow> ((int \<times> int) \<times> ('a, 'q) ag_value list) list" where
  "buckets origin_time interval raw =
     (if raw = [] then []
      else let iv = get_aggregate_interval (dv_source (hd raw)) origin_time interval;
               n = max 1 (upper_bound dv_source raw (snd iv))
           in (iv, take n raw) # buckets origin_time interval (drop n raw))"
  by pat_completeness auto
termination
  by (relation "measure (\<lambda>(_, _, raw). length raw)") auto

declare buckets.simps [simp del]

definition bucket_ok :: "int \<Rightarrow> int \<Rightarrow> (int \<times> int) \<times> ('a, 'q) ag_value list \<Rightarrow> bool" where
  "bucket_ok origin_time interval b \<longleftrightarrow> snd b \<noteq> []
     \<and> snd (fst b) = fst (fst b) + interval \<and> (fst (fst b) - origin_time) mod interval = 0
     \<and> list_all (\<lambda>v. fst (fst b) \<le> dv_source v \<and> dv_source v \<le> snd (fst b)) (snd b)"

definition in_order :: "int \<Rightarrow> ('a, 'q) ag_value list \<Rightarrow> bool" where
  "in_order origin_time raw \<longleftrightarrow> sorted (map dv_source raw) \<and> list_all (\<lambda>v. origin_time \<le> dv_source v) raw"

lemma in_order_drop: "in_order origin_time raw \<Longrightarrow> in_order origin_time (drop n raw)"
  by (auto simp: in_order_def drop_map [symmetric] sorted_wrt_drop list_all_iff dest: in_set_dropD)

lemma first_bucket:
  assumes "interval > 0" "in_order origin_time raw" "raw \<noteq> []"
  defines "iv \<equiv> get_aggregate_interval (dv_source (hd raw)) origin_time interval"
  shows "upper_bound dv_source raw (snd iv) > 0"
    "bucket_ok origin_time interval (iv, take (upper_bound dv_source raw (snd iv)) raw)"
    "\<And>v. v \<in> set (drop (upper_bound dv_source raw (snd iv)) raw) \<Longrightarrow> snd iv < dv_source v"
proof -
  obtain x xs where raw: "raw = x # xs" using assms(3) by (cases raw) auto
  have o: "origin_time \<le> dv_source x" and s: "sorted (map dv_source raw)" using assms(2) by (auto simp: in_order_def raw)
  note b = aggregate_interval_bounds [OF assms(1) o]
  have ivx: "iv = get_aggregate_interval (dv_source x) origin_time interval" by (simp add: iv_def raw)
  show p: "upper_bound dv_source raw (snd iv) > 0" using b(2) by (simp add: upper_bound_def raw ivx)
  have t: "take (upper_bound dv_source raw (snd iv)) raw = filter (\<lambda>v. dv_source v \<le> snd iv) raw"
    "drop (upper_bound dv_source raw (snd iv)) raw = filter (\<lambda>v. snd iv < dv_source v) raw"
    using take_upper_bound [OF s] drop_upper_bound [OF s] by simp_all
  show "\<And>v. v \<in> set (drop (upper_bound dv_source raw (snd iv)) raw) \<Longrightarrow> snd iv < dv_source v" by (simp add: t)
  have "fst iv \<le> dv_source v" if "v \<in> set raw" for v
    using that s b(1) by (auto simp: raw ivx)
  then have "list_all (\<lambda>v. fst iv \<le> dv_source v \<and> dv_source v \<le> snd iv) (take (upper_bound dv_source raw (snd iv)) raw)"
    by (simp add: t list_all_iff)
  moreover have "take (upper_bound dv_source raw (snd iv)) raw \<noteq> []" using p assms(3) by simp
  ultimately show "bucket_ok origin_time interval (iv, take (upper_bound dv_source raw (snd iv)) raw)"
    using b(3,4) by (simp add: bucket_ok_def ivx)
qed

lemma buckets_step:
  assumes "interval > 0" "in_order origin_time raw" "raw \<noteq> []"
  shows "buckets origin_time interval raw =
    (let iv = get_aggregate_interval (dv_source (hd raw)) origin_time interval;
         n = upper_bound dv_source raw (snd iv)
     in (iv, take n raw) # buckets origin_time interval (drop n raw))"
  using first_bucket(1) [OF assms] assms(3) by (subst buckets.simps) (simp add: Let_def max_def)

text \<open>The next interval lies behind the values of the previous one.\<close>

lemma buckets_correct:
  assumes "interval > 0" "in_order origin_time raw"
  shows "concat (map snd (buckets origin_time interval raw)) = raw
    \<and> list_all (bucket_ok origin_time interval) (buckets origin_time interval raw)
    \<and> sorted_wrt (\<lambda>a b. a < b) (map (\<lambda>b. snd (fst b)) (buckets origin_time interval raw))"
  using assms(2)
proof (induction "length raw" arbitrary: raw rule: less_induct)
  case less
  show ?case
  proof (cases "raw = []")
    case False
    let ?iv = "get_aggregate_interval (dv_source (hd raw)) origin_time interval"
    let ?n = "upper_bound dv_source raw (snd ?iv)"
    note f = first_bucket [OF assms(1) less.prems False]
    have b: "buckets origin_time interval raw = (?iv, take ?n raw) # buckets origin_time interval (drop ?n raw)"
      using buckets_step [OF assms(1) less.prems False] by (simp add: Let_def)
    have ord: "in_order origin_time (drop ?n raw)" by (rule in_order_drop [OF less.prems])
    have ih: "concat (map snd (buckets origin_time interval (drop ?n raw))) = drop ?n raw"
      "list_all (bucket_ok origin_time interval) (buckets origin_time interval (drop ?n raw))"
      "sorted_wrt (\<lambda>a b. a < b) (map (\<lambda>b. snd (fst b)) (buckets origin_time interval (drop ?n raw)))"
      using less.hyps [OF _ ord] f(1) False by auto
    have "snd ?iv < snd (fst c)" if c: "c \<in> set (buckets origin_time interval (drop ?n raw))" for c
    proof -
      have ok: "bucket_ok origin_time interval c" using ih(2) c by (simp add: list_all_iff)
      then have "hd (snd c) \<in> set (snd c)" "\<forall>v \<in> set (snd c). dv_source v \<le> snd (fst c)"
        unfolding bucket_ok_def list_all_iff by auto
      then obtain v where v: "v \<in> set (snd c)" "dv_source v \<le> snd (fst c)" by blast
      then have "v \<in> set (concat (map snd (buckets origin_time interval (drop ?n raw))))" using c by auto
      then have "snd ?iv < dv_source v" unfolding ih(1) by (rule f(3))
      then show ?thesis using v(2) by simp
    qed
    then show ?thesis unfolding b using ih f(2) by simp
  qed (simp add: buckets.simps)
qed

section \<open>Processing\<close>

lemma finish_data:
  "as_data_values (finish L s) = as_data_values s @ filter (\<lambda>v. \<not> al_is_null L v) [as_aggregated_value s]"
  by (simp add: finish_def)

lemma start_interval_data:
  "as_data_values (start_interval L filt forward iv s) = as_data_values (finish L s)"
  "as_interval (start_interval L filt forward iv s) = iv"
  "as_aggregator (start_interval L filt forward iv s) = get_aggregator L (af_aggregate_type filt) forward"
  by (simp_all add: start_interval_def finish_def Let_def)

definition bucket_value ::
    "('n, 'a, 'q, 'd::linordered_field) ag_lib \<Rightarrow> ('a, 'q, 'd) aggregator \<Rightarrow>
     (int \<times> int) \<times> ('a, 'q) ag_value list \<Rightarrow> ('a, 'q) ag_value" where
  "bucket_value L a b = fst (the (run_aggregator L (fst b) (snd b) a))"

lemma process_buckets:
  assumes iv: "af_interval filt > 0" and a: "get_aggregator L (af_aggregate_type filt) True = Some a"
    and ord: "in_order (af_start_time filt) raw"
    and new: "raw \<noteq> [] \<Longrightarrow> fst (as_interval s) = snd (as_interval s) \<or> snd (as_interval s) < dv_source (hd raw)"
  shows "\<exists>s'. process L filt True raw s = Some s' \<and> as_data_values (finish L s') =
    as_data_values (finish L s)
    @ filter (\<lambda>v. \<not> al_is_null L v) (map (bucket_value L a) (buckets (af_start_time filt) (af_interval filt) raw))"
  using ord new
proof (induction "length raw" arbitrary: raw s rule: less_induct)
  case less
  show ?case
  proof (cases "raw = []")
    case True
    then show ?thesis by (simp add: process.simps [of L filt True "[]"] buckets.simps)
  next
    case False
    let ?o = "af_start_time filt" and ?i = "af_interval filt"
    let ?iv = "get_aggregate_interval (dv_source (hd raw)) ?o ?i"
    let ?n = "upper_bound dv_source raw (snd ?iv)"
    note f = first_bucket [OF iv less.prems(1) False]
    have o: "?o \<le> dv_source (hd raw)" using less.prems(1) False by (simp add: in_order_def list_all_iff)
    note b = aggregate_interval_bounds [OF iv o]
    have ivlt: "fst ?iv < snd ?iv" using b(1,2) by simp
    have ch: "as_interval s \<noteq> ?iv" using less.prems(2) [OF False] b(1,2) by auto
    let ?s1 = "start_interval L filt True ?iv s"
    obtain v a' where v: "run_aggregator L ?iv (take ?n raw) a = Some (v, a')"
      using run_aggregator_total [of "take ?n raw" L ?iv a] f(1) False by fastforce
    let ?s2 = "?s1\<lparr>as_aggregated_value := v, as_aggregator := Some a'\<rparr>"
    have st: "process L filt True raw s = process L filt True (drop ?n raw) ?s2"
      using False f(1) ch v a by (subst process.simps) (simp add: Let_def bucket_size_def start_interval_data)
    have d2: "as_data_values (finish L ?s2) = as_data_values (finish L s) @ filter (\<lambda>v. \<not> al_is_null L v) [v]"
      by (simp add: finish_data start_interval_data)
    have "snd (as_interval ?s2) < dv_source (hd (drop ?n raw))" if "drop ?n raw \<noteq> []"
      using f(3) [of "hd (drop ?n raw)"] that by (simp add: start_interval_data)
    then obtain s' where s': "process L filt True (drop ?n raw) ?s2 = Some s'"
      "as_data_values (finish L s') = as_data_values (finish L ?s2)
        @ filter (\<lambda>v. \<not> al_is_null L v) (map (bucket_value L a) (buckets ?o ?i (drop ?n raw)))"
      using less.hyps [OF _ in_order_drop [OF less.prems(1), of ?n], of ?s2] f(1) False by auto
    have bs: "buckets ?o ?i raw = (?iv, take ?n raw) # buckets ?o ?i (drop ?n raw)"
      using buckets_step [OF iv less.prems(1) False] by (simp add: Let_def)
    have "bucket_value L a (?iv, take ?n raw) = v" using v by (simp add: bucket_value_def)
    then show ?thesis using st s' d2 bs by simp
  qed
qed

text \<open>C38: Processing a forward run of history that starts at or after the origin in one piece, with a positive interval and
  a known aggregate, and finishing gives one value per interval: the values of the run fall, without loss and in order,
  into buckets of aligned intervals, and the results are the aggregates of the buckets, each computed by a fresh
  aggregator and stamped with its interval, but for those that \<open>DataValue::is_null\<close> calls null. Of \<open>is_null\<close>, which
  belongs to the SCADA core library, nothing is assumed but that it holds of the default value.\<close>

theorem process_forward_correct:
  assumes "af_interval filt > 0" "get_aggregator L (af_aggregate_type filt) True = Some a"
    "al_is_null L (al_null L)" "in_order (af_start_time filt) raw"
  shows "\<exists>s. process L filt True raw (new_aggregate_state L) = Some s
    \<and> as_data_values (finish L s) =
        filter (\<lambda>v. \<not> al_is_null L v) (map (bucket_value L a) (buckets (af_start_time filt) (af_interval filt) raw))
    \<and> concat (map snd (buckets (af_start_time filt) (af_interval filt) raw)) = raw
    \<and> list_all (bucket_ok (af_start_time filt) (af_interval filt)) (buckets (af_start_time filt) (af_interval filt) raw)
    \<and> sorted_wrt (\<lambda>x y. x < y) (map (\<lambda>b. snd (fst b)) (buckets (af_start_time filt) (af_interval filt) raw))"
proof -
  have "finish L (new_aggregate_state L) = new_aggregate_state L"
    using assms(3) by (simp add: finish_def new_aggregate_state_def)
  then show ?thesis
    using process_buckets [OF assms(1,2,4), of "new_aggregate_state L"] buckets_correct [OF assms(1,4)]
    by (simp add: new_aggregate_state_def)
qed

section \<open>Minimum and maximum\<close>

definition numeric :: "('n, 'a, 'q, 'd) ag_lib \<Rightarrow> ('a, 'q) ag_value list \<Rightarrow> 'd list \<Rightarrow> bool" where
  "numeric L vs ds \<longleftrightarrow> map (\<lambda>v. al_get L (dv_value v)) vs = map Some ds"

lemma max_element_numeric:
  "numeric L vs ds \<Longrightarrow> al_get L (dv_value b) = Some d \<Longrightarrow>
   al_get L (dv_value (foldl (\<lambda>best v. if earlier_less_later L best v then v else best) b vs)) = Some (foldl max d ds)"
proof (induction vs arbitrary: ds b d)
  case (Cons v vs)
  obtain e es where ds: "ds = e # es" "al_get L (dv_value v) = Some e" "numeric L vs es"
    using Cons.prems(1) by (cases ds) (auto simp: numeric_def)
  show ?case
    using Cons.IH [OF ds(3), of "if earlier_less_later L b v then v else b" "max d e"] ds Cons.prems(2)
    by (auto simp: earlier_less_later_def max_def)
qed (simp add: numeric_def)

lemma min_element_numeric:
  "numeric L vs ds \<Longrightarrow> al_get L (dv_value b) = Some d \<Longrightarrow>
   al_get L (dv_value (foldl (\<lambda>best v. if later_less_earlier L v best then v else best) b vs)) = Some (foldl min d ds)"
proof (induction vs arbitrary: ds b d)
  case (Cons v vs)
  obtain e es where ds: "ds = e # es" "al_get L (dv_value v) = Some e" "numeric L vs es"
    using Cons.prems(1) by (cases ds) (auto simp: numeric_def)
  show ?case
    using Cons.IH [OF ds(3), of "if later_less_earlier L v b then v else b" "min d e"] ds Cons.prems(2)
    by (auto simp: later_less_earlier_def min_def)
qed (simp add: numeric_def)

lemma foldl_max: "foldl max d ds = Max (set (d # ds))" for d :: "'d::linorder"
proof (induction ds arbitrary: d)
  case (Cons e es)
  then show ?case by (cases "es = []") (simp_all add: max.assoc)
qed simp

lemma foldl_min: "foldl min d ds = Min (set (d # ds))" for d :: "'d::linorder"
proof (induction ds arbitrary: d)
  case (Cons e es)
  then show ?case by (cases "es = []") (simp_all add: min.assoc)
qed simp

text \<open>Over a span of numbers a fresh Minimum aggregator gives the least of them and of the largest
  double, but a fresh Maximum aggregator gives the greatest of them and of the least positive normal double
  (numeric_limits::min), which for a span of zeros and negative numbers is none of its values.\<close>

theorem extremum_aggregators:
  assumes "numeric L vs ds" "vs \<noteq> []"
  shows "map_option (\<lambda>r. dv_value (fst r)) (run_aggregator L iv vs (Minimum (al_max L))) = Some (al_double L (min (al_max L) (Min (set ds))))
    \<and> map_option (\<lambda>r. dv_value (fst r)) (run_aggregator L iv vs (Maximum (al_min L))) = Some (al_double L (max (al_min L) (Max (set ds))))"
proof -
  obtain v vs' d ds' where c: "vs = v # vs'" "ds = d # ds'" "al_get L (dv_value v) = Some d" "numeric L vs' ds'"
    using assms by (cases vs; cases ds) (auto simp: numeric_def)
  show ?thesis
    using max_element_numeric [OF c(4,3)] min_element_numeric [OF c(4,3)]
    by (simp add: run_aggregator_def Let_def max_element_def min_element_def c(1,2) foldl_max foldl_min
        del: set_simps) 
qed

section \<open>Requests and values from outside\<close>

text \<open>Processing fails a check, instead of degrading, when a backward run has a value older than the
  origin of the aggregation, and when a forward run meets a negative interval.\<close>

theorem process_panics:
  assumes "raw \<noteq> []"
  shows "(af_interval filt \<noteq> 0 \<and> dv_source (hd raw) < af_start_time filt \<longrightarrow> process L filt False raw s = None)
    \<and> (af_interval filt < 0 \<and> af_start_time filt \<le> dv_source (hd raw) \<longrightarrow> process L filt True raw s = None)"
proof (intro conjI impI)
  obtain x xs where raw: "raw = x # xs" using assms by (cases raw) auto
  show "process L filt False raw s = None"
    if "af_interval filt \<noteq> 0 \<and> dv_source (hd raw) < af_start_time filt"
    using that by (subst process.simps)
      (simp add: raw Let_def get_aggregate_interval_def bucket_size_def reverse_upper_bound_def)
  show "process L filt True raw s = None"
    if h: "af_interval filt < 0 \<and> af_start_time filt \<le> dv_source (hd raw)"
  proof -
    let ?d = "dv_source x - af_start_time filt"
    have "?d smod af_interval filt \<ge> 0" using h by (simp add: raw smod_int_alt_def sgn_if)
    then have "snd (get_aggregate_interval (dv_source x) (af_start_time filt) (af_interval filt)) < dv_source x"
      using h by (simp add: raw get_aggregate_interval_def Let_def)
    then show ?thesis by (subst process.simps) (simp add: raw Let_def bucket_size_def upper_bound_def)
  qed
qed

section \<open>An instance\<close>

definition ex_ag_lib :: "(nat, rat option, unit, rat) ag_lib" where
  "ex_ag_lib = \<lparr>al_get = id, al_double = Some, al_uint64 = (\<lambda>n. Some (of_nat (unat n))),
     al_is_null = (\<lambda>v. v = \<lparr>dv_value = None, dv_qualifier = (), dv_source = 0, dv_server = 0\<rparr>), al_null = \<lparr>dv_value = None, dv_qualifier = (), dv_source = 0, dv_server = 0\<rparr>,
     al_no_qualifier = (), al_null_time = 0, al_max = 1000, al_min = 1 / 1000, al_total_id = 1, al_average_id = 2,
     al_count_id = 3, al_minimum_id = 4, al_maximum_id = 5, al_start_id = 6, al_end_id = 7\<rparr>"

abbreviation ex_value :: "int \<Rightarrow> rat \<Rightarrow> (rat option, unit) ag_value" where
  "ex_value t d \<equiv> \<lparr>dv_value = Some d, dv_qualifier = (), dv_source = t, dv_server = t\<rparr>"

abbreviation ex_count_filter :: "nat aggregate_filter" where
  "ex_count_filter \<equiv> \<lparr>af_start_time = 0, af_interval = 10, af_aggregate_type = 3\<rparr>"

theorem process_forward_correct_witness:
  "\<exists>s. process ex_ag_lib ex_count_filter True [ex_value 3 1, ex_value 4 2, ex_value 25 3] (new_aggregate_state ex_ag_lib) = Some s
    \<and> as_data_values (finish ex_ag_lib s) =
        [\<lparr>dv_value = Some 2, dv_qualifier = (), dv_source = 0, dv_server = 10\<rparr>,
         \<lparr>dv_value = Some 1, dv_qualifier = (), dv_source = 20, dv_server = 30\<rparr>]"
proof -
  let ?raw = "[ex_value 3 1, ex_value 4 2, ex_value 25 3]"
  have "filter (\<lambda>v. \<not> al_is_null ex_ag_lib v) (map (bucket_value ex_ag_lib (Count 0)) (buckets 0 10 ?raw)) =
        [\<lparr>dv_value = Some 2, dv_qualifier = (), dv_source = 0, dv_server = 10\<rparr>,
         \<lparr>dv_value = Some 1, dv_qualifier = (), dv_source = 20, dv_server = 30\<rparr>]" by code_simp
  then show ?thesis
    using process_forward_correct [of ex_count_filter ex_ag_lib "Count 0" ?raw]
    by (auto simp: ex_ag_lib_def get_aggregator_def in_order_def)
qed

theorem extremum_aggregators_witness:
  "map_option (\<lambda>r. dv_value (fst r)) (run_aggregator ex_ag_lib (0, 10) [ex_value 3 (-5), ex_value 4 (-2)] (Maximum (1 / 1000))) = Some (Some (1 / 1000))"
  using extremum_aggregators [of ex_ag_lib "[ex_value 3 (-5), ex_value 4 (-2)]" "[-5, -2]" "(0, 10)"]
  by (simp add: numeric_def ex_ag_lib_def)

theorem process_panics_witness:
  "process ex_ag_lib ex_count_filter False [ex_value (-3) 1] (new_aggregate_state ex_ag_lib) = None
    \<and> process ex_ag_lib (ex_count_filter\<lparr>af_interval := -10\<rparr>) True [ex_value 3 1] (new_aggregate_state ex_ag_lib) = None"
  using process_panics [of "[ex_value (-3) 1]" ex_count_filter ex_ag_lib "new_aggregate_state ex_ag_lib"]
    process_panics [of "[ex_value 3 1]" "ex_count_filter\<lparr>af_interval := -10\<rparr>" ex_ag_lib "new_aggregate_state ex_ag_lib"]
  by simp

text \<open>A value exactly at the end of an interval counts to the earlier interval when it comes in one piece
  with an earlier value, and to the later one when the history is read in two pieces.\<close>

theorem pieces_matter:
  "map_option (\<lambda>s. map (\<lambda>v. (dv_value v, dv_source v)) (as_data_values (finish ex_ag_lib s)))
      (process ex_ag_lib ex_count_filter True [ex_value 3 1, ex_value 10 2] (new_aggregate_state ex_ag_lib))
    = Some [(Some 2, 0)]
   \<and> map_option (\<lambda>s. map (\<lambda>v. (dv_value v, dv_source v)) (as_data_values (finish ex_ag_lib s)))
      (process ex_ag_lib ex_count_filter True [ex_value 3 1] (new_aggregate_state ex_ag_lib)
        \<bind> process ex_ag_lib ex_count_filter True [ex_value 10 2])
    = Some [(Some 1, 0), (Some 1, 10)]"
  by code_simp

end
