(* ===== verification/Timed_Data.thy ===== *)
theory Timed_Data
  imports Timed_Data_Buffer_Facts
begin

text \<open>
  A live item with its history: \<open>timed_data/base_timed_data.cpp\<close> (the current value and the buffer),
  \<open>timed_data_impl.cpp\<close> (the node it follows) and \<open>timed_data_fetcher.cpp\<close> (the history it reads to
  fill the observed gaps), over the buffer of Timed\_Data\_Buffer. A history read runs on the
  executor: it is an output, and its answer a later step. What observers are told is an output, and they
  do not call back. Of the SCADA core library, \<open>td_env\<close> has the interval helpers, the tests of qualifiers
  and data values and the events service. The status code of a data value is left out.
\<close>

record ('n, 'a, 'q, 't) td_env =
  te_lib :: "'t interval_lib"
  te_failed :: "'q \<Rightarrow> bool"
  te_set_failed :: "'q \<Rightarrow> 'q"
  te_is_null :: "('a, 'q, 't) data_value \<Rightarrow> bool"
  te_is_update :: "('a, 'q, 't) data_value \<Rightarrow> ('a, 'q, 't) data_value \<Rightarrow> bool"
  te_alerting :: "'n \<Rightarrow> bool"
  te_log_info :: bool   \<comment> \<open>records of level INFO are formatted\<close>

datatype property = PropertyItem | PropertyTitle | PropertyCurrent

record ('n, 'a, 'q, 't, 'o, 'c) timed_data =
  td_buffer :: "(('a, 'q, 't) data_value, 't, 'o) tbuffer"
  td_historical :: bool
  td_alerting :: bool
  td_current :: "('a, 'q, 't) data_value"
  td_change_time :: 't
  td_observers :: "'o list"
  td_node :: "'n option"
  td_subscribed :: bool
  td_has_fetcher :: bool
  td_fetch_node :: "'n option"
  td_querying :: bool
  td_query_range :: "'t interval"
  td_requests :: "('t interval \<times> 'c option) list"   \<comment> \<open>history reads without an answer\<close>

datatype ('n, 'a, 'q, 't, 'o, 'c) td_out =
  BufferEvent "(('a, 'q, 't) data_value, 'o) tb_event"
| HistoryRead 'n 't 't "'c option"
| ReleaseContinuation "'t interval" 'c
| PropertyChanged 'o "property list"
| NodeModified 'o
| TimedDataDeleted 'o
| EventsChanged 'o
| StartFetch 'n
| AddItemObserver 'n
| RemoveItemObserver 'n
| AcknowledgeItemEvents 'n

type_synonym ('n, 'a, 'q, 't, 'o, 'c) td_result =
  "(('n, 'a, 'q, 't, 'o, 'c) timed_data \<times> ('n, 'a, 'q, 't, 'o, 'c) td_out list) option"

section \<open>Fetching history\<close>

definition fetch_next_gap ::
    "('n, 'a, 'q, 't::{linorder,order_bot,order_top}) td_env \<Rightarrow> ('n, 'a, 'q, 't, 'o, 'c) timed_data \<Rightarrow>
     ('n, 'a, 'q, 't, 'o, 'c) td_result" where
  "fetch_next_gap env td =
     (if td_querying td then Some (td, [])
      else case td_fetch_node td of
        None \<Rightarrow> Some (td, [])
      | Some n \<Rightarrow> do {
          gap \<leftarrow> find_next_gap (te_lib env) (td_buffer td);
          (case gap of
             None \<Rightarrow> Some (td, [])
           | Some g \<Rightarrow> do {
               check (\<not> iv_empty (te_lib env) g);
               Some (td\<lparr>td_querying := True, td_query_range := g,
                        td_requests := td_requests td @ [(g, None)]\<rparr>,
                     [HistoryRead n (fst g) (snd g) None])
             })
        })"

text \<open>\<open>FetchMore\<close>; \<open>answered\<close> is the range of the request that gave the continuation point. The record of
  a canceled query formats the gap through \<open>*gap\<close>, also when there is none.\<close>

definition fetch_more ::
    "('n, 'a, 'q, 't::{linorder,order_bot,order_top}) td_env \<Rightarrow> 't interval \<Rightarrow> 'c \<Rightarrow>
     ('n, 'a, 'q, 't, 'o, 'c) timed_data \<Rightarrow> ('n, 'a, 'q, 't, 'o, 'c) td_result" where
  "fetch_more env answered continuation td = do {
     check (td_querying td);
     (case td_fetch_node td of
        None \<Rightarrow> Some (td\<lparr>td_querying := False\<rparr>, [ReleaseContinuation answered continuation])
      | Some n \<Rightarrow> do {
          gap \<leftarrow> find_next_gap (te_lib env) (td_buffer td);
          if gap = None \<or> \<not> iv_contains (te_lib env) (the gap) (td_query_range td)
          then do {
            check (te_log_info env \<longrightarrow> gap \<noteq> None);
            (td', outs) \<leftarrow> fetch_next_gap env (td\<lparr>td_querying := False\<rparr>);
            Some (td', ReleaseContinuation answered continuation # outs)
          }
          else let backward = (snd (td_query_range td), fst (td_query_range td))
               in Some (td\<lparr>td_requests := td_requests td @ [(backward, Some continuation)]\<rparr>,
                        [HistoryRead n (fst backward) (snd backward) (Some continuation)])
        })
   }"

text \<open>The values of an answer, made fit for the buffer.\<close>

definition sanitize_answer ::
    "('a, 'q, 't::{linorder,order_bot}) data_value list \<Rightarrow> ('a, 'q, 't) data_value list" where
  "sanitize_answer values =
     (let timed = filter (\<lambda>v. dv_server v \<noteq> bot) values
      in if \<not> is_time_sorted dv_source timed then unique_by dv_source (sort_key dv_source timed) else timed)"

definition clamp :: "'t::linorder \<Rightarrow> 't \<Rightarrow> 't \<Rightarrow> 't" where
  "clamp v lo hi = (if v < lo then lo else if hi < v then hi else v)"

text \<open>How far an answer to a read of \<open>rng\<close> makes it ready; \<open>bot\<close> when it tells nothing.\<close>

definition ready_until ::
    "'t::{linorder,order_bot} interval \<Rightarrow> ('a, 'q, 't) data_value list \<Rightarrow> 'c option \<Rightarrow> 't" where
  "ready_until rng vals continuation =
     (if continuation = None then snd rng
      else if vals \<noteq> [] then clamp (dv_source (last vals)) (fst rng) (snd rng)
      else bot)"

definition on_history_read_raw_complete ::
    "('n, 'a, 'q, 't::{linorder,order_bot,order_top}) td_env \<Rightarrow> 't interval \<Rightarrow>
     ('a, 'q, 't) data_value list \<Rightarrow> 'c option \<Rightarrow>
     ('n, 'a, 'q, 't, 'o, 'c) timed_data \<Rightarrow> ('n, 'a, 'q, 't, 'o, 'c) td_result" where
  "on_history_read_raw_complete env answered values0 continuation td = do {
     check (td_querying td);
     let vals = sanitize_answer values0;
     (b, es) \<leftarrow> replace_range dv_source vals (td_buffer td);
     let ready_to = ready_until (td_query_range td) vals continuation;
     let (b', es') = (if ready_to \<noteq> bot
                      then add_ready_range (te_lib env) (fst (td_query_range td), ready_to) b else (b, []));
     let td' = td\<lparr>td_buffer := b', td_query_range := (if ready_to \<noteq> bot then (ready_to, snd (td_query_range td))
                                                    else td_query_range td)\<rparr>;
     (td'', outs) \<leftarrow> (case continuation of
         None \<Rightarrow> fetch_next_gap env (td'\<lparr>td_querying := False\<rparr>)
       | Some c \<Rightarrow> fetch_more env answered c td');
     Some (td'', map BufferEvent (es @ es') @ outs)
   }"

section \<open>\<open>BaseTimedData\<close>\<close>

definition td_get_value_at ::
    "('n, 'a, 'q, 't::{linorder,order_bot}, 'o, 'c) timed_data \<Rightarrow> 't \<Rightarrow> ('a, 'q, 't) data_value option" where
  "td_get_value_at td time =
     (if dv_source (td_current td) \<noteq> bot \<and> dv_source (td_current td) \<le> time then Some (td_current td)
      else map_option (\<lambda>i. tb_values (td_buffer td) ! i) (get_value_at dv_source (tb_values (td_buffer td)) time))"

definition td_insert ::
    "('a, 'q, 't::{linorder,order_bot}) data_value \<Rightarrow> ('n, 'a, 'q, 't, 'o, 'c) timed_data \<Rightarrow>
     ('n, 'a, 'q, 't, 'o, 'c) timed_data \<times> ('n, 'a, 'q, 't, 'o, 'c) td_out list" where
  "td_insert v td =
     (case insert_or_update dv_source dv_lesser v (td_buffer td) of
        (b, _, es) \<Rightarrow> (td\<lparr>td_buffer := b\<rparr>, map BufferEvent es))"

definition update_current ::
    "('a, 'q, 't::{linorder,order_bot}) data_value \<Rightarrow> ('n, 'a, 'q, 't, 'o, 'c) timed_data \<Rightarrow>
     ('n, 'a, 'q, 't, 'o, 'c) timed_data \<times> bool \<times> ('n, 'a, 'q, 't, 'o, 'c) td_out list" where
  "update_current v td =
     (if v = td_current td then (td, False, [])
      else let is_change = dv_value (td_current td) \<noteq> dv_value v \<or> dv_qualifier (td_current td) \<noteq> dv_qualifier v;
               (td1, outs) = (if td_historical td \<and> is_change \<and> dv_source v \<noteq> bot then td_insert v td else (td, []));
               td2 = (if is_change then td1\<lparr>td_change_time := dv_source v\<rparr> else td1)
           in (td2\<lparr>td_current := v\<rparr>, True, outs))"

definition td_add_observer :: "'o \<Rightarrow> ('n, 'a, 'q, 't, 'o, 'c) timed_data \<Rightarrow> ('n, 'a, 'q, 't, 'o, 'c) timed_data" where
  "td_add_observer ob td =
     (if ob \<in> set (td_observers td) then td else td\<lparr>td_observers := td_observers td @ [ob]\<rparr>)"

definition td_remove_observer :: "'o \<Rightarrow> ('n, 'a, 'q, 't, 'o, 'c) timed_data \<Rightarrow> ('n, 'a, 'q, 't, 'o, 'c) timed_data" where
  "td_remove_observer ob td = td\<lparr>td_observers := removeAll ob (td_observers td)\<rparr>"

definition notify_property_changed ::
    "property list \<Rightarrow> ('n, 'a, 'q, 't, 'o, 'c) timed_data \<Rightarrow> ('n, 'a, 'q, 't, 'o, 'c) td_out list" where
  "notify_property_changed properties td = map (\<lambda>ob. PropertyChanged ob properties) (td_observers td)"

text \<open>\<open>Delete\<close> and \<open>Failed\<close>.\<close>

definition td_delete ::
    "('n, 'a, 'q, 't) td_env \<Rightarrow> ('n, 'a, 'q, 't, 'o, 'c) timed_data \<Rightarrow>
     ('n, 'a, 'q, 't, 'o, 'c) timed_data \<times> ('n, 'a, 'q, 't, 'o, 'c) td_out list" where
  "td_delete env td =
     (td\<lparr>td_current := (td_current td)\<lparr>dv_qualifier := te_set_failed env (dv_qualifier (td_current td))\<rparr>\<rparr>,
      map TimedDataDeleted (td_observers td))"

definition td_failed :: "('n, 'a, 'q, 't, 'o, 'c) timed_data \<Rightarrow> ('n, 'a, 'q, 't, 'o, 'c) td_out list" where
  "td_failed td = notify_property_changed [PropertyItem, PropertyTitle, PropertyCurrent] td"

text \<open>The handler the buffer calls when the observed ranges change; \<open>OnObservedRangesChanged\<close> of
  \<open>TimedDataImpl\<close> asks the fetcher for the next gap.\<close>

definition td_update_observed_ranges ::
    "('n, 'a, 'q, 't::{linorder,order_bot,order_top}) td_env \<Rightarrow> bool \<Rightarrow>
     ('n, 'a, 'q, 't, 'o, 'c) timed_data \<Rightarrow> ('n, 'a, 'q, 't, 'o, 'c) td_result" where
  "td_update_observed_ranges env has_observers td = do {
     let td1 = (if has_observers then td\<lparr>td_historical := True\<rparr> else td);
     let (td2, outs) = (if td_historical td1 \<and> \<not> te_is_null env (td_current td1)
                        then td_insert (td_current td1) td1 else (td1, []));
     (td3, outs') \<leftarrow> (if td_has_fetcher td2 then fetch_next_gap env td2 else Some (td2, []));
     Some (td3, outs @ outs')
   }"

fun run_handler ::
    "('n, 'a, 'q, 't::{linorder,order_bot,order_top}) td_env \<Rightarrow> (('a, 'q, 't) data_value, 'o) tb_event list \<Rightarrow>
     ('n, 'a, 'q, 't, 'o, 'c) timed_data \<Rightarrow> ('n, 'a, 'q, 't, 'o, 'c) td_result" where
  "run_handler env [] td = Some (td, [])"
| "run_handler env (e # es) td = do {
     (td', outs) \<leftarrow> (case e of RangesUpdated h \<Rightarrow> td_update_observed_ranges env h td
                   | _ \<Rightarrow> Some (td, [BufferEvent e]));
     (td'', outs') \<leftarrow> run_handler env es td';
     Some (td'', outs @ outs')
   }"

definition add_view_observer ::
    "('n, 'a, 'q, 't::{linorder,order_bot,order_top}) td_env \<Rightarrow> 'o::linorder \<Rightarrow> 't interval \<Rightarrow>
     ('n, 'a, 'q, 't, 'o, 'c) timed_data \<Rightarrow> ('n, 'a, 'q, 't, 'o, 'c) td_result" where
  "add_view_observer env ob rng td = do {
     (b, es) \<leftarrow> add_observer (te_lib env) dv_source ob rng (td_buffer td);
     run_handler env es (td\<lparr>td_buffer := b\<rparr>)
   }"

definition remove_view_observer ::
    "('n, 'a, 'q, 't::{linorder,order_bot,order_top}) td_env \<Rightarrow> 'o::linorder \<Rightarrow>
     ('n, 'a, 'q, 't, 'o, 'c) timed_data \<Rightarrow> ('n, 'a, 'q, 't, 'o, 'c) td_result" where
  "remove_view_observer env ob td = do {
     (b, es) \<leftarrow> remove_observer (te_lib env) dv_source ob (td_buffer td);
     run_handler env es (td\<lparr>td_buffer := b\<rparr>)
   }"

section \<open>\<open>TimedDataImpl\<close>\<close>

definition new_timed_data :: "('a, 'q, 't) data_value \<Rightarrow> bool \<Rightarrow> ('n, 'a, 'q, 't::order_bot, 'o, 'c) timed_data" where
  "new_timed_data null has_history =
     \<lparr>td_buffer = empty_buffer\<lparr>tb_has_handler := True\<rparr>, td_historical = False, td_alerting = False,
      td_current = null, td_change_time = bot, td_observers = [], td_node = None, td_subscribed = False,
      td_has_fetcher = has_history, td_fetch_node = None, td_querying = False, td_query_range = (bot, bot),
      td_requests = []\<rparr>"

definition set_node ::
    "('n, 'a, 'q, 't) td_env \<Rightarrow> 'n option \<Rightarrow> ('n, 'a, 'q, 't, 'o, 'c) timed_data \<Rightarrow>
     ('n, 'a, 'q, 't, 'o, 'c) timed_data \<times> ('n, 'a, 'q, 't, 'o, 'c) td_out list" where
  "set_node env n td =
     (if td_node td = n then (td, [])
      else let outs = (case td_node td of Some old \<Rightarrow> [RemoveItemObserver old] | None \<Rightarrow> []);
               (td1, outs') = (case n of
                  Some m \<Rightarrow> (td\<lparr>td_node := n, td_alerting := te_alerting env m\<rparr>, [StartFetch m, AddItemObserver m])
                | None \<Rightarrow> (td\<lparr>td_node := n\<rparr>, []));
               td2 = (if td_has_fetcher td1 then td1\<lparr>td_fetch_node := n\<rparr> else td1)
           in (td2, outs @ outs'))"

definition td_init ::
    "('n, 'a, 'q, 't) td_env \<Rightarrow> 'n \<Rightarrow> ('n, 'a, 'q, 't, 'o, 'c) timed_data \<Rightarrow>
     ('n, 'a, 'q, 't, 'o, 'c) timed_data \<times> ('n, 'a, 'q, 't, 'o, 'c) td_out list" where
  "td_init env n td = (case set_node env (Some n) td of (td', outs) \<Rightarrow> (td'\<lparr>td_subscribed := True\<rparr>, outs))"

definition on_channel_data ::
    "('n, 'a, 'q, 't::{linorder,order_bot}) td_env \<Rightarrow> ('a, 'q, 't) data_value \<Rightarrow>
     ('n, 'a, 'q, 't, 'o, 'c) timed_data \<Rightarrow> ('n, 'a, 'q, 't, 'o, 'c) timed_data \<times> ('n, 'a, 'q, 't, 'o, 'c) td_out list" where
  "on_channel_data env v td =
     (if te_failed env (dv_qualifier v) then td_delete env (td\<lparr>td_subscribed := False\<rparr>)
      else if te_is_update env (td_current td) v
      then (case update_current v td of
              (td', changed, outs) \<Rightarrow>
                (td', outs @ (if changed then notify_property_changed [PropertyCurrent] td' else [])))
      else td_insert v td)"

definition on_model_changed ::
    "('n, 'a, 'q, 't) td_env \<Rightarrow> bool \<Rightarrow> ('n, 'a, 'q, 't, 'o, 'c) timed_data \<Rightarrow>
     ('n, 'a, 'q, 't, 'o, 'c) timed_data \<times> ('n, 'a, 'q, 't, 'o, 'c) td_out list" where
  "on_model_changed env deleted td =
     (if deleted
      then (case set_node env None td of (td1, outs) \<Rightarrow>
            case td_delete env td1 of (td2, outs') \<Rightarrow> (td2, outs @ outs'))
      else (td, notify_property_changed [PropertyTitle, PropertyCurrent] td @ map NodeModified (td_observers td)))"

definition on_node_semantic_changed ::
    "'n \<Rightarrow> ('n, 'a, 'q, 't, 'o, 'c) timed_data \<Rightarrow> ('n, 'a, 'q, 't, 'o, 'c) td_result" where
  "on_node_semantic_changed n td = do {
     check (td_node td = Some n);
     Some (td, notify_property_changed [PropertyTitle, PropertyCurrent] td @ map NodeModified (td_observers td))
   }"

definition on_item_events_changed ::
    "'n \<Rightarrow> bool \<Rightarrow> ('n, 'a, 'q, 't, 'o, 'c) timed_data \<Rightarrow> ('n, 'a, 'q, 't, 'o, 'c) td_result" where
  "on_item_events_changed n has_events td = do {
     check (td_node td = Some n);
     Some (td\<lparr>td_alerting := has_events\<rparr>, map EventsChanged (td_observers td))
   }"

definition td_acknowledge ::
    "('n, 'a, 'q, 't, 'o, 'c) timed_data \<Rightarrow> ('n, 'a, 'q, 't, 'o, 'c) td_out list" where
  "td_acknowledge td = (case td_node td of Some n \<Rightarrow> [AcknowledgeItemEvents n] | None \<Rightarrow> [])"

section \<open>Runs\<close>

datatype ('n, 'a, 'q, 't, 'o, 'c) td_event =
  AddObserver 'o
| RemoveObserver 'o
| AddView 'o "'t interval"
| RemoveView 'o
| ChannelData "('a, 'q, 't) data_value"
| ModelChanged bool
| SemanticChanged
| ItemEventsChanged bool
| Acknowledge
| HistoryAnswer "('a, 'q, 't) data_value list" "'c option"

text \<open>An event about the node comes only while there is one, an answer only to a read that waits for it; the
  status of a history result is not looked at.\<close>

definition td_step ::
    "('n, 'a, 'q, 't::{linorder,order_bot,order_top}) td_env \<Rightarrow> ('n, 'a, 'q, 't, 'o::linorder, 'c) td_event \<Rightarrow>
     ('n, 'a, 'q, 't, 'o, 'c) timed_data \<Rightarrow> ('n, 'a, 'q, 't, 'o, 'c) td_result" where
  "td_step env e td =
     (case e of
        AddObserver ob \<Rightarrow> Some (td_add_observer ob td, [])
      | RemoveObserver ob \<Rightarrow> Some (td_remove_observer ob td, [])
      | AddView ob rng \<Rightarrow> add_view_observer env ob rng td
      | RemoveView ob \<Rightarrow> remove_view_observer env ob td
      | ChannelData v \<Rightarrow> if td_subscribed td then Some (on_channel_data env v td) else Some (td, [])
      | ModelChanged deleted \<Rightarrow> if td_node td \<noteq> None then Some (on_model_changed env deleted td) else Some (td, [])
      | SemanticChanged \<Rightarrow> (case td_node td of Some n \<Rightarrow> on_node_semantic_changed n td | None \<Rightarrow> Some (td, []))
      | ItemEventsChanged h \<Rightarrow> (case td_node td of Some n \<Rightarrow> on_item_events_changed n h td | None \<Rightarrow> Some (td, []))
      | Acknowledge \<Rightarrow> Some (td, td_acknowledge td)
      | HistoryAnswer vals continuation \<Rightarrow>
          (case td_requests td of
             [] \<Rightarrow> Some (td, [])
           | (rng, _) # rest \<Rightarrow>
               on_history_read_raw_complete env rng vals continuation (td\<lparr>td_requests := rest\<rparr>)))"

fun td_run ::
    "('n, 'a, 'q, 't::{linorder,order_bot,order_top}) td_env \<Rightarrow> ('n, 'a, 'q, 't, 'o::linorder, 'c) td_event list \<Rightarrow>
     ('n, 'a, 'q, 't, 'o, 'c) timed_data \<Rightarrow> ('n, 'a, 'q, 't, 'o, 'c) td_result" where
  "td_run env [] td = Some (td, [])"
| "td_run env (e # es) td = do {
     (td', outs) \<leftarrow> td_step env e td;
     (td'', outs') \<leftarrow> td_run env es td';
     Some (td'', outs @ outs')
   }"

end
