(* ===== verification/Timed_Data_Runs.thy ===== *)
theory Timed_Data_Runs
  imports Timed_Data
begin

text \<open>
  What a live item keeps of its buffer and of its history reads, whatever its observers, the node, the
  channel and the history service do; and what an answer makes of the range that was asked for.
\<close>

section \<open>The interval helpers\<close>

text \<open>What the item relies on of \<open>base/interval_util.h\<close>.\<close>

definition interval_ok :: "('t::{linorder,order_bot,order_top}) interval_lib \<Rightarrow> bool" where
  "interval_ok L \<longleftrightarrow>
     (\<forall>r. iv_valid L r \<longrightarrow> \<not> iv_empty L r \<longrightarrow> fst r < snd r)
     \<and> (\<forall>r. fst r < snd r \<longrightarrow> \<not> iv_empty L r)
     \<and> (\<forall>rs. separated rs \<longrightarrow> iv_all_valid L rs)
     \<and> (\<forall>rs r. separated rs \<longrightarrow> fst r \<le> snd r \<longrightarrow>
          separated (iv_union L rs r)
          \<and> (\<forall>x. covers (iv_union L rs r) x \<longleftrightarrow> covers rs x \<or> fst r \<le> x \<and> x < snd r))"

lemma interval_okD:
  assumes "interval_ok L"
  shows "iv_valid L r \<Longrightarrow> \<not> iv_empty L r \<Longrightarrow> fst r < snd r"
    and "fst r < snd r \<Longrightarrow> \<not> iv_empty L r"
    and "separated rs \<Longrightarrow> iv_all_valid L rs"
    and "separated rs \<Longrightarrow> fst r \<le> snd r \<Longrightarrow> separated (iv_union L rs r)"
    and "separated rs \<Longrightarrow> fst r \<le> snd r \<Longrightarrow>
      covers (iv_union L rs r) x \<longleftrightarrow> covers rs x \<or> fst r \<le> x \<and> x < snd r"
  using assms unfolding interval_ok_def by blast+

lemma clamp_ranges_within:
  "j \<in> set (clamp_ranges rs lo hi) \<Longrightarrow> fst j < snd j \<and> (\<exists>r \<in> set rs. fst r \<le> fst j \<and> snd j \<le> snd r)"
proof -
  assume "j \<in> set (clamp_ranges rs lo hi)"
  then obtain r where r: "r \<in> set rs"
    "j = (max (fst r) lo, if hi = bot then snd r else min (snd r) hi)" "fst j < snd j"
    by (auto simp: clamp_ranges_def Let_def split: if_splits)
  moreover have "fst r \<le> fst j" "snd j \<le> snd r" using r(2) by auto
  ultimately show ?thesis by blast
qed

lemma separated_clamp: "separated rs \<Longrightarrow> separated (clamp_ranges rs lo hi)"
proof (induction rs)
  case Nil
  then show ?case by (simp add: clamp_ranges_def)
next
  case (Cons r rs)
  define a where "a = max (fst r) lo"
  define b where "b = (if hi = bot then snd r else min (snd r) hi)"
  have eq: "clamp_ranges (r # rs) lo hi = (if a < b then [(a, b)] else []) @ clamp_ranges rs lo hi"
    by (simp add: clamp_ranges_def a_def b_def Let_def)
  have "b \<le> snd r" by (simp add: b_def)
  then have "b < fst j" if "j \<in> set (clamp_ranges rs lo hi)" for j
    using clamp_ranges_within [OF that] Cons.prems unfolding separated_Cons
    by (meson le_less_trans less_le_trans)
  with Cons show ?case by (simp add: eq separated_Cons)
qed

section \<open>The buffer\<close>

definition history_ok :: "('t::{linorder,order_bot,order_top}) interval_lib \<Rightarrow> ('v \<Rightarrow> 't) \<Rightarrow>
    ('v, 't, 'o::linorder) tbuffer \<Rightarrow> bool" where
  "history_ok L ts b \<longleftrightarrow> buffer_ok ts b \<and> separated (tb_observed b) \<and> separated (tb_ready b)
     \<and> tb_batch_depth b = 0 \<and> 0 < max_samples (tb_retention b) \<and> tb_has_handler b
     \<and> (\<forall>(ob, rng) \<in> set (tb_observer_ranges b). fst rng \<noteq> top \<longrightarrow> \<not> iv_empty L rng \<and> fst rng < snd rng)"

lemma history_ok_samples: "history_ok L ts b \<Longrightarrow> samples_ok ts (tb_values b)"
  by (simp add: history_ok_def buffer_ok_def)

lemma separated_hull:
  assumes "separated rs"
  shows "rs = [] \<or> fst (hd rs) \<le> snd (last rs)"
proof (cases rs)
  case (Cons r rs')
  then have "fst r < snd r" "\<forall>j \<in> set rs'. snd r < fst j \<and> fst j < snd j"
    using assms by (auto simp: separated_Cons intro: separated_proper)
  with Cons show ?thesis by (auto simp: less_imp_le) (meson last_in_set less_imp_le less_trans)
qed simp

lemma separated_ready_trim:
  assumes "trim_to_observed_ranges ts b = Some b'" "separated (tb_ready b)"
  shows "separated (tb_ready b')"
  using assms
  by (auto simp: trim_to_observed_ranges_def trim_window_def trim_count_def Let_def bind_eq_Some_conv
      separated_clamp split: if_splits)

lemma trim_total:
  assumes "history_ok L ts b0" "b = b0\<lparr>tb_values := vs, tb_observed := obs\<rparr>" "samples_ok ts vs" "separated obs"
  shows "\<exists>b'. trim_to_observed_ranges ts b = Some b' \<and> history_ok L ts b' \<and> tb_observed b' = obs"
proof -
  have s: "samples_ok ts (tb_values b)" and p: "0 < max_samples (tb_retention b)"
    and h: "tb_observed b = [] \<or> snd (last (tb_observed b)) = bot
        \<or> fst (hd (tb_observed b)) \<le> snd (last (tb_observed b))"
    using assms separated_hull [of obs] by (auto simp: history_ok_def)
  obtain b' where b': "trim_to_observed_ranges ts b = Some b'"
    using trim_to_observed_ranges_eq [OF s h p] by metis
  have t: "trimmed ts b b'" by (rule trim_trimmed [OF b'])
  have "buffer_ok ts b" using assms by (simp add: history_ok_def buffer_ok_def)
  then have "buffer_ok ts b'" by (rule trimmed_ok [OF t])
  moreover have "separated (tb_ready b')"
    using separated_ready_trim [OF b'] assms by (simp add: history_ok_def)
  ultimately have "history_ok L ts b'"
    using assms trimmed_fields [OF t] by (simp add: history_ok_def)
  then show ?thesis using b' trimmed_fields [OF t] assms(2) by simp
qed

lemma replace_range_total:
  assumes "history_ok L ts b"
  shows "\<exists>b' es. replace_range ts vals b = Some (b', es) \<and> history_ok L ts b' \<and> tb_observed b' = tb_observed b"
proof (cases "sanitize ts vals = []")
  case True
  with assms show ?thesis by (simp add: replace_range_def)
next
  case False
  have s: "samples_ok ts (tb_values b)" by (rule history_ok_samples [OF assms])
  let ?vs = "replaced_samples ts (sanitize ts vals) (tb_values b)"
  obtain c where c: "trim_to_observed_ranges ts (b\<lparr>tb_values := ?vs\<rparr>) = Some c"
    and ok: "history_ok L ts c" and o: "tb_observed c = tb_observed b"
    using trim_total [OF assms, where b = "b\<lparr>tb_values := ?vs\<rparr>" and vs = ?vs and obs = "tb_observed b"]
      samples_ok_replaced [OF s samples_ok_sanitize False] assms
    by (auto simp: history_ok_def)
  have "history_ok L ts (fst (mark_dirty ts r c))" for r
    using ok by (auto simp: history_ok_def intro: mark_dirty_ok)
  then show ?thesis
    using o unfolding replace_range_eq [OF s False] c by (auto simp: mark_dirty_def split: if_splits)
qed

lemma union_observed_total:
  assumes L: "interval_ok L"
    and "\<forall>(ob, rng) \<in> set m. fst rng \<noteq> top \<longrightarrow> \<not> iv_empty L rng \<and> fst rng < snd rng" "separated acc"
  shows "\<exists>obs. union_observed L m acc = Some obs \<and> separated obs"
  using assms(2,3)
proof (induction m arbitrary: acc)
  case (Cons e m)
  obtain ob rng where e: "e = (ob, rng)" by (cases e)
  have "separated (iv_union L acc rng)" if "fst rng \<noteq> top"
    using that Cons.prems interval_okD(4) [OF L, of acc rng] by (auto simp: e less_imp_le)
  with Cons show ?case by (cases "fst rng = top") (auto simp: e)
qed simp

lemma update_observed_total:
  assumes L: "interval_ok L" and ok: "history_ok L ts b"
  shows "\<exists>b' h. update_observed_ranges L ts b = Some (b', [RangesUpdated h]) \<and> history_ok L ts b'"
proof -
  obtain obs where o: "union_observed L (tb_observer_ranges b) [] = Some obs" "separated obs"
    using union_observed_total [OF L, of "tb_observer_ranges b" "[]"] ok by (auto simp: history_ok_def)
  obtain b' where b': "trim_to_observed_ranges ts (b\<lparr>tb_observed := obs\<rparr>) = Some b'" "history_ok L ts b'"
    using trim_total [OF ok, where b = "b\<lparr>tb_observed := obs\<rparr>" and vs = "tb_values b" and obs = obs]
      history_ok_samples [OF ok] o(2) by auto
  have "tb_has_handler b'" using b'(2) by (simp add: history_ok_def)
  with o(1) b' show ?thesis by (simp add: update_observed_ranges_def)
qed

lemma smap_set_put: "set (smap_put m k v) \<subseteq> insert (k, v) (set m)"
  by (induction m k v rule: smap_put.induct) (auto split: if_splits)

lemma add_observer_total:
  assumes L: "interval_ok L" and ok: "history_ok L ts b"
    and rng: "snd rng \<noteq> bot" "iv_valid L rng" "fst rng = top \<or> \<not> iv_empty L rng"
  shows "\<exists>b' h. add_observer L ts ob rng b = Some (b', [RangesUpdated h]) \<and> history_ok L ts b'"
proof -
  let ?b1 = "if ob \<in> set (tb_observers b) then b else b\<lparr>tb_observers := tb_observers b @ [ob]\<rparr>"
  let ?b2 = "?b1\<lparr>tb_observer_ranges := smap_put (tb_observer_ranges ?b1) ob rng\<rparr>"
  have m: "smap_ok (tb_observer_ranges b)" using ok by (simp add: history_ok_def buffer_ok_def)
  have "set (smap_put (tb_observer_ranges b) ob rng) \<subseteq> {(ob, rng)} \<union> set (tb_observer_ranges b)"
    using smap_set_put [of "tb_observer_ranges b" ob rng] by simp
  moreover have "fst rng \<noteq> top \<Longrightarrow> \<not> iv_empty L rng \<and> fst rng < snd rng"
    using rng interval_okD(1) [OF L] by blast
  ultimately have "\<forall>(k, r) \<in> set (tb_observer_ranges ?b2). fst r \<noteq> top \<longrightarrow> \<not> iv_empty L r \<and> fst r < snd r"
    using ok unfolding history_ok_def by (auto split: if_splits)
  then have "history_ok L ts ?b2"
    using ok smap_ok_put [OF m, of ob rng] by (simp add: history_ok_def buffer_ok_def)
  from update_observed_total [OF L this] show ?thesis using rng by (simp add: add_observer_def Let_def)
qed

lemma remove_observer_total:
  assumes L: "interval_ok L" and ok: "history_ok L ts b"
  shows "\<exists>b' h. remove_observer L ts ob b = Some (b', [RangesUpdated h]) \<and> history_ok L ts b'"
proof -
  have m: "smap_ok (tb_observer_ranges b)" using ok by (simp add: history_ok_def buffer_ok_def)
  have "history_ok L ts (b\<lparr>tb_observers := removeAll ob (tb_observers b),
      tb_observer_ranges := smap_erase (tb_observer_ranges b) ob\<rparr>)"
    using ok smap_ok_erase [OF m] smap_set_erase [of "tb_observer_ranges b" ob]
    unfolding history_ok_def buffer_ok_def by (auto simp: distinct_removeAll)
  from update_observed_total [OF L this] show ?thesis by (simp add: remove_observer_def)
qed

lemma insert_history_ok:
  "history_ok L ts b \<Longrightarrow> history_ok L ts (fst (insert_or_update ts lesser v b))"
  using insert_or_update_fields [of ts b lesser v] insert_or_update_ok [of ts b lesser v]
  by (auto simp: history_ok_def buffer_ok_def insert_or_update_eq mark_dirty_def)

lemma insert_gaps:
  "history_ok L ts b \<Longrightarrow> find_next_gap L (fst (insert_or_update ts lesser v b)) = find_next_gap L b"
  using insert_or_update_fields [of ts b lesser v] by (simp add: find_next_gap_def history_ok_samples)

lemma find_next_gap_total:
  assumes L: "interval_ok L" and ok: "history_ok L ts b"
  obtains "find_next_gap L b = Some None"
  | a z where "find_next_gap L b = Some (Some (a, z))" "a < z"
proof -
  have s: "separated (tb_observed b)" "separated (tb_ready b)" using ok by (simp_all add: history_ok_def)
  then have eq: "find_next_gap L b = Some (find_first_gap_loop (tb_observed b) (tb_ready b))"
    using interval_okD(3) [OF L] by (simp add: find_next_gap_def find_first_gap_def)
  show thesis
  proof (cases "find_first_gap_loop (tb_observed b) (tb_ready b)")
    case (Some g)
    then show thesis using that(2) [of "fst g" "snd g"] eq find_first_gap_loop_Some(1) [OF s, of "fst g" "snd g"]
      by simp
  qed (use eq that(1) in simp)
qed

lemma add_ready_history_ok:
  assumes "interval_ok L" "history_ok L ts b" "fst r \<le> snd r"
  shows "history_ok L ts (fst (add_ready_range L r b))"
  using assms interval_okD(4) [of L "tb_ready b" r]
  by (auto simp: add_ready_range_def history_ok_def buffer_ok_def)

section \<open>The item\<close>

text \<open>\<open>asking\<close> ties the querying flag to the reads without an answer; \<open>idle_done\<close> says that an item that
  does not query has no gap left.\<close>

definition asking :: "('n, 'a, 'q, 't::linorder, 'o, 'c) timed_data \<Rightarrow> bool" where
  "asking td \<longleftrightarrow> (if td_querying td then length (td_requests td) = 1 \<and> fst (td_query_range td) \<le> snd (td_query_range td)
                 else td_requests td = [])"

definition idle_done :: "('n, 'a, 'q, 't::{linorder,order_bot,order_top}) td_env \<Rightarrow>
    ('n, 'a, 'q, 't, 'o, 'c) timed_data \<Rightarrow> bool" where
  "idle_done env td \<longleftrightarrow> \<not> td_querying td \<longrightarrow> td_fetch_node td \<noteq> None \<longrightarrow>
     find_next_gap (te_lib env) (td_buffer td) = Some None"

definition td_ok :: "('n, 'a, 'q, 't::{linorder,order_bot,order_top}) td_env \<Rightarrow>
    ('n, 'a, 'q, 't, 'o::linorder, 'c) timed_data \<Rightarrow> bool" where
  "td_ok env td \<longleftrightarrow> history_ok (te_lib env) dv_source (td_buffer td) \<and> asking td
     \<and> (td_fetch_node td \<noteq> None \<longrightarrow> td_has_fetcher td)"

lemma fetch_next_gap_ok:
  assumes "interval_ok (te_lib env)" "td_ok env td"
  shows "\<exists>td' outs. fetch_next_gap env td = Some (td', outs) \<and> td_ok env td' \<and> idle_done env td'
    \<and> td_buffer td' = td_buffer td"
proof (cases "td_querying td \<or> td_fetch_node td = None")
  case True
  with assms show ?thesis by (auto simp: fetch_next_gap_def idle_done_def)
next
  case False
  have h: "history_ok (te_lib env) dv_source (td_buffer td)" using assms(2) by (simp add: td_ok_def)
  from False obtain n where n: "\<not> td_querying td" "td_fetch_node td = Some n" by auto
  show ?thesis
  proof (rule find_next_gap_total [OF assms(1) h])
    assume "find_next_gap (te_lib env) (td_buffer td) = Some None"
    with n assms(2) show ?thesis by (simp add: fetch_next_gap_def idle_done_def)
  next
    fix a z assume g: "find_next_gap (te_lib env) (td_buffer td) = Some (Some (a, z))" "a < z"
    have "\<not> iv_empty (te_lib env) (a, z)" using interval_okD(2) [OF assms(1)] g(2) by simp
    with n g assms(2) show ?thesis
      by (auto simp: fetch_next_gap_def idle_done_def td_ok_def asking_def)
  qed
qed

lemma clamp_between: "lo \<le> hi \<Longrightarrow> lo \<le> clamp v lo hi \<and> clamp v lo hi \<le> hi"
  by (auto simp: clamp_def)

lemma fetch_more_ok:
  assumes L: "interval_ok (te_lib env)" and log: "\<not> te_log_info env"
    and h: "history_ok (te_lib env) dv_source (td_buffer td)" and q: "td_querying td" "td_requests td = []"
      "fst (td_query_range td) \<le> snd (td_query_range td)"
    and f: "td_fetch_node td \<noteq> None \<longrightarrow> td_has_fetcher td"
  shows "\<exists>td' outs. fetch_more env answered c td = Some (td', outs) \<and> td_ok env td' \<and> idle_done env td'"
proof (cases "td_fetch_node td")
  case None
  with q h f show ?thesis by (auto simp: fetch_more_def td_ok_def asking_def idle_done_def)
next
  case (Some n)
  obtain gap where gap: "find_next_gap (te_lib env) (td_buffer td) = Some gap"
    using find_next_gap_total [OF L h] by metis
  have stop: "td_ok env (td\<lparr>td_querying := False\<rparr>)" using h f q by (simp add: td_ok_def asking_def)
  obtain td' outs where r: "fetch_next_gap env (td\<lparr>td_querying := False\<rparr>) = Some (td', outs)"
    "td_ok env td'" "idle_done env td'" using fetch_next_gap_ok [OF L stop] by blast
  show ?thesis
  proof (cases "gap = None \<or> \<not> iv_contains (te_lib env) (the gap) (td_query_range td)")
    case True
    with Some gap q log r show ?thesis by (simp add: fetch_more_def)
  next
    case False
    then obtain g where "gap = Some g" by auto
    with False Some gap q h f show ?thesis by (simp add: fetch_more_def td_ok_def asking_def idle_done_def)
  qed
qed

lemma on_history_read_raw_complete_ok:
  assumes L: "interval_ok (te_lib env)" and log: "\<not> te_log_info env"
    and ok: "td_ok env td" and r: "td_requests td = r # rest"
  shows "\<exists>td' outs. on_history_read_raw_complete env answered vals c (td\<lparr>td_requests := rest\<rparr>) = Some (td', outs)
    \<and> td_ok env td' \<and> idle_done env td'"
proof -
  let ?L = "te_lib env" and ?q = "td_query_range td"
  have q: "td_querying td" "rest = []" "fst ?q \<le> snd ?q" and f: "td_fetch_node td \<noteq> None \<longrightarrow> td_has_fetcher td"
    and h: "history_ok ?L dv_source (td_buffer td)"
    using ok r by (auto simp: td_ok_def asking_def split: if_splits)
  obtain b es where b: "replace_range dv_source (sanitize_answer vals) (td_buffer td) = Some (b, es)"
    "history_ok ?L dv_source b" using replace_range_total [OF h] by blast
  define ready_to where "ready_to = ready_until ?q (sanitize_answer vals) c"
  define b' where "b' = (if ready_to \<noteq> bot then fst (add_ready_range ?L (fst ?q, ready_to) b) else b)"
  define q' where "q' = (if ready_to \<noteq> bot then (ready_to, snd ?q) else ?q)"
  define td' where "td' = td\<lparr>td_requests := rest, td_buffer := b', td_query_range := q'\<rparr>"
  have rt: "ready_to \<noteq> bot \<Longrightarrow> fst ?q \<le> ready_to \<and> ready_to \<le> snd ?q"
    using q(3) clamp_between [OF q(3)] by (auto simp: ready_to_def ready_until_def split: if_splits)
  have b': "history_ok ?L dv_source b'"
    using b(2) add_ready_history_ok [OF L b(2), of "(fst ?q, ready_to)"] rt by (simp add: b'_def)
  have q': "fst q' \<le> snd q'" using q(3) rt by (simp add: q'_def)
  have eq: "on_history_read_raw_complete env answered vals c (td\<lparr>td_requests := rest\<rparr>) =
     do { (td'', outs) \<leftarrow> (case c of None \<Rightarrow> fetch_next_gap env (td'\<lparr>td_querying := False\<rparr>)
                                  | Some c \<Rightarrow> fetch_more env answered c td');
          Some (td'', map BufferEvent (es @ (if ready_to \<noteq> bot then snd (add_ready_range ?L (fst ?q, ready_to) b) else [])) @ outs) }"
    using q(1) b(1)
    by (cases "ready_to = bot"; cases c)
      (simp_all add: on_history_read_raw_complete_def Let_def b'_def q'_def td'_def split_beta
        ready_to_def)
  have "\<exists>td'' outs. (case c of None \<Rightarrow> fetch_next_gap env (td'\<lparr>td_querying := False\<rparr>)
      | Some c \<Rightarrow> fetch_more env answered c td') = Some (td'', outs) \<and> td_ok env td'' \<and> idle_done env td''"
  proof (cases c)
    case None
    have "td_ok env (td'\<lparr>td_querying := False\<rparr>)" using b' f q(2) by (simp add: td_ok_def asking_def td'_def)
    from fetch_next_gap_ok [OF L this] None show ?thesis by auto
  next
    case (Some k)
    with fetch_more_ok [OF L log, of td' answered k] b' q q' f show ?thesis by (simp add: td'_def)
  qed
  then show ?thesis unfolding eq by auto
qed

definition td_inv :: "('n, 'a, 'q, 't::{linorder,order_bot,order_top}) td_env \<Rightarrow>
    ('n, 'a, 'q, 't, 'o::linorder, 'c) timed_data \<Rightarrow> bool" where
  "td_inv env td \<longleftrightarrow> td_ok env td \<and> idle_done env td"

lemma td_insert_buffer:
  "td_insert v td = (td\<lparr>td_buffer := fst (insert_or_update dv_source dv_lesser v (td_buffer td))\<rparr>,
     map BufferEvent (snd (snd (insert_or_update dv_source dv_lesser v (td_buffer td)))))"
  by (simp add: td_insert_def split: prod.split)

lemma td_insert_ok: "td_ok env td \<Longrightarrow> td_ok env (fst (td_insert v td))"
  by (simp add: td_insert_buffer td_ok_def asking_def insert_history_ok)

lemma td_insert_inv: "td_inv env td \<Longrightarrow> td_inv env (fst (td_insert v td))"
  using insert_gaps [of "te_lib env" dv_source "td_buffer td" dv_lesser v] td_insert_ok [of env td v]
  by (auto simp: td_inv_def td_insert_buffer idle_done_def td_ok_def)

text \<open>Fields that neither the history nor the fetcher reads.\<close>

lemma td_ok_fields [simp]:
  "td_ok env (td\<lparr>td_historical := h\<rparr>) = td_ok env td" "td_ok env (td\<lparr>td_current := v\<rparr>) = td_ok env td"
  "td_ok env (td\<lparr>td_change_time := t\<rparr>) = td_ok env td" "td_ok env (td\<lparr>td_observers := obs\<rparr>) = td_ok env td"
  "td_ok env (td\<lparr>td_alerting := h\<rparr>) = td_ok env td" "td_ok env (td\<lparr>td_subscribed := h\<rparr>) = td_ok env td"
  "td_ok env (td\<lparr>td_node := n\<rparr>) = td_ok env td"
  by (simp_all add: td_ok_def asking_def)

lemma idle_done_fields [simp]:
  "idle_done env (td\<lparr>td_current := v\<rparr>) = idle_done env td"
  "idle_done env (td\<lparr>td_change_time := t\<rparr>) = idle_done env td"
  "idle_done env (td\<lparr>td_observers := obs\<rparr>) = idle_done env td"
  "idle_done env (td\<lparr>td_alerting := h\<rparr>) = idle_done env td"
  "idle_done env (td\<lparr>td_subscribed := h\<rparr>) = idle_done env td"
  "idle_done env (td\<lparr>td_node := n\<rparr>) = idle_done env td"
  by (simp_all add: idle_done_def)

lemma update_ranges_ok:
  assumes L: "interval_ok (te_lib env)" and ok: "td_ok env td"
  shows "\<exists>td' outs. run_handler env [RangesUpdated h] td = Some (td', outs) \<and> td_inv env td'"
proof -
  let ?td1 = "if h then td\<lparr>td_historical := True\<rparr> else td"
  define p where "p = (if td_historical ?td1 \<and> \<not> te_is_null env (td_current ?td1)
      then td_insert (td_current ?td1) ?td1 else (?td1, []))"
  have p: "td_ok env (fst p)" using ok by (simp add: p_def td_insert_ok)
  have "\<exists>td' outs. (if td_has_fetcher (fst p) then fetch_next_gap env (fst p) else Some (fst p, [])) =
      Some (td', outs) \<and> td_inv env td'"
  proof (cases "td_has_fetcher (fst p)")
    case True
    with fetch_next_gap_ok [OF L p] show ?thesis by (auto simp: td_inv_def)
  next
    case False
    with p show ?thesis by (cases p) (simp add: td_inv_def td_ok_def idle_done_def)
  qed
  then obtain td' outs where f: "(if td_has_fetcher (fst p) then fetch_next_gap env (fst p) else Some (fst p, [])) =
      Some (td', outs)" "td_inv env td'" by blast
  have "td_update_observed_ranges env h td = Some (td', snd p @ outs)"
    using f(1) by (cases "td_has_fetcher (fst p)")
      (auto simp: td_update_observed_ranges_def Let_def split_beta prod_eq_iff simp flip: p_def)
  with f(2) show ?thesis by simp
qed

lemma view_observer_ok:
  assumes "interval_ok (te_lib env)" "td_inv env td" "history_ok (te_lib env) dv_source b"
  shows "\<exists>td' outs. run_handler env [RangesUpdated h] (td\<lparr>td_buffer := b\<rparr>) = Some (td', outs) \<and> td_inv env td'"
  using update_ranges_ok [OF assms(1), of "td\<lparr>td_buffer := b\<rparr>" h] assms(2,3)
  by (simp add: td_inv_def td_ok_def asking_def)

lemma set_node_None_inv: "td_inv env td \<Longrightarrow> td_inv env (fst (set_node env None td))"
  by (auto simp: set_node_def td_inv_def td_ok_def idle_done_def asking_def Let_def)

lemma on_channel_data_inv: "td_inv env td \<Longrightarrow> td_inv env (fst (on_channel_data env v td))"
proof -
  assume inv: "td_inv env td"
  have "td_inv env (fst (update_current v td))"
    using inv td_insert_inv [OF inv, of v] by (auto simp: update_current_def Let_def td_inv_def split_beta)
  with inv td_insert_inv [OF inv, of v] show ?thesis
    by (auto simp: on_channel_data_def td_delete_def td_inv_def split_beta)
qed

text \<open>An observer asks for a range the buffer accepts.\<close>

fun good_event :: "('t::{linorder,order_bot,order_top}) interval_lib \<Rightarrow> ('n, 'a, 'q, 't, 'o, 'c) td_event \<Rightarrow> bool" where
  "good_event L (AddView ob rng) \<longleftrightarrow> snd rng \<noteq> bot \<and> iv_valid L rng \<and> (fst rng = top \<or> \<not> iv_empty L rng)"
| "good_event L _ \<longleftrightarrow> True"

lemma td_step_inv:
  assumes L: "interval_ok (te_lib env)" and log: "\<not> te_log_info env" and e: "good_event (te_lib env) e"
    and inv: "td_inv env td"
  shows "\<exists>td' outs. td_step env e td = Some (td', outs) \<and> td_inv env td'"
proof (cases e)
  case (AddView ob rng)
  have h: "history_ok (te_lib env) dv_source (td_buffer td)" using inv by (simp add: td_inv_def td_ok_def)
  from add_observer_total [OF L h, of rng ob] e AddView obtain b h' where
    "add_observer (te_lib env) dv_source ob rng (td_buffer td) = Some (b, [RangesUpdated h'])"
    "history_ok (te_lib env) dv_source b" by auto
  with view_observer_ok [OF L inv, of b h'] AddView show ?thesis
    by (simp add: td_step_def add_view_observer_def)
next
  case (RemoveView ob)
  have h: "history_ok (te_lib env) dv_source (td_buffer td)" using inv by (simp add: td_inv_def td_ok_def)
  from remove_observer_total [OF L h, of ob] obtain b h' where
    "remove_observer (te_lib env) dv_source ob (td_buffer td) = Some (b, [RangesUpdated h'])"
    "history_ok (te_lib env) dv_source b" by auto
  with view_observer_ok [OF L inv, of b h'] RemoveView show ?thesis
    by (simp add: td_step_def remove_view_observer_def)
next
  case (ModelChanged d)
  have "td_inv env (fst (td_delete env (fst (set_node env None td))))"
    using set_node_None_inv [OF inv] by (simp add: td_delete_def td_inv_def)
  with ModelChanged inv show ?thesis by (auto simp: td_step_def on_model_changed_def split_beta)
next
  case (HistoryAnswer vals c)
  show ?thesis
  proof (cases "td_requests td")
    case Nil
    with HistoryAnswer inv show ?thesis by (simp add: td_step_def)
  next
    case (Cons r rest)
    with on_history_read_raw_complete_ok [OF L log _ Cons] HistoryAnswer inv show ?thesis
      by (cases r) (simp add: td_step_def td_inv_def)
  qed
next
  case (ItemEventsChanged h)
  with inv show ?thesis
    by (cases "td_node td") (auto simp: td_step_def on_item_events_changed_def td_inv_def)
next
  case SemanticChanged
  with inv show ?thesis by (cases "td_node td") (auto simp: td_step_def on_node_semantic_changed_def)
next
  case (ChannelData v)
  with inv on_channel_data_inv [OF inv, of v] show ?thesis
    by (cases "on_channel_data env v td"; cases "td_subscribed td") (simp_all add: td_step_def)
qed (use inv in \<open>auto simp: td_step_def td_inv_def td_add_observer_def td_remove_observer_def\<close>)

lemma td_run_inv:
  assumes L: "interval_ok (te_lib env)" and log: "\<not> te_log_info env"
  shows "\<forall>e \<in> set es. good_event (te_lib env) e \<Longrightarrow> td_inv env td \<Longrightarrow>
    \<exists>td' outs. td_run env es td = Some (td', outs) \<and> td_inv env td'"
proof (induction es arbitrary: td)
  case (Cons e es)
  obtain td1 outs1 where 1: "td_step env e td = Some (td1, outs1)" "td_inv env td1"
    using td_step_inv [OF L log _ Cons.prems(2), of e] Cons.prems(1) by auto
  with Cons.IH [of td1] Cons.prems(1) show ?case by auto
qed simp

lemma td_init_inv:
  assumes "interval_ok (te_lib env)"
  shows "td_inv env (fst (td_init env n (new_timed_data null h)))"
  using interval_okD(3) [OF assms separated_Nil]
  by (auto simp: td_init_def set_node_def new_timed_data_def td_inv_def td_ok_def asking_def idle_done_def
      history_ok_def buffer_ok_def empty_buffer_def default_retention_def find_next_gap_def
      find_first_gap_def Let_def)

text \<open>C18: While no record of level INFO is formatted (\<open>te_log_info\<close>; with such a record the cancellation of a query can
  be fatal, see \<open>canceled_query_reads_no_gap\<close>) and the observers ask for ranges that the buffer accepts
  (\<open>good_event\<close>), the following holds of a live item from its initialization on, whatever observers come and go, whatever
  the channel and the node report and whatever the history service answers (malformed and late answers included): it does
  not abort, its samples stay strictly sorted, one read of history waits for its answer exactly while the
  item is querying, and an idle item whose node is there has no observed gap that it could still ask for.\<close>

theorem timed_data_reachable_ok:
  assumes "interval_ok (te_lib env)" "\<not> te_log_info env" "\<forall>e \<in> set es. good_event (te_lib env) e"
  shows "\<exists>td outs. td_run env es (fst (td_init env n (new_timed_data null h))) = Some (td, outs)
    \<and> buffer_ok dv_source (td_buffer td)
    \<and> length (td_requests td) = (if td_querying td then 1 else 0)
    \<and> (\<not> td_querying td \<longrightarrow> td_fetch_node td \<noteq> None \<longrightarrow>
         find_next_gap (te_lib env) (td_buffer td) = Some None)"
proof -
  obtain td outs where "td_run env es (fst (td_init env n (new_timed_data null h))) = Some (td, outs)" "td_inv env td"
    using td_run_inv [OF assms td_init_inv [OF assms(1)]] by blast
  then show ?thesis by (auto simp: td_inv_def td_ok_def idle_done_def asking_def history_ok_def split: if_splits)
qed

section \<open>An answer that ends a read\<close>

lemma fetch_next_gap_requests:
  assumes "interval_ok (te_lib env)" "td_ok env td" "fetch_next_gap env td = Some (td', outs)"
    "(g, k) \<in> set (td_requests td')" "td_requests td = []" "fst g \<le> x" "x < snd g"
  shows "\<not> covers (tb_ready (td_buffer td)) x"
proof -
  have s: "separated (tb_observed (td_buffer td))" "separated (tb_ready (td_buffer td))"
    using assms(2) by (simp_all add: td_ok_def history_ok_def)
  have "find_next_gap (te_lib env) (td_buffer td) = Some (Some g)"
    using assms(3-5) by (auto simp: fetch_next_gap_def bind_eq_Some_conv split: if_splits option.splits)
  then have "find_first_gap_loop (tb_observed (td_buffer td)) (tb_ready (td_buffer td)) = Some (fst g, snd g)"
    by (simp add: find_next_gap_def find_first_gap_def)
  from gap_not_covered [OF s this] assms(6,7) show ?thesis by blast
qed

text \<open>C29: An answer without values and without a continuation point, which is also what a failed read gives
  since the status of the result is not looked at, makes the whole range that was asked for ready: the samples
  stay as they are and no part of the range is asked for again.\<close>

theorem empty_answer_is_ready:
  assumes "interval_ok (te_lib env)" "td_inv env td" "td_requests td = r # rest"
    "fst (td_query_range td) < snd (td_query_range td)"
  shows "\<exists>td' outs. td_step env (HistoryAnswer [] None) td = Some (td', outs)
    \<and> tb_values (td_buffer td') = tb_values (td_buffer td)
    \<and> (\<forall>x. fst (td_query_range td) \<le> x \<and> x < snd (td_query_range td) \<longrightarrow> covers (tb_ready (td_buffer td')) x)
    \<and> (\<forall>(g, k) \<in> set (td_requests td'). snd g \<le> fst (td_query_range td) \<or> snd (td_query_range td) \<le> fst g)"
proof -
  let ?L = "te_lib env" and ?q = "td_query_range td"
  have q: "td_querying td" "rest = []" "fst ?q \<le> snd ?q" and h: "history_ok ?L dv_source (td_buffer td)"
    using assms(2,3) by (auto simp: td_inv_def td_ok_def asking_def split: if_splits)
  define b where "b = fst (add_ready_range ?L ?q (td_buffer td))"
  let ?td = "td\<lparr>td_requests := [], td_buffer := b, td_query_range := (snd ?q, snd ?q), td_querying := False\<rparr>"
  have b: "history_ok ?L dv_source b" unfolding b_def by (rule add_ready_history_ok [OF assms(1) h q(3)])
  have cov: "covers (tb_ready b) x" if "fst ?q \<le> x" "x < snd ?q" for x
    using that h interval_okD(5) [OF assms(1) _ q(3)] by (simp add: b_def add_ready_range_def history_ok_def)
  have ok: "td_ok env ?td" using b assms(2) by (simp add: td_inv_def td_ok_def asking_def)
  obtain td' outs where f: "fetch_next_gap env ?td = Some (td', outs)" "td_buffer td' = b"
    using fetch_next_gap_ok [OF assms(1) ok] by auto
  have ne: "snd ?q \<noteq> bot" using assms(4) by auto
  have "td_step env (HistoryAnswer [] None) td = Some (td', map BufferEvent (snd (add_ready_range ?L ?q (td_buffer td))) @ outs)"
    using assms(3) ne q(1,2) f(1)
    by (cases r) (simp add: td_step_def on_history_read_raw_complete_def sanitize_answer_def replace_range_def
        sanitize_def ready_until_def Let_def b_def split_beta)
  moreover have "snd g \<le> fst ?q \<or> snd ?q \<le> fst g" if "(g, k) \<in> set (td_requests td')" for g k
  proof (rule ccontr)
    assume n: "\<not> (snd g \<le> fst ?q \<or> snd ?q \<le> fst g)"
    have "\<not> covers (tb_ready b) (max (fst g) (fst ?q))" if "max (fst g) (fst ?q) < snd g"
      using fetch_next_gap_requests [OF assms(1) ok f(1) \<open>(g, k) \<in> _\<close>, of "max (fst g) (fst ?q)"] that by simp
    moreover have "fst g < snd g"
    proof -
      have "find_next_gap ?L b = Some (Some g)"
        using f(1) \<open>(g, k) \<in> _\<close> by (auto simp: fetch_next_gap_def bind_eq_Some_conv split: if_splits option.splits)
      then show ?thesis using find_next_gap_total [OF assms(1) b] by (metis fst_conv option.inject option.simps(3) snd_conv)
    qed
    ultimately show False using n assms(4) cov [of "max (fst g) (fst ?q)"]
      by (cases "fst g \<le> fst ?q") (auto simp: not_le dest: less_imp_le)
  qed
  moreover have "tb_values b = tb_values (td_buffer td)" by (simp add: b_def add_ready_range_def)
  ultimately show ?thesis using f(2) cov by auto
qed

lemma no_gap_unobserved:
  "interval_ok L \<Longrightarrow> history_ok L ts b \<Longrightarrow> tb_observed b = [] \<Longrightarrow> find_next_gap L b = Some None"
  by (simp add: find_next_gap_def find_first_gap_def history_ok_def interval_okD(3))

text \<open>While records of level INFO are formatted, a page of a read that still has a continuation point is
  fatal once nobody observes the item: the cancellation record reads the gap that is not there.\<close>

theorem canceled_query_reads_no_gap:
  assumes "interval_ok (te_lib env)" "td_inv env td" "td_requests td = r # rest" "td_fetch_node td \<noteq> None"
    "tb_observed (td_buffer td) = []" "te_log_info env"
  shows "td_step env (HistoryAnswer vals (Some c)) td = None"
proof -
  let ?L = "te_lib env" and ?q = "td_query_range td"
  have q: "td_querying td" "fst ?q \<le> snd ?q" and h: "history_ok ?L dv_source (td_buffer td)"
    using assms(2,3) by (auto simp: td_inv_def td_ok_def asking_def split: if_splits)
  obtain b es where b: "replace_range dv_source (sanitize_answer vals) (td_buffer td) = Some (b, es)"
    "history_ok ?L dv_source b" "tb_observed b = []" using replace_range_total [OF h] assms(5) by metis
  have rt: "fst ?q \<le> t" if "t = ready_until ?q (sanitize_answer vals) (Some c)" "t \<noteq> bot" for t
    using that clamp_between [OF q(2)] by (auto simp: ready_until_def split: if_splits)
  have more: "fetch_more env answered c (td\<lparr>td_requests := rest, td_buffer := b', td_query_range := q'\<rparr>) = None"
    if "history_ok ?L dv_source b'" "tb_observed b' = []" for b' answered q'
    using q(1) assms(4,6) no_gap_unobserved [OF assms(1) that] by (auto simp: fetch_more_def)
  let ?b' = "fst (add_ready_range ?L (fst ?q, ready_until ?q (sanitize_answer vals) (Some c)) b)"
  have "history_ok ?L dv_source ?b'" if "ready_until ?q (sanitize_answer vals) (Some c) \<noteq> bot"
    using add_ready_history_ok [OF assms(1) b(2)] rt that by simp
  moreover have "tb_observed ?b' = []" using b(3) by (simp add: add_ready_range_def)
  ultimately show ?thesis
    using assms(3) q(1) b more [of ?b'] more [of b _ ?q]
    by (cases r; cases "ready_until ?q (sanitize_answer vals) (Some c) = bot")
      (simp_all add: td_step_def on_history_read_raw_complete_def Let_def split_beta)
qed

section \<open>Instances\<close>

text \<open>Intervals of a linear order, kept apart and merged where they touch.\<close>

fun merge_interval :: "('t::linorder) interval list \<Rightarrow> 't interval \<Rightarrow> 't interval list" where
  "merge_interval [] r = [r]"
| "merge_interval (j # js) r =
     (if snd j < fst r then j # merge_interval js r
      else if snd r < fst j then r # j # js
      else merge_interval js (min (fst j) (fst r), max (snd j) (snd r)))"

lemma merge_interval_after:
  "\<forall>j \<in> set js. c < fst j \<Longrightarrow> c < fst r \<Longrightarrow> k \<in> set (merge_interval js r) \<Longrightarrow> c < fst k"
  by (induction js r arbitrary: k rule: merge_interval.induct) (auto split: if_splits)

lemma merge_interval_separated:
  "separated rs \<Longrightarrow> fst r < snd r \<Longrightarrow> separated (merge_interval rs r)"
proof (induction rs r rule: merge_interval.induct)
  case (2 j js r)
  then have j: "fst j < snd j" "\<forall>k \<in> set js. snd j < fst k" "separated js" by (simp_all add: separated_Cons)
  consider "snd j < fst r" | "snd r < fst j" | "fst r \<le> snd j" "fst j \<le> snd r" by fastforce
  then show ?case
  proof cases
    case 1
    with 2 j merge_interval_after [OF j(2), of r] show ?thesis by (simp add: separated_Cons)
  next
    case 2
    then show ?thesis using j \<open>fst r < snd r\<close>
      by (auto simp: separated_Cons dest: less_trans)
  next
    case 3
    then have "merge_interval (j # js) r = merge_interval js (min (fst j) (fst r), max (snd j) (snd r))"
      by (simp add: not_less [symmetric])
    with 3 2 j show ?thesis by (simp add: min_less_iff_disj less_max_iff_disj leD)
  qed
qed (simp add: separated_Cons)

lemma merge_interval_covers:
  "fst r < snd r \<Longrightarrow> separated rs \<Longrightarrow> covers (merge_interval rs r) x \<longleftrightarrow> covers rs x \<or> fst r \<le> x \<and> x < snd r"
proof (induction rs r rule: merge_interval.induct)
  case (2 j js r)
  then show ?case
    by (auto simp: covers_Cons separated_Cons min_le_iff_disj less_max_iff_disj min_less_iff_disj not_less)
qed (simp add: covers_def)

definition merge_lib :: "enat interval_lib" where
  "merge_lib = \<lparr>iv_valid = (\<lambda>r. fst r \<le> snd r), iv_empty = (\<lambda>r. fst r = snd r), iv_all_valid = separated,
     iv_union = (\<lambda>rs r. if fst r = snd r then rs else merge_interval rs r),
     iv_contains = (\<lambda>a b. fst a \<le> fst b \<and> snd b \<le> snd a),
     iv_list_contains = (\<lambda>rs r. \<exists>a \<in> set rs. fst a \<le> fst r \<and> snd r \<le> snd a)\<rparr>"

lemma merge_lib_ok: "interval_ok merge_lib"
  unfolding interval_ok_def merge_lib_def
  by (auto simp: merge_interval_separated merge_interval_covers order_le_less)

type_synonym ex_value = "(nat, bool, enat) data_value"

definition dv :: "nat \<Rightarrow> enat \<Rightarrow> ex_value" where
  "dv a t = \<lparr>dv_value = a, dv_qualifier = False, dv_source = t, dv_server = t\<rparr>"

definition td_ex_env :: "bool \<Rightarrow> (nat, nat, bool, enat) td_env" where
  "td_ex_env verbose = \<lparr>te_lib = merge_lib, te_failed = (\<lambda>q. q), te_set_failed = (\<lambda>q. True),
     te_is_null = (\<lambda>v. dv_source v = 0), te_is_update = (\<lambda>cur v. dv_source cur \<le> dv_source v),
     te_alerting = (\<lambda>n. False), te_log_info = verbose\<rparr>"

definition td_ex_start :: "bool \<Rightarrow> (nat, nat, bool, enat, nat, nat) timed_data" where
  "td_ex_start verbose = fst (td_init (td_ex_env verbose) 4 (new_timed_data (dv 0 0) True))"

lemmas td_eval = td_step_def add_view_observer_def remove_view_observer_def add_observer_def
  remove_observer_def update_observed_ranges_def trim_to_observed_ranges_def trim_window_def trim_count_def
  Let_def td_ex_env_def td_ex_start_def td_init_def set_node_def new_timed_data_def empty_buffer_def
  default_retention_def merge_lib_def dv_def td_update_observed_ranges_def fetch_next_gap_def
  find_next_gap_def find_first_gap_def on_history_read_raw_complete_def sanitize_answer_def
  replace_range_def sanitize_def ready_until_def fetch_more_def add_ready_range_def clamp_ranges_def
  clamp_def separated_Cons bot_enat_def top_enat_def td_insert_def

lemma td_ex_env_ok: "interval_ok (te_lib (td_ex_env v))"
  by (simp add: td_ex_env_def merge_lib_ok)

theorem timed_data_reachable_ok_witness:
  "\<exists>td outs. td_run (td_ex_env False)
     [AddView 7 (2, 5), HistoryAnswer [dv 8 4, dv 7 3] (Some 9), RemoveView 7, ChannelData (dv 5 6), HistoryAnswer [] None]
     (td_ex_start False) = Some (td, outs) \<and> buffer_ok dv_source (td_buffer td)"
proof -
  have "\<forall>e \<in> set [AddView 7 (2, 5), HistoryAnswer [dv 8 4, dv 7 3] (Some 9), RemoveView 7, ChannelData (dv 5 6),
      HistoryAnswer [] None]. good_event (te_lib (td_ex_env False)) e"
    by (simp add: td_ex_env_def merge_lib_def bot_enat_def)
  from timed_data_reachable_ok [OF td_ex_env_ok _ this, of 4 "dv 0 0" True] show ?thesis
    unfolding td_ex_start_def by (auto simp: td_ex_env_def)
qed

text \<open>An item on the way: it observes \<open>(2, 5)\<close> and waits for the history of it.\<close>

definition td_ex_querying :: "bool \<Rightarrow> (nat, nat, bool, enat, nat, nat) timed_data" where
  "td_ex_querying verbose = fst (the (td_run (td_ex_env verbose) [AddView 7 (2, 5)] (td_ex_start verbose)))"

lemma td_ex_querying_run:
  "td_run (td_ex_env v) [AddView 7 (2, 5)] (td_ex_start v) = Some (td_ex_querying v, [HistoryRead 4 2 5 None])"
  "td_query_range (td_ex_querying v) = (2, 5)" "td_requests (td_ex_querying v) = [((2, 5), None)]"
  "td_fetch_node (td_ex_querying v) = Some 4" "tb_values (td_buffer (td_ex_querying v)) = []"
  by (simp_all add: td_ex_querying_def td_eval del: not_infinity_eq)

lemma td_ex_querying_inv: "td_inv (td_ex_env v) (td_ex_querying v)"
proof -
  have "history_ok merge_lib dv_source (td_buffer (td_ex_querying v))"
    by (simp add: td_ex_querying_def td_eval history_ok_def buffer_ok_def del: not_infinity_eq)
  moreover have "asking (td_ex_querying v)" "idle_done (td_ex_env v) (td_ex_querying v)"
    "td_has_fetcher (td_ex_querying v)"
    by (simp_all add: td_ex_querying_def td_eval asking_def idle_done_def del: not_infinity_eq)
  ultimately show ?thesis by (simp add: td_inv_def td_ok_def td_ex_env_def)
qed

theorem empty_answer_is_ready_witness:
  "\<exists>td' outs. td_step (td_ex_env False) (HistoryAnswer [] None) (td_ex_querying False) = Some (td', outs)
     \<and> tb_values (td_buffer td') = [] \<and> covers (tb_ready (td_buffer td')) 3"
proof -
  have "fst (td_query_range (td_ex_querying False)) < snd (td_query_range (td_ex_querying False))"
    by (simp add: td_ex_querying_run)
  from empty_answer_is_ready [OF td_ex_env_ok td_ex_querying_inv td_ex_querying_run(3) this]
  obtain td' outs where s: "td_step (td_ex_env False) (HistoryAnswer [] None) (td_ex_querying False) = Some (td', outs)"
    "tb_values (td_buffer td') = []" and c: "\<forall>x. 2 \<le> x \<and> x < 5 \<longrightarrow> covers (tb_ready (td_buffer td')) x"
    by (auto simp: td_ex_querying_run)
  have "covers (tb_ready (td_buffer td')) 3" using c by simp
  with s show ?thesis by blast
qed

definition td_ex_unobserved :: "(nat, nat, bool, enat, nat, nat) timed_data" where
  "td_ex_unobserved = fst (the (td_step (td_ex_env True) (RemoveView 7) (td_ex_querying True)))"

lemma td_ex_unobserved_step:
  "td_step (td_ex_env True) (RemoveView 7) (td_ex_querying True) = Some (td_ex_unobserved, [])"
  "td_requests td_ex_unobserved = [((2, 5), None)]" "td_fetch_node td_ex_unobserved \<noteq> None"
  "tb_observed (td_buffer td_ex_unobserved) = []"
  by (simp_all add: td_ex_unobserved_def td_ex_querying_def td_eval del: not_infinity_eq)

lemma td_ex_unobserved_inv: "td_inv (td_ex_env True) td_ex_unobserved"
proof -
  have "history_ok merge_lib dv_source (td_buffer td_ex_unobserved)"
    by (simp add: td_ex_unobserved_def td_ex_querying_def td_eval history_ok_def buffer_ok_def del: not_infinity_eq)
  moreover have "asking td_ex_unobserved" "idle_done (td_ex_env True) td_ex_unobserved"
    "td_has_fetcher td_ex_unobserved"
    by (simp_all add: td_ex_unobserved_def td_ex_querying_def td_eval asking_def idle_done_def del: not_infinity_eq)
  ultimately show ?thesis by (simp add: td_inv_def td_ok_def td_ex_env_def)
qed

theorem canceled_query_reads_no_gap_witness:
  "td_run (td_ex_env True) [AddView 7 (2, 5), RemoveView 7, HistoryAnswer [] (Some 9)] (td_ex_start True) = None"
proof -
  have "td_step (td_ex_env True) (HistoryAnswer [] (Some 9)) td_ex_unobserved = None"
    by (rule canceled_query_reads_no_gap [OF td_ex_env_ok td_ex_unobserved_inv])
      (use td_ex_unobserved_step in \<open>auto simp: td_ex_env_def\<close>)
  then show ?thesis
    using td_ex_querying_run(1) [of True] td_ex_unobserved_step(1)
    by (auto simp: bind_eq_Some_conv)
qed

end
