(* ===== verification/Expression_Timed_Data.thy ===== *)
theory Expression_Timed_Data
  imports Timed_Data
begin

text \<open>
  An item calculated from others: \<open>timed_data/expression_timed_data.cpp\<close> over the base item of Timed\_Data,
  and the evaluation of \<open>common/scada_expression.cpp\<close> it uses. An operand is what the expression reads of
  it: its ready ranges, its samples and its current value. The parsed formula belongs to the expression
  library outside the repository: \<open>x_eval\<close> evaluates it on the values of the operands, \<open>None\<close> standing
  for an exception. Connecting to an operand is an output; the clock is an argument.
\<close>

section \<open>State\<close>

record ('a, 'q) expr_env =
  x_eval :: "'a list \<Rightarrow> 'a option"
  x_null :: 'a                        \<comment> \<open>the empty variant\<close>
  x_is_bad :: "'q \<Rightarrow> bool"
  x_qualifier :: "bool \<Rightarrow> 'q"         \<comment> \<open>the default qualifier with its bad flag as given\<close>

record ('a, 'q, 't) operand =
  od_ready :: "'t interval list"
  od_values :: "('a, 'q, 't) data_value list"
  od_current :: "('a, 'q, 't) data_value"

record ('n, 'a, 'q, 't, 'o, 'c) expression_td =
  et_base :: "('n, 'a, 'q, 't, 'o, 'c) timed_data"
  et_items :: "('a, 'q, 't) data_value list"   \<comment> \<open>the values of \<open>expression_->items\<close>\<close>
  et_from :: 't
  et_ready_from :: 't

datatype ('n, 'a, 'q, 't, 'o, 'c) et_out =
  BaseOut "('n, 'a, 'q, 't, 'o, 'c) td_out"
| ConnectOperand nat "'t interval"
| AcknowledgeOperand nat

type_synonym ('n, 'a, 'q, 't, 'o, 'c) et_result =
  "(('n, 'a, 'q, 't, 'o, 'c) expression_td \<times> ('n, 'a, 'q, 't, 'o, 'c) et_out list) option"

abbreviation et_buffer :: "('n, 'a, 'q, 't, 'o, 'c) expression_td \<Rightarrow> (('a, 'q, 't) data_value, 't, 'o) tbuffer" where
  "et_buffer x \<equiv> td_buffer (et_base x)"

definition set_buffer :: "(('a, 'q, 't) data_value, 't, 'o) tbuffer \<Rightarrow>
    ('n, 'a, 'q, 't, 'o, 'c) expression_td \<Rightarrow> ('n, 'a, 'q, 't, 'o, 'c) expression_td" where
  "set_buffer b x = x\<lparr>et_base := (et_base x)\<lparr>td_buffer := b\<rparr>\<rparr>"

section \<open>Evaluation\<close>

definition scada_calculate :: "('a, 'q) expr_env \<Rightarrow> ('a, 'q, 't) data_value list \<Rightarrow> 'a option" where
  "scada_calculate xe items =
     (if \<exists>v \<in> set items. dv_value v = x_null xe then Some (x_null xe) else x_eval xe (map dv_value items))"

text \<open>\<open>CalculateStatus\<close>: an exception becomes a bad status, for which the caller leaves the value empty.\<close>

definition scada_calculate_status :: "('a, 'q) expr_env \<Rightarrow> ('a, 'q, 't) data_value list \<Rightarrow> 'a" where
  "scada_calculate_status xe items = (case scada_calculate xe items of Some a \<Rightarrow> a | None \<Rightarrow> x_null xe)"

section \<open>The current value\<close>

definition null_value :: "('a, 'q) expr_env \<Rightarrow> ('a, 'q, 't::order_bot) data_value" where
  "null_value xe = \<lparr>dv_value = x_null xe, dv_qualifier = x_qualifier xe False, dv_source = bot, dv_server = bot\<rparr>"

definition calculate_current ::
    "('a, 'q) expr_env \<Rightarrow> 't \<Rightarrow> ('a, 'q, 't::{linorder,order_bot}) operand list \<Rightarrow>
     ('n, 'a, 'q, 't, 'o, 'c) expression_td \<Rightarrow>
     ('n, 'a, 'q, 't, 'o, 'c) expression_td \<times> bool \<times> ('n, 'a, 'q, 't, 'o, 'c) et_out list" where
  "calculate_current xe now ops x =
     (let live = filter (\<lambda>v. dv_source v \<noteq> bot) (map od_current ops);
          items = map (\<lambda>op. if dv_source (od_current op) = bot then null_value xe else od_current op) ops;
          max_update_time = fold (\<lambda>v m. if m = bot \<or> m < dv_source v then dv_source v else m) live bot;
          bad = (\<exists>v \<in> set live. x_is_bad xe (dv_qualifier v));
          value = \<lparr>dv_value = scada_calculate_status xe items, dv_qualifier = x_qualifier xe bad,
                   dv_source = (if ops = [] then now else max_update_time), dv_server = now\<rparr>
      in case update_current value (et_base x) of
           (base, changed, outs) \<Rightarrow> (x\<lparr>et_base := base, et_items := items\<rparr>, changed, map BaseOut outs))"

section \<open>Values in a range\<close>

text \<open>A cursor is the operand's samples, the iterator into them and the value of the operand's item.\<close>

type_synonym ('a, 'q, 't) cursor = "('a, 'q, 't) data_value list \<times> nat \<times> ('a, 'q, 't) data_value"

definition start_cursor ::
    "'t::linorder \<Rightarrow> ('a, 'q, 't) data_value list \<Rightarrow> ('a, 'q, 't) cursor option" where
  "start_cursor lo vals =
     (let i = lower_bound dv_source vals lo
      in if i \<noteq> length vals then Some (vals, i, vals ! i)
         else do {
           check (vals \<noteq> []);
           check (dv_source (last vals) \<le> lo);
           Some (vals, i, last vals)
         })"

fun start_cursors ::
    "'t::linorder \<Rightarrow> ('a, 'q, 't) data_value list list \<Rightarrow> ('a, 'q, 't) cursor list option" where
  "start_cursors lo [] = Some []"
| "start_cursors lo (vals # rest) = do {
     c \<leftarrow> start_cursor lo vals;
     cs \<leftarrow> start_cursors lo rest;
     Some (c # cs)
   }"

definition at_end :: "'t::{linorder,order_bot} \<Rightarrow> ('a, 'q, 't) cursor \<Rightarrow> bool" where
  "at_end hi c = (case c of (vals, i, item) \<Rightarrow> length vals \<le> i \<or> (hi \<noteq> bot \<and> hi < dv_source (vals ! i)))"

definition advance :: "'t::{linorder,order_bot} \<Rightarrow> ('a, 'q, 't) cursor \<Rightarrow> ('a, 'q, 't) cursor" where
  "advance hi c = (if at_end hi c then c else case c of (vals, i, item) \<Rightarrow> (vals, Suc i, vals ! i))"

definition update_time :: "('a, 'q, 't::{linorder,order_bot}) cursor list \<Rightarrow> 't" where
  "update_time cs = fold (\<lambda>(vals, i, item) m. if m = bot \<or> m < dv_source item then dv_source item else m) cs bot"

text \<open>A round of the loop: the update time is that of the items before they move on.\<close>

definition cursor_room :: "('a, 'q, 't) cursor list \<Rightarrow> nat" where
  "cursor_room cs = sum_list (map (\<lambda>(vals, i, item). length vals - i) cs)"

lemma cursor_room_advance_le: "cursor_room (map (advance hi) cs) \<le> cursor_room cs"
  by (induction cs) (auto simp: cursor_room_def advance_def intro: add_mono)

lemma cursor_room_advance:
  "\<not> (\<forall>c \<in> set cs. at_end hi c) \<Longrightarrow> cursor_room (map (advance hi) cs) < cursor_room cs"
proof (induction cs)
  case (Cons c cs)
  obtain vals i item where c: "c = (vals, i, item)" by (cases c)
  have le: "cursor_room (map (advance hi) cs) \<le> cursor_room cs" by (rule cursor_room_advance_le)
  show ?case
  proof (cases "at_end hi c")
    case True
    with Cons show ?thesis by (simp add: cursor_room_def advance_def)
  next
    case False
    then have "i < length vals" by (simp add: c at_end_def)
    with False le show ?thesis by (simp add: cursor_room_def advance_def [of hi "(vals, i, item)"] c)
  qed
qed simp

definition calculation_round ::
    "('a, 'q) expr_env \<Rightarrow> 't::{linorder,order_bot} \<Rightarrow> ('a, 'q, 't) cursor list \<Rightarrow>
     (('a, 'q, 't) data_value, 't, 'o) tbuffer \<Rightarrow>
     (('a, 'q, 't) cursor list \<times> (('a, 'q, 't) data_value, 't, 'o) tbuffer \<times>
      (('a, 'q, 't) data_value, 'o) tb_event list) option" where
  "calculation_round xe hi cs b = do {
     let moved = filter (\<lambda>c. \<not> at_end hi c) cs;
     let bad = (\<exists>c \<in> set moved. x_is_bad xe (dv_qualifier (snd (snd (advance hi c)))));
     let time = update_time cs;
     let cs' = map (advance hi) cs;
     check (time \<noteq> bot);
     total \<leftarrow> scada_calculate xe (map (snd \<circ> snd) cs');
     (if total = x_null xe then Some (cs', b, [])
      else case insert_or_update dv_source dv_lesser
                  \<lparr>dv_value = total, dv_qualifier = x_qualifier xe bad, dv_source = time, dv_server = bot\<rparr> b of
             (b', _, es) \<Rightarrow> Some (cs', b', es))
   }"

lemma calculation_round_cursors:
  "calculation_round xe hi cs b = Some (cs', b', es) \<Longrightarrow> cs' = map (advance hi) cs"
  by (auto simp: calculation_round_def Let_def bind_eq_Some_conv split: if_splits prod.splits)

function calculation_loop ::
    "('a, 'q) expr_env \<Rightarrow> 't::{linorder,order_bot} \<Rightarrow> ('a, 'q, 't) cursor list \<Rightarrow>
     (('a, 'q, 't) data_value, 't, 'o) tbuffer \<Rightarrow>
     (('a, 'q, 't) cursor list \<times> (('a, 'q, 't) data_value, 't, 'o) tbuffer \<times>
      (('a, 'q, 't) data_value, 'o) tb_event list) option" where
  "calculation_loop xe hi cs b =
     (if \<forall>c \<in> set cs. at_end hi c then Some (cs, b, [])
      else (case calculation_round xe hi cs b of
              None \<Rightarrow> None
            | Some (cs', b', es) \<Rightarrow>
                map_option (\<lambda>(cs'', b'', es'). (cs'', b'', es @ es')) (calculation_loop xe hi cs' b')))"
  by pat_completeness auto
termination
  by (relation "measure (\<lambda>(xe, hi, cs, b). cursor_room cs)")
     (auto intro!: cursor_room_advance dest!: calculation_round_cursors)

declare calculation_loop.simps [simp del]

definition calculate_values_in_range ::
    "('a, 'q) expr_env \<Rightarrow> ('a, 'q, 't::{linorder,order_bot}) operand list \<Rightarrow> 't interval \<Rightarrow>
     ('n, 'a, 'q, 't, 'o, 'c) expression_td \<Rightarrow> ('n, 'a, 'q, 't, 'o, 'c) et_result" where
  "calculate_values_in_range xe ops rng x = do {
     check (fst rng \<noteq> bot);
     check (snd rng = bot \<or> fst rng \<le> snd rng);
     cs \<leftarrow> start_cursors (fst rng) (map od_values ops);
     (cs', b, es) \<leftarrow> calculation_loop xe (snd rng) cs (begin_update (et_buffer x));
     (b', es') \<leftarrow> end_batch dv_source b;
     Some ((set_buffer b' x)\<lparr>et_items := map (snd \<circ> snd) cs'\<rparr>, map (BaseOut \<circ> BufferEvent) (es @ es'))
   }"

section \<open>Readiness\<close>

fun operands_ready_loop ::
    "'t interval \<Rightarrow> 't::{linorder,order_bot,order_top} \<Rightarrow> ('a, 'q, 't) operand list \<Rightarrow> 't option" where
  "operands_ready_loop rng ready_from [] = Some (if ready_from = bot then top else ready_from)"
| "operands_ready_loop rng ready_from (op # ops) =
     (let r = get_ready_from (od_ready op) rng
      in if r = top then Some top
         else do {
           check (r \<noteq> bot);
           operands_ready_loop rng (if ready_from < r then r else ready_from) ops
         })"

definition get_operands_ready_from ::
    "('a, 'q, 't::{linorder,order_bot,order_top}) operand list \<Rightarrow>
     ('n, 'a, 'q, 't, 'o, 'c) expression_td \<Rightarrow> 't option" where
  "get_operands_ready_from ops x = operands_ready_loop (et_from x, top) bot ops"

definition update_ready_range ::
    "'t interval_lib \<Rightarrow> ('a, 'q) expr_env \<Rightarrow> ('a, 'q, 't::{linorder,order_bot,order_top}) operand list \<Rightarrow>
     ('n, 'a, 'q, 't, 'o, 'c) expression_td \<Rightarrow> ('n, 'a, 'q, 't, 'o, 'c) et_result" where
  "update_ready_range L xe ops x = do {
     check (td_historical (et_base x));
     ready \<leftarrow> get_operands_ready_from ops x;
     if ready = top then Some (x, [])
     else do {
       check (ready \<noteq> bot);
       let rng = (ready, et_ready_from x);
       (x', outs) \<leftarrow> calculate_values_in_range xe ops rng x;
       let (b, es) = add_ready_range L rng (et_buffer x');
       Some (set_buffer b x', outs @ map (BaseOut \<circ> BufferEvent) es)
     }
   }"

section \<open>What the operands and the observers do\<close>

definition connect_operands ::
    "('a, 'q, 't::order_top) operand list \<Rightarrow> ('n, 'a, 'q, 't, 'o, 'c) expression_td \<Rightarrow>
     ('n, 'a, 'q, 't, 'o, 'c) et_out list" where
  "connect_operands ops x = map (\<lambda>i. ConnectOperand i (et_from x, top)) [0..<length ops]"

definition new_expression_td ::
    "('a, 'q) expr_env \<Rightarrow> 't \<Rightarrow> ('a, 'q, 't::{linorder,order_bot,order_top}) operand list \<Rightarrow>
     ('n, 'a, 'q, 't, 'o, 'c) expression_td \<times> ('n, 'a, 'q, 't, 'o, 'c) et_out list" where
  "new_expression_td xe now ops =
     (let x = \<lparr>et_base = new_timed_data (null_value xe) False, et_items = map (\<lambda>_. null_value xe) ops,
               et_from = top, et_ready_from = top\<rparr>
      in case calculate_current xe now ops x of
           (x', _, outs) \<Rightarrow> (x', connect_operands ops x @ outs))"

definition et_on_observed_ranges_changed ::
    "'t interval_lib \<Rightarrow> ('a, 'q) expr_env \<Rightarrow> 't \<Rightarrow> ('a, 'q, 't::{linorder,order_bot,order_top}) operand list \<Rightarrow>
     ('n, 'a, 'q, 't, 'o, 'c) expression_td \<Rightarrow> ('n, 'a, 'q, 't, 'o, 'c) et_result" where
  "et_on_observed_ranges_changed L xe now ops x = do {
     (x1, outs) \<leftarrow> (if td_historical (et_base x) then update_ready_range L xe ops x else Some (x, []));
     (case calculate_current xe now ops x1 of
        (x2, _, outs') \<Rightarrow> Some (x2, connect_operands ops x @ outs @ outs'))
   }"

definition et_update_observed_ranges ::
    "'t interval_lib \<Rightarrow> ('a, 'q) expr_env \<Rightarrow> (('a, 'q, 't) data_value \<Rightarrow> bool) \<Rightarrow> 't \<Rightarrow>
     ('a, 'q, 't::{linorder,order_bot,order_top}) operand list \<Rightarrow> bool \<Rightarrow>
     ('n, 'a, 'q, 't, 'o, 'c) expression_td \<Rightarrow> ('n, 'a, 'q, 't, 'o, 'c) et_result" where
  "et_update_observed_ranges L xe is_null now ops has_observers x = do {
     let base = (if has_observers then (et_base x)\<lparr>td_historical := True\<rparr> else et_base x);
     let (base', outs) = (if td_historical base \<and> \<not> is_null (td_current base)
                          then td_insert (td_current base) base else (base, []));
     (x', outs') \<leftarrow> et_on_observed_ranges_changed L xe now ops (x\<lparr>et_base := base'\<rparr>);
     Some (x', map BaseOut outs @ outs')
   }"

fun et_run_handler ::
    "'t interval_lib \<Rightarrow> ('a, 'q) expr_env \<Rightarrow> (('a, 'q, 't) data_value \<Rightarrow> bool) \<Rightarrow> 't \<Rightarrow>
     ('a, 'q, 't::{linorder,order_bot,order_top}) operand list \<Rightarrow> (('a, 'q, 't) data_value, 'o) tb_event list \<Rightarrow>
     ('n, 'a, 'q, 't, 'o, 'c) expression_td \<Rightarrow> ('n, 'a, 'q, 't, 'o, 'c) et_result" where
  "et_run_handler L xe is_null now ops [] x = Some (x, [])"
| "et_run_handler L xe is_null now ops (e # es) x = do {
     (x', outs) \<leftarrow> (case e of RangesUpdated h \<Rightarrow> et_update_observed_ranges L xe is_null now ops h x
                   | _ \<Rightarrow> Some (x, [BaseOut (BufferEvent e)]));
     (x'', outs') \<leftarrow> et_run_handler L xe is_null now ops es x';
     Some (x'', outs @ outs')
   }"

definition on_timed_data_updates ::
    "('a, 'q) expr_env \<Rightarrow> ('a, 'q, 't::{linorder,order_bot,order_top}) operand list \<Rightarrow>
     ('a, 'q, 't) data_value list \<Rightarrow> ('n, 'a, 'q, 't, 'o, 'c) expression_td \<Rightarrow> ('n, 'a, 'q, 't, 'o, 'c) et_result" where
  "on_timed_data_updates xe ops vals x = do {
     check (td_historical (et_base x));
     check (vals \<noteq> []);
     check (et_ready_from x \<le> dv_source (hd vals));
     let rng = (dv_source (hd vals), dv_source (last vals));
     (b, es) \<leftarrow> clear_range dv_source rng (et_buffer x);
     (x', outs) \<leftarrow> calculate_values_in_range xe ops rng (set_buffer b x);
     Some (x', map (BaseOut \<circ> BufferEvent) es @ outs)
   }"

definition on_property_changed ::
    "('a, 'q) expr_env \<Rightarrow> 't \<Rightarrow> ('a, 'q, 't::{linorder,order_bot}) operand list \<Rightarrow> property list \<Rightarrow>
     ('n, 'a, 'q, 't, 'o, 'c) expression_td \<Rightarrow>
     ('n, 'a, 'q, 't, 'o, 'c) expression_td \<times> ('n, 'a, 'q, 't, 'o, 'c) et_out list" where
  "on_property_changed xe now ops properties x =
     (if PropertyCurrent \<in> set properties
      then (case calculate_current xe now ops x of
              (x', changed, outs) \<Rightarrow>
                (x', outs @ (if changed then map BaseOut (notify_property_changed [PropertyCurrent] (et_base x')) else [])))
      else (x, []))"

definition on_timed_data_ready ::
    "'t interval_lib \<Rightarrow> ('a, 'q) expr_env \<Rightarrow> ('a, 'q, 't::{linorder,order_bot,order_top}) operand list \<Rightarrow>
     ('n, 'a, 'q, 't, 'o, 'c) expression_td \<Rightarrow> ('n, 'a, 'q, 't, 'o, 'c) et_result" where
  "on_timed_data_ready L xe ops x = do {
     check (td_historical (et_base x));
     update_ready_range L xe ops x
   }"

definition et_acknowledge ::
    "('a, 'q, 't) operand list \<Rightarrow> ('n, 'a, 'q, 't, 'o, 'c) et_out list" where
  "et_acknowledge ops = map AcknowledgeOperand [0..<length ops]"

end
