(* ===== verification/Expression_Claims.thy ===== *)
theory Expression_Claims
  imports Expression_Timed_Data Timed_Data_Runs
begin

text \<open>
  Runs of a calculated item, alone and together with an operand that is a live item.
\<close>

section \<open>Runs\<close>

datatype ('a, 'q, 't, 'o) et_event =
  EtAddView 'o "'t interval"
| EtRemoveView 'o
| OperandUpdates "('a, 'q, 't) data_value list"
| OperandChanged "property list"
| OperandReady

fun et_step ::
    "'t interval_lib \<Rightarrow> ('a, 'q) expr_env \<Rightarrow> (('a, 'q, 't) data_value \<Rightarrow> bool) \<Rightarrow> 't \<Rightarrow>
     ('a, 'q, 't::{linorder,order_bot,order_top}) operand list \<Rightarrow> ('a, 'q, 't, 'o::linorder) et_event \<Rightarrow>
     ('n, 'a, 'q, 't, 'o, 'c) expression_td \<Rightarrow> ('n, 'a, 'q, 't, 'o, 'c) et_result" where
  "et_step L xe is_null now ops (EtAddView ob rng) x = do {
     (b, es) \<leftarrow> add_observer L dv_source ob rng (et_buffer x);
     et_run_handler L xe is_null now ops es (set_buffer b x)
   }"
| "et_step L xe is_null now ops (EtRemoveView ob) x = do {
     (b, es) \<leftarrow> remove_observer L dv_source ob (et_buffer x);
     et_run_handler L xe is_null now ops es (set_buffer b x)
   }"
| "et_step L xe is_null now ops (OperandUpdates vals) x = on_timed_data_updates xe ops vals x"
| "et_step L xe is_null now ops (OperandChanged properties) x = Some (on_property_changed xe now ops properties x)"
| "et_step L xe is_null now ops OperandReady x = on_timed_data_ready L xe ops x"

text \<open>A run, with the operands and the clock as they are at each event.\<close>

fun et_run ::
    "'t interval_lib \<Rightarrow> ('a, 'q) expr_env \<Rightarrow> (('a, 'q, 't) data_value \<Rightarrow> bool) \<Rightarrow>
     ('t \<times> ('a, 'q, 't::{linorder,order_bot,order_top}) operand list \<times> ('a, 'q, 't, 'o::linorder) et_event) list \<Rightarrow>
     ('n, 'a, 'q, 't, 'o, 'c) expression_td \<Rightarrow> ('n, 'a, 'q, 't, 'o, 'c) expression_td option" where
  "et_run L xe is_null [] x = Some x"
| "et_run L xe is_null ((now, ops, e) # es) x = do {
     (x', _) \<leftarrow> et_step L xe is_null now ops e x;
     et_run L xe is_null es x'
   }"

section \<open>An expression is never ready\<close>

definition unready :: "('n, 'a, 'q, 't::order_top, 'o, 'c) expression_td \<Rightarrow> bool" where
  "unready x \<longleftrightarrow> et_from x = top \<and> et_ready_from x = top \<and> tb_ready (et_buffer x) = []"

lemma operands_never_ready: "operands_ready_loop (top, top) bot ops = Some top"
proof (cases ops)
  case (Cons op ops')
  have "get_ready_from (od_ready op) (top, top) = top"
    using get_ready_from_ge [of "(top, top)" "od_ready op"] by (simp add: top_unique)
  then show ?thesis by (simp add: Cons)
qed simp

lemma update_ready_range_unready:
  "unready x \<Longrightarrow> update_ready_range L xe ops x = (if td_historical (et_base x) then Some (x, []) else None)"
  by (simp add: update_ready_range_def get_operands_ready_from_def unready_def operands_never_ready)

lemma insert_ready [simp]: "tb_ready (fst (insert_or_update ts lesser v b)) = tb_ready b"
  by (auto simp: insert_or_update_def mark_dirty_def Let_def)

lemma insert_ready' [simp]: "insert_or_update ts lesser v b = (b', ins, es) \<Longrightarrow> tb_ready b' = tb_ready b"
  using insert_ready [of ts lesser v b] by simp

lemma td_insert_ready [simp]: "tb_ready (td_buffer (fst (td_insert v td))) = tb_ready (td_buffer td)"
  by (simp add: td_insert_buffer)

lemma update_current_ready [simp]: "tb_ready (td_buffer (fst (update_current v td))) = tb_ready (td_buffer td)"
  by (auto simp: update_current_def Let_def td_insert_buffer split_beta)

lemma calculate_current_unready: "unready x \<Longrightarrow> unready (fst (calculate_current xe now ops x))"
  by (simp add: calculate_current_def Let_def unready_def split_beta)

lemma calculation_round_ready:
  "calculation_round xe hi cs b = Some (cs', b', es) \<Longrightarrow> tb_ready b' = tb_ready b"
  by (auto simp: calculation_round_def Let_def bind_eq_Some_conv split: if_splits prod.splits)

lemma calculation_loop_ready:
  "calculation_loop xe hi cs b = Some (cs', b', es) \<Longrightarrow> tb_ready b' = tb_ready b"
proof (induction xe hi cs b arbitrary: cs' b' es rule: calculation_loop.induct)
  case (1 xe hi cs b)
  show ?case
  proof (cases "\<forall>c \<in> set cs. at_end hi c")
    case True
    with "1.prems" show ?thesis by (subst (asm) calculation_loop.simps) simp
  next
    case False
    note loop = "1.prems" [unfolded calculation_loop.simps [of xe hi cs b] if_not_P [OF False]]
    obtain r where r: "calculation_round xe hi cs b = Some r" using loop by (cases "calculation_round xe hi cs b") auto
    obtain cs1 b1 es1 where e: "r = (cs1, b1, es1)" by (cases r)
    obtain es2 where "calculation_loop xe hi cs1 b1 = Some (cs', b', es2)" using loop r e by auto
    from "1.IH" [OF False r e [symmetric] refl this] r e show ?thesis by (auto dest: calculation_round_ready)
  qed
qed

lemma end_batch_ready: "end_batch ts b = Some (b', es) \<Longrightarrow> tb_ready b' = tb_ready b"
  by (auto simp: end_batch_def Let_def split: option.splits if_splits)

lemma calculate_values_unready:
  "calculate_values_in_range xe ops rng x = Some (x', outs) \<Longrightarrow> unready x \<Longrightarrow> unready x'"
  by (auto simp: calculate_values_in_range_def bind_eq_Some_conv unready_def set_buffer_def begin_update_def
      dest!: calculation_loop_ready end_batch_ready)

lemma mark_dirty_ready: "mark_dirty ts rng b = (b', es) \<Longrightarrow> tb_ready b' = tb_ready b"
  by (auto simp: mark_dirty_def split: if_splits)

lemma clear_range_ready: "clear_range ts rng b = Some (b', es) \<Longrightarrow> tb_ready b' = tb_ready b"
  by (auto simp: clear_range_def Let_def split: if_splits dest!: mark_dirty_ready)

lemma set_buffer_unready: "unready x \<Longrightarrow> tb_ready b = [] \<Longrightarrow> unready (set_buffer b x)"
  by (simp add: unready_def set_buffer_def)

lemma clamp_ranges_Nil [simp]: "clamp_ranges [] lo hi = []"
  by (simp add: clamp_ranges_def)

lemma trim_count_empty: "trim_count ts b = Some b' \<Longrightarrow> tb_ready b = [] \<Longrightarrow> tb_ready b' = []"
  by (auto simp: trim_count_def Let_def split: if_splits)

lemma trim_ready_empty:
  assumes "trim_to_observed_ranges ts b = Some b'" "tb_ready b = []"
  shows "tb_ready b' = []"
proof -
  have "tb_ready c = []" if "trim_window ts b = Some c" for c
    using that assms(2) by (auto simp: trim_window_def Let_def)
  with assms show ?thesis
    by (auto simp: trim_to_observed_ranges_def bind_eq_Some_conv split: if_splits dest: trim_count_empty)
qed

lemma update_observed_unready:
  "update_observed_ranges L ts b = Some (b', es) \<Longrightarrow> tb_ready b = [] \<Longrightarrow> tb_ready b' = []"
  by (auto simp: update_observed_ranges_def bind_eq_Some_conv dest: trim_ready_empty)

lemma et_changed_unready:
  assumes "et_on_observed_ranges_changed L xe now ops x = Some (x', outs)" "unready x"
  shows "unready x'"
proof -
  have "x' = fst (calculate_current xe now ops x)"
    using assms(1) update_ready_range_unready [OF assms(2), of L xe ops]
    by (cases "td_historical (et_base x)") (simp_all add: et_on_observed_ranges_changed_def split_beta)
  then show ?thesis using calculate_current_unready [OF assms(2)] by simp
qed

lemma et_update_unready:
  assumes "et_update_observed_ranges L xe is_null now ops h x = Some (x', outs)" "unready x"
  shows "unready x'"
proof -
  define p where "p = (let base = (if h then (et_base x)\<lparr>td_historical := True\<rparr> else et_base x)
    in if td_historical base \<and> \<not> is_null (td_current base) then td_insert (td_current base) base else (base, []))"
  have "tb_ready (td_buffer (fst p)) = tb_ready (et_buffer x)" by (simp add: p_def Let_def)
  then have "unready (x\<lparr>et_base := fst p\<rparr>)" using assms(2) by (simp add: unready_def)
  moreover have "\<exists>os. et_on_observed_ranges_changed L xe now ops (x\<lparr>et_base := fst p\<rparr>) = Some (x', os)"
    using assms(1) by (auto simp: et_update_observed_ranges_def p_def Let_def split_beta bind_eq_Some_conv)
  ultimately show ?thesis using et_changed_unready by blast
qed

lemma et_handler_unready:
  "et_run_handler L xe is_null now ops es x = Some (x', outs) \<Longrightarrow> unready x \<Longrightarrow> unready x'"
proof (induction es arbitrary: x outs)
  case (Cons e es)
  show ?case
  proof (cases e)
    case (RangesUpdated h)
    with Cons.prems(1) obtain y os os' where "et_update_observed_ranges L xe is_null now ops h x = Some (y, os)"
      "et_run_handler L xe is_null now ops es y = Some (x', os')" by (auto simp: bind_eq_Some_conv)
    with Cons.IH Cons.prems(2) et_update_unready show ?thesis by blast
  qed (use Cons in \<open>auto simp: bind_eq_Some_conv\<close>)
qed simp

lemma et_step_unready:
  assumes "et_step L xe is_null now ops e x = Some (x', outs)" "unready x"
  shows "unready x'"
proof (cases e)
  case (EtAddView ob rng)
  with assms obtain b es where "add_observer L dv_source ob rng (et_buffer x) = Some (b, es)"
    "et_run_handler L xe is_null now ops es (set_buffer b x) = Some (x', outs)" by (auto simp: bind_eq_Some_conv)
  moreover from this(1) have "tb_ready b = []"
    using assms(2) by (auto simp: add_observer_def Let_def unready_def dest!: update_observed_unready split: if_splits)
  ultimately show ?thesis using assms(2) et_handler_unready by (metis set_buffer_unready)
next
  case (EtRemoveView ob)
  with assms obtain b es where "remove_observer L dv_source ob (et_buffer x) = Some (b, es)"
    "et_run_handler L xe is_null now ops es (set_buffer b x) = Some (x', outs)" by (auto simp: bind_eq_Some_conv)
  moreover from this(1) have "tb_ready b = []"
    using assms(2) by (auto simp: remove_observer_def unready_def dest!: update_observed_unready)
  ultimately show ?thesis using assms(2) et_handler_unready by (metis set_buffer_unready)
next
  case (OperandUpdates vals)
  with assms obtain b es where "clear_range dv_source (dv_source (hd vals), dv_source (last vals)) (et_buffer x) = Some (b, es)"
    "\<exists>os. calculate_values_in_range xe ops (dv_source (hd vals), dv_source (last vals)) (set_buffer b x) = Some (x', os)"
    by (auto simp: on_timed_data_updates_def Let_def bind_eq_Some_conv)
  moreover from this(1) have "tb_ready b = []" using assms(2) by (auto simp: unready_def dest: clear_range_ready)
  ultimately show ?thesis using assms(2) calculate_values_unready by (metis set_buffer_unready)
next
  case (OperandChanged properties)
  with assms calculate_current_unready [OF assms(2), of xe now ops] show ?thesis
    by (auto simp: on_property_changed_def split: if_splits prod.splits)
next
  case OperandReady
  with assms show ?thesis by (auto simp: on_timed_data_ready_def update_ready_range_unready split: if_splits)
qed

text \<open>The history of a calculated item never becomes ready: from its construction on, whatever its
  observers and its operands do, none of its ranges is ever recorded as ready, because the time from which it asks
  its operands stays at its initial value, the mark of current values only.\<close>

theorem expression_never_ready:
  assumes "et_run L xe is_null es (fst (new_expression_td xe now ops)) = Some x"
  shows "tb_ready (et_buffer x) = []"
proof -
  have "unready (fst (new_expression_td xe now ops))"
    using calculate_current_unready
    by (auto simp: new_expression_td_def Let_def unready_def new_timed_data_def empty_buffer_def
        calculate_current_def split_beta)
  moreover have "unready x" if "et_run L xe is_null es y = Some x" "unready y" for y
    using that
  proof (induction es arbitrary: y)
    case (Cons e es)
    obtain now ops ev where e: "e = (now, ops, ev)" by (cases e)
    with Cons.prems(1) obtain z os where "et_step L xe is_null now ops ev y = Some (z, os)" "et_run L xe is_null es z = Some x"
      by (auto simp: bind_eq_Some_conv)
    with Cons.IH Cons.prems(2) et_step_unready show ?case by blast
  qed simp
  ultimately have "unready x" using assms by blast
  then show ?thesis by (simp add: unready_def)
qed

section \<open>An expression over a live item\<close>

definition operand_of :: "('n, 'a, 'q, 't, 'o, 'c) timed_data \<Rightarrow> ('a, 'q, 't) operand" where
  "operand_of td = \<lparr>od_ready = tb_ready (td_buffer td), od_values = tb_values (td_buffer td), od_current = td_current td\<rparr>"

text \<open>What a live item tells its observers, delivered to the expression that observes it as \<open>ob\<close>.\<close>

fun deliver ::
    "'t interval_lib \<Rightarrow> ('a, 'q) expr_env \<Rightarrow> 't \<Rightarrow> ('a, 'q, 't::{linorder,order_bot,order_top}) operand list \<Rightarrow> 'o \<Rightarrow>
     ('n, 'a, 'q, 't, 'o, 'c) td_out list \<Rightarrow> ('m, 'a, 'q, 't, 'p, 'k) expression_td \<Rightarrow>
     ('m, 'a, 'q, 't, 'p, 'k) expression_td option" where
  "deliver L xe now ops ob [] x = Some x"
| "deliver L xe now ops ob (out # outs) x =
     (case out of
        BufferEvent (ReadyEvent o1) \<Rightarrow>
          if o1 = ob then on_timed_data_ready L xe ops x \<bind> (\<lambda>(x', _). deliver L xe now ops ob outs x')
          else deliver L xe now ops ob outs x
      | BufferEvent (Updates o1 vals) \<Rightarrow>
          if o1 = ob then on_timed_data_updates xe ops vals x \<bind> (\<lambda>(x', _). deliver L xe now ops ob outs x')
          else deliver L xe now ops ob outs x
      | PropertyChanged o1 properties \<Rightarrow>
          deliver L xe now ops ob outs (if o1 = ob then fst (on_property_changed xe now ops properties x) else x)
      | _ \<Rightarrow> deliver L xe now ops ob outs x)"

lemma update_current_historical [simp]: "td_historical (fst (update_current v td)) = td_historical td"
  by (simp add: update_current_def Let_def td_insert_buffer split_beta)

lemma on_property_changed_historical [simp]:
  "td_historical (et_base (fst (on_property_changed xe now ops ps x))) = td_historical (et_base x)"
  by (simp add: on_property_changed_def calculate_current_def Let_def split_beta)

lemma deliver_ready_aborts:
  "BufferEvent (ReadyEvent ob) \<in> set outs \<Longrightarrow> \<not> td_historical (et_base x) \<Longrightarrow> deliver L xe now ops ob outs x = None"
proof (induction outs arbitrary: x)
  case (Cons out outs)
  show ?case
  proof (cases out)
    case (BufferEvent e)
    with Cons show ?thesis by (cases e) (auto simp: on_timed_data_ready_def on_timed_data_updates_def)
  qed (use Cons in auto)
qed simp

lemma replace_range_observers:
  assumes "samples_ok ts (tb_values b)" "replace_range ts vals b = Some (b', es)"
  shows "tb_observers b' = tb_observers b"
proof (cases "sanitize ts vals = []")
  case True
  with assms(2) show ?thesis by (simp add: replace_range_def)
next
  case False
  with assms obtain c where c: "trim_to_observed_ranges ts
      (b\<lparr>tb_values := replaced_samples ts (sanitize ts vals) (tb_values b)\<rparr>) = Some c"
    "mark_dirty ts (ts (hd (sanitize ts vals)), ts (last (sanitize ts vals))) c = (b', es)"
    by (auto simp: replace_range_eq bind_eq_Some_conv)
  have "tb_observers c = tb_observers b" using trimmed_fields(1) [OF trim_trimmed [OF c(1)]] by simp
  with c(2) show ?thesis by (auto simp: mark_dirty_def split: if_splits)
qed

lemma final_answer_tells_ready:
  assumes "td_step env (HistoryAnswer vals None) td = Some (td', outs)" "td_inv env td" "td_requests td = r # rest"
    "fst (td_query_range td) < snd (td_query_range td)" "ob \<in> set (tb_observers (td_buffer td))"
  shows "BufferEvent (ReadyEvent ob) \<in> set outs"
proof -
  have s: "samples_ok dv_source (tb_values (td_buffer td))"
    using assms(2) history_ok_samples [of "te_lib env" dv_source "td_buffer td"] by (simp add: td_inv_def td_ok_def)
  have ne: "snd (td_query_range td) \<noteq> bot" using assms(4) by auto
  obtain rng k where r: "r = (rng, k)" by (cases r)
  have "on_history_read_raw_complete env rng vals None (td\<lparr>td_requests := rest\<rparr>) = Some (td', outs)"
    using assms(1,3) r by (simp add: td_step_def)
  with ne obtain b es outs' where
    "replace_range dv_source (sanitize_answer vals) (td_buffer td) = Some (b, es)"
    "outs = map BufferEvent (es @ map ReadyEvent (tb_observers b)) @ outs'"
    by (auto simp: on_history_read_raw_complete_def ready_until_def Let_def bind_eq_Some_conv
        add_ready_range_def split: prod.splits if_splits)
  with replace_range_observers [OF s] assms(5) show ?thesis by auto
qed

text \<open>C19: An expression that shows only current values aborts as soon as a read of history, asked for by
  another observer of one of its operands, completes: the operand tells every view observer that it is ready,
  and the expression checks that it is historical.\<close>

theorem expression_aborts_on_operand_history:
  assumes "td_step env (HistoryAnswer vals None) td = Some (td', outs)" "td_inv env td" "td_requests td = r # rest"
    "fst (td_query_range td) < snd (td_query_range td)" "ob \<in> set (tb_observers (td_buffer td))"
    "\<not> td_historical (et_base x)"
  shows "deliver L xe now [operand_of td'] ob outs x = None"
  by (rule deliver_ready_aborts [OF final_answer_tells_ready [OF assms(1-5)] assms(6)])

section \<open>The current value of an expression\<close>

lemma fold_latest:
  "m = fold (\<lambda>v m. if m = bot \<or> m < dv_source v then dv_source v else m) vs m0 \<Longrightarrow>
   m0 \<le> m \<and> (\<forall>v \<in> set vs. dv_source v \<le> (m::'t::{linorder,order_bot}))
     \<and> (m = m0 \<or> m \<in> dv_source ` set vs)"
proof (induction vs arbitrary: m0)
  case (Cons v vs)
  let ?m1 = "if m0 = bot \<or> m0 < dv_source v then dv_source v else m0"
  have 1: "m0 \<le> ?m1" "dv_source v \<le> ?m1" by auto
  have "?m1 \<le> m \<and> (\<forall>v \<in> set vs. dv_source v \<le> m) \<and> (m = ?m1 \<or> m \<in> dv_source ` set vs)"
    using Cons by simp
  then show ?case using 1 order_trans [OF 1(1)] order_trans [OF 1(2)] by (auto split: if_splits)
qed simp

lemma update_current_value: "td_current (fst (update_current v td)) = v"
  by (simp add: update_current_def Let_def split_beta)

text \<open>The current value of an expression with operands carries the latest time of their current values (none
  when no operand has one), is bad exactly when one of these values is bad, and is empty when an operand has no
  value or the formula raises an exception.\<close>

theorem calculate_current_correct:
  assumes "ops \<noteq> []"
  shows "(let v = td_current (et_base (fst (calculate_current xe now ops x))) in
     (\<forall>op \<in> set ops. dv_source (od_current op) \<le> dv_source v)
     \<and> (dv_source v = bot \<or> dv_source v \<in> (dv_source \<circ> od_current) ` set ops)
     \<and> dv_qualifier v = x_qualifier xe
         (\<exists>op \<in> set ops. dv_source (od_current op) \<noteq> bot \<and> x_is_bad xe (dv_qualifier (od_current op)))
     \<and> ((\<exists>op \<in> set ops. dv_source (od_current op) = bot \<or> dv_value (od_current op) = x_null xe)
          \<or> x_eval xe (map (dv_value \<circ> od_current) ops) = None \<longrightarrow> dv_value v = x_null xe))"
proof -
  let ?live = "filter (\<lambda>v. dv_source v \<noteq> bot) (map od_current ops)"
  let ?items = "map (\<lambda>op. if dv_source (od_current op) = bot then null_value xe else od_current op) ops"
  define m where "m = fold (\<lambda>v m. if m = bot \<or> m < dv_source v then dv_source v else m) ?live bot"
  note L = fold_latest [OF m_def]
  have cur: "td_current (et_base (fst (calculate_current xe now ops x))) =
      \<lparr>dv_value = scada_calculate_status xe ?items, dv_qualifier = x_qualifier xe (\<exists>v \<in> set ?live. x_is_bad xe (dv_qualifier v)),
       dv_source = m, dv_server = now\<rparr>"
    using assms by (simp add: calculate_current_def Let_def split_beta update_current_value m_def)
  have "dv_source (od_current op) \<le> m" if "op \<in> set ops" for op
    using L that by (cases "dv_source (od_current op) = bot") auto
  moreover have "m = bot \<or> m \<in> (dv_source \<circ> od_current) ` set ops" using L by auto
  moreover have "(\<exists>v \<in> set ?live. x_is_bad xe (dv_qualifier v)) \<longleftrightarrow>
      (\<exists>op \<in> set ops. dv_source (od_current op) \<noteq> bot \<and> x_is_bad xe (dv_qualifier (od_current op)))" by auto
  moreover have "scada_calculate_status xe ?items = x_null xe"
    if "(\<exists>op \<in> set ops. dv_source (od_current op) = bot \<or> dv_value (od_current op) = x_null xe)
        \<or> x_eval xe (map (dv_value \<circ> od_current) ops) = None"
  proof (cases "\<exists>v \<in> set ?items. dv_value v = x_null xe")
    case True
    then show ?thesis unfolding scada_calculate_status_def scada_calculate_def by simp
  next
    case False
    then have live: "dv_source (od_current op) \<noteq> bot \<and> dv_value (od_current op) \<noteq> x_null xe" if "op \<in> set ops" for op
    proof -
      have "(if dv_source (od_current op) = bot then null_value xe else od_current op) \<in> set ?items" using that by auto
      with False have "dv_value (if dv_source (od_current op) = bot then null_value xe else od_current op) \<noteq> x_null xe"
        by blast
      then show ?thesis by (auto simp: null_value_def split: if_splits)
    qed
    then have eq: "map dv_value ?items = map (dv_value \<circ> od_current) ops" by auto
    from that live have "x_eval xe (map (dv_value \<circ> od_current) ops) = None" by blast
    moreover have "scada_calculate xe ?items = x_eval xe (map dv_value ?items)"
      unfolding scada_calculate_def by (rule if_not_P [OF False])
    ultimately show ?thesis unfolding scada_calculate_status_def eq by simp
  qed
  ultimately show ?thesis unfolding cur Let_def by auto
qed

section \<open>Instances\<close>

text \<open>A variant is an optional number, the formula adds the values of its operands; the empty sum raises an
  exception.\<close>

definition ex_expr :: "(nat option, bool) expr_env" where
  "ex_expr = \<lparr>x_eval = (\<lambda>vs. if vs = [] then None else Some (Some (sum_list (map the vs)))), x_null = None,
     x_is_bad = (\<lambda>q. q), x_qualifier = (\<lambda>bad. bad)\<rparr>"

definition ev :: "nat option \<Rightarrow> enat \<Rightarrow> (nat option, bool, enat) data_value" where
  "ev a t = \<lparr>dv_value = a, dv_qualifier = False, dv_source = t, dv_server = t\<rparr>"

definition ex_operand :: "(nat option, bool, enat) data_value list \<Rightarrow> (nat option, bool, enat) operand" where
  "ex_operand vals = \<lparr>od_ready = [(2, 9)], od_values = vals, od_current = (if vals = [] then ev None 0 else last vals)\<rparr>"

theorem calculate_current_correct_witness:
  "(let v = td_current (et_base (fst (calculate_current ex_expr 9 [ex_operand [ev (Some 4) 2], ex_operand []]
       (fst (new_expression_td ex_expr 9 [] :: (nat, nat option, bool, enat, nat, nat) expression_td \<times> _)))))
    in dv_source v \<in> {0, 2} \<and> 2 \<le> dv_source v \<and> dv_value v = None \<and> \<not> dv_qualifier v)"
  using calculate_current_correct [of "[ex_operand [ev (Some 4) 2], ex_operand []]" ex_expr 9
      "fst (new_expression_td ex_expr 9 [] :: (nat, nat option, bool, enat, nat, nat) expression_td \<times> _)"]
  unfolding Let_def by (simp add: ex_operand_def ev_def ex_expr_def bot_enat_def) blast

theorem expression_never_ready_witness:
  "\<exists>x. et_run merge_lib ex_expr (\<lambda>v. dv_value v = None)
       [(9, [ex_operand [ev (Some 4) 2]], EtAddView 3 (2, 8)), (9, [ex_operand [ev (Some 4) 2]], OperandReady)]
       (fst (new_expression_td ex_expr 9 [ex_operand [ev (Some 4) 2]] :: (nat, nat option, bool, enat, nat, nat) expression_td \<times> _))
     = Some x \<and> tb_ready (et_buffer x) = []"
proof -
  let ?r = "et_run merge_lib ex_expr (\<lambda>v. dv_value v = None)
       [(9, [ex_operand [ev (Some 4) 2]], EtAddView 3 (2, 8)), (9, [ex_operand [ev (Some 4) 2]], OperandReady)]
       (fst (new_expression_td ex_expr 9 [ex_operand [ev (Some 4) 2]] :: (nat, nat option, bool, enat, nat, nat) expression_td \<times> _))"
  have "?r \<noteq> None"
    by (simp add: new_expression_td_def calculate_current_def Let_def ex_operand_def ev_def ex_expr_def bot_enat_def
        top_enat_def update_current_def new_timed_data_def empty_buffer_def default_retention_def null_value_def
        scada_calculate_status_def scada_calculate_def add_observer_def merge_lib_def update_observed_ranges_def
        trim_to_observed_ranges_def set_buffer_def et_update_observed_ranges_def td_insert_def insert_or_update_def
        mark_dirty_def et_on_observed_ranges_changed_def update_ready_range_def get_operands_ready_from_def
        get_ready_from_def on_timed_data_ready_def notify_range_def view_slice_def view_from_def view_until_def)
  then obtain x where "?r = Some x" by blast
  with expression_never_ready [OF this] show ?thesis by blast
qed

theorem expression_aborts_on_operand_history_witness:
  "\<exists>td' outs. td_step (td_ex_env False) (HistoryAnswer [] None) (td_ex_querying False) = Some (td', outs)
     \<and> deliver merge_lib \<lparr>x_eval = Some \<circ> sum_list, x_null = 0, x_is_bad = (\<lambda>q. q), x_qualifier = (\<lambda>bad. bad)\<rparr> 9
         [operand_of td'] 7 outs
         (fst (new_expression_td \<lparr>x_eval = Some \<circ> sum_list, x_null = 0, x_is_bad = (\<lambda>q. q), x_qualifier = (\<lambda>bad. bad)\<rparr> 9 []
            :: (nat, nat, bool, enat, nat, nat) expression_td \<times> _)) = None"
proof -
  have q: "fst (td_query_range (td_ex_querying False)) < snd (td_query_range (td_ex_querying False))"
    by (simp add: td_ex_querying_run)
  have ob: "7 \<in> set (tb_observers (td_buffer (td_ex_querying False)))"
    by (simp add: td_ex_querying_def td_eval del: not_infinity_eq)
  obtain td' outs where s: "td_step (td_ex_env False) (HistoryAnswer [] None) (td_ex_querying False) = Some (td', outs)"
    using td_step_inv [OF td_ex_env_ok _ _ td_ex_querying_inv, of False "HistoryAnswer [] None"]
    by (auto simp: td_ex_env_def)
  have "\<not> td_historical (et_base (fst (new_expression_td
      \<lparr>x_eval = Some \<circ> sum_list, x_null = 0, x_is_bad = (\<lambda>q. q), x_qualifier = (\<lambda>bad. bad)\<rparr> 9 []
        :: (nat, nat, bool, enat, nat, nat) expression_td \<times> _)))"
    by (simp add: new_expression_td_def calculate_current_def Let_def new_timed_data_def split_beta)
  from expression_aborts_on_operand_history [OF s td_ex_querying_inv td_ex_querying_run(3) q ob this] s show ?thesis
    by blast
qed

text \<open>Over a range, the loop reads the update time from the items before it moves them, so that from the second
  round on a value carries the time of the sample before: the samples 10, 20 and 30 at times 1, 2 and 3 give 20 and
  30 at times 1 and 2.\<close>

lemma calculation_shifts_times:
  "map_option (\<lambda>(x, _). map (\<lambda>v. (dv_value v, dv_source v)) (tb_values (et_buffer x)))
     (calculate_values_in_range ex_expr [ex_operand [ev (Some 10) 1, ev (Some 20) 2, ev (Some 30) 3]] (1, 3)
       (fst (new_expression_td ex_expr 9 [] :: (nat, nat option, bool, enat, nat, nat) expression_td \<times> _)))
   = Some [(Some 20, 1), (Some 30, 2)]"
  by (simp add: calculate_values_in_range_def start_cursor_def ex_operand_def ev_def lower_bound_def Let_def
      calculation_loop.simps calculation_round_def at_end_def advance_def update_time_def scada_calculate_def
      insert_or_update_def mark_dirty_def ex_expr_def dv_lesser_def begin_update_def end_batch_def set_buffer_def
      new_expression_td_def calculate_current_def update_current_def new_timed_data_def empty_buffer_def
      null_value_def scada_calculate_status_def bot_enat_def union_range_def)

end
