(* ===== verification/Address_Space.thy ===== *)
theory Address_Space
  imports Data_Value Node_State
begin

text \<open>
  The node graph of a server: \<open>address_space/node.cpp\<close>, \<open>type_definition.cpp\<close>, \<open>address_space_impl.cpp\<close> and the
  walks over references of \<open>node_utils.cpp\<close> and \<open>address_space_util.cpp\<close>.

  A pointer to a node is the id of the node. The nodes an address space can reach, its own and those of its parent
  address space, are one heap; \<open>as_own\<close> lists the ids in its own \<open>node_map_\<close>. A node that stands in the heap no
  more is a dangling pointer: reading it is \<open>None\<close>, as is a panic and a walk that does not end. What the signals
  tell their subscribers is an output. The well-known ids of the UA standard are the fields of \<open>ua\<close>. Nodes whose
  names are those of their declaration are represented with these names in the node.
\<close>

section \<open>Nodes\<close>

definition is_type :: "node_class \<Rightarrow> bool" where
  "is_type c \<longleftrightarrow> c \<in> {ObjectTypeClass, VariableTypeClass, ReferenceTypeClass, DataTypeClass}"

record 'n ua =
  ua_null :: 'n
  has_type_definition :: 'n
  has_subtype :: 'n
  has_property :: 'n
  has_component :: 'n
  aggregates :: 'n
  has_modelling_rule :: 'n
  optional_placeholder :: 'n
  mandatory_placeholder :: 'n
  hierarchical_references :: 'n
  non_hierarchical_references :: 'n
  property_type :: 'n
  root_folder :: 'n

text \<open>A reference: its type and its node.\<close>

type_synonym 'n ref = "'n \<times> 'n"

text \<open>A variable is generic, or a property of a fixed value type that converts what it is given.\<close>

datatype 'y variable_kind = Generic | Typed 'y

record ('n, 'v, 'q, 't, 'y) anode =
  an_class :: node_class
  an_browse_name :: string
  an_display_name :: string
  an_forward :: "'n ref list"
  an_inverse :: "'n ref list"
  an_type_definition :: "'n option"
  an_supertype :: "'n option"
  an_kind :: "'y variable_kind"
  an_value :: "('v, 'q, 't) data_value"
  an_data_type :: 'n
  an_inverse_name :: string

type_synonym ('n, 'v, 'q, 't, 'y) heap = "'n \<Rightarrow> ('n, 'v, 'q, 't, 'y) anode option"

record ('n, 'v, 'q, 't, 'y) aspace =
  as_nodes :: "('n, 'v, 'q, 't, 'y) heap"
  as_own :: "'n list"

datatype ('n, 'v, 'q, 't) as_out =
  NodeDeleted 'n
| NodeModified 'n "'n list"
| NodeMoved 'n
| ReferenceAdded 'n 'n 'n
| ReferenceDeleted 'n 'n 'n
| NodeChanged 'n "attribute_id list" "'n list"    \<comment> \<open>the node's own \<open>OnNodeModified\<close>\<close>
| ForwardData 'n "('v, 'q, 't) data_value"        \<comment> \<open>to the handle of a variable, when there is one\<close>

type_synonym ('n, 'v, 'q, 't, 'y) as_result =
  "(('n, 'v, 'q, 't, 'y) aspace \<times> ('n, 'v, 'q, 't) as_out list) option"

text \<open>\<open>Node::AddReference\<close> and its override in \<open>TypeDefinition\<close>; \<open>c\<close> is the class of the other node.\<close>

definition node_add_reference ::
    "'n ua \<Rightarrow> 'n \<Rightarrow> bool \<Rightarrow> 'n \<Rightarrow> node_class \<Rightarrow> ('n, 'v, 'q, 't, 'y) anode \<Rightarrow> ('n, 'v, 'q, 't, 'y) anode option" where
  "node_add_reference U ty forward other c nd = do {
     check ((ty, other) \<notin> set (if forward then an_forward nd else an_inverse nd));
     let nd1 = (if forward then nd\<lparr>an_forward := an_forward nd @ [(ty, other)]\<rparr>
                else nd\<lparr>an_inverse := an_inverse nd @ [(ty, other)]\<rparr>);
     if forward \<and> ty = has_type_definition U
     then do { check (an_type_definition nd1 = None); check (is_type c);
               Some (nd1\<lparr>an_type_definition := Some other\<rparr>) }
     else Some nd1
   }"

definition type_add_reference ::
    "'n ua \<Rightarrow> 'n \<Rightarrow> bool \<Rightarrow> 'n \<Rightarrow> node_class \<Rightarrow> ('n, 'v, 'q, 't, 'y) anode \<Rightarrow> ('n, 'v, 'q, 't, 'y) anode option" where
  "type_add_reference U ty forward other c nd = do {
     nd1 \<leftarrow> node_add_reference U ty forward other c nd;
     if is_type (an_class nd) \<and> \<not> forward \<and> ty = has_subtype U
     then do { check (an_supertype nd1 = None); check (is_type c);
               Some (nd1\<lparr>an_supertype := Some other\<rparr>) }
     else Some nd1
   }"

text \<open>The search from the back, and the erasure of what it finds.\<close>

definition remove_last :: "'a \<Rightarrow> 'a list \<Rightarrow> 'a list" where
  "remove_last x xs = rev (remove1 x (rev xs))"

definition node_delete_reference ::
    "'n ua \<Rightarrow> 'n \<Rightarrow> bool \<Rightarrow> 'n \<Rightarrow> ('n, 'v, 'q, 't, 'y) anode \<Rightarrow> ('n, 'v, 'q, 't, 'y) anode option" where
  "node_delete_reference U ty forward other nd = do {
     nd1 \<leftarrow> (if forward \<and> ty = has_type_definition U
            then do { check (an_type_definition nd = Some other); Some (nd\<lparr>an_type_definition := None\<rparr>) }
            else Some nd);
     check ((ty, other) \<in> set (if forward then an_forward nd1 else an_inverse nd1));
     Some (if forward then nd1\<lparr>an_forward := remove_last (ty, other) (an_forward nd1)\<rparr>
           else nd1\<lparr>an_inverse := remove_last (ty, other) (an_inverse nd1)\<rparr>)
   }"

definition type_delete_reference ::
    "'n ua \<Rightarrow> 'n \<Rightarrow> bool \<Rightarrow> 'n \<Rightarrow> ('n, 'v, 'q, 't, 'y) anode \<Rightarrow> ('n, 'v, 'q, 't, 'y) anode option" where
  "type_delete_reference U ty forward other nd = do {
     nd1 \<leftarrow> (if is_type (an_class nd) \<and> \<not> forward \<and> ty = has_subtype U
            then do { check (an_supertype nd = Some other); Some (nd\<lparr>an_supertype := None\<rparr>) }
            else Some nd);
     node_delete_reference U ty forward other nd1
   }"

section \<open>Walks over references\<close>

text \<open>\<open>IsSubtypeOf\<close> over the supertype pointers.\<close>

partial_function (option) is_subtype_of ::
    "('n, 'v, 'q, 't, 'y) heap \<Rightarrow> 'n \<Rightarrow> 'n \<Rightarrow> bool option" where
  "is_subtype_of h ty super =
     (case h ty of
        None \<Rightarrow> None
      | Some nd \<Rightarrow> if ty = super then Some True
                   else (case an_supertype nd of None \<Rightarrow> Some False | Some t \<Rightarrow> is_subtype_of h t super))"

declare is_subtype_of.simps [code]

text \<open>\<open>IsSubtypeOf\<close> by ids, of \<open>address_space_util.cpp\<close>.\<close>

definition is_subtype_of_id :: "('n, 'v, 'q, 't, 'y) heap \<Rightarrow> 'n \<Rightarrow> 'n \<Rightarrow> bool option" where
  "is_subtype_of_id h ty super =
     (case h ty of
        Some nd \<Rightarrow> if is_type (an_class nd) then is_subtype_of h ty super else Some False
      | None \<Rightarrow> Some False)"

definition is_ref_subtype_of :: "('n, 'v, 'q, 't, 'y) heap \<Rightarrow> 'n \<Rightarrow> bool \<Rightarrow> 'n ref \<Rightarrow> bool option" where
  "is_ref_subtype_of h ty include_subtypes ref =
     (if include_subtypes then is_subtype_of h (fst ref) ty else Some (fst ref = ty))"

fun filter_references ::
    "('n, 'v, 'q, 't, 'y) heap \<Rightarrow> 'n \<Rightarrow> bool \<Rightarrow> 'n ref list \<Rightarrow> 'n ref list option" where
  "filter_references h ty include_subtypes [] = Some []"
| "filter_references h ty include_subtypes (ref # refs) = do {
     b \<leftarrow> is_ref_subtype_of h ty include_subtypes ref;
     rest \<leftarrow> filter_references h ty include_subtypes refs;
     Some (if b then ref # rest else rest)
   }"

text \<open>The first reference of a type; the others are not looked at.\<close>

fun first_reference :: "('n, 'v, 'q, 't, 'y) heap \<Rightarrow> 'n \<Rightarrow> 'n ref list \<Rightarrow> 'n ref option option" where
  "first_reference h ty [] = Some None"
| "first_reference h ty (ref # refs) = do {
     b \<leftarrow> is_subtype_of h (fst ref) ty;
     if b then Some (Some ref) else first_reference h ty refs
   }"

definition find_node_reference ::
    "('n, 'v, 'q, 't, 'y) heap \<Rightarrow> 'n \<Rightarrow> 'n \<Rightarrow> bool \<Rightarrow> 'n ref option option" where
  "find_node_reference h n ty forward = do {
     nd \<leftarrow> h n;
     first_reference h ty (if forward then an_forward nd else an_inverse nd)
   }"

definition get_parent_reference :: "'n ua \<Rightarrow> ('n, 'v, 'q, 't, 'y) heap \<Rightarrow> 'n \<Rightarrow> 'n ref option option" where
  "get_parent_reference U h n = find_node_reference h n (hierarchical_references U) False"

definition get_parent :: "'n ua \<Rightarrow> ('n, 'v, 'q, 't, 'y) heap \<Rightarrow> 'n \<Rightarrow> 'n option option" where
  "get_parent U h n = map_option (map_option snd) (get_parent_reference U h n)"

definition first_child :: "'n ua \<Rightarrow> ('n, 'v, 'q, 't, 'y) heap \<Rightarrow> 'n \<Rightarrow> 'n option option" where
  "first_child U h n = map_option (map_option snd) (find_node_reference h n (hierarchical_references U) True)"

section \<open>References of the address space\<close>

definition notify_reference ::
    "'n ua \<Rightarrow> ('n, 'v, 'q, 't, 'y) heap \<Rightarrow> 'n \<Rightarrow> 'n \<Rightarrow> 'n \<Rightarrow> bool \<Rightarrow> ('n, 'v, 'q, 't) as_out list option" where
  "notify_reference U h ty source target added = do {
     moved \<leftarrow> is_subtype_of h ty (hierarchical_references U);
     Some ((if added then ReferenceAdded ty source target else ReferenceDeleted ty source target)
           # (if moved then [NodeMoved target] else []))
   }"

definition add_reference ::
    "'n ua \<Rightarrow> 'n \<Rightarrow> 'n \<Rightarrow> 'n \<Rightarrow> ('n, 'v, 'q, 't, 'y) aspace \<Rightarrow> ('n, 'v, 'q, 't, 'y) as_result" where
  "add_reference U ty source target sp = do {
     let h = as_nodes sp;
     s \<leftarrow> h source;
     t \<leftarrow> h target;
     s' \<leftarrow> type_add_reference U ty True target (an_class t) s;
     let h1 = h(source \<mapsto> s');
     t1 \<leftarrow> h1 target;
     t' \<leftarrow> type_add_reference U ty False source (an_class s) t1;
     let h2 = h1(target \<mapsto> t');
     outs \<leftarrow> notify_reference U h2 ty source target True;
     Some (sp\<lparr>as_nodes := h2\<rparr>, outs)
   }"

definition delete_reference ::
    "'n ua \<Rightarrow> 'n \<Rightarrow> 'n \<Rightarrow> 'n \<Rightarrow> ('n, 'v, 'q, 't, 'y) aspace \<Rightarrow> ('n, 'v, 'q, 't, 'y) as_result" where
  "delete_reference U ty source target sp = do {
     let h = as_nodes sp;
     s \<leftarrow> h source;
     s' \<leftarrow> type_delete_reference U ty True target s;
     let h1 = h(source \<mapsto> s');
     t \<leftarrow> h1 target;
     t' \<leftarrow> type_delete_reference U ty False source t;
     let h2 = h1(target \<mapsto> t');
     outs \<leftarrow> notify_reference U h2 ty source target False;
     Some (sp\<lparr>as_nodes := h2\<rparr>, outs)
   }"

text \<open>\<open>AddReference\<close> and \<open>DeleteReference\<close> by ids, of \<open>address_space_util.cpp\<close>.\<close>

definition add_reference_by_id ::
    "'n ua \<Rightarrow> 'n \<Rightarrow> 'n \<Rightarrow> 'n \<Rightarrow> ('n, 'v, 'q, 't, 'y) aspace \<Rightarrow> ('n, 'v, 'q, 't, 'y) as_result" where
  "add_reference_by_id U ty source target sp = do {
     check (as_nodes sp source \<noteq> None);
     check (as_nodes sp target \<noteq> None);
     nd \<leftarrow> as_nodes sp ty;
     check (an_class nd = ReferenceTypeClass);
     add_reference U ty source target sp
   }"

definition delete_reference_by_id ::
    "'n ua \<Rightarrow> 'n \<Rightarrow> 'n \<Rightarrow> 'n \<Rightarrow> ('n, 'v, 'q, 't, 'y) aspace \<Rightarrow> ('n, 'v, 'q, 't, 'y) as_result" where
  "delete_reference_by_id U ty source target sp = do {
     nd \<leftarrow> as_nodes sp ty;
     check (an_class nd = ReferenceTypeClass);
     check (as_nodes sp source \<noteq> None);
     check (as_nodes sp target \<noteq> None);
     delete_reference U ty source target sp
   }"

text \<open>\<open>DeleteAllReferences\<close>: two loops that take the last reference each time.\<close>

partial_function (option) delete_inverse_references ::
    "'n ua \<Rightarrow> 'n \<Rightarrow> ('n, 'v, 'q, 't, 'y) aspace \<Rightarrow> ('n, 'v, 'q, 't, 'y) as_result" where
  "delete_inverse_references U n sp = do {
     nd \<leftarrow> as_nodes sp n;
     if an_inverse nd = [] then Some (sp, [])
     else do {
       (sp1, outs) \<leftarrow> delete_reference U (fst (last (an_inverse nd))) (snd (last (an_inverse nd))) n sp;
       (sp2, outs') \<leftarrow> delete_inverse_references U n sp1;
       Some (sp2, outs @ outs')
     }
   }"

partial_function (option) delete_forward_references ::
    "'n ua \<Rightarrow> 'n \<Rightarrow> ('n, 'v, 'q, 't, 'y) aspace \<Rightarrow> ('n, 'v, 'q, 't, 'y) as_result" where
  "delete_forward_references U n sp = do {
     nd \<leftarrow> as_nodes sp n;
     if an_forward nd = [] then Some (sp, [])
     else do {
       (sp1, outs) \<leftarrow> delete_reference U (fst (last (an_forward nd))) n (snd (last (an_forward nd))) sp;
       (sp2, outs') \<leftarrow> delete_forward_references U n sp1;
       Some (sp2, outs @ outs')
     }
   }"

declare delete_inverse_references.simps [code] delete_forward_references.simps [code]

definition delete_all_references ::
    "'n ua \<Rightarrow> 'n \<Rightarrow> ('n, 'v, 'q, 't, 'y) aspace \<Rightarrow> ('n, 'v, 'q, 't, 'y) as_result" where
  "delete_all_references U n sp = do {
     (sp1, outs) \<leftarrow> delete_inverse_references U n sp;
     (sp2, outs') \<leftarrow> delete_forward_references U n sp1;
     Some (sp2, outs @ outs')
   }"

section \<open>Nodes of the address space\<close>

definition as_add_node ::
    "'n ua \<Rightarrow> 'n \<Rightarrow> ('n, 'v, 'q, 't, 'y) anode \<Rightarrow> ('n, 'v, 'q, 't, 'y) aspace \<Rightarrow> ('n, 'v, 'q, 't, 'y) aspace option" where
  "as_add_node U n nd sp = do {
     check (n \<noteq> ua_null U);
     check (as_nodes sp n = None);
     Some (sp\<lparr>as_nodes := (as_nodes sp)(n \<mapsto> nd), as_own := as_own sp @ [n]\<rparr>)
   }"

definition add_node_and_reference ::
    "'n ua \<Rightarrow> 'n \<Rightarrow> ('n, 'v, 'q, 't, 'y) anode \<Rightarrow> 'n \<Rightarrow> 'n \<Rightarrow> ('n, 'v, 'q, 't, 'y) aspace \<Rightarrow>
     ('n, 'v, 'q, 't, 'y) as_result" where
  "add_node_and_reference U n nd ty parent sp = do {
     check (as_nodes sp parent \<noteq> None);
     sp1 \<leftarrow> as_add_node U n nd sp;
     tyn \<leftarrow> as_nodes sp1 ty;
     check (an_class tyn = ReferenceTypeClass);
     add_reference U ty parent n sp1
   }"

text \<open>\<open>DeleteNode\<close>: the first child is deleted until there is none. The loop stands at the same node after a
  child is gone.\<close>

partial_function (option) delete_node ::
    "'n ua \<Rightarrow> 'n \<Rightarrow> ('n, 'v, 'q, 't, 'y) aspace \<Rightarrow> ('n, 'v, 'q, 't, 'y) as_result" where
  "delete_node U n sp =
     (if n \<notin> set (as_own sp) then Some (sp, [])
      else do {
        child \<leftarrow> first_child U (as_nodes sp) n;
        (case child of
           Some c \<Rightarrow> do {
             (sp1, outs) \<leftarrow> delete_node U c sp;
             (sp2, outs') \<leftarrow> delete_node U n sp1;
             Some (sp2, outs @ outs')
           }
         | None \<Rightarrow> do {
             (sp1, outs) \<leftarrow> delete_all_references U n sp;
             Some (sp1\<lparr>as_nodes := (as_nodes sp1)(n := None), as_own := removeAll n (as_own sp1)\<rparr>,
                   outs @ [NodeDeleted n])
           })
      })"

declare delete_node.simps [code]

text \<open>\<open>Clear\<close>, with the order in which the hash map gives its nodes.\<close>

fun delete_references_of ::
    "'n ua \<Rightarrow> 'n list \<Rightarrow> ('n, 'v, 'q, 't, 'y) aspace \<Rightarrow> ('n, 'v, 'q, 't, 'y) as_result" where
  "delete_references_of U [] sp = Some (sp, [])"
| "delete_references_of U (n # ns) sp = do {
     (sp1, outs) \<leftarrow> delete_all_references U n sp;
     (sp2, outs') \<leftarrow> delete_references_of U ns sp1;
     Some (sp2, outs @ outs')
   }"

definition as_clear ::
    "'n ua \<Rightarrow> 'n list \<Rightarrow> ('n, 'v, 'q, 't, 'y) aspace \<Rightarrow> ('n, 'v, 'q, 't, 'y) as_result" where
  "as_clear U order sp = do {
     (sp1, outs) \<leftarrow> delete_references_of U order sp;
     Some (sp1\<lparr>as_nodes := (\<lambda>n. if n \<in> set (as_own sp1) then None else as_nodes sp1 n), as_own := []\<rparr>, outs)
   }"

end
