(* ===== verification/Address_Space_Facts.thy ===== *)
theory Address_Space_Facts
  imports Address_Space
begin

text \<open>
  The invariant of the node graph: every reference stands at both of its ends, and the type definition and
  supertype pointers are the ends of the references they stand for. Each operation is described by what it does to
  the reference lists and pointers of every node.
\<close>

section \<open>What a heap says of a node\<close>

definition fw :: "('n, 'v, 'q, 't, 'y) heap \<Rightarrow> 'n \<Rightarrow> 'n ref list" where
  "fw h n = (case h n of Some nd \<Rightarrow> an_forward nd | None \<Rightarrow> [])"

definition iv :: "('n, 'v, 'q, 't, 'y) heap \<Rightarrow> 'n \<Rightarrow> 'n ref list" where
  "iv h n = (case h n of Some nd \<Rightarrow> an_inverse nd | None \<Rightarrow> [])"

definition td :: "('n, 'v, 'q, 't, 'y) heap \<Rightarrow> 'n \<Rightarrow> 'n option" where
  "td h n = (case h n of Some nd \<Rightarrow> an_type_definition nd | None \<Rightarrow> None)"

definition st :: "('n, 'v, 'q, 't, 'y) heap \<Rightarrow> 'n \<Rightarrow> 'n option" where
  "st h n = (case h n of Some nd \<Rightarrow> an_supertype nd | None \<Rightarrow> None)"

definition cls :: "('n, 'v, 'q, 't, 'y) heap \<Rightarrow> 'n \<Rightarrow> node_class option" where
  "cls h n = map_option an_class (h n)"

lemmas node_views = fw_def iv_def td_def st_def cls_def

definition type_node :: "('n, 'v, 'q, 't, 'y) heap \<Rightarrow> 'n \<Rightarrow> bool" where
  "type_node h n \<longleftrightarrow> (\<exists>c. cls h n = Some c \<and> is_type c)"

definition graph_ok :: "'n ua \<Rightarrow> ('n, 'v, 'q, 't, 'y) heap \<Rightarrow> bool" where
  "graph_ok U h \<longleftrightarrow>
     (\<forall>s ty t. (ty, t) \<in> set (fw h s) \<longleftrightarrow> (ty, s) \<in> set (iv h t))
     \<and> (\<forall>n. distinct (fw h n) \<and> distinct (iv h n))
     \<and> (\<forall>n t. td h n = Some t \<longleftrightarrow> (has_type_definition U, t) \<in> set (fw h n))
     \<and> (\<forall>n t. st h n = Some t \<longleftrightarrow> type_node h n \<and> (has_subtype U, t) \<in> set (iv h n))"

lemma graph_okD:
  assumes "graph_ok U h"
  shows "(ty, t) \<in> set (fw h s) \<longleftrightarrow> (ty, s) \<in> set (iv h t)"
    and "distinct (fw h n)" "distinct (iv h n)"
    and "td h n = Some t \<longleftrightarrow> (has_type_definition U, t) \<in> set (fw h n)"
    and "st h n = Some t \<longleftrightarrow> type_node h n \<and> (has_subtype U, t) \<in> set (iv h n)"
  using assms unfolding graph_ok_def by blast+

lemma ends_in_heap:
  assumes "graph_ok U h" "(ty, t) \<in> set (fw h s)"
  shows "h s \<noteq> None" "h t \<noteq> None"
  using assms graph_okD(1) [OF assms(1), of ty t s]
  by (cases "h s"; cases "h t"; auto simp: fw_def iv_def)+

section \<open>Removing an element\<close>

lemma set_remove_last: "distinct xs \<Longrightarrow> set (remove_last x xs) = set xs - {x}"
  by (simp add: remove_last_def)

lemma distinct_remove_last: "distinct xs \<Longrightarrow> distinct (remove_last x xs)"
  by (simp add: remove_last_def)

lemma remove_last_last: "xs \<noteq> [] \<Longrightarrow> remove_last (last xs) xs = butlast xs"
  by (cases xs rule: rev_cases) (simp_all add: remove_last_def)

lemma length_remove_last: "x \<in> set xs \<Longrightarrow> length (remove_last x xs) < length xs"
  using length_pos_if_in_set [of x xs] by (simp add: remove_last_def length_remove1)

section \<open>Adding a reference\<close>

text \<open>What a node says beside its references: class, names, value and data type.\<close>

definition strip :: "('n, 'v, 'q, 't, 'y) anode \<Rightarrow> ('n, 'v, 'q, 't, 'y) anode" where
  "strip nd = nd\<lparr>an_forward := [], an_inverse := [], an_type_definition := None, an_supertype := None\<rparr>"

definition body :: "('n, 'v, 'q, 't, 'y) heap \<Rightarrow> ('n, 'v, 'q, 't, 'y) heap" where
  "body h n = map_option strip (h n)"

text \<open>\<open>changed h h' f i d s\<close>: the heap \<open>h'\<close> has the nodes of \<open>h\<close> with the given lists and pointers.\<close>

definition changed where
  "changed h h' f i d s \<longleftrightarrow> body h' = body h \<and> fw h' = f \<and> iv h' = i \<and> td h' = d \<and> st h' = s"

lemma body_dom: "body h' = body h \<Longrightarrow> h' n = None \<longleftrightarrow> h n = None"
  by (metis body_def option.map_disc_iff)

lemma cls_body: "cls h n = map_option an_class (body h n)"
  by (cases "h n") (simp_all add: cls_def body_def strip_def)

lemma body_cls: "body h' = body h \<Longrightarrow> cls h' = cls h"
  by (simp add: fun_eq_iff cls_body)

lemma body_type_node: "body h' = body h \<Longrightarrow> type_node h' = type_node h"
  by (drule body_cls) (simp add: type_node_def [abs_def])

lemma view_update [simp]:
  "fw (h(n \<mapsto> nd)) = (fw h)(n := an_forward nd)" "iv (h(n \<mapsto> nd)) = (iv h)(n := an_inverse nd)"
  "td (h(n \<mapsto> nd)) = (td h)(n := an_type_definition nd)" "st (h(n \<mapsto> nd)) = (st h)(n := an_supertype nd)"
  "cls (h(n \<mapsto> nd)) = (cls h)(n \<mapsto> an_class nd)" "body (h(n \<mapsto> nd)) = (body h)(n \<mapsto> strip nd)"
  by (auto simp: node_views body_def fun_eq_iff)

lemma view_Some:
  assumes "h n = Some nd"
  shows "an_forward nd = fw h n" "an_inverse nd = iv h n" "an_type_definition nd = td h n"
    "an_supertype nd = st h n" "cls h n = Some (an_class nd)" "is_type (an_class nd) = type_node h n"
    "body h n = Some (strip nd)"
  using assms by (simp_all add: node_views type_node_def body_def)

lemma strip_simps [simp]:
  "strip (nd\<lparr>an_forward := f\<rparr>) = strip nd" "strip (nd\<lparr>an_inverse := i\<rparr>) = strip nd"
  "strip (nd\<lparr>an_type_definition := d\<rparr>) = strip nd" "strip (nd\<lparr>an_supertype := s\<rparr>) = strip nd"
  by (cases nd; simp add: strip_def)+

lemma add_forward_eq:
  "type_add_reference U ty True t c nd = Some nd' \<longleftrightarrow>
     (ty, t) \<notin> set (an_forward nd)
     \<and> (ty = has_type_definition U \<longrightarrow> an_type_definition nd = None \<and> is_type c)
     \<and> nd' = nd\<lparr>an_forward := an_forward nd @ [(ty, t)],
          an_type_definition := (if ty = has_type_definition U then Some t else an_type_definition nd)\<rparr>"
  by (cases nd) (auto simp: type_add_reference_def node_add_reference_def Let_def)

lemma add_inverse_eq:
  "type_add_reference U ty False s c nd = Some nd' \<longleftrightarrow>
     (ty, s) \<notin> set (an_inverse nd)
     \<and> (ty = has_subtype U \<and> is_type (an_class nd) \<longrightarrow> an_supertype nd = None \<and> is_type c)
     \<and> nd' = nd\<lparr>an_inverse := an_inverse nd @ [(ty, s)],
          an_supertype := (if ty = has_subtype U \<and> is_type (an_class nd) then Some s else an_supertype nd)\<rparr>"
  by (cases nd) (auto simp: type_add_reference_def node_add_reference_def Let_def)

lemma add_reference_changed:
  assumes "add_reference U ty s t sp = Some (sp', outs)"
  defines "h \<equiv> as_nodes sp"
  shows "changed h (as_nodes sp')
      ((fw h)(s := fw h s @ [(ty, t)])) ((iv h)(t := iv h t @ [(ty, s)]))
      (if ty = has_type_definition U then (td h)(s \<mapsto> t) else td h)
      (if ty = has_subtype U \<and> type_node h t then (st h)(t \<mapsto> s) else st h)"
    and "as_own sp' = as_own sp" "(ty, t) \<notin> set (fw h s)" "(ty, s) \<notin> set (iv h t)"
    and "ty = has_type_definition U \<longrightarrow> td h s = None \<and> type_node h t"
    and "ty = has_subtype U \<and> type_node h t \<longrightarrow> st h t = None \<and> type_node h s"
    and "h s \<noteq> None" "h t \<noteq> None"
proof -
  obtain ns nt ns' where 1: "h s = Some ns" "h t = Some nt" "type_add_reference U ty True t (an_class nt) ns = Some ns'"
    and rest: "do { let h1 = h(s \<mapsto> ns'); t1 \<leftarrow> h1 t; t' \<leftarrow> type_add_reference U ty False s (an_class ns) t1;
       let h2 = h1(t \<mapsto> t'); outs \<leftarrow> notify_reference U h2 ty s t True; Some (sp\<lparr>as_nodes := h2\<rparr>, outs) } = Some (sp', outs)"
    using assms(1) by (auto simp: add_reference_def h_def Let_def bind_eq_Some_conv)
  define h1 where "h1 = h(s \<mapsto> ns')"
  obtain t1 t' where 2: "h1 t = Some t1" "type_add_reference U ty False s (an_class ns) t1 = Some t'"
    and sp': "sp' = sp\<lparr>as_nodes := h1(t \<mapsto> t')\<rparr>"
    using rest by (auto simp: h1_def [symmetric] Let_def bind_eq_Some_conv)
  note f = 1(3) [unfolded add_forward_eq] and i = 2(2) [unfolded add_inverse_eq]
  note v = view_Some [where h = h, OF 1(1)] view_Some [where h = h, OF 1(2)] view_Some [where h = h1, OF 2(1)]
  have h1: "fw h1 = (fw h)(s := fw h s @ [(ty, t)])" "iv h1 = iv h" "st h1 = st h" "cls h1 = cls h" "body h1 = body h"
    "td h1 = (if ty = has_type_definition U then (td h)(s \<mapsto> t) else td h)"
    using f v by (auto simp: h1_def fun_eq_iff)
  have "type_node h1 = type_node h" by (simp add: type_node_def h1 fun_eq_iff)
  then show "changed h (as_nodes sp')
      ((fw h)(s := fw h s @ [(ty, t)])) ((iv h)(t := iv h t @ [(ty, s)]))
      (if ty = has_type_definition U then (td h)(s \<mapsto> t) else td h)
      (if ty = has_subtype U \<and> type_node h t then (st h)(t \<mapsto> s) else st h)"
    using i v(15-21) h1 by (auto simp: changed_def sp' fun_eq_iff)
  show "as_own sp' = as_own sp" by (simp add: sp')
  show "(ty, t) \<notin> set (fw h s)" "ty = has_type_definition U \<longrightarrow> td h s = None \<and> type_node h t"
    using f v by auto
  show "(ty, s) \<notin> set (iv h t)" "ty = has_subtype U \<and> type_node h t \<longrightarrow> st h t = None \<and> type_node h s"
    using i v h1 \<open>type_node h1 = type_node h\<close> by auto
  show "h s \<noteq> None" "h t \<noteq> None" using 1 by auto
qed


section \<open>Deleting a reference\<close>

lemma delete_forward_eq:
  "type_delete_reference U ty True t nd = Some nd' \<longleftrightarrow>
     (ty, t) \<in> set (an_forward nd) \<and> (ty = has_type_definition U \<longrightarrow> an_type_definition nd = Some t)
     \<and> nd' = nd\<lparr>an_forward := remove_last (ty, t) (an_forward nd),
          an_type_definition := (if ty = has_type_definition U then None else an_type_definition nd)\<rparr>"
  by (cases nd) (auto simp: type_delete_reference_def node_delete_reference_def Let_def)

lemma delete_inverse_eq:
  "type_delete_reference U ty False s nd = Some nd' \<longleftrightarrow>
     (ty, s) \<in> set (an_inverse nd) \<and> (ty = has_subtype U \<and> is_type (an_class nd) \<longrightarrow> an_supertype nd = Some s)
     \<and> nd' = nd\<lparr>an_inverse := remove_last (ty, s) (an_inverse nd),
          an_supertype := (if ty = has_subtype U \<and> is_type (an_class nd) then None else an_supertype nd)\<rparr>"
  by (cases nd) (auto simp: type_delete_reference_def node_delete_reference_def Let_def)

lemma delete_reference_changed:
  assumes "delete_reference U ty s t sp = Some (sp', outs)"
  defines "h \<equiv> as_nodes sp"
  shows "changed h (as_nodes sp')
      ((fw h)(s := remove_last (ty, t) (fw h s))) ((iv h)(t := remove_last (ty, s) (iv h t)))
      (if ty = has_type_definition U then (td h)(s := None) else td h)
      (if ty = has_subtype U \<and> type_node h t then (st h)(t := None) else st h)"
    and "as_own sp' = as_own sp" "(ty, t) \<in> set (fw h s)" "(ty, s) \<in> set (iv h t)"
proof -
  obtain ns ns' where 1: "h s = Some ns" "type_delete_reference U ty True t ns = Some ns'"
    and rest: "do { let h1 = h(s \<mapsto> ns'); t1 \<leftarrow> h1 t; t' \<leftarrow> type_delete_reference U ty False s t1;
       let h2 = h1(t \<mapsto> t'); outs \<leftarrow> notify_reference U h2 ty s t False; Some (sp\<lparr>as_nodes := h2\<rparr>, outs) } = Some (sp', outs)"
    using assms(1) by (auto simp: delete_reference_def h_def Let_def bind_eq_Some_conv)
  define h1 where "h1 = h(s \<mapsto> ns')"
  obtain t1 t' where 2: "h1 t = Some t1" "type_delete_reference U ty False s t1 = Some t'"
    and sp': "sp' = sp\<lparr>as_nodes := h1(t \<mapsto> t')\<rparr>"
    using rest by (auto simp: h1_def [symmetric] Let_def bind_eq_Some_conv)
  note f = 1(2) [unfolded delete_forward_eq] and i = 2(2) [unfolded delete_inverse_eq]
  note v = view_Some [where h = h, OF 1(1)] view_Some [where h = h1, OF 2(1)]
  have h1: "fw h1 = (fw h)(s := remove_last (ty, t) (fw h s))" "iv h1 = iv h" "st h1 = st h" "body h1 = body h"
    "td h1 = (if ty = has_type_definition U then (td h)(s := None) else td h)"
    using f v by (auto simp: h1_def fun_eq_iff)
  have "type_node h1 = type_node h" by (rule body_type_node [OF h1(4)])
  then show "changed h (as_nodes sp')
      ((fw h)(s := remove_last (ty, t) (fw h s))) ((iv h)(t := remove_last (ty, s) (iv h t)))
      (if ty = has_type_definition U then (td h)(s := None) else td h)
      (if ty = has_subtype U \<and> type_node h t then (st h)(t := None) else st h)"
    using i v(8-14) h1 by (auto simp: changed_def sp' fun_eq_iff)
  show "as_own sp' = as_own sp" by (simp add: sp')
  show "(ty, t) \<in> set (fw h s)" "(ty, s) \<in> set (iv h t)" using f i v h1 by auto
qed

section \<open>The invariant\<close>

lemma add_reference_ok:
  assumes ok: "graph_ok U (as_nodes sp)" and ret: "add_reference U ty s t sp = Some (sp', outs)"
  shows "graph_ok U (as_nodes sp')"
proof -
  let ?h = "as_nodes sp" and ?h' = "as_nodes sp'"
  note A = add_reference_changed [OF ret]
  note C = A(1) [unfolded changed_def]
  have tn: "type_node ?h' = type_node ?h" using C body_type_node by blast
  show ?thesis unfolding graph_ok_def tn
  proof (intro conjI allI)
    fix a x b show "(x, b) \<in> set (fw ?h' a) \<longleftrightarrow> (x, a) \<in> set (iv ?h' b)"
      using C graph_okD(1) [OF ok, of x b a] by auto
  next
    fix n show "distinct (fw ?h' n)" "distinct (iv ?h' n)"
      using C A(3,4) graph_okD(2,3) [OF ok, of n] by auto
  next
    fix n x show "td ?h' n = Some x \<longleftrightarrow> (has_type_definition U, x) \<in> set (fw ?h' n)"
      using C A(5) graph_okD(4) [OF ok, of n x] by auto
  next
    fix n x show "st ?h' n = Some x \<longleftrightarrow> type_node ?h n \<and> (has_subtype U, x) \<in> set (iv ?h' n)"
      using C A(6) graph_okD(5) [OF ok, of n x] by auto
  qed
qed

lemma delete_reference_ok:
  assumes ok: "graph_ok U (as_nodes sp)" and ret: "delete_reference U ty s t sp = Some (sp', outs)"
  shows "graph_ok U (as_nodes sp')"
proof -
  let ?h = "as_nodes sp" and ?h' = "as_nodes sp'"
  note C = delete_reference_changed(1) [OF ret, unfolded changed_def]
  note D = graph_okD(2) [OF ok] graph_okD(3) [OF ok]
  note M = delete_reference_changed(3,4) [OF ret]
  have TD: "x = t" if "(has_type_definition U, x) \<in> set (fw ?h s)" "ty = has_type_definition U" for x
    using that M(1) graph_okD(4) [OF ok, of s] by (metis option.inject)
  have ST: "x = s" if "(has_subtype U, x) \<in> set (iv ?h t)" "ty = has_subtype U" "type_node ?h t" for x
    using that M(2) graph_okD(5) [OF ok, of t] by (metis option.inject)
  have tn: "type_node ?h' = type_node ?h" using C body_type_node by blast
  show ?thesis unfolding graph_ok_def tn
  proof (intro conjI allI)
    fix a x b show "(x, b) \<in> set (fw ?h' a) \<longleftrightarrow> (x, a) \<in> set (iv ?h' b)"
      using C D graph_okD(1) [OF ok, of x b a] by (auto simp: set_remove_last)
  next
    fix n show "distinct (fw ?h' n)" "distinct (iv ?h' n)"
      using C D by (auto intro: distinct_remove_last)
  next
    fix n x show "td ?h' n = Some x \<longleftrightarrow> (has_type_definition U, x) \<in> set (fw ?h' n)"
      using C D TD graph_okD(4) [OF ok, of n] by (auto simp: set_remove_last)
  next
    fix n x show "st ?h' n = Some x \<longleftrightarrow> type_node ?h n \<and> (has_subtype U, x) \<in> set (iv ?h' n)"
      using C D ST graph_okD(5) [OF ok, of n] by (auto simp: set_remove_last)
  qed
qed

section \<open>Deleting all references of a node\<close>

lemma filter_remove_last: "\<not> P x \<Longrightarrow> filter P (remove_last x xs) = filter P xs"
proof -
  assume "\<not> P x"
  then have "filter P (remove1 x (rev xs)) = filter P (rev xs)" by (induction "rev xs" arbitrary: xs) (auto simp: filter_remove1 remove1_idem)
  then show ?thesis by (simp add: remove_last_def flip: rev_filter)
qed

abbreviation off :: "'n \<Rightarrow> 'n ref list \<Rightarrow> 'n ref list" where
  "off n refs \<equiv> filter (\<lambda>r. snd r \<noteq> n) refs"

text \<open>Pointers to supertypes disappear, but never change.\<close>

definition shrunk :: "('n, 'v, 'q, 't, 'y) heap \<Rightarrow> ('n, 'v, 'q, 't, 'y) heap \<Rightarrow> bool" where
  "shrunk h h' \<longleftrightarrow> (\<forall>n x. st h' n = Some x \<longrightarrow> st h n = Some x)"

lemma shrunk_trans: "shrunk a b \<Longrightarrow> shrunk b c \<Longrightarrow> shrunk a c"
  by (simp add: shrunk_def)

lemma delete_reference_shrunk: "delete_reference U ty s t sp = Some (sp', outs) \<Longrightarrow> shrunk (as_nodes sp) (as_nodes sp')"
  by (drule delete_reference_changed(1)) (auto simp: changed_def shrunk_def split: if_splits)

lemma off_id: "graph_ok U h \<Longrightarrow> iv h n = [] \<Longrightarrow> off n (fw h m) = fw h m"
  using graph_okD(1) [of U h] by (intro filter_True) (metis empty_iff empty_set prod.collapse)

lemma off_id_inverse: "graph_ok U h \<Longrightarrow> fw h n = [] \<Longrightarrow> off n (iv h m) = iv h m"
  using graph_okD(1) [of U h] by (intro filter_True) (metis empty_iff empty_set prod.collapse)

lemma delete_inverse_references_spec:
  assumes "delete_inverse_references U n sp = Some (sp', outs)" "graph_ok U (as_nodes sp)"
  shows "graph_ok U (as_nodes sp') \<and> as_own sp' = as_own sp \<and> body (as_nodes sp') = body (as_nodes sp)
    \<and> shrunk (as_nodes sp) (as_nodes sp')
    \<and> iv (as_nodes sp') = (iv (as_nodes sp))(n := []) \<and> fw (as_nodes sp') = off n \<circ> fw (as_nodes sp)"
proof -
  define P where "P = (\<lambda>U n (sp :: ('a, 'b, 'c, 'd, 'e) aspace) (r :: ('a, 'b, 'c, 'd, 'e) aspace \<times> ('a, 'b, 'c, 'd) as_out list).
    graph_ok U (as_nodes sp) \<longrightarrow> graph_ok U (as_nodes (fst r)) \<and> as_own (fst r) = as_own sp
    \<and> body (as_nodes (fst r)) = body (as_nodes sp) \<and> shrunk (as_nodes sp) (as_nodes (fst r))
    \<and> iv (as_nodes (fst r)) = (iv (as_nodes sp))(n := []) \<and> fw (as_nodes (fst r)) = off n \<circ> fw (as_nodes sp))"
  have "P U n sp (sp', outs)"
  proof (rule delete_inverse_references.raw_induct [OF _ assms(1)])
    fix rec U n sp r
    assume IH: "\<And>U n sp r. rec U n sp = Some r \<Longrightarrow> P U n sp r"
      and step: "(as_nodes sp n \<bind> (\<lambda>nd. if an_inverse nd = [] then Some (sp, [])
         else delete_reference U (fst (last (an_inverse nd))) (snd (last (an_inverse nd))) n sp \<bind>
              (\<lambda>(sp1, outs). rec U n sp1 \<bind> (\<lambda>(sp2, outs'). Some (sp2, outs @ outs'))))) = Some r"
    obtain nd where nd: "as_nodes sp n = Some nd" using step by (auto simp: bind_eq_Some_conv)
    note inv = view_Some(2) [where h = "as_nodes sp", OF nd]
    show "P U n sp r"
    proof (cases "iv (as_nodes sp) n = []")
      case True
      with step nd inv have "r = (sp, [])" by simp
      with True off_id [OF _ True] show ?thesis by (auto simp: P_def shrunk_def fun_eq_iff)
    next
      case False
      obtain ty m where l: "last (iv (as_nodes sp) n) = (ty, m)" by force
      obtain sp1 o1 o2 where d: "delete_reference U ty m n sp = Some (sp1, o1)" "rec U n sp1 = Some (fst r, o2)"
        using step nd inv False l by (auto simp: bind_eq_Some_conv)
      note C = delete_reference_changed(1) [OF d(1), unfolded changed_def]
      note s1 = delete_reference_shrunk [OF d(1)]
      have "off n (fw (as_nodes sp1) k) = off n (fw (as_nodes sp) k)" for k
        using C filter_remove_last [of "\<lambda>r. snd r \<noteq> n" "(ty, n)"] by auto
      with IH [OF d(2)] C d(1) show ?thesis
        unfolding P_def fst_conv
        by (auto simp: delete_reference_ok delete_reference_changed(2) fun_eq_iff
            intro: shrunk_trans [OF s1])
    qed
  qed
  with assms(2) show ?thesis by (simp add: P_def)
qed

lemma delete_forward_references_spec:
  assumes "delete_forward_references U n sp = Some (sp', outs)" "graph_ok U (as_nodes sp)"
  shows "graph_ok U (as_nodes sp') \<and> as_own sp' = as_own sp \<and> body (as_nodes sp') = body (as_nodes sp)
    \<and> shrunk (as_nodes sp) (as_nodes sp')
    \<and> fw (as_nodes sp') = (fw (as_nodes sp))(n := []) \<and> iv (as_nodes sp') = off n \<circ> iv (as_nodes sp)"
proof -
  define P where "P = (\<lambda>U n (sp :: ('a, 'b, 'c, 'd, 'e) aspace) (r :: ('a, 'b, 'c, 'd, 'e) aspace \<times> ('a, 'b, 'c, 'd) as_out list).
    graph_ok U (as_nodes sp) \<longrightarrow> graph_ok U (as_nodes (fst r)) \<and> as_own (fst r) = as_own sp
    \<and> body (as_nodes (fst r)) = body (as_nodes sp) \<and> shrunk (as_nodes sp) (as_nodes (fst r))
    \<and> fw (as_nodes (fst r)) = (fw (as_nodes sp))(n := []) \<and> iv (as_nodes (fst r)) = off n \<circ> iv (as_nodes sp))"
  have "P U n sp (sp', outs)"
  proof (rule delete_forward_references.raw_induct [OF _ assms(1)])
    fix rec U n sp r
    assume IH: "\<And>U n sp r. rec U n sp = Some r \<Longrightarrow> P U n sp r"
      and step: "(as_nodes sp n \<bind> (\<lambda>nd. if an_forward nd = [] then Some (sp, [])
         else delete_reference U (fst (last (an_forward nd))) n (snd (last (an_forward nd))) sp \<bind>
              (\<lambda>(sp1, outs). rec U n sp1 \<bind> (\<lambda>(sp2, outs'). Some (sp2, outs @ outs'))))) = Some r"
    obtain nd where nd: "as_nodes sp n = Some nd" using step by (auto simp: bind_eq_Some_conv)
    note inv = view_Some(1) [where h = "as_nodes sp", OF nd]
    show "P U n sp r"
    proof (cases "fw (as_nodes sp) n = []")
      case True
      with step nd inv have "r = (sp, [])" by simp
      with True off_id_inverse [OF _ True] show ?thesis by (auto simp: P_def shrunk_def fun_eq_iff)
    next
      case False
      obtain ty m where l: "last (fw (as_nodes sp) n) = (ty, m)" by force
      obtain sp1 o1 o2 where d: "delete_reference U ty n m sp = Some (sp1, o1)" "rec U n sp1 = Some (fst r, o2)"
        using step nd inv False l by (auto simp: bind_eq_Some_conv)
      note C = delete_reference_changed(1) [OF d(1), unfolded changed_def]
      note s1 = delete_reference_shrunk [OF d(1)]
      have "off n (iv (as_nodes sp1) k) = off n (iv (as_nodes sp) k)" for k
        using C filter_remove_last [of "\<lambda>r. snd r \<noteq> n" "(ty, n)"] by auto
      with IH [OF d(2)] C d(1) show ?thesis
        unfolding P_def fst_conv
        by (auto simp: delete_reference_ok delete_reference_changed(2) fun_eq_iff
            intro: shrunk_trans [OF s1])
    qed
  qed
  with assms(2) show ?thesis by (simp add: P_def)
qed

lemma delete_all_references_spec:
  assumes "delete_all_references U n sp = Some (sp', outs)" "graph_ok U (as_nodes sp)"
  shows "graph_ok U (as_nodes sp')" "as_own sp' = as_own sp" "body (as_nodes sp') = body (as_nodes sp)"
    "shrunk (as_nodes sp) (as_nodes sp')"
    "fw (as_nodes sp') = (\<lambda>m. if m = n then [] else off n (fw (as_nodes sp) m))"
    "iv (as_nodes sp') = (\<lambda>m. if m = n then [] else off n (iv (as_nodes sp) m))"
proof -
  obtain sp1 o1 o2 where 1: "delete_inverse_references U n sp = Some (sp1, o1)"
    and 2: "delete_forward_references U n sp1 = Some (sp', o2)"
    using assms(1) by (auto simp: delete_all_references_def bind_eq_Some_conv)
  note A = delete_inverse_references_spec [OF 1 assms(2)]
  then have "graph_ok U (as_nodes sp1)" by blast
  note B = delete_forward_references_spec [OF 2 this]
  show "graph_ok U (as_nodes sp')" "as_own sp' = as_own sp" "body (as_nodes sp') = body (as_nodes sp)"
    using A B by auto
  show "shrunk (as_nodes sp) (as_nodes sp')" using A B shrunk_trans by blast
  show "fw (as_nodes sp') = (\<lambda>m. if m = n then [] else off n (fw (as_nodes sp) m))"
    "iv (as_nodes sp') = (\<lambda>m. if m = n then [] else off n (iv (as_nodes sp) m))"
    using A B by (auto simp: fun_eq_iff)
qed

section \<open>Deleting nodes\<close>

text \<open>\<open>pruned\<close>: own nodes are gone, and those that stay have exactly their references to nodes that stay.\<close>

definition pruned :: "'n ua \<Rightarrow> ('n, 'v, 'q, 't, 'y) aspace \<Rightarrow> ('n, 'v, 'q, 't, 'y) aspace \<Rightarrow> bool" where
  "pruned U sp sp' \<longleftrightarrow> (let h = as_nodes sp; h' = as_nodes sp' in
     graph_ok U h'
     \<and> (\<forall>m. h' m \<noteq> None \<longrightarrow> h m \<noteq> None \<and> body h' m = body h m
          \<and> fw h' m = filter (\<lambda>r. h' (snd r) \<noteq> None) (fw h m) \<and> iv h' m = filter (\<lambda>r. h' (snd r) \<noteq> None) (iv h m))
     \<and> (\<forall>m. h m \<noteq> None \<and> h' m = None \<longrightarrow> m \<in> set (as_own sp))
     \<and> as_own sp' = filter (\<lambda>m. h' m \<noteq> None) (as_own sp))"

definition as_ok :: "'n ua \<Rightarrow> ('n, 'v, 'q, 't, 'y) aspace \<Rightarrow> bool" where
  "as_ok U sp \<longleftrightarrow> graph_ok U (as_nodes sp) \<and> distinct (as_own sp) \<and> (\<forall>n \<in> set (as_own sp). as_nodes sp n \<noteq> None)"

lemma reference_ends:
  assumes "graph_ok U h"
  shows "r \<in> set (fw h m) \<Longrightarrow> h (snd r) \<noteq> None" "r \<in> set (iv h m) \<Longrightarrow> h (snd r) \<noteq> None"
  using ends_in_heap [OF assms, of "fst r" "snd r" m] ends_in_heap [OF assms, of "fst r" m "snd r"]
    graph_okD(1) [OF assms, of "fst r" m "snd r"] by auto

lemma pruned_refl: "as_ok U sp \<Longrightarrow> pruned U sp sp"
  using reference_ends [of U "as_nodes sp"]
  by (auto simp: pruned_def as_ok_def Let_def intro!: filter_True [symmetric])

lemma pruned_trans:
  assumes "pruned U a b" "pruned U b c"
  shows "pruned U a c"
proof -
  have sub: "as_nodes c m \<noteq> None \<Longrightarrow> as_nodes b m \<noteq> None" for m
    using assms(2) by (auto simp: pruned_def Let_def)
  then have f: "filter (\<lambda>r. as_nodes c (snd r) \<noteq> None) (filter (\<lambda>r. as_nodes b (snd r) \<noteq> None) xs) =
      filter (\<lambda>r. as_nodes c (snd r) \<noteq> None) xs" for xs :: "('a \<times> 'a) list"
    by (auto intro!: filter_cong)
  have g: "filter (\<lambda>m. as_nodes c m \<noteq> None) (filter (\<lambda>m. as_nodes b m \<noteq> None) xs) =
      filter (\<lambda>m. as_nodes c m \<noteq> None) xs" for xs
    using sub by (auto intro!: filter_cong)
  have own: "m \<in> set (as_own a)" if "as_nodes a m \<noteq> None" "as_nodes c m = None" for m
    using that assms by (cases "as_nodes b m") (auto simp: pruned_def Let_def)
  show ?thesis
    using assms sub f g own unfolding pruned_def Let_def by (auto simp del: filter_filter)
qed

lemma pruned_ok: "pruned U sp sp' \<Longrightarrow> as_ok U sp \<Longrightarrow> as_ok U sp'"
  by (auto simp: pruned_def as_ok_def Let_def)

lemma prunedI:
  assumes "graph_ok U h'"
    and "\<And>m. h' m \<noteq> None \<Longrightarrow> as_nodes sp m \<noteq> None" "\<And>m. h' m \<noteq> None \<Longrightarrow> body h' m = body (as_nodes sp) m"
    and "\<And>m. h' m \<noteq> None \<Longrightarrow> fw h' m = filter (\<lambda>r. h' (snd r) \<noteq> None) (fw (as_nodes sp) m)"
    and "\<And>m. h' m \<noteq> None \<Longrightarrow> iv h' m = filter (\<lambda>r. h' (snd r) \<noteq> None) (iv (as_nodes sp) m)"
    and "\<And>m. as_nodes sp m \<noteq> None \<Longrightarrow> h' m = None \<Longrightarrow> m \<in> set (as_own sp)"
    and "own = filter (\<lambda>m. h' m \<noteq> None) (as_own sp)"
  shows "pruned U sp (sp1\<lparr>as_nodes := h', as_own := own\<rparr>)"
  using assms by (simp add: pruned_def)

lemma drop_node_pruned:
  assumes ok: "as_ok U sp" and n: "n \<in> set (as_own sp)" and d: "delete_all_references U n sp = Some (sp1, outs)"
  shows "pruned U sp (sp1\<lparr>as_nodes := (as_nodes sp1)(n := None), as_own := removeAll n (as_own sp1)\<rparr>)"
proof -
  let ?h = "as_nodes sp" and ?h' = "(as_nodes sp1)(n := None)"
  have g: "graph_ok U ?h" using ok by (simp add: as_ok_def)
  note A = delete_all_references_spec [OF d g]
  have fw: "fw ?h' = fw (as_nodes sp1)" "iv ?h' = iv (as_nodes sp1)"
    using A(5,6) by (auto simp: fw_def iv_def fun_eq_iff)
  have e: "fw (as_nodes sp1) n = []" "iv (as_nodes sp1) n = []" using A(5,6) by auto
  have p: "td (as_nodes sp1) n = None" "st (as_nodes sp1) n = None"
    using graph_okD(4,5) [OF A(1), of n] e by (cases "td (as_nodes sp1) n"; cases "st (as_nodes sp1) n"; auto)+
  have p': "td ?h' = td (as_nodes sp1)" "st ?h' = st (as_nodes sp1)"
    using p by (auto simp: td_def st_def fun_eq_iff)
  have "type_node ?h' m = type_node (as_nodes sp1) m" if "m \<noteq> n" for m
    using that by (simp add: type_node_def cls_def)
  then have ok': "graph_ok U ?h'"
    using A(1) p e unfolding graph_ok_def fw p' by (metis emptyE list.set(1) option.distinct(1))
  have dom: "?h' m \<noteq> None \<longleftrightarrow> ?h m \<noteq> None \<and> m \<noteq> n" for m
    using body_dom [OF A(3), of m] by auto
  have off: "filter (\<lambda>r. ?h' (snd r) \<noteq> None) xs = off n xs" if "\<And>r. r \<in> set xs \<Longrightarrow> ?h (snd r) \<noteq> None" for xs
    using that dom by (auto intro!: filter_cong)
  show ?thesis
  proof (rule prunedI)
    show "graph_ok U ?h'" by (rule ok')
  next
    fix m assume m: "?h' m \<noteq> None"
    show "?h m \<noteq> None" using m dom by blast
    show "body ?h' m = body ?h m" using m A(3) dom [of m] by (auto simp: body_def fun_eq_iff)
    show "fw ?h' m = filter (\<lambda>r. ?h' (snd r) \<noteq> None) (fw ?h m)"
      using off [OF reference_ends(1) [OF g]] dom [of m] m by (simp add: fw A(5))
    show "iv ?h' m = filter (\<lambda>r. ?h' (snd r) \<noteq> None) (iv ?h m)"
      using off [OF reference_ends(2) [OF g]] dom [of m] m by (simp add: fw A(6))
  next
    fix m assume "?h m \<noteq> None" "?h' m = None"
    then show "m \<in> set (as_own sp)" using dom [of m] n by auto
  next
    show "removeAll n (as_own sp1) = filter (\<lambda>m. ?h' m \<noteq> None) (as_own sp)"
      using ok dom unfolding A(2) as_ok_def removeAll_filter_not_eq by (auto intro!: filter_cong)
  qed
qed

lemma delete_node_pruned:
  assumes "delete_node U n sp = Some (sp', outs)" "as_ok U sp"
  shows "pruned U sp sp' \<and> n \<notin> set (as_own sp')"
proof -
  define P where "P = (\<lambda>U n (sp :: ('a, 'b, 'c, 'd, 'e) aspace) (r :: ('a, 'b, 'c, 'd, 'e) aspace \<times> ('a, 'b, 'c, 'd) as_out list).
    as_ok U sp \<longrightarrow> pruned U sp (fst r) \<and> n \<notin> set (as_own (fst r)))"
  have "P U n sp (sp', outs)"
  proof (rule delete_node.raw_induct [OF _ assms(1)])
    fix rec U n sp r
    assume IH: "\<And>U n sp r. rec U n sp = Some r \<Longrightarrow> P U n sp r"
      and step: "(if n \<notin> set (as_own sp) then Some (sp, []) else
        first_child U (as_nodes sp) n \<bind> (\<lambda>child. case child of
            None \<Rightarrow> delete_all_references U n sp \<bind> (\<lambda>(sp1, outs).
              Some (sp1\<lparr>as_nodes := (as_nodes sp1)(n := None), as_own := removeAll n (as_own sp1)\<rparr>, outs @ [NodeDeleted n]))
          | Some c \<Rightarrow> rec U c sp \<bind> (\<lambda>(sp1, outs). rec U n sp1 \<bind> (\<lambda>(sp2, outs'). Some (sp2, outs @ outs'))))) = Some r"
    show "P U n sp r"
    proof (cases "n \<in> set (as_own sp)")
      case False
      with step show ?thesis by (auto simp: P_def pruned_refl)
    next
      case True
      then obtain child where child: "first_child U (as_nodes sp) n = Some child" using step by (auto simp: bind_eq_Some_conv)
      show ?thesis
      proof (cases child)
        case None
        with step True child obtain sp1 o1 where d: "delete_all_references U n sp = Some (sp1, o1)"
          "fst r = sp1\<lparr>as_nodes := (as_nodes sp1)(n := None), as_own := removeAll n (as_own sp1)\<rparr>"
          by (auto simp: bind_eq_Some_conv)
        with drop_node_pruned [OF _ True d(1)] show ?thesis by (simp add: P_def)
      next
        case (Some c)
        with step True child obtain sp1 o1 o2 where "rec U c sp = Some (sp1, o1)" "rec U n sp1 = Some (fst r, o2)"
          by (auto simp: bind_eq_Some_conv)
        with IH [of U c sp] IH [of U n sp1] show ?thesis
          unfolding P_def by (metis fst_conv pruned_ok pruned_trans)
      qed
    qed
  qed
  with assms(2) show ?thesis by (simp add: P_def)
qed

end
