(* ===== verification/Address_Space_Claims.thy ===== *)
theory Address_Space_Claims
  imports Address_Space_Facts
begin

text \<open>
  The properties of the node graph: its invariant over every run of operations, the deletion of a subtree, and
  what makes deletion and the supertype walk not return.
\<close>

section \<open>Types that can be classified\<close>

text \<open>A type whose chain of supertypes ends.\<close>

inductive resolves :: "('n, 'v, 'q, 't, 'y) heap \<Rightarrow> 'n \<Rightarrow> bool" for h where
  resolves_top: "h n \<noteq> None \<Longrightarrow> st h n = None \<Longrightarrow> resolves h n"
| resolves_up: "h n \<noteq> None \<Longrightarrow> st h n = Some m \<Longrightarrow> resolves h m \<Longrightarrow> resolves h n"

lemma is_subtype_of_step:
  "h n \<noteq> None \<Longrightarrow> is_subtype_of h n x =
     (if n = x then Some True else case st h n of None \<Rightarrow> Some False | Some m \<Rightarrow> is_subtype_of h m x)"
  by (subst is_subtype_of.simps) (auto simp: st_def)

lemma resolves_subtype: "resolves h n \<Longrightarrow> \<exists>b. is_subtype_of h n x = Some b"
  by (induction rule: resolves.induct) (auto simp: is_subtype_of_step)

lemma resolves_mono:
  assumes "resolves h n" "body h' = body h" "shrunk h h'"
  shows "resolves h' n"
  using assms(1)
proof (induction rule: resolves.induct)
  case (resolves_top n)
  then have "st h' n = None" using assms(3) by (cases "st h' n") (auto simp: shrunk_def)
  then show ?case using resolves_top body_dom [OF assms(2), of n] by (auto intro: resolves.resolves_top)
next
  case (resolves_up n m)
  then have n: "h' n \<noteq> None" using body_dom [OF assms(2), of n] by auto
  show ?case
  proof (cases "st h' n")
    case None
    with n show ?thesis by (rule resolves.resolves_top)
  next
    case (Some k)
    then have "k = m" using assms(3) resolves_up.hyps(2) by (auto simp: shrunk_def)
    with n Some resolves_up.IH show ?thesis by (auto intro: resolves.resolves_up)
  qed
qed

section \<open>Deletion that returns\<close>

lemma delete_reference_total:
  assumes ok: "graph_ok U (as_nodes sp)" and ref: "(ty, t) \<in> set (fw (as_nodes sp) s)" and r: "resolves (as_nodes sp) ty"
  shows "\<exists>sp' outs. delete_reference U ty s t sp = Some (sp', outs)"
proof -
  let ?h = "as_nodes sp"
  obtain ns where ns: "?h s = Some ns" using ends_in_heap(1) [OF ok ref] by auto
  note v = view_Some [where h = ?h, OF ns]
  define ns' where "ns' = ns\<lparr>an_forward := remove_last (ty, t) (an_forward ns),
      an_type_definition := (if ty = has_type_definition U then None else an_type_definition ns)\<rparr>"
  have f: "type_delete_reference U ty True t ns = Some ns'"
    unfolding delete_forward_eq ns'_def using ref v graph_okD(4) [OF ok, of s t] by auto
  define h1 where "h1 = ?h(s \<mapsto> ns')"
  have h1: "iv h1 = iv ?h" "st h1 = st ?h" "body h1 = body ?h"
    using v by (auto simp: h1_def ns'_def fun_eq_iff)
  obtain t1 where t1: "h1 t = Some t1"
    using ends_in_heap(2) [OF ok ref] by (cases "t = s") (auto simp: h1_def)
  note w = view_Some [where h = h1, OF t1]
  define t' where "t' = t1\<lparr>an_inverse := remove_last (ty, s) (an_inverse t1),
      an_supertype := (if ty = has_subtype U \<and> is_type (an_class t1) then None else an_supertype t1)\<rparr>"
  have i: "type_delete_reference U ty False s t1 = Some t'"
    unfolding delete_inverse_eq t'_def
    using ref w h1 graph_okD(1) [OF ok, of ty t s] graph_okD(5) [OF ok, of t s] body_type_node [OF h1(3)] by auto
  define h2 where "h2 = h1(t \<mapsto> t')"
  have "body h2 = body ?h" "shrunk ?h h2"
    using w h1 by (auto simp: h2_def t'_def fun_eq_iff shrunk_def)
  from resolves_subtype [OF resolves_mono [OF r this]] obtain b where
    "is_subtype_of h2 ty (hierarchical_references U) = Some b" by blast
  then show ?thesis
    by (simp add: delete_reference_def ns f t1 i Let_def notify_reference_def del: fun_upd_apply flip: h1_def h2_def)
qed

lemma delete_inverse_references_total:
  assumes "graph_ok U (as_nodes sp)" "as_nodes sp n \<noteq> None" "\<forall>r \<in> set (iv (as_nodes sp) n). resolves (as_nodes sp) (fst r)"
  shows "\<exists>sp' outs. delete_inverse_references U n sp = Some (sp', outs)"
  using assms
proof (induction "length (iv (as_nodes sp) n)" arbitrary: sp rule: less_induct)
  case less
  obtain nd where nd: "as_nodes sp n = Some nd" using less.prems(2) by auto
  note inv = view_Some(2) [where h = "as_nodes sp", OF nd]
  show ?case
  proof (cases "iv (as_nodes sp) n = []")
    case True
    with nd inv show ?thesis by (subst delete_inverse_references.simps) simp
  next
    case False
    obtain ty m where l: "last (iv (as_nodes sp) n) = (ty, m)" by force
    have mem: "(ty, m) \<in> set (iv (as_nodes sp) n)" using last_in_set [OF False] l by simp
    obtain sp1 o1 where d: "delete_reference U ty m n sp = Some (sp1, o1)"
      using delete_reference_total [OF less.prems(1), of ty n m] mem less.prems(3) graph_okD(1) [OF less.prems(1)] by fastforce
    note C = delete_reference_changed(1) [OF d, unfolded changed_def] and s1 = delete_reference_shrunk [OF d]
    have "length (iv (as_nodes sp1) n) < length (iv (as_nodes sp) n)" using C length_remove_last [OF mem] by auto
    moreover have "graph_ok U (as_nodes sp1)" by (rule delete_reference_ok [OF less.prems(1) d])
    moreover have "as_nodes sp1 n \<noteq> None" using C less.prems(2) body_dom [of "as_nodes sp1" "as_nodes sp" n] by simp
    moreover have "\<forall>r \<in> set (iv (as_nodes sp1) n). resolves (as_nodes sp1) (fst r)"
    proof
      fix r assume "r \<in> set (iv (as_nodes sp1) n)"
      then have "r \<in> set (iv (as_nodes sp) n)" using C graph_okD(3) [OF less.prems(1), of n] by (auto simp: set_remove_last split: if_splits)
      then show "resolves (as_nodes sp1) (fst r)" using resolves_mono [OF _ _ s1] C less.prems(3) by blast
    qed
    ultimately obtain sp2 o2 where "delete_inverse_references U n sp1 = Some (sp2, o2)" using less.hyps by blast
    with nd inv False l d show ?thesis by (subst delete_inverse_references.simps) simp
  qed
qed

lemma delete_forward_references_total:
  assumes "graph_ok U (as_nodes sp)" "as_nodes sp n \<noteq> None" "\<forall>r \<in> set (fw (as_nodes sp) n). resolves (as_nodes sp) (fst r)"
  shows "\<exists>sp' outs. delete_forward_references U n sp = Some (sp', outs)"
  using assms
proof (induction "length (fw (as_nodes sp) n)" arbitrary: sp rule: less_induct)
  case less
  obtain nd where nd: "as_nodes sp n = Some nd" using less.prems(2) by auto
  note forw = view_Some(1) [where h = "as_nodes sp", OF nd]
  show ?case
  proof (cases "fw (as_nodes sp) n = []")
    case True
    with nd forw show ?thesis by (subst delete_forward_references.simps) simp
  next
    case False
    obtain ty m where l: "last (fw (as_nodes sp) n) = (ty, m)" by force
    have mem: "(ty, m) \<in> set (fw (as_nodes sp) n)" using last_in_set [OF False] l by simp
    obtain sp1 o1 where d: "delete_reference U ty n m sp = Some (sp1, o1)"
      using delete_reference_total [OF less.prems(1) mem] mem less.prems(3) by fastforce
    note C = delete_reference_changed(1) [OF d, unfolded changed_def] and s1 = delete_reference_shrunk [OF d]
    have "length (fw (as_nodes sp1) n) < length (fw (as_nodes sp) n)" using C length_remove_last [OF mem] by auto
    moreover have "graph_ok U (as_nodes sp1)" by (rule delete_reference_ok [OF less.prems(1) d])
    moreover have "as_nodes sp1 n \<noteq> None" using C less.prems(2) body_dom [of "as_nodes sp1" "as_nodes sp" n] by simp
    moreover have "\<forall>r \<in> set (fw (as_nodes sp1) n). resolves (as_nodes sp1) (fst r)"
    proof
      fix r assume "r \<in> set (fw (as_nodes sp1) n)"
      then have "r \<in> set (fw (as_nodes sp) n)" using C graph_okD(2) [OF less.prems(1), of n] by (auto simp: set_remove_last split: if_splits)
      then show "resolves (as_nodes sp1) (fst r)" using resolves_mono [OF _ _ s1] C less.prems(3) by blast
    qed
    ultimately obtain sp2 o2 where "delete_forward_references U n sp1 = Some (sp2, o2)" using less.hyps by blast
    with nd forw False l d show ?thesis by (subst delete_forward_references.simps) simp
  qed
qed

lemma delete_all_references_total:
  assumes "graph_ok U (as_nodes sp)" "as_nodes sp n \<noteq> None"
    "\<forall>r \<in> set (fw (as_nodes sp) n) \<union> set (iv (as_nodes sp) n). resolves (as_nodes sp) (fst r)"
  shows "\<exists>sp' outs. delete_all_references U n sp = Some (sp', outs)"
proof -
  obtain sp1 o1 where 1: "delete_inverse_references U n sp = Some (sp1, o1)"
    using delete_inverse_references_total [OF assms(1,2)] assms(3) by blast
  note A = delete_inverse_references_spec [OF 1 assms(1)]
  have "\<forall>r \<in> set (fw (as_nodes sp1) n). resolves (as_nodes sp1) (fst r)"
    using A resolves_mono assms(3) by fastforce
  moreover have "as_nodes sp1 n \<noteq> None" using A assms(2) body_dom [of "as_nodes sp1" "as_nodes sp" n] by simp
  ultimately obtain sp2 o2 where "delete_forward_references U n sp1 = Some (sp2, o2)"
    using delete_forward_references_total [of U sp1 n] A by auto
  with 1 show ?thesis by (simp add: delete_all_references_def)
qed

lemma first_reference_spec:
  assumes "\<forall>r \<in> set refs. resolves h (fst r)"
  shows "\<exists>o1. first_reference h x refs = Some o1
    \<and> (o1 = None \<longrightarrow> (\<forall>r \<in> set refs. is_subtype_of h (fst r) x = Some False))
    \<and> (\<forall>r. o1 = Some r \<longrightarrow> r \<in> set refs \<and> is_subtype_of h (fst r) x = Some True)"
  using assms
proof (induction refs)
  case (Cons r refs)
  obtain b where "is_subtype_of h (fst r) x = Some b" using resolves_subtype Cons.prems by fastforce
  with Cons show ?case by auto
qed simp

section \<open>Subtrees\<close>

text \<open>The hierarchical references between own nodes, and what lies below a node.\<close>

definition hier :: "'n ua \<Rightarrow> ('n, 'v, 'q, 't, 'y) heap \<Rightarrow> 'n \<Rightarrow> bool" where
  "hier U h ty \<longleftrightarrow> is_subtype_of h ty (hierarchical_references U) = Some True"

definition child_of :: "'n ua \<Rightarrow> ('n, 'v, 'q, 't, 'y) aspace \<Rightarrow> ('n \<times> 'n) set" where
  "child_of U sp = {(a, b). a \<in> set (as_own sp) \<and> (\<exists>ty. (ty, b) \<in> set (fw (as_nodes sp) a) \<and> hier U (as_nodes sp) ty)}"

definition below :: "'n ua \<Rightarrow> ('n, 'v, 'q, 't, 'y) aspace \<Rightarrow> 'n \<Rightarrow> 'n set" where
  "below U sp n = {m. (n, m) \<in> (child_of U sp)\<^sup>*}"

text \<open>
  The types of all references of the nodes below \<open>n\<close>, at either end, are in \<open>T\<close>, with their supertypes; they can be
  classified and are not below \<open>n\<close> themselves. They may be own nodes, as the standard reference types are.
\<close>

definition types_stay :: "'n ua \<Rightarrow> ('n, 'v, 'q, 't, 'y) aspace \<Rightarrow> 'n \<Rightarrow> 'n set \<Rightarrow> bool" where
  "types_stay U sp n T \<longleftrightarrow>
     (\<forall>ty \<in> T. resolves (as_nodes sp) ty \<and> ty \<notin> below U sp n \<and> (\<forall>s. st (as_nodes sp) ty = Some s \<longrightarrow> s \<in> T))
     \<and> (\<forall>m \<in> below U sp n. \<forall>r \<in> set (fw (as_nodes sp) m) \<union> set (iv (as_nodes sp) m). fst r \<in> T)"

text \<open>What lies below \<open>n\<close> are own nodes, and there is no way round: some measure decreases.\<close>

definition forest :: "'n ua \<Rightarrow> ('n, 'v, 'q, 't, 'y) aspace \<Rightarrow> 'n \<Rightarrow> ('n \<Rightarrow> nat) \<Rightarrow> bool" where
  "forest U sp n rank \<longleftrightarrow> below U sp n \<subseteq> set (as_own sp)
     \<and> (\<forall>(a, b) \<in> child_of U sp. a \<in> below U sp n \<longrightarrow> rank b < rank a)"

lemma below_self [simp]: "n \<in> below U sp n"
  by (simp add: below_def)

lemma below_child: "a \<in> below U sp n \<Longrightarrow> (a, b) \<in> child_of U sp \<Longrightarrow> b \<in> below U sp n"
  by (simp add: below_def rtrancl.rtrancl_into_rtrancl)

lemma below_trans: "c \<in> below U sp n \<Longrightarrow> below U sp c \<subseteq> below U sp n"
  by (auto simp: below_def)

lemma types_stay_below: "types_stay U sp n T \<Longrightarrow> c \<in> below U sp n \<Longrightarrow> types_stay U sp c T"
  using below_trans [of c U sp n] unfolding types_stay_def by blast

lemma forest_below: "forest U sp n rank \<Longrightarrow> c \<in> below U sp n \<Longrightarrow> forest U sp c rank"
  using below_trans [of c U sp n] unfolding forest_def by blast

lemma forest_rank:
  assumes "forest U sp n rank" "a \<in> below U sp n" "m \<in> below U sp a"
  shows "rank m \<le> rank a"
proof -
  have "(a, m) \<in> (child_of U sp)\<^sup>*" using assms(3) by (simp add: below_def)
  then have "m \<in> below U sp n \<and> rank m \<le> rank a"
  proof (induction rule: rtrancl_induct)
    case (step y z)
    then have "rank z < rank y" using assms(1) unfolding forest_def by blast
    with step below_child [of y U sp n z] show ?case by simp
  qed (simp add: assms(2))
  then show ?thesis by simp
qed

text \<open>Types that are alive are classified as before.\<close>

lemma pruned_types:
  assumes p: "pruned U sp sp'" and ok: "as_ok U sp" and ty: "ty \<in> T" and alive: "\<And>k. k \<in> T \<Longrightarrow> as_nodes sp' k \<noteq> None"
    and T: "\<And>k. k \<in> T \<Longrightarrow> resolves (as_nodes sp) k" "\<And>k s. k \<in> T \<Longrightarrow> st (as_nodes sp) k = Some s \<Longrightarrow> s \<in> T"
  shows "st (as_nodes sp') ty = st (as_nodes sp) ty" "resolves (as_nodes sp') ty"
    "is_subtype_of (as_nodes sp') ty x = is_subtype_of (as_nodes sp) ty x"
proof -
  let ?h = "as_nodes sp" and ?h' = "as_nodes sp'"
  have g: "graph_ok U ?h" "graph_ok U ?h'" using ok p by (auto simp: as_ok_def pruned_def Let_def)
  have st: "st ?h' k = st ?h k" if "k \<in> T" for k
  proof -
    have i: "iv ?h' k = filter (\<lambda>r. ?h' (snd r) \<noteq> None) (iv ?h k)" and b: "body ?h' k = body ?h k"
      using p alive [OF that] by (auto simp: pruned_def Let_def)
    have tn: "type_node ?h' k = type_node ?h k" using b by (simp add: type_node_def cls_body)
    have "st ?h' k = Some m \<longleftrightarrow> st ?h k = Some m" for m
    proof
      assume "st ?h' k = Some m"
      then show "st ?h k = Some m" using graph_okD(5) [OF g(1), of k m] graph_okD(5) [OF g(2), of k m] i tn by simp
    next
      assume s: "st ?h k = Some m"
      then have "?h' m \<noteq> None" using alive T(2) that by blast
      then show "st ?h' k = Some m" using s graph_okD(5) [OF g(1), of k m] graph_okD(5) [OF g(2), of k m] i tn by simp
    qed
    then show ?thesis by (cases "st ?h k"; cases "st ?h' k") auto
  qed
  show "st ?h' ty = st ?h ty" by (rule st [OF ty])
  have "resolves ?h k \<Longrightarrow> k \<in> T \<Longrightarrow> resolves ?h' k \<and> is_subtype_of ?h' k x = is_subtype_of ?h k x" for k
  proof (induction rule: resolves.induct)
    case (resolves_top n)
    with st alive have "?h' n \<noteq> None" "st ?h' n = None" by auto
    with resolves_top show ?case by (simp add: is_subtype_of_step resolves.resolves_top)
  next
    case (resolves_up n m)
    with st alive have n: "?h' n \<noteq> None" "st ?h' n = Some m" by auto
    have "m \<in> T" using resolves_up T(2) by blast
    with resolves_up n show ?case by (simp add: is_subtype_of_step resolves.resolves_up [of ?h' n m])
  qed
  with T(1) ty show "resolves ?h' ty" "is_subtype_of ?h' ty x = is_subtype_of ?h ty x" by auto
qed

lemma pruned_own: "pruned U sp sp' \<Longrightarrow> set (as_own sp') = {m \<in> set (as_own sp). as_nodes sp' m \<noteq> None}"
  by (auto simp: pruned_def Let_def)

text \<open>After a deletion below \<open>n\<close>, what is still below it is as it was.\<close>

lemma pruned_below:
  assumes p: "pruned U sp sp'" and ok: "as_ok U sp" and T: "types_stay U sp n T"
    and dead: "\<forall>m. as_nodes sp m \<noteq> None \<longrightarrow> as_nodes sp' m = None \<longrightarrow> m \<in> below U sp n"
  shows "a \<in> below U sp n \<Longrightarrow>
      (a, b) \<in> child_of U sp' \<longleftrightarrow> (a, b) \<in> child_of U sp \<and> as_nodes sp' a \<noteq> None \<and> as_nodes sp' b \<noteq> None"
    and "below U sp' n \<subseteq> below U sp n" and "types_stay U sp' n T"
    and "forest U sp n rank \<Longrightarrow> as_nodes sp' n \<noteq> None \<Longrightarrow> forest U sp' n rank"
proof -
  have alive: "as_nodes sp' k \<noteq> None" if "k \<in> T" for k
  proof -
    have "as_nodes sp k \<noteq> None" using T that by (auto simp: types_stay_def elim: resolves.cases)
    then show ?thesis using dead T that by (auto simp: types_stay_def)
  qed
  have ty: "resolves (as_nodes sp) k" "st (as_nodes sp) k = Some s \<Longrightarrow> s \<in> T" if "k \<in> T" for k s
    using T that by (auto simp: types_stay_def)
  note P = pruned_types [OF p ok _ alive ty]
  have f: "fw (as_nodes sp') a = filter (\<lambda>r. as_nodes sp' (snd r) \<noteq> None) (fw (as_nodes sp) a)"
    "iv (as_nodes sp') a = filter (\<lambda>r. as_nodes sp' (snd r) \<noteq> None) (iv (as_nodes sp) a)" if "as_nodes sp' a \<noteq> None" for a
    using that p by (auto simp: pruned_def Let_def)
  have gone: "fw (as_nodes sp') a = []" "iv (as_nodes sp') a = []" if "as_nodes sp' a = None" for a
    using that by (simp_all add: node_views)
  have refs: "fst r \<in> T" if "a \<in> below U sp n" "r \<in> set (fw (as_nodes sp) a) \<union> set (iv (as_nodes sp) a)" for a r
    using T that unfolding types_stay_def by blast
  have h: "hier U (as_nodes sp') k = hier U (as_nodes sp) k" if "k \<in> T" for k
    using P(3) [OF that, where x = "hierarchical_references U"] by (simp add: hier_def)
  have move: "(a, b) \<in> child_of U sp' \<longleftrightarrow> (a, b) \<in> child_of U sp \<and> as_nodes sp' a \<noteq> None \<and> as_nodes sp' b \<noteq> None"
    if a: "a \<in> below U sp n" for a b
  proof (cases "as_nodes sp' a = None")
    case True
    then show ?thesis by (auto simp: child_of_def pruned_own [OF p])
  next
    case False
    have "(k, b) \<in> set (fw (as_nodes sp) a) \<Longrightarrow> hier U (as_nodes sp') k = hier U (as_nodes sp) k" for k
      using h refs [OF a, of "(k, b)"] by simp
    then show ?thesis using False f(1) [OF False] unfolding child_of_def pruned_own [OF p] by auto
  qed
  show "a \<in> below U sp n \<Longrightarrow>
      (a, b) \<in> child_of U sp' \<longleftrightarrow> (a, b) \<in> child_of U sp \<and> as_nodes sp' a \<noteq> None \<and> as_nodes sp' b \<noteq> None"
    by (rule move)
  have sub: "m \<in> below U sp n \<and> (m = n \<or> as_nodes sp' m \<noteq> None)" if "(n, m) \<in> (child_of U sp')\<^sup>*" for m
    using that
  proof (induction rule: rtrancl_induct)
    case (step y z)
    then have "(y, z) \<in> child_of U sp \<and> as_nodes sp' z \<noteq> None" using move [of y z] by blast
    then show ?case using step.IH below_child [of y U sp n z] by blast
  qed simp
  then show sub2: "below U sp' n \<subseteq> below U sp n" by (auto simp: below_def)
  have fw': "r \<in> set (fw (as_nodes sp) a) \<union> set (iv (as_nodes sp) a)"
    if "r \<in> set (fw (as_nodes sp') a) \<union> set (iv (as_nodes sp') a)" for r a
    using that f [of a] gone [of a] by (cases "as_nodes sp' a = None") auto
  show "types_stay U sp' n T"
    unfolding types_stay_def
  proof (intro conjI ballI)
    fix k assume k: "k \<in> T"
    then have "k \<notin> below U sp n" using T by (auto simp: types_stay_def)
    then show "k \<notin> below U sp' n" using sub2 by blast
    show "resolves (as_nodes sp') k" by (rule P(2) [OF k])
    show "\<forall>s. st (as_nodes sp') k = Some s \<longrightarrow> s \<in> T" using P(1) [OF k] ty(2) [OF k] by simp
  next
    fix m r assume "m \<in> below U sp' n" "r \<in> set (fw (as_nodes sp') m) \<union> set (iv (as_nodes sp') m)"
    then show "fst r \<in> T" using refs [of m r] fw' [of r m] sub2 by blast
  qed
  show "forest U sp' n rank" if F: "forest U sp n rank" and n: "as_nodes sp' n \<noteq> None"
  proof -
    have "m \<in> set (as_own sp')" if "m \<in> below U sp' n" for m
      using sub [of m] that F n unfolding pruned_own [OF p] forest_def below_def by auto
    moreover have "rank b < rank a" if "(a, b) \<in> child_of U sp'" "a \<in> below U sp' n" for a b
      using that move [of a b] sub2 F unfolding forest_def by blast
    ultimately show ?thesis unfolding forest_def by blast
  qed
qed

text \<open>C9: Deleting a node returns and deletes exactly the node and everything below it, if what is below are own nodes without
  a cycle of hierarchical references among them (\<open>forest\<close>) and the types of their references, own or foreign, can be
  classified and are not below the node themselves (\<open>types_stay\<close>). The nodes that stay keep their names and values, and
  exactly their references to nodes that stay, at both ends.\<close>

theorem delete_node_subtree:
  assumes "as_ok U sp" "types_stay U sp n T" "forest U sp n rank"
  shows "\<exists>sp' outs. delete_node U n sp = Some (sp', outs) \<and> pruned U sp sp'
    \<and> (\<forall>m. as_nodes sp m \<noteq> None \<longrightarrow> (as_nodes sp' m = None \<longleftrightarrow> (n, m) \<in> (child_of U sp)\<^sup>*))"
  using assms
proof (induction "length (as_own sp)" arbitrary: n sp rule: less_induct)
  case outer: less
  show ?case using outer.prems
  proof (induction "rank n" arbitrary: n rule: less_induct)
    case inner: less
    let ?h = "as_nodes sp"
    note ok = inner.prems(1) and T = inner.prems(2) and F = inner.prems(3)
    have n: "n \<in> set (as_own sp)" using F below_self [of n U sp] by (auto simp: forest_def)
    have g: "graph_ok U ?h" using ok by (simp add: as_ok_def)
    obtain nd where nd: "?h n = Some nd" using ok n by (auto simp: as_ok_def)
    note v = view_Some(1) [where h = ?h, OF nd]
    have res: "\<forall>r \<in> set (fw ?h n) \<union> set (iv ?h n). resolves ?h (fst r)"
      using T below_self [of n U sp] unfolding types_stay_def by blast
    obtain o1 where o1: "first_reference ?h (hierarchical_references U) (fw ?h n) = Some o1"
      and none: "o1 = None \<Longrightarrow> \<forall>r \<in> set (fw ?h n). is_subtype_of ?h (fst r) (hierarchical_references U) = Some False"
      and some: "\<And>r. o1 = Some r \<Longrightarrow> r \<in> set (fw ?h n) \<and> is_subtype_of ?h (fst r) (hierarchical_references U) = Some True"
      using first_reference_spec [of "fw ?h n" ?h "hierarchical_references U"] res by blast
    have child: "first_child U ?h n = Some (map_option snd o1)"
      using nd v o1 by (simp add: first_child_def find_node_reference_def)
    show ?case
    proof (cases o1)
      case None
      obtain sp1 o2 where d: "delete_all_references U n sp = Some (sp1, o2)"
        using delete_all_references_total [OF g _ res] nd by auto
      let ?sp' = "sp1\<lparr>as_nodes := (as_nodes sp1)(n := None), as_own := removeAll n (as_own sp1)\<rparr>"
      have ret: "delete_node U n sp = Some (?sp', o2 @ [NodeDeleted n])"
        using n child None d by (subst delete_node.simps) simp
      have "(n, m) \<in> (child_of U sp)\<^sup>* \<longleftrightarrow> m = n" for m
      proof -
        have "(n, b) \<notin> child_of U sp" for b using none [OF None] by (force simp: child_of_def hier_def)
        then show ?thesis by (metis converse_rtranclE rtrancl.rtrancl_refl)
      qed
      moreover have "as_nodes ?sp' m = None \<longleftrightarrow> m = n" if "?h m \<noteq> None" for m
        using that body_dom [OF delete_all_references_spec(3) [OF d g], of m] by auto
      ultimately show ?thesis using ret drop_node_pruned [OF ok n d] by blast
    next
      case (Some r)
      obtain ty c where r: "r = (ty, c)" by force
      have nc: "(n, c) \<in> child_of U sp" using some [OF Some] r n by (auto simp: child_of_def hier_def)
      have c: "c \<in> below U sp n" "c \<in> set (as_own sp)" "rank c < rank n"
        using nc F below_child [OF below_self nc] by (auto simp: forest_def)
      obtain sp1 o2 where d1: "delete_node U c sp = Some (sp1, o2)" and p1: "pruned U sp sp1"
        and S1: "\<And>m. ?h m \<noteq> None \<Longrightarrow> as_nodes sp1 m = None \<longleftrightarrow> m \<in> below U sp c"
        using inner.hyps [OF c(3) ok types_stay_below [OF T c(1)] forest_below [OF F c(1)]] by (auto simp: below_def)
      have n1: "as_nodes sp1 n \<noteq> None" using S1 [of n] nd forest_rank [OF F c(1), of n] c(3) by auto
      have c1: "as_nodes sp1 c = None" using S1 [of c] ok c(2) by (auto simp: as_ok_def)
      have dead: "\<forall>m. ?h m \<noteq> None \<longrightarrow> as_nodes sp1 m = None \<longrightarrow> m \<in> below U sp n"
        using S1 below_trans [OF c(1)] by blast
      note K = pruned_below [OF p1 ok T dead]
      have "length (as_own sp1) < length (as_own sp)"
      proof -
        have "as_own sp1 = filter (\<lambda>m. as_nodes sp1 m \<noteq> None) (as_own sp)" using p1 by (simp add: pruned_def Let_def)
        with length_filter_less [OF c(2), of "\<lambda>m. as_nodes sp1 m \<noteq> None"] c1 show ?thesis by simp
      qed
      then obtain sp2 o3 where d2: "delete_node U n sp1 = Some (sp2, o3)" and p2: "pruned U sp1 sp2"
        and S2: "\<And>m. as_nodes sp1 m \<noteq> None \<Longrightarrow> as_nodes sp2 m = None \<longleftrightarrow> (n, m) \<in> (child_of U sp1)\<^sup>*"
        using outer.hyps [OF _ pruned_ok [OF p1 ok] K(3) K(4) [OF F n1]] by blast
      have ret: "delete_node U n sp = Some (sp2, o2 @ o3)"
        using n child Some r d1 d2 by (subst delete_node.simps) simp
      have split: "m \<in> below U sp c \<or> (n, m) \<in> (child_of U sp1)\<^sup>* \<and> m \<in> below U sp n" if "(n, m) \<in> (child_of U sp)\<^sup>*" for m
        using that
      proof (induction rule: rtrancl_induct)
        case (step y z)
        show ?case
        proof (cases "z \<in> below U sp c")
          case False
          then have y: "(n, y) \<in> (child_of U sp1)\<^sup>*" "y \<in> below U sp n"
            using step.IH below_child [OF _ step.hyps(2), of c] by blast+
          have "as_nodes sp z \<noteq> None" using step.hyps(2) reference_ends(1) [OF g] by (fastforce simp: child_of_def)
          then have z1: "as_nodes sp1 z \<noteq> None" using S1 [of z] False by blast
          have "as_nodes sp y \<noteq> None" using step.hyps(2) ok by (auto simp: child_of_def as_ok_def)
          then have "as_nodes sp1 y \<noteq> None" using S1 [of y] False below_child [OF _ step.hyps(2), of c] by blast
          then have "(y, z) \<in> child_of U sp1" using K(1) [OF y(2)] step.hyps(2) z1 by blast
          with y below_child [OF y(2) step.hyps(2)] show ?thesis by (meson rtrancl.rtrancl_into_rtrancl)
        qed simp
      qed simp
      have join: "(n, m) \<in> (child_of U sp)\<^sup>*" if "m \<in> below U sp c \<or> (n, m) \<in> (child_of U sp1)\<^sup>*" for m
        using that K(2) below_trans [OF c(1)] unfolding below_def by blast
      have "as_nodes sp2 m = None \<longleftrightarrow> (n, m) \<in> (child_of U sp)\<^sup>*" if "?h m \<noteq> None" for m
      proof (cases "as_nodes sp1 m = None")
        case True
        then have "as_nodes sp2 m = None" using p2 by (auto simp: pruned_def Let_def)
        with True S1 [OF that] join show ?thesis by blast
      next
        case False
        with S1 [OF that] S2 [OF False] split join show ?thesis by blast
      qed
      with ret pruned_trans [OF p1 p2] show ?thesis by blast
    qed
  qed
qed

text \<open>C20: Deleting a node never returns when it is in a set of own nodes each of which has its first hierarchical child
  (the target of its first forward reference of a hierarchical type) in the set, so that the first references lead round
  a cycle. A cycle through a later reference alone, or through a foreign node, is not meant.\<close>

theorem delete_node_cycle_hangs:
  assumes "n \<in> C" "\<forall>a \<in> C. a \<in> set (as_own sp) \<and> (\<exists>c \<in> C. first_child U (as_nodes sp) a = Some (Some c))"
  shows "delete_node U n sp = None"
proof (rule ccontr)
  assume "delete_node U n sp \<noteq> None"
  then obtain r where r: "delete_node U n sp = Some r" by blast
  define P where "P = (\<lambda>U n (sp :: ('a, 'b, 'c, 'd, 'e) aspace) (r :: ('a, 'b, 'c, 'd, 'e) aspace \<times> ('a, 'b, 'c, 'd) as_out list).
    \<forall>C. n \<in> C \<longrightarrow> \<not> (\<forall>a \<in> C. a \<in> set (as_own sp) \<and> (\<exists>c \<in> C. first_child U (as_nodes sp) a = Some (Some c))))"
  have "P U n sp r"
  proof (rule delete_node.raw_induct [OF _ r])
    fix rec U n sp r
    assume IH: "\<And>U n sp r. rec U n sp = Some r \<Longrightarrow> P U n sp r"
      and step: "(if n \<notin> set (as_own sp) then Some (sp, []) else
        first_child U (as_nodes sp) n \<bind> (\<lambda>child. case child of
            None \<Rightarrow> delete_all_references U n sp \<bind> (\<lambda>(sp1, outs).
              Some (sp1\<lparr>as_nodes := (as_nodes sp1)(n := None), as_own := removeAll n (as_own sp1)\<rparr>, outs @ [NodeDeleted n]))
          | Some c \<Rightarrow> rec U c sp \<bind> (\<lambda>(sp1, outs). rec U n sp1 \<bind> (\<lambda>(sp2, outs'). Some (sp2, outs @ outs'))))) = Some r"
    show "P U n sp r"
      unfolding P_def
    proof (intro allI impI notI)
      fix C assume C: "n \<in> C" "\<forall>a \<in> C. a \<in> set (as_own sp) \<and> (\<exists>c \<in> C. first_child U (as_nodes sp) a = Some (Some c))"
      then obtain c where c: "c \<in> C" "first_child U (as_nodes sp) n = Some (Some c)" by blast
      then obtain r1 where "rec U c sp = Some r1" using step C by (auto simp: bind_eq_Some_conv)
      from IH [OF this] C(2) c(1) show False unfolding P_def by blast
    qed
  qed
  with assms show False unfolding P_def by blast
qed

end
