(* ===== verification/Node_Utils.thy ===== *)
theory Node_Utils
  imports Address_Space
begin

text \<open>
  \<open>address_space/node_utils.cpp\<close>: names, children, declarations and properties of nodes, the state of a node that
  is exported, and \<open>AddressSpaceImpl::ModifyNode\<close>, which writes them. The conversions of variants, the order of
  data values and the string form of a node id are the fields of \<open>as_env\<close>.
\<close>

text \<open>The status codes that these parts of the server answer with.\<close>

datatype status =
  Good | Bad | BadWrongNodeId | BadNothingToDo | BadBrowseNameInvalid | BadWrongPropertyId | BadWrongParentId
| BadWrongReferenceId | BadDuplicateNodeId | BadWrongTypeId | BadWrongNodeClass | BadWrongAttributeId | BadUserAccessDenied
| BadCantParseString

record ('n, 'v, 'q, 't, 'y) as_env =
  ae_ua :: "'n ua"
  ae_scada_string :: "'n \<Rightarrow> string"
  ae_convert :: "'y \<Rightarrow> 'v \<Rightarrow> 'v option"
  ae_is_update :: "('v, 'q, 't) data_value \<Rightarrow> ('v, 'q, 't) data_value \<Rightarrow> bool"
  ae_null_variant :: 'v
  ae_qualifier :: 'q
  ae_now :: 't

section \<open>Names\<close>

definition node_browse_name :: "('n, 'v, 'q, 't, 'y) as_env \<Rightarrow> 'n \<Rightarrow> ('n, 'v, 'q, 't, 'y) anode \<Rightarrow> string option" where
  "node_browse_name E n nd =
     (if an_browse_name nd \<noteq> '''' then Some (an_browse_name nd)
      else do { check (n \<noteq> ua_null (ae_ua E)); Some (ae_scada_string E n) })"

definition node_display_name :: "('n, 'v, 'q, 't, 'y) as_env \<Rightarrow> 'n \<Rightarrow> ('n, 'v, 'q, 't, 'y) anode \<Rightarrow> string option" where
  "node_display_name E n nd =
     (if an_display_name nd \<noteq> '''' then Some (an_display_name nd) else node_browse_name E n nd)"

section \<open>Children\<close>

fun find_named ::
    "('n, 'v, 'q, 't, 'y) as_env \<Rightarrow> ('n, 'v, 'q, 't, 'y) heap \<Rightarrow>
     (('n, 'v, 'q, 't, 'y) as_env \<Rightarrow> 'n \<Rightarrow> ('n, 'v, 'q, 't, 'y) anode \<Rightarrow> string option) \<Rightarrow> 'n \<Rightarrow> string \<Rightarrow> 'n ref list \<Rightarrow>
     'n option option" where
  "find_named E h name_of ty name [] = Some None"
| "find_named E h name_of ty name (ref # refs) = do {
     b \<leftarrow> is_subtype_of h (fst ref) ty;
     if b then do {
       nd \<leftarrow> h (snd ref);
       nm \<leftarrow> name_of E (snd ref) nd;
       if nm = name then Some (Some (snd ref)) else find_named E h name_of ty name refs
     } else find_named E h name_of ty name refs
   }"

definition find_child :: "('n, 'v, 'q, 't, 'y) as_env \<Rightarrow> ('n, 'v, 'q, 't, 'y) heap \<Rightarrow> 'n \<Rightarrow> string \<Rightarrow> 'n option option" where
  "find_child E h parent name =
     h parent \<bind> (\<lambda>nd. find_named E h node_browse_name (hierarchical_references (ae_ua E)) name (an_forward nd))"

definition find_child_by_display_name ::
    "('n, 'v, 'q, 't, 'y) as_env \<Rightarrow> ('n, 'v, 'q, 't, 'y) heap \<Rightarrow> 'n \<Rightarrow> string \<Rightarrow> 'n option option" where
  "find_child_by_display_name E h parent name =
     h parent \<bind> (\<lambda>nd. find_named E h node_display_name (hierarchical_references (ae_ua E)) name (an_forward nd))"

definition find_child_component ::
    "('n, 'v, 'q, 't, 'y) as_env \<Rightarrow> ('n, 'v, 'q, 't, 'y) heap \<Rightarrow> 'n \<Rightarrow> string \<Rightarrow> 'n option option" where
  "find_child_component E h parent name =
     h parent \<bind> (\<lambda>nd. find_named E h node_browse_name (has_component (ae_ua E)) name (an_forward nd))"

section \<open>Walks over supertypes\<close>

text \<open>The loops that ask a type and then its supertypes for something, until one has it.\<close>

partial_function (option) walk_types ::
    "('n, 'v, 'q, 't, 'y) heap \<Rightarrow> ('n \<Rightarrow> 'r option option) \<Rightarrow> 'n \<Rightarrow> 'r option option" where
  "walk_types h f ty = do {
     nd \<leftarrow> h ty;
     found \<leftarrow> f ty;
     (case found of
        Some x \<Rightarrow> Some (Some x)
      | None \<Rightarrow> (case an_supertype nd of None \<Rightarrow> Some None | Some s \<Rightarrow> walk_types h f s))
   }"

declare walk_types.simps [code]

definition find_child_declaration ::
    "('n, 'v, 'q, 't, 'y) as_env \<Rightarrow> ('n, 'v, 'q, 't, 'y) heap \<Rightarrow> 'n \<Rightarrow> string \<Rightarrow> 'n option option" where
  "find_child_declaration E h ty name = walk_types h (\<lambda>t. find_child E h t name) ty"

definition find_component_declaration_of ::
    "('n, 'v, 'q, 't, 'y) as_env \<Rightarrow> ('n, 'v, 'q, 't, 'y) heap \<Rightarrow> 'n \<Rightarrow> string \<Rightarrow> 'n option option" where
  "find_component_declaration_of E h ty name = walk_types h (\<lambda>t. find_child_component E h t name) ty"

definition get_reference_target ::
    "('n, 'v, 'q, 't, 'y) heap \<Rightarrow> 'n option \<Rightarrow> 'n \<Rightarrow> 'n option option" where
  "get_reference_target h source ty =
     (case source of
        None \<Rightarrow> Some None
      | Some s \<Rightarrow> walk_types h (\<lambda>t. map_option (map_option snd) (find_node_reference h t ty True)) s)"

definition is_variable :: "('n, 'v, 'q, 't, 'y) heap \<Rightarrow> 'n \<Rightarrow> bool option" where
  "is_variable h n = map_option (\<lambda>nd. an_class nd = VariableClass) (h n)"

text \<open>\<open>GetProperties\<close>: the targets of property references that are variables.\<close>

fun properties_of :: "'n ua \<Rightarrow> ('n, 'v, 'q, 't, 'y) heap \<Rightarrow> 'n ref list \<Rightarrow> 'n list option" where
  "properties_of U h [] = Some []"
| "properties_of U h (ref # refs) = do {
     b \<leftarrow> is_subtype_of h (fst ref) (has_property U);
     v \<leftarrow> (if b then is_variable h (snd ref) else Some False);
     rest \<leftarrow> properties_of U h refs;
     Some (if v then snd ref # rest else rest)
   }"

definition get_properties :: "'n ua \<Rightarrow> ('n, 'v, 'q, 't, 'y) heap \<Rightarrow> 'n \<Rightarrow> 'n list option" where
  "get_properties U h n = h n \<bind> (\<lambda>nd. properties_of U h (an_forward nd))"

text \<open>The search for a declaration among the properties, or the aggregates, of one type.\<close>

fun property_with_id :: "'n ua \<Rightarrow> ('n, 'v, 'q, 't, 'y) heap \<Rightarrow> 'n \<Rightarrow> 'n ref list \<Rightarrow> 'n option option" where
  "property_with_id U h decl [] = Some None"
| "property_with_id U h decl (ref # refs) = do {
     b \<leftarrow> is_subtype_of h (fst ref) (has_property U);
     v \<leftarrow> (if b then is_variable h (snd ref) else Some False);
     if v \<and> snd ref = decl then Some (Some decl) else property_with_id U h decl refs
   }"

fun aggregate_with_id :: "'n ua \<Rightarrow> ('n, 'v, 'q, 't, 'y) heap \<Rightarrow> 'n \<Rightarrow> 'n ref list \<Rightarrow> 'n option option" where
  "aggregate_with_id U h decl [] = Some None"
| "aggregate_with_id U h decl (ref # refs) = do {
     b \<leftarrow> is_subtype_of h (fst ref) (aggregates U);
     if b \<and> snd ref = decl then Some (Some decl) else aggregate_with_id U h decl refs
   }"

definition get_property_declaration ::
    "'n ua \<Rightarrow> ('n, 'v, 'q, 't, 'y) heap \<Rightarrow> 'n \<Rightarrow> 'n \<Rightarrow> 'n option option" where
  "get_property_declaration U h ty decl =
     walk_types h (\<lambda>t. h t \<bind> (\<lambda>nd. property_with_id U h decl (an_forward nd))) ty"

definition get_aggregate_declaration ::
    "'n ua \<Rightarrow> ('n, 'v, 'q, 't, 'y) heap \<Rightarrow> 'n \<Rightarrow> 'n \<Rightarrow> 'n option option" where
  "get_aggregate_declaration U h ty decl =
     walk_types h (\<lambda>t. h t \<bind> (\<lambda>nd. aggregate_with_id U h decl (an_forward nd))) ty"

definition find_declaration :: "'n ua \<Rightarrow> ('n, 'v, 'q, 't, 'y) heap \<Rightarrow> 'n \<Rightarrow> 'n \<Rightarrow> 'n option option" where
  "find_declaration U h n decl =
     h n \<bind> (\<lambda>nd. case an_type_definition nd of None \<Rightarrow> Some None | Some t \<Rightarrow> get_property_declaration U h t decl)"

text \<open>\<open>GetDeclaration\<close>: the child of that name of a type of the parent.\<close>

definition get_declaration ::
    "('n, 'v, 'q, 't, 'y) as_env \<Rightarrow> ('n, 'v, 'q, 't, 'y) heap \<Rightarrow> 'n \<Rightarrow> 'n option option" where
  "get_declaration E h n = do {
     nd \<leftarrow> h n;
     check (\<not> is_type (an_class nd));
     parent \<leftarrow> get_parent (ae_ua E) h n;
     (case parent of
        None \<Rightarrow> Some None
      | Some p \<Rightarrow> do {
          pn \<leftarrow> h p;
          if is_type (an_class pn) then Some (Some n)
          else do {
            name \<leftarrow> node_browse_name E n nd;
            (case an_type_definition pn of
               None \<Rightarrow> Some None
             | Some t \<Rightarrow> walk_types h (\<lambda>t. find_child E h t name) t)
          }
        })
   }"

definition find_component_declaration ::
    "('n, 'v, 'q, 't, 'y) as_env \<Rightarrow> ('n, 'v, 'q, 't, 'y) heap \<Rightarrow> 'n \<Rightarrow> 'n option option" where
  "find_component_declaration E h n = do {
     parent \<leftarrow> get_parent (ae_ua E) h n;
     (case parent of
        None \<Rightarrow> Some None
      | Some p \<Rightarrow> do {
          pn \<leftarrow> h p;
          (case an_type_definition pn of
             None \<Rightarrow> Some (if is_type (an_class pn) then Some n else None)
           | Some t \<Rightarrow> do {
               nd \<leftarrow> h n;
               name \<leftarrow> node_browse_name E n nd;
               find_component_declaration_of E h t name
             })
        })
   }"

definition is_instance_of :: "('n, 'v, 'q, 't, 'y) heap \<Rightarrow> 'n option \<Rightarrow> 'n \<Rightarrow> bool option" where
  "is_instance_of h n ty =
     (case n of
        None \<Rightarrow> Some False
      | Some n \<Rightarrow> h n \<bind> (\<lambda>nd. case an_type_definition nd of None \<Rightarrow> Some False | Some t \<Rightarrow> is_subtype_of h t ty))"

partial_function (option) is_child_of ::
    "'n ua \<Rightarrow> ('n, 'v, 'q, 't, 'y) heap \<Rightarrow> 'n option \<Rightarrow> 'n \<Rightarrow> bool option" where
  "is_child_of U h n p =
     (case n of
        None \<Rightarrow> Some False
      | Some m \<Rightarrow> if m = p then Some True else get_parent U h m \<bind> (\<lambda>m'. is_child_of U h m' p))"

declare is_child_of.simps [code]

definition get_modelling_rule_id :: "'n ua \<Rightarrow> ('n, 'v, 'q, 't, 'y) heap \<Rightarrow> 'n \<Rightarrow> 'n option" where
  "get_modelling_rule_id U h n = do {
     nd \<leftarrow> h n;
     check (\<not> is_type (an_class nd));
     r \<leftarrow> find_node_reference h n (has_modelling_rule U) True;
     Some (case r of Some ref \<Rightarrow> snd ref | None \<Rightarrow> ua_null U)
   }"

section \<open>Children that may be created\<close>

text \<open>One reference of a type: the placeholder's reference type and type definition.\<close>

definition creatable_child ::
    "'n ua \<Rightarrow> ('n, 'v, 'q, 't, 'y) heap \<Rightarrow> 'n ref \<Rightarrow> 'n ref list option" where
  "creatable_child U h ref = do {
     nd \<leftarrow> h (snd ref);
     if is_type (an_class nd) then Some []
     else do {
       b \<leftarrow> is_subtype_of h (fst ref) (hierarchical_references U);
       if \<not> b then Some []
       else do {
         rule \<leftarrow> get_modelling_rule_id U h (snd ref);
         if rule \<noteq> optional_placeholder U \<and> rule \<noteq> mandatory_placeholder U then Some []
         else do {
           t \<leftarrow> find_node_reference h (snd ref) (has_type_definition U) True;
           Some (case t of Some tr \<Rightarrow> [(fst ref, snd tr)] | None \<Rightarrow> [])
         }
       }
     }
   }"

fun creatable_children :: "'n ua \<Rightarrow> ('n, 'v, 'q, 't, 'y) heap \<Rightarrow> 'n ref list \<Rightarrow> 'n ref list option" where
  "creatable_children U h [] = Some []"
| "creatable_children U h (ref # refs) = do {
     c \<leftarrow> creatable_child U h ref;
     cs \<leftarrow> creatable_children U h refs;
     Some (c @ cs)
   }"

partial_function (option) creatable_of_types ::
    "'n ua \<Rightarrow> ('n, 'v, 'q, 't, 'y) heap \<Rightarrow> 'n option \<Rightarrow> 'n ref list option" where
  "creatable_of_types U h ty =
     (case ty of
        None \<Rightarrow> Some []
      | Some t \<Rightarrow> do {
          nd \<leftarrow> h t;
          cs \<leftarrow> creatable_children U h (an_forward nd);
          rest \<leftarrow> creatable_of_types U h (an_supertype nd);
          Some (cs @ rest)
        })"

declare creatable_of_types.simps [code]

definition get_creatable_child_types ::
    "'n ua \<Rightarrow> ('n, 'v, 'q, 't, 'y) heap \<Rightarrow> 'n \<Rightarrow> 'n ref list option" where
  "get_creatable_child_types U h n =
     h n \<bind> (\<lambda>nd. creatable_of_types U h (if is_type (an_class nd) then Some n else an_type_definition nd))"

section \<open>Property values\<close>

definition get_property_value ::
    "('n, 'v, 'q, 't, 'y) as_env \<Rightarrow> ('n, 'v, 'q, 't, 'y) heap \<Rightarrow> 'n \<Rightarrow> 'n \<Rightarrow> 'v option" where
  "get_property_value E h n decl = do {
     d \<leftarrow> find_declaration (ae_ua E) h n decl;
     check (d \<noteq> None);
     dn \<leftarrow> h (the d);
     name \<leftarrow> node_browse_name E (the d) dn;
     c \<leftarrow> find_child E h n name;
     (case c of
        None \<Rightarrow> Some (ae_null_variant E)
      | Some c \<Rightarrow> map_option (\<lambda>cn. if an_class cn = VariableClass then dv_value (an_value cn) else ae_null_variant E) (h c))
   }"

text \<open>\<open>SetValue\<close> of a variable: a generic variable takes a newer value, a typed property what it can convert.
  The result tells whether the status is good.\<close>

definition set_value ::
    "('n, 'v, 'q, 't, 'y) as_env \<Rightarrow> 'n \<Rightarrow> ('v, 'q, 't) data_value \<Rightarrow> ('n, 'v, 'q, 't, 'y) anode \<Rightarrow>
     ('n, 'v, 'q, 't, 'y) anode \<times> bool \<times> ('n, 'v, 'q, 't) as_out list" where
  "set_value E n v nd =
     (case an_kind nd of
        Generic \<Rightarrow>
          if an_value nd = v then (nd, True, [])
          else (if ae_is_update E (an_value nd) v then nd\<lparr>an_value := v\<rparr> else nd, True, [ForwardData n v])
      | Typed y \<Rightarrow>
          (case ae_convert E y (dv_value v) of
             None \<Rightarrow> (nd, False, [])
           | Some x \<Rightarrow>
               if dv_value (an_value nd) = x then (nd, True, [])
               else (nd\<lparr>an_value := (an_value nd)\<lparr>dv_value := x\<rparr>\<rparr>, True,
                     [ForwardData n \<lparr>dv_value = x, dv_qualifier = ae_qualifier E, dv_source = ae_now E, dv_server = ae_now E\<rparr>])))"

text \<open>\<open>GetValue\<close>: a typed property has no time of its own.\<close>

definition get_value :: "('n, 'v, 'q, 't, 'y) as_env \<Rightarrow> ('n, 'v, 'q, 't, 'y) anode \<Rightarrow> ('v, 'q, 't) data_value" where
  "get_value E nd =
     (case an_kind nd of
        Generic \<Rightarrow> an_value nd
      | Typed y \<Rightarrow> \<lparr>dv_value = dv_value (an_value nd), dv_qualifier = ae_qualifier E, dv_source = ae_now E, dv_server = ae_now E\<rparr>)"

definition plain_value :: "('n, 'v, 'q, 't::order_bot, 'y) as_env \<Rightarrow> 'v \<Rightarrow> ('v, 'q, 't) data_value" where
  "plain_value E v = \<lparr>dv_value = v, dv_qualifier = ae_qualifier E, dv_source = bot, dv_server = bot\<rparr>"

definition set_property_value ::
    "('n, 'v, 'q, 't::order_bot, 'y) as_env \<Rightarrow> ('n, 'v, 'q, 't, 'y) heap \<Rightarrow> 'n \<Rightarrow> 'n \<Rightarrow> 'v \<Rightarrow>
     (('n, 'v, 'q, 't, 'y) heap \<times> bool \<times> ('n, 'v, 'q, 't) as_out list) option" where
  "set_property_value E h n decl v = do {
     d \<leftarrow> find_declaration (ae_ua E) h n decl;
     check (d \<noteq> None);
     dn \<leftarrow> h (the d);
     name \<leftarrow> node_browse_name E (the d) dn;
     c \<leftarrow> find_child E h n name;
     check (c \<noteq> None);
     cn \<leftarrow> h (the c);
     check (an_class cn = VariableClass);
     (case set_value E (the c) (plain_value E v) cn of
        (cn', good, outs) \<Rightarrow> Some (h(the c \<mapsto> cn'), good, outs))
   }"

section \<open>\<open>ModifyNode\<close>\<close>

record ('v) node_attributes =
  na_browse_name :: string
  na_display_name :: string
  na_value :: "'v option"

text \<open>The changed properties, whose ids go into an array of 50: one more is a write outside of it.\<close>

definition max_changed_properties :: nat where "max_changed_properties = 50"

fun modify_properties ::
    "('n, 'v, 'q, 't::order_bot, 'y) as_env \<Rightarrow> 'n \<Rightarrow> ('n \<times> 'v) list \<Rightarrow> 'n list \<Rightarrow> ('n, 'v, 'q, 't, 'y) heap \<Rightarrow>
     (('n, 'v, 'q, 't, 'y) heap \<times> 'n list \<times> ('n, 'v, 'q, 't) as_out list) option" where
  "modify_properties E n [] pids h = Some (h, pids, [])"
| "modify_properties E n ((decl, v) # props) pids h = do {
     old \<leftarrow> get_property_value E h n decl;
     if v = old then modify_properties E n props pids h
     else do {
       check (length pids < max_changed_properties);
       (h1, _, outs) \<leftarrow> set_property_value E h n decl v;
       (h2, pids', outs') \<leftarrow> modify_properties E n props (pids @ [decl]) h1;
       Some (h2, pids', outs @ outs')
     }
   }"

definition modify_browse_name ::
    "('n, 'v, 'q, 't, 'y) as_env \<Rightarrow> 'n \<Rightarrow> string \<Rightarrow> ('n, 'v, 'q, 't, 'y) anode \<Rightarrow>
     (('n, 'v, 'q, 't, 'y) anode \<times> attribute_id list) option" where
  "modify_browse_name E n new nd =
     (if new = '''' then Some (nd, [])
      else do {
        name \<leftarrow> node_browse_name E n nd;
        Some (if name \<noteq> new then (nd\<lparr>an_browse_name := new\<rparr>, [BrowseName]) else (nd, []))
      })"

definition modify_display_name ::
    "('n, 'v, 'q, 't, 'y) as_env \<Rightarrow> 'n \<Rightarrow> string \<Rightarrow> ('n, 'v, 'q, 't, 'y) anode \<Rightarrow>
     (('n, 'v, 'q, 't, 'y) anode \<times> attribute_id list) option" where
  "modify_display_name E n new nd =
     (if new = '''' then Some (nd, [])
      else do {
        title \<leftarrow> node_display_name E n nd;
        Some (if title \<noteq> new then (nd\<lparr>an_display_name := new\<rparr>, [DisplayName]) else (nd, []))
      })"

definition modify_value ::
    "('n, 'v, 'q, 't::order_bot, 'y) as_env \<Rightarrow> 'n \<Rightarrow> 'v option \<Rightarrow> ('n, 'v, 'q, 't, 'y) anode \<Rightarrow>
     ('n, 'v, 'q, 't, 'y) anode \<times> attribute_id list \<times> ('n, 'v, 'q, 't) as_out list" where
  "modify_value E n new nd =
     (case new of
        None \<Rightarrow> (nd, [], [])
      | Some v \<Rightarrow>
          if an_class nd = VariableClass \<and> get_value E nd \<noteq> plain_value E v
          then (case set_value E n (plain_value E v) nd of (nd', _, outs) \<Rightarrow> (nd', [ValueAttr], outs))
          else (nd, [], []))"

definition modify_attributes ::
    "('n, 'v, 'q, 't::order_bot, 'y) as_env \<Rightarrow> 'n \<Rightarrow> 'v node_attributes \<Rightarrow> ('n, 'v, 'q, 't, 'y) anode \<Rightarrow>
     (('n, 'v, 'q, 't, 'y) anode \<times> attribute_id list \<times> ('n, 'v, 'q, 't) as_out list) option" where
  "modify_attributes E n attrs nd = do {
     (nd1, a1) \<leftarrow> modify_browse_name E n (na_browse_name attrs) nd;
     (nd2, a2) \<leftarrow> modify_display_name E n (na_display_name attrs) nd1;
     let (nd3, a3, outs) = modify_value E n (na_value attrs) nd2;
     Some (nd3, a1 @ a2 @ a3, outs)
   }"

definition modify_node ::
    "('n, 'v, 'q, 't::order_bot, 'y) as_env \<Rightarrow> 'n \<Rightarrow> 'v node_attributes \<Rightarrow> ('n \<times> 'v) list \<Rightarrow>
     ('n, 'v, 'q, 't, 'y) aspace \<Rightarrow> (('n, 'v, 'q, 't, 'y) aspace \<times> bool \<times> ('n, 'v, 'q, 't) as_out list) option" where
  "modify_node E n attrs props sp = do {
     nd \<leftarrow> as_nodes sp n;
     (nd', changed, outs) \<leftarrow> modify_attributes E n attrs nd;
     (h, pids, outs') \<leftarrow> modify_properties E n props [] ((as_nodes sp)(n \<mapsto> nd'));
     let sp' = sp\<lparr>as_nodes := h\<rparr>;
     if changed = [] \<and> pids = [] then Some (sp', False, outs @ outs')
     else Some (sp', True, outs @ outs' @ [NodeChanged n changed pids, NodeModified n pids])
   }"

section \<open>Exported states\<close>

record 'n exported_reference =
  er_type :: 'n
  er_node :: 'n
  er_node_class :: node_class

record ('n, 'v) exported_state =
  xs_node_id :: 'n
  xs_node_class :: node_class
  xs_type_definition_id :: 'n
  xs_parent_id :: 'n
  xs_reference_type_id :: 'n
  xs_browse_name :: string
  xs_display_name :: string
  xs_inverse_name :: string
  xs_data_type :: 'n
  xs_value :: "'v option"
  xs_properties :: "('n \<times> 'v) list"
  xs_references :: "'n exported_reference list"
  xs_supertype_id :: 'n

definition id_or_null :: "'n ua \<Rightarrow> 'n option \<Rightarrow> 'n" where
  "id_or_null U n = (case n of Some n \<Rightarrow> n | None \<Rightarrow> ua_null U)"

definition get_type_definition_id :: "'n ua \<Rightarrow> ('n, 'v, 'q, 't, 'y) anode \<Rightarrow> 'n" where
  "get_type_definition_id U nd = id_or_null U (an_type_definition nd)"

definition get_supertype_id :: "'n ua \<Rightarrow> ('n, 'v, 'q, 't, 'y) anode \<Rightarrow> 'n" where
  "get_supertype_id U nd = id_or_null U (if is_type (an_class nd) then an_supertype nd else None)"

definition get_data_type_id :: "'n ua \<Rightarrow> ('n, 'v, 'q, 't, 'y) anode \<Rightarrow> 'n" where
  "get_data_type_id U nd = (if an_class nd \<in> {VariableClass, VariableTypeClass} then an_data_type nd else ua_null U)"

text \<open>The value of a variable, or the default value of a variable type.\<close>

definition get_node_value :: "('n, 'v, 'q, 't, 'y) anode \<Rightarrow> 'v option" where
  "get_node_value nd = (if an_class nd \<in> {VariableClass, VariableTypeClass} then Some (dv_value (an_value nd)) else None)"

definition get_inverse_name :: "('n, 'v, 'q, 't, 'y) anode \<Rightarrow> string" where
  "get_inverse_name nd = (if an_class nd = ReferenceTypeClass then an_inverse_name nd else '''')"

text \<open>Whether a forward reference of \<open>n\<close> is exported with it.\<close>

definition exports_reference :: "'n ua \<Rightarrow> ('n, 'v, 'q, 't, 'y) heap \<Rightarrow> 'n \<Rightarrow> 'n ref \<Rightarrow> bool option" where
  "exports_reference U h n ref = do {
     non \<leftarrow> is_subtype_of h (fst ref) (non_hierarchical_references U);
     if non then Some True
     else do {
       hier \<leftarrow> is_subtype_of h (fst ref) (hierarchical_references U);
       if \<not> hier \<or> fst ref = has_subtype U then Some False
       else do {
         parent \<leftarrow> get_parent_reference U h (snd ref);
         Some (map_option snd parent \<noteq> Some n \<or> map_option fst parent \<noteq> Some (fst ref))
       }
     }
   }"

fun export_references ::
    "'n ua \<Rightarrow> ('n, 'v, 'q, 't, 'y) heap \<Rightarrow> 'n \<Rightarrow> 'n ref list \<Rightarrow> 'n exported_reference list option" where
  "export_references U h n [] = Some []"
| "export_references U h n (ref # refs) = do {
     b \<leftarrow> exports_reference U h n ref;
     here \<leftarrow> (if b then map_option (\<lambda>nd. [\<lparr>er_type = fst ref, er_node = snd ref, er_node_class = an_class nd\<rparr>]) (h (snd ref))
             else Some []);
     rest \<leftarrow> export_references U h n refs;
     Some (here @ rest)
   }"

fun export_properties ::
    "('n, 'v, 'q, 't, 'y) as_env \<Rightarrow> ('n, 'v, 'q, 't, 'y) heap \<Rightarrow> 'n list \<Rightarrow> ('n \<times> 'v) list option" where
  "export_properties E h [] = Some []"
| "export_properties E h (p # ps) = do {
     d \<leftarrow> find_component_declaration E h p;
     pn \<leftarrow> h p;
     rest \<leftarrow> export_properties E h ps;
     Some ((id_or_null (ae_ua E) d, dv_value (an_value pn)) # rest)
   }"

definition make_node_state ::
    "('n, 'v, 'q, 't, 'y) as_env \<Rightarrow> ('n, 'v, 'q, 't, 'y) heap \<Rightarrow> 'n \<Rightarrow> ('n, 'v) exported_state option" where
  "make_node_state E h n = (let U = ae_ua E in do {
     nd \<leftarrow> h n;
     ps \<leftarrow> get_properties U h n;
     properties \<leftarrow> export_properties E h ps;
     references \<leftarrow> export_references U h n (an_forward nd);
     parent \<leftarrow> get_parent_reference U h n;
     name \<leftarrow> node_browse_name E n nd;
     title \<leftarrow> node_display_name E n nd;
     Some \<lparr>xs_node_id = n, xs_node_class = an_class nd, xs_type_definition_id = get_type_definition_id U nd,
       xs_parent_id = id_or_null U (map_option snd parent), xs_reference_type_id = id_or_null U (map_option fst parent),
       xs_browse_name = name, xs_display_name = title, xs_inverse_name = get_inverse_name nd,
       xs_data_type = get_data_type_id U nd, xs_value = get_node_value nd,
       xs_properties = properties, xs_references = references, xs_supertype_id = get_supertype_id U nd\<rparr>
   })"

end
