(* ===== verification/Node_Walks.thy ===== *)
theory Node_Walks
  imports Node_Utils Node_Ids
begin

text \<open>
  \<open>address_space/address_space_util.cpp\<close>: the lookup of a node by a nested id, paths to a field of a data value, the
  conversion of property values, flags inherited from parents, titles with those of the parents, what a browse
  request asks for, and the walk over all nodes. The conversions of variants and the ids of the model's own types
  are the fields of \<open>walk_env\<close>.
\<close>

record ('n, 'v, 'k) walk_env =
  we_is_null :: "'v \<Rightarrow> bool"
  we_bool :: "'v \<Rightarrow> bool"                    \<comment> \<open>\<open>get_or (false)\<close>\<close>
  we_builtin :: "'n \<Rightarrow> 'k option"            \<comment> \<open>\<open>ToBuiltInDataType\<close>, \<open>None\<close> for \<open>COUNT\<close>\<close>
  we_empty :: 'k
  we_change_type :: "'k \<Rightarrow> 'v \<Rightarrow> 'v option"
  base_data_type :: 'n
  organizes :: 'n
  data_group_type :: 'n
  data_group_simulated :: 'n
  data_item_type :: 'n
  data_item_simulated :: 'n
  device_type :: 'n
  device_disabled :: 'n
  has_ts_format :: 'n

section \<open>Nested nodes\<close>

text \<open>The part before the next exclamation mark, and what is left behind it.\<close>

definition next_part :: "string \<Rightarrow> string \<times> string" where
  "next_part s = (takeWhile (\<lambda>c. c \<noteq> CHR ''!'') s, drop 1 (dropWhile (\<lambda>c. c \<noteq> CHR ''!'') s))"

lemma next_part_shorter: "s \<noteq> '''' \<Longrightarrow> length (snd (next_part s)) < length s"
  using length_dropWhile_le [of "\<lambda>c. c \<noteq> CHR ''!''" s] by (cases s) (auto simp: next_part_def)

function descend ::
    "('n, 'v, 'q, 't, 'y) as_env \<Rightarrow> ('n, 'v, 'q, 't, 'y) heap \<Rightarrow> 'n \<Rightarrow> string \<Rightarrow> ('n \<times> string) option" where
  "descend E h n name =
     (if name = '''' then Some (n, name)
      else (case find_child E h n (fst (next_part name)) of
              None \<Rightarrow> None
            | Some None \<Rightarrow> Some (n, name)
            | Some (Some c) \<Rightarrow> descend E h c (snd (next_part name))))"
  by pat_completeness auto
termination
  by (relation "measure (\<lambda>(E, h, n, name). length name)") (auto simp: next_part_shorter)

declare descend.simps [simp del]

text \<open>\<open>GetMutableNestedNode\<close>: the node and the part of its name that is left.\<close>

definition get_nested_node ::
    "'n nid_lib \<Rightarrow> ('n, 'v, 'q, 't, 'y) as_env \<Rightarrow> ('n, 'v, 'q, 't, 'y) heap \<Rightarrow> 'n \<Rightarrow> ('n option \<times> string) option" where
  "get_nested_node L E h n =
     (if h n \<noteq> None then Some (Some n, '''')
      else let (parent, nested_name) = (case is_nested_node_id L n of Some (p, nm) \<Rightarrow> (p, nm) | None \<Rightarrow> (n, ''''))
           in if h parent = None then Some (None, nested_name)
              else map_option (\<lambda>(m, nm). (Some m, nm)) (descend E h parent nested_name))"

section \<open>Fields of data values\<close>

datatype value_field = Qualifier | SourceTimeStamp | ServerTimeStamp | Count

definition to_lower :: "char \<Rightarrow> char" where
  "to_lower c = (if 65 \<le> (of_char c :: nat) \<and> (of_char c :: nat) \<le> 90 then char_of ((of_char c :: nat) + 32) else c)"

definition iequals :: "string \<Rightarrow> string \<Rightarrow> bool" where
  "iequals s s' \<longleftrightarrow> List.map to_lower s = List.map to_lower s'"

definition parse_value_field :: "'n nid_lib \<Rightarrow> string \<Rightarrow> 'n \<times> value_field" where
  "parse_value_field L path =
     (case split_first (CHR ''!'') path of
        None \<Rightarrow> let n = node_id_from_scada_string L path
                in if n = nl_null L then (nl_null L, Qualifier) else (n, Count)
      | Some (str, name) \<Rightarrow>
          let n = node_id_from_scada_string L str
          in if n = nl_null L then (nl_null L, Qualifier)
             else if iequals name ''Quality'' then (n, Qualifier)
             else if iequals name ''ServerTimeStamp'' then (n, ServerTimeStamp)
             else if iequals name ''SourceTimeStamp'' then (n, SourceTimeStamp)
             else (nl_null L, Qualifier))"

section \<open>Flags and titles of parents\<close>

partial_function (option) is_simulated ::
    "('n, 'v, 'q, 't, 'y) as_env \<Rightarrow> ('n, 'v, 'k) walk_env \<Rightarrow> ('n, 'v, 'q, 't, 'y) heap \<Rightarrow> 'n \<Rightarrow> bool \<Rightarrow> bool option" where
  "is_simulated E W h n recursive = do {
     group \<leftarrow> is_instance_of h (Some n) (data_group_type W);
     item \<leftarrow> (if group then Some False else is_instance_of h (Some n) (data_item_type W));
     simulated \<leftarrow> (if group then map_option (we_bool W) (get_property_value E h n (data_group_simulated W))
                  else if item then map_option (we_bool W) (get_property_value E h n (data_item_simulated W))
                  else Some False);
     if simulated then Some True
     else if \<not> recursive then Some False
     else do {
       parent \<leftarrow> get_parent (ae_ua E) h n;
       (case parent of None \<Rightarrow> Some False | Some p \<Rightarrow> is_simulated E W h p True)
     }
   }"

partial_function (option) is_disabled ::
    "('n, 'v, 'q, 't, 'y) as_env \<Rightarrow> ('n, 'v, 'k) walk_env \<Rightarrow> ('n, 'v, 'q, 't, 'y) heap \<Rightarrow> 'n \<Rightarrow> bool \<Rightarrow> bool option" where
  "is_disabled E W h n recursive = do {
     device \<leftarrow> is_instance_of h (Some n) (device_type W);
     if \<not> device then Some False
     else do {
       disabled \<leftarrow> map_option (we_bool W) (get_property_value E h n (device_disabled W));
       if disabled then Some True
       else if \<not> recursive then Some False
       else do {
         parent \<leftarrow> get_parent (ae_ua E) h n;
         (case parent of None \<Rightarrow> Some False | Some p \<Rightarrow> is_disabled E W h p True)
       }
     }
   }"

definition get_ts_format :: "('n, 'v, 'k) walk_env \<Rightarrow> ('n, 'v, 'q, 't, 'y) heap \<Rightarrow> 'n \<Rightarrow> 'n option option" where
  "get_ts_format W h n = map_option (map_option snd) (find_node_reference h n (has_ts_format W) True)"

definition browse_name_of :: "('n, 'v, 'q, 't, 'y) as_env \<Rightarrow> ('n, 'v, 'q, 't, 'y) heap \<Rightarrow> 'n \<Rightarrow> string option" where
  "browse_name_of E h n =
     (if n = ua_null (ae_ua E) then Some ''''
      else case h n of None \<Rightarrow> Some '''' | Some nd \<Rightarrow> node_browse_name E n nd)"

partial_function (option) get_full_display_name ::
    "('n, 'v, 'q, 't, 'y) as_env \<Rightarrow> ('n, 'v, 'k) walk_env \<Rightarrow> ('n, 'v, 'q, 't, 'y) heap \<Rightarrow> 'n \<Rightarrow> string option" where
  "get_full_display_name E W h n = do {
     nd \<leftarrow> h n;
     parent \<leftarrow> get_parent (ae_ua E) h n;
     group \<leftarrow> is_instance_of h parent (data_group_type W);
     device \<leftarrow> (if group then Some True else is_instance_of h parent (device_type W));
     title \<leftarrow> node_display_name E n nd;
     (case parent of
        Some p \<Rightarrow> if group \<or> device then do { s \<leftarrow> get_full_display_name E W h p; Some (s @ '' : '' @ title) } else Some title
      | None \<Rightarrow> Some title)
   }"

declare is_simulated.simps [code] is_disabled.simps [code] get_full_display_name.simps [code]

definition display_name_of ::
    "('n, 'v, 'q, 't, 'y) as_env \<Rightarrow> ('n, 'v, 'k) walk_env \<Rightarrow> string \<Rightarrow> ('n, 'v, 'q, 't, 'y) heap \<Rightarrow> 'n \<Rightarrow> string option" where
  "display_name_of E W unknown h n =
     (case h n of None \<Rightarrow> Some unknown | Some _ \<Rightarrow> get_full_display_name E W h n)"

section \<open>Values of properties\<close>

definition data_type_to_value_type ::
    "('n, 'v, 'k) walk_env \<Rightarrow> ('n, 'v, 'q, 't, 'y) heap \<Rightarrow> 'n \<Rightarrow> 'k option" where
  "data_type_to_value_type W h ty =
     map_option (case_option (we_empty W) (\<lambda>k. k)) (walk_types h (\<lambda>t. Some (we_builtin W t)) ty)"

definition convert_property_value ::
    "('n, 'v, 'k) walk_env \<Rightarrow> ('n, 'v, 'q, 't, 'y) heap \<Rightarrow> 'n \<Rightarrow> 'v \<Rightarrow> (status \<times> 'v) option" where
  "convert_property_value W h ty v =
     (if we_is_null W v \<or> ty = base_data_type W then Some (Good, v)
      else do {
        k \<leftarrow> data_type_to_value_type W h ty;
        Some (if k = we_empty W then (Bad, v)
              else case we_change_type W k v of None \<Rightarrow> (Bad, v) | Some v' \<Rightarrow> (Good, v'))
      })"

text \<open>The values before a bad one stay converted.\<close>

fun convert_property_values ::
    "'n ua \<Rightarrow> ('n, 'v, 'k) walk_env \<Rightarrow> ('n, 'v, 'q, 't, 'y) heap \<Rightarrow> 'n \<Rightarrow> ('n \<times> 'v) list \<Rightarrow> (status \<times> ('n \<times> 'v) list) option" where
  "convert_property_values U W h ty [] = Some (Good, [])"
| "convert_property_values U W h ty ((decl, v) # props) = do {
     d \<leftarrow> get_aggregate_declaration U h ty decl;
     var \<leftarrow> (case d of None \<Rightarrow> Some False | Some p \<Rightarrow> is_variable h p);
     if \<not> var then Some (BadWrongPropertyId, (decl, v) # props)
     else do {
       dn \<leftarrow> h (the d);
       (s, v') \<leftarrow> convert_property_value W h (an_data_type dn) v;
       if s \<noteq> Good then Some (Bad, (decl, v') # props)
       else map_option (apsnd (Cons (decl, v'))) (convert_property_values U W h ty props)
     }
   }"

section \<open>What a browse request asks for\<close>

record 'n browse_input =
  bi_node_id :: 'n
  bi_direction :: browse_direction
  bi_reference_type_id :: 'n
  bi_include_subtypes :: bool
  bi_node_class_mask :: "32 word"
  bi_result_mask :: "32 word"

definition wants_reference :: "('n, 'v, 'q, 't, 'y) heap \<Rightarrow> 'n browse_input \<Rightarrow> 'n \<Rightarrow> bool \<Rightarrow> bool option" where
  "wants_reference h d ty forward =
     (if bi_direction d \<noteq> Both \<and> forward \<noteq> (bi_direction d = Forward) then Some False
      else if bi_include_subtypes d then is_subtype_of_id h ty (bi_reference_type_id d)
      else Some (ty = bi_reference_type_id d))"

definition wants_type_definition :: "'n ua \<Rightarrow> ('n, 'v, 'q, 't, 'y) heap \<Rightarrow> 'n browse_input \<Rightarrow> bool option" where
  "wants_type_definition U h d = wants_reference h d (has_type_definition U) True"

definition wants_organizes :: "('n, 'v, 'k) walk_env \<Rightarrow> ('n, 'v, 'q, 't, 'y) heap \<Rightarrow> 'n browse_input \<Rightarrow> bool option" where
  "wants_organizes W h d = wants_reference h d (organizes W) True"

definition wants_parent :: "'n ua \<Rightarrow> ('n, 'v, 'q, 't, 'y) heap \<Rightarrow> 'n browse_input \<Rightarrow> bool option" where
  "wants_parent U h d = wants_reference h d (hierarchical_references U) False"

section \<open>All nodes\<close>

text \<open>One reference: its node is queued when it was not seen before.\<close>

definition visit :: "'n ref \<Rightarrow> 'n set \<times> 'n list \<Rightarrow> 'n set \<times> 'n list" where
  "visit ref = (\<lambda>(seen, queue). if snd ref \<in> seen then (seen, queue) else (insert (snd ref) seen, queue @ [snd ref]))"

partial_function (option) visit_all ::
    "('n, 'v, 'q, 't, 'y) heap \<Rightarrow> 'n list \<Rightarrow> 'n set \<Rightarrow> 'n list \<Rightarrow> 'n list option" where
  "visit_all h queue seen result =
     (case queue of
        [] \<Rightarrow> Some result
      | n # rest \<Rightarrow> do {
          nd \<leftarrow> h n;
          let (seen', queue') = fold visit (an_inverse nd) (fold visit (an_forward nd) (seen, rest));
          visit_all h queue' seen' (result @ [n])
        })"

declare visit_all.simps [code]

definition get_all_nodes :: "'n ua \<Rightarrow> ('n, 'v, 'q, 't, 'y) heap \<Rightarrow> 'n list option" where
  "get_all_nodes U h = (case h (root_folder U) of None \<Rightarrow> Some [] | Some _ \<Rightarrow> visit_all h [root_folder U] {} [])"

fun node_states_of ::
    "('n, 'v, 'q, 't, 'y) as_env \<Rightarrow> ('n, 'v, 'q, 't, 'y) heap \<Rightarrow> 'n list \<Rightarrow> ('n, 'v) exported_state list option" where
  "node_states_of E h [] = Some []"
| "node_states_of E h (n # ns) = do {
     s \<leftarrow> make_node_state E h n;
     rest \<leftarrow> node_states_of E h ns;
     Some (s # rest)
   }"

definition make_node_states ::
    "('n, 'v, 'q, 't, 'y) as_env \<Rightarrow> ('n, 'v, 'q, 't, 'y) heap \<Rightarrow> ('n, 'v) exported_state list option" where
  "make_node_states E h = get_all_nodes (ae_ua E) h \<bind> node_states_of E h"

end
