(* ===== verification/Node_Factory.thy ===== *)
theory Node_Factory
  imports Node_Walks
begin

text \<open>
  \<open>address_space/generic_node_factory.cpp\<close>, \<open>node_factory_util.cpp\<close> and \<open>fallback_node_factory.h\<close>: creating a node of
  the address space from a node state, with its missing properties, its children and its property values.

  A node state with its children is a tree. The depth of nested creations and the walk over supertypes are bounded
  by fuel: \<open>create_node_fuel\<close> shows that more fuel changes no result.
\<close>

record ('n, 'v) created_state =
  cs_node_id :: 'n
  cs_node_class :: node_class
  cs_type_definition_id :: 'n
  cs_parent_id :: 'n
  cs_reference_type_id :: 'n
  cs_browse_name :: string
  cs_display_name :: string
  cs_inverse_name :: string
  cs_data_type :: 'n
  cs_value :: "'v option"
  cs_properties :: "('n \<times> 'v) list"

datatype ('n, 'v) state_tree = State_Tree (tree_state: "('n, 'v) created_state") (tree_children: "('n, 'v) state_tree list")

text \<open>A creation: the space it leaves, also when it fails, and the status.\<close>

type_synonym ('n, 'v, 'q, 't, 'y) creation =
  "(('n, 'v, 'q, 't, 'y) aspace \<times> status \<times> ('n, 'v, 'q, 't) as_out list) option"

section \<open>The new node\<close>

definition type_at :: "('n, 'v, 'q, 't, 'y) heap \<Rightarrow> 'n \<Rightarrow> 'n option" where
  "type_at h n = (case h n of Some nd \<Rightarrow> if is_type (an_class nd) then Some n else None | None \<Rightarrow> None)"

definition class_at :: "('n, 'v, 'q, 't, 'y) heap \<Rightarrow> 'n \<Rightarrow> node_class option" where
  "class_at h n = map_option an_class (h n)"

definition empty_node :: "('n, 'v, 'q, 't::order_bot, 'y) as_env \<Rightarrow> node_class \<Rightarrow> 'n \<Rightarrow> ('n, 'v, 'q, 't, 'y) anode" where
  "empty_node E c data_type =
     \<lparr>an_class = c, an_browse_name = '''', an_display_name = '''', an_forward = [], an_inverse = [],
      an_type_definition = None, an_supertype = None, an_kind = Generic, an_value = plain_value E (ae_null_variant E),
      an_data_type = data_type, an_inverse_name = ''''\<rparr>"

text \<open>The checks of the node state that need no type.\<close>

definition check_state :: "'n ua \<Rightarrow> ('n, 'v, 'q, 't, 'y) heap \<Rightarrow> ('n, 'v) created_state \<Rightarrow> 'n \<Rightarrow> status" where
  "check_state U h s parent =
     (if cs_node_id s = ua_null U then BadWrongNodeId
      else if cs_node_id s \<noteq> root_folder U \<and> \<not> is_type (cs_node_class s) \<and> parent = ua_null U then BadWrongParentId
      else if cs_node_id s \<noteq> root_folder U \<and> \<not> is_type (cs_node_class s) \<and> cs_reference_type_id s = ua_null U
        then BadWrongReferenceId
      else if h (cs_node_id s) \<noteq> None then BadDuplicateNodeId
      else Good)"

definition make_node ::
    "('n, 'v, 'q, 't::order_bot, 'y) as_env \<Rightarrow> ('n, 'v, 'q, 't, 'y) heap \<Rightarrow> ('n, 'v) created_state \<Rightarrow>
     status + ('n, 'v, 'q, 't, 'y) anode" where
  "make_node E h s = (let U = ae_ua E; new = (\<lambda>dt. Inr (empty_node E (cs_node_class s) dt)) in
     case cs_node_class s of
       ObjectClass \<Rightarrow>
         if class_at h (cs_type_definition_id s) \<noteq> Some ObjectTypeClass then Inl BadWrongTypeId else new (ua_null U)
     | VariableClass \<Rightarrow>
         (case h (cs_type_definition_id s) of
            Some tn \<Rightarrow>
              if an_class tn \<noteq> VariableTypeClass then Inl BadWrongTypeId
              else if cs_data_type s = ua_null U then new (an_data_type tn)
              else if class_at h (cs_data_type s) \<noteq> Some DataTypeClass then Inl BadWrongTypeId
              else new (cs_data_type s)
          | None \<Rightarrow> Inl BadWrongTypeId)
     | VariableTypeClass \<Rightarrow>
         if class_at h (cs_data_type s) \<noteq> Some DataTypeClass then Inl BadWrongTypeId else new (cs_data_type s)
     | ViewClass \<Rightarrow> Inl BadWrongNodeClass
     | _ \<Rightarrow> new (ua_null U))"

definition name_node :: "('n, 'v) created_state \<Rightarrow> ('n, 'v, 'q, 't, 'y) anode \<Rightarrow> ('n, 'v, 'q, 't, 'y) anode" where
  "name_node s nd =
     nd\<lparr>an_browse_name := (if cs_browse_name s \<noteq> '''' then cs_browse_name s else an_browse_name nd),
        an_display_name := (if cs_display_name s \<noteq> '''' then cs_display_name s else an_display_name nd),
        an_inverse_name := (if cs_inverse_name s \<noteq> '''' \<and> an_class nd = ReferenceTypeClass then cs_inverse_name s
                            else an_inverse_name nd)\<rparr>"

definition value_node ::
    "('n, 'v, 'q, 't::order_bot, 'y) as_env \<Rightarrow> ('n, 'v) created_state \<Rightarrow> ('n, 'v, 'q, 't, 'y) anode \<Rightarrow>
     status + ('n, 'v, 'q, 't, 'y) anode" where
  "value_node E s nd =
     (case cs_value s of
        None \<Rightarrow> Inr nd
      | Some v \<Rightarrow>
          if an_class nd = VariableClass then Inr (fst (set_value E (cs_node_id s) (plain_value E v) nd))
          else if an_class nd = VariableTypeClass then Inr (nd\<lparr>an_value := (an_value nd)\<lparr>dv_value := v\<rparr>\<rparr>)
          else Inl BadWrongAttributeId)"

definition new_node ::
    "('n, 'v, 'q, 't::order_bot, 'y) as_env \<Rightarrow> ('n, 'v, 'q, 't, 'y) heap \<Rightarrow> ('n, 'v) created_state \<Rightarrow> 'n \<Rightarrow>
     status + ('n, 'v, 'q, 't, 'y) anode" where
  "new_node E h s parent =
     (if check_state (ae_ua E) h s parent \<noteq> Good then Inl (check_state (ae_ua E) h s parent)
      else case make_node E h s of Inl e \<Rightarrow> Inl e | Inr nd \<Rightarrow> value_node E s (name_node s nd))"

section \<open>Missing properties and data variables\<close>

definition is_placeholder :: "'n ua \<Rightarrow> ('n, 'v, 'q, 't, 'y) heap \<Rightarrow> 'n \<Rightarrow> bool option" where
  "is_placeholder U h n =
     map_option (\<lambda>rule. rule = optional_placeholder U \<or> rule = mandatory_placeholder U) (get_modelling_rule_id U h n)"

definition variable_state ::
    "('n, 'v, 'q, 't, 'y) as_env \<Rightarrow> 'n nid_lib \<Rightarrow> ('n, 'v, 'q, 't, 'y) heap \<Rightarrow> 'n \<Rightarrow> 'n \<Rightarrow> 'n \<Rightarrow> 'n \<Rightarrow>
     ('n, 'v) state_tree option" where
  "variable_state E L h parent ty ref_type decl = do {
     dn \<leftarrow> h decl;
     name \<leftarrow> node_browse_name E decl dn;
     title \<leftarrow> node_display_name E decl dn;
     n \<leftarrow> make_nested_node_id L parent name (nl_ns L parent);
     Some (State_Tree \<lparr>cs_node_id = n, cs_node_class = VariableClass, cs_type_definition_id = ty, cs_parent_id = parent,
       cs_reference_type_id = ref_type, cs_browse_name = name, cs_display_name = title, cs_inverse_name = '''',
       cs_data_type = an_data_type dn, cs_value = Some (dv_value (an_value dn)), cs_properties = []\<rparr> [])
   }"

text \<open>The properties of one type. \<open>create\<close> is the factory. The guard looks for a child of the declaration.\<close>

fun create_properties_of ::
    "('n, 'v, 'q, 't, 'y) as_env \<Rightarrow> 'n nid_lib \<Rightarrow>
     (('n, 'v) state_tree \<Rightarrow> ('n, 'v, 'q, 't, 'y) aspace \<Rightarrow> ('n, 'v, 'q, 't, 'y) creation) \<Rightarrow>
     'n \<Rightarrow> 'n list \<Rightarrow> ('n, 'v, 'q, 't, 'y) aspace \<Rightarrow> ('n, 'v, 'q, 't, 'y) creation" where
  "create_properties_of E L create n [] sp = Some (sp, Good, [])"
| "create_properties_of E L create n (p # ps) sp = do {
     skip \<leftarrow> is_placeholder (ae_ua E) (as_nodes sp) p;
     if skip then create_properties_of E L create n ps sp
     else do {
       dn \<leftarrow> as_nodes sp p;
       name \<leftarrow> node_browse_name E p dn;
       found \<leftarrow> find_child E (as_nodes sp) p name;
       if found \<noteq> None then create_properties_of E L create n ps sp
       else do {
         s \<leftarrow> variable_state E L (as_nodes sp) n (property_type (ae_ua E)) (has_property (ae_ua E)) p;
         (sp1, e, outs) \<leftarrow> create s sp;
         if e \<noteq> Good then Some (sp1, e, outs)
         else map_option (\<lambda>(sp2, e2, outs2). (sp2, e2, outs @ outs2)) (create_properties_of E L create n ps sp1)
       }
     }
   }"

fun create_missing_properties ::
    "nat \<Rightarrow> ('n, 'v, 'q, 't, 'y) as_env \<Rightarrow> 'n nid_lib \<Rightarrow>
     (('n, 'v) state_tree \<Rightarrow> ('n, 'v, 'q, 't, 'y) aspace \<Rightarrow> ('n, 'v, 'q, 't, 'y) creation) \<Rightarrow>
     'n \<Rightarrow> 'n \<Rightarrow> ('n, 'v, 'q, 't, 'y) aspace \<Rightarrow> ('n, 'v, 'q, 't, 'y) creation" where
  "create_missing_properties 0 E L create n ty sp = None"
| "create_missing_properties (Suc k) E L create n ty sp = do {
     ps \<leftarrow> get_properties (ae_ua E) (as_nodes sp) ty;
     (sp1, e, outs) \<leftarrow> create_properties_of E L create n ps sp;
     if e \<noteq> Good then Some (sp1, e, outs)
     else do {
       tn \<leftarrow> as_nodes sp1 ty;
       (case an_supertype tn of
          None \<Rightarrow> Some (sp1, Good, outs)
        | Some s \<Rightarrow> map_option (\<lambda>(sp2, e2, outs2). (sp2, e2, outs @ outs2))
                     (create_missing_properties k E L create n s sp1))
     }
   }"

fun components_of :: "'n ua \<Rightarrow> ('n, 'v, 'q, 't, 'y) heap \<Rightarrow> 'n ref list \<Rightarrow> 'n list option" where
  "components_of U h [] = Some []"
| "components_of U h (ref # refs) = do {
     b \<leftarrow> is_subtype_of h (fst ref) (has_component U);
     rest \<leftarrow> components_of U h refs;
     Some (if b then snd ref # rest else rest)
   }"

fun create_variables_of ::
    "('n, 'v, 'q, 't, 'y) as_env \<Rightarrow> 'n nid_lib \<Rightarrow>
     (('n, 'v) state_tree \<Rightarrow> ('n, 'v, 'q, 't, 'y) aspace \<Rightarrow> ('n, 'v, 'q, 't, 'y) creation) \<Rightarrow>
     'n \<Rightarrow> 'n list \<Rightarrow> ('n, 'v, 'q, 't, 'y) aspace \<Rightarrow> ('n, 'v, 'q, 't, 'y) creation" where
  "create_variables_of E L create n [] sp = Some (sp, Good, [])"
| "create_variables_of E L create n (p # ps) sp = do {
     skip \<leftarrow> is_placeholder (ae_ua E) (as_nodes sp) p;
     if skip then create_variables_of E L create n ps sp
     else do {
       dn \<leftarrow> as_nodes sp p;
       check (an_class dn = VariableClass);
       ty \<leftarrow> an_type_definition dn;
       s \<leftarrow> variable_state E L (as_nodes sp) n ty (has_component (ae_ua E)) p;
       (sp1, e, outs) \<leftarrow> create s sp;
       if e \<noteq> Good then Some (sp1, e, outs)
       else map_option (\<lambda>(sp2, e2, outs2). (sp2, e2, outs @ outs2)) (create_variables_of E L create n ps sp1)
     }
   }"

fun create_data_variables ::
    "nat \<Rightarrow> ('n, 'v, 'q, 't, 'y) as_env \<Rightarrow> 'n nid_lib \<Rightarrow>
     (('n, 'v) state_tree \<Rightarrow> ('n, 'v, 'q, 't, 'y) aspace \<Rightarrow> ('n, 'v, 'q, 't, 'y) creation) \<Rightarrow>
     'n \<Rightarrow> 'n \<Rightarrow> ('n, 'v, 'q, 't, 'y) aspace \<Rightarrow> ('n, 'v, 'q, 't, 'y) creation" where
  "create_data_variables 0 E L create n ty sp = None"
| "create_data_variables (Suc k) E L create n ty sp = do {
     tn \<leftarrow> as_nodes sp ty;
     ps \<leftarrow> components_of (ae_ua E) (as_nodes sp) (an_forward tn);
     (sp1, e, outs) \<leftarrow> create_variables_of E L create n ps sp;
     if e \<noteq> Good then Some (sp1, e, outs)
     else do {
       tn1 \<leftarrow> as_nodes sp1 ty;
       (case an_supertype tn1 of
          None \<Rightarrow> Some (sp1, Good, outs)
        | Some s \<Rightarrow> map_option (\<lambda>(sp2, e2, outs2). (sp2, e2, outs @ outs2))
                     (create_data_variables k E L create n s sp1))
     }
   }"

section \<open>Creating a node\<close>

text \<open>The last part: the values of the properties.\<close>

fun set_new_properties ::
    "('n, 'v, 'q, 't::order_bot, 'y) as_env \<Rightarrow> 'n \<Rightarrow> ('n \<times> 'v) list \<Rightarrow> ('n, 'v, 'q, 't, 'y) aspace \<Rightarrow>
     ('n, 'v, 'q, 't, 'y) creation" where
  "set_new_properties E n [] sp = Some (sp, Good, [])"
| "set_new_properties E n ((decl, v) # props) sp = do {
     (h, good, outs) \<leftarrow> set_property_value E (as_nodes sp) n decl v;
     if \<not> good then Some (sp\<lparr>as_nodes := h\<rparr>, Bad, outs)
     else map_option (\<lambda>(sp2, e2, outs2). (sp2, e2, outs @ outs2)) (set_new_properties E n props (sp\<lparr>as_nodes := h\<rparr>))
   }"

text \<open>The children, whose statuses are ignored.\<close>

fun create_children ::
    "(('n, 'v) state_tree \<Rightarrow> ('n, 'v, 'q, 't, 'y) aspace \<Rightarrow> ('n, 'v, 'q, 't, 'y) creation) \<Rightarrow>
     ('n, 'v) state_tree list \<Rightarrow> ('n, 'v, 'q, 't, 'y) aspace \<Rightarrow>
     (('n, 'v, 'q, 't, 'y) aspace \<times> ('n, 'v, 'q, 't) as_out list) option" where
  "create_children create [] sp = Some (sp, [])"
| "create_children create (c # cs) sp = do {
     (sp1, _, outs) \<leftarrow> create c sp;
     map_option (apsnd (append outs)) (create_children create cs sp1)
   }"

text \<open>The type definition and the missing properties.\<close>

definition attach_type ::
    "nat \<Rightarrow> ('n, 'v, 'q, 't, 'y) as_env \<Rightarrow> 'n nid_lib \<Rightarrow> bool \<Rightarrow>
     (('n, 'v) state_tree \<Rightarrow> ('n, 'v, 'q, 't, 'y) aspace \<Rightarrow> ('n, 'v, 'q, 't, 'y) creation) \<Rightarrow>
     'n \<Rightarrow> 'n option \<Rightarrow> ('n, 'v, 'q, 't, 'y) aspace \<Rightarrow> ('n, 'v, 'q, 't, 'y) creation" where
  "attach_type k E L create_properties create n ty sp =
     (case ty of
        None \<Rightarrow> Some (sp, Good, [])
      | Some t \<Rightarrow> do {
          (sp1, outs) \<leftarrow> add_reference_by_id (ae_ua E) (has_type_definition (ae_ua E)) n t sp;
          if \<not> create_properties then Some (sp1, Good, outs)
          else map_option (\<lambda>(sp2, e, outs2). (sp2, e, outs @ outs2)) (create_missing_properties k E L create n t sp1)
        })"

definition attach_parent ::
    "('n, 'v, 'q, 't, 'y) as_env \<Rightarrow> 'n \<Rightarrow> 'n \<Rightarrow> 'n \<Rightarrow> ('n, 'v, 'q, 't, 'y) aspace \<Rightarrow> ('n, 'v, 'q, 't, 'y) creation" where
  "attach_parent E n parent ref_type sp =
     (if parent = ua_null (ae_ua E) then Some (sp, Good, [])
      else if as_nodes sp parent = None then Some (sp, BadWrongParentId, [])
      else if class_at (as_nodes sp) ref_type \<noteq> Some ReferenceTypeClass then Some (sp, BadWrongReferenceId, [])
      else map_option (\<lambda>(sp1, outs). (sp1, Good, outs)) (add_reference (ae_ua E) ref_type parent n sp))"

text \<open>\<open>CreateNodeHelper\<close>.\<close>

fun create_node_helper ::
    "nat \<Rightarrow> ('n, 'v, 'q, 't::order_bot, 'y) as_env \<Rightarrow> 'n nid_lib \<Rightarrow> bool \<Rightarrow> ('n, 'v) state_tree \<Rightarrow> 'n \<Rightarrow>
     ('n, 'v, 'q, 't, 'y) aspace \<Rightarrow> ('n, 'v, 'q, 't, 'y) creation" where
  "create_node_helper 0 E L cp tree parent sp = None"
| "create_node_helper (Suc k) E L cp tree parent sp = (let s = tree_state tree; n = cs_node_id s in
     case new_node E (as_nodes sp) s parent of
       Inl e \<Rightarrow> Some (sp, e, [])
     | Inr nd \<Rightarrow> do {
         sp0 \<leftarrow> as_add_node (ae_ua E) n nd sp;
         (sp1, e1, outs1) \<leftarrow> attach_type k E L cp (\<lambda>t. create_node_helper k E L cp t (cs_parent_id (tree_state t))) n
           (type_at (as_nodes sp) (cs_type_definition_id s)) sp0;
         if e1 \<noteq> Good then Some (sp1, e1, outs1)
         else do {
           (sp2, e2, outs2) \<leftarrow> attach_parent E n parent (cs_reference_type_id s) sp1;
           if e2 \<noteq> Good then Some (sp2, e2, outs1 @ outs2)
           else do {
             (sp3, outs3) \<leftarrow> create_children (\<lambda>t. create_node_helper k E L cp t n) (tree_children tree) sp2;
             (sp4, e4, outs4) \<leftarrow> set_new_properties E n (cs_properties s) sp3;
             Some (sp4, e4, outs1 @ outs2 @ outs3 @ outs4)
           }
         }
       })"

definition create_node ::
    "nat \<Rightarrow> ('n, 'v, 'q, 't::order_bot, 'y) as_env \<Rightarrow> 'n nid_lib \<Rightarrow> bool \<Rightarrow> ('n, 'v) state_tree \<Rightarrow>
     ('n, 'v, 'q, 't, 'y) aspace \<Rightarrow> ('n, 'v, 'q, 't, 'y) creation" where
  "create_node k E L cp tree sp = create_node_helper k E L cp tree (cs_parent_id (tree_state tree)) sp"

text \<open>\<open>FallbackNodeFactory\<close>: the first factory that succeeds.\<close>

fun fallback_create ::
    "(('n, 'v) state_tree \<Rightarrow> ('n, 'v, 'q, 't, 'y) aspace \<Rightarrow> ('n, 'v, 'q, 't, 'y) creation) list \<Rightarrow>
     ('n, 'v) state_tree \<Rightarrow> ('n, 'v, 'q, 't, 'y) aspace \<Rightarrow> ('n, 'v, 'q, 't, 'y) creation" where
  "fallback_create [] tree sp = Some (sp, Bad, [])"
| "fallback_create (f # fs) tree sp = do {
     (sp1, e, outs) \<leftarrow> f tree sp;
     if e = Good then Some (sp1, e, outs)
     else map_option (\<lambda>(sp2, e2, outs2). (sp2, e2, outs @ outs2)) (fallback_create fs tree sp1)
   }"

end
