(* ===== verification/Node_Factory_Claims.thy ===== *)
theory Node_Factory_Claims
  imports Address_Space_Claims Node_Factory
begin

text \<open>
  What changes of names and values leave alone, what a creation does to the nodes that were there, and what a
  creation that succeeds or fails leaves in the address space.
\<close>

section \<open>Changes that keep the graph\<close>

text \<open>The nodes, their classes, references and pointers are the same; names and values may differ.\<close>

definition same_graph :: "('n, 'v, 'q, 't, 'y) heap \<Rightarrow> ('n, 'v, 'q, 't, 'y) heap \<Rightarrow> bool" where
  "same_graph h h' \<longleftrightarrow> fw h' = fw h \<and> iv h' = iv h \<and> td h' = td h \<and> st h' = st h \<and> cls h' = cls h"

lemma cls_dom: "cls h n = None \<longleftrightarrow> h n = None"
  by (simp add: cls_def)

lemma same_graph_refl [simp]: "same_graph h h"
  by (simp add: same_graph_def)

lemma same_graph_trans: "same_graph a b \<Longrightarrow> same_graph b c \<Longrightarrow> same_graph a c"
  by (simp add: same_graph_def)

lemma same_graph_update:
  assumes "h n = Some nd" "an_forward nd' = an_forward nd" "an_inverse nd' = an_inverse nd"
    "an_type_definition nd' = an_type_definition nd" "an_supertype nd' = an_supertype nd" "an_class nd' = an_class nd"
  shows "same_graph h (h(n \<mapsto> nd'))"
  using assms view_Some [of h n, OF assms(1)] by (auto simp: same_graph_def fun_eq_iff)

lemma set_value_refs:
  assumes "set_value E n v nd = (nd', good, outs)"
  shows "an_forward nd' = an_forward nd" "an_inverse nd' = an_inverse nd" "an_type_definition nd' = an_type_definition nd"
    "an_supertype nd' = an_supertype nd" "an_class nd' = an_class nd"
  using assms by (auto simp: set_value_def split: variable_kind.splits if_splits option.splits)

lemma set_property_value_same:
  assumes "set_property_value E h n decl v = Some (h', good, outs)"
  shows "same_graph h h'"
proof -
  obtain d dn name c cn where "find_declaration (ae_ua E) h n decl = Some (Some d)" "h d = Some dn"
    "node_browse_name E d dn = Some name" "find_child E h n name = Some (Some c)" and c: "h c = Some cn" "an_class cn = VariableClass"
    using assms by (fastforce simp: set_property_value_def bind_eq_Some_conv)
  moreover obtain cn' g o1 where cn': "set_value E c (plain_value E v) cn = (cn', g, o1)" by (metis prod_cases3)
  ultimately have h': "h' = h(c \<mapsto> cn')" using assms by (simp add: set_property_value_def)
  show ?thesis unfolding h' by (rule same_graph_update [where h = h, OF c(1) set_value_refs [OF cn']])
qed

lemma modify_properties_same:
  "modify_properties E n props pids h = Some (h', pids', outs) \<Longrightarrow> same_graph h h'"
proof (induction props arbitrary: pids h outs)
  case (Cons p props)
  obtain decl v where p: "p = (decl, v)" by force
  from Cons.prems obtain old where old: "get_property_value E h n decl = Some old"
    by (auto simp: p bind_eq_Some_conv)
  show ?case
  proof (cases "v = old")
    case True
    with Cons old show ?thesis by (auto simp: p)
  next
    case False
    with Cons.prems old obtain h1 g o1 o2 where 1: "set_property_value E h n decl v = Some (h1, g, o1)"
      and 2: "modify_properties E n props (pids @ [decl]) h1 = Some (h', pids', o2)"
      by (auto simp: p bind_eq_Some_conv)
    from set_property_value_same [OF 1] Cons.IH [OF 2] show ?thesis by (rule same_graph_trans)
  qed
qed simp

text \<open>What a change of names and values leaves alone.\<close>

definition refs_of where
  "refs_of nd = (an_forward nd, an_inverse nd, an_type_definition nd, an_supertype nd, an_class nd)"

lemma refs_of_simps [simp]:
  "refs_of (nd\<lparr>an_browse_name := s\<rparr>) = refs_of nd" "refs_of (nd\<lparr>an_display_name := s\<rparr>) = refs_of nd"
  "refs_of (nd\<lparr>an_value := x\<rparr>) = refs_of nd"
  by (simp_all add: refs_of_def)

lemma set_value_refs_of: "set_value E n v nd = (nd', good, outs) \<Longrightarrow> refs_of nd' = refs_of nd"
  by (simp add: refs_of_def set_value_refs [of E n v nd nd' good outs])

lemma set_value_refs_of' [simp]: "refs_of (fst (set_value E n v nd)) = refs_of nd"
  by (cases "set_value E n v nd") (simp add: set_value_refs_of)

lemma modify_value_refs: "modify_value E n v nd = (nd', a, outs) \<Longrightarrow> refs_of nd' = refs_of nd"
  by (auto simp: modify_value_def split: option.splits if_splits prod.splits dest: set_value_refs_of)

lemma modify_attributes_refs:
  assumes "modify_attributes E n attrs nd = Some (nd', attrs', outs)"
  shows "refs_of nd' = refs_of nd"
proof -
  obtain nd1 a1 where 1: "modify_browse_name E n (na_browse_name attrs) nd = Some (nd1, a1)"
    using assms by (auto simp: modify_attributes_def bind_eq_Some_conv)
  obtain nd2 a2 where 2: "modify_display_name E n (na_display_name attrs) nd1 = Some (nd2, a2)"
    using assms 1 by (auto simp: modify_attributes_def bind_eq_Some_conv)
  obtain nd3 a3 o3 where 3: "modify_value E n (na_value attrs) nd2 = (nd3, a3, o3)" by (metis prod_cases3)
  have "nd' = nd3" using assms 1 2 3 by (simp add: modify_attributes_def)
  moreover have "refs_of nd1 = refs_of nd" using 1 by (auto simp: modify_browse_name_def bind_eq_Some_conv split: if_splits)
  moreover have "refs_of nd2 = refs_of nd1" using 2 by (auto simp: modify_display_name_def bind_eq_Some_conv split: if_splits)
  ultimately show ?thesis using modify_value_refs [OF 3] by simp
qed

lemma modify_node_same:
  assumes "modify_node E n attrs props sp = Some (sp', b, outs)"
  shows "same_graph (as_nodes sp) (as_nodes sp')" "as_own sp' = as_own sp"
proof -
  obtain nd nd' attrs' o1 h pids o2 where "as_nodes sp n = Some nd" "modify_attributes E n attrs nd = Some (nd', attrs', o1)"
    and m: "modify_properties E n props [] ((as_nodes sp)(n \<mapsto> nd')) = Some (h, pids, o2)" and sp': "sp' = sp\<lparr>as_nodes := h\<rparr>"
    using assms by (auto simp: modify_node_def bind_eq_Some_conv Let_def split: if_splits)
  then have "same_graph (as_nodes sp) ((as_nodes sp)(n \<mapsto> nd'))"
    using same_graph_update [of "as_nodes sp" n nd nd'] modify_attributes_refs [of E n attrs nd nd'] by (simp add: refs_of_def)
  with modify_properties_same [OF m] sp' show "same_graph (as_nodes sp) (as_nodes sp')" "as_own sp' = as_own sp"
    by (auto intro: same_graph_trans)
qed

lemma same_graph_ok:
  assumes "same_graph h h'"
  shows "graph_ok U h' \<longleftrightarrow> graph_ok U h" "h' n = None \<longleftrightarrow> h n = None"
proof -
  show "graph_ok U h' \<longleftrightarrow> graph_ok U h"
    using assms by (simp add: graph_ok_def same_graph_def type_node_def)
  show "h' n = None \<longleftrightarrow> h n = None" using assms cls_dom by (metis same_graph_def)
qed

section \<open>Changes that only add\<close>

text \<open>Every node stays, with its class, its references and its type definition, and only new nodes become own ones.\<close>

definition as_grows :: "('n, 'v, 'q, 't, 'y) aspace \<Rightarrow> ('n, 'v, 'q, 't, 'y) aspace \<Rightarrow> bool" where
  "as_grows sp sp' \<longleftrightarrow> set (as_own sp) \<subseteq> set (as_own sp')
     \<and> (\<forall>n \<in> set (as_own sp'). n \<in> set (as_own sp) \<or> as_nodes sp n = None)
     \<and> (\<forall>n. as_nodes sp n \<noteq> None \<longrightarrow>
          cls (as_nodes sp') n = cls (as_nodes sp) n
          \<and> set (fw (as_nodes sp) n) \<subseteq> set (fw (as_nodes sp') n) \<and> set (iv (as_nodes sp) n) \<subseteq> set (iv (as_nodes sp') n)
          \<and> (\<forall>t. td (as_nodes sp) n = Some t \<longrightarrow> td (as_nodes sp') n = Some t))"

lemma as_grows_refl [simp]: "as_grows sp sp"
  by (simp add: as_grows_def)

lemma as_grows_trans:
  assumes "as_grows a b" "as_grows b c"
  shows "as_grows a c"
  unfolding as_grows_def
proof (intro conjI allI impI ballI)
  show "set (as_own a) \<subseteq> set (as_own c)" using assms by (auto simp: as_grows_def)
  show "n \<in> set (as_own a) \<or> as_nodes a n = None" if "n \<in> set (as_own c)" for n
    using that assms cls_dom unfolding as_grows_def by metis
  fix n assume n: "as_nodes a n \<noteq> None"
  then have m: "as_nodes b n \<noteq> None" using assms(1) cls_dom unfolding as_grows_def by metis
  show "cls (as_nodes c) n = cls (as_nodes a) n" using n m assms by (simp add: as_grows_def)
  show "set (fw (as_nodes a) n) \<subseteq> set (fw (as_nodes c) n)" "set (iv (as_nodes a) n) \<subseteq> set (iv (as_nodes c) n)"
    using n m assms unfolding as_grows_def by blast+
  fix t assume "td (as_nodes a) n = Some t"
  then show "td (as_nodes c) n = Some t" using n m assms by (simp add: as_grows_def)
qed

text \<open>\<open>added\<close>: the invariant is kept and the space has only grown.\<close>

definition added :: "'n ua \<Rightarrow> ('n, 'v, 'q, 't, 'y) aspace \<Rightarrow> ('n, 'v, 'q, 't, 'y) aspace \<Rightarrow> bool" where
  "added U sp sp' \<longleftrightarrow> (as_ok U sp \<longrightarrow> as_ok U sp' \<and> as_grows sp sp')"

lemma added_refl [simp]: "added U sp sp"
  by (simp add: added_def)

lemma added_trans: "added U a b \<Longrightarrow> added U b c \<Longrightarrow> added U a c"
  unfolding added_def using as_grows_trans by blast

lemma added_same:
  assumes "same_graph (as_nodes sp) (as_nodes sp')" "as_own sp' = as_own sp"
  shows "added U sp sp'"
  using assms same_graph_ok [OF assms(1)]
  unfolding added_def as_ok_def as_grows_def by (simp add: same_graph_def)

lemma added_reference:
  assumes ret: "add_reference U ty s t sp = Some (sp', outs)"
  shows "added U sp sp'"
  unfolding added_def
proof
  assume ok: "as_ok U sp"
  note A = add_reference_changed [OF ret]
  note C = A(1) [unfolded changed_def]
  have dom: "as_nodes sp' n = None \<longleftrightarrow> as_nodes sp n = None" for n using C body_dom by metis
  have "as_ok U sp'" using ok add_reference_ok [OF _ ret] A(2) dom by (auto simp: as_ok_def)
  moreover have "as_grows sp sp'" using C A(2,5) body_cls [of "as_nodes sp'" "as_nodes sp"] by (auto simp: as_grows_def)
  ultimately show "as_ok U sp' \<and> as_grows sp sp'" by blast
qed

lemma added_node:
  assumes ret: "as_add_node U n nd sp = Some sp'"
    and fresh: "an_forward nd = []" "an_inverse nd = []" "an_type_definition nd = None" "an_supertype nd = None"
  shows "added U sp sp'"
  unfolding added_def
proof
  assume ok: "as_ok U sp"
  let ?h = "as_nodes sp" and ?h' = "as_nodes sp'"
  have n: "?h n = None" and sp': "sp' = sp\<lparr>as_nodes := ?h(n \<mapsto> nd), as_own := as_own sp @ [n]\<rparr>"
    using ret by (auto simp: as_add_node_def)
  have v: "fw ?h n = []" "iv ?h n = []" "td ?h n = None" "st ?h n = None" using n by (simp_all add: node_views)
  have w: "fw ?h' = fw ?h" "iv ?h' = iv ?h" "td ?h' = td ?h" "st ?h' = st ?h" "cls ?h' = (cls ?h)(n \<mapsto> an_class nd)"
    using v fresh by (auto simp: sp' fun_eq_iff)
  have tn: "type_node ?h' m = type_node ?h m" if "m \<noteq> n" for m using that w(5) by (simp add: type_node_def)
  have g: "graph_ok U ?h" using ok by (simp add: as_ok_def)
  have "st ?h' m = Some t \<longleftrightarrow> type_node ?h' m \<and> (has_subtype U, t) \<in> set (iv ?h' m)" for m t
    using graph_okD(5) [OF g, of m t] tn [of m] v w by (cases "m = n") auto
  then have "graph_ok U ?h'" using g w(1-4) unfolding graph_ok_def by simp
  moreover have "n \<notin> set (as_own sp)" using ok n by (auto simp: as_ok_def)
  ultimately have "as_ok U sp'" using ok sp' by (auto simp: as_ok_def)
  moreover have "as_grows sp sp'" using n w by (auto simp: as_grows_def sp')
  ultimately show "as_ok U sp' \<and> as_grows sp sp'" by blast
qed

section \<open>Creations only add\<close>

text \<open>A factory that only adds.\<close>

definition adds where
  "adds U create \<longleftrightarrow> (\<forall>t sp sp' e outs. create t sp = Some (sp', e, outs) \<longrightarrow> added U sp sp')"

lemma addsD: "adds U create \<Longrightarrow> create t sp = Some (sp', e, outs) \<Longrightarrow> added U sp sp'"
  unfolding adds_def by blast

lemma create_properties_of_added:
  assumes "adds U create"
  shows "create_properties_of E L create n ps sp = Some (sp', e, outs) \<Longrightarrow> added U sp sp'"
proof (induction ps arbitrary: sp outs)
  case (Cons p ps)
  from Cons.prems obtain skip where skip: "is_placeholder (ae_ua E) (as_nodes sp) p = Some skip"
    by (auto simp: bind_eq_Some_conv)
  show ?case
  proof (cases "skip")
    case True
    with Cons skip show ?thesis by auto
  next
    case False
    with Cons.prems skip obtain dn name found where dn: "as_nodes sp p = Some dn" "node_browse_name E p dn = Some name"
      "find_child E (as_nodes sp) p name = Some found"
      by (auto simp: bind_eq_Some_conv)
    show ?thesis
    proof (cases found)
      case Some
      with Cons skip False dn show ?thesis by auto
    next
      case None
      with Cons.prems skip False dn obtain s sp1 e1 o1 where 1: "create s sp = Some (sp1, e1, o1)"
        and rest: "(if e1 \<noteq> Good then Some (sp1, e1, o1)
           else map_option (\<lambda>(sp2, e2, outs2). (sp2, e2, o1 @ outs2)) (create_properties_of E L create n ps sp1)) = Some (sp', e, outs)"
        by (auto simp: bind_eq_Some_conv)
      have "added U sp1 sp'" using rest Cons.IH [of sp1] by (auto split: if_splits)
      with addsD [OF assms 1] show ?thesis by (rule added_trans)
    qed
  qed
qed simp

lemma create_missing_properties_added:
  assumes "adds U create"
  shows "create_missing_properties k E L create n ty sp = Some (sp', e, outs) \<Longrightarrow> added U sp sp'"
proof (induction k arbitrary: ty sp outs)
  case (Suc k)
  then obtain ps sp1 e1 o1 where 1: "create_properties_of E L create n ps sp = Some (sp1, e1, o1)"
    and rest: "(if e1 \<noteq> Good then Some (sp1, e1, o1) else as_nodes sp1 ty \<bind> (\<lambda>tn. case an_supertype tn of
          None \<Rightarrow> Some (sp1, Good, o1)
        | Some s \<Rightarrow> map_option (\<lambda>(sp2, e2, outs2). (sp2, e2, o1 @ outs2))
                     (create_missing_properties k E L create n s sp1))) = Some (sp', e, outs)"
    by (auto simp: bind_eq_Some_conv)
  have "added U sp1 sp'" using rest Suc.IH by (auto simp: bind_eq_Some_conv split: if_splits option.splits)
  with create_properties_of_added [OF assms 1] show ?case by (rule added_trans)
qed simp

lemma add_reference_by_id_added:
  "add_reference_by_id U ty s t sp = Some (sp', outs) \<Longrightarrow> added U sp sp'"
  by (auto simp: add_reference_by_id_def bind_eq_Some_conv dest: added_reference)

lemma attach_type_added:
  assumes "adds (ae_ua E) create" "attach_type k E L cp create n ty sp = Some (sp', e, outs)"
  shows "added (ae_ua E) sp sp'"
proof (cases ty)
  case (Some t)
  with assms(2) obtain sp1 o1 where 1: "add_reference_by_id (ae_ua E) (has_type_definition (ae_ua E)) n t sp = Some (sp1, o1)"
    and rest: "(if \<not> cp then Some (sp1, Good, o1)
      else map_option (\<lambda>(sp2, e, outs2). (sp2, e, o1 @ outs2)) (create_missing_properties k E L create n t sp1)) = Some (sp', e, outs)"
    by (auto simp: attach_type_def bind_eq_Some_conv)
  have "added (ae_ua E) sp1 sp'"
    using rest create_missing_properties_added [OF assms(1)] by (auto split: if_splits)
  with add_reference_by_id_added [OF 1] show ?thesis by (rule added_trans)
qed (use assms in \<open>auto simp: attach_type_def\<close>)

lemma attach_parent_added:
  "attach_parent E n p ty sp = Some (sp', e, outs) \<Longrightarrow> added (ae_ua E) sp sp'"
  by (auto simp: attach_parent_def split: if_splits dest: added_reference)

lemma create_children_added:
  assumes "adds U create"
  shows "create_children create cs sp = Some (sp', outs) \<Longrightarrow> added U sp sp'"
proof (induction cs arbitrary: sp outs)
  case (Cons c cs)
  then obtain sp1 e1 o1 o2 where "create c sp = Some (sp1, e1, o1)" "create_children create cs sp1 = Some (sp', o2)"
    by (auto simp: bind_eq_Some_conv)
  with addsD [OF assms] Cons.IH show ?case by (blast intro: added_trans)
qed simp

lemma set_new_properties_added:
  "set_new_properties E n props sp = Some (sp', e, outs) \<Longrightarrow> added U sp sp'"
proof (induction props arbitrary: sp outs)
  case (Cons p props)
  obtain decl v where p: "p = (decl, v)" by force
  from Cons.prems obtain h good o1 where 1: "set_property_value E (as_nodes sp) n decl v = Some (h, good, o1)"
    and rest: "(if \<not> good then Some (sp\<lparr>as_nodes := h\<rparr>, Bad, o1)
      else map_option (\<lambda>(sp2, e2, outs2). (sp2, e2, o1 @ outs2)) (set_new_properties E n props (sp\<lparr>as_nodes := h\<rparr>))) = Some (sp', e, outs)"
    by (auto simp: p bind_eq_Some_conv)
  have "added U sp (sp\<lparr>as_nodes := h\<rparr>)" by (rule added_same) (simp_all add: set_property_value_same [OF 1])
  moreover have "added U (sp\<lparr>as_nodes := h\<rparr>) sp'" using rest Cons.IH by (auto split: if_splits)
  ultimately show ?case by (rule added_trans)
qed simp

lemma new_node_fresh:
  assumes "new_node E h s parent = Inr nd"
  shows "an_forward nd = [] \<and> an_inverse nd = [] \<and> an_type_definition nd = None \<and> an_supertype nd = None
    \<and> an_class nd = cs_node_class s \<and> cs_node_id s \<noteq> ua_null (ae_ua E) \<and> h (cs_node_id s) = None"
proof -
  obtain nd0 where ok: "check_state (ae_ua E) h s parent = Good" and 1: "make_node E h s = Inr nd0"
    and 2: "value_node E s (name_node s nd0) = Inr nd"
    using assms by (auto simp: new_node_def split: if_splits sum.splits)
  obtain dt where "nd0 = empty_node E (cs_node_class s) dt"
    using 1 by (auto simp: make_node_def Let_def split: node_class.splits if_splits option.splits)
  then have "refs_of (name_node s nd0) = ([], [], None, None, cs_node_class s)"
    by (simp add: refs_of_def name_node_def empty_node_def)
  moreover have "refs_of nd = refs_of (name_node s nd0)"
    using 2 by (auto simp: value_node_def split: option.splits if_splits)
  ultimately show ?thesis using ok by (auto simp: refs_of_def check_state_def split: if_splits)
qed

text \<open>The steps of a creation whose state passed the checks.\<close>

lemma create_node_cases:
  assumes "create_node_helper k E L cp tree parent sp = Some (sp', e, outs)"
    "new_node E (as_nodes sp) (tree_state tree) parent = Inr nd"
  obtains k' sp0 sp1 e1 o1 where "k = Suc k'"
    "as_add_node (ae_ua E) (cs_node_id (tree_state tree)) nd sp = Some sp0"
    "attach_type k' E L cp (\<lambda>t. create_node_helper k' E L cp t (cs_parent_id (tree_state t))) (cs_node_id (tree_state tree))
       (type_at (as_nodes sp) (cs_type_definition_id (tree_state tree))) sp0 = Some (sp1, e1, o1)"
    "e1 \<noteq> Good \<Longrightarrow> sp' = sp1 \<and> e = e1"
    "e1 = Good \<Longrightarrow> \<exists>sp2 e2 o2. attach_parent E (cs_node_id (tree_state tree)) parent (cs_reference_type_id (tree_state tree)) sp1
         = Some (sp2, e2, o2)
       \<and> (if e2 \<noteq> Good then sp' = sp2 \<and> e = e2
          else \<exists>sp3 o3 o4. create_children (\<lambda>t. create_node_helper k' E L cp t (cs_node_id (tree_state tree))) (tree_children tree) sp2
                 = Some (sp3, o3)
               \<and> set_new_properties E (cs_node_id (tree_state tree)) (cs_properties (tree_state tree)) sp3 = Some (sp', e, o4))"
proof -
  obtain k' where k: "k = Suc k'" using assms(1) by (cases k) auto
  let ?s = "tree_state tree" and ?c = "\<lambda>t. create_node_helper k' E L cp t (cs_parent_id (tree_state t))"
  have eq: "as_add_node (ae_ua E) (cs_node_id ?s) nd sp \<bind> (\<lambda>sp0.
      attach_type k' E L cp ?c (cs_node_id ?s) (type_at (as_nodes sp) (cs_type_definition_id ?s)) sp0 \<bind> (\<lambda>(sp1, e1, outs1).
        if e1 \<noteq> Good then Some (sp1, e1, outs1)
        else attach_parent E (cs_node_id ?s) parent (cs_reference_type_id ?s) sp1 \<bind> (\<lambda>(sp2, e2, outs2).
          if e2 \<noteq> Good then Some (sp2, e2, outs1 @ outs2)
          else create_children (\<lambda>t. create_node_helper k' E L cp t (cs_node_id ?s)) (tree_children tree) sp2 \<bind> (\<lambda>(sp3, outs3).
            set_new_properties E (cs_node_id ?s) (cs_properties ?s) sp3 \<bind> (\<lambda>(sp4, e4, outs4).
              Some (sp4, e4, outs1 @ outs2 @ outs3 @ outs4)))))) = Some (sp', e, outs)"
    using assms by (simp add: k Let_def)
  then obtain sp0 where 0: "as_add_node (ae_ua E) (cs_node_id ?s) nd sp = Some sp0" by (auto simp: bind_eq_Some_conv)
  with eq obtain sp1 e1 o1 where 1: "attach_type k' E L cp ?c (cs_node_id ?s) (type_at (as_nodes sp) (cs_type_definition_id ?s)) sp0
      = Some (sp1, e1, o1)"
    by (auto simp: bind_eq_Some_conv)
  have rest: "(if e1 \<noteq> Good then Some (sp1, e1, o1)
        else attach_parent E (cs_node_id ?s) parent (cs_reference_type_id ?s) sp1 \<bind> (\<lambda>(sp2, e2, outs2).
          if e2 \<noteq> Good then Some (sp2, e2, o1 @ outs2)
          else create_children (\<lambda>t. create_node_helper k' E L cp t (cs_node_id ?s)) (tree_children tree) sp2 \<bind> (\<lambda>(sp3, outs3).
            set_new_properties E (cs_node_id ?s) (cs_properties ?s) sp3 \<bind> (\<lambda>(sp4, e4, outs4).
              Some (sp4, e4, o1 @ outs2 @ outs3 @ outs4))))) = Some (sp', e, outs)"
    using eq 0 1 by simp
  show thesis
  proof (rule that [OF k 0 1])
    show "e1 \<noteq> Good \<Longrightarrow> sp' = sp1 \<and> e = e1" using rest by simp
    assume "e1 = Good"
    with rest obtain sp2 e2 o2 where 2: "attach_parent E (cs_node_id ?s) parent (cs_reference_type_id ?s) sp1 = Some (sp2, e2, o2)"
      by (auto simp: bind_eq_Some_conv)
    with rest \<open>e1 = Good\<close> show "\<exists>sp2 e2 o2. attach_parent E (cs_node_id ?s) parent (cs_reference_type_id ?s) sp1 = Some (sp2, e2, o2)
       \<and> (if e2 \<noteq> Good then sp' = sp2 \<and> e = e2
          else \<exists>sp3 o3 o4. create_children (\<lambda>t. create_node_helper k' E L cp t (cs_node_id ?s)) (tree_children tree) sp2 = Some (sp3, o3)
               \<and> set_new_properties E (cs_node_id ?s) (cs_properties ?s) sp3 = Some (sp', e, o4))"
      by (auto simp: bind_eq_Some_conv)
  qed
qed

lemma create_node_helper_added:
  "create_node_helper k E L cp tree parent sp = Some (sp', e, outs) \<Longrightarrow> added (ae_ua E) sp sp'"
proof (induction k arbitrary: tree parent sp sp' e outs)
  case (Suc k)
  have IH: "adds (ae_ua E) (\<lambda>t. create_node_helper k E L cp t (f t))" for f
    using Suc.IH unfolding adds_def by blast
  show ?case
  proof (cases "new_node E (as_nodes sp) (tree_state tree) parent")
    case (Inl x)
    with Suc.prems show ?thesis by (simp add: Let_def)
  next
    case (Inr nd)
    show ?thesis
    proof (rule create_node_cases [OF Suc.prems Inr], goal_cases)
      case (1 k' sp0 sp1 e1 o1)
      have k: "k' = k" using 1(1) by simp
      have 0: "added (ae_ua E) sp sp1"
        using added_trans [OF added_node [OF 1(2)] attach_type_added [OF IH 1(3) [unfolded k]]] new_node_fresh [OF Inr] by simp
      show ?case
      proof (cases "e1 = Good")
        case False
        with 0 1(4) show ?thesis by simp
      next
        case True
        from 1(5) [OF True] obtain sp2 e2 o2 where 2: "attach_parent E (cs_node_id (tree_state tree)) parent
            (cs_reference_type_id (tree_state tree)) sp1 = Some (sp2, e2, o2)"
          and r: "if e2 \<noteq> Good then sp' = sp2 \<and> e = e2
          else \<exists>sp3 o3 o4. create_children (\<lambda>t. create_node_helper k' E L cp t (cs_node_id (tree_state tree))) (tree_children tree) sp2
                 = Some (sp3, o3)
               \<and> set_new_properties E (cs_node_id (tree_state tree)) (cs_properties (tree_state tree)) sp3 = Some (sp', e, o4)"
          by blast
        have "added (ae_ua E) sp2 sp'"
        proof (cases "e2 = Good")
          case True
          with r k obtain sp3 o3 o4 where 3: "create_children (\<lambda>t. create_node_helper k E L cp t (cs_node_id (tree_state tree)))
              (tree_children tree) sp2 = Some (sp3, o3)"
            and 4: "set_new_properties E (cs_node_id (tree_state tree)) (cs_properties (tree_state tree)) sp3 = Some (sp', e, o4)"
            by auto
          show ?thesis by (rule added_trans [OF create_children_added [OF IH 3] set_new_properties_added [OF 4]])
        qed (use r in simp)
        with 0 attach_parent_added [OF 2] show ?thesis by (blast intro: added_trans)
      qed
    qed
  qed
qed simp

lemma in_iv: "r \<in> set (iv h n) \<Longrightarrow> h n \<noteq> None"
  by (cases "h n") (simp_all add: iv_def)

lemma td_Some: "td h n = Some t \<Longrightarrow> h n \<noteq> None"
  by (cases "h n") (simp_all add: td_def)

lemma create_node_helper_adds: "adds (ae_ua E) (\<lambda>t. create_node_helper k E L cp t (f t))"
  unfolding adds_def by (auto dest: create_node_helper_added)

lemma create_node_added:
  "create_node k E L cp tree sp = Some (sp', e, outs) \<Longrightarrow> added (ae_ua E) sp sp'"
  unfolding create_node_def by (rule create_node_helper_added)

lemma attach_type_sets:
  assumes "adds (ae_ua E) create" "attach_type k E L cp create n (Some t) sp = Some (sp', e, outs)" "as_ok (ae_ua E) sp"
  shows "td (as_nodes sp') n = Some t"
proof -
  obtain sp1 o1 where 1: "add_reference_by_id (ae_ua E) (has_type_definition (ae_ua E)) n t sp = Some (sp1, o1)"
    and rest: "(if \<not> cp then Some (sp1, Good, o1)
      else map_option (\<lambda>(sp2, e, outs2). (sp2, e, o1 @ outs2)) (create_missing_properties k E L create n t sp1)) = Some (sp', e, outs)"
    using assms(2) by (auto simp: attach_type_def bind_eq_Some_conv)
  have 2: "added (ae_ua E) sp1 sp'" using rest create_missing_properties_added [OF assms(1)] by (auto split: if_splits)
  obtain o2 where "add_reference (ae_ua E) (has_type_definition (ae_ua E)) n t sp = Some (sp1, o2)"
    using 1 by (auto simp: add_reference_by_id_def bind_eq_Some_conv)
  note A = add_reference_changed [OF this]
  have "td (as_nodes sp1) n = Some t" using A(1) by (simp add: changed_def)
  moreover from this have "as_nodes sp1 n \<noteq> None" by (rule td_Some)
  moreover have "as_ok (ae_ua E) sp1" using add_reference_by_id_added [OF 1] assms(3) by (simp add: added_def)
  ultimately show ?thesis using 2 by (simp add: added_def as_grows_def)
qed

lemma create_node_effect:
  assumes ret: "create_node k E L cp tree sp = Some (sp', e, outs)" and ok: "as_ok (ae_ua E) sp"
  shows "as_ok (ae_ua E) sp' \<and> as_grows sp sp'
    \<and> (e = Good \<longrightarrow> (let s = tree_state tree; n = cs_node_id s; h' = as_nodes sp' in
         n \<in> set (as_own sp') \<and> cls h' n = Some (cs_node_class s)
         \<and> (\<forall>t. type_at (as_nodes sp) (cs_type_definition_id s) = Some t \<longrightarrow> td h' n = Some t)
         \<and> (cs_parent_id s \<noteq> ua_null (ae_ua E) \<longrightarrow> (cs_reference_type_id s, cs_parent_id s) \<in> set (iv h' n))))"
proof -
  let ?s = "tree_state tree" and ?n = "cs_node_id (tree_state tree)"
  have keeps: "as_ok (ae_ua E) sp' \<and> as_grows sp sp'" using create_node_added [OF ret] ok by (simp add: added_def)
  note adds = create_node_helper_adds [of E _ L cp]
  have "?n \<in> set (as_own sp') \<and> cls (as_nodes sp') ?n = Some (cs_node_class ?s)
     \<and> (\<forall>t. type_at (as_nodes sp) (cs_type_definition_id ?s) = Some t \<longrightarrow> td (as_nodes sp') ?n = Some t)
     \<and> (cs_parent_id ?s \<noteq> ua_null (ae_ua E) \<longrightarrow> (cs_reference_type_id ?s, cs_parent_id ?s) \<in> set (iv (as_nodes sp') ?n))"
    if good: "e = Good"
  proof (cases "new_node E (as_nodes sp) ?s (cs_parent_id ?s)")
    case (Inl x)
    then have "x = Good" using ret good by (cases k) (auto simp: create_node_def Let_def)
    with Inl show ?thesis
      by (auto simp: new_node_def make_node_def value_node_def Let_def
          split: if_splits sum.splits node_class.splits option.splits)
  next
    case (Inr nd)
    note F = new_node_fresh [OF Inr]
    show ?thesis
    proof (rule create_node_cases [OF ret [unfolded create_node_def] Inr], goal_cases)
      case (1 k' sp0 sp1 e1 o1)
      have e1: "e1 = Good" using 1(4) good by (cases "e1 = Good") auto
      have ok0: "as_ok (ae_ua E) sp0" using added_node [OF 1(2)] F ok by (simp add: added_def)
      have 01: "added (ae_ua E) sp0 sp1" by (rule attach_type_added [OF adds 1(3)])
      from 1(5) [OF e1] good obtain sp2 o2 sp3 o3 o4 where
        2: "attach_parent E ?n (cs_parent_id ?s) (cs_reference_type_id ?s) sp1 = Some (sp2, Good, o2)"
        and 3: "create_children (\<lambda>t. create_node_helper k' E L cp t ?n) (tree_children tree) sp2 = Some (sp3, o3)"
        and 4: "set_new_properties E ?n (cs_properties ?s) sp3 = Some (sp', e, o4)"
        by (auto split: if_splits)
      have 12: "added (ae_ua E) sp1 sp2" by (rule attach_parent_added [OF 2])
      have 24: "added (ae_ua E) sp2 sp'"
        by (rule added_trans [OF create_children_added [OF adds 3] set_new_properties_added [OF 4]])
      have in0: "?n \<in> set (as_own sp0)" "cls (as_nodes sp0) ?n = Some (cs_node_class ?s)" "as_nodes sp0 ?n \<noteq> None"
        using 1(2) F by (auto simp: as_add_node_def)
      have g: "as_grows sp0 sp1" "as_grows sp1 sp2" "as_grows sp2 sp'"
        using ok0 01 12 24 by (simp_all add: added_def)
      have g0: "as_grows sp0 sp'" using g by (blast intro: as_grows_trans)
      have g1: "as_grows sp1 sp'" using g by (blast intro: as_grows_trans)
      have own: "?n \<in> set (as_own sp')" "cls (as_nodes sp') ?n = Some (cs_node_class ?s)"
        using g0 in0 by (auto simp: as_grows_def)
      have "td (as_nodes sp') ?n = Some t" if "type_at (as_nodes sp) (cs_type_definition_id ?s) = Some t" for t
      proof -
        have "td (as_nodes sp1) ?n = Some t" by (rule attach_type_sets [OF adds 1(3) [unfolded that] ok0])
        moreover from this have "as_nodes sp1 ?n \<noteq> None" by (rule td_Some)
        ultimately show ?thesis using g1 by (simp add: as_grows_def)
      qed
      moreover have "(cs_reference_type_id ?s, cs_parent_id ?s) \<in> set (iv (as_nodes sp') ?n)"
        if p: "cs_parent_id ?s \<noteq> ua_null (ae_ua E)"
      proof -
        obtain o5 where "add_reference (ae_ua E) (cs_reference_type_id ?s) (cs_parent_id ?s) ?n sp1 = Some (sp2, o5)"
          using 2 p by (auto simp: attach_parent_def split: if_splits)
        note A = add_reference_changed [OF this]
        have "(cs_reference_type_id ?s, cs_parent_id ?s) \<in> set (iv (as_nodes sp2) ?n)" using A(1) by (simp add: changed_def)
        moreover from this have "as_nodes sp2 ?n \<noteq> None" by (rule in_iv)
        ultimately show ?thesis using g(3) unfolding as_grows_def by blast
      qed
      ultimately show ?case using own by blast
    qed
  qed
  with keeps show ?thesis by (simp add: Let_def)
qed

text \<open>C21: Creating a node, whether it succeeds or not, keeps the invariant of the graph and removes no node, class, reference or
  type definition; when it succeeds the node is in the space with its class, the type definition that its state names
  and the reference from its parent.\<close>

theorem create_node_correct:
  assumes ret: "create_node k E L cp tree sp = Some (sp', e, outs)" and ok: "as_ok (ae_ua E) sp"
  shows "as_ok (ae_ua E) sp' \<and> as_grows sp sp'
    \<and> (e = Good \<longrightarrow> (let s = tree_state tree; n = cs_node_id s; h' = as_nodes sp' in
         n \<in> set (as_own sp') \<and> cls h' n = Some (cs_node_class s)
         \<and> (\<forall>t. type_at (as_nodes sp) (cs_type_definition_id s) = Some t \<longrightarrow> td h' n = Some t)
         \<and> (cs_parent_id s \<noteq> ua_null (ae_ua E) \<longrightarrow> (cs_reference_type_id s, cs_parent_id s) \<in> set (iv h' n))))"
  by (rule create_node_effect [OF ret ok])

text \<open>C22: Once the state has passed the first checks, the node stays in the address space whatever error the rest of the creation
  returns, so that creating it again answers that it exists.\<close>

theorem failed_creation_stays:
  assumes ret: "create_node k E L cp tree sp = Some (sp', e, outs)" and ok: "as_ok (ae_ua E) sp"
    and passed: "new_node E (as_nodes sp) (tree_state tree) (cs_parent_id (tree_state tree)) = Inr nd"
  shows "cs_node_id (tree_state tree) \<in> set (as_own sp')
    \<and> create_node (Suc k') E L cp tree sp' = Some (sp', BadDuplicateNodeId, [])"
proof -
  let ?s = "tree_state tree" and ?n = "cs_node_id (tree_state tree)"
  note adds = create_node_helper_adds [of E _ L cp]
  note F = new_node_fresh [OF passed]
  have own: "?n \<in> set (as_own sp')"
  proof (rule create_node_cases [OF ret [unfolded create_node_def] passed], goal_cases)
    case (1 k' sp0 sp1 e1 o1)
    have ok0: "as_ok (ae_ua E) sp0" using added_node [OF 1(2)] F ok by (simp add: added_def)
    have in0: "?n \<in> set (as_own sp0)" using 1(2) F by (auto simp: as_add_node_def)
    have "added (ae_ua E) sp1 sp'"
    proof (cases "e1 = Good")
      case True
      from 1(5) [OF this] obtain sp2 e2 o2 where 2: "attach_parent E ?n (cs_parent_id ?s) (cs_reference_type_id ?s) sp1 = Some (sp2, e2, o2)"
        and r: "sp' = sp2 \<or> (\<exists>sp3 o3 o4. create_children (\<lambda>t. create_node_helper k' E L cp t ?n) (tree_children tree) sp2 = Some (sp3, o3)
           \<and> set_new_properties E ?n (cs_properties ?s) sp3 = Some (sp', e, o4))"
        by (auto split: if_splits)
      have "added (ae_ua E) sp2 sp'"
        using r
      proof
        assume "\<exists>sp3 o3 o4. create_children (\<lambda>t. create_node_helper k' E L cp t ?n) (tree_children tree) sp2 = Some (sp3, o3)
           \<and> set_new_properties E ?n (cs_properties ?s) sp3 = Some (sp', e, o4)"
        then obtain sp3 o3 o4 where 3: "create_children (\<lambda>t. create_node_helper k' E L cp t ?n) (tree_children tree) sp2 = Some (sp3, o3)"
          and 4: "set_new_properties E ?n (cs_properties ?s) sp3 = Some (sp', e, o4)" by blast
        show ?thesis by (rule added_trans [OF create_children_added [OF adds 3] set_new_properties_added [OF 4]])
      qed simp
      with attach_parent_added [OF 2] show ?thesis by (rule added_trans)
    qed (use 1(4) in simp)
    then have "added (ae_ua E) sp0 sp'" using attach_type_added [OF adds 1(3)] added_trans by blast
    then show ?case using ok0 in0 unfolding added_def as_grows_def by blast
  qed
  moreover have "as_ok (ae_ua E) sp'" using create_node_added [OF ret] ok by (simp add: added_def)
  ultimately have "as_nodes sp' ?n \<noteq> None" by (auto simp: as_ok_def)
  moreover have "check_state (ae_ua E) (as_nodes sp) ?s (cs_parent_id ?s) = Good"
    using passed by (auto simp: new_node_def split: if_splits)
  ultimately have "check_state (ae_ua E) (as_nodes sp') ?s (cs_parent_id ?s) = BadDuplicateNodeId"
    by (auto simp: check_state_def split: if_splits)
  then show ?thesis using own by (simp add: create_node_def new_node_def Let_def)
qed

section \<open>More fuel changes no result\<close>

text \<open>One creation returns whatever another returns.\<close>

definition extends :: "('x \<Rightarrow> 'y \<Rightarrow> 'z option) \<Rightarrow> ('x \<Rightarrow> 'y \<Rightarrow> 'z option) \<Rightarrow> bool" where
  "extends f g \<longleftrightarrow> (\<forall>x y r. f x y = Some r \<longrightarrow> g x y = Some r)"

lemma extendsD: "extends f g \<Longrightarrow> f x y = Some r \<Longrightarrow> g x y = Some r"
  by (simp add: extends_def)

lemma create_properties_of_extends:
  "extends f g \<Longrightarrow> create_properties_of E L f n ps sp = Some r \<Longrightarrow> create_properties_of E L g n ps sp = Some r"
proof (induction ps arbitrary: sp r)
  case (Cons p ps)
  from Cons.prems(2) show ?case
    by (fastforce simp: bind_eq_Some_conv dest: extendsD [OF Cons.prems(1)] Cons.IH [OF Cons.prems(1)] split: if_splits)
qed simp

lemma create_missing_properties_extends:
  assumes "extends f g"
  shows "create_missing_properties k E L f n ty sp = Some r \<Longrightarrow> create_missing_properties (Suc k) E L g n ty sp = Some r"
proof (induction k arbitrary: ty sp r)
  case (Suc k)
  note props = create_properties_of_extends [OF assms]
  from Suc.prems obtain ps sp1 e o1 where p: "get_properties (ae_ua E) (as_nodes sp) ty = Some ps"
    "create_properties_of E L f n ps sp = Some (sp1, e, o1)"
    and r: "(if e \<noteq> Good then Some (sp1, e, o1) else as_nodes sp1 ty \<bind> (\<lambda>tn. case an_supertype tn of
       None \<Rightarrow> Some (sp1, Good, o1)
     | Some s \<Rightarrow> map_option (\<lambda>(sp2, e2, outs2). (sp2, e2, o1 @ outs2)) (create_missing_properties k E L f n s sp1)))
     = Some r"
    unfolding create_missing_properties.simps(2) [of k] by (auto simp: bind_eq_Some_conv simp del: create_missing_properties.simps)
  show ?case
  proof (cases "e = Good")
    case False
    with r have "r = (sp1, e, o1)" by simp
    with False show ?thesis unfolding create_missing_properties.simps(2) [of "Suc k"]
      by (simp add: p(1) props [OF p(2)] del: create_missing_properties.simps)
  next
    case True
    with r obtain tn where tn: "as_nodes sp1 ty = Some tn" by (auto simp: bind_eq_Some_conv)
    show ?thesis
    proof (cases "an_supertype tn")
      case None
      with r True tn have "r = (sp1, Good, o1)" by simp
      with True tn None show ?thesis unfolding create_missing_properties.simps(2) [of "Suc k"]
        by (simp add: p(1) props [OF p(2)] del: create_missing_properties.simps)
    next
      case (Some s)
      with r True tn obtain sp2 e2 o2 where k: "create_missing_properties k E L f n s sp1 = Some (sp2, e2, o2)"
        and "r = (sp2, e2, o1 @ o2)"
        by auto
      with Suc.IH [OF k] True tn Some show ?thesis unfolding create_missing_properties.simps(2) [of "Suc k"]
        by (simp add: p(1) props [OF p(2)] del: create_missing_properties.simps)
    qed
  qed
qed simp

lemma create_children_extends:
  "extends f g \<Longrightarrow> create_children f cs sp = Some r \<Longrightarrow> create_children g cs sp = Some r"
proof (induction cs arbitrary: sp r)
  case (Cons c cs)
  from Cons.prems(2) show ?case
    by (fastforce simp: bind_eq_Some_conv dest: extendsD [OF Cons.prems(1)] Cons.IH [OF Cons.prems(1)])
qed simp

lemma attach_type_extends:
  assumes "extends f g" "attach_type k E L cp f n ty sp = Some r"
  shows "attach_type (Suc k) E L cp g n ty sp = Some r"
  using assms(2) create_missing_properties_extends [OF assms(1)]
  by (fastforce simp: attach_type_def bind_eq_Some_conv simp del: create_missing_properties.simps split: option.splits if_splits)

lemma create_node_helper_suc:
  "create_node_helper k E L cp tree parent sp = Some r \<Longrightarrow> create_node_helper (Suc k) E L cp tree parent sp = Some r"
proof (induction k arbitrary: tree parent sp r)
  case (Suc k)
  have a: "extends (\<lambda>t. create_node_helper k E L cp t (cs_parent_id (tree_state t)))
      (\<lambda>t. create_node_helper (Suc k) E L cp t (cs_parent_id (tree_state t)))"
    and b: "extends (\<lambda>t. create_node_helper k E L cp t n) (\<lambda>t. create_node_helper (Suc k) E L cp t n)" for n
    unfolding extends_def using Suc.IH by blast+
  show ?case
  proof (cases "new_node E (as_nodes sp) (tree_state tree) parent")
    case (Inl e)
    with Suc.prems show ?thesis by simp
  next
    case (Inr nd)
    let ?n = "cs_node_id (tree_state tree)"
    let ?f = "\<lambda>t. create_node_helper k E L cp t (cs_parent_id (tree_state t))"
    let ?g = "\<lambda>t. create_node_helper k E L cp t ?n"
    let ?ty = "type_at (as_nodes sp) (cs_type_definition_id (tree_state tree))"
    from Suc.prems Inr obtain sp0 sp1 e1 o1 where sp0: "as_add_node (ae_ua E) ?n nd sp = Some sp0"
      and ty: "attach_type k E L cp ?f ?n ?ty sp0 = Some (sp1, e1, o1)"
      unfolding create_node_helper.simps(2) [of k] Let_def
      by (auto simp: bind_eq_Some_conv simp del: create_node_helper.simps)
    note simps = create_node_helper.simps(2) [of "Suc k"] Let_def Inr sp0 attach_type_extends [OF a ty]
    show ?thesis
    proof (cases "e1 = Good")
      case False
      then have "r = (sp1, e1, o1)" using Suc.prems Inr sp0 ty by (simp add: Let_def)
      with False show ?thesis by (simp add: simps del: create_node_helper.simps)
    next
      case True
      with Suc.prems Inr sp0 ty obtain sp2 e2 o2
        where par: "attach_parent E ?n parent (cs_reference_type_id (tree_state tree)) sp1 = Some (sp2, e2, o2)"
        by (auto simp: Let_def bind_eq_Some_conv)
      show ?thesis
      proof (cases "e2 = Good")
        case False
        then have "r = (sp2, e2, o1 @ o2)" using Suc.prems Inr sp0 ty True par by (simp add: Let_def)
        with False True par show ?thesis by (simp add: simps del: create_node_helper.simps)
      next
        case Good: True
        with Suc.prems Inr sp0 ty True par obtain sp3 o3 sp4 e4 o4
          where ch: "create_children ?g (tree_children tree) sp2 = Some (sp3, o3)"
          and pr: "set_new_properties E ?n (cs_properties (tree_state tree)) sp3 = Some (sp4, e4, o4)"
          and "r = (sp4, e4, o1 @ o2 @ o3 @ o4)"
          by (auto simp: Let_def bind_eq_Some_conv)
        with True Good par show ?thesis
          by (simp add: simps create_children_extends [OF b ch] del: create_node_helper.simps)
      qed
    qed
  qed
qed simp

lemma create_node_fuel:
  assumes "create_node k E L cp tree sp = Some r" "k \<le> k'"
  shows "create_node k' E L cp tree sp = Some r"
proof -
  have "create_node (k + d) E L cp tree sp = Some r" for d
    using assms(1) by (induction d) (auto simp: create_node_def dest: create_node_helper_suc simp del: create_node_helper.simps)
  from this [of "k' - k"] assms(2) show ?thesis by simp
qed

end
