(* ===== verification/Address_Space_Runs.thy ===== *)
theory Address_Space_Runs
  imports Node_Factory_Claims
begin

text \<open>
  Every operation that changes an address space as one step relation, and the invariant of the node graph over every
  run of it.
\<close>

section \<open>Clearing\<close>

lemma delete_references_of_spec:
  assumes "delete_references_of U ns sp = Some (sp', outs)" "graph_ok U (as_nodes sp)"
  shows "graph_ok U (as_nodes sp') \<and> as_own sp' = as_own sp \<and> body (as_nodes sp') = body (as_nodes sp)
    \<and> (\<forall>m \<in> set ns. fw (as_nodes sp') m = [] \<and> iv (as_nodes sp') m = [])
    \<and> (\<forall>m. set (fw (as_nodes sp') m) \<subseteq> set (fw (as_nodes sp) m) \<and> set (iv (as_nodes sp') m) \<subseteq> set (iv (as_nodes sp) m))"
  using assms
proof (induction ns arbitrary: sp outs)
  case (Cons n ns)
  then obtain sp1 o1 o2 where 1: "delete_all_references U n sp = Some (sp1, o1)"
    and 2: "delete_references_of U ns sp1 = Some (sp', o2)"
    by (auto simp: bind_eq_Some_conv)
  note A = delete_all_references_spec [OF 1 Cons.prems(2)]
  note B = Cons.IH [OF 2 A(1)]
  have e: "fw (as_nodes sp1) n = []" "iv (as_nodes sp1) n = []" using A(5,6) by auto
  then have "fw (as_nodes sp') n = []" "iv (as_nodes sp') n = []"
    using B by (metis empty_subsetI list.set(1) set_empty subset_empty)+
  moreover have "set (fw (as_nodes sp1) m) \<subseteq> set (fw (as_nodes sp) m)" "set (iv (as_nodes sp1) m) \<subseteq> set (iv (as_nodes sp) m)" for m
    using A(5,6) by auto
  ultimately show ?case using A B by fastforce
qed simp

lemma as_clear_ok:
  assumes ret: "as_clear U order sp = Some (sp', outs)" and ok: "as_ok U sp" and order: "set order = set (as_own sp)"
  shows "as_ok U sp' \<and> as_own sp' = [] \<and> (\<forall>n. as_nodes sp' n \<noteq> None \<longleftrightarrow> as_nodes sp n \<noteq> None \<and> n \<notin> set (as_own sp))"
proof -
  obtain sp1 where 1: "delete_references_of U order sp = Some (sp1, outs)"
    and sp': "sp' = sp1\<lparr>as_nodes := (\<lambda>n. if n \<in> set (as_own sp1) then None else as_nodes sp1 n), as_own := []\<rparr>"
    using ret by (auto simp: as_clear_def bind_eq_Some_conv)
  note A = delete_references_of_spec [OF 1] 
  have g: "graph_ok U (as_nodes sp)" using ok by (simp add: as_ok_def)
  note B = A [OF g]
  let ?h = "as_nodes sp1" and ?h' = "as_nodes sp'"
  have e: "fw ?h n = []" "iv ?h n = []" if "n \<in> set (as_own sp)" for n using B that order by auto
  have p: "td ?h n = None" "st ?h n = None" if "n \<in> set (as_own sp)" for n
    using graph_okD(4,5) [of U ?h n] B e [OF that] by (cases "td ?h n"; cases "st ?h n"; auto)+
  have own: "as_own sp1 = as_own sp" using B by simp
  have v: "fw ?h' n = fw ?h n" "iv ?h' n = iv ?h n" "td ?h' n = td ?h n" "st ?h' n = st ?h n" for n
    using e [of n] p [of n] by (auto simp: sp' own node_views)
  have tn: "type_node ?h' n \<longleftrightarrow> type_node ?h n" if "n \<notin> set (as_own sp)" for n
    using that by (simp add: type_node_def cls_def sp' own)
  have "st ?h' n = Some t \<longleftrightarrow> type_node ?h' n \<and> (has_subtype U, t) \<in> set (iv ?h' n)" for n t
    using graph_okD(5) [of U ?h n t] B e [of n] tn [of n] p [of n] unfolding v by (cases "n \<in> set (as_own sp)") auto
  then have "graph_ok U ?h'" using B unfolding graph_ok_def v by blast
  moreover have "?h n \<noteq> None \<longleftrightarrow> as_nodes sp n \<noteq> None" for n using B body_dom [of ?h "as_nodes sp" n] by simp
  ultimately show ?thesis by (auto simp: as_ok_def sp' own)
qed

section \<open>Runs\<close>

inductive as_step :: "('n, 'v, 'q, 't::order_bot, 'y) as_env \<Rightarrow> 'n nid_lib \<Rightarrow>
    ('n, 'v, 'q, 't, 'y) aspace \<Rightarrow> ('n, 'v, 'q, 't, 'y) aspace \<Rightarrow> bool" for E L where
  step_add: "as_add_node (ae_ua E) n nd sp = Some sp' \<Longrightarrow> an_forward nd = [] \<Longrightarrow> an_inverse nd = [] \<Longrightarrow>
    an_type_definition nd = None \<Longrightarrow> an_supertype nd = None \<Longrightarrow> as_step E L sp sp'"
| step_create: "create_node k E L cp tree sp = Some (sp', e, outs) \<Longrightarrow> as_step E L sp sp'"
| step_add_reference: "add_reference (ae_ua E) ty s t sp = Some (sp', outs) \<Longrightarrow> as_step E L sp sp'"
| step_delete_reference: "delete_reference (ae_ua E) ty s t sp = Some (sp', outs) \<Longrightarrow> as_step E L sp sp'"
| step_delete_node: "delete_node (ae_ua E) n sp = Some (sp', outs) \<Longrightarrow> as_step E L sp sp'"
| step_modify: "modify_node E n attrs props sp = Some (sp', b, outs) \<Longrightarrow> as_step E L sp sp'"
| step_clear: "as_clear (ae_ua E) order sp = Some (sp', outs) \<Longrightarrow> set order = set (as_own sp) \<Longrightarrow> as_step E L sp sp'"

inductive_cases as_stepE: "as_step E L sp sp'"

inductive as_reachable :: "('n, 'v, 'q, 't::order_bot, 'y) as_env \<Rightarrow> 'n nid_lib \<Rightarrow>
    ('n, 'v, 'q, 't, 'y) aspace \<Rightarrow> ('n, 'v, 'q, 't, 'y) aspace \<Rightarrow> bool" for E L sp where
  reach_start: "as_reachable E L sp sp"
| reach_step: "as_reachable E L sp sp1 \<Longrightarrow> as_step E L sp1 sp2 \<Longrightarrow> as_reachable E L sp sp2"

lemma as_step_ok:
  assumes "as_step E L sp sp'" "as_ok (ae_ua E) sp"
  shows "as_ok (ae_ua E) sp'"
  using assms
proof (induction rule: as_step.induct)
  case (step_add n nd sp sp')
  then show ?case using added_node [OF step_add(1-5)] by (simp add: added_def)
next
  case (step_create k cp tree sp sp' e outs)
  then show ?case using create_node_added [OF step_create(1)] by (simp add: added_def)
next
  case (step_add_reference ty s t sp sp' outs)
  then show ?case using added_reference [OF step_add_reference(1)] by (simp add: added_def)
next
  case (step_delete_reference ty s t sp sp' outs)
  note D = delete_reference_changed [OF step_delete_reference(1), unfolded changed_def]
  have "as_nodes sp' n = None \<longleftrightarrow> as_nodes sp n = None" for n using D body_dom [of "as_nodes sp'" "as_nodes sp" n] by blast
  with step_delete_reference D delete_reference_ok [OF _ step_delete_reference(1)] show ?case by (simp add: as_ok_def)
next
  case (step_delete_node n sp sp' outs)
  show ?case by (rule pruned_ok [OF conjunct1 [OF delete_node_pruned [OF step_delete_node]] step_delete_node(2)])
next
  case (step_modify n attrs props sp sp' b outs)
  then show ?case using added_same [OF modify_node_same [OF step_modify(1)], of "ae_ua E"] by (simp add: added_def)
next
  case (step_clear order sp sp' outs)
  then show ?case using as_clear_ok by blast
qed

text \<open>A node of the parent address space is never deleted and never becomes an own node.\<close>

lemma as_grows_foreign:
  assumes "as_grows sp sp'" "as_nodes sp n \<noteq> None" "n \<notin> set (as_own sp)"
  shows "as_nodes sp' n \<noteq> None \<and> n \<notin> set (as_own sp')"
  using assms cls_dom unfolding as_grows_def by metis

lemma as_step_foreign:
  assumes "as_step E L sp sp'" "as_ok (ae_ua E) sp" "as_nodes sp n \<noteq> None" "n \<notin> set (as_own sp)"
  shows "as_nodes sp' n \<noteq> None \<and> n \<notin> set (as_own sp')"
  using assms
proof (induction rule: as_step.induct)
  case (step_add m nd sp sp')
  then show ?case using as_grows_foreign [of sp sp' n] added_node [OF step_add(1-5)] by (simp add: added_def)
next
  case (step_create k cp tree sp sp' e outs)
  then show ?case using as_grows_foreign [of sp sp' n] create_node_added [OF step_create(1)] by (simp add: added_def)
next
  case (step_add_reference ty s t sp sp' outs)
  then show ?case using as_grows_foreign [of sp sp' n] added_reference [OF step_add_reference(1)] by (simp add: added_def)
next
  case (step_delete_reference ty s t sp sp' outs)
  note D = delete_reference_changed [OF step_delete_reference(1), unfolded changed_def]
  show ?case using D body_dom [of "as_nodes sp'" "as_nodes sp" n] step_delete_reference by simp
next
  case (step_delete_node m sp sp' outs)
  have "pruned (ae_ua E) sp sp'" by (rule conjunct1 [OF delete_node_pruned [OF step_delete_node(1,2)]])
  then show ?case using step_delete_node(3,4) by (auto simp: pruned_def Let_def)
next
  case (step_modify m attrs props sp sp' b outs)
  then show ?case using as_grows_foreign [of sp sp' n] added_same [OF modify_node_same [OF step_modify(1)], of "ae_ua E"] by (simp add: added_def)
next
  case (step_clear order sp sp' outs)
  then show ?case using as_clear_ok [OF step_clear(1,3,2)] by simp
qed

lemma as_reachable_ok:
  assumes "as_reachable E L sp0 sp" "as_ok (ae_ua E) sp0"
  shows "as_ok (ae_ua E) sp"
  using assms by (induction rule: as_reachable.induct) (simp_all add: as_step_ok)

text \<open>C8: Whatever nodes and references are added, deleted, created from states, modified or cleared, in any order and also when
  operations fail, every reference of the node graph stands at both of its ends, once; each type definition and
  supertype pointer is the end of the reference it stands for; every own node is in the graph; and the nodes of the
  parent address space are all still there.\<close>

theorem address_space_reachable_ok:
  assumes "as_reachable E L sp0 sp" "graph_ok (ae_ua E) (as_nodes sp0)" "as_own sp0 = []"
  shows "as_ok (ae_ua E) sp \<and> (\<forall>n. as_nodes sp0 n \<noteq> None \<longrightarrow> as_nodes sp n \<noteq> None \<and> n \<notin> set (as_own sp))"
  using assms
proof (induction rule: as_reachable.induct)
  case reach_start
  then show ?case by (simp add: as_ok_def)
next
  case (reach_step sp1 sp2)
  then show ?case using as_step_ok as_step_foreign by metis
qed

end
