(* ===== verification/Address_Space_Examples.thy ===== *)
theory Address_Space_Examples
  imports Address_Space_Runs
begin

text \<open>
  A program of operations run on an address space, and a small server built with it: the standard reference types, one
  object type with a property declared on it and on its supertype, and a few objects. The witnesses of the
  properties of the node graph.
\<close>

section \<open>Running operations\<close>

datatype ('n, 'v, 'q, 't, 'y) as_op =
  AddOp 'n "('n, 'v, 'q, 't, 'y) anode"
| CreateOp bool "('n, 'v) state_tree"
| AddReferenceOp 'n 'n 'n
| DeleteReferenceOp 'n 'n 'n
| DeleteOp 'n
| ModifyOp 'n "'v node_attributes" "('n \<times> 'v) list"
| ClearOp "'n list"

definition apply_op ::
    "('n, 'v, 'q, 't::order_bot, 'y) as_env \<Rightarrow> 'n nid_lib \<Rightarrow> ('n, 'v, 'q, 't, 'y) as_op \<Rightarrow> ('n, 'v, 'q, 't, 'y) aspace \<Rightarrow>
     ('n, 'v, 'q, 't, 'y) aspace option" where
  "apply_op E L x sp = (let U = ae_ua E in
     case x of
       AddOp n nd \<Rightarrow>
         if an_forward nd = [] \<and> an_inverse nd = [] \<and> Option.is_none (an_type_definition nd) \<and> Option.is_none (an_supertype nd)
         then as_add_node U n nd sp else None
     | CreateOp cp tree \<Rightarrow> map_option fst (create_node 9 E L cp tree sp)
     | AddReferenceOp ty s t \<Rightarrow> map_option fst (add_reference U ty s t sp)
     | DeleteReferenceOp ty s t \<Rightarrow> map_option fst (delete_reference U ty s t sp)
     | DeleteOp n \<Rightarrow> map_option fst (delete_node U n sp)
     | ModifyOp n attrs props \<Rightarrow> map_option fst (modify_node E n attrs props sp)
     | ClearOp order \<Rightarrow> if set order = set (as_own sp) then map_option fst (as_clear U order sp) else None)"

lemma apply_op_step: "apply_op E L x sp = Some sp' \<Longrightarrow> as_step E L sp sp'"
  by (auto simp: apply_op_def Let_def Option.is_none_def split: as_op.splits if_splits intro: as_step.intros)

fun as_run ::
    "('n, 'v, 'q, 't::order_bot, 'y) as_env \<Rightarrow> 'n nid_lib \<Rightarrow> ('n, 'v, 'q, 't, 'y) as_op list \<Rightarrow> ('n, 'v, 'q, 't, 'y) aspace \<Rightarrow>
     ('n, 'v, 'q, 't, 'y) aspace option" where
  "as_run E L [] sp = Some sp"
| "as_run E L (x # xs) sp = apply_op E L x sp \<bind> as_run E L xs"

lemma as_run_from: "as_run E L xs sp1 = Some sp2 \<Longrightarrow> as_reachable E L sp sp1 \<Longrightarrow> as_reachable E L sp sp2"
proof (induction xs arbitrary: sp1)
  case (Cons x xs)
  then obtain sp' where "apply_op E L x sp1 = Some sp'" "as_run E L xs sp' = Some sp2" by (auto simp: bind_eq_Some_conv)
  with Cons show ?case by (blast intro: reach_step apply_op_step)
qed simp

lemma as_run_reachable: "as_run E L xs sp = Some sp' \<Longrightarrow> as_reachable E L sp sp'"
  by (rule as_run_from [OF _ reach_start])

section \<open>A small server\<close>

definition ex_ua :: "ex_nid ua" where
  "ex_ua = \<lparr>ua_null = (Inl 0, 0), has_type_definition = (Inl 40, 0), has_subtype = (Inl 45, 0), has_property = (Inl 46, 0),
     has_component = (Inl 47, 0), aggregates = (Inl 44, 0), has_modelling_rule = (Inl 37, 0),
     optional_placeholder = (Inl 11508, 0), mandatory_placeholder = (Inl 11510, 0), hierarchical_references = (Inl 33, 0),
     non_hierarchical_references = (Inl 32, 0), property_type = (Inl 68, 0), root_folder = (Inl 84, 0)\<rparr>"

definition ex_as_env :: "(ex_nid, nat, unit, nat, unit) as_env" where
  "ex_as_env = \<lparr>ae_ua = ex_ua, ae_scada_string = node_id_to_scada_string ex_nid_lib, ae_convert = (\<lambda>_ v. Some v),
     ae_is_update = (\<lambda>old new. dv_source old \<le> dv_source new), ae_null_variant = 0, ae_qualifier = (), ae_now = 1\<rparr>"

abbreviation sid :: "32 word \<Rightarrow> ex_nid" where "sid i \<equiv> (Inl i, 0)"
abbreviation own_id :: "32 word \<Rightarrow> ex_nid" where "own_id i \<equiv> (Inl i, 7)"

definition ex_node :: "node_class \<Rightarrow> string \<Rightarrow> (ex_nid, nat, unit, nat, unit) anode" where
  "ex_node c name = (empty_node ex_as_env c (sid 24))\<lparr>an_browse_name := name\<rparr>"

definition ex_empty :: "(ex_nid, nat, unit, nat, unit) aspace" where
  "ex_empty = \<lparr>as_nodes = (\<lambda>_. None), as_own = []\<rparr>"

text \<open>The standard nodes that the operations need.\<close>

definition ex_standard :: "(ex_nid, nat, unit, nat, unit) as_op list" where
  "ex_standard =
     [AddOp (sid 45) (ex_node ReferenceTypeClass ''HasSubtype''),
      AddOp (sid 32) (ex_node ReferenceTypeClass ''NonHierarchicalReferences''),
      AddOp (sid 33) (ex_node ReferenceTypeClass ''HierarchicalReferences''),
      AddOp (sid 35) (ex_node ReferenceTypeClass ''Organizes''),
      AddOp (sid 46) (ex_node ReferenceTypeClass ''HasProperty''),
      AddOp (sid 40) (ex_node ReferenceTypeClass ''HasTypeDefinition''),
      AddReferenceOp (sid 45) (sid 33) (sid 35),
      AddReferenceOp (sid 45) (sid 33) (sid 46),
      AddReferenceOp (sid 45) (sid 32) (sid 40),
      AddOp (sid 24) (ex_node DataTypeClass ''BaseDataType''),
      AddOp (sid 68) (ex_node VariableTypeClass ''PropertyType''),
      AddOp (sid 58) (ex_node ObjectTypeClass ''BaseObjectType''),
      AddOp (sid 84) (ex_node ObjectClass ''Root'')]"

lemma ex_standard_runs: "\<not> Option.is_none (as_run ex_as_env ex_nid_lib ex_standard ex_empty)"
  by code_simp

definition ex_parent :: "(ex_nid, nat, unit, nat, unit) aspace" where
  "ex_parent = (the (as_run ex_as_env ex_nid_lib ex_standard ex_empty))\<lparr>as_own := []\<rparr>"

text \<open>Four objects: 1 under the root, 2 under 1, 3 under 2, and 4 under the root.\<close>

definition ex_tree_ops :: "(ex_nid, nat, unit, nat, unit) as_op list" where
  "ex_tree_ops =
     [AddOp (own_id 1) (ex_node ObjectClass ''Site''), AddOp (own_id 2) (ex_node ObjectClass ''Line''),
      AddOp (own_id 3) (ex_node ObjectClass ''Pump''), AddOp (own_id 4) (ex_node ObjectClass ''Office''),
      AddReferenceOp (sid 35) (sid 84) (own_id 1), AddReferenceOp (sid 35) (own_id 1) (own_id 2),
      AddReferenceOp (sid 35) (own_id 2) (own_id 3), AddReferenceOp (sid 35) (sid 84) (own_id 4)]"

definition ex_tree :: "(ex_nid, nat, unit, nat, unit) aspace" where
  "ex_tree = the (as_run ex_as_env ex_nid_lib ex_tree_ops ex_parent)"

lemma not_none_the: "\<not> Option.is_none x \<Longrightarrow> x = Some (the x)"
  by (cases x) simp_all

lemma ex_tree_run: "as_run ex_as_env ex_nid_lib ex_tree_ops ex_parent = Some ex_tree"
  unfolding ex_tree_def by (rule not_none_the) code_simp

lemma ex_empty_ok: "graph_ok ex_ua (as_nodes ex_empty)" "as_ok ex_ua ex_empty"
  by (simp_all add: as_ok_def graph_ok_def ex_empty_def node_views)

lemma ex_env_ua [simp]: "ae_ua ex_as_env = ex_ua"
  by (simp add: ex_as_env_def)

lemma ex_parent_ok: "graph_ok ex_ua (as_nodes ex_parent)" "as_own ex_parent = []" "as_ok ex_ua ex_parent"
proof -
  have "as_ok (ae_ua ex_as_env) (the (as_run ex_as_env ex_nid_lib ex_standard ex_empty))"
    by (rule as_reachable_ok [OF as_run_reachable [OF not_none_the [OF ex_standard_runs]]]) (simp add: ex_empty_ok)
  then show "graph_ok ex_ua (as_nodes ex_parent)" by (simp add: as_ok_def ex_parent_def)
  then show "as_own ex_parent = []" "as_ok ex_ua ex_parent" by (simp_all add: ex_parent_def as_ok_def)
qed

lemma ex_tree_ok: "as_ok ex_ua ex_tree"
  using as_reachable_ok [OF as_run_reachable [OF ex_tree_run]] ex_parent_ok by simp

theorem address_space_reachable_ok_witness:
  "as_ok ex_ua ex_tree \<and> as_nodes ex_tree (sid 35) \<noteq> None \<and> sid 35 \<notin> set (as_own ex_tree)"
proof -
  have "\<not> Option.is_none (as_nodes ex_parent (sid 35))" by code_simp
  then have "as_nodes ex_parent (sid 35) \<noteq> None" by (simp add: Option.is_none_def)
  then show ?thesis
    using address_space_reachable_ok [OF as_run_reachable [OF ex_tree_run]] ex_parent_ok by simp
qed

text \<open>The same objects in an address space that has the standard nodes, the reference types among them, as own nodes.\<close>

definition ex_site_ops :: "(ex_nid, nat, unit, nat, unit) as_op list" where
  "ex_site_ops = ex_standard @ AddReferenceOp (sid 45) (sid 33) (sid 45) # ex_tree_ops"

definition ex_site :: "(ex_nid, nat, unit, nat, unit) aspace" where
  "ex_site = the (as_run ex_as_env ex_nid_lib ex_site_ops ex_empty)"

lemma ex_site_ok: "as_ok ex_ua ex_site"
proof -
  have "\<not> Option.is_none (as_run ex_as_env ex_nid_lib ex_site_ops ex_empty)" by code_simp
  from as_reachable_ok [OF as_run_reachable [OF not_none_the [OF this]]] ex_empty_ok show ?thesis by (simp add: ex_site_def)
qed

text \<open>What the reference lists and pointers of some nodes are; the space is evaluated once.\<close>

definition look where
  "look sp ns = (as_own sp, List.map (\<lambda>n. (fw (as_nodes sp) n, iv (as_nodes sp) n, st (as_nodes sp) n)) ns)"

lemma ex_site_look:
  "look ex_site [own_id 1, own_id 2, own_id 3, sid 35, sid 33] =
    ([sid 45, sid 32, sid 33, sid 35, sid 46, sid 40, sid 24, sid 68, sid 58, sid 84, own_id 1, own_id 2, own_id 3, own_id 4],
      [([(sid 35, own_id 2)], [(sid 35, sid 84)], None), ([(sid 35, own_id 3)], [(sid 35, own_id 1)], None),
       ([], [(sid 35, own_id 2)], None), ([], [(sid 45, sid 33)], Some (sid 33)),
       ([(sid 45, sid 35), (sid 45, sid 46), (sid 45, sid 45)], [], None)])"
  by code_simp

lemma ex_site_views:
  "as_own ex_site = [sid 45, sid 32, sid 33, sid 35, sid 46, sid 40, sid 24, sid 68, sid 58, sid 84, own_id 1, own_id 2, own_id 3, own_id 4]"
  "fw (as_nodes ex_site) (own_id 1) = [(sid 35, own_id 2)]" "fw (as_nodes ex_site) (own_id 2) = [(sid 35, own_id 3)]"
  "fw (as_nodes ex_site) (own_id 3) = []" "iv (as_nodes ex_site) (own_id 1) = [(sid 35, sid 84)]"
  "iv (as_nodes ex_site) (own_id 2) = [(sid 35, own_id 1)]" "iv (as_nodes ex_site) (own_id 3) = [(sid 35, own_id 2)]"
  "st (as_nodes ex_site) (sid 35) = Some (sid 33)" "st (as_nodes ex_site) (sid 33) = None"
  using ex_site_look by (simp_all add: look_def)

lemma ex_site_alive: "m \<in> set (as_own ex_site) \<Longrightarrow> as_nodes ex_site m \<noteq> None"
  using ex_site_ok by (auto simp: as_ok_def)

lemma ex_site_hier: "hier ex_ua (as_nodes ex_site) (sid 35)"
  using ex_site_alive [of "sid 35"] ex_site_alive [of "sid 33"]
  by (simp add: hier_def is_subtype_of_step ex_ua_def ex_site_views)

lemma ex_site_children:
  "(own_id 1, b) \<in> child_of ex_ua ex_site \<longleftrightarrow> b = own_id 2" "(own_id 2, b) \<in> child_of ex_ua ex_site \<longleftrightarrow> b = own_id 3"
  "(own_id 3, b) \<notin> child_of ex_ua ex_site"
  using ex_site_hier by (simp_all add: child_of_def ex_site_views)

lemma ex_site_below: "below ex_ua ex_site (own_id 1) = {own_id 1, own_id 2, own_id 3}"
proof
  have "x \<in> {own_id 1, own_id 2, own_id 3}" if "(own_id 1, x) \<in> (child_of ex_ua ex_site)\<^sup>*" for x
    using that by (induction rule: rtrancl_induct) (auto simp: ex_site_children)
  then show "below ex_ua ex_site (own_id 1) \<subseteq> {own_id 1, own_id 2, own_id 3}" unfolding below_def by blast
  have "own_id 2 \<in> below ex_ua ex_site (own_id 1)" by (rule below_child [OF below_self]) (simp add: ex_site_children)
  moreover from this have "own_id 3 \<in> below ex_ua ex_site (own_id 1)" by (rule below_child) (simp add: ex_site_children)
  ultimately show "{own_id 1, own_id 2, own_id 3} \<subseteq> below ex_ua ex_site (own_id 1)" by simp
qed

lemma ex_site_types: "types_stay ex_ua ex_site (own_id 1) {sid 33, sid 35}"
proof -
  have n: "as_nodes ex_site (sid 33) \<noteq> None" "as_nodes ex_site (sid 35) \<noteq> None"
    by (rule ex_site_alive, simp add: ex_site_views)+
  have r: "resolves (as_nodes ex_site) (sid 33)" using n ex_site_views by (auto intro: resolves_top)
  then have "resolves (as_nodes ex_site) (sid 35)" using n ex_site_views by (auto intro: resolves_up)
  with r show ?thesis by (simp add: types_stay_def ex_site_below ex_site_views)
qed

theorem delete_node_subtree_witness:
  "\<exists>sp' outs. delete_node ex_ua (own_id 1) ex_site = Some (sp', outs) \<and> pruned ex_ua ex_site sp'
    \<and> as_nodes sp' (own_id 3) = None \<and> as_nodes sp' (own_id 4) \<noteq> None \<and> as_nodes sp' (sid 35) \<noteq> None"
proof -
  define rank where "rank n = (if n = own_id 1 then 2 else if n = own_id 2 then 1 else 0 :: nat)" for n
  have "forest ex_ua ex_site (own_id 1) rank"
    by (auto simp: forest_def ex_site_below ex_site_children ex_site_views rank_def)
  from delete_node_subtree [OF ex_site_ok ex_site_types this] obtain sp' outs where
    d: "delete_node ex_ua (own_id 1) ex_site = Some (sp', outs)" "pruned ex_ua ex_site sp'"
    and m: "\<forall>m. as_nodes ex_site m \<noteq> None \<longrightarrow> (as_nodes sp' m = None \<longleftrightarrow> m \<in> below ex_ua ex_site (own_id 1))"
    unfolding below_def mem_Collect_eq by blast
  have "as_nodes ex_site k \<noteq> None" if "k \<in> {own_id 3, own_id 4, sid 35}" for k
    using that ex_site_alive [of k] by (auto simp: ex_site_views)
  with m have gone: "as_nodes sp' k = None \<longleftrightarrow> k = own_id 3" if "k \<in> {own_id 3, own_id 4, sid 35}" for k
    using that by (auto simp: ex_site_below)
  show ?thesis using d gone [of "own_id 3"] gone [of "own_id 4"] gone [of "sid 35"] by auto
qed

text \<open>Two objects that organize each other.\<close>

definition ex_cycle :: "(ex_nid, nat, unit, nat, unit) aspace" where
  "ex_cycle = the (as_run ex_as_env ex_nid_lib
     [AddOp (own_id 1) (ex_node ObjectClass ''Site''), AddOp (own_id 2) (ex_node ObjectClass ''Line''),
      AddReferenceOp (sid 35) (own_id 1) (own_id 2), AddReferenceOp (sid 35) (own_id 2) (own_id 1)] ex_parent)"

theorem delete_node_cycle_hangs_witness: "delete_node ex_ua (own_id 1) ex_cycle = None"
proof (rule delete_node_cycle_hangs)
  have "(\<lambda>sp. (as_own sp, first_child ex_ua (as_nodes sp) (own_id 1), first_child ex_ua (as_nodes sp) (own_id 2))) ex_cycle
      = ([own_id 1, own_id 2], Some (Some (own_id 2)), Some (Some (own_id 1)))"
    by code_simp
  then show "\<forall>a \<in> {own_id 1, own_id 2}. a \<in> set (as_own ex_cycle)
      \<and> (\<exists>c \<in> {own_id 1, own_id 2}. first_child ex_ua (as_nodes ex_cycle) a = Some (Some c))"
    by simp
qed simp

section \<open>Creations\<close>

text \<open>A device type with a property, and a pump type below it that declares a property of the same name.\<close>

definition ex_type_ops :: "(ex_nid, nat, unit, nat, unit) as_op list" where
  "ex_type_ops =
     [AddOp (own_id 10) (ex_node ObjectTypeClass ''DeviceType''), AddReferenceOp (sid 45) (sid 58) (own_id 10),
      AddOp (own_id 11) (ex_node VariableClass ''Limit''), AddReferenceOp (sid 40) (own_id 11) (sid 68),
      AddReferenceOp (sid 46) (own_id 10) (own_id 11),
      AddOp (own_id 12) (ex_node ObjectTypeClass ''PumpType''), AddReferenceOp (sid 45) (own_id 10) (own_id 12),
      AddOp (own_id 13) (ex_node VariableClass ''Limit''), AddReferenceOp (sid 40) (own_id 13) (sid 68),
      AddReferenceOp (sid 46) (own_id 12) (own_id 13)]"

definition ex_types :: "(ex_nid, nat, unit, nat, unit) aspace" where
  "ex_types = the (as_run ex_as_env ex_nid_lib ex_type_ops ex_parent)"

definition ex_state :: "ex_nid \<Rightarrow> ex_nid \<Rightarrow> ex_nid \<Rightarrow> (ex_nid, nat) state_tree" where
  "ex_state n ty parent = State_Tree \<lparr>cs_node_id = n, cs_node_class = ObjectClass, cs_type_definition_id = ty, cs_parent_id = parent,
     cs_reference_type_id = sid 35, cs_browse_name = ''Pump 1'', cs_display_name = '''', cs_inverse_name = '''',
     cs_data_type = sid 0, cs_value = None, cs_properties = []\<rparr> []"

abbreviation ex_create where "ex_create n ty parent \<equiv> create_node 9 ex_as_env ex_nid_lib True (ex_state n ty parent) ex_types"

text \<open>What a creation leaves: its status, whether the node is there, its type definition and its inverse references.\<close>

definition outcome where
  "outcome r n = (case r of None \<Rightarrow> None
     | Some (sp, e, outs) \<Rightarrow> Some (e, n \<in> set (as_own sp), td (as_nodes sp) n, fw (as_nodes sp) n, iv (as_nodes sp) n))"

lemma ex_device_outcome:
  "outcome (ex_create (own_id 20) (own_id 10) (sid 84)) (own_id 20) =
     Some (Good, True, Some (own_id 10), [(sid 40, own_id 10), (sid 46, (Inr ''20!Limit'', 7))], [(sid 35, sid 84)])"
  by code_simp

lemma ex_lost_parent_outcome:
  "outcome (ex_create (own_id 20) (own_id 10) (own_id 99)) (own_id 20) =
     Some (BadWrongParentId, True, Some (own_id 10), [(sid 40, own_id 10), (sid 46, (Inr ''20!Limit'', 7))], [])"
  by code_simp

lemma ex_pump_outcome:
  "outcome (ex_create (own_id 20) (own_id 12) (sid 84)) (own_id 20) =
     Some (BadDuplicateNodeId, True, Some (own_id 12), [(sid 40, own_id 12), (sid 46, (Inr ''20!Limit'', 7))], [])"
  by code_simp

lemma outcome_Some:
  "outcome r n = Some (e, own, d, f, i) \<Longrightarrow> \<exists>sp outs. r = Some (sp, e, outs) \<and> (n \<in> set (as_own sp)) = own
     \<and> td (as_nodes sp) n = d \<and> fw (as_nodes sp) n = f \<and> iv (as_nodes sp) n = i"
  by (auto simp: outcome_def split: option.splits)

lemma ex_types_ok: "as_ok ex_ua ex_types"
proof -
  have "as_run ex_as_env ex_nid_lib ex_type_ops ex_parent = Some ex_types"
    unfolding ex_types_def by (rule not_none_the) code_simp
  from as_reachable_ok [OF as_run_reachable [OF this]] ex_parent_ok show ?thesis by simp
qed

theorem create_node_correct_witness:
  "\<exists>sp' outs. ex_create (own_id 20) (own_id 10) (sid 84) = Some (sp', Good, outs) \<and> as_ok ex_ua sp' \<and> as_grows ex_types sp'
    \<and> own_id 20 \<in> set (as_own sp') \<and> (sid 35, sid 84) \<in> set (iv (as_nodes sp') (own_id 20))"
proof -
  obtain sp' outs where r: "ex_create (own_id 20) (own_id 10) (sid 84) = Some (sp', Good, outs)"
    using outcome_Some [OF ex_device_outcome] by blast
  from create_node_correct [OF r] ex_types_ok have "as_ok ex_ua sp'" "as_grows ex_types sp'" "own_id 20 \<in> set (as_own sp')"
    "(sid 35, sid 84) \<in> set (iv (as_nodes sp') (own_id 20))"
    by (simp_all add: ex_state_def Let_def) (simp_all add: ex_ua_def)
  with r show ?thesis by blast
qed

theorem failed_creation_stays_witness:
  "\<exists>sp' outs. ex_create (own_id 20) (own_id 10) (own_id 99) = Some (sp', BadWrongParentId, outs)
    \<and> own_id 20 \<in> set (as_own sp')
    \<and> create_node 9 ex_as_env ex_nid_lib True (ex_state (own_id 20) (own_id 10) (own_id 99)) sp' = Some (sp', BadDuplicateNodeId, [])"
proof -
  obtain sp' outs where r: "ex_create (own_id 20) (own_id 10) (own_id 99) = Some (sp', BadWrongParentId, outs)"
    using outcome_Some [OF ex_lost_parent_outcome] by blast
  have "\<not> (case new_node ex_as_env (as_nodes ex_types) (tree_state (ex_state (own_id 20) (own_id 10) (own_id 99))) (own_id 99) of
      Inl e \<Rightarrow> True | Inr nd \<Rightarrow> False)"
    by code_simp
  then obtain nd where "new_node ex_as_env (as_nodes ex_types) (tree_state (ex_state (own_id 20) (own_id 10) (own_id 99)))
      (cs_parent_id (tree_state (ex_state (own_id 20) (own_id 10) (own_id 99)))) = Inr nd"
    by (auto simp: ex_state_def split: sum.splits)
  from failed_creation_stays [OF r _ this, of 8] ex_types_ok r show ?thesis
    by (simp add: ex_state_def numeral_eq_Suc)
qed

text \<open>An object of a type that declares a property which its supertype declares too cannot be created: the factory looks
  for the property below its declaration instead of below the new node, creates it twice, and fails with a duplicate
  id, leaving the object without its parent.\<close>

theorem inherited_property_fails:
  "\<exists>sp' outs. ex_create (own_id 20) (own_id 12) (sid 84) = Some (sp', BadDuplicateNodeId, outs)
    \<and> own_id 20 \<in> set (as_own sp') \<and> iv (as_nodes sp') (own_id 20) = []"
  using outcome_Some [OF ex_pump_outcome] by blast

end
