(* ===== verification/Modify_Claims.thy ===== *)
theory Modify_Claims
  imports Node_Factory_Claims
begin

text \<open>
  What \<open>ModifyNode\<close> of \<open>address_space_impl.cpp\<close> does with a long list of properties: the ids of the changed ones go into
  an array of fifty.
\<close>

lemma modify_properties_append:
  "modify_properties E n (ps @ qs) pids h =
     (case modify_properties E n ps pids h of
        None \<Rightarrow> None
      | Some (h1, pids1, o1) \<Rightarrow>
          map_option (\<lambda>(h2, pids2, o2). (h2, pids2, o1 @ o2)) (modify_properties E n qs pids1 h1))"
proof (induction ps arbitrary: pids h)
  case Nil
  then show ?case by (cases "modify_properties E n qs pids h") auto
next
  case (Cons p ps)
  obtain decl v where p: "p = (decl, v)" by force
  show ?case
  proof (cases "get_property_value E h n decl")
    case (Some old)
    show ?thesis
    proof (cases "v = old \<or> \<not> length pids < max_changed_properties")
      case True
      with Some Cons show ?thesis by (auto simp: p)
    next
      case False
      show ?thesis
      proof (cases "set_property_value E h n decl v")
        case None
        with Some False show ?thesis by (simp add: p)
      next
        case (Some r)
        obtain h1 g o1 where r: "r = (h1, g, o1)" by (metis prod_cases3)
        show ?thesis using \<open>get_property_value E h n decl = Some old\<close> False Some Cons [of "pids @ [decl]" h1]
          by (cases "modify_properties E n ps (pids @ [decl]) h1")
            (auto simp: p r map_conv_bind_option split: prod.splits intro!: bind_option_cong)
      qed
    qed
  qed (simp add: p)
qed

lemma modify_properties_bound:
  "modify_properties E n props pids h = Some (h', pids', outs) \<Longrightarrow> length pids \<le> max_changed_properties \<Longrightarrow>
     length pids' \<le> max_changed_properties"
proof (induction props arbitrary: pids h outs)
  case (Cons p props)
  obtain decl v where p: "p = (decl, v)" by force
  from Cons.prems obtain old where old: "get_property_value E h n decl = Some old"
    by (auto simp: p bind_eq_Some_conv)
  show ?case
  proof (cases "v = old")
    case True
    with Cons old show ?thesis by (auto simp: p)
  next
    case False
    with Cons.prems old obtain h1 g o1 o2 where "length pids < max_changed_properties"
      "modify_properties E n props (pids @ [decl]) h1 = Some (h', pids', o2)"
      by (auto simp: p bind_eq_Some_conv)
    with Cons.IH [of "pids @ [decl]" h1 o2] show ?thesis by simp
  qed
qed simp

text \<open>After fifty properties have changed, one more whose value differs is written past the end of the array of the changed
  properties.\<close>

theorem modify_node_overflows:
  assumes "as_nodes sp n = Some nd" "modify_attributes E n attrs nd = Some (nd', as, o1)"
    and "modify_properties E n props [] ((as_nodes sp)(n \<mapsto> nd')) = Some (h, pids, o2)" "length pids = max_changed_properties"
    and "get_property_value E h n decl = Some old" "v \<noteq> old"
  shows "modify_node E n attrs (props @ (decl, v) # rest) sp = None"
  using assms by (simp add: modify_node_def modify_properties_append Let_def)

section \<open>An instance\<close>

text \<open>An object of a type with one property; \<open>md_heap v\<close> has the value \<open>v\<close> in it.\<close>

definition md_env :: "(nat, nat, unit, nat, unit) as_env" where
  "md_env = \<lparr>ae_ua = \<lparr>ua_null = 0, has_type_definition = 1, has_subtype = 2, has_property = 3, has_component = 4, aggregates = 5,
       has_modelling_rule = 6, optional_placeholder = 7, mandatory_placeholder = 8, hierarchical_references = 9,
       non_hierarchical_references = 10, property_type = 11, root_folder = 12\<rparr>,
     ae_scada_string = (\<lambda>_. ''''), ae_convert = (\<lambda>_ v. Some v), ae_is_update = (\<lambda>_ _. True), ae_null_variant = 0,
     ae_qualifier = (), ae_now = 1\<rparr>"

definition md_node :: "node_class \<Rightarrow> string \<Rightarrow> nat ref list \<Rightarrow> nat option \<Rightarrow> nat option \<Rightarrow> nat \<Rightarrow>
    (nat, nat, unit, nat, unit) anode" where
  "md_node c name forward d s v = \<lparr>an_class = c, an_browse_name = name, an_display_name = '''', an_forward = forward, an_inverse = [],
     an_type_definition = d, an_supertype = s, an_kind = Generic, an_value = plain_value md_env v, an_data_type = 0,
     an_inverse_name = ''''\<rparr>"

definition md_heap :: "nat \<Rightarrow> (nat, nat, unit, nat, unit) heap" where
  "md_heap v =
     [9 \<mapsto> md_node ReferenceTypeClass ''HierarchicalReferences'' [] None None 0,
      3 \<mapsto> md_node ReferenceTypeClass ''HasProperty'' [] None (Some 9) 0,
      20 \<mapsto> md_node ObjectTypeClass ''DeviceType'' [(3, 21)] None None 0,
      21 \<mapsto> md_node VariableClass ''Limit'' [] None None 0,
      30 \<mapsto> md_node ObjectClass ''Device'' [(3, 31)] (Some 20) None 0,
      31 \<mapsto> md_node VariableClass ''Limit'' [] None None v]"

lemma md_declaration: "find_declaration (ae_ua md_env) (md_heap v) 30 21 = Some (Some 21)"
  by (simp add: find_declaration_def get_property_declaration_def walk_types.simps is_subtype_of.simps is_variable_def
      md_heap_def md_node_def md_env_def)

lemma md_child: "find_child md_env (md_heap v) 30 ''Limit'' = Some (Some 31)"
  by (simp add: find_child_def is_subtype_of.simps node_browse_name_def md_heap_def md_node_def md_env_def)

lemma md_get: "get_property_value md_env (md_heap v) 30 21 = Some v"
  using md_declaration [of v] md_child [of v]
  by (simp add: get_property_value_def md_heap_def md_node_def node_browse_name_def plain_value_def)

lemma md_set: "v \<noteq> w \<Longrightarrow> set_property_value md_env (md_heap v) 30 21 w = Some (md_heap w, True, [ForwardData 31 (plain_value md_env w)])"
  using md_declaration [of v] md_child [of v]
  by (simp add: set_property_value_def md_heap_def md_node_def node_browse_name_def plain_value_def set_value_def md_env_def)

definition md_changes :: "nat \<Rightarrow> (nat \<times> nat) list" where
  "md_changes k = List.map (Pair 21) [1..<Suc k]"

lemma md_changes_simps: "md_changes 0 = []" "md_changes (Suc k) = md_changes k @ [(21, Suc k)]"
  by (simp_all add: md_changes_def)

lemma md_run:
  "k \<le> max_changed_properties \<Longrightarrow>
     \<exists>outs. modify_properties md_env 30 (md_changes k) [] (md_heap 0) = Some (md_heap k, replicate k 21, outs)"
proof (induction k)
  case (Suc k)
  then obtain outs where "modify_properties md_env 30 (md_changes k) [] (md_heap 0) = Some (md_heap k, replicate k 21, outs)"
    by auto
  with Suc.prems md_get [of k] md_set [of k "Suc k"] show ?case
    by (simp add: md_changes_simps modify_properties_append replicate_append_same)
qed (simp add: md_changes_simps)

theorem modify_node_overflows_witness:
  "modify_node md_env 30 \<lparr>na_browse_name = '''', na_display_name = '''', na_value = None\<rparr>
     (md_changes 50 @ [(21, 51)]) \<lparr>as_nodes = md_heap 0, as_own = []\<rparr> = None"
proof -
  let ?attrs = "\<lparr>na_browse_name = '''', na_display_name = '''', na_value = None\<rparr>"
  obtain outs where r: "modify_properties md_env 30 (md_changes 50) [] (md_heap 0) = Some (md_heap 50, replicate 50 21, outs)"
    using md_run [of 50] by (auto simp: max_changed_properties_def)
  obtain nd where nd: "md_heap 0 30 = Some nd" by (simp add: md_heap_def)
  have a: "modify_attributes md_env 30 ?attrs nd = Some (nd, [], [])"
    by (simp add: modify_attributes_def modify_browse_name_def modify_display_name_def modify_value_def)
  show ?thesis
    by (rule modify_node_overflows [OF _ a, where h = "md_heap 50" and pids = "replicate 50 21" and old = 50])
      (use r nd md_get [of 50] in \<open>simp_all add: max_changed_properties_def fun_upd_idem\<close>)
qed

end
