(* ===== verification/View_Service.thy ===== *)
theory View_Service
  imports Node_Walks
begin

text \<open>
  \<open>address_space/view_service_impl.cpp\<close>: browsing the node graph and following browse paths. Masks are words; the masks of a browse result are the fields of \<open>masks\<close>.
\<close>

record masks =
  mask_reference_type :: "32 word"
  mask_is_forward :: "32 word"
  mask_node_class :: "32 word"
  mask_browse_name :: "32 word"
  mask_display_name :: "32 word"
  mask_type_definition :: "32 word"
  class_bit :: "node_class \<Rightarrow> 32 word"

text \<open>A reference description; a field that was not asked for is at its default.\<close>

record 'n browse_reference =
  br_type :: 'n
  br_forward :: bool
  br_node :: 'n
  br_class :: "node_class option"
  br_browse_name :: string
  br_display_name :: string
  br_type_definition :: 'n

section \<open>Browsing a node\<close>

definition matches_node_class :: "masks \<Rightarrow> 'n browse_input \<Rightarrow> node_class \<Rightarrow> bool" where
  "matches_node_class M d c \<longleftrightarrow> bi_node_class_mask d = 0 \<or> and (bi_node_class_mask d) (class_bit M c) \<noteq> 0"

definition make_reference ::
    "('n, 'v, 'q, 't, 'y) as_env \<Rightarrow> masks \<Rightarrow> 'n browse_input \<Rightarrow> bool \<Rightarrow> 'n ref \<Rightarrow> ('n, 'v, 'q, 't, 'y) anode \<Rightarrow>
     'n browse_reference option" where
  "make_reference E M d forward ref nd = (let asked = (\<lambda>m. and (bi_result_mask d) m \<noteq> 0); null = ua_null (ae_ua E) in do {
     name \<leftarrow> (if asked (mask_browse_name M) then node_browse_name E (snd ref) nd else Some '''');
     title \<leftarrow> (if asked (mask_display_name M) then node_display_name E (snd ref) nd else Some '''');
     Some \<lparr>br_type = (if asked (mask_reference_type M) then fst ref else null),
       br_forward = (if asked (mask_is_forward M) then forward else False),
       br_node = snd ref,
       br_class = (if asked (mask_node_class M) then Some (an_class nd) else None),
       br_browse_name = name, br_display_name = title,
       br_type_definition = (if asked (mask_type_definition M) then id_or_null (ae_ua E) (an_type_definition nd) else null)\<rparr>
   })"

fun browse_references ::
    "('n, 'v, 'q, 't, 'y) as_env \<Rightarrow> masks \<Rightarrow> ('n, 'v, 'q, 't, 'y) heap \<Rightarrow> 'n browse_input \<Rightarrow> bool \<Rightarrow> 'n ref list \<Rightarrow>
     'n browse_reference list option" where
  "browse_references E M h d forward [] = Some []"
| "browse_references E M h d forward (ref # refs) = do {
     b \<leftarrow> is_ref_subtype_of h (bi_reference_type_id d) (bi_include_subtypes d) ref;
     here \<leftarrow> (if b then do {
                nd \<leftarrow> h (snd ref);
                if matches_node_class M d (an_class nd)
                then map_option (\<lambda>x. [x]) (make_reference E M d forward ref nd) else Some []
              } else Some []);
     rest \<leftarrow> browse_references E M h d forward refs;
     Some (here @ rest)
   }"

definition browse_node ::
    "('n, 'v, 'q, 't, 'y) as_env \<Rightarrow> masks \<Rightarrow> ('n, 'v, 'q, 't, 'y) heap \<Rightarrow> 'n \<Rightarrow> 'n browse_input \<Rightarrow>
     (status \<times> 'n browse_reference list) option" where
  "browse_node E M h n d = do {
     nd \<leftarrow> h n;
     fs \<leftarrow> (if bi_direction d \<in> {Forward, Both} then browse_references E M h d True (an_forward nd) else Some []);
     is \<leftarrow> (if bi_direction d \<in> {Inverse, Both} then browse_references E M h d False (an_inverse nd) else Some []);
     Some (Good, fs @ is)
   }"

text \<open>A property that has no node of its own: its type definition and its parent.\<close>

definition plain_reference :: "'n ua \<Rightarrow> 'n \<Rightarrow> bool \<Rightarrow> 'n \<Rightarrow> node_class \<Rightarrow> 'n browse_reference" where
  "plain_reference U ty forward n c =
     \<lparr>br_type = ty, br_forward = forward, br_node = n, br_class = Some c, br_browse_name = '''', br_display_name = '''',
      br_type_definition = ua_null U\<rparr>"

definition browse_property ::
    "('n, 'v, 'q, 't, 'y) as_env \<Rightarrow> ('n, 'v, 'q, 't, 'y) heap \<Rightarrow> 'n \<Rightarrow> string \<Rightarrow> 'n browse_input \<Rightarrow>
     (status \<times> 'n browse_reference list) option" where
  "browse_property E h n nested_name d = (let U = ae_ua E in
     if \<not> bi_include_subtypes d then Some (Bad, [])
     else do {
       nd \<leftarrow> h n;
       decl \<leftarrow> (case an_type_definition nd of None \<Rightarrow> Some None | Some t \<Rightarrow> find_child_declaration E h t nested_name);
       var \<leftarrow> (case decl of None \<Rightarrow> Some False | Some p \<Rightarrow> is_variable h p);
       if \<not> var then Some (BadWrongNodeId, [])
       else do {
         f \<leftarrow> (if bi_direction d \<in> {Forward, Both}
              then is_subtype_of_id h (has_type_definition U) (bi_reference_type_id d) else Some False);
         i \<leftarrow> (if bi_direction d \<in> {Inverse, Both}
              then is_subtype_of_id h (has_property U) (bi_reference_type_id d) else Some False);
         Some (Good, (if f then [plain_reference U (has_type_definition U) True (property_type U) VariableTypeClass] else [])
                   @ (if i then [plain_reference U (has_property U) False n (an_class nd)] else []))
       }
     })"

definition browse_one ::
    "'n nid_lib \<Rightarrow> ('n, 'v, 'q, 't, 'y) as_env \<Rightarrow> masks \<Rightarrow> ('n, 'v, 'q, 't, 'y) heap \<Rightarrow> 'n browse_input \<Rightarrow>
     (status \<times> 'n browse_reference list) option" where
  "browse_one L E M h d = do {
     (node, nested_name) \<leftarrow> get_nested_node L E h (bi_node_id d);
     (case node of
        None \<Rightarrow> Some (BadWrongNodeId, [])
      | Some n \<Rightarrow> if nested_name = '''' then browse_node E M h n d else browse_property E h n nested_name d)
   }"

fun browse ::
    "'n nid_lib \<Rightarrow> ('n, 'v, 'q, 't, 'y) as_env \<Rightarrow> masks \<Rightarrow> ('n, 'v, 'q, 't, 'y) heap \<Rightarrow> 'n browse_input list \<Rightarrow>
     (status \<times> 'n browse_reference list) list option" where
  "browse L E M h [] = Some []"
| "browse L E M h (d # ds) = do {
     r \<leftarrow> browse_one L E M h d;
     rs \<leftarrow> browse L E M h ds;
     Some (r # rs)
   }"

section \<open>Browse paths\<close>

record 'n path_element =
  pe_reference_type_id :: 'n
  pe_inverse :: bool
  pe_include_subtypes :: bool
  pe_target_name :: string

fun path_step_in ::
    "('n, 'v, 'q, 't, 'y) as_env \<Rightarrow> ('n, 'v, 'q, 't, 'y) heap \<Rightarrow> 'n path_element \<Rightarrow> 'n ref list \<Rightarrow> 'n option option" where
  "path_step_in E h e [] = Some None"
| "path_step_in E h e (ref # refs) = do {
     b \<leftarrow> is_ref_subtype_of h (pe_reference_type_id e) (pe_include_subtypes e) ref;
     if b then do {
       nd \<leftarrow> h (snd ref);
       nm \<leftarrow> node_browse_name E (snd ref) nd;
       if nm = pe_target_name e then Some (Some (snd ref)) else path_step_in E h e refs
     } else path_step_in E h e refs
   }"

definition path_step ::
    "('n, 'v, 'q, 't, 'y) as_env \<Rightarrow> ('n, 'v, 'q, 't, 'y) heap \<Rightarrow> 'n \<Rightarrow> 'n path_element \<Rightarrow> 'n option option" where
  "path_step E h n e = h n \<bind> (\<lambda>nd. path_step_in E h e (if pe_inverse e then an_inverse nd else an_forward nd))"

text \<open>The loop over the other elements: the last node that was reached and how many elements led there.\<close>

fun follow_path ::
    "('n, 'v, 'q, 't, 'y) as_env \<Rightarrow> ('n, 'v, 'q, 't, 'y) heap \<Rightarrow> 'n \<Rightarrow> nat \<Rightarrow> 'n path_element list \<Rightarrow> ('n \<times> nat) option" where
  "follow_path E h n i [] = Some (n, i)"
| "follow_path E h n i (e # es) = do {
     next \<leftarrow> path_step E h n e;
     (case next of None \<Rightarrow> Some (n, i) | Some m \<Rightarrow> follow_path E h m (Suc i) es)
   }"

definition translate_path ::
    "('n, 'v, 'q, 't, 'y) as_env \<Rightarrow> ('n, 'v, 'q, 't, 'y) heap \<Rightarrow> 'n \<Rightarrow> 'n path_element list \<Rightarrow>
     (status \<times> ('n \<times> nat) list) option" where
  "translate_path E h n path =
     (case path of
        [] \<Rightarrow> Some (BadNothingToDo, [])
      | e # es \<Rightarrow> do {
          first \<leftarrow> path_step E h n e;
          (case first of
             None \<Rightarrow> Some (BadBrowseNameInvalid, [])
           | Some m \<Rightarrow> map_option (\<lambda>r. (Good, [r])) (follow_path E h m 1 es))
        })"

definition translate_browse_path ::
    "('n, 'v, 'q, 't, 'y) as_env \<Rightarrow> ('n, 'v, 'q, 't, 'y) heap \<Rightarrow> 'n \<Rightarrow> 'n path_element list \<Rightarrow>
     (status \<times> ('n \<times> nat) list) option" where
  "translate_browse_path E h n path = (if h n = None then Some (BadWrongNodeId, []) else translate_path E h n path)"

end
