(* ===== verification/View_Claims.thy ===== *)
theory View_Claims
  imports View_Service Address_Space_Claims
begin

text \<open>
  What the readers of the node graph see: the list of all nodes, browsing from both ends of a reference, and which
  references the exported states of the nodes hold.
\<close>

section \<open>All nodes\<close>

definition links :: "('n, 'v, 'q, 't, 'y) heap \<Rightarrow> ('n \<times> 'n) set" where
  "links h = {(a, b). \<exists>ty. (ty, b) \<in> set (fw h a) \<union> set (iv h a)}"

text \<open>The nodes that a run over references queues.\<close>

lemma visit_pair: "visit ref (seen, queue) = (if snd ref \<in> seen then (seen, queue) else (insert (snd ref) seen, queue @ [snd ref]))"
  by (simp add: visit_def)

lemma fold_visit:
  "\<exists>new. fold visit refs (seen, queue) = (seen \<union> set new, queue @ new) \<and> distinct new \<and> set new = snd ` set refs - seen"
proof (induction refs arbitrary: seen queue)
  case (Cons ref refs)
  show ?case
  proof (cases "snd ref \<in> seen")
    case True
    with Cons [of seen queue] show ?thesis by (auto simp: visit_pair)
  next
    case False
    from Cons [of "insert (snd ref) seen" "queue @ [snd ref]"] obtain new where
      "fold visit refs (insert (snd ref) seen, queue @ [snd ref]) = (insert (snd ref) seen \<union> set new, (queue @ [snd ref]) @ new)"
      "distinct new" "set new = snd ` set refs - insert (snd ref) seen" by blast
    with False show ?thesis by (intro exI [of _ "snd ref # new"]) (auto simp: visit_pair)
  qed
qed (rule exI [of _ "[]"], simp)

lemma links_image: "snd ` (set (fw h n) \<union> set (iv h n)) = links h `` {n}"
  by (force simp: links_def)

lemma visit_all_step:
  assumes "h n \<noteq> None"
  shows "\<exists>new. visit_all h (n # rest) seen result = visit_all h (rest @ new) (seen \<union> set new) (result @ [n])
    \<and> distinct new \<and> set new = links h `` {n} - seen"
proof -
  obtain nd where nd: "h n = Some nd" using assms by blast
  note v = view_Some(1,2) [where h = h, OF nd]
  obtain new1 where 1: "fold visit (fw h n) (seen, rest) = (seen \<union> set new1, rest @ new1)" "distinct new1"
    "set new1 = snd ` set (fw h n) - seen"
    using fold_visit by metis
  obtain new2 where 2: "fold visit (iv h n) (seen \<union> set new1, rest @ new1) = ((seen \<union> set new1) \<union> set new2, (rest @ new1) @ new2)"
    "distinct new2" "set new2 = snd ` set (iv h n) - (seen \<union> set new1)"
    using fold_visit by metis
  have "visit_all h (n # rest) seen result = visit_all h (rest @ new1 @ new2) (seen \<union> set (new1 @ new2)) (result @ [n])"
    by (subst visit_all.simps) (simp add: nd v 1(1) 2(1) Un_assoc)
  moreover have "distinct (new1 @ new2)" using 1 2 by auto
  moreover have "set (new1 @ new2) = links h `` {n} - seen" unfolding links_image [symmetric] using 1 2 by auto
  ultimately show ?thesis by blast
qed

lemma links_in_heap: "graph_ok U h \<Longrightarrow> (a, b) \<in> links h \<Longrightarrow> h b \<noteq> None"
  by (auto simp: links_def dest: reference_ends)

lemma visit_all_run:
  assumes g: "graph_ok U h" and fin: "finite (dom h)" and "set queue \<subseteq> dom h"
  shows "\<exists>order. visit_all h queue seen result = Some (result @ queue @ order) \<and> distinct order \<and> set order \<inter> seen = {}
    \<and> links h `` (set queue \<union> set order) \<subseteq> seen \<union> set order \<and> set order \<subseteq> (links h)\<^sup>+ `` set queue"
  using assms(3)
proof (induction "card (dom h - seen) + length queue" arbitrary: queue seen result rule: less_induct)
  case less
  show ?case
  proof (cases queue)
    case Nil
    then show ?thesis by (subst visit_all.simps) simp
  next
    case (Cons n rest)
    then have "h n \<noteq> None" using less.prems by auto
    from visit_all_step [of h n rest seen result, OF this] obtain new where
      eq: "visit_all h queue seen result = visit_all h (rest @ new) (seen \<union> set new) (result @ [n])"
      and new: "distinct new" "set new = links h `` {n} - seen"
      using Cons by metis
    have sub: "set new \<subseteq> dom h - seen" using new links_in_heap [OF g] by auto
    have "card (dom h - (seen \<union> set new)) = card (dom h - seen) - length new"
    proof -
      have "dom h - (seen \<union> set new) = (dom h - seen) - set new" by blast
      with sub card_Diff_subset [of "set new" "dom h - seen"] show ?thesis by (simp add: distinct_card new(1))
    qed
    moreover have "length new \<le> card (dom h - seen)"
      using card_mono [OF _ sub] fin by (simp add: distinct_card new(1))
    ultimately have "card (dom h - (seen \<union> set new)) + length (rest @ new) < card (dom h - seen) + length queue"
      using Cons by simp
    moreover have "set (rest @ new) \<subseteq> dom h" using less.prems sub Cons by auto
    ultimately obtain order where o: "visit_all h (rest @ new) (seen \<union> set new) (result @ [n]) =
        Some ((result @ [n]) @ (rest @ new) @ order)" "distinct order" "set order \<inter> (seen \<union> set new) = {}"
      "links h `` (set (rest @ new) \<union> set order) \<subseteq> seen \<union> set new \<union> set order"
      "set order \<subseteq> (links h)\<^sup>+ `` set (rest @ new)"
      using less.hyps by meson
    have n: "links h `` {n} \<subseteq> seen \<union> set new" using new by auto
    have "visit_all h queue seen result = Some (result @ queue @ new @ order)" using eq o(1) Cons by simp
    moreover have "distinct (new @ order)" "set (new @ order) \<inter> seen = {}" using new o by auto
    moreover have "links h `` (set queue \<union> set (new @ order)) \<subseteq> seen \<union> set (new @ order)" using o(4) n Cons by auto
    moreover have "set (new @ order) \<subseteq> (links h)\<^sup>+ `` set queue"
    proof -
      have "set new \<subseteq> (links h)\<^sup>+ `` set queue" using new Cons by auto
      moreover have "(links h)\<^sup>+ `` set (rest @ new) \<subseteq> (links h)\<^sup>+ `` set queue"
      proof
        fix x assume "x \<in> (links h)\<^sup>+ `` set (rest @ new)"
        then obtain y where y: "y \<in> set rest \<union> set new" "(y, x) \<in> (links h)\<^sup>+" by auto
        show "x \<in> (links h)\<^sup>+ `` set queue"
        proof (cases "y \<in> set rest")
          case False
          with y new have "(n, x) \<in> (links h)\<^sup>+" by (auto intro: trancl_into_trancl2)
          with Cons show ?thesis by auto
        qed (use y Cons in auto)
      qed
      ultimately show ?thesis using o(5) by auto
    qed
    ultimately show ?thesis by blast
  qed
qed

text \<open>C35: The walk over all nodes ends and gives every node that is connected with the root, each once, except the root: it
  stands at the front and, as soon as it has a reference at all, a second time behind it.\<close>

theorem get_all_nodes_correct:
  assumes "graph_ok U h" "finite (dom h)" "h (root_folder U) \<noteq> None"
  shows "\<exists>order. get_all_nodes U h = Some (root_folder U # order) \<and> distinct order
    \<and> set order = (links h)\<^sup>+ `` {root_folder U}
    \<and> (root_folder U \<in> set order \<longleftrightarrow> fw h (root_folder U) \<noteq> [] \<or> iv h (root_folder U) \<noteq> [])"
proof -
  let ?r = "root_folder U"
  from visit_all_run [OF assms(1,2), of "[?r]" "{}" "[]"] obtain order where
    o: "visit_all h [?r] {} [] = Some (?r # order)" "distinct order" "links h `` ({?r} \<union> set order) \<subseteq> set order"
      "set order \<subseteq> (links h)\<^sup>+ `` {?r}"
    using assms(3) by auto
  have "x \<in> set order" if "(?r, x) \<in> (links h)\<^sup>+" for x
    using that o(3) by (induction rule: trancl_induct) auto
  then have set: "set order = (links h)\<^sup>+ `` {?r}" using o(4) by auto
  have sym: "(b, a) \<in> links h" if "(a, b) \<in> links h" for a b
    using that graph_okD(1) [OF assms(1)] by (auto simp: links_def)
  have "?r \<in> set order \<longleftrightarrow> fw h ?r \<noteq> [] \<or> iv h ?r \<noteq> []"
  proof
    assume "?r \<in> set order"
    then obtain b where "(?r, b) \<in> links h" unfolding set by (meson Image_singleton_iff tranclD)
    then show "fw h ?r \<noteq> [] \<or> iv h ?r \<noteq> []" by (auto simp: links_def)
  next
    assume "fw h ?r \<noteq> [] \<or> iv h ?r \<noteq> []"
    then obtain ref where "ref \<in> set (fw h ?r) \<union> set (iv h ?r)" by (metis UnCI last_in_set)
    then have "(?r, snd ref) \<in> links h" unfolding links_def by (cases ref) auto
    with sym [OF this] show "?r \<in> set order" unfolding set by (auto intro: trancl_into_trancl)
  qed
  then show ?thesis using assms(3) o set by (auto simp: get_all_nodes_def)
qed

section \<open>Both ends of a reference\<close>

lemma browse_references_elem:
  assumes "browse_references E M h d forward refs = Some rs" "bi_node_class_mask d = 0"
    "and (bi_result_mask d) (mask_reference_type M) \<noteq> 0"
  shows "(\<exists>r \<in> set rs. br_node r = m \<and> br_type r = ty)
    \<longleftrightarrow> (ty, m) \<in> set refs \<and> is_ref_subtype_of h (bi_reference_type_id d) (bi_include_subtypes d) (ty, m) = Some True"
  using assms(1)
proof (induction refs arbitrary: rs)
  case (Cons ref refs)
  from Cons.prems obtain b "here" rest where b: "is_ref_subtype_of h (bi_reference_type_id d) (bi_include_subtypes d) ref = Some b"
    and here: "(if b then h (snd ref) \<bind> (\<lambda>nd. if matches_node_class M d (an_class nd)
                  then map_option (\<lambda>x. [x]) (make_reference E M d forward ref nd) else Some []) else Some []) = Some here"
    and rest: "browse_references E M h d forward refs = Some rest" and rs: "rs = here @ rest"
    by (auto simp: bind_eq_Some_conv)
  have "(\<exists>r \<in> set here. br_node r = m \<and> br_type r = ty) \<longleftrightarrow> b \<and> ref = (ty, m)"
    using here assms(2,3)
    by (cases ref) (auto simp: bind_eq_Some_conv matches_node_class_def make_reference_def Let_def split: if_splits)
  with Cons.IH [OF rest] b show ?case by (auto simp: rs bex_Un)
qed simp

text \<open>C36: A client that browses from either end of a reference sees it at the other end too: browsing one node forward gives a
  reference of a type to another node exactly when browsing that node inversely gives the reference back.\<close>

theorem browse_symmetric:
  assumes g: "graph_ok (ae_ua E) h"
    and mask: "bi_node_class_mask d = 0" "and (bi_result_mask d) (mask_reference_type M) \<noteq> 0"
    and f: "browse_node E M h a (d\<lparr>bi_direction := Forward\<rparr>) = Some (s1, rs)"
    and i: "browse_node E M h b (d\<lparr>bi_direction := Inverse\<rparr>) = Some (s2, rs')"
  shows "(\<exists>r \<in> set rs. br_node r = b \<and> br_type r = ty) \<longleftrightarrow> (\<exists>r \<in> set rs'. br_node r = a \<and> br_type r = ty)"
proof -
  have 1: "browse_references E M h (d\<lparr>bi_direction := Forward\<rparr>) True (fw h a) = Some rs"
    using f by (auto simp: browse_node_def bind_eq_Some_conv fw_def)
  have 2: "browse_references E M h (d\<lparr>bi_direction := Inverse\<rparr>) False (iv h b) = Some rs'"
    using i by (auto simp: browse_node_def bind_eq_Some_conv iv_def)
  show ?thesis
    using browse_references_elem [OF 1, of b ty] browse_references_elem [OF 2, of a ty] mask graph_okD(1) [OF g, of ty b a]
    by (auto simp: is_ref_subtype_of_def)
qed

section \<open>Exported references\<close>

lemma export_references_decided:
  "export_references U h n refs = Some rs \<Longrightarrow> ref \<in> set refs \<Longrightarrow> \<exists>b. exports_reference U h n ref = Some b"
  by (induction refs arbitrary: rs) (auto simp: bind_eq_Some_conv)

lemma export_references_elem:
  assumes "export_references U h n refs = Some rs" "(ty, t) \<in> set refs" "exports_reference U h n (ty, t) = Some True"
  shows "\<exists>r \<in> set rs. er_type r = ty \<and> er_node r = t"
  using assms
proof (induction refs arbitrary: rs)
  case (Cons ref refs)
  from Cons.prems obtain b "here" rest where b: "exports_reference U h n ref = Some b"
    and here: "(if b then map_option (\<lambda>nd. [\<lparr>er_type = fst ref, er_node = snd ref, er_node_class = an_class nd\<rparr>]) (h (snd ref))
             else Some []) = Some here"
    and rest: "export_references U h n refs = Some rest" and rs: "rs = here @ rest"
    by (auto simp: bind_eq_Some_conv)
  show ?case
  proof (cases "ref = (ty, t)")
    case True
    with b here Cons.prems(3) have "\<exists>r \<in> set here. er_type r = ty \<and> er_node r = t" by auto
    then show ?thesis by (auto simp: rs)
  next
    case False
    with Cons.prems(2) have "(ty, t) \<in> set refs" by auto
    from Cons.IH [OF rest this Cons.prems(3)] show ?thesis by (auto simp: rs)
  qed
qed simp

text \<open>C37: No hierarchical and no non-hierarchical reference is lost when the states of all nodes are exported: it is in the
  references of its source, or the parent of its target's state, or the supertype of its target's state.\<close>

theorem make_node_state_complete:
  assumes g: "graph_ok (ae_ua E) h"
    and a: "make_node_state E h a = Some xa" and b: "make_node_state E h b = Some xb"
    and ref: "(ty, b) \<in> set (fw h a)"
    and kind: "is_subtype_of h ty (hierarchical_references (ae_ua E)) = Some True \<or> is_subtype_of h ty (non_hierarchical_references (ae_ua E)) = Some True"
    and types: "ty = has_subtype (ae_ua E) \<longrightarrow> type_node h b"
  shows "(\<exists>r \<in> set (xs_references xa). er_type r = ty \<and> er_node r = b)
    \<or> (xs_parent_id xb = a \<and> xs_reference_type_id xb = ty)
    \<or> (ty = has_subtype (ae_ua E) \<and> xs_supertype_id xb = a)"
proof -
  let ?U = "ae_ua E"
  obtain refs where refs: "export_references ?U h a (fw h a) = Some refs" and xa: "xs_references xa = refs"
    using a by (auto simp: make_node_state_def Let_def bind_eq_Some_conv fw_def)
  obtain parent nb where parent: "get_parent_reference ?U h b = Some parent" and nb: "h b = Some nb"
    and xb: "xs_parent_id xb = id_or_null ?U (map_option snd parent)" "xs_reference_type_id xb = id_or_null ?U (map_option fst parent)"
      "xs_supertype_id xb = get_supertype_id ?U nb"
    using b by (auto simp: make_node_state_def Let_def bind_eq_Some_conv)
  note v = view_Some [where h = h, OF nb]
  show ?thesis
  proof (cases "ty = has_subtype ?U")
    case True
    then have "st h b = Some a" using graph_okD(5) [OF g, of b a] types ref graph_okD(1) [OF g, of ty b a] by simp
    with True types v xb show ?thesis by (simp add: get_supertype_id_def id_or_null_def)
  next
    case False
    show ?thesis
    proof (cases "parent = Some (ty, a)")
      case True
      with xb show ?thesis by (simp add: id_or_null_def)
    next
      case no: False
      have "exports_reference ?U h a (ty, b) = Some True"
      proof -
        obtain non where non: "is_subtype_of h ty (non_hierarchical_references ?U) = Some non"
          using export_references_decided [OF refs ref] by (auto simp: exports_reference_def bind_eq_Some_conv)
        show ?thesis
        proof (cases non)
          case False
          with kind non have "is_subtype_of h ty (hierarchical_references ?U) = Some True" by simp
          with False non \<open>ty \<noteq> has_subtype ?U\<close> parent no show ?thesis by (cases parent) (auto simp: exports_reference_def)
        qed (simp add: exports_reference_def non)
      qed
      from export_references_elem [OF refs ref this] show ?thesis by (simp add: xa)
    qed
  qed
qed

section \<open>An instance\<close>

text \<open>The root with one child.\<close>

definition vw_env :: "(nat, nat, unit, nat, unit) as_env" where
  "vw_env = \<lparr>ae_ua = \<lparr>ua_null = 0, has_type_definition = 40, has_subtype = 45, has_property = 46, has_component = 47, aggregates = 44,
       has_modelling_rule = 37, optional_placeholder = 7, mandatory_placeholder = 8, hierarchical_references = 33,
       non_hierarchical_references = 32, property_type = 68, root_folder = 84\<rparr>,
     ae_scada_string = (\<lambda>_. ''''), ae_convert = (\<lambda>_ v. Some v), ae_is_update = (\<lambda>_ _. True), ae_null_variant = 0,
     ae_qualifier = (), ae_now = 1\<rparr>"

definition vw_node :: "node_class \<Rightarrow> string \<Rightarrow> nat ref list \<Rightarrow> nat ref list \<Rightarrow> nat option \<Rightarrow> (nat, nat, unit, nat, unit) anode" where
  "vw_node c name forward back super = \<lparr>an_class = c, an_browse_name = name, an_display_name = '''', an_forward = forward,
     an_inverse = back, an_type_definition = None, an_supertype = super, an_kind = Generic, an_value = plain_value vw_env 0,
     an_data_type = 0, an_inverse_name = ''''\<rparr>"

definition vw_heap :: "(nat, nat, unit, nat, unit) heap" where
  "vw_heap = [33 \<mapsto> vw_node ReferenceTypeClass ''HierarchicalReferences'' [(45, 35)] [] None,
     35 \<mapsto> vw_node ReferenceTypeClass ''Organizes'' [] [(45, 33)] (Some 33),
     84 \<mapsto> vw_node ObjectClass ''Root'' [(35, 1)] [] None, 1 \<mapsto> vw_node ObjectClass ''Site'' [] [(35, 84)] None]"

lemma vw_views:
  "fw vw_heap = (\<lambda>_. [])(33 := [(45, 35)], 84 := [(35, 1)])" "iv vw_heap = (\<lambda>_. [])(35 := [(45, 33)], 1 := [(35, 84)])"
  "td vw_heap = (\<lambda>_. None)" "st vw_heap = (\<lambda>_. None)(35 := Some 33)" "type_node vw_heap 35"
  by (auto simp: vw_heap_def vw_node_def node_views type_node_def is_type_def fun_eq_iff)

lemma vw_ok: "graph_ok (ae_ua vw_env) vw_heap"
  unfolding graph_ok_def vw_views using vw_views(5) by (auto simp: vw_env_def)

theorem get_all_nodes_correct_witness:
  "\<exists>order. get_all_nodes (ae_ua vw_env) vw_heap = Some (84 # order) \<and> distinct order \<and> set order = (links vw_heap)\<^sup>+ `` {84} \<and> 84 \<in> set order"
proof -
  have "finite (dom vw_heap)" "vw_heap 84 \<noteq> None" by (simp_all add: vw_heap_def)
  with get_all_nodes_correct [OF vw_ok] show ?thesis by (simp add: vw_env_def vw_views)
qed

definition vw_masks :: masks where
  "vw_masks = \<lparr>mask_reference_type = 1, mask_is_forward = 2, mask_node_class = 4, mask_browse_name = 8, mask_display_name = 16,
     mask_type_definition = 32, class_bit = (\<lambda>_. 1)\<rparr>"

definition vw_input :: "nat browse_input" where
  "vw_input = \<lparr>bi_node_id = 84, bi_direction = Forward, bi_reference_type_id = 33, bi_include_subtypes = True,
     bi_node_class_mask = 0, bi_result_mask = 1\<rparr>"

lemma vw_browse:
  "browse_node vw_env vw_masks vw_heap 84 (vw_input\<lparr>bi_direction := Forward\<rparr>) = Some (Good, [\<lparr>br_type = 35, br_forward = False,
     br_node = 1, br_class = None, br_browse_name = '''', br_display_name = '''', br_type_definition = 0\<rparr>])"
  "browse_node vw_env vw_masks vw_heap 1 (vw_input\<lparr>bi_direction := Inverse\<rparr>) = Some (Good, [\<lparr>br_type = 35, br_forward = False,
     br_node = 84, br_class = None, br_browse_name = '''', br_display_name = '''', br_type_definition = 0\<rparr>])"
  by (simp_all add: browse_node_def is_ref_subtype_of_def is_subtype_of.simps matches_node_class_def make_reference_def vw_heap_def
      vw_node_def vw_input_def vw_masks_def vw_env_def)

theorem browse_symmetric_witness:
  "\<exists>s rs. browse_node vw_env vw_masks vw_heap 1 (vw_input\<lparr>bi_direction := Inverse\<rparr>) = Some (s, rs) \<and> (\<exists>r \<in> set rs. br_node r = 84 \<and> br_type r = 35)"
  using browse_symmetric [OF vw_ok _ _ vw_browse, of 35] vw_browse(2) by (simp add: vw_input_def vw_masks_def)

lemma vw_states:
  "\<exists>xa xb. make_node_state vw_env vw_heap 84 = Some xa \<and> make_node_state vw_env vw_heap 1 = Some xb
     \<and> xs_parent_id xb = 84 \<and> xs_reference_type_id xb = 35"
  by (simp add: make_node_state_def Let_def get_properties_def is_subtype_of.simps exports_reference_def get_parent_reference_def
      find_node_reference_def node_browse_name_def node_display_name_def id_or_null_def is_variable_def vw_heap_def vw_node_def vw_env_def)

theorem make_node_state_complete_witness:
  "\<exists>xa xb. make_node_state vw_env vw_heap 84 = Some xa \<and> make_node_state vw_env vw_heap 1 = Some xb
     \<and> ((\<exists>r \<in> set (xs_references xa). er_type r = 35 \<and> er_node r = 1) \<or> (xs_parent_id xb = 84 \<and> xs_reference_type_id xb = 35))"
proof -
  obtain xa xb where x: "make_node_state vw_env vw_heap 84 = Some xa" "make_node_state vw_env vw_heap 1 = Some xb" using vw_states by blast
  have "is_subtype_of vw_heap 35 33 = Some True" by (simp add: is_subtype_of.simps vw_heap_def vw_node_def)
  with make_node_state_complete [OF vw_ok x, of 35] x show ?thesis by (simp add: vw_views vw_env_def)
qed

end
