(* ===== verification/Attribute_Service.thy ===== *)
theory Attribute_Service
  imports Node_Walks
begin

text \<open>
  \<open>address_space/attribute_service_impl.cpp\<close>: reading the attributes of a node. Making a variant of an attribute, and
  the roles and permissions of the caller, are the fields of \<open>read_env\<close>; a result is an answer value or an
  error status.
\<close>

record ('n, 'v, 'q, 't, 'p) read_env =
  re_of_class :: "node_class \<Rightarrow> 'v"
  re_of_name :: "string \<Rightarrow> 'v"
  re_of_title :: "string \<Rightarrow> 'v"
  re_of_node_id :: "'n \<Rightarrow> 'v"
  re_of_bool :: "bool \<Rightarrow> 'v"
  re_of_int32 :: "int \<Rightarrow> 'v"
  re_of_uint8 :: "8 word \<Rightarrow> 'v"
  re_of_zero_double :: 'v
  re_of_permissions :: "'p \<Rightarrow> 'v"
  re_current_read :: "8 word"
  re_read_result :: "'v \<Rightarrow> ('v, 'q, 't) data_value"      \<comment> \<open>\<open>MakeReadResult\<close>\<close>
  re_role_permissions :: "'n \<Rightarrow> 'p option"              \<comment> \<open>the override of a node\<close>
  re_default_permissions :: 'p

text \<open>The service context: what the caller may do.\<close>

record 'p caller =
  cl_permissions :: 'p                                  \<comment> \<open>\<open>UserRolePermissions\<close>\<close>
  cl_permissions_from :: "'p \<Rightarrow> 'p"                    \<comment> \<open>\<open>UserRolePermissionsFrom\<close>\<close>
  cl_user_access_level :: "8 word \<Rightarrow> 8 word"
  cl_may_read_permissions :: bool
  cl_may_call :: bool

type_synonym ('v, 'q, 't) read_answer = "status + ('v, 'q, 't) data_value"

section \<open>The attributes of each class\<close>

definition read_variable ::
    "('n, 'v, 'q, 't, 'y) as_env \<Rightarrow> ('n, 'v, 'q, 't, 'p) read_env \<Rightarrow> 'p caller \<Rightarrow> ('n, 'v, 'q, 't, 'y) anode \<Rightarrow>
     attribute_id \<Rightarrow> ('v, 'q, 't) data_value option" where
  "read_variable E R c nd a =
     (case a of
        DataType \<Rightarrow> Some (re_read_result R (re_of_node_id R (an_data_type nd)))
      | ValueAttr \<Rightarrow> Some (get_value E nd)
      | ValueRank \<Rightarrow> Some (re_read_result R (re_of_int32 R (-1)))
      | AccessLevel \<Rightarrow> Some (re_read_result R (re_of_uint8 R (re_current_read R)))
      | UserAccessLevel \<Rightarrow> Some (re_read_result R (re_of_uint8 R (cl_user_access_level c (re_current_read R))))
      | Historizing \<Rightarrow> Some (re_read_result R (re_of_bool R False))
      | MinimumSamplingInterval \<Rightarrow> Some (re_read_result R (re_of_zero_double R))
      | _ \<Rightarrow> None)"

definition read_variable_type ::
    "('n, 'v, 'q, 't, 'p) read_env \<Rightarrow> ('n, 'v, 'q, 't, 'y) anode \<Rightarrow> attribute_id \<Rightarrow> ('v, 'q, 't) data_value option" where
  "read_variable_type R nd a =
     (case a of
        DataType \<Rightarrow> Some (re_read_result R (re_of_node_id R (an_data_type nd)))
      | ValueAttr \<Rightarrow> Some (re_read_result R (dv_value (an_value nd)))
      | _ \<Rightarrow> None)"

definition read_reference_type ::
    "('n, 'v, 'q, 't, 'p) read_env \<Rightarrow> ('n, 'v, 'q, 't, 'y) anode \<Rightarrow> attribute_id \<Rightarrow> ('v, 'q, 't) data_value option" where
  "read_reference_type R nd a =
     (if a = InverseName \<and> an_inverse_name nd \<noteq> '''' then Some (re_read_result R (re_of_title R (an_inverse_name nd))) else None)"

definition read_method ::
    "('n, 'v, 'q, 't, 'p) read_env \<Rightarrow> 'p caller \<Rightarrow> attribute_id \<Rightarrow> ('v, 'q, 't) data_value option" where
  "read_method R c a =
     (case a of
        Executable \<Rightarrow> Some (re_read_result R (re_of_bool R True))
      | UserExecutable \<Rightarrow> Some (re_read_result R (re_of_bool R (cl_may_call c)))
      | _ \<Rightarrow> None)"

definition read_of_class ::
    "('n, 'v, 'q, 't, 'y) as_env \<Rightarrow> ('n, 'v, 'q, 't, 'p) read_env \<Rightarrow> 'p caller \<Rightarrow> ('n, 'v, 'q, 't, 'y) anode \<Rightarrow>
     attribute_id \<Rightarrow> ('v, 'q, 't) read_answer" where
  "read_of_class E R c nd a =
     (case (case an_class nd of
              VariableClass \<Rightarrow> read_variable E R c nd a
            | VariableTypeClass \<Rightarrow> read_variable_type R nd a
            | ReferenceTypeClass \<Rightarrow> read_reference_type R nd a
            | MethodClass \<Rightarrow> read_method R c a
            | _ \<Rightarrow> None)
      of Some v \<Rightarrow> Inr v | None \<Rightarrow> Inl BadWrongAttributeId)"

section \<open>Reading\<close>

definition read_node ::
    "('n, 'v, 'q, 't, 'y) as_env \<Rightarrow> ('n, 'v, 'q, 't, 'p) read_env \<Rightarrow> 'p caller \<Rightarrow> 'n \<Rightarrow> ('n, 'v, 'q, 't, 'y) anode \<Rightarrow>
     attribute_id \<Rightarrow> ('v, 'q, 't) read_answer option" where
  "read_node E R c n nd a =
     (case a of
        NodeClassAttr \<Rightarrow> Some (Inr (re_read_result R (re_of_class R (an_class nd))))
      | BrowseName \<Rightarrow> do {
          name \<leftarrow> node_browse_name E n nd;
          check (name \<noteq> '''');
          Some (Inr (re_read_result R (re_of_name R name)))
        }
      | DisplayName \<Rightarrow> map_option (\<lambda>s. Inr (re_read_result R (re_of_title R s))) (node_display_name E n nd)
      | UserRolePermissions \<Rightarrow> Some (Inr (re_read_result R (re_of_permissions R
          (case re_role_permissions R n of Some p \<Rightarrow> cl_permissions_from c p | None \<Rightarrow> cl_permissions c))))
      | RolePermissions \<Rightarrow> Some (if \<not> cl_may_read_permissions c then Inl BadUserAccessDenied
          else Inr (re_read_result R (re_of_permissions R
            (case re_role_permissions R n of Some p \<Rightarrow> p | None \<Rightarrow> re_default_permissions R))))
      | _ \<Rightarrow> Some (read_of_class E R c nd a))"

definition read_one ::
    "'n nid_lib \<Rightarrow> ('n, 'v, 'q, 't, 'y) as_env \<Rightarrow> ('n, 'v, 'q, 't, 'p) read_env \<Rightarrow> ('n, 'v, 'q, 't, 'y) heap \<Rightarrow>
     'p caller \<Rightarrow> 'n \<times> attribute_id \<Rightarrow> ('v, 'q, 't) read_answer option" where
  "read_one L E R h c inp = do {
     (node, nested_name) \<leftarrow> get_nested_node L E h (fst inp);
     (case node of
        None \<Rightarrow> Some (Inl BadWrongNodeId)
      | Some n \<Rightarrow> if nested_name = '''' then h n \<bind> (\<lambda>nd. read_node E R c n nd (snd inp)) else Some (Inl BadWrongNodeId))
   }"

fun read_all ::
    "'n nid_lib \<Rightarrow> ('n, 'v, 'q, 't, 'y) as_env \<Rightarrow> ('n, 'v, 'q, 't, 'p) read_env \<Rightarrow> ('n, 'v, 'q, 't, 'y) heap \<Rightarrow>
     'p caller \<Rightarrow> ('n \<times> attribute_id) list \<Rightarrow> ('v, 'q, 't) read_answer list option" where
  "read_all L E R h c [] = Some []"
| "read_all L E R h c (x # xs) = do {
     r \<leftarrow> read_one L E R h c x;
     rs \<leftarrow> read_all L E R h c xs;
     Some (r # rs)
   }"

definition service_read where
  "service_read L E R h c inputs = do {
     results \<leftarrow> read_all L E R h c inputs;
     check (length results = length inputs);
     Some results
   }"

text \<open>No node can be written through this service.\<close>

definition write_all :: "'w list \<Rightarrow> status list" where
  "write_all inputs = replicate (length inputs) BadWrongNodeId"

end
