(* ===== verification/Node_Sort.thy ===== *)
theory Node_Sort
  imports Node_State "HOL-Library.Multiset"
begin

text \<open>
  \<open>common/node_state_util.cpp\<close>: sorting node states so that a node stands behind the nodes it refers to. The traversal
  marks a node, visits the nodes it refers to, and then puts out its index. The ids of the standard are parameters.
\<close>

record 'n sort_ids =
  si_null :: 'n
  si_has_subtype :: 'n
  si_has_type_definition :: 'n

section \<open>The graph\<close>

text \<open>The map from ids to indexes: the first node of an id counts.\<close>

fun index_of :: "('n, 'v, 'c) node_state list \<Rightarrow> 'n \<Rightarrow> nat option" where
  "index_of [] n = None"
| "index_of (s # ss) n = (if ns_node_id s = n then Some 0 else map_option Suc (index_of ss n))"

definition visit_helper :: "'n sort_ids \<Rightarrow> ('n, 'v, 'c) node_state list \<Rightarrow> 'n \<Rightarrow> nat list" where
  "visit_helper I nodes n =
     (if n = si_null I then [] else case index_of nodes n of None \<Rightarrow> [] | Some i \<Rightarrow> [i])"

definition visit_neighbors :: "'n sort_ids \<Rightarrow> ('n, 'v, 'c) node_state list \<Rightarrow> nat \<Rightarrow> nat list" where
  "visit_neighbors I nodes i = (let s = nodes ! i in
     (if ns_supertype_id s \<noteq> si_null I then visit_helper I nodes (si_has_subtype I) else [])
     @ (if ns_type_definition_id s \<noteq> si_null I then visit_helper I nodes (si_has_type_definition I) else [])
     @ visit_helper I nodes (ns_supertype_id s)
     @ visit_helper I nodes (ns_reference_type_id s)
     @ visit_helper I nodes (ns_parent_id s)
     @ visit_helper I nodes (ns_type_definition_id s)
     @ visit_helper I nodes (ns_data_type s))"

section \<open>The traversal\<close>

text \<open>\<open>VisitIndex\<close> for a list of indexes, with the marks and the indexes put out so far.\<close>

function visit_indexes :: "(nat \<Rightarrow> nat list) \<Rightarrow> nat list \<Rightarrow> bool list \<Rightarrow> nat list \<Rightarrow> bool list \<times> nat list" where
  "visit_indexes g [] visited sorted_indexes = (visited, sorted_indexes)"
| "visit_indexes g (i # is) visited sorted_indexes =
     (if length visited \<le> i \<or> visited ! i then visit_indexes g is visited sorted_indexes
      else let (visited', sorted') = visit_indexes g (g i) (visited[i := True]) sorted_indexes
           in visit_indexes g is visited' (sorted' @ [i]))"
  by pat_completeness auto

definition unmarked :: "bool list \<Rightarrow> nat set" where
  "unmarked visited = {i. i < length visited \<and> \<not> visited ! i}"

lemma finite_unmarked [simp]: "finite (unmarked visited)"
  by (simp add: unmarked_def)

lemma unmarked_update: "unmarked (visited[i := True]) = unmarked visited - {i}"
proof (rule set_eqI)
  show "j \<in> unmarked (visited[i := True]) \<longleftrightarrow> j \<in> unmarked visited - {i}" for j
    by (cases "i = j") (auto simp: unmarked_def nth_list_update)
qed

lemma unmarked_skip: "\<not> (length visited \<le> i \<or> visited ! i) \<Longrightarrow> i \<in> unmarked visited"
  by (simp add: unmarked_def)

lemma visit_indexes_marks:
  "visit_indexes_dom (g, is, visited, out) \<Longrightarrow>
     unmarked (fst (visit_indexes g is visited out)) \<subseteq> unmarked visited"
proof (induction g "is" visited out rule: visit_indexes.pinduct)
  case (1 g visited out)
  then show ?case by (simp add: visit_indexes.psimps)
next
  case (2 g i "is" visited out)
  show ?case
  proof (cases "length visited \<le> i \<or> visited ! i")
    case True
    with 2 show ?thesis by (simp add: visit_indexes.psimps)
  next
    case False
    obtain v o1 where v: "visit_indexes g (g i) (visited[i := True]) out = (v, o1)" by force
    have "unmarked v \<subseteq> unmarked visited - {i}" using "2.IH"(2) [OF False] by (simp add: v unmarked_update)
    moreover have "unmarked (fst (visit_indexes g is v (o1 @ [i]))) \<subseteq> unmarked v"
      by (rule "2.IH"(3) [OF False v [symmetric] refl])
    ultimately show ?thesis using False by (auto simp: visit_indexes.psimps(2) [OF "2.hyps"] v)
  qed
qed

termination visit_indexes
proof (relation "inv_image (finite_psubset <*lex*> less_than) (\<lambda>(g, is, visited, out). (unmarked visited, length is))")
  show "wf (inv_image (finite_psubset <*lex*> less_than)
    (\<lambda>(g :: nat \<Rightarrow> nat list, is :: nat list, visited, out :: nat list). (unmarked visited, length is)))" by auto
next
  fix g :: "nat \<Rightarrow> nat list" and i and "is" out :: "nat list" and visited :: "bool list"
  show "((g, is, visited, out), g, i # is, visited, out)
      \<in> inv_image (finite_psubset <*lex*> less_than) (\<lambda>(g, is, visited, out). (unmarked visited, length is))" by simp
next
  fix g :: "nat \<Rightarrow> nat list" and i and "is" out :: "nat list" and visited :: "bool list"
  assume no: "\<not> (length visited \<le> i \<or> visited ! i)"
  show "((g, g i, visited[i := True], out), g, i # is, visited, out)
      \<in> inv_image (finite_psubset <*lex*> less_than) (\<lambda>(g, is, visited, out). (unmarked visited, length is))"
    using unmarked_skip [OF no] by (auto simp: finite_psubset_def unmarked_update)
next
  fix g :: "nat \<Rightarrow> nat list" and i "is" and visited :: "bool list" and out x visited' sorted'
  assume no: "\<not> (length visited \<le> i \<or> visited ! i)"
    and x: "x = visit_indexes g (g i) (visited[i := True]) out" "(visited', sorted') = x"
    and dom: "visit_indexes_dom (g, g i, visited[i := True], out)"
  have "unmarked visited' \<subseteq> unmarked visited - {i}"
    using visit_indexes_marks [OF dom] x by (metis fst_conv unmarked_update)
  then show "((g, is, visited', sorted' @ [i]), g, i # is, visited, out)
      \<in> inv_image (finite_psubset <*lex*> less_than) (\<lambda>(g, is, visited, out). (unmarked visited, length is))"
    using unmarked_skip [OF no] by (auto simp: finite_psubset_def)
qed

text \<open>\<open>SortNodesHierarchically\<close>.\<close>

definition traverse :: "(nat \<Rightarrow> nat list) \<Rightarrow> nat \<Rightarrow> nat list" where
  "traverse g n = snd (visit_indexes g [0..<n] (replicate n False) [])"

definition sort_nodes ::
    "'n sort_ids \<Rightarrow> ('n, 'v, 'c) node_state list \<Rightarrow> ('n, 'v, 'c) node_state list option" where
  "sort_nodes I nodes =
     (if length nodes \<ge> 2
      then let order = traverse (visit_neighbors I nodes) (length nodes) in do {
        check (length order = length nodes);
        Some (List.map (\<lambda>i. nodes ! i) order)
      }
      else Some nodes)"

section \<open>What the traversal puts out\<close>

definition edges :: "(nat \<Rightarrow> nat list) \<Rightarrow> (nat \<times> nat) set" where
  "edges g = {(i, j). j \<in> set (g i)}"

text \<open>Each index stands behind its neighbours, but for those that lead back to it.\<close>

definition ordered :: "(nat \<Rightarrow> nat list) \<Rightarrow> nat list \<Rightarrow> bool" where
  "ordered g out \<longleftrightarrow> (\<forall>a i b. out = a @ i # b \<longrightarrow> (\<forall>j \<in> set (g i). j \<in> set a \<or> (j, i) \<in> (edges g)\<^sup>*))"

lemma ordered_snoc:
  assumes "ordered g out" "\<forall>j \<in> set (g i). j \<in> set out \<or> (j, i) \<in> (edges g)\<^sup>*"
  shows "ordered g (out @ [i])"
  unfolding ordered_def
proof (intro allI impI)
  fix a k b assume "out @ [i] = a @ k # b"
  then consider "b = []" "a = out" "k = i" | b' where "b = b' @ [i]" "out = a @ k # b'"
    by (cases b rule: rev_cases) auto
  then show "\<forall>j \<in> set (g k). j \<in> set a \<or> (j, k) \<in> (edges g)\<^sup>*"
    using assms by cases (auto simp: ordered_def)
qed

text \<open>The marked indexes that are not put out yet are those on the way to the current one.\<close>

definition pending :: "bool list \<Rightarrow> nat list \<Rightarrow> nat set" where
  "pending visited out = {i. i < length visited \<and> visited ! i} - set out"

lemma visit_indexes_correct:
  assumes "visit_indexes g is visited out = (visited', out')"
    and "\<And>i j. i < n \<Longrightarrow> j \<in> set (g i) \<Longrightarrow> j < n" "length visited = n" "set is \<subseteq> {..<n}"
    and "ordered g out" "distinct out" "set out \<subseteq> {i. i < n \<and> visited ! i}"
    and "\<And>p i. p \<in> pending visited out \<Longrightarrow> i \<in> set is \<Longrightarrow> (p, i) \<in> (edges g)\<^sup>*"
  shows "length visited' = n \<and> ordered g out' \<and> distinct out' \<and> set out' \<subseteq> {i. i < n \<and> visited' ! i}
    \<and> set out \<subseteq> set out' \<and> pending visited' out' = pending visited out
    \<and> (\<forall>i < n. visited ! i \<longrightarrow> visited' ! i) \<and> (\<forall>i \<in> set is. visited' ! i)"
  using assms
proof (induction g "is" visited out arbitrary: visited' out' rule: visit_indexes.induct)
  case (1 g visited out)
  then show ?case by simp
next
  case (2 g i "is" visited out)
  note wf = "2.prems"(2) and len = "2.prems"(3)
  have i: "i < n" using "2.prems"(4) by simp
  show ?case
  proof (cases "visited ! i")
    case True
    then have eq: "visit_indexes g is visited out = (visited', out')" using "2.prems"(1) by simp
    have "length visited' = n \<and> ordered g out' \<and> distinct out' \<and> set out' \<subseteq> {i. i < n \<and> visited' ! i}
      \<and> set out \<subseteq> set out' \<and> pending visited' out' = pending visited out
      \<and> (\<forall>i < n. visited ! i \<longrightarrow> visited' ! i) \<and> (\<forall>i \<in> set is. visited' ! i)"
      by (rule "2.IH"(1) [OF _ eq wf len]) (use True "2.prems" in auto)
    with True i show ?thesis by auto
  next
    case False
    then have no: "\<not> (length visited \<le> i \<or> visited ! i)" using i len by simp
    obtain v1 o1 where 1: "visit_indexes g (g i) (visited[i := True]) out = (v1, o1)" by force
    have 2: "visit_indexes g is v1 (o1 @ [i]) = (visited', out')" using "2.prems"(1) no 1 by simp
    have notout: "i \<notin> set out" using "2.prems"(7) False by auto
    have pend: "pending (visited[i := True]) out = insert i (pending visited out)"
      using i len notout by (auto simp: pending_def nth_list_update)
    have A: "length v1 = n \<and> ordered g o1 \<and> distinct o1 \<and> set o1 \<subseteq> {i. i < n \<and> v1 ! i}
      \<and> set out \<subseteq> set o1 \<and> pending v1 o1 = pending (visited[i := True]) out
      \<and> (\<forall>k < n. visited[i := True] ! k \<longrightarrow> v1 ! k) \<and> (\<forall>k \<in> set (g i). v1 ! k)"
    proof (rule "2.IH"(2) [OF no 1 wf])
      show "set (g i) \<subseteq> {..<n}" using wf i by auto
      fix p k assume p: "p \<in> pending (visited[i := True]) out" and k: "k \<in> set (g i)"
      have "(i, k) \<in> edges g" using k by (simp add: edges_def)
      moreover have "(p, i) \<in> (edges g)\<^sup>*" using p "2.prems"(8) [of p i] by (auto simp: pend)
      ultimately show "(p, k) \<in> (edges g)\<^sup>*" by simp
    qed (use "2.prems" i in \<open>auto simp: nth_list_update\<close>)
    then have pend1: "pending v1 o1 = insert i (pending visited out)" by (simp add: pend)
    have "i \<notin> set o1" "v1 ! i" using pend1 unfolding pending_def by blast+
    have pend2: "pending v1 (o1 @ [i]) = pending visited out"
      using pend1 False i len unfolding pending_def by auto
    have ord: "ordered g (o1 @ [i])"
    proof (rule ordered_snoc)
      show "\<forall>j \<in> set (g i). j \<in> set o1 \<or> (j, i) \<in> (edges g)\<^sup>*"
      proof
        fix j assume j: "j \<in> set (g i)"
        then have "j < n" "v1 ! j" using wf i A by auto
        then have "j \<in> set o1 \<or> j \<in> pending v1 o1" using A by (simp add: pending_def)
        then show "j \<in> set o1 \<or> (j, i) \<in> (edges g)\<^sup>*" using "2.prems"(8) [of j i] by (auto simp: pend1)
      qed
    qed (use A in blast)
    have "length visited' = n \<and> ordered g out' \<and> distinct out' \<and> set out' \<subseteq> {i. i < n \<and> visited' ! i}
      \<and> set (o1 @ [i]) \<subseteq> set out' \<and> pending visited' out' = pending v1 (o1 @ [i])
      \<and> (\<forall>i < n. v1 ! i \<longrightarrow> visited' ! i) \<and> (\<forall>i \<in> set is. visited' ! i)"
    proof (rule "2.IH"(3) [OF no 1 [symmetric] refl 2 wf])
      show "distinct (o1 @ [i])" "set (o1 @ [i]) \<subseteq> {i. i < n \<and> v1 ! i}" using A \<open>i \<notin> set o1\<close> \<open>v1 ! i\<close> i by auto
      show "p \<in> pending v1 (o1 @ [i]) \<Longrightarrow> k \<in> set is \<Longrightarrow> (p, k) \<in> (edges g)\<^sup>*" for p k
        using "2.prems"(8) by (simp add: pend2)
    qed (use A ord "2.prems"(4) in auto)
    with A i \<open>v1 ! i\<close> show ?thesis by (auto simp: pend2 nth_list_update len)
  qed
qed

lemma traverse_correct:
  assumes "\<And>i j. i < n \<Longrightarrow> j \<in> set (g i) \<Longrightarrow> j < n"
  shows "distinct (traverse g n) \<and> set (traverse g n) = {..<n} \<and> ordered g (traverse g n)"
proof -
  obtain v out where r: "visit_indexes g [0..<n] (replicate n False) [] = (v, out)" by force
  have p0: "pending (replicate n False) [] = {}" by (auto simp: pending_def)
  have A: "length v = n \<and> ordered g out \<and> distinct out \<and> set out \<subseteq> {i. i < n \<and> v ! i}
    \<and> set [] \<subseteq> set out \<and> pending v out = pending (replicate n False) []
    \<and> (\<forall>i < n. replicate n False ! i \<longrightarrow> v ! i) \<and> (\<forall>i \<in> set [0..<n]. v ! i)"
    by (rule visit_indexes_correct [OF r assms]) (auto simp: ordered_def p0)
  then have "{..<n} \<subseteq> set out" unfolding p0 by (auto simp: pending_def)
  with A show ?thesis by (auto simp: traverse_def r)
qed

section \<open>The sorted nodes\<close>

lemma index_of_bound: "index_of nodes n = Some i \<Longrightarrow> i < length nodes"
  by (induction nodes arbitrary: i) (auto split: if_splits)

lemma index_of_id: "index_of nodes n = Some i \<Longrightarrow> ns_node_id (nodes ! i) = n"
  by (induction nodes arbitrary: i) (auto split: if_splits)

lemma visit_helper_bound: "j \<in> set (visit_helper I nodes n) \<Longrightarrow> j < length nodes"
  by (auto simp: visit_helper_def index_of_bound split: if_splits option.splits)

lemma visit_neighbors_bound:
  assumes "j \<in> set (visit_neighbors I nodes i)"
  shows "j < length nodes"
proof -
  have drop: "k \<in> set xs" if "k \<in> set (if c then xs else [])" for k c and xs :: "nat list"
    using that by (simp split: if_splits)
  show ?thesis using assms unfolding visit_neighbors_def Let_def set_append Un_iff
    by (elim disjE) (assumption | rule visit_helper_bound | drule drop)+
qed

lemma ordered_single: "(\<And>j. j \<in> set (g 0) \<Longrightarrow> j = 0) \<Longrightarrow> ordered g [0]"
  by (auto simp: ordered_def Cons_eq_append_conv)

lemma sort_nodes_order:
  obtains order where "sort_nodes I nodes = Some (List.map (\<lambda>i. nodes ! i) order)" "distinct order"
    "set order = {..<length nodes}" "ordered (visit_neighbors I nodes) order"
proof (cases "length nodes \<ge> 2")
  case True
  let ?g = "visit_neighbors I nodes"
  let ?o = "traverse ?g (length nodes)"
  have o: "distinct ?o \<and> set ?o = {..<length nodes} \<and> ordered ?g ?o"
    by (rule traverse_correct) (rule visit_neighbors_bound)
  then have "length ?o = length nodes" using distinct_card [of ?o] by simp
  with True have "sort_nodes I nodes = Some (List.map (\<lambda>i. nodes ! i) ?o)"
    by (simp add: sort_nodes_def Let_def check_def)
  with o show ?thesis using that by blast
next
  case False
  then have n: "length nodes = 0 \<or> length nodes = 1" by linarith
  have one: "j = 0" if "length nodes = 1" "j \<in> set (visit_neighbors I nodes 0)" for j
    using visit_neighbors_bound [OF that(2)] that(1) by simp
  from n have "ordered (visit_neighbors I nodes) [0..<length nodes]"
  proof
    assume "length nodes = 0"
    then show ?thesis by (simp add: ordered_def)
  next
    assume "length nodes = 1"
    then show ?thesis using ordered_single one by simp
  qed
  moreover have "sort_nodes I nodes = Some (List.map (\<lambda>i. nodes ! i) [0..<length nodes])"
    using False by (simp add: sort_nodes_def map_nth)
  ultimately show ?thesis using that [of "[0..<length nodes]"] by (auto simp: atLeast0LessThan)
qed

text \<open>C40: SortNodesHierarchically never aborts and returns the given nodes in another order, each once. A node stands
  behind its supertype, its parent, its reference type, its type definition and its data type, unless those lead back
  to it.\<close>
theorem sort_nodes_correct:
  "\<exists>order. sort_nodes I nodes = Some (List.map (\<lambda>i. nodes ! i) order)
     \<and> mset order = mset [0..<length nodes]
     \<and> (\<forall>a i b j. order = a @ i # b \<and> j \<in> set (visit_neighbors I nodes i)
          \<longrightarrow> j \<in> set a \<or> (j, i) \<in> (edges (visit_neighbors I nodes))\<^sup>*)"
proof -
  obtain order where o: "sort_nodes I nodes = Some (List.map (\<lambda>i. nodes ! i) order)" "distinct order"
    "set order = {..<length nodes}" "ordered (visit_neighbors I nodes) order"
    by (rule sort_nodes_order)
  have "mset order = mset [0..<length nodes]"
    using o(2,3) set_eq_iff_mset_eq_distinct [of order "[0..<length nodes]"] by (simp add: atLeast0LessThan)
  with o show ?thesis unfolding ordered_def by blast
qed

text \<open>A type, its instance and the reference type between them, given in the wrong order.\<close>

definition ex_sort_ids :: "nat sort_ids" where
  "ex_sort_ids = \<lparr>si_null = 0, si_has_subtype = 45, si_has_type_definition = 40\<rparr>"

definition ex_sort_node :: "nat \<Rightarrow> nat \<Rightarrow> nat \<Rightarrow> nat \<Rightarrow> (nat, int, int) node_state" where
  "ex_sort_node n ty parent super =
     \<lparr>ns_node_id = n, ns_node_class = 1, ns_type_definition_id = ty, ns_parent_id = parent, ns_reference_type_id = 0,
      ns_browse_name = None, ns_display_name = None, ns_data_type = 0, ns_value = None, ns_properties = [],
      ns_references = [], ns_children = [], ns_supertype_id = super\<rparr>"

lemma sort_nodes_correct_witness:
  "(\<exists>order. sort_nodes ex_sort_ids [ex_sort_node 3 2 1 0, ex_sort_node 2 0 0 0, ex_sort_node 1 0 0 0]
      = Some (List.map (\<lambda>i. [ex_sort_node 3 2 1 0, ex_sort_node 2 0 0 0, ex_sort_node 1 0 0 0] ! i) order))
   \<and> sort_nodes ex_sort_ids [ex_sort_node 3 2 1 0, ex_sort_node 2 0 0 0, ex_sort_node 1 0 0 0]
      = Some [ex_sort_node 1 0 0 0, ex_sort_node 2 0 0 0, ex_sort_node 3 2 1 0]"
proof
  show "\<exists>order. sort_nodes ex_sort_ids [ex_sort_node 3 2 1 0, ex_sort_node 2 0 0 0, ex_sort_node 1 0 0 0]
      = Some (List.map (\<lambda>i. [ex_sort_node 3 2 1 0, ex_sort_node 2 0 0 0, ex_sort_node 1 0 0 0] ! i) order)"
    using sort_nodes_correct [of ex_sort_ids "[ex_sort_node 3 2 1 0, ex_sort_node 2 0 0 0, ex_sort_node 1 0 0 0]"]
    by blast
  show "sort_nodes ex_sort_ids [ex_sort_node 3 2 1 0, ex_sort_node 2 0 0 0, ex_sort_node 1 0 0 0]
      = Some [ex_sort_node 1 0 0 0, ex_sort_node 2 0 0 0, ex_sort_node 3 2 1 0]"
    by code_simp
qed

end
