(* ===== verification/Service_Fetcher.thy ===== *)
theory Service_Fetcher
  imports Node_Fetcher
begin

text \<open>
  \<open>node_service/v3/service_node_fetcher.cpp\<close> and \<open>node_fetcher.cpp\<close>: one node, or the children of one node, read
  from the attribute and view services of a server. The services are parameters: functions from the requests to a
  status (\<open>Inl\<close>) or the results (\<open>Inr\<close>). \<open>nf_env\<close> holds the standard ids, the variant conversions and the statuses.
\<close>

type_synonym ('n, 'v, 's) read_service = "'n read_id list \<Rightarrow> 's + ('s \<times> 'v) list"
type_synonym ('n, 's) browse_service = "'n browse_description list \<Rightarrow> 's + ('n, 's) browse_result list"

section \<open>One attribute\<close>

text \<open>\<open>ApplyFetchedAttribute\<close>; \<open>None\<close> stands for the answer false.\<close>

definition apply_fetched_attribute ::
    "('n, 'v, 's) nf_env \<Rightarrow> attribute_id \<Rightarrow> 'v \<Rightarrow> ('n, 'v, 'c) node_state \<Rightarrow> ('n, 'v, 'c) node_state option" where
  "apply_fetched_attribute env a v ns =
     (case a of
        NodeClassAttr \<Rightarrow> map_option (\<lambda>c. ns\<lparr>ns_node_class := c\<rparr>) (ne_get_int32 env v)
      | BrowseName \<Rightarrow>
          (case ne_get_qualified_name env v of
             None \<Rightarrow> None
           | Some b \<Rightarrow> if ne_empty_name env b then None else Some (ns\<lparr>ns_browse_name := Some b\<rparr>))
      | DisplayName \<Rightarrow> map_option (\<lambda>t. ns\<lparr>ns_display_name := Some t\<rparr>) (ne_get_localized_text env v)
      | DataType \<Rightarrow>
          (case ne_get_node_id env v of
             None \<Rightarrow> None
           | Some d \<Rightarrow> if d = ne_null env then None else Some (ns\<lparr>ns_data_type := d\<rparr>))
      | ValueAttr \<Rightarrow> Some (ns\<lparr>ns_value := Some v\<rparr>)
      | _ \<Rightarrow> Some ns)"

text \<open>The loop over the values: a bad browse name or a value of a wrong type fails the node.\<close>

fun apply_fetched_attributes ::
    "('n, 'v, 's) nf_env \<Rightarrow> (attribute_id \<times> 's \<times> 'v) list \<Rightarrow> ('n, 'v, 'c) node_state \<Rightarrow> 's + ('n, 'v, 'c) node_state" where
  "apply_fetched_attributes env [] ns = Inr ns"
| "apply_fetched_attributes env ((a, s, v) # rest) ns =
     (if ne_bad env s
      then if a = BrowseName then Inl s else apply_fetched_attributes env rest ns
      else case apply_fetched_attribute env a v ns of
             None \<Rightarrow> Inl (ne_wrong_type env)
           | Some ns' \<Rightarrow> apply_fetched_attributes env rest ns')"

section \<open>One reference\<close>

definition apply_fetched_reference ::
    "('n, 'v, 's) nf_env \<Rightarrow> browse_direction \<Rightarrow> 'n reference_description \<Rightarrow> ('n, 'v, 'c) node_state \<Rightarrow>
     ('n, 'v, 'c) node_state" where
  "apply_fetched_reference env direction r ns =
     (if rd_reference_type_id r = ne_null env \<or> rd_node_id r = ne_null env then ns
      else if direction = Inverse
      then if rd_forward r then ns
           else if rd_reference_type_id r = ne_has_subtype env then ns\<lparr>ns_supertype_id := rd_node_id r\<rparr>
           else ns\<lparr>ns_parent_id := rd_node_id r, ns_reference_type_id := rd_reference_type_id r\<rparr>
      else if \<not> rd_forward r then ns
      else if rd_reference_type_id r = ne_has_type_definition env then ns\<lparr>ns_type_definition_id := rd_node_id r\<rparr>
      else if r \<in> set (ns_references ns) then ns
      else ns\<lparr>ns_references := ns_references ns @ [r]\<rparr>)"

fun apply_browse_results ::
    "('n, 'v, 's) nf_env \<Rightarrow> ('n browse_description \<times> ('n, 's) browse_result) list \<Rightarrow> ('n, 'v, 'c) node_state \<Rightarrow>
     ('n, 'v, 'c) node_state" where
  "apply_browse_results env [] ns = ns"
| "apply_browse_results env ((d, r) # rest) ns =
     apply_browse_results env rest
       (if ne_bad env (br_status_code r) then ns
        else fold (apply_fetched_reference env (bd_direction d)) (br_references r) ns)"

section \<open>A node\<close>

definition empty_node_state :: "('n, 'v, 's) nf_env \<Rightarrow> 'n \<Rightarrow> ('n, 'v, 'c) node_state" where
  "empty_node_state env n =
     \<lparr>ns_node_id = n, ns_node_class = ne_object_class env, ns_type_definition_id = ne_null env, ns_parent_id = ne_null env,
      ns_reference_type_id = ne_null env, ns_browse_name = None, ns_display_name = None, ns_data_type = ne_null env,
      ns_value = None, ns_properties = [], ns_references = [], ns_children = [], ns_supertype_id = ne_null env\<rparr>"

definition read_attributes :: "attribute_id list" where
  "read_attributes = [BrowseName, DisplayName, NodeClassAttr, DataType, ValueAttr]"

definition node_descriptions :: "('n, 'v, 's) nf_env \<Rightarrow> 'n \<Rightarrow> 'n browse_description list" where
  "node_descriptions env n =
     \<lparr>bd_node_id = n, bd_direction = Forward, bd_reference_type_id = ne_non_hierarchical env, bd_include_subtypes = True\<rparr>
     # (if n \<noteq> ne_root_folder env
        then [\<lparr>bd_node_id = n, bd_direction = Inverse, bd_reference_type_id = ne_hierarchical env, bd_include_subtypes = True\<rparr>]
        else [])"

definition fetch_node_state ::
    "('n, 'v, 's) nf_env \<Rightarrow> ('n, 'v, 's) read_service \<Rightarrow> ('n, 's) browse_service \<Rightarrow> 'n \<Rightarrow> 's + ('n, 'v, 'c) node_state" where
  "fetch_node_state env read browse n =
     (case read (map (Pair n) read_attributes) of
        Inl e \<Rightarrow> Inl e
      | Inr values \<Rightarrow>
          if length values \<noteq> length read_attributes then Inl (ne_generic_bad env)
          else case apply_fetched_attributes env (zip read_attributes values) (empty_node_state env n) of
                 Inl e \<Rightarrow> Inl e
               | Inr ns \<Rightarrow>
                   let descriptions = node_descriptions env n in
                   case browse descriptions of
                     Inl e \<Rightarrow> Inl e
                   | Inr results \<Rightarrow>
                       if length results \<noteq> length descriptions then Inl (ne_generic_bad env)
                       else Inr (apply_browse_results env (zip descriptions results) ns))"

section \<open>The children of a node\<close>

definition child_reference :: "('n, 'v, 's) nf_env \<Rightarrow> 'n reference_description \<Rightarrow> bool" where
  "child_reference env r \<longleftrightarrow> rd_forward r \<and> rd_reference_type_id r \<noteq> ne_null env \<and> rd_node_id r \<noteq> ne_null env"

definition children_descriptions :: "('n, 'v, 's) nf_env \<Rightarrow> 'n \<Rightarrow> 'n browse_description list" where
  "children_descriptions env n =
     [\<lparr>bd_node_id = n, bd_direction = Forward, bd_reference_type_id = ne_hierarchical env, bd_include_subtypes = True\<rparr>]"

definition fetch_child_references ::
    "('n, 'v, 's) nf_env \<Rightarrow> ('n, 's) browse_service \<Rightarrow> 'n \<Rightarrow> 's + 'n reference_description list" where
  "fetch_child_references env browse n =
     (case browse (children_descriptions env n) of
        Inl e \<Rightarrow> Inl e
      | Inr results \<Rightarrow>
          Inr (concat (map (\<lambda>r. if ne_bad env (br_status_code r) then [] else filter (child_reference env) (br_references r))
                 results)))"

text \<open>The fetcher of the base class: an empty state, no children.\<close>

definition default_fetch_node :: "('n, 'v, 's) nf_env \<Rightarrow> 'n \<Rightarrow> 's + ('n, 'v, 'c) node_state" where
  "default_fetch_node env n = Inr (empty_node_state env (ne_null env))"

definition default_fetch_children :: "'n \<Rightarrow> 's + 'n reference_description list" where
  "default_fetch_children n = Inr []"

section \<open>What a fetched node is like\<close>

text \<open>The references are forward, complete, distinct as full descriptions and none is the type definition; a parent comes
  with the type of the reference to it.\<close>

definition fetched_ok :: "('n, 'v, 's) nf_env \<Rightarrow> ('n, 'v, 'c) node_state \<Rightarrow> bool" where
  "fetched_ok env ns \<longleftrightarrow>
     (\<forall>r \<in> set (ns_references ns). child_reference env r \<and> rd_reference_type_id r \<noteq> ne_has_type_definition env)
     \<and> distinct (ns_references ns)
     \<and> (ns_parent_id ns = ne_null env \<longleftrightarrow> ns_reference_type_id ns = ne_null env)
     \<and> ns_children ns = [] \<and> ns_properties ns = []"

lemma fetched_ok_empty: "fetched_ok env (empty_node_state env n)"
  by (simp add: fetched_ok_def empty_node_state_def)

lemma apply_fetched_attribute_frame:
  assumes "apply_fetched_attribute env a v ns = Some ns'"
  shows "fetched_ok env ns' = fetched_ok env ns" "ns_node_id ns' = ns_node_id ns"
    "a \<noteq> BrowseName \<Longrightarrow> ns_browse_name ns' = ns_browse_name ns"
    "a = BrowseName \<Longrightarrow> \<exists>b. ns_browse_name ns' = Some b \<and> \<not> ne_empty_name env b"
  using assms by (auto simp: apply_fetched_attribute_def fetched_ok_def split: attribute_id.splits option.splits if_splits)

lemma apply_fetched_attributes_frame:
  "apply_fetched_attributes env avs ns = Inr ns' \<Longrightarrow> fetched_ok env ns' = fetched_ok env ns \<and> ns_node_id ns' = ns_node_id ns"
  by (induction env avs ns rule: apply_fetched_attributes.induct)
    (auto simp: apply_fetched_attribute_frame(1,2) split: if_splits option.splits)

lemma apply_fetched_attribute_references:
  assumes "apply_fetched_attribute env a v ns = Some ns'"
  shows "ns_references ns' = ns_references ns" "ns_type_definition_id ns' = ns_type_definition_id ns"
    "ns_supertype_id ns' = ns_supertype_id ns" "ns_parent_id ns' = ns_parent_id ns"
    "ns_reference_type_id ns' = ns_reference_type_id ns"
  using assms by (auto simp: apply_fetched_attribute_def split: attribute_id.splits option.splits if_splits)

lemma apply_fetched_attributes_references:
  "apply_fetched_attributes env avs ns = Inr ns' \<Longrightarrow> ns_references ns' = ns_references ns
     \<and> ns_type_definition_id ns' = ns_type_definition_id ns \<and> ns_supertype_id ns' = ns_supertype_id ns
     \<and> ns_parent_id ns' = ns_parent_id ns \<and> ns_reference_type_id ns' = ns_reference_type_id ns"
  by (induction env avs ns rule: apply_fetched_attributes.induct)
    (auto simp: apply_fetched_attribute_references split: if_splits option.splits)

lemma apply_fetched_attributes_name:
  "apply_fetched_attributes env avs ns = Inr ns' \<Longrightarrow> BrowseName \<notin> fst ` set avs \<Longrightarrow> ns_browse_name ns' = ns_browse_name ns"
  by (induction env avs ns rule: apply_fetched_attributes.induct)
    (auto simp: apply_fetched_attribute_frame(3) split: if_splits option.splits)

lemma apply_fetched_reference_frame:
  "fetched_ok env ns \<Longrightarrow> fetched_ok env (apply_fetched_reference env d r ns)"
  "ns_node_id (apply_fetched_reference env d r ns) = ns_node_id ns"
  "ns_browse_name (apply_fetched_reference env d r ns) = ns_browse_name ns"
  by (auto simp: apply_fetched_reference_def fetched_ok_def child_reference_def)

lemma fold_fetched_reference_frame:
  "fetched_ok env ns \<Longrightarrow> fetched_ok env (fold (apply_fetched_reference env d) rs ns)"
  "ns_node_id (fold (apply_fetched_reference env d) rs ns) = ns_node_id ns"
  "ns_browse_name (fold (apply_fetched_reference env d) rs ns) = ns_browse_name ns"
  by (induction rs arbitrary: ns) (simp_all add: apply_fetched_reference_frame)

lemma apply_browse_results_frame:
  "fetched_ok env ns \<Longrightarrow> fetched_ok env (apply_browse_results env drs ns)"
  "ns_node_id (apply_browse_results env drs ns) = ns_node_id ns"
  "ns_browse_name (apply_browse_results env drs ns) = ns_browse_name ns"
  by (induction env drs ns rule: apply_browse_results.induct) (simp_all add: fold_fetched_reference_frame)

text \<open>C16: Whatever the server answers, a node that FetchNode returns is the one that was asked for, has a browse name that is
  not empty, and only forward references with both ids, none of them its type definition and no two of them equal. Equal
  means in all fields: of two descriptions of one edge that differ in a name, a class or a type definition of the target
  both are kept. The node has a parent exactly when it has the type of the reference to it.\<close>

theorem fetch_node_state_ok:
  assumes "fetch_node_state env read browse n = Inr ns"
  shows "ns_node_id ns = n \<and> fetched_ok env ns \<and> (\<exists>b. ns_browse_name ns = Some b \<and> \<not> ne_empty_name env b)"
proof -
  from assms obtain vals ns0 drs where len: "length vals = length read_attributes"
    and attrs: "apply_fetched_attributes env (zip read_attributes vals) (empty_node_state env n) = Inr ns0"
    and ns: "ns = apply_browse_results env drs ns0"
    by (auto simp: fetch_node_state_def Let_def split: sum.splits if_splits)
  from len obtain s v rest where vals: "vals = (s, v) # rest" by (cases vals) (auto simp: read_attributes_def)
  let ?others = "[DisplayName, NodeClassAttr, DataType, ValueAttr]"
  from attrs obtain ns1 where one: "apply_fetched_attribute env BrowseName v (empty_node_state env n) = Some ns1"
    and more: "apply_fetched_attributes env (zip ?others rest) ns1 = Inr ns0"
    by (auto simp: vals read_attributes_def split: if_splits option.splits)
  have "BrowseName \<notin> fst ` set (zip ?others rest)" by (auto dest: set_zip_leftD)
  from apply_fetched_attributes_name [OF more this] apply_fetched_attribute_frame(4) [OF one]
  have "\<exists>b. ns_browse_name ns0 = Some b \<and> \<not> ne_empty_name env b" by simp
  moreover have "fetched_ok env ns0 \<and> ns_node_id ns0 = n"
    using apply_fetched_attributes_frame [OF attrs] fetched_ok_empty [of env n] by (simp add: empty_node_state_def)
  ultimately show ?thesis by (simp add: ns apply_browse_results_frame)
qed

end
