(* ===== verification/Fetch_Server.thy ===== *)
theory Fetch_Server
  imports Service_Fetcher View_Claims Address_Space_Examples
begin

text \<open>
  The fetcher of a client against the view service of a server: what the fetched state of a node says of the node's
  references in the address space.
\<close>

section \<open>The view service as the fetcher sees it\<close>

definition served_reference :: "'n browse_reference \<Rightarrow> 'n reference_description" where
  "served_reference r = \<lparr>rd_reference_type_id = br_type r, rd_forward = br_forward r, rd_node_id = br_node r,
     rd_details = Some \<lparr>bt_node_class = br_class r, bt_browse_name = br_browse_name r,
       bt_display_name = br_display_name r, bt_type_definition = br_type_definition r\<rparr>\<rparr>"

definition served_input :: "32 word \<Rightarrow> 'n browse_description \<Rightarrow> 'n browse_input" where
  "served_input all_fields d =
     \<lparr>bi_node_id = bd_node_id d, bi_direction = bd_direction d, bi_reference_type_id = bd_reference_type_id d,
      bi_include_subtypes = bd_include_subtypes d, bi_node_class_mask = 0, bi_result_mask = all_fields\<rparr>"

lemma served_input_simps [simp]:
  "bi_node_id (served_input m d) = bd_node_id d" "bi_direction (served_input m d) = bd_direction d"
  "bi_reference_type_id (served_input m d) = bd_reference_type_id d"
  "bi_include_subtypes (served_input m d) = bd_include_subtypes d"
  "bi_node_class_mask (served_input m d) = 0" "bi_result_mask (served_input m d) = m"
  by (simp_all add: served_input_def)

definition served_result :: "status \<times> 'n browse_reference list \<Rightarrow> ('n, status) browse_result" where
  "served_result r = \<lparr>br_status_code = fst r, br_references = map served_reference (snd r)\<rparr>"

definition same_ids :: "'n ua \<Rightarrow> ('n, 'v, status) nf_env \<Rightarrow> bool" where
  "same_ids U env \<longleftrightarrow> ne_null env = ua_null U \<and> ne_root_folder env = root_folder U
     \<and> ne_hierarchical env = hierarchical_references U \<and> ne_non_hierarchical env = non_hierarchical_references U
     \<and> ne_has_subtype env = has_subtype U \<and> ne_has_type_definition env = has_type_definition U
     \<and> \<not> ne_bad env Good"

text \<open>The references of a kind.\<close>

definition of_kind :: "('n, 'v, 'q, 't, 'y) heap \<Rightarrow> 'n \<Rightarrow> 'n ref list \<Rightarrow> 'n ref list" where
  "of_kind h ty refs = filter (\<lambda>r. is_subtype_of h (fst r) ty = Some True) refs"

text \<open>The description of a reference, and what the server tells of its target.\<close>

definition described :: "('n ref \<Rightarrow> 'n browse_details option) \<Rightarrow> bool \<Rightarrow> 'n ref \<Rightarrow> 'n reference_description" where
  "described D forward r = \<lparr>rd_reference_type_id = fst r, rd_forward = forward, rd_node_id = snd r, rd_details = D r\<rparr>"

definition told ::
    "('n, 'v, 'q, 't, 'y) as_env \<Rightarrow> masks \<Rightarrow> ('n, 'v, 'q, 't, 'y) heap \<Rightarrow> 'n browse_input \<Rightarrow> bool \<Rightarrow> 'n ref \<Rightarrow>
     'n browse_details option" where
  "told E M h d forward r =
     h (snd r) \<bind> (\<lambda>nd. make_reference E M d forward r nd \<bind> (\<lambda>x. rd_details (served_reference x)))"

definition named :: "bool \<Rightarrow> 'n ref \<Rightarrow> 'n \<times> bool \<times> 'n" where
  "named forward r = (fst r, forward, snd r)"

lemma edge_described: "edge \<circ> described D forward = named forward"
  by (auto simp: edge_def described_def named_def)

lemma browse_references_served:
  assumes "browse_references E M h (served_input all_fields d) forward refs = Some rs" "bd_include_subtypes d"
    and "and all_fields (mask_reference_type M) \<noteq> 0" "and all_fields (mask_is_forward M) \<noteq> 0"
  shows "map served_reference rs = map (described (told E M h (served_input all_fields d) forward) forward) (of_kind h (bd_reference_type_id d) refs)"
  using assms(1)
proof (induction refs arbitrary: rs)
  case (Cons ref refs)
  from Cons.prems obtain b "here" rest where b: "is_subtype_of h (fst ref) (bd_reference_type_id d) = Some b"
    and here: "(if b then h (snd ref) \<bind> (\<lambda>nd. if matches_node_class M (served_input all_fields d) (an_class nd)
          then map_option (\<lambda>x. [x]) (make_reference E M (served_input all_fields d) forward ref nd) else Some []) else Some []) = Some here"
    and rest: "browse_references E M h (served_input all_fields d) forward refs = Some rest" and rs: "rs = here @ rest"
    using assms(2) by (auto simp: bind_eq_Some_conv is_ref_subtype_of_def)
  have "map served_reference here = (if b then [described (told E M h (served_input all_fields d) forward) forward ref] else [])"
  proof (cases b)
    case True
    then obtain nd x where x: "h (snd ref) = Some nd" "make_reference E M (served_input all_fields d) forward ref nd = Some x" "here = [x]"
      using here by (auto simp: bind_eq_Some_conv matches_node_class_def)
    then have "br_type x = fst ref" "br_forward x = forward" "br_node x = snd ref"
      using assms(3,4) by (auto simp: bind_eq_Some_conv make_reference_def Let_def)
    then show ?thesis using True x by (simp add: served_reference_def described_def told_def)
  qed (use here in simp)
  with Cons.IH [OF rest] b show ?case by (simp add: rs of_kind_def)
qed (simp add: of_kind_def)

lemma browse_one_served:
  assumes "browse_one L E M h (served_input all_fields d) = Some r" "h (bd_node_id d) \<noteq> None" "bd_include_subtypes d"
    and "and all_fields (mask_reference_type M) \<noteq> 0" "and all_fields (mask_is_forward M) \<noteq> 0"
  shows "bd_direction d = Forward \<Longrightarrow>
      served_result r = \<lparr>br_status_code = Good,
        br_references = map (described (told E M h (served_input all_fields d) True) True) (of_kind h (bd_reference_type_id d) (fw h (bd_node_id d)))\<rparr>"
    and "bd_direction d = Inverse \<Longrightarrow>
      served_result r = \<lparr>br_status_code = Good,
        br_references = map (described (told E M h (served_input all_fields d) False) False) (of_kind h (bd_reference_type_id d) (iv h (bd_node_id d)))\<rparr>"
proof -
  obtain nd where nd: "h (bd_node_id d) = Some nd" using assms(2) by blast
  have nested: "get_nested_node L E h (bd_node_id d) = Some (Some (bd_node_id d), '''')" by (simp add: get_nested_node_def nd)
  have b: "browse_node E M h (bd_node_id d) (served_input all_fields d) = Some r"
    using assms(1) nested by (simp add: browse_one_def)
  note v = view_Some [where h = h, OF nd]
  show "served_result r = \<lparr>br_status_code = Good,
      br_references = map (described (told E M h (served_input all_fields d) True) True) (of_kind h (bd_reference_type_id d) (fw h (bd_node_id d)))\<rparr>" if "bd_direction d = Forward"
    using b that browse_references_served [OF _ assms(3-5)] v
    by (auto simp: browse_node_def nd bind_eq_Some_conv served_result_def)
  show "served_result r = \<lparr>br_status_code = Good,
      br_references = map (described (told E M h (served_input all_fields d) False) False) (of_kind h (bd_reference_type_id d) (iv h (bd_node_id d)))\<rparr>" if "bd_direction d = Inverse"
    using b that browse_references_served [OF _ assms(3-5)] v
    by (auto simp: browse_node_def nd bind_eq_Some_conv served_result_def)
qed

section \<open>Applying lists of references\<close>

lemma fold_forward_references:
  assumes "\<And>r. r \<in> set refs \<Longrightarrow> fst r \<noteq> ne_null env \<and> snd r \<noteq> ne_null env" "distinct refs"
    and "set (ns_references ns) \<inter> described D True ` set refs = {}"
  shows "fold (apply_fetched_reference env Forward) (map (described D True) refs) ns = ns\<lparr>
      ns_type_definition_id := last (ns_type_definition_id ns # map snd (filter (\<lambda>r. fst r = ne_has_type_definition env) refs)),
      ns_references := ns_references ns @ map (described D True) (filter (\<lambda>r. fst r \<noteq> ne_has_type_definition env) refs)\<rparr>"
  using assms
proof (induction refs arbitrary: ns)
  case (Cons r refs)
  have inj: "described D True r \<notin> described D True ` set refs"
    using Cons.prems(2) by (auto simp: described_def prod_eq_iff)
  have p: "fst r \<noteq> ne_null env" "snd r \<noteq> ne_null env" using Cons.prems(1) [of r] by auto
  show ?case
  proof (cases "fst r = ne_has_type_definition env")
    case True
    then have one: "apply_fetched_reference env Forward (described D True r) ns = ns\<lparr>ns_type_definition_id := snd r\<rparr>"
      using p by (simp add: apply_fetched_reference_def described_def)
    note ih = Cons.IH [of "ns\<lparr>ns_type_definition_id := snd r\<rparr>"]
    show ?thesis unfolding list.map fold_simps one by (subst ih) (use Cons.prems True in auto)
  next
    case False
    then have one: "apply_fetched_reference env Forward (described D True r) ns = ns\<lparr>ns_references := ns_references ns @ [described D True r]\<rparr>"
      using p Cons.prems(3) by (simp add: apply_fetched_reference_def) (simp add: described_def)
    note ih = Cons.IH [of "ns\<lparr>ns_references := ns_references ns @ [described D True r]\<rparr>"]
    show ?thesis unfolding list.map fold_simps one by (subst ih) (use Cons.prems False inj in auto)
  qed
qed simp

lemma fold_inverse_references:
  assumes "\<And>r. r \<in> set refs \<Longrightarrow> fst r \<noteq> ne_null env \<and> snd r \<noteq> ne_null env"
  shows "fold (apply_fetched_reference env Inverse) (map (described D False) refs) ns = ns\<lparr>
      ns_supertype_id := last (ns_supertype_id ns # map snd (filter (\<lambda>r. fst r = ne_has_subtype env) refs)),
      ns_parent_id := last (ns_parent_id ns # map snd (filter (\<lambda>r. fst r \<noteq> ne_has_subtype env) refs)),
      ns_reference_type_id := last (ns_reference_type_id ns # map fst (filter (\<lambda>r. fst r \<noteq> ne_has_subtype env) refs))\<rparr>"
  using assms
proof (induction refs arbitrary: ns)
  case (Cons r refs)
  have p: "fst r \<noteq> ne_null env" "snd r \<noteq> ne_null env" using Cons.prems [of r] by auto
  show ?case
  proof (cases "fst r = ne_has_subtype env")
    case True
    then have one: "apply_fetched_reference env Inverse (described D False r) ns = ns\<lparr>ns_supertype_id := snd r\<rparr>"
      using p by (simp add: apply_fetched_reference_def described_def)
    note ih = Cons.IH [of "ns\<lparr>ns_supertype_id := snd r\<rparr>"]
    show ?thesis unfolding list.map fold_simps one by (subst ih) (use Cons.prems True in auto)
  next
    case False
    then have one: "apply_fetched_reference env Inverse (described D False r) ns =
        ns\<lparr>ns_parent_id := snd r, ns_reference_type_id := fst r\<rparr>"
      using p by (simp add: apply_fetched_reference_def described_def)
    note ih = Cons.IH [of "ns\<lparr>ns_parent_id := snd r, ns_reference_type_id := fst r\<rparr>"]
    show ?thesis unfolding list.map fold_simps one by (subst ih) (use Cons.prems False in auto)
  qed
qed simp

lemma last_target:
  assumes "\<And>x. (ty, x) \<in> set refs \<longleftrightarrow> target = Some x"
  shows "last (z # map snd (filter (\<lambda>r. fst r = ty) refs)) = (case target of None \<Rightarrow> z | Some x \<Rightarrow> x)"
proof -
  let ?l = "map snd (filter (\<lambda>r. fst r = ty) refs)"
  have l: "x \<in> set ?l \<longleftrightarrow> target = Some x" for x using assms [of x] by force
  show ?thesis
  proof (cases target)
    case None
    with l have "?l = []" by (metis last_in_set option.distinct(1))
    then show ?thesis using None by (simp only: last.simps) simp
  next
    case (Some x)
    then have "?l \<noteq> []" using l [of x] by (metis empty_iff empty_set)
    then have "target = Some (last (z # ?l))" 
      using l [of "last ?l"] last_in_set [of ?l] by (simp only: last.simps if_False simp_thms)
    then show ?thesis by (metis option.simps(5))
  qed
qed

section \<open>The fetched state\<close>

lemma subtype_in_heap: "is_subtype_of h ty t = Some b \<Longrightarrow> h ty \<noteq> None"
  by (subst (asm) is_subtype_of.simps) (auto split: option.splits)

text \<open>C15: A node that a client fetches from the modelled view service has the type definition, the supertype and exactly the
  other non-hierarchical references that the node has in the address space, in that order. Its parent is the source of
  the last hierarchical reference to it that is not HasSubtype.\<close>

theorem fetched_state_matches_server:
  assumes g: "graph_ok (ae_ua E) h" and null: "h (ua_null (ae_ua E)) = None" and node: "h n \<noteq> None" "n \<noteq> root_folder (ae_ua E)"
    and types: "\<And>s. (has_subtype (ae_ua E), s) \<in> set (iv h n) \<Longrightarrow> type_node h n"
    and env: "same_ids (ae_ua E) env"
    and mask: "and all_fields (mask_reference_type M) \<noteq> 0" "and all_fields (mask_is_forward M) \<noteq> 0"
    and kinds: "is_subtype_of h (has_type_definition (ae_ua E)) (non_hierarchical_references (ae_ua E)) = Some True"
      "is_subtype_of h (has_subtype (ae_ua E)) (hierarchical_references (ae_ua E)) = Some True"
    and browse: "browse L E M h (map (served_input all_fields) (node_descriptions env n)) = Some results"
    and fetch: "fetch_node_state env read (\<lambda>_. Inr (map served_result results)) n = Inr ns"
  shows "ns_type_definition_id ns = id_or_null (ae_ua E) (td h n)
    \<and> ns_supertype_id ns = id_or_null (ae_ua E) (st h n)
    \<and> map edge (ns_references ns) = map (named True) (filter (\<lambda>r. fst r \<noteq> has_type_definition (ae_ua E))
        (of_kind h (non_hierarchical_references (ae_ua E)) (fw h n)))
    \<and> (ns_reference_type_id ns, ns_parent_id ns) = last ((ua_null (ae_ua E), ua_null (ae_ua E))
        # filter (\<lambda>r. fst r \<noteq> has_subtype (ae_ua E)) (of_kind h (hierarchical_references (ae_ua E)) (iv h n)))"
proof -
  let ?U = "ae_ua E"
  let ?f = "of_kind h (non_hierarchical_references ?U) (fw h n)"
  let ?i = "of_kind h (hierarchical_references ?U) (iv h n)"
  note ids = env [unfolded same_ids_def]
  note hn = node(1)
  let ?d1 = "\<lparr>bd_node_id = n, bd_direction = Forward, bd_reference_type_id = ne_non_hierarchical env, bd_include_subtypes = True\<rparr>"
  let ?d2 = "\<lparr>bd_node_id = n, bd_direction = Inverse, bd_reference_type_id = ne_hierarchical env, bd_include_subtypes = True\<rparr>"
  let ?D1 = "told E M h (served_input all_fields ?d1) True" and ?D2 = "told E M h (served_input all_fields ?d2) False"
  have ds: "node_descriptions env n = [?d1, ?d2]" using node(2) ids by (simp add: node_descriptions_def)
  obtain r1 r2 where r: "browse_one L E M h (served_input all_fields ?d1) = Some r1" "browse_one L E M h (served_input all_fields ?d2) = Some r2"
    and results: "results = [r1, r2]"
    using browse by (auto simp: ds bind_eq_Some_conv)
  have s1: "served_result r1 = \<lparr>br_status_code = Good, br_references = map (described ?D1 True) ?f\<rparr>"
    using browse_one_served(1) [OF r(1) _ _ mask] hn ids by simp
  have s2: "served_result r2 = \<lparr>br_status_code = Good, br_references = map (described ?D2 False) ?i\<rparr>"
    using browse_one_served(2) [OF r(2) _ _ mask] hn ids by simp
  obtain ns0 vals where attrs: "apply_fetched_attributes env (zip read_attributes vals) (empty_node_state env n) = Inr ns0"
    and ns: "ns = fold (apply_fetched_reference env Inverse) (map (described ?D2 False) ?i)
        (fold (apply_fetched_reference env Forward) (map (described ?D1 True) ?f) ns0)"
    using fetch ids by (auto simp: fetch_node_state_def Let_def ds results s1 s2 split: sum.splits if_splits)
  have ns0: "ns_references ns0 = []" "ns_type_definition_id ns0 = ua_null ?U" "ns_supertype_id ns0 = ua_null ?U"
    "ns_parent_id ns0 = ua_null ?U" "ns_reference_type_id ns0 = ua_null ?U"
    using apply_fetched_attributes_references [OF attrs] ids by (simp_all add: empty_node_state_def)
  have nonnull: "fst r \<noteq> ne_null env \<and> snd r \<noteq> ne_null env" if "r \<in> set ?f \<or> r \<in> set ?i" for r
  proof -
    have "h (snd r) \<noteq> None" using that reference_ends [OF g] by (cases r) (auto simp: of_kind_def)
    moreover have "h (fst r) \<noteq> None" using that by (auto simp: of_kind_def dest: subtype_in_heap)
    ultimately show ?thesis using null ids by metis
  qed
  have dist: "distinct ?f" using graph_okD(2) [OF g] by (simp add: of_kind_def)
  have eq: "ns = ns0\<lparr>
      ns_type_definition_id := last (ua_null ?U # map snd (filter (\<lambda>r. fst r = has_type_definition ?U) ?f)),
      ns_references := map (described ?D1 True) (filter (\<lambda>r. fst r \<noteq> has_type_definition ?U) ?f),
      ns_supertype_id := last (ua_null ?U # map snd (filter (\<lambda>r. fst r = has_subtype ?U) ?i)),
      ns_parent_id := last (ua_null ?U # map snd (filter (\<lambda>r. fst r \<noteq> has_subtype ?U) ?i)),
      ns_reference_type_id := last (ua_null ?U # map fst (filter (\<lambda>r. fst r \<noteq> has_subtype ?U) ?i))\<rparr>"
  proof -
    have f: "\<And>r. r \<in> set ?f \<Longrightarrow> fst r \<noteq> ne_null env \<and> snd r \<noteq> ne_null env"
      and i: "\<And>r. r \<in> set ?i \<Longrightarrow> fst r \<noteq> ne_null env \<and> snd r \<noteq> ne_null env" using nonnull by blast+
    have "has_type_definition ?U = ne_has_type_definition env" "has_subtype ?U = ne_has_subtype env" using ids by simp_all
    then show ?thesis unfolding ns using fold_forward_references [OF f dist, of ns0]
      by (simp add: ns0 fold_inverse_references [OF i] del: last.simps)
  qed
  have "(has_type_definition ?U, x) \<in> set ?f \<longleftrightarrow> td h n = Some x" for x
    using graph_okD(4) [OF g, of n x] kinds by (auto simp: of_kind_def)
  note T = last_target [OF this, where z = "ua_null ?U", folded id_or_null_def]
  have "(has_subtype ?U, x) \<in> set ?i \<longleftrightarrow> st h n = Some x" for x
    using graph_okD(5) [OF g, of n x] kinds types [of x] by (auto simp: of_kind_def)
  note S = last_target [OF this, where z = "ua_null ?U", folded id_or_null_def]
  have P: "last ((a, b) # rs) = (last (a # map fst rs), last (b # map snd rs))" for a b :: 'a and rs
    by (cases rs rule: rev_cases) auto
  show ?thesis unfolding T [symmetric] S [symmetric] P by (simp add: eq edge_described del: last.simps)
qed

section \<open>An instance\<close>

text \<open>The small server with HasSubtype below the hierarchical references and a type for the first object.\<close>

definition ex_served_ops :: "(ex_nid, nat, unit, nat, unit) as_op list" where
  "ex_served_ops = [AddReferenceOp (sid 45) (sid 33) (sid 45), AddOp (own_id 9) (ex_node ObjectTypeClass ''SiteType''),
     AddReferenceOp (sid 40) (own_id 1) (own_id 9)]"

definition ex_served :: "(ex_nid, nat, unit, nat, unit) aspace" where
  "ex_served = the (as_run ex_as_env ex_nid_lib ex_served_ops ex_tree)"

lemma ex_served_ok: "as_ok ex_ua ex_served"
proof -
  have "\<not> Option.is_none (as_run ex_as_env ex_nid_lib ex_served_ops ex_tree)" by code_simp
  from as_reachable_ok [OF as_run_reachable [OF not_none_the [OF this]]] show ?thesis
    using ex_tree_ok by (simp add: ex_served_def)
qed

definition ex_fetch_env :: "(ex_nid, nat, status) nf_env" where
  "ex_fetch_env = \<lparr>ne_null = sid 0, ne_root_folder = sid 84, ne_aggregates = sid 44, ne_hierarchical = sid 33,
     ne_non_hierarchical = sid 32, ne_has_subtype = sid 45, ne_has_property = sid 46, ne_has_type_definition = sid 40,
     ne_property_type = sid 68, ne_object_class = 1, ne_variable_class = 2, ne_is_type_definition = (\<lambda>c. c = 8),
     ne_is_instance = (\<lambda>c. c = 1), ne_good = Good, ne_generic_bad = Bad, ne_wrong_type = BadWrongTypeId,
     ne_bad = (\<lambda>s. s \<noteq> Good), ne_null_variant = 0, ne_get_int32 = (\<lambda>v. Some (int v)), ne_get_qualified_name = Some,
     ne_empty_name = (\<lambda>v. v = 0), ne_get_localized_text = Some, ne_get_node_id = (\<lambda>_. None), ne_validator = (\<lambda>_. False)\<rparr>"

definition ex_masks :: masks where
  "ex_masks = \<lparr>mask_reference_type = 1, mask_is_forward = 2, mask_node_class = 4, mask_browse_name = 8, mask_display_name = 16,
     mask_type_definition = 32, class_bit = (\<lambda>_. 1)\<rparr>"

text \<open>A server that reads a name and a class, and no data type.\<close>

definition ex_read :: "(ex_nid, nat, status) read_service" where
  "ex_read ids = Inr (List.map (\<lambda>(n, a). if a = DataType \<or> a = ValueAttr then (BadWrongAttributeId, 0) else (Good, 1)) ids)"

definition ex_answers :: "(status \<times> ex_nid browse_reference list) list option" where
  "ex_answers = browse ex_nid_lib ex_as_env ex_masks (as_nodes ex_served)
     (List.map (served_input 3) (node_descriptions ex_fetch_env (own_id 1)))"

definition ex_fetched :: "status + (ex_nid, nat, unit) node_state" where
  "ex_fetched = fetch_node_state ex_fetch_env ex_read (\<lambda>_. Inr (List.map served_result (the ex_answers))) (own_id 1)"

lemma ex_fetched_look:
  "\<not> Option.is_none ex_answers \<and> (case ex_fetched of Inl _ \<Rightarrow> False | Inr ns \<Rightarrow> ns_parent_id ns = sid 84)
   \<and> Option.is_none (as_nodes ex_served (sid 0)) \<and> \<not> Option.is_none (as_nodes ex_served (own_id 1))
   \<and> iv (as_nodes ex_served) (own_id 1) = [(sid 35, sid 84)] \<and> td (as_nodes ex_served) (own_id 1) = Some (own_id 9)
   \<and> is_subtype_of (as_nodes ex_served) (sid 40) (sid 32) = Some True
   \<and> is_subtype_of (as_nodes ex_served) (sid 45) (sid 33) = Some True"
  by code_simp

lemma fetched_state_matches_server_witness:
  "\<exists>ns. ex_fetched = Inr ns \<and> ns_type_definition_id ns = own_id 9 \<and> ns_parent_id ns = sid 84"
proof -
  note l = ex_fetched_look
  then obtain rs where rs: "ex_answers = Some rs" by (cases ex_answers) auto
  from l obtain ns where ns: "ex_fetched = Inr ns" "ns_parent_id ns = sid 84" by (auto split: sum.splits)
  have "same_ids (ae_ua ex_as_env) ex_fetch_env" by (simp add: same_ids_def ex_ua_def ex_fetch_env_def)
  moreover have "graph_ok (ae_ua ex_as_env) (as_nodes ex_served)" using ex_served_ok by (simp add: as_ok_def)
  moreover have "and (3 :: 32 word) 1 \<noteq> 0" "and (3 :: 32 word) 2 \<noteq> 0" by simp_all
  ultimately have "ns_type_definition_id ns = id_or_null ex_ua (td (as_nodes ex_served) (own_id 1))"
    using fetched_state_matches_server [of ex_as_env "as_nodes ex_served" "own_id 1" ex_fetch_env 3 ex_masks ex_nid_lib rs ex_read ns]
      rs ns(1) l
    by (simp add: ex_ua_def ex_masks_def ex_answers_def ex_fetched_def Option.is_none_def)
  with l have "ns_type_definition_id ns = own_id 9" by (simp add: id_or_null_def)
  with ns show ?thesis by blast
qed

lemma fetch_node_state_ok_witness:
  "\<exists>ns. ex_fetched = Inr ns \<and> ns_node_id ns = own_id 1 \<and> distinct (ns_references ns)"
proof -
  from ex_fetched_look obtain ns where ns: "ex_fetched = Inr ns" by (auto split: sum.splits)
  with fetch_node_state_ok [OF ns [unfolded ex_fetched_def]] show ?thesis by (auto simp: fetched_ok_def)
qed

end
