(* ===== verification/Node_Model.thy ===== *)
theory Node_Model
  imports Service_Fetcher "HOL-Library.Multiset"
begin

text \<open>
  \<open>node_service/base_node_model.cpp\<close> and the fields of \<open>node_service/v3/node_model_impl.h\<close>: what the service
  keeps of one node, which parts are fetched, and who waits for a part. A waiter is a coroutine; calling its callback
  is an output here, so the guard of \<open>NotifyCallbacks\<close> against calls of itself from a callback is not needed.
\<close>

datatype waiter = Caller nat | Children_Task nat

record ('n, 'v, 'c, 's) node_model =
  nm_status :: 's
  nm_fetch_status :: fetch_status
  nm_lock_count :: nat
  nm_fetching :: fetch_status
  nm_callbacks :: "(fetch_status \<times> waiter) list"
  nm_state :: "('n, 'v, 'c) node_state"
  nm_child_references :: "'n reference_description list"
  nm_child_models :: "'n list"
  nm_request :: "nat option"          \<comment> \<open>\<open>reference_request_\<close>, by its number\<close>
  nm_pending_model :: bool
  nm_pending_semantic :: bool
  nm_pending_state :: bool

definition new_node_model :: "('n, 'v, 's) nf_env \<Rightarrow> ('n, 'v, 'c, 's) node_model" where
  "new_node_model env =
     \<lparr>nm_status = ne_good env, nm_fetch_status = status_none, nm_lock_count = 0, nm_fetching = status_none, nm_callbacks = [],
      nm_state = empty_node_state env (ne_null env), nm_child_references = [], nm_child_models = [], nm_request = None,
      nm_pending_model = False, nm_pending_semantic = False, nm_pending_state = False\<rparr>"

definition all_parts :: fetch_status where
  "all_parts = status_union (status_union node_only children_only) non_hierarchical_inverse"

definition notify_callbacks :: "('n, 'v, 'c, 's) node_model \<Rightarrow> ('n, 'v, 'c, 's) node_model \<times> waiter list" where
  "notify_callbacks m =
     (if nm_lock_count m \<noteq> 0 then (m, [])
      else (m\<lparr>nm_callbacks := filter (\<lambda>(st, w). \<not> status_includes (nm_fetch_status m) st) (nm_callbacks m)\<rparr>,
            map snd (filter (\<lambda>(st, w). status_includes (nm_fetch_status m) st) (nm_callbacks m))))"

definition set_fetch_status ::
    "'s \<Rightarrow> fetch_status \<Rightarrow> ('n, 'v, 'c, 's) node_model \<Rightarrow> ('n, 'v, 'c, 's) node_model \<times> waiter list" where
  "set_fetch_status status fs m =
     (if nm_fetch_status m = fs then (m\<lparr>nm_status := status\<rparr>, [])
      else notify_callbacks (m\<lparr>nm_status := status, nm_fetch_status := fs, nm_fetching := status_union (nm_fetching m) fs\<rparr>))"

text \<open>\<open>StartFetch\<close>: the model, the callbacks that are called, and the parts to request if any.\<close>

definition model_start_fetch ::
    "fetch_status \<Rightarrow> waiter option \<Rightarrow> ('n, 'v, 'c, 's) node_model \<Rightarrow>
     ('n, 'v, 'c, 's) node_model \<times> waiter list \<times> fetch_status option" where
  "model_start_fetch requested callback m =
     (let queued = (case callback of None \<Rightarrow> [] | Some w \<Rightarrow> [(requested, w)]) in
      if status_includes (nm_fetch_status m) requested
      then (case callback of
              None \<Rightarrow> (m, [], None)
            | Some w \<Rightarrow> (let (m', ws) = notify_callbacks (m\<lparr>nm_callbacks := nm_callbacks m @ queued\<rparr>) in (m', ws, None)))
      else let fs = status_union (nm_fetching m) requested
           in (m\<lparr>nm_fetching := fs, nm_callbacks := nm_callbacks m @ queued\<rparr>, [], Some fs))"

definition on_node_deleted ::
    "'s \<Rightarrow> ('n, 'v, 'c, 's) node_model \<Rightarrow> ('n, 'v, 'c, 's) node_model \<times> waiter list" where
  "on_node_deleted wrong_node_id m = set_fetch_status wrong_node_id all_parts m"

section \<open>References of a model\<close>

text \<open>\<open>HasReference\<close> by \<open>IsSameReference\<close>: an edge is its type, direction and target.\<close>

definition has_edge :: "'n reference_description \<Rightarrow> ('n, 'v, 'c, 's) node_model \<Rightarrow> bool" where
  "has_edge r m \<longleftrightarrow> edge r \<in> edge ` set (ns_references (nm_state m)) \<or> edge r \<in> edge ` set (nm_child_references m)"

definition add_edge :: "'n reference_description \<Rightarrow> ('n, 'v, 'c, 's) node_model \<Rightarrow> ('n, 'v, 'c, 's) node_model" where
  "add_edge r m = m\<lparr>nm_state := (nm_state m)\<lparr>ns_references := ns_references (nm_state m) @ [r]\<rparr>\<rparr>"

text \<open>The references of a fetched state and the two inverse ones it implies.\<close>

definition with_inverse_references :: "('n, 'v, 's) nf_env \<Rightarrow> ('n, 'v, 'c) node_state \<Rightarrow> ('n, 'v, 'c) node_state" where
  "with_inverse_references env ns =
     ns\<lparr>ns_references := ns_references ns
        @ (if ns_parent_id ns \<noteq> ne_null env
           then [\<lparr>rd_reference_type_id = ns_reference_type_id ns, rd_forward = False, rd_node_id = ns_parent_id ns, rd_details = None\<rparr>] else [])
        @ (if ns_supertype_id ns \<noteq> ne_null env
           then [\<lparr>rd_reference_type_id = ne_has_subtype env, rd_forward = False, rd_node_id = ns_supertype_id ns, rd_details = None\<rparr>] else [])\<rparr>"

text \<open>The snapshot that is published: the state and the fetched child references.\<close>

definition snapshot :: "('n, 'v, 'c, 's) node_model \<Rightarrow> ('n, 'v, 'c) node_state" where
  "snapshot m = (nm_state m)\<lparr>ns_references := ns_references (nm_state m) @ nm_child_references m\<rparr>"

section \<open>Waiting\<close>

text \<open>Outside a fetch nobody waits for what is there.\<close>

definition waiting_ok :: "('n, 'v, 'c, 's) node_model \<Rightarrow> bool" where
  "waiting_ok m \<longleftrightarrow> (\<forall>(st, w) \<in> set (nm_callbacks m). \<not> status_includes (nm_fetch_status m) st)"

lemma waiting_ok_new [simp]: "waiting_ok (new_node_model env)"
  by (simp add: waiting_ok_def new_node_model_def)

lemma notify_callbacks_frame:
  assumes "notify_callbacks m = (m', ws)"
  shows "nm_status m' = nm_status m" "nm_fetch_status m' = nm_fetch_status m" "nm_lock_count m' = nm_lock_count m"
    "nm_state m' = nm_state m" "nm_child_references m' = nm_child_references m" "nm_request m' = nm_request m"
    "nm_child_models m' = nm_child_models m" "nm_pending_state m' = nm_pending_state m" "nm_pending_model m' = nm_pending_model m"
    "nm_pending_semantic m' = nm_pending_semantic m" "nm_fetching m' = nm_fetching m"
  using assms by (auto simp: notify_callbacks_def split: if_splits)

lemma mset_filter_parts: "mset (map f (filter (\<lambda>x. \<not> P x) xs)) + mset (map f (filter P xs)) = mset (map f xs)"
  by (induction xs) auto

lemma notify_callbacks_waiting:
  assumes "notify_callbacks m = (m', ws)"
  shows "nm_lock_count m = 0 \<Longrightarrow> waiting_ok m'" "set (nm_callbacks m') \<subseteq> set (nm_callbacks m)"
    "mset (map snd (nm_callbacks m')) + mset ws = mset (map snd (nm_callbacks m))"
    "(st, w) \<in> set (nm_callbacks m) \<Longrightarrow> w \<in> set ws \<or> (st, w) \<in> set (nm_callbacks m')"
proof -
  show "nm_lock_count m = 0 \<Longrightarrow> waiting_ok m'" "set (nm_callbacks m') \<subseteq> set (nm_callbacks m)"
    using assms by (auto simp: notify_callbacks_def waiting_ok_def split: if_splits)
  show "(st, w) \<in> set (nm_callbacks m) \<Longrightarrow> w \<in> set ws \<or> (st, w) \<in> set (nm_callbacks m')"
    using assms by (force simp: notify_callbacks_def split: if_splits)
  show "mset (map snd (nm_callbacks m')) + mset ws = mset (map snd (nm_callbacks m))"
    using assms mset_filter_parts [of snd "\<lambda>(st, w). status_includes (nm_fetch_status m) st" "nm_callbacks m"]
    by (auto simp: notify_callbacks_def case_prod_unfold simp del: mset_map split: if_splits)
qed

lemma union_assoc: "status_union (status_union a b) c = status_union a (status_union b c)"
  by (simp add: status_union_def or.assoc)

lemma includes_refl [simp]: "status_includes a a"
  by (simp add: status_includes_def)

lemma includes_trans: "status_includes a b \<Longrightarrow> status_includes b c \<Longrightarrow> status_includes a c"
  by (auto simp: includes_iff)

lemma includes_union_left [simp]: "status_includes (status_union a b) a"
  and includes_union_right [simp]: "status_includes (status_union a b) b"
  by (simp_all add: includes_union)

end
