(* ===== verification/Node_Service.thy ===== *)
theory Node_Service
  imports Node_Model Std_Map
begin

text \<open>
  \<open>node_service/v3/node_service_impl.cpp\<close> and the handlers of \<open>node_model_impl.cpp\<close>: models of nodes that are fetched on
  demand and live only while something holds them.

  A model is in \<open>vs_models\<close> while a shared pointer to it exists: in the keep-alive window, in a local variable of a
  running handler (\<open>vs_held\<close>), in a coroutine that fetches it, in a fetch that waits for the channel, or in a coroutine
  that awaits it; \<open>sweep\<close> is the destruction of the others. The fetcher answers in a later step. A coroutine that
  becomes ready (\<open>vs_ready\<close>) goes on in a step of its own, where the code resumes it inside the callback. Notifications
  of observers and requests are outputs. A failed check is \<open>None\<close>.
\<close>

record ('n, 'v, 's) vs_env =
  ve_ids :: "('n, 'v, 's) nf_env"
  ve_wrong_node_id :: 's
  ve_capacity :: nat
  ve_node_added :: "32 word"
  ve_node_deleted :: "32 word"
  ve_reference_added :: "32 word"
  ve_reference_deleted :: "32 word"

record 'n model_change =
  mc_node_id :: 'n
  mc_type_definition_id :: 'n
  mc_verb :: "32 word"

datatype ('n, 'v, 'c) vs_out =
  RequestNode 'n
| RequestChildren 'n
| ModelChanged "'n model_change"
| SemanticChanged 'n
| StateChanged 'n "('n, 'v, 'c) node_state" fetch_status

text \<open>The coroutine of \<open>OnChildrenFetched\<close>: the nodes it has not fetched yet, in its order.\<close>

record 'n children_task =
  ct_node :: 'n
  ct_references :: "'n reference_description list"
  ct_todo :: "'n list"

record ('n, 'v, 'c, 's) node_service =
  vs_models :: "('n, ('n, 'v, 'c, 's) node_model) smap"
  vs_keep_alive :: "'n list"
  vs_held :: "'n list"
  vs_opened :: bool
  vs_pending :: "('n, fetch_status \<times> bool) smap"
  vs_node_in_flight :: "'n set"
  vs_children_in_flight :: "'n set"
  vs_node_tasks :: "('n \<times> bool) list"
  vs_children_tasks :: "('n \<times> bool) list"
  vs_awaits :: "(waiter \<times> 'n) list"
  vs_ready :: "waiter list"
  vs_tails :: "(nat \<times> 'n children_task) list"
  vs_next :: nat

type_synonym ('n, 'v, 'c, 's) vs_step = "('n, 'v, 'c, 's) node_service \<times> ('n, 'v, 'c) vs_out list"

definition new_node_service :: "('n, 'v, 'c, 's) node_service" where
  "new_node_service =
     \<lparr>vs_models = [], vs_keep_alive = [], vs_held = [], vs_opened = False, vs_pending = [], vs_node_in_flight = {},
      vs_children_in_flight = {}, vs_node_tasks = [], vs_children_tasks = [], vs_awaits = [], vs_ready = [], vs_tails = [],
      vs_next = 0\<rparr>"

section \<open>Models and what holds them\<close>

definition find_node_model :: "'n::linorder \<Rightarrow> ('n, 'v, 'c, 's) node_service \<Rightarrow> ('n, 'v, 'c, 's) node_model option" where
  "find_node_model n s = smap_find (vs_models s) n"

definition put_model :: "'n::linorder \<Rightarrow> ('n, 'v, 'c, 's) node_model \<Rightarrow> ('n, 'v, 'c, 's) node_service \<Rightarrow> ('n, 'v, 'c, 's) node_service" where
  "put_model n m s = s\<lparr>vs_models := smap_put (vs_models s) n m\<rparr>"

definition pinned :: "('n, 'v, 'c, 's) node_service \<Rightarrow> 'n \<Rightarrow> bool" where
  "pinned s n \<longleftrightarrow> n \<in> set (vs_keep_alive s) \<or> n \<in> set (vs_held s)
     \<or> (n, True) \<in> set (vs_node_tasks s) \<or> (n, True) \<in> set (vs_children_tasks s)
     \<or> n \<in> snd ` set (vs_awaits s) \<or> n \<in> fst ` set (filter (\<lambda>p. snd (snd p)) (vs_pending s))"

definition sweep :: "('n, 'v, 'c, 's) node_service \<Rightarrow> ('n, 'v, 'c, 's) node_service" where
  "sweep s = s\<lparr>vs_models := filter (\<lambda>p. pinned s (fst p)) (vs_models s)\<rparr>"

definition hold :: "'n \<Rightarrow> ('n, 'v, 'c, 's) node_service \<Rightarrow> ('n, 'v, 'c, 's) node_service" where
  "hold n s = s\<lparr>vs_held := n # vs_held s\<rparr>"

definition release :: "'n \<Rightarrow> ('n, 'v, 'c, 's) node_service \<Rightarrow> ('n, 'v, 'c, 's) node_service" where
  "release n s = sweep (s\<lparr>vs_held := remove1 n (vs_held s)\<rparr>)"

definition touch_keep_alive ::
    "('n, 'v, 's) vs_env \<Rightarrow> 'n \<Rightarrow> ('n, 'v, 'c, 's) node_service \<Rightarrow> ('n, 'v, 'c, 's) node_service" where
  "touch_keep_alive E n s =
     (if ve_capacity E = 0 then s
      else if n \<in> set (vs_keep_alive s) then s\<lparr>vs_keep_alive := n # remove1 n (vs_keep_alive s)\<rparr>
      else sweep (s\<lparr>vs_keep_alive := take (ve_capacity E) (n # vs_keep_alive s)\<rparr>))"

definition remove_from_keep_alive :: "'n \<Rightarrow> ('n, 'v, 'c, 's) node_service \<Rightarrow> ('n, 'v, 'c, 's) node_service" where
  "remove_from_keep_alive n s =
     (if n \<in> set (vs_keep_alive s) then sweep (s\<lparr>vs_keep_alive := remove1 n (vs_keep_alive s)\<rparr>) else s)"

text \<open>\<open>GetNodeModel\<close> for an id that is not null; the caller holds the model.\<close>

definition get_node_model ::
    "('n::linorder, 'v, 's) vs_env \<Rightarrow> 'n \<Rightarrow> ('n, 'v, 'c, 's) node_service \<Rightarrow> ('n, 'v, 'c, 's) node_service" where
  "get_node_model E n s =
     touch_keep_alive E n (hold n
       (if find_node_model n s = None then put_model n (new_node_model (ve_ids E)) s else s))"

section \<open>Requests\<close>

definition spawn_fetch ::
    "'n \<Rightarrow> fetch_status \<Rightarrow> bool \<Rightarrow> ('n, 'v, 'c, 's) node_service \<Rightarrow> ('n, 'v, 'c, 's) vs_step" where
  "spawn_fetch n requested pin s =
     (let (s1, o1) =
        (if status_includes requested node_only \<and> n \<notin> vs_node_in_flight s
         then (s\<lparr>vs_node_in_flight := insert n (vs_node_in_flight s), vs_node_tasks := vs_node_tasks s @ [(n, pin)]\<rparr>,
               [RequestNode n])
         else (s, []));
        (s2, o2) =
        (if status_includes requested children_only \<and> n \<notin> vs_children_in_flight s1
         then (s1\<lparr>vs_children_in_flight := insert n (vs_children_in_flight s1),
                  vs_children_tasks := vs_children_tasks s1 @ [(n, pin)]\<rparr>, [RequestChildren n])
         else (s1, []))
      in (s2, o1 @ o2))"

definition on_fetch_node ::
    "'n::linorder \<Rightarrow> fetch_status \<Rightarrow> ('n, 'v, 'c, 's) node_service \<Rightarrow> ('n, 'v, 'c, 's) vs_step" where
  "on_fetch_node n requested s =
     (let resident = find_node_model n s \<noteq> None in
      if \<not> vs_opened s
      then let (old, pin) = (case smap_find (vs_pending s) n of None \<Rightarrow> (status_none, False) | Some p \<Rightarrow> p)
           in (s\<lparr>vs_pending := smap_put (vs_pending s) n (status_union old requested, pin \<or> resident)\<rparr>, [])
      else spawn_fetch n requested resident s)"

text \<open>\<open>StartFetch\<close> of the model of a node; called coroutines become ready.\<close>

definition start_fetch_of ::
    "'n::linorder \<Rightarrow> fetch_status \<Rightarrow> waiter option \<Rightarrow> ('n, 'v, 'c, 's) node_service \<Rightarrow> ('n, 'v, 'c, 's) vs_step" where
  "start_fetch_of n requested callback s =
     (case find_node_model n s of
        None \<Rightarrow> (s, [])
      | Some m \<Rightarrow>
          let (m', ws, request) = model_start_fetch requested callback m;
              s' = (put_model n m' s)\<lparr>vs_ready := vs_ready s @ ws\<rparr>
          in case request of None \<Rightarrow> (s', []) | Some fs \<Rightarrow> on_fetch_node n fs s')"

text \<open>\<open>GetNodeModelForRead\<close>: the caller holds the model unless the id is null.\<close>

definition get_node_model_for_read ::
    "('n::linorder, 'v, 's) vs_env \<Rightarrow> 'n \<Rightarrow> ('n, 'v, 'c, 's) node_service \<Rightarrow> ('n, 'v, 'c, 's) vs_step" where
  "get_node_model_for_read E n s =
     (if n = ne_null (ve_ids E) then (s, []) else start_fetch_of n node_only None (get_node_model E n s))"

definition release_read ::
    "('n::linorder, 'v, 's) vs_env \<Rightarrow> 'n \<Rightarrow> ('n, 'v, 'c, 's) node_service \<Rightarrow> ('n, 'v, 'c, 's) node_service" where
  "release_read E n s = (if n = ne_null (ve_ids E) then s else release n s)"

text \<open>\<open>GetNode\<close>: the cursor is the id, null for the null id.\<close>

definition get_node ::
    "('n::linorder, 'v, 's) vs_env \<Rightarrow> 'n \<Rightarrow> ('n, 'v, 'c, 's) node_service \<Rightarrow> ('n, 'v, 'c, 's) vs_step" where
  "get_node E n s = (let (s1, outs) = get_node_model_for_read E n s in (release_read E n s1, outs))"

definition service_start_fetch ::
    "('n::linorder, 'v, 's) vs_env \<Rightarrow> 'n \<Rightarrow> fetch_status \<Rightarrow> ('n, 'v, 'c, 's) node_service \<Rightarrow> ('n, 'v, 'c, 's) vs_step" where
  "service_start_fetch E n requested s =
     (if n = ne_null (ve_ids E) then (s, [])
      else let (s1, outs) = start_fetch_of n requested None (get_node_model E n s) in (release n s1, outs))"

text \<open>\<open>Fetch\<close>: the coroutine holds the model until it is called back.\<close>

definition service_fetch ::
    "('n::linorder, 'v, 's) vs_env \<Rightarrow> 'n \<Rightarrow> fetch_status \<Rightarrow> waiter \<Rightarrow> ('n, 'v, 'c, 's) node_service \<Rightarrow>
     ('n, 'v, 'c, 's) vs_step" where
  "service_fetch E n requested w s =
     (if n = ne_null (ve_ids E) then (s\<lparr>vs_ready := vs_ready s @ [w]\<rparr>, [])
      else let (s1, o1) = get_node_model_for_read E n s;
               (s2, o2) = start_fetch_of n requested (Some w) (s1\<lparr>vs_awaits := vs_awaits s1 @ [(w, n)]\<rparr>)
           in (release n s2, o1 @ o2))"

section \<open>Notifications of a model\<close>

definition notify_model_changed ::
    "('n::linorder, 'v, 's) vs_env \<Rightarrow> 'n \<Rightarrow> ('n, 'v, 'c, 's) node_model \<Rightarrow>
     ('n, 'v, 'c, 's) node_model \<times> ('n, 'v, 'c) vs_out list" where
  "notify_model_changed E n m =
     (if nm_lock_count m \<noteq> 0 then (m\<lparr>nm_pending_model := True\<rparr>, [])
      else (m\<lparr>nm_pending_model := False\<rparr>,
            [ModelChanged \<lparr>mc_node_id = n, mc_type_definition_id = ns_type_definition_id (nm_state m),
               mc_verb = or (ve_reference_added E) (ve_reference_deleted E)\<rparr>]))"

definition notify_semantic_changed ::
    "'n \<Rightarrow> ('n, 'v, 'c, 's) node_model \<Rightarrow> ('n, 'v, 'c, 's) node_model \<times> ('n, 'v, 'c) vs_out list" where
  "notify_semantic_changed n m =
     (if nm_lock_count m \<noteq> 0 then (m\<lparr>nm_pending_semantic := True\<rparr>, [])
      else (m\<lparr>nm_pending_semantic := False\<rparr>, [SemanticChanged n]))"

definition notify_state_changed ::
    "'n \<Rightarrow> ('n, 'v, 'c, 's) node_model \<Rightarrow> ('n, 'v, 'c, 's) node_model \<times> ('n, 'v, 'c) vs_out list" where
  "notify_state_changed n m =
     (if nm_lock_count m \<noteq> 0 then (m\<lparr>nm_pending_state := True\<rparr>, [])
      else (m\<lparr>nm_pending_state := False\<rparr>, [StateChanged n (snapshot m) (nm_fetch_status m)]))"

text \<open>Running a change of the model of a node.\<close>

definition update_model ::
    "'n::linorder \<Rightarrow> (('n, 'v, 'c, 's) node_model \<Rightarrow> ('n, 'v, 'c, 's) node_model \<times> ('n, 'v, 'c) vs_out list) \<Rightarrow>
     ('n, 'v, 'c, 's) node_service \<Rightarrow> ('n, 'v, 'c, 's) vs_step" where
  "update_model n f s =
     (case find_node_model n s of None \<Rightarrow> (s, []) | Some m \<Rightarrow> let (m', outs) = f m in (put_model n m' s, outs))"

definition update_status ::
    "'n::linorder \<Rightarrow> (('n, 'v, 'c, 's) node_model \<Rightarrow> ('n, 'v, 'c, 's) node_model \<times> waiter list) \<Rightarrow>
     ('n, 'v, 'c, 's) node_service \<Rightarrow> ('n, 'v, 'c, 's) node_service" where
  "update_status n f s =
     (case find_node_model n s of
        None \<Rightarrow> s
      | Some m \<Rightarrow> let (m', ws) = f m in (put_model n m' s)\<lparr>vs_ready := vs_ready s @ ws\<rparr>)"

section \<open>A fetched node\<close>

text \<open>One mirror reference, pushed into the model at the other end if it is resident and does not know it.\<close>

definition push_mirror ::
    "'n::linorder \<Rightarrow> 'n reference_description \<Rightarrow> ('n, 'v, 'c, 's) node_service \<Rightarrow> ('n, 'v, 'c, 's) vs_step" where
  "push_mirror n r s =
     (let mirror = \<lparr>rd_reference_type_id = rd_reference_type_id r, rd_forward = \<not> rd_forward r, rd_node_id = n, rd_details = None\<rparr> in
      if rd_node_id r = n then (s, [])
      else update_model (rd_node_id r)
        (\<lambda>target.
           if has_edge mirror target then (target, [])
           else if status_includes (nm_fetch_status target) node_only
           then notify_state_changed (rd_node_id r) (add_edge mirror target)
           else (add_edge mirror target, [])) s)"

fun push_mirrors ::
    "'n::linorder \<Rightarrow> 'n reference_description list \<Rightarrow> ('n, 'v, 'c, 's) node_service \<Rightarrow> ('n, 'v, 'c, 's) vs_step" where
  "push_mirrors n [] s = (s, [])"
| "push_mirrors n (r # rs) s =
     (let (s1, o1) = push_mirror n r s; (s2, o2) = push_mirrors n rs s1 in (s2, o1 @ o2))"

definition on_fetched ::
    "('n::linorder, 'v, 's) vs_env \<Rightarrow> 'n \<Rightarrow> ('n, 'v, 'c) node_state \<Rightarrow> ('n, 'v, 'c, 's) node_service \<Rightarrow>
     ('n, 'v, 'c, 's) vs_step" where
  "on_fetched E n ns s =
     (let state = with_inverse_references (ve_ids E) ns;
          (s1, o1) = update_model n (\<lambda>m. (m\<lparr>nm_lock_count := Suc (nm_lock_count m), nm_state := state\<rparr>, [])) s;
          (s2, o2) = push_mirrors n (ns_references state) s1;
          s3 = update_status n (\<lambda>m. set_fetch_status (ne_good (ve_ids E)) (status_union (nm_fetch_status m) node_only) m) s2;
          (s4, o4) = update_model n (notify_state_changed n) s3;
          (s5, o5) = update_model n (notify_model_changed E n) s4;
          (s6, o6) = update_model n (notify_semantic_changed n) s5
      in (s6, o1 @ o2 @ o4 @ o5 @ o6))"

definition on_fetch_completed ::
    "('n::linorder, 'v, 's) vs_env \<Rightarrow> 'n \<Rightarrow> ('n, 'v, 'c, 's) node_service \<Rightarrow> ('n, 'v, 'c, 's) vs_step option" where
  "on_fetch_completed E n s = do {
     m \<leftarrow> find_node_model n s;
     check (nm_lock_count m > 0);
     let s1 = put_model n (m\<lparr>nm_lock_count := nm_lock_count m - 1\<rparr>) s;
     let (s2, o2) = update_model n (\<lambda>m. if nm_pending_state m then notify_state_changed n m else (m, [])) s1;
     let (s3, o3) = update_model n (\<lambda>m. if nm_pending_model m then notify_model_changed E n m else (m, [])) s2;
     let (s4, o4) = update_model n (\<lambda>m. if nm_pending_semantic m then notify_semantic_changed n m else (m, [])) s3;
     Some (update_status n notify_callbacks s4, o2 @ o3 @ o4)
   }"

text \<open>\<open>ProcessFetchedNodes\<close> for one state, the only way it is called.\<close>

definition process_fetched_node ::
    "('n::linorder, 'v, 's) vs_env \<Rightarrow> ('n, 'v, 'c) node_state \<Rightarrow> ('n, 'v, 'c, 's) node_service \<Rightarrow>
     ('n, 'v, 'c, 's) vs_step option" where
  "process_fetched_node E ns s =
     (let n = ns_node_id ns in
      if find_node_model n s = None then Some (s, [])
      else do {
        let (s1, o1) = on_fetched E n ns (hold n s);
        (s2, o2) \<leftarrow> on_fetch_completed E n s1;
        Some (release n s2, o1 @ o2)
      })"

definition process_fetch_error ::
    "'n::linorder \<Rightarrow> 's \<Rightarrow> ('n, 'v, 'c, 's) node_service \<Rightarrow> ('n, 'v, 'c, 's) node_service" where
  "process_fetch_error n status s = update_status n (set_fetch_status status all_parts) s"

section \<open>Fetched children\<close>

definition on_children_fetched ::
    "'n::linorder \<Rightarrow> 'n reference_description list \<Rightarrow> ('n, 'v, 'c, 's) node_service \<Rightarrow> ('n, 'v, 'c, 's) node_service" where
  "on_children_fetched n refs s =
     (let i = vs_next s; todo = concat (map (\<lambda>r. [rd_node_id r, rd_reference_type_id r]) refs);
          s1 = fst (update_model n (\<lambda>m. (m\<lparr>nm_request := Some i\<rparr>, [])) s)
      in s1\<lparr>vs_next := Suc i, vs_tails := vs_tails s1 @ [(i, \<lparr>ct_node = n, ct_references = refs, ct_todo = todo\<rparr>)],
            vs_ready := vs_ready s1 @ [Children_Task i]\<rparr>)"

definition children_fetch_settled :: "'n \<Rightarrow> ('n, 'v, 'c, 's) node_service \<Rightarrow> ('n, 'v, 'c, 's) node_service" where
  "children_fetch_settled n s = s\<lparr>vs_children_in_flight := vs_children_in_flight s - {n}\<rparr>"

definition process_fetched_children ::
    "'n::linorder \<Rightarrow> 'n reference_description list \<Rightarrow> ('n, 'v, 'c, 's) node_service \<Rightarrow> ('n, 'v, 'c, 's) node_service" where
  "process_fetched_children n refs s =
     (if find_node_model n s = None then children_fetch_settled n s else on_children_fetched n refs s)"

text \<open>The last part of the coroutine; it applies the children if its request is still the current one of a model.\<close>

definition apply_children ::
    "'n reference_description list \<Rightarrow> ('n, 'v, 'c, 's) node_model \<Rightarrow> ('n, 'v, 'c, 's) node_model" where
  "apply_children refs m =
     m\<lparr>nm_child_references := refs,
       nm_state := (nm_state m)\<lparr>ns_references := filter (\<lambda>r. edge r \<notin> edge ` set refs) (ns_references (nm_state m))\<rparr>,
       nm_child_models := concat (map (\<lambda>r. [rd_node_id r, rd_reference_type_id r]) refs)\<rparr>"

definition finish_children ::
    "('n::linorder, 'v, 's) vs_env \<Rightarrow> nat \<Rightarrow> 'n children_task \<Rightarrow> ('n, 'v, 'c, 's) node_service \<Rightarrow> ('n, 'v, 'c, 's) vs_step" where
  "finish_children E i t s =
     (let n = ct_node t in
      case find_node_model n s of
        None \<Rightarrow> (children_fetch_settled n s, [])
      | Some m \<Rightarrow>
          if nm_request m \<noteq> Some i then (children_fetch_settled n s, [])
          else let s1 = put_model n (apply_children (ct_references t) m) (hold n s);
                   s2 = update_status n (\<lambda>m. set_fetch_status (nm_status m) (status_union (nm_fetch_status m) children_only) m) s1;
                   s3 = children_fetch_settled n s2;
                   (s4, o4) = update_model n (notify_state_changed n) s3;
                   (s5, o5) = update_model n (notify_model_changed E n) s4
               in (release n s5, o4 @ o5))"

text \<open>The coroutine up to its next wait.\<close>

definition children_task_step ::
    "('n::linorder, 'v, 's) vs_env \<Rightarrow> nat \<Rightarrow> ('n, 'v, 'c, 's) node_service \<Rightarrow> ('n, 'v, 'c, 's) vs_step" where
  "children_task_step E i s =
     (case map_of (vs_tails s) i of
        None \<Rightarrow> (s, [])
      | Some t \<Rightarrow>
          (case ct_todo t of
             [] \<Rightarrow> finish_children E i t (s\<lparr>vs_tails := filter (\<lambda>p. fst p \<noteq> i) (vs_tails s)\<rparr>)
           | m # todo \<Rightarrow>
               let s1 = s\<lparr>vs_tails := map (\<lambda>(j, u). if j = i then (j, u\<lparr>ct_todo := todo\<rparr>) else (j, u)) (vs_tails s)\<rparr>;
                   (s2, o2) = get_node E m s1;
                   (s3, o3) = service_fetch E m node_only (Children_Task i) s2
               in (s3, o2 @ o3)))"

section \<open>Steps of the service\<close>

definition resume :: "('n::linorder, 'v, 's) vs_env \<Rightarrow> waiter \<Rightarrow> ('n, 'v, 'c, 's) node_service \<Rightarrow> ('n, 'v, 'c, 's) vs_step" where
  "resume E w s =
     (let s1 = sweep (s\<lparr>vs_ready := remove1 w (vs_ready s), vs_awaits := filter (\<lambda>p. fst p \<noteq> w) (vs_awaits s)\<rparr>)
      in case w of Caller k \<Rightarrow> (s1, []) | Children_Task i \<Rightarrow> children_task_step E i s1)"

text \<open>The answers of the fetcher to the coroutines of \<open>SpawnFetch\<close>.\<close>

definition on_node_answer ::
    "('n::linorder, 'v, 's) vs_env \<Rightarrow> 'n \<times> bool \<Rightarrow> 's + ('n, 'v, 'c) node_state \<Rightarrow> ('n, 'v, 'c, 's) node_service \<Rightarrow>
     ('n, 'v, 'c, 's) vs_step option" where
  "on_node_answer E task result s =
     (let (n, pin) = task; s1 = s\<lparr>vs_node_tasks := remove1 task (vs_node_tasks s), vs_node_in_flight := vs_node_in_flight s - {n}\<rparr> in
      if \<not> pin then Some (s1, [])
      else do {
        (s2, outs) \<leftarrow> (case result of
            Inr ns \<Rightarrow> process_fetched_node E ns (hold n s1)
          | Inl status \<Rightarrow> Some (process_fetch_error n status (hold n s1), []));
        Some (release n s2, outs)
      })"

definition on_children_answer ::
    "('n::linorder, 'v, 's) vs_env \<Rightarrow> 'n \<times> bool \<Rightarrow> 's + 'n reference_description list \<Rightarrow> ('n, 'v, 'c, 's) node_service \<Rightarrow>
     ('n, 'v, 'c, 's) node_service" where
  "on_children_answer E task result s =
     (let (n, pin) = task; s1 = s\<lparr>vs_children_tasks := remove1 task (vs_children_tasks s)\<rparr> in
      if \<not> pin then children_fetch_settled n s1
      else release n (case result of
          Inr refs \<Rightarrow> process_fetched_children n refs (hold n s1)
        | Inl status \<Rightarrow> process_fetch_error n status (children_fetch_settled n (hold n s1))))"

fun spawn_pending ::
    "('n \<times> fetch_status \<times> bool) list \<Rightarrow> ('n, 'v, 'c, 's) node_service \<Rightarrow> ('n, 'v, 'c, 's) vs_step" where
  "spawn_pending [] s = (s, [])"
| "spawn_pending ((n, st, pin) # ps) s =
     (let (s1, o1) = spawn_fetch n st pin s; (s2, o2) = spawn_pending ps s1 in (s2, o1 @ o2))"

definition service_channel_opened :: "('n::linorder, 'v, 'c, 's) node_service \<Rightarrow> ('n, 'v, 'c, 's) vs_step option" where
  "service_channel_opened s = do {
     check (\<not> vs_opened s);
     let (s1, outs) = spawn_pending (vs_pending s) (s\<lparr>vs_opened := True, vs_pending := []\<rparr>);
     Some (sweep s1, outs)
   }"

definition service_channel_closed :: "('n, 'v, 'c, 's) node_service \<Rightarrow> ('n, 'v, 'c, 's) node_service option" where
  "service_channel_closed s = do {
     check (vs_opened s);
     check (vs_pending s = []);
     Some (s\<lparr>vs_opened := False\<rparr>)
   }"

text \<open>\<open>NodeModelImpl::OnModelChanged\<close> and the handlers of remote events.\<close>

definition model_on_model_changed ::
    "('n::linorder, 'v, 's) vs_env \<Rightarrow> 'n model_change \<Rightarrow> ('n, 'v, 'c, 's) node_model \<Rightarrow>
     ('n, 'v, 'c, 's) node_model \<times> waiter list" where
  "model_on_model_changed E e m =
     (if and (mc_verb e) (ve_node_deleted E) \<noteq> 0
      then let (m', ws) = on_node_deleted (ve_wrong_node_id E) m
           in (m'\<lparr>nm_child_models := [], nm_child_references := []\<rparr>, ws)
      else (m, []))"

definition service_on_model_changed ::
    "('n::linorder, 'v, 's) vs_env \<Rightarrow> 'n model_change \<Rightarrow> ('n, 'v, 'c, 's) node_service \<Rightarrow> ('n, 'v, 'c, 's) vs_step" where
  "service_on_model_changed E e s =
     (let n = mc_node_id e; deleted = and (mc_verb e) (ve_node_deleted E) \<noteq> 0; added = and (mc_verb e) (ve_node_added E) \<noteq> 0 in
      (if deleted then remove_from_keep_alive n (update_status n (model_on_model_changed E e) s)
       else if added then s
       else update_status n (model_on_model_changed E e) s,
       [ModelChanged e]))"

definition on_node_semantics_changed :: "'n \<Rightarrow> ('n, 'v, 'c, 's) node_service \<Rightarrow> ('n, 'v, 'c, 's) vs_step" where
  "on_node_semantics_changed n s = (s, [SemanticChanged n])"

definition get_pending_task_count :: "('n, 'v, 'c, 's) node_service \<Rightarrow> nat" where
  "get_pending_task_count s = length (vs_pending s)"

definition get_resident_node_count :: "('n, 'v, 'c, 's) node_service \<Rightarrow> nat" where
  "get_resident_node_count s = length (vs_models s)"

end
