(* ===== verification/Node_Service_Facts.thy ===== *)
theory Node_Service_Facts
  imports Node_Service
begin

text \<open>
  The invariant of the node service. \<open>K\<close> is the set of hierarchical reference types, by which the answers of the fetcher
  for a node and for its children differ.
\<close>

section \<open>The invariant\<close>

text \<open>A fetch of the node itself is under way or waits for the channel.\<close>

definition requested :: "('n::linorder, 'v, 'c, 's) node_service \<Rightarrow> 'n \<Rightarrow> bool" where
  "requested s n \<longleftrightarrow> (n, True) \<in> set (vs_node_tasks s)
     \<or> (\<exists>st. smap_find (vs_pending s) n = Some (st, True) \<and> status_includes st node_only)"

definition edges_of :: "('n, 'v, 'c, 's) node_model \<Rightarrow> 'n reference_description list" where
  "edges_of m = ns_references (nm_state m) @ nm_child_references m"

definition edges_ok :: "'n set option \<Rightarrow> ('n, 'v, 'c, 's) node_model \<Rightarrow> bool" where
  "edges_ok C m \<longleftrightarrow> (\<forall>K. C = Some K \<longrightarrow> distinct (map edge (edges_of m))
     \<and> (\<forall>r \<in> set (nm_child_references m). rd_forward r \<and> rd_reference_type_id r \<in> K))"

text \<open>What holds of a model between two handlers.\<close>

definition model_ok :: "'n set option \<Rightarrow> bool \<Rightarrow> ('n, 'v, 'c, 's) node_model \<Rightarrow> bool" where
  "model_ok K req m \<longleftrightarrow> nm_lock_count m = 0 \<and> \<not> nm_pending_state m \<and> \<not> nm_pending_model m \<and> \<not> nm_pending_semantic m
     \<and> waiting_ok m \<and> (\<forall>(st, w) \<in> set (nm_callbacks m). status_includes (nm_fetching m) st)
     \<and> (status_includes (nm_fetching m) node_only \<and> \<not> status_includes (nm_fetch_status m) node_only \<longrightarrow> req)
     \<and> edges_ok K m"

text \<open>Every coroutine that fetches a node holds its model, and a node has one at most.\<close>

definition tasks_ok :: "('n, 'v, 'c, 's) node_service \<Rightarrow> bool" where
  "tasks_ok s \<longleftrightarrow> distinct (map fst (vs_node_tasks s)) \<and> vs_node_in_flight s = fst ` set (vs_node_tasks s)
     \<and> (\<forall>p \<in> set (vs_node_tasks s). snd p) \<and> (\<forall>p \<in> set (vs_children_tasks s). snd p)"

definition frame_ok :: "('n::linorder, 'v, 's) vs_env \<Rightarrow> ('n, 'v, 'c, 's) node_service \<Rightarrow> bool" where
  "frame_ok E s \<longleftrightarrow> smap_ok (vs_models s) \<and> smap_ok (vs_pending s)
     \<and> (\<forall>n. find_node_model n s \<noteq> None \<longleftrightarrow> pinned s n)
     \<and> distinct (vs_keep_alive s) \<and> length (vs_keep_alive s) \<le> ve_capacity E
     \<and> (vs_opened s \<longrightarrow> vs_pending s = []) \<and> tasks_ok s \<and> (\<forall>p \<in> set (vs_pending s). snd (snd p))"

text \<open>Whoever awaits a node is ready or among the callbacks of its model, but for those of \<open>X\<close>.\<close>

definition wait_ok :: "waiter set \<Rightarrow> ('n::linorder, 'v, 'c, 's) node_service \<Rightarrow> bool" where
  "wait_ok X s \<longleftrightarrow> (\<forall>(w, n) \<in> set (vs_awaits s). w \<in> X \<or> w \<in> set (vs_ready s)
     \<or> (\<exists>m st. find_node_model n s = Some m \<and> (st, w) \<in> set (nm_callbacks m)))"

text \<open>The invariant, but for the waiters of \<open>X\<close> and the models of \<open>Y\<close>.\<close>

definition vs_ok ::
    "('n::linorder, 'v, 's) vs_env \<Rightarrow> 'n set option \<Rightarrow> waiter set \<Rightarrow> 'n set \<Rightarrow> ('n, 'v, 'c, 's) node_service \<Rightarrow> bool" where
  "vs_ok E K X Y s \<longleftrightarrow> frame_ok E s \<and> wait_ok X s
     \<and> (\<forall>n m. find_node_model n s = Some m \<longrightarrow> n \<notin> Y \<longrightarrow> model_ok K (requested s n) m)"

lemma vs_okD:
  assumes "vs_ok E K X Y s"
  shows "frame_ok E s" "wait_ok X s" "find_node_model n s = Some m \<Longrightarrow> n \<notin> Y \<Longrightarrow> model_ok K (requested s n) m"
  using assms by (auto simp: vs_ok_def)

lemma tasks_okD:
  assumes "tasks_ok s"
  shows "distinct (map fst (vs_node_tasks s))" "vs_node_in_flight s = fst ` set (vs_node_tasks s)"
    "p \<in> set (vs_node_tasks s) \<Longrightarrow> snd p" "p \<in> set (vs_children_tasks s) \<Longrightarrow> snd p"
  using assms unfolding tasks_ok_def by blast+

lemma frame_okD:
  assumes "frame_ok E s"
  shows "smap_ok (vs_models s)" "smap_ok (vs_pending s)" "find_node_model n s \<noteq> None \<longleftrightarrow> pinned s n"
    "distinct (vs_keep_alive s)" "length (vs_keep_alive s) \<le> ve_capacity E" "vs_opened s \<Longrightarrow> vs_pending s = []"
    "tasks_ok s" "q \<in> set (vs_pending s) \<Longrightarrow> snd (snd q)"
  using assms unfolding frame_ok_def by blast+

lemma vs_ok_mono: "vs_ok E K X Y s \<Longrightarrow> X \<subseteq> X' \<Longrightarrow> Y \<subseteq> Y' \<Longrightarrow> vs_ok E K X' Y' s"
  unfolding vs_ok_def wait_ok_def by blast

lemma model_ok_mono: "model_ok K req m \<Longrightarrow> (req \<Longrightarrow> req') \<Longrightarrow> model_ok K req' m"
  by (auto simp: model_ok_def)

section \<open>Finding models\<close>

lemma find_put_model [simp]: "find_node_model k (put_model n m s) = (if k = n then Some m else find_node_model k s)"
  by (simp add: find_node_model_def put_model_def smap_find_put)

lemma smap_find_filter_keys: "smap_find (filter (\<lambda>p. P (fst p)) xs) n = (if P n then smap_find xs n else None)"
  by (induction xs) (auto split: prod.splits)

lemma find_sweep: "find_node_model n (sweep s) = (if pinned s n then find_node_model n s else None)"
  by (simp add: find_node_model_def sweep_def smap_find_filter_keys)

lemma put_model_simps [simp]:
  "vs_keep_alive (put_model n m s) = vs_keep_alive s" "vs_held (put_model n m s) = vs_held s"
  "vs_opened (put_model n m s) = vs_opened s" "vs_pending (put_model n m s) = vs_pending s"
  "vs_node_in_flight (put_model n m s) = vs_node_in_flight s" "vs_children_in_flight (put_model n m s) = vs_children_in_flight s"
  "vs_node_tasks (put_model n m s) = vs_node_tasks s" "vs_children_tasks (put_model n m s) = vs_children_tasks s"
  "vs_awaits (put_model n m s) = vs_awaits s" "vs_ready (put_model n m s) = vs_ready s" "vs_tails (put_model n m s) = vs_tails s"
  "vs_next (put_model n m s) = vs_next s" "smap_ok (vs_models s) \<Longrightarrow> smap_ok (vs_models (put_model n m s))"
  by (simp_all add: put_model_def smap_ok_put)

lemma sweep_simps [simp]:
  "vs_keep_alive (sweep s) = vs_keep_alive s" "vs_held (sweep s) = vs_held s" "vs_opened (sweep s) = vs_opened s"
  "vs_pending (sweep s) = vs_pending s" "vs_node_in_flight (sweep s) = vs_node_in_flight s"
  "vs_children_in_flight (sweep s) = vs_children_in_flight s" "vs_node_tasks (sweep s) = vs_node_tasks s"
  "vs_children_tasks (sweep s) = vs_children_tasks s" "vs_awaits (sweep s) = vs_awaits s" "vs_ready (sweep s) = vs_ready s"
  "vs_tails (sweep s) = vs_tails s" "vs_next (sweep s) = vs_next s" "pinned (sweep s) n = pinned s n"
  by (simp_all add: sweep_def pinned_def)

lemma smap_ok_sweep: "smap_ok (vs_models s) \<Longrightarrow> smap_ok (vs_models (sweep s))"
  by (simp add: sweep_def key_sorted_filter)

text \<open>Changes of the state that do not touch the models.\<close>

lemma find_update [simp]:
  "find_node_model n (s\<lparr>vs_keep_alive := a\<rparr>) = find_node_model n s" "find_node_model n (s\<lparr>vs_held := a\<rparr>) = find_node_model n s"
  "find_node_model n (s\<lparr>vs_opened := b\<rparr>) = find_node_model n s" "find_node_model n (s\<lparr>vs_pending := c\<rparr>) = find_node_model n s"
  "find_node_model n (s\<lparr>vs_node_in_flight := d\<rparr>) = find_node_model n s"
  "find_node_model n (s\<lparr>vs_children_in_flight := d\<rparr>) = find_node_model n s"
  "find_node_model n (s\<lparr>vs_node_tasks := e\<rparr>) = find_node_model n s" "find_node_model n (s\<lparr>vs_children_tasks := e\<rparr>) = find_node_model n s"
  "find_node_model n (s\<lparr>vs_awaits := f\<rparr>) = find_node_model n s" "find_node_model n (s\<lparr>vs_ready := g\<rparr>) = find_node_model n s"
  "find_node_model n (s\<lparr>vs_tails := h\<rparr>) = find_node_model n s" "find_node_model n (s\<lparr>vs_next := i\<rparr>) = find_node_model n s"
  "find_node_model n (hold m s) = find_node_model n s"
  by (simp_all add: find_node_model_def hold_def)

lemma pinned_put [simp]: "pinned (put_model n m s) k = pinned s k"
  by (simp add: pinned_def)

lemma requested_put [simp]: "requested (put_model n m s) k = requested s k"
  by (simp add: requested_def)

lemma requested_sweep [simp]: "requested (sweep s) k = requested s k"
  by (simp add: requested_def)

section \<open>Destruction\<close>

text \<open>Dropping pins and destroying what is not pinned any more.\<close>

lemma sweep_ok:
  assumes old: "vs_ok E K X Y s0"
    and models: "vs_models s = vs_models s0" "vs_node_tasks s = vs_node_tasks s0" "vs_pending s = vs_pending s0"
      "vs_opened s = vs_opened s0" "vs_node_in_flight s = vs_node_in_flight s0" "vs_children_in_flight s = vs_children_in_flight s0"
      "vs_children_tasks s = vs_children_tasks s0" "vs_ready s = vs_ready s0" "vs_tails s = vs_tails s0"
    and awaits: "set (vs_awaits s) \<subseteq> set (vs_awaits s0)"
    and keep: "distinct (vs_keep_alive s)" "length (vs_keep_alive s) \<le> ve_capacity E"
    and pins: "\<And>n. pinned s n \<Longrightarrow> pinned s0 n"
  shows "vs_ok E K X Y (sweep s)"
proof -
  note f = frame_okD [OF vs_okD(1) [OF old]]
  have find: "find_node_model n s = find_node_model n s0" for n by (simp add: find_node_model_def models)
  have live: "find_node_model n (sweep s) \<noteq> None \<longleftrightarrow> pinned (sweep s) n" for n
    using f(3) [of n] pins [of n] by (simp add: find_sweep find)
  have "frame_ok E (sweep s)"
    using f(1,2) f(6-8) live keep unfolding frame_ok_def by (simp add: models smap_ok_sweep tasks_ok_def)
  moreover have "wait_ok X (sweep s)"
    unfolding wait_ok_def
  proof (rule ballI)
    fix p assume a: "p \<in> set (vs_awaits (sweep s))"
    obtain w n where p: "p = (w, n)" by force
    have "pinned s n" using a by (force simp: pinned_def p)
    then have "find_node_model n (sweep s) = find_node_model n s0" by (simp add: find_sweep find)
    moreover have "p \<in> set (vs_awaits s0)" using a awaits by auto
    ultimately show "case p of (w, n) \<Rightarrow> w \<in> X \<or> w \<in> set (vs_ready (sweep s))
        \<or> (\<exists>m st. find_node_model n (sweep s) = Some m \<and> (st, w) \<in> set (nm_callbacks m))"
      using vs_okD(2) [OF old] unfolding wait_ok_def by (auto simp: models p)
  qed
  moreover have "requested s n = requested s0 n" for n by (simp add: requested_def models)
  ultimately show ?thesis
    using vs_okD(3) [OF old] unfolding vs_ok_def by (auto simp: find_sweep find split: if_splits)
qed

section \<open>Changes of one model\<close>

abbreviation put_ready ::
    "'n::linorder \<Rightarrow> ('n, 'v, 'c, 's) node_model \<Rightarrow> waiter list \<Rightarrow> ('n, 'v, 'c, 's) node_service \<Rightarrow> ('n, 'v, 'c, 's) node_service" where
  "put_ready n m ws s \<equiv> (put_model n m s)\<lparr>vs_ready := vs_ready s @ ws\<rparr>"

lemma ready_simps [simp]:
  "pinned (s\<lparr>vs_ready := r\<rparr>) n = pinned s n" "requested (s\<lparr>vs_ready := r\<rparr>) n = requested s n"
  by (simp_all add: pinned_def requested_def)

lemma put_ready_ok:
  assumes old: "vs_ok E K X Y s" and m: "find_node_model n s = Some m" and Y: "Y \<subseteq> insert n Y'"
    and ok: "n \<notin> Y' \<Longrightarrow> model_ok K (requested s n) m'"
    and cbs: "\<And>st w. (st, w) \<in> set (nm_callbacks m) \<Longrightarrow> w \<in> set ws \<or> w \<in> snd ` set (nm_callbacks m')"
  shows "vs_ok E K X Y' (put_ready n m' ws s)"
proof -
  note f = frame_okD [OF vs_okD(1) [OF old]]
  have "find_node_model k (put_ready n m' ws s) \<noteq> None \<longleftrightarrow> pinned (put_ready n m' ws s) k" for k
    using f(3) [of k] m by auto
  then have "frame_ok E (put_ready n m' ws s)"
    using f unfolding frame_ok_def by (simp add: tasks_ok_def)
  moreover have "wait_ok X (put_ready n m' ws s)"
    unfolding wait_ok_def
  proof (rule ballI)
    fix p assume a: "p \<in> set (vs_awaits (put_ready n m' ws s))"
    obtain w k where p: "p = (w, k)" by force
    have "w \<in> X \<or> w \<in> set (vs_ready s) \<or> (\<exists>m st. find_node_model k s = Some m \<and> (st, w) \<in> set (nm_callbacks m))"
      using a p vs_okD(2) [OF old] unfolding wait_ok_def by auto
    then show "case p of (w, k) \<Rightarrow> w \<in> X \<or> w \<in> set (vs_ready (put_ready n m' ws s))
        \<or> (\<exists>m st. find_node_model k (put_ready n m' ws s) = Some m \<and> (st, w) \<in> set (nm_callbacks m))"
    proof (elim disjE exE conjE)
      fix m2 st assume c: "find_node_model k s = Some m2" "(st, w) \<in> set (nm_callbacks m2)"
      show ?thesis
      proof (cases "k = n")
        case True
        with c m cbs show ?thesis by (fastforce simp: p)
      qed (use c p in auto)
    qed (auto simp: p)
  qed
  moreover have "model_ok K (requested (put_ready n m' ws s) k) mk"
    if "find_node_model k (put_ready n m' ws s) = Some mk" "k \<notin> Y'" for k mk
    using that ok vs_okD(3) [OF old, of k mk] Y by (auto split: if_splits)
  ultimately show ?thesis unfolding vs_ok_def by blast
qed

lemma put_model_ready: "put_model n m s = put_ready n m [] s"
  by (simp add: put_model_def)

lemmas put_model_ok = put_ready_ok [where ws = "[]", folded put_model_ready]

section \<open>Holding and releasing\<close>

lemma hold_ok:
  assumes "vs_ok E K X Y s" "find_node_model n s \<noteq> None"
  shows "vs_ok E K X Y (hold n s)"
proof -
  note f = frame_okD [OF vs_okD(1) [OF assms(1)]]
  have "pinned (hold n s) k \<longleftrightarrow> k = n \<or> pinned s k" for k by (auto simp: pinned_def hold_def)
  then have "find_node_model k (hold n s) \<noteq> None \<longleftrightarrow> pinned (hold n s) k" for k using f(3) [of k] assms(2) by auto
  moreover have "vs_awaits (hold n s) = vs_awaits s" "vs_ready (hold n s) = vs_ready s" "requested (hold n s) k = requested s k" for k
    by (simp_all add: hold_def requested_def)
  moreover have "frame_ok E (hold n s) \<longleftrightarrow> (\<forall>k. find_node_model k (hold n s) \<noteq> None \<longleftrightarrow> pinned (hold n s) k)"
    using f unfolding frame_ok_def by (simp add: hold_def tasks_ok_def find_node_model_def)
  ultimately show ?thesis using assms(1) by (simp add: vs_ok_def wait_ok_def)
qed

lemma release_ok:
  assumes "vs_ok E K X Y s"
  shows "vs_ok E K X Y (release n s)"
  unfolding release_def
proof (rule sweep_ok [OF assms])
  show "distinct (vs_keep_alive (s\<lparr>vs_held := remove1 n (vs_held s)\<rparr>))"
    "length (vs_keep_alive (s\<lparr>vs_held := remove1 n (vs_held s)\<rparr>)) \<le> ve_capacity E"
    using frame_okD [OF vs_okD(1) [OF assms]] by simp_all
  show "pinned (s\<lparr>vs_held := remove1 n (vs_held s)\<rparr>) k \<Longrightarrow> pinned s k" for k
    by (auto simp: pinned_def dest: notin_set_remove1)
qed simp_all

text \<open>What else releasing does.\<close>

lemma release_simps [simp]:
  "vs_keep_alive (release n s) = vs_keep_alive s" "vs_held (release n s) = remove1 n (vs_held s)" "vs_opened (release n s) = vs_opened s"
  "vs_pending (release n s) = vs_pending s" "vs_node_in_flight (release n s) = vs_node_in_flight s"
  "vs_children_in_flight (release n s) = vs_children_in_flight s" "vs_node_tasks (release n s) = vs_node_tasks s"
  "vs_children_tasks (release n s) = vs_children_tasks s" "vs_awaits (release n s) = vs_awaits s" "vs_ready (release n s) = vs_ready s"
  "vs_tails (release n s) = vs_tails s" "vs_next (release n s) = vs_next s" "requested (release n s) k = requested s k"
  by (simp_all add: release_def requested_def)

lemma hold_simps [simp]:
  "vs_models (hold n s) = vs_models s" "vs_keep_alive (hold n s) = vs_keep_alive s" "vs_held (hold n s) = n # vs_held s" "vs_opened (hold n s) = vs_opened s"
  "vs_pending (hold n s) = vs_pending s" "vs_node_in_flight (hold n s) = vs_node_in_flight s"
  "vs_children_in_flight (hold n s) = vs_children_in_flight s" "vs_node_tasks (hold n s) = vs_node_tasks s"
  "vs_children_tasks (hold n s) = vs_children_tasks s" "vs_awaits (hold n s) = vs_awaits s" "vs_ready (hold n s) = vs_ready s"
  "vs_tails (hold n s) = vs_tails s" "vs_next (hold n s) = vs_next s" "requested (hold n s) k = requested s k"
  by (simp_all add: hold_def requested_def)

lemma touch_ok:
  assumes "vs_ok E K X Y s" "find_node_model n s \<noteq> None"
  shows "vs_ok E K X Y (touch_keep_alive E n s)" "n \<in> set (vs_held s) \<Longrightarrow> find_node_model n (touch_keep_alive E n s) \<noteq> None"
proof -
  note f = frame_okD [OF vs_okD(1) [OF assms(1)]]
  let ?a = "s\<lparr>vs_keep_alive := n # remove1 n (vs_keep_alive s)\<rparr>"
  let ?b = "s\<lparr>vs_keep_alive := take (ve_capacity E) (n # vs_keep_alive s)\<rparr>"
  have pn: "pinned s n" using f(3) [of n] assms(2) by simp
  have A: "vs_ok E K X Y ?a" if n: "n \<in> set (vs_keep_alive s)"
  proof -
    have set: "set (n # remove1 n (vs_keep_alive s)) = set (vs_keep_alive s)" using n f(4) by auto
    then have pin: "pinned ?a k = pinned s k" for k unfolding pinned_def by simp
    have "length (n # remove1 n (vs_keep_alive s)) = length (vs_keep_alive s)"
      using n by (simp add: length_remove1) (metis One_nat_def Suc_pred length_pos_if_in_set)
    then have "frame_ok E ?a" using f pin unfolding frame_ok_def by (simp add: tasks_ok_def)
    moreover have "requested ?a k = requested s k" for k by (simp add: requested_def)
    ultimately show ?thesis using assms(1) by (simp add: vs_ok_def wait_ok_def)
  qed
  have B: "vs_ok E K X Y (sweep ?b)" if n: "n \<notin> set (vs_keep_alive s)"
  proof (rule sweep_ok [OF assms(1)])
    show "distinct (vs_keep_alive ?b)" "length (vs_keep_alive ?b) \<le> ve_capacity E" using f(4) n by simp_all
    show "pinned s k" if "pinned ?b k" for k
      using that pn set_take_subset [of "ve_capacity E" "n # vs_keep_alive s"] by (auto simp: pinned_def)
  qed simp_all
  show "vs_ok E K X Y (touch_keep_alive E n s)" using A B assms(1) by (simp add: touch_keep_alive_def)
  show "find_node_model n (touch_keep_alive E n s) \<noteq> None" if h: "n \<in> set (vs_held s)"
  proof -
    have "pinned ?b n" using h by (simp add: pinned_def)
    then show ?thesis using assms(2) by (simp add: touch_keep_alive_def find_sweep)
  qed
qed

section \<open>Getting a model\<close>

lemma model_ok_new: "model_ok K req (new_node_model env)"
  by (simp add: model_ok_def edges_ok_def edges_of_def new_node_model_def waiting_ok_def empty_node_state_def status_includes_def
      status_none_def node_only_def)

lemma hold_new_ok:
  assumes "vs_ok E K X Y s" "find_node_model n s = None"
  shows "vs_ok E K X Y (hold n (put_model n (new_node_model env) s))"
proof -
  note f = frame_okD [OF vs_okD(1) [OF assms(1)]]
  let ?s = "hold n (put_model n (new_node_model env) s)"
  have "pinned ?s k \<longleftrightarrow> k = n \<or> pinned s k" for k by (auto simp: pinned_def)
  then have "find_node_model k ?s \<noteq> None \<longleftrightarrow> pinned ?s k" for k using f(3) [of k] by auto
  then have "frame_ok E ?s" using f unfolding frame_ok_def by (simp add: tasks_ok_def hold_def)
  moreover have "wait_ok X ?s"
    unfolding wait_ok_def
  proof (rule ballI)
    fix p assume a: "p \<in> set (vs_awaits ?s)"
    obtain w k where p: "p = (w, k)" by force
    have "k \<noteq> n" using a assms(2) f(3) [of n] by (force simp: p pinned_def)
    then show "case p of (w, k) \<Rightarrow> w \<in> X \<or> w \<in> set (vs_ready ?s)
        \<or> (\<exists>m st. find_node_model k ?s = Some m \<and> (st, w) \<in> set (nm_callbacks m))"
      using a vs_okD(2) [OF assms(1)] unfolding wait_ok_def by (auto simp: p)
  qed
  ultimately show ?thesis using vs_okD(3) [OF assms(1)] model_ok_new by (auto simp: vs_ok_def split: if_splits)
qed

lemma touch_held [simp]: "vs_held (touch_keep_alive E n s) = vs_held s"
  by (simp add: touch_keep_alive_def)

lemma get_node_model_ok:
  assumes "vs_ok E K X Y s"
  shows "vs_ok E K X Y (get_node_model E n s)" "find_node_model n (get_node_model E n s) \<noteq> None"
    "vs_held (get_node_model E n s) = n # vs_held s"
proof -
  have "vs_ok E K X Y (hold n (if find_node_model n s = None then put_model n (new_node_model (ve_ids E)) s else s))"
    using hold_new_ok [OF assms] hold_ok [OF assms, of n] by simp
  moreover have "find_node_model n (hold n (if find_node_model n s = None then put_model n (new_node_model (ve_ids E)) s else s)) \<noteq> None"
    by simp
  ultimately show "vs_ok E K X Y (get_node_model E n s)" "find_node_model n (get_node_model E n s) \<noteq> None"
    using touch_ok unfolding get_node_model_def by (blast, fastforce)
  show "vs_held (get_node_model E n s) = n # vs_held s" by (simp add: get_node_model_def)
qed

section \<open>Requests\<close>

text \<open>A state that differs by more requests.\<close>

definition more_requests :: "('n::linorder, 'v, 'c, 's) node_service \<Rightarrow> ('n, 'v, 'c, 's) node_service \<Rightarrow> bool" where
  "more_requests s s' \<longleftrightarrow> vs_models s' = vs_models s \<and> vs_keep_alive s' = vs_keep_alive s \<and> vs_held s' = vs_held s
     \<and> vs_opened s' = vs_opened s \<and> vs_awaits s' = vs_awaits s \<and> vs_ready s' = vs_ready s
     \<and> (\<forall>k. requested s k \<longrightarrow> requested s' k)"

lemma more_requests_ok:
  assumes old: "vs_ok E K X Y s" and more: "more_requests s s'" and tasks: "tasks_ok s'"
    and pend: "smap_ok (vs_pending s')" "vs_opened s \<Longrightarrow> vs_pending s' = []" "\<forall>p \<in> set (vs_pending s'). snd (snd p)"
    and pins: "\<And>k. pinned s' k \<longleftrightarrow> pinned s k"
  shows "vs_ok E K X Y s'"
proof -
  note f = frame_okD [OF vs_okD(1) [OF old]]
  have find: "find_node_model k s' = find_node_model k s" for k using more by (simp add: more_requests_def find_node_model_def)
  have "frame_ok E s'" using f more tasks pend pins find unfolding frame_ok_def by (simp add: more_requests_def)
  moreover have "wait_ok X s'" using vs_okD(2) [OF old] more by (simp add: wait_ok_def find more_requests_def)
  moreover have "model_ok K (requested s' k) m" if "find_node_model k s' = Some m" "k \<notin> Y" for k m
    using vs_okD(3) [OF old, of k m] that more by (auto simp: find more_requests_def intro: model_ok_mono)
  ultimately show ?thesis by (simp add: vs_ok_def)
qed

lemma spawn_fetch_facts:
  assumes "tasks_ok s"
  shows "more_requests s (fst (spawn_fetch n st True s))" "tasks_ok (fst (spawn_fetch n st True s))"
    "vs_pending (fst (spawn_fetch n st True s)) = vs_pending s"
    "pinned (fst (spawn_fetch n st True s)) k \<Longrightarrow> k = n \<or> pinned s k" "pinned s k \<Longrightarrow> pinned (fst (spawn_fetch n st True s)) k"
    "set (vs_node_tasks s) \<subseteq> set (vs_node_tasks (fst (spawn_fetch n st True s)))"
    "status_includes st node_only \<Longrightarrow> (n, True) \<in> set (vs_node_tasks (fst (spawn_fetch n st True s)))"
proof -
  note t = tasks_okD [OF assms]
  have "(n, True) \<in> set (vs_node_tasks s)" if "n \<in> vs_node_in_flight s"
    using that t(2,3) by force
  then show "status_includes st node_only \<Longrightarrow> (n, True) \<in> set (vs_node_tasks (fst (spawn_fetch n st True s)))"
    by (auto simp: spawn_fetch_def)
  show "more_requests s (fst (spawn_fetch n st True s))"
    by (auto simp: spawn_fetch_def more_requests_def requested_def)
  show "tasks_ok (fst (spawn_fetch n st True s))"
    using assms t(2) by (auto simp: spawn_fetch_def tasks_ok_def)
  show "vs_pending (fst (spawn_fetch n st True s)) = vs_pending s" by (simp add: spawn_fetch_def)
  show "set (vs_node_tasks s) \<subseteq> set (vs_node_tasks (fst (spawn_fetch n st True s)))" by (auto simp: spawn_fetch_def)
  show "pinned (fst (spawn_fetch n st True s)) k \<Longrightarrow> k = n \<or> pinned s k" "pinned s k \<Longrightarrow> pinned (fst (spawn_fetch n st True s)) k"
    by (auto simp: spawn_fetch_def pinned_def split: if_splits)
qed

lemma smap_put_set: "smap_ok m \<Longrightarrow> set (smap_put m k v) \<subseteq> insert (k, v) (set m)"
  by (induction m k v rule: smap_put.induct) auto

lemma on_fetch_node_ok:
  assumes old: "vs_ok E K X Y s" and live: "find_node_model n s \<noteq> None"
  shows "vs_ok E K X Y (fst (on_fetch_node n st s))" "vs_models (fst (on_fetch_node n st s)) = vs_models s"
    "vs_held (fst (on_fetch_node n st s)) = vs_held s" "vs_awaits (fst (on_fetch_node n st s)) = vs_awaits s"
    "status_includes st node_only \<Longrightarrow> requested (fst (on_fetch_node n st s)) n"
proof -
  note f = frame_okD [OF vs_okD(1) [OF old]]
  let ?s = "fst (on_fetch_node n st s)"
  have pn: "pinned s n" using f(3) [of n] live by simp
  have A: "vs_ok E K X Y ?s \<and> vs_models ?s = vs_models s \<and> vs_held ?s = vs_held s \<and> vs_awaits ?s = vs_awaits s
    \<and> (status_includes st node_only \<longrightarrow> requested ?s n)"
  proof (cases "vs_opened s")
    case True
    then have eq: "?s = fst (spawn_fetch n st True s)" using live by (simp add: on_fetch_node_def)
    note g = spawn_fetch_facts [OF f(7), where n = n and st = st]
    have pins: "pinned (fst (spawn_fetch n st True s)) k \<longleftrightarrow> pinned s k" for k using g(4,5) pn by blast
    have "vs_ok E K X Y ?s" unfolding eq
      by (rule more_requests_ok [OF old g(1,2)]) (use f(2,6,8) g(3) pins in auto)
    then show ?thesis using g(1,7) unfolding eq more_requests_def requested_def by blast
  next
    case False
    obtain o1 pin where op: "(case smap_find (vs_pending s) n of None \<Rightarrow> (status_none, False) | Some p \<Rightarrow> p) = (o1, pin)" by force
    let ?p = "smap_put (vs_pending s) n (status_union o1 st, True)"
    have eq: "?s = s\<lparr>vs_pending := ?p\<rparr>" using False live op by (simp add: on_fetch_node_def)
    have find: "smap_find ?p k = (if k = n then Some (status_union o1 st, True) else smap_find (vs_pending s) k)" for k
      by (simp add: smap_find_put)
    have "requested ?s k" if "requested s k" for k
    proof (cases "k = n")
      case True
      with that op show ?thesis
        by (auto simp: eq requested_def find includes_union)
    qed (use that in \<open>auto simp: eq requested_def find\<close>)
    then have more: "more_requests s ?s" by (simp add: eq more_requests_def)
    have keys: "p \<in> set ?p \<Longrightarrow> p = (n, status_union o1 st, True) \<or> p \<in> set (vs_pending s)" for p
      using smap_put_set [OF f(2)] by blast
    have all: "\<forall>p \<in> set ?p. snd (snd p)" using keys f(8) by fastforce
    have pins: "pinned ?s k \<longleftrightarrow> pinned s k" for k
    proof -
      from all have "filter (\<lambda>p. snd (snd p)) ?p = ?p" "filter (\<lambda>p. snd (snd p)) (vs_pending s) = vs_pending s"
        using f(8) by (simp_all add: filter_id_conv)
      then show ?thesis using pn unfolding eq pinned_def by (auto simp: smap_keys_put)
    qed
    have "vs_ok E K X Y ?s"
      by (rule more_requests_ok [OF old more])
        (use f(2,7) all pins False in \<open>simp_all add: eq smap_ok_put tasks_ok_def\<close>)
    then show ?thesis by (auto simp: eq requested_def find includes_union)
  qed
  then show "vs_ok E K X Y ?s" "vs_models ?s = vs_models s" "vs_held ?s = vs_held s" "vs_awaits ?s = vs_awaits s"
    "status_includes st node_only \<Longrightarrow> requested ?s n" by blast+
qed

section \<open>Starting a fetch\<close>

lemma model_start_fetch_ok:
  assumes ok: "model_ok K req m" and r: "model_start_fetch st w m = (m', ws, request)"
  shows "\<And>fs. request = Some fs \<Longrightarrow> status_includes (nm_fetching m') node_only \<Longrightarrow> status_includes fs node_only"
    and "request = None \<Longrightarrow> model_ok K req m'" "model_ok K True m'"
    and "set_option w \<union> snd ` set (nm_callbacks m) \<subseteq> set ws \<union> snd ` set (nm_callbacks m')"
proof -
  have "(\<forall>fs. request = Some fs \<longrightarrow> status_includes (nm_fetching m') node_only \<longrightarrow> status_includes fs node_only)
    \<and> (request = None \<longrightarrow> model_ok K req m') \<and> model_ok K True m'
    \<and> set_option w \<union> snd ` set (nm_callbacks m) \<subseteq> set ws \<union> snd ` set (nm_callbacks m')"
  proof (cases "status_includes (nm_fetch_status m) st")
    case True
    show ?thesis
    proof (cases w)
      case None
      with r True ok show ?thesis by (auto simp: model_start_fetch_def intro: model_ok_mono)
    next
      case (Some x)
      let ?m = "m\<lparr>nm_callbacks := nm_callbacks m @ [(st, x)]\<rparr>"
      from r True Some have n: "notify_callbacks ?m = (m', ws)" and req: "request = None"
        by (auto simp: model_start_fetch_def split: prod.splits)
      have keep: "nm_callbacks m' = filter (\<lambda>(st, w). \<not> status_includes (nm_fetch_status m) st) (nm_callbacks m)"
        using n True ok by (auto simp: notify_callbacks_def model_ok_def)
      have "set_option w \<union> snd ` set (nm_callbacks m) \<subseteq> set ws \<union> snd ` set (nm_callbacks m')"
        using notify_callbacks_waiting(4) [OF n] Some by force
      moreover have "model_ok K req m'"
        using ok keep notify_callbacks_frame [OF n] by (auto simp: model_ok_def edges_ok_def edges_of_def waiting_ok_def)
      ultimately show ?thesis using req by (auto intro: model_ok_mono)
    qed
  next
    case False
    let ?q = "case w of None \<Rightarrow> [] | Some w \<Rightarrow> [(st, w)]"
    from r False have m': "m' = m\<lparr>nm_fetching := status_union (nm_fetching m) st, nm_callbacks := nm_callbacks m @ ?q\<rparr>"
      and rest: "ws = []" "request = Some (status_union (nm_fetching m) st)"
      by (auto simp: model_start_fetch_def Let_def)
    have "model_ok K True m'"
      using ok False unfolding m' model_ok_def waiting_ok_def edges_ok_def edges_of_def
      by (auto simp: includes_union split: option.splits)
    moreover have "set_option w \<union> snd ` set (nm_callbacks m) \<subseteq> snd ` set (nm_callbacks m')"
      by (auto simp: m' split: option.splits)
    ultimately show ?thesis using rest by (auto simp: m')
  qed
  then show "\<And>fs. request = Some fs \<Longrightarrow> status_includes (nm_fetching m') node_only \<Longrightarrow> status_includes fs node_only"
    "request = None \<Longrightarrow> model_ok K req m'" "model_ok K True m'"
    "set_option w \<union> snd ` set (nm_callbacks m) \<subseteq> set ws \<union> snd ` set (nm_callbacks m')" by blast+
qed

lemma start_fetch_of_ok:
  assumes old: "vs_ok E K X {} s" and live: "find_node_model n s \<noteq> None"
    and w: "\<And>x k. w = Some x \<Longrightarrow> (x, k) \<in> set (vs_awaits s) \<Longrightarrow> k = n"
  shows "vs_ok E K (X - set_option w) {} (fst (start_fetch_of n st w s))"
    "find_node_model n (fst (start_fetch_of n st w s)) \<noteq> None" "vs_held (fst (start_fetch_of n st w s)) = vs_held s"
    "vs_awaits (fst (start_fetch_of n st w s)) = vs_awaits s"
proof -
  obtain m where m: "find_node_model n s = Some m" using live by blast
  obtain m' ws request where r: "model_start_fetch st w m = (m', ws, request)" by (metis prod_cases3)
  note mo = model_start_fetch_ok [OF vs_okD(3) [OF old m] r, simplified]
  let ?s1 = "put_ready n m' ws s"
  have one: "vs_ok E K X {n} ?s1"
    by (rule put_ready_ok [OF old m]) (use mo(4) in force)+
  have wait: "wait_ok (X - set_option w) ?s1"
    unfolding wait_ok_def
  proof (rule ballI)
    fix p assume a: "p \<in> set (vs_awaits ?s1)"
    obtain x k where p: "p = (x, k)" by force
    show "case p of (x, k) \<Rightarrow> x \<in> X - set_option w \<or> x \<in> set (vs_ready ?s1)
        \<or> (\<exists>m st. find_node_model k ?s1 = Some m \<and> (st, x) \<in> set (nm_callbacks m))"
    proof (cases "w = Some x")
      case True
      then have "k = n" "x \<in> set ws \<or> x \<in> snd ` set (nm_callbacks m')" using w a mo(4) by (auto simp: p)
      then show ?thesis by (force simp: p)
    next
      case False
      then show ?thesis using a vs_okD(2) [OF one] unfolding wait_ok_def by (auto simp: p)
    qed
  qed
  have one': "vs_ok E K (X - set_option w) {n} ?s1" using one wait by (simp add: vs_ok_def)
  have "vs_ok E K (X - set_option w) {} (fst (start_fetch_of n st w s)) \<and> find_node_model n (fst (start_fetch_of n st w s)) \<noteq> None
    \<and> vs_held (fst (start_fetch_of n st w s)) = vs_held s \<and> vs_awaits (fst (start_fetch_of n st w s)) = vs_awaits s"
  proof (cases request)
    case None
    then have "fst (start_fetch_of n st w s) = ?s1" by (simp add: start_fetch_of_def m r)
    moreover have "vs_ok E K (X - set_option w) {} ?s1"
      using one' mo(2) [OF None] by (auto simp: vs_ok_def)
    ultimately show ?thesis by simp
  next
    case (Some fs)
    let ?s2 = "fst (on_fetch_node n fs ?s1)"
    have eq: "fst (start_fetch_of n st w s) = ?s2" by (simp add: start_fetch_of_def m r Some)
    have live1: "find_node_model n ?s1 \<noteq> None" by simp
    note o = on_fetch_node_ok [OF one' live1, of fs]
    have find: "find_node_model k ?s2 = find_node_model k ?s1" for k using o(2) by (simp add: find_node_model_def)
    have "model_ok K (requested ?s2 n) m'"
      using mo(1) [OF Some] mo(3) o(5) by (auto simp: model_ok_def)
    then have "vs_ok E K (X - set_option w) {} ?s2" using o(1) by (auto simp: vs_ok_def find)
    then show ?thesis using o(3,4) by (simp add: eq find)
  qed
  then show "vs_ok E K (X - set_option w) {} (fst (start_fetch_of n st w s))"
    "find_node_model n (fst (start_fetch_of n st w s)) \<noteq> None" "vs_held (fst (start_fetch_of n st w s)) = vs_held s"
    "vs_awaits (fst (start_fetch_of n st w s)) = vs_awaits s" by blast+
qed

lemma touch_awaits [simp]: "vs_awaits (touch_keep_alive E n s) = vs_awaits s"
  by (simp add: touch_keep_alive_def)

lemma get_node_model_awaits [simp]: "vs_awaits (get_node_model E n s) = vs_awaits s"
  by (simp add: get_node_model_def)

lemma read_ok:
  assumes "vs_ok E K X {} s"
  shows "vs_ok E K X {} (fst (get_node_model_for_read E n s))"
    "vs_awaits (fst (get_node_model_for_read E n s)) = vs_awaits s"
    "vs_held (fst (get_node_model_for_read E n s)) = (if n = ne_null (ve_ids E) then vs_held s else n # vs_held s)"
    "n \<noteq> ne_null (ve_ids E) \<Longrightarrow> find_node_model n (fst (get_node_model_for_read E n s)) \<noteq> None"
  using start_fetch_of_ok [OF get_node_model_ok(1,2) [OF assms], where w = None and st = node_only] get_node_model_ok(3) [OF assms] assms
  by (auto simp: get_node_model_for_read_def)

lemma get_node_ok:
  assumes "vs_ok E K X {} s"
  shows "vs_ok E K X {} (fst (get_node E n s))" "vs_held (fst (get_node E n s)) = vs_held s"
    "vs_awaits (fst (get_node E n s)) = vs_awaits s"
  using read_ok [OF assms, of n] release_ok [OF read_ok(1) [OF assms, of n], of n]
  by (auto simp: get_node_def release_read_def case_prod_unfold Let_def)

lemma service_start_fetch_ok:
  assumes "vs_ok E K X {} s"
  shows "vs_ok E K X {} (fst (service_start_fetch E n st s))" "vs_held (fst (service_start_fetch E n st s)) = vs_held s"
  using start_fetch_of_ok [OF get_node_model_ok(1,2) [OF assms], where w = None and st = st] get_node_model_ok(3) [OF assms] assms
  by (auto simp: service_start_fetch_def case_prod_unfold Let_def intro!: release_ok)

lemma add_await_ok:
  assumes "vs_ok E K X {} s" "find_node_model n s \<noteq> None"
  shows "vs_ok E K (insert w X) {} (s\<lparr>vs_awaits := vs_awaits s @ [(w, n)]\<rparr>)"
proof -
  note f = frame_okD [OF vs_okD(1) [OF assms(1)]]
  let ?s = "s\<lparr>vs_awaits := vs_awaits s @ [(w, n)]\<rparr>"
  have "pinned ?s k \<longleftrightarrow> pinned s k" for k using f(3) [of n] assms(2) by (auto simp: pinned_def)
  then have "frame_ok E ?s" using f unfolding frame_ok_def by (simp add: tasks_ok_def)
  moreover have "wait_ok (insert w X) ?s" using vs_okD(2) [OF assms(1)] by (auto simp: wait_ok_def)
  moreover have "requested ?s k = requested s k" for k by (simp add: requested_def)
  ultimately show ?thesis using vs_okD(3) [OF assms(1)] by (simp add: vs_ok_def)
qed

lemma add_ready_ok:
  assumes "vs_ok E K X Y s"
  shows "vs_ok E K X Y (s\<lparr>vs_ready := vs_ready s @ ws\<rparr>)"
proof -
  have "frame_ok E (s\<lparr>vs_ready := vs_ready s @ ws\<rparr>)"
    using vs_okD(1) [OF assms] by (simp add: frame_ok_def tasks_ok_def)
  moreover have "wait_ok X (s\<lparr>vs_ready := vs_ready s @ ws\<rparr>)" using vs_okD(2) [OF assms] by (auto simp: wait_ok_def)
  ultimately show ?thesis using vs_okD(3) [OF assms] by (simp add: vs_ok_def)
qed

lemma service_fetch_ok:
  assumes old: "vs_ok E K {} {} s" and fresh: "w \<notin> fst ` set (vs_awaits s)"
  shows "vs_ok E K {} {} (fst (service_fetch E n st w s))" "vs_held (fst (service_fetch E n st w s)) = vs_held s"
proof -
  have "vs_ok E K {} {} (fst (service_fetch E n st w s)) \<and> vs_held (fst (service_fetch E n st w s)) = vs_held s"
  proof (cases "n = ne_null (ve_ids E)")
    case True
    then show ?thesis using add_ready_ok [OF old, of "[w]"] by (simp add: service_fetch_def)
  next
    case False
    let ?s1 = "fst (get_node_model_for_read E n s)"
    let ?s2 = "?s1\<lparr>vs_awaits := vs_awaits ?s1 @ [(w, n)]\<rparr>"
    note r = read_ok [OF old, of n]
    have "vs_ok E K {w} {} ?s2" using add_await_ok [OF r(1) r(4) [OF False], of w] by simp
    moreover have "find_node_model n ?s2 \<noteq> None" using r(4) [OF False] by simp
    moreover have "k = n" if "Some w = Some x" "(x, k) \<in> set (vs_awaits ?s2)" for x k
      using that fresh r(2) by force
    ultimately have "vs_ok E K ({w} - set_option (Some w)) {} (fst (start_fetch_of n st (Some w) ?s2))"
      "vs_held (fst (start_fetch_of n st (Some w) ?s2)) = vs_held ?s2"
      using start_fetch_of_ok [of E K "{w}" ?s2 n "Some w" st] by blast+
    then show ?thesis
      using False r(3) release_ok [of E K "{}" "{}" "fst (start_fetch_of n st (Some w) ?s2)" n]
      by (simp add: service_fetch_def case_prod_unfold Let_def)
  qed
  then show "vs_ok E K {} {} (fst (service_fetch E n st w s))" "vs_held (fst (service_fetch E n st w s)) = vs_held s" by blast+
qed

section \<open>A fetched node\<close>

lemma add_edge_ok: "model_ok K req m \<Longrightarrow> \<not> has_edge r m \<Longrightarrow> model_ok K req (add_edge r m)"
  by (auto simp: model_ok_def edges_ok_def edges_of_def has_edge_def add_edge_def waiting_ok_def)

lemma push_mirror_ok:
  assumes "vs_ok E K X {n} s"
  shows "vs_ok E K X {n} (fst (push_mirror n r s))" "find_node_model n (fst (push_mirror n r s)) = find_node_model n s"
    "vs_held (fst (push_mirror n r s)) = vs_held s"
proof -
  let ?t = "rd_node_id r"
  let ?mirror = "\<lparr>rd_reference_type_id = rd_reference_type_id r, rd_forward = \<not> rd_forward r, rd_node_id = n, rd_details = None\<rparr>"
  have "fst (push_mirror n r s) = s \<or> (\<exists>m. ?t \<noteq> n \<and> find_node_model ?t s = Some m \<and> (\<exists>m'. model_ok K (requested s ?t) m'
      \<and> nm_callbacks m' = nm_callbacks m \<and> fst (push_mirror n r s) = put_model ?t m' s))"
  proof (cases "?t = n \<or> find_node_model ?t s = None")
    case True
    then show ?thesis by (auto simp: push_mirror_def Let_def update_model_def)
  next
    case False
    then obtain m where m: "find_node_model ?t s = Some m" by blast
    have ok: "model_ok K (requested s ?t) m" using vs_okD(3) [OF assms m] False by simp
    show ?thesis
    proof (cases "has_edge ?mirror m")
      case True
      then show ?thesis using False m ok by (auto simp: push_mirror_def Let_def update_model_def)
    next
      case no: False
      have "notify_state_changed ?t (add_edge ?mirror m) =
          (add_edge ?mirror m, [StateChanged ?t (snapshot (add_edge ?mirror m)) (nm_fetch_status m)])"
        using ok by (simp add: notify_state_changed_def model_ok_def add_edge_def)
      then have "fst (push_mirror n r s) = put_model ?t (add_edge ?mirror m) s"
        using False m no by (simp add: push_mirror_def Let_def update_model_def)
      then show ?thesis using False m add_edge_ok [OF ok no] by (auto simp: add_edge_def)
    qed
  qed
  then have "vs_ok E K X {n} (fst (push_mirror n r s)) \<and> find_node_model n (fst (push_mirror n r s)) = find_node_model n s
    \<and> vs_held (fst (push_mirror n r s)) = vs_held s"
  proof (elim disjE exE conjE)
    fix m m'
    assume m: "find_node_model ?t s = Some m" "model_ok K (requested s ?t) m'" "nm_callbacks m' = nm_callbacks m"
      and t: "?t \<noteq> n" and eq: "fst (push_mirror n r s) = put_model ?t m' s"
    have "vs_ok E K X {n} (put_model ?t m' s)"
      by (rule put_model_ok [OF assms m(1)]) (use m in \<open>auto intro: rev_image_eqI\<close>)
    with t show ?thesis by (simp add: eq)
  qed (use assms in auto)
  then show "vs_ok E K X {n} (fst (push_mirror n r s))" "find_node_model n (fst (push_mirror n r s)) = find_node_model n s"
    "vs_held (fst (push_mirror n r s)) = vs_held s" by blast+
qed

lemma push_mirrors_ok:
  "vs_ok E K X {n} s \<Longrightarrow> vs_ok E K X {n} (fst (push_mirrors n rs s))
     \<and> find_node_model n (fst (push_mirrors n rs s)) = find_node_model n s \<and> vs_held (fst (push_mirrors n rs s)) = vs_held s"
  by (induction rs arbitrary: s) (simp_all add: case_prod_unfold Let_def push_mirror_ok)

text \<open>What the fetcher promises for a node; the fetcher of the services keeps it (\<open>fetch_node_state_ok\<close>).\<close>

definition node_answer_ok :: "('n, 'v, 's) vs_env \<Rightarrow> 'n set option \<Rightarrow> 'n \<Rightarrow> ('n, 'v, 'c) node_state \<Rightarrow> bool" where
  "node_answer_ok E C n ns \<longleftrightarrow> ns_node_id ns = n \<and> fetched_ok (ve_ids E) ns
     \<and> (case C of None \<Rightarrow> True
        | Some K \<Rightarrow> ns_reference_type_id ns \<noteq> ne_has_subtype (ve_ids E)
            \<and> distinct (map edge (ns_references ns)) \<and> (\<forall>r \<in> set (ns_references ns). rd_reference_type_id r \<notin> K))"

lemma answer_edges:
  assumes "node_answer_ok E C n ns" "edges_ok C m"
  shows "edges_ok C (m\<lparr>nm_state := with_inverse_references (ve_ids E) ns\<rparr>)"
  unfolding edges_ok_def
proof (intro allI impI)
  fix K assume C: "C = Some K"
  let ?old = "ns_references ns"
  let ?new = "ns_references (with_inverse_references (ve_ids E) ns)"
  have ns: "distinct (map edge ?old)" "\<forall>r \<in> set ?old. rd_forward r \<and> rd_reference_type_id r \<notin> K"
      "ns_reference_type_id ns \<noteq> ne_has_subtype (ve_ids E)"
    using assms(1) C by (auto simp: node_answer_ok_def fetched_ok_def child_reference_def)
  have m: "distinct (map edge (nm_child_references m))" "\<forall>r \<in> set (nm_child_references m). rd_forward r \<and> rd_reference_type_id r \<in> K"
    using assms(2) C by (auto simp: edges_ok_def edges_of_def)
  have f: "\<forall>e \<in> edge ` set ?old. fst (snd e) \<and> fst e \<notin> K" "\<forall>e \<in> edge ` set (nm_child_references m). fst (snd e) \<and> fst e \<in> K"
    using ns(2) m(2) by (auto simp: edge_def)
  obtain ps where new: "?new = ?old @ ps" "distinct (map edge ps)" "\<forall>e \<in> edge ` set ps. \<not> fst (snd e)"
  proof
    show "?new = ?old @ drop (length ?old) ?new" by (simp add: with_inverse_references_def)
    show "distinct (map edge (drop (length ?old) ?new))" using ns(3) by (simp add: with_inverse_references_def edge_def)
    show "\<forall>e \<in> edge ` set (drop (length ?old) ?new). \<not> fst (snd e)" by (auto simp: with_inverse_references_def edge_def)
  qed
  have "distinct (map edge (?old @ ps @ nm_child_references m))"
    using ns(1) m(1) new(2,3) f by (fastforce simp: distinct_append)
  with m(2) new(1)
  show "distinct (map edge (edges_of (m\<lparr>nm_state := with_inverse_references (ve_ids E) ns\<rparr>)))
    \<and> (\<forall>r \<in> set (nm_child_references (m\<lparr>nm_state := with_inverse_references (ve_ids E) ns\<rparr>)). rd_forward r \<and> rd_reference_type_id r \<in> K)"
    by (simp add: edges_of_def)
qed

lemma smap_put_put: "smap_put (smap_put m k a) k b = smap_put m k b"
  by (induction m k a rule: smap_put.induct) auto

lemma put_put [simp]: "put_model n a (put_model n b s) = put_model n a s"
  by (simp add: put_model_def smap_put_put)

lemma put_ready_put [simp]: "put_model n a (s\<lparr>vs_ready := r\<rparr>) = (put_model n a s)\<lparr>vs_ready := r\<rparr>"
  by (simp add: put_model_def)

lemma set_fetch_status_locked:
  "nm_lock_count m \<noteq> 0 \<Longrightarrow> set_fetch_status st fs m = (m\<lparr>nm_status := st, nm_fetch_status := fs,
     nm_fetching := (if nm_fetch_status m = fs then nm_fetching m else status_union (nm_fetching m) fs)\<rparr>, [])"
  by (simp add: set_fetch_status_def notify_callbacks_def)

text \<open>The model of a node whose fetch has ended well, but for the callbacks.\<close>

definition fetched_model ::
    "('n, 'v, 's) vs_env \<Rightarrow> ('n, 'v, 'c) node_state \<Rightarrow> ('n, 'v, 'c, 's) node_model \<Rightarrow> ('n, 'v, 'c, 's) node_model" where
  "fetched_model E ns m = (let fs = status_union (nm_fetch_status m) node_only in
     m\<lparr>nm_state := with_inverse_references (ve_ids E) ns, nm_status := ne_good (ve_ids E), nm_fetch_status := fs,
       nm_fetching := (if nm_fetch_status m = fs then nm_fetching m else status_union (nm_fetching m) fs)\<rparr>)"

definition locked_model ::
    "('n, 'v, 's) vs_env \<Rightarrow> ('n, 'v, 'c) node_state \<Rightarrow> ('n, 'v, 'c, 's) node_model \<Rightarrow> ('n, 'v, 'c, 's) node_model" where
  "locked_model E ns m = m\<lparr>nm_lock_count := Suc (nm_lock_count m), nm_state := with_inverse_references (ve_ids E) ns\<rparr>"

definition mirrored ::
    "('n::linorder, 'v, 's) vs_env \<Rightarrow> ('n, 'v, 'c) node_state \<Rightarrow> ('n, 'v, 'c, 's) node_model \<Rightarrow> ('n, 'v, 'c, 's) node_service \<Rightarrow>
     ('n, 'v, 'c, 's) node_service" where
  "mirrored E ns m s = fst (push_mirrors (ns_node_id ns) (ns_references (with_inverse_references (ve_ids E) ns))
     (put_model (ns_node_id ns) (locked_model E ns m) (hold (ns_node_id ns) s)))"

lemma on_fetched_eq:
  assumes m: "find_node_model n s = Some m"
    and s2: "s2 = fst (push_mirrors n (ns_references (with_inverse_references (ve_ids E) ns)) (put_model n (locked_model E ns m) s))"
    and find: "find_node_model n s2 = Some (locked_model E ns m)"
  shows "fst (on_fetched E n ns s) = put_model n ((fetched_model E ns m)\<lparr>nm_lock_count := Suc (nm_lock_count m),
      nm_pending_state := True, nm_pending_model := True, nm_pending_semantic := True\<rparr>) s2"
proof -
  have one: "update_model n (\<lambda>m. (m\<lparr>nm_lock_count := Suc (nm_lock_count m),
      nm_state := with_inverse_references (ve_ids E) ns\<rparr>, [])) s = (put_model n (locked_model E ns m) s, [])"
    by (simp add: update_model_def m locked_model_def)
  let ?m3 = "(fetched_model E ns m)\<lparr>nm_lock_count := Suc (nm_lock_count m)\<rparr>"
  have three: "update_status n (\<lambda>m. set_fetch_status (ne_good (ve_ids E)) (status_union (nm_fetch_status m) node_only) m) s2
      = put_model n ?m3 s2"
  proof -
    have "set_fetch_status (ne_good (ve_ids E)) (status_union (nm_fetch_status (locked_model E ns m)) node_only) (locked_model E ns m)
        = (?m3, [])"
      by (simp add: set_fetch_status_locked locked_model_def fetched_model_def Let_def)
    then show ?thesis by (simp add: update_status_def find)
  qed
  have four: "update_model n (notify_state_changed n) (put_model n a s2) = (put_model n (a\<lparr>nm_pending_state := True\<rparr>) s2, [])"
    and five: "update_model n (notify_model_changed E n) (put_model n a s2) = (put_model n (a\<lparr>nm_pending_model := True\<rparr>) s2, [])"
    and six: "update_model n (notify_semantic_changed n) (put_model n a s2) = (put_model n (a\<lparr>nm_pending_semantic := True\<rparr>) s2, [])"
    if "nm_lock_count a \<noteq> 0" for a
    using that by (simp_all add: update_model_def notify_state_changed_def notify_model_changed_def notify_semantic_changed_def)
  show ?thesis unfolding on_fetched_def Let_def one s2 [symmetric]
    by (simp add: one case_prod_unfold s2 [symmetric] three four five six)
qed

lemma on_fetch_completed_eq:
  assumes m: "find_node_model n s = Some (m\<lparr>nm_lock_count := Suc 0, nm_pending_state := True, nm_pending_model := True,
      nm_pending_semantic := True\<rparr>)"
    and ok: "nm_lock_count m = 0" "\<not> nm_pending_state m" "\<not> nm_pending_model m" "\<not> nm_pending_semantic m"
    and ws: "notify_callbacks m = (m', ws)"
  shows "\<exists>outs. on_fetch_completed E n s = Some (put_ready n m' ws s, outs)"
proof -
  let ?a = "m\<lparr>nm_pending_state := True, nm_pending_model := True, nm_pending_semantic := True\<rparr>"
  let ?b = "m\<lparr>nm_pending_model := True, nm_pending_semantic := True\<rparr>"
  let ?c = "m\<lparr>nm_pending_semantic := True\<rparr>"
  have eqs: "m\<lparr>nm_pending_model := True, nm_pending_semantic := True, nm_pending_state := False\<rparr> = ?b"
    "m\<lparr>nm_pending_semantic := True, nm_pending_model := False\<rparr> = ?c" "m\<lparr>nm_pending_semantic := False\<rparr> = m"
    using ok by simp_all
  let ?l = "m\<lparr>nm_lock_count := Suc 0, nm_pending_state := True, nm_pending_model := True, nm_pending_semantic := True\<rparr>"
  have zero: "?l\<lparr>nm_lock_count := nm_lock_count ?l - 1\<rparr> = ?a" using ok(1) by simp
  have pos: "check (0 < nm_lock_count ?l) = Some ()" by (simp add: check_def)
  have last: "update_status n notify_callbacks (put_model n m s) = put_ready n m' ws s"
    by (simp add: update_status_def ws)
  have two: "update_model n (\<lambda>m. if nm_pending_state m then notify_state_changed n m else (m, [])) (put_model n ?a s)
      = (put_model n ?b s, [StateChanged n (snapshot ?a) (nm_fetch_status m)])"
    using ok by (simp add: update_model_def notify_state_changed_def eqs)
  have three: "\<exists>o3. update_model n (\<lambda>m. if nm_pending_model m then notify_model_changed E n m else (m, [])) (put_model n ?b s)
      = (put_model n ?c s, o3)"
    using ok by (simp add: update_model_def notify_model_changed_def eqs)
  have four: "update_model n (\<lambda>m. if nm_pending_semantic m then notify_semantic_changed n m else (m, [])) (put_model n ?c s)
      = (put_model n m s, [SemanticChanged n])"
    using ok by (simp add: update_model_def notify_semantic_changed_def eqs)
  from three obtain o3 where three': "update_model n (\<lambda>m. if nm_pending_model m then notify_model_changed E n m else (m, []))
      (put_model n ?b s) = (put_model n ?c s, o3)" by blast
  show ?thesis unfolding on_fetch_completed_def Let_def m bind.simps pos zero two three' four last prod.case
    by blast
qed

text \<open>The whole of \<open>ProcessFetchedNodes\<close>: the mirrors are pushed, the model is replaced, its waiters are called.\<close>

lemma process_fetched_node_eq:
  assumes old: "vs_ok E K X {n} s" and m: "find_node_model n s = Some m" "model_ok K req m" and n: "ns_node_id ns = n"
    and ws: "notify_callbacks (fetched_model E ns m) = (m', ws)"
  shows "\<exists>outs. process_fetched_node E ns s = Some (release n (put_ready n m' ws (mirrored E ns m s)), outs)"
    and "vs_ok E K X {n} (mirrored E ns m s)" "find_node_model n (mirrored E ns m s) = Some (locked_model E ns m)"
    "vs_held (mirrored E ns m s) = n # vs_held s"
proof -
  note mo = m(2) [unfolded model_ok_def]
  have h: "vs_ok E K X {n} (hold n s)" "find_node_model n (hold n s) = Some m" using hold_ok [OF old, of n] m(1) by simp_all
  have "vs_ok E K X {n} (put_model n (locked_model E ns m) (hold n s))"
    by (rule put_model_ok [OF h]) (auto simp: locked_model_def intro: rev_image_eqI)
  from push_mirrors_ok [OF this] have mir: "vs_ok E K X {n} (mirrored E ns m s)"
    "find_node_model n (mirrored E ns m s) = Some (locked_model E ns m)" "vs_held (mirrored E ns m s) = n # vs_held s"
    by (simp_all add: mirrored_def n)
  then show "vs_ok E K X {n} (mirrored E ns m s)" "find_node_model n (mirrored E ns m s) = Some (locked_model E ns m)"
    "vs_held (mirrored E ns m s) = n # vs_held s" by blast+
  let ?s = "mirrored E ns m s"
  have f: "fst (on_fetched E n ns (hold n s)) = put_model n ((fetched_model E ns m)\<lparr>nm_lock_count := Suc (nm_lock_count m),
      nm_pending_state := True, nm_pending_model := True, nm_pending_semantic := True\<rparr>) ?s"
    by (rule on_fetched_eq [OF h(2)]) (use mir n in \<open>simp_all add: mirrored_def\<close>)
  obtain s1 o1 where o: "on_fetched E n ns (hold n s) = (s1, o1)" by force
  have s1: "s1 = put_model n ((fetched_model E ns m)\<lparr>nm_lock_count := Suc 0,
      nm_pending_state := True, nm_pending_model := True, nm_pending_semantic := True\<rparr>) ?s"
    using f mo by (simp add: o)
  have "\<exists>outs. on_fetch_completed E n s1 = Some (put_ready n m' ws s1, outs)"
    by (rule on_fetch_completed_eq [OF _ _ _ _ _ ws]) (use mo in \<open>simp_all add: s1 fetched_model_def Let_def\<close>)
  then obtain o2 where c: "on_fetch_completed E n s1 = Some (put_ready n m' ws s1, o2)" by blast
  have "put_ready n m' ws s1 = put_ready n m' ws ?s" by (simp add: s1)
  with c show "\<exists>outs. process_fetched_node E ns s = Some (release n (put_ready n m' ws ?s), outs)"
    by (simp add: process_fetched_node_def n m(1) o)
qed

lemma fetched_model_ok:
  assumes m: "model_ok K req m" and a: "node_answer_ok E K n ns" and ws: "notify_callbacks (fetched_model E ns m) = (m', ws)"
  shows "model_ok K req' m'" "status_includes (nm_fetch_status m') node_only"
    "(st, w) \<in> set (nm_callbacks m) \<Longrightarrow> w \<in> set ws \<or> w \<in> snd ` set (nm_callbacks m')"
proof -
  note fr = notify_callbacks_frame [OF ws] and wt = notify_callbacks_waiting [OF ws]
  let ?f = "fetched_model E ns m"
  have e: "edges_ok K ?f" using answer_edges [OF a, of m] m by (simp add: fetched_model_def model_ok_def edges_ok_def edges_of_def Let_def)
  have cb: "nm_callbacks ?f = nm_callbacks m" "nm_lock_count ?f = 0" "\<not> nm_pending_state ?f" "\<not> nm_pending_model ?f" "\<not> nm_pending_semantic ?f"
    "status_includes (nm_fetch_status ?f) node_only"
    using m by (simp_all add: fetched_model_def model_ok_def Let_def)
  have grow: "status_includes (nm_fetching ?f) st" if "status_includes (nm_fetching m) st" for st
    using that by (auto simp: fetched_model_def Let_def includes_union)
  have "status_includes (nm_fetching m') st" if c: "(st, w) \<in> set (nm_callbacks m')" for st w
  proof -
    from c have "(st, w) \<in> set (nm_callbacks m)" using wt(2) cb(1) by auto
    then have "status_includes (nm_fetching m) st" using m by (auto simp: model_ok_def)
    then show ?thesis using grow by (simp add: fr)
  qed
  moreover have "edges_ok K m'" using e by (simp add: edges_ok_def edges_of_def fr)
  moreover have "waiting_ok m'" using wt(1) cb(2) by blast
  ultimately show "model_ok K req' m'" "status_includes (nm_fetch_status m') node_only"
    using cb(2-6) by (auto simp: model_ok_def fr)
  show "(st, w) \<in> set (nm_callbacks m) \<Longrightarrow> w \<in> set ws \<or> w \<in> snd ` set (nm_callbacks m')"
    using wt(4) [of st w] cb(1) by force
qed

lemma process_fetched_node_ok:
  assumes old: "vs_ok E K X {n} s" and m: "find_node_model n s = Some m" "model_ok K req m" and a: "node_answer_ok E K n ns"
  shows "\<exists>s' outs. process_fetched_node E ns s = Some (s', outs) \<and> vs_ok E K X {} s' \<and> vs_held s' = vs_held s"
proof -
  obtain m' ws where ws: "notify_callbacks (fetched_model E ns m) = (m', ws)" by force
  have n: "ns_node_id ns = n" using a by (simp add: node_answer_ok_def)
  note eq = process_fetched_node_eq [OF old m n ws]
  have "vs_ok E K X {} (put_ready n m' ws (mirrored E ns m s))"
  proof (rule put_ready_ok [OF eq(2,3)])
    show "model_ok K (requested (mirrored E ns m s) n) m'" by (rule fetched_model_ok(1) [OF m(2) a ws])
    show "w \<in> set ws \<or> w \<in> snd ` set (nm_callbacks m')" if "(st, w) \<in> set (nm_callbacks (locked_model E ns m))" for st w
      using fetched_model_ok(3) [OF m(2) a ws, of st w] that by (simp add: locked_model_def)
  qed simp
  then have "vs_ok E K X {} (release n (put_ready n m' ws (mirrored E ns m s)))" by (rule release_ok)
  then show ?thesis using eq(1,4) by fastforce
qed

section \<open>Status changes\<close>

lemma includes_node_only: "status_includes x node_only \<longleftrightarrow> bit x 0"
  by (auto simp: includes_iff node_only_def bit_simps)

lemma set_fetch_status_ok:
  assumes m: "model_ok K req m" and r: "set_fetch_status st fs m = (m', ws)"
    and fs: "status_includes fs node_only \<or> req' \<and> req \<or> (req \<longrightarrow> req') \<and> status_includes fs (nm_fetch_status m)"
  shows "model_ok K req' m'" "(x, w) \<in> set (nm_callbacks m) \<Longrightarrow> w \<in> set ws \<or> w \<in> snd ` set (nm_callbacks m')"
    "nm_request m' = nm_request m" "nm_fetch_status m' = fs" "nm_status m' = st" "nm_state m' = nm_state m"
    "nm_child_references m' = nm_child_references m"
proof -
  have "model_ok K req' m' \<and> ((x, w) \<in> set (nm_callbacks m) \<longrightarrow> w \<in> set ws \<or> w \<in> snd ` set (nm_callbacks m'))
    \<and> nm_request m' = nm_request m \<and> nm_fetch_status m' = fs \<and> nm_status m' = st \<and> nm_state m' = nm_state m
    \<and> nm_child_references m' = nm_child_references m"
  proof (cases "nm_fetch_status m = fs")
    case True
    then have "m' = m\<lparr>nm_status := st\<rparr>" "ws = []" using r by (simp_all add: set_fetch_status_def)
    then show ?thesis using m fs True
      by (auto simp: model_ok_def edges_ok_def edges_of_def waiting_ok_def intro: rev_image_eqI)
  next
    case False
    let ?m = "m\<lparr>nm_status := st, nm_fetch_status := fs, nm_fetching := status_union (nm_fetching m) fs\<rparr>"
    have n: "notify_callbacks ?m = (m', ws)" using r False by (simp add: set_fetch_status_def)
    note fr = notify_callbacks_frame [OF n] and wt = notify_callbacks_waiting [OF n]
    have "status_includes (nm_fetching m') y" if "(y, v) \<in> set (nm_callbacks m')" for y v
    proof -
      have "(y, v) \<in> set (nm_callbacks m)" using that wt(2) by auto
      then show ?thesis using m by (auto simp: fr model_ok_def includes_union)
    qed
    moreover have "edges_ok K m'" using m by (simp add: model_ok_def edges_ok_def edges_of_def fr)
    moreover have "waiting_ok m'" using wt(1) m by (simp add: model_ok_def)
    moreover have "req'" if "status_includes (nm_fetching m') node_only" "\<not> status_includes (nm_fetch_status m') node_only"
    proof -
      have "bit (nm_fetching m) 0" "\<not> bit fs 0" using that by (auto simp: fr includes_node_only status_union_def bit_or_iff)
      have imp: "\<not> bit (nm_fetch_status m) 0 \<Longrightarrow> req"
        using m \<open>bit (nm_fetching m) 0\<close> by (simp add: model_ok_def includes_node_only)
      have "\<not> bit (nm_fetch_status m) 0" if "status_includes fs (nm_fetch_status m)"
        using that \<open>\<not> bit fs 0\<close> includes_iff by blast
      then show ?thesis using fs imp \<open>\<not> bit fs 0\<close> by (auto simp: includes_node_only)
    qed
    moreover have "w \<in> set ws \<or> w \<in> snd ` set (nm_callbacks m')" if "(x, w) \<in> set (nm_callbacks m)"
      using that wt(4) [of x w] by force
    ultimately show ?thesis using m by (auto simp: model_ok_def fr)
  qed
  then show "model_ok K req' m'" "(x, w) \<in> set (nm_callbacks m) \<Longrightarrow> w \<in> set ws \<or> w \<in> snd ` set (nm_callbacks m')"
    "nm_request m' = nm_request m" "nm_fetch_status m' = fs" "nm_status m' = st" "nm_state m' = nm_state m"
    "nm_child_references m' = nm_child_references m" by blast+
qed

lemma all_parts_node [simp]: "status_includes all_parts node_only"
  by (simp add: all_parts_def includes_union)

lemma update_status_none [simp]: "find_node_model n s = None \<Longrightarrow> update_status n f s = s"
  by (simp add: update_status_def)

lemma update_status_ok:
  assumes old: "vs_ok E K X Y s" and Y: "Y \<subseteq> {n}" "find_node_model n s = None \<Longrightarrow> Y = {}"
    and f: "\<And>m m' ws. find_node_model n s = Some m \<Longrightarrow> f m = (m', ws) \<Longrightarrow> model_ok K (requested s n) m'
      \<and> (\<forall>x w. (x, w) \<in> set (nm_callbacks m) \<longrightarrow> w \<in> set ws \<or> w \<in> snd ` set (nm_callbacks m'))"
  shows "vs_ok E K X {} (update_status n f s)" "vs_held (update_status n f s) = vs_held s"
    "vs_awaits (update_status n f s) = vs_awaits s"
    "find_node_model k (update_status n f s) \<noteq> None \<longleftrightarrow> find_node_model k s \<noteq> None"
proof -
  have "vs_ok E K X {} (update_status n f s) \<and> vs_held (update_status n f s) = vs_held s
    \<and> vs_awaits (update_status n f s) = vs_awaits s
    \<and> (find_node_model k (update_status n f s) \<noteq> None \<longleftrightarrow> find_node_model k s \<noteq> None)"
  proof (cases "find_node_model n s")
    case (Some m)
    obtain m' ws where r: "f m = (m', ws)" by force
    note g = f [OF Some r]
    have "vs_ok E K X {} (put_ready n m' ws s)" by (rule put_ready_ok [OF old Some]) (use Y g in auto)
    then show ?thesis by (simp add: update_status_def Some r)
  qed (use old Y in simp)
  then show "vs_ok E K X {} (update_status n f s)" "vs_held (update_status n f s) = vs_held s"
    "vs_awaits (update_status n f s) = vs_awaits s"
    "find_node_model k (update_status n f s) \<noteq> None \<longleftrightarrow> find_node_model k s \<noteq> None" by blast+
qed

lemma process_fetch_error_ok:
  assumes old: "vs_ok E K X Y s" and Y: "Y \<subseteq> {n}" and m: "\<And>m. find_node_model n s = Some m \<Longrightarrow> model_ok K True m"
    and none: "find_node_model n s = None \<Longrightarrow> Y = {}"
  shows "vs_ok E K X {} (process_fetch_error n st s)" "vs_held (process_fetch_error n st s) = vs_held s"
proof -
  have "model_ok K (requested s n) m' \<and> (\<forall>x w. (x, w) \<in> set (nm_callbacks a) \<longrightarrow> w \<in> set ws \<or> w \<in> snd ` set (nm_callbacks m'))"
    if "find_node_model n s = Some a" "set_fetch_status st all_parts a = (m', ws)" for a m' ws
    using set_fetch_status_ok(1,2) [OF m [OF that(1)] that(2)] by simp
  from update_status_ok [OF old Y none this] show "vs_ok E K X {} (process_fetch_error n st s)"
    "vs_held (process_fetch_error n st s) = vs_held s" by (simp_all add: process_fetch_error_def)
qed

section \<open>The answers\<close>

lemma answered_node_ok:
  assumes old: "vs_ok E K {} {} s" and t: "(n, True) \<in> set (vs_node_tasks s)"
  defines "s1 \<equiv> hold n (s\<lparr>vs_node_tasks := remove1 (n, True) (vs_node_tasks s), vs_node_in_flight := vs_node_in_flight s - {n}\<rparr>)"
  shows "vs_ok E K {} {n} s1" "\<exists>m. find_node_model n s1 = Some m \<and> model_ok K True m" "vs_held s1 = n # vs_held s"
proof -
  note f = frame_okD [OF vs_okD(1) [OF old]] and tk = tasks_okD [OF frame_okD(7) [OF vs_okD(1) [OF old]]]
  have pn: "pinned s n" using t by (simp add: pinned_def)
  have other: "(k, True) \<in> set (vs_node_tasks s1) \<longleftrightarrow> (k, True) \<in> set (vs_node_tasks s)" if "k \<noteq> n" for k
    using that by (simp add: s1_def)
  have pins: "pinned s1 k \<longleftrightarrow> pinned s k" for k
    by (cases "k = n") (use pn other [of k] in \<open>auto simp: s1_def pinned_def\<close>)
  have find: "find_node_model k s1 = find_node_model k s" for k by (simp add: s1_def)
  have keys: "fst ` set (remove1 (n, True) (vs_node_tasks s)) = fst ` set (vs_node_tasks s) - {n}"
  proof -
    have "distinct (vs_node_tasks s)" using tk(1) by (simp add: distinct_map)
    then have "set (remove1 (n, True) (vs_node_tasks s)) = set (vs_node_tasks s) - {(n, True)}" by simp
    moreover have "(k, b) \<in> set (vs_node_tasks s) \<Longrightarrow> b" for k b using tk(3) by force
    ultimately show ?thesis by (auto intro: rev_image_eqI)
  qed
  have "distinct (map fst (remove1 (n, True) (vs_node_tasks s)))"
    using tk(1) by (metis distinct_remove1 distinct_map inj_on_diff set_remove1_eq)
  then have tasks: "tasks_ok s1" using f(7) keys
    by (auto simp: s1_def tasks_ok_def dest: notin_set_remove1)
  show "vs_ok E K {} {n} s1"
    unfolding vs_ok_def frame_ok_def
  proof (intro conjI allI impI)
    fix k m
    show "model_ok K (requested s1 k) m" if "find_node_model k s1 = Some m" "k \<notin> {n}"
      using vs_okD(3) [OF old, of k m] that other [of k] find by (auto simp: requested_def s1_def)
    show "wait_ok {} s1" using vs_okD(2) [OF old] by (simp add: wait_ok_def find) (simp add: s1_def)
    show "find_node_model k s1 \<noteq> None \<longleftrightarrow> pinned s1 k" for k using f(3) [of k] by (simp add: find pins)
    show "tasks_ok s1" by (rule tasks)
    show "\<forall>p \<in> set (vs_pending s1). snd (snd p)" using f(8) by (simp add: s1_def)
  qed (use f in \<open>simp_all add: s1_def\<close>)
  obtain m where m: "find_node_model n s = Some m" using f(3) [of n] pn by blast
  show "\<exists>m. find_node_model n s1 = Some m \<and> model_ok K True m"
    using vs_okD(3) [OF old m] m by (auto simp: find intro: model_ok_mono)
  show "vs_held s1 = n # vs_held s" by (simp add: s1_def)
qed

definition node_result_ok :: "('n, 'v, 's) vs_env \<Rightarrow> 'n set option \<Rightarrow> 'n \<Rightarrow> 's + ('n, 'v, 'c) node_state \<Rightarrow> bool" where
  "node_result_ok E K n r \<longleftrightarrow> (case r of Inl _ \<Rightarrow> True | Inr ns \<Rightarrow> node_answer_ok E K n ns)"

lemma on_node_answer_ok:
  assumes old: "vs_ok E K {} {} s" and t: "task \<in> set (vs_node_tasks s)" and a: "node_result_ok E K (fst task) result"
  shows "\<exists>s' outs. on_node_answer E task result s = Some (s', outs) \<and> vs_ok E K {} {} s' \<and> vs_held s' = vs_held s"
proof -
  obtain n b where "task = (n, b)" by force
  then have task: "task = (n, True)" using tasks_okD(3) [OF frame_okD(7) [OF vs_okD(1) [OF old]] t] by simp
  let ?s = "s\<lparr>vs_node_tasks := remove1 task (vs_node_tasks s), vs_node_in_flight := vs_node_in_flight s - {n}\<rparr>"
  note s1 = answered_node_ok [OF old t [unfolded task], folded task]
  obtain m where m: "find_node_model n (hold n ?s) = Some m" "model_ok K True m" using s1(2) by blast
  show ?thesis
  proof (cases result)
    case (Inl st)
    let ?e = "process_fetch_error n st (hold n ?s)"
    have "vs_ok E K {} {} ?e" "vs_held ?e = n # vs_held s"
      using process_fetch_error_ok [OF s1(1), of n st] m s1(3) by simp_all
    then show ?thesis using release_ok [of E K "{}" "{}" ?e n] by (simp add: on_node_answer_def task Inl)
  next
    case (Inr ns)
    then have "node_answer_ok E K n ns" using a by (simp add: node_result_ok_def task)
    from process_fetched_node_ok [OF s1(1) m this] s1(3) obtain s' outs where
      p: "process_fetched_node E ns (hold n ?s) = Some (s', outs)" "vs_ok E K {} {} s'" "vs_held s' = n # vs_held s" by auto
    then show ?thesis using release_ok [OF p(2), of n] by (simp add: on_node_answer_def task Inr)
  qed
qed

lemma vs_ok_other [simp]:
  "vs_ok E K X Y (s\<lparr>vs_children_in_flight := c\<rparr>) = vs_ok E K X Y s" "vs_ok E K X Y (s\<lparr>vs_tails := t\<rparr>) = vs_ok E K X Y s"
  "vs_ok E K X Y (s\<lparr>vs_next := i\<rparr>) = vs_ok E K X Y s"
  by (simp_all add: vs_ok_def frame_ok_def wait_ok_def tasks_ok_def pinned_def requested_def)

lemma settled_ok [simp]: "vs_ok E K X Y (children_fetch_settled n s) = vs_ok E K X Y s"
  by (simp add: children_fetch_settled_def)

lemma settled_simps [simp]:
  "find_node_model k (children_fetch_settled n s) = find_node_model k s" "vs_held (children_fetch_settled n s) = vs_held s"
  "vs_awaits (children_fetch_settled n s) = vs_awaits s" "requested (children_fetch_settled n s) k = requested s k"
  by (simp_all add: children_fetch_settled_def requested_def)

lemma update_model_ok:
  assumes old: "vs_ok E K X {} s"
    and f: "\<And>m. find_node_model n s = Some m \<Longrightarrow> model_ok K (requested s n) (fst (f m)) \<and> nm_callbacks (fst (f m)) = nm_callbacks m"
  shows "vs_ok E K X {} (fst (update_model n f s))" "vs_held (fst (update_model n f s)) = vs_held s"
    "vs_awaits (fst (update_model n f s)) = vs_awaits s"
proof -
  have "vs_ok E K X {} (fst (update_model n f s)) \<and> vs_held (fst (update_model n f s)) = vs_held s
    \<and> vs_awaits (fst (update_model n f s)) = vs_awaits s"
  proof (cases "find_node_model n s")
    case (Some m)
    have "vs_ok E K X {} (put_model n (fst (f m)) s)"
      by (rule put_model_ok [OF old Some]) (use f [OF Some] in \<open>auto intro: rev_image_eqI\<close>)
    then show ?thesis by (simp add: update_model_def Some case_prod_unfold Let_def)
  qed (use old in \<open>simp add: update_model_def\<close>)
  then show "vs_ok E K X {} (fst (update_model n f s))" "vs_held (fst (update_model n f s)) = vs_held s"
    "vs_awaits (fst (update_model n f s)) = vs_awaits s" by blast+
qed

lemma notify_model_ok:
  assumes "model_ok K req m"
  shows "model_ok K req (fst (notify_state_changed n m)) \<and> nm_callbacks (fst (notify_state_changed n m)) = nm_callbacks m"
    and "model_ok K req (fst (notify_model_changed E n m)) \<and> nm_callbacks (fst (notify_model_changed E n m)) = nm_callbacks m"
  using assms by (auto simp: notify_state_changed_def notify_model_changed_def model_ok_def waiting_ok_def edges_ok_def edges_of_def)

text \<open>What the fetcher promises for children.\<close>

definition children_ok :: "'n set option \<Rightarrow> 'n reference_description list \<Rightarrow> bool" where
  "children_ok C refs \<longleftrightarrow>
     (case C of None \<Rightarrow> True | Some K \<Rightarrow> distinct (map edge refs) \<and> (\<forall>r \<in> set refs. rd_forward r \<and> rd_reference_type_id r \<in> K))"

definition children_result_ok :: "'n set option \<Rightarrow> 's + 'n reference_description list \<Rightarrow> bool" where
  "children_result_ok K r \<longleftrightarrow> (case r of Inl _ \<Rightarrow> True | Inr refs \<Rightarrow> children_ok K refs)"

lemma answered_children_ok:
  assumes old: "vs_ok E K {} {} s" and t: "(n, True) \<in> set (vs_children_tasks s)"
  defines "s1 \<equiv> hold n (s\<lparr>vs_children_tasks := remove1 (n, True) (vs_children_tasks s)\<rparr>)"
  shows "vs_ok E K {} {} s1" "find_node_model n s1 \<noteq> None" "vs_held s1 = n # vs_held s"
proof -
  note f = frame_okD [OF vs_okD(1) [OF old]]
  have pn: "pinned s n" using t by (simp add: pinned_def)
  have other: "(k, True) \<in> set (vs_children_tasks s1) \<longleftrightarrow> (k, True) \<in> set (vs_children_tasks s)" if "k \<noteq> n" for k
    using that by (simp add: s1_def)
  have pins: "pinned s1 k \<longleftrightarrow> pinned s k" for k
    by (cases "k = n") (use pn other [of k] in \<open>auto simp: s1_def pinned_def\<close>)
  have find: "find_node_model k s1 = find_node_model k s" for k by (simp add: s1_def)
  have req: "requested s1 k = requested s k" for k by (simp add: s1_def requested_def)
  have "tasks_ok s1" using f(7) by (auto simp: s1_def tasks_ok_def dest: notin_set_remove1)
  moreover have "find_node_model k s1 \<noteq> None \<longleftrightarrow> pinned s1 k" for k using f(3) [of k] by (simp add: find pins)
  ultimately have "frame_ok E s1" using f unfolding frame_ok_def by (simp add: s1_def)
  moreover have "wait_ok {} s1" using vs_okD(2) [OF old] by (simp add: wait_ok_def find) (simp add: s1_def)
  ultimately show "vs_ok E K {} {} s1" using vs_okD(3) [OF old] by (simp add: vs_ok_def find req)
  show "find_node_model n s1 \<noteq> None" using f(3) [of n] pn by (simp add: find)
  show "vs_held s1 = n # vs_held s" by (simp add: s1_def)
qed

lemma task_added_ok: "vs_ok E K X Y s \<Longrightarrow> vs_ok E K X Y (s\<lparr>vs_next := i, vs_tails := t, vs_ready := vs_ready s @ ws\<rparr>)"
  using add_ready_ok [of E K X Y "s\<lparr>vs_next := i, vs_tails := t\<rparr>" ws] by simp

lemma on_children_fetched_ok:
  assumes "vs_ok E K {} {} s"
  shows "vs_ok E K {} {} (on_children_fetched n refs s)" "vs_held (on_children_fetched n refs s) = vs_held s"
proof -
  have "model_ok K (requested s n) (fst ((\<lambda>m. (m\<lparr>nm_request := Some (vs_next s)\<rparr>, [])) m))
      \<and> nm_callbacks (fst ((\<lambda>m. (m\<lparr>nm_request := Some (vs_next s)\<rparr>, [])) m)) = nm_callbacks m"
    if "find_node_model n s = Some m" for m
    using vs_okD(3) [OF assms that] by (simp add: model_ok_def edges_ok_def edges_of_def waiting_ok_def)
  note u = update_model_ok [OF assms this]
  show "vs_ok E K {} {} (on_children_fetched n refs s)" "vs_held (on_children_fetched n refs s) = vs_held s"
    using task_added_ok [OF u(1)] u(2) by (simp_all add: on_children_fetched_def Let_def)
qed

lemma on_children_answer_ok:
  assumes old: "vs_ok E K {} {} s" and t: "task \<in> set (vs_children_tasks s)"
  shows "vs_ok E K {} {} (on_children_answer E task result s)" "vs_held (on_children_answer E task result s) = vs_held s"
proof -
  obtain n b where "task = (n, b)" by force
  then have task: "task = (n, True)" using tasks_okD(4) [OF frame_okD(7) [OF vs_okD(1) [OF old]] t] by simp
  let ?s = "hold n (s\<lparr>vs_children_tasks := remove1 task (vs_children_tasks s)\<rparr>)"
  note s1 = answered_children_ok [OF old t [unfolded task], folded task]
  have "vs_ok E K {} {} (on_children_answer E task result s) \<and> vs_held (on_children_answer E task result s) = vs_held s"
  proof (cases result)
    case (Inl st)
    let ?e = "process_fetch_error n st (children_fetch_settled n ?s)"
    have ok: "vs_ok E K {} {} (children_fetch_settled n ?s)" using s1(1) by simp
    have "vs_ok E K {} {} ?e" "vs_held ?e = n # vs_held s"
      using process_fetch_error_ok [OF ok, of n st] vs_okD(3) [OF s1(1)] s1(3) by (auto intro: model_ok_mono)
    then show ?thesis using release_ok [of E K "{}" "{}" ?e n] by (simp add: on_children_answer_def task Inl Let_def)
  next
    case (Inr refs)
    then have eq: "on_children_answer E task result s = release n (on_children_fetched n refs ?s)"
      using s1(2) by (auto simp: on_children_answer_def task process_fetched_children_def Let_def)
    show ?thesis unfolding eq
      using on_children_fetched_ok [OF s1(1), of n refs] s1(3) release_ok [of E K "{}" "{}" "on_children_fetched n refs ?s" n] by simp
  qed
  then show "vs_ok E K {} {} (on_children_answer E task result s)" "vs_held (on_children_answer E task result s) = vs_held s" by blast+
qed

section \<open>The coroutine for children\<close>

lemma apply_children_ok:
  assumes "model_ok C req m" "children_ok C refs"
  shows "model_ok C req (apply_children refs m)"
proof -
  have "distinct (map edge (filter (\<lambda>r. edge r \<notin> edge ` set refs) xs @ refs))"
    if "distinct (map edge xs)" "distinct (map edge refs)" for xs
  proof -
    have "edge ` set (filter (\<lambda>r. edge r \<notin> edge ` set refs) xs) \<inter> edge ` set refs = {}" unfolding set_filter by blast
    then show ?thesis using that by (simp add: distinct_map_filter)
  qed
  then have "edges_ok C (apply_children refs m)"
    using assms by (cases C) (simp_all add: model_ok_def edges_ok_def edges_of_def apply_children_def children_ok_def)
  then show ?thesis using assms(1) by (simp add: model_ok_def apply_children_def waiting_ok_def)
qed

lemma finish_children_ok:
  assumes old: "vs_ok E K {} {} s" and refs: "children_ok K (ct_references t)"
  shows "vs_ok E K {} {} (fst (finish_children E i t s))" "vs_held (fst (finish_children E i t s)) = vs_held s"
proof -
  let ?n = "ct_node t"
  have "vs_ok E K {} {} (fst (finish_children E i t s)) \<and> vs_held (fst (finish_children E i t s)) = vs_held s"
  proof (cases "\<exists>m. find_node_model ?n s = Some m \<and> nm_request m = Some i")
    case False
    then show ?thesis using old by (auto simp: finish_children_def Let_def split: option.splits)
  next
    case True
    then obtain m where m: "find_node_model ?n s = Some m" "nm_request m = Some i" by blast
    let ?f = "\<lambda>m :: ('a, 'b, 'd, 'c) node_model. set_fetch_status (nm_status m) (status_union (nm_fetch_status m) children_only) m"
    let ?s1 = "put_model ?n (apply_children (ct_references t) m) (hold ?n s)"
    let ?s3 = "children_fetch_settled ?n (update_status ?n ?f ?s1)"
    let ?s4 = "fst (update_model ?n (notify_state_changed ?n) ?s3)"
    let ?s5 = "fst (update_model ?n (notify_model_changed E ?n) ?s4)"
    have h: "vs_ok E K {} {} (hold ?n s)" "find_node_model ?n (hold ?n s) = Some m" using hold_ok [OF old, of ?n] m(1) by simp_all
    have 1: "vs_ok E K {} {} ?s1"
      by (rule put_model_ok [OF h]) (use apply_children_ok [OF vs_okD(3) [OF h] refs] in \<open>auto simp: apply_children_def intro: rev_image_eqI\<close>)
    have "model_ok K (requested ?s1 ?n) m' \<and> (\<forall>x w. (x, w) \<in> set (nm_callbacks a) \<longrightarrow> w \<in> set ws \<or> w \<in> snd ` set (nm_callbacks m'))"
      if "find_node_model ?n ?s1 = Some a" "?f a = (m', ws)" for a m' ws
      using set_fetch_status_ok(1,2) [OF vs_okD(3) [OF 1 that(1)] that(2), of "requested ?s1 ?n"] by simp
    note u = update_status_ok [OF 1 _ _ this]
    have 3: "vs_ok E K {} {} ?s3" "vs_held ?s3 = ?n # vs_held s" using u(1,2) by simp_all
    note n4 = update_model_ok [OF 3(1), of ?n "notify_state_changed ?n", OF notify_model_ok(1) [OF vs_okD(3) [OF 3(1)]]]
    have 4: "vs_ok E K {} {} ?s4" "vs_held ?s4 = ?n # vs_held s" using n4(1,2) 3 by simp_all
    note n5 = update_model_ok [OF 4(1), of ?n "notify_model_changed E ?n", OF notify_model_ok(2) [OF vs_okD(3) [OF 4(1)]]]
    have 5: "vs_ok E K {} {} ?s5" "vs_held ?s5 = ?n # vs_held s" using n5(1,2) 4 by simp_all
    have "fst (finish_children E i t s) = release ?n ?s5"
      by (simp add: finish_children_def Let_def m case_prod_unfold)
    then show ?thesis using release_ok [OF 5(1), of ?n] 5(2) by simp
  qed
  then show "vs_ok E K {} {} (fst (finish_children E i t s))" "vs_held (fst (finish_children E i t s)) = vs_held s" by blast+
qed

section \<open>Going on\<close>

definition tails_ok :: "'n set option \<Rightarrow> ('n, 'v, 'c, 's) node_service \<Rightarrow> bool" where
  "tails_ok K s \<longleftrightarrow> (\<forall>(i, t) \<in> set (vs_tails s). children_ok K (ct_references t))"

lemma children_task_step_ok:
  assumes old: "vs_ok E K {} {} s" and tails: "tails_ok K s" and fresh: "Children_Task i \<notin> fst ` set (vs_awaits s)"
  shows "vs_ok E K {} {} (fst (children_task_step E i s))" "vs_held (fst (children_task_step E i s)) = vs_held s"
proof -
  have "vs_ok E K {} {} (fst (children_task_step E i s)) \<and> vs_held (fst (children_task_step E i s)) = vs_held s"
  proof (cases "map_of (vs_tails s) i")
    case None
    then show ?thesis using old by (simp add: children_task_step_def)
  next
    case (Some t)
    have refs: "children_ok K (ct_references t)" using tails map_of_SomeD [OF Some] by (auto simp: tails_ok_def)
    show ?thesis
    proof (cases "ct_todo t")
      case Nil
      let ?s = "s\<lparr>vs_tails := filter (\<lambda>p. fst p \<noteq> i) (vs_tails s)\<rparr>"
      have "vs_ok E K {} {} ?s" using old by simp
      from finish_children_ok [OF this refs, of i] show ?thesis by (simp add: children_task_step_def Some Nil)
    next
      case (Cons m todo)
      let ?s1 = "s\<lparr>vs_tails := map (\<lambda>(j, u). if j = i then (j, u\<lparr>ct_todo := todo\<rparr>) else (j, u)) (vs_tails s)\<rparr>"
      have "vs_ok E K {} {} ?s1" using old by simp
      note g = get_node_ok [OF this, of m]
      have "Children_Task i \<notin> fst ` set (vs_awaits (fst (get_node E m ?s1)))" using g(3) fresh by simp
      from service_fetch_ok [OF g(1) this, of m node_only] g(2) show ?thesis
        by (simp add: children_task_step_def Some Cons Let_def case_prod_unfold)
    qed
  qed
  then show "vs_ok E K {} {} (fst (children_task_step E i s))" "vs_held (fst (children_task_step E i s)) = vs_held s" by blast+
qed

lemma resume_ok:
  assumes old: "vs_ok E K {} {} s" and tails: "tails_ok K s"
  shows "vs_ok E K {} {} (fst (resume E w s))" "vs_held (fst (resume E w s)) = vs_held s"
proof -
  let ?a = "s\<lparr>vs_awaits := filter (\<lambda>p. fst p \<noteq> w) (vs_awaits s)\<rparr>"
  let ?s1 = "sweep (s\<lparr>vs_ready := remove1 w (vs_ready s), vs_awaits := filter (\<lambda>p. fst p \<noteq> w) (vs_awaits s)\<rparr>)"
  note f = frame_okD [OF vs_okD(1) [OF old]]
  have a: "vs_ok E K {} {} (sweep ?a)"
    by (rule sweep_ok [OF old]) (use f(4,5) in \<open>auto simp: pinned_def\<close>)
  have eq: "?s1 = (sweep ?a)\<lparr>vs_ready := remove1 w (vs_ready (sweep ?a))\<rparr>"
    by (simp add: sweep_def pinned_def)
  have "wait_ok {} ?s1"
    using vs_okD(2) [OF a] unfolding eq by (fastforce simp: wait_ok_def)
  then have s1: "vs_ok E K {} {} ?s1" using a unfolding eq
    by (simp add: vs_ok_def frame_ok_def tasks_ok_def)
  have "w \<notin> fst ` set (vs_awaits ?s1)" by auto
  moreover have "tails_ok K ?s1" using tails by (simp add: tails_ok_def)
  ultimately show "vs_ok E K {} {} (fst (resume E w s))" "vs_held (fst (resume E w s)) = vs_held s"
    using s1 children_task_step_ok [OF s1] by (auto simp: resume_def Let_def split: waiter.splits)
qed

section \<open>The channel\<close>

lemma spawn_pending_facts:
  assumes "tasks_ok s" "\<forall>p \<in> set ps. snd (snd p)"
  shows "more_requests s (fst (spawn_pending ps s)) \<and> tasks_ok (fst (spawn_pending ps s))
    \<and> vs_pending (fst (spawn_pending ps s)) = vs_pending s
    \<and> set (vs_node_tasks s) \<subseteq> set (vs_node_tasks (fst (spawn_pending ps s)))
    \<and> (\<forall>k. pinned (fst (spawn_pending ps s)) k \<longrightarrow> k \<in> fst ` set ps \<or> pinned s k)
    \<and> (\<forall>(k, st, b) \<in> set ps. status_includes st node_only \<longrightarrow> (k, True) \<in> set (vs_node_tasks (fst (spawn_pending ps s))))"
  using assms
proof (induction ps arbitrary: s)
  case Nil
  then show ?case by (simp add: more_requests_def)
next
  case (Cons p ps)
  obtain n st where p: "p = (n, st, True)" using Cons.prems(2) by (cases p) auto
  note g = spawn_fetch_facts [OF Cons.prems(1), where n = n and st = st]
  let ?s1 = "fst (spawn_fetch n st True s)"
  have ih: "more_requests ?s1 (fst (spawn_pending ps ?s1)) \<and> tasks_ok (fst (spawn_pending ps ?s1))
    \<and> vs_pending (fst (spawn_pending ps ?s1)) = vs_pending ?s1
    \<and> set (vs_node_tasks ?s1) \<subseteq> set (vs_node_tasks (fst (spawn_pending ps ?s1)))
    \<and> (\<forall>k. pinned (fst (spawn_pending ps ?s1)) k \<longrightarrow> k \<in> fst ` set ps \<or> pinned ?s1 k)
    \<and> (\<forall>(k, st, b) \<in> set ps. status_includes st node_only \<longrightarrow> (k, True) \<in> set (vs_node_tasks (fst (spawn_pending ps ?s1))))"
    by (rule Cons.IH [OF g(2)]) (use Cons.prems in simp)
  have eq: "fst (spawn_pending (p # ps) s) = fst (spawn_pending ps ?s1)" by (simp add: p case_prod_unfold Let_def)
  have "more_requests s (fst (spawn_pending ps ?s1))" using g(1) ih by (simp add: more_requests_def)
  moreover have "\<forall>k. pinned (fst (spawn_pending ps ?s1)) k \<longrightarrow> k \<in> fst ` set (p # ps) \<or> pinned s k"
    using ih g(4) by (auto simp: p)
  moreover have "\<forall>(k, st, b) \<in> set (p # ps). status_includes st node_only \<longrightarrow> (k, True) \<in> set (vs_node_tasks (fst (spawn_pending ps ?s1)))"
    using ih g(7) by (auto simp: p)
  ultimately show ?case unfolding eq using ih g(3,6) by simp blast
qed

lemma service_channel_opened_ok:
  assumes old: "vs_ok E K {} {} s" and r: "service_channel_opened s = Some (s', outs)"
  shows "vs_ok E K {} {} s'" "vs_held s' = vs_held s"
proof -
  note f = frame_okD [OF vs_okD(1) [OF old]]
  let ?s0 = "s\<lparr>vs_opened := True, vs_pending := []\<rparr>"
  let ?s1 = "fst (spawn_pending (vs_pending s) ?s0)"
  have s': "s' = sweep ?s1" using r by (simp add: service_channel_opened_def bind_eq_Some_conv case_prod_unfold Let_def)
  have "tasks_ok ?s0" using f(7) by (simp add: tasks_ok_def)
  note g = spawn_pending_facts [OF this, of "vs_pending s"]
  have all: "\<forall>p \<in> set (vs_pending s). snd (snd p)" using f(8) by blast
  note g = g [OF all]
  have same: "vs_models ?s1 = vs_models s" "vs_keep_alive ?s1 = vs_keep_alive s" "vs_held ?s1 = vs_held s" "vs_awaits ?s1 = vs_awaits s"
    "vs_ready ?s1 = vs_ready s" "vs_opened ?s1" "vs_pending ?s1 = []"
    using g by (simp_all add: more_requests_def)
  have find: "find_node_model k ?s1 = find_node_model k s" for k by (simp add: find_node_model_def same)
  have pins: "pinned s k" if "pinned ?s1 k" for k
  proof -
    have "k \<in> fst ` set (vs_pending s) \<or> pinned ?s0 k" using g that by blast
    then show ?thesis
    proof
      assume "k \<in> fst ` set (vs_pending s)"
      then show ?thesis using all by (force simp: pinned_def)
    qed (auto simp: pinned_def)
  qed
  have req: "requested ?s1 k" if "requested s k" for k
  proof (cases "(k, True) \<in> set (vs_node_tasks s)")
    case True
    then have "(k, True) \<in> set (vs_node_tasks ?s1)" using g by auto
    then show ?thesis by (simp add: requested_def)
  next
    case False
    with that obtain st where "(k, st, True) \<in> set (vs_pending s)" "status_includes st node_only"
      by (auto simp: requested_def dest: smap_find_in)
    then show ?thesis using g by (auto simp: requested_def)
  qed
  have live: "find_node_model k s' \<noteq> None \<longleftrightarrow> pinned s' k" for k
    using f(3) [of k] pins [of k] by (simp add: s' find_sweep find)
  have "frame_ok E s'"
    using f(1,4,5) live g unfolding frame_ok_def by (simp add: s' same smap_ok_sweep tasks_ok_def)
  moreover have "wait_ok {} s'"
    unfolding wait_ok_def
  proof (rule ballI)
    fix p assume a: "p \<in> set (vs_awaits s')"
    obtain w k where p: "p = (w, k)" by force
    have "pinned ?s1 k" using a by (force simp: s' p pinned_def)
    then show "case p of (w, k) \<Rightarrow> w \<in> {} \<or> w \<in> set (vs_ready s')
        \<or> (\<exists>m st. find_node_model k s' = Some m \<and> (st, w) \<in> set (nm_callbacks m))"
      using a vs_okD(2) [OF old] by (auto simp: wait_ok_def p s' same find_sweep find)
  qed
  moreover have "model_ok K (requested s' k) m" if "find_node_model k s' = Some m" for k m
  proof -
    have "find_node_model k s = Some m" using that by (simp add: s' find_sweep find split: if_splits)
    from vs_okD(3) [OF old this] req [of k] show ?thesis by (auto simp: s' intro: model_ok_mono)
  qed
  ultimately show "vs_ok E K {} {} s'" by (simp add: vs_ok_def)
  show "vs_held s' = vs_held s" by (simp add: s' same)
qed

lemma closed_ok: "vs_ok E K X Y s \<Longrightarrow> vs_ok E K X Y (s\<lparr>vs_opened := False\<rparr>)"
proof -
  assume a: "vs_ok E K X Y s"
  let ?s = "s\<lparr>vs_opened := False\<rparr>"
  have e: "pinned ?s k = pinned s k" "requested ?s k = requested s k" for k by (simp_all add: pinned_def requested_def)
  have "frame_ok E ?s" using vs_okD(1) [OF a] unfolding frame_ok_def e by (simp add: tasks_ok_def)
  moreover have "wait_ok X ?s" using vs_okD(2) [OF a] by (simp add: wait_ok_def)
  ultimately show ?thesis using a unfolding vs_ok_def e by simp
qed

lemma service_channel_closed_ok:
  assumes "vs_ok E K {} {} s" "service_channel_closed s = Some s'"
  shows "vs_ok E K {} {} s'" "vs_held s' = vs_held s"
  using assms closed_ok by (auto simp: service_channel_closed_def bind_eq_Some_conv)

section \<open>Remote events\<close>

lemma model_on_model_changed_ok:
  assumes m: "model_ok K req m" and r: "model_on_model_changed E e m = (m', ws)"
  shows "model_ok K req m' \<and> (\<forall>x w. (x, w) \<in> set (nm_callbacks m) \<longrightarrow> w \<in> set ws \<or> w \<in> snd ` set (nm_callbacks m'))"
proof (cases "and (mc_verb e) (ve_node_deleted E) = 0")
  case True
  with m r show ?thesis by (auto simp: model_on_model_changed_def intro: rev_image_eqI)
next
  case False
  obtain m1 ws1 where s: "set_fetch_status (ve_wrong_node_id E) all_parts m = (m1, ws1)" by force
  have m': "m' = m1\<lparr>nm_child_models := [], nm_child_references := []\<rparr>" "ws = ws1"
    using r False s by (auto simp: model_on_model_changed_def on_node_deleted_def)
  have "model_ok K req m1" using set_fetch_status_ok(1) [OF m s] by simp
  then have "model_ok K req m'" by (auto simp: m' model_ok_def edges_ok_def edges_of_def waiting_ok_def)
  then show ?thesis using set_fetch_status_ok(2) [OF m s] by (simp add: m')
qed

lemma remove_from_keep_alive_ok:
  assumes "vs_ok E K X Y s"
  shows "vs_ok E K X Y (remove_from_keep_alive n s)" "vs_held (remove_from_keep_alive n s) = vs_held s"
proof -
  note f = frame_okD [OF vs_okD(1) [OF assms]]
  have "vs_ok E K X Y (sweep (s\<lparr>vs_keep_alive := remove1 n (vs_keep_alive s)\<rparr>))"
    by (rule sweep_ok [OF assms]) (use f(4,5) in \<open>auto simp: pinned_def length_remove1 dest: notin_set_remove1\<close>)
  then show "vs_ok E K X Y (remove_from_keep_alive n s)" using assms by (simp add: remove_from_keep_alive_def)
  show "vs_held (remove_from_keep_alive n s) = vs_held s" by (simp add: remove_from_keep_alive_def)
qed

lemma service_on_model_changed_ok:
  assumes old: "vs_ok E K {} {} s"
  shows "vs_ok E K {} {} (fst (service_on_model_changed E e s))" "vs_held (fst (service_on_model_changed E e s)) = vs_held s"
proof -
  note u = update_status_ok [OF old, of "mc_node_id e" "model_on_model_changed E e", OF _ _ model_on_model_changed_ok [OF vs_okD(3) [OF old]], simplified]
  show "vs_ok E K {} {} (fst (service_on_model_changed E e s))" "vs_held (fst (service_on_model_changed E e s)) = vs_held s"
    using u old remove_from_keep_alive_ok [OF u(1)] by (auto simp: service_on_model_changed_def Let_def)
qed

lemma new_node_service_ok: "vs_ok E K {} {} new_node_service"
  by (simp add: vs_ok_def frame_ok_def wait_ok_def tasks_ok_def new_node_service_def find_node_model_def pinned_def)

section \<open>The guards of the children fetches\<close>

text \<open>A node whose children are being fetched has one coroutine for it: before the answer or after it.\<close>

definition guard_view where
  "guard_view s = (vs_children_tasks s, vs_children_in_flight s, vs_tails s, vs_next s)"

definition guards_ok :: "'n set option \<Rightarrow> ('n, 'v, 'c, 's) node_service \<Rightarrow> bool" where
  "guards_ok K s \<longleftrightarrow> distinct (map fst (vs_children_tasks s) @ map (ct_node \<circ> snd) (vs_tails s))
     \<and> vs_children_in_flight s = set (map fst (vs_children_tasks s) @ map (ct_node \<circ> snd) (vs_tails s))
     \<and> distinct (map fst (vs_tails s))
     \<and> (\<forall>(i, t) \<in> set (vs_tails s). i < vs_next s \<and> children_ok K (ct_references t))"

lemma guards_same: "guard_view s' = guard_view s \<Longrightarrow> guards_ok K s' = guards_ok K s"
  by (simp add: guard_view_def guards_ok_def)

lemma guards_tails: "guards_ok K s \<Longrightarrow> tails_ok K s"
  by (auto simp: guards_ok_def tails_ok_def)

lemma guard_view_basic [simp]:
  "guard_view (put_model n m s) = guard_view s" "guard_view (sweep s) = guard_view s" "guard_view (hold n s) = guard_view s"
  "guard_view (release n s) = guard_view s" "guard_view (s\<lparr>vs_ready := r\<rparr>) = guard_view s"
  "guard_view (s\<lparr>vs_awaits := a\<rparr>) = guard_view s" "guard_view (s\<lparr>vs_pending := p\<rparr>) = guard_view s"
  "guard_view (s\<lparr>vs_keep_alive := k\<rparr>) = guard_view s" "guard_view (s\<lparr>vs_node_tasks := t\<rparr>) = guard_view s"
  "guard_view (s\<lparr>vs_node_in_flight := f\<rparr>) = guard_view s" "guard_view (s\<lparr>vs_opened := b\<rparr>) = guard_view s"
  by (simp_all add: guard_view_def)

lemma guard_view_steps [simp]:
  "guard_view (touch_keep_alive E n s) = guard_view s" "guard_view (get_node_model E n s) = guard_view s"
  "guard_view (remove_from_keep_alive n s) = guard_view s"
  "guard_view (fst (update_model n f s)) = guard_view s" "guard_view (update_status n g s) = guard_view s"
  "guard_view (process_fetch_error n st s) = guard_view s"
  by (simp_all add: touch_keep_alive_def get_node_model_def remove_from_keep_alive_def update_model_def update_status_def
      process_fetch_error_def case_prod_unfold Let_def split: option.splits)

lemma guard_view_push [simp]: "guard_view (fst (push_mirror n r s)) = guard_view s"
  by (simp add: push_mirror_def Let_def)

lemma guard_view_pushes [simp]: "guard_view (fst (push_mirrors n rs s)) = guard_view s"
  by (induction rs arbitrary: s) (simp_all add: case_prod_unfold Let_def)

lemma guard_view_on_fetched [simp]: "guard_view (fst (on_fetched E n ns s)) = guard_view s"
  by (simp add: on_fetched_def Let_def case_prod_unfold)

lemma guard_view_completed: "on_fetch_completed E n s = Some (s', outs) \<Longrightarrow> guard_view s' = guard_view s"
  by (auto simp: on_fetch_completed_def bind_eq_Some_conv Let_def case_prod_unfold)

lemma guard_view_process: "process_fetched_node E ns s = Some (s', outs) \<Longrightarrow> guard_view s' = guard_view s"
  by (auto simp: process_fetched_node_def bind_eq_Some_conv Let_def case_prod_unfold split: if_splits dest!: guard_view_completed)

lemma guard_view_node_answer: "on_node_answer E task r s = Some (s', outs) \<Longrightarrow> guard_view s' = guard_view s"
  by (auto simp: on_node_answer_def bind_eq_Some_conv Let_def case_prod_unfold split: if_splits sum.splits dest!: guard_view_process)

lemma guards_spawn: "guards_ok K s \<Longrightarrow> guards_ok K (fst (spawn_fetch n st pin s))"
  by (auto simp: spawn_fetch_def guards_ok_def)

lemma guards_on_fetch_node: "guards_ok K s \<Longrightarrow> guards_ok K (fst (on_fetch_node n st s))"
  using guards_same [of "s\<lparr>vs_pending := p\<rparr>" s K for p] guards_spawn
  by (auto simp: on_fetch_node_def Let_def split: option.splits)

lemma guards_start_fetch_of: "guards_ok K s \<Longrightarrow> guards_ok K (fst (start_fetch_of n st w s))"
proof -
  assume g: "guards_ok K s"
  have p: "guards_ok K (put_ready n m ws s)" for m ws using g guards_same [of "put_ready n m ws s" s K] by simp
  show ?thesis using g by (auto simp: start_fetch_of_def Let_def p split: option.splits prod.splits intro!: guards_on_fetch_node)
qed

lemma guards_get_node_model: "guards_ok K s \<Longrightarrow> guards_ok K (get_node_model E n s)"
  using guards_same [of "get_node_model E n s" s K] by simp

lemma guards_release: "guards_ok K (release n s) = guards_ok K s" for s :: "('n::linorder, 'v, 'c, 's) node_service"
  by (rule guards_same) simp

lemma guards_read: "guards_ok K s \<Longrightarrow> guards_ok K (fst (get_node_model_for_read E n s))"
  by (simp add: get_node_model_for_read_def guards_start_fetch_of guards_get_node_model)

lemma guards_get_node: "guards_ok K s \<Longrightarrow> guards_ok K (fst (get_node E n s))"
  by (simp add: get_node_def Let_def case_prod_unfold release_read_def guards_release guards_read)

lemma guards_service_start_fetch: "guards_ok K s \<Longrightarrow> guards_ok K (fst (service_start_fetch E n st s))"
  by (simp add: service_start_fetch_def Let_def case_prod_unfold guards_release guards_start_fetch_of guards_get_node_model)

lemma guards_service_fetch: "guards_ok K s \<Longrightarrow> guards_ok K (fst (service_fetch E n st w s))"
proof -
  assume g: "guards_ok K s"
  let ?r = "fst (get_node_model_for_read E n s)"
  have "guards_ok K (?r\<lparr>vs_awaits := vs_awaits ?r @ [(w, n)]\<rparr>)"
    using guards_read [OF g, of E n] guards_same [of "?r\<lparr>vs_awaits := vs_awaits ?r @ [(w, n)]\<rparr>" ?r K] by simp
  moreover have "guards_ok K (s\<lparr>vs_ready := vs_ready s @ [w]\<rparr>)" using g guards_same [of "s\<lparr>vs_ready := vs_ready s @ [w]\<rparr>" s K] by simp
  ultimately show ?thesis by (simp add: service_fetch_def Let_def case_prod_unfold guards_release guards_start_fetch_of)
qed

lemma guards_settle:
  assumes "distinct (map fst ct @ map (ct_node \<circ> snd) tails)" "inflight = insert n (set (map fst ct @ map (ct_node \<circ> snd) tails))"
    "n \<notin> set (map fst ct @ map (ct_node \<circ> snd) tails)" "distinct (map fst tails)"
    "\<forall>(i, t) \<in> set tails. i < k \<and> children_ok K (ct_references t)"
    "guard_view s = (ct, inflight, tails, k)"
  shows "guards_ok K (children_fetch_settled n s)"
  using assms by (auto simp: guards_ok_def children_fetch_settled_def guard_view_def)

lemma settled_same:
  "guard_view s = (ct, fl, tails, k) \<Longrightarrow> guard_view (children_fetch_settled n s) = (ct, fl - {n}, tails, k)"
  by (simp add: guard_view_def children_fetch_settled_def)

lemma guards_finish:
  assumes g: "guards_ok K s" and t: "(i, t) \<in> set (vs_tails s)"
  shows "guards_ok K (fst (finish_children E i t (s\<lparr>vs_tails := filter (\<lambda>p. fst p \<noteq> i) (vs_tails s)\<rparr>)))"
proof -
  let ?tl = "filter (\<lambda>p. fst p \<noteq> i) (vs_tails s)" and ?n = "ct_node t"
  let ?s = "s\<lparr>vs_tails := ?tl\<rparr>"
  have d: "distinct (map fst (vs_children_tasks s))" "distinct (map (ct_node \<circ> snd) (vs_tails s))" "distinct (map fst (vs_tails s))"
    "set (map fst (vs_children_tasks s)) \<inter> set (map (ct_node \<circ> snd) (vs_tails s)) = {}"
    "vs_children_in_flight s = set (map fst (vs_children_tasks s)) \<union> set (map (ct_node \<circ> snd) (vs_tails s))"
    using g by (simp_all add: guards_ok_def)
  obtain a b where ab: "vs_tails s = a @ (i, t) # b" using t by (auto simp: in_set_conv_decomp)
  have "filter (\<lambda>p. fst p \<noteq> i) a = a" "filter (\<lambda>p. fst p \<noteq> i) b = b"
    using d(3) by (auto simp: ab filter_id_conv)
  then have tl: "?tl = a @ b" by (simp add: ab)
  have view: "guard_view ?s = (vs_children_tasks s, vs_children_in_flight s, ?tl, vs_next s)" by (simp add: guard_view_def)
  have S: "guards_ok K (children_fetch_settled ?n u)" if "guard_view u = guard_view ?s" for u
  proof (rule guards_settle)
    show "guard_view u = (vs_children_tasks s, vs_children_in_flight s, ?tl, vs_next s)" using that view by simp
    show "vs_children_in_flight s = insert ?n (set (map fst (vs_children_tasks s) @ map (ct_node \<circ> snd) ?tl))"
      unfolding tl d(5) by (auto simp: ab)
    show "distinct (map fst (vs_children_tasks s) @ map (ct_node \<circ> snd) ?tl)" "distinct (map fst ?tl)"
      "?n \<notin> set (map fst (vs_children_tasks s) @ map (ct_node \<circ> snd) ?tl)"
      unfolding tl using d(1-4) by (auto simp: ab)
    show "\<forall>(i, t) \<in> set ?tl. i < vs_next s \<and> children_ok K (ct_references t)" using g by (auto simp: guards_ok_def)
  qed
  have frames: "guards_ok K (release ?n (fst (update_model ?n f (fst (update_model ?n h (children_fetch_settled ?n u))))))"
    if "guard_view u = guard_view ?s" for f h u
    using S [OF that] guards_same [of "release ?n (fst (update_model ?n f (fst (update_model ?n h (children_fetch_settled ?n u)))))"
      "children_fetch_settled ?n u" K] by simp
  show ?thesis
    by (auto simp: finish_children_def Let_def case_prod_unfold split: option.splits intro!: S frames)
qed

lemma guards_children_task_step:
  assumes g: "guards_ok K s"
  shows "guards_ok K (fst (children_task_step E i s))"
proof (cases "map_of (vs_tails s) i")
  case None
  then show ?thesis using g by (simp add: children_task_step_def)
next
  case (Some t)
  show ?thesis
  proof (cases "ct_todo t")
    case Nil
    then show ?thesis using guards_finish [OF g map_of_SomeD [OF Some], of E] by (simp add: children_task_step_def Some)
  next
    case (Cons m todo)
    let ?f = "\<lambda>(j, u). if j = i then (j, u\<lparr>ct_todo := todo\<rparr>) else (j, u)"
    let ?s1 = "s\<lparr>vs_tails := map ?f (vs_tails s)\<rparr>"
    have same: "map (ct_node \<circ> snd) (vs_tails ?s1) = map (ct_node \<circ> snd) (vs_tails s)" "map fst (vs_tails ?s1) = map fst (vs_tails s)"
      "vs_children_tasks ?s1 = vs_children_tasks s" "vs_children_in_flight ?s1 = vs_children_in_flight s"
      by auto
    have "\<forall>(j, u) \<in> set (vs_tails ?s1). j < vs_next ?s1 \<and> children_ok K (ct_references u)"
      using g by (auto simp: guards_ok_def split: if_splits)
    then have "guards_ok K ?s1" using g unfolding guards_ok_def same by blast
    then show ?thesis
      by (simp add: children_task_step_def Some Cons Let_def case_prod_unfold guards_service_fetch guards_get_node)
  qed
qed

lemma guards_resume: "guards_ok K s \<Longrightarrow> guards_ok K (fst (resume E w s))"
proof -
  assume g: "guards_ok K s"
  let ?s1 = "sweep (s\<lparr>vs_ready := remove1 w (vs_ready s), vs_awaits := filter (\<lambda>p. fst p \<noteq> w) (vs_awaits s)\<rparr>)"
  have "guards_ok K ?s1" using g guards_same [of ?s1 s K] by simp
  then show ?thesis using guards_children_task_step by (auto simp: resume_def Let_def split: waiter.splits)
qed

lemma guards_children_answer:
  assumes g: "guards_ok K s" and t: "task \<in> set (vs_children_tasks s)" and r: "children_result_ok K result"
  shows "guards_ok K (on_children_answer E task result s)"
proof -
  obtain n b where task: "task = (n, b)" by force
  let ?ct = "remove1 task (vs_children_tasks s)"
  let ?s1 = "s\<lparr>vs_children_tasks := ?ct\<rparr>"
  obtain x y where xy: "vs_children_tasks s = x @ task # y" "task \<notin> set x" using split_list_first [OF t] by blast
  have ct: "?ct = x @ y" using xy by (simp add: remove1_append)
  note d = g [unfolded guards_ok_def xy(1) task]
  have view: "guard_view ?s1 = (x @ y, vs_children_in_flight s, vs_tails s, vs_next s)" unfolding ct by (simp add: guard_view_def)
  have S: "guards_ok K (children_fetch_settled n u)" if "guard_view u = guard_view ?s1" for u
    by (rule guards_settle [of "x @ y" "vs_tails s" "vs_children_in_flight s" n "vs_next s"])
      (use d that in \<open>auto simp: view\<close>)
  have E: "guards_ok K (process_fetch_error n st (children_fetch_settled n u))" if "guard_view u = guard_view ?s1" for st u
    using S [OF that] guards_same [of "process_fetch_error n st (children_fetch_settled n u)" "children_fetch_settled n u" K] by simp
  have C: "guards_ok K (on_children_fetched n refs u)" if "guard_view u = guard_view ?s1" "children_ok K refs" for refs u
  proof -
    have "guard_view (on_children_fetched n refs u) = (x @ y, vs_children_in_flight s,
        vs_tails s @ [(vs_next s, \<lparr>ct_node = n, ct_references = refs, ct_todo = concat (map (\<lambda>r. [rd_node_id r, rd_reference_type_id r]) refs)\<rparr>)],
        Suc (vs_next s))"
      using that(1) guard_view_steps(4) [of n "\<lambda>m. (m\<lparr>nm_request := Some (vs_next u)\<rparr>, [])" u] unfolding view
      by (auto simp: on_children_fetched_def Let_def guard_view_def)
    then show ?thesis using d that(2) by (auto simp: guards_ok_def guard_view_def)
  qed
  show ?thesis
    using r by (auto simp: on_children_answer_def Let_def task guards_release process_fetched_children_def children_result_ok_def
        split: sum.splits intro!: S E C)
qed

lemma guards_spawn_pending: "guards_ok K s \<Longrightarrow> guards_ok K (fst (spawn_pending ps s))"
  by (induction ps arbitrary: s) (auto simp: Let_def case_prod_unfold guards_spawn)

lemma guards_opened:
  assumes g: "guards_ok K s" and r: "service_channel_opened s = Some (s', outs)"
  shows "guards_ok K s'"
proof -
  let ?s = "s\<lparr>vs_opened := True, vs_pending := []\<rparr>"
  have "guards_ok K ?s" using g guards_same [of ?s s K] by simp
  from guards_spawn_pending [OF this, of "vs_pending s"]
  have "guards_ok K (sweep (fst (spawn_pending (vs_pending s) ?s)))"
    using guards_same [of "sweep (fst (spawn_pending (vs_pending s) ?s))" "fst (spawn_pending (vs_pending s) ?s)" K] by simp
  then show ?thesis using r by (simp add: service_channel_opened_def bind_eq_Some_conv case_prod_unfold Let_def)
qed

end
