(* ===== verification/Node_Queries.thy ===== *)
theory Node_Queries
  imports Node_Service_Facts "HOL-Library.Monad_Syntax"
begin

text \<open>
  What a client reads through the node service: the getters of \<open>node_service_impl.cpp\<close> and \<open>node_model_impl.cpp\<close>, the
  cursors of \<open>node_ref.cpp\<close> and the walks of \<open>node_util.cpp\<close>. A cursor is the id of a node, the null id stands for a null
  cursor. Every read touches the window of recently used nodes and asks for nodes that are not fetched, so a query returns
  its result with the new state and the requests; \<open>None\<close> is a walk that does not end.
\<close>

type_synonym ('a, 'n, 'v, 'c, 's) vs_query =
  "('n, 'v, 'c, 's) node_service \<Rightarrow> ('a \<times> ('n, 'v, 'c, 's) node_service \<times> ('n, 'v, 'c) vs_out list) option"

definition query_return :: "'a \<Rightarrow> ('a, 'n, 'v, 'c, 's) vs_query" where
  "query_return x = (\<lambda>s. Some (x, s, []))"

definition query_bind ::
    "('a, 'n, 'v, 'c, 's) vs_query \<Rightarrow> ('a \<Rightarrow> ('b, 'n, 'v, 'c, 's) vs_query) \<Rightarrow> ('b, 'n, 'v, 'c, 's) vs_query" where
  "query_bind q f = (\<lambda>s. do {
     (x, s1, o1) \<leftarrow> q s;
     (y, s2, o2) \<leftarrow> f x s1;
     Some (y, s2, o1 @ o2)
   })"

lemma query_bind_mono [partial_function_mono]:
  assumes "\<And>s. mono_option (\<lambda>g. q g s)" "\<And>x s. mono_option (\<lambda>g. f g x s)"
  shows "mono_option (\<lambda>g. query_bind (q g) (f g) s)"
  unfolding query_bind_def case_prod_unfold by (intro bind_mono assms option.const_mono)

text \<open>A query for each element of a list.\<close>

fun query_map :: "('a \<Rightarrow> ('b, 'n, 'v, 'c, 's) vs_query) \<Rightarrow> 'a list \<Rightarrow> ('b list, 'n, 'v, 'c, 's) vs_query" where
  "query_map f [] = query_return []"
| "query_map f (x # xs) = query_bind (f x) (\<lambda>y. query_bind (query_map f xs) (\<lambda>ys. query_return (y # ys)))"

text \<open>The elements with a property, and the first of them.\<close>

fun query_filter :: "('a \<Rightarrow> (bool, 'n, 'v, 'c, 's) vs_query) \<Rightarrow> 'a list \<Rightarrow> ('a list, 'n, 'v, 'c, 's) vs_query" where
  "query_filter p [] = query_return []"
| "query_filter p (x # xs) =
     query_bind (p x) (\<lambda>b. query_bind (query_filter p xs) (\<lambda>ys. query_return (if b then x # ys else ys)))"

fun query_find :: "('a \<Rightarrow> (bool, 'n, 'v, 'c, 's) vs_query) \<Rightarrow> 'a list \<Rightarrow> ('a option, 'n, 'v, 'c, 's) vs_query" where
  "query_find p [] = query_return None"
| "query_find p (x # xs) = query_bind (p x) (\<lambda>b. if b then query_return (Some x) else query_find p xs)"

text \<open>What the queries use of the standard ids and of the value types.\<close>

record ('n, 'v, 's) vq_env =
  vq_service :: "('n, 'v, 's) vs_env"
  vq_standard_subtype :: "'n \<Rightarrow> 'n \<Rightarrow> bool option"  \<comment> \<open>\<open>IsStandardReferenceSubtype\<close>\<close>
  vq_ok_status :: "'s \<Rightarrow> bool"
  vq_id_value :: "'n \<Rightarrow> 'v"
  vq_class_value :: "int \<Rightarrow> 'v"
  vq_id_name :: "'n \<Rightarrow> 'v"
  vq_id_text :: "'n \<Rightarrow> 'v"
  vq_status_text :: "'s \<Rightarrow> 'v"
  vq_no_name :: 'v
  vq_no_text :: 'v
  vq_get_int :: "'v \<Rightarrow> int option"
  vq_name_text :: "'v \<Rightarrow> 'v"
  vq_empty_text :: "'v \<Rightarrow> bool"
  vq_has_component :: 'n
  vq_has_modelling_rule :: 'n
  vq_organizes :: 'n
  vq_optional_placeholder :: 'n
  vq_mandatory_placeholder :: 'n

abbreviation vq_ids :: "('n, 'v, 's) vq_env \<Rightarrow> ('n, 'v, 's) nf_env" where
  "vq_ids Q \<equiv> ve_ids (vq_service Q)"

abbreviation vq_null :: "('n, 'v, 's) vq_env \<Rightarrow> 'n" where
  "vq_null Q \<equiv> ne_null (vq_ids Q)"

section \<open>Reading a model\<close>

text \<open>The pattern of the getters: the model of the node is read, or a default for the null id.\<close>

definition read_model ::
    "('n::linorder, 'v, 's) vs_env \<Rightarrow> 'n \<Rightarrow> 'a \<Rightarrow> (('n, 'v, 'c, 's) node_model \<Rightarrow> ('a, 'n, 'v, 'c, 's) vs_query) \<Rightarrow>
     ('a, 'n, 'v, 'c, 's) vs_query" where
  "read_model E n d f = (\<lambda>s.
     if n = ne_null (ve_ids E) then Some (d, s, [])
     else let (s1, o1) = get_node_model_for_read E n s in
       case find_node_model n s1 of
         None \<Rightarrow> Some (d, release n s1, o1)
       | Some m \<Rightarrow> do {
           (x, s2, o2) \<leftarrow> f m s1;
           Some (x, release n s2, o1 @ o2)
         })"

definition cursor_at :: "('n::linorder, 'v, 's) vs_env \<Rightarrow> 'n \<Rightarrow> ('n, 'n, 'v, 'c, 's) vs_query" where
  "cursor_at E n = (\<lambda>s. let (s1, o1) = get_node E n s in Some (n, s1, o1))"

definition get_status :: "('n::linorder, 'v, 's) vs_env \<Rightarrow> 'n \<Rightarrow> ('s, 'n, 'v, 'c, 's) vs_query" where
  "get_status E n = read_model E n (ve_wrong_node_id E) (\<lambda>m. query_return (nm_status m))"

definition get_fetch_status :: "('n::linorder, 'v, 's) vs_env \<Rightarrow> 'n \<Rightarrow> (fetch_status, 'n, 'v, 'c, 's) vs_query" where
  "get_fetch_status E n = read_model E n status_none (\<lambda>m. query_return (nm_fetch_status m))"

text \<open>\<open>NodeModelImpl::GetAttribute\<close> for the model of node \<open>n\<close>.\<close>

definition model_attribute :: "('n, 'v, 's) vq_env \<Rightarrow> 'n \<Rightarrow> attribute_id \<Rightarrow> ('n, 'v, 'c, 's) node_model \<Rightarrow> 'v" where
  "model_attribute Q n a m =
     (let fetched = status_includes (nm_fetch_status m) node_only; good = vq_ok_status Q (nm_status m);
          browse_name = (case ns_browse_name (nm_state m) of None \<Rightarrow> vq_no_name Q | Some b \<Rightarrow> b) in
      case a of
        NodeIdAttr \<Rightarrow> vq_id_value Q n
      | NodeClassAttr \<Rightarrow>
          if \<not> fetched \<or> \<not> good then ne_null_variant (vq_ids Q) else vq_class_value Q (ns_node_class (nm_state m))
      | BrowseName \<Rightarrow> if \<not> fetched \<or> \<not> good then vq_id_name Q n else browse_name
      | DisplayName \<Rightarrow>
          if \<not> fetched then vq_id_text Q n
          else if \<not> good then vq_status_text Q (nm_status m)
          else (case ns_display_name (nm_state m) of
                  None \<Rightarrow> vq_name_text Q browse_name
                | Some t \<Rightarrow> if vq_empty_text Q t then vq_name_text Q browse_name else t)
      | ValueAttr \<Rightarrow> (case ns_value (nm_state m) of None \<Rightarrow> ne_null_variant (vq_ids Q) | Some v \<Rightarrow> v)
      | _ \<Rightarrow> ne_null_variant (vq_ids Q))"

definition read_node_attribute :: "('n::linorder, 'v, 's) vq_env \<Rightarrow> 'n \<Rightarrow> attribute_id \<Rightarrow> ('v, 'n, 'v, 'c, 's) vs_query" where
  "read_node_attribute Q n a =
     read_model (vq_service Q) n (ne_null_variant (vq_ids Q)) (\<lambda>m. query_return (model_attribute Q n a m))"

definition get_data_type :: "('n::linorder, 'v, 's) vs_env \<Rightarrow> 'n \<Rightarrow> ('n, 'n, 'v, 'c, 's) vs_query" where
  "get_data_type E n = read_model E n (ne_null (ve_ids E)) (\<lambda>m. cursor_at E (ns_data_type (nm_state m)))"

section \<open>Targets and references\<close>

text \<open>\<open>NodeRef::supertype\<close>: \<open>GetTarget\<close> has its own branch for it, which keeps the walk below out of \<open>GetReferences\<close>.\<close>

definition supertype :: "('n::linorder, 'v, 's) vs_env \<Rightarrow> 'n \<Rightarrow> ('n, 'n, 'v, 'c, 's) vs_query" where
  "supertype E n = read_model E n (ne_null (ve_ids E)) (\<lambda>m. cursor_at E (ns_supertype_id (nm_state m)))"

text \<open>\<open>IsSubtypeOf\<close> of \<open>node_util.cpp\<close>.\<close>

partial_function (option) is_subtype_of_walk ::
    "('n::linorder, 'v, 's) vs_env \<Rightarrow> 'n \<Rightarrow> 'n \<Rightarrow> (bool, 'n, 'v, 'c, 's) vs_query" where
  "is_subtype_of_walk E ty super s =
     (if ty = ne_null (ve_ids E) then query_return False s
      else if ty = super then query_return True s
      else query_bind (supertype E ty) (\<lambda>t. is_subtype_of_walk E t super) s)"

definition reference_matches :: "('n::linorder, 'v, 's) vq_env \<Rightarrow> 'n \<Rightarrow> 'n \<Rightarrow> (bool, 'n, 'v, 'c, 's) vs_query" where
  "reference_matches Q ty ref_type =
     (case vq_standard_subtype Q ref_type ty of
        Some known \<Rightarrow> query_return known
      | None \<Rightarrow> query_bind (cursor_at (vq_service Q) ref_type) (\<lambda>t. is_subtype_of_walk (vq_service Q) t ty))"

type_synonym 'n node_reference = "'n \<times> 'n \<times> bool"  \<comment> \<open>type, target, direction\<close>

definition append_matching ::
    "('n::linorder, 'v, 's) vq_env \<Rightarrow> 'n \<Rightarrow> bool \<Rightarrow> 'n reference_description list \<Rightarrow>
     ('n node_reference list, 'n, 'v, 'c, 's) vs_query" where
  "append_matching Q ty forward refs =
     query_bind (query_map (\<lambda>r.
         if rd_forward r = forward
         then query_bind (reference_matches Q ty (rd_reference_type_id r)) (\<lambda>b.
           if b then query_bind (cursor_at (vq_service Q) (rd_reference_type_id r)) (\<lambda>t.
             query_bind (cursor_at (vq_service Q) (rd_node_id r)) (\<lambda>n. query_return [(t, n, rd_forward r)]))
           else query_return [])
         else query_return []) refs)
       (\<lambda>xss. query_return (concat xss))"

definition model_references ::
    "('n::linorder, 'v, 's) vq_env \<Rightarrow> 'n \<Rightarrow> bool \<Rightarrow> ('n, 'v, 'c, 's) node_model \<Rightarrow>
     ('n node_reference list, 'n, 'v, 'c, 's) vs_query" where
  "model_references Q ty forward m =
     query_bind (append_matching Q ty forward (ns_references (nm_state m))) (\<lambda>xs.
       query_bind (append_matching Q ty forward (nm_child_references m)) (\<lambda>ys. query_return (xs @ ys)))"

definition null_reference :: "('n, 'v, 's) vq_env \<Rightarrow> 'n node_reference" where
  "null_reference Q = (vq_null Q, vq_null Q, False)"

definition model_reference ::
    "('n::linorder, 'v, 's) vq_env \<Rightarrow> 'n \<Rightarrow> bool \<Rightarrow> 'n \<Rightarrow> ('n, 'v, 'c, 's) node_model \<Rightarrow>
     ('n node_reference, 'n, 'v, 'c, 's) vs_query" where
  "model_reference Q ty forward target m =
     (if \<not> forward \<and> ty = ne_hierarchical (vq_ids Q) \<and> target = vq_null Q \<and> ns_parent_id (nm_state m) \<noteq> vq_null Q
      then query_bind (cursor_at (vq_service Q) (ns_reference_type_id (nm_state m))) (\<lambda>t.
        query_bind (cursor_at (vq_service Q) (ns_parent_id (nm_state m))) (\<lambda>p. query_return (t, p, False)))
      else query_bind (model_references Q ty forward m) (\<lambda>refs. query_return
        (case refs of
           [] \<Rightarrow> null_reference Q
         | r # _ \<Rightarrow>
             if target = vq_null Q then r
             else (case List.find (\<lambda>(t, n, f). n = target) refs of None \<Rightarrow> null_reference Q | Some r \<Rightarrow> r))))"

definition model_target ::
    "('n::linorder, 'v, 's) vq_env \<Rightarrow> 'n \<Rightarrow> bool \<Rightarrow> ('n, 'v, 'c, 's) node_model \<Rightarrow> ('n, 'n, 'v, 'c, 's) vs_query" where
  "model_target Q ty forward m =
     (let st = nm_state m; E = vq_service Q in
      if forward \<and> ty = ne_has_type_definition (vq_ids Q) then cursor_at E (ns_type_definition_id st)
      else if \<not> forward \<and> ty = ne_has_subtype (vq_ids Q) then cursor_at E (ns_supertype_id st)
      else if \<not> forward \<and> ty = ne_hierarchical (vq_ids Q) \<and> ns_parent_id st \<noteq> vq_null Q then cursor_at E (ns_parent_id st)
      else if \<not> forward \<and> ty = ne_hierarchical (vq_ids Q) \<and> ns_supertype_id st \<noteq> vq_null Q then cursor_at E (ns_supertype_id st)
      else query_bind (model_reference Q ty forward (vq_null Q) m) (\<lambda>(t, n, f). query_return n))"

definition get_reference ::
    "('n::linorder, 'v, 's) vq_env \<Rightarrow> 'n \<Rightarrow> 'n \<Rightarrow> bool \<Rightarrow> 'n \<Rightarrow> ('n node_reference, 'n, 'v, 'c, 's) vs_query" where
  "get_reference Q n ty forward target = read_model (vq_service Q) n (null_reference Q) (model_reference Q ty forward target)"

definition get_references ::
    "('n::linorder, 'v, 's) vq_env \<Rightarrow> 'n \<Rightarrow> 'n \<Rightarrow> bool \<Rightarrow> ('n node_reference list, 'n, 'v, 'c, 's) vs_query" where
  "get_references Q n ty forward = read_model (vq_service Q) n [] (model_references Q ty forward)"

definition get_target :: "('n::linorder, 'v, 's) vq_env \<Rightarrow> 'n \<Rightarrow> 'n \<Rightarrow> bool \<Rightarrow> ('n, 'n, 'v, 'c, 's) vs_query" where
  "get_target Q n ty forward = read_model (vq_service Q) n (vq_null Q) (model_target Q ty forward)"

definition get_targets :: "('n::linorder, 'v, 's) vq_env \<Rightarrow> 'n \<Rightarrow> 'n \<Rightarrow> bool \<Rightarrow> ('n list, 'n, 'v, 'c, 's) vs_query" where
  "get_targets Q n ty forward = read_model (vq_service Q) n []
     (\<lambda>m. query_bind (model_references Q ty forward m) (\<lambda>refs. query_return (map (\<lambda>(t, k, f). k) refs)))"

section \<open>Children by name and aggregates\<close>

definition ref_browse_name :: "('n::linorder, 'v, 's) vq_env \<Rightarrow> 'n \<Rightarrow> ('v, 'n, 'v, 'c, 's) vs_query" where
  "ref_browse_name Q n = query_bind (read_node_attribute Q n BrowseName)
     (\<lambda>v. query_return (case ne_get_qualified_name (vq_ids Q) v of None \<Rightarrow> vq_no_name Q | Some b \<Rightarrow> b))"

definition ref_display_name :: "('n::linorder, 'v, 's) vq_env \<Rightarrow> 'n \<Rightarrow> ('v, 'n, 'v, 'c, 's) vs_query" where
  "ref_display_name Q n = query_bind (read_node_attribute Q n DisplayName)
     (\<lambda>v. query_return (case ne_get_localized_text (vq_ids Q) v of None \<Rightarrow> vq_no_text Q | Some t \<Rightarrow> t))"

definition ref_node_class :: "('n::linorder, 'v, 's) vq_env \<Rightarrow> 'n \<Rightarrow> (int option, 'n, 'v, 'c, 's) vs_query" where
  "ref_node_class Q n = query_bind (read_node_attribute Q n NodeClassAttr) (\<lambda>v. query_return (vq_get_int Q v))"

definition model_child ::
    "('n::linorder, 'v, 's) vq_env \<Rightarrow> 'v \<Rightarrow> ('n, 'v, 'c, 's) node_model \<Rightarrow> ('n, 'n, 'v, 'c, 's) vs_query" where
  "model_child Q name m =
     (if \<not> status_includes (nm_fetch_status m) node_only then query_return (vq_null Q)
      else query_bind (model_references Q (ne_hierarchical (vq_ids Q)) True m) (\<lambda>refs.
        query_bind (query_find (\<lambda>n. query_bind (ref_browse_name Q n) (\<lambda>b. query_return (b = name))) (map (\<lambda>(t, k, f). k) refs))
          (\<lambda>found. query_return (case found of None \<Rightarrow> vq_null Q | Some n \<Rightarrow> n))))"

definition get_child :: "('n::linorder, 'v, 's) vq_env \<Rightarrow> 'n \<Rightarrow> 'v \<Rightarrow> ('n, 'n, 'v, 'c, 's) vs_query" where
  "get_child Q n name = read_model (vq_service Q) n (vq_null Q) (model_child Q name)"

text \<open>The declaration of an aggregate, in the type and its supertypes.\<close>

partial_function (option) aggregate_declaration_from ::
    "('n::linorder, 'v, 's) vq_env \<Rightarrow> 'n \<Rightarrow> 'n \<Rightarrow> ('n, 'n, 'v, 'c, 's) vs_query" where
  "aggregate_declaration_from Q declaration ty s =
     (if ty = vq_null Q then query_return (vq_null Q) s
      else query_bind (get_targets Q ty (ne_aggregates (vq_ids Q)) True) (\<lambda>aggregates s'.
        if declaration \<in> set aggregates then query_return declaration s'
        else query_bind (supertype (vq_service Q) ty) (\<lambda>t. aggregate_declaration_from Q declaration t) s') s)"

definition model_aggregate_declaration ::
    "('n::linorder, 'v, 's) vq_env \<Rightarrow> 'n \<Rightarrow> 'n \<Rightarrow> ('n, 'v, 'c, 's) node_model \<Rightarrow> ('n, 'n, 'v, 'c, 's) vs_query" where
  "model_aggregate_declaration Q n declaration m =
     (if \<not> status_includes (nm_fetch_status m) node_only \<or> \<not> vq_ok_status Q (nm_status m) then query_return (vq_null Q)
      else query_bind
        (if ne_is_type_definition (vq_ids Q) (ns_node_class (nm_state m)) then query_return n
         else cursor_at (vq_service Q) (ns_type_definition_id (nm_state m)))
        (aggregate_declaration_from Q declaration))"

definition get_aggregate :: "('n::linorder, 'v, 's) vq_env \<Rightarrow> 'n \<Rightarrow> 'n \<Rightarrow> ('n, 'n, 'v, 'c, 's) vs_query" where
  "get_aggregate Q n declaration = read_model (vq_service Q) n (vq_null Q) (\<lambda>m.
     query_bind (model_aggregate_declaration Q n declaration m) (\<lambda>d.
       if d = vq_null Q then query_return (vq_null Q)
       else if ne_is_type_definition (vq_ids Q) (ns_node_class (nm_state m)) then query_return d
       else query_bind (ref_browse_name Q d) (\<lambda>name. model_child Q name m)))"

section \<open>Cursors\<close>

text \<open>\<open>NodeRef\<close>: every operation goes to the service, a null cursor answers at once.\<close>

definition ref_status :: "('n::linorder, 'v, 's) vs_env \<Rightarrow> 'n \<Rightarrow> ('s, 'n, 'v, 'c, 's) vs_query" where
  "ref_status E n = get_status E n"

definition ref_fetched :: "('n::linorder, 'v, 's) vs_env \<Rightarrow> 'n \<Rightarrow> (bool, 'n, 'v, 'c, 's) vs_query" where
  "ref_fetched E n = (if n = ne_null (ve_ids E) then query_return True
     else query_bind (get_fetch_status E n) (\<lambda>st. query_return (status_includes st node_only)))"

definition ref_children_fetched :: "('n::linorder, 'v, 's) vs_env \<Rightarrow> 'n \<Rightarrow> (bool, 'n, 'v, 'c, 's) vs_query" where
  "ref_children_fetched E n = (if n = ne_null (ve_ids E) then query_return True
     else query_bind (get_fetch_status E n) (\<lambda>st. query_return (status_includes st children_only)))"

text \<open>\<open>StartFetch\<close> checks that something is asked for.\<close>

definition ref_start_fetch :: "('n::linorder, 'v, 's) vs_env \<Rightarrow> 'n \<Rightarrow> fetch_status \<Rightarrow> (unit, 'n, 'v, 'c, 's) vs_query" where
  "ref_start_fetch E n st = (\<lambda>s. do {
     check (\<not> status_is_empty st);
     let (s1, o1) = service_start_fetch E n st s;
     Some ((), s1, o1)
   })"

definition ref_value :: "('n::linorder, 'v, 's) vq_env \<Rightarrow> 'n \<Rightarrow> ('v, 'n, 'v, 'c, 's) vs_query" where
  "ref_value Q n = read_node_attribute Q n ValueAttr"

definition ref_type_definition :: "('n::linorder, 'v, 's) vq_env \<Rightarrow> 'n \<Rightarrow> ('n, 'n, 'v, 'c, 's) vs_query" where
  "ref_type_definition Q n = get_target Q n (ne_has_type_definition (vq_ids Q)) True"

definition ref_supertype :: "('n::linorder, 'v, 's) vq_env \<Rightarrow> 'n \<Rightarrow> ('n, 'n, 'v, 'c, 's) vs_query" where
  "ref_supertype Q n = get_target Q n (ne_has_subtype (vq_ids Q)) False"

definition ref_parent :: "('n::linorder, 'v, 's) vq_env \<Rightarrow> 'n \<Rightarrow> ('n, 'n, 'v, 'c, 's) vs_query" where
  "ref_parent Q n = get_target Q n (ne_hierarchical (vq_ids Q)) False"

definition ref_has_target :: "('n::linorder, 'v, 's) vq_env \<Rightarrow> 'n \<Rightarrow> 'n \<Rightarrow> bool \<Rightarrow> 'n \<Rightarrow> (bool, 'n, 'v, 'c, 's) vs_query" where
  "ref_has_target Q n ty forward target =
     query_bind (get_reference Q n ty forward target) (\<lambda>(t, k, f). query_return (k \<noteq> vq_null Q))"

text \<open>The walk over the supertypes is the general target operation for \<open>HasSubtype\<close>.\<close>

lemma ref_supertype_eq: "ref_supertype Q n = supertype (vq_service Q) n"
  by (simp add: ref_supertype_def get_target_def supertype_def model_target_def [abs_def] Let_def)

section \<open>Walks over cursors\<close>

text \<open>\<open>node_util.cpp\<close>.\<close>

definition node_is_instance_of :: "('n::linorder, 'v, 's) vq_env \<Rightarrow> 'n \<Rightarrow> 'n \<Rightarrow> (bool, 'n, 'v, 'c, 's) vs_query" where
  "node_is_instance_of Q n ty = query_bind (ref_type_definition Q n) (\<lambda>t. is_subtype_of_walk (vq_service Q) t ty)"

text \<open>One child of a type: its type definition if it is a placeholder.\<close>

definition placeholder_type :: "('n::linorder, 'v, 's) vq_env \<Rightarrow> 'n \<Rightarrow> ('n list, 'n, 'v, 'c, 's) vs_query" where
  "placeholder_type Q child =
     query_bind (ref_start_fetch (vq_service Q) child node_only) (\<lambda>u.
       query_bind (get_target Q child (vq_has_modelling_rule Q) True) (\<lambda>rule.
         if rule \<noteq> vq_optional_placeholder Q \<and> rule \<noteq> vq_mandatory_placeholder Q then query_return []
         else query_bind (ref_type_definition Q child) (\<lambda>t. query_return (if t = vq_null Q then [] else [t]))))"

partial_function (option) creatable_types_from ::
    "('n::linorder, 'v, 's) vq_env \<Rightarrow> 'n \<Rightarrow> ('n list, 'n, 'v, 'c, 's) vs_query" where
  "creatable_types_from Q ty s =
     (if ty = vq_null Q then query_return [] s
      else query_bind (ref_start_fetch (vq_service Q) ty (status_union node_only children_only)) (\<lambda>u.
        query_bind (get_targets Q ty (ne_hierarchical (vq_ids Q)) True) (\<lambda>children.
          query_bind (query_map (placeholder_type Q) children) (\<lambda>found.
            query_bind (supertype (vq_service Q) ty) (\<lambda>t.
              query_bind (\<lambda>s. creatable_types_from Q t s) (\<lambda>rest. query_return (concat found @ rest)))))) s)"

definition node_creatable_child_types :: "('n::linorder, 'v, 's) vq_env \<Rightarrow> 'n \<Rightarrow> ('n list, 'n, 'v, 'c, 's) vs_query" where
  "node_creatable_child_types Q n =
     query_bind (ref_node_class Q n) (\<lambda>c.
       query_bind (case c of
           None \<Rightarrow> ref_type_definition Q n
         | Some k \<Rightarrow> query_bind (ref_node_class Q n) (\<lambda>c'.
             if (case c' of None \<Rightarrow> False | Some k' \<Rightarrow> ne_is_type_definition (vq_ids Q) k') then query_return n
             else ref_type_definition Q n))
         (creatable_types_from Q))"

definition get_data_variables :: "('n::linorder, 'v, 's) vq_env \<Rightarrow> 'n \<Rightarrow> ('n list, 'n, 'v, 'c, 's) vs_query" where
  "get_data_variables Q n =
     query_bind (get_targets Q n (vq_has_component Q) True)
       (query_filter (\<lambda>k. query_bind (ref_node_class Q k) (\<lambda>c. query_return (c = Some (ne_variable_class (vq_ids Q))))))"

text \<open>\<open>GetFullDisplayName\<close>: the names up to the first parent that is neither a data group nor a device, outermost first;
  the text joins them by colons.\<close>

partial_function (option) full_display_names ::
    "('n::linorder, 'v, 's) vq_env \<Rightarrow> 'n \<Rightarrow> 'n \<Rightarrow> 'n \<Rightarrow> ('v list, 'n, 'v, 'c, 's) vs_query" where
  "full_display_names Q data_group device_type n s =
     query_bind (get_target Q n (vq_organizes Q) False) (\<lambda>parent.
       query_bind (node_is_instance_of Q parent data_group) (\<lambda>g.
         query_bind (if g then query_return True else node_is_instance_of Q parent device_type) (\<lambda>d s'.
           if d then query_bind (\<lambda>s. full_display_names Q data_group device_type parent s) (\<lambda>names.
               query_bind (ref_display_name Q n) (\<lambda>name. query_return (names @ [name]))) s'
           else query_bind (ref_display_name Q n) (\<lambda>name. query_return [name]) s'))) s"

definition get_display_name :: "('n::linorder, 'v, 's) vq_env \<Rightarrow> 'n \<Rightarrow> ('v, 'n, 'v, 'c, 's) vs_query" where
  "get_display_name Q n =
     (if n = vq_null Q then query_return (vq_no_text Q)
      else query_bind (cursor_at (vq_service Q) n) (\<lambda>k. ref_display_name Q k))"

end
