(* ===== verification/Node_Service_Claims.thy ===== *)
theory Node_Service_Claims
  imports Node_Service_Facts
begin

text \<open>
  Runs of the node service: every call of a client, every answer of the fetcher, every step of a coroutine and every
  event of the server in any order, and what holds after any of them.
\<close>

section \<open>Runs\<close>

datatype ('n, 'v, 'c, 's) vs_event =
  GetNode 'n
| StartFetch 'n fetch_status
| FetchAwaited 'n fetch_status waiter
| Resume waiter
| NodeAnswer 'n "'s + ('n, 'v, 'c) node_state"
| ChildrenAnswer 'n "'s + 'n reference_description list"
| ChannelOpened
| ChannelClosed
| RemoteModelChanged "'n model_change"
| RemoteSemanticsChanged 'n

definition vs_apply ::
    "('n::linorder, 'v, 's) vs_env \<Rightarrow> ('n, 'v, 'c, 's) vs_event \<Rightarrow> ('n, 'v, 'c, 's) node_service \<Rightarrow>
     ('n, 'v, 'c, 's) vs_step option" where
  "vs_apply E e s =
     (case e of
        GetNode n \<Rightarrow> Some (get_node E n s)
      | StartFetch n st \<Rightarrow> Some (service_start_fetch E n st s)
      | FetchAwaited n st w \<Rightarrow> Some (service_fetch E n st w s)
      | Resume w \<Rightarrow> Some (resume E w s)
      | NodeAnswer n r \<Rightarrow> on_node_answer E (n, True) r s
      | ChildrenAnswer n r \<Rightarrow> Some (on_children_answer E (n, True) r s, [])
      | ChannelOpened \<Rightarrow> service_channel_opened s
      | ChannelClosed \<Rightarrow> map_option (\<lambda>s. (s, [])) (service_channel_closed s)
      | RemoteModelChanged c \<Rightarrow> Some (service_on_model_changed E c s)
      | RemoteSemanticsChanged n \<Rightarrow> Some (on_node_semantics_changed n s))"

text \<open>
  What can happen in a state: a coroutine awaits one fetch at a time, goes on only when it is ready, the fetcher answers
  what it was asked, and the channel opens and closes in turn. An answer for a node is one that \<open>FetchNode\<close> can give
  (\<open>fetched_ok\<close>); \<open>C = Some K\<close> restricts the runs to answers that name each edge once, see \<open>node_answer_ok\<close> and
  \<open>children_ok\<close>, and \<open>C = None\<close> does not.
\<close>

definition vs_can :: "('n, 'v, 's) vs_env \<Rightarrow> 'n set option \<Rightarrow> ('n, 'v, 'c, 's) vs_event \<Rightarrow> ('n, 'v, 'c, 's) node_service \<Rightarrow> bool" where
  "vs_can E K e s =
     (case e of
        FetchAwaited n st w \<Rightarrow> (case w of Caller k \<Rightarrow> w \<notin> fst ` set (vs_awaits s) | Children_Task i \<Rightarrow> False)
      | Resume w \<Rightarrow> w \<in> set (vs_ready s)
      | NodeAnswer n r \<Rightarrow> (n, True) \<in> set (vs_node_tasks s) \<and> node_result_ok E K n r
      | ChildrenAnswer n r \<Rightarrow> (n, True) \<in> set (vs_children_tasks s) \<and> children_result_ok K r
      | ChannelOpened \<Rightarrow> \<not> vs_opened s
      | ChannelClosed \<Rightarrow> vs_opened s
      | _ \<Rightarrow> True)"

inductive vs_reachable :: "('n::linorder, 'v, 's) vs_env \<Rightarrow> 'n set option \<Rightarrow> ('n, 'v, 'c, 's) node_service \<Rightarrow> bool"
  for E :: "('n, 'v, 's) vs_env" and K :: "'n set option" where
  start: "vs_reachable E K new_node_service"
| step: "vs_reachable E K s \<Longrightarrow> vs_can E K e s \<Longrightarrow> vs_apply E e s = Some (s', outs) \<Longrightarrow> vs_reachable E K s'"

text \<open>A run as a function, for runs on a given list of events.\<close>

fun vs_run ::
    "('n::linorder, 'v, 's) vs_env \<Rightarrow> 'n set option \<Rightarrow> ('n, 'v, 'c, 's) vs_event list \<Rightarrow> ('n, 'v, 'c, 's) node_service \<Rightarrow>
     ('n, 'v, 'c, 's) vs_step option" where
  "vs_run E K [] s = Some (s, [])"
| "vs_run E K (e # es) s = do {
     check (vs_can E K e s);
     (s1, o1) \<leftarrow> vs_apply E e s;
     (s2, o2) \<leftarrow> vs_run E K es s1;
     Some (s2, o1 @ o2)
   }"

lemma vs_run_reachable: "vs_reachable E K s \<Longrightarrow> vs_run E K es s = Some (s', outs) \<Longrightarrow> vs_reachable E K s'"
proof (induction es arbitrary: s outs)
  case (Cons e es)
  from Cons.prems(2) obtain s1 o1 o2 where "vs_can E K e s" "vs_apply E e s = Some (s1, o1)" "vs_run E K es s1 = Some (s', o2)"
    by (auto simp: bind_eq_Some_conv)
  then show ?case using Cons.IH vs_reachable.step [OF Cons.prems(1)] by blast
qed simp

section \<open>The invariant of runs\<close>

text \<open>The invariant of the state, no model held by a running handler, and one owner for each guard.\<close>

definition service_ok :: "('n::linorder, 'v, 's) vs_env \<Rightarrow> 'n set option \<Rightarrow> ('n, 'v, 'c, 's) node_service \<Rightarrow> bool" where
  "service_ok E K s \<longleftrightarrow> vs_ok E K {} {} s \<and> guards_ok K s \<and> vs_held s = []"

lemma guards_closed: "guards_ok K s \<Longrightarrow> service_channel_closed s = Some s' \<Longrightarrow> guards_ok K s'"
  for s :: "('n::linorder, 'v, 'c, 's) node_service"
  using guards_same [of s' s K] by (auto simp: service_channel_closed_def bind_eq_Some_conv)

lemma guards_model_changed: "guards_ok K s \<Longrightarrow> guards_ok K (fst (service_on_model_changed E e s))"
  using guards_same [of "fst (service_on_model_changed E e s)" s K] by (simp add: service_on_model_changed_def Let_def)

lemma service_ok_new: "service_ok E K new_node_service"
  by (simp add: service_ok_def new_node_service_ok guards_ok_def) (simp add: new_node_service_def)

lemma service_ok_step:
  assumes s: "service_ok E K s" and can: "vs_can E K e s"
  shows "\<exists>s' outs. vs_apply E e s = Some (s', outs) \<and> service_ok E K s'"
proof -
  have ok: "vs_ok E K {} {} s" "guards_ok K s" "vs_held s = []" using s by (simp_all add: service_ok_def)
  note f = frame_okD [OF vs_okD(1) [OF ok(1)]]
  show ?thesis
  proof (cases e)
    case (GetNode n)
    have "service_ok E K (fst (get_node E n s))"
      unfolding service_ok_def using ok get_node_ok [OF ok(1)] guards_get_node by auto
    then show ?thesis by (auto simp: vs_apply_def GetNode) (metis prod.collapse)
  next
    case (StartFetch n st)
    have "service_ok E K (fst (service_start_fetch E n st s))"
      unfolding service_ok_def using ok service_start_fetch_ok [OF ok(1)] guards_service_start_fetch by auto
    then show ?thesis by (auto simp: vs_apply_def StartFetch) (metis prod.collapse)
  next
    case (FetchAwaited n st w)
    have fresh: "w \<notin> fst ` set (vs_awaits s)" using can by (auto simp: vs_can_def FetchAwaited split: waiter.splits)
    have "service_ok E K (fst (service_fetch E n st w s))"
      unfolding service_ok_def using ok service_fetch_ok [OF ok(1) fresh] guards_service_fetch by auto
    then show ?thesis by (auto simp: vs_apply_def FetchAwaited) (metis prod.collapse)
  next
    case (Resume w)
    have "service_ok E K (fst (resume E w s))"
      unfolding service_ok_def using ok resume_ok [OF ok(1) guards_tails [OF ok(2)]] guards_resume by auto
    then show ?thesis by (auto simp: vs_apply_def Resume) (metis prod.collapse)
  next
    case (NodeAnswer n r)
    have t: "(n, True) \<in> set (vs_node_tasks s)" "node_result_ok E K (fst (n, True)) r"
      using can by (simp_all add: vs_can_def NodeAnswer)
    obtain s' outs where r: "on_node_answer E (n, True) r s = Some (s', outs)" "vs_ok E K {} {} s'" "vs_held s' = vs_held s"
      using on_node_answer_ok [OF ok(1) t] by blast
    moreover have "guards_ok K s'" using guards_same [OF guard_view_node_answer [OF r(1)]] ok(2) by simp
    ultimately show ?thesis using ok(3) by (simp add: vs_apply_def NodeAnswer service_ok_def)
  next
    case (ChildrenAnswer n r)
    have t: "(n, True) \<in> set (vs_children_tasks s)" "children_result_ok K r"
      using can by (simp_all add: vs_can_def ChildrenAnswer)
    show ?thesis
      using on_children_answer_ok [OF ok(1) t(1)] guards_children_answer [OF ok(2) t] ok(3)
      by (auto simp: vs_apply_def ChildrenAnswer service_ok_def)
  next
    case ChannelOpened
    obtain s' outs where r: "service_channel_opened s = Some (s', outs)"
      using can by (auto simp: vs_can_def ChannelOpened service_channel_opened_def Let_def case_prod_unfold)
    show ?thesis
      using r service_channel_opened_ok [OF ok(1) r] guards_opened [OF ok(2) r] ok(3)
      by (simp add: vs_apply_def ChannelOpened service_ok_def)
  next
    case ChannelClosed
    obtain s' where r: "service_channel_closed s = Some s'"
      using can f(6) by (auto simp: vs_can_def ChannelClosed service_channel_closed_def)
    show ?thesis
      using r service_channel_closed_ok [OF ok(1) r] guards_closed [OF ok(2) r] ok(3)
      by (simp add: vs_apply_def ChannelClosed service_ok_def)
  next
    case (RemoteModelChanged c)
    have "service_ok E K (fst (service_on_model_changed E c s))"
      unfolding service_ok_def using ok service_on_model_changed_ok [OF ok(1)] guards_model_changed by auto
    then show ?thesis by (auto simp: vs_apply_def RemoteModelChanged) (metis prod.collapse)
  next
    case (RemoteSemanticsChanged n)
    then show ?thesis using s by (simp add: vs_apply_def on_node_semantics_changed_def)
  qed
qed

lemma reachable_service_ok: "vs_reachable E K s \<Longrightarrow> service_ok E K s"
proof (induction rule: vs_reachable.induct)
  case (step s e s' outs)
  then show ?case using service_ok_step [of E K s e] by auto
qed (rule service_ok_new)


section \<open>What an answer does\<close>

lemma awaits_kept [simp]:
  "vs_awaits (fst (update_model n f s)) = vs_awaits s" "vs_awaits (update_status n g s) = vs_awaits s"
  "vs_awaits (hold n s) = vs_awaits s" "vs_awaits (release n s) = vs_awaits s"
  by (simp_all add: update_model_def update_status_def hold_def case_prod_unfold Let_def split: option.splits)

lemma awaits_push [simp]: "vs_awaits (fst (push_mirror n r s)) = vs_awaits s"
  by (simp add: push_mirror_def Let_def)

lemma awaits_pushes [simp]: "vs_awaits (fst (push_mirrors n rs s)) = vs_awaits s"
  by (induction rs arbitrary: s) (simp_all add: case_prod_unfold Let_def)

lemma find_release: "find_node_model n (release n s) = Some m \<Longrightarrow> find_node_model n s = Some m"
  by (simp add: release_def find_sweep split: if_splits)

lemma node_answer_fetched:
  assumes old: "vs_ok E K {} {} s" and t: "(n, True) \<in> set (vs_node_tasks s)" and a: "node_result_ok E K n r"
    and s': "on_node_answer E (n, True) r s = Some (s', outs)"
  shows "vs_awaits s' = vs_awaits s" "find_node_model n s' = Some m \<Longrightarrow> status_includes (nm_fetch_status m) node_only"
proof -
  let ?s = "s\<lparr>vs_node_tasks := remove1 (n, True) (vs_node_tasks s), vs_node_in_flight := vs_node_in_flight s - {n}\<rparr>"
  note s1 = answered_node_ok [OF old t]
  obtain m0 where m0: "find_node_model n (hold n ?s) = Some m0" "model_ok K True m0" using s1(2) by blast
  have "vs_awaits s' = vs_awaits s \<and> (find_node_model n s' = Some m \<longrightarrow> status_includes (nm_fetch_status m) node_only)"
  proof (cases r)
    case (Inl st)
    let ?e = "process_fetch_error n st (hold n ?s)"
    have e: "s' = release n ?e" using s' by (simp add: on_node_answer_def Inl)
    obtain m1 ws where m1: "set_fetch_status st all_parts m0 = (m1, ws)" by force
    have "find_node_model n ?e = Some m1" using m0(1) by (simp add: process_fetch_error_def update_status_def m1)
    moreover have "nm_fetch_status m1 = all_parts" by (rule set_fetch_status_ok(4) [OF m0(2) m1, of True]) simp
    ultimately show ?thesis using find_release [of n ?e m] by (auto simp: e process_fetch_error_def)
  next
    case (Inr ns)
    then have ok: "node_answer_ok E K n ns" using a by (simp add: node_result_ok_def)
    obtain m1 ws where ws: "notify_callbacks (fetched_model E ns m0) = (m1, ws)" by force
    have nid: "ns_node_id ns = n" using ok by (simp add: node_answer_ok_def)
    note eq = process_fetched_node_eq [OF s1(1) m0 nid ws]
    let ?p = "put_ready n m1 ws (mirrored E ns m0 (hold n ?s))"
    have e: "s' = release n (release n ?p)" using s' eq(1) by (auto simp: on_node_answer_def Inr)
    have "vs_awaits s' = vs_awaits s" by (simp add: e mirrored_def)
    moreover have "find_node_model n s' = Some m \<Longrightarrow> m = m1"
      using find_release [of n "release n ?p" m] find_release [of n ?p m] by (simp add: e)
    ultimately show ?thesis using fetched_model_ok(2) [OF m0(2) ok ws] by blast
  qed
  then show "vs_awaits s' = vs_awaits s" "find_node_model n s' = Some m \<Longrightarrow> status_includes (nm_fetch_status m) node_only"
    by blast+
qed

section \<open>The properties\<close>

text \<open>C3: at any moment exactly the models live that something holds: the window of recently used nodes, a fetch, or
  whoever awaits one. The window has no node twice and at most its capacity; a node is fetched by one coroutine at a time,
  its children too, and the guards against a second fetch are set exactly while one is under way. And nothing that can
  happen aborts: the checks of \<open>OnFetchCompleted\<close>, \<open>OnChannelOpened\<close> and \<open>OnChannelClosed\<close> hold. All this is so
  (\<open>C = None\<close>) whatever the fetcher answers for children, duplicates included, and for whatever \<open>FetchNode\<close> can answer
  for a node (\<open>fetched_ok\<close>). Only under a contract on the answers (\<open>C = Some K\<close>) does a published snapshot name each edge
  (type, direction, target) once: each answer names an edge once, the answers for children are forward references of a
  type in \<open>K\<close>, and those for nodes have no reference of such a type. \<open>FetchChildren\<close> forwards the server's list as it
  is, so a server that repeats a reference breaks the contract.\<close>

theorem node_service_reachable_ok:
  assumes "vs_reachable E C s"
  shows "(\<forall>n. find_node_model n s \<noteq> None \<longleftrightarrow> pinned s n) \<and> vs_held s = []
    \<and> distinct (vs_keep_alive s) \<and> length (vs_keep_alive s) \<le> ve_capacity E
    \<and> distinct (map fst (vs_node_tasks s)) \<and> vs_node_in_flight s = fst ` set (vs_node_tasks s)
    \<and> distinct (map fst (vs_children_tasks s) @ map (ct_node \<circ> snd) (vs_tails s))
    \<and> vs_children_in_flight s = set (map fst (vs_children_tasks s) @ map (ct_node \<circ> snd) (vs_tails s))
    \<and> (\<forall>e. vs_can E C e s \<longrightarrow> vs_apply E e s \<noteq> None)
    \<and> (\<forall>K n m. C = Some K \<longrightarrow> find_node_model n s = Some m \<longrightarrow> distinct (map edge (ns_references (snapshot m))))"
proof -
  have s: "vs_ok E C {} {} s" "guards_ok C s" "vs_held s = []"
    using reachable_service_ok [OF assms] by (simp_all add: service_ok_def)
  note f = frame_okD [OF vs_okD(1) [OF s(1)]]
  have "distinct (map edge (ns_references (snapshot m)))" if "C = Some K" "find_node_model n s = Some m" for K n m
    using vs_okD(3) [OF s(1) that(2)] that(1) by (simp add: model_ok_def edges_ok_def edges_of_def snapshot_def)
  moreover have "vs_apply E e s \<noteq> None" if "vs_can E C e s" for e
    using service_ok_step [OF reachable_service_ok [OF assms] that] by auto
  ultimately show ?thesis using f(3-5) tasks_okD(1,2) [OF f(7)] s(2,3) unfolding guards_ok_def by blast
qed

text \<open>C4: whoever awaits a node is about to go on, or its callback is still registered with the node's model, for a part
  that is not fetched; and if the node itself is still to be fetched, its fetch is under way or waits for the channel.\<close>

theorem node_fetch_not_lost:
  assumes "vs_reachable E K s" "(w, n) \<in> set (vs_awaits s)"
  shows "w \<in> set (vs_ready s) \<or> (\<exists>m st. find_node_model n s = Some m \<and> (st, w) \<in> set (nm_callbacks m)
    \<and> \<not> status_includes (nm_fetch_status m) st
    \<and> (status_includes st node_only \<and> \<not> status_includes (nm_fetch_status m) node_only \<longrightarrow>
        n \<in> vs_node_in_flight s \<or> \<not> vs_opened s \<and> n \<in> fst ` set (vs_pending s)))"
proof -
  have s: "vs_ok E K {} {} s" using reachable_service_ok [OF assms(1)] by (simp add: service_ok_def)
  note f = frame_okD [OF vs_okD(1) [OF s]]
  have "w \<in> set (vs_ready s) \<or> (\<exists>m st. find_node_model n s = Some m \<and> (st, w) \<in> set (nm_callbacks m))"
    using vs_okD(2) [OF s] assms(2) by (fastforce simp: wait_ok_def)
  moreover have "\<not> status_includes (nm_fetch_status m) st
      \<and> (status_includes st node_only \<and> \<not> status_includes (nm_fetch_status m) node_only \<longrightarrow> requested s n)"
    if "find_node_model n s = Some m" "(st, w) \<in> set (nm_callbacks m)" for m st
    using vs_okD(3) [OF s that(1)] that(2) includes_trans [of "nm_fetching m" st node_only]
    by (auto simp: model_ok_def waiting_ok_def)
  moreover have "n \<in> vs_node_in_flight s \<or> \<not> vs_opened s \<and> n \<in> fst ` set (vs_pending s)" if r: "requested s n"
    using r f(6) tasks_okD(2) [OF f(7)] unfolding requested_def
    by (auto dest!: smap_find_in intro: rev_image_eqI)
  ultimately show ?thesis by blast
qed

text \<open>C5: an answer of the fetcher for a node, a state or an error, lets everybody go on who awaited the node itself; who
  still waits afterwards waits for another part of it.\<close>

theorem node_answer_wakes:
  assumes "vs_reachable E K s" "vs_can E K (NodeAnswer n r) s" "(w, n) \<in> set (vs_awaits s)"
  shows "\<exists>s' outs. vs_apply E (NodeAnswer n r) s = Some (s', outs) \<and> (w \<in> set (vs_ready s')
    \<or> (\<exists>m st. find_node_model n s' = Some m \<and> (st, w) \<in> set (nm_callbacks m)
         \<and> status_includes (nm_fetch_status m) node_only \<and> \<not> status_includes (nm_fetch_status m) st))"
proof -
  have s: "vs_ok E K {} {} s" using reachable_service_ok [OF assms(1)] by (simp add: service_ok_def)
  have t: "(n, True) \<in> set (vs_node_tasks s)" "node_result_ok E K n r" using assms(2) by (simp_all add: vs_can_def)
  obtain s' outs where r: "vs_apply E (NodeAnswer n r) s = Some (s', outs)" "service_ok E K s'"
    using service_ok_step [OF reachable_service_ok [OF assms(1)] assms(2)] by blast
  have ok: "vs_ok E K {} {} s'" using r(2) by (simp add: service_ok_def)
  have ans: "on_node_answer E (n, True) r s = Some (s', outs)" using r(1) by (simp add: vs_apply_def)
  note fetched = node_answer_fetched [OF s t ans]
  have "w \<in> set (vs_ready s') \<or> (\<exists>m st. find_node_model n s' = Some m \<and> (st, w) \<in> set (nm_callbacks m))"
    using vs_okD(2) [OF ok] assms(3) fetched(1) by (fastforce simp: wait_ok_def)
  moreover have "\<not> status_includes (nm_fetch_status m) st" if "find_node_model n s' = Some m" "(st, w) \<in> set (nm_callbacks m)" for m st
    using vs_okD(3) [OF ok that(1)] that(2) by (auto simp: model_ok_def waiting_ok_def)
  ultimately show ?thesis using r(1) fetched(2) by blast
qed

section \<open>Runs on concrete nodes\<close>

text \<open>A service whose window keeps two models, as in the tests, and states of nodes without references.\<close>

definition vx_ids :: "(nat, int, nat) nf_env" where
  "vx_ids = \<lparr>ne_null = 0, ne_root_folder = 84, ne_aggregates = 44, ne_hierarchical = 33, ne_non_hierarchical = 32,
     ne_has_subtype = 45, ne_has_property = 46, ne_has_type_definition = 40, ne_property_type = 68,
     ne_object_class = 1, ne_variable_class = 2, ne_is_type_definition = (\<lambda>c. c \<ge> 8), ne_is_instance = (\<lambda>c. c < 8),
     ne_good = 0, ne_generic_bad = 1, ne_wrong_type = 2, ne_bad = (\<lambda>s. s > 0), ne_null_variant = -1,
     ne_get_int32 = Some, ne_get_qualified_name = Some, ne_empty_name = (\<lambda>v. v = 0),
     ne_get_localized_text = Some, ne_get_node_id = (\<lambda>v. if v \<ge> 0 then Some (nat v) else None),
     ne_validator = (\<lambda>n. True)\<rparr>"

definition vx_env :: "(nat, int, nat) vs_env" where
  "vx_env = \<lparr>ve_ids = vx_ids, ve_wrong_node_id = 3, ve_capacity = 2, ve_node_added = 1, ve_node_deleted = 2,
     ve_reference_added = 4, ve_reference_deleted = 8\<rparr>"

definition vx_state :: "nat \<Rightarrow> nat \<Rightarrow> (nat, int, unit) node_state" where
  "vx_state n parent = (empty_node_state vx_ids n)\<lparr>ns_parent_id := parent, ns_reference_type_id := (if parent = 0 then 0 else 35)\<rparr>"

definition organizes :: "nat \<Rightarrow> nat reference_description" where
  "organizes n = \<lparr>rd_reference_type_id = 35, rd_forward = True, rd_node_id = n, rd_details = None\<rparr>"

abbreviation vx_run :: "(nat, int, unit, nat) vs_event list \<Rightarrow> (nat, int, unit, nat) vs_step option" where
  "vx_run es \<equiv> vs_run vx_env (Some {35}) es new_node_service"

definition both_parts :: fetch_status where
  "both_parts = status_union node_only children_only"

text \<open>The children of node 5 are fetched; while the coroutine fetches child 6, another node is read and the model of node 5
  leaves the window; node 5 is then fetched again.\<close>

definition evicted_run :: "(nat, int, unit, nat) vs_event list" where
  "evicted_run =
     [ChannelOpened, StartFetch 5 both_parts, NodeAnswer 5 (Inr (vx_state 5 0)), ChildrenAnswer 5 (Inr [organizes 6]),
      Resume (Children_Task 0), GetNode 7, FetchAwaited 5 both_parts (Caller 1),
      NodeAnswer 6 (Inr (vx_state 6 5)), NodeAnswer 7 (Inr (vx_state 7 0)), NodeAnswer 5 (Inr (vx_state 5 0)),
      Resume (Children_Task 0), NodeAnswer 35 (Inr (vx_state 35 0)), Resume (Children_Task 0)]"
text \<open>Every answer that the runs use keeps the contract of the fetcher.\<close>

text \<open>A children fetch can be lost. If the model of a node leaves the window while the coroutine that fetches its
  children is waiting, and the node is fetched again before that coroutine ends, the new request is skipped because of the
  old one's guard, and the old coroutine finds its model gone and applies nothing: everything has been answered, nothing is
  under way, no coroutine is ready, and the caller still waits.\<close>

theorem evicted_children_fetch_hangs:
  "case vx_run evicted_run of
     None \<Rightarrow> False
   | Some (s, outs) \<Rightarrow> (Caller 1, 5) \<in> set (vs_awaits s) \<and> vs_ready s = [] \<and> vs_tails s = [] \<and> vs_node_tasks s = []
       \<and> vs_children_tasks s = [] \<and> vs_pending s = [] \<and> vs_opened s \<and> filter (\<lambda>o'. o' = RequestChildren 5) outs = [RequestChildren 5]"
  by code_simp

text \<open>Node 6 refers to node 5; then the children of node 5 are asked for.\<close>

definition refers :: "nat \<Rightarrow> nat reference_description" where
  "refers n = \<lparr>rd_reference_type_id = 36, rd_forward = True, rd_node_id = n, rd_details = None\<rparr>"

definition mirror_run :: "(nat, int, unit, nat) vs_event list" where
  "mirror_run =
     [ChannelOpened, StartFetch 5 node_only, NodeAnswer 5 (Inr (vx_state 5 0)), StartFetch 6 node_only,
      NodeAnswer 6 (Inr ((vx_state 6 0)\<lparr>ns_references := [refers 5]\<rparr>))]"

definition refetch_run :: "(nat, int, unit, nat) vs_event list" where
  "refetch_run = [StartFetch 5 children_only, ChildrenAnswer 5 (Inr []), NodeAnswer 5 (Inr (vx_state 5 0)), Resume (Children_Task 0)]"

definition edges_at :: "nat \<Rightarrow> (nat, int, unit, nat) node_service \<Rightarrow> nat reference_description list" where
  "edges_at n s = (case find_node_model n s of None \<Rightarrow> [] | Some m \<Rightarrow> ns_references (snapshot m))"

text \<open>Asking for the children of a fetched node asks for the node again, since the parts under way are never taken
  back, and the second answer replaces the references of the node: an inverse reference that another node has pushed is
  gone although that node still has the edge.\<close>

theorem refetch_drops_mirror:
  "case vx_run mirror_run of
     None \<Rightarrow> False
   | Some (s, outs) \<Rightarrow> edges_at 5 s = [\<lparr>rd_reference_type_id = 36, rd_forward = False, rd_node_id = 6, rd_details = None\<rparr>]
       \<and> (case vs_run vx_env (Some {35}) refetch_run s of
            None \<Rightarrow> False
          | Some (s', outs') \<Rightarrow> outs' ! 0 = RequestNode 5 \<and> edges_at 5 s' = [] \<and> edges_at 6 s' = [refers 5])"
  by code_simp

text \<open>A node is deleted while it is fetched, and read once more before the answer comes.\<close>

definition deleted_run :: "(nat, int, unit, nat) vs_event list" where
  "deleted_run =
     [ChannelOpened, StartFetch 5 node_only, RemoteModelChanged \<lparr>mc_node_id = 5, mc_type_definition_id = 0, mc_verb = 2\<rparr>, GetNode 5]"

text \<open>An answer that was under way when a node was deleted makes it good again, with every part fetched, and no later
  read of the node asks the server.\<close>

theorem deleted_node_revived:
  "case vx_run deleted_run of
     None \<Rightarrow> False
   | Some (s, outs) \<Rightarrow> map_option nm_status (find_node_model 5 s) = Some (ve_wrong_node_id vx_env)
       \<and> (case vs_run vx_env (Some {35}) [NodeAnswer 5 (Inr (vx_state 5 0)), GetNode 5, StartFetch 5 both_parts] s of
            None \<Rightarrow> False
          | Some (s', outs') \<Rightarrow> map_option nm_status (find_node_model 5 s') = Some (ne_good vx_ids)
              \<and> map_option nm_fetch_status (find_node_model 5 s') = Some all_parts
              \<and> RequestNode 5 \<notin> set outs' \<and> RequestChildren 5 \<notin> set outs')"
  by code_simp
section \<open>The properties on concrete runs\<close>

text \<open>A caller waits for a node and its children; the states in which the node, and then its children, are answered.\<close>

definition waiting_run :: "(nat, int, unit, nat) vs_event list" where
  "waiting_run = [ChannelOpened, FetchAwaited 5 both_parts (Caller 1), FetchAwaited 5 node_only (Caller 2)]"

definition vx_waiting :: "(nat, int, unit, nat) node_service" where
  "vx_waiting = (case vx_run waiting_run of None \<Rightarrow> new_node_service | Some (s, outs) \<Rightarrow> s)"

lemma vx_waiting_reachable: "vs_reachable vx_env (Some {35}) vx_waiting"
proof -
  have "vx_run waiting_run \<noteq> None" by code_simp
  then obtain s outs where r: "vx_run waiting_run = Some (s, outs)" by auto
  then show ?thesis using vs_run_reachable [OF vs_reachable.start r] by (simp add: vx_waiting_def)
qed

lemma vx_waiting_facts:
  "vs_can vx_env (Some {35}) (NodeAnswer 5 (Inr (vx_state 5 0))) vx_waiting" "(Caller 1, 5) \<in> set (vs_awaits vx_waiting)"
  "(Caller 2, 5) \<in> set (vs_awaits vx_waiting)" "vs_ready vx_waiting = []" "vs_node_tasks vx_waiting = [(5, True)]"
  "map fst (vs_children_tasks vx_waiting) = [5]" "vs_tails vx_waiting = []" "vs_opened vx_waiting" "find_node_model 5 vx_waiting \<noteq> None"
  by code_simp+

lemma node_service_reachable_ok_witness:
  "pinned vx_waiting 5 \<and> vs_node_in_flight vx_waiting = {5} \<and> vs_children_in_flight vx_waiting = {5}
    \<and> vs_apply vx_env (NodeAnswer 5 (Inr (vx_state 5 0))) vx_waiting \<noteq> None"
proof -
  note ok = node_service_reachable_ok [OF vx_waiting_reachable]
  have models: "\<forall>n. find_node_model n vx_waiting \<noteq> None \<longrightarrow> pinned vx_waiting n" using ok by simp
  have events: "\<forall>e. vs_can vx_env (Some {35}) e vx_waiting \<longrightarrow> vs_apply vx_env e vx_waiting \<noteq> None" using ok by (elim conjE)
  have guards: "vs_node_in_flight vx_waiting = {5}" "vs_children_in_flight vx_waiting = {5}" using ok vx_waiting_facts(5-7) by simp_all
  show ?thesis using models [rule_format, OF vx_waiting_facts(9)] events [rule_format, OF vx_waiting_facts(1)] guards by simp
qed

lemma node_fetch_not_lost_witness:
  "\<exists>m st. find_node_model 5 vx_waiting = Some m \<and> (st, Caller 2) \<in> set (nm_callbacks m)"
  using node_fetch_not_lost [OF vx_waiting_reachable vx_waiting_facts(3)] vx_waiting_facts(4) by auto

lemma node_answer_wakes_witness:
  "\<exists>s' outs. vs_apply vx_env (NodeAnswer 5 (Inr (vx_state 5 0))) vx_waiting = Some (s', outs) \<and> (Caller 2 \<in> set (vs_ready s')
    \<or> (\<exists>m st. find_node_model 5 s' = Some m \<and> (st, Caller 2) \<in> set (nm_callbacks m)
         \<and> status_includes (nm_fetch_status m) node_only \<and> \<not> status_includes (nm_fetch_status m) st))"
  by (rule node_answer_wakes [OF vx_waiting_reachable vx_waiting_facts(1,3)])

text \<open>The state after another node has pushed a mirror.\<close>

definition vx_mirrored :: "(nat, int, unit, nat) node_service" where
  "vx_mirrored = (case vx_run mirror_run of None \<Rightarrow> new_node_service | Some (s, outs) \<Rightarrow> s)"

end
