(* ===== verification/Node_Query_Facts.thy ===== *)
theory Node_Query_Facts
  imports Node_Queries Node_Service_Claims
begin

text \<open>
  What reading through the node service does to it and what it answers.
\<close>

section \<open>What every query keeps\<close>

text \<open>A property of the state and of the models that running getters hold is kept by a query.\<close>

definition keeps :: "('n list \<Rightarrow> ('n, 'v, 'c, 's) node_service \<Rightarrow> bool) \<Rightarrow> ('a, 'n, 'v, 'c, 's) vs_query \<Rightarrow> bool" where
  "keeps P q \<longleftrightarrow> (\<forall>H s x s' outs. P H s \<longrightarrow> q s = Some (x, s', outs) \<longrightarrow> P H s')"

lemma keepsD: "keeps P q \<Longrightarrow> P H s \<Longrightarrow> q s = Some (x, s', outs) \<Longrightarrow> P H s'"
  unfolding keeps_def by blast

lemma keeps_return [simp, intro]: "keeps P (query_return x)"
  by (simp add: keeps_def query_return_def)

lemma keeps_bind [intro]:
  assumes q: "keeps P q" and f: "\<And>x. keeps P (f x)"
  shows "keeps P (query_bind q f)"
  unfolding keeps_def
proof (intro allI impI)
    fix H s y s2 outs assume p: "P H s" and r: "query_bind q f s = Some (y, s2, outs)"
    then obtain x s1 o1 o2 where "q s = Some (x, s1, o1)" "f x s1 = Some (y, s2, o2)"
      by (auto simp: query_bind_def bind_eq_Some_conv)
    then show "P H s2" using keepsD [OF f] keepsD [OF q p] by blast
qed

lemma keeps_iff: "keeps P q \<longleftrightarrow> (\<forall>s y. q s = Some y \<longrightarrow> (\<forall>H. P H s \<longrightarrow> P H (fst (snd y))))"
  by (auto simp: keeps_def)

lemma keeps_at: "keeps P q \<Longrightarrow> q s = Some y \<Longrightarrow> \<forall>H. P H s \<longrightarrow> P H (fst (snd y))"
  unfolding keeps_iff by blast

lemma keeps_if_at: "keeps P q \<Longrightarrow> keeps P r \<Longrightarrow> keeps P (\<lambda>s. if b then q s else r s)"
  by (cases b) simp_all

lemma keeps_if [intro]: "(b \<Longrightarrow> keeps P q) \<Longrightarrow> (\<not> b \<Longrightarrow> keeps P r) \<Longrightarrow> keeps P (if b then q else r)"
  by simp

lemma keeps_case_option [intro]:
  "(x = None \<Longrightarrow> keeps P q) \<Longrightarrow> (\<And>y. x = Some y \<Longrightarrow> keeps P (r y)) \<Longrightarrow> keeps P (case x of None \<Rightarrow> q | Some y \<Rightarrow> r y)"
  by (cases x) simp_all

lemma keeps_case_prod [intro]: "(\<And>a b. p = (a, b) \<Longrightarrow> keeps P (f a b)) \<Longrightarrow> keeps P (case p of (a, b) \<Rightarrow> f a b)"
  by (cases p) simp

lemma keeps_map [intro]: "(\<And>x. keeps P (f x)) \<Longrightarrow> keeps P (query_map f xs)"
  by (induction xs) auto

lemma keeps_filter [intro]: "(\<And>x. keeps P (f x)) \<Longrightarrow> keeps P (query_filter f xs)"
  by (induction xs) auto

lemma keeps_find [intro]: "(\<And>x. keeps P (f x)) \<Longrightarrow> keeps P (query_find f xs)"
  by (induction xs) (auto intro!: keeps_bind keeps_if)

text \<open>The interface between the queries and the service: reading a model holds it, and it is released afterwards.\<close>

locale read_interface =
  fixes Q :: "('n::linorder, 'v, 's) vq_env" and P :: "'n list \<Rightarrow> ('n, 'v, 'c, 's) node_service \<Rightarrow> bool"
  assumes read: "n \<noteq> vq_null Q \<Longrightarrow> P H s \<Longrightarrow> P (n # H) (fst (get_node_model_for_read (vq_service Q) n s))"
    and release_read: "P (n # H) s \<Longrightarrow> P H (release n s)"
    and start: "P H s \<Longrightarrow> P H (fst (service_start_fetch (vq_service Q) n st s))"
begin

lemma keeps_cursor: "keeps P (cursor_at (vq_service Q) n)"
  unfolding keeps_def cursor_at_def get_node_def Let_def case_prod_unfold
  using read [of n] release_read by (auto simp: release_read_def get_node_model_for_read_def)

lemma keeps_read:
  assumes "\<And>m. keeps P (f m)"
  shows "keeps P (read_model (vq_service Q) n d f)"
  unfolding keeps_def
proof (intro allI impI)
  fix H s x s' outs assume p: "P H s" and r: "read_model (vq_service Q) n d f s = Some (x, s', outs)"
  show "P H s'"
  proof (cases "n = vq_null Q")
    case True
    then show ?thesis using p r by (simp add: read_model_def)
  next
    case False
    let ?s1 = "fst (get_node_model_for_read (vq_service Q) n s)"
    have one: "P (n # H) ?s1" by (rule read [OF False p])
    from r False show ?thesis
      using release_read [OF one] release_read keepsD [OF assms one]
      by (auto simp: read_model_def case_prod_unfold Let_def bind_eq_Some_conv split: option.splits)
  qed
qed

lemma keeps_start: "keeps P (ref_start_fetch (vq_service Q) n st)"
  unfolding keeps_def ref_start_fetch_def
  by (auto simp: bind_eq_Some_conv case_prod_unfold Let_def) (metis start fst_conv)

lemmas keeps_basic = keeps_cursor keeps_read keeps_start

lemma keeps_supertype: "keeps P (supertype (vq_service Q) n)"
  unfolding supertype_def by (intro keeps_basic)

lemma keeps_subtype_walk: "keeps P (is_subtype_of_walk (vq_service Q) ty super)"
proof -
  have "e = vq_service Q \<longrightarrow> (\<forall>H. P H s \<longrightarrow> P H (fst (snd y)))" if "is_subtype_of_walk e ty super s = Some y" for e ty s y
    using that
  proof (rule is_subtype_of_walk.raw_induct [rotated])
    fix walk :: "('n, 'v, 's) vs_env \<Rightarrow> 'n \<Rightarrow> 'n \<Rightarrow> (bool, 'n, 'v, 'c, 's) vs_query" and e ty super s y
    assume ih: "\<And>e ty super s y. walk e ty super s = Some y \<Longrightarrow> e = vq_service Q \<longrightarrow> (\<forall>H. P H s \<longrightarrow> P H (fst (snd y)))"
      and body: "(if ty = ne_null (ve_ids e) then query_return False s else if ty = super then query_return True s
        else query_bind (supertype e ty) (\<lambda>t. walk e t super) s) = Some y"
    have k: "keeps P (\<lambda>s. if ty = ne_null (ve_ids e) then query_return False s else if ty = super then query_return True s
        else query_bind (supertype e ty) (\<lambda>t. walk e t super) s)" if e: "e = vq_service Q"
    proof (intro keeps_if_at keeps_bind keeps_return)
      show "keeps P (supertype e ty)" using keeps_supertype e by simp
      show "keeps P (walk e t super)" for t using ih [of e t super] e by (auto simp: keeps_iff)
    qed
    show "e = vq_service Q \<longrightarrow> (\<forall>H. P H s \<longrightarrow> P H (fst (snd y)))" using keeps_at [OF k, of s y] body by blast
  qed
  then show ?thesis by (auto simp: keeps_iff)
qed

lemma keeps_matches: "keeps P (reference_matches Q ty r)"
  unfolding reference_matches_def by (intro keeps_case_option keeps_return keeps_bind keeps_cursor keeps_subtype_walk)

lemma keeps_append: "keeps P (append_matching Q ty forward refs)"
  unfolding append_matching_def by (intro keeps_bind keeps_map keeps_if keeps_return keeps_cursor keeps_matches)

lemma keeps_model_references: "keeps P (model_references Q ty forward m)"
  unfolding model_references_def by (intro keeps_bind keeps_append keeps_return)

lemma keeps_model_reference: "keeps P (model_reference Q ty forward target m)"
  unfolding model_reference_def by (intro keeps_if keeps_bind keeps_model_references keeps_cursor keeps_return)

lemma keeps_read_attribute: "keeps P (read_node_attribute Q n a)"
  unfolding read_node_attribute_def by (intro keeps_read keeps_return)

lemma keeps_get_references: "keeps P (get_references Q n ty forward)"
  unfolding get_references_def by (intro keeps_read keeps_model_references)

lemma keeps_get_reference: "keeps P (get_reference Q n ty forward target)"
  unfolding get_reference_def by (intro keeps_read keeps_model_reference)

lemma keeps_get_target: "keeps P (get_target Q n ty forward)"
  unfolding get_target_def
proof (intro keeps_read)
  show "keeps P (model_target Q ty forward m)" for m
    unfolding model_target_def Let_def
    by (intro keeps_if keeps_cursor keeps_bind keeps_model_reference keeps_case_prod keeps_return)
qed

lemma keeps_get_targets: "keeps P (get_targets Q n ty forward)"
  unfolding get_targets_def by (intro keeps_read keeps_bind keeps_model_references keeps_return)

lemma keeps_browse_name: "keeps P (ref_browse_name Q n)"
  unfolding ref_browse_name_def by (intro keeps_bind keeps_read_attribute keeps_return)

lemma keeps_display_name: "keeps P (ref_display_name Q n)"
  unfolding ref_display_name_def by (intro keeps_bind keeps_read_attribute keeps_return)

lemma keeps_node_class: "keeps P (ref_node_class Q n)"
  unfolding ref_node_class_def by (intro keeps_bind keeps_read_attribute keeps_return)

lemma keeps_model_child: "keeps P (model_child Q name m)"
  unfolding model_child_def
  by (intro keeps_if keeps_bind keeps_model_references keeps_find keeps_browse_name keeps_return)

lemma keeps_aggregate_walk: "keeps P (aggregate_declaration_from Q declaration ty)"
proof -
  have "q = Q \<longrightarrow> (\<forall>H. P H s \<longrightarrow> P H (fst (snd y)))" if "aggregate_declaration_from q declaration ty s = Some y" for q ty s y
    using that
  proof (rule aggregate_declaration_from.raw_induct [rotated])
    fix walk :: "('n, 'v, 's) vq_env \<Rightarrow> 'n \<Rightarrow> 'n \<Rightarrow> ('n, 'n, 'v, 'c, 's) vs_query" and q d ty s y
    let ?body = "\<lambda>s. if ty = vq_null q then query_return (vq_null q) s
      else query_bind (get_targets q ty (ne_aggregates (vq_ids q)) True) (\<lambda>aggregates s'.
        if d \<in> set aggregates then query_return d s'
        else query_bind (supertype (vq_service q) ty) (\<lambda>t. walk q d t) s') s"
    assume ih: "\<And>q d ty s y. walk q d ty s = Some y \<Longrightarrow> q = Q \<longrightarrow> (\<forall>H. P H s \<longrightarrow> P H (fst (snd y)))"
      and body: "?body s = Some y"
    have k: "keeps P ?body" if e: "q = Q"
    proof (intro keeps_if_at keeps_bind keeps_return)
      show "keeps P (get_targets q ty (ne_aggregates (vq_ids q)) True)" "keeps P (supertype (vq_service q) ty)"
        using keeps_supertype keeps_get_targets e by simp_all
      show "keeps P (walk q d t)" for t using ih [of q d t] e by (auto simp: keeps_iff)
    qed
    show "q = Q \<longrightarrow> (\<forall>H. P H s \<longrightarrow> P H (fst (snd y)))" using keeps_at [OF k, of s y] body by blast
  qed
  then show ?thesis by (auto simp: keeps_iff)
qed

lemma keeps_get_aggregate: "keeps P (get_aggregate Q n declaration)"
  unfolding get_aggregate_def model_aggregate_declaration_def
  by (intro keeps_read keeps_bind keeps_if keeps_return keeps_cursor keeps_aggregate_walk keeps_browse_name keeps_model_child)

lemma keeps_instance: "keeps P (node_is_instance_of Q n ty)"
  unfolding node_is_instance_of_def ref_type_definition_def by (intro keeps_bind keeps_get_target keeps_subtype_walk)

lemma keeps_placeholder: "keeps P (placeholder_type Q child)"
  unfolding placeholder_type_def ref_type_definition_def
  by (intro keeps_bind keeps_start keeps_get_target keeps_if keeps_return)

lemma keeps_creatable_walk: "keeps P (creatable_types_from Q ty)"
proof -
  have "q = Q \<longrightarrow> (\<forall>H. P H s \<longrightarrow> P H (fst (snd y)))" if "creatable_types_from q ty s = Some y" for q ty s y
    using that
  proof (rule creatable_types_from.raw_induct [rotated])
    fix walk :: "('n, 'v, 's) vq_env \<Rightarrow> 'n \<Rightarrow> ('n list, 'n, 'v, 'c, 's) vs_query" and q ty s y
    let ?body = "\<lambda>s. if ty = vq_null q then query_return [] s
      else query_bind (ref_start_fetch (vq_service q) ty (status_union node_only children_only)) (\<lambda>u.
        query_bind (get_targets q ty (ne_hierarchical (vq_ids q)) True) (\<lambda>children.
          query_bind (query_map (placeholder_type q) children) (\<lambda>found.
            query_bind (supertype (vq_service q) ty) (\<lambda>t.
              query_bind (\<lambda>s. walk q t s) (\<lambda>rest. query_return (concat found @ rest)))))) s"
    assume ih: "\<And>q ty s y. walk q ty s = Some y \<Longrightarrow> q = Q \<longrightarrow> (\<forall>H. P H s \<longrightarrow> P H (fst (snd y)))"
      and body: "?body s = Some y"
    have k: "keeps P ?body" if e: "q = Q"
    proof (intro keeps_if_at keeps_bind keeps_map keeps_return)
      show "keeps P (ref_start_fetch (vq_service q) ty (status_union node_only children_only))"
        "keeps P (get_targets q ty (ne_hierarchical (vq_ids q)) True)" "keeps P (supertype (vq_service q) ty)"
        "keeps P (placeholder_type q c)" for c
        using keeps_supertype keeps_get_targets keeps_start keeps_placeholder e by simp_all
      show "keeps P (\<lambda>s. walk q t s)" for t using ih [of q t] e by (auto simp: keeps_iff)
    qed
    show "q = Q \<longrightarrow> (\<forall>H. P H s \<longrightarrow> P H (fst (snd y)))" using keeps_at [OF k, of s y] body by blast
  qed
  then show ?thesis by (auto simp: keeps_iff)
qed

lemma keeps_creatable: "keeps P (node_creatable_child_types Q n)"
  unfolding node_creatable_child_types_def ref_type_definition_def
  by (intro keeps_bind keeps_node_class keeps_case_option keeps_if keeps_return keeps_get_target keeps_creatable_walk)

lemma keeps_names: "keeps P (full_display_names Q data_group device_type n)"
proof -
  have "q = Q \<longrightarrow> (\<forall>H. P H s \<longrightarrow> P H (fst (snd y)))" if "full_display_names q data_group device_type n s = Some y" for q n s y
    using that
  proof (rule full_display_names.raw_induct [rotated])
    fix walk :: "('n, 'v, 's) vq_env \<Rightarrow> 'n \<Rightarrow> 'n \<Rightarrow> 'n \<Rightarrow> ('v list, 'n, 'v, 'c, 's) vs_query" and q g' d' n s y
    let ?body = "\<lambda>s. query_bind (get_target q n (vq_organizes q) False) (\<lambda>parent.
       query_bind (node_is_instance_of q parent g') (\<lambda>g.
         query_bind (if g then query_return True else node_is_instance_of q parent d') (\<lambda>d s'.
           if d then query_bind (\<lambda>s. walk q g' d' parent s) (\<lambda>names.
               query_bind (ref_display_name q n) (\<lambda>name. query_return (names @ [name]))) s'
           else query_bind (ref_display_name q n) (\<lambda>name. query_return [name]) s'))) s"
    assume ih: "\<And>q g' d' n s y. walk q g' d' n s = Some y \<Longrightarrow> q = Q \<longrightarrow> (\<forall>H. P H s \<longrightarrow> P H (fst (snd y)))"
      and body: "?body s = Some y"
    have k: "keeps P ?body" if e: "q = Q"
    proof (intro keeps_bind keeps_if keeps_if_at keeps_return)
      show "keeps P (\<lambda>s. walk q g' d' p s)" for p using ih [of q g' d' p] e by (auto simp: keeps_iff)
    qed (use keeps_get_target keeps_instance keeps_display_name e in simp_all)
    show "q = Q \<longrightarrow> (\<forall>H. P H s \<longrightarrow> P H (fst (snd y)))" using keeps_at [OF k, of s y] body by blast
  qed
  then show ?thesis by (auto simp: keeps_iff)
qed

end


section \<open>The service and its readers\<close>

text \<open>The invariant of the service, with the models that running getters hold, and the coroutines that await a fetch.\<close>

definition reading_ok ::
    "('n::linorder, 'v, 's) vs_env \<Rightarrow> 'n set option \<Rightarrow> (waiter \<times> 'n) list \<Rightarrow> 'n list \<Rightarrow> ('n, 'v, 'c, 's) node_service \<Rightarrow> bool" where
  "reading_ok E K A H s \<longleftrightarrow> vs_ok E K {} {} s \<and> guards_ok K s \<and> vs_held s = H \<and> vs_awaits s = A"

lemma start_fetch_awaits:
  assumes "vs_ok E K {} {} s"
  shows "vs_awaits (fst (service_start_fetch E n st s)) = vs_awaits s"
  using start_fetch_of_ok(4) [OF get_node_model_ok(1,2) [OF assms], where w = None and st = st]
  by (auto simp: service_start_fetch_def case_prod_unfold Let_def)

interpretation rd: read_interface Q "reading_ok (vq_service Q) K A"
  for Q :: "('n::linorder, 'v, 's) vq_env" and K A
proof
  fix H n st and s :: "('n, 'v, 'c, 's) node_service"
  show "reading_ok (vq_service Q) K A (n # H) (fst (get_node_model_for_read (vq_service Q) n s))"
    if "n \<noteq> vq_null Q" "reading_ok (vq_service Q) K A H s"
    using that read_ok [of "vq_service Q" K "{}" s n] guards_read [of K s "vq_service Q" n] by (simp add: reading_ok_def)
  show "reading_ok (vq_service Q) K A H (release n s)" if "reading_ok (vq_service Q) K A (n # H) s"
    using that release_ok [of "vq_service Q" K "{}" "{}" s n] guards_release [of K n s] by (simp add: reading_ok_def)
  show "reading_ok (vq_service Q) K A H (fst (service_start_fetch (vq_service Q) n st s))" if "reading_ok (vq_service Q) K A H s"
    using that service_start_fetch_ok [of "vq_service Q" K "{}" s n st] guards_service_start_fetch [of K s "vq_service Q" n st]
      start_fetch_awaits [of "vq_service Q" K s n st]
    by (simp add: reading_ok_def)
qed

lemma reading_service_ok: "reading_ok E K A [] s \<longleftrightarrow> service_ok E K s \<and> vs_awaits s = A"
  by (auto simp: reading_ok_def service_ok_def)

lemma query_service_ok:
  assumes "keeps (reading_ok E K (vs_awaits s)) q" "service_ok E K s" "q s = Some (x, s', outs)"
  shows "service_ok E K s' \<and> vs_awaits s' = vs_awaits s"
  using keepsD [OF assms(1) _ assms(3), of "[]"] assms(2) by (simp add: reading_service_ok)


section \<open>The data of the models\<close>

text \<open>What is known of each node: \<open>R\<close>, or nothing yet.\<close>

definition data_ok ::
    "('n::linorder, 'v, 's) vs_env \<Rightarrow> ('n \<Rightarrow> ('n, 'v, 'c) node_state \<Rightarrow> bool) \<Rightarrow> ('n, 'v, 'c, 's) node_service \<Rightarrow> bool" where
  "data_ok E R s \<longleftrightarrow> (\<forall>k m. find_node_model k s = Some m \<longrightarrow>
     nm_state m = empty_node_state (ve_ids E) (ne_null (ve_ids E)) \<or> R k (nm_state m))"

lemma data_ok_sweep: "data_ok E R s \<Longrightarrow> data_ok E R (sweep s)"
  by (auto simp: data_ok_def find_sweep)

lemma data_ok_cong: "vs_models s' = vs_models s \<Longrightarrow> data_ok E R s' = data_ok E R s"
  by (simp add: data_ok_def find_node_model_def)

lemma data_ok_release: "data_ok E R s \<Longrightarrow> data_ok E R (release n s)"
  using data_ok_cong [of "s\<lparr>vs_held := remove1 n (vs_held s)\<rparr>" s] by (simp add: release_def data_ok_sweep)

lemma data_ok_touch: "data_ok E R s \<Longrightarrow> data_ok E R (touch_keep_alive E n s)"
  using data_ok_cong [of "s\<lparr>vs_keep_alive := k\<rparr>" s E R for k] by (simp add: touch_keep_alive_def data_ok_sweep)

lemma data_ok_get_model: "data_ok E R s \<Longrightarrow> data_ok E R (get_node_model E n s)"
  unfolding get_node_model_def
  by (intro data_ok_touch) (auto simp: data_ok_def new_node_model_def)

lemma on_fetch_node_models: "vs_models (fst (on_fetch_node n st s)) = vs_models s"
  by (auto simp: on_fetch_node_def spawn_fetch_def Let_def split: option.splits)

lemma model_start_fetch_data:
  "model_start_fetch st None m = (m', ws, request) \<Longrightarrow> nm_state m' = nm_state m \<and> nm_child_references m' = nm_child_references m
    \<and> nm_status m' = nm_status m \<and> nm_fetch_status m' = nm_fetch_status m"
  by (auto simp: model_start_fetch_def Let_def split: if_splits)

lemma start_fetch_of_find:
  assumes "find_node_model n s = Some m"
  shows "\<exists>m'. (\<forall>k. find_node_model k (fst (start_fetch_of n st None s)) = (if k = n then Some m' else find_node_model k s))
    \<and> nm_state m' = nm_state m \<and> nm_child_references m' = nm_child_references m
    \<and> nm_status m' = nm_status m \<and> nm_fetch_status m' = nm_fetch_status m"
proof -
  obtain m' ws request where r: "model_start_fetch st None m = (m', ws, request)" by (metis prod_cases3)
  let ?s = "put_ready n m' ws s"
  have "vs_models (fst (start_fetch_of n st None s)) = vs_models ?s"
    by (auto simp: start_fetch_of_def assms r Let_def on_fetch_node_models split: option.splits)
  then have "find_node_model k (fst (start_fetch_of n st None s)) = find_node_model k ?s" for k by (simp add: find_node_model_def)
  then show ?thesis using model_start_fetch_data [OF r] by auto
qed

lemma data_ok_start_fetch_of: "data_ok E R s \<Longrightarrow> data_ok E R (fst (start_fetch_of n st None s))"
proof (cases "find_node_model n s")
  case (Some m)
  assume old: "data_ok E R s"
  obtain m' where find: "\<And>k. find_node_model k (fst (start_fetch_of n st None s)) = (if k = n then Some m' else find_node_model k s)"
    and m': "nm_state m' = nm_state m" using start_fetch_of_find [OF Some, of st] by blast
  show ?thesis unfolding data_ok_def find using old Some m' by (auto simp: data_ok_def)
qed (simp add: start_fetch_of_def)

interpretation dt: read_interface Q "\<lambda>H. data_ok (vq_service Q) R" for Q :: "('n::linorder, 'v, 's) vq_env" and R :: "'n \<Rightarrow> ('n, 'v, 'c) node_state \<Rightarrow> bool"
proof
  fix H :: "'n list" and n :: 'n and st and s :: "('n, 'v, 'c, 's) node_service"
  assume s: "data_ok (vq_service Q) R s"
  show "data_ok (vq_service Q) R (fst (get_node_model_for_read (vq_service Q) n s))"
    using s by (simp add: get_node_model_for_read_def data_ok_start_fetch_of data_ok_get_model)
  show "data_ok (vq_service Q) R (release n s)" using s by (rule data_ok_release)
  show "data_ok (vq_service Q) R (fst (service_start_fetch (vq_service Q) n st s))"
    using s by (simp add: service_start_fetch_def case_prod_unfold Let_def data_ok_release data_ok_start_fetch_of data_ok_get_model)
qed

section \<open>The models that stay\<close>

text \<open>Models that differ at most in the parts asked for.\<close>

definition same_model :: "('n, 'v, 'c, 's) node_model \<Rightarrow> ('n, 'v, 'c, 's) node_model \<Rightarrow> bool" where
  "same_model m m' \<longleftrightarrow> m'\<lparr>nm_fetching := status_none\<rparr> = m\<lparr>nm_fetching := status_none\<rparr>"

text \<open>A node that is held by something else than the window: a fetch, one that waits for the channel, or who awaits it.\<close>

definition anchored :: "('n::linorder, 'v, 'c, 's) node_service \<Rightarrow> 'n \<Rightarrow> bool" where
  "anchored s n \<longleftrightarrow> (n, True) \<in> set (vs_node_tasks s) \<or> (n, True) \<in> set (vs_children_tasks s)
     \<or> n \<in> snd ` set (vs_awaits s) \<or> (\<exists>st. smap_find (vs_pending s) n = Some (st, True))"

definition room :: "('n, 'v, 's) vs_env \<Rightarrow> ('n, 'v, 'c, 's) node_service \<Rightarrow> bool" where
  "room E s \<longleftrightarrow> length (vs_keep_alive s) < ve_capacity E"

text \<open>From \<open>s\<close> to \<open>s'\<close> no model changed, but for those that the window dropped on the way.\<close>

definition untouched :: "('n, 'v, 's) vs_env \<Rightarrow> ('n::linorder, 'v, 'c, 's) node_service \<Rightarrow> ('n, 'v, 'c, 's) node_service \<Rightarrow> bool" where
  "untouched E s s' \<longleftrightarrow> (\<forall>k. anchored s k \<longrightarrow> anchored s' k)
     \<and> (room E s' \<longrightarrow> room E s \<and> set (vs_keep_alive s) \<subseteq> set (vs_keep_alive s'))
     \<and> (\<forall>k m. find_node_model k s = Some m \<longrightarrow> anchored s k \<or> room E s' \<and> k \<in> set (vs_keep_alive s) \<longrightarrow>
          (\<exists>m'. find_node_model k s' = Some m' \<and> same_model m m'))
     \<and> (\<forall>k m'. find_node_model k s' = Some m' \<longrightarrow>
          same_model (new_node_model (ve_ids E)) m' \<or> (\<exists>m. find_node_model k s = Some m \<and> same_model m m'))"

lemma same_model_refl [simp]: "same_model m m"
  by (simp add: same_model_def)

lemma same_model_trans: "same_model a b \<Longrightarrow> same_model b c \<Longrightarrow> same_model a c"
  by (simp add: same_model_def)

lemma untouchedI:
  assumes "\<And>k. anchored s k \<Longrightarrow> anchored s' k"
    and "room E s' \<Longrightarrow> room E s \<and> set (vs_keep_alive s) \<subseteq> set (vs_keep_alive s')"
    and "\<And>k m. find_node_model k s = Some m \<Longrightarrow> anchored s k \<or> room E s' \<and> k \<in> set (vs_keep_alive s) \<Longrightarrow>
      \<exists>m'. find_node_model k s' = Some m' \<and> same_model m m'"
    and "\<And>k m'. find_node_model k s' = Some m' \<Longrightarrow>
      same_model (new_node_model (ve_ids E)) m' \<or> (\<exists>m. find_node_model k s = Some m \<and> same_model m m')"
  shows "untouched E s s'"
  using assms unfolding untouched_def by blast

lemma untouchedD:
  assumes "untouched E s s'"
  shows "anchored s k \<Longrightarrow> anchored s' k"
    and "room E s' \<Longrightarrow> room E s" and "room E s' \<Longrightarrow> k \<in> set (vs_keep_alive s) \<Longrightarrow> k \<in> set (vs_keep_alive s')"
    and "find_node_model k s = Some m \<Longrightarrow> anchored s k \<or> room E s' \<and> k \<in> set (vs_keep_alive s) \<Longrightarrow>
      \<exists>m'. find_node_model k s' = Some m' \<and> same_model m m'"
    and "find_node_model k s' = Some m' \<Longrightarrow>
      same_model (new_node_model (ve_ids E)) m' \<or> (\<exists>m. find_node_model k s = Some m \<and> same_model m m')"
  using assms unfolding untouched_def by blast+

lemma untouched_refl: "untouched E s s"
  by (auto intro!: untouchedI)

lemma untouched_trans:
  assumes a: "untouched E s1 s2" and b: "untouched E s2 s3"
  shows "untouched E s1 s3"
proof (rule untouchedI)
  show "anchored s3 k" if "anchored s1 k" for k using untouchedD(1) [OF b] untouchedD(1) [OF a] that by blast
  show "room E s1 \<and> set (vs_keep_alive s1) \<subseteq> set (vs_keep_alive s3)" if "room E s3"
    using untouchedD(2,3) [OF a] untouchedD(2,3) [OF b] that by blast
  show "\<exists>m'. find_node_model k s3 = Some m' \<and> same_model m m'"
    if m: "find_node_model k s1 = Some m" and k: "anchored s1 k \<or> room E s3 \<and> k \<in> set (vs_keep_alive s1)" for k m
  proof -
    have "anchored s1 k \<or> room E s2 \<and> k \<in> set (vs_keep_alive s1)" using k untouchedD(2) [OF b] by blast
    from untouchedD(4) [OF a m this] obtain m2 where m2: "find_node_model k s2 = Some m2" "same_model m m2" by blast
    have "anchored s2 k \<or> room E s3 \<and> k \<in> set (vs_keep_alive s2)"
      using k untouchedD(1) [OF a, of k] untouchedD(2) [OF b] untouchedD(3) [OF a, of k] by blast
    from untouchedD(4) [OF b m2(1) this] show ?thesis using same_model_trans [OF m2(2)] by blast
  qed
  show "same_model (new_node_model (ve_ids E)) m3 \<or> (\<exists>m. find_node_model k s1 = Some m \<and> same_model m m3)"
    if "find_node_model k s3 = Some m3" for k m3
    using untouchedD(5) [OF b that] untouchedD(5) [OF a, of k] same_model_trans by blast
qed

text \<open>The steps of a read.\<close>

lemma anchored_update [simp]:
  "anchored (s\<lparr>vs_keep_alive := a\<rparr>) k = anchored s k" "anchored (s\<lparr>vs_held := h\<rparr>) k = anchored s k"
  "anchored (s\<lparr>vs_ready := r\<rparr>) k = anchored s k" "anchored (put_model n m s) k = anchored s k"
  "anchored (sweep s) k = anchored s k"
  by (simp_all add: anchored_def sweep_def put_model_def)

lemma anchored_pinned:
  assumes "anchored s k"
  shows "pinned s k"
proof -
  have "k \<in> fst ` set (filter (\<lambda>p. snd (snd p)) (vs_pending s))" if "smap_find (vs_pending s) k = Some (st, True)" for st
    using smap_find_in [OF that] by force
  then show ?thesis using assms unfolding anchored_def pinned_def by blast
qed

lemma untouched_sweep: "untouched E s (sweep s)"
proof (rule untouchedI)
  show "\<exists>m'. find_node_model k (sweep s) = Some m' \<and> same_model m m'"
    if "find_node_model k s = Some m" "anchored s k \<or> room E (sweep s) \<and> k \<in> set (vs_keep_alive s)" for k m
    using that anchored_pinned [of s k] by (auto simp: find_sweep pinned_def)
qed (auto simp: find_sweep room_def split: if_splits)

lemma untouched_frame:
  assumes "vs_models s' = vs_models s" "vs_keep_alive s' = vs_keep_alive s" "\<And>k. anchored s k \<Longrightarrow> anchored s' k"
  shows "untouched E s s'"
proof -
  have "find_node_model k s' = find_node_model k s" for k using assms(1) by (simp add: find_node_model_def)
  then show ?thesis using assms(2,3) by (auto intro!: untouchedI simp: room_def)
qed

lemma untouched_release: "untouched E s (release n s)"
proof -
  have "untouched E s (s\<lparr>vs_held := h\<rparr>)" for h by (rule untouched_frame) simp_all
  then show ?thesis unfolding release_def using untouched_sweep untouched_trans by blast
qed

lemma untouched_put:
  assumes "find_node_model n s = Some m \<and> same_model m m' \<or> find_node_model n s = None \<and> same_model (new_node_model (ve_ids E)) m'"
  shows "untouched E s (put_model n m' s)"
  using assms by (intro untouchedI) (auto simp: room_def split: if_splits)

lemma untouched_window:
  assumes "length (vs_keep_alive s) \<le> length a" "length a < ve_capacity E \<longrightarrow> set (vs_keep_alive s) \<subseteq> set a"
  shows "untouched E s (s\<lparr>vs_keep_alive := a\<rparr>)"
  using assms by (intro untouchedI) (auto simp: room_def)

lemma untouched_touch: "untouched E s (touch_keep_alive E n s)"
proof -
  consider "ve_capacity E = 0" | "ve_capacity E \<noteq> 0" "n \<in> set (vs_keep_alive s)" | "ve_capacity E \<noteq> 0" "n \<notin> set (vs_keep_alive s)" by blast
  then show ?thesis
  proof cases
    case 1
    then show ?thesis by (simp add: touch_keep_alive_def untouched_refl)
  next
    case 2
    have "length (vs_keep_alive s) > 0" using 2 by (cases "vs_keep_alive s") auto
    moreover have "x \<in> set (n # remove1 n (vs_keep_alive s))" if "x \<in> set (vs_keep_alive s)" for x
      using that by (cases "x = n") simp_all
    ultimately have "untouched E s (s\<lparr>vs_keep_alive := n # remove1 n (vs_keep_alive s)\<rparr>)"
      using 2 by (intro untouched_window) (simp_all add: length_remove1 subsetI)
    then show ?thesis using 2 by (simp add: touch_keep_alive_def)
  next
    case 3
    let ?s = "s\<lparr>vs_keep_alive := take (ve_capacity E) (n # vs_keep_alive s)\<rparr>"
    show ?thesis
    proof (cases "length (vs_keep_alive s) < ve_capacity E")
      case True
      then have "take (ve_capacity E) (n # vs_keep_alive s) = n # vs_keep_alive s" by (intro take_all) simp
      then have "untouched E s ?s" by (intro untouched_window) auto
      then show ?thesis using 3 untouched_trans [OF _ untouched_sweep] by (simp add: touch_keep_alive_def)
    next
      case False
      then have "untouched E s ?s" by (intro untouchedI) (auto simp: room_def)
      then show ?thesis using 3 untouched_trans [OF _ untouched_sweep] by (simp add: touch_keep_alive_def)
    qed
  qed
qed

lemma untouched_get_model: "untouched E s (get_node_model E n s)"
proof -
  let ?s = "if find_node_model n s = None then put_model n (new_node_model (ve_ids E)) s else s"
  have "untouched E s ?s" by (simp add: untouched_put untouched_refl)
  moreover have "untouched E ?s (hold n ?s)" by (rule untouched_frame) (simp_all add: hold_def)
  ultimately show ?thesis unfolding get_node_model_def using untouched_touch untouched_trans by blast
qed

lemma untouched_on_fetch: "untouched E s (fst (on_fetch_node n st s))"
proof (rule untouched_frame)
  show "anchored (fst (on_fetch_node n st s)) k" if "anchored s k" for k
    using that by (auto simp: on_fetch_node_def spawn_fetch_def anchored_def smap_find_put Let_def split: option.splits)
qed (auto simp: on_fetch_node_def spawn_fetch_def Let_def split: option.splits)

lemma untouched_start_fetch: "untouched E s (fst (start_fetch_of n st None s))"
proof (cases "find_node_model n s")
  case None
  then show ?thesis by (simp add: start_fetch_of_def untouched_refl)
next
  case (Some m)
  obtain m' ws request where r: "model_start_fetch st None m = (m', ws, request)" by (metis prod_cases3)
  have "same_model m m'" using r by (auto simp: model_start_fetch_def same_model_def Let_def split: if_splits)
  then have "untouched E s (put_model n m' s)" using Some by (simp add: untouched_put)
  moreover have "untouched E (put_model n m' s) (put_ready n m' ws s)" by (rule untouched_frame) simp_all
  ultimately have one: "untouched E s (put_ready n m' ws s)" by (rule untouched_trans)
  show ?thesis
  proof (cases request)
    case None
    then show ?thesis using one by (simp add: start_fetch_of_def Some r)
  next
    case (Some fs)
    then show ?thesis using untouched_trans [OF one untouched_on_fetch] by (simp add: start_fetch_of_def \<open>find_node_model n s = Some m\<close> r)
  qed
qed

interpretation ut: read_interface Q "\<lambda>H. untouched (vq_service Q) s0" for Q :: "('n::linorder, 'v, 's) vq_env" and s0 :: "('n, 'v, 'c, 's) node_service"
proof
  fix H :: "'n list" and n :: 'n and st and s :: "('n, 'v, 'c, 's) node_service"
  assume s: "untouched (vq_service Q) s0 s"
  note one = untouched_trans [OF s untouched_get_model]
  note two = untouched_trans [OF one untouched_start_fetch]
  show "untouched (vq_service Q) s0 (fst (get_node_model_for_read (vq_service Q) n s))"
    using s two by (simp add: get_node_model_for_read_def)
  show "untouched (vq_service Q) s0 (release n s)" by (rule untouched_trans [OF s untouched_release])
  show "untouched (vq_service Q) s0 (fst (service_start_fetch (vq_service Q) n st s))"
    using s untouched_trans [OF two untouched_release] by (simp add: service_start_fetch_def case_prod_unfold Let_def)
qed

text \<open>What a query leaves of the models: a model is as it was, but for the parts asked for, or new; it is as it was if
  the node is held by more than the window, or if the window has room at the end.\<close>

definition same_data :: "('n::linorder, 'v, 's) vs_env \<Rightarrow> ('n, 'v, 'c, 's) node_service \<Rightarrow> ('n, 'v, 'c, 's) node_service \<Rightarrow> bool" where
  "same_data E s s' \<longleftrightarrow>
     (\<forall>k m'. find_node_model k s' = Some m' \<longrightarrow>
        same_model (new_node_model (ve_ids E)) m' \<or> (\<exists>m. find_node_model k s = Some m \<and> same_model m m'))
     \<and> (\<forall>k m. find_node_model k s = Some m \<longrightarrow> anchored s k \<or> room E s' \<longrightarrow>
        (\<exists>m'. find_node_model k s' = Some m' \<and> same_model m m'))"

lemma untouched_same_data:
  assumes ok: "service_ok E K s" and u: "untouched E s s'"
  shows "same_data E s s'"
proof -
  have vs: "vs_ok E K {} {} s" "vs_held s = []" using ok by (simp_all add: service_ok_def)
  note f = frame_okD [OF vs_okD(1) [OF vs(1)]]
  have "anchored s k \<or> k \<in> set (vs_keep_alive s)" if "find_node_model k s = Some m" for k m
  proof -
    have "pinned s k" using f(3) [of k] that by simp
    moreover have "anchored s k" if pending: "k \<in> fst ` set (filter (\<lambda>p. snd (snd p)) (vs_pending s))"
    proof -
      from pending obtain p where p: "p \<in> set (vs_pending s)" "snd (snd p)" "k = fst p" by auto
      then have "(k, fst (snd p), True) \<in> set (vs_pending s)" by (metis (full_types) prod.collapse)
      then have "smap_find (vs_pending s) k = Some (fst (snd p), True)" by (simp only: smap_find_iff [OF f(2)])
      then show ?thesis unfolding anchored_def by blast
    qed
    ultimately show ?thesis using vs(2) unfolding pinned_def anchored_def by auto
  qed
  then show ?thesis unfolding same_data_def using untouchedD(4,5) [OF u] by blast
qed

section \<open>The answers\<close>

text \<open>A query that ends in every state, with a result that does not depend on the state.\<close>

definition yields :: "('a, 'n, 'v, 'c, 's) vs_query \<Rightarrow> 'a \<Rightarrow> bool" where
  "yields q x \<longleftrightarrow> (\<forall>s. \<exists>s' outs. q s = Some (x, s', outs))"

lemma yields_return [simp, intro]: "yields (query_return x) x"
  by (simp add: yields_def query_return_def)

lemma yields_bind: "yields q x \<Longrightarrow> yields (f x) y \<Longrightarrow> yields (query_bind q f) y"
  unfolding yields_def query_bind_def by (fastforce simp: bind_eq_Some_conv)

lemma yields_map: "(\<And>x. x \<in> set xs \<Longrightarrow> yields (f x) (g x)) \<Longrightarrow> yields (query_map f xs) (map g xs)"
  by (induction xs) (auto intro!: yields_bind)

lemma yields_cursor: "yields (cursor_at E n) n"
  by (simp add: yields_def cursor_at_def case_prod_unfold Let_def)

text \<open>The model that a getter reads.\<close>

lemma read_find:
  fixes s :: "('n::linorder, 'v, 'c, 's) node_service"
  assumes n: "n \<noteq> ne_null (ve_ids E)"
  defines "m0 \<equiv> (case find_node_model n s of None \<Rightarrow> new_node_model (ve_ids E) | Some m \<Rightarrow> m)"
  shows "\<exists>m'. find_node_model n (fst (get_node_model_for_read E n s)) = Some m'
    \<and> nm_state m' = nm_state m0 \<and> nm_child_references m' = nm_child_references m0
    \<and> nm_status m' = nm_status m0 \<and> nm_fetch_status m' = nm_fetch_status m0"
proof -
  let ?s = "hold n (if find_node_model n s = None then put_model n (new_node_model (ve_ids E)) s else s)"
  have "find_node_model n ?s = Some m0" by (auto simp: m0_def split: option.splits)
  moreover have "pinned (?s\<lparr>vs_keep_alive := k\<rparr>) n" for k by (simp add: pinned_def)
  ultimately have "find_node_model n (get_node_model E n s) = Some m0"
    by (auto simp: get_node_model_def touch_keep_alive_def find_sweep)
  from start_fetch_of_find [OF this, of node_only] show ?thesis using n by (auto simp: get_node_model_for_read_def)
qed

lemma read_model_yields:
  assumes "n \<noteq> ne_null (ve_ids E)" and "find_node_model n s = Some m"
    and "\<And>m'. nm_state m' = nm_state m \<Longrightarrow> nm_child_references m' = nm_child_references m \<Longrightarrow> nm_status m' = nm_status m \<Longrightarrow>
      nm_fetch_status m' = nm_fetch_status m \<Longrightarrow> yields (f m') x"
  shows "\<exists>s' outs. read_model E n d f s = Some (x, s', outs)"
proof -
  obtain m' where m': "find_node_model n (fst (get_node_model_for_read E n s)) = Some m'" "nm_state m' = nm_state m"
    "nm_child_references m' = nm_child_references m" "nm_status m' = nm_status m" "nm_fetch_status m' = nm_fetch_status m"
    using read_find [OF assms(1), of s] assms(2) by auto
  obtain s2 o2 where "f m' (fst (get_node_model_for_read E n s)) = Some (x, s2, o2)"
    using assms(3) [OF m'(2-5)] unfolding yields_def by blast
  then show ?thesis using assms(1) m'(1) by (simp add: read_model_def case_prod_unfold Let_def)
qed

definition found_reference :: "'n reference_description \<Rightarrow> 'n node_reference" where
  "found_reference r = (rd_reference_type_id r, rd_node_id r, rd_forward r)"

definition matching :: "('n, 'v, 's) vq_env \<Rightarrow> 'n \<Rightarrow> bool \<Rightarrow> 'n reference_description \<Rightarrow> bool" where
  "matching Q ty forward r \<longleftrightarrow> rd_forward r = forward \<and> vq_standard_subtype Q (rd_reference_type_id r) ty = Some True"

lemma append_matching_yields:
  assumes "\<And>r. r \<in> set refs \<Longrightarrow> vq_standard_subtype Q (rd_reference_type_id r) ty \<noteq> None"
  shows "yields (append_matching Q ty forward refs) (map found_reference (filter (matching Q ty forward) refs))"
proof -
  let ?g = "\<lambda>r. if matching Q ty forward r then [found_reference r] else []"
  have one: "yields (query_map (\<lambda>r.
         if rd_forward r = forward
         then query_bind (reference_matches Q ty (rd_reference_type_id r)) (\<lambda>b.
           if b then query_bind (cursor_at (vq_service Q) (rd_reference_type_id r)) (\<lambda>t.
             query_bind (cursor_at (vq_service Q) (rd_node_id r)) (\<lambda>n. query_return [(t, n, rd_forward r)]))
           else query_return [])
         else query_return []) refs) (map ?g refs)"
  proof (rule yields_map)
    fix r assume r: "r \<in> set refs"
    obtain b where b: "vq_standard_subtype Q (rd_reference_type_id r) ty = Some b" using assms [OF r] by blast
    have m: "yields (reference_matches Q ty (rd_reference_type_id r)) b" by (simp add: reference_matches_def b)
    show "yields (if rd_forward r = forward
         then query_bind (reference_matches Q ty (rd_reference_type_id r)) (\<lambda>b.
           if b then query_bind (cursor_at (vq_service Q) (rd_reference_type_id r)) (\<lambda>t.
             query_bind (cursor_at (vq_service Q) (rd_node_id r)) (\<lambda>n. query_return [(t, n, rd_forward r)]))
           else query_return [])
         else query_return []) (?g r)"
      using m by (cases b) (auto simp: matching_def found_reference_def b intro!: yields_bind yields_cursor)
  qed
  have "concat (map ?g refs) = map found_reference (filter (matching Q ty forward) refs)" by (induction refs) auto
  moreover have "yields (append_matching Q ty forward refs) (concat (map ?g refs))"
    unfolding append_matching_def by (rule yields_bind [OF one yields_return])
  ultimately show ?thesis by simp
qed

lemma model_references_yields:
  assumes "\<And>r. r \<in> set (ns_references (snapshot m)) \<Longrightarrow> vq_standard_subtype Q (rd_reference_type_id r) ty \<noteq> None"
    and "nm_state m' = nm_state m" "nm_child_references m' = nm_child_references m"
  shows "yields (model_references Q ty forward m') (map found_reference (filter (matching Q ty forward) (ns_references (snapshot m))))"
proof -
  have "yields (append_matching Q ty forward (ns_references (nm_state m')))
      (map found_reference (filter (matching Q ty forward) (ns_references (nm_state m))))"
    "yields (append_matching Q ty forward (nm_child_references m'))
      (map found_reference (filter (matching Q ty forward) (nm_child_references m)))"
    unfolding assms(2,3) by (rule append_matching_yields; use assms(1) in \<open>simp add: snapshot_def\<close>)+
  from yields_bind [OF this(1) yields_bind [OF this(2) yields_return]] show ?thesis
    by (simp add: model_references_def snapshot_def)
qed

end
