(* ===== verification/Node_Query_Claims.thy ===== *)
theory Node_Query_Claims
  imports Node_Query_Facts
begin

text \<open>
  The properties of reading through the node service, and runs on concrete nodes.
\<close>

section \<open>What queries do to the service\<close>

definition answered :: "('a, 'n, 'v, 'c, 's) vs_query \<Rightarrow> ('n, 'v, 'c, 's) node_service \<Rightarrow> ('n, 'v, 'c, 's) node_service \<Rightarrow> bool" where
  "answered q s s' \<longleftrightarrow> (\<exists>x outs. q s = Some (x, s', outs))"

lemma answered_keeps:
  assumes k: "\<And>K A. keeps (reading_ok (vq_service Q) K A) q" "\<And>s0. keeps (\<lambda>H. untouched (vq_service Q) s0) q"
    and s: "service_ok (vq_service Q) K s" and a: "answered q s s'"
  shows "service_ok (vq_service Q) K s' \<and> vs_awaits s' = vs_awaits s \<and> same_data (vq_service Q) s s'"
proof -
  obtain x outs where r: "q s = Some (x, s', outs)" using a by (auto simp: answered_def)
  have "untouched (vq_service Q) s s'" using keepsD [OF k(2) _ r] untouched_refl by blast
  then show ?thesis using query_service_ok [OF k(1) s r] untouched_same_data [OF s] by blast
qed

text \<open>C26: reading through cursors, the walks over types and parents included, keeps the invariant of the service and
  everybody's waiting, and changes of no model anything but the parts that were asked for: status, fetched parts, state,
  children and callbacks stay. A resident node keeps its model if a fetch or a waiter holds it, and every resident node
  does if the window of recently used nodes is not full afterwards. If it is full, a node that only the window held may have left it; if
  it came back, its model is a new one, so that every model afterwards is the old one of its node or a new one
  (\<open>same_data\<close>).\<close>

theorem queries_keep_service:
  assumes "vs_reachable (vq_service Q) K s"
    and "answered (get_references Q n ty forward) s s' \<or> answered (get_target Q n ty forward) s s'
      \<or> answered (get_aggregate Q n declaration) s s' \<or> answered (node_is_instance_of Q n ty) s s'
      \<or> answered (node_creatable_child_types Q n) s s' \<or> answered (full_display_names Q data_group device_type n) s s'"
  shows "service_ok (vq_service Q) K s' \<and> vs_awaits s' = vs_awaits s \<and> same_data (vq_service Q) s s'"
proof -
  note a = answered_keeps [OF _ _ reachable_service_ok [OF assms(1)]]
  show ?thesis
    using assms(2) a [OF rd.keeps_get_references ut.keeps_get_references] a [OF rd.keeps_get_target ut.keeps_get_target]
      a [OF rd.keeps_get_aggregate ut.keeps_get_aggregate] a [OF rd.keeps_instance ut.keeps_instance]
      a [OF rd.keeps_creatable ut.keeps_creatable] a [OF rd.keeps_names ut.keeps_names] by blast
qed

section \<open>References\<close>

text \<open>C30: the references that a resident node is asked for are those of its snapshot with the given direction and a type
  that is a subtype of the given one, in the snapshot's order, when the types are standard ones; no type node need be
  fetched for that, and the query ends.\<close>

theorem get_references_standard:
  assumes "n \<noteq> vq_null Q" and "find_node_model n s = Some m"
    and "\<And>r. r \<in> set (ns_references (snapshot m)) \<Longrightarrow> vq_standard_subtype Q (rd_reference_type_id r) ty \<noteq> None"
  shows "\<exists>s' outs. get_references Q n ty forward s = Some
    (map (\<lambda>r. (rd_reference_type_id r, rd_node_id r, rd_forward r))
       (filter (\<lambda>r. rd_forward r = forward \<and> vq_standard_subtype Q (rd_reference_type_id r) ty = Some True)
          (ns_references (snapshot m))), s', outs)"
proof -
  have eqs: "found_reference = (\<lambda>r. (rd_reference_type_id r, rd_node_id r, rd_forward r))"
    "matching Q ty forward = (\<lambda>r. rd_forward r = forward \<and> vq_standard_subtype Q (rd_reference_type_id r) ty = Some True)"
    by (auto simp: found_reference_def matching_def)
  show ?thesis
    unfolding get_references_def eqs [symmetric]
    by (rule read_model_yields [OF assms(1,2)]) (rule model_references_yields [OF assms(3)])
qed

section \<open>Walking over the supertypes\<close>

lemma supertype_read:
  fixes s :: "('n::linorder, 'v, 'c, 's) node_service"
  assumes "ty \<noteq> ne_null (ve_ids E)"
  defines "t \<equiv> (case find_node_model ty s of None \<Rightarrow> ne_null (ve_ids E) | Some m \<Rightarrow> ns_supertype_id (nm_state m))"
  shows "\<exists>s' outs. supertype E ty s = Some (t, s', outs)"
proof -
  obtain m' where m': "find_node_model ty (fst (get_node_model_for_read E ty s)) = Some m'" "ns_supertype_id (nm_state m') = t"
    using read_find [OF assms(1), of s] by (auto simp: t_def new_node_model_def empty_node_state_def split: option.splits)
  obtain s2 o2 where "cursor_at E t (fst (get_node_model_for_read E ty s)) = Some (t, s2, o2)"
    using yields_cursor [of E t] unfolding yields_def by blast
  then show ?thesis using assms(1) m' by (simp add: supertype_def read_model_def case_prod_unfold Let_def)
qed

text \<open>A type that is not resident, or not fetched, is a subtype of nothing but itself: the walk asks for it and
  answers false.\<close>

theorem unfetched_type_is_no_subtype:
  assumes "ty \<noteq> ne_null (ve_ids E)" "ty \<noteq> super"
    and "case find_node_model ty s of None \<Rightarrow> True | Some m \<Rightarrow> ns_supertype_id (nm_state m) = ne_null (ve_ids E)"
  shows "\<exists>s' outs. is_subtype_of_walk E ty super s = Some (False, s', outs)"
proof -
  obtain s' outs where r: "supertype E ty s = Some (ne_null (ve_ids E), s', outs)"
    using supertype_read [OF assms(1), of s] assms(3) by (auto split: option.splits)
  show ?thesis using assms(1,2)
    by (subst is_subtype_of_walk.simps, simp add: query_bind_def r) (subst is_subtype_of_walk.simps, simp add: query_return_def)
qed

text \<open>C31: the walk over the supertypes ends whenever the known supertypes have no cycle, that is, whenever some measure
  of the types decreases along them; it then keeps the invariant of the service.\<close>

theorem subtype_walk_ends:
  fixes rank :: "'n::linorder \<Rightarrow> nat" and Q :: "('n, 'v, 's) vq_env" and s :: "('n, 'v, 'c, 's) node_service"
  assumes "\<And>k m. find_node_model k s = Some m \<Longrightarrow> ns_supertype_id (nm_state m) \<noteq> vq_null Q \<Longrightarrow>
      rank (ns_supertype_id (nm_state m)) < rank k"
  shows "is_subtype_of_walk (vq_service Q) ty super s \<noteq> None"
proof -
  let ?E = "vq_service Q"
  let ?R = "\<lambda>k st. ns_supertype_id st = vq_null Q \<or> rank (ns_supertype_id st) < rank k"
  have "data_ok ?E ?R s \<Longrightarrow> is_subtype_of_walk ?E ty super s \<noteq> None" for s :: "('n, 'v, 'c, 's) node_service"
  proof (induction "rank ty" arbitrary: ty s rule: less_induct)
    case less
    show ?case
    proof (cases "ty = ne_null (ve_ids ?E) \<or> ty = super")
      case True
      then show ?thesis by (subst is_subtype_of_walk.simps) (auto simp: query_return_def)
    next
      case False
      let ?t = "case find_node_model ty s of None \<Rightarrow> vq_null Q | Some m \<Rightarrow> ns_supertype_id (nm_state m)"
      obtain s' outs where r: "supertype ?E ty s = Some (?t, s', outs)" using supertype_read [of ty ?E s] False by blast
      have ok: "data_ok ?E ?R s'" using keepsD [OF dt.keeps_supertype less.prems r] .
      have "is_subtype_of_walk ?E ?t super s' \<noteq> None"
      proof (cases "?t = vq_null Q")
        case True
        then show ?thesis by (subst is_subtype_of_walk.simps) (simp add: query_return_def)
      next
        case nonnull: False
        then obtain m where m: "find_node_model ty s = Some m" by (auto split: option.splits)
        have none: "ns_supertype_id (empty_node_state (vq_ids Q) (vq_null Q)) = vq_null Q" by (simp add: empty_node_state_def)
        from less.prems m have "nm_state m = empty_node_state (vq_ids Q) (vq_null Q) \<or> ?R ty (nm_state m)"
          unfolding data_ok_def by blast
        then have "rank ?t < rank ty" using nonnull m none by auto
        then show ?thesis using less.hyps ok by blast
      qed
      then show ?thesis using False
        by (subst is_subtype_of_walk.simps) (auto simp: query_bind_def r)
    qed
  qed
  moreover have "data_ok ?E ?R s" using assms by (auto simp: data_ok_def)
  ultimately show ?thesis by blast
qed

section \<open>Concrete nodes\<close>

definition vx_query :: "(nat, int, nat) vq_env" where
  "vx_query = \<lparr>vq_service = vx_env, vq_standard_subtype = (\<lambda>t super. if t < 100 then Some (t = super \<or> super = 31) else None),
     vq_ok_status = (\<lambda>s. s = 0), vq_id_value = int, vq_class_value = id, vq_id_name = int, vq_id_text = int,
     vq_status_text = int, vq_no_name = 0, vq_no_text = 0, vq_get_int = Some, vq_name_text = id, vq_empty_text = (\<lambda>t. t = 0),
     vq_has_component = 47, vq_has_modelling_rule = 37, vq_organizes = 35, vq_optional_placeholder = 11508,
     vq_mandatory_placeholder = 11510\<rparr>"

text \<open>Two types that a server gives as supertypes of each other, and the states between which the walk goes.\<close>

definition type_state :: "nat \<Rightarrow> nat \<Rightarrow> (nat, int, unit) node_state" where
  "type_state n super = (vx_state n 0)\<lparr>ns_node_class := 8, ns_supertype_id := super\<rparr>"

definition cycle_run :: "(nat, int, unit, nat) vs_event list" where
  "cycle_run = [ChannelOpened, StartFetch 100 node_only, NodeAnswer 100 (Inr (type_state 100 101)),
     StartFetch 101 node_only, NodeAnswer 101 (Inr (type_state 101 100))]"

definition vx_cyclic :: "(nat, int, unit, nat) node_service" where
  "vx_cyclic = (case vx_run cycle_run of None \<Rightarrow> new_node_service | Some (s, outs) \<Rightarrow> s)"

definition vx_cyclic' :: "(nat, int, unit, nat) node_service" where
  "vx_cyclic' = vx_cyclic\<lparr>vs_keep_alive := rev (vs_keep_alive vx_cyclic)\<rparr>"

lemma cycle_steps:
  "supertype vx_env 100 vx_cyclic = Some (101, vx_cyclic, [])" "supertype vx_env 101 vx_cyclic = Some (100, vx_cyclic', [])"
  "supertype vx_env 100 vx_cyclic' = Some (101, vx_cyclic, [])" "ne_null (ve_ids vx_env) = 0"
  by code_simp+

text \<open>if a server gives two types as supertypes of each other, asking the client whether one of them is a subtype of a
  third does not end.\<close>

theorem supertype_cycle_diverges:
  "vx_run cycle_run \<noteq> None \<and> is_subtype_of_walk vx_env 100 33 vx_cyclic = None"
proof
  show "vx_run cycle_run \<noteq> None" by code_simp
  have "\<not> (e = vx_env \<and> super = 33 \<and> (ty = 100 \<and> s \<in> {vx_cyclic, vx_cyclic'} \<or> ty = 101 \<and> s = vx_cyclic))"
    if "is_subtype_of_walk e ty super s = Some y" for e ty super s y
    using that
  proof (rule is_subtype_of_walk.raw_induct [rotated])
    fix walk and e :: "(nat, int, nat) vs_env" and ty super s y
    assume ih: "\<And>e ty super s y. walk e ty super s = Some y \<Longrightarrow>
        \<not> (e = vx_env \<and> super = 33 \<and> (ty = 100 \<and> s \<in> {vx_cyclic, vx_cyclic'} \<or> ty = 101 \<and> s = vx_cyclic))"
      and body: "(if ty = ne_null (ve_ids e) then query_return False s else if ty = super then query_return True s
        else query_bind (supertype e ty) (\<lambda>t. walk e t super) s) = Some y"
    have "walk vx_env ty 33 s = None" if "ty = 100 \<and> s \<in> {vx_cyclic, vx_cyclic'} \<or> ty = 101 \<and> s = vx_cyclic" for ty s
      using ih [of vx_env ty 33 s] that by (cases "walk vx_env ty 33 s") auto
    then have none: "walk vx_env 100 33 vx_cyclic = None" "walk vx_env 100 33 vx_cyclic' = None" "walk vx_env 101 33 vx_cyclic = None"
      by simp_all
    show "\<not> (e = vx_env \<and> super = 33 \<and> (ty = 100 \<and> s \<in> {vx_cyclic, vx_cyclic'} \<or> ty = 101 \<and> s = vx_cyclic))"
      using body none by (auto simp: cycle_steps query_bind_def)
  qed
  from this [of vx_env 100 33 vx_cyclic] show "is_subtype_of_walk vx_env 100 33 vx_cyclic = None"
    by (cases "is_subtype_of_walk vx_env 100 33 vx_cyclic") auto
qed

section \<open>The properties on concrete runs\<close>

lemma vx_mirrored_reachable: "vs_reachable (vq_service vx_query) (Some {35}) vx_mirrored"
proof -
  have "vx_run mirror_run \<noteq> None" by code_simp
  then obtain s outs where r: "vx_run mirror_run = Some (s, outs)" by auto
  then show ?thesis using vs_run_reachable [OF vs_reachable.start r] by (simp add: vx_mirrored_def vx_query_def)
qed

lemma queries_keep_service_witness:
  "\<exists>s' outs. get_references vx_query 5 31 False vx_mirrored = Some ([(36, 6, False)], s', outs)
    \<and> service_ok vx_env (Some {35}) s' \<and> same_data vx_env vx_mirrored s'"
proof -
  have "map_option fst (get_references vx_query 5 31 False vx_mirrored) = Some [(36, 6, False)]" by code_simp
  then obtain s' outs where r: "get_references vx_query 5 31 False vx_mirrored = Some ([(36, 6, False)], s', outs)" by auto
  then have "answered (get_references vx_query 5 31 False) vx_mirrored s'" by (auto simp: answered_def)
  from queries_keep_service [OF vx_mirrored_reachable disjI1 [OF this]] r show ?thesis by (auto simp: vx_query_def)
qed

lemma get_references_standard_witness:
  "\<exists>s' outs. get_references vx_query 5 36 False vx_mirrored = Some ([(36, 6, False)], s', outs)"
proof -
  obtain m where m: "find_node_model 5 vx_mirrored = Some m" "ns_references (snapshot m) = [\<lparr>rd_reference_type_id = 36, rd_forward = False, rd_node_id = 6, rd_details = None\<rparr>]"
  proof -
    have "map_option (ns_references \<circ> snapshot) (find_node_model 5 vx_mirrored)
      = Some [\<lparr>rd_reference_type_id = 36, rd_forward = False, rd_node_id = 6, rd_details = None\<rparr>]" by code_simp
    then show ?thesis using that by auto
  qed
  have "(5::nat) \<noteq> vq_null vx_query" by (simp add: vx_query_def vx_env_def vx_ids_def)
  from get_references_standard [OF this m(1), of 36 False] show ?thesis by (auto simp: m(2) vx_query_def)
qed

lemma unfetched_type_is_no_subtype_witness:
  "\<exists>s' outs. is_subtype_of_walk vx_env 102 33 vx_mirrored = Some (False, s', outs)"
proof (rule unfetched_type_is_no_subtype)
  have "find_node_model 102 vx_mirrored = None" by code_simp
  then show "case find_node_model 102 vx_mirrored of None \<Rightarrow> True | Some m \<Rightarrow> ns_supertype_id (nm_state m) = ne_null (ve_ids vx_env)"
    by simp
qed (simp_all add: vx_env_def vx_ids_def)

lemma subtype_walk_ends_witness: "is_subtype_of_walk (vq_service vx_query) 5 33 vx_mirrored \<noteq> None"
proof (rule subtype_walk_ends [where rank = id])
  fix k m assume "find_node_model k vx_mirrored = Some m" "ns_supertype_id (nm_state m) \<noteq> vq_null vx_query"
  moreover have "\<forall>p \<in> set (vs_models vx_mirrored). ns_supertype_id (nm_state (snd p)) = vq_null vx_query" by code_simp
  ultimately show "id (ns_supertype_id (nm_state m)) < id k"
    using smap_find_in [of "vs_models vx_mirrored" k m] by (auto simp: find_node_model_def)
qed

end
