(* ===== verification/Variant_Xml.thy ===== *)
theory Variant_Xml
  imports Node_Ids Node_Utils
begin

text \<open>
  The first part of \<open>address_space/address_space_xml.cpp\<close>: how variants, node ids, names and numbers are written to
  XML and read back.

  The document is one of the pugixml library, which is not part of the repository: its nodes are a type parameter, and
  what is asked of a node or done to it is a field of \<open>xml_env\<close>, with the documented behaviour as \<open>xml_ok\<close>. An element
  is filled before it stands in its parent, where the code fills it through a handle; a document whose writing failed
  is not used any more. The conversions of localized texts, and the type of doubles with their text, are fields too.
  A variant is a datatype of the values the file knows; of another array only the type is left.
\<close>

record ('n, 'x, 'd) xml_env =
  xe_ids :: "'n nid_lib"
  xe_name :: "'x \<Rightarrow> string"
  xe_is_element :: "'x \<Rightarrow> bool"
  xe_attribute :: "'x \<Rightarrow> string \<Rightarrow> string option"
  xe_nodes :: "'x \<Rightarrow> 'x list"
  xe_text :: "'x \<Rightarrow> string"
  xe_element :: "string \<Rightarrow> 'x"
  xe_add_attribute :: "string \<Rightarrow> string \<Rightarrow> 'x \<Rightarrow> 'x"
  xe_append :: "'x \<Rightarrow> 'x \<Rightarrow> 'x"
  xe_set_text :: "string \<Rightarrow> 'x \<Rightarrow> 'x"
  xe_as_bool :: "string \<Rightarrow> bool"
  xe_as_uint :: "string \<Rightarrow> 32 word"
  xe_is_number :: "'d \<Rightarrow> bool"
  xe_double_text :: "'d \<Rightarrow> string"
  xe_parse_double :: "string \<Rightarrow> ('d \<times> string) option"
  xe_to_utf8 :: "string \<Rightarrow> string"
  xe_from_utf8 :: "string \<Rightarrow> string"
  xe_qn_empty :: "string \<times> 16 word \<Rightarrow> bool"
  xe_reload :: "'x \<Rightarrow> 'x"          \<comment> \<open>what \<open>load_file\<close> makes of a node that \<open>save_file\<close> wrote\<close>

section \<open>Strings of the library\<close>

text \<open>A C string ends at its first zero.\<close>

definition c_str :: "string \<Rightarrow> string" where
  "c_str s = takeWhile (\<lambda>c. c \<noteq> CHR 0x00) s"

text \<open>\<open>as_string\<close> of an attribute and of a text, \<open>as_bool\<close> with the default of a missing attribute, and the text of a
  truth value.\<close>

definition attribute_string :: "('n, 'x, 'd) xml_env \<Rightarrow> 'x \<Rightarrow> string \<Rightarrow> string" where
  "attribute_string E x name = (case xe_attribute E x name of None \<Rightarrow> '''' | Some v \<Rightarrow> c_str v)"

definition attribute_bool :: "('n, 'x, 'd) xml_env \<Rightarrow> 'x \<Rightarrow> string \<Rightarrow> bool \<Rightarrow> bool" where
  "attribute_bool E x name dflt = (case xe_attribute E x name of None \<Rightarrow> dflt | Some v \<Rightarrow> xe_as_bool E v)"

definition attribute_uint :: "('n, 'x, 'd) xml_env \<Rightarrow> 'x \<Rightarrow> string \<Rightarrow> 32 word" where
  "attribute_uint E x name = (case xe_attribute E x name of None \<Rightarrow> 0 | Some v \<Rightarrow> xe_as_uint E v)"

definition text_string :: "('n, 'x, 'd) xml_env \<Rightarrow> 'x \<Rightarrow> string" where
  "text_string E x = c_str (xe_text E x)"

definition bool_text :: "bool \<Rightarrow> string" where
  "bool_text b = (if b then ''true'' else ''false'')"

text \<open>The children of a name, and the first of them.\<close>

definition xml_children :: "('n, 'x, 'd) xml_env \<Rightarrow> string \<Rightarrow> 'x \<Rightarrow> 'x list" where
  "xml_children E name x = filter (\<lambda>c. xe_name E c = name) (xe_nodes E x)"

definition xml_child :: "('n, 'x, 'd) xml_env \<Rightarrow> string \<Rightarrow> 'x \<Rightarrow> 'x option" where
  "xml_child E name x = List.find (\<lambda>c. xe_name E c = name) (xe_nodes E x)"

text \<open>
  The texts that a file gives back. The files are read with the default flags of the library: a text of nothing but
  white space is dropped, the ends of lines are unified, and white space in attributes becomes spaces.
\<close>

definition blank :: "char \<Rightarrow> bool" where
  "blank c \<longleftrightarrow> of_char c \<in> {9, 10, 13, 32 :: nat}"

definition solid_text :: "string \<Rightarrow> bool" where
  "solid_text s \<longleftrightarrow> (s = '''' \<or> (\<exists>c \<in> set s. \<not> blank c)) \<and> (\<forall>c \<in> set s. (32 :: nat) \<le> of_char c \<or> of_char c \<in> {9, 10 :: nat})"

definition plain_text :: "string \<Rightarrow> bool" where
  "plain_text s \<longleftrightarrow> (\<forall>c \<in> set s. (32 :: nat) \<le> of_char c)"

lemma solid_c_str [simp]: "solid_text s \<Longrightarrow> c_str s = s"
  by (force simp: solid_text_def c_str_def takeWhile_eq_all_conv)

lemma plain_c_str [simp]: "plain_text s \<Longrightarrow> c_str s = s"
  by (force simp: plain_text_def c_str_def takeWhile_eq_all_conv)

lemma plain_solid:
  assumes "plain_text s" "\<forall>c \<in> set s. c \<noteq> CHR '' ''"
  shows "solid_text s"
proof -
  have "\<not> blank c" if "c \<in> set s" for c
  proof -
    have "(32 :: nat) \<le> of_char c" using assms(1) that by (simp add: plain_text_def)
    moreover have "c \<noteq> CHR '' ''" using assms(2) that by blast
    then have "of_char c \<noteq> (of_char CHR '' '' :: nat)" by (metis of_char_eq_iff)
    ultimately show ?thesis by (simp add: blank_def)
  qed
  then show ?thesis using assms(1) by (cases s) (auto simp: solid_text_def plain_text_def)
qed

section \<open>Names\<close>

fun class_name :: "node_class \<Rightarrow> string" where
  "class_name ObjectClass = ''Object''"
| "class_name VariableClass = ''Variable''"
| "class_name MethodClass = ''Method''"
| "class_name ObjectTypeClass = ''ObjectType''"
| "class_name VariableTypeClass = ''VariableType''"
| "class_name ReferenceTypeClass = ''ReferenceType''"
| "class_name DataTypeClass = ''DataType''"
| "class_name ViewClass = ''View''"

definition class_names :: "(string \<times> node_class) list" where
  "class_names =
     [(''Object'', ObjectClass), (''Variable'', VariableClass), (''Method'', MethodClass),
      (''ObjectType'', ObjectTypeClass), (''VariableType'', VariableTypeClass),
      (''ReferenceType'', ReferenceTypeClass), (''DataType'', DataTypeClass), (''View'', ViewClass)]"

definition parse_node_class :: "string \<Rightarrow> node_class option" where
  "parse_node_class s = map_of class_names s"

datatype variant_type =
  EMPTY | BOOL | INT8 | UINT8 | INT16 | UINT16 | INT32 | UINT32 | INT64 | UINT64 | DOUBLE | BYTE_STRING | STRING
| LOCALIZED_TEXT | NODE_ID | DATE_TIME

fun type_name :: "variant_type \<Rightarrow> string" where
  "type_name BOOL = ''Bool''"
| "type_name INT8 = ''Int8''"
| "type_name UINT8 = ''UInt8''"
| "type_name INT16 = ''Int16''"
| "type_name UINT16 = ''UInt16''"
| "type_name INT32 = ''Int32''"
| "type_name UINT32 = ''UInt32''"
| "type_name INT64 = ''Int64''"
| "type_name UINT64 = ''UInt64''"
| "type_name DOUBLE = ''Double''"
| "type_name BYTE_STRING = ''ByteString''"
| "type_name STRING = ''String''"
| "type_name LOCALIZED_TEXT = ''LocalizedText''"
| "type_name NODE_ID = ''NodeId''"
| "type_name DATE_TIME = ''DateTime''"
| "type_name EMPTY = ''Empty''"

definition type_names :: "(string \<times> variant_type) list" where
  "type_names =
     [(''Bool'', BOOL), (''Int8'', INT8), (''UInt8'', UINT8), (''Int16'', INT16), (''UInt16'', UINT16),
      (''Int32'', INT32), (''UInt32'', UINT32), (''Int64'', INT64), (''UInt64'', UINT64), (''Double'', DOUBLE),
      (''ByteString'', BYTE_STRING), (''String'', STRING), (''LocalizedText'', LOCALIZED_TEXT), (''NodeId'', NODE_ID),
      (''DateTime'', DATE_TIME), (''Empty'', EMPTY)]"

definition parse_variant_type :: "string \<Rightarrow> variant_type option" where
  "parse_variant_type s = map_of type_names s"

lemma parse_class_name [simp]: "parse_node_class (class_name c) = Some c"
  by (cases c) (simp_all add: parse_node_class_def class_names_def)

lemma parse_type_name [simp]: "parse_variant_type (type_name t) = Some t"
  by (cases t) (simp_all add: parse_variant_type_def type_names_def)

lemma c_str_names [simp]: "c_str (class_name c) = class_name c" "c_str (type_name t) = type_name t"
  by (cases c; simp add: c_str_def) (cases t; simp add: c_str_def)

section \<open>Bytes\<close>

definition hex_digit :: "8 word \<Rightarrow> char" where
  "hex_digit d = ''0123456789ABCDEF'' ! unat d"

definition hex_encode :: "8 word list \<Rightarrow> string" where
  "hex_encode bytes = concat (List.map (\<lambda>b. [hex_digit (drop_bit 4 b), hex_digit (and b 15)]) bytes)"

definition hex_value :: "char \<Rightarrow> 8 word option" where
  "hex_value ch = (let c = of_char ch :: nat in
     if 48 \<le> c \<and> c \<le> 57 then Some (of_nat (c - 48))
     else if 65 \<le> c \<and> c \<le> 70 then Some (of_nat (c - 65 + 10))
     else if 97 \<le> c \<and> c \<le> 102 then Some (of_nat (c - 97 + 10))
     else None)"

fun hex_pairs :: "string \<Rightarrow> 8 word list option" where
  "hex_pairs (a # b # s) = do {
     high \<leftarrow> hex_value a;
     low \<leftarrow> hex_value b;
     rest \<leftarrow> hex_pairs s;
     Some (or (push_bit 4 high) low # rest)
   }"
| "hex_pairs s = Some []"

definition hex_decode :: "string \<Rightarrow> 8 word list option" where
  "hex_decode s = (if length s mod 2 \<noteq> 0 then None else hex_pairs s)"

lemma hex_value_digit: "d < 16 \<Longrightarrow> hex_value (''0123456789ABCDEF'' ! d) = Some (of_nat d)"
proof -
  assume "d < 16"
  then have "d \<in> set [0..<16]" by simp
  moreover have "list_all (\<lambda>d. hex_value (''0123456789ABCDEF'' ! d) = Some (of_nat d)) [0..<16]" by code_simp
  ultimately show ?thesis unfolding list_all_iff by blast
qed

lemma hex_byte:
  fixes b :: "8 word"
  shows "hex_value (hex_digit (drop_bit 4 b)) = Some (drop_bit 4 b)" "hex_value (hex_digit (and b 15)) = Some (and b 15)"
    "or (push_bit 4 (drop_bit 4 b)) (and b 15) = b"
proof -
  have "unat (drop_bit 4 b) = drop_bit 4 (unat b)"
    using unsigned_less [of b, where 'a = nat] by (simp add: unsigned_drop_bit_eq take_bit_eq_mod)
  then have h: "unat (drop_bit 4 b) < 16"
    using unsigned_less [of b, where 'a = nat] by (simp only: drop_bit_eq_div) simp
  have l: "and b 15 = take_bit 4 b" by (simp add: take_bit_eq_mask mask_numeral)
  have "unat (and b 15) = take_bit 4 (unat b)" by (simp add: l unsigned_take_bit_eq)
  then have l2: "unat (and b 15) < 16" by (simp only: take_bit_eq_mod) simp
  show "hex_value (hex_digit (drop_bit 4 b)) = Some (drop_bit 4 b)"
    unfolding hex_digit_def hex_value_digit [OF h] by simp
  show "hex_value (hex_digit (and b 15)) = Some (and b 15)"
    unfolding hex_digit_def hex_value_digit [OF l2] by simp
  show "or (push_bit 4 (drop_bit 4 b)) (and b 15) = b"
    unfolding l by (rule bit_word_eqI) (auto simp: bit_simps)
qed

lemma hex_pairs_encode: "hex_pairs (hex_encode bytes) = Some bytes"
  by (induction bytes) (simp_all add: hex_encode_def hex_byte)

lemma hex_round_trip: "hex_decode (hex_encode bytes) = Some bytes"
proof -
  have "length (hex_encode bytes) = 2 * length bytes" by (induction bytes) (simp_all add: hex_encode_def)
  then show ?thesis by (simp add: hex_decode_def hex_pairs_encode)
qed

lemma c_str_hex [simp]: "c_str (hex_encode bytes) = hex_encode bytes"
proof -
  have d: "hex_digit b \<noteq> CHR 0x00" if "hex_value (hex_digit b) \<noteq> None" for b
    using that by (auto simp: hex_value_def)
  have "CHR 0x00 \<notin> set (hex_encode bytes)"
    by (auto simp: hex_encode_def) (metis d hex_byte option.distinct(1))+
  then show ?thesis by (auto simp: c_str_def takeWhile_eq_all_conv)
qed

section \<open>Numbers\<close>

text \<open>\<open>std::format\<close> of a signed number, and \<open>std::from_chars\<close>: a minus for signed types only, as many digits as
  there are, and no result when there is none or the number is out of range. \<open>ParseInteger\<close> wants the whole text.\<close>

definition dec_int :: "int \<Rightarrow> string" where
  "dec_int i = (if i < 0 then CHR ''-'' # dec (nat (- i)) else dec (nat i))"

definition is_digit :: "char \<Rightarrow> bool" where
  "is_digit c \<longleftrightarrow> of_char c \<in> {48..<58::nat}"

definition from_chars :: "int \<Rightarrow> int \<Rightarrow> string \<Rightarrow> (int \<times> string) option" where
  "from_chars lo hi s = (let negative = lo < 0 \<and> s \<noteq> '''' \<and> hd s = CHR ''-'';
     body = if negative then tl s else s in
     case undec (takeWhile is_digit body) of
       None \<Rightarrow> None
     | Some d \<Rightarrow> (let v = if negative then - int d else int d in
         if v < lo \<or> hi < v then None else Some (v, dropWhile is_digit body)))"

definition parse_integer :: "int \<Rightarrow> int \<Rightarrow> string \<Rightarrow> int option" where
  "parse_integer lo hi s = (case from_chars lo hi s of Some (v, rest) \<Rightarrow> if rest = '''' then Some v else None | None \<Rightarrow> None)"

definition parse_signed :: "string \<Rightarrow> 'a::len word option" where
  "parse_signed s = map_option word_of_int (parse_integer (- (2 ^ (LENGTH('a) - 1))) (2 ^ (LENGTH('a) - 1) - 1) s)"

definition parse_unsigned :: "string \<Rightarrow> 'a::len word option" where
  "parse_unsigned s = map_option word_of_int (parse_integer 0 (2 ^ LENGTH('a) - 1) s)"

lemma dec_is_digit: "c \<in> set (dec n) \<Longrightarrow> is_digit c"
  unfolding is_digit_def by (rule dec_digits)

lemma dec_spans [simp]:
  "takeWhile is_digit (dec n) = dec n" "dropWhile is_digit (dec n) = ''''"
  using dec_is_digit by (auto simp: takeWhile_eq_all_conv dropWhile_eq_Nil_conv)

lemma dec_not_minus: "hd (dec n) \<noteq> CHR ''-''"
proof
  assume "hd (dec n) = CHR ''-''"
  then have "is_digit CHR ''-''" using dec_is_digit [OF hd_in_set [OF dec_not_empty, of n]] by simp
  then show False by (simp add: is_digit_def)
qed

lemma parse_integer_dec:
  assumes "lo \<le> i" "i \<le> hi"
  shows "parse_integer lo hi (dec_int i) = Some i"
  using assms dec_not_minus dec_not_empty by (simp add: parse_integer_def from_chars_def dec_int_def Let_def undec_dec)

lemma parse_signed_dec: "parse_signed (dec_int (sint (w :: 'a::len word))) = Some w"
proof -
  have "- (2 ^ (LENGTH('a) - 1)) \<le> sint w" "sint w \<le> 2 ^ (LENGTH('a) - 1) - 1"
    using sint_greater_eq [of w] sint_less [of w] by simp_all
  then show ?thesis by (simp add: parse_signed_def parse_integer_dec)
qed

lemma parse_unsigned_dec: "parse_unsigned (dec (unat (w :: 'a::len word))) = Some w"
proof -
  have "dec (unat w) = dec_int (uint w)" by (simp add: dec_int_def)
  moreover have "uint w \<le> 2 ^ LENGTH('a) - 1" using unsigned_less [of w, where 'a = int] by simp
  ultimately show ?thesis by (simp add: parse_unsigned_def parse_integer_dec)
qed

lemma c_str_id: "CHR 0x00 \<notin> set s \<Longrightarrow> c_str s = s"
  by (auto simp: c_str_def takeWhile_eq_all_conv)

lemma dec_no_zero: "CHR 0x00 \<notin> set (dec n)"
proof
  assume "CHR 0x00 \<in> set (dec n)"
  then have "is_digit CHR 0x00" by (rule dec_is_digit)
  then show False by (simp add: is_digit_def)
qed

lemma c_str_dec [simp]: "c_str (dec n) = dec n" "c_str (dec_int i) = dec_int i"
  using dec_no_zero by (simp_all add: c_str_id dec_int_def)

section \<open>Node ids\<close>

definition parse_node_id :: "'n nid_lib \<Rightarrow> string \<Rightarrow> 'n" where
  "parse_node_id L s = (if s = '''' then nl_null L else node_id_from_scada_string L s)"

definition set_node_id_attribute :: "('n, 'x, 'd) xml_env \<Rightarrow> string \<Rightarrow> 'n \<Rightarrow> 'x \<Rightarrow> 'x" where
  "set_node_id_attribute E name n x =
     (if n \<noteq> nl_null (xe_ids E) then xe_add_attribute E name (node_id_to_scada_string (xe_ids E) n) x else x)"

text \<open>The ids that the file can hold: those whose scada string is read back, with no control character in it.\<close>

definition printable_id :: "'n nid_lib \<Rightarrow> 'n \<Rightarrow> bool" where
  "printable_id L n \<longleftrightarrow> n \<noteq> nl_null L \<and> nl_type L n \<noteq> Opaque
     \<and> (nl_type L n = String \<longrightarrow> CHR ''!'' \<in> set (nl_string_id L n) \<or> nl_parse_id L (nl_string_id L n) = None)
     \<and> plain_text (node_id_to_scada_string L n)"

lemma parse_printed_id:
  assumes "nid_ok L" "printable_id L n"
  shows "parse_node_id L (node_id_to_scada_string L n) = n"
    "c_str (node_id_to_scada_string L n) = node_id_to_scada_string L n"
    "node_id_to_scada_string L n \<noteq> ''''"
proof -
  have r: "node_id_from_scada_string L (node_id_to_scada_string L n) = n"
    using scada_string_round_trip [OF assms(1), of n] assms(2) by (simp add: printable_id_def)
  show "c_str (node_id_to_scada_string L n) = node_id_to_scada_string L n"
    using assms(2) by (simp add: printable_id_def)
  show ne: "node_id_to_scada_string L n \<noteq> ''''"
  proof (cases "node_id_to_predefined L n = ''''")
    case True
    then show ?thesis using assms(2) by (cases "nl_type L n") (auto simp: node_id_to_scada_string_def printable_id_def Let_def)
  qed (simp add: node_id_to_scada_string_def)
  then show "parse_node_id L (node_id_to_scada_string L n) = n" using r by (simp add: parse_node_id_def)
qed

section \<open>Variants\<close>

text \<open>Only the type of another array is kept: none of them can be written.\<close>

datatype ('n, 'd) variant =
  Var_Empty | Var_Bool bool
| Var_Int8 "8 word" | Var_UInt8 "8 word" | Var_Int16 "16 word" | Var_UInt16 "16 word"
| Var_Int32 "32 word" | Var_UInt32 "32 word" | Var_Int64 "64 word" | Var_UInt64 "64 word"
| Var_Double 'd | Var_Byte_String "8 word list" | Var_String string | Var_Localized_Text string
| Var_Node_Id 'n | Var_Date_Time "64 word"
| Var_Byte_Strings "8 word list list" | Var_Strings "string list" | Var_Localized_Texts "string list"
| Var_Node_Ids "'n list" | Var_Other_Array variant_type

fun variant_type_of :: "('n, 'd) variant \<Rightarrow> variant_type" where
  "variant_type_of Var_Empty = EMPTY"
| "variant_type_of (Var_Bool _) = BOOL"
| "variant_type_of (Var_Int8 _) = INT8"
| "variant_type_of (Var_UInt8 _) = UINT8"
| "variant_type_of (Var_Int16 _) = INT16"
| "variant_type_of (Var_UInt16 _) = UINT16"
| "variant_type_of (Var_Int32 _) = INT32"
| "variant_type_of (Var_UInt32 _) = UINT32"
| "variant_type_of (Var_Int64 _) = INT64"
| "variant_type_of (Var_UInt64 _) = UINT64"
| "variant_type_of (Var_Double _) = DOUBLE"
| "variant_type_of (Var_Byte_String _) = BYTE_STRING"
| "variant_type_of (Var_String _) = STRING"
| "variant_type_of (Var_Localized_Text _) = LOCALIZED_TEXT"
| "variant_type_of (Var_Node_Id _) = NODE_ID"
| "variant_type_of (Var_Date_Time _) = DATE_TIME"
| "variant_type_of (Var_Byte_Strings _) = BYTE_STRING"
| "variant_type_of (Var_Strings _) = STRING"
| "variant_type_of (Var_Localized_Texts _) = LOCALIZED_TEXT"
| "variant_type_of (Var_Node_Ids _) = NODE_ID"
| "variant_type_of (Var_Other_Array t) = t"

fun is_array :: "('n, 'd) variant \<Rightarrow> bool" where
  "is_array (Var_Byte_Strings _) = True"
| "is_array (Var_Strings _) = True"
| "is_array (Var_Localized_Texts _) = True"
| "is_array (Var_Node_Ids _) = True"
| "is_array (Var_Other_Array _) = True"
| "is_array _ = False"

definition append_array_values :: "('n, 'x, 'd) xml_env \<Rightarrow> string list \<Rightarrow> 'x \<Rightarrow> 'x" where
  "append_array_values E texts x = fold (\<lambda>t. xe_append E (xe_set_text E t (xe_element E ''Value''))) texts x"

text \<open>The contents of a value: the text of a scalar, the \<open>Value\<close> children of an array.\<close>

fun write_contents :: "('n, 'x, 'd) xml_env \<Rightarrow> ('n, 'd) variant \<Rightarrow> 'x \<Rightarrow> status + 'x" where
  "write_contents E Var_Empty x = Inr x"
| "write_contents E (Var_Bool b) x = Inr (xe_set_text E (bool_text b) x)"
| "write_contents E (Var_Int8 w) x = Inr (xe_set_text E (c_str (dec_int (sint w))) x)"
| "write_contents E (Var_UInt8 w) x = Inr (xe_set_text E (c_str (dec (unat w))) x)"
| "write_contents E (Var_Int16 w) x = Inr (xe_set_text E (c_str (dec_int (sint w))) x)"
| "write_contents E (Var_UInt16 w) x = Inr (xe_set_text E (c_str (dec (unat w))) x)"
| "write_contents E (Var_Int32 w) x = Inr (xe_set_text E (c_str (dec_int (sint w))) x)"
| "write_contents E (Var_UInt32 w) x = Inr (xe_set_text E (c_str (dec (unat w))) x)"
| "write_contents E (Var_Int64 w) x = Inr (xe_set_text E (c_str (dec_int (sint w))) x)"
| "write_contents E (Var_UInt64 w) x = Inr (xe_set_text E (c_str (dec (unat w))) x)"
| "write_contents E (Var_Double d) x = Inr (xe_set_text E (xe_double_text E d) x)"
| "write_contents E (Var_Byte_String b) x = Inr (xe_set_text E (c_str (hex_encode b)) x)"
| "write_contents E (Var_String s) x = Inr (xe_set_text E (c_str s) x)"
| "write_contents E (Var_Localized_Text t) x = Inr (xe_set_text E (c_str (xe_to_utf8 E t)) x)"
| "write_contents E (Var_Node_Id n) x = Inr (xe_set_text E (c_str (node_id_to_scada_string (xe_ids E) n)) x)"
| "write_contents E (Var_Date_Time t) x = Inr (xe_set_text E (c_str (dec_int (sint t))) x)"
| "write_contents E (Var_Byte_Strings bs) x = Inr (append_array_values E (List.map (c_str \<circ> hex_encode) bs) x)"
| "write_contents E (Var_Strings ss) x = Inr (append_array_values E (List.map c_str ss) x)"
| "write_contents E (Var_Localized_Texts ts) x = Inr (append_array_values E (List.map (c_str \<circ> xe_to_utf8 E) ts) x)"
| "write_contents E (Var_Node_Ids ns) x =
     Inr (append_array_values E (List.map (c_str \<circ> node_id_to_scada_string (xe_ids E)) ns) x)"
| "write_contents E (Var_Other_Array _) x = Inl BadWrongTypeId"

definition write_variant :: "('n, 'x, 'd) xml_env \<Rightarrow> ('n, 'd) variant \<Rightarrow> 'x \<Rightarrow> status + 'x" where
  "write_variant E v x =
     (let x1 = xe_add_attribute E ''type'' (c_str (type_name (variant_type_of v))) x;
          x2 = if is_array v then xe_add_attribute E ''array'' (bool_text True) x1 else x1
      in write_contents E v x2)"

fun read_scalar_variant :: "('n, 'x, 'd) xml_env \<Rightarrow> variant_type \<Rightarrow> string \<Rightarrow> ('n, 'd) variant option" where
  "read_scalar_variant E EMPTY s = Some Var_Empty"
| "read_scalar_variant E BOOL s = Some (Var_Bool (s = ''true'' \<or> s = ''1''))"
| "read_scalar_variant E INT8 s = map_option Var_Int8 (parse_signed s)"
| "read_scalar_variant E UINT8 s = map_option Var_UInt8 (parse_unsigned s)"
| "read_scalar_variant E INT16 s = map_option Var_Int16 (parse_signed s)"
| "read_scalar_variant E UINT16 s = map_option Var_UInt16 (parse_unsigned s)"
| "read_scalar_variant E INT32 s = map_option Var_Int32 (parse_signed s)"
| "read_scalar_variant E UINT32 s = map_option Var_UInt32 (parse_unsigned s)"
| "read_scalar_variant E INT64 s = map_option Var_Int64 (parse_signed s)"
| "read_scalar_variant E UINT64 s = map_option Var_UInt64 (parse_unsigned s)"
| "read_scalar_variant E DOUBLE s =
     (case xe_parse_double E s of Some (d, rest) \<Rightarrow> if rest = '''' then Some (Var_Double d) else None | None \<Rightarrow> None)"
| "read_scalar_variant E BYTE_STRING s = map_option Var_Byte_String (hex_decode s)"
| "read_scalar_variant E STRING s = Some (Var_String s)"
| "read_scalar_variant E LOCALIZED_TEXT s = Some (Var_Localized_Text (xe_from_utf8 E s))"
| "read_scalar_variant E NODE_ID s = Some (Var_Node_Id (parse_node_id (xe_ids E) s))"
| "read_scalar_variant E DATE_TIME s = map_option Var_Date_Time (parse_signed s)"

text \<open>All results of a list, or none.\<close>

fun hex_decode_all :: "string list \<Rightarrow> 8 word list list option" where
  "hex_decode_all [] = Some []"
| "hex_decode_all (s # ss) = do { b \<leftarrow> hex_decode s; bs \<leftarrow> hex_decode_all ss; Some (b # bs) }"

definition value_texts :: "('n, 'x, 'd) xml_env \<Rightarrow> 'x \<Rightarrow> string list" where
  "value_texts E x = List.map (text_string E) (xml_children E ''Value'' x)"

definition read_array_variant :: "('n, 'x, 'd) xml_env \<Rightarrow> variant_type \<Rightarrow> 'x \<Rightarrow> ('n, 'd) variant option" where
  "read_array_variant E ty x =
     (case ty of
        STRING \<Rightarrow> Some (Var_Strings (value_texts E x))
      | BYTE_STRING \<Rightarrow> map_option Var_Byte_Strings (hex_decode_all (value_texts E x))
      | LOCALIZED_TEXT \<Rightarrow> Some (Var_Localized_Texts (List.map (xe_from_utf8 E) (value_texts E x)))
      | NODE_ID \<Rightarrow> Some (Var_Node_Ids (List.map (parse_node_id (xe_ids E)) (value_texts E x)))
      | _ \<Rightarrow> None)"

definition read_variant :: "('n, 'x, 'd) xml_env \<Rightarrow> 'x \<Rightarrow> status + ('n, 'd) variant" where
  "read_variant E x =
     (case parse_variant_type (attribute_string E x ''type'') of
        None \<Rightarrow> Inl BadWrongTypeId
      | Some ty \<Rightarrow>
          (case (if attribute_bool E x ''array'' False then read_array_variant E ty x
                 else read_scalar_variant E ty (text_string E x)) of
             None \<Rightarrow> Inl BadCantParseString
           | Some v \<Rightarrow> Inr v))"

section \<open>What is relied on\<close>

text \<open>The documented behaviour of the library: an attribute is found by its name, the first of several; elements stay in
  the order they are appended in; a text is what was set, and setting one adds no child with a name. What was printed
  from a truth value or a number is read back, and so is a text from UTF-8. A qualified name without a name in the
  namespace 0 is empty, one with a name is not. A file that was saved is loaded with the same elements in the same order,
  without the declaration; attributes without control characters, and texts without them that are not blank, are loaded
  as they were.\<close>

definition xml_ok :: "('n, 'x, 'd) xml_env \<Rightarrow> bool" where
  "xml_ok E \<longleftrightarrow> nid_ok (xe_ids E)
   \<and> (\<forall>t a. xe_name E (xe_element E t) = t \<and> xe_attribute E (xe_element E t) a = None \<and> xe_nodes E (xe_element E t) = []
        \<and> xe_text E (xe_element E t) = '''')
   \<and> (\<forall>a v x b. xe_name E (xe_add_attribute E a v x) = xe_name E x \<and> xe_nodes E (xe_add_attribute E a v x) = xe_nodes E x
        \<and> xe_text E (xe_add_attribute E a v x) = xe_text E x
        \<and> xe_attribute E (xe_add_attribute E a v x) b =
            (case xe_attribute E x b of Some w \<Rightarrow> Some w | None \<Rightarrow> if b = a then Some v else None))
   \<and> (\<forall>c x a. xe_name E (xe_append E c x) = xe_name E x \<and> xe_attribute E (xe_append E c x) a = xe_attribute E x a
        \<and> xe_nodes E (xe_append E c x) = xe_nodes E x @ [c])
   \<and> (\<forall>s x a. xe_name E (xe_set_text E s x) = xe_name E x \<and> xe_attribute E (xe_set_text E s x) a = xe_attribute E x a
        \<and> xe_text E (xe_set_text E s x) = s)
   \<and> (\<forall>s x t. t \<noteq> '''' \<longrightarrow> xml_children E t (xe_set_text E s x) = xml_children E t x)
   \<and> (\<forall>b. xe_as_bool E (bool_text b) = b) \<and> (\<forall>w :: 16 word. xe_as_uint E (dec (unat w)) = ucast w)
   \<and> (\<forall>d. xe_is_number E d \<longrightarrow> xe_parse_double E (xe_double_text E d) = Some (d, '''') \<and> solid_text (xe_double_text E d))
   \<and> (\<forall>t. xe_from_utf8 E (xe_to_utf8 E t) = t) \<and> xe_from_utf8 E '''' = ''''
   \<and> xe_qn_empty E ('''', 0) \<and> (\<forall>s ns. s \<noteq> '''' \<longrightarrow> \<not> xe_qn_empty E (s, ns))
   \<and> (\<forall>x a. (\<forall>v. xe_attribute E x a = Some v \<longrightarrow> plain_text v) \<longrightarrow> xe_attribute E (xe_reload E x) a = xe_attribute E x a)
   \<and> (\<forall>x. solid_text (xe_text E x) \<longrightarrow> xe_text E (xe_reload E x) = xe_text E x)
   \<and> (\<forall>x t. t \<notin> {'''', ''xml''} \<longrightarrow> xml_children E t (xe_reload E x) = List.map (xe_reload E) (xml_children E t x))"

lemma xml_okD:
  assumes "xml_ok E"
  shows "nid_ok (xe_ids E)" "xe_name E (xe_element E t) = t" "xe_attribute E (xe_element E t) a = None"
    "xe_nodes E (xe_element E t) = []" "xe_name E (xe_add_attribute E a v x) = xe_name E x"
    "xe_nodes E (xe_add_attribute E a v x) = xe_nodes E x" "xe_text E (xe_add_attribute E a v x) = xe_text E x"
    "xe_attribute E (xe_add_attribute E a v x) b =
       (case xe_attribute E x b of Some w \<Rightarrow> Some w | None \<Rightarrow> if b = a then Some v else None)"
    "xe_name E (xe_append E c x) = xe_name E x" "xe_attribute E (xe_append E c x) a = xe_attribute E x a"
    "xe_nodes E (xe_append E c x) = xe_nodes E x @ [c]" "xe_name E (xe_set_text E s x) = xe_name E x"
    "xe_attribute E (xe_set_text E s x) a = xe_attribute E x a" "xe_text E (xe_set_text E s x) = s"
    "t \<noteq> '''' \<Longrightarrow> xml_children E t (xe_set_text E s x) = xml_children E t x"
    "xe_as_bool E (bool_text b') = b'" "xe_as_uint E (dec (unat (w :: 16 word))) = ucast w"
    "xe_is_number E d \<Longrightarrow> xe_parse_double E (xe_double_text E d) = Some (d, '''')"
    "xe_is_number E d \<Longrightarrow> solid_text (xe_double_text E d)"
    "xe_from_utf8 E (xe_to_utf8 E s) = s" "xe_from_utf8 E '''' = ''''" "xe_text E (xe_element E t) = ''''"
    "xe_qn_empty E ('''', 0)" "s \<noteq> '''' \<Longrightarrow> \<not> xe_qn_empty E (s, ns)"
    "(\<And>v. xe_attribute E x a = Some v \<Longrightarrow> plain_text v) \<Longrightarrow> xe_attribute E (xe_reload E x) a = xe_attribute E x a"
    "solid_text (xe_text E x) \<Longrightarrow> xe_text E (xe_reload E x) = xe_text E x"
    "t \<noteq> '''' \<Longrightarrow> t \<noteq> ''xml'' \<Longrightarrow> xml_children E t (xe_reload E x) = List.map (xe_reload E) (xml_children E t x)"
  using assms unfolding xml_ok_def by simp_all

section \<open>Variants are read back\<close>

text \<open>The variants that the file can hold and give back.\<close>

fun printable_variant :: "('n, 'x, 'd) xml_env \<Rightarrow> ('n, 'd) variant \<Rightarrow> bool" where
  "printable_variant E (Var_Double d) = xe_is_number E d"
| "printable_variant E (Var_String s) = solid_text s"
| "printable_variant E (Var_Localized_Text t) = solid_text (xe_to_utf8 E t)"
| "printable_variant E (Var_Node_Id n) = (printable_id (xe_ids E) n \<and> solid_text (node_id_to_scada_string (xe_ids E) n))"
| "printable_variant E (Var_Strings ss) = (\<forall>s \<in> set ss. solid_text s)"
| "printable_variant E (Var_Localized_Texts ts) = (\<forall>t \<in> set ts. solid_text (xe_to_utf8 E t))"
| "printable_variant E (Var_Node_Ids ns) =
     (\<forall>n \<in> set ns. printable_id (xe_ids E) n \<and> solid_text (node_id_to_scada_string (xe_ids E) n))"
| "printable_variant E (Var_Other_Array _) = False"
| "printable_variant E _ = True"

lemma append_array_values_simps:
  assumes "xml_ok E"
  shows "xe_attribute E (append_array_values E texts x) a = xe_attribute E x a"
    "xe_name E (append_array_values E texts x) = xe_name E x"
    "value_texts E (append_array_values E texts x) = value_texts E x @ List.map c_str texts"
proof -
  note D = xml_okD [OF assms]
  show "xe_attribute E (append_array_values E texts x) a = xe_attribute E x a"
    "xe_name E (append_array_values E texts x) = xe_name E x"
    by (induction texts arbitrary: x) (simp_all add: append_array_values_def D)
  show "value_texts E (append_array_values E texts x) = value_texts E x @ List.map c_str texts"
  proof (induction texts arbitrary: x)
    case (Cons t ts)
    have "append_array_values E (t # ts) x = append_array_values E ts (xe_append E (xe_set_text E t (xe_element E ''Value'')) x)"
      by (simp add: append_array_values_def)
    moreover have "value_texts E (xe_append E (xe_set_text E t (xe_element E ''Value'')) x) = value_texts E x @ [c_str t]"
      by (simp add: value_texts_def xml_children_def text_string_def D)
    ultimately show ?case using Cons.IH by simp
  qed (simp add: append_array_values_def)
qed

lemma write_contents_keeps:
  assumes "xml_ok E" "write_contents E v x = Inr y"
  shows "xe_attribute E y a = xe_attribute E x a" "xe_name E y = xe_name E x"
  using assms(2) xml_okD(13) [OF assms(1)] xml_okD(12) [OF assms(1)] append_array_values_simps [OF assms(1)]
  by (cases v; auto)+

lemma hex_decode_all_encode: "hex_decode_all (List.map hex_encode bs) = Some bs"
  by (induction bs) (simp_all add: hex_round_trip)

lemma c_str_c_str [simp]: "c_str (c_str s) = c_str s"
  by (simp add: c_str_def takeWhile_idem)

lemma contents_scalar:
  assumes ok: "xml_ok E" and p: "printable_variant E v" "\<not> is_array v" and w: "write_contents E v x = Inr y"
  shows "read_scalar_variant E (variant_type_of v) (text_string E y) = Some v"
proof -
  note D = xml_okD [OF ok]
  have "c_str (bool_text b) = bool_text b" "bool_text b = ''1'' \<longleftrightarrow> False" "bool_text b = ''true'' \<longleftrightarrow> b" for b
    by (simp_all add: bool_text_def c_str_def)
  then show ?thesis
    using p w D by (cases v)
      (auto simp: text_string_def parse_signed_dec parse_unsigned_dec hex_round_trip parse_printed_id c_str_id)
qed

lemma contents_array:
  assumes ok: "xml_ok E" and p: "printable_variant E v" "is_array v" and w: "write_contents E v x = Inr y"
    and x: "value_texts E x = []"
  shows "read_array_variant E (variant_type_of v) y = Some v"
proof -
  note D = xml_okD [OF ok] and A = append_array_values_simps [OF ok]
  have "List.map (parse_node_id (xe_ids E) \<circ> (c_str \<circ> (c_str \<circ> node_id_to_scada_string (xe_ids E)))) ns = ns"
    if "\<forall>n \<in> set ns. printable_id (xe_ids E) n" for ns
    using that by (auto intro!: map_idI simp: parse_printed_id [OF D(1)])
  then show ?thesis
    using p w x D by (cases v)
      (auto simp: read_array_variant_def A comp_def hex_decode_all_encode [unfolded comp_def] c_str_id intro!: map_idI)
qed

lemma write_variant_keeps:
  assumes "xml_ok E" "write_variant E v x = Inr y"
  shows "a \<notin> {''type'', ''array''} \<Longrightarrow> xe_attribute E y a = xe_attribute E x a" "xe_name E y = xe_name E x"
  using write_contents_keeps [OF assms(1) assms(2) [unfolded write_variant_def Let_def]] xml_okD(5,8) [OF assms(1)]
  by (auto split: option.splits)

lemma write_variant_returns:
  "printable_variant E v \<Longrightarrow> \<exists>y. write_variant E v x = Inr y"
  by (cases v) (simp_all add: write_variant_def Let_def)

lemma variant_round_trip:
  assumes ok: "xml_ok E" and p: "printable_variant E v"
    and x: "xe_attribute E x ''type'' = None" "xe_attribute E x ''array'' = None" "value_texts E x = []"
    and w: "write_variant E v x = Inr y"
  shows "read_variant E y = Inr v"
proof -
  note D = xml_okD [OF ok]
  define x2 where "x2 = (if is_array v
    then xe_add_attribute E ''array'' (bool_text True) (xe_add_attribute E ''type'' (c_str (type_name (variant_type_of v))) x)
    else xe_add_attribute E ''type'' (c_str (type_name (variant_type_of v))) x)"
  have w2: "write_contents E v x2 = Inr y" using w unfolding write_variant_def x2_def Let_def .
  note K = write_contents_keeps [OF ok w2]
  have a: "xe_attribute E y ''type'' = Some (type_name (variant_type_of v))"
    "xe_attribute E y ''array'' = (if is_array v then Some (bool_text True) else None)"
    using x(1,2) by (simp_all add: K x2_def D)
  have t: "value_texts E x2 = []" using x(3) by (simp add: value_texts_def xml_children_def x2_def D)
  have "parse_variant_type (attribute_string E y ''type'') = Some (variant_type_of v)"
    by (simp add: attribute_string_def a)
  moreover have "attribute_bool E y ''array'' False = is_array v" by (simp add: attribute_bool_def a D)
  ultimately show ?thesis
    using contents_scalar [OF ok p _ w2] contents_array [OF ok p _ w2 t] by (simp add: read_variant_def)
qed

end
