(* ===== verification/Space_Xml.thy ===== *)
theory Space_Xml
  imports Variant_Xml Node_Sort Node_Factory "HOL-Library.List_Lexorder" "HOL-Library.Char_ord"
begin

text \<open>
  The other parts of \<open>address_space/address_space_xml.cpp\<close>: node states in XML, and the address space they are loaded
  into and saved from. An error is the left side of a sum; a state whose reading failed is not used.
\<close>

section \<open>Node states\<close>

record 'n file_reference =
  fr_type :: 'n
  fr_forward :: bool
  fr_node :: 'n
  fr_node_class :: node_class

record ('n, 'd) file_state =
  fs_node_id :: 'n
  fs_node_class :: node_class
  fs_type_definition_id :: 'n
  fs_parent_id :: 'n
  fs_reference_type_id :: 'n
  fs_browse_name :: "string \<times> 16 word"
  fs_display_name :: string
  fs_inverse_name :: string
  fs_data_type :: 'n
  fs_value :: "('n, 'd) variant option"
  fs_properties :: "('n \<times> ('n, 'd) variant) list"
  fs_references :: "'n file_reference list"
  fs_supertype_id :: 'n

definition set_qualified_name :: "('n, 'x, 'd) xml_env \<Rightarrow> string \<Rightarrow> string \<times> 16 word \<Rightarrow> 'x \<Rightarrow> 'x" where
  "set_qualified_name E pre q x =
     (if xe_qn_empty E q then x
      else let x1 = xe_add_attribute E (pre @ ''Name'') (fst q) x in
        if snd q \<noteq> 0 then xe_add_attribute E (pre @ ''Namespace'') (dec (unat (snd q))) x1 else x1)"

definition read_qualified_name :: "('n, 'x, 'd) xml_env \<Rightarrow> string \<Rightarrow> 'x \<Rightarrow> string \<times> 16 word" where
  "read_qualified_name E pre x =
     (case xe_attribute E x (pre @ ''Name'') of
        None \<Rightarrow> ('''', 0)
      | Some v \<Rightarrow> (c_str v, ucast (attribute_uint E x (pre @ ''Namespace''))))"

text \<open>A text that is written when it is not empty.\<close>

definition set_name_attribute :: "('n, 'x, 'd) xml_env \<Rightarrow> string \<Rightarrow> string \<Rightarrow> 'x \<Rightarrow> 'x" where
  "set_name_attribute E name t x = (if t \<noteq> '''' then xe_add_attribute E name (c_str (xe_to_utf8 E t)) x else x)"

definition write_attributes :: "('n, 'x, 'd) xml_env \<Rightarrow> ('n, 'd) file_state \<Rightarrow> 'x \<Rightarrow> 'x" where
  "write_attributes E s x0 = (let
     x1 = xe_add_attribute E ''id'' (node_id_to_scada_string (xe_ids E) (fs_node_id s)) x0;
     x2 = xe_add_attribute E ''class'' (c_str (class_name (fs_node_class s))) x1;
     x3 = set_node_id_attribute E ''typeDefinition'' (fs_type_definition_id s) x2;
     x4 = set_node_id_attribute E ''parent'' (fs_parent_id s) x3;
     x5 = set_node_id_attribute E ''parentReference'' (fs_reference_type_id s) x4;
     x6 = set_node_id_attribute E ''supertype'' (fs_supertype_id s) x5;
     x7 = set_qualified_name E ''browse'' (fs_browse_name s) x6;
     x8 = set_name_attribute E ''displayName'' (fs_display_name s) x7;
     x9 = set_name_attribute E ''inverseName'' (fs_inverse_name s) x8
   in set_node_id_attribute E ''dataType'' (fs_data_type s) x9)"

definition write_value :: "('n, 'x, 'd) xml_env \<Rightarrow> ('n, 'd) variant option \<Rightarrow> 'x \<Rightarrow> status + 'x" where
  "write_value E v x =
     (case v of
        None \<Rightarrow> Inr x
      | Some v \<Rightarrow> map_sum id (\<lambda>c. xe_append E c x) (write_variant E v (xe_element E ''AttributeValue'')))"

fun write_properties :: "('n, 'x, 'd) xml_env \<Rightarrow> ('n \<times> ('n, 'd) variant) list \<Rightarrow> 'x \<Rightarrow> status + 'x" where
  "write_properties E [] x = Inr x"
| "write_properties E (p # ps) x =
     (case write_variant E (snd p) (set_node_id_attribute E ''id'' (fst p) (xe_element E ''Property'')) of
        Inl e \<Rightarrow> Inl e
      | Inr c \<Rightarrow> write_properties E ps (xe_append E c x))"

definition write_reference :: "('n, 'x, 'd) xml_env \<Rightarrow> 'n file_reference \<Rightarrow> 'x" where
  "write_reference E r =
     xe_add_attribute E ''targetClass'' (c_str (class_name (fr_node_class r)))
       (set_node_id_attribute E ''target'' (fr_node r)
         (xe_add_attribute E ''forward'' (bool_text (fr_forward r))
           (set_node_id_attribute E ''type'' (fr_type r) (xe_element E ''Reference''))))"

definition write_references :: "('n, 'x, 'd) xml_env \<Rightarrow> 'n file_reference list \<Rightarrow> 'x \<Rightarrow> 'x" where
  "write_references E rs x = fold (\<lambda>r. xe_append E (write_reference E r)) rs x"

definition write_node_state :: "('n, 'x, 'd) xml_env \<Rightarrow> ('n, 'd) file_state \<Rightarrow> 'x \<Rightarrow> status + 'x" where
  "write_node_state E s parent =
     (case write_value E (fs_value s) (write_attributes E s (xe_element E ''Node'')) of
        Inl e \<Rightarrow> Inl e
      | Inr x1 \<Rightarrow>
          (case write_properties E (fs_properties s) x1 of
             Inl e \<Rightarrow> Inl e
           | Inr x2 \<Rightarrow> Inr (xe_append E (write_references E (fs_references s) x2) parent)))"

section \<open>Reading a node state\<close>

definition id_attribute :: "('n, 'x, 'd) xml_env \<Rightarrow> 'x \<Rightarrow> string \<Rightarrow> 'n" where
  "id_attribute E x name = parse_node_id (xe_ids E) (attribute_string E x name)"

definition read_value :: "('n, 'x, 'd) xml_env \<Rightarrow> 'x \<Rightarrow> status + ('n, 'd) variant option" where
  "read_value E x =
     (case xml_child E ''AttributeValue'' x of
        None \<Rightarrow> Inr None
      | Some c \<Rightarrow> map_sum id Some (read_variant E c))"

fun read_properties :: "('n, 'x, 'd) xml_env \<Rightarrow> 'x list \<Rightarrow> status + ('n \<times> ('n, 'd) variant) list" where
  "read_properties E [] = Inr []"
| "read_properties E (c # cs) =
     (if id_attribute E c ''id'' = nl_null (xe_ids E) then Inl BadWrongPropertyId
      else case read_variant E c of
        Inl e \<Rightarrow> Inl e
      | Inr v \<Rightarrow> map_sum id (\<lambda>ps. (id_attribute E c ''id'', v) # ps) (read_properties E cs))"

fun read_references :: "('n, 'x, 'd) xml_env \<Rightarrow> 'x list \<Rightarrow> status + 'n file_reference list" where
  "read_references E [] = Inr []"
| "read_references E (c # cs) =
     (case parse_node_class (attribute_string E c ''targetClass'') of
        None \<Rightarrow> Inl BadWrongNodeClass
      | Some target_class \<Rightarrow>
          map_sum id (\<lambda>rs. \<lparr>fr_type = id_attribute E c ''type'', fr_forward = attribute_bool E c ''forward'' True,
            fr_node = id_attribute E c ''target'', fr_node_class = target_class\<rparr> # rs) (read_references E cs))"

definition read_node_state :: "('n, 'x, 'd) xml_env \<Rightarrow> 'x \<Rightarrow> status + ('n, 'd) file_state" where
  "read_node_state E x =
     (if id_attribute E x ''id'' = nl_null (xe_ids E) then Inl BadWrongNodeId
      else case parse_node_class (attribute_string E x ''class'') of
        None \<Rightarrow> Inl BadWrongNodeClass
      | Some c \<Rightarrow>
          (case read_value E x of
             Inl e \<Rightarrow> Inl e
           | Inr v \<Rightarrow>
               (case read_properties E (xml_children E ''Property'' x) of
                  Inl e \<Rightarrow> Inl e
                | Inr ps \<Rightarrow>
                    (case read_references E (xml_children E ''Reference'' x) of
                       Inl e \<Rightarrow> Inl e
                     | Inr rs \<Rightarrow>
                         Inr \<lparr>fs_node_id = id_attribute E x ''id'', fs_node_class = c,
                           fs_type_definition_id = id_attribute E x ''typeDefinition'',
                           fs_parent_id = id_attribute E x ''parent'',
                           fs_reference_type_id = id_attribute E x ''parentReference'',
                           fs_browse_name = read_qualified_name E ''browse'' x,
                           fs_display_name = xe_from_utf8 E (attribute_string E x ''displayName''),
                           fs_inverse_name = xe_from_utf8 E (attribute_string E x ''inverseName''),
                           fs_data_type = id_attribute E x ''dataType'', fs_value = v, fs_properties = ps,
                           fs_references = rs, fs_supertype_id = id_attribute E x ''supertype''\<rparr>))))"

text \<open>A document is the element that holds its root; \<open>ParseNodeStates\<close> appends to what it is given.\<close>

fun read_node_states :: "('n, 'x, 'd) xml_env \<Rightarrow> 'x list \<Rightarrow> ('n, 'd) file_state list \<Rightarrow> status + ('n, 'd) file_state list" where
  "read_node_states E [] out = Inr out"
| "read_node_states E (x # xs) out =
     (case read_node_state E x of Inl e \<Rightarrow> Inl e | Inr s \<Rightarrow> read_node_states E xs (out @ [s]))"

definition parse_node_states ::
    "('n, 'x, 'd) xml_env \<Rightarrow> 'x \<Rightarrow> ('n, 'd) file_state list \<Rightarrow> status + ('n, 'd) file_state list" where
  "parse_node_states E doc out =
     (case xml_child E ''AddressSpace'' doc of
        None \<Rightarrow> Inl BadCantParseString
      | Some r \<Rightarrow> read_node_states E (xml_children E ''Node'' r) out)"

section \<open>Parents through other reference types\<close>

text \<open>\<open>PromoteHierarchicalParents\<close>: the supertypes of the reference types that are read, the first of several entries,
  and a walk of at most 64 steps over them.\<close>

definition reference_supertypes :: "('n, 'd) file_state list \<Rightarrow> 'n \<Rightarrow> 'n option" where
  "reference_supertypes ss =
     map_of (List.map (\<lambda>s. (fs_node_id s, fs_supertype_id s)) (filter (\<lambda>s. fs_node_class s = ReferenceTypeClass) ss))"

fun hierarchical_walk :: "'n ua \<Rightarrow> ('n \<Rightarrow> 'n option) \<Rightarrow> nat \<Rightarrow> 'n \<Rightarrow> bool" where
  "hierarchical_walk U supers 0 n = False"
| "hierarchical_walk U supers (Suc k) n =
     (if n = ua_null U then False
      else if n = hierarchical_references U then True
      else case supers n of None \<Rightarrow> False | Some t \<Rightarrow> hierarchical_walk U supers k t)"

definition is_hierarchical :: "'n ua \<Rightarrow> ('n \<Rightarrow> 'n option) \<Rightarrow> 'n \<Rightarrow> bool" where
  "is_hierarchical U supers n = hierarchical_walk U supers 64 n"

definition promote_parent :: "'n ua \<Rightarrow> ('n \<Rightarrow> 'n option) \<Rightarrow> ('n, 'd) file_state \<Rightarrow> ('n, 'd) file_state" where
  "promote_parent U supers s =
     (if fs_parent_id s \<noteq> ua_null U \<or> is_type (fs_node_class s) then s
      else let other = (\<lambda>r. \<not> (\<not> fr_forward r \<and> is_hierarchical U supers (fr_type r))) in
        case dropWhile other (fs_references s) of
          [] \<Rightarrow> s
        | r # rest \<Rightarrow> s\<lparr>fs_parent_id := fr_node r, fs_reference_type_id := fr_type r,
            fs_references := takeWhile other (fs_references s) @ rest\<rparr>)"

definition promote_parents :: "'n ua \<Rightarrow> ('n, 'd) file_state list \<Rightarrow> ('n, 'd) file_state list" where
  "promote_parents U ss = List.map (promote_parent U (reference_supertypes ss)) ss"

section \<open>Applying node states\<close>

text \<open>\<open>SortNodesHierarchically\<close> on these states: what it looks at of each.\<close>

definition sort_view :: "('n, 'd) file_state \<Rightarrow> ('n, unit, unit) node_state" where
  "sort_view s =
     \<lparr>ns_node_id = fs_node_id s, ns_node_class = 0, ns_type_definition_id = fs_type_definition_id s,
      ns_parent_id = fs_parent_id s, ns_reference_type_id = fs_reference_type_id s, ns_browse_name = None,
      ns_display_name = None, ns_data_type = fs_data_type s, ns_value = None, ns_properties = [], ns_references = [],
      ns_children = [], ns_supertype_id = fs_supertype_id s\<rparr>"

definition sort_ids_of :: "'n ua \<Rightarrow> 'n sort_ids" where
  "sort_ids_of U = \<lparr>si_null = ua_null U, si_has_subtype = has_subtype U, si_has_type_definition = has_type_definition U\<rparr>"

definition sort_file_states :: "'n ua \<Rightarrow> ('n, 'd) file_state list \<Rightarrow> ('n, 'd) file_state list option" where
  "sort_file_states U ss =
     (if length ss \<ge> 2
      then let order = traverse (visit_neighbors (sort_ids_of U) (List.map sort_view ss)) (length ss) in do {
        check (length order = length ss);
        Some (List.map (\<lambda>i. ss ! i) order)
      }
      else Some ss)"

text \<open>A step that may fail, and the rest when it did not.\<close>

definition and_then ::
    "('n, 'v, 'q, 't, 'y) creation \<Rightarrow> (('n, 'v, 'q, 't, 'y) aspace \<Rightarrow> ('n, 'v, 'q, 't, 'y) creation) \<Rightarrow>
     ('n, 'v, 'q, 't, 'y) creation" where
  "and_then r f = do {
     (sp1, e, outs) \<leftarrow> r;
     if e \<noteq> Good then Some (sp1, e, outs)
     else do { (sp2, e2, outs2) \<leftarrow> f sp1; Some (sp2, e2, outs @ outs2) }
   }"

text \<open>The state a node is created from; its properties are cleared.\<close>

definition create_state_of :: "('n, 'd) file_state \<Rightarrow> ('n, ('n, 'd) variant) state_tree" where
  "create_state_of s = State_Tree
     \<lparr>cs_node_id = fs_node_id s, cs_node_class = fs_node_class s, cs_type_definition_id = fs_type_definition_id s,
      cs_parent_id = fs_parent_id s, cs_reference_type_id = fs_reference_type_id s,
      cs_browse_name = fst (fs_browse_name s), cs_display_name = fs_display_name s,
      cs_inverse_name = fs_inverse_name s, cs_data_type = fs_data_type s, cs_value = fs_value s, cs_properties = []\<rparr> []"

type_synonym ('n, 'd, 'q, 't, 'y) factory =
  "('n, ('n, 'd) variant) state_tree \<Rightarrow> ('n, ('n, 'd) variant, 'q, 't, 'y) aspace \<Rightarrow> ('n, ('n, 'd) variant, 'q, 't, 'y) creation"

fun create_states ::
    "('n, 'd, 'q, 't, 'y) factory \<Rightarrow> ('n, 'd) file_state list \<Rightarrow> ('n, ('n, 'd) variant, 'q, 't, 'y) aspace \<Rightarrow>
     ('n, ('n, 'd) variant, 'q, 't, 'y) creation" where
  "create_states create [] sp = Some (sp, Good, [])"
| "create_states create (s # ss) sp =
     (if as_nodes sp (fs_node_id s) \<noteq> None then create_states create ss sp
      else and_then (create (create_state_of s) sp) (create_states create ss))"

text \<open>\<open>FindReference\<close> of \<open>node_utils.cpp\<close> with the other node given.\<close>

fun first_reference_to ::
    "('n, 'v, 'q, 't, 'y) heap \<Rightarrow> 'n \<Rightarrow> 'n \<Rightarrow> 'n ref list \<Rightarrow> 'n ref option option" where
  "first_reference_to h ty other [] = Some None"
| "first_reference_to h ty other (ref # refs) = do {
     b \<leftarrow> is_subtype_of h (fst ref) ty;
     if b \<and> snd ref = other then Some (Some ref) else first_reference_to h ty other refs
   }"

definition find_reference_to ::
    "('n, 'v, 'q, 't, 'y) heap \<Rightarrow> 'n \<Rightarrow> 'n \<Rightarrow> bool \<Rightarrow> 'n \<Rightarrow> 'n ref option option" where
  "find_reference_to h n ty forward other = do {
     nd \<leftarrow> h n;
     first_reference_to h ty other (if forward then an_forward nd else an_inverse nd)
   }"

definition link_nodes ::
    "'n ua \<Rightarrow> 'n \<Rightarrow> 'n \<Rightarrow> 'n \<Rightarrow> ('n, 'v, 'q, 't, 'y) aspace \<Rightarrow> ('n, 'v, 'q, 't, 'y) creation" where
  "link_nodes U ty source target sp = do {
     found \<leftarrow> find_reference_to (as_nodes sp) source ty True target;
     if found \<noteq> None then Some (sp, Good, [])
     else map_option (\<lambda>(sp1, outs). (sp1, Good, outs)) (add_reference_by_id U ty source target sp)
   }"

definition link_supertype ::
    "'n ua \<Rightarrow> ('n, 'd) file_state \<Rightarrow> ('n, 'v, 'q, 't, 'y) aspace \<Rightarrow> ('n, 'v, 'q, 't, 'y) creation" where
  "link_supertype U s sp =
     (if fs_supertype_id s = ua_null U then Some (sp, Good, [])
      else if as_nodes sp (fs_supertype_id s) = None then Some (sp, BadWrongTypeId, [])
      else link_nodes U (has_subtype U) (fs_supertype_id s) (fs_node_id s) sp)"

fun link_references ::
    "'n ua \<Rightarrow> 'n \<Rightarrow> 'n file_reference list \<Rightarrow> ('n, 'v, 'q, 't, 'y) aspace \<Rightarrow> ('n, 'v, 'q, 't, 'y) creation" where
  "link_references U n [] sp = Some (sp, Good, [])"
| "link_references U n (r # rs) sp =
     (let source = if fr_forward r then n else fr_node r;
          target = if fr_forward r then fr_node r else n in
      if as_nodes sp source = None then Some (sp, BadWrongNodeId, [])
      else and_then (link_nodes U (fr_type r) source target sp) (link_references U n rs))"

fun link_states ::
    "'n ua \<Rightarrow> ('n, 'd) file_state list \<Rightarrow> ('n, 'v, 'q, 't, 'y) aspace \<Rightarrow> ('n, 'v, 'q, 't, 'y) creation" where
  "link_states U [] sp = Some (sp, Good, [])"
| "link_states U (s # ss) sp =
     and_then (and_then (link_supertype U s sp) (link_references U (fs_node_id s) (fs_references s)))
       (link_states U ss)"

definition apply_node_states ::
    "'n ua \<Rightarrow> ('n, 'd, 'q, 't, 'y) factory \<Rightarrow> ('n, 'd) file_state list \<Rightarrow> ('n, ('n, 'd) variant, 'q, 't, 'y) aspace \<Rightarrow>
     ('n, ('n, 'd) variant, 'q, 't, 'y) creation" where
  "apply_node_states U create ss sp = do {
     sorted_states \<leftarrow> sort_file_states U (promote_parents U ss);
     and_then (create_states create sorted_states sp) (link_states U sorted_states)
   }"

definition load_document ::
    "('n, 'x, 'd) xml_env \<Rightarrow> 'n ua \<Rightarrow> ('n, 'd, 'q, 't, 'y) factory \<Rightarrow> 'x \<Rightarrow> ('n, ('n, 'd) variant, 'q, 't, 'y) aspace \<Rightarrow>
     ('n, ('n, 'd) variant, 'q, 't, 'y) creation" where
  "load_document E U create doc sp =
     (case parse_node_states E doc [] of Inl e \<Rightarrow> Some (sp, e, []) | Inr ss \<Rightarrow> apply_node_states U create ss sp)"

text \<open>A file is the document that the library makes of it, or \<open>None\<close> when it cannot.\<close>

definition load_address_space_xml ::
    "('n, 'x, 'd) xml_env \<Rightarrow> 'n ua \<Rightarrow> ('n, 'd, 'q, 't, 'y) factory \<Rightarrow> 'x option \<Rightarrow> ('n, ('n, 'd) variant, 'q, 't, 'y) aspace \<Rightarrow>
     ('n, ('n, 'd) variant, 'q, 't, 'y) creation" where
  "load_address_space_xml E U create file sp =
     (case file of None \<Rightarrow> Some (sp, BadCantParseString, []) | Some doc \<Rightarrow> load_document E U create doc sp)"

section \<open>Saving\<close>

text \<open>An exported state as a state of the file. The nodes of the address space do not keep the namespace of their browse
  name: it is given by \<open>ns\<close>.\<close>

definition file_state_of :: "('n \<Rightarrow> 16 word) \<Rightarrow> ('n, ('n, 'd) variant) exported_state \<Rightarrow> ('n, 'd) file_state" where
  "file_state_of ns x =
     \<lparr>fs_node_id = xs_node_id x, fs_node_class = xs_node_class x, fs_type_definition_id = xs_type_definition_id x,
      fs_parent_id = xs_parent_id x, fs_reference_type_id = xs_reference_type_id x,
      fs_browse_name = (xs_browse_name x, ns (xs_node_id x)), fs_display_name = xs_display_name x,
      fs_inverse_name = xs_inverse_name x, fs_data_type = xs_data_type x, fs_value = xs_value x,
      fs_properties = xs_properties x,
      fs_references = List.map (\<lambda>r. \<lparr>fr_type = er_type r, fr_forward = True, fr_node = er_node r,
        fr_node_class = er_node_class r\<rparr>) (xs_references x),
      fs_supertype_id = xs_supertype_id x\<rparr>"

fun write_node_states :: "('n, 'x, 'd) xml_env \<Rightarrow> ('n, 'd) file_state list \<Rightarrow> 'x \<Rightarrow> status + 'x" where
  "write_node_states E [] x = Inr x"
| "write_node_states E (s # ss) x = (case write_node_state E s x of Inl e \<Rightarrow> Inl e | Inr y \<Rightarrow> write_node_states E ss y)"

text \<open>The document, with its declaration.\<close>

definition write_document :: "('n, 'x, 'd) xml_env \<Rightarrow> ('n, 'd) file_state list \<Rightarrow> status + 'x" where
  "write_document E ss =
     (let decl = xe_add_attribute E ''encoding'' ''UTF-8'' (xe_add_attribute E ''version'' ''1.0'' (xe_element E ''xml''));
          r = xe_add_attribute E ''format'' ''scada-node-state-v1'' (xe_element E ''AddressSpace'') in
      map_sum id (\<lambda>r. xe_append E r (xe_append E decl (xe_element E ''''))) (write_node_states E ss r))"

definition saved_states ::
    "('n, 'x, 'd) xml_env \<Rightarrow> ('n \<Rightarrow> 16 word) \<Rightarrow> ('n, ('n, 'd) variant) exported_state list \<Rightarrow> ('n, 'd) file_state list" where
  "saved_states E ns xs =
     sort_key (\<lambda>s. node_id_to_scada_string (xe_ids E) (fs_node_id s)) (List.map (file_state_of ns) xs)"

text \<open>\<open>SaveAddressSpaceXml\<close>: the own nodes of an \<open>AddressSpaceImpl\<close>, all that are reached in another space. \<open>written\<close>
  tells whether the library could write the file. The result is the status and the document that was written to the
  file; what the library loads from it later is \<open>xe_reload\<close> of it.\<close>

definition save_address_space_xml ::
    "('n, 'x, 'd) xml_env \<Rightarrow> ('n, ('n, 'd) variant, 'q, 't, 'y) as_env \<Rightarrow> ('n \<Rightarrow> 16 word) \<Rightarrow> bool \<Rightarrow> ('x \<Rightarrow> bool) \<Rightarrow>
     ('n, ('n, 'd) variant, 'q, 't, 'y) aspace \<Rightarrow> (status \<times> 'x option) option" where
  "save_address_space_xml E A ns is_impl written sp = do {
     xs \<leftarrow> (if is_impl then node_states_of A (as_nodes sp) (as_own sp) else make_node_states A (as_nodes sp));
     Some (case write_document E (saved_states E ns xs) of
       Inl e \<Rightarrow> (e, None)
     | Inr doc \<Rightarrow> if written doc then (Good, Some doc) else (Bad, None))
   }"

end
