(* ===== verification/Node_Set_Xml.thy ===== *)
theory Node_Set_Xml
  imports Space_Xml
begin

text \<open>
  The OPC UA node sets of \<open>address_space/address_space_xml.cpp\<close>: the same node states, read from the standard format,
  and the loading of several files of either format into one address space.
\<close>

section \<open>Namespaces and aliases\<close>

definition ua_classes :: "(string \<times> node_class) list" where
  "ua_classes =
     [(''UAObject'', ObjectClass), (''UAVariable'', VariableClass), (''UAMethod'', MethodClass), (''UAView'', ViewClass),
      (''UAObjectType'', ObjectTypeClass), (''UAVariableType'', VariableTypeClass), (''UADataType'', DataTypeClass),
      (''UAReferenceType'', ReferenceTypeClass)]"

definition parse_ua_element_class :: "string \<Rightarrow> node_class option" where
  "parse_ua_element_class tag = map_of ua_classes tag"

text \<open>A handle of a child may be null: it has no children and no text.\<close>

definition children_at :: "('n, 'x, 'd) xml_env \<Rightarrow> string \<Rightarrow> 'x option \<Rightarrow> 'x list" where
  "children_at E name x = (case x of None \<Rightarrow> [] | Some x \<Rightarrow> xml_children E name x)"

definition text_at :: "('n, 'x, 'd) xml_env \<Rightarrow> 'x option \<Rightarrow> string" where
  "text_at E x = (case x of None \<Rightarrow> '''' | Some x \<Rightarrow> text_string E x)"

text \<open>The global namespace of every local one; \<open>scada\<close> is the one of the SCADA model.\<close>

definition read_namespace_map :: "('n, 'x, 'd) xml_env \<Rightarrow> 16 word \<Rightarrow> 'x \<Rightarrow> 16 word list" where
  "read_namespace_map E scada x =
     0 # List.map (\<lambda>uri. if text_string E uri = ''http://opcfoundation.org/UA/'' then 0 else scada)
           (children_at E ''Uri'' (xml_child E ''NamespaceUris'' x))"

definition read_alias_map :: "('n, 'x, 'd) xml_env \<Rightarrow> 'x \<Rightarrow> string \<Rightarrow> string option" where
  "read_alias_map E x =
     map_of (List.map (\<lambda>a. (attribute_string E a ''Alias'', text_string E a))
       (children_at E ''Alias'' (xml_child E ''Aliases'' x)))"

section \<open>Ids and names\<close>

definition starts_with :: "string \<Rightarrow> string \<Rightarrow> bool" where
  "starts_with pre s \<longleftrightarrow> take (length pre) s = pre"

text \<open>The namespace before an id: \<open>None\<close> when there is one that cannot be read. The code reads the character behind the
  number without a test for the end of the text; an attribute and a text end in a zero, which is no semicolon.\<close>

definition split_namespace :: "string \<Rightarrow> (16 word \<times> string) option" where
  "split_namespace s =
     (if starts_with ''ns='' s
      then (case from_chars 0 (2 ^ 32 - 1) (drop 3 s) of
              Some (v, CHR '';'' # rest) \<Rightarrow> Some (word_of_int v, rest)
            | _ \<Rightarrow> None)
      else Some (0, s))"

definition global_namespace :: "16 word list \<Rightarrow> 16 word \<Rightarrow> 16 word" where
  "global_namespace ns_map local_ns = (if unat local_ns < length ns_map then ns_map ! unat local_ns else local_ns)"

definition parse_ua_node_id :: "'n nid_lib \<Rightarrow> 16 word list \<Rightarrow> (string \<Rightarrow> string option) \<Rightarrow> string \<Rightarrow> 'n" where
  "parse_ua_node_id L ns_map aliases s0 =
     (if s0 = '''' then nl_null L
      else case split_namespace (case aliases s0 of Some t \<Rightarrow> t | None \<Rightarrow> s0) of
        None \<Rightarrow> nl_null L
      | Some (local_ns, s) \<Rightarrow>
          if \<not> starts_with ''i='' s then nl_null L
          else case parse_unsigned (drop 2 s) of
            None \<Rightarrow> nl_null L
          | Some i \<Rightarrow> nl_numeric L i (global_namespace ns_map local_ns))"

definition parse_ua_browse_name :: "16 word list \<Rightarrow> string \<Rightarrow> string \<times> 16 word" where
  "parse_ua_browse_name ns_map s =
     (case split_first (CHR '':'') s of
        None \<Rightarrow> (s, 0)
      | Some (pre, rest) \<Rightarrow>
          (rest, case parse_integer 0 (2 ^ 32 - 1) pre of
             None \<Rightarrow> 0
           | Some i \<Rightarrow> if nat i < length ns_map then ns_map ! nat i else word_of_int i))"

section \<open>Values\<close>

definition uax_types :: "(string \<times> variant_type) list" where
  "uax_types =
     [(''Boolean'', BOOL), (''SByte'', INT8), (''Byte'', UINT8), (''Int16'', INT16), (''UInt16'', UINT16),
      (''Int32'', INT32), (''UInt32'', UINT32), (''Int64'', INT64), (''UInt64'', UINT64), (''Double'', DOUBLE),
      (''String'', STRING), (''DateTime'', DATE_TIME), (''ByteString'', BYTE_STRING), (''NodeId'', NODE_ID),
      (''LocalizedText'', LOCALIZED_TEXT)]"

definition parse_uax_type :: "string \<Rightarrow> variant_type option" where
  "parse_uax_type name = map_of uax_types name"

definition read_ua_value :: "('n, 'x, 'd) xml_env \<Rightarrow> 'x \<Rightarrow> ('n, 'd) variant option" where
  "read_ua_value E x = do {
     c \<leftarrow> List.find (xe_is_element E) (xe_nodes E x);
     let name = c_str (xe_name E c);
     let local_name = (case split_first (CHR '':'') name of Some (_, rest) \<Rightarrow> rest | None \<Rightarrow> name);
     ty \<leftarrow> parse_uax_type local_name;
     read_scalar_variant E ty (text_string E c)
   }"

section \<open>Node states\<close>

text \<open>One reference: the parent, the supertype and the type definition are kept in fields, other references in the list.
  A later reference of the same kind takes the field over.\<close>

definition ua_reference_number :: "'n nid_lib \<Rightarrow> 'n \<Rightarrow> 32 word" where
  "ua_reference_number L ty = (if nl_ns L ty = 0 \<and> nl_type L ty = Numeric then nl_numeric_id L ty else 0)"

definition apply_ua_reference :: "'n nid_lib \<Rightarrow> 'n \<times> bool \<times> 'n \<Rightarrow> ('n, 'd) file_state \<Rightarrow> ('n, 'd) file_state" where
  "apply_ua_reference L = (\<lambda>(ty, forward, target) s. let num = ua_reference_number L ty in
     if \<not> forward \<and> num = 45
     then s\<lparr>fs_supertype_id := target, fs_parent_id := target, fs_reference_type_id := ty\<rparr>
     else if \<not> forward \<and> (num = 47 \<or> num = 46 \<or> num = 35)
     then s\<lparr>fs_parent_id := target, fs_reference_type_id := ty\<rparr>
     else if forward \<and> num = 40
     then s\<lparr>fs_type_definition_id := target\<rparr>
     else s\<lparr>fs_references := fs_references s @
            [\<lparr>fr_type = ty, fr_forward = forward, fr_node = target, fr_node_class = ObjectClass\<rparr>]\<rparr>)"

definition read_ua_reference ::
    "('n, 'x, 'd) xml_env \<Rightarrow> 16 word list \<Rightarrow> (string \<Rightarrow> string option) \<Rightarrow> 'x \<Rightarrow> 'n \<times> bool \<times> 'n" where
  "read_ua_reference E ns_map aliases x =
     (parse_ua_node_id (xe_ids E) ns_map aliases (attribute_string E x ''ReferenceType''),
      attribute_bool E x ''IsForward'' True,
      parse_ua_node_id (xe_ids E) ns_map aliases (text_string E x))"

definition empty_file_state :: "'n nid_lib \<Rightarrow> 'n \<Rightarrow> node_class \<Rightarrow> ('n, 'd) file_state" where
  "empty_file_state L n c =
     \<lparr>fs_node_id = n, fs_node_class = c, fs_type_definition_id = nl_null L, fs_parent_id = nl_null L,
      fs_reference_type_id = nl_null L, fs_browse_name = ('''', 0), fs_display_name = '''', fs_inverse_name = '''',
      fs_data_type = nl_null L, fs_value = None, fs_properties = [], fs_references = [], fs_supertype_id = nl_null L\<rparr>"

definition read_ua_attributes ::
    "('n, 'x, 'd) xml_env \<Rightarrow> 16 word list \<Rightarrow> (string \<Rightarrow> string option) \<Rightarrow> 'x \<Rightarrow> 'n \<Rightarrow> node_class \<Rightarrow> ('n, 'd) file_state" where
  "read_ua_attributes E ns_map aliases x n c = (empty_file_state (xe_ids E) n c)
     \<lparr>fs_browse_name := parse_ua_browse_name ns_map (attribute_string E x ''BrowseName''),
      fs_display_name := xe_from_utf8 E (text_at E (xml_child E ''DisplayName'' x)),
      fs_inverse_name := (if c = ReferenceTypeClass then xe_from_utf8 E (text_at E (xml_child E ''InverseName'' x)) else ''''),
      fs_data_type := (case xe_attribute E x ''DataType'' of
          None \<Rightarrow> nl_null (xe_ids E)
        | Some v \<Rightarrow> parse_ua_node_id (xe_ids E) ns_map aliases (c_str v)),
      fs_value := (case xml_child E ''Value'' x of None \<Rightarrow> None | Some v \<Rightarrow> read_ua_value E v)\<rparr>"

definition read_ua_node_state ::
    "('n, 'x, 'd) xml_env \<Rightarrow> 16 word list \<Rightarrow> (string \<Rightarrow> string option) \<Rightarrow> 'x \<Rightarrow> status + ('n, 'd) file_state" where
  "read_ua_node_state E ns_map aliases x =
     (case parse_ua_element_class (c_str (xe_name E x)) of
        None \<Rightarrow> Inl BadWrongNodeClass
      | Some c \<Rightarrow> let n = parse_ua_node_id (xe_ids E) ns_map aliases (attribute_string E x ''NodeId'') in
          if n = nl_null (xe_ids E) then Inl BadWrongNodeId
          else Inr (fold (apply_ua_reference (xe_ids E))
            (List.map (read_ua_reference E ns_map aliases) (children_at E ''Reference'' (xml_child E ''References'' x)))
            (read_ua_attributes E ns_map aliases x n c)))"

fun read_ua_node_states ::
    "('n, 'x, 'd) xml_env \<Rightarrow> 16 word list \<Rightarrow> (string \<Rightarrow> string option) \<Rightarrow> 'x list \<Rightarrow> ('n, 'd) file_state list \<Rightarrow>
     status + ('n, 'd) file_state list" where
  "read_ua_node_states E ns_map aliases [] out = Inr out"
| "read_ua_node_states E ns_map aliases (x # xs) out =
     (if parse_ua_element_class (c_str (xe_name E x)) = None then read_ua_node_states E ns_map aliases xs out
      else case read_ua_node_state E ns_map aliases x of
        Inl e \<Rightarrow> Inl e
      | Inr s \<Rightarrow> read_ua_node_states E ns_map aliases xs (out @ [s]))"

definition parse_ua_node_states ::
    "('n, 'x, 'd) xml_env \<Rightarrow> 16 word \<Rightarrow> 'x \<Rightarrow> ('n, 'd) file_state list \<Rightarrow> status + ('n, 'd) file_state list" where
  "parse_ua_node_states E scada doc out =
     (case xml_child E ''UANodeSet'' doc of
        None \<Rightarrow> Inl BadCantParseString
      | Some r \<Rightarrow> read_ua_node_states E (read_namespace_map E scada r) (read_alias_map E r) (xe_nodes E r) out)"

section \<open>Several files\<close>

text \<open>All files are read before the first node is created.\<close>

fun parse_files ::
    "('x \<Rightarrow> ('n, 'd) file_state list \<Rightarrow> status + ('n, 'd) file_state list) \<Rightarrow> 'x option list \<Rightarrow> ('n, 'd) file_state list \<Rightarrow>
     status + ('n, 'd) file_state list" where
  "parse_files parse [] out = Inr out"
| "parse_files parse (None # files) out = Inl BadCantParseString"
| "parse_files parse (Some doc # files) out =
     (case parse doc out of Inl e \<Rightarrow> Inl e | Inr out' \<Rightarrow> parse_files parse files out')"

definition parse_either ::
    "('n, 'x, 'd) xml_env \<Rightarrow> 16 word \<Rightarrow> 'x \<Rightarrow> ('n, 'd) file_state list \<Rightarrow> status + ('n, 'd) file_state list" where
  "parse_either E scada doc out =
     (if xml_child E ''UANodeSet'' doc \<noteq> None then parse_ua_node_states E scada doc out
      else parse_node_states E doc out)"

definition load_static_address_space ::
    "('n, 'x, 'd) xml_env \<Rightarrow> 16 word \<Rightarrow> 'n ua \<Rightarrow> ('n, 'd, 'q, 't, 'y) factory \<Rightarrow> 'x option list \<Rightarrow>
     ('n, ('n, 'd) variant, 'q, 't, 'y) aspace \<Rightarrow> ('n, ('n, 'd) variant, 'q, 't, 'y) creation" where
  "load_static_address_space E scada U create files sp =
     (case parse_files (parse_either E scada) files [] of
        Inl e \<Rightarrow> Some (sp, e, []) | Inr ss \<Rightarrow> apply_node_states U create ss sp)"

definition load_static_ua_node_set ::
    "('n, 'x, 'd) xml_env \<Rightarrow> 16 word \<Rightarrow> 'n ua \<Rightarrow> ('n, 'd, 'q, 't, 'y) factory \<Rightarrow> 'x option list \<Rightarrow>
     ('n, ('n, 'd) variant, 'q, 't, 'y) aspace \<Rightarrow> ('n, ('n, 'd) variant, 'q, 't, 'y) creation" where
  "load_static_ua_node_set E scada U create files sp =
     (case parse_files (parse_ua_node_states E scada) files [] of
        Inl e \<Rightarrow> Some (sp, e, []) | Inr ss \<Rightarrow> apply_node_states U create ss sp)"

definition load_ua_node_set_xml ::
    "('n, 'x, 'd) xml_env \<Rightarrow> 16 word \<Rightarrow> 'n ua \<Rightarrow> ('n, 'd, 'q, 't, 'y) factory \<Rightarrow> 'x option \<Rightarrow>
     ('n, ('n, 'd) variant, 'q, 't, 'y) aspace \<Rightarrow> ('n, ('n, 'd) variant, 'q, 't, 'y) creation" where
  "load_ua_node_set_xml E scada U create file sp =
     (case file of
        None \<Rightarrow> Some (sp, BadCantParseString, [])
      | Some doc \<Rightarrow> (case parse_ua_node_states E scada doc [] of
            Inl e \<Rightarrow> Some (sp, e, []) | Inr ss \<Rightarrow> apply_node_states U create ss sp))"

definition load_static_nodesets ::
    "('n, 'x, 'd) xml_env \<Rightarrow> 16 word \<Rightarrow> 'n ua \<Rightarrow> ('n, 'd, 'q, 't, 'y) factory \<Rightarrow> 'x option list \<Rightarrow>
     ('n, ('n, 'd) variant, 'q, 't, 'y) aspace \<Rightarrow> ('n, ('n, 'd) variant, 'q, 't, 'y) creation" where
  "load_static_nodesets E scada U create files sp = load_static_address_space E scada U create files sp"

end
