(* ===== verification/Space_Xml_Facts.thy ===== *)
theory Space_Xml_Facts
  imports Node_Set_Xml Node_Factory_Claims
begin

text \<open>
  Facts on node states in files: what loading adds to an address space, and the attributes and children that a written
  state has.
\<close>

section \<open>Growing address spaces\<close>

lemma grows_supertype:
  assumes "as_ok U sp" "as_ok U sp'" "as_grows sp sp'" "st (as_nodes sp) n = Some t"
  shows "st (as_nodes sp') n = Some t"
proof -
  have 1: "type_node (as_nodes sp) n" "(has_subtype U, t) \<in> set (iv (as_nodes sp) n)"
    using assms(1,4) graph_okD(5) [of U "as_nodes sp" n t] by (simp_all add: as_ok_def)
  then have "type_node (as_nodes sp') n \<and> (has_subtype U, t) \<in> set (iv (as_nodes sp') n)"
    using assms(3) in_iv [OF 1(2)] by (auto simp: as_grows_def type_node_def)
  then show ?thesis using assms(2) graph_okD(5) [of U "as_nodes sp'" n t] by (simp add: as_ok_def)
qed

lemma grows_node: "as_grows sp sp' \<Longrightarrow> as_nodes sp n \<noteq> None \<Longrightarrow> as_nodes sp' n \<noteq> None"
  unfolding as_grows_def using cls_dom by metis

lemma grows_subtype:
  assumes ok: "as_ok U sp" "as_ok U sp'" and grows: "as_grows sp sp'" and sub: "is_subtype_of (as_nodes sp) a b = Some True"
  shows "is_subtype_of (as_nodes sp') a b = Some True"
proof -
  define P where "P = (\<lambda>h a b r. h = as_nodes sp \<longrightarrow> r \<longrightarrow> is_subtype_of (as_nodes sp') a b = Some True)"
  have "P (as_nodes sp) a b True"
  proof (rule is_subtype_of.raw_induct [OF _ sub])
    fix rec h a b r
    assume IH: "\<And>h a b r. rec h a b = Some r \<Longrightarrow> P h a b r"
      and step: "(case h a of None \<Rightarrow> None | Some nd \<Rightarrow> if a = b then Some True
         else (case an_supertype nd of None \<Rightarrow> Some False | Some t \<Rightarrow> rec h t b)) = Some r"
    show "P h a b r" unfolding P_def
    proof (intro impI)
      assume h: "h = as_nodes sp" and r: "r"
      obtain nd where nd: "as_nodes sp a = Some nd" using step h by (auto split: option.splits)
      then obtain nd' where nd': "as_nodes sp' a = Some nd'" using grows_node [OF grows, of a] by auto
      show "is_subtype_of (as_nodes sp') a b = Some True"
      proof (cases "a = b")
        case True
        then show ?thesis using nd' by (simp add: is_subtype_of.simps [of _ b])
      next
        case False
        then obtain t where t: "an_supertype nd = Some t" "rec h t b = Some r"
          using step nd h r by (auto split: option.splits)
        have "st (as_nodes sp') a = Some t"
          by (rule grows_supertype [OF ok grows]) (simp add: st_def nd t)
        moreover have "is_subtype_of (as_nodes sp') t b = Some True" using IH [OF t(2)] h r by (simp add: P_def)
        ultimately show ?thesis using nd' False by (simp add: is_subtype_of.simps [of _ a] st_def)
      qed
    qed
  qed
  then show ?thesis by (simp add: P_def)
qed

section \<open>Linked nodes\<close>

text \<open>A reference between two nodes, of the type or of a subtype.\<close>

definition linked :: "('n, 'v, 'q, 't, 'y) heap \<Rightarrow> 'n \<Rightarrow> 'n \<Rightarrow> 'n \<Rightarrow> bool" where
  "linked h ty source target \<longleftrightarrow>
     (\<exists>ty'. (ty', target) \<in> set (fw h source) \<and> is_subtype_of h ty' ty = Some True)"

lemma linked_grows:
  assumes "as_ok U sp" "as_ok U sp'" "as_grows sp sp'" "linked (as_nodes sp) ty s t"
  shows "linked (as_nodes sp') ty s t"
proof -
  obtain ty' where 1: "(ty', t) \<in> set (fw (as_nodes sp) s)" "is_subtype_of (as_nodes sp) ty' ty = Some True"
    using assms(4) by (auto simp: linked_def)
  have "as_nodes sp s \<noteq> None" using 1(1) by (cases "as_nodes sp s") (auto simp: fw_def)
  then have "(ty', t) \<in> set (fw (as_nodes sp') s)" using 1(1) assms(3) unfolding as_grows_def by blast
  with grows_subtype [OF assms(1-3) 1(2)] show ?thesis by (auto simp: linked_def)
qed

lemma first_reference_to_found:
  "first_reference_to h ty other refs = Some (Some r) \<Longrightarrow>
     r \<in> set refs \<and> snd r = other \<and> is_subtype_of h (fst r) ty = Some True"
  by (induction refs) (auto simp: bind_eq_Some_conv split: if_splits)

lemma link_nodes_links:
  assumes ret: "link_nodes U ty s t sp = Some (sp', e, outs)"
  shows "added U sp sp'" "e = Good" "linked (as_nodes sp') ty s t"
proof -
  obtain found where f: "find_reference_to (as_nodes sp) s ty True t = Some found"
    and rest: "(if found \<noteq> None then Some (sp, Good, [])
      else map_option (\<lambda>(sp1, outs). (sp1, Good, outs)) (add_reference_by_id U ty s t sp)) = Some (sp', e, outs)"
    using ret by (auto simp: link_nodes_def bind_eq_Some_conv)
  have "added U sp sp' \<and> e = Good \<and> linked (as_nodes sp') ty s t"
  proof (cases found)
    case (Some r)
    obtain nd where "as_nodes sp s = Some nd" "first_reference_to (as_nodes sp) ty t (an_forward nd) = Some (Some r)"
      using f Some by (auto simp: find_reference_to_def bind_eq_Some_conv)
    then have "linked (as_nodes sp) ty s t"
      using first_reference_to_found [of "as_nodes sp" ty t "an_forward nd" r]
      by (cases r) (auto simp: linked_def fw_def)
    with Some rest show ?thesis by simp
  next
    case None
    then obtain o1 where 1: "add_reference_by_id U ty s t sp = Some (sp', o1)" and e: "e = Good" using rest by auto
    obtain tn where tn: "as_nodes sp ty = Some tn" and 2: "add_reference U ty s t sp = Some (sp', o1)"
      using 1 by (auto simp: add_reference_by_id_def bind_eq_Some_conv)
    note A = add_reference_changed [OF 2]
    have "(ty, t) \<in> set (fw (as_nodes sp') s)" using A(1) by (simp add: changed_def)
    moreover have "as_nodes sp' ty \<noteq> None"
      using tn A(1) body_dom [of "as_nodes sp'" "as_nodes sp"] by (auto simp: changed_def)
    then have "is_subtype_of (as_nodes sp') ty ty = Some True" by (auto simp: is_subtype_of.simps [of _ ty])
    ultimately show ?thesis using add_reference_by_id_added [OF 1] e by (auto simp: linked_def)
  qed
  then show "added U sp sp'" "e = Good" "linked (as_nodes sp') ty s t" by simp_all
qed

section \<open>Steps that may fail\<close>

lemma and_then_cases:
  assumes "and_then r f = Some (sp', e, outs)"
  obtains (failed) o1 where "r = Some (sp', e, o1)" "e \<noteq> Good"
  | (went_on) sp1 o1 o2 where "r = Some (sp1, Good, o1)" "f sp1 = Some (sp', e, o2)"
  using assms by (auto simp: and_then_def bind_eq_Some_conv split: if_splits)

lemma and_then_added:
  assumes ret: "and_then r f = Some (sp', e, outs)"
    and r: "\<And>sp1 e1 o1. r = Some (sp1, e1, o1) \<Longrightarrow> added U sp sp1"
    and f: "\<And>sp1 sp2 e2 o2. f sp1 = Some (sp2, e2, o2) \<Longrightarrow> added U sp1 sp2"
  shows "added U sp sp'"
  using ret
proof (cases rule: and_then_cases)
  case (failed o1)
  then show ?thesis using r by blast
next
  case (went_on sp1 o1 o2)
  then show ?thesis using r f added_trans by blast
qed

lemma create_states_added:
  assumes "adds U create"
  shows "create_states create ss sp = Some (sp', e, outs) \<Longrightarrow> added U sp sp'"
proof (induction ss arbitrary: sp outs)
  case (Cons s ss)
  show ?case
  proof (cases "as_nodes sp (fs_node_id s) = None")
    case True
    then have r: "and_then (create (create_state_of s) sp) (create_states create ss) = Some (sp', e, outs)"
      using Cons.prems by simp
    then show ?thesis
    proof (cases rule: and_then_cases)
      case (failed o1)
      then show ?thesis using addsD [OF assms] by blast
    next
      case (went_on sp1 o1 o2)
      then show ?thesis using addsD [OF assms] Cons.IH added_trans by blast
    qed
  qed (use Cons in auto)
qed simp

lemma link_supertype_links:
  assumes "link_supertype U s sp = Some (sp', e, outs)"
  shows "added U sp sp'" "e = Good \<Longrightarrow> fs_supertype_id s = ua_null U
    \<or> linked (as_nodes sp') (has_subtype U) (fs_supertype_id s) (fs_node_id s)"
  using assms link_nodes_links by (fastforce simp: link_supertype_def split: if_splits)+

abbreviation reference_linked :: "('n, 'v, 'q, 't, 'y) heap \<Rightarrow> 'n \<Rightarrow> 'n file_reference \<Rightarrow> bool" where
  "reference_linked h n r \<equiv>
     linked h (fr_type r) (if fr_forward r then n else fr_node r) (if fr_forward r then fr_node r else n)"

lemma added_linked:
  "added U sp sp' \<Longrightarrow> as_ok U sp \<Longrightarrow> linked (as_nodes sp) ty s t \<Longrightarrow> linked (as_nodes sp') ty s t"
  using linked_grows [of U sp sp'] unfolding added_def by simp

lemma link_references_links:
  "link_references U n rs sp = Some (sp', e, outs) \<Longrightarrow>
     added U sp sp' \<and> (as_ok U sp \<longrightarrow> e = Good \<longrightarrow> (\<forall>r \<in> set rs. reference_linked (as_nodes sp') n r))"
proof (induction rs arbitrary: sp outs)
  case (Cons r rs)
  let ?s = "if fr_forward r then n else fr_node r" and ?t = "if fr_forward r then fr_node r else n"
  show ?case
  proof (cases "as_nodes sp ?s = None")
    case True
    with Cons.prems show ?thesis by (auto simp: Let_def)
  next
    case False
    then have "and_then (link_nodes U (fr_type r) ?s ?t sp) (link_references U n rs) = Some (sp', e, outs)"
      using Cons.prems by (simp only: link_references.simps Let_def if_False)
    then show ?thesis
    proof (cases rule: and_then_cases)
      case (failed o1)
      then show ?thesis using link_nodes_links(2) [OF failed(1)] by simp
    next
      case (went_on sp1 o1 o2)
      note L = link_nodes_links [OF went_on(1)] and I = Cons.IH [OF went_on(2)]
      have "added U sp sp'" using L(1) I added_trans by blast
      moreover have "reference_linked (as_nodes sp') n r" if "as_ok U sp"
        using added_linked [of U sp1 sp'] I L(1,3) that by (simp add: added_def)
      ultimately show ?thesis using I L(1) by (auto simp: added_def)
    qed
  qed
qed simp

text \<open>A state is linked when its supertype and its references are there.\<close>

definition state_linked :: "'n ua \<Rightarrow> ('n, 'v, 'q, 't, 'y) heap \<Rightarrow> ('n, 'd) file_state \<Rightarrow> bool" where
  "state_linked U h s \<longleftrightarrow>
     (fs_supertype_id s \<noteq> ua_null U \<longrightarrow> linked h (has_subtype U) (fs_supertype_id s) (fs_node_id s))
     \<and> (\<forall>r \<in> set (fs_references s). reference_linked h (fs_node_id s) r)"

lemma added_state_linked:
  "added U sp sp' \<Longrightarrow> as_ok U sp \<Longrightarrow> state_linked U (as_nodes sp) s \<Longrightarrow> state_linked U (as_nodes sp') s"
  using added_linked [of U sp sp'] by (simp add: state_linked_def)

lemma link_states_links:
  "link_states U ss sp = Some (sp', e, outs) \<Longrightarrow>
     added U sp sp' \<and> (as_ok U sp \<longrightarrow> e = Good \<longrightarrow> (\<forall>s \<in> set ss. state_linked U (as_nodes sp') s))"
proof (induction ss arbitrary: sp outs)
  case (Cons s ss)
  have one: "added U sp sp1 \<and> (as_ok U sp \<longrightarrow> e1 = Good \<longrightarrow> state_linked U (as_nodes sp1) s)"
    if "and_then (link_supertype U s sp) (link_references U (fs_node_id s) (fs_references s)) = Some (sp1, e1, o1)" for sp1 e1 o1
    using that
  proof (cases rule: and_then_cases)
    case (failed o2)
    then show ?thesis using link_supertype_links(1) by blast
  next
    case (went_on sp2 o2 o3)
    note S = link_supertype_links [OF went_on(1)] and R = link_references_links [OF went_on(2)]
    have "added U sp sp1" using S(1) R added_trans by blast
    moreover have "state_linked U (as_nodes sp1) s" if "as_ok U sp" "e1 = Good"
      using S R that added_linked [of U sp2 sp1] by (auto simp: state_linked_def added_def)
    ultimately show ?thesis by blast
  qed
  from Cons.prems have "and_then (and_then (link_supertype U s sp) (link_references U (fs_node_id s) (fs_references s)))
     (link_states U ss) = Some (sp', e, outs)" by simp
  then show ?case
  proof (cases rule: and_then_cases)
    case (failed o1)
    then show ?thesis using one by blast
  next
    case (went_on sp1 o1 o2)
    note O = one [OF went_on(1)] and I = Cons.IH [OF went_on(2)]
    have "added U sp sp'" using O I added_trans by blast
    moreover have "state_linked U (as_nodes sp') s" if "as_ok U sp"
      by (rule added_state_linked [of U sp1]) (use O I that in \<open>auto simp: added_def\<close>)
    ultimately show ?thesis using O I by (auto simp: added_def)
  qed
qed simp

section \<open>The order of creation\<close>

lemma sort_file_states_returns:
  "\<exists>ss'. sort_file_states U ss = Some ss' \<and> mset ss' = mset ss"
proof (cases "length ss \<ge> 2")
  case True
  let ?g = "visit_neighbors (sort_ids_of U) (List.map sort_view ss)"
  let ?o = "traverse ?g (length ss)"
  have o: "distinct ?o \<and> set ?o = {..<length ss} \<and> ordered ?g ?o"
    by (rule traverse_correct) (use visit_neighbors_bound [of _ "sort_ids_of U" "List.map sort_view ss"] in auto)
  then have m: "mset ?o = mset [0..<length ss]"
    using set_eq_iff_mset_eq_distinct [of ?o "[0..<length ss]"] by (simp add: atLeast0LessThan)
  then have "length ?o = length ss" by (metis length_upt minus_nat.diff_0 mset_eq_length)
  moreover have "mset (List.map (\<lambda>i. ss ! i) ?o) = mset ss"
    using m by (metis map_nth mset_map)
  ultimately show ?thesis using True by (simp add: sort_file_states_def Let_def check_def)
next
  case False
  then show ?thesis by (simp add: sort_file_states_def)
qed

section \<open>Written elements\<close>

lemma set_node_id_attribute_simps:
  assumes "xml_ok E"
  shows "xe_name E (set_node_id_attribute E a n x) = xe_name E x" "xe_nodes E (set_node_id_attribute E a n x) = xe_nodes E x"
    "xe_attribute E (set_node_id_attribute E a n x) b =
       (case xe_attribute E x b of Some w \<Rightarrow> Some w
        | None \<Rightarrow> if b = a \<and> n \<noteq> nl_null (xe_ids E) then Some (node_id_to_scada_string (xe_ids E) n) else None)"
  using xml_okD(5,6,8) [OF assms] by (auto simp: set_node_id_attribute_def split: option.splits)

lemma set_name_attribute_simps:
  assumes "xml_ok E"
  shows "xe_name E (set_name_attribute E a t x) = xe_name E x" "xe_nodes E (set_name_attribute E a t x) = xe_nodes E x"
    "xe_attribute E (set_name_attribute E a t x) b =
       (case xe_attribute E x b of Some w \<Rightarrow> Some w | None \<Rightarrow> if b = a \<and> t \<noteq> '''' then Some (c_str (xe_to_utf8 E t)) else None)"
  using xml_okD(5,6,8) [OF assms] by (auto simp: set_name_attribute_def split: option.splits)

lemma set_qualified_name_simps:
  assumes "xml_ok E"
  shows "xe_name E (set_qualified_name E pre q x) = xe_name E x" "xe_nodes E (set_qualified_name E pre q x) = xe_nodes E x"
    "xe_attribute E (set_qualified_name E pre q x) b =
       (case xe_attribute E x b of Some w \<Rightarrow> Some w
        | None \<Rightarrow> if xe_qn_empty E q then None else if b = pre @ ''Name'' then Some (fst q)
                 else if b = pre @ ''Namespace'' \<and> snd q \<noteq> 0 then Some (dec (unat (snd q))) else None)"
  using xml_okD(5,6,8) [OF assms] by (auto simp: set_qualified_name_def Let_def split: option.splits)

definition maybe_printable :: "'n nid_lib \<Rightarrow> 'n \<Rightarrow> bool" where
  "maybe_printable L n \<longleftrightarrow> n = nl_null L \<or> printable_id L n"

lemma id_attribute_read:
  assumes "xml_ok E" "maybe_printable (xe_ids E) n"
    and "xe_attribute E x a = (if n \<noteq> nl_null (xe_ids E) then Some (node_id_to_scada_string (xe_ids E) n) else None)"
  shows "id_attribute E x a = n"
  using assms parse_printed_id [OF xml_okD(1) [OF assms(1)], of n]
  by (auto simp: id_attribute_def attribute_string_def maybe_printable_def parse_node_id_def)

lemma name_attribute_read:
  assumes "xml_ok E" "plain_text (xe_to_utf8 E t)"
    and "xe_attribute E x a = (if t \<noteq> '''' then Some (c_str (xe_to_utf8 E t)) else None)"
  shows "xe_from_utf8 E (attribute_string E x a) = t"
  using assms(2,3) xml_okD(20,21) [OF assms(1)] by (auto simp: attribute_string_def)

lemma namespace_widened: "ucast (ucast (w :: 16 word) :: 32 word) = w"
  by (rule bit_word_eqI) (simp add: bit_simps)

lemma browse_name_read:
  assumes ok: "xml_ok E" and q: "plain_text (fst q)" "fst q = '''' \<longrightarrow> snd q = 0"
    and x: "xe_attribute E x ''browseName'' = (if xe_qn_empty E q then None else Some (fst q))"
      "xe_attribute E x ''browseNamespace'' = (if xe_qn_empty E q \<or> snd q = 0 then None else Some (dec (unat (snd q))))"
  shows "read_qualified_name E ''browse'' x = q"
proof (cases "fst q = ''''")
  case True
  then have "q = ('''', 0)" using q(2) by (cases q) simp
  then show ?thesis using x xml_okD(23) [OF ok] by (simp add: read_qualified_name_def)
next
  case False
  then have "\<not> xe_qn_empty E q" using xml_okD(24) [OF ok, of "fst q" "snd q"] by simp
  then show ?thesis using x q xml_okD(17) [OF ok]
    by (cases q) (simp add: read_qualified_name_def attribute_uint_def namespace_widened)
qed

section \<open>Elements that a file gives back\<close>

text \<open>The attributes of an element survive, and of a value its texts do too.\<close>

definition neat :: "('n, 'x, 'd) xml_env \<Rightarrow> 'x \<Rightarrow> bool" where
  "neat E x \<longleftrightarrow> (\<forall>a v. xe_attribute E x a = Some v \<longrightarrow> plain_text v)"

definition neat_value :: "('n, 'x, 'd) xml_env \<Rightarrow> 'x \<Rightarrow> bool" where
  "neat_value E x \<longleftrightarrow> neat E x \<and> (attribute_bool E x ''array'' False \<or> solid_text (xe_text E x))
     \<and> (\<forall>c \<in> set (xml_children E ''Value'' x). solid_text (xe_text E c))"

definition neat_node :: "('n, 'x, 'd) xml_env \<Rightarrow> 'x \<Rightarrow> bool" where
  "neat_node E x \<longleftrightarrow> neat E x
     \<and> (\<forall>c \<in> set (xml_children E ''AttributeValue'' x) \<union> set (xml_children E ''Property'' x). neat_value E c)
     \<and> (\<forall>c \<in> set (xml_children E ''Reference'' x). neat E c)"

lemma xml_child_first: "xml_child E t x = (case xml_children E t x of [] \<Rightarrow> None | c # _ \<Rightarrow> Some c)"
proof -
  have "List.find P xs = (case filter P xs of [] \<Rightarrow> None | c # _ \<Rightarrow> Some c)" for P :: "'a \<Rightarrow> bool" and xs
    by (induction xs) auto
  then show ?thesis by (simp add: xml_child_def xml_children_def)
qed

lemma reload_attribute:
  assumes "xml_ok E" "neat E x"
  shows "xe_attribute E (xe_reload E x) a = xe_attribute E x a"
  by (rule xml_okD(25) [OF assms(1)]) (use assms(2) in \<open>simp add: neat_def\<close>)

lemma reload_reads:
  assumes "xml_ok E" "neat E x"
  shows "attribute_string E (xe_reload E x) a = attribute_string E x a"
    "attribute_bool E (xe_reload E x) a d = attribute_bool E x a d" "id_attribute E (xe_reload E x) a = id_attribute E x a"
    "read_qualified_name E p (xe_reload E x) = read_qualified_name E p x"
  by (simp_all add: attribute_string_def attribute_bool_def id_attribute_def read_qualified_name_def attribute_uint_def
      reload_attribute [OF assms] cong: option.case_cong)

lemma reload_variant:
  assumes ok: "xml_ok E" and x: "neat_value E x"
  shows "read_variant E (xe_reload E x) = read_variant E x"
proof -
  have n: "neat E x" using x by (simp add: neat_value_def)
  have "value_texts E (xe_reload E x) = value_texts E x"
    using x xml_okD(26,27) [OF ok] by (simp add: value_texts_def text_string_def neat_value_def)
  then have "read_array_variant E ty (xe_reload E x) = read_array_variant E ty x" for ty
    by (cases ty) (simp_all add: read_array_variant_def)
  moreover have "text_string E (xe_reload E x) = text_string E x" if "\<not> attribute_bool E x ''array'' False"
    using x that xml_okD(26) [OF ok] by (simp add: neat_value_def text_string_def)
  ultimately show ?thesis
    by (cases "attribute_bool E x ''array'' False")
      (simp_all add: read_variant_def reload_reads [OF ok n] cong: option.case_cong)
qed

lemma reload_properties:
  "xml_ok E \<Longrightarrow> \<forall>c \<in> set cs. neat_value E c \<Longrightarrow> read_properties E (List.map (xe_reload E) cs) = read_properties E cs"
  by (induction cs) (simp_all add: reload_reads reload_variant neat_value_def cong: sum.case_cong)

lemma reload_references:
  "xml_ok E \<Longrightarrow> \<forall>c \<in> set cs. neat E c \<Longrightarrow> read_references E (List.map (xe_reload E) cs) = read_references E cs"
  by (induction cs) (simp_all add: reload_reads cong: option.case_cong)

lemma reload_node_state:
  assumes ok: "xml_ok E" and x: "neat_node E x"
  shows "read_node_state E (xe_reload E x) = read_node_state E x"
proof -
  have n: "neat E x" using x by (simp add: neat_node_def)
  have children: "xml_children E t (xe_reload E x) = List.map (xe_reload E) (xml_children E t x)"
    if "t \<in> {''AttributeValue'', ''Property'', ''Reference''}" for t
    using that xml_okD(27) [OF ok] by auto
  have "read_value E (xe_reload E x) = read_value E x"
    using x reload_variant [OF ok] children
    by (cases "xml_children E ''AttributeValue'' x") (simp_all add: read_value_def xml_child_first neat_node_def)
  moreover have "read_properties E (xml_children E ''Property'' (xe_reload E x)) = read_properties E (xml_children E ''Property'' x)"
    "read_references E (xml_children E ''Reference'' (xe_reload E x)) = read_references E (xml_children E ''Reference'' x)"
    using x children reload_properties [OF ok] reload_references [OF ok] by (simp_all add: neat_node_def)
  ultimately show ?thesis by (simp add: read_node_state_def reload_reads [OF ok n] cong: option.case_cong sum.case_cong)
qed

lemma reload_document:
  assumes ok: "xml_ok E" and y: "xml_child E ''AddressSpace'' doc = Some y" "\<forall>x \<in> set (xml_children E ''Node'' y). neat_node E x"
  shows "parse_node_states E (xe_reload E doc) out = parse_node_states E doc out"
proof -
  have "xml_child E ''AddressSpace'' (xe_reload E doc) = Some (xe_reload E y)"
    using y(1) xml_okD(27) [OF ok, of "''AddressSpace''"] by (simp add: xml_child_first split: list.splits)
  moreover have "xml_children E ''Node'' (xe_reload E y) = List.map (xe_reload E) (xml_children E ''Node'' y)"
    using xml_okD(27) [OF ok, of "''Node''"] by simp
  moreover have "\<forall>x \<in> set xs. neat_node E x \<Longrightarrow> read_node_states E (List.map (xe_reload E) xs) out = read_node_states E xs out" for xs out
    by (induction xs arbitrary: out) (simp_all add: reload_node_state [OF ok] split: sum.splits)
  ultimately show ?thesis using y by (simp add: parse_node_states_def)
qed

text \<open>Writing makes such elements.\<close>

lemma plain_texts [simp]:
  "plain_text (bool_text b)" "plain_text (class_name c)" "plain_text (type_name t)" "plain_text (dec n)" "plain_text (dec_int i)"
  "plain_text (hex_encode bytes)"
proof -
  show "plain_text (bool_text b)" by (simp add: plain_text_def bool_text_def)
  show "plain_text (class_name c)" by (cases c) (simp_all add: plain_text_def)
  show "plain_text (type_name t)" by (cases t) (simp_all add: plain_text_def)
  show d: "plain_text (dec n)" for n using dec_digits [of _ n] by (force simp: plain_text_def)
  show "plain_text (dec_int i)" using d by (simp add: dec_int_def plain_text_def)
  have h: "(32 :: nat) \<le> of_char (hex_digit w)" if "hex_value (hex_digit w) \<noteq> None" for w
    using that by (auto simp: hex_value_def Let_def split: if_splits)
  show "plain_text (hex_encode bytes)"
    unfolding plain_text_def hex_encode_def by (auto intro!: h simp: hex_byte)
qed

lemma solid_texts [simp]: "solid_text (bool_text b)" "solid_text (dec n)" "solid_text (dec_int i)" "solid_text (hex_encode bytes)"
proof -
  show "solid_text (bool_text b)" by (simp add: solid_text_def bool_text_def blank_def)
  show d: "solid_text (dec n)" for n by (rule plain_solid [OF plain_texts(4)]) (use dec_digits [of _ n] in fastforce)
  have "c \<noteq> CHR '' ''" if "c \<in> set (dec n)" for c n using dec_digits [OF that] by fastforce
  then have "\<forall>c \<in> set (dec_int i). c \<noteq> CHR '' ''" by (auto simp: dec_int_def)
  then show "solid_text (dec_int i)" by (rule plain_solid [OF plain_texts(5)])
  have h: "hex_digit w \<noteq> CHR '' ''" if "hex_value (hex_digit w) \<noteq> None" for w
    using that by (auto simp: hex_value_def)
  have "\<forall>c \<in> set (hex_encode bytes). c \<noteq> CHR '' ''"
    unfolding hex_encode_def by (auto simp: h hex_byte)
  then show "solid_text (hex_encode bytes)" by (rule plain_solid [OF plain_texts(6)])
qed

lemma neat_simps:
  assumes "xml_ok E"
  shows "neat E (xe_element E t)" "neat E x \<Longrightarrow> plain_text v \<Longrightarrow> neat E (xe_add_attribute E a v x)"
    "neat E (xe_append E c x) = neat E x" "neat E (xe_set_text E s x) = neat E x"
  using xml_okD(3,8,10,13) [OF assms] by (auto simp: neat_def split: option.splits if_splits)

lemma append_array_neat:
  assumes "xml_ok E"
  shows "neat E (append_array_values E texts x) = neat E x"
    "\<forall>c \<in> set (xml_children E ''Value'' (append_array_values E texts x)). c \<in> set (xml_children E ''Value'' x) \<or> xe_text E c \<in> set texts"
proof -
  note D = xml_okD [OF assms]
  show "neat E (append_array_values E texts x) = neat E x" using append_array_values_simps(1) [OF assms] by (simp add: neat_def)
  show "\<forall>c \<in> set (xml_children E ''Value'' (append_array_values E texts x)). c \<in> set (xml_children E ''Value'' x) \<or> xe_text E c \<in> set texts"
  proof (induction texts arbitrary: x)
    case (Cons t ts)
    let ?x = "xe_append E (xe_set_text E t (xe_element E ''Value'')) x"
    have "append_array_values E (t # ts) x = append_array_values E ts ?x" by (simp add: append_array_values_def)
    moreover have "c \<in> set (xml_children E ''Value'' ?x) \<Longrightarrow> c \<in> set (xml_children E ''Value'' x) \<or> xe_text E c = t" for c
      by (auto simp: xml_children_def D)
    ultimately show ?case using Cons.IH [of ?x] by fastforce
  qed (simp add: append_array_values_def)
qed

lemma write_variant_neat:
  assumes ok: "xml_ok E" and p: "printable_variant E v" and x: "neat E x" "xml_children E ''Value'' x = []" "xe_text E x = ''''"
    and a: "xe_attribute E x ''array'' = None" and w: "write_variant E v x = Inr y"
  shows "neat_value E y"
proof -
  note D = xml_okD [OF ok]
  define x2 where "x2 = (if is_array v
    then xe_add_attribute E ''array'' (bool_text True) (xe_add_attribute E ''type'' (c_str (type_name (variant_type_of v))) x)
    else xe_add_attribute E ''type'' (c_str (type_name (variant_type_of v))) x)"
  have w2: "write_contents E v x2 = Inr y" using w unfolding write_variant_def x2_def Let_def .
  note K = write_contents_keeps [OF ok w2]
  have "neat E x2" using x(1) by (simp add: x2_def neat_simps [OF ok])
  then have n: "neat E y" by (simp add: neat_def K)
  have ab: "attribute_bool E y ''array'' False = is_array v" using a by (simp add: attribute_bool_def K x2_def D)
  have c2: "xml_children E ''Value'' x2 = []" "xe_text E x2 = ''''" using x by (simp_all add: x2_def xml_children_def D)
  have "is_array v \<or> solid_text (xe_text E y)"
    using p w2 c2(2) by (cases v) (auto simp: D, simp_all add: solid_text_def)
  moreover have "\<forall>c \<in> set (xml_children E ''Value'' y). solid_text (xe_text E c)"
  proof (cases "is_array v")
    case True
    then show ?thesis using p w2 append_array_neat(2) [OF ok, of _ x2] c2(1) by (cases v) fastforce+
  next
    case False
    then have "xml_children E ''Value'' y = []" using w2 c2(1) D(15) [of "''Value''"] by (cases v) auto
    then show ?thesis by simp
  qed
  ultimately show ?thesis using n ab by (simp add: neat_value_def)
qed

section \<open>Printable states\<close>

text \<open>The states that the file can hold: ids with a string form that is read back, names without control characters, and
  values whose texts survive a file.\<close>

definition printable_state :: "('n, 'x, 'd) xml_env \<Rightarrow> ('n, 'd) file_state \<Rightarrow> bool" where
  "printable_state E s \<longleftrightarrow> printable_id (xe_ids E) (fs_node_id s)
   \<and> (\<forall>n \<in> {fs_type_definition_id s, fs_parent_id s, fs_reference_type_id s, fs_supertype_id s, fs_data_type s}.
        maybe_printable (xe_ids E) n)
   \<and> plain_text (fst (fs_browse_name s)) \<and> (fst (fs_browse_name s) = '''' \<longrightarrow> snd (fs_browse_name s) = 0)
   \<and> plain_text (xe_to_utf8 E (fs_display_name s)) \<and> plain_text (xe_to_utf8 E (fs_inverse_name s))
   \<and> (\<forall>v \<in> set_option (fs_value s). printable_variant E v)
   \<and> (\<forall>p \<in> set (fs_properties s). maybe_printable (xe_ids E) (fst p) \<and> printable_variant E (snd p))
   \<and> (\<forall>r \<in> set (fs_references s). maybe_printable (xe_ids E) (fr_type r) \<and> maybe_printable (xe_ids E) (fr_node r))"

text \<open>A property whose decl has no id is written without one.\<close>

definition undeclared_property :: "('n, 'x, 'd) xml_env \<Rightarrow> ('n, 'd) file_state \<Rightarrow> bool" where
  "undeclared_property E s \<longleftrightarrow> nl_null (xe_ids E) \<in> fst ` set (fs_properties s)"

definition attributes_of :: "('n, 'x, 'd) xml_env \<Rightarrow> ('n, 'd) file_state \<Rightarrow> (string \<Rightarrow> string option) \<Rightarrow> bool" where
  "attributes_of E s f \<longleftrightarrow> (let idf = (\<lambda>n. if n \<noteq> nl_null (xe_ids E) then Some (node_id_to_scada_string (xe_ids E) n) else None);
      namef = (\<lambda>t. if t \<noteq> '''' then Some (c_str (xe_to_utf8 E t)) else None); q = fs_browse_name s in
     f ''id'' = Some (node_id_to_scada_string (xe_ids E) (fs_node_id s)) \<and> f ''class'' = Some (class_name (fs_node_class s))
     \<and> f ''typeDefinition'' = idf (fs_type_definition_id s) \<and> f ''parent'' = idf (fs_parent_id s)
     \<and> f ''parentReference'' = idf (fs_reference_type_id s) \<and> f ''supertype'' = idf (fs_supertype_id s)
     \<and> f ''browseName'' = (if xe_qn_empty E q then None else Some (fst q))
     \<and> f ''browseNamespace'' = (if xe_qn_empty E q \<or> snd q = 0 then None else Some (dec (unat (snd q))))
     \<and> f ''displayName'' = namef (fs_display_name s) \<and> f ''inverseName'' = namef (fs_inverse_name s)
     \<and> f ''dataType'' = idf (fs_data_type s))"

lemma write_attributes_read:
  assumes ok: "xml_ok E"
  shows "attributes_of E s (xe_attribute E (write_attributes E s (xe_element E ''Node'')))"
    "xe_name E (write_attributes E s (xe_element E ''Node'')) = ''Node''"
    "xe_nodes E (write_attributes E s (xe_element E ''Node'')) = []"
proof -
  note S = set_node_id_attribute_simps [OF ok] set_name_attribute_simps [OF ok] set_qualified_name_simps [OF ok]
    xml_okD(2-6,8) [OF ok]
  show "attributes_of E s (xe_attribute E (write_attributes E s (xe_element E ''Node'')))"
    unfolding attributes_of_def Let_def by (intro conjI) (simp_all add: write_attributes_def Let_def S)
  show "xe_name E (write_attributes E s (xe_element E ''Node'')) = ''Node''"
    "xe_nodes E (write_attributes E s (xe_element E ''Node'')) = []"
    by (simp_all add: write_attributes_def Let_def S)
qed

text \<open>The attributes of such a state are plain.\<close>

lemma id_text_plain: "maybe_printable L n \<Longrightarrow> n \<noteq> nl_null L \<Longrightarrow> plain_text (node_id_to_scada_string L n)"
  by (simp add: maybe_printable_def printable_id_def)

lemma set_node_id_attribute_neat:
  "xml_ok E \<Longrightarrow> maybe_printable (xe_ids E) n \<Longrightarrow> neat E x \<Longrightarrow> neat E (set_node_id_attribute E a n x)"
  by (simp add: set_node_id_attribute_def neat_simps(2) id_text_plain)

lemma set_name_attribute_neat:
  "xml_ok E \<Longrightarrow> plain_text (xe_to_utf8 E t) \<Longrightarrow> neat E x \<Longrightarrow> neat E (set_name_attribute E a t x)"
  by (simp add: set_name_attribute_def neat_simps(2))

lemma set_qualified_name_neat:
  "xml_ok E \<Longrightarrow> plain_text (fst q) \<Longrightarrow> neat E x \<Longrightarrow> neat E (set_qualified_name E pre q x)"
  by (simp add: set_qualified_name_def Let_def neat_simps(2))

lemma write_attributes_neat:
  assumes ok: "xml_ok E" and p: "printable_state E s"
  shows "neat E (write_attributes E s (xe_element E ''Node''))"
proof -
  have "maybe_printable (xe_ids E) n"
    if "n \<in> {fs_type_definition_id s, fs_parent_id s, fs_reference_type_id s, fs_supertype_id s, fs_data_type s}" for n
    using p that unfolding printable_state_def by blast
  moreover have "plain_text (node_id_to_scada_string (xe_ids E) (fs_node_id s))" "plain_text (fst (fs_browse_name s))"
    "plain_text (xe_to_utf8 E (fs_display_name s))" "plain_text (xe_to_utf8 E (fs_inverse_name s))"
    using p by (simp_all add: printable_state_def printable_id_def)
  ultimately show ?thesis unfolding write_attributes_def Let_def
    by (intro set_node_id_attribute_neat [OF ok] set_name_attribute_neat [OF ok] set_qualified_name_neat [OF ok]
        neat_simps(2) [OF ok] neat_simps(1) [OF ok]) simp_all
qed

section \<open>Written children\<close>

text \<open>\<open>extended\<close>: an element with children added, and its attributes and name as they were.\<close>

definition extended :: "('n, 'x, 'd) xml_env \<Rightarrow> 'x \<Rightarrow> 'x list \<Rightarrow> 'x \<Rightarrow> bool" where
  "extended E x cs y \<longleftrightarrow>
     xe_name E y = xe_name E x \<and> xe_attribute E y = xe_attribute E x \<and> xe_nodes E y = xe_nodes E x @ cs"

lemma extended_trans: "extended E x cs y \<Longrightarrow> extended E y ds z \<Longrightarrow> extended E x (cs @ ds) z"
  by (simp add: extended_def)

lemma extended_append: "xml_ok E \<Longrightarrow> extended E x [c] (xe_append E c x)"
  using xml_okD(9-11) [of E] by (auto simp: extended_def)

lemma variant_element:
  assumes ok: "xml_ok E" and p: "printable_variant E v"
    and x: "xe_attribute E x ''type'' = None" "xe_attribute E x ''array'' = None" "xe_nodes E x = []"
    and t: "neat E x" "xe_text E x = ''''"
  obtains y where "write_variant E v x = Inr y" "read_variant E y = Inr v" "xe_name E y = xe_name E x"
    "\<And>a. a \<notin> {''type'', ''array''} \<Longrightarrow> xe_attribute E y a = xe_attribute E x a" "neat_value E y"
proof -
  obtain y where y: "write_variant E v x = Inr y" using write_variant_returns [OF p] by blast
  have "neat_value E y" by (rule write_variant_neat [OF ok p t(1) _ t(2) x(2) y]) (simp add: xml_children_def x)
  with y show ?thesis
    by (intro that [OF y variant_round_trip [OF ok p x(1,2) _ y] write_variant_keeps(2) [OF ok y] write_variant_keeps(1) [OF ok y]])
      (simp_all add: value_texts_def xml_children_def x)
qed

lemma write_value_read:
  assumes ok: "xml_ok E" and p: "\<forall>v \<in> set_option v. printable_variant E v"
  obtains y cs where "write_value E v x = Inr y" "extended E x cs y"
    "\<forall>c \<in> set cs. xe_name E c = ''AttributeValue'' \<and> neat_value E c"
    "(case cs of [] \<Rightarrow> Inr None | c # _ \<Rightarrow> map_sum id Some (read_variant E c)) = Inr v"
proof (cases v)
  case None
  then show ?thesis using that [of x "[]"] by (simp add: write_value_def extended_def)
next
  case (Some w)
  note D = xml_okD [OF ok]
  obtain c where "write_variant E w (xe_element E ''AttributeValue'') = Inr c" "read_variant E c = Inr w"
    "xe_name E c = ''AttributeValue''" "neat_value E c"
    using variant_element [OF ok, of w "xe_element E ''AttributeValue''"] p Some by (auto simp: D neat_simps [OF ok])
  then show ?thesis using that [of "xe_append E c x" "[c]"] extended_append [OF ok] Some by (simp add: write_value_def)
qed

lemma write_properties_read:
  assumes ok: "xml_ok E" and p: "\<forall>p \<in> set ps. maybe_printable (xe_ids E) (fst p) \<and> printable_variant E (snd p)"
  shows "\<exists>y cs. write_properties E ps x = Inr y \<and> extended E x cs y \<and> (\<forall>c \<in> set cs. xe_name E c = ''Property'' \<and> neat_value E c)
    \<and> read_properties E cs = (if nl_null (xe_ids E) \<in> fst ` set ps then Inl BadWrongPropertyId else Inr ps)"
  using p
proof (induction ps arbitrary: x)
  case Nil
  then show ?case by (auto simp: extended_def intro!: exI [of _ "[]"])
next
  case (Cons p ps)
  note D = xml_okD [OF ok] and S = set_node_id_attribute_simps [OF ok]
  let ?x = "set_node_id_attribute E ''id'' (fst p) (xe_element E ''Property'')"
  have pr: "maybe_printable (xe_ids E) (fst p)" "printable_variant E (snd p)" using Cons.prems by simp_all
  obtain c where c: "write_variant E (snd p) ?x = Inr c" "read_variant E c = Inr (snd p)" "xe_name E c = ''Property''"
    "xe_attribute E c ''id'' = xe_attribute E ?x ''id''" "neat_value E c"
  proof (rule variant_element [OF ok pr(2), of ?x])
    show "neat E ?x" by (rule set_node_id_attribute_neat [OF ok pr(1) neat_simps(1) [OF ok]])
    show "xe_text E ?x = ''''" by (simp add: set_node_id_attribute_def D)
  qed (simp_all add: D S)
  have id: "id_attribute E c ''id'' = fst p"
    by (rule id_attribute_read [OF ok]) (simp_all add: c S D pr)
  obtain y cs where y: "write_properties E ps (xe_append E c x) = Inr y" "extended E (xe_append E c x) cs y"
    "\<forall>c \<in> set cs. xe_name E c = ''Property'' \<and> neat_value E c"
    "read_properties E cs = (if nl_null (xe_ids E) \<in> fst ` set ps then Inl BadWrongPropertyId else Inr ps)"
    using Cons.IH [of "xe_append E c x"] Cons.prems by auto
  have "extended E x (c # cs) y" using extended_trans [OF extended_append [OF ok] y(2)] by simp
  with y c id show ?case by (intro exI [of _ y] exI [of _ "c # cs"]) (auto simp: image_iff)
qed

lemma write_references_read:
  assumes ok: "xml_ok E" and p: "\<forall>r \<in> set rs. maybe_printable (xe_ids E) (fr_type r) \<and> maybe_printable (xe_ids E) (fr_node r)"
  shows "extended E x (List.map (write_reference E) rs) (write_references E rs x)"
    "\<forall>c \<in> set (List.map (write_reference E) rs). xe_name E c = ''Reference'' \<and> neat E c"
    "read_references E (List.map (write_reference E) rs) = Inr rs"
proof -
  note D = xml_okD [OF ok] and S = set_node_id_attribute_simps [OF ok]
  show "extended E x (List.map (write_reference E) rs) (write_references E rs x)"
  proof (induction rs arbitrary: x)
    case (Cons r rs)
    show ?case
      using extended_trans [OF extended_append [OF ok, of x "write_reference E r"] Cons.IH] by (simp add: write_references_def)
  qed (simp add: write_references_def extended_def)
  have "neat E (write_reference E r)" if "r \<in> set rs" for r
    using p that unfolding write_reference_def
    by (intro neat_simps(2) [OF ok] set_node_id_attribute_neat [OF ok] neat_simps(1) [OF ok]) simp_all
  then show "\<forall>c \<in> set (List.map (write_reference E) rs). xe_name E c = ''Reference'' \<and> neat E c"
    by (simp add: write_reference_def D S)
  have one: "id_attribute E (write_reference E r) ''type'' = fr_type r"
    "id_attribute E (write_reference E r) ''target'' = fr_node r"
    "attribute_bool E (write_reference E r) ''forward'' True = fr_forward r"
    "attribute_string E (write_reference E r) ''targetClass'' = class_name (fr_node_class r)"
    if "maybe_printable (xe_ids E) (fr_type r)" "maybe_printable (xe_ids E) (fr_node r)" for r
  proof -
    show "id_attribute E (write_reference E r) ''type'' = fr_type r"
      by (rule id_attribute_read [OF ok that(1)]) (simp add: write_reference_def D S)
    show "id_attribute E (write_reference E r) ''target'' = fr_node r"
      by (rule id_attribute_read [OF ok that(2)]) (simp add: write_reference_def D S)
    show "attribute_bool E (write_reference E r) ''forward'' True = fr_forward r"
      "attribute_string E (write_reference E r) ''targetClass'' = class_name (fr_node_class r)"
      by (simp_all add: attribute_bool_def attribute_string_def write_reference_def D S)
  qed
  show "read_references E (List.map (write_reference E) rs) = Inr rs"
    using p by (induction rs) (simp_all add: one)
qed

lemma children_named:
  "\<forall>c \<in> set cs. xe_name E c = t \<Longrightarrow> filter (\<lambda>c. xe_name E c = t') cs = (if t = t' then cs else [])"
  by (induction cs) auto

lemma find_named_none: "\<forall>c \<in> set cs. xe_name E c = t \<Longrightarrow> t \<noteq> t' \<Longrightarrow> List.find (\<lambda>c. xe_name E c = t') cs = None"
  by (auto simp: find_None_iff)

lemma find_append: "List.find P (xs @ ys) = (case List.find P xs of None \<Rightarrow> List.find P ys | Some x \<Rightarrow> Some x)"
  by (induction xs) auto

lemma node_state_element:
  assumes ok: "xml_ok E" and p: "printable_state E s"
  obtains x where "\<And>parent. write_node_state E s parent = Inr (xe_append E x parent)" "xe_name E x = ''Node''"
    "read_node_state E x = (if undeclared_property E s then Inl BadWrongPropertyId else Inr s)" "neat_node E x"
proof -
  note W = write_attributes_read [OF ok, of s] and P = p [unfolded printable_state_def]
  let ?start = "write_attributes E s (xe_element E ''Node'')"
  obtain x1 vs where 1: "write_value E (fs_value s) ?start = Inr x1" "extended E ?start vs x1"
    "\<forall>c \<in> set vs. xe_name E c = ''AttributeValue'' \<and> neat_value E c"
    "(case vs of [] \<Rightarrow> Inr None | c # _ \<Rightarrow> map_sum id Some (read_variant E c)) = Inr (fs_value s)"
    using write_value_read [OF ok, of "fs_value s" ?start] P by blast
  obtain x2 ps where 2: "write_properties E (fs_properties s) x1 = Inr x2" "extended E x1 ps x2"
    "\<forall>c \<in> set ps. xe_name E c = ''Property'' \<and> neat_value E c"
    "read_properties E ps = (if undeclared_property E s then Inl BadWrongPropertyId else Inr (fs_properties s))"
    using write_properties_read [OF ok, of "fs_properties s" x1] P unfolding undeclared_property_def by blast
  let ?rs = "List.map (write_reference E) (fs_references s)"
  let ?x = "write_references E (fs_references s) x2"
  have 3: "extended E x2 ?rs ?x" "\<forall>c \<in> set ?rs. xe_name E c = ''Reference'' \<and> neat E c" "read_references E ?rs = Inr (fs_references s)"
    using write_references_read [OF ok, of "fs_references s"] P by auto
  have named: "\<forall>c \<in> set vs. xe_name E c = ''AttributeValue''" "\<forall>c \<in> set ps. xe_name E c = ''Property''"
    "\<forall>c \<in> set ?rs. xe_name E c = ''Reference''"
    using 1(3) 2(3) 3(2) by blast+
  have e: "extended E ?start (vs @ ps @ ?rs) ?x" using extended_trans [OF extended_trans [OF 1(2) 2(2)] 3(1)] by simp
  then have nodes: "xe_nodes E ?x = vs @ ps @ ?rs" and name: "xe_name E ?x = ''Node''"
    and a: "attributes_of E s (xe_attribute E ?x)"
    using W by (simp_all add: extended_def)
  have "read_value E ?x = Inr (fs_value s)"
    using 1(4) named(1) find_named_none [OF named(2), of "''AttributeValue''"] find_named_none [OF named(3), of "''AttributeValue''"]
    by (cases vs) (simp_all add: read_value_def xml_child_def nodes find_append)
  moreover have cs: "xml_children E ''AttributeValue'' ?x = vs" "xml_children E ''Property'' ?x = ps"
    "xml_children E ''Reference'' ?x = ?rs"
    using children_named [OF named(1)] children_named [OF named(2)] children_named [OF named(3)]
    by (simp_all add: xml_children_def nodes)
  moreover have "id_attribute E ?x ''id'' = fs_node_id s" "id_attribute E ?x ''typeDefinition'' = fs_type_definition_id s"
    "id_attribute E ?x ''parent'' = fs_parent_id s" "id_attribute E ?x ''parentReference'' = fs_reference_type_id s"
    "id_attribute E ?x ''dataType'' = fs_data_type s" "id_attribute E ?x ''supertype'' = fs_supertype_id s"
    using a P by - (rule id_attribute_read [OF ok]; simp add: attributes_of_def Let_def maybe_printable_def printable_id_def)+
  moreover have "xe_from_utf8 E (attribute_string E ?x ''displayName'') = fs_display_name s"
    "xe_from_utf8 E (attribute_string E ?x ''inverseName'') = fs_inverse_name s"
    using a P by - (rule name_attribute_read [OF ok]; simp add: attributes_of_def Let_def)+
  moreover have "parse_node_class (attribute_string E ?x ''class'') = Some (fs_node_class s)"
    using a by (simp add: attributes_of_def Let_def attribute_string_def)
  moreover have "read_qualified_name E ''browse'' ?x = fs_browse_name s"
    by (rule browse_name_read [OF ok]) (use a P in \<open>simp_all add: attributes_of_def Let_def\<close>)
  moreover have "fs_node_id s \<noteq> nl_null (xe_ids E)" using P by (simp add: printable_id_def)
  ultimately have "read_node_state E ?x = (if undeclared_property E s then Inl BadWrongPropertyId else Inr s)" using 2(4) 3(3) by (simp add: read_node_state_def)
  moreover have "write_node_state E s parent = Inr (xe_append E ?x parent)" for parent
    by (simp add: write_node_state_def 1(1) 2(1))
  moreover have "neat E ?x" using write_attributes_neat [OF ok p] e by (simp add: neat_def extended_def)
  then have "neat_node E ?x" using 1(3) 2(3) 3(2) unfolding neat_node_def cs by blast
  ultimately show ?thesis using that name by blast
qed

section \<open>Documents\<close>

lemma write_node_states_read:
  assumes ok: "xml_ok E" and p: "\<forall>s \<in> set ss. printable_state E s"
  shows "\<exists>y cs. write_node_states E ss x = Inr y \<and> extended E x cs y \<and> (\<forall>c \<in> set cs. xe_name E c = ''Node'' \<and> neat_node E c)
    \<and> (\<forall>out. read_node_states E cs out = (if \<exists>s \<in> set ss. undeclared_property E s then Inl BadWrongPropertyId else Inr (out @ ss)))"
  using p
proof (induction ss arbitrary: x)
  case Nil
  then show ?case by (auto simp: extended_def intro!: exI [of _ "[]"])
next
  case (Cons s ss)
  obtain c where c: "\<And>parent. write_node_state E s parent = Inr (xe_append E c parent)" "xe_name E c = ''Node''"
    "read_node_state E c = (if undeclared_property E s then Inl BadWrongPropertyId else Inr s)" "neat_node E c"
    using node_state_element [OF ok, of s] Cons.prems by auto
  obtain y cs where y: "write_node_states E ss (xe_append E c x) = Inr y" "extended E (xe_append E c x) cs y"
    "\<forall>c \<in> set cs. xe_name E c = ''Node'' \<and> neat_node E c"
    "\<And>out. read_node_states E cs out = (if \<exists>s \<in> set ss. undeclared_property E s then Inl BadWrongPropertyId else Inr (out @ ss))"
    using Cons.IH [of "xe_append E c x"] Cons.prems by auto
  have "extended E x (c # cs) y" using extended_trans [OF extended_append [OF ok] y(2)] by simp
  with y c show ?case by (intro exI [of _ y] exI [of _ "c # cs"]) simp
qed

text \<open>What is written is read back from the file, unless a property has no id.\<close>

lemma document_round_trip:
  assumes ok: "xml_ok E" and p: "\<forall>s \<in> set ss. printable_state E s"
  obtains doc where "write_document E ss = Inr doc" "xml_child E ''UANodeSet'' (xe_reload E doc) = None"
    "\<And>out. parse_node_states E (xe_reload E doc) out =
       (if \<exists>s \<in> set ss. undeclared_property E s then Inl BadWrongPropertyId else Inr (out @ ss))"
proof -
  note D = xml_okD [OF ok]
  define r where "r = xe_add_attribute E ''format'' ''scada-node-state-v1'' (xe_element E ''AddressSpace'')"
  define decl where
    "decl = xe_add_attribute E ''encoding'' ''UTF-8'' (xe_add_attribute E ''version'' ''1.0'' (xe_element E ''xml''))"
  obtain y cs where y: "write_node_states E ss r = Inr y" "extended E r cs y"
    "\<forall>c \<in> set cs. xe_name E c = ''Node'' \<and> neat_node E c"
    "\<And>out. read_node_states E cs out = (if \<exists>s \<in> set ss. undeclared_property E s then Inl BadWrongPropertyId else Inr (out @ ss))"
    using write_node_states_read [OF ok p, of r] by auto
  let ?doc = "xe_append E y (xe_append E decl (xe_element E ''''))"
  have n: "xe_name E y = ''AddressSpace''" "xe_nodes E y = cs"
    using y(2) by (simp_all add: extended_def r_def D)
  have r: "xml_child E ''AddressSpace'' ?doc = Some y"
    by (simp add: xml_child_def D n decl_def)
  have cs: "xml_children E ''Node'' y = cs"
    using children_named [of cs E "''Node''" "''Node''"] y(3) by (simp add: xml_children_def n)
  have "parse_node_states E ?doc out =
      (if \<exists>s \<in> set ss. undeclared_property E s then Inl BadWrongPropertyId else Inr (out @ ss))" for out
    by (simp add: parse_node_states_def r cs y(4))
  moreover have "parse_node_states E (xe_reload E ?doc) out = parse_node_states E ?doc out" for out
    by (rule reload_document [OF ok r]) (use y(3) in \<open>simp add: cs\<close>)
  moreover have "xml_child E ''UANodeSet'' (xe_reload E ?doc) = None"
    using D(27) [of "''UANodeSet''" ?doc] by (simp add: xml_child_first xml_children_def D n decl_def)
  moreover have "write_document E ss = Inr ?doc"
    using y(1) by (simp add: write_document_def Let_def r_def decl_def)
  ultimately show ?thesis using that [of ?doc] by simp
qed

text \<open>Files that were saved are read one after the other.\<close>

lemma parse_saved_files:
  assumes ok: "xml_ok E"
    and p: "list_all (\<lambda>ss. list_all (\<lambda>s. printable_state E s \<and> \<not> undeclared_property E s) ss) sss"
    and docs: "list_all2 (\<lambda>ss doc. write_document E ss = Inr doc) sss docs"
  shows "parse_files (parse_either E scada) (List.map (Some \<circ> xe_reload E) docs) out = Inr (out @ concat sss)"
  using docs p
proof (induction sss docs arbitrary: out rule: list_all2_induct)
  case (Cons ss sss doc docs)
  have ps: "\<forall>s \<in> set ss. printable_state E s" "\<not> (\<exists>s \<in> set ss. undeclared_property E s)"
    using Cons.prems by (auto simp: list_all_iff)
  obtain doc' where d: "write_document E ss = Inr doc'" "xml_child E ''UANodeSet'' (xe_reload E doc') = None"
    "\<And>out. parse_node_states E (xe_reload E doc') out =
       (if \<exists>s \<in> set ss. undeclared_property E s then Inl BadWrongPropertyId else Inr (out @ ss))"
    by (rule document_round_trip [OF ok ps(1)]) blast
  have "parse_either E scada (xe_reload E doc) out = Inr (out @ ss)" for out
    using d ps(2) Cons.hyps(1) by (simp add: parse_either_def)
  then show ?case using Cons.IH Cons.prems by simp
qed simp

section \<open>References of a node set\<close>

text \<open>What the references of a node set say: parents, supertypes, type definitions, and the others.\<close>

definition ua_number :: "'n nid_lib \<Rightarrow> 'n \<times> bool \<times> 'n \<Rightarrow> 32 word" where
  "ua_number L r = ua_reference_number L (fst r)"

definition ua_forward :: "'n \<times> bool \<times> 'n \<Rightarrow> bool" where
  "ua_forward r = fst (snd r)"

definition ua_supertypes :: "'n nid_lib \<Rightarrow> ('n \<times> bool \<times> 'n) list \<Rightarrow> ('n \<times> bool \<times> 'n) list" where
  "ua_supertypes L rs = filter (\<lambda>r. \<not> ua_forward r \<and> ua_number L r = 45) rs"

definition ua_parents :: "'n nid_lib \<Rightarrow> ('n \<times> bool \<times> 'n) list \<Rightarrow> ('n \<times> bool \<times> 'n) list" where
  "ua_parents L rs = filter (\<lambda>r. \<not> ua_forward r \<and> ua_number L r \<in> {45, 47, 46, 35}) rs"

definition ua_type_definitions :: "'n nid_lib \<Rightarrow> ('n \<times> bool \<times> 'n) list \<Rightarrow> ('n \<times> bool \<times> 'n) list" where
  "ua_type_definitions L rs = filter (\<lambda>r. ua_forward r \<and> ua_number L r = 40) rs"

definition ua_others :: "'n nid_lib \<Rightarrow> ('n \<times> bool \<times> 'n) list \<Rightarrow> ('n \<times> bool \<times> 'n) list" where
  "ua_others L rs = filter (\<lambda>r. if ua_forward r then ua_number L r \<noteq> 40 else ua_number L r \<notin> {45, 47, 46, 35}) rs"

lemmas ua_parts = ua_number_def ua_forward_def ua_supertypes_def ua_parents_def ua_type_definitions_def ua_others_def

abbreviation last_target :: "'n \<Rightarrow> ('n \<times> bool \<times> 'n) list \<Rightarrow> 'n" where
  "last_target n rs \<equiv> last (n # List.map (\<lambda>r. snd (snd r)) rs)"

lemma fold_ua_references:
  fixes L s rs
  defines "s' \<equiv> fold (apply_ua_reference L) rs s"
  shows "fs_supertype_id s' = last_target (fs_supertype_id s) (ua_supertypes L rs)"
    "fs_parent_id s' = last_target (fs_parent_id s) (ua_parents L rs)"
    "fs_reference_type_id s' = last (fs_reference_type_id s # List.map fst (ua_parents L rs))"
    "fs_type_definition_id s' = last_target (fs_type_definition_id s) (ua_type_definitions L rs)"
    "fs_references s' = fs_references s @ List.map (\<lambda>r. \<lparr>fr_type = fst r, fr_forward = ua_forward r, fr_node = snd (snd r),
       fr_node_class = ObjectClass\<rparr>) (ua_others L rs)"
    "fs_node_id s' = fs_node_id s" "fs_node_class s' = fs_node_class s"
  unfolding s'_def
  by (induction rs arbitrary: s) (auto simp: ua_parts apply_ua_reference_def Let_def split: prod.splits)

section \<open>Created nodes\<close>

lemma create_node_adds: "adds (ae_ua A) (create_node k A L cp)"
  unfolding adds_def by (auto dest: create_node_added)

lemma create_states_there:
  "create_states (create_node k A L cp) ss sp = Some (sp', Good, outs) \<Longrightarrow> as_ok (ae_ua A) sp \<Longrightarrow>
     \<forall>s \<in> set ss. as_nodes sp' (fs_node_id s) \<noteq> None"
proof (induction ss arbitrary: sp outs)
  case (Cons s ss)
  have rest: "\<forall>s' \<in> set (s # ss). as_nodes sp' (fs_node_id s') \<noteq> None"
    if "create_states (create_node k A L cp) ss sp1 = Some (sp', Good, o2)" "as_ok (ae_ua A) sp1"
      "as_nodes sp1 (fs_node_id s) \<noteq> None" for sp1 o2
    using Cons.IH [OF that(1,2)] create_states_added [OF create_node_adds that(1)] that(2,3) grows_node [of sp1 sp' "fs_node_id s"]
    by (simp add: added_def)
  show ?case
  proof (cases "as_nodes sp (fs_node_id s) = None")
    case True
    then have "and_then (create_node k A L cp (create_state_of s) sp) (create_states (create_node k A L cp) ss)
        = Some (sp', Good, outs)"
      using Cons.prems(1) by simp
    then show ?thesis
    proof (cases rule: and_then_cases)
      case (went_on sp1 o1 o2)
      have "as_ok (ae_ua A) sp1 \<and> cls (as_nodes sp1) (fs_node_id s) \<noteq> None"
        using create_node_effect [OF went_on(1) Cons.prems(2)] by (simp add: Let_def create_state_of_def)
      then show ?thesis using rest [OF went_on(2)] cls_dom [of "as_nodes sp1" "fs_node_id s"] by simp
    qed simp
  next
    case False
    then show ?thesis using rest [of sp outs] Cons.prems by simp
  qed
qed simp

section \<open>Promoted parents\<close>

text \<open>The supertype some steps above a reference type.\<close>

definition supertype_at :: "('n \<Rightarrow> 'n option) \<Rightarrow> 'n \<Rightarrow> nat \<Rightarrow> 'n option" where
  "supertype_at supers n k = ((\<lambda>x. Option.bind x supers) ^^ k) (Some n)"

lemma supertype_at_Suc: "supers n = Some t \<Longrightarrow> supertype_at supers n (Suc k) = supertype_at supers t k"
  unfolding supertype_at_def by (simp add: funpow_Suc_right del: funpow.simps)

lemma supertype_at_0 [simp]: "supertype_at supers n 0 = Some n"
  by (simp add: supertype_at_def)

lemma supertype_at_None: "supers n = None \<Longrightarrow> supertype_at supers n (Suc k) = None"
  by (induction k) (simp_all add: supertype_at_def)

lemma hierarchical_walk_iff:
  "hierarchical_walk U supers k n \<longleftrightarrow>
     (\<exists>i < k. supertype_at supers n i = Some (hierarchical_references U) \<and> (\<forall>j \<le> i. supertype_at supers n j \<noteq> Some (ua_null U)))"
proof (induction k arbitrary: n)
  case (Suc k)
  let ?P = "\<lambda>n i. supertype_at supers n i = Some (hierarchical_references U) \<and> (\<forall>j \<le> i. supertype_at supers n j \<noteq> Some (ua_null U))"
  have step: "(\<exists>i < Suc k. ?P n i) \<longleftrightarrow> ?P n 0 \<or> (\<exists>i < k. ?P n (Suc i))" by (rule Ex_less_Suc2)
  show ?case
  proof (cases "n = ua_null U")
    case True
    then show ?thesis by (auto intro!: exI [of _ 0])
  next
    case False
    have all: "(\<forall>j \<le> Suc i. supertype_at supers n j \<noteq> Some (ua_null U))
        \<longleftrightarrow> (\<forall>j \<le> i. supertype_at supers n (Suc j) \<noteq> Some (ua_null U))" for i
      using False All_less_Suc2 [of "Suc i" "\<lambda>j. supertype_at supers n j \<noteq> Some (ua_null U)"] by (simp add: less_Suc_eq_le)
    show ?thesis
    proof (cases "supers n")
      case None
      then show ?thesis unfolding step all using False by (auto simp: supertype_at_None)
    next
      case (Some t)
      then show ?thesis unfolding step all using False Suc.IH [of t] by (auto simp: supertype_at_Suc)
    qed
  qed
qed simp

lemma dropWhile_first:
  "filter P xs = r # l \<Longrightarrow>
     \<exists>rest. dropWhile (\<lambda>x. \<not> P x) xs = r # rest \<and> takeWhile (\<lambda>x. \<not> P x) xs @ rest = remove1 r xs"
proof (induction xs)
  case (Cons x xs)
  have "P r" using Cons.prems by (metis filter_eq_Cons_iff)
  with Cons show ?case by (cases "P x") auto
qed simp

end
