(* ===== verification/Load_Facts.thy ===== *)
theory Load_Facts
  imports Space_Xml_Facts
begin

text \<open>
  Where the nodes stand that loading adds to an address space: a state that is created has the reference from its
  parent, and the nodes that a creation makes beside it are properties of new nodes.
\<close>

section \<open>Nodes that come with others\<close>

text \<open>The new nodes, but for some, hang as properties below a node outside of \<open>B\<close>.\<close>

definition hung :: "'n ua \<Rightarrow> 'n set \<Rightarrow> 'n set \<Rightarrow> ('n, 'v, 'q, 't, 'y) aspace \<Rightarrow> ('n, 'v, 'q, 't, 'y) aspace \<Rightarrow> bool" where
  "hung U B X sp sp' \<longleftrightarrow> (\<forall>m. m \<notin> X \<longrightarrow> as_nodes sp m = None \<longrightarrow> as_nodes sp' m \<noteq> None \<longrightarrow>
     (\<exists>q. q \<notin> B \<and> (has_property U, q) \<in> set (iv (as_nodes sp') m)))"

lemma hung_trans:
  assumes "hung U B X a b" "hung U B X b c" "as_grows b c"
  shows "hung U B X a c"
  unfolding hung_def
proof (intro allI impI)
  fix m assume m: "m \<notin> X" "as_nodes a m = None" "as_nodes c m \<noteq> None"
  show "\<exists>q. q \<notin> B \<and> (has_property U, q) \<in> set (iv (as_nodes c) m)"
  proof (cases "as_nodes b m = None")
    case True
    then show ?thesis using m assms(2) by (simp add: hung_def)
  next
    case False
    then obtain q where "q \<notin> B" "(has_property U, q) \<in> set (iv (as_nodes b) m)" using m assms(1) by (auto simp: hung_def)
    moreover have "set (iv (as_nodes b) m) \<subseteq> set (iv (as_nodes c) m)" using assms(3) False by (simp add: as_grows_def)
    ultimately show ?thesis by blast
  qed
qed

lemma hung_same: "(\<And>m. as_nodes sp' m = None \<longleftrightarrow> as_nodes sp m = None) \<Longrightarrow> hung U B X sp sp'"
  by (simp add: hung_def)

lemma hung_more: "hung U B X sp sp' \<Longrightarrow> X \<subseteq> Y \<Longrightarrow> hung U B Y sp sp'"
  unfolding hung_def by blast

lemma hung_drop:
  assumes "hung U B {n} sp sp'" "q \<notin> B" "(has_property U, q) \<in> set (iv (as_nodes sp') n)"
  shows "hung U B {} sp sp'"
  unfolding hung_def
proof (intro allI impI)
  fix m assume "as_nodes sp m = None" "as_nodes sp' m \<noteq> None"
  then show "\<exists>q. q \<notin> B \<and> (has_property U, q) \<in> set (iv (as_nodes sp') m)"
    using assms by (cases "m = n") (auto simp: hung_def)
qed

lemma add_reference_dom:
  assumes "add_reference U ty s t sp = Some (sp', outs)"
  shows "as_nodes sp' m = None \<longleftrightarrow> as_nodes sp m = None"
proof -
  have "body (as_nodes sp') = body (as_nodes sp)"
    using add_reference_changed(1) [OF assms] by (simp add: changed_def)
  then show ?thesis using body_dom by metis
qed

lemma set_new_properties_dom:
  "set_new_properties E n props sp = Some (sp', e, outs) \<Longrightarrow> as_nodes sp' m = None \<longleftrightarrow> as_nodes sp m = None"
proof (induction props arbitrary: sp outs)
  case (Cons p props)
  obtain decl v where p: "p = (decl, v)" by force
  from Cons.prems obtain h good o1 where 1: "set_property_value E (as_nodes sp) n decl v = Some (h, good, o1)"
    and rest: "(if \<not> good then Some (sp\<lparr>as_nodes := h\<rparr>, Bad, o1)
      else map_option (\<lambda>(sp2, e2, outs2). (sp2, e2, o1 @ outs2)) (set_new_properties E n props (sp\<lparr>as_nodes := h\<rparr>))) = Some (sp', e, outs)"
    by (auto simp: p bind_eq_Some_conv)
  have "as_nodes sp' m = None \<longleftrightarrow> h m = None" using rest Cons.IH [of "sp\<lparr>as_nodes := h\<rparr>"] by (auto split: if_splits)
  then show ?case using same_graph_ok(2) [OF set_property_value_same [OF 1]] by simp
qed simp

text \<open>What a successful creation of a state without children leaves: the node under its parent, and hanging nodes.\<close>

definition hangs where
  "hangs U B create \<longleftrightarrow> (\<forall>t sp sp' outs. create t sp = Some (sp', Good, outs) \<longrightarrow> as_ok U sp \<longrightarrow> B \<subseteq> dom (as_nodes sp) \<longrightarrow>
     tree_children t = [] \<longrightarrow> hung U B {cs_node_id (tree_state t)} sp sp'
       \<and> (cs_parent_id (tree_state t) \<noteq> ua_null U \<longrightarrow>
            (cs_reference_type_id (tree_state t), cs_parent_id (tree_state t)) \<in> set (iv (as_nodes sp') (cs_node_id (tree_state t)))))"

lemma grows_dom: "as_grows sp sp' \<Longrightarrow> B \<subseteq> dom (as_nodes sp) \<Longrightarrow> B \<subseteq> dom (as_nodes sp')"
  using grows_node [of sp sp'] by blast

lemma variable_state_parts:
  assumes "variable_state E L h parent ty ref_type decl = Some t"
  shows "tree_children t = []" "cs_parent_id (tree_state t) = parent" "cs_reference_type_id (tree_state t) = ref_type"
  using assms by (auto simp: variable_state_def bind_eq_Some_conv)

lemma create_properties_of_hung:
  assumes c: "adds (ae_ua E) create" "hangs (ae_ua E) B create" and n: "n \<notin> B" "n \<noteq> ua_null (ae_ua E)"
  shows "create_properties_of E L create n ps sp = Some (sp', Good, outs) \<Longrightarrow> as_ok (ae_ua E) sp \<Longrightarrow> B \<subseteq> dom (as_nodes sp) \<Longrightarrow>
     hung (ae_ua E) B {} sp sp'"
proof (induction ps arbitrary: sp outs)
  case (Cons p ps)
  note ok = Cons.prems(2,3)
  from Cons.prems obtain skip where skip: "is_placeholder (ae_ua E) (as_nodes sp) p = Some skip"
    by (auto simp: bind_eq_Some_conv)
  show ?case
  proof (cases "skip")
    case True
    with Cons skip show ?thesis by auto
  next
    case False
    with Cons.prems skip obtain dn name found where dn: "as_nodes sp p = Some dn" "node_browse_name E p dn = Some name"
      "find_child E (as_nodes sp) p name = Some found"
      by (auto simp: bind_eq_Some_conv)
    show ?thesis
    proof (cases found)
      case Some
      with Cons skip False dn show ?thesis by auto
    next
      case None
      with Cons.prems skip False dn obtain t sp1 e1 o1 where
        t: "variable_state E L (as_nodes sp) n (property_type (ae_ua E)) (has_property (ae_ua E)) p = Some t"
        and 1: "create t sp = Some (sp1, e1, o1)"
        and rest: "(if e1 \<noteq> Good then Some (sp1, e1, o1)
           else map_option (\<lambda>(sp2, e2, outs2). (sp2, e2, o1 @ outs2)) (create_properties_of E L create n ps sp1)) = Some (sp', Good, outs)"
        by (auto simp: bind_eq_Some_conv)
      note V = variable_state_parts [OF t]
      obtain o2 where e1: "e1 = Good" and 2: "create_properties_of E L create n ps sp1 = Some (sp', Good, o2)"
        using rest by (cases "e1 = Good") auto
      have a: "as_ok (ae_ua E) sp1" "as_grows sp sp1" using addsD [OF c(1) 1] ok by (simp_all add: added_def)
      have b: "as_grows sp1 sp'" using create_properties_of_added [OF c(1) 2] a by (simp add: added_def)
      have "hung (ae_ua E) B {cs_node_id (tree_state t)} sp sp1"
        "(has_property (ae_ua E), n) \<in> set (iv (as_nodes sp1) (cs_node_id (tree_state t)))"
        using c(2) 1 ok V n(2) unfolding hangs_def e1 by metis+
      then have "hung (ae_ua E) B {} sp sp1" by (rule hung_drop [OF _ n(1)])
      then show ?thesis by (rule hung_trans [OF _ Cons.IH [OF 2 a(1) grows_dom [OF a(2) ok(2)]] b])
    qed
  qed
qed (simp add: hung_same)

lemma create_missing_properties_hung:
  assumes c: "adds (ae_ua E) create" "hangs (ae_ua E) B create" and n: "n \<notin> B" "n \<noteq> ua_null (ae_ua E)"
  shows "create_missing_properties k E L create n ty sp = Some (sp', Good, outs) \<Longrightarrow> as_ok (ae_ua E) sp \<Longrightarrow>
     B \<subseteq> dom (as_nodes sp) \<Longrightarrow> hung (ae_ua E) B {} sp sp'"
proof (induction k arbitrary: ty sp outs)
  case (Suc k)
  note ok = Suc.prems(2,3)
  from Suc.prems(1) obtain ps sp1 e1 o1 where 1: "create_properties_of E L create n ps sp = Some (sp1, e1, o1)"
    and rest: "(if e1 \<noteq> Good then Some (sp1, e1, o1) else as_nodes sp1 ty \<bind> (\<lambda>tn. case an_supertype tn of
          None \<Rightarrow> Some (sp1, Good, o1)
        | Some s \<Rightarrow> map_option (\<lambda>(sp2, e2, outs2). (sp2, e2, o1 @ outs2))
                     (create_missing_properties k E L create n s sp1))) = Some (sp', Good, outs)"
    by (auto simp: bind_eq_Some_conv)
  have e1: "e1 = Good" using rest by (cases "e1 = Good") auto
  have h: "hung (ae_ua E) B {} sp sp1" by (rule create_properties_of_hung [OF c n 1 [unfolded e1] ok])
  have a: "as_ok (ae_ua E) sp1" "as_grows sp sp1" using create_properties_of_added [OF c(1) 1] ok by (simp_all add: added_def)
  show ?case
  proof (cases "sp' = sp1")
    case False
    then obtain s o2 where 2: "create_missing_properties k E L create n s sp1 = Some (sp', Good, o2)"
      using rest e1 by (auto simp: bind_eq_Some_conv split: option.splits)
    have "as_grows sp1 sp'" using create_missing_properties_added [OF c(1) 2] a by (simp add: added_def)
    then show ?thesis by (rule hung_trans [OF h Suc.IH [OF 2 a(1) grows_dom [OF a(2) ok(2)]]])
  qed (use h in simp)
qed simp

lemma attach_type_hung:
  assumes c: "adds (ae_ua E) create" "hangs (ae_ua E) B create" and n: "n \<notin> B" "n \<noteq> ua_null (ae_ua E)"
    and ret: "attach_type k E L cp create n ty sp = Some (sp', Good, outs)" and ok: "as_ok (ae_ua E) sp" "B \<subseteq> dom (as_nodes sp)"
  shows "hung (ae_ua E) B {} sp sp'"
proof (cases ty)
  case (Some t)
  with ret obtain sp1 o1 where 1: "add_reference_by_id (ae_ua E) (has_type_definition (ae_ua E)) n t sp = Some (sp1, o1)"
    and rest: "(if \<not> cp then Some (sp1, Good, o1)
      else map_option (\<lambda>(sp2, e, outs2). (sp2, e, o1 @ outs2)) (create_missing_properties k E L create n t sp1)) = Some (sp', Good, outs)"
    by (auto simp: attach_type_def bind_eq_Some_conv)
  have "as_nodes sp1 m = None \<longleftrightarrow> as_nodes sp m = None" for m
    using 1 by (auto simp: add_reference_by_id_def bind_eq_Some_conv dest!: add_reference_dom [where m = m])
  then have h: "hung (ae_ua E) B {} sp sp1" by (rule hung_same)
  have a: "as_ok (ae_ua E) sp1" "as_grows sp sp1" using add_reference_by_id_added [OF 1] ok by (simp_all add: added_def)
  show ?thesis
  proof (cases "cp")
    case True
    then obtain o2 where 2: "create_missing_properties k E L create n t sp1 = Some (sp', Good, o2)" using rest by auto
    have "as_grows sp1 sp'" using create_missing_properties_added [OF c(1) 2] a by (simp add: added_def)
    then show ?thesis
      by (rule hung_trans [OF h create_missing_properties_hung [OF c n 2 a(1) grows_dom [OF a(2) ok(2)]]])
  qed (use rest h in simp)
qed (use ret in \<open>simp add: attach_type_def hung_same\<close>)

lemma create_node_hung:
  "create_node_helper k E L cp tree (cs_parent_id (tree_state tree)) sp = Some (sp', Good, outs) \<Longrightarrow> as_ok (ae_ua E) sp \<Longrightarrow>
     B \<subseteq> dom (as_nodes sp) \<Longrightarrow> tree_children tree = [] \<Longrightarrow> hung (ae_ua E) B {cs_node_id (tree_state tree)} sp sp'"
proof (induction k arbitrary: tree sp sp' outs)
  case (Suc k)
  let ?s = "tree_state tree" and ?n = "cs_node_id (tree_state tree)"
  let ?c = "\<lambda>t. create_node_helper k E L cp t (cs_parent_id (tree_state t))"
  note ok = Suc.prems(2,3) and adds = create_node_helper_adds [of E k L cp]
  have hangs: "hangs (ae_ua E) B ?c"
    unfolding hangs_def
  proof (intro allI impI conjI)
    fix t sp1 sp2 o1
    assume 1: "?c t sp1 = Some (sp2, Good, o1)" "as_ok (ae_ua E) sp1" "B \<subseteq> dom (as_nodes sp1)" "tree_children t = []"
    show "hung (ae_ua E) B {cs_node_id (tree_state t)} sp1 sp2" by (rule Suc.IH [OF 1])
    assume "cs_parent_id (tree_state t) \<noteq> ua_null (ae_ua E)"
    then show "(cs_reference_type_id (tree_state t), cs_parent_id (tree_state t)) \<in> set (iv (as_nodes sp2) (cs_node_id (tree_state t)))"
      using create_node_effect [of k E L cp t sp1 sp2 Good o1] 1 by (simp add: create_node_def Let_def)
  qed
  show ?case
  proof (cases "new_node E (as_nodes sp) ?s (cs_parent_id ?s)")
    case (Inl x)
    then have "x = Good" using Suc.prems(1) by (simp add: Let_def)
    with Inl show ?thesis
      by (auto simp: new_node_def make_node_def value_node_def Let_def
          split: if_splits sum.splits node_class.splits option.splits)
  next
    case (Inr nd)
    note F = new_node_fresh [OF Inr]
    show ?thesis
    proof (rule create_node_cases [OF Suc.prems(1) Inr], goal_cases)
      case (1 k' sp0 sp1 e1 o1)
      have k: "k' = k" using 1(1) by simp
      have e1: "e1 = Good" using 1(4) by (cases "e1 = Good") auto
      from 1(5) [OF e1] Suc.prems(4) obtain sp2 o2 o4 where
        2: "attach_parent E ?n (cs_parent_id ?s) (cs_reference_type_id ?s) sp1 = Some (sp2, Good, o2)"
        and 4: "set_new_properties E ?n (cs_properties ?s) sp2 = Some (sp', Good, o4)"
        by (auto split: if_splits)
      have a: "as_ok (ae_ua E) sp0" "as_grows sp sp0" using added_node [OF 1(2)] F ok by (simp_all add: added_def)
      have n: "?n \<notin> B" using F ok(2) by auto
      have "hung (ae_ua E) B {} sp0 sp1"
        by (rule attach_type_hung [OF adds hangs n _ 1(3) [unfolded k e1] a(1) grows_dom [OF a(2) ok(2)]]) (use F in simp)
      then have h1: "hung (ae_ua E) B {?n} sp0 sp1" by (rule hung_more) simp
      have h0: "hung (ae_ua E) B {?n} sp sp0" using 1(2) by (auto simp: hung_def as_add_node_def)
      have 01: "as_ok (ae_ua E) sp1" "as_grows sp0 sp1"
        using attach_type_added [OF adds 1(3) [unfolded k]] a by (simp_all add: added_def)
      have "as_nodes sp2 m = None \<longleftrightarrow> as_nodes sp1 m = None" for m
        using 2 by (auto simp: attach_parent_def split: if_splits dest!: add_reference_dom [where m = m])
      then have same: "as_nodes sp' m = None \<longleftrightarrow> as_nodes sp1 m = None" for m using set_new_properties_dom [OF 4] by simp
      have "as_grows sp1 sp'"
        using attach_parent_added [OF 2] set_new_properties_added [OF 4] 01 as_grows_trans by (auto simp: added_def)
      then show ?case using hung_trans [OF hung_trans [OF h0 h1 01(2)] hung_same [OF same]] by blast
    qed
  qed
qed simp

section \<open>Where a loaded node stands\<close>

text \<open>The node of a state is below the parent of its state, or it came as a property of a node that is not in \<open>B\<close>.\<close>

definition parented :: "'n ua \<Rightarrow> ('n, 'v, 'q, 't, 'y) heap \<Rightarrow> ('n, 'd) file_state \<Rightarrow> bool" where
  "parented U h s \<longleftrightarrow>
     (fs_parent_id s \<noteq> ua_null U \<longrightarrow> (fs_reference_type_id s, fs_parent_id s) \<in> set (iv h (fs_node_id s)))"

definition placed :: "'n ua \<Rightarrow> 'n set \<Rightarrow> ('n, 'v, 'q, 't, 'y) heap \<Rightarrow> ('n, 'd) file_state list \<Rightarrow> 'n \<Rightarrow> bool" where
  "placed U B h ss n \<longleftrightarrow> (\<exists>s \<in> set ss. fs_node_id s = n \<and> parented U h s)
     \<or> (\<exists>q. q \<notin> B \<and> (has_property U, q) \<in> set (iv h n))"

lemma placed_grows:
  assumes "placed U B (as_nodes sp) ss n" "as_grows sp sp'" "as_nodes sp n \<noteq> None"
  shows "placed U B (as_nodes sp') ss n"
proof -
  have "set (iv (as_nodes sp) n) \<subseteq> set (iv (as_nodes sp') n)" using assms(2,3) by (simp add: as_grows_def)
  then show ?thesis using assms(1) unfolding placed_def parented_def by blast
qed

lemma placed_more: "placed U B h ss n \<Longrightarrow> set ss \<subseteq> set ts \<Longrightarrow> placed U B h ts n"
  unfolding placed_def by blast

lemma create_states_placed:
  "create_states (create_node k A L cp) ss sp = Some (sp', Good, outs) \<Longrightarrow> as_ok (ae_ua A) sp \<Longrightarrow> B \<subseteq> dom (as_nodes sp) \<Longrightarrow>
     n \<in> fs_node_id ` set ss \<Longrightarrow> as_nodes sp n = None \<Longrightarrow> placed (ae_ua A) B (as_nodes sp') ss n"
proof (induction ss arbitrary: sp outs)
  case (Cons s ss)
  let ?create = "create_node k A L cp" and ?U = "ae_ua A"
  show ?case
  proof (cases "as_nodes sp (fs_node_id s) = None")
    case True
    then have "and_then (?create (create_state_of s) sp) (create_states ?create ss) = Some (sp', Good, outs)"
      using Cons.prems(1) by simp
    then show ?thesis
    proof (cases rule: and_then_cases)
      case (went_on sp1 o1 o2)
      note E = create_node_effect [OF went_on(1) Cons.prems(2)]
      have a: "as_ok ?U sp1" "as_grows sp sp1" using E by simp_all
      have b: "as_grows sp1 sp'" using create_states_added [OF create_node_adds went_on(2)] a by (simp add: added_def)
      have p: "parented ?U (as_nodes sp1) s" "as_nodes sp1 (fs_node_id s) \<noteq> None"
        using E cls_dom [of "as_nodes sp1" "fs_node_id s"] by (simp_all add: Let_def create_state_of_def parented_def)
      have h: "hung ?U B {fs_node_id s} sp sp1"
        using create_node_hung [OF went_on(1) [unfolded create_node_def] Cons.prems(2,3)] by (simp add: create_state_of_def)
      show ?thesis
      proof (cases "as_nodes sp1 n = None")
        case True
        then have "n \<in> fs_node_id ` set ss" using Cons.prems(4) p(2) by auto
        then show ?thesis
          by (intro placed_more [OF Cons.IH [OF went_on(2) a(1) grows_dom [OF a(2) Cons.prems(3)] _ True]]) auto
      next
        case False
        have "placed ?U B (as_nodes sp1) (s # ss) n"
        proof (cases "n = fs_node_id s")
          case True
          then show ?thesis using p(1) by (auto simp: placed_def)
        next
          case ne: False
          then show ?thesis using h Cons.prems(5) False unfolding hung_def placed_def by blast
        qed
        then show ?thesis by (rule placed_grows [OF _ b False])
      qed
    qed simp
  next
    case False
    then have "n \<in> fs_node_id ` set ss" using Cons.prems(4,5) by auto
    then show ?thesis using False Cons.prems
      by (intro placed_more [OF Cons.IH [of sp outs]]) auto
  qed
qed simp

end
