(* ===== verification/Space_Xml_Claims.thy ===== *)
theory Space_Xml_Claims
  imports Load_Facts Address_Space_Examples
begin

text \<open>
  What saving and loading an address space does, with a document type, a file and an address space for the witnesses.
\<close>

section \<open>A document\<close>

datatype ex_xml = Ex_Xml (ex_name: string) (ex_attributes: "(string \<times> string) list") (ex_children: "ex_xml list") (ex_text: string)

text \<open>A file of it: the declaration and blank texts are not loaded, ends of lines and white space in attributes change.\<close>

definition ex_blank_text :: "string \<Rightarrow> bool" where
  "ex_blank_text s = list_all blank s"

definition ex_line_ends :: "string \<Rightarrow> string" where
  "ex_line_ends s = List.map (\<lambda>c. if c = CHR 0x0D then CHR 0x0A else c) s"

definition ex_spaces :: "string \<Rightarrow> string" where
  "ex_spaces s = List.map (\<lambda>c. if blank c then CHR '' '' else c) s"

primrec ex_reload :: "ex_xml \<Rightarrow> ex_xml" where
  "ex_reload (Ex_Xml n as cs t) = Ex_Xml n (List.map (apsnd ex_spaces) as)
     (filter (\<lambda>c. ex_name c \<noteq> ''xml'') (List.map ex_reload cs)) (if ex_blank_text t then '''' else ex_line_ends t)"

definition ex_xml_env :: "(ex_nid, ex_xml, nat) xml_env" where
  "ex_xml_env = \<lparr>xe_ids = ex_nid_lib, xe_name = ex_name, xe_is_element = (\<lambda>x. ex_name x \<noteq> ''''),
     xe_attribute = (\<lambda>x. map_of (ex_attributes x)), xe_nodes = ex_children, xe_text = ex_text,
     xe_element = (\<lambda>t. Ex_Xml t [] [] ''''),
     xe_add_attribute = (\<lambda>a v x. Ex_Xml (ex_name x) (ex_attributes x @ [(a, v)]) (ex_children x) (ex_text x)),
     xe_append = (\<lambda>c x. Ex_Xml (ex_name x) (ex_attributes x) (ex_children x @ [c]) (ex_text x)),
     xe_set_text = (\<lambda>s x. Ex_Xml (ex_name x) (ex_attributes x) (ex_children x) s),
     xe_as_bool = (\<lambda>s. s = ''true''), xe_as_uint = (\<lambda>s. case undec s of Some k \<Rightarrow> of_nat k | None \<Rightarrow> 0),
     xe_is_number = (\<lambda>d. True), xe_double_text = dec, xe_parse_double = (\<lambda>s. map_option (\<lambda>d. (d, '''')) (undec s)),
     xe_to_utf8 = id, xe_from_utf8 = id, xe_qn_empty = (\<lambda>q. fst q = ''''), xe_reload = ex_reload\<rparr>"

lemma ex_spaces_plain: "plain_text s \<Longrightarrow> ex_spaces s = s"
proof -
  assume p: "plain_text s"
  have "(if blank c then CHR '' '' else c) = c" if "c \<in> set s" for c
  proof (cases "blank c")
    case True
    have "(32 :: nat) \<le> of_char c" using p that by (simp add: plain_text_def)
    then have "of_char c = (of_char CHR '' '' :: nat)" using True by (auto simp: blank_def)
    then have "c = CHR '' ''" by (simp only: of_char_eq_iff)
    then show ?thesis by simp
  qed simp
  then show ?thesis by (simp add: ex_spaces_def map_idI)
qed

lemma ex_text_solid: "solid_text s \<Longrightarrow> (if ex_blank_text s then '''' else ex_line_ends s) = s"
proof -
  assume p: "solid_text s"
  have "(if c = CHR 0x0D then CHR 0x0A else c) = c" if "c \<in> set s" for c
    using p that by (force simp: solid_text_def)
  then have "ex_line_ends s = s" by (simp add: ex_line_ends_def map_idI)
  then show ?thesis using p by (auto simp: ex_blank_text_def list_all_iff solid_text_def)
qed

lemma ex_name_reload [simp]: "ex_name (ex_reload x) = ex_name x"
  by (cases x) simp

lemma ex_reload_attribute:
  "(\<forall>v. map_of (ex_attributes x) a = Some v \<longrightarrow> plain_text v) \<Longrightarrow> map_of (ex_attributes (ex_reload x)) a = map_of (ex_attributes x) a"
proof -
  assume "\<forall>v. map_of (ex_attributes x) a = Some v \<longrightarrow> plain_text v"
  moreover have "map_of (List.map (apsnd ex_spaces) as) a = map_option ex_spaces (map_of as a)" for as
    by (induction as) auto
  ultimately show ?thesis by (cases x) (auto simp: ex_spaces_plain map_option_case split: option.splits)
qed

lemma ex_reload_children:
  assumes "t \<noteq> ''xml''"
  shows "filter (\<lambda>c. ex_name c = t) (ex_children (ex_reload x)) = List.map ex_reload (filter (\<lambda>c. ex_name c = t) (ex_children x))"
proof -
  have "filter (\<lambda>c. ex_name c = t) (filter (\<lambda>c. ex_name c \<noteq> ''xml'') (List.map ex_reload cs))
      = List.map ex_reload (filter (\<lambda>c. ex_name c = t) cs)" for cs
    using assms by (induction cs) auto
  then show ?thesis by (cases x) simp
qed

lemma ex_reload_text: "solid_text (ex_text x) \<Longrightarrow> ex_text (ex_reload x) = ex_text x"
  using ex_text_solid by (cases x) simp

lemma ex_xml_ok: "xml_ok ex_xml_env"
proof -
  have "(of_nat (unat w) :: 32 word) = ucast w" for w :: "16 word" by (simp add: unsigned_of_nat)
  then show ?thesis
    using ex_nid_ok ex_reload_attribute ex_reload_children ex_reload_text
    by (auto simp: xml_ok_def ex_xml_env_def map_of_append map_add_def xml_children_def undec_dec bool_text_def
        simp del: ex_reload.simps split: option.splits)
qed

section \<open>A file\<close>

abbreviation ex_file_state :: "ex_nid \<Rightarrow> node_class \<Rightarrow> string \<Rightarrow> (ex_nid, nat) file_state" where
  "ex_file_state n c name \<equiv> (empty_file_state ex_nid_lib n c)\<lparr>fs_browse_name := (name, 0), fs_display_name := name\<rparr>"

definition ex_xml_as_env :: "(ex_nid, (ex_nid, nat) variant, unit, nat, unit) as_env" where
  "ex_xml_as_env = \<lparr>ae_ua = ex_ua, ae_scada_string = node_id_to_scada_string ex_nid_lib, ae_convert = (\<lambda>_ v. Some v),
     ae_is_update = (\<lambda>old new. dv_source old \<le> dv_source new), ae_null_variant = Var_Empty, ae_qualifier = (), ae_now = 1\<rparr>"

definition ex_types_file :: "(ex_nid, nat) file_state list" where
  "ex_types_file =
     [(ex_file_state (own_id 10) ObjectTypeClass ''DeviceType'')\<lparr>fs_supertype_id := sid 58\<rparr>,
      (ex_file_state (own_id 11) VariableClass ''Limit'')
        \<lparr>fs_type_definition_id := sid 68, fs_parent_id := own_id 10, fs_reference_type_id := sid 46,
         fs_data_type := sid 24, fs_value := Some (Var_Int32 1)\<rparr>,
      (ex_file_state (own_id 20) ObjectClass ''Device'')
        \<lparr>fs_type_definition_id := own_id 10, fs_references := [\<lparr>fr_type = sid 35, fr_forward = False, fr_node = sid 84,
           fr_node_class = ObjectClass\<rparr>]\<rparr>]"

definition ex_standard_file :: "(ex_nid, nat) file_state list" where
  "ex_standard_file =
     [(ex_file_state (sid 35) ReferenceTypeClass ''Organizes'')\<lparr>fs_supertype_id := sid 33\<rparr>,
      (ex_file_state (sid 46) ReferenceTypeClass ''HasProperty'')\<lparr>fs_supertype_id := sid 44\<rparr>,
      (ex_file_state (sid 47) ReferenceTypeClass ''HasComponent'')\<lparr>fs_supertype_id := sid 44\<rparr>,
      (ex_file_state (sid 40) ReferenceTypeClass ''HasTypeDefinition'')\<lparr>fs_supertype_id := sid 32\<rparr>,
      (ex_file_state (sid 44) ReferenceTypeClass ''Aggregates'')\<lparr>fs_supertype_id := sid 33\<rparr>,
      ex_file_state (sid 45) ReferenceTypeClass ''HasSubtype'',
      ex_file_state (sid 32) ReferenceTypeClass ''NonHierarchicalReferences'',
      ex_file_state (sid 33) ReferenceTypeClass ''HierarchicalReferences'',
      ex_file_state (sid 24) DataTypeClass ''BaseDataType'',
      (ex_file_state (sid 68) VariableTypeClass ''PropertyType'')\<lparr>fs_data_type := sid 24\<rparr>,
      ex_file_state (sid 58) ObjectTypeClass ''BaseObjectType'',
      (ex_file_state (sid 84) ObjectClass ''Root'')\<lparr>fs_type_definition_id := sid 58\<rparr>]"

definition ex_document :: "(ex_nid, nat) file_state list \<Rightarrow> ex_xml" where
  "ex_document ss = (case write_document ex_xml_env ss of Inr d \<Rightarrow> d | Inl _ \<Rightarrow> Ex_Xml '''' [] [] '''')"

definition ex_factory :: "(ex_nid, nat, unit, nat, unit) factory" where
  "ex_factory = create_node 9 ex_xml_as_env ex_nid_lib True"

definition ex_no_nodes :: "(ex_nid, (ex_nid, nat) variant, unit, nat, unit) aspace" where
  "ex_no_nodes = \<lparr>as_nodes = (\<lambda>_. None), as_own = []\<rparr>"

text \<open>A property of the device with a value of its own.\<close>

definition ex_limit :: "(ex_nid, nat) file_state" where
  "ex_limit = (ex_file_state (Inr ''20!Limit'', 7) VariableClass ''Limit'')
     \<lparr>fs_type_definition_id := sid 68, fs_parent_id := own_id 20, fs_reference_type_id := sid 46,
      fs_data_type := sid 24, fs_value := Some (Var_Int32 7)\<rparr>"

text \<open>The file with the types comes first, and refers to the other one.\<close>

definition ex_files :: "ex_xml option list" where
  "ex_files = [Some (ex_reload (ex_document (ex_types_file @ [ex_limit]))), Some (ex_reload (ex_document ex_standard_file))]"

lemma ex_states_printable:
  "list_all (list_all (\<lambda>s. printable_state ex_xml_env s \<and> \<not> undeclared_property ex_xml_env s))
     [ex_types_file @ [ex_limit], ex_standard_file]"
  by code_simp

lemma ex_reloads: "xe_reload ex_xml_env = ex_reload"
  by (simp add: ex_xml_env_def)

lemma ex_files_parsed:
  "parse_files (parse_either ex_xml_env 7) ex_files [] = Inr (ex_types_file @ [ex_limit] @ ex_standard_file)"
proof -
  have w: "write_document ex_xml_env ss = Inr (ex_document ss)" if "\<forall>s \<in> set ss. printable_state ex_xml_env s" for ss
    by (rule document_round_trip [OF ex_xml_ok that]) (simp add: ex_document_def)
  show ?thesis
    using parse_saved_files [OF ex_xml_ok ex_states_printable, of
        "[ex_document (ex_types_file @ [ex_limit]), ex_document ex_standard_file]" 7 "[]"] w ex_states_printable
    by (simp add: ex_files_def list_all_iff ex_reloads)
qed

definition value_at :: "(ex_nid, (ex_nid, nat) variant, unit, nat, unit) aspace \<Rightarrow> ex_nid \<Rightarrow> (ex_nid, nat) variant option" where
  "value_at sp n = map_option (dv_value \<circ> an_value) (as_nodes sp n)"

lemma ex_applied:
  "case apply_node_states ex_ua (create_node 9 ex_xml_as_env ex_nid_lib True)
      (ex_types_file @ [ex_limit] @ ex_standard_file) ex_no_nodes of
     None \<Rightarrow> False
   | Some (sp, e, _) \<Rightarrow> e = Good \<and> value_at sp (Inr ''20!Limit'', 7) = Some (Var_Int32 1)"
  by code_simp

section \<open>Saving\<close>






section \<open>Loading\<close>

text \<open>C10: Loading files into an address space, when it does not abort. When one of them cannot be read, its error is returned and the address
  space is as it was. Otherwise nothing is removed from the address space and its invariant is kept, whatever the
  status. When the status is good, every node that stands in any of the files is there, with its supertype and all the
  references that promotion leaves in its list (\<open>promote_parents\<close>, C28), each of the type that is asked for or of a
  subtype. A node that was not there before also has the reference from its parent, which is the one of its state or
  the promoted one; only when it had come already as a missing property of another new node, it stands below that node
  instead. Of a node that was there before the parent is not looked at: its promoted reference is not added, though
  the status is good. The order of the files plays no role in this.\<close>

theorem load_static_address_space_correct:
  assumes ret: "load_static_address_space E scada (ae_ua A) (create_node k A L cp) files sp = Some (sp', e, outs)"
    and ok: "as_ok (ae_ua A) sp"
  shows "case parse_files (parse_either E scada) files [] of
      Inl e' \<Rightarrow> sp' = sp \<and> e = e' \<and> outs = []
    | Inr ss \<Rightarrow> as_ok (ae_ua A) sp' \<and> as_grows sp sp'
        \<and> (e = Good \<longrightarrow> (\<forall>s \<in> set (promote_parents (ae_ua A) ss).
             as_nodes sp' (fs_node_id s) \<noteq> None \<and> state_linked (ae_ua A) (as_nodes sp') s
             \<and> (as_nodes sp (fs_node_id s) = None \<longrightarrow>
                  placed (ae_ua A) (dom (as_nodes sp)) (as_nodes sp') (promote_parents (ae_ua A) ss) (fs_node_id s))))"
proof (cases "parse_files (parse_either E scada) files []")
  case (Inl e')
  then show ?thesis using ret by (simp add: load_static_address_space_def)
next
  case (Inr ss)
  obtain order where o: "sort_file_states (ae_ua A) (promote_parents (ae_ua A) ss) = Some order"
    "mset order = mset (promote_parents (ae_ua A) ss)"
    using sort_file_states_returns by blast
  then have s: "set order = set (promote_parents (ae_ua A) ss)" by (metis set_mset_mset)
  have "and_then (create_states (create_node k A L cp) order sp) (link_states (ae_ua A) order) = Some (sp', e, outs)"
    using ret Inr o by (simp add: load_static_address_space_def apply_node_states_def)
  then have "as_ok (ae_ua A) sp' \<and> as_grows sp sp'
      \<and> (e = Good \<longrightarrow> (\<forall>s \<in> set order. as_nodes sp' (fs_node_id s) \<noteq> None \<and> state_linked (ae_ua A) (as_nodes sp') s
             \<and> (as_nodes sp (fs_node_id s) = None \<longrightarrow>
                  placed (ae_ua A) (dom (as_nodes sp)) (as_nodes sp') (promote_parents (ae_ua A) ss) (fs_node_id s))))"
  proof (cases rule: and_then_cases)
    case (failed o1)
    then show ?thesis using create_states_added [OF create_node_adds failed(1)] ok by (simp add: added_def)
  next
    case (went_on sp1 o1 o2)
    have c: "as_ok (ae_ua A) sp1 \<and> as_grows sp sp1"
      using create_states_added [OF create_node_adds went_on(1)] ok by (simp add: added_def)
    note l = link_states_links [OF went_on(2)]
    have g: "as_ok (ae_ua A) sp'" "as_grows sp1 sp'" using l c by (simp_all add: added_def)
    have t: "as_nodes sp1 (fs_node_id s) \<noteq> None" if "s \<in> set order" for s using create_states_there [OF went_on(1) ok] that by blast
    have "placed (ae_ua A) (dom (as_nodes sp)) (as_nodes sp') (promote_parents (ae_ua A) ss) (fs_node_id s)"
      if "s \<in> set order" "as_nodes sp (fs_node_id s) = None" for s
    proof -
      have "placed (ae_ua A) (dom (as_nodes sp)) (as_nodes sp1) order (fs_node_id s)"
        by (rule create_states_placed [OF went_on(1) ok _ _ that(2)]) (use that(1) in auto)
      from placed_grows [OF this g(2) t [OF that(1)]] show ?thesis by (rule placed_more) (simp add: s)
    qed
    then show ?thesis using l c g t grows_node [of sp1 sp'] as_grows_trans by blast
  qed
  then show ?thesis by (simp add: Inr s)
qed

lemma load_static_address_space_correct_witness:
  "\<exists>sp' outs. load_static_address_space ex_xml_env 7 ex_ua (create_node 9 ex_xml_as_env ex_nid_lib True) ex_files ex_no_nodes
       = Some (sp', Good, outs)
     \<and> as_nodes sp' (sid 33) \<noteq> None \<and> linked (as_nodes sp') (sid 45) (sid 58) (own_id 10)
     \<and> placed ex_ua {} (as_nodes sp') (promote_parents ex_ua (ex_types_file @ [ex_limit] @ ex_standard_file)) (own_id 20)"
proof -
  have U: "ae_ua ex_xml_as_env = ex_ua" by (simp add: ex_xml_as_env_def)
  have ok: "as_ok (ae_ua ex_xml_as_env) ex_no_nodes" by (simp add: as_ok_def graph_ok_def ex_no_nodes_def node_views)
  obtain sp' outs where r: "load_static_address_space ex_xml_env 7 ex_ua (create_node 9 ex_xml_as_env ex_nid_lib True)
      ex_files ex_no_nodes = Some (sp', Good, outs)"
    using ex_applied ex_files_parsed by (auto simp: load_static_address_space_def split: option.splits)
  define ss where "ss = promote_parents ex_ua (ex_types_file @ [ex_limit] @ ex_standard_file)"
  have "\<exists>s \<in> set ss. fs_node_id s = sid 33" "\<exists>s \<in> set ss. fs_node_id s = own_id 10 \<and> fs_supertype_id s = sid 58"
    "\<exists>s \<in> set ss. fs_node_id s = own_id 20"
    unfolding ss_def by code_simp+
  then obtain s1 s2 s3 where s: "s1 \<in> set ss" "fs_node_id s1 = sid 33" "s2 \<in> set ss" "fs_node_id s2 = own_id 10"
    "fs_supertype_id s2 = sid 58" "s3 \<in> set ss" "fs_node_id s3 = own_id 20" by blast
  have id: "ua_null ex_ua \<noteq> sid 58" "has_subtype ex_ua = sid 45" by (simp_all add: ex_ua_def)
  have none: "as_nodes ex_no_nodes = (\<lambda>_. None)" by (simp add: ex_no_nodes_def)
  have "\<forall>s \<in> set ss. as_nodes sp' (fs_node_id s) \<noteq> None \<and> state_linked ex_ua (as_nodes sp') s
      \<and> placed ex_ua {} (as_nodes sp') ss (fs_node_id s)"
    using load_static_address_space_correct [OF r [folded U] ok] by (simp add: U ex_files_parsed none ss_def)
  then have "as_nodes sp' (sid 33) \<noteq> None" "state_linked ex_ua (as_nodes sp') s2" "placed ex_ua {} (as_nodes sp') ss (own_id 20)"
    using s by metis+
  then show ?thesis using r s(4,5) id by (auto simp: state_linked_def ss_def)
qed

text \<open>The value of a property does not survive loading. The file holds a device with the property Limit, and that
  property as a node of its own with the value 7. Creating the device creates the property too, with the value 1 of its
  declaration; its state is then skipped, because the node exists, and loading succeeds with the value 1.\<close>

lemma loaded_property_value_lost:
  "case load_static_address_space ex_xml_env 7 ex_ua (create_node 9 ex_xml_as_env ex_nid_lib True) ex_files ex_no_nodes of
     None \<Rightarrow> False
   | Some (sp, e, _) \<Rightarrow> e = Good \<and> fs_value ex_limit = Some (Var_Int32 7)
       \<and> value_at sp (fs_node_id ex_limit) = Some (Var_Int32 1)"
proof -
  have "fs_value ex_limit = Some (Var_Int32 7)" "fs_node_id ex_limit = (Inr ''20!Limit'', 7)"
    by (simp_all add: ex_limit_def empty_file_state_def)
  then show ?thesis
    using ex_applied by (auto simp: load_static_address_space_def ex_files_parsed split: option.splits prod.splits)
qed

section \<open>Node sets\<close>

text \<open>C27: A node of a node set keeps its references in the order of the file, and its parent, supertype and type
  definition as fields. Each field holds the last of its references only: when a node stands under several parents, all
  but the last of these references are neither in a field nor in the list, and nothing else of the file is lost.\<close>

theorem read_ua_node_state_references:
  assumes ret: "read_ua_node_state E ns_map aliases x = Inr s"
  defines "rs \<equiv> List.map (read_ua_reference E ns_map aliases) (children_at E ''Reference'' (xml_child E ''References'' x))"
  shows "fs_supertype_id s = last_target (nl_null (xe_ids E)) (ua_supertypes (xe_ids E) rs)
    \<and> fs_parent_id s = last_target (nl_null (xe_ids E)) (ua_parents (xe_ids E) rs)
    \<and> fs_reference_type_id s = last (nl_null (xe_ids E) # List.map fst (ua_parents (xe_ids E) rs))
    \<and> fs_type_definition_id s = last_target (nl_null (xe_ids E)) (ua_type_definitions (xe_ids E) rs)
    \<and> fs_references s = List.map (\<lambda>r. \<lparr>fr_type = fst r, fr_forward = ua_forward r, fr_node = snd (snd r),
        fr_node_class = ObjectClass\<rparr>) (ua_others (xe_ids E) rs)
    \<and> mset rs = mset (ua_parents (xe_ids E) rs) + mset (ua_type_definitions (xe_ids E) rs) + mset (ua_others (xe_ids E) rs)"
proof -
  obtain n c where s: "s = fold (apply_ua_reference (xe_ids E)) rs (read_ua_attributes E ns_map aliases x n c)"
    using ret by (auto simp: read_ua_node_state_def rs_def Let_def split: option.splits if_splits)
  have "mset rs = mset (ua_parents L rs) + mset (ua_type_definitions L rs) + mset (ua_others L rs)" for L :: "'a nid_lib"
    by (induction rs) (auto simp: ua_parts)
  then show ?thesis
    by (simp add: s fold_ua_references del: last.simps) (simp add: read_ua_attributes_def empty_file_state_def)
qed

text \<open>A node of a node set with two folders above it: the first is lost.\<close>

definition ex_ua_node :: ex_xml where
  "ex_ua_node = Ex_Xml ''UAObject'' [(''NodeId'', ''ns=1;i=5'')]
     [Ex_Xml ''References'' []
        [Ex_Xml ''Reference'' [(''ReferenceType'', ''Organizes''), (''IsForward'', ''false'')] [] ''i=85'',
         Ex_Xml ''Reference'' [(''ReferenceType'', ''i=40'')] [] ''i=61'',
         Ex_Xml ''Reference'' [(''ReferenceType'', ''i=35''), (''IsForward'', ''false'')] [] ''ns=1;i=3'']
        ''''] ''''"

definition ex_aliases :: "string \<Rightarrow> string option" where
  "ex_aliases = map_of [(''Organizes'', ''i=35'')]"

definition ex_ua_state :: "(ex_nid, nat) file_state" where
  "ex_ua_state = (case read_ua_node_state ex_xml_env [0, 7] ex_aliases ex_ua_node of Inr s \<Rightarrow> s
     | Inl _ \<Rightarrow> empty_file_state ex_nid_lib (sid 0) ObjectClass)"

lemma read_ua_node_state_references_witness:
  "fs_references ex_ua_state = [] \<and> fs_parent_id ex_ua_state = own_id 3"
proof -
  have "case (read_ua_node_state ex_xml_env [0, 7] ex_aliases ex_ua_node :: status + (ex_nid, nat) file_state) of
      Inl _ \<Rightarrow> False | Inr _ \<Rightarrow> True"
    by code_simp
  then have r: "read_ua_node_state ex_xml_env [0, 7] ex_aliases ex_ua_node = Inr ex_ua_state"
    by (simp add: ex_ua_state_def split: sum.splits)
  have p: "last_target (nl_null (xe_ids ex_xml_env)) (ua_parents (xe_ids ex_xml_env)
        (List.map (read_ua_reference ex_xml_env [0, 7] ex_aliases)
          (children_at ex_xml_env ''Reference'' (xml_child ex_xml_env ''References'' ex_ua_node)))) = own_id 3"
    and o: "ua_others (xe_ids ex_xml_env)
        (List.map (read_ua_reference ex_xml_env [0, 7] ex_aliases)
          (children_at ex_xml_env ''Reference'' (xml_child ex_xml_env ''References'' ex_ua_node))) = []"
    by code_simp+
  show ?thesis using read_ua_node_state_references [OF r] unfolding p o by simp
qed

section \<open>Promotion\<close>

text \<open>C28: Promotion gives an instance without a parent the source of its first inverse hierarchical reference as parent,
  and takes just this reference from its list; every other state stays as it is. A reference is hierarchical when
  HierarchicalReferences is among the first 64 types of the supertype chain of its type, with no null id up to there:
  a cycle of supertypes ends the search, and so does a chain of 64 types.\<close>

theorem promote_parent_correct:
  "promote_parent U supers s =
     (if fs_parent_id s \<noteq> ua_null U \<or> is_type (fs_node_class s) then s
      else case filter (\<lambda>r. \<not> fr_forward r \<and> (\<exists>i < 64.
          supertype_at supers (fr_type r) i = Some (hierarchical_references U)
          \<and> (\<forall>j \<le> i. supertype_at supers (fr_type r) j \<noteq> Some (ua_null U)))) (fs_references s) of
        [] \<Rightarrow> s
      | r # _ \<Rightarrow> s\<lparr>fs_parent_id := fr_node r, fs_reference_type_id := fr_type r,
          fs_references := remove1 r (fs_references s)\<rparr>)"
proof -
  define P where "P = (\<lambda>r :: 'a file_reference. \<not> fr_forward r \<and> (\<exists>i < 64.
      supertype_at supers (fr_type r) i = Some (hierarchical_references U)
      \<and> (\<forall>j \<le> i. supertype_at supers (fr_type r) j \<noteq> Some (ua_null U))))"
  have P: "(\<not> fr_forward r \<and> (\<exists>i < 64. supertype_at supers (fr_type r) i = Some (hierarchical_references U)
      \<and> (\<forall>j \<le> i. supertype_at supers (fr_type r) j \<noteq> Some (ua_null U)))) = P r" for r
    by (simp add: P_def)
  show ?thesis
  proof (cases "filter P (fs_references s)")
    case Nil
    have d: "dropWhile (\<lambda>r. \<not> P r) (fs_references s) = []" using Nil by (simp add: filter_empty_conv)
    show ?thesis
      unfolding promote_parent_def is_hierarchical_def hierarchical_walk_iff Let_def P d Nil by simp
  next
    case (Cons r l)
    with dropWhile_first [OF Cons] show ?thesis
      unfolding promote_parent_def is_hierarchical_def hierarchical_walk_iff Let_def P by auto
  qed
qed

text \<open>Two reference types that are each other's supertype are passed over, the next reference is promoted.\<close>

definition ex_supers :: "ex_nid \<Rightarrow> ex_nid option" where
  "ex_supers = map_of [(own_id 1, own_id 2), (own_id 2, own_id 1), (own_id 3, sid 33)]"

definition ex_child :: "(ex_nid, nat) file_state" where
  "ex_child = (ex_file_state (own_id 30) ObjectClass ''Item'')\<lparr>fs_references :=
     [\<lparr>fr_type = own_id 1, fr_forward = False, fr_node = own_id 40, fr_node_class = ObjectClass\<rparr>,
      \<lparr>fr_type = own_id 3, fr_forward = False, fr_node = own_id 41, fr_node_class = ObjectClass\<rparr>]\<rparr>"

lemma promote_parent_correct_witness:
  "fs_parent_id (promote_parent ex_ua ex_supers ex_child) = own_id 41
   \<and> length (fs_references (promote_parent ex_ua ex_supers ex_child)) = 1"
  unfolding promote_parent_correct hierarchical_walk_iff [symmetric] by code_simp

end
