(* ===== verification/Spec2Isabelle.thy ===== *)
theory Spec2Isabelle
  imports Prelude Time_Series Std_Map Intervals Buffer_Claims Event_Claims Node_State Children_Fetcher Node_Fetcher_Claims Node_Ids
    Aggregation Timed_Data_Runs Expression_Claims Address_Space_Examples Modify_Claims View_Claims Attribute_Service Node_Sort
    Fetch_Server Node_Query_Claims Space_Xml_Claims
begin

text \<open>
  A model of the core of scada-common, the library that a SCADA server and its clients share: time series and live
  items, events, the fetching of nodes from a server, the address space of a server with its services, and the
  utilities they rest on. Each theory models the files it names, with a definition for each operation, in the order of
  the code. The theorems numbered C1 to C40 are the properties; the other lemmas carry them.

  \<^bold>\<open>Conventions.\<close> \<open>scada::base::Check\<close> is \<open>check\<close> in the option monad: \<open>None\<close> is an abort (or, where a text says so,
  undefined behaviour or a loop that does not end). Observers, signals, callbacks and requests to services are values
  in a list of outputs, in the order of the calls; an answer of a service is an input of a later step. Node ids,
  variants and times are type parameters; where the code relies on an order or on particular ids, these are class
  constraints or a record of ids (\<open>ua\<close>, \<open>sort_ids\<close>), with distinctness as a named hypothesis. The types of the
  \<open>scada\<close>, \<open>base\<close> and \<open>opcua\<close> libraries are not in the repository and are parameters or the plain values the code uses.

  \<^bold>\<open>Shared.\<close> \<open>Prelude\<close> (the option monad, sets of facts), \<open>Std_Map\<close> (ordered stores: the locale \<open>ordered_store\<close>),
  \<open>Intervals\<close> (runs of half-open intervals), \<open>Data_Value\<close> (samples and their traits).

  \<^bold>\<open>Time series and live items.\<close> \<open>Time_Series\<close> models \<open>common/timed_data_util.h\<close> and the views, in the locale
  \<open>sample_traits\<close>, interpreted for data values. \<open>Timed_Data_Buffer\<close> models \<open>timed_data_buffer.h\<close>: samples, ready ranges,
  observed ranges, batches, retention; \<open>Timed_Data_Buffer_Facts\<close> and \<open>Buffer_Claims\<close> give its invariant, the meaning of
  replacing a range, of a gap and of trimming, and the refinement of a map from times to samples. \<open>Aggregation\<close> models
  \<open>common/aggregation.cpp\<close>. \<open>Timed_Data\<close> and \<open>Timed_Data_Runs\<close> model \<open>base_timed_data.cpp\<close>, \<open>timed_data_impl.cpp\<close> and
  \<open>timed_data_fetcher.cpp\<close> as one state with steps; \<open>Expression_Timed_Data\<close> and \<open>Expression_Claims\<close> model the
  calculated item of \<open>expression_timed_data.cpp\<close>, with the evaluation of the formula as a parameter.

  \<^bold>\<open>Events.\<close> \<open>Event_Ack_Queue\<close>, \<open>Event_Storage\<close> (with its facts) and \<open>Event_Fetcher\<close> model \<open>events/\<close>;
  \<open>Event_Claims\<close> shows the refinement of the storage to a map of active events and the invariant of all runs.

  \<^bold>\<open>Fetching nodes from a server.\<close> \<open>Node_State\<close> (\<open>common/node_state.cpp\<close>), \<open>Node_Sort\<close> (\<open>common/node_state_util.cpp\<close>),
  \<open>Fetch_Queue\<close>, \<open>Fetching_Graph\<close>, \<open>Node_Fetcher\<close> and \<open>Children_Fetcher\<close> model \<open>node_service/\<close>: a graph of nodes
  being fetched, a heap of waiting nodes, the requests in flight and the delivery of nodes whose dependencies are
  complete. \<open>Node_Fetcher_Steps\<close>, \<open>_Facts\<close>, \<open>_Runs\<close> and \<open>_Claims\<close> hold the step relation and its invariant.
  \<open>Service_Fetcher\<close> models the fetcher of one node state through the attribute and view services, and \<open>Fetch_Server\<close>
  runs it against the models of these services: what is fetched is what the server exports.

  \<^bold>\<open>The node service of a client.\<close> \<open>Node_Model\<close> and \<open>Node_Service\<close> model \<open>node_service/base_node_model.cpp\<close> and the
  files of \<open>node_service/v3/\<close>: the models of the nodes with their fetch status, the coroutines that fetch a node or its
  children, split at the points where they wait, the pins and the eviction of models. \<open>Node_Service_Facts\<close> holds the
  invariant \<open>service_ok\<close>, \<open>Node_Service_Claims\<close> the runs (\<open>vs_reachable\<close>), what is never lost, and which answers wake
  a waiting call. Runs take a contract on the answers of the server, which may be none (\<open>C = None\<close>); only that edges
  stand once in a snapshot needs one. \<open>Node_Queries\<close> models the queries of \<open>node_service/node_util.cpp\<close> and of the cursors on top of it.
  The locale \<open>read_interface\<close> of \<open>Node_Query_Facts\<close> says what a query may rely on when it reads a node: it is
  interpreted for reading a node and for reading the target of a reference. \<open>Node_Query_Claims\<close> shows that queries keep
  the invariant and the models that are held or find room in the window (\<open>same_data\<close>), what they answer, and when the
  walk over supertypes ends.

  \<^bold>\<open>The address space of a server.\<close> \<open>Address_Space\<close> models \<open>address_space_impl.cpp\<close>, \<open>node.cpp\<close>, \<open>type_definition.cpp\<close>
  as a heap from ids to nodes with typed references in both directions; \<open>Node_Utils\<close> and \<open>Node_Walks\<close> the getters and
  walks of \<open>node_utils.cpp\<close> and \<open>address_space_util.cpp\<close>; \<open>Node_Factory\<close> the generic factory; \<open>View_Service\<close> and
  \<open>Attribute_Service\<close> the two services. \<open>Address_Space_Runs\<close> shows the invariant of all operations,
  \<open>Address_Space_Claims\<close> what deleting a node does, where its descendants form a forest and the types of their
  references stay,
  \<open>Address_Space_Examples\<close> a small server on which the witnesses run. \<open>Node_Ids\<close> models \<open>model/node_id_util.cpp\<close>.

  \<^bold>\<open>Address spaces in files.\<close> \<open>Variant_Xml\<close>, \<open>Space_Xml\<close> and \<open>Node_Set_Xml\<close> model \<open>address_space_xml.cpp\<close>: variants,
  node states and documents in XML, the standard node sets, the promotion of parents, and the loading of several files
  into an address space through the node factory. The nodes of the XML library are a parameter; \<open>xml_ok\<close> states its
  documented behaviour, and \<open>Space_Xml_Claims\<close> has an instance. A document that was saved is not the one that is loaded
  later: \<open>xe_reload\<close> stands for the file in between, where texts of white space are dropped. \<open>Space_Xml_Facts\<close>
  shows that elements made from printable states survive it (\<open>neat_node\<close>), so that what is saved is read back, except
  for properties without a declaration. \<open>Load_Facts\<close> and \<open>Space_Xml_Claims\<close> show that loading only adds to an address
  space, links everything the files name and places the new nodes below their parents, and what is lost on the way.

  \<^bold>\<open>Bounds and fuel.\<close> Walks over supertypes and the nested creations of the factory take fuel, because the code does not
  bound them (the promotion of parents is bounded by 64 in the code): \<open>None\<close> is then a walk that does not end, \<open>create_node_fuel\<close> shows that more fuel changes no result, and
  the claims about loops that do end (\<open>get_all_nodes_correct\<close>, \<open>get_root_nested_node_id_returns\<close>) or do not
  (\<open>delete_node_cycle_hangs\<close>, \<open>cyclic_supertypes_hang\<close>) are stated as such. Sequence numbers and counts are natural
  numbers; the bound of fifty changed properties in \<open>ModifyNode\<close> is kept.

  \<^bold>\<open>Not modelled.\<close> Text formatting, COM and OPC UA conversions, the generated id tables, mocks and fakes, the
  construction of services and pure forwarding (\<open>format.cpp\<close>, \<open>opc/\<close>, \<open>opcua_bridge/\<close>,
  \<open>vidicon/\<close>, \<open>model/gen\<close>): they are calls of libraries that are not in the repository. Threads are not modelled: every
  component runs on one executor. Logging and metrics have no effect on the state, but for one record of
  \<open>timed_data_fetcher.cpp\<close> whose formatting is fatal (\<open>te_log_info\<close>).
\<close>

end
